(* ===== verification/KV_Store.thy ===== *)
theory KV_Store
  imports Band_Prelude
begin

text \<open>
  The ordered key-value store the keepers write to. A store is a finite map that iterates in
  the ascending order of its keys; here it is a sorted association list. The laws a keeper
  relies on are the locale \<open>ordered_store\<close>, interpreted on the association list; the modules'
  stores have byte-string keys, ordered lexicographically, and are iterated by prefix.
\<close>

section \<open>Operations\<close>

type_synonym ('k, 'v) kv = "('k \<times> 'v) list"

definition kv_get :: "('k, 'v) kv \<Rightarrow> 'k \<Rightarrow> 'v option" where
  "kv_get m k = map_of m k"

definition kv_has :: "('k, 'v) kv \<Rightarrow> 'k \<Rightarrow> bool" where
  "kv_has m k \<longleftrightarrow> kv_get m k \<noteq> None"

fun kv_set :: "('k::linorder, 'v) kv \<Rightarrow> 'k \<Rightarrow> 'v \<Rightarrow> ('k, 'v) kv" where
  "kv_set [] k v = [(k, v)]"
| "kv_set ((k', v') # m) k v =
     (if k = k' then (k, v) # m
      else if k < k' then (k, v) # (k', v') # m
      else (k', v') # kv_set m k v)"

definition kv_delete :: "('k, 'v) kv \<Rightarrow> 'k \<Rightarrow> ('k, 'v) kv" where
  "kv_delete m k = filter (\<lambda>e. fst e \<noteq> k) m"

definition kv_ok :: "('k::linorder, 'v) kv \<Rightarrow> bool" where
  "kv_ok m \<longleftrightarrow> sorted_wrt (<) (map fst m)"

text \<open>Ascending iteration over the entries whose key has the given prefix, and its reverse.\<close>

fun has_prefix :: "bytes \<Rightarrow> bytes \<Rightarrow> bool" where
  "has_prefix [] k = True"
| "has_prefix (p # ps) [] = False"
| "has_prefix (p # ps) (b # bs) = (p = b \<and> has_prefix ps bs)"

definition kv_prefix_iterator :: "(bytes, 'v) kv \<Rightarrow> bytes \<Rightarrow> (bytes \<times> 'v) list" where
  "kv_prefix_iterator m p = filter (\<lambda>e. has_prefix p (fst e)) m"

definition kv_reverse_prefix_iterator :: "(bytes, 'v) kv \<Rightarrow> bytes \<Rightarrow> (bytes \<times> 'v) list" where
  "kv_reverse_prefix_iterator m p = rev (kv_prefix_iterator m p)"

section \<open>The interface\<close>

locale ordered_store =
  fixes empty :: "'s"
    and get :: "'s \<Rightarrow> 'k::linorder \<Rightarrow> 'v option"
    and put :: "'s \<Rightarrow> 'k \<Rightarrow> 'v \<Rightarrow> 's"
    and del :: "'s \<Rightarrow> 'k \<Rightarrow> 's"
    and entries :: "'s \<Rightarrow> ('k \<times> 'v) list"
    and invar :: "'s \<Rightarrow> bool"
  assumes get_empty: "get empty k = None"
    and get_put: "get (put s k v) k' = (if k' = k then Some v else get s k')"
    and get_del: "get (del s k) k' = (if k' = k then None else get s k')"
    and invar_empty: "invar empty"
    and invar_put: "invar s \<Longrightarrow> invar (put s k v)"
    and invar_del: "invar s \<Longrightarrow> invar (del s k)"
    and entries_ascending: "invar s \<Longrightarrow> sorted_wrt (<) (map fst (entries s))"
    and entries_get: "invar s \<Longrightarrow> (k, v) \<in> set (entries s) \<longleftrightarrow> get s k = Some v"
begin

lemma get_put_same: "get (put s k v) k = Some v"
  by (simp add: get_put)

lemma get_put_other: "k' \<noteq> k \<Longrightarrow> get (put s k v) k' = get s k'"
  by (simp add: get_put)

lemma get_put_del: "get (put (del s k) k v) k' = get (put s k v) k'"
  by (simp add: get_put get_del)

lemma entries_distinct: "invar s \<Longrightarrow> distinct (map fst (entries s))"
  using entries_ascending strict_sorted_iff by blast

lemma entries_determine:
  assumes "invar s" and "invar t" and "\<And>k. get s k = get t k"
  shows "entries s = entries t"
proof -
  have set_eq: "set (entries s) = set (entries t)"
    using assms by (auto simp: entries_get)
  have sorted: "sorted (map fst (entries s))" "sorted (map fst (entries t))"
    using assms entries_ascending strict_sorted_iff by blast+
  have keys: "map fst (entries s) = map fst (entries t)"
    using sorted set_eq assms entries_distinct
    by (intro sorted_distinct_set_unique) (auto simp: image_iff)
  show ?thesis
  proof (rule nth_equalityI)
    show len: "length (entries s) = length (entries t)"
      using keys map_eq_imp_length_eq by blast
    fix i assume i: "i < length (entries s)"
    with len have "entries s ! i \<in> set (entries t)" using set_eq nth_mem by blast
    moreover have "entries t ! i \<in> set (entries t)" using i len by simp
    moreover have "fst (entries s ! i) = fst (entries t ! i)"
      using keys i len by (metis nth_map)
    ultimately show "entries s ! i = entries t ! i"
      by (metis assms(2) entries_get option.inject prod.collapse)
  qed
qed

lemma empty_entries_iff: "invar s \<Longrightarrow> entries s = [] \<longleftrightarrow> (\<forall>k. get s k = None)"
  by (metis empty_iff entries_get list.set(1) not_None_eq old.prod.exhaust last_in_set)

end

section \<open>The association list provides it\<close>

lemma kv_get_Nil [simp]: "kv_get [] k = None"
  by (simp add: kv_get_def)

lemma kv_get_set [simp]: "kv_get (kv_set m k v) k' = (if k' = k then Some v else kv_get m k')"
  by (induction m k v rule: kv_set.induct) (auto simp: kv_get_def)

lemma kv_get_delete [simp]: "kv_get (kv_delete m k) k' = (if k' = k then None else kv_get m k')"
  by (induction m) (auto simp: kv_get_def kv_delete_def)

lemma kv_keys_set: "fst ` set (kv_set m k v) = insert k (fst ` set m)"
  by (induction m k v rule: kv_set.induct) auto

lemma kv_ok_Nil [simp]: "kv_ok []"
  by (simp add: kv_ok_def)

lemma kv_ok_set [simp, intro]: "kv_ok m \<Longrightarrow> kv_ok (kv_set m k v)"
proof (induction m k v rule: kv_set.induct)
  case (2 k' v' m k v)
  have "\<forall>x \<in> fst ` set (kv_set m k v). k' < x" if "\<not> k < k'" "k \<noteq> k'"
    using 2 that by (auto simp: kv_keys_set kv_ok_def)
  with 2 show ?case by (auto simp: kv_ok_def)
qed (simp add: kv_ok_def)

lemma kv_ok_filter [simp, intro]: "kv_ok m \<Longrightarrow> kv_ok (filter P m)"
  by (auto simp: kv_ok_def sorted_wrt_map intro: sorted_wrt_filter)

lemma kv_ok_delete [simp, intro]: "kv_ok m \<Longrightarrow> kv_ok (kv_delete m k)"
  by (simp add: kv_delete_def)

lemma kv_mem_iff: "kv_ok m \<Longrightarrow> (k, v) \<in> set m \<longleftrightarrow> kv_get m k = Some v"
  unfolding kv_get_def kv_ok_def by (metis map_of_eq_Some_iff strict_sorted_iff)

lemma kv_getD: "kv_get m k = Some v \<Longrightarrow> (k, v) \<in> set m"
  by (simp add: kv_get_def map_of_SomeD)

lemma kv_ball: "kv_ok m \<Longrightarrow> (\<forall>e\<in>set m. P (fst e) (snd e)) \<longleftrightarrow> (\<forall>k v. kv_get m k = Some v \<longrightarrow> P k v)"
  by (simp flip: kv_mem_iff) force

lemma kv_bex: "kv_ok m \<Longrightarrow> (\<exists>e\<in>set m. P (fst e) (snd e)) \<longleftrightarrow> (\<exists>k v. kv_get m k = Some v \<and> P k v)"
  by (simp flip: kv_mem_iff) force

interpretation kv: ordered_store "[]" kv_get kv_set kv_delete "\<lambda>m. m" kv_ok
  by unfold_locales (auto simp: kv_mem_iff, simp add: kv_ok_def)

lemma kv_has_simps [simp]:
  "kv_has [] k = False"
  "kv_has (kv_set m k v) k' = (k' = k \<or> kv_has m k')"
  "kv_has (kv_delete m k) k' = (k' \<noteq> k \<and> kv_has m k')"
  by (auto simp: kv_has_def)

text \<open>Writing entries in ascending order rebuilds a store.\<close>

lemma kv_set_last: "\<forall>e\<in>set m. fst e < k \<Longrightarrow> kv_set m k v = m @ [(k, v)]"
  by (induction m k v rule: kv_set.induct) auto

lemma kv_ok_snoc: "kv_ok (m @ [(k, v)]) \<longleftrightarrow> kv_ok m \<and> (\<forall>e\<in>set m. fst e < k)"
  by (auto simp: kv_ok_def sorted_wrt_append)

text \<open>The sum of a quantity over the values of a store.\<close>

definition kv_sum :: "('v \<Rightarrow> int) \<Rightarrow> ('k, 'v) kv \<Rightarrow> int" where
  "kv_sum f m = sum_list (map (f \<circ> snd) m)"

definition kv_part :: "('v \<Rightarrow> int) \<Rightarrow> ('k, 'v) kv \<Rightarrow> 'k \<Rightarrow> int" where
  "kv_part f m k = (case kv_get m k of None \<Rightarrow> 0 | Some v \<Rightarrow> f v)"

lemma kv_sum_set: "kv_ok m \<Longrightarrow> kv_sum f (kv_set m k v) = kv_sum f m - kv_part f m k + f v"
proof (induction m k v rule: kv_set.induct)
  case (2 k' v' m k v)
  have "kv_ok m" and "k < k' \<Longrightarrow> kv_get m k = None"
    using 2(2) by (auto simp: kv_ok_def kv_get_def map_of_eq_None_iff image_iff)
  with 2 show ?case by (auto simp: kv_sum_def kv_part_def kv_get_def split: option.splits)
qed (simp add: kv_sum_def kv_part_def)

lemma kv_sum_delete: "kv_ok m \<Longrightarrow> kv_sum f (kv_delete m k) = kv_sum f m - kv_part f m k"
proof (induction m)
  case (Cons e m)
  have "kv_ok m" and rest: "k \<notin> fst ` set m" if "fst e = k"
    using Cons.prems that by (auto simp: kv_ok_def)
  from rest have "filter (\<lambda>e. fst e \<noteq> k) m = m" if "fst e = k"
    using that by (simp add: filter_id_conv image_iff) metis
  with Cons show ?case
    by (cases e) (auto simp: kv_sum_def kv_part_def kv_delete_def kv_get_def kv_ok_def)
qed (simp add: kv_sum_def kv_part_def kv_delete_def)

section \<open>Prefix iteration\<close>

lemma has_prefix_iff: "has_prefix p k \<longleftrightarrow> (\<exists>r. k = p @ r)"
  by (induction p k rule: has_prefix.induct) auto

lemma has_prefix_append [simp]: "has_prefix p (p @ r)"
  by (auto simp: has_prefix_iff)

lemma set_kv_prefix_iterator:
  "kv_ok m \<Longrightarrow>
   set (kv_prefix_iterator m p) = {(k, v). has_prefix p k \<and> kv_get m k = Some v}"
  by (auto simp: kv_prefix_iterator_def kv_mem_iff)

lemma set_kv_reverse_prefix_iterator:
  "set (kv_reverse_prefix_iterator m p) = set (kv_prefix_iterator m p)"
  by (simp add: kv_reverse_prefix_iterator_def)

lemma kv_prefix_iterator_ascending:
  "kv_ok m \<Longrightarrow> sorted_wrt (\<lambda>a b. fst a < fst b) (kv_prefix_iterator m p)"
  by (auto simp: kv_prefix_iterator_def kv_ok_def sorted_wrt_map intro: sorted_wrt_filter)

lemma kv_reverse_prefix_iterator_descending:
  "kv_ok m \<Longrightarrow> sorted_wrt (\<lambda>a b. fst b < fst a) (kv_reverse_prefix_iterator m p)"
  using kv_prefix_iterator_ascending [of m p]
  by (simp add: kv_reverse_prefix_iterator_def sorted_wrt_rev)

section \<open>Big-endian integers\<close>

text \<open>\<open>binary.BigEndian.PutUint64\<close> and its kin write \<open>n\<close> bytes, most significant first.\<close>

fun be_bytes :: "nat \<Rightarrow> nat \<Rightarrow> bytes" where
  "be_bytes 0 v = []"
| "be_bytes (Suc n) v = be_bytes n (v div 256) @ [of_nat v]"

definition be_value :: "bytes \<Rightarrow> nat" where
  "be_value bs = foldl (\<lambda>a b. a * 256 + unat b) 0 bs"

lemma length_be_bytes [simp]: "length (be_bytes n v) = n"
  by (induction n arbitrary: v) auto

lemma be_value_snoc [simp]: "be_value (bs @ [b]) = be_value bs * 256 + unat b"
  by (simp add: be_value_def)

lemma be_value_Nil [simp]: "be_value [] = 0"
  by (simp add: be_value_def)

lemma unat_of_nat_byte: "unat (of_nat v :: byte) = v mod 256"
  by (simp add: unat_of_nat)

lemma be_value_be_bytes: "be_value (be_bytes n v) = v mod 256 ^ n"
proof (induction n arbitrary: v)
  case (Suc n)
  have "v mod (256 * 256 ^ n) = 256 * (v div 256 mod 256 ^ n) + v mod 256"
    by (simp add: mod_mult2_eq)
  with Suc show ?case by (simp add: unat_of_nat_byte)
qed simp

lemma be_value_be_bytes_id: "v < 256 ^ n \<Longrightarrow> be_value (be_bytes n v) = v"
  by (simp add: be_value_be_bytes)

lemma be_bytes_inj: "v < 256 ^ n \<Longrightarrow> w < 256 ^ n \<Longrightarrow> be_bytes n v = be_bytes n w \<longleftrightarrow> v = w"
  by (metis be_value_be_bytes_id)

lemma be_value_less: "be_value bs < 256 ^ length bs"
proof (induction bs rule: rev_induct)
  case (snoc b bs)
  have "unat b < 256" using unsigned_less [of b] by simp
  with snoc show ?case by simp
qed simp

lemma be_bytes_be_value: "be_bytes (length bs) (be_value bs) = bs"
proof (induction bs rule: rev_induct)
  case (snoc b bs)
  have b: "unat b < 256" using unsigned_less [of b] by simp
  then have "(be_value bs * 256 + unat b) div 256 = be_value bs" by simp
  moreover have "(of_nat (be_value bs * 256 + unat b) :: byte) = b"
    by (rule word_unat_eq_iff [THEN iffD2], simp only: unat_of_nat_byte) (use b in simp)
  ultimately show ?case using snoc by simp
qed simp

text \<open>Big-endian encodings of one width are ordered as the numbers are.\<close>

lemma lex_less_append_same_length:
  fixes xs :: "'a::linorder list"
  assumes "length xs = length ys"
  shows "xs @ us < ys @ vs \<longleftrightarrow> xs < ys \<or> xs = ys \<and> us < vs"
  using assms
proof (induction xs ys rule: list_induct2)
  case (Cons x xs y ys)
  then show ?case by (auto simp: Cons_less_Cons)
qed simp

lemma div_mod_less_iff:
  "v div 256 < w div 256 \<or> v div 256 = w div 256 \<and> v mod 256 < w mod 256 \<longleftrightarrow> v < (w::nat)"
proof -
  obtain a b c d where v: "v = 256 * a + b" "b < 256" and w: "w = 256 * c + d" "d < 256"
    using div_mod_decomp [of v 256] div_mod_decomp [of w 256]
    by (metis mod_less_divisor mult.commute zero_less_numeral)
  then show ?thesis by auto
qed

lemma be_bytes_less:
  assumes "v < 256 ^ n" and "w < 256 ^ n"
  shows "be_bytes n v < be_bytes n w \<longleftrightarrow> v < w"
  using assms
proof (induction n arbitrary: v w)
  case (Suc n)
  have bnd: "v div 256 < 256 ^ n" "w div 256 < 256 ^ n"
    using Suc.prems by (auto simp: less_mult_imp_div_less mult.commute)
  have "be_bytes (Suc n) v < be_bytes (Suc n) w \<longleftrightarrow>
      v div 256 < w div 256 \<or> v div 256 = w div 256 \<and> v mod 256 < w mod 256"
    using Suc.IH [OF bnd] be_bytes_inj [OF bnd]
    by (simp add: lex_less_append_same_length word_less_nat_alt unat_of_nat_byte)
  also have "\<dots> \<longleftrightarrow> v < w"
    by (rule div_mod_less_iff)
  finally show ?case .
qed simp

end
