(* ===== verification/KV_Index.thy ===== *)
theory KV_Index
  imports KV_Store
begin

text \<open>
  A secondary index over a store: next to every value the keeper writes an index entry, so that it
  can iterate in another order. The locale \<open>keyed_index\<close> is the contract between the two key
  functions; its lemmas keep the index in step with the store through deletions and insertions,
  and describe what iterating the index yields.
\<close>

definition index_ok ::
  "('v \<Rightarrow> bytes) \<Rightarrow> ('v \<Rightarrow> bytes) \<Rightarrow> ('v \<Rightarrow> 'x) \<Rightarrow> ('v \<Rightarrow> bool) \<Rightarrow> (bytes, 'v) kv \<Rightarrow> (bytes, 'x) kv \<Rightarrow> bool" where
  "index_ok pk ik iv good P I \<longleftrightarrow> kv_ok P \<and> kv_ok I \<and>
     (\<forall>k v. kv_get P k = Some v \<longrightarrow> good v \<and> k = pk v) \<and>
     (\<forall>i x. kv_get I i = Some x \<longleftrightarrow> (\<exists>v. kv_get P (pk v) = Some v \<and> ik v = i \<and> x = iv v))"

locale keyed_index =
  fixes pk :: "'v \<Rightarrow> bytes" and ik :: "'v \<Rightarrow> bytes" and iv :: "'v \<Rightarrow> 'x" and good :: "'v \<Rightarrow> bool"
  assumes ik_determines_pk: "good v \<Longrightarrow> good w \<Longrightarrow> ik v = ik w \<Longrightarrow> pk v = pk w"
begin

lemma index_okD:
  assumes "index_ok pk ik iv good P I"
  shows "kv_ok P" and "kv_ok I" and "kv_get P k = Some v \<Longrightarrow> good v" and "kv_get P k = Some v \<Longrightarrow> k = pk v"
    and "kv_get I i = Some x \<longleftrightarrow> (\<exists>v. kv_get P (pk v) = Some v \<and> ik v = i \<and> x = iv v)"
  using assms unfolding index_ok_def by blast+

lemma index_ok_empty: "index_ok pk ik iv good [] []"
  by (simp add: index_ok_def)

lemma index_ok_delete:
  assumes ok: "index_ok pk ik iv good P I" and v: "kv_get P k = Some v"
  shows "index_ok pk ik iv good (kv_delete P k) (kv_delete I (ik v))"
proof -
  have k: "k = pk v" and goodv: "good v" using index_okD(3,4) [OF ok v] by auto
  have "kv_get (kv_delete I (ik v)) i = Some x \<longleftrightarrow> (\<exists>w. kv_get (kv_delete P k) (pk w) = Some w \<and> ik w = i \<and> x = iv w)" for i x
  proof (cases "i = ik v")
    case True
    have "pk w = k" if "kv_get P (pk w) = Some w" "ik w = i" for w
      using ik_determines_pk [of w v] index_okD(3) [OF ok that(1)] goodv that(2) True k by simp
    then show ?thesis using True by (simp split: if_splits) metis
  next
    case False
    have "pk w \<noteq> k" if "kv_get P (pk w) = Some w" "ik w = i" for w
      using that v False by auto
    then have "(\<exists>w. kv_get (kv_delete P k) (pk w) = Some w \<and> ik w = i \<and> x = iv w) \<longleftrightarrow>
        (\<exists>w. kv_get P (pk w) = Some w \<and> ik w = i \<and> x = iv w)"
      by (simp split: if_splits) metis
    then show ?thesis using index_okD(5) [OF ok, of i x] False by simp
  qed
  moreover have "kv_ok (kv_delete P k)" "kv_ok (kv_delete I (ik v))" using index_okD(1,2) [OF ok] by auto
  moreover have "kv_get (kv_delete P k) l = Some w \<Longrightarrow> good w \<and> l = pk w" for l w
    using index_okD(3,4) [OF ok, of l w] by (simp split: if_splits)
  ultimately show ?thesis unfolding index_ok_def by blast
qed

lemma index_ok_insert:
  assumes ok: "index_ok pk ik iv good P I" and new: "kv_get P (pk v) = None" and goodv: "good v"
  shows "index_ok pk ik iv good (kv_set P (pk v) v) (kv_set I (ik v) (iv v))"
proof -
  let ?P = "kv_set P (pk v) v"
  have goods: "kv_get ?P k = Some w \<Longrightarrow> good w \<and> k = pk w" for k w
    using index_okD(3,4) [OF ok, of k w] goodv by (auto split: if_splits)
  have "kv_get (kv_set I (ik v) (iv v)) i = Some x \<longleftrightarrow> (\<exists>w. kv_get ?P (pk w) = Some w \<and> ik w = i \<and> x = iv w)" for i x
  proof (cases "i = ik v")
    case True
    have "w = v" if "kv_get ?P (pk w) = Some w" "ik w = i" for w
    proof -
      have "pk w = pk v" using ik_determines_pk [of w v] goods [OF that(1)] goodv that(2) True by simp
      then show ?thesis using that(1) by simp
    qed
    moreover have "kv_get ?P (pk v) = Some v" by simp
    ultimately have "(\<exists>w. kv_get ?P (pk w) = Some w \<and> ik w = i \<and> x = iv w) \<longleftrightarrow> x = iv v" using True by metis
    moreover have "kv_get (kv_set I (ik v) (iv v)) i = Some x \<longleftrightarrow> x = iv v" using True by auto
    ultimately show ?thesis by blast
  next
    case False
    have "kv_get ?P (pk w) = Some w \<and> ik w = i \<longleftrightarrow> kv_get P (pk w) = Some w \<and> ik w = i" for w
      using False new by auto
    then have "(\<exists>w. kv_get ?P (pk w) = Some w \<and> ik w = i \<and> x = iv w) \<longleftrightarrow> (\<exists>w. kv_get P (pk w) = Some w \<and> ik w = i \<and> x = iv w)"
      by metis
    also have "\<dots> \<longleftrightarrow> kv_get I i = Some x" using index_okD(5) [OF ok, of i x] by blast
    finally show ?thesis using False by simp
  qed
  moreover have "kv_ok ?P" "kv_ok (kv_set I (ik v) (iv v))" using index_okD(1,2) [OF ok] by auto
  ultimately show ?thesis unfolding index_ok_def using goods by blast
qed

lemma index_entry:
  assumes "index_ok pk ik iv good P I" and "(i, x) \<in> set I"
  obtains v where "kv_get P (pk v) = Some v" and "good v" and "i = ik v" and "x = iv v"
proof -
  have "kv_get I i = Some x" using assms(2) kv_mem_iff [OF index_okD(2) [OF assms(1)]] by blast
  then obtain v where "kv_get P (pk v) = Some v" "ik v = i" "x = iv v" using index_okD(5) [OF assms(1)] by blast
  then show ?thesis using that index_okD(3) [OF assms(1)] by blast
qed

text \<open>Iterating the index visits every value once, in the order of the index keys.\<close>

lemma index_iteration:
  assumes ok: "index_ok pk ik iv good P I"
  obtains vs where "I = map (\<lambda>v. (ik v, iv v)) vs" and "set vs = {v. kv_get P (pk v) = Some v}" and "distinct vs"
    and "distinct (map pk vs)" and "sorted_wrt (\<lambda>v w. ik v < ik w) vs" and "\<forall>v\<in>set vs. good v"
proof -
  have "\<forall>e\<in>set I. \<exists>v. kv_get P (pk v) = Some v \<and> good v \<and> e = (ik v, iv v)"
    using index_entry [OF ok] by (metis prod.collapse)
  then obtain f where f: "\<And>e. e \<in> set I \<Longrightarrow> kv_get P (pk (f e)) = Some (f e) \<and> good (f e) \<and> e = (ik (f e), iv (f e))" by metis
  define vs where "vs = map f I"
  have I: "I = map (\<lambda>v. (ik v, iv v)) vs" using f by (simp add: vs_def map_idI)
  have asc: "sorted_wrt (\<lambda>v w. ik v < ik w) vs"
    using kv.entries_ascending [OF index_okD(2) [OF ok]] unfolding I by (simp add: sorted_wrt_map o_def)
  have that_mem: "e \<in> set I \<Longrightarrow> f e \<in> set vs" for e by (simp add: vs_def)
  have mem: "v \<in> set vs \<longleftrightarrow> kv_get P (pk v) = Some v" for v
  proof
    assume "kv_get P (pk v) = Some v"
    then have "kv_get I (ik v) = Some (iv v)" using index_okD(5) [OF ok] by blast
    then have "(ik v, iv v) \<in> set I" using kv_mem_iff [OF index_okD(2) [OF ok]] by blast
    define w where "w = f (ik v, iv v)"
    have w: "w \<in> set vs" "kv_get P (pk w) = Some w" "good w" "ik w = ik v"
      using f [OF \<open>(ik v, iv v) \<in> set I\<close>] that_mem [OF \<open>(ik v, iv v) \<in> set I\<close>] unfolding w_def by (blast, blast, blast, metis fst_conv)
    have "pk w = pk v" using ik_determines_pk [OF w(3) index_okD(3) [OF ok \<open>kv_get P (pk v) = Some v\<close>] w(4)] .
    then have "w = v" using w(2) \<open>kv_get P (pk v) = Some v\<close> by (metis option.inject)
    then show "v \<in> set vs" using w(1) by blast
  next
    assume "v \<in> set vs"
    then obtain e where "e \<in> set I" "v = f e" unfolding vs_def by (metis imageE list.set_map)
    then show "kv_get P (pk v) = Some v" using f by blast
  qed
  have goods: "\<forall>v\<in>set vs. good v" using mem index_okD(3) [OF ok] by blast
  have "distinct (map ik vs)" using kv.entries_distinct [OF index_okD(2) [OF ok]] unfolding I by (simp add: o_def)
  then have "distinct vs" by (simp add: distinct_map)
  moreover have "inj_on pk (set vs)" by (rule inj_onI) (metis mem option.inject)
  ultimately have "distinct (map pk vs)" by (simp add: distinct_map)
  then show ?thesis using that I mem asc goods \<open>distinct vs\<close> by blast
qed

end

end
