(* ===== verification/Bandrng.thy ===== *)
theory Bandrng
  imports KV_Store
begin

text \<open>
  Package \<open>pkg/bandrng\<close>: weighted sampling without replacement over a deterministic stream of
  64-bit numbers. The HMAC-DRBG behind the stream is library code: \<open>read\<close> stands for its
  \<open>Read\<close> method on an 8-byte buffer (the buffer's contents and the next generator state), and
  \<open>new_drbg\<close> for its constructor.
\<close>

section \<open>The generator\<close>

type_synonym 'r drbg_read = "'r \<Rightarrow> nat \<Rightarrow> (bytes \<times> 'r) result"

definition NewRng ::
  "(bytes \<Rightarrow> bytes \<Rightarrow> bytes \<Rightarrow> 'r result) \<Rightarrow> bytes \<Rightarrow> bytes \<Rightarrow> bytes \<Rightarrow> 'r result" where
  "NewRng new_drbg entropyInput nonce personalizationString =
     new_drbg entropyInput nonce personalizationString"

definition NextUint64 :: "'r drbg_read \<Rightarrow> 'r \<Rightarrow> (uint64 \<times> 'r) result" where
  "NextUint64 read r =
     (case read r 8 of
        Inl e \<Rightarrow> Inl (Panic ''drbg read'')
      | Inr (data, r') \<Rightarrow> Inr (be_value data, r'))"

section \<open>Sampling\<close>

definition safeAdd :: "uint64 \<Rightarrow> uint64 \<Rightarrow> uint64 result" where
  "safeAdd a b =
     (if 2 ^ 64 - 1 - a < b then Inl (Panic ''bandrng::safeAdd: overflow addition'')
      else Inr (a + b))"

text \<open>The second loop of \<open>ChooseOne\<close>: the first index whose running sum exceeds the draw.\<close>

fun choose_index :: "nat \<Rightarrow> uint64 \<Rightarrow> uint64 \<Rightarrow> uint64 list \<Rightarrow> nat result" where
  "choose_index idx currentSum luckyNumber [] =
     Inl (Panic ''bandrng::ChooseOne: reaching the unreachable'')"
| "choose_index idx currentSum luckyNumber (weight # weights) =
     (let currentSum' = u64 (currentSum + weight) in
      if luckyNumber < currentSum' then Inr idx
      else choose_index (Suc idx) currentSum' luckyNumber weights)"

definition ChooseOne :: "'r drbg_read \<Rightarrow> 'r \<Rightarrow> uint64 list \<Rightarrow> (nat \<times> 'r) result" where
  "ChooseOne read rng weights =
     bindE (foldE safeAdd 0 weights) (\<lambda>sum.
     bindE (NextUint64 read rng) (\<lambda>(x, rng').
     if sum = 0 then Inl (Panic ''integer divide by zero'')
     else bindE (choose_index 0 0 (x mod sum) weights) (\<lambda>idx. Inr (idx, rng'))))"

definition remove_nth :: "nat \<Rightarrow> 'a list \<Rightarrow> 'a list" where
  "remove_nth i xs = take i xs @ drop (Suc i) xs"

fun choose_rounds ::
  "'r drbg_read \<Rightarrow> 'r \<Rightarrow> nat \<Rightarrow> uint64 list \<Rightarrow> nat list \<Rightarrow> nat list \<Rightarrow> (nat list \<times> 'r) result" where
  "choose_rounds read rng 0 availableWeights availableIndexes chosenIndexes =
     Inr (chosenIndexes, rng)"
| "choose_rounds read rng (Suc n) availableWeights availableIndexes chosenIndexes =
     bindE (ChooseOne read rng availableWeights) (\<lambda>(chosen, rng').
     choose_rounds read rng' n (remove_nth chosen availableWeights)
       (remove_nth chosen availableIndexes)
       (chosenIndexes @ [availableIndexes ! chosen]))"

definition ChooseSome ::
  "'r drbg_read \<Rightarrow> 'r \<Rightarrow> uint64 list \<Rightarrow> int \<Rightarrow> (nat list \<times> 'r) result" where
  "ChooseSome read rng weights cnt =
     (if cnt < 0 then Inl (Panic ''makeslice: len out of range'')
      else choose_rounds read rng (nat cnt) weights [0..<length weights] [])"

definition weight_sum :: "uint64 list \<Rightarrow> nat list \<Rightarrow> uint64" where
  "weight_sum weights candidate = foldl (\<lambda>s idx. u64 (s + weights ! idx)) 0 candidate"

fun max_weight_tries ::
  "'r drbg_read \<Rightarrow> 'r \<Rightarrow> uint64 list \<Rightarrow> int \<Rightarrow> nat \<Rightarrow> uint64 \<Rightarrow> nat list \<Rightarrow>
   (nat list \<times> 'r) result" where
  "max_weight_tries read rng weights cnt 0 maxWeightSum maxWeightResult =
     Inr (maxWeightResult, rng)"
| "max_weight_tries read rng weights cnt (Suc n) maxWeightSum maxWeightResult =
     bindE (ChooseSome read rng weights cnt) (\<lambda>(candidate, rng').
     let candidateWeightSum = weight_sum weights candidate in
     if maxWeightSum < candidateWeightSum
     then max_weight_tries read rng' weights cnt n candidateWeightSum candidate
     else max_weight_tries read rng' weights cnt n maxWeightSum maxWeightResult)"

definition ChooseSomeMaxWeight ::
  "'r drbg_read \<Rightarrow> 'r \<Rightarrow> uint64 list \<Rightarrow> int \<Rightarrow> int \<Rightarrow> (nat list \<times> 'r) result" where
  "ChooseSomeMaxWeight read rng weights cnt tries =
     max_weight_tries read rng weights cnt (nat tries) 0 []"

text \<open>What the sampler relies on: the generator always fills the buffer.\<close>

definition drbg_total :: "'r drbg_read \<Rightarrow> bool" where
  "drbg_total read \<longleftrightarrow> (\<forall>r. \<exists>d r'. read r 8 = Inr (d, r') \<and> length d = 8)"

section \<open>Choosing one index\<close>

lemma foldE_safeAdd:
  "s + sum_list ws < 2 ^ 64 \<Longrightarrow> foldE safeAdd s ws = Inr (s + sum_list ws)"
proof (induction ws arbitrary: s)
  case (Cons w ws)
  then have "s + w + sum_list ws < 2 ^ 64" by (simp add: add.assoc)
  from Cons.IH [OF this] Cons.prems show ?case
    by (simp add: safeAdd_def add.assoc)
qed simp

lemma foldE_safeAdd_overflow:
  assumes "2 ^ 64 \<le> s + sum_list ws" "s < 2 ^ 64"
  shows "\<exists>m. foldE safeAdd s ws = Inl (Panic m)"
  using assms
proof (induction ws arbitrary: s)
  case (Cons w ws)
  show ?case
  proof (cases "s + w < 2 ^ 64")
    case True
    with Cons.IH [of "s + w"] Cons.prems show ?thesis by (simp add: safeAdd_def add.assoc)
  next
    case False
    then have "2 ^ 64 - 1 - s < w" using Cons.prems(2) by linarith
    then show ?thesis by (simp add: safeAdd_def)
  qed
qed simp

lemma choose_index_correct:
  assumes "c \<le> l" "l < c + sum_list ws" "c + sum_list ws < 2 ^ 64"
  shows "\<exists>j < length ws. choose_index i c l ws = Inr (i + j) \<and>
           c + sum_list (take j ws) \<le> l \<and> l < c + sum_list (take (Suc j) ws)"
  using assms
proof (induction i c l ws rule: choose_index.induct)
  case (2 i c l w ws)
  have cw: "u64 (c + w) = c + w" using "2.prems" by (simp add: u64_def)
  show ?case
  proof (cases "l < c + w")
    case True
    with "2.prems" cw show ?thesis by (intro exI [of _ 0]) (simp add: Let_def)
  next
    case False
    have "\<exists>j < length ws. choose_index (Suc i) (c + w) l ws = Inr (Suc i + j) \<and>
        c + w + sum_list (take j ws) \<le> l \<and> l < c + w + sum_list (take (Suc j) ws)"
      using "2.IH" [OF cw [symmetric]] False "2.prems" cw by (simp add: add.assoc)
    then obtain j where "j < length ws" "choose_index (Suc i) (c + w) l ws = Inr (Suc i + j)"
      "c + w + sum_list (take j ws) \<le> l" "l < c + w + sum_list (take (Suc j) ws)" by blast
    with False cw show ?thesis
      by (intro exI [of _ "Suc j"]) (simp add: Let_def add.assoc)
  qed
qed simp

lemma NextUint64_total:
  assumes "drbg_total read"
  obtains x r' where "NextUint64 read r = Inr (x, r')" "x < 2 ^ 64"
proof -
  obtain d r' where d: "read r 8 = Inr (d, r')" "length d = 8"
    using assms unfolding drbg_total_def by blast
  then have "be_value d < 2 ^ 64" using be_value_less [of d] by simp
  with d that show ?thesis by (simp add: NextUint64_def)
qed

text \<open>The index sampled for a draw \<open>l\<close> is the one whose weight interval holds \<open>l\<close>.\<close>

definition weight_slot :: "uint64 list \<Rightarrow> nat \<Rightarrow> nat \<Rightarrow> bool" where
  "weight_slot ws l j \<longleftrightarrow>
     j < length ws \<and> sum_list (take j ws) \<le> l \<and> l < sum_list (take (Suc j) ws)"

lemma sum_list_take_mono: "i \<le> j \<Longrightarrow> sum_list (take i ws) \<le> (sum_list (take j ws) :: nat)"
  by (metis le_add1 le_add_diff_inverse sum_list_append take_add)

lemma weight_slot_unique:
  assumes "weight_slot ws l i" "weight_slot ws l j"
  shows "i = j"
proof (rule ccontr)
  assume "i \<noteq> j"
  then consider "Suc i \<le> j" | "Suc j \<le> i" by linarith
  then show False
    using assms sum_list_take_mono [of "Suc i" j ws] sum_list_take_mono [of "Suc j" i ws]
    by cases (auto simp: weight_slot_def)
qed

lemma ChooseOne_eq:
  assumes nx: "NextUint64 read r = Inr (x, r')"
    and S: "0 < sum_list ws" "sum_list ws < 2 ^ 64"
  shows "\<exists>j. ChooseOne read r ws = Inr (j, r') \<and> weight_slot ws (x mod sum_list ws) j"
proof -
  have "x mod sum_list ws < sum_list ws" using S by simp
  with choose_index_correct [of 0 "x mod sum_list ws" ws 0] S
  obtain j where "j < length ws" "choose_index 0 0 (x mod sum_list ws) ws = Inr j"
    "sum_list (take j ws) \<le> x mod sum_list ws" "x mod sum_list ws < sum_list (take (Suc j) ws)"
    by auto
  moreover have "foldE safeAdd 0 ws = Inr (sum_list ws)"
    using foldE_safeAdd [of 0 ws] S(2) by simp
  moreover have "sum_list ws \<noteq> 0" using S(1) by linarith
  ultimately show ?thesis
    using nx by (auto simp only: ChooseOne_def bindE_simps prod.case if_False weight_slot_def)
qed

lemma ChooseOne_weight_pos: "weight_slot ws l j \<Longrightarrow> 0 < ws ! j"
  by (auto simp: weight_slot_def take_Suc_conv_app_nth)

lemma weight_slot_set:
  "j < length ws \<Longrightarrow> {l. weight_slot ws l j} = {sum_list (take j ws) ..< sum_list (take j ws) + ws ! j}"
  by (auto simp: weight_slot_def take_Suc_conv_app_nth)

section \<open>Sampling without replacement\<close>

lemma length_remove_nth [simp]: "i < length xs \<Longrightarrow> length (remove_nth i xs) = length xs - 1"
  by (simp add: remove_nth_def)

lemma set_remove_nth_subset: "set (remove_nth i xs) \<subseteq> set xs"
  unfolding remove_nth_def using set_take_subset set_drop_subset by fastforce

lemma remove_nth_id_cons: "i < length xs \<Longrightarrow> xs = take i xs @ xs ! i # drop (Suc i) xs"
  by (simp add: Cons_nth_drop_Suc)

lemma distinct_remove_nth:
  assumes "distinct xs" "i < length xs"
  shows "distinct (remove_nth i xs)" "xs ! i \<notin> set (remove_nth i xs)"
    "set (remove_nth i xs) = set xs - {xs ! i}"
proof -
  have "distinct (take i xs @ xs ! i # drop (Suc i) xs)"
    "set xs = set (take i xs @ xs ! i # drop (Suc i) xs)"
    using assms remove_nth_id_cons [of i xs] by simp_all
  then show "distinct (remove_nth i xs)" "xs ! i \<notin> set (remove_nth i xs)"
    "set (remove_nth i xs) = set xs - {xs ! i}"
    unfolding remove_nth_def by auto
qed

lemma sum_list_remove_nth: "i < length ws \<Longrightarrow> sum_list (remove_nth i ws) \<le> (sum_list ws :: nat)"
  using arg_cong [OF remove_nth_id_cons [of i ws], of sum_list] by (simp add: remove_nth_def)

lemma sum_list_pos: "ws \<noteq> [] \<Longrightarrow> \<forall>w \<in> set ws. 0 < w \<Longrightarrow> 0 < (sum_list ws :: nat)"
  by (cases ws) auto

lemma choose_rounds_correct:
  assumes "drbg_total read" "length ws = length ixs" "n \<le> length ws"
    "\<forall>w \<in> set ws. 0 < w" "sum_list ws < 2 ^ 64" "distinct ixs"
  shows "\<exists>js r'. choose_rounds read r n ws ixs acc = Inr (acc @ js, r') \<and>
           length js = n \<and> distinct js \<and> set js \<subseteq> set ixs"
  using assms(2-)
proof (induction n arbitrary: r ws ixs acc)
  case 0
  then show ?case by simp
next
  case (Suc n)
  obtain x r1 where x: "NextUint64 read r = Inr (x, r1)"
    using NextUint64_total [OF assms(1)] by blast
  have pos: "0 < sum_list ws" using Suc.prems sum_list_pos [of ws] by fastforce
  obtain j where j: "ChooseOne read r ws = Inr (j, r1)" "j < length ws"
    using ChooseOne_eq [OF x pos Suc.prems(4)] by (auto simp: weight_slot_def)
  have ji: "j < length ixs" using j Suc.prems by simp
  have "\<exists>js r'. choose_rounds read r1 n (remove_nth j ws) (remove_nth j ixs) (acc @ [ixs ! j]) =
      Inr ((acc @ [ixs ! j]) @ js, r') \<and> length js = n \<and> distinct js \<and>
      set js \<subseteq> set (remove_nth j ixs)"
  proof (rule Suc.IH)
    show "length (remove_nth j ws) = length (remove_nth j ixs)"
      using Suc.prems(1) j(2) ji by simp
    show "n \<le> length (remove_nth j ws)" using j Suc.prems by simp
    show "\<forall>w \<in> set (remove_nth j ws). 0 < w"
      using Suc.prems set_remove_nth_subset [of j ws] by blast
    show "sum_list (remove_nth j ws) < 2 ^ 64"
      using sum_list_remove_nth [OF j(2)] Suc.prems by simp
    show "distinct (remove_nth j ixs)" using distinct_remove_nth Suc.prems(5) ji by blast
  qed
  then obtain js r' where
    js: "choose_rounds read r1 n (remove_nth j ws) (remove_nth j ixs) (acc @ [ixs ! j]) =
      Inr ((acc @ [ixs ! j]) @ js, r')" "length js = n" "distinct js"
      "set js \<subseteq> set (remove_nth j ixs)" by blast
  moreover have "ixs ! j \<notin> set js" "ixs ! j \<in> set ixs" "set js \<subseteq> set ixs"
    using js(4) distinct_remove_nth [OF Suc.prems(5) ji] ji by auto
  ultimately show ?case
    using j by (intro exI [of _ "ixs ! j # js"] exI [of _ r']) simp
qed

lemma ChooseSome_correct:
  assumes "drbg_total read" "0 \<le> cnt" "cnt \<le> int (length ws)"
    "\<forall>w \<in> set ws. 0 < w" "sum_list ws < 2 ^ 64"
  shows "\<exists>js r'. ChooseSome read r ws cnt = Inr (js, r') \<and> length js = nat cnt \<and>
           distinct js \<and> (\<forall>j \<in> set js. j < length ws)"
proof -
  have "\<exists>js r'. choose_rounds read r (nat cnt) ws [0..<length ws] [] = Inr ([] @ js, r') \<and>
      length js = nat cnt \<and> distinct js \<and> set js \<subseteq> set [0..<length ws]"
    by (rule choose_rounds_correct) (use assms in auto)
  then show ?thesis using assms by (auto simp: ChooseSome_def subset_iff)
qed

section \<open>The heaviest of several samples\<close>

lemma distinct_sum_le:
  assumes "distinct js" "\<forall>j \<in> set js. j < length ws"
  shows "sum_list (map ((!) ws) js) \<le> (sum_list ws :: nat)"
proof -
  have "sum_list (map ((!) ws) js) = sum ((!) ws) (set js)"
    using assms by (simp add: sum_list_distinct_conv_sum_set)
  also have "\<dots> \<le> sum ((!) ws) {..<length ws}"
    using assms by (intro sum_mono2) auto
  also have "\<dots> = sum_list ws" by (simp add: sum_list_sum_nth atLeast0LessThan)
  finally show ?thesis .
qed

lemma foldl_u64_sum:
  "s + sum_list (map f js) < 2 ^ 64 \<Longrightarrow>
   foldl (\<lambda>s j. u64 (s + f j)) s js = s + sum_list (map f js)"
  by (induction js arbitrary: s) (auto simp: u64_def add.assoc)

lemma weight_sum_eq:
  assumes "distinct js" "\<forall>j \<in> set js. j < length ws" "sum_list ws < 2 ^ 64"
  shows "weight_sum ws js = sum_list (map ((!) ws) js)"
  using foldl_u64_sum [of 0 "(!) ws" js] distinct_sum_le [OF assms(1,2)] assms(3)
  by (simp add: weight_sum_def)

text \<open>The candidates the successive tries draw, in order.\<close>

fun candidates ::
  "'r drbg_read \<Rightarrow> 'r \<Rightarrow> uint64 list \<Rightarrow> int \<Rightarrow> nat \<Rightarrow> nat list list" where
  "candidates read rng weights cnt 0 = []"
| "candidates read rng weights cnt (Suc n) =
     (case ChooseSome read rng weights cnt of
        Inl e \<Rightarrow> []
      | Inr (c, rng') \<Rightarrow> c # candidates read rng' weights cnt n)"

lemma max_weight_tries_correct:
  assumes A: "drbg_total read" "0 \<le> cnt" "cnt \<le> int (length ws)"
    "\<forall>w \<in> set ws. 0 < w" "sum_list ws < 2 ^ 64"
  shows "\<exists>js r'. max_weight_tries read r ws cnt n (weight_sum ws best) best = Inr (js, r') \<and>
           js \<in> insert best (set (candidates read r ws cnt n)) \<and>
           weight_sum ws best \<le> weight_sum ws js \<and>
           (\<forall>c \<in> set (candidates read r ws cnt n). weight_sum ws c \<le> weight_sum ws js)"
proof (induction n arbitrary: r best)
  case (Suc n)
  obtain c r1 where c: "ChooseSome read r ws cnt = Inr (c, r1)"
    using ChooseSome_correct [OF A] by blast
  define best' where "best' = (if weight_sum ws best < weight_sum ws c then c else best)"
  obtain js r' where js: "max_weight_tries read r1 ws cnt n (weight_sum ws best') best' = Inr (js, r')"
    "js \<in> insert best' (set (candidates read r1 ws cnt n))"
    "weight_sum ws best' \<le> weight_sum ws js"
    "\<forall>c \<in> set (candidates read r1 ws cnt n). weight_sum ws c \<le> weight_sum ws js"
    using Suc.IH [of r1 best'] by blast
  have "weight_sum ws best \<le> weight_sum ws best'" "weight_sum ws c \<le> weight_sum ws best'"
    by (auto simp: best'_def)
  with js c show ?case
    by (intro exI [of _ js] exI [of _ r']) (auto simp: best'_def Let_def split: if_splits)
qed simp

lemma candidates_ok:
  assumes "drbg_total read" "0 \<le> cnt" "cnt \<le> int (length ws)"
    "\<forall>w \<in> set ws. 0 < w" "sum_list ws < 2 ^ 64"
  shows "length (candidates read r ws cnt n) = n \<and>
    (\<forall>c \<in> set (candidates read r ws cnt n).
       length c = nat cnt \<and> distinct c \<and> (\<forall>j \<in> set c. j < length ws))"
proof (induction n arbitrary: r)
  case (Suc n)
  obtain c r1 where "ChooseSome read r ws cnt = Inr (c, r1)" "length c = nat cnt" "distinct c"
    "\<forall>j \<in> set c. j < length ws" using ChooseSome_correct [OF assms] by blast
  with Suc show ?case by simp
qed simp

section \<open>Properties\<close>

text \<open>
  For weights with a positive sum below \<open>2 ^ 64\<close>, \<open>ChooseOne\<close> never panics (in particular it
  never reaches the panic its author calls unreachable), consumes one draw \<open>x\<close>, and returns the
  index in whose weight interval \<open>x mod sum\<close> lies.
\<close>

theorem ChooseOne_correct:
  assumes "drbg_total read" and "0 < sum_list ws" and "sum_list ws < 2 ^ 64"
  shows "\<exists>x j r'. NextUint64 read r = Inr (x, r') \<and> ChooseOne read r ws = Inr (j, r') \<and>
           j < length ws \<and> sum_list (take j ws) \<le> x mod sum_list ws \<and>
           x mod sum_list ws < sum_list (take (Suc j) ws)"
proof -
  obtain x r' where x: "NextUint64 read r = Inr (x, r')"
    using NextUint64_total [OF assms(1)] by blast
  with ChooseOne_eq [OF x assms(2,3)] show ?thesis by (auto simp: weight_slot_def)
qed

definition const_read :: "bytes \<Rightarrow> unit drbg_read" where
  "const_read d r n = Inr (d, r)"

lemma drbg_total_const_read: "length d = 8 \<Longrightarrow> drbg_total (const_read d)"
  by (simp add: drbg_total_def const_read_def)

theorem ChooseOne_correct_witness:
  "\<exists>x j r'. NextUint64 (const_read (be_bytes 8 7)) () = Inr (x, r') \<and>
     ChooseOne (const_read (be_bytes 8 7)) () [2, 4, 4] = Inr (j, r') \<and>
     j < length [2, 4, 4 :: nat] \<and> sum_list (take j [2, 4, 4]) \<le> x mod sum_list [2, 4, 4] \<and>
     x mod sum_list [2, 4, 4] < sum_list (take (Suc j) [2, 4, 4])"
  by (rule ChooseOne_correct) (simp_all add: drbg_total_const_read)

text \<open>
  The selection is proportional to the weights: of the \<open>sum\<close> equally likely draws
  \<open>0, \<dots>, sum - 1\<close>, exactly \<open>weights[j]\<close> make \<open>ChooseOne\<close> return \<open>j\<close>.
\<close>

theorem ChooseOne_proportional:
  assumes "sum_list ws < 2 ^ 64" and "j < length ws"
  shows "card {l. l < sum_list ws \<and>
           ChooseOne (const_read (be_bytes 8 l)) () ws = Inr (j, ())} = ws ! j"
proof -
  have "ChooseOne (const_read (be_bytes 8 l)) () ws = Inr (j, ()) \<longleftrightarrow> weight_slot ws l j"
    if l: "l < sum_list ws" for l
  proof -
    have "NextUint64 (const_read (be_bytes 8 l)) () = Inr (l, ())"
      using l assms(1) by (simp add: NextUint64_def const_read_def be_value_be_bytes_id)
    from ChooseOne_eq [OF this _ assms(1)] l
    obtain k where "ChooseOne (const_read (be_bytes 8 l)) () ws = Inr (k, ())" "weight_slot ws l k"
      by auto
    then show ?thesis using weight_slot_unique by auto
  qed
  moreover have "weight_slot ws l j \<Longrightarrow> l < sum_list ws" for l
    using sum_list_take_mono [of "Suc j" "length ws" ws] assms(2) by (auto simp: weight_slot_def)
  ultimately have "{l. l < sum_list ws \<and>
      ChooseOne (const_read (be_bytes 8 l)) () ws = Inr (j, ())} = {l. weight_slot ws l j}"
    by blast
  then show ?thesis by (simp add: weight_slot_set [OF assms(2)])
qed

theorem ChooseOne_proportional_witness:
  "card {l. l < sum_list [2, 4, 4 :: nat] \<and>
     ChooseOne (const_read (be_bytes 8 l)) () [2, 4, 4] = Inr (1, ())} = [2, 4, 4] ! 1"
  by (rule ChooseOne_proportional) simp_all

lemma ChooseSomeMaxWeight_best:
  assumes "drbg_total read" and "1 \<le> cnt" and "cnt \<le> int (length ws)"
    and "\<forall>w \<in> set ws. 0 < w" and "sum_list ws < 2 ^ 64" and "1 \<le> tries"
  shows "\<exists>js r'. ChooseSomeMaxWeight read r ws cnt tries = Inr (js, r') \<and>
           length js = nat cnt \<and> distinct js \<and> (\<forall>j \<in> set js. j < length ws) \<and>
           js \<in> set (candidates read r ws cnt (nat tries)) \<and>
           (\<forall>c \<in> set (candidates read r ws cnt (nat tries)).
              sum_list (map ((!) ws) c) \<le> sum_list (map ((!) ws) js))"
proof -
  let ?C = "candidates read r ws cnt (nat tries)"
  have A: "drbg_total read" "0 \<le> cnt" "cnt \<le> int (length ws)"
    "\<forall>w \<in> set ws. 0 < w" "sum_list ws < 2 ^ 64" using assms by auto
  note ok = candidates_ok [OF A, of r "nat tries"]
  obtain js r' where js: "max_weight_tries read r ws cnt (nat tries) (weight_sum ws []) [] = Inr (js, r')"
    "js \<in> insert [] (set ?C)" "\<forall>c \<in> set ?C. weight_sum ws c \<le> weight_sum ws js"
    using max_weight_tries_correct [OF A, of r "nat tries" "[]"] by blast
  have ws: "weight_sum ws c = sum_list (map ((!) ws) c)" if "c \<in> insert [] (set ?C)" for c
    using ok that by (auto intro: weight_sum_eq [OF _ _ A(5)])
  obtain c where c: "c \<in> set ?C" using ok assms(6) by (metis One_nat_def length_0_conv
      nat_le_eq_zle nat_one_as_int not_one_le_zero equals0I set_empty zero_le_one nat_0_iff order_trans)
  have "0 < weight_sum ws c"
  proof -
    have "c \<noteq> []" "\<forall>j \<in> set c. j < length ws" using ok c assms(2) by auto
    then have "0 < sum_list (map ((!) ws) c)"
      using assms(4) by (intro sum_list_pos) auto
    with ws c show ?thesis by simp
  qed
  with js(3) c have "0 < weight_sum ws js" by fastforce
  then have "js \<noteq> []" by (auto simp: weight_sum_def)
  with js ok ws show ?thesis
    by (auto simp: ChooseSomeMaxWeight_def weight_sum_def intro!: exI [of _ js])
qed

text \<open>
  C23: with positive weights of a sum below \<open>2 ^ 64\<close>, at most as many picks as weights and at least
  one try, \<open>ChooseSomeMaxWeight\<close> never panics and returns \<open>cnt\<close> distinct valid indexes: one of
  the candidates its tries drew, and none of those candidates is heavier.
\<close>

theorem ChooseSomeMaxWeight_correct:
  assumes "drbg_total read" and "1 \<le> cnt" and "cnt \<le> int (length ws)"
    and "\<forall>w \<in> set ws. 0 < w" and "sum_list ws < 2 ^ 64" and "1 \<le> tries"
  shows "\<exists>js r'. ChooseSomeMaxWeight read r ws cnt tries = Inr (js, r') \<and>
           length js = nat cnt \<and> distinct js \<and> (\<forall>j \<in> set js. j < length ws) \<and>
           js \<in> set (candidates read r ws cnt (nat tries)) \<and>
           (\<forall>c \<in> set (candidates read r ws cnt (nat tries)).
              sum_list (map ((!) ws) c) \<le> sum_list (map ((!) ws) js))"
  by (rule ChooseSomeMaxWeight_best [OF assms])

theorem ChooseSomeMaxWeight_correct_witness:
  "\<exists>js r'. ChooseSomeMaxWeight (const_read (be_bytes 8 7)) () [2, 4, 4] 2 3 = Inr (js, r') \<and>
     length js = nat 2 \<and> distinct js \<and> (\<forall>j \<in> set js. j < length [2, 4, 4 :: nat]) \<and>
     js \<in> set (candidates (const_read (be_bytes 8 7)) () [2, 4, 4] 2 (nat 3)) \<and>
     (\<forall>c \<in> set (candidates (const_read (be_bytes 8 7)) () [2, 4, 4] 2 (nat 3)).
        sum_list (map ((!) [2, 4, 4 :: nat]) c) \<le> sum_list (map ((!) [2, 4, 4]) js))"
  by (rule ChooseSomeMaxWeight_correct) (simp_all add: drbg_total_const_read)

end
