(* ===== verification/Lagrange.thy ===== *)
theory Lagrange
  imports Band_Prelude
begin

text \<open>
  Package \<open>pkg/tss/internal/lagrange\<close>: the Lagrange coefficient at zero of an index in a set of
  indexes, modulo the order of the secp256k1 group, in its direct form and in the form that
  multiplies tabulated prime powers. \<open>math/big\<close> integers are \<open>int\<close>; \<open>ModInverse\<close> is computed by
  the extended Euclidean algorithm and is \<open>None\<close> (Go's nil) when there is no inverse.
\<close>

section \<open>Definitions\<close>

definition N :: int where
  "N = 115792089237316195423570985008687907852837564279074904382605163141518161494337"

text \<open>Go array literals with gaps: the missing entries (here 0 and 1) are nil slices.\<close>

definition PRIME_FACTORS :: "(int \<times> int) list list" where
  "PRIME_FACTORS =
    [[], [],
     [(2, 1)],
     [(3, 1)],
     [(2, 2)],
     [(5, 1)],
     [(2, 1), (3, 1)],
     [(7, 1)],
     [(2, 3)],
     [(3, 2)],
     [(2, 1), (5, 1)],
     [(11, 1)],
     [(2, 2), (3, 1)],
     [(13, 1)],
     [(2, 1), (7, 1)],
     [(3, 1), (5, 1)],
     [(2, 4)],
     [(17, 1)],
     [(2, 1), (3, 2)],
     [(19, 1)],
     [(2, 2), (5, 1)]]"

definition PRECOMPUTED_POWERS :: "int list list" where
  "PRECOMPUTED_POWERS =
    [[], [],
     [1, 2, 4, 8, 16, 32, 64, 128, 256, 512, 1024, 2048, 4096, 8192, 16384, 32768, 65536,
      131072, 262144],
     [1, 3, 9, 27, 81, 243, 729, 2187, 6561],
     [],
     [1, 5, 25, 125, 625],
     [],
     [1, 7, 49],
     [], [], [],
     [1, 11],
     [],
     [1, 13],
     [], [], [],
     [1, 17],
     [],
     [1, 19]]"

text \<open>A Go index expression: out of range it panics.\<close>

definition index :: "'a list \<Rightarrow> int \<Rightarrow> 'a result" where
  "index xs i =
     (if 0 \<le> i \<and> i < int (length xs) then Inr (xs ! nat i)
      else Inl (Panic ''index out of range''))"

definition ModInverse :: "int \<Rightarrow> int \<Rightarrow> int option" where
  "ModInverse g n =
     (if gcd g n = 1 then Some (fst (bezw (nat (g mod n)) (nat n)) mod n) else None)"

text \<open>The last lines of both functions; multiplying by a nil big integer panics.\<close>

definition divide_mod :: "int \<Rightarrow> int \<Rightarrow> int result" where
  "divide_mod numerator denominator =
     (case ModInverse denominator N of
        None \<Rightarrow> Inl (Panic ''nil pointer dereference'')
      | Some d_inv \<Rightarrow> Inr (numerator * d_inv mod N))"

definition ComputeCoefficient :: "int64 \<Rightarrow> int64 list \<Rightarrow> int result" where
  "ComputeCoefficient i s =
     (let (numerator, denominator) =
            foldl (\<lambda>(numerator, denominator) j.
                     if j = i then (numerator, denominator)
                     else (j * numerator, i64 (j - i) * denominator)) (1, 1) s
      in divide_mod numerator denominator)"

definition add_factors :: "int list \<Rightarrow> (int \<times> int) list \<Rightarrow> int list" where
  "add_factors counts fs =
     foldl (\<lambda>c v. c[nat (fst v) := i64 (c ! nat (fst v) + snd v)]) counts fs"

definition sub_factors :: "int list \<Rightarrow> (int \<times> int) list \<Rightarrow> int list" where
  "sub_factors counts fs =
     foldl (\<lambda>c v. c[nat (fst v) := i64 (c ! nat (fst v) - snd v)]) counts fs"

text \<open>One round of the loop over \<open>s\<close>: the state is the exponent counts and the sign.\<close>

definition count_step :: "int64 \<Rightarrow> int list \<times> int64 \<Rightarrow> int64 \<Rightarrow> (int list \<times> int64) result" where
  "count_step i st j =
     (if j = i then Inr st
      else bindE (index PRIME_FACTORS j) (\<lambda>fj.
        let counts = add_factors (fst st) fj;
            j_i = i64 (j - i);
            j_i' = (if j_i < 0 then i64 (- j_i) else j_i);
            sign = (if j_i < 0 then i64 (snd st * - 1) else snd st)
        in bindE (index PRIME_FACTORS j_i') (\<lambda>fji. Inr (sub_factors counts fji, sign))))"

definition power_step :: "int64 \<times> int64 \<Rightarrow> nat \<times> int \<Rightarrow> (int64 \<times> int64) result" where
  "power_step st kv =
     (let (numerator, denominator) = st; (k, v) = kv in
      if 0 < v
      then bindE (index PRECOMPUTED_POWERS (int k)) (\<lambda>ps.
           bindE (index ps v) (\<lambda>p. Inr (i64 (numerator * p), denominator)))
      else if v < 0
      then bindE (index PRECOMPUTED_POWERS (int k)) (\<lambda>ps.
           bindE (index ps (i64 (- v))) (\<lambda>p. Inr (numerator, i64 (denominator * p))))
      else Inr (numerator, denominator))"

definition ComputeCoefficientPreCompute :: "int64 \<Rightarrow> int64 list \<Rightarrow> int result" where
  "ComputeCoefficientPreCompute i s =
     bindE (foldE (count_step i) (replicate 20 0, 1) s) (\<lambda>(counts, sign).
     bindE (foldE power_step (1, 1) (zip [0..<20] counts)) (\<lambda>(numerator, denominator).
     divide_mod (i64 (numerator * sign)) denominator))"

section \<open>Modular division\<close>

lemma N_pos: "0 < N"
  by (simp add: N_def)

lemma ModInverse_Some:
  assumes "gcd g n = 1" and "0 < n"
  obtains x where "ModInverse g n = Some x" and "g * x mod n = 1 mod n"
proof -
  let ?a = "nat (g mod n)" and ?b = "nat n"
  let ?x = "fst (bezw ?a ?b)"
  have a: "int ?a = g mod n" using assms(2) by simp
  have "int (gcd ?a ?b) = gcd (g mod n) n"
    using assms(2) by (simp add: gcd_int_def)
  also have "\<dots> = 1" using assms(1) by (metis gcd.commute gcd_red_int)
  finally have "?x * (g mod n) + snd (bezw ?a ?b) * n = 1"
    using bezw_aux [of ?a ?b] assms(2) a by simp
  then have "(?x * (g mod n)) mod n = 1 mod n"
    by (metis mod_mult_self1)
  then have "g * (?x mod n) mod n = 1 mod n"
    by (metis mod_mult_left_eq mod_mult_right_eq mult.commute)
  then show thesis using that assms(1) by (simp add: ModInverse_def)
qed

lemma divide_mod_correct:
  assumes "coprime d N"
  obtains x where "divide_mod a d = Inr x" and "0 \<le> x" and "x < N" and "x * d mod N = a mod N"
proof -
  have "gcd d N = 1" using assms by (simp add: coprime_iff_gcd_eq_1)
  from this N_pos obtain y where y: "ModInverse d N = Some y" "d * y mod N = 1 mod N"
    by (rule ModInverse_Some)
  have "(a * y mod N) * d mod N = a * (d * y mod N) mod N"
    by (metis mod_mult_left_eq mod_mult_right_eq mult.assoc mult.commute)
  also have "\<dots> = a mod N" by (metis mod_mult_right_eq mult_1_right y(2))
  finally show thesis
    using that [of "a * y mod N"] y(1) N_pos by (simp add: divide_mod_def)
qed

text \<open>Two quotients are equal when their cross products are.\<close>

lemma divide_mod_cong:
  assumes "coprime d N" "coprime d' N" "a * d' = a' * d"
  shows "divide_mod a d = divide_mod a' d'"
proof -
  obtain x where x: "divide_mod a d = Inr x" "0 \<le> x" "x < N" "x * d mod N = a mod N"
    using divide_mod_correct [OF assms(1)] by blast
  obtain y where y: "divide_mod a' d' = Inr y" "0 \<le> y" "y < N" "y * d' mod N = a' mod N"
    using divide_mod_correct [OF assms(2)] by blast
  have "x * d * d' mod N = y * d' * d mod N"
    using x(4) y(4) assms(3) by (metis mod_mult_left_eq)
  then have "N dvd x * (d * d') - y * (d * d')"
    by (simp add: mod_eq_dvd_iff algebra_simps)
  then have "N dvd (x - y) * (d * d')" by (simp add: left_diff_distrib)
  moreover have "coprime N (d * d')" using assms(1,2) by (simp add: coprime_commute)
  ultimately have "N dvd x - y" by (simp add: coprime_dvd_mult_left_iff)
  then have "x = y" using x y by (metis mod_eq_dvd_iff mod_pos_pos_trivial)
  with x y show ?thesis by simp
qed

section \<open>The exponents the tables add up\<close>

text \<open>Exponent of the table's prime \<open>k\<close> in \<open>j\<close>.\<close>

definition expo :: "nat \<Rightarrow> int \<Rightarrow> nat" where
  "expo k j = nat (sum_list (map snd (filter (\<lambda>v. fst v = int k) (PRIME_FACTORS ! nat j))))"

lemma small_index: "1 \<le> j \<Longrightarrow> j \<le> (20::int) \<Longrightarrow> j \<in> set [1..20]"
  by simp

lemma expo_prod_table:
  "list_all (\<lambda>j. prod_list (map (\<lambda>k. int k ^ expo k j) [0..<20]) = j) [1..20]"
  by code_simp

lemma expo_prod: "1 \<le> j \<Longrightarrow> j \<le> 20 \<Longrightarrow> (\<Prod>k<20. int k ^ expo k j) = j"
  using expo_prod_table prod.distinct_set_conv_list [of "[0..<20]" "\<lambda>k. int k ^ expo k j"]
    small_index [of j]
  by (simp add: list_all_iff atLeast0LessThan del: set_upto)

lemma PRIME_FACTORS_table:
  "list_all (\<lambda>j. list_all (\<lambda>v. 0 \<le> fst v \<and> fst v < 20 \<and> 0 \<le> snd v) (PRIME_FACTORS ! nat j)) [1..20]"
  by code_simp

lemma PRIME_FACTORS_ok:
  assumes "1 \<le> j" "j \<le> 20"
  shows "index PRIME_FACTORS j = Inr (PRIME_FACTORS ! nat j)"
    and "\<forall>v \<in> set (PRIME_FACTORS ! nat j). 0 \<le> fst v \<and> fst v < 20 \<and> 0 \<le> snd v"
proof -
  show "index PRIME_FACTORS j = Inr (PRIME_FACTORS ! nat j)"
    using assms by (simp add: index_def PRIME_FACTORS_def)
  show "\<forall>v \<in> set (PRIME_FACTORS ! nat j). 0 \<le> fst v \<and> fst v < 20 \<and> 0 \<le> snd v"
    using PRIME_FACTORS_table small_index [OF assms] by (simp add: list_all_iff del: set_upto)
qed

text \<open>
  The counts are machine integers; since wrapping is a ring homomorphism, the loop computes
  the wrapped image of the exact counts.
\<close>

definition exact_counts :: "(nat \<Rightarrow> int) \<Rightarrow> int list" where
  "exact_counts c = map (\<lambda>k. i64 (c k)) [0..<20]"

lemma exact_counts_update:
  "k < 20 \<Longrightarrow> (exact_counts c)[k := i64 (c k + d)] = exact_counts (c(k := c k + d))"
  by (rule nth_equalityI) (auto simp: exact_counts_def nth_list_update)

lemma nth_exact_counts [simp]: "k < 20 \<Longrightarrow> exact_counts c ! k = i64 (c k)"
  by (simp add: exact_counts_def)

definition factor_sum :: "(int \<times> int) list \<Rightarrow> nat \<Rightarrow> int" where
  "factor_sum fs k = sum_list (map snd (filter (\<lambda>v. fst v = int k) fs))"

lemma add_factors_exact:
  "\<forall>v \<in> set fs. 0 \<le> fst v \<and> fst v < 20 \<Longrightarrow>
   add_factors (exact_counts c) fs = exact_counts (\<lambda>k. c k + factor_sum fs k)"
proof (induction fs arbitrary: c)
  case (Cons v fs)
  let ?k = "nat (fst v)"
  have k: "?k < 20" and kv: "fst v = int ?k" using Cons.prems by auto
  have "add_factors (exact_counts c) (v # fs) =
      add_factors (exact_counts (c(?k := c ?k + snd v))) fs"
    using k by (simp add: add_factors_def exact_counts_update)
  also have "\<dots> = exact_counts (\<lambda>k. (c(?k := c ?k + snd v)) k + factor_sum fs k)"
    using Cons by simp
  also have "(\<lambda>k. (c(?k := c ?k + snd v)) k + factor_sum fs k) =
      (\<lambda>k. c k + factor_sum (v # fs) k)"
    using kv by (auto simp: factor_sum_def fun_eq_iff)
  finally show ?case .
qed (simp add: add_factors_def factor_sum_def)

lemma sub_factors_eq: "sub_factors cs fs = add_factors cs (map (\<lambda>v. (fst v, - snd v)) fs)"
  unfolding sub_factors_def add_factors_def by (induction fs arbitrary: cs) simp_all

lemma sub_factors_exact:
  assumes "\<forall>v \<in> set fs. 0 \<le> fst v \<and> fst v < 20"
  shows "sub_factors (exact_counts c) fs = exact_counts (\<lambda>k. c k - factor_sum fs k)"
proof -
  have neg: "factor_sum (map (\<lambda>v. (fst v, - snd v)) fs) k = - factor_sum fs k" for k
    by (induction fs) (auto simp: factor_sum_def)
  show ?thesis
    unfolding sub_factors_eq using assms by (subst add_factors_exact) (auto simp: neg)
qed

lemma factor_sum_expo:
  assumes "1 \<le> j" "j \<le> 20"
  shows "factor_sum (PRIME_FACTORS ! nat j) k = int (expo k j)"
proof -
  have "0 \<le> factor_sum (PRIME_FACTORS ! nat j) k"
    unfolding factor_sum_def using PRIME_FACTORS_ok(2) [OF assms] by (intro sum_list_nonneg) auto
  then show ?thesis by (simp add: expo_def factor_sum_def)
qed

text \<open>The terms of the product: the indexes other than \<open>i\<close>.\<close>

abbreviation others :: "int \<Rightarrow> int list \<Rightarrow> int list" where
  "others i s \<equiv> filter (\<lambda>j. j \<noteq> i) s"

lemma small_i64 [simp]: "1 \<le> i \<Longrightarrow> i \<le> 20 \<Longrightarrow> 1 \<le> j \<Longrightarrow> j \<le> 20 \<Longrightarrow> i64 (j - i) = j - (i::int)"
  by (simp add: in_i64_def)

lemma count_step_exact:
  assumes ij: "1 \<le> i" "i \<le> 20" "1 \<le> j" "j \<le> 20" "j \<noteq> i" and sg: "sg = 1 \<or> sg = - 1"
  shows "count_step i (exact_counts c, sg) j =
    Inr (exact_counts (\<lambda>k. c k + int (expo k j) - int (expo k \<bar>j - i\<bar>)), sg * sgn (j - i))"
proof -
  have abs: "1 \<le> \<bar>j - i\<bar>" "\<bar>j - i\<bar> \<le> 20" using ij by auto
  have m: "(if j - i < 0 then i64 (- (j - i)) else j - i) = \<bar>j - i\<bar>"
    using ij by (simp add: in_i64_def)
  have s: "(if j - i < 0 then i64 (sg * - 1) else sg) = sg * sgn (j - i)"
    using ij sg by (auto simp: in_i64_def)
  have f: "\<forall>v \<in> set (PRIME_FACTORS ! nat j). 0 \<le> fst v \<and> fst v < 20"
    "\<forall>v \<in> set (PRIME_FACTORS ! nat \<bar>j - i\<bar>). 0 \<le> fst v \<and> fst v < 20"
    using PRIME_FACTORS_ok(2) [OF ij(3,4)] PRIME_FACTORS_ok(2) [OF abs] by auto
  have "sub_factors (add_factors (exact_counts c) (PRIME_FACTORS ! nat j)) (PRIME_FACTORS ! nat \<bar>j - i\<bar>) =
      exact_counts (\<lambda>k. c k + int (expo k j) - int (expo k \<bar>j - i\<bar>))"
    using ij abs by (simp add: add_factors_exact [OF f(1)] sub_factors_exact [OF f(2)] factor_sum_expo)
  with ij show ?thesis
    unfolding count_step_def
    by (simp only: if_False small_i64 m s PRIME_FACTORS_ok(1) [OF ij(3,4)]
        PRIME_FACTORS_ok(1) [OF abs] bindE_simps Let_def fst_conv snd_conv)
qed

definition num_expo :: "int \<Rightarrow> int list \<Rightarrow> nat \<Rightarrow> nat" where
  "num_expo i s k = sum_list (map (\<lambda>j. expo k j) (others i s))"

definition den_expo :: "int \<Rightarrow> int list \<Rightarrow> nat \<Rightarrow> nat" where
  "den_expo i s k = sum_list (map (\<lambda>j. expo k \<bar>j - i\<bar>) (others i s))"

lemma count_loop_exact:
  assumes "1 \<le> i" "i \<le> 20" "\<forall>j \<in> set s. 1 \<le> j \<and> j \<le> 20" "sg = 1 \<or> sg = - 1"
  shows "foldE (count_step i) (exact_counts c, sg) s =
    Inr (exact_counts (\<lambda>k. c k + int (num_expo i s k) - int (den_expo i s k)),
         sg * prod_list (map (\<lambda>j. sgn (j - i)) (others i s)))"
  using assms(3,4)
proof (induction s arbitrary: c sg)
  case Nil
  then show ?case by (simp add: num_expo_def den_expo_def)
next
  case (Cons j s)
  show ?case
  proof (cases "j = i")
    case True
    with Cons show ?thesis by (simp add: count_step_def num_expo_def den_expo_def)
  next
    case False
    have "sg * sgn (j - i) = 1 \<or> sg * sgn (j - i) = - 1"
      using Cons.prems(2) False by (auto simp: sgn_if)
    from Cons.IH [OF _ this] Cons.prems False assms(1,2) show ?thesis
      by (simp add: count_step_exact num_expo_def den_expo_def algebra_simps)
  qed
qed

section \<open>Bounds on the exponents\<close>

text \<open>\<open>F\<close> is 20!, which every product of the two functions divides.\<close>

definition F :: int where
  "F = 2432902008176640000"

lemma num_expo_prod:
  assumes "\<forall>j \<in> set s. 1 \<le> j \<and> j \<le> 20"
  shows "(\<Prod>k<20. int k ^ num_expo i s k) = prod_list (others i s)"
  using assms
  by (induction s) (auto simp: num_expo_def power_add prod.distrib expo_prod)

lemma den_expo_prod:
  assumes "\<forall>j \<in> set s. 1 \<le> j \<and> j \<le> 20" "1 \<le> i" "i \<le> 20"
  shows "(\<Prod>k<20. int k ^ den_expo i s k) = prod_list (map (\<lambda>j. \<bar>j - i\<bar>) (others i s))"
  using assms
proof (induction s)
  case (Cons j s)
  have "j \<noteq> i \<Longrightarrow> (\<Prod>k<20. int k ^ expo k \<bar>j - i\<bar>) = \<bar>j - i\<bar>"
    using Cons.prems by (intro expo_prod) auto
  with Cons show ?case by (auto simp: den_expo_def power_add prod.distrib)
qed (simp add: den_expo_def)

lemma prod_list_sub_dvd:
  fixes f :: "int \<Rightarrow> int"
  assumes "distinct s" "set s \<subseteq> set t" "distinct t"
  shows "prod_list (map f s) dvd prod_list (map f t)"
proof -
  have "prod f (set s) dvd prod f (set t)"
    using assms by (intro prod_dvd_prod_subset) auto
  then show ?thesis using assms by (simp add: prod.distinct_set_conv_list)
qed

lemma F_tables:
  "prod_list (map (\<lambda>j. j) [1..20]) = F"
  "list_all (\<lambda>i. prod_list (map (\<lambda>j. \<bar>j - i\<bar>) (others i [1..20])) dvd F) [1..20]"
  "gcd F N = 1" "0 < F" "F < 2 ^ 62"
  subgoal by code_simp
  subgoal by code_simp
  subgoal by code_simp
  subgoal by code_simp
  subgoal by code_simp
  done

lemma num_dvd_F:
  assumes "distinct s" "\<forall>j \<in> set s. 1 \<le> j \<and> j \<le> 20"
  shows "prod_list (others i s) dvd F"
proof -
  have "prod_list (map (\<lambda>j. j) (others i s)) dvd prod_list (map (\<lambda>j. j) [1..20])"
    using assms by (intro prod_list_sub_dvd) auto
  then show ?thesis unfolding F_tables(1) by simp
qed

lemma den_dvd_F:
  assumes "distinct s" "\<forall>j \<in> set s. 1 \<le> j \<and> j \<le> 20" "1 \<le> i" "i \<le> 20"
  shows "prod_list (map (\<lambda>j. \<bar>j - i\<bar>) (others i s)) dvd F"
proof -
  have "prod_list (map (\<lambda>j. \<bar>j - i\<bar>) (others i s)) dvd prod_list (map (\<lambda>j. \<bar>j - i\<bar>) (others i [1..20]))"
    using assms by (intro prod_list_sub_dvd) auto
  also have "\<dots> dvd F"
    using F_tables(2) small_index [OF assms(3,4)] by (simp add: list_all_iff del: set_upto)
  finally show ?thesis .
qed

text \<open>The table of powers has an entry for every exponent that can occur.\<close>

definition powers_of :: "nat \<Rightarrow> int list" where
  "powers_of k = PRECOMPUTED_POWERS ! k"

lemma powers_tables:
  "list_all (\<lambda>k. list_all (\<lambda>v. powers_of k ! v = int k ^ v) [0..<length (powers_of k)]) [0..<20]"
  "list_all (\<lambda>k. powers_of k = [] \<or> \<not> int k ^ length (powers_of k) dvd F) [0..<20]"
  "list_all (\<lambda>k. powers_of k \<noteq> [] \<or> list_all (\<lambda>j. expo k j = 0) [1..20]) [0..<20]"
  "length PRECOMPUTED_POWERS = 20"
  subgoal by code_simp
  subgoal by code_simp
  subgoal by code_simp
  subgoal by code_simp
  done

lemma expo_bound:
  assumes "k < 20" "int k ^ e dvd F" "powers_of k = [] \<Longrightarrow> e = 0" "0 < e"
  shows "int e < int (length (powers_of k))"
proof (rule ccontr)
  assume "\<not> int e < int (length (powers_of k))"
  then have "int k ^ length (powers_of k) dvd F"
    using assms(2) by (meson dvd_trans le_imp_power_dvd linorder_not_less of_nat_less_iff)
  moreover have "powers_of k \<noteq> []" using assms(3,4) by auto
  ultimately show False
    using powers_tables(2) assms(1) by (auto simp: list_all_iff)
qed

lemma expo_sum_zero:
  assumes "k < 20" "powers_of k = []" "\<forall>j \<in> set js. 1 \<le> j \<and> j \<le> 20"
  shows "sum_list (map (expo k) js) = 0"
proof -
  have "\<forall>j \<in> set [1..20]. expo k j = 0"
    using powers_tables(3) assms(1,2) by (auto simp: list_all_iff simp del: set_upto)
  with assms(3) show ?thesis by (auto simp: sum_list_eq_0_iff)
qed

lemma index_powers:
  assumes "k < 20" "0 < e" "int e < int (length (powers_of k))"
  shows "index PRECOMPUTED_POWERS (int k) = Inr (powers_of k)"
    "index (powers_of k) (int e) = Inr (int k ^ e)"
proof -
  show "index PRECOMPUTED_POWERS (int k) = Inr (powers_of k)"
    using assms(1) powers_tables(4) by (simp add: index_def powers_of_def)
  have "powers_of k ! e = int k ^ e"
    using powers_tables(1) assms by (auto simp: list_all_iff)
  then show "index (powers_of k) (int e) = Inr (int k ^ e)"
    using assms by (simp add: index_def)
qed

lemma power_loop_exact:
  assumes "\<forall>k \<in> set ks. k < 20 \<and> in_i64 (c k) \<and> in_i64 (- c k) \<and>
      (c k \<noteq> 0 \<longrightarrow> \<bar>c k\<bar> < int (length (powers_of k)))"
  shows "foldE power_step (i64 p, i64 q) (map (\<lambda>k. (k, i64 (c k))) ks) =
    Inr (i64 (p * prod_list (map (\<lambda>k. int k ^ nat (c k)) ks)),
         i64 (q * prod_list (map (\<lambda>k. int k ^ nat (- c k)) ks)))"
  using assms
proof (induction ks arbitrary: p q)
  case (Cons k ks)
  have ck: "k < 20" "i64 (c k) = c k" "i64 (- c k) = - c k"
    "c k \<noteq> 0 \<Longrightarrow> \<bar>c k\<bar> < int (length (powers_of k))" using Cons.prems by auto
  have IH: "foldE power_step (i64 p', i64 q') (map (\<lambda>k. (k, i64 (c k))) ks) =
    Inr (i64 (p' * prod_list (map (\<lambda>k. int k ^ nat (c k)) ks)),
         i64 (q' * prod_list (map (\<lambda>k. int k ^ nat (- c k)) ks)))" for p' q'
    using Cons by simp
  consider "0 < c k" | "c k < 0" | "c k = 0" by linarith
  then show ?case
  proof cases
    case 1
    then have "index PRECOMPUTED_POWERS (int k) = Inr (powers_of k)"
      "index (powers_of k) (c k) = Inr (int k ^ nat (c k))"
      using index_powers [of k "nat (c k)"] ck by auto
    with 1 ck have "power_step (i64 p, i64 q) (k, i64 (c k)) = Inr (i64 (p * int k ^ nat (c k)), i64 q)"
      by (simp add: power_step_def)
    with 1 IH [of "p * int k ^ nat (c k)" q] show ?thesis by (simp add: mult.assoc)
  next
    case 2
    then have "index PRECOMPUTED_POWERS (int k) = Inr (powers_of k)"
      "index (powers_of k) (- c k) = Inr (int k ^ nat (- c k))"
      using index_powers [of k "nat (- c k)"] ck by auto
    with 2 ck have "power_step (i64 p, i64 q) (k, i64 (c k)) = Inr (i64 p, i64 (q * int k ^ nat (- c k)))"
      by (simp add: power_step_def)
    with 2 IH [of p "q * int k ^ nat (- c k)"] show ?thesis by (simp add: mult.assoc)
  next
    case 3
    then have "power_step (i64 p, i64 q) (k, i64 (c k)) = Inr (i64 p, i64 q)"
      using ck by (simp add: power_step_def)
    with 3 IH [of p q] show ?thesis by simp
  qed
qed simp

section \<open>Both functions in closed form\<close>

lemma ComputeCoefficient_eq:
  assumes "1 \<le> i" "i \<le> 20" "\<forall>j \<in> set s. 1 \<le> j \<and> j \<le> 20"
  shows "ComputeCoefficient i s =
    divide_mod (prod_list (others i s)) (prod_list (map (\<lambda>j. j - i) (others i s)))"
proof -
  have "foldl (\<lambda>(numerator, denominator) j.
      if j = i then (numerator, denominator)
      else (j * numerator, i64 (j - i) * denominator)) (a, b) s =
    (prod_list (others i s) * a, prod_list (map (\<lambda>j. j - i) (others i s)) * b)" for a b
    using assms(3)
  proof (induction s arbitrary: a b)
    case (Cons j s)
    then show ?case using assms(1,2) by (simp add: mult.assoc mult.left_commute)
  qed simp
  from this [of 1 1] show ?thesis by (simp add: ComputeCoefficient_def)
qed

lemma prod_list_sgn_abs:
  "prod_list (map (\<lambda>j. j - i) (js :: int list)) =
   prod_list (map (\<lambda>j. sgn (j - i)) js) * prod_list (map (\<lambda>j. \<bar>j - i\<bar>) js)"
  by (induction js) (auto simp: mult.assoc mult.left_commute, metis mult.commute mult_sgn_abs)

lemma prod_list_sgn: "\<forall>j \<in> set js. j \<noteq> (i::int) \<Longrightarrow>
  prod_list (map (\<lambda>j. sgn (j - i)) js) = 1 \<or> prod_list (map (\<lambda>j. sgn (j - i)) js) = - 1"
  by (induction js) (auto simp: sgn_if)

text \<open>Reduced numerator and denominator: the positive and the negative part of the exponents.\<close>

definition red_num :: "int \<Rightarrow> int list \<Rightarrow> int" where
  "red_num i s = (\<Prod>k<20. int k ^ (num_expo i s k - den_expo i s k))"

definition red_den :: "int \<Rightarrow> int list \<Rightarrow> int" where
  "red_den i s = (\<Prod>k<20. int k ^ (den_expo i s k - num_expo i s k))"

text \<open>The index sets the package supports.\<close>

definition small_set :: "int \<Rightarrow> int list \<Rightarrow> bool" where
  "small_set i s \<longleftrightarrow> 1 \<le> i \<and> i \<le> 20 \<and> (\<forall>j \<in> set s. 1 \<le> j \<and> j \<le> 20) \<and> distinct s"

lemma red_cross:
  assumes "small_set i s"
  shows "red_num i s * prod_list (map (\<lambda>j. \<bar>j - i\<bar>) (others i s)) =
    prod_list (others i s) * red_den i s"
proof -
  have "x ^ (a - b) * x ^ b = x ^ a * x ^ (b - a)" for x :: int and a b
    by (metis add.commute diff_add_inverse diff_add_inverse2 le_add_diff_inverse2 nat_le_linear
        power_add diff_is_0_eq power_0 mult_1_right mult_1_left)
  then have "red_num i s * (\<Prod>k<20. int k ^ den_expo i s k) =
      (\<Prod>k<20. int k ^ num_expo i s k) * red_den i s"
    unfolding red_num_def red_den_def prod.distrib [symmetric] by simp
  then show ?thesis
    using assms num_expo_prod [of s i] den_expo_prod [of s i] by (simp add: small_set_def)
qed

lemma red_dvd_F:
  assumes "small_set i s"
  shows "red_num i s dvd F" "red_den i s dvd F"
proof -
  have "red_num i s dvd (\<Prod>k<20. int k ^ num_expo i s k)"
    unfolding red_num_def by (intro prod_dvd_prod) (auto simp: le_imp_power_dvd)
  then show "red_num i s dvd F"
    using assms num_expo_prod [of s i] num_dvd_F [of s i] dvd_trans by (auto simp: small_set_def)
  have "red_den i s dvd (\<Prod>k<20. int k ^ den_expo i s k)"
    unfolding red_den_def by (intro prod_dvd_prod) (auto simp: le_imp_power_dvd)
  then show "red_den i s dvd F"
    using assms den_expo_prod [of s i] den_dvd_F [of s i] dvd_trans by (auto simp: small_set_def)
qed

lemma dvd_F_coprime: "d dvd F \<Longrightarrow> coprime d N"
  using F_tables(3) by (metis coprime_divisors coprime_iff_gcd_eq_1 dvd_refl)

lemma dvd_F_bound: "d dvd F \<Longrightarrow> \<bar>d\<bar> < 2 ^ 62"
proof -
  assume "d dvd F"
  then have "\<bar>d\<bar> \<le> \<bar>F\<bar>" using F_tables(4) by (intro dvd_imp_le_int) auto
  then show ?thesis using F_tables(4,5) by linarith
qed

lemma expo_bounds:
  assumes "small_set i s" "k < 20"
  shows "0 < num_expo i s k \<Longrightarrow> int (num_expo i s k) < int (length (powers_of k))"
    "0 < den_expo i s k \<Longrightarrow> int (den_expo i s k) < int (length (powers_of k))"
proof -
  have S: "1 \<le> i" "i \<le> 20" "\<forall>j \<in> set s. 1 \<le> j \<and> j \<le> 20" "distinct s"
    using assms(1) by (auto simp: small_set_def)
  have "int k ^ num_expo i s k dvd prod_list (others i s)"
    using dvd_prodI [of "{..<20}" k "\<lambda>k. int k ^ num_expo i s k"] assms(2)
    by (simp add: num_expo_prod [OF S(3)])
  then have n: "int k ^ num_expo i s k dvd F" using num_dvd_F [OF S(4,3)] dvd_trans by blast
  have "int k ^ den_expo i s k dvd prod_list (map (\<lambda>j. \<bar>j - i\<bar>) (others i s))"
    using dvd_prodI [of "{..<20}" k "\<lambda>k. int k ^ den_expo i s k"] assms(2)
    by (simp add: den_expo_prod [OF S(3,1,2)])
  then have e: "int k ^ den_expo i s k dvd F" using den_dvd_F [OF S(4,3,1,2)] dvd_trans by blast
  show "0 < num_expo i s k \<Longrightarrow> int (num_expo i s k) < int (length (powers_of k))"
    using expo_sum_zero [OF assms(2), of "others i s"] S(3)
    by (intro expo_bound [OF assms(2) n]) (auto simp: num_expo_def)
  have "\<forall>j \<in> set (map (\<lambda>j. \<bar>j - i\<bar>) (others i s)). 1 \<le> j \<and> j \<le> 20" using S by auto
  then have "powers_of k = [] \<Longrightarrow> den_expo i s k = 0"
    using expo_sum_zero [OF assms(2), of "map (\<lambda>j. \<bar>j - i\<bar>) (others i s)"]
    by (simp add: den_expo_def comp_def del: set_map)
  then show "0 < den_expo i s k \<Longrightarrow> int (den_expo i s k) < int (length (powers_of k))"
    by (intro expo_bound [OF assms(2) e])
qed

lemma length_powers_small: "k < 20 \<Longrightarrow> length (powers_of k) < 20"
proof -
  have "list_all (\<lambda>k. length (powers_of k) < 20) [0..<20]" by code_simp
  then show "k < 20 \<Longrightarrow> length (powers_of k) < 20" by (auto simp: list_all_iff)
qed

lemma PreCompute_eq:
  assumes "small_set i s"
  shows "ComputeCoefficientPreCompute i s =
    divide_mod (red_num i s * prod_list (map (\<lambda>j. sgn (j - i)) (others i s))) (red_den i s)"
proof -
  let ?c = "\<lambda>k. int (num_expo i s k) - int (den_expo i s k)"
  let ?sg = "prod_list (map (\<lambda>j. sgn (j - i)) (others i s))"
  have S: "1 \<le> i" "i \<le> 20" "\<forall>j \<in> set s. 1 \<le> j \<and> j \<le> 20"
    using assms by (auto simp: small_set_def)
  have z: "replicate 20 0 = exact_counts (\<lambda>k. 0)"
    by (rule nth_equalityI) (auto simp: exact_counts_def in_i64_def)
  have counts: "foldE (count_step i) (replicate 20 0, 1) s = Inr (exact_counts ?c, ?sg)"
    unfolding z by (subst count_loop_exact [OF S]) simp_all
  have zip: "zip [0..<20] (exact_counts ?c) = map (\<lambda>k. (k, i64 (?c k))) [0..<20]"
    by (rule nth_equalityI) (auto simp: exact_counts_def)
  have ck: "in_i64 (?c k) \<and> in_i64 (- ?c k) \<and> (?c k \<noteq> 0 \<longrightarrow> \<bar>?c k\<bar> < int (length (powers_of k)))"
    if "k < 20" for k
  proof -
    have l: "int (length (powers_of k)) < 20" using length_powers_small [OF that] by simp
    have "?c k \<noteq> 0 \<longrightarrow> \<bar>?c k\<bar> < int (length (powers_of k))"
      using expo_bounds [OF assms that] by linarith
    with l show ?thesis by (auto simp: in_i64_def)
  qed
  have eq: "nat (?c k) = num_expo i s k - den_expo i s k" "nat (- ?c k) = den_expo i s k - num_expo i s k"
    "nat (int (den_expo i s k) - int (num_expo i s k)) = den_expo i s k - num_expo i s k" for k
    by linarith+
  have "foldE power_step (i64 1, i64 1) (zip [0..<20] (exact_counts ?c)) =
      Inr (i64 (red_num i s), i64 (red_den i s))"
    unfolding zip using ck
    by (subst power_loop_exact)
      (auto simp: eq red_num_def red_den_def prod.distinct_set_conv_list [symmetric] atLeast0LessThan)
  moreover have "i64 1 = 1" "i64 (red_num i s) = red_num i s" "i64 (red_den i s) = red_den i s"
    using red_dvd_F [OF assms] dvd_F_bound by (fastforce simp: in_i64_def intro!: i64_id)+
  moreover have "?sg = 1 \<or> ?sg = - 1" by (rule prod_list_sgn) auto
  then have "i64 (red_num i s * ?sg) = red_num i s * ?sg"
    using dvd_F_bound [OF red_dvd_F(1) [OF assms]] by (intro i64_id) (auto simp: in_i64_def)
  ultimately show ?thesis
    using counts by (simp add: ComputeCoefficientPreCompute_def)
qed

text \<open>The table-driven function and the direct one agree.\<close>

lemma PreCompute_direct:
  assumes "1 \<le> i" and "i \<le> 20" and "\<forall>j \<in> set s. 1 \<le> j \<and> j \<le> 20" and "distinct s"
  shows "ComputeCoefficientPreCompute i s = ComputeCoefficient i s"
proof -
  have S: "small_set i s" using assms by (simp add: small_set_def)
  let ?sg = "prod_list (map (\<lambda>j. sgn (j - i)) (others i s))"
  let ?den = "prod_list (map (\<lambda>j. \<bar>j - i\<bar>) (others i s))"
  have sg: "?sg = 1 \<or> ?sg = - 1" by (rule prod_list_sgn) auto
  have den: "prod_list (map (\<lambda>j. j - i) (others i s)) = ?sg * ?den" by (rule prod_list_sgn_abs)
  have "?sg * ?den dvd F" using den_dvd_F [OF assms(4,3,1,2)] sg by auto
  moreover have "red_num i s * ?sg * (?sg * ?den) = prod_list (others i s) * red_den i s"
    using sg red_cross [OF S] by auto
  ultimately show ?thesis
    unfolding PreCompute_eq [OF S] ComputeCoefficient_eq [OF assms(1-3)] den
    by (intro divide_mod_cong dvd_F_coprime red_dvd_F [OF S])
qed

section \<open>Properties\<close>

text \<open>
  C16: for distinct indexes between 1 and 20, the function that adds up tabulated prime exponents
  and multiplies tabulated powers in \<open>int64\<close> returns exactly what the direct computation over
  big integers returns; in particular no table access is out of range and nothing overflows.
\<close>

theorem ComputeCoefficientPreCompute_equiv:
  assumes "1 \<le> i" and "i \<le> 20" and "\<forall>j \<in> set s. 1 \<le> j \<and> j \<le> 20" and "distinct s"
  shows "ComputeCoefficientPreCompute i s = ComputeCoefficient i s"
  using assms by (rule PreCompute_direct)

theorem ComputeCoefficientPreCompute_equiv_witness:
  "ComputeCoefficientPreCompute 3 [1, 3, 7, 20] = ComputeCoefficient 3 [1, 3, 7, 20]"
  by (rule ComputeCoefficientPreCompute_equiv) simp_all

text \<open>
  For distinct indexes between 1 and 20, \<open>ComputeCoefficient\<close> always returns (the modular
  inverse exists), its result is reduced modulo the group order, and it is the Lagrange
  coefficient: multiplied by the product of the differences \<open>j - i\<close> it gives the product of the
  other indexes \<open>j\<close>.
\<close>

theorem ComputeCoefficient_correct:
  assumes "1 \<le> i" and "i \<le> 20" and "\<forall>j \<in> set s. 1 \<le> j \<and> j \<le> 20" and "distinct s"
  shows "\<exists>x. ComputeCoefficient i s = Inr x \<and> 0 \<le> x \<and> x < N \<and>
    x * prod_list (map (\<lambda>j. j - i) (filter (\<lambda>j. j \<noteq> i) s)) mod N =
    prod_list (filter (\<lambda>j. j \<noteq> i) s) mod N"
proof -
  have "prod_list (map (\<lambda>j. sgn (j - i)) (others i s)) = 1 \<or>
      prod_list (map (\<lambda>j. sgn (j - i)) (others i s)) = - 1" by (rule prod_list_sgn) auto
  then have "prod_list (map (\<lambda>j. j - i) (others i s)) dvd F"
    using den_dvd_F [OF assms(4,3,1,2)] prod_list_sgn_abs [of i "others i s"] by auto
  then have "coprime (prod_list (map (\<lambda>j. j - i) (others i s))) N" by (rule dvd_F_coprime)
  then show ?thesis
    unfolding ComputeCoefficient_eq [OF assms(1-3)]
    by (rule divide_mod_correct [where a = "prod_list (others i s)"]) blast
qed

theorem ComputeCoefficient_correct_witness:
  "\<exists>x. ComputeCoefficient 3 [1, 3, 7, 20] = Inr x \<and> 0 \<le> x \<and> x < N \<and>
    x * prod_list (map (\<lambda>j. j - 3) (filter (\<lambda>j. j \<noteq> 3) [1, 3, 7, 20])) mod N =
    prod_list (filter (\<lambda>j. j \<noteq> 3) [1, 3, 7, 20 :: int]) mod N"
  by (rule ComputeCoefficient_correct) simp_all

end
