(* ===== verification/Obi.thy ===== *)
theory Obi
  imports KV_Store
begin

text \<open>
  Package \<open>pkg/obi\<close>: the Oracle Binary Encoding. Go's reflection is made explicit: \<open>obi_type\<close> is
  what the package sees of a Go type and \<open>obi_value\<close> what it sees of a value. Integers keep
  their width; a signed integer is its two's complement bit pattern, as the source converts it
  to the unsigned type before writing it. Decoding returns the decoded value and the rest.
\<close>

section \<open>Types and values\<close>

text \<open>A struct field has a Go name, possibly an \<open>obi\<close> tag, and a type.\<close>

datatype obi_type =
    TUint8 | TUint16 | TUint32 | TUint64
  | TInt8 | TInt16 | TInt32 | TInt64
  | TString
  | TSlice obi_type
  | TStruct "obi_field list"
  | TOther string
  and obi_field = Field (field_name: string) (field_tag: "string option") (field_type: obi_type)

text \<open>A slice of \<open>uint8\<close> is \<open>VBytes\<close>; other slices carry their elements.\<close>

datatype obi_value =
    VUint8 "8 word" | VUint16 "16 word" | VUint32 "32 word" | VUint64 "64 word"
  | VInt8 "8 word" | VInt16 "16 word" | VInt32 "32 word" | VInt64 "64 word"
  | VString bytes
  | VBytes bytes
  | VSlice "obi_value list"
  | VStruct "obi_value list"
  | VOther string

section \<open>Encoding\<close>

definition EncodeUnsigned8 :: "8 word \<Rightarrow> bytes" where
  "EncodeUnsigned8 v = [v]"

definition EncodeUnsigned16 :: "16 word \<Rightarrow> bytes" where
  "EncodeUnsigned16 v = be_bytes 2 (unat v)"

definition EncodeUnsigned32 :: "32 word \<Rightarrow> bytes" where
  "EncodeUnsigned32 v = be_bytes 4 (unat v)"

definition EncodeUnsigned64 :: "64 word \<Rightarrow> bytes" where
  "EncodeUnsigned64 v = be_bytes 8 (unat v)"

definition EncodeSigned8 :: "8 word \<Rightarrow> bytes" where
  "EncodeSigned8 v = EncodeUnsigned8 v"

definition EncodeSigned16 :: "16 word \<Rightarrow> bytes" where
  "EncodeSigned16 v = EncodeUnsigned16 v"

definition EncodeSigned32 :: "32 word \<Rightarrow> bytes" where
  "EncodeSigned32 v = EncodeUnsigned32 v"

definition EncodeSigned64 :: "64 word \<Rightarrow> bytes" where
  "EncodeSigned64 v = EncodeUnsigned64 v"

definition EncodeBytes :: "bytes \<Rightarrow> bytes" where
  "EncodeBytes v = EncodeUnsigned32 (of_nat (length v)) @ v"

definition EncodeString :: "bytes \<Rightarrow> bytes" where
  "EncodeString v = EncodeUnsigned32 (of_nat (length v)) @ v"

text \<open>
  \<open>Encode\<close> is variadic: it concatenates the encodings of its arguments. The slice and struct
  cases of \<open>encodeImpl\<close> run the same loop over the elements or fields.
\<close>

fun encodeImpl :: "obi_value \<Rightarrow> bytes result"
  and Encode :: "obi_value list \<Rightarrow> bytes result" where
  "encodeImpl (VUint8 v) = Inr (EncodeUnsigned8 v)"
| "encodeImpl (VUint16 v) = Inr (EncodeUnsigned16 v)"
| "encodeImpl (VUint32 v) = Inr (EncodeUnsigned32 v)"
| "encodeImpl (VUint64 v) = Inr (EncodeUnsigned64 v)"
| "encodeImpl (VInt8 v) = Inr (EncodeSigned8 v)"
| "encodeImpl (VInt16 v) = Inr (EncodeSigned16 v)"
| "encodeImpl (VInt32 v) = Inr (EncodeSigned32 v)"
| "encodeImpl (VInt64 v) = Inr (EncodeSigned64 v)"
| "encodeImpl (VString v) = Inr (EncodeString v)"
| "encodeImpl (VBytes v) = Inr (EncodeBytes v)"
| "encodeImpl (VSlice vs) =
     bindE (Encode vs) (\<lambda>res. Inr (EncodeUnsigned32 (of_nat (length vs)) @ res))"
| "encodeImpl (VStruct vs) = Encode vs"
| "encodeImpl (VOther k) = Inl (Errorf ''obi: unsupported value type'')"
| "Encode [] = Inr []"
| "Encode (v # vs) =
     bindE (encodeImpl v) (\<lambda>encoded. bindE (Encode vs) (\<lambda>res. Inr (encoded @ res)))"

definition MustEncode :: "obi_value list \<Rightarrow> bytes result" where
  "MustEncode vs = (case Encode vs of Inl e \<Rightarrow> Inl (Panic ''obi'') | Inr res \<Rightarrow> Inr res)"

section \<open>Decoding\<close>

definition out_of_range :: error where
  "out_of_range = Errorf ''obi: out of range''"

definition DecodeUnsigned8 :: "bytes \<Rightarrow> (8 word \<times> bytes) result" where
  "DecodeUnsigned8 data =
     (case data of [] \<Rightarrow> Inl out_of_range | b # rem \<Rightarrow> Inr (b, rem))"

definition DecodeUnsigned16 :: "bytes \<Rightarrow> (16 word \<times> bytes) result" where
  "DecodeUnsigned16 data =
     (if length data < 2 then Inl out_of_range
      else Inr (of_nat (be_value (take 2 data)), drop 2 data))"

definition DecodeUnsigned32 :: "bytes \<Rightarrow> (32 word \<times> bytes) result" where
  "DecodeUnsigned32 data =
     (if length data < 4 then Inl out_of_range
      else Inr (of_nat (be_value (take 4 data)), drop 4 data))"

definition DecodeUnsigned64 :: "bytes \<Rightarrow> (64 word \<times> bytes) result" where
  "DecodeUnsigned64 data =
     (if length data < 8 then Inl out_of_range
      else Inr (of_nat (be_value (take 8 data)), drop 8 data))"

definition DecodeSigned8 :: "bytes \<Rightarrow> (8 word \<times> bytes) result" where
  "DecodeSigned8 data = DecodeUnsigned8 data"

definition DecodeSigned16 :: "bytes \<Rightarrow> (16 word \<times> bytes) result" where
  "DecodeSigned16 data = DecodeUnsigned16 data"

definition DecodeSigned32 :: "bytes \<Rightarrow> (32 word \<times> bytes) result" where
  "DecodeSigned32 data = DecodeUnsigned32 data"

definition DecodeSigned64 :: "bytes \<Rightarrow> (64 word \<times> bytes) result" where
  "DecodeSigned64 data = DecodeUnsigned64 data"

text \<open>The length of the rest is truncated to 32 bits before it is compared, as in the source.\<close>

definition DecodeBytes :: "bytes \<Rightarrow> (bytes \<times> bytes) result" where
  "DecodeBytes data =
     bindE (DecodeUnsigned32 data) (\<lambda>(len, rem).
     if (of_nat (length rem) :: 32 word) < len then Inl out_of_range
     else Inr (take (unat len) rem, drop (unat len) rem))"

definition DecodeString :: "bytes \<Rightarrow> (bytes \<times> bytes) result" where
  "DecodeString data =
     bindE (DecodeUnsigned32 data) (\<lambda>(len, rem).
     if (of_nat (length rem) :: 32 word) < len then Inl out_of_range
     else Inr (take (unat len) rem, drop (unat len) rem))"

definition set_elem :: "('a \<Rightarrow> obi_value) \<Rightarrow> ('a \<times> bytes) result \<Rightarrow> (obi_value \<times> bytes) result" where
  "set_elem mk r = bindE r (\<lambda>(val, rem). Inr (mk val, rem))"

text \<open>The loop over the elements of a slice.\<close>

fun decode_elems ::
  "(bytes \<Rightarrow> (obi_value \<times> bytes) result) \<Rightarrow> nat \<Rightarrow> bytes \<Rightarrow> (obi_value list \<times> bytes) result" where
  "decode_elems dec 0 rem = Inr ([], rem)"
| "decode_elems dec (Suc n) rem =
     bindE (dec rem) (\<lambda>(v, rem').
     bindE (decode_elems dec n rem') (\<lambda>(vs, rem''). Inr (v # vs, rem'')))"

fun decodeImpl :: "obi_type \<Rightarrow> bytes \<Rightarrow> (obi_value \<times> bytes) result"
  and decode_fields :: "obi_field list \<Rightarrow> bytes \<Rightarrow> (obi_value list \<times> bytes) result" where
  "decodeImpl TUint8 data = set_elem VUint8 (DecodeUnsigned8 data)"
| "decodeImpl TUint16 data = set_elem VUint16 (DecodeUnsigned16 data)"
| "decodeImpl TUint32 data = set_elem VUint32 (DecodeUnsigned32 data)"
| "decodeImpl TUint64 data = set_elem VUint64 (DecodeUnsigned64 data)"
| "decodeImpl TInt8 data = set_elem VInt8 (DecodeSigned8 data)"
| "decodeImpl TInt16 data = set_elem VInt16 (DecodeSigned16 data)"
| "decodeImpl TInt32 data = set_elem VInt32 (DecodeSigned32 data)"
| "decodeImpl TInt64 data = set_elem VInt64 (DecodeSigned64 data)"
| "decodeImpl TString data = set_elem VString (DecodeString data)"
| "decodeImpl (TSlice t) data =
     (if t = TUint8 then set_elem VBytes (DecodeBytes data)
      else bindE (DecodeUnsigned32 data) (\<lambda>(len, rem).
           set_elem VSlice (decode_elems (\<lambda>d. decodeImpl t d) (unat len) rem)))"
| "decodeImpl (TStruct fs) data = set_elem VStruct (decode_fields fs data)"
| "decodeImpl (TOther k) data = Inl (Errorf ''obi: unsupported value type'')"
| "decode_fields [] rem = Inr ([], rem)"
| "decode_fields (Field nm tg t # fs) rem =
     bindE (decodeImpl t rem) (\<lambda>(v, rem').
     bindE (decode_fields fs rem') (\<lambda>(vs, rem''). Inr (v # vs, rem'')))"

text \<open>\<open>Decode\<close> is variadic over the targets, given here by their types.\<close>

fun decode_all :: "obi_type list \<Rightarrow> bytes \<Rightarrow> (obi_value list \<times> bytes) result" where
  "decode_all [] rem = Inr ([], rem)"
| "decode_all (t # ts) rem =
     bindE (decodeImpl t rem) (\<lambda>(v, rem').
     bindE (decode_all ts rem') (\<lambda>(vs, rem''). Inr (v # vs, rem'')))"

definition Decode :: "bytes \<Rightarrow> obi_type list \<Rightarrow> obi_value list result" where
  "Decode data ts =
     bindE (decode_all ts data) (\<lambda>(vs, rem).
     if rem \<noteq> [] then Inl (Errorf ''obi: not all data was consumed while decoding'')
     else Inr vs)"

definition MustDecode :: "bytes \<Rightarrow> obi_type list \<Rightarrow> obi_value list result" where
  "MustDecode data ts = (case Decode data ts of Inl e \<Rightarrow> Inl (Panic ''obi'') | Inr vs \<Rightarrow> Inr vs)"

section \<open>Schemas\<close>

fun getSchemaImpl :: "obi_type \<Rightarrow> string result"
  and schema_fields :: "bool \<Rightarrow> obi_field list \<Rightarrow> string result" where
  "getSchemaImpl TUint8 = Inr ''u8''"
| "getSchemaImpl TUint16 = Inr ''u16''"
| "getSchemaImpl TUint32 = Inr ''u32''"
| "getSchemaImpl TUint64 = Inr ''u64''"
| "getSchemaImpl TInt8 = Inr ''i8''"
| "getSchemaImpl TInt16 = Inr ''i16''"
| "getSchemaImpl TInt32 = Inr ''i32''"
| "getSchemaImpl TInt64 = Inr ''i64''"
| "getSchemaImpl TString = Inr ''string''"
| "getSchemaImpl (TSlice t) =
     (if t = TUint8 then Inr ''bytes''
      else bindE (getSchemaImpl t) (\<lambda>s. Inr (''['' @ s @ '']'')))"
| "getSchemaImpl (TStruct fs) =
     (if fs = [] then Inl (Errorf ''obi: empty struct is not supported'')
      else bindE (schema_fields True fs) (\<lambda>s. Inr (''{'' @ s @ ''}'')))"
| "getSchemaImpl (TOther k) = Inl (Errorf ''obi: unsupported value type'')"
| "schema_fields first [] = Inr []"
| "schema_fields first (Field nm tg t # fs) =
     (case tg of
        None \<Rightarrow> Inl (Errorf ''obi: no obi tag found for field'')
      | Some name \<Rightarrow>
          bindE (getSchemaImpl t) (\<lambda>s.
          bindE (schema_fields False fs) (\<lambda>rest.
          Inr ((if first then '''' else '','') @ name @ '':'' @ s @ rest))))"

definition GetSchema :: "obi_type \<Rightarrow> string result" where
  "GetSchema t = getSchemaImpl t"

definition MustGetSchema :: "obi_type \<Rightarrow> string result" where
  "MustGetSchema t = (case GetSchema t of Inl e \<Rightarrow> Inl (Panic ''obi'') | Inr s \<Rightarrow> Inr s)"

section \<open>Well-typed values\<close>

text \<open>A value of a type whose strings and slices have a length that fits the 4-byte prefix.\<close>

fun obi_typed :: "obi_type \<Rightarrow> obi_value \<Rightarrow> bool"
  and obi_typed_fields :: "obi_field list \<Rightarrow> obi_value list \<Rightarrow> bool" where
  "obi_typed TUint8 v = (case v of VUint8 w \<Rightarrow> True | _ \<Rightarrow> False)"
| "obi_typed TUint16 v = (case v of VUint16 w \<Rightarrow> True | _ \<Rightarrow> False)"
| "obi_typed TUint32 v = (case v of VUint32 w \<Rightarrow> True | _ \<Rightarrow> False)"
| "obi_typed TUint64 v = (case v of VUint64 w \<Rightarrow> True | _ \<Rightarrow> False)"
| "obi_typed TInt8 v = (case v of VInt8 w \<Rightarrow> True | _ \<Rightarrow> False)"
| "obi_typed TInt16 v = (case v of VInt16 w \<Rightarrow> True | _ \<Rightarrow> False)"
| "obi_typed TInt32 v = (case v of VInt32 w \<Rightarrow> True | _ \<Rightarrow> False)"
| "obi_typed TInt64 v = (case v of VInt64 w \<Rightarrow> True | _ \<Rightarrow> False)"
| "obi_typed TString v = (case v of VString w \<Rightarrow> length w < 2 ^ 32 | _ \<Rightarrow> False)"
| "obi_typed (TSlice t) v =
     (case v of
        VBytes w \<Rightarrow> t = TUint8 \<and> length w < 2 ^ 32
      | VSlice vs \<Rightarrow> t \<noteq> TUint8 \<and> length vs < 2 ^ 32 \<and> list_all (\<lambda>v. obi_typed t v) vs
      | _ \<Rightarrow> False)"
| "obi_typed (TStruct fs) v = (case v of VStruct vs \<Rightarrow> obi_typed_fields fs vs | _ \<Rightarrow> False)"
| "obi_typed (TOther k) v = False"
| "obi_typed_fields [] vs = (vs = [])"
| "obi_typed_fields (Field nm tg t # fs) vs =
     (case vs of [] \<Rightarrow> False | v # vs' \<Rightarrow> obi_typed t v \<and> obi_typed_fields fs vs')"

lemma DecodeUnsigned_Encode [simp]:
  "DecodeUnsigned8 (EncodeUnsigned8 a @ rest) = Inr (a, rest)"
  "DecodeUnsigned16 (EncodeUnsigned16 b @ rest) = Inr (b, rest)"
  "DecodeUnsigned32 (EncodeUnsigned32 c @ rest) = Inr (c, rest)"
  "DecodeUnsigned64 (EncodeUnsigned64 d @ rest) = Inr (d, rest)"
proof -
  have "unat b < 256 ^ 2" "unat c < 256 ^ 4" "unat d < 256 ^ 8"
    using unsigned_less [of b] unsigned_less [of c] unsigned_less [of d] by simp_all
  then show "DecodeUnsigned16 (EncodeUnsigned16 b @ rest) = Inr (b, rest)"
    "DecodeUnsigned32 (EncodeUnsigned32 c @ rest) = Inr (c, rest)"
    "DecodeUnsigned64 (EncodeUnsigned64 d @ rest) = Inr (d, rest)"
    by (simp_all add: DecodeUnsigned16_def EncodeUnsigned16_def DecodeUnsigned32_def
        EncodeUnsigned32_def DecodeUnsigned64_def EncodeUnsigned64_def be_value_be_bytes_id
        del: be_bytes.simps)
qed (simp add: DecodeUnsigned8_def EncodeUnsigned8_def)

lemma decode_length_prefixed:
  assumes "length (EncodeUnsigned32 (of_nat (length v)) @ v @ rest) < 2 ^ 32"
  shows "\<not> (of_nat (length (v @ rest)) :: 32 word) < of_nat (length v)"
    "unat (of_nat (length v) :: 32 word) = length v"
proof -
  have "length (v @ rest) < 2 ^ 32" using assms by (simp add: EncodeUnsigned32_def)
  then show "\<not> (of_nat (length (v @ rest)) :: 32 word) < of_nat (length v)"
    "unat (of_nat (length v) :: 32 word) = length v"
    by (simp_all add: word_less_nat_alt unat_of_nat del: of_nat_add)
qed

lemma DecodeString_Encode:
  assumes "length (EncodeString v @ rest) < 2 ^ 32"
  shows "DecodeString (EncodeString v @ rest) = Inr (v, rest)"
proof -
  have "length (EncodeUnsigned32 (of_nat (length v)) @ v @ rest) < 2 ^ 32"
    using assms by (simp add: EncodeString_def)
  note * = decode_length_prefixed [OF this]
  show ?thesis
    unfolding DecodeString_def EncodeString_def append_assoc DecodeUnsigned_Encode bindE_simps
      prod.case if_not_P [OF *(1)] *(2) by simp
qed

lemma DecodeBytes_Encode:
  "length (EncodeBytes v @ rest) < 2 ^ 32 \<Longrightarrow> DecodeBytes (EncodeBytes v @ rest) = Inr (v, rest)"
  using DecodeString_Encode [of v rest]
  by (simp add: DecodeString_def EncodeString_def DecodeBytes_def EncodeBytes_def)

lemma decode_elems_encode:
  assumes "\<And>v. v \<in> set vs \<Longrightarrow> \<exists>bs. encodeImpl v = Inr bs \<and>
      (\<forall>rest. length (bs @ rest) < 2 ^ 32 \<longrightarrow> dec (bs @ rest) = Inr (v, rest))"
  shows "\<exists>bs. Encode vs = Inr bs \<and>
      (\<forall>rest. length (bs @ rest) < 2 ^ 32 \<longrightarrow> decode_elems dec (length vs) (bs @ rest) = Inr (vs, rest))"
  using assms
proof (induction vs)
  case (Cons v vs)
  obtain a where a: "encodeImpl v = Inr a"
    "\<And>rest. length (a @ rest) < 2 ^ 32 \<Longrightarrow> dec (a @ rest) = Inr (v, rest)"
    using Cons.prems [of v] by auto
  obtain b where b: "Encode vs = Inr b"
    "\<And>rest. length (b @ rest) < 2 ^ 32 \<Longrightarrow> decode_elems dec (length vs) (b @ rest) = Inr (vs, rest)"
    using Cons.IH Cons.prems by auto
  have "decode_elems dec (length (v # vs)) ((a @ b) @ rest) = Inr (v # vs, rest)"
    if "length ((a @ b) @ rest) < 2 ^ 32" for rest
    using a(2) [of "b @ rest"] b(2) [of rest] that by simp
  with a(1) b(1) show ?case by auto
qed simp

lemma encodeImpl_decodeImpl:
  "obi_typed t v \<Longrightarrow> \<exists>bs. encodeImpl v = Inr bs \<and>
     (\<forall>rest. length (bs @ rest) < 2 ^ 32 \<longrightarrow> decodeImpl t (bs @ rest) = Inr (v, rest))"
  "obi_typed_fields fs vs \<Longrightarrow> \<exists>bs. Encode vs = Inr bs \<and>
     (\<forall>rest. length (bs @ rest) < 2 ^ 32 \<longrightarrow> decode_fields fs (bs @ rest) = Inr (vs, rest))"
proof (induction t v and fs vs rule: obi_typed_obi_typed_fields.induct)
  case (9 v)
  then show ?case
    by (auto simp: set_elem_def DecodeString_Encode split: obi_value.splits)
next
  case (10 t v)
  show ?case
  proof (cases "\<exists>vs. v = VSlice vs")
    case True
    then obtain vs where v: "v = VSlice vs" by blast
    then have "\<exists>bs. Encode vs = Inr bs \<and> (\<forall>rest. length (bs @ rest) < 2 ^ 32 \<longrightarrow>
        decode_elems (\<lambda>d. decodeImpl t d) (length vs) (bs @ rest) = Inr (vs, rest))"
      using 10 by (intro decode_elems_encode) (auto simp: list_all_iff)
    moreover have "unat (of_nat (length vs) :: 32 word) = length vs" "t \<noteq> TUint8"
      using "10.prems" v by (simp_all add: unat_of_nat)
    ultimately show ?thesis using v by (auto simp: set_elem_def)
  next
    case False
    then show ?thesis
      using "10.prems" by (auto simp: set_elem_def DecodeBytes_Encode split: obi_value.splits)
  qed
next
  case (11 fs v)
  then show ?case by (auto simp: set_elem_def split: obi_value.splits)
next
  case (14 nm tg t fs vs)
  then obtain v ws where vs: "vs = v # ws" "obi_typed t v" "obi_typed_fields fs ws"
    by (auto split: list.splits)
  obtain a where a: "encodeImpl v = Inr a"
    "\<And>rest. length (a @ rest) < 2 ^ 32 \<Longrightarrow> decodeImpl t (a @ rest) = Inr (v, rest)"
    using 14 vs by auto
  obtain b where b: "Encode ws = Inr b"
    "\<And>rest. length (b @ rest) < 2 ^ 32 \<Longrightarrow> decode_fields fs (b @ rest) = Inr (ws, rest)"
    using 14 vs by auto
  have "decode_fields (Field nm tg t # fs) ((a @ b) @ rest) = Inr (vs, rest)"
    if "length ((a @ b) @ rest) < 2 ^ 32" for rest
    using a(2) [of "b @ rest"] b(2) [of rest] that vs(1) by simp
  with a(1) b(1) vs(1) show ?case by auto
qed (auto simp: set_elem_def EncodeSigned8_def EncodeSigned16_def EncodeSigned32_def
    EncodeSigned64_def DecodeSigned8_def DecodeSigned16_def DecodeSigned32_def DecodeSigned64_def
    split: obi_value.splits)

section \<open>Decoding inverts encoding\<close>

lemma be_bytes_word_take:
  assumes "n \<le> length data" "256 ^ n = (2::nat) ^ LENGTH('w)"
  shows "be_bytes n (unat (of_nat (be_value (take n data)) :: 'w::len word)) = take n data"
proof -
  have "be_value (take n data) < 256 ^ n" using be_value_less [of "take n data"] assms(1) by simp
  then have "unat (of_nat (be_value (take n data)) :: 'w word) = be_value (take n data)"
    using assms(2) by (simp add: unat_of_nat)
  then show ?thesis using be_bytes_be_value [of "take n data"] assms(1) by (simp add: min_absorb2)
qed

lemma DecodeUnsigned_inv:
  "DecodeUnsigned8 data = Inr (a, rem) \<Longrightarrow> data = EncodeUnsigned8 a @ rem"
  "DecodeUnsigned16 data = Inr (b, rem) \<Longrightarrow> data = EncodeUnsigned16 b @ rem"
  "DecodeUnsigned32 data = Inr (c, rem) \<Longrightarrow> data = EncodeUnsigned32 c @ rem"
  "DecodeUnsigned64 data = Inr (d, rem) \<Longrightarrow> data = EncodeUnsigned64 d @ rem"
proof -
  show "DecodeUnsigned16 data = Inr (b, rem) \<Longrightarrow> data = EncodeUnsigned16 b @ rem"
    using be_bytes_word_take [of 2 data, where 'w = 16] by (auto simp: DecodeUnsigned16_def EncodeUnsigned16_def simp del: be_bytes.simps)
  show "DecodeUnsigned32 data = Inr (c, rem) \<Longrightarrow> data = EncodeUnsigned32 c @ rem"
    using be_bytes_word_take [of 4 data, where 'w = 32] by (auto simp: DecodeUnsigned32_def EncodeUnsigned32_def simp del: be_bytes.simps)
  show "DecodeUnsigned64 data = Inr (d, rem) \<Longrightarrow> data = EncodeUnsigned64 d @ rem"
    using be_bytes_word_take [of 8 data, where 'w = 64] by (auto simp: DecodeUnsigned64_def EncodeUnsigned64_def simp del: be_bytes.simps)
qed (auto simp: DecodeUnsigned8_def EncodeUnsigned8_def split: list.splits)

lemma DecodeString_inv:
  assumes "DecodeString data = Inr (v, rem)"
  shows "data = EncodeString v @ rem" "length v < 2 ^ 32"
proof -
  obtain len r where dec: "DecodeUnsigned32 data = Inr (len, r)" and r: "\<not> (of_nat (length r) :: 32 word) < len"
    "v = take (unat len) r" "rem = drop (unat len) r"
    using assms by (auto simp: DecodeString_def split: prod.splits)
  have le: "unat len \<le> length r"
    using r(1) mod_less_eq_dividend [of "length r" "2 ^ 32"] by (simp add: word_less_nat_alt unat_of_nat not_less)
  then have len: "length v = unat len" using r by simp
  then have "(of_nat (length v) :: 32 word) = len" by simp
  then show "data = EncodeString v @ rem"
    using DecodeUnsigned_inv(3) [OF dec] r by (simp add: EncodeString_def)
  show "length v < 2 ^ 32" using len unsigned_less [of len] by simp
qed

lemma DecodeBytes_inv:
  assumes "DecodeBytes data = Inr (v, rem)"
  shows "data = EncodeBytes v @ rem" "length v < 2 ^ 32"
  using DecodeString_inv [of data v rem] assms
  by (simp_all add: DecodeString_def DecodeBytes_def EncodeString_def EncodeBytes_def)

lemma decode_elems_inv:
  assumes "decode_elems dec n data = Inr (vs, rem)"
    and "\<And>d v r. dec d = Inr (v, r) \<Longrightarrow> \<exists>bs. encodeImpl v = Inr bs \<and> d = bs @ r \<and> P v"
  shows "\<exists>bs. Encode vs = Inr bs \<and> data = bs @ rem \<and> length vs = n \<and> list_all P vs"
  using assms(1)
proof (induction n arbitrary: data vs)
  case (Suc n)
  obtain v r ws where v: "dec data = Inr (v, r)" "decode_elems dec n r = Inr (ws, rem)" "vs = v # ws"
    using Suc.prems by auto
  with assms(2) Suc.IH [OF v(2)] show ?case by fastforce
qed simp

lemma decodeImpl_encodeImpl:
  "decodeImpl t data = Inr (v, rem) \<Longrightarrow>
     \<exists>bs. encodeImpl v = Inr bs \<and> data = bs @ rem \<and> obi_typed t v"
  "decode_fields fs data = Inr (vs, rem) \<Longrightarrow>
     \<exists>bs. Encode vs = Inr bs \<and> data = bs @ rem \<and> obi_typed_fields fs vs"
proof (induction t data and fs data arbitrary: v rem and vs rem rule: decodeImpl_decode_fields.induct)
  case (9 data)
  then show ?case using DecodeString_inv by (fastforce simp: set_elem_def)
next
  case (10 t data)
  show ?case
  proof (cases "t = TUint8")
    case True
    then show ?thesis using 10 DecodeBytes_inv by (fastforce simp: set_elem_def)
  next
    case False
    then obtain len r vs where l: "DecodeUnsigned32 data = Inr (len, r)"
      "decode_elems (\<lambda>d. decodeImpl t d) (unat len) r = Inr (vs, rem)" "v = VSlice vs"
      using "10.prems" by (auto simp: set_elem_def split: prod.splits)
    have "\<exists>bs. Encode vs = Inr bs \<and> r = bs @ rem \<and> length vs = unat len \<and> list_all (\<lambda>v. obi_typed t v) vs"
      by (rule decode_elems_inv [OF l(2)]) (use 10 False l in auto)
    moreover have "unat len < 2 ^ 32" using unsigned_less [of len] by simp
    ultimately show ?thesis
      using DecodeUnsigned_inv(3) [OF l(1)] l(3) False by (auto simp: set_elem_def)
  qed
next
  case (14 nm tg t fs data)
  then obtain w r ws where w: "decodeImpl t data = Inr (w, r)" "decode_fields fs r = Inr (ws, rem)" "vs = w # ws"
    by (auto split: prod.splits)
  with 14 show ?case by fastforce
qed (auto simp: set_elem_def EncodeSigned8_def EncodeSigned16_def EncodeSigned32_def
    EncodeSigned64_def DecodeSigned8_def DecodeSigned16_def DecodeSigned32_def DecodeSigned64_def
    dest: DecodeUnsigned_inv split: prod.splits)

lemma Encode_decode_all:
  "list_all2 obi_typed ts vs \<Longrightarrow> \<exists>bs. Encode vs = Inr bs \<and>
     (\<forall>rest. length (bs @ rest) < 2 ^ 32 \<longrightarrow> decode_all ts (bs @ rest) = Inr (vs, rest))"
proof (induction ts vs rule: list_all2_induct)
  case (Cons t ts v vs)
  obtain a where a: "encodeImpl v = Inr a"
    "\<And>rest. length (a @ rest) < 2 ^ 32 \<Longrightarrow> decodeImpl t (a @ rest) = Inr (v, rest)"
    using encodeImpl_decodeImpl(1) [OF Cons.hyps(1)] by auto
  obtain b where b: "Encode vs = Inr b"
    "\<And>rest. length (b @ rest) < 2 ^ 32 \<Longrightarrow> decode_all ts (b @ rest) = Inr (vs, rest)"
    using Cons.IH by auto
  have "decode_all (t # ts) ((a @ b) @ rest) = Inr (v # vs, rest)"
    if "length ((a @ b) @ rest) < 2 ^ 32" for rest
    using a(2) [of "b @ rest"] b(2) [of rest] that by simp
  with a(1) b(1) show ?case by auto
qed simp

lemma decode_all_Encode:
  "decode_all ts data = Inr (vs, rem) \<Longrightarrow>
     \<exists>bs. Encode vs = Inr bs \<and> data = bs @ rem \<and> list_all2 obi_typed ts vs"
proof (induction ts arbitrary: data vs)
  case (Cons t ts)
  then obtain w r ws where w: "decodeImpl t data = Inr (w, r)" "decode_all ts r = Inr (ws, rem)" "vs = w # ws"
    by (auto split: prod.splits)
  with Cons.IH [OF w(2)] decodeImpl_encodeImpl(1) [OF w(1)] show ?case by fastforce
qed simp

section \<open>Properties\<close>

text \<open>
  C15: encoding values of the supported types always succeeds, and decoding the result into
  targets of those types returns the values and consumes every byte, as long as the encoding is
  shorter than 4 GiB.
\<close>

theorem Decode_Encode:
  assumes "list_all2 obi_typed ts vs" and "\<And>bs. Encode vs = Inr bs \<Longrightarrow> length bs < 2 ^ 32"
  shows "\<exists>bs. Encode vs = Inr bs \<and> Decode bs ts = Inr vs"
proof -
  obtain bs where bs: "Encode vs = Inr bs"
    "\<And>rest. length (bs @ rest) < 2 ^ 32 \<Longrightarrow> decode_all ts (bs @ rest) = Inr (vs, rest)"
    using Encode_decode_all [OF assms(1)] by auto
  from bs(2) [of "[]"] assms(2) [OF bs(1)] bs(1) show ?thesis by (simp add: Decode_def)
qed

theorem Decode_Encode_witness:
  "\<exists>bs. Encode [VStruct [VUint16 258, VString [104, 105]], VSlice [VInt64 3], VBytes [7]] = Inr bs \<and>
     Decode bs [TStruct [Field ''a'' (Some ''a'') TUint16, Field ''b'' (Some ''b'') TString],
       TSlice TInt64, TSlice TUint8] =
     Inr [VStruct [VUint16 258, VString [104, 105]], VSlice [VInt64 3], VBytes [7]]"
  by (rule Decode_Encode)
    (auto simp: EncodeUnsigned16_def EncodeUnsigned32_def EncodeUnsigned64_def EncodeSigned64_def
      EncodeString_def EncodeBytes_def)

text \<open>
  C22: the encoding is canonical: whatever input \<open>Decode\<close> accepts is exactly the encoding of the
  values it returns, and these have the types of the targets. Two different inputs never decode
  to the same values.
\<close>

theorem Decode_canonical:
  assumes "Decode data ts = Inr vs"
  shows "Encode vs = Inr data \<and> list_all2 obi_typed ts vs"
proof -
  have "decode_all ts data = Inr (vs, [])"
    using assms by (auto simp: Decode_def split: prod.splits)
  with decode_all_Encode [OF this] show ?thesis by auto
qed

theorem Decode_canonical_witness:
  "Encode [VUint8 5, VUint16 258] = Inr [5, 1, 2] \<and>
   list_all2 obi_typed [TUint8, TUint16] [VUint8 5, VUint16 258]"
  by (rule Decode_canonical)
    (simp add: Decode_def set_elem_def DecodeUnsigned8_def DecodeUnsigned16_def be_value_def)

end
