(* ===== verification/Sdk.thy ===== *)
theory Sdk
  imports KV_Store
begin

text \<open>
  What the modules use of the Cosmos SDK. The SDK is not part of the repository, so its functions
  are parameters: the record \<open>sdk\<close> holds the address codec and the operations of \<open>sdk.Coins\<close>,
  the record \<open>bank_keeper\<close> the bank module over an opaque state. What the code relies on is stated
  by the predicates \<open>address_laws\<close>, \<open>coin_laws\<close> and \<open>bank_laws\<close>, which the properties name as
  hypotheses. The second half is a small executable instance (\<open>plain_sdk\<close>, \<open>plain_bank\<close>), proved
  to satisfy the laws: it is what the witnesses run on.
\<close>

section \<open>Parameters\<close>

text \<open>\<open>type Coins []Coin\<close>, a coin being a denomination and an amount.\<close>

type_synonym coins = "(bytes \<times> int) list"

record sdk =
  AccAddressFromBech32 :: "bytes \<Rightarrow> bytes result"
  AccAddress_String :: "bytes \<Rightarrow> bytes"
  MustLengthPrefix :: "bytes \<Rightarrow> bytes"
  Coins_IsValid :: "coins \<Rightarrow> bool"
  Coins_IsAllPositive :: "coins \<Rightarrow> bool"
  Coins_IsZero :: "coins \<Rightarrow> bool"
  Coins_Equal :: "coins \<Rightarrow> coins \<Rightarrow> bool"
  Coins_AmountOf :: "coins \<Rightarrow> bytes \<Rightarrow> int"
  Coins_Add :: "coins \<Rightarrow> coins \<Rightarrow> coins"
  Coins_SafeSub :: "coins \<Rightarrow> coins \<Rightarrow> coins \<times> bool"
  ValidateDenom :: "bytes \<Rightarrow> unit result"

definition MustAccAddressFromBech32 :: "sdk \<Rightarrow> bytes \<Rightarrow> bytes result" where
  "MustAccAddressFromBech32 sdk s =
     (case AccAddressFromBech32 sdk s of Inl _ \<Rightarrow> Inl (Panic ''invalid address'') | Inr a \<Rightarrow> Inr a)"

record 'b bank_keeper =
  GetModuleAddress :: "string \<Rightarrow> bytes"
  GetAllBalances :: "'b \<Rightarrow> bytes \<Rightarrow> coins"
  SendCoins :: "'b \<Rightarrow> bytes \<Rightarrow> bytes \<Rightarrow> coins \<Rightarrow> 'b result"

definition SendCoinsFromAccountToModule ::
  "'b bank_keeper \<Rightarrow> 'b \<Rightarrow> bytes \<Rightarrow> string \<Rightarrow> coins \<Rightarrow> 'b result" where
  "SendCoinsFromAccountToModule bk b sender recipientModule amt =
     SendCoins bk b sender (GetModuleAddress bk recipientModule) amt"

definition SendCoinsFromModuleToAccount ::
  "'b bank_keeper \<Rightarrow> 'b \<Rightarrow> string \<Rightarrow> bytes \<Rightarrow> coins \<Rightarrow> 'b result" where
  "SendCoinsFromModuleToAccount bk b senderModule recipient amt =
     SendCoins bk b (GetModuleAddress bk senderModule) recipient amt"

text \<open>Errors of the SDK the modules return; their codes are the SDK's.\<close>

definition gov_ErrInvalidSigner :: error where
  "gov_ErrInvalidSigner = Errorf ''gov: expected authority account as only signer''"

definition sdk_ErrInvalidAddress :: error where
  "sdk_ErrInvalidAddress = Errorf ''sdk: invalid address''"

definition sdk_ErrInvalidCoins :: error where
  "sdk_ErrInvalidCoins = Errorf ''sdk: invalid coins''"

text \<open>
  An account address is a non-empty byte string of at most 255 bytes
  (\<open>sdk.VerifyAddressFormat\<close>).
\<close>

definition valid_addr :: "bytes \<Rightarrow> bool" where
  "valid_addr a \<longleftrightarrow> 0 < length a \<and> length a \<le> 255"

text \<open>
  The address codec: parsing yields a valid address, printing a valid address and parsing it
  gives it back, and \<open>address.MustLengthPrefix\<close> puts the length in front of it.
\<close>

definition address_laws :: "sdk \<Rightarrow> bool" where
  "address_laws sdk \<longleftrightarrow>
     (\<forall>s a. AccAddressFromBech32 sdk s = Inr a \<longrightarrow> valid_addr a) \<and>
     (\<forall>a. valid_addr a \<longrightarrow> AccAddressFromBech32 sdk (AccAddress_String sdk a) = Inr a) \<and>
     (\<forall>a. valid_addr a \<longrightarrow> MustLengthPrefix sdk a = of_nat (length a) # a)"

text \<open>
  \<open>sdk.Coins\<close>: on valid coins the operations act on every denomination separately, and
  \<open>SafeSub\<close> reports whether an amount of the difference is negative.
\<close>

definition coin_laws :: "sdk \<Rightarrow> bool" where
  "coin_laws sdk \<longleftrightarrow>
     Coins_IsValid sdk [] \<and>
     (\<forall>d. Coins_AmountOf sdk [] d = 0) \<and>
     (\<forall>a d. Coins_IsValid sdk a \<longrightarrow> 0 \<le> Coins_AmountOf sdk a d) \<and>
     (\<forall>a. Coins_IsValid sdk a \<longrightarrow> (Coins_IsZero sdk a \<longleftrightarrow> (\<forall>d. Coins_AmountOf sdk a d = 0))) \<and>
     (\<forall>a b. Coins_IsValid sdk a \<longrightarrow> Coins_IsValid sdk b \<longrightarrow>
        Coins_IsValid sdk (Coins_Add sdk a b) \<and>
        (\<forall>d. Coins_AmountOf sdk (Coins_Add sdk a b) d = Coins_AmountOf sdk a d + Coins_AmountOf sdk b d)) \<and>
     (\<forall>a b c neg. Coins_IsValid sdk a \<longrightarrow> Coins_IsValid sdk b \<longrightarrow> Coins_SafeSub sdk a b = (c, neg) \<longrightarrow>
        (\<forall>d. Coins_AmountOf sdk c d = Coins_AmountOf sdk a d - Coins_AmountOf sdk b d) \<and>
        (neg \<longleftrightarrow> (\<exists>d. Coins_AmountOf sdk c d < 0)) \<and>
        (\<not> neg \<longrightarrow> Coins_IsValid sdk c)) \<and>
     (\<forall>a b. Coins_IsValid sdk a \<longrightarrow> Coins_IsValid sdk b \<longrightarrow>
        (Coins_Equal sdk a b \<longleftrightarrow> (\<forall>d. Coins_AmountOf sdk a d = Coins_AmountOf sdk b d)))"

text \<open>
  The bank: a transfer of valid coins moves exactly them, no balance is negative afterwards, and
  no other account changes.
\<close>

definition bank_laws :: "sdk \<Rightarrow> 'b bank_keeper \<Rightarrow> bool" where
  "bank_laws sdk bk \<longleftrightarrow>
     (\<forall>b a. Coins_IsValid sdk (GetAllBalances bk b a)) \<and>
     (\<forall>b f t c b'. Coins_IsValid sdk c \<longrightarrow> SendCoins bk b f t c = Inr b' \<longrightarrow>
        (\<forall>a d. Coins_AmountOf sdk (GetAllBalances bk b' a) d =
           Coins_AmountOf sdk (GetAllBalances bk b a) d
           - (if a = f then Coins_AmountOf sdk c d else 0)
           + (if a = t then Coins_AmountOf sdk c d else 0)))"

lemma address_lawsD:
  assumes "address_laws sdk"
  shows "AccAddressFromBech32 sdk s = Inr a \<Longrightarrow> valid_addr a"
    and "valid_addr a \<Longrightarrow> AccAddressFromBech32 sdk (AccAddress_String sdk a) = Inr a"
    and "valid_addr a \<Longrightarrow> MustLengthPrefix sdk a = of_nat (length a) # a"
  using assms by (auto simp: address_laws_def)

lemma coin_lawsD:
  assumes "coin_laws sdk"
  shows "Coins_IsValid sdk []" and "Coins_AmountOf sdk [] d = 0"
    and "Coins_IsValid sdk a \<Longrightarrow> 0 \<le> Coins_AmountOf sdk a d"
    and "Coins_IsValid sdk a \<Longrightarrow> Coins_IsZero sdk a \<longleftrightarrow> (\<forall>d. Coins_AmountOf sdk a d = 0)"
    and "Coins_IsValid sdk a \<Longrightarrow> Coins_IsValid sdk b \<Longrightarrow> Coins_IsValid sdk (Coins_Add sdk a b)"
    and "Coins_IsValid sdk a \<Longrightarrow> Coins_IsValid sdk b \<Longrightarrow>
      Coins_AmountOf sdk (Coins_Add sdk a b) d = Coins_AmountOf sdk a d + Coins_AmountOf sdk b d"
  using assms unfolding coin_laws_def by metis+

lemma coin_laws_SafeSub:
  assumes "coin_laws sdk" and "Coins_IsValid sdk a" and "Coins_IsValid sdk b"
    and "Coins_SafeSub sdk a b = (c, neg)"
  shows "Coins_AmountOf sdk c d = Coins_AmountOf sdk a d - Coins_AmountOf sdk b d"
    and "neg \<longleftrightarrow> (\<exists>d. Coins_AmountOf sdk c d < 0)"
    and "\<not> neg \<Longrightarrow> Coins_IsValid sdk c"
  using assms unfolding coin_laws_def by blast+

lemma coin_laws_Equal:
  assumes "coin_laws sdk" and "Coins_IsValid sdk a" and "Coins_IsValid sdk b"
  shows "Coins_Equal sdk a b \<longleftrightarrow> (\<forall>d. Coins_AmountOf sdk a d = Coins_AmountOf sdk b d)"
  using assms unfolding coin_laws_def by blast

lemma bank_lawsD:
  assumes "bank_laws sdk bk"
  shows "Coins_IsValid sdk (GetAllBalances bk b a)"
    and "Coins_IsValid sdk c \<Longrightarrow> SendCoins bk b f t c = Inr b' \<Longrightarrow>
      Coins_AmountOf sdk (GetAllBalances bk b' a) d = Coins_AmountOf sdk (GetAllBalances bk b a) d
        - (if a = f then Coins_AmountOf sdk c d else 0) + (if a = t then Coins_AmountOf sdk c d else 0)"
  using assms unfolding bank_laws_def by metis+

lemma length_prefix_inj:
  assumes "valid_addr a" and "valid_addr b"
    and "(of_nat (length a) :: byte) # a @ x = of_nat (length b) # b @ y"
  shows "a = b \<and> x = y"
proof -
  have "unat (of_nat (length a) :: byte) = unat (of_nat (length b) :: byte)" using assms(3) by simp
  then have "length a = length b" using assms(1,2) by (simp add: unat_of_nat_byte valid_addr_def)
  then show ?thesis using assms(3) by simp
qed

section \<open>An executable instance\<close>

definition plain_AmountOf :: "coins \<Rightarrow> bytes \<Rightarrow> int" where
  "plain_AmountOf c d = (case kv_get c d of None \<Rightarrow> 0 | Some x \<Rightarrow> x)"

definition plain_update :: "coins \<Rightarrow> bytes \<Rightarrow> int \<Rightarrow> coins" where
  "plain_update c d x =
     (let y = plain_AmountOf c d + x in if y = 0 then kv_delete c d else kv_set c d y)"

definition plain_Add :: "coins \<Rightarrow> coins \<Rightarrow> coins" where
  "plain_Add a b = fold (\<lambda>(d, x) c. plain_update c d x) b a"

definition plain_SafeSub :: "coins \<Rightarrow> coins \<Rightarrow> coins \<times> bool" where
  "plain_SafeSub a b =
     (let c = fold (\<lambda>(d, x) c. plain_update c d (- x)) b a in (c, \<exists>e\<in>set c. snd e < 0))"

definition plain_IsValid :: "coins \<Rightarrow> bool" where
  "plain_IsValid c \<longleftrightarrow> kv_ok c \<and> (\<forall>e\<in>set c. 0 < snd e)"

definition plain_sdk :: sdk where
  "plain_sdk = \<lparr>
     AccAddressFromBech32 = (\<lambda>s. if 0 < length s \<and> length s \<le> 255 then Inr s else Inl (Errorf ''bech32'')),
     AccAddress_String = (\<lambda>a. a),
     MustLengthPrefix = (\<lambda>a. of_nat (length a) # a),
     Coins_IsValid = plain_IsValid,
     Coins_IsAllPositive = (\<lambda>c. c \<noteq> [] \<and> (\<forall>e\<in>set c. 0 < snd e)),
     Coins_IsZero = (\<lambda>c. \<forall>e\<in>set c. snd e = 0),
     Coins_Equal = (=),
     Coins_AmountOf = plain_AmountOf,
     Coins_Add = plain_Add,
     Coins_SafeSub = plain_SafeSub,
     ValidateDenom = (\<lambda>d. if length d \<ge> 3 then Inr () else Inl (Errorf ''invalid denom''))\<rparr>"

type_synonym plain_balances = "(bytes, coins) kv"

definition plain_bal :: "plain_balances \<Rightarrow> bytes \<Rightarrow> coins" where
  "plain_bal b a = (case kv_get b a of None \<Rightarrow> [] | Some c \<Rightarrow> if plain_IsValid c then c else [])"

definition plain_Send :: "plain_balances \<Rightarrow> bytes \<Rightarrow> bytes \<Rightarrow> coins \<Rightarrow> plain_balances result" where
  "plain_Send b f t c =
     (let (r, neg) = plain_SafeSub (plain_bal b f) c in
      if neg then Inl (Errorf ''insufficient funds'')
      else let b' = kv_set b f r in Inr (kv_set b' t (plain_Add (plain_bal b' t) c)))"

definition plain_bank :: "plain_balances bank_keeper" where
  "plain_bank = \<lparr>GetModuleAddress = str, GetAllBalances = plain_bal, SendCoins = plain_Send\<rparr>"

lemma plain_sdk_sel [simp]:
  "AccAddressFromBech32 plain_sdk s = (if 0 < length s \<and> length s \<le> 255 then Inr s else Inl (Errorf ''bech32''))"
  "AccAddress_String plain_sdk a = a"
  "MustLengthPrefix plain_sdk a = of_nat (length a) # a"
  "Coins_IsValid plain_sdk = plain_IsValid"
  "Coins_IsAllPositive plain_sdk c = (c \<noteq> [] \<and> (\<forall>e\<in>set c. 0 < snd e))"
  "Coins_IsZero plain_sdk c = (\<forall>e\<in>set c. snd e = 0)"
  "Coins_Equal plain_sdk = (=)"
  "Coins_AmountOf plain_sdk = plain_AmountOf"
  "Coins_Add plain_sdk = plain_Add"
  "Coins_SafeSub plain_sdk = plain_SafeSub"
  "ValidateDenom plain_sdk d = (if length d \<ge> 3 then Inr () else Inl (Errorf ''invalid denom''))"
  by (simp_all add: plain_sdk_def)

lemma plain_bank_sel [simp]:
  "GetModuleAddress plain_bank = str"
  "GetAllBalances plain_bank = plain_bal"
  "SendCoins plain_bank = plain_Send"
  by (simp_all add: plain_bank_def)

text \<open>Coins built by the instance's operations: sorted, and without a zero amount.\<close>

definition plain_nz :: "coins \<Rightarrow> bool" where
  "plain_nz c \<longleftrightarrow> kv_ok c \<and> (\<forall>e\<in>set c. snd e \<noteq> 0)"

lemma plain_nz_get: "plain_nz c \<longleftrightarrow> kv_ok c \<and> (\<forall>d x. kv_get c d = Some x \<longrightarrow> x \<noteq> 0)"
  using kv_ball [of c "\<lambda>_ x. x \<noteq> 0"] by (auto simp: plain_nz_def)

lemma plain_IsValid_get: "plain_IsValid c \<longleftrightarrow> kv_ok c \<and> (\<forall>d x. kv_get c d = Some x \<longrightarrow> 0 < x)"
  using kv_ball [of c "\<lambda>_ x. 0 < x"] by (auto simp: plain_IsValid_def)

lemma plain_AmountOf_update:
  "plain_AmountOf (plain_update c d x) d' = plain_AmountOf c d' + (if d' = d then x else 0)"
  by (auto simp: plain_update_def plain_AmountOf_def Let_def)

lemma plain_nz_update: "plain_nz c \<Longrightarrow> plain_nz (plain_update c d x)"
  by (auto simp: plain_update_def plain_nz_get Let_def)

lemma plain_AmountOf_Cons:
  "kv_ok ((d, x) # b) \<Longrightarrow> plain_AmountOf ((d, x) # b) d' = plain_AmountOf b d' + (if d' = d then x else 0)"
  by (auto simp: plain_AmountOf_def kv_get_def kv_ok_def split: option.splits dest!: map_of_SomeD)

lemma plain_fold:
  assumes "kv_ok b" and "plain_nz a"
  shows "plain_AmountOf (fold (\<lambda>(d, x) c. plain_update c d (s * x)) b a) d' = plain_AmountOf a d' + s * plain_AmountOf b d'"
    and "plain_nz (fold (\<lambda>(d, x) c. plain_update c d (s * x)) b a)"
  using assms
proof (induction b arbitrary: a)
  case Nil
  { case 1
    show ?case by (simp add: plain_AmountOf_def)
  next
    case 2
    then show ?case by simp }
next
  case (Cons e b)
  obtain d x where e: "e = (d, x)" by (cases e)
  { case 1
    with Cons.IH(1) [of "plain_update a d (s * x)"] show ?case
      by (auto simp: e plain_AmountOf_Cons plain_AmountOf_update plain_nz_update kv_ok_def distrib_left)
  next
    case 2
    with Cons.IH(2) [of "plain_update a d (s * x)"] show ?case
      by (auto simp: e plain_nz_update kv_ok_def) }
qed

lemma plain_IsValid_nz: "plain_IsValid c \<Longrightarrow> plain_nz c"
  by (auto simp: plain_IsValid_def plain_nz_def)

lemma plain_nz_IsValid: "plain_nz c \<Longrightarrow> (\<And>d. 0 \<le> plain_AmountOf c d) \<Longrightarrow> plain_IsValid c"
  unfolding plain_nz_get plain_IsValid_get plain_AmountOf_def
  by (metis option.simps(5) order_less_le)

lemma plain_IsValid_AmountOf: "plain_IsValid c \<Longrightarrow> 0 \<le> plain_AmountOf c d"
  by (auto simp: plain_IsValid_get plain_AmountOf_def split: option.splits dest: order_less_imp_le)

lemma plain_Add_laws:
  assumes "plain_IsValid a" and "plain_IsValid b"
  shows "plain_AmountOf (plain_Add a b) d = plain_AmountOf a d + plain_AmountOf b d"
    and "plain_IsValid (plain_Add a b)"
proof -
  have ok: "kv_ok b" using assms by (simp add: plain_IsValid_def)
  note f = plain_fold [OF ok plain_IsValid_nz [OF assms(1)], of 1, simplified, folded plain_Add_def]
  have amt: "plain_AmountOf (plain_Add a b) d = plain_AmountOf a d + plain_AmountOf b d" for d
    by (rule f)
  then show "plain_AmountOf (plain_Add a b) d = plain_AmountOf a d + plain_AmountOf b d" .
  from amt show "plain_IsValid (plain_Add a b)"
    by (intro plain_nz_IsValid f(2)) (simp add: assms plain_IsValid_AmountOf)
qed

lemma plain_SafeSub_laws:
  assumes "plain_IsValid a" and "plain_IsValid b" and "plain_SafeSub a b = (c, neg)"
  shows "plain_AmountOf c d = plain_AmountOf a d - plain_AmountOf b d"
    and "neg \<longleftrightarrow> (\<exists>d. plain_AmountOf c d < 0)"
    and "\<not> neg \<Longrightarrow> plain_IsValid c"
proof -
  have ok: "kv_ok b" using assms by (simp add: plain_IsValid_def)
  have c: "c = fold (\<lambda>(d, x) c. plain_update c d (- x)) b a" and neg: "neg \<longleftrightarrow> (\<exists>e\<in>set c. snd e < 0)"
    using assms(3) by (auto simp: plain_SafeSub_def Let_def)
  note f = plain_fold [OF ok plain_IsValid_nz [OF assms(1)], of "-1", simplified, folded c]
  show "plain_AmountOf c d = plain_AmountOf a d - plain_AmountOf b d" using f(1) by simp
  have "kv_ok c" using f(2) by (simp add: plain_nz_def)
  then show iff: "neg \<longleftrightarrow> (\<exists>d. plain_AmountOf c d < 0)"
    unfolding neg using kv_bex [of c "\<lambda>_ x. x < 0"]
    by (auto simp: plain_AmountOf_def split: option.splits if_splits)
  show "\<not> neg \<Longrightarrow> plain_IsValid c"
    using iff by (intro plain_nz_IsValid f(2)) (auto simp: not_less)
qed

lemma plain_Equal:
  assumes "plain_IsValid a" and "plain_IsValid b"
  shows "a = b \<longleftrightarrow> (\<forall>d. plain_AmountOf a d = plain_AmountOf b d)"
proof
  assume eq: "\<forall>d. plain_AmountOf a d = plain_AmountOf b d"
  have "kv_get a d = kv_get b d" for d
    using eq [rule_format, of d] assms
    by (auto simp: plain_AmountOf_def plain_IsValid_get split: option.splits)
  with assms kv.entries_determine show "a = b" unfolding plain_IsValid_def by blast
qed simp

lemma plain_address_laws [simp]: "address_laws plain_sdk"
  by (auto simp: address_laws_def valid_addr_def)

lemma plain_IsZero:
  assumes "plain_IsValid a"
  shows "(\<forall>e\<in>set a. snd e = 0) \<longleftrightarrow> (\<forall>d. plain_AmountOf a d = 0)"
proof -
  have "kv_ok a" using assms by (simp add: plain_IsValid_def)
  then show ?thesis using kv_ball [of a "\<lambda>_ x. x = 0"] by (auto simp: plain_AmountOf_def split: option.splits)
qed

lemma plain_coin_laws [simp]: "coin_laws plain_sdk"
  unfolding coin_laws_def plain_sdk_sel
proof (intro conjI)
  show "plain_IsValid []" by (simp add: plain_IsValid_def)
  show "\<forall>d. plain_AmountOf [] d = 0" by (simp add: plain_AmountOf_def)
  show "\<forall>a d. plain_IsValid a \<longrightarrow> 0 \<le> plain_AmountOf a d" by (simp add: plain_IsValid_AmountOf)
  show "\<forall>a. plain_IsValid a \<longrightarrow> ((\<forall>e\<in>set a. snd e = 0) \<longleftrightarrow> (\<forall>d. plain_AmountOf a d = 0))"
    using plain_IsZero by blast
  show "\<forall>a b. plain_IsValid a \<longrightarrow> plain_IsValid b \<longrightarrow> plain_IsValid (plain_Add a b) \<and>
      (\<forall>d. plain_AmountOf (plain_Add a b) d = plain_AmountOf a d + plain_AmountOf b d)"
    using plain_Add_laws by blast
  show "\<forall>a b c neg. plain_IsValid a \<longrightarrow> plain_IsValid b \<longrightarrow> plain_SafeSub a b = (c, neg) \<longrightarrow>
      (\<forall>d. plain_AmountOf c d = plain_AmountOf a d - plain_AmountOf b d) \<and>
      (neg \<longleftrightarrow> (\<exists>d. plain_AmountOf c d < 0)) \<and> (\<not> neg \<longrightarrow> plain_IsValid c)"
    using plain_SafeSub_laws by meson
  show "\<forall>a b. plain_IsValid a \<longrightarrow> plain_IsValid b \<longrightarrow> (a = b \<longleftrightarrow> (\<forall>d. plain_AmountOf a d = plain_AmountOf b d))"
    using plain_Equal by blast
qed

lemma plain_bal_valid [simp]: "plain_IsValid (plain_bal b a)"
  by (auto simp: plain_bal_def plain_IsValid_def split: option.splits)

lemma plain_bal_set: "plain_IsValid c \<Longrightarrow> plain_bal (kv_set b a c) x = (if x = a then c else plain_bal b x)"
  by (simp add: plain_bal_def)

lemma plain_bank_laws [simp]: "bank_laws plain_sdk plain_bank"
proof -
  have "plain_AmountOf (plain_bal b' a) d = plain_AmountOf (plain_bal b a) d
        - (if a = f then plain_AmountOf c d else 0) + (if a = t then plain_AmountOf c d else 0)"
    if c: "plain_IsValid c" and send: "plain_Send b f t c = Inr b'" for b f t c b' a d
  proof -
    obtain r where sub: "plain_SafeSub (plain_bal b f) c = (r, False)"
      and b': "b' = kv_set (kv_set b f r) t (plain_Add (plain_bal (kv_set b f r) t) c)"
      using send by (auto simp: plain_Send_def Let_def split: prod.splits if_splits)
    note r = plain_SafeSub_laws [OF plain_bal_valid c sub]
    have rv: "plain_IsValid r" using r(3) by simp
    define y where "y = plain_Add (plain_bal (kv_set b f r) t) c"
    have b'y: "b' = kv_set (kv_set b f r) t y" by (simp add: b' y_def)
    have y: "plain_IsValid y" "plain_AmountOf y d = plain_AmountOf (plain_bal (kv_set b f r) t) d + plain_AmountOf c d"
      using plain_Add_laws [OF plain_bal_valid c] by (auto simp: y_def)
    show ?thesis using r(1) [of d] rv y by (simp add: b'y plain_bal_set)
  qed
  then show ?thesis by (auto simp: bank_laws_def)
qed

end
