(* ===== verification/Restake.thy ===== *)
theory Restake
  imports Sdk
begin

text \<open>
  The module \<open>x/restake\<close>: power an account may lock in vaults, its power being the tokens it
  has delegated plus the coins it has staked in the module. The theory has the store keys
  (\<open>types/keys.go\<close>), the keeper (\<open>keeper_vault.go\<close>, \<open>keeper_lock.go\<close>, \<open>keeper_stake.go\<close>,
  \<open>keeper_params.go\<close>, \<open>keeper.go\<close>), the message server, the staking hooks and the genesis code,
  an invariant of the store with its preservation, and the properties of the module.
\<close>

section \<open>Data\<close>

record Vault =
  vault_Key :: bytes
  vault_IsActive :: bool

record Lock =
  lock_StakerAddress :: bytes
  lock_Key :: bytes
  lock_Power :: int

record Stake =
  stake_StakerAddress :: bytes
  stake_Coins :: coins

record restake_Params =
  AllowedDenoms :: "bytes list"

text \<open>
  The store holds four maps, one per key prefix, and the parameters; the prefixes differ in their
  first byte, so that each map is a field of its own, with the full keys. The bank's state is
  threaded through the handlers.
\<close>

record 'b restake_state =
  rs_vaults :: "(bytes, Vault) kv"
  rs_locks :: "(bytes, Lock) kv"
  rs_stakes :: "(bytes, Stake) kv"
  rs_locks_by_power :: "(bytes, bytes) kv"
  rs_params :: restake_Params
  rs_bank :: 'b

text \<open>
  What the keeper is built with: the SDK, the bank, the staking keeper and the authority. The
  keeper uses of a validator only \<open>TokensFromSharesTruncated\<close> with \<open>RoundInt\<close>, which stands for it.
\<close>

record 'b restake_keeper =
  rk_sdk :: sdk
  rk_bank :: "'b bank_keeper"
  GetDelegatorBonded :: "bytes \<Rightarrow> int result"
  GetDelegation :: "bytes \<Rightarrow> bytes \<Rightarrow> int result"
  GetValidator :: "bytes \<Rightarrow> (int \<Rightarrow> int) result"
  rk_authority :: bytes

definition restake_ModuleName :: string where
  "restake_ModuleName = ''restake''"

definition ErrUnableToUndelegate :: error where "ErrUnableToUndelegate = Registered ''restake'' 2"
definition ErrVaultNotFound :: error where "ErrVaultNotFound = Registered ''restake'' 3"
definition ErrVaultNotActive :: error where "ErrVaultNotActive = Registered ''restake'' 4"
definition ErrLockNotFound :: error where "ErrLockNotFound = Registered ''restake'' 5"
definition ErrPowerNotEnough :: error where "ErrPowerNotEnough = Registered ''restake'' 6"
definition ErrInvalidPower :: error where "ErrInvalidPower = Registered ''restake'' 7"
definition ErrStakeNotEnough :: error where "ErrStakeNotEnough = Registered ''restake'' 11"
definition ErrNotAllowedDenom :: error where "ErrNotAllowedDenom = Registered ''restake'' 12"
definition ErrUnableToUnstake :: error where "ErrUnableToUnstake = Registered ''restake'' 13"
definition ErrLiquidStakerNotAllowed :: error where "ErrLiquidStakerNotAllowed = Registered ''restake'' 14"

section \<open>Store keys\<close>

definition VaultStoreKey :: "bytes \<Rightarrow> bytes" where
  "VaultStoreKey key = [0x10] @ key"

definition StakeStoreKey :: "sdk \<Rightarrow> bytes \<Rightarrow> bytes" where
  "StakeStoreKey sdk addr = [0x12] @ MustLengthPrefix sdk addr"

definition LocksByAddressStoreKey :: "sdk \<Rightarrow> bytes \<Rightarrow> bytes" where
  "LocksByAddressStoreKey sdk addr = [0x11] @ MustLengthPrefix sdk addr"

definition LockStoreKey :: "sdk \<Rightarrow> bytes \<Rightarrow> bytes \<Rightarrow> bytes" where
  "LockStoreKey sdk addr key = LocksByAddressStoreKey sdk addr @ key"

definition LocksByPowerIndexKey :: "sdk \<Rightarrow> bytes \<Rightarrow> bytes" where
  "LocksByPowerIndexKey sdk addr = [0x80] @ MustLengthPrefix sdk addr"

text \<open>\<open>lock.Power.Uint64()\<close> panics when the power is not a \<open>uint64\<close>.\<close>

definition IsUint64 :: "int \<Rightarrow> bool" where
  "IsUint64 x \<longleftrightarrow> 0 \<le> x \<and> x < 2 ^ 64"

definition LockByPowerIndexKey :: "sdk \<Rightarrow> Lock \<Rightarrow> bytes result" where
  "LockByPowerIndexKey sdk lock =
     bindE (MustAccAddressFromBech32 sdk (lock_StakerAddress lock)) (\<lambda>address.
     if \<not> IsUint64 (lock_Power lock) then Inl (Panic ''Uint64() out of bounds'')
     else Inr (LocksByPowerIndexKey sdk address @ be_bytes 8 (nat (lock_Power lock)) @ lock_Key lock))"

definition AssertKeyAtLeastLength :: "bytes \<Rightarrow> nat \<Rightarrow> unit result" where
  "AssertKeyAtLeastLength bz n = (if length bz < n then Inl (Panic ''expected key of length at least'') else Inr ())"

definition SplitLockByPowerIndexKey :: "bytes \<Rightarrow> (bytes \<times> int) result" where
  "SplitLockByPowerIndexKey key =
     bindE (AssertKeyAtLeastLength key 2) (\<lambda>_.
     let addrLen = unat (key ! 1) in
     bindE (AssertKeyAtLeastLength key (2 + addrLen + 8)) (\<lambda>_.
     Inr (take addrLen (drop 2 key), int (be_value (take 8 (drop (2 + addrLen) key))))))"

section \<open>Parameters\<close>

definition restake_Validate_params :: "sdk \<Rightarrow> restake_Params \<Rightarrow> unit result" where
  "restake_Validate_params sdk p = foldE (\<lambda>_ denom. ValidateDenom sdk denom) () (AllowedDenoms p)"

definition restake_SetParams ::
  "'b restake_keeper \<Rightarrow> 'b restake_state \<Rightarrow> restake_Params \<Rightarrow> 'b restake_state result" where
  "restake_SetParams k s p = bindE (restake_Validate_params (rk_sdk k) p) (\<lambda>_. Inr (s\<lparr>rs_params := p\<rparr>))"

definition restake_GetParams :: "'b restake_state \<Rightarrow> restake_Params" where
  "restake_GetParams s = rs_params s"

section \<open>Vaults\<close>

definition GetVault :: "'b restake_state \<Rightarrow> bytes \<Rightarrow> Vault option" where
  "GetVault s key = kv_get (rs_vaults s) (VaultStoreKey key)"

definition HasVault :: "'b restake_state \<Rightarrow> bytes \<Rightarrow> bool" where
  "HasVault s key = kv_has (rs_vaults s) (VaultStoreKey key)"

definition MustGetVault :: "'b restake_state \<Rightarrow> bytes \<Rightarrow> Vault result" where
  "MustGetVault s key = (case GetVault s key of None \<Rightarrow> Inl (Panic ''vault not found'') | Some v \<Rightarrow> Inr v)"

definition SetVault :: "'b restake_state \<Rightarrow> Vault \<Rightarrow> 'b restake_state" where
  "SetVault s vault = s\<lparr>rs_vaults := kv_set (rs_vaults s) (VaultStoreKey (vault_Key vault)) vault\<rparr>"

definition GetVaults :: "'b restake_state \<Rightarrow> Vault list" where
  "GetVaults s = map snd (kv_prefix_iterator (rs_vaults s) [0x10])"

definition GetOrCreateVault :: "'b restake_state \<Rightarrow> bytes \<Rightarrow> Vault \<times> 'b restake_state" where
  "GetOrCreateVault s key =
     (case GetVault s key of
        Some vault \<Rightarrow> (vault, s)
      | None \<Rightarrow> let vault = \<lparr>vault_Key = key, vault_IsActive = True\<rparr> in (vault, SetVault s vault))"

definition IsActiveVault :: "'b restake_state \<Rightarrow> bytes \<Rightarrow> bool" where
  "IsActiveVault s key = (case GetVault s key of None \<Rightarrow> False | Some vault \<Rightarrow> vault_IsActive vault)"

definition DeactivateVault :: "'b restake_state \<Rightarrow> bytes \<Rightarrow> 'b restake_state result" where
  "DeactivateVault s key =
     (case GetVault s key of
        None \<Rightarrow> Inl ErrVaultNotFound
      | Some vault \<Rightarrow>
          if \<not> vault_IsActive vault then Inl ErrVaultNotActive
          else Inr (SetVault s (vault\<lparr>vault_IsActive := False\<rparr>)))"

section \<open>Stakes and power\<close>

definition GetStake :: "'b restake_keeper \<Rightarrow> 'b restake_state \<Rightarrow> bytes \<Rightarrow> Stake" where
  "GetStake k s addr =
     (case kv_get (rs_stakes s) (StakeStoreKey (rk_sdk k) addr) of
        None \<Rightarrow> \<lparr>stake_StakerAddress = AccAddress_String (rk_sdk k) addr, stake_Coins = []\<rparr>
      | Some stake \<Rightarrow> stake)"

definition SetStake :: "'b restake_keeper \<Rightarrow> 'b restake_state \<Rightarrow> Stake \<Rightarrow> 'b restake_state result" where
  "SetStake k s stake =
     bindE (MustAccAddressFromBech32 (rk_sdk k) (stake_StakerAddress stake)) (\<lambda>addr.
     Inr (s\<lparr>rs_stakes := kv_set (rs_stakes s) (StakeStoreKey (rk_sdk k) addr) stake\<rparr>))"

definition DeleteStake :: "'b restake_keeper \<Rightarrow> 'b restake_state \<Rightarrow> bytes \<Rightarrow> 'b restake_state" where
  "DeleteStake k s addr = s\<lparr>rs_stakes := kv_delete (rs_stakes s) (StakeStoreKey (rk_sdk k) addr)\<rparr>"

definition GetStakes :: "'b restake_state \<Rightarrow> Stake list" where
  "GetStakes s = map snd (kv_prefix_iterator (rs_stakes s) [0x12])"

definition GetStakedPower :: "'b restake_keeper \<Rightarrow> 'b restake_state \<Rightarrow> bytes \<Rightarrow> int" where
  "GetStakedPower k s stakerAddr =
     (let stake = GetStake k s stakerAddr in
      fold (\<lambda>denom power. power + Coins_AmountOf (rk_sdk k) (stake_Coins stake) denom)
        (AllowedDenoms (restake_GetParams s)) 0)"

definition GetDelegationPower :: "'b restake_keeper \<Rightarrow> bytes \<Rightarrow> int result" where
  "GetDelegationPower k stakerAddr = GetDelegatorBonded k stakerAddr"

definition GetTotalPower :: "'b restake_keeper \<Rightarrow> 'b restake_state \<Rightarrow> bytes \<Rightarrow> int result" where
  "GetTotalPower k s stakerAddr =
     bindE (GetDelegationPower k stakerAddr) (\<lambda>delegationPower.
     Inr (delegationPower + GetStakedPower k s stakerAddr))"

definition IsLiquidStaker :: "bytes \<Rightarrow> bool" where
  "IsLiquidStaker addr \<longleftrightarrow> length addr = 32"

section \<open>Locks\<close>

definition GetLock :: "'b restake_keeper \<Rightarrow> 'b restake_state \<Rightarrow> bytes \<Rightarrow> bytes \<Rightarrow> Lock option" where
  "GetLock k s addr key = kv_get (rs_locks s) (LockStoreKey (rk_sdk k) addr key)"

definition setLockByPower :: "'b restake_keeper \<Rightarrow> 'b restake_state \<Rightarrow> Lock \<Rightarrow> 'b restake_state result" where
  "setLockByPower k s lock =
     bindE (LockByPowerIndexKey (rk_sdk k) lock) (\<lambda>ik.
     Inr (s\<lparr>rs_locks_by_power := kv_set (rs_locks_by_power s) ik (lock_Key lock)\<rparr>))"

definition deleteLockByPower :: "'b restake_keeper \<Rightarrow> 'b restake_state \<Rightarrow> Lock \<Rightarrow> 'b restake_state result" where
  "deleteLockByPower k s lock =
     bindE (LockByPowerIndexKey (rk_sdk k) lock) (\<lambda>ik.
     Inr (s\<lparr>rs_locks_by_power := kv_delete (rs_locks_by_power s) ik\<rparr>))"

definition DeleteLock :: "'b restake_keeper \<Rightarrow> 'b restake_state \<Rightarrow> bytes \<Rightarrow> bytes \<Rightarrow> 'b restake_state result" where
  "DeleteLock k s addr key =
     (case GetLock k s addr key of
        None \<Rightarrow> Inr s
      | Some lock \<Rightarrow>
          deleteLockByPower k
            (s\<lparr>rs_locks := kv_delete (rs_locks s) (LockStoreKey (rk_sdk k) addr key)\<rparr>) lock)"

definition SetLock :: "'b restake_keeper \<Rightarrow> 'b restake_state \<Rightarrow> Lock \<Rightarrow> 'b restake_state result" where
  "SetLock k s lock =
     bindE (MustAccAddressFromBech32 (rk_sdk k) (lock_StakerAddress lock)) (\<lambda>addr.
     bindE (DeleteLock k s addr (lock_Key lock)) (\<lambda>s.
     setLockByPower k
       (s\<lparr>rs_locks := kv_set (rs_locks s) (LockStoreKey (rk_sdk k) addr (lock_Key lock)) lock\<rparr>) lock))"

definition GetLocksByAddress :: "'b restake_keeper \<Rightarrow> 'b restake_state \<Rightarrow> bytes \<Rightarrow> Lock list" where
  "GetLocksByAddress k s addr = map snd (kv_prefix_iterator (rs_locks s) (LocksByAddressStoreKey (rk_sdk k) addr))"

definition GetLocks :: "'b restake_state \<Rightarrow> Lock list" where
  "GetLocks s = map snd (kv_prefix_iterator (rs_locks s) [0x11])"

definition SetLockedPower ::
  "'b restake_keeper \<Rightarrow> 'b restake_state \<Rightarrow> bytes \<Rightarrow> bytes \<Rightarrow> int \<Rightarrow> 'b restake_state result" where
  "SetLockedPower k s stakerAddr key pow =
     (if IsLiquidStaker stakerAddr then Inl ErrLiquidStakerNotAllowed
      else if \<not> IsUint64 pow then Inl ErrInvalidPower
      else
        bindE (GetTotalPower k s stakerAddr) (\<lambda>totalPower.
        if totalPower < pow then Inl ErrPowerNotEnough
        else
          let (vault, s) = GetOrCreateVault s key in
          if \<not> vault_IsActive vault then Inl ErrVaultNotActive
          else
            let lock =
              (case GetLock k s stakerAddr key of
                 Some lock \<Rightarrow> lock
               | None \<Rightarrow> \<lparr>lock_StakerAddress = AccAddress_String (rk_sdk k) stakerAddr,
                          lock_Key = key, lock_Power = 0\<rparr>)
            in SetLock k s (lock\<lparr>lock_Power := pow\<rparr>)))"

definition GetLockedPower ::
  "'b restake_keeper \<Rightarrow> 'b restake_state \<Rightarrow> bytes \<Rightarrow> bytes \<Rightarrow> int result" where
  "GetLockedPower k s stakerAddr key =
     (if IsLiquidStaker stakerAddr then Inl ErrLiquidStakerNotAllowed
      else case GetVault s key of
        None \<Rightarrow> Inl ErrVaultNotFound
      | Some vault \<Rightarrow>
          if \<not> vault_IsActive vault then Inl ErrVaultNotActive
          else case GetLock k s stakerAddr key of
            None \<Rightarrow> Inl ErrLockNotFound
          | Some lock \<Rightarrow> Inr (lock_Power lock))"

text \<open>The loop of \<open>isValidPower\<close> over the entries of the power index, from high to low power.\<close>

fun valid_power_scan :: "'b restake_state \<Rightarrow> int \<Rightarrow> (bytes \<times> bytes) list \<Rightarrow> bool result" where
  "valid_power_scan s totalPower [] = Inr True"
| "valid_power_scan s totalPower ((ik, key) # entries) =
     bindE (SplitLockByPowerIndexKey ik) (\<lambda>(_, power).
     if IsActiveVault s key then Inr (totalPower \<ge> power)
     else valid_power_scan s totalPower entries)"

definition isValidPower :: "'b restake_keeper \<Rightarrow> 'b restake_state \<Rightarrow> bytes \<Rightarrow> int \<Rightarrow> bool result" where
  "isValidPower k s addr totalPower =
     valid_power_scan s totalPower
       (kv_reverse_prefix_iterator (rs_locks_by_power s) (LocksByPowerIndexKey (rk_sdk k) addr))"

section \<open>Messages\<close>

record MsgStake =
  msg_StakerAddress :: bytes
  msg_Coins :: coins

definition MsgStake_ValidateBasic :: "sdk \<Rightarrow> MsgStake \<Rightarrow> unit result" where
  "MsgStake_ValidateBasic sdk m =
     (case AccAddressFromBech32 sdk (msg_StakerAddress m) of
        Inl _ \<Rightarrow> Inl sdk_ErrInvalidAddress
      | Inr _ \<Rightarrow>
          if \<not> Coins_IsValid sdk (msg_Coins m) then Inl sdk_ErrInvalidCoins
          else if \<not> Coins_IsAllPositive sdk (msg_Coins m) then Inl sdk_ErrInvalidCoins
          else Inr ())"

text \<open>\<open>MsgUnstake\<close> has the same fields as \<open>MsgStake\<close>.\<close>

definition MsgUnstake_ValidateBasic :: "sdk \<Rightarrow> MsgStake \<Rightarrow> unit result" where
  "MsgUnstake_ValidateBasic sdk m =
     (case AccAddressFromBech32 sdk (msg_StakerAddress m) of
        Inl _ \<Rightarrow> Inl sdk_ErrInvalidAddress
      | Inr _ \<Rightarrow>
          if \<not> Coins_IsValid sdk (msg_Coins m) then Inl sdk_ErrInvalidCoins
          else if \<not> Coins_IsAllPositive sdk (msg_Coins m) then Inl sdk_ErrInvalidCoins
          else Inr ())"

definition restake_MsgUpdateParams_ValidateBasic :: "sdk \<Rightarrow> bytes \<Rightarrow> restake_Params \<Rightarrow> unit result" where
  "restake_MsgUpdateParams_ValidateBasic sdk authority p =
     (case AccAddressFromBech32 sdk authority of
        Inl _ \<Rightarrow> Inl sdk_ErrInvalidAddress
      | Inr _ \<Rightarrow> restake_Validate_params sdk p)"

definition msg_Stake :: "'b restake_keeper \<Rightarrow> 'b restake_state \<Rightarrow> MsgStake \<Rightarrow> 'b restake_state result" where
  "msg_Stake k s msg =
     bindE (AccAddressFromBech32 (rk_sdk k) (msg_StakerAddress msg)) (\<lambda>addr.
     bindE (foldE (\<lambda>_ coin. if fst coin \<in> set (AllowedDenoms (restake_GetParams s)) then Inr ()
                            else Inl ErrNotAllowedDenom) () (msg_Coins msg)) (\<lambda>_.
     bindE (SendCoinsFromAccountToModule (rk_bank k) (rs_bank s) addr restake_ModuleName (msg_Coins msg)) (\<lambda>b.
     let s = s\<lparr>rs_bank := b\<rparr>; stake = GetStake k s addr in
     SetStake k s (stake\<lparr>stake_Coins := Coins_Add (rk_sdk k) (stake_Coins stake) (msg_Coins msg)\<rparr>))))"

definition msg_Unstake :: "'b restake_keeper \<Rightarrow> 'b restake_state \<Rightarrow> MsgStake \<Rightarrow> 'b restake_state result" where
  "msg_Unstake k s msg =
     bindE (AccAddressFromBech32 (rk_sdk k) (msg_StakerAddress msg)) (\<lambda>addr.
     let stake = GetStake k s addr;
         (coins, isNeg) = Coins_SafeSub (rk_sdk k) (stake_Coins stake) (msg_Coins msg);
         stake = stake\<lparr>stake_Coins := coins\<rparr> in
     if isNeg then Inl ErrStakeNotEnough
     else
       bindE (if \<not> Coins_IsZero (rk_sdk k) coins then SetStake k s stake else Inr (DeleteStake k s addr)) (\<lambda>s.
       bindE (GetTotalPower k s addr) (\<lambda>totalPower.
       bindE (isValidPower k s addr totalPower) (\<lambda>valid.
       if \<not> valid then Inl ErrUnableToUnstake
       else
         bindE (SendCoinsFromModuleToAccount (rk_bank k) (rs_bank s) restake_ModuleName addr (msg_Coins msg)) (\<lambda>b.
         Inr (s\<lparr>rs_bank := b\<rparr>))))))"

definition restake_UpdateParams ::
  "'b restake_keeper \<Rightarrow> 'b restake_state \<Rightarrow> bytes \<Rightarrow> restake_Params \<Rightarrow> 'b restake_state result" where
  "restake_UpdateParams k s authority p =
     (if rk_authority k \<noteq> authority then Inl gov_ErrInvalidSigner else restake_SetParams k s p)"

section \<open>Staking hooks\<close>

definition isAbleToUnbond :: "'b restake_keeper \<Rightarrow> 'b restake_state \<Rightarrow> bytes \<Rightarrow> int \<Rightarrow> bool result" where
  "isAbleToUnbond k s addr delegated =
     (let stakedPower = GetStakedPower k s addr; totalPower = stakedPower + delegated in
      isValidPower k s addr totalPower)"

definition BeforeDelegationRemoved ::
  "'b restake_keeper \<Rightarrow> 'b restake_state \<Rightarrow> bytes \<Rightarrow> bytes \<Rightarrow> unit result" where
  "BeforeDelegationRemoved k s delAddr valAddr =
     bindE (GetDelegatorBonded k delAddr) (\<lambda>delegated.
     bindE (GetDelegation k delAddr valAddr) (\<lambda>shares.
     bindE (GetValidator k valAddr) (\<lambda>tokensFromShares.
     let delegated = delegated - tokensFromShares shares in
     bindE (isAbleToUnbond k s delAddr delegated) (\<lambda>able.
     if \<not> able then Inl ErrUnableToUndelegate else Inr ()))))"

definition AfterDelegationModified :: "'b restake_keeper \<Rightarrow> 'b restake_state \<Rightarrow> bytes \<Rightarrow> unit result" where
  "AfterDelegationModified k s delAddr =
     bindE (GetDelegatorBonded k delAddr) (\<lambda>delegated.
     bindE (isAbleToUnbond k s delAddr delegated) (\<lambda>able.
     if \<not> able then Inl ErrUnableToUndelegate else Inr ()))"

section \<open>Genesis\<close>

record restake_GenesisState =
  gen_Params :: restake_Params
  gen_Vaults :: "Vault list"
  gen_Locks :: "Lock list"
  gen_Stakes :: "Stake list"

definition restake_DefaultGenesisState :: restake_GenesisState where
  "restake_DefaultGenesisState =
     \<lparr>gen_Params = \<lparr>AllowedDenoms = []\<rparr>, gen_Vaults = [], gen_Locks = [], gen_Stakes = []\<rparr>"

text \<open>\<open>stake.Coins.Validate()\<close> fails exactly when \<open>IsValid\<close> is false.\<close>

definition restake_Genesis_Validate :: "sdk \<Rightarrow> restake_GenesisState \<Rightarrow> unit result" where
  "restake_Genesis_Validate sdk gs =
     bindE (restake_Validate_params sdk (gen_Params gs)) (\<lambda>_.
     bindE (foldE (\<lambda>seen vault. if vault_Key vault \<in> set seen then Inl (Errorf ''duplicate vault'')
                                else Inr (vault_Key vault # seen)) [] (gen_Vaults gs)) (\<lambda>seenVaults.
     bindE (foldE (\<lambda>_ lock. if lock_Key lock \<notin> set seenVaults then Inl (Errorf ''no vault for the lock'')
                            else Inr ()) () (gen_Locks gs)) (\<lambda>_.
     foldE (\<lambda>_ stake.
       bindE (AccAddressFromBech32 sdk (stake_StakerAddress stake)) (\<lambda>_.
       if \<not> Coins_IsValid sdk (stake_Coins stake) then Inl (Errorf ''invalid coins'') else Inr ()))
       () (gen_Stakes gs))))"

definition restake_InitGenesis ::
  "'b restake_keeper \<Rightarrow> 'b restake_state \<Rightarrow> restake_GenesisState \<Rightarrow> 'b restake_state result" where
  "restake_InitGenesis k s data =
     (let balances = GetAllBalances (rk_bank k) (rs_bank s) (GetModuleAddress (rk_bank k) restake_ModuleName) in
      case restake_SetParams k s (gen_Params data) of
        Inl _ \<Rightarrow> Inl (Panic ''invalid params'')
      | Inr s \<Rightarrow>
          let s = fold (\<lambda>vault s. SetVault s vault) (gen_Vaults data) s in
          bindE (foldE (SetLock k) s (gen_Locks data)) (\<lambda>s.
          bindE (foldE (\<lambda>(s, total) stake.
                   bindE (SetStake k s stake) (\<lambda>s. Inr (s, Coins_Add (rk_sdk k) total (stake_Coins stake))))
                 (s, []) (gen_Stakes data)) (\<lambda>(s, totalStakes).
          if \<not> Coins_Equal (rk_sdk k) balances totalStakes then Inl (Panic ''expected module account'')
          else Inr s)))"

definition restake_ExportGenesis :: "'b restake_state \<Rightarrow> restake_GenesisState" where
  "restake_ExportGenesis s =
     \<lparr>gen_Params = restake_GetParams s, gen_Vaults = GetVaults s, gen_Locks = GetLocks s, gen_Stakes = GetStakes s\<rparr>"

section \<open>Keys are injective\<close>

lemma VaultStoreKey_inj [simp]: "VaultStoreKey a = VaultStoreKey b \<longleftrightarrow> a = b"
  by (simp add: VaultStoreKey_def)

lemma StakeStoreKey_inj:
  "address_laws sdk \<Longrightarrow> valid_addr a \<Longrightarrow> valid_addr b \<Longrightarrow> StakeStoreKey sdk a = StakeStoreKey sdk b \<longleftrightarrow> a = b"
  using length_prefix_inj [of a b "[]" "[]"] by (auto simp: StakeStoreKey_def address_lawsD(3))

lemma LockStoreKey_inj:
  "address_laws sdk \<Longrightarrow> valid_addr a \<Longrightarrow> valid_addr b \<Longrightarrow>
   LockStoreKey sdk a x = LockStoreKey sdk b y \<longleftrightarrow> a = b \<and> x = y"
  using length_prefix_inj [of a b x y] by (auto simp: LockStoreKey_def LocksByAddressStoreKey_def address_lawsD(3))

lemma MustAccAddress_Inr [simp]:
  "MustAccAddressFromBech32 sdk s = Inr a \<longleftrightarrow> AccAddressFromBech32 sdk s = Inr a"
  by (simp add: MustAccAddressFromBech32_def split: sum.splits)

lemma LockByPowerIndexKey_Inr:
  assumes "AccAddressFromBech32 sdk (lock_StakerAddress l) = Inr a" and "IsUint64 (lock_Power l)"
  shows "LockByPowerIndexKey sdk l =
    Inr (LocksByPowerIndexKey sdk a @ be_bytes 8 (nat (lock_Power l)) @ lock_Key l)"
  using assms by (simp add: LockByPowerIndexKey_def MustAccAddressFromBech32_def del: be_bytes.simps)

lemma LockByPowerIndexKey_inj:
  assumes "address_laws sdk"
    and a: "AccAddressFromBech32 sdk (lock_StakerAddress l) = Inr a" and "IsUint64 (lock_Power l)"
    and b: "AccAddressFromBech32 sdk (lock_StakerAddress m) = Inr b" and "IsUint64 (lock_Power m)"
    and eq: "LockByPowerIndexKey sdk l = LockByPowerIndexKey sdk m"
  shows "a = b \<and> lock_Power l = lock_Power m \<and> lock_Key l = lock_Key m"
proof -
  have valid: "valid_addr a" "valid_addr b" using assms address_lawsD(1) by blast+
  have "(of_nat (length a) :: byte) # a @ be_bytes 8 (nat (lock_Power l)) @ lock_Key l =
      of_nat (length b) # b @ be_bytes 8 (nat (lock_Power m)) @ lock_Key m"
    using eq valid assms(1,3,5)
    by (simp add: LockByPowerIndexKey_Inr [OF a] LockByPowerIndexKey_Inr [OF b] LocksByPowerIndexKey_def address_lawsD(3)
        del: be_bytes.simps)
  from length_prefix_inj [OF valid this]
  have "a = b" and tl: "be_bytes 8 (nat (lock_Power l)) @ lock_Key l = be_bytes 8 (nat (lock_Power m)) @ lock_Key m"
    by blast+
  from tl have "be_bytes 8 (nat (lock_Power l)) = be_bytes 8 (nat (lock_Power m))" "lock_Key l = lock_Key m"
    by (simp_all del: be_bytes.simps)
  with assms(3,5) be_bytes_inj [of "nat (lock_Power l)" 8 "nat (lock_Power m)"] \<open>a = b\<close>
  show ?thesis by (auto simp: IsUint64_def eq_nat_nat_iff nat_less_iff simp del: be_bytes.simps)
qed

text \<open>What \<open>SplitLockByPowerIndexKey\<close> reads off an index key.\<close>

lemma SplitLockByPowerIndexKey_key:
  assumes "address_laws sdk" and "valid_addr a" and "p < 2 ^ 64"
  shows "SplitLockByPowerIndexKey (LocksByPowerIndexKey sdk a @ be_bytes 8 p @ key) = Inr (a, int p)"
proof -
  have len: "unat (of_nat (length a) :: byte) = length a"
    using assms(2) by (simp add: unat_of_nat_byte valid_addr_def)
  have "be_value (be_bytes 8 p) = p" using assms(3) by (intro be_value_be_bytes_id) simp
  with len assms(1,2) show ?thesis
    by (simp add: SplitLockByPowerIndexKey_def LocksByPowerIndexKey_def address_lawsD(3) AssertKeyAtLeastLength_def
        Let_def del: be_bytes.simps)
qed

section \<open>The store invariant\<close>

text \<open>
  Every entry is stored under the key of its own fields, the power of a lock is a \<open>uint64\<close>, the
  vault of a lock exists, and the power index has exactly one entry per lock.
\<close>

definition vaults_ok :: "'b restake_state \<Rightarrow> bool" where
  "vaults_ok s \<longleftrightarrow> kv_ok (rs_vaults s) \<and>
     (\<forall>vk v. kv_get (rs_vaults s) vk = Some v \<longrightarrow> vk = VaultStoreKey (vault_Key v))"

definition stakes_ok :: "'b restake_keeper \<Rightarrow> 'b restake_state \<Rightarrow> bool" where
  "stakes_ok k s \<longleftrightarrow> kv_ok (rs_stakes s) \<and>
     (\<forall>sk st. kv_get (rs_stakes s) sk = Some st \<longrightarrow>
        (\<exists>a. AccAddressFromBech32 (rk_sdk k) (stake_StakerAddress st) = Inr a \<and>
           sk = StakeStoreKey (rk_sdk k) a) \<and> Coins_IsValid (rk_sdk k) (stake_Coins st))"

definition lock_wf :: "'b restake_keeper \<Rightarrow> bytes \<Rightarrow> Lock \<Rightarrow> bool" where
  "lock_wf k lk l \<longleftrightarrow> IsUint64 (lock_Power l) \<and>
     (\<exists>a. AccAddressFromBech32 (rk_sdk k) (lock_StakerAddress l) = Inr a \<and> lk = LockStoreKey (rk_sdk k) a (lock_Key l))"

definition locks_ok :: "'b restake_keeper \<Rightarrow> 'b restake_state \<Rightarrow> bool" where
  "locks_ok k s \<longleftrightarrow> kv_ok (rs_locks s) \<and> kv_ok (rs_locks_by_power s) \<and>
     (\<forall>lk l. kv_get (rs_locks s) lk = Some l \<longrightarrow> lock_wf k lk l) \<and>
     (\<forall>ik key. kv_get (rs_locks_by_power s) ik = Some key \<longleftrightarrow>
        (\<exists>lk l. kv_get (rs_locks s) lk = Some l \<and> LockByPowerIndexKey (rk_sdk k) l = Inr ik \<and> key = lock_Key l))"

definition lock_vaults_ok :: "'b restake_state \<Rightarrow> bool" where
  "lock_vaults_ok s \<longleftrightarrow> (\<forall>lk l. kv_get (rs_locks s) lk = Some l \<longrightarrow> HasVault s (lock_Key l))"

definition restake_inv :: "'b restake_keeper \<Rightarrow> 'b restake_state \<Rightarrow> bool" where
  "restake_inv k s \<longleftrightarrow> vaults_ok s \<and> stakes_ok k s \<and> locks_ok k s \<and> lock_vaults_ok s"

lemma locks_okD:
  assumes "locks_ok k s"
  shows "kv_ok (rs_locks s)" and "kv_ok (rs_locks_by_power s)"
    and "kv_get (rs_locks s) lk = Some l \<Longrightarrow> lock_wf k lk l"
    and "kv_get (rs_locks_by_power s) ik = Some key \<longleftrightarrow>
        (\<exists>lk l. kv_get (rs_locks s) lk = Some l \<and> LockByPowerIndexKey (rk_sdk k) l = Inr ik \<and> key = lock_Key l)"
  using assms unfolding locks_ok_def by blast+

lemma lock_wfE:
  assumes "lock_wf k lk l" and "address_laws (rk_sdk k)"
  obtains a where "IsUint64 (lock_Power l)" "valid_addr a"
    "AccAddressFromBech32 (rk_sdk k) (lock_StakerAddress l) = Inr a" "lk = LockStoreKey (rk_sdk k) a (lock_Key l)"
    "LockByPowerIndexKey (rk_sdk k) l =
       Inr (LocksByPowerIndexKey (rk_sdk k) a @ be_bytes 8 (nat (lock_Power l)) @ lock_Key l)"
  using assms address_lawsD(1) LockByPowerIndexKey_Inr unfolding lock_wf_def by metis

text \<open>Two well-formed locks with one index key are stored under one key.\<close>

lemma lock_wf_same_index:
  assumes "address_laws (rk_sdk k)" and "lock_wf k lk l" and "lock_wf k mk m"
    and "LockByPowerIndexKey (rk_sdk k) l = LockByPowerIndexKey (rk_sdk k) m"
  shows "lk = mk"
  using assms LockByPowerIndexKey_inj [of "rk_sdk k" l _ m] unfolding lock_wf_def by metis

lemma lock_wf_GetLock:
  assumes "address_laws (rk_sdk k)" and "locks_ok k s" and "valid_addr a" and "GetLock k s a key = Some l"
  shows "AccAddressFromBech32 (rk_sdk k) (lock_StakerAddress l) = Inr a" and "lock_Key l = key"
    and "IsUint64 (lock_Power l)"
proof -
  have "lock_wf k (LockStoreKey (rk_sdk k) a key) l"
    using assms locks_okD(3) by (simp add: GetLock_def)
  from lock_wfE [OF this assms(1)] obtain b where b: "IsUint64 (lock_Power l)" "valid_addr b"
    "AccAddressFromBech32 (rk_sdk k) (lock_StakerAddress l) = Inr b"
    "LockStoreKey (rk_sdk k) a key = LockStoreKey (rk_sdk k) b (lock_Key l)" by metis
  with LockStoreKey_inj [OF assms(1,3) b(2)]
  show "AccAddressFromBech32 (rk_sdk k) (lock_StakerAddress l) = Inr a" and "lock_Key l = key"
    and "IsUint64 (lock_Power l)" by auto
qed

lemma DeleteLock_ok:
  assumes "address_laws (rk_sdk k)" and "locks_ok k s" and "valid_addr a"
  obtains I where "DeleteLock k s a key =
      Inr (s\<lparr>rs_locks := kv_delete (rs_locks s) (LockStoreKey (rk_sdk k) a key), rs_locks_by_power := I\<rparr>)"
    and "locks_ok k (s\<lparr>rs_locks := kv_delete (rs_locks s) (LockStoreKey (rk_sdk k) a key), rs_locks_by_power := I\<rparr>)"
proof (cases "GetLock k s a key")
  case None
  let ?s = "s\<lparr>rs_locks := kv_delete (rs_locks s) (LockStoreKey (rk_sdk k) a key),
    rs_locks_by_power := rs_locks_by_power s\<rparr>"
  have "kv_get (kv_delete (rs_locks s) (LockStoreKey (rk_sdk k) a key)) lk = kv_get (rs_locks s) lk" for lk
    using None by (auto simp: GetLock_def)
  then have "kv_delete (rs_locks s) (LockStoreKey (rk_sdk k) a key) = rs_locks s"
    using locks_okD(1) [OF assms(2)] kv.entries_determine kv_ok_delete by blast
  then have "?s = s" by simp
  moreover have "DeleteLock k s a key = Inr s" using None by (simp add: DeleteLock_def)
  ultimately show ?thesis using that [of "rs_locks_by_power s"] assms(2) by simp
next
  case (Some l)
  define lk where "lk = LockStoreKey (rk_sdk k) a key"
  have l: "kv_get (rs_locks s) lk = Some l" using Some by (simp add: GetLock_def lk_def)
  have wf: "lock_wf k lk l" using locks_okD(3) [OF assms(2) l] .
  then obtain ik where ik: "LockByPowerIndexKey (rk_sdk k) l = Inr ik"
    using lock_wfE [OF wf assms(1)] by metis
  let ?s = "s\<lparr>rs_locks := kv_delete (rs_locks s) lk, rs_locks_by_power := kv_delete (rs_locks_by_power s) ik\<rparr>"
  have index: "kv_get (rs_locks_by_power ?s) jk = Some v \<longleftrightarrow>
      (\<exists>mk m. kv_get (rs_locks ?s) mk = Some m \<and> LockByPowerIndexKey (rk_sdk k) m = Inr jk \<and> v = lock_Key m)" for jk v
  proof (cases "jk = ik")
    case True
    have "\<not> (kv_get (rs_locks s) mk = Some m \<and> mk \<noteq> lk \<and> LockByPowerIndexKey (rk_sdk k) m = Inr ik)" for mk m
      using lock_wf_same_index [OF assms(1) wf] locks_okD(3) [OF assms(2)] ik by metis
    with True show ?thesis by auto
  next
    case False
    then have "mk \<noteq> lk" if "kv_get (rs_locks s) mk = Some m" "LockByPowerIndexKey (rk_sdk k) m = Inr jk" for mk m
      using that ik l by auto
    then have "(\<exists>mk m. kv_get (rs_locks ?s) mk = Some m \<and> LockByPowerIndexKey (rk_sdk k) m = Inr jk \<and> v = lock_Key m) \<longleftrightarrow>
        (\<exists>mk m. kv_get (rs_locks s) mk = Some m \<and> LockByPowerIndexKey (rk_sdk k) m = Inr jk \<and> v = lock_Key m)"
      by simp metis
    then show ?thesis using locks_okD(4) [OF assms(2), of jk v] False by simp
  qed
  have "locks_ok k ?s"
    unfolding locks_ok_def using index locks_okD(1-3) [OF assms(2)] by auto
  moreover have "DeleteLock k s a key = Inr ?s"
    using Some ik by (simp add: DeleteLock_def deleteLockByPower_def lk_def)
  ultimately show ?thesis using that by (simp add: lk_def)
qed

text \<open>Storing a lock: it replaces the lock of the same account and vault, and the index follows.\<close>

lemma SetLock_ok:
  assumes "address_laws (rk_sdk k)" and "locks_ok k s"
    and a: "AccAddressFromBech32 (rk_sdk k) (lock_StakerAddress l) = Inr a" and "IsUint64 (lock_Power l)"
  obtains L I where "SetLock k s l = Inr (s\<lparr>rs_locks := L, rs_locks_by_power := I\<rparr>)"
    and "locks_ok k (s\<lparr>rs_locks := L, rs_locks_by_power := I\<rparr>)"
    and "\<And>lk. kv_get L lk = (if lk = LockStoreKey (rk_sdk k) a (lock_Key l) then Some l else kv_get (rs_locks s) lk)"
proof -
  define lk where "lk = LockStoreKey (rk_sdk k) a (lock_Key l)"
  have valid: "valid_addr a" using address_lawsD(1) [OF assms(1) a] .
  obtain I where del: "DeleteLock k s a (lock_Key l) = Inr (s\<lparr>rs_locks := kv_delete (rs_locks s) lk, rs_locks_by_power := I\<rparr>)"
    and ok: "locks_ok k (s\<lparr>rs_locks := kv_delete (rs_locks s) lk, rs_locks_by_power := I\<rparr>)"
    using DeleteLock_ok [OF assms(1,2) valid] unfolding lk_def by metis
  have wf: "lock_wf k lk l" using assms by (auto simp: lock_wf_def lk_def)
  obtain ik where ik: "LockByPowerIndexKey (rk_sdk k) l = Inr ik" using lock_wfE [OF wf assms(1)] by metis
  let ?L = "kv_set (kv_delete (rs_locks s) lk) lk l" and ?I = "kv_set I ik (lock_Key l)"
  let ?s = "s\<lparr>rs_locks := ?L, rs_locks_by_power := ?I\<rparr>"
  have wfs: "kv_get ?L mk = Some m \<Longrightarrow> lock_wf k mk m" for mk m
    using locks_okD(3) [OF ok, of mk m] wf by (auto split: if_splits)
  have index: "kv_get ?I jk = Some v \<longleftrightarrow>
      (\<exists>mk m. kv_get ?L mk = Some m \<and> LockByPowerIndexKey (rk_sdk k) m = Inr jk \<and> v = lock_Key m)" for jk v
  proof (cases "jk = ik")
    case True
    have "mk = lk \<and> m = l" if "kv_get ?L mk = Some m" "LockByPowerIndexKey (rk_sdk k) m = Inr ik" for mk m
    proof -
      have "lk = mk" using lock_wf_same_index [OF assms(1) wf wfs [OF that(1)]] ik that(2) by simp
      then show ?thesis using that(1) by simp
    qed
    moreover have "kv_get ?L lk = Some l" by simp
    ultimately have "(\<exists>mk m. kv_get ?L mk = Some m \<and> LockByPowerIndexKey (rk_sdk k) m = Inr ik \<and> v = lock_Key m) \<longleftrightarrow>
        v = lock_Key l" using ik by metis
    moreover have "kv_get ?I ik = Some v \<longleftrightarrow> v = lock_Key l" by auto
    ultimately show ?thesis unfolding True by blast
  next
    case False
    then have "kv_get ?L mk = Some m \<and> LockByPowerIndexKey (rk_sdk k) m = Inr jk \<longleftrightarrow>
        kv_get (kv_delete (rs_locks s) lk) mk = Some m \<and> LockByPowerIndexKey (rk_sdk k) m = Inr jk" for mk m
      using ik by auto
    then have "(\<exists>mk m. kv_get ?L mk = Some m \<and> LockByPowerIndexKey (rk_sdk k) m = Inr jk \<and> v = lock_Key m) \<longleftrightarrow>
        (\<exists>mk m. kv_get (kv_delete (rs_locks s) lk) mk = Some m \<and> LockByPowerIndexKey (rk_sdk k) m = Inr jk \<and> v = lock_Key m)"
      by metis
    also have "\<dots> \<longleftrightarrow> kv_get I jk = Some v" using locks_okD(4) [OF ok, of jk v] by simp
    finally show ?thesis using False by simp
  qed
  have "locks_ok k ?s"
    unfolding locks_ok_def using index wfs locks_okD(1,2) [OF ok] by auto
  moreover have "SetLock k s l = Inr ?s"
    using del ik a by (simp add: SetLock_def setLockByPower_def lk_def MustAccAddressFromBech32_def)
  moreover have "kv_get ?L mk = (if mk = lk then Some l else kv_get (rs_locks s) mk)" for mk by simp
  ultimately show ?thesis using that unfolding lk_def by blast
qed

section \<open>Checking a power against the locks\<close>

lemma valid_power_scan_correct:
  assumes "address_laws sdk" and "valid_addr a"
    and "\<forall>e\<in>set es. \<exists>p < 2 ^ 64. fst e = LocksByPowerIndexKey sdk a @ be_bytes 8 p @ snd e"
    and "sorted_wrt (\<lambda>x y. fst y < fst x) es"
  shows "valid_power_scan s t es =
    Inr (\<forall>p key. p < 2 ^ 64 \<and> (LocksByPowerIndexKey sdk a @ be_bytes 8 p @ key, key) \<in> set es \<and>
      IsActiveVault s key \<longrightarrow> int p \<le> t)"
  using assms(3,4)
proof (induction es)
  case Nil
  then show ?case by simp
next
  case (Cons e es)
  let ?k = "\<lambda>p key. LocksByPowerIndexKey sdk a @ be_bytes 8 p @ key"
  obtain p key where p: "p < 2 ^ 64" and e: "e = (?k p key, key)"
    using Cons.prems(1) by (metis list.set_intros(1) prod.collapse)
  have split: "SplitLockByPowerIndexKey (?k p key) = Inr (a, int p)"
    using SplitLockByPowerIndexKey_key [OF assms(1,2) p] .
  have key_eq: "?k q x = ?k p key \<longleftrightarrow> q = p \<and> x = key" if "q < 2 ^ 64" for q x
    using that p be_bytes_inj [of q 8 p] by (auto simp del: be_bytes.simps)
  have le: "q \<le> p" if "q < 2 ^ 64" "(?k q x, x) \<in> set es" for q x
  proof -
    have "?k q x < ?k p key" using Cons.prems(2) that(2) e by auto
    then have "be_bytes 8 q < be_bytes 8 p \<or> be_bytes 8 q = be_bytes 8 p"
      by (auto simp: lex_less_append_same_length simp del: be_bytes.simps)
    then show ?thesis using that(1) p be_bytes_less [of q 8 p] be_bytes_inj [of q 8 p] by auto
  qed
  show ?case
  proof (cases "IsActiveVault s key")
    case True
    have "int q \<le> t" if "int p \<le> t" "q < 2 ^ 64" "(?k q x, x) \<in> set (e # es)" for q x
      using that le [of q x] key_eq [of q x] e by auto
    with True split p show ?thesis by (auto simp: e simp del: be_bytes.simps)
  next
    case False
    have "(?k q x, x) = e \<and> IsActiveVault s x \<longleftrightarrow> False" if "q < 2 ^ 64" for q x
      using key_eq [OF that, of x] e False by auto
    with False split Cons.IH Cons.prems show ?thesis by (auto simp: e simp del: be_bytes.simps)
  qed
qed

text \<open>The entries of the index under an account's prefix are its locks.\<close>

lemma power_index_entries:
  assumes "address_laws (rk_sdk k)" and "locks_ok k s" and "valid_addr a"
  shows "(ik, key) \<in> set (kv_reverse_prefix_iterator (rs_locks_by_power s) (LocksByPowerIndexKey (rk_sdk k) a)) \<longleftrightarrow>
    (\<exists>l. GetLock k s a key = Some l \<and>
       ik = LocksByPowerIndexKey (rk_sdk k) a @ be_bytes 8 (nat (lock_Power l)) @ key)"
proof
  assume "(ik, key) \<in> set (kv_reverse_prefix_iterator (rs_locks_by_power s) (LocksByPowerIndexKey (rk_sdk k) a))"
  then have pre: "has_prefix (LocksByPowerIndexKey (rk_sdk k) a) ik" and "kv_get (rs_locks_by_power s) ik = Some key"
    using locks_okD(2) [OF assms(2)] by (auto simp: set_kv_reverse_prefix_iterator set_kv_prefix_iterator)
  then obtain lk l where l: "kv_get (rs_locks s) lk = Some l" and ik: "LockByPowerIndexKey (rk_sdk k) l = Inr ik"
    and key: "key = lock_Key l" using locks_okD(4) [OF assms(2), of ik key] by blast
  have "lock_wf k lk l" using locks_okD(3) [OF assms(2) l] .
  then obtain b where b: "valid_addr b" "lk = LockStoreKey (rk_sdk k) b (lock_Key l)"
    "ik = LocksByPowerIndexKey (rk_sdk k) b @ be_bytes 8 (nat (lock_Power l)) @ lock_Key l"
    using ik by (elim lock_wfE [OF _ assms(1)]) auto
  obtain r where r: "ik = LocksByPowerIndexKey (rk_sdk k) a @ r" using pre has_prefix_iff by metis
  have "(of_nat (length a) :: byte) # a @ r = of_nat (length b) # b @ be_bytes 8 (nat (lock_Power l)) @ lock_Key l"
    using r [unfolded b(3)] unfolding LocksByPowerIndexKey_def address_lawsD(3) [OF assms(1,3)] address_lawsD(3) [OF assms(1) b(1)]
    by simp
  then have "a = b" using length_prefix_inj [OF assms(3) b(1)] by blast
  then show "\<exists>l. GetLock k s a key = Some l \<and>
      ik = LocksByPowerIndexKey (rk_sdk k) a @ be_bytes 8 (nat (lock_Power l)) @ key"
    using b l key unfolding GetLock_def by blast
next
  assume "\<exists>l. GetLock k s a key = Some l \<and>
    ik = LocksByPowerIndexKey (rk_sdk k) a @ be_bytes 8 (nat (lock_Power l)) @ key"
  then obtain l where l: "GetLock k s a key = Some l"
    and ik: "ik = LocksByPowerIndexKey (rk_sdk k) a @ be_bytes 8 (nat (lock_Power l)) @ key" by blast
  note wf = lock_wf_GetLock [OF assms l]
  have "LockByPowerIndexKey (rk_sdk k) l = Inr ik"
    using LockByPowerIndexKey_Inr [OF wf(1,3)] wf(2) ik by simp
  then have "kv_get (rs_locks_by_power s) ik = Some key"
    using locks_okD(4) [OF assms(2), of ik key] l wf(2) unfolding GetLock_def by blast
  moreover have "has_prefix (LocksByPowerIndexKey (rk_sdk k) a) ik" by (simp add: ik del: be_bytes.simps)
  ultimately show "(ik, key) \<in> set (kv_reverse_prefix_iterator (rs_locks_by_power s) (LocksByPowerIndexKey (rk_sdk k) a))"
    using locks_okD(2) [OF assms(2)] by (simp add: set_kv_reverse_prefix_iterator set_kv_prefix_iterator)
qed

lemma isValidPower_locks:
  assumes "address_laws (rk_sdk k)" and "locks_ok k s" and "valid_addr a"
  shows "isValidPower k s a t =
    Inr (\<forall>key l. GetLock k s a key = Some l \<longrightarrow> IsActiveVault s key \<longrightarrow> lock_Power l \<le> t)"
proof -
  let ?es = "kv_reverse_prefix_iterator (rs_locks_by_power s) (LocksByPowerIndexKey (rk_sdk k) a)"
  let ?k = "\<lambda>p key. LocksByPowerIndexKey (rk_sdk k) a @ be_bytes 8 p @ key"
  note entries = power_index_entries [OF assms]
  note uint = lock_wf_GetLock(3) [OF assms]
  have lt: "nat (lock_Power l) < 2 ^ 64" if "GetLock k s a key = Some l" for key l
    using uint [OF that] by (auto simp: IsUint64_def nat_less_iff)
  have shape: "\<forall>e\<in>set ?es. \<exists>p < 2 ^ 64. fst e = ?k p (snd e)"
    using entries lt by (metis prod.collapse)
  have "valid_power_scan s t ?es =
      Inr (\<forall>p key. p < 2 ^ 64 \<and> (?k p key, key) \<in> set ?es \<and> IsActiveVault s key \<longrightarrow> int p \<le> t)"
    using valid_power_scan_correct [OF assms(1,3) shape]
      kv_reverse_prefix_iterator_descending [OF locks_okD(2) [OF assms(2)]] .
  also have "(\<forall>p key. p < 2 ^ 64 \<and> (?k p key, key) \<in> set ?es \<and> IsActiveVault s key \<longrightarrow> int p \<le> t) \<longleftrightarrow>
      (\<forall>key l. GetLock k s a key = Some l \<longrightarrow> IsActiveVault s key \<longrightarrow> lock_Power l \<le> t)" (is "?L \<longleftrightarrow> ?R")
  proof
    assume L: ?L
    show ?R
    proof (intro allI impI)
      fix key l assume l: "GetLock k s a key = Some l" and act: "IsActiveVault s key"
      have "int (nat (lock_Power l)) \<le> t" using L lt [OF l] l act entries by blast
      then show "lock_Power l \<le> t" by linarith
    qed
  next
    assume R: ?R
    show ?L
    proof (intro allI impI, elim conjE)
      fix p key assume p: "p < (2::nat) ^ 64" and e: "(?k p key, key) \<in> set ?es" and act: "IsActiveVault s key"
      obtain l where l: "GetLock k s a key = Some l" and eq: "?k p key = ?k (nat (lock_Power l)) key"
        using e entries by blast
      have "p = nat (lock_Power l)"
        using eq be_bytes_inj [of p 8 "nat (lock_Power l)"] p lt [OF l] by (simp del: be_bytes.simps)
      then show "int p \<le> t" using R l act uint [OF l] by (auto simp: IsUint64_def)
    qed
  qed
  finally show ?thesis by (simp add: isValidPower_def)
qed

section \<open>Operations keep the invariant\<close>

lemma vaults_ok_SetVault: "vaults_ok s \<Longrightarrow> vaults_ok (SetVault s v)"
  by (auto simp: vaults_ok_def SetVault_def split: if_splits)

lemma GetVault_SetVault: "GetVault (SetVault s v) x = (if x = vault_Key v then Some v else GetVault s x)"
  by (simp add: GetVault_def SetVault_def)

lemma HasVault_GetVault: "HasVault s x \<longleftrightarrow> GetVault s x \<noteq> None"
  by (simp add: HasVault_def GetVault_def kv_has_def)

lemma GetVault_key: "vaults_ok s \<Longrightarrow> GetVault s x = Some v \<Longrightarrow> vault_Key v = x"
  unfolding vaults_ok_def GetVault_def using VaultStoreKey_inj by metis

lemma SetVault_frame [simp]:
  "rs_locks (SetVault s v) = rs_locks s" "rs_stakes (SetVault s v) = rs_stakes s"
  "rs_locks_by_power (SetVault s v) = rs_locks_by_power s" "rs_params (SetVault s v) = rs_params s"
  "rs_bank (SetVault s v) = rs_bank s"
  by (simp_all add: SetVault_def)

text \<open>Each part of the invariant reads only its own maps.\<close>

lemma inv_frame:
  "rs_stakes s' = rs_stakes s \<Longrightarrow> stakes_ok k s' = stakes_ok k s"
  "rs_locks s' = rs_locks s \<Longrightarrow> rs_locks_by_power s' = rs_locks_by_power s \<Longrightarrow> locks_ok k s' = locks_ok k s"
  "rs_vaults s' = rs_vaults s \<Longrightarrow> vaults_ok s' = vaults_ok s"
  "rs_vaults s' = rs_vaults s \<Longrightarrow> rs_locks s' = rs_locks s \<Longrightarrow> lock_vaults_ok s' = lock_vaults_ok s"
  by (simp_all add: stakes_ok_def locks_ok_def vaults_ok_def lock_vaults_ok_def HasVault_def)

lemma get_frame:
  "rs_vaults s' = rs_vaults s \<Longrightarrow> GetVault s' = GetVault s"
  "rs_vaults s' = rs_vaults s \<Longrightarrow> IsActiveVault s' = IsActiveVault s"
  "rs_locks s' = rs_locks s \<Longrightarrow> GetLock k s' = GetLock k s"
  "rs_stakes s' = rs_stakes s \<Longrightarrow> GetStake k s' = GetStake k s"
  "rs_stakes s' = rs_stakes s \<Longrightarrow> rs_params s' = rs_params s \<Longrightarrow> GetTotalPower k s' = GetTotalPower k s"
  by (auto simp: fun_eq_iff GetVault_def IsActiveVault_def GetLock_def GetStake_def GetTotalPower_def GetStakedPower_def
      restake_GetParams_def)

lemma restake_inv_SetVault: "restake_inv k s \<Longrightarrow> restake_inv k (SetVault s v)"
  using inv_frame(1,2) [of "SetVault s v" s k] vaults_ok_SetVault [of s v]
  by (auto simp: restake_inv_def lock_vaults_ok_def HasVault_GetVault GetVault_SetVault)

lemma restake_inv_DeactivateVault: "restake_inv k s \<Longrightarrow> DeactivateVault s key = Inr s' \<Longrightarrow> restake_inv k s'"
  by (auto simp: DeactivateVault_def restake_inv_SetVault split: option.splits if_splits)

lemma GetOrCreateVault_spec:
  assumes "restake_inv k s" and "GetOrCreateVault s key = (v, s')"
  shows "restake_inv k s'" and "GetVault s' key = Some v"
    and "\<And>x. x \<noteq> key \<Longrightarrow> GetVault s' x = GetVault s x"
    and "GetVault s key = None \<Longrightarrow> vault_IsActive v" and "\<And>w. GetVault s key = Some w \<Longrightarrow> v = w"
    and "rs_locks s' = rs_locks s" "rs_stakes s' = rs_stakes s" "rs_params s' = rs_params s" "rs_bank s' = rs_bank s"
  using assms restake_inv_SetVault [of k s "\<lparr>vault_Key = key, vault_IsActive = True\<rparr>"]
  by (auto simp: GetOrCreateVault_def Let_def GetVault_SetVault split: option.splits)

lemma SetLockedPower_spec:
  assumes laws: "address_laws (rk_sdk k)" and inv: "restake_inv k s" and a: "valid_addr a"
    and ok: "\<not> IsLiquidStaker a" "IsUint64 pw" "GetTotalPower k s a = Inr t" "pw \<le> t"
    and vault: "GetVault s key = None \<or> IsActiveVault s key"
  obtains s' l where "SetLockedPower k s a key pw = Inr s'" and "restake_inv k s'"
    and "lock_Power l = pw" and "\<And>b x. valid_addr b \<Longrightarrow> GetLock k s' b x = (if b = a \<and> x = key then Some l else GetLock k s b x)"
    and "\<And>x. IsActiveVault s' x \<longleftrightarrow> x = key \<or> IsActiveVault s x"
    and "\<And>x. x \<noteq> key \<Longrightarrow> GetVault s' x = GetVault s x"
    and "rs_stakes s' = rs_stakes s" and "rs_params s' = rs_params s" and "rs_bank s' = rs_bank s"
proof -
  obtain v s1 where v: "GetOrCreateVault s key = (v, s1)" by fastforce
  note spec = GetOrCreateVault_spec [OF inv v]
  have act: "vault_IsActive v" using vault spec(4,5) by (auto simp: IsActiveVault_def split: option.splits)
  define l0 where "l0 = (case GetLock k s1 a key of Some lock \<Rightarrow> lock
      | None \<Rightarrow> \<lparr>lock_StakerAddress = AccAddress_String (rk_sdk k) a, lock_Key = key, lock_Power = 0\<rparr>)"
  have locks: "locks_ok k s1" using spec(1) by (simp add: restake_inv_def)
  have l0: "AccAddressFromBech32 (rk_sdk k) (lock_StakerAddress l0) = Inr a" "lock_Key l0 = key"
    using lock_wf_GetLock(1,2) [OF laws locks a] address_lawsD(2) [OF laws a]
    by (auto simp: l0_def split: option.splits)
  let ?l = "l0\<lparr>lock_Power := pw\<rparr>"
  obtain L I where set: "SetLock k s1 ?l = Inr (s1\<lparr>rs_locks := L, rs_locks_by_power := I\<rparr>)"
    and lok: "locks_ok k (s1\<lparr>rs_locks := L, rs_locks_by_power := I\<rparr>)"
    and get: "\<And>lk. kv_get L lk = (if lk = LockStoreKey (rk_sdk k) a key then Some ?l else kv_get (rs_locks s1) lk)"
    by (rule SetLock_ok [OF laws locks, of ?l a]) (use l0 ok(2) in \<open>simp_all\<close>)
  let ?s2 = "s1\<lparr>rs_locks := L, rs_locks_by_power := I\<rparr>"
  have run: "SetLockedPower k s a key pw = Inr ?s2"
    using ok set v act by (simp add: SetLockedPower_def l0_def)
  have "HasVault s1 key" using spec(2) by (simp add: HasVault_GetVault)
  then have "lock_vaults_ok ?s2"
    using spec(1) l0(2) by (auto simp: lock_vaults_ok_def get restake_inv_def HasVault_def split: if_splits)
  then have "restake_inv k ?s2"
    using spec(1) lok inv_frame(1) [of ?s2 s1 k] inv_frame(3) [of ?s2 s1] by (simp add: restake_inv_def)
  moreover have "GetLock k ?s2 b x = (if b = a \<and> x = key then Some ?l else GetLock k s b x)" if "valid_addr b" for b x
    using LockStoreKey_inj [OF laws that a] spec(6) by (auto simp: GetLock_def get)
  moreover have "IsActiveVault ?s2 x \<longleftrightarrow> x = key \<or> IsActiveVault s x" for x
    using spec(2) spec(3) [of x] act by (cases "x = key") (auto simp: IsActiveVault_def GetVault_def)
  moreover have "x \<noteq> key \<Longrightarrow> GetVault ?s2 x = GetVault s x" for x
    using spec(3) [of x] by (simp add: GetVault_def)
  ultimately show ?thesis using that [of ?s2 ?l] run spec(7-9) by simp
qed

lemma SetLockedPower_Inr_iff:
  assumes "address_laws (rk_sdk k)" and "restake_inv k s" and "valid_addr a"
  shows "(\<exists>s'. SetLockedPower k s a key pw = Inr s') \<longleftrightarrow>
    \<not> IsLiquidStaker a \<and> IsUint64 pw \<and> (\<exists>t. GetTotalPower k s a = Inr t \<and> pw \<le> t) \<and>
    (GetVault s key = None \<or> IsActiveVault s key)"
proof
  assume "\<exists>s'. SetLockedPower k s a key pw = Inr s'"
  then show "\<not> IsLiquidStaker a \<and> IsUint64 pw \<and> (\<exists>t. GetTotalPower k s a = Inr t \<and> pw \<le> t) \<and>
    (GetVault s key = None \<or> IsActiveVault s key)"
    by (auto simp: SetLockedPower_def IsActiveVault_def GetOrCreateVault_def Let_def split: option.splits prod.splits if_splits)
next
  assume "\<not> IsLiquidStaker a \<and> IsUint64 pw \<and> (\<exists>t. GetTotalPower k s a = Inr t \<and> pw \<le> t) \<and>
    (GetVault s key = None \<or> IsActiveVault s key)"
  then show "\<exists>s'. SetLockedPower k s a key pw = Inr s'"
    using SetLockedPower_spec [OF assms, of pw _ key] by metis
qed

lemma GetStake_wf:
  assumes "address_laws (rk_sdk k)" and "coin_laws (rk_sdk k)" and "stakes_ok k s" and "valid_addr a"
  shows "AccAddressFromBech32 (rk_sdk k) (stake_StakerAddress (GetStake k s a)) = Inr a"
    and "Coins_IsValid (rk_sdk k) (stake_Coins (GetStake k s a))"
proof -
  have "\<exists>b. AccAddressFromBech32 (rk_sdk k) (stake_StakerAddress st) = Inr b \<and>
      StakeStoreKey (rk_sdk k) a = StakeStoreKey (rk_sdk k) b"
    if "kv_get (rs_stakes s) (StakeStoreKey (rk_sdk k) a) = Some st" for st
    using assms(3) that by (auto simp: stakes_ok_def)
  then show "AccAddressFromBech32 (rk_sdk k) (stake_StakerAddress (GetStake k s a)) = Inr a"
    using StakeStoreKey_inj [OF assms(1,4)] address_lawsD(1,2) [OF assms(1)] assms(4)
    by (auto simp: GetStake_def split: option.splits)
  show "Coins_IsValid (rk_sdk k) (stake_Coins (GetStake k s a))"
    using assms(3) coin_lawsD(1) [OF assms(2)] by (auto simp: GetStake_def stakes_ok_def split: option.splits)
qed

text \<open>The amount of a denomination an account has staked, and what all accounts have staked.\<close>

definition staked :: "'b restake_keeper \<Rightarrow> 'b restake_state \<Rightarrow> bytes \<Rightarrow> bytes \<Rightarrow> int" where
  "staked k s a d = Coins_AmountOf (rk_sdk k) (stake_Coins (GetStake k s a)) d"

definition total_staked :: "'b restake_keeper \<Rightarrow> 'b restake_state \<Rightarrow> bytes \<Rightarrow> int" where
  "total_staked k s d = kv_sum (\<lambda>st. Coins_AmountOf (rk_sdk k) (stake_Coins st) d) (rs_stakes s)"

definition module_balance :: "'b restake_keeper \<Rightarrow> 'b restake_state \<Rightarrow> bytes \<Rightarrow> int" where
  "module_balance k s d =
     Coins_AmountOf (rk_sdk k)
       (GetAllBalances (rk_bank k) (rs_bank s) (GetModuleAddress (rk_bank k) restake_ModuleName)) d"

lemma staked_part:
  "coin_laws (rk_sdk k) \<Longrightarrow>
   staked k s a d = kv_part (\<lambda>st. Coins_AmountOf (rk_sdk k) (stake_Coins st) d) (rs_stakes s) (StakeStoreKey (rk_sdk k) a)"
  by (simp add: staked_def GetStake_def kv_part_def coin_lawsD(2) split: option.splits)


text \<open>Replacing the stake of one account by valid coins.\<close>

lemma SetStake_spec:
  assumes "address_laws (rk_sdk k)" and "coin_laws (rk_sdk k)" and "stakes_ok k s"
    and a: "AccAddressFromBech32 (rk_sdk k) (stake_StakerAddress st) = Inr a" and "Coins_IsValid (rk_sdk k) (stake_Coins st)"
  obtains S where "SetStake k s st = Inr (s\<lparr>rs_stakes := S\<rparr>)" and "stakes_ok k (s\<lparr>rs_stakes := S\<rparr>)"
    and "\<And>x d. valid_addr x \<Longrightarrow> staked k (s\<lparr>rs_stakes := S\<rparr>) x d =
           (if x = a then Coins_AmountOf (rk_sdk k) (stake_Coins st) d else staked k s x d)"
    and "\<And>d. total_staked k (s\<lparr>rs_stakes := S\<rparr>) d =
           total_staked k s d - staked k s a d + Coins_AmountOf (rk_sdk k) (stake_Coins st) d"
proof -
  let ?S = "kv_set (rs_stakes s) (StakeStoreKey (rk_sdk k) a) st"
  have valid: "valid_addr a" using address_lawsD(1) [OF assms(1) a] .
  have "stakes_ok k (s\<lparr>rs_stakes := ?S\<rparr>)" using assms by (auto simp: stakes_ok_def)
  moreover have "SetStake k s st = Inr (s\<lparr>rs_stakes := ?S\<rparr>)" using a by (simp add: SetStake_def MustAccAddressFromBech32_def)
  moreover have "staked k (s\<lparr>rs_stakes := ?S\<rparr>) x d =
      (if x = a then Coins_AmountOf (rk_sdk k) (stake_Coins st) d else staked k s x d)" if "valid_addr x" for x d
    using StakeStoreKey_inj [OF assms(1) that valid] by (simp add: staked_def GetStake_def)
  moreover have "total_staked k (s\<lparr>rs_stakes := ?S\<rparr>) d =
      total_staked k s d - staked k s a d + Coins_AmountOf (rk_sdk k) (stake_Coins st) d" for d
    using assms(3) by (simp add: total_staked_def kv_sum_set stakes_ok_def staked_part [OF assms(2)])
  ultimately show ?thesis using that by blast
qed

lemma DeleteStake_spec:
  assumes "address_laws (rk_sdk k)" and "coin_laws (rk_sdk k)" and "stakes_ok k s" and a: "valid_addr a"
  obtains S where "DeleteStake k s a = s\<lparr>rs_stakes := S\<rparr>" and "stakes_ok k (s\<lparr>rs_stakes := S\<rparr>)"
    and "\<And>x d. valid_addr x \<Longrightarrow> staked k (s\<lparr>rs_stakes := S\<rparr>) x d = (if x = a then 0 else staked k s x d)"
    and "\<And>d. total_staked k (s\<lparr>rs_stakes := S\<rparr>) d = total_staked k s d - staked k s a d"
proof -
  let ?S = "kv_delete (rs_stakes s) (StakeStoreKey (rk_sdk k) a)"
  have "stakes_ok k (s\<lparr>rs_stakes := ?S\<rparr>)" using assms by (auto simp: stakes_ok_def)
  moreover have "staked k (s\<lparr>rs_stakes := ?S\<rparr>) x d = (if x = a then 0 else staked k s x d)" if "valid_addr x" for x d
    using StakeStoreKey_inj [OF assms(1) that a] coin_lawsD(2) [OF assms(2)] by (simp add: staked_def GetStake_def)
  moreover have "total_staked k (s\<lparr>rs_stakes := ?S\<rparr>) d = total_staked k s d - staked k s a d" for d
    using assms(3) by (simp add: total_staked_def kv_sum_delete stakes_ok_def staked_part [OF assms(2)])
  ultimately show ?thesis using that by (simp add: DeleteStake_def)
qed

definition restake_laws :: "'b restake_keeper \<Rightarrow> bool" where
  "restake_laws k \<longleftrightarrow> address_laws (rk_sdk k) \<and> coin_laws (rk_sdk k) \<and> bank_laws (rk_sdk k) (rk_bank k)"

lemma restake_lawsD:
  "restake_laws k \<Longrightarrow> address_laws (rk_sdk k)" "restake_laws k \<Longrightarrow> coin_laws (rk_sdk k)"
  "restake_laws k \<Longrightarrow> bank_laws (rk_sdk k) (rk_bank k)"
  by (simp_all add: restake_laws_def)

lemma restake_inv_stakes:
  "restake_inv k s \<Longrightarrow> stakes_ok k (s\<lparr>rs_stakes := S\<rparr>) \<Longrightarrow> restake_inv k (s\<lparr>rs_stakes := S, rs_bank := b\<rparr>)"
  by (simp add: restake_inv_def vaults_ok_def stakes_ok_def locks_ok_def lock_vaults_ok_def HasVault_def)

lemma staked_bank [simp]:
  "staked k (s\<lparr>rs_bank := b\<rparr>) = staked k s" "staked k (s\<lparr>rs_stakes := S, rs_bank := b\<rparr>) = staked k (s\<lparr>rs_stakes := S\<rparr>)"
  "total_staked k (s\<lparr>rs_bank := b\<rparr>) = total_staked k s"
  "total_staked k (s\<lparr>rs_stakes := S, rs_bank := b\<rparr>) = total_staked k (s\<lparr>rs_stakes := S\<rparr>)"
  by (auto simp: staked_def GetStake_def total_staked_def fun_eq_iff)

lemma MsgStake_validD:
  assumes "MsgStake_ValidateBasic sdk m = Inr ()"
  shows "Coins_IsValid sdk (msg_Coins m)"
  using assms by (auto simp: MsgStake_ValidateBasic_def split: sum.splits)

lemma MsgUnstake_validD:
  assumes "MsgUnstake_ValidateBasic sdk m = Inr ()"
  shows "Coins_IsValid sdk (msg_Coins m)"
  using assms by (auto simp: MsgUnstake_ValidateBasic_def split: sum.splits)

lemma msg_Stake_spec:
  assumes laws: "restake_laws k" and inv: "restake_inv k s" and valid: "Coins_IsValid (rk_sdk k) (msg_Coins m)"
    and run: "msg_Stake k s m = Inr s'"
  obtains a S b where "AccAddressFromBech32 (rk_sdk k) (msg_StakerAddress m) = Inr a"
    and "s' = s\<lparr>rs_stakes := S, rs_bank := b\<rparr>" and "restake_inv k s'"
    and "SendCoins (rk_bank k) (rs_bank s) a (GetModuleAddress (rk_bank k) restake_ModuleName) (msg_Coins m) = Inr b"
    and "\<And>x d. valid_addr x \<Longrightarrow> staked k s' x d =
           staked k s x d + (if x = a then Coins_AmountOf (rk_sdk k) (msg_Coins m) d else 0)"
    and "\<And>d. total_staked k s' d = total_staked k s d + Coins_AmountOf (rk_sdk k) (msg_Coins m) d"
proof -
  obtain a b where a: "AccAddressFromBech32 (rk_sdk k) (msg_StakerAddress m) = Inr a"
    and b: "SendCoins (rk_bank k) (rs_bank s) a (GetModuleAddress (rk_bank k) restake_ModuleName) (msg_Coins m) = Inr b"
    and set: "SetStake k (s\<lparr>rs_bank := b\<rparr>) ((GetStake k (s\<lparr>rs_bank := b\<rparr>) a)\<lparr>stake_Coins :=
       Coins_Add (rk_sdk k) (stake_Coins (GetStake k (s\<lparr>rs_bank := b\<rparr>) a)) (msg_Coins m)\<rparr>) = Inr s'"
    using run by (auto simp: msg_Stake_def SendCoinsFromAccountToModule_def Let_def)
  note al = restake_lawsD(1) [OF laws] and cl = restake_lawsD(2) [OF laws]
  have va: "valid_addr a" using address_lawsD(1) [OF al a] .
  have ok: "stakes_ok k s" using inv by (simp add: restake_inv_def)
  have G: "GetStake k (s\<lparr>rs_bank := b\<rparr>) a = GetStake k s a" by (simp add: GetStake_def)
  note wf = GetStake_wf [OF al cl ok va]
  let ?st = "(GetStake k s a)\<lparr>stake_Coins := Coins_Add (rk_sdk k) (stake_Coins (GetStake k s a)) (msg_Coins m)\<rparr>"
  obtain S where S: "SetStake k s ?st = Inr (s\<lparr>rs_stakes := S\<rparr>)" "stakes_ok k (s\<lparr>rs_stakes := S\<rparr>)"
    and st: "\<And>x d. valid_addr x \<Longrightarrow> staked k (s\<lparr>rs_stakes := S\<rparr>) x d =
           (if x = a then Coins_AmountOf (rk_sdk k) (stake_Coins ?st) d else staked k s x d)"
    and tot: "\<And>d. total_staked k (s\<lparr>rs_stakes := S\<rparr>) d =
           total_staked k s d - staked k s a d + Coins_AmountOf (rk_sdk k) (stake_Coins ?st) d"
    by (rule SetStake_spec [OF al cl ok, of ?st a]) (use wf coin_lawsD(5) [OF cl wf(2) valid] in simp_all)
  have s': "s' = s\<lparr>rs_stakes := S, rs_bank := b\<rparr>"
    using set arg_cong [OF S(1), of "\<lambda>r. case r of Inr x \<Rightarrow> rs_stakes x | Inl _ \<Rightarrow> []"] wf(1)
    unfolding G by (auto simp: SetStake_def MustAccAddressFromBech32_def)
  have amt: "Coins_AmountOf (rk_sdk k) (stake_Coins ?st) d = staked k s a d + Coins_AmountOf (rk_sdk k) (msg_Coins m) d" for d
    using coin_lawsD(6) [OF cl wf(2) valid] by (simp add: staked_def)
  show ?thesis
    using a s' restake_inv_stakes [OF inv S(2), of b] b st tot amt by (intro that [of a b S]) auto
qed

lemma msg_Unstake_spec:
  assumes laws: "restake_laws k" and inv: "restake_inv k s" and valid: "Coins_IsValid (rk_sdk k) (msg_Coins m)"
    and run: "msg_Unstake k s m = Inr s'"
  obtains a S b t where "AccAddressFromBech32 (rk_sdk k) (msg_StakerAddress m) = Inr a"
    and "s' = s\<lparr>rs_stakes := S, rs_bank := b\<rparr>" and "restake_inv k s'"
    and "SendCoins (rk_bank k) (rs_bank s) (GetModuleAddress (rk_bank k) restake_ModuleName) a (msg_Coins m) = Inr b"
    and "\<And>x d. valid_addr x \<Longrightarrow> staked k s' x d =
           staked k s x d - (if x = a then Coins_AmountOf (rk_sdk k) (msg_Coins m) d else 0)"
    and "\<And>d. 0 \<le> staked k s' a d"
    and "\<And>d. total_staked k s' d = total_staked k s d - Coins_AmountOf (rk_sdk k) (msg_Coins m) d"
    and "GetTotalPower k s' a = Inr t"
    and "\<And>key l. GetLock k s' a key = Some l \<Longrightarrow> IsActiveVault s' key \<Longrightarrow> lock_Power l \<le> t"
proof -
  note al = restake_lawsD(1) [OF laws] and cl = restake_lawsD(2) [OF laws]
  obtain a where a: "AccAddressFromBech32 (rk_sdk k) (msg_StakerAddress m) = Inr a"
    using run by (auto simp: msg_Unstake_def)
  have va: "valid_addr a" using address_lawsD(1) [OF al a] .
  have ok: "stakes_ok k s" using inv by (simp add: restake_inv_def)
  note wf = GetStake_wf [OF al cl ok va]
  obtain c neg where c: "Coins_SafeSub (rk_sdk k) (stake_Coins (GetStake k s a)) (msg_Coins m) = (c, neg)" by fastforce
  note sub = coin_laws_SafeSub [OF cl wf(2) valid c]
  let ?st = "(GetStake k s a)\<lparr>stake_Coins := c\<rparr>"
  obtain s1 t b where neg: "\<not> neg"
    and s1: "(if \<not> Coins_IsZero (rk_sdk k) c then SetStake k s ?st else Inr (DeleteStake k s a)) = Inr s1"
    and t: "GetTotalPower k s1 a = Inr t" "isValidPower k s1 a t = Inr True"
    and b: "SendCoins (rk_bank k) (rs_bank s1) (GetModuleAddress (rk_bank k) restake_ModuleName) a (msg_Coins m) = Inr b"
    and s': "s' = s1\<lparr>rs_bank := b\<rparr>"
    using run a c by (auto simp: msg_Unstake_def SendCoinsFromModuleToAccount_def Let_def)
  have cv: "Coins_IsValid (rk_sdk k) c" using sub(3) neg .
  obtain S where S: "s1 = s\<lparr>rs_stakes := S\<rparr>" "stakes_ok k (s\<lparr>rs_stakes := S\<rparr>)"
    and st: "\<And>x d. valid_addr x \<Longrightarrow> staked k (s\<lparr>rs_stakes := S\<rparr>) x d =
           (if x = a then Coins_AmountOf (rk_sdk k) c d else staked k s x d)"
    and tot: "\<And>d. total_staked k (s\<lparr>rs_stakes := S\<rparr>) d =
           total_staked k s d - staked k s a d + Coins_AmountOf (rk_sdk k) c d"
  proof (cases "Coins_IsZero (rk_sdk k) c")
    case True
    then have z: "Coins_AmountOf (rk_sdk k) c d = 0" for d using coin_lawsD(4) [OF cl cv] by blast
    obtain S where "DeleteStake k s a = s\<lparr>rs_stakes := S\<rparr>" "stakes_ok k (s\<lparr>rs_stakes := S\<rparr>)"
      "\<And>x d. valid_addr x \<Longrightarrow> staked k (s\<lparr>rs_stakes := S\<rparr>) x d = (if x = a then 0 else staked k s x d)"
      "\<And>d. total_staked k (s\<lparr>rs_stakes := S\<rparr>) d = total_staked k s d - staked k s a d"
      by (rule DeleteStake_spec [OF al cl ok va]) blast
    then show ?thesis using True s1 z by (intro that [of S]) auto
  next
    case False
    obtain S where "SetStake k s ?st = Inr (s\<lparr>rs_stakes := S\<rparr>)" "stakes_ok k (s\<lparr>rs_stakes := S\<rparr>)"
      "\<And>x d. valid_addr x \<Longrightarrow> staked k (s\<lparr>rs_stakes := S\<rparr>) x d =
         (if x = a then Coins_AmountOf (rk_sdk k) c d else staked k s x d)"
      "\<And>d. total_staked k (s\<lparr>rs_stakes := S\<rparr>) d = total_staked k s d - staked k s a d + Coins_AmountOf (rk_sdk k) c d"
      by (rule SetStake_spec [OF al cl ok, of ?st a]) (use wf cv in simp_all)
    then show ?thesis using False s1 by (intro that [of S]) auto
  qed
  have amt: "Coins_AmountOf (rk_sdk k) c d = staked k s a d - Coins_AmountOf (rk_sdk k) (msg_Coins m) d" for d
    using sub(1) by (simp add: staked_def)
  have locks: "locks_ok k s1" using inv inv_frame(2) [of s1 s k] S(1) by (simp add: restake_inv_def)
  have fr: "GetLock k s' = GetLock k s1" "IsActiveVault s' = IsActiveVault s1" "GetTotalPower k s' = GetTotalPower k s1"
    using get_frame(2,3,5) [of s' s1] s' by auto
  have "lock_Power l \<le> t" if "GetLock k s' a key = Some l" "IsActiveVault s' key" for key l
    using t(2) isValidPower_locks [OF al locks va, of t] that fr by auto
  then show ?thesis
    using a s' S(1) restake_inv_stakes [OF inv S(2), of b] b st tot amt t(1) fr(3) coin_lawsD(3) [OF cl cv] va
    by (intro that [of a b S t]) auto
qed

section \<open>The module as a state machine\<close>

text \<open>
  A step is a message that passed \<open>ValidateBasic\<close> and succeeded, or a call of another module to
  lock power or to deactivate a vault. The module account has no key, so it signs no message.
\<close>

inductive restake_step :: "'b restake_keeper \<Rightarrow> 'b restake_state \<Rightarrow> 'b restake_state \<Rightarrow> bool" for k where
  step_stake: "MsgStake_ValidateBasic (rk_sdk k) m = Inr () \<Longrightarrow>
    AccAddressFromBech32 (rk_sdk k) (msg_StakerAddress m) \<noteq> Inr (GetModuleAddress (rk_bank k) restake_ModuleName) \<Longrightarrow>
    msg_Stake k s m = Inr s' \<Longrightarrow> restake_step k s s'"
| step_unstake: "MsgUnstake_ValidateBasic (rk_sdk k) m = Inr () \<Longrightarrow>
    AccAddressFromBech32 (rk_sdk k) (msg_StakerAddress m) \<noteq> Inr (GetModuleAddress (rk_bank k) restake_ModuleName) \<Longrightarrow>
    msg_Unstake k s m = Inr s' \<Longrightarrow> restake_step k s s'"
| step_lock: "valid_addr a \<Longrightarrow> SetLockedPower k s a key pw = Inr s' \<Longrightarrow> restake_step k s s'"
| step_deactivate: "DeactivateVault s key = Inr s' \<Longrightarrow> restake_step k s s'"
| step_params: "restake_MsgUpdateParams_ValidateBasic (rk_sdk k) authority p = Inr () \<Longrightarrow>
    restake_UpdateParams k s authority p = Inr s' \<Longrightarrow> restake_step k s s'"

text \<open>The module account holds at least what the accounts have staked.\<close>

definition solvent :: "'b restake_keeper \<Rightarrow> 'b restake_state \<Rightarrow> bool" where
  "solvent k s \<longleftrightarrow> (\<forall>d. total_staked k s d \<le> module_balance k s d)"


lemma SetLockedPower_step:
  assumes "address_laws (rk_sdk k)" and "restake_inv k s" and "valid_addr a" and "SetLockedPower k s a key pw = Inr s'"
  obtains l t where "restake_inv k s'" and "lock_Power l = pw" and "GetTotalPower k s a = Inr t" and "pw \<le> t"
    and "\<And>b x. valid_addr b \<Longrightarrow> GetLock k s' b x = (if b = a \<and> x = key then Some l else GetLock k s b x)"
    and "GetVault s key = None \<or> IsActiveVault s key"
    and "\<And>x. IsActiveVault s' x \<longleftrightarrow> x = key \<or> IsActiveVault s x" and "\<And>x. x \<noteq> key \<Longrightarrow> GetVault s' x = GetVault s x"
    and "rs_stakes s' = rs_stakes s" and "rs_params s' = rs_params s" and "rs_bank s' = rs_bank s"
proof -
  obtain t where t: "\<not> IsLiquidStaker a" "IsUint64 pw" "GetTotalPower k s a = Inr t" "pw \<le> t"
    and v: "GetVault s key = None \<or> IsActiveVault s key"
    using SetLockedPower_Inr_iff [OF assms(1-3), of key pw] assms(4) by metis
  show ?thesis
    by (rule SetLockedPower_spec [OF assms(1-3) t v]) (use that t v assms(4) in auto)
qed

lemma restake_step_inv:
  assumes "restake_laws k" and "restake_step k s s'" and "restake_inv k s"
  shows "restake_inv k s'"
  using assms(2)
proof cases
  case (step_stake m)
  then show ?thesis using msg_Stake_spec [OF assms(1,3) MsgStake_validD] by metis
next
  case (step_unstake m)
  then show ?thesis using msg_Unstake_spec [OF assms(1,3) MsgUnstake_validD] by metis
next
  case (step_lock a key pw)
  then show ?thesis using SetLockedPower_step [OF restake_lawsD(1) [OF assms(1)] assms(3)] by metis
next
  case (step_deactivate key)
  then show ?thesis using restake_inv_DeactivateVault [OF assms(3)] by blast
next
  case (step_params authority p)
  then have "s' = s\<lparr>rs_params := p\<rparr>" by (auto simp: restake_UpdateParams_def restake_SetParams_def)
  then show ?thesis
    using assms(3) by (simp add: restake_inv_def vaults_ok_def stakes_ok_def locks_ok_def lock_vaults_ok_def HasVault_def)
qed

lemma DeactivateVault_Inr:
  assumes "vaults_ok s" and "DeactivateVault s key = Inr s'"
  obtains v where "IsActiveVault s key" and "s' = SetVault s v" and "\<not> vault_IsActive v" and "vault_Key v = key"
  using assms GetVault_key [OF assms(1)]
  by (fastforce simp: DeactivateVault_def IsActiveVault_def split: option.splits if_splits)

lemma solvent_frame:
  "rs_stakes s' = rs_stakes s \<Longrightarrow> rs_bank s' = rs_bank s \<Longrightarrow> solvent k s' = solvent k s"
  by (simp add: solvent_def total_staked_def module_balance_def)

lemma restake_step_solvent:
  assumes laws: "restake_laws k" and "restake_step k s s'" and inv: "restake_inv k s" and "solvent k s"
  shows "solvent k s'"
  using assms(2)
proof cases
  case (step_stake m)
  have v: "Coins_IsValid (rk_sdk k) (msg_Coins m)" using MsgStake_validD step_stake(1) .
  obtain a S b where "AccAddressFromBech32 (rk_sdk k) (msg_StakerAddress m) = Inr a" "s' = s\<lparr>rs_stakes := S, rs_bank := b\<rparr>"
    "SendCoins (rk_bank k) (rs_bank s) a (GetModuleAddress (rk_bank k) restake_ModuleName) (msg_Coins m) = Inr b"
    "\<And>d. total_staked k s' d = total_staked k s d + Coins_AmountOf (rk_sdk k) (msg_Coins m) d"
    using msg_Stake_spec [OF laws inv v step_stake(3)] by metis
  with step_stake assms(4) bank_lawsD(2) [OF restake_lawsD(3) [OF laws] v] show ?thesis
    by (auto simp: solvent_def module_balance_def)
next
  case (step_unstake m)
  have v: "Coins_IsValid (rk_sdk k) (msg_Coins m)" using MsgUnstake_validD step_unstake(1) .
  obtain a S b where "AccAddressFromBech32 (rk_sdk k) (msg_StakerAddress m) = Inr a" "s' = s\<lparr>rs_stakes := S, rs_bank := b\<rparr>"
    "SendCoins (rk_bank k) (rs_bank s) (GetModuleAddress (rk_bank k) restake_ModuleName) a (msg_Coins m) = Inr b"
    "\<And>d. total_staked k s' d = total_staked k s d - Coins_AmountOf (rk_sdk k) (msg_Coins m) d"
    using msg_Unstake_spec [OF laws inv v step_unstake(3)] by metis
  with step_unstake assms(4) bank_lawsD(2) [OF restake_lawsD(3) [OF laws] v] show ?thesis
    by (auto simp: solvent_def module_balance_def)
next
  case (step_lock a key pw)
  then show ?thesis
    using SetLockedPower_step [OF restake_lawsD(1) [OF laws] inv] solvent_frame assms(4) by metis
next
  case (step_deactivate key)
  then show ?thesis
    using DeactivateVault_Inr inv solvent_frame assms(4) SetVault_frame(2,5) unfolding restake_inv_def by metis
next
  case (step_params authority p)
  then have "s' = s\<lparr>rs_params := p\<rparr>" by (auto simp: restake_UpdateParams_def restake_SetParams_def)
  then show ?thesis using assms(4) solvent_frame [of s' s k] by simp
qed



lemma restake_step_inactive:
  assumes laws: "restake_laws k" and "restake_step k s s'" and inv: "restake_inv k s"
    and "GetVault s x = Some v" and "\<not> vault_IsActive v"
  shows "\<exists>v'. GetVault s' x = Some v' \<and> \<not> vault_IsActive v' \<and> (\<forall>a. valid_addr a \<longrightarrow> GetLock k s' a x = GetLock k s a x)"
  using assms(2)
proof cases
  case (step_stake m)
  obtain S b where "s' = s\<lparr>rs_stakes := S, rs_bank := b\<rparr>"
    using msg_Stake_spec [OF laws inv MsgStake_validD [OF step_stake(1)] step_stake(3)] by metis
  then show ?thesis using assms(4,5) by (simp add: GetVault_def GetLock_def)
next
  case (step_unstake m)
  obtain S b where "s' = s\<lparr>rs_stakes := S, rs_bank := b\<rparr>"
    using msg_Unstake_spec [OF laws inv MsgUnstake_validD [OF step_unstake(1)] step_unstake(3)] by metis
  then show ?thesis using assms(4,5) by (simp add: GetVault_def GetLock_def)
next
  case (step_lock a key pw)
  obtain l0 where get: "\<And>b y. valid_addr b \<Longrightarrow> GetLock k s' b y = (if b = a \<and> y = key then Some l0 else GetLock k s b y)"
    and vault: "GetVault s key = None \<or> IsActiveVault s key" and vs: "\<And>y. y \<noteq> key \<Longrightarrow> GetVault s' y = GetVault s y"
    by (rule SetLockedPower_step [OF restake_lawsD(1) [OF laws] inv step_lock]) blast
  have "x \<noteq> key" using vault assms(4,5) by (auto simp: IsActiveVault_def)
  then show ?thesis using get vs assms(4,5) by simp
next
  case (step_deactivate key)
  have vok: "vaults_ok s" using inv by (simp add: restake_inv_def)
  obtain w where w: "IsActiveVault s key" "s' = SetVault s w" "vault_Key w = key"
    using DeactivateVault_Inr [OF vok step_deactivate] by metis
  then have "x \<noteq> key" using assms(4,5) by (auto simp: IsActiveVault_def)
  then show ?thesis using w assms(4,5) get_frame(3) [of s' s k] by (auto simp: GetVault_SetVault)
next
  case (step_params authority p)
  then have "s' = s\<lparr>rs_params := p\<rparr>" by (auto simp: restake_UpdateParams_def restake_SetParams_def)
  then show ?thesis using assms(4,5) by (simp add: GetVault_def GetLock_def)
qed

section \<open>Genesis\<close>

lemma fold_SetVault:
  assumes "kv_ok m" and "\<forall>e\<in>set m. fst e = VaultStoreKey (vault_Key (snd e))"
  shows "fold (\<lambda>v s. SetVault s v) (map snd m) (s\<lparr>rs_vaults := []\<rparr>) = s\<lparr>rs_vaults := m\<rparr>"
  using assms
proof (induction m rule: rev_induct)
  case (snoc e m)
  then show ?case by (cases e) (auto simp: kv_ok_snoc SetVault_def kv_set_last)
qed simp

lemma foldE_SetLock:
  assumes "address_laws (rk_sdk k)" and "kv_ok m" and "\<forall>e\<in>set m. lock_wf k (fst e) (snd e)"
  obtains I where "foldE (SetLock k) (s\<lparr>rs_locks := [], rs_locks_by_power := []\<rparr>) (map snd m) =
      Inr (s\<lparr>rs_locks := m, rs_locks_by_power := I\<rparr>)" and "locks_ok k (s\<lparr>rs_locks := m, rs_locks_by_power := I\<rparr>)"
proof -
  have "\<exists>I. foldE (SetLock k) (s\<lparr>rs_locks := [], rs_locks_by_power := []\<rparr>) (map snd m) =
      Inr (s\<lparr>rs_locks := m, rs_locks_by_power := I\<rparr>) \<and> locks_ok k (s\<lparr>rs_locks := m, rs_locks_by_power := I\<rparr>)"
    using assms(2,3)
  proof (induction m rule: rev_induct)
    case Nil
    then show ?case by (auto simp: locks_ok_def)
  next
    case (snoc e m)
    obtain lk l where e: "e = (lk, l)" by (cases e)
    have "kv_ok m" "\<forall>e\<in>set m. fst e < lk" "lock_wf k lk l" using snoc.prems by (auto simp: e kv_ok_snoc)
    moreover obtain I where I: "foldE (SetLock k) (s\<lparr>rs_locks := [], rs_locks_by_power := []\<rparr>) (map snd m) =
        Inr (s\<lparr>rs_locks := m, rs_locks_by_power := I\<rparr>)" and ok: "locks_ok k (s\<lparr>rs_locks := m, rs_locks_by_power := I\<rparr>)"
      using snoc by (auto simp: e kv_ok_snoc)
    moreover obtain a where a: "AccAddressFromBech32 (rk_sdk k) (lock_StakerAddress l) = Inr a" "IsUint64 (lock_Power l)"
      "lk = LockStoreKey (rk_sdk k) a (lock_Key l)" using \<open>lock_wf k lk l\<close> by (auto simp: lock_wf_def)
    moreover obtain L J where L: "SetLock k (s\<lparr>rs_locks := m, rs_locks_by_power := I\<rparr>) l = Inr (s\<lparr>rs_locks := L, rs_locks_by_power := J\<rparr>)"
      and lok: "locks_ok k (s\<lparr>rs_locks := L, rs_locks_by_power := J\<rparr>)"
      and get: "\<And>x. kv_get L x = (if x = lk then Some l else kv_get m x)"
      by (rule SetLock_ok [OF assms(1) ok a(1,2)]) (use a(3) in auto)
    moreover have "L = m @ [e]"
    proof -
      have "L = kv_set m lk l"
        using kv.entries_determine [of L "kv_set m lk l"] get locks_okD(1) [OF lok] calculation(1) by simp
      then show ?thesis using calculation(2) by (simp add: kv_set_last e)
    qed
    ultimately show ?case by (auto simp: foldE_append e)
  qed
  then show ?thesis using that by blast
qed

lemma foldE_SetStake:
  assumes "address_laws (rk_sdk k)" and cl: "coin_laws (rk_sdk k)" and "stakes_ok k (s\<lparr>rs_stakes := m\<rparr>)"
  obtains c where "foldE (\<lambda>(s, total) stake.
        bindE (SetStake k s stake) (\<lambda>s. Inr (s, Coins_Add (rk_sdk k) total (stake_Coins stake))))
      (s\<lparr>rs_stakes := []\<rparr>, []) (map snd m) = Inr (s\<lparr>rs_stakes := m\<rparr>, c)"
    and "Coins_IsValid (rk_sdk k) c" and "\<And>d. Coins_AmountOf (rk_sdk k) c d = total_staked k (s\<lparr>rs_stakes := m\<rparr>) d"
proof -
  let ?f = "\<lambda>(s, total) stake. bindE (SetStake k s stake) (\<lambda>s. Inr (s, Coins_Add (rk_sdk k) total (stake_Coins stake)))"
  have "\<exists>c. foldE ?f (s\<lparr>rs_stakes := []\<rparr>, []) (map snd m) = Inr (s\<lparr>rs_stakes := m\<rparr>, c) \<and>
      Coins_IsValid (rk_sdk k) c \<and> (\<forall>d. Coins_AmountOf (rk_sdk k) c d = total_staked k (s\<lparr>rs_stakes := m\<rparr>) d)"
    using assms(3)
  proof (induction m rule: rev_induct)
    case Nil
    then show ?case using coin_lawsD(1,2) [OF cl] by (auto simp: total_staked_def kv_sum_def)
  next
    case (snoc e m)
    obtain sk st where e: "e = (sk, st)" by (cases e)
    have ok: "kv_ok m" "\<forall>e\<in>set m. fst e < sk" and get: "kv_get (m @ [e]) sk = Some st"
      using snoc.prems kv_mem_iff [of "m @ [e]" sk st] by (auto simp: stakes_ok_def e kv_ok_snoc)
    obtain a where a: "AccAddressFromBech32 (rk_sdk k) (stake_StakerAddress st) = Inr a" "sk = StakeStoreKey (rk_sdk k) a"
      "Coins_IsValid (rk_sdk k) (stake_Coins st)"
      using snoc.prems get by (auto simp: stakes_ok_def)
    have "kv_get (m @ [e]) x = Some y" if "kv_get m x = Some y" for x y
      using that by (cases e) (use ok in \<open>auto simp: kv_get_def map_add_Some_iff e dest!: map_of_SomeD\<close>)
    then have "stakes_ok k (s\<lparr>rs_stakes := m\<rparr>)" using snoc.prems ok(1) unfolding stakes_ok_def by simp blast
    from snoc.IH [OF this] obtain c where c: "foldE ?f (s\<lparr>rs_stakes := []\<rparr>, []) (map snd m) = Inr (s\<lparr>rs_stakes := m\<rparr>, c)"
      "Coins_IsValid (rk_sdk k) c" "\<forall>d. Coins_AmountOf (rk_sdk k) c d = total_staked k (s\<lparr>rs_stakes := m\<rparr>) d" by blast
    have "SetStake k (s\<lparr>rs_stakes := m\<rparr>) st = Inr (s\<lparr>rs_stakes := m @ [e]\<rparr>)"
      using a ok(2) by (simp add: SetStake_def MustAccAddressFromBech32_def kv_set_last e)
    then show ?case
      using c coin_lawsD(5,6) [OF cl c(2) a(3)] by (simp add: foldE_append e total_staked_def kv_sum_def)
  qed
  then show ?thesis using that by blast
qed

lemma prefix_iterator_all: "\<forall>e\<in>set m. has_prefix p (fst e) \<Longrightarrow> kv_prefix_iterator m p = m"
  by (simp add: kv_prefix_iterator_def filter_id_conv)

lemma restake_genesis_lists:
  assumes "restake_inv k s"
  shows "GetVaults s = map snd (rs_vaults s)" and "GetLocks s = map snd (rs_locks s)" and "GetStakes s = map snd (rs_stakes s)"
proof -
  have ok: "kv_ok (rs_vaults s)" "kv_ok (rs_locks s)" "kv_ok (rs_stakes s)"
    using assms by (auto simp: restake_inv_def vaults_ok_def locks_ok_def stakes_ok_def)
  have "\<forall>e\<in>set (rs_vaults s). has_prefix [0x10] (fst e)"
    using kv_ball [OF ok(1), of "\<lambda>x _. has_prefix [0x10] x"] assms
    by (fastforce simp: restake_inv_def vaults_ok_def VaultStoreKey_def)
  then show "GetVaults s = map snd (rs_vaults s)" by (simp add: GetVaults_def prefix_iterator_all)
  have "\<forall>e\<in>set (rs_locks s). has_prefix [0x11] (fst e)"
    using kv_ball [OF ok(2), of "\<lambda>x _. has_prefix [0x11] x"] assms
    by (fastforce simp: restake_inv_def locks_ok_def lock_wf_def LockStoreKey_def LocksByAddressStoreKey_def)
  then show "GetLocks s = map snd (rs_locks s)" by (simp add: GetLocks_def prefix_iterator_all)
  have "\<forall>e\<in>set (rs_stakes s). has_prefix [0x12] (fst e)"
    using kv_ball [OF ok(3), of "\<lambda>x _. has_prefix [0x12] x"] assms
    by (fastforce simp: restake_inv_def stakes_ok_def StakeStoreKey_def)
  then show "GetStakes s = map snd (rs_stakes s)" by (simp add: GetStakes_def prefix_iterator_all)
qed

text \<open>The power index is determined by the locks.\<close>

lemma locks_determine_index:
  assumes "locks_ok k s" and "locks_ok k s'" and "rs_locks s' = rs_locks s"
  shows "rs_locks_by_power s' = rs_locks_by_power s"
proof (rule kv.entries_determine [OF locks_okD(2) [OF assms(2)] locks_okD(2) [OF assms(1)]])
  fix ik
  have "kv_get (rs_locks_by_power s') ik = Some v \<longleftrightarrow> kv_get (rs_locks_by_power s) ik = Some v" for v
    unfolding locks_okD(4) [OF assms(1)] locks_okD(4) [OF assms(2)] assms(3) ..
  then show "kv_get (rs_locks_by_power s') ik = kv_get (rs_locks_by_power s) ik"
    by (metis not_None_eq)
qed

lemma InitGenesis_ExportGenesis:
  assumes laws: "restake_laws k" and inv: "restake_inv k s"
    and params: "restake_Validate_params (rk_sdk k) (rs_params s) = Inr ()"
    and bal: "\<And>d. module_balance k s d = total_staked k s d"
    and empty: "rs_vaults s0 = []" "rs_locks s0 = []" "rs_stakes s0 = []" "rs_locks_by_power s0 = []"
    and bank: "rs_bank s0 = rs_bank s"
  shows "restake_InitGenesis k s0 (restake_ExportGenesis s) = Inr s"
proof -
  note al = restake_lawsD(1) [OF laws] and cl = restake_lawsD(2) [OF laws]
  note lists = restake_genesis_lists [OF inv]
  have parts: "vaults_ok s" "stakes_ok k s" "locks_ok k s" using inv by (auto simp: restake_inv_def)
  define s1 where "s1 = s0\<lparr>rs_params := rs_params s\<rparr>"
  define s2 where "s2 = s1\<lparr>rs_vaults := rs_vaults s\<rparr>"
  have e1: "s1\<lparr>rs_vaults := []\<rparr> = s1" and e2: "s2\<lparr>rs_locks := [], rs_locks_by_power := []\<rparr> = s2"
    using empty by (cases s0; simp add: s1_def s2_def)+
  have "\<forall>e\<in>set (rs_vaults s). fst e = VaultStoreKey (vault_Key (snd e))"
    using kv_ball [of "rs_vaults s" "\<lambda>x v. x = VaultStoreKey (vault_Key v)"] parts(1) by (simp add: vaults_ok_def)
  then have v: "fold (\<lambda>v s. SetVault s v) (GetVaults s) s1 = s2"
    using fold_SetVault [of "rs_vaults s" s1] parts(1) e1 by (simp add: s2_def lists vaults_ok_def)
  have wfs: "\<forall>e\<in>set (rs_locks s). lock_wf k (fst e) (snd e)"
    using kv_ball [OF locks_okD(1) [OF parts(3)], of "lock_wf k"] locks_okD(3) [OF parts(3)] by blast
  obtain I where l: "foldE (SetLock k) (s2\<lparr>rs_locks := [], rs_locks_by_power := []\<rparr>) (map snd (rs_locks s)) =
      Inr (s2\<lparr>rs_locks := rs_locks s, rs_locks_by_power := I\<rparr>)"
    and lok: "locks_ok k (s2\<lparr>rs_locks := rs_locks s, rs_locks_by_power := I\<rparr>)"
    using foldE_SetLock [OF al locks_okD(1) [OF parts(3)] wfs] by metis
  have I: "I = rs_locks_by_power s" using locks_determine_index [OF parts(3) lok] by simp
  have l': "foldE (SetLock k) s2 (GetLocks s) = Inr (s2\<lparr>rs_locks := rs_locks s, rs_locks_by_power := rs_locks_by_power s\<rparr>)"
    using l unfolding I e2 lists .
  define s3 where "s3 = s2\<lparr>rs_locks := rs_locks s, rs_locks_by_power := rs_locks_by_power s\<rparr>"
  have sok: "stakes_ok k (s3\<lparr>rs_stakes := rs_stakes s\<rparr>)" using parts(2) by (simp add: stakes_ok_def)
  have s3: "s3\<lparr>rs_stakes := []\<rparr> = s3" using empty(3) by (cases s0) (simp add: s3_def s2_def s1_def)
  have fin: "s3\<lparr>rs_stakes := rs_stakes s\<rparr> = s" by (simp add: s3_def s2_def s1_def bank)
  obtain c where c: "foldE (\<lambda>(s, total) stake.
        bindE (SetStake k s stake) (\<lambda>s. Inr (s, Coins_Add (rk_sdk k) total (stake_Coins stake))))
      (s3, []) (map snd (rs_stakes s)) = Inr (s, c)"
    "Coins_IsValid (rk_sdk k) c" "\<And>d. Coins_AmountOf (rk_sdk k) c d = total_staked k s d"
    by (rule foldE_SetStake [OF al cl sok, unfolded s3 fin]) blast
  have "Coins_Equal (rk_sdk k) (GetAllBalances (rk_bank k) (rs_bank s) (GetModuleAddress (rk_bank k) restake_ModuleName)) c"
    using coin_laws_Equal [OF cl bank_lawsD(1) [OF restake_lawsD(3) [OF laws]] c(2)] c(3) bal by (simp add: module_balance_def)
  then show ?thesis
    using params v l' c(1) bank
    by (simp add: restake_InitGenesis_def restake_ExportGenesis_def restake_SetParams_def restake_GetParams_def
        Let_def lists(3) flip: s1_def s3_def)
qed

section \<open>Properties\<close>

text \<open>A keeper over the executable SDK instance, for the witnesses.\<close>

definition demo_keeper :: "plain_balances restake_keeper" where
  "demo_keeper = \<lparr>rk_sdk = plain_sdk, rk_bank = plain_bank, GetDelegatorBonded = (\<lambda>_. Inr 100),
     GetDelegation = (\<lambda>_ _. Inr 10), GetValidator = (\<lambda>_. Inr (\<lambda>shares. shares)), rk_authority = str ''gov''\<rparr>"

definition demo_start :: "plain_balances restake_state" where
  "demo_start = \<lparr>rs_vaults = [], rs_locks = [], rs_stakes = [], rs_locks_by_power = [],
     rs_params = \<lparr>AllowedDenoms = [str ''uband'']\<rparr>, rs_bank = [(str ''alice'', [(str ''uband'', 50)])]\<rparr>"

definition demo_locked :: "plain_balances restake_state" where
  "demo_locked = (case SetLockedPower demo_keeper demo_start (str ''alice'') (str ''vault'') 60 of
     Inr s \<Rightarrow> s | Inl _ \<Rightarrow> demo_start)"

lemma demo_laws [simp]: "restake_laws demo_keeper"
  by (simp add: restake_laws_def demo_keeper_def)

lemma demo_start_inv [simp]: "restake_inv demo_keeper demo_start"
  by (auto simp: restake_inv_def vaults_ok_def stakes_ok_def locks_ok_def lock_vaults_ok_def demo_start_def)

lemma demo_start_solvent [simp]: "solvent demo_keeper demo_start" 
  unfolding solvent_def total_staked_def module_balance_def demo_start_def demo_keeper_def kv_sum_def
  using plain_IsValid_AmountOf by simp


lemma demo_alice [simp]: "valid_addr (str ''alice'')"
  by (simp add: valid_addr_def str_def)

lemma demo_lock_run: "SetLockedPower demo_keeper demo_start (str ''alice'') (str ''vault'') 60 = Inr demo_locked"
proof -
  have "GetTotalPower demo_keeper demo_start (str ''alice'') = Inr 100"
    by (simp add: GetTotalPower_def GetDelegationPower_def GetStakedPower_def GetStake_def demo_keeper_def demo_start_def
        restake_GetParams_def plain_AmountOf_def)
  then have "\<exists>s. SetLockedPower demo_keeper demo_start (str ''alice'') (str ''vault'') 60 = Inr s"
    using SetLockedPower_Inr_iff [OF restake_lawsD(1) [OF demo_laws] demo_start_inv demo_alice, of "str ''vault''" 60]
    by (simp add: IsLiquidStaker_def str_def IsUint64_def GetVault_def demo_start_def)
  then show ?thesis by (auto simp: demo_locked_def)
qed

text \<open>
  C5: every message and every call keeps the store consistent: entries stand under the keys of
  their fields, locked powers are unsigned 64-bit numbers, the vault of every lock exists, and the
  power index has exactly the entries of the locks. Over any sequence of steps the module account
  keeps holding at least the coins the accounts have staked.
\<close>

theorem restake_invariant:
  assumes "restake_laws k" and "(restake_step k)\<^sup>*\<^sup>* s s'" and "restake_inv k s" and "solvent k s"
  shows "restake_inv k s' \<and> solvent k s'"
  using assms(2)
proof (induction rule: rtranclp_induct)
  case base
  then show ?case using assms by simp
next
  case (step y z)
  then show ?case using restake_step_inv [OF assms(1)] restake_step_solvent [OF assms(1)] by blast
qed

theorem restake_invariant_witness:
  "restake_inv demo_keeper demo_locked \<and> solvent demo_keeper demo_locked"
  by (rule restake_invariant [OF demo_laws, of demo_start])
    (simp_all add: r_into_rtranclp [of "restake_step demo_keeper"] step_lock [OF demo_alice demo_lock_run])







text \<open>
  The scan of the power index from high to low power, stopping at the first active vault,
  decides whether a power covers every lock of the account in an active vault. It never panics.
\<close>

theorem isValidPower_correct:
  assumes "address_laws (rk_sdk k)" and "restake_inv k s" and "valid_addr addr"
  shows "isValidPower k s addr totalPower =
    Inr (\<forall>key lock. GetLock k s addr key = Some lock \<longrightarrow> IsActiveVault s key \<longrightarrow> lock_Power lock \<le> totalPower)"
  using isValidPower_locks assms by (auto simp: restake_inv_def)

theorem isValidPower_correct_witness:
  "isValidPower demo_keeper demo_locked (str ''alice'') 59 = Inr False"
proof -
  obtain l where inv: "restake_inv demo_keeper demo_locked" and l: "lock_Power l = 60"
    and get: "\<And>b x. valid_addr b \<Longrightarrow> GetLock demo_keeper demo_locked b x =
        (if b = str ''alice'' \<and> x = str ''vault'' then Some l else GetLock demo_keeper demo_start b x)"
    and act: "\<And>x. IsActiveVault demo_locked x \<longleftrightarrow> x = str ''vault'' \<or> IsActiveVault demo_start x"
    by (rule SetLockedPower_step [OF restake_lawsD(1) [OF demo_laws] demo_start_inv demo_alice demo_lock_run]) blast
  have "GetLock demo_keeper demo_locked (str ''alice'') (str ''vault'') = Some l" "IsActiveVault demo_locked (str ''vault'')"
    using get [OF demo_alice] act by auto
  with isValidPower_correct [OF restake_lawsD(1) [OF demo_laws] inv demo_alice, of 59] l show ?thesis by fastforce
qed

text \<open>
  C24: \<open>SetLockedPower\<close> succeeds exactly for an account that is not a liquid staker, a power that
  is an unsigned 64-bit number and at most the account's total power, and a vault that is new or
  active; then \<open>GetLockedPower\<close> returns that power, and no other lock has changed.
\<close>

theorem SetLockedPower_correct:
  assumes "address_laws (rk_sdk k)" and "restake_inv k s" and "valid_addr a"
  shows "(is_ok (SetLockedPower k s a key pw) \<longleftrightarrow>
      \<not> IsLiquidStaker a \<and> IsUint64 pw \<and> (\<exists>t. GetTotalPower k s a = Inr t \<and> pw \<le> t) \<and>
      (GetVault s key = None \<or> IsActiveVault s key)) \<and>
    (\<forall>s'. SetLockedPower k s a key pw = Inr s' \<longrightarrow> GetLockedPower k s' a key = Inr pw \<and>
      (\<forall>b x. valid_addr b \<longrightarrow> (b, x) \<noteq> (a, key) \<longrightarrow> GetLock k s' b x = GetLock k s b x))"
proof (intro conjI allI impI)
  show "is_ok (SetLockedPower k s a key pw) \<longleftrightarrow>
      \<not> IsLiquidStaker a \<and> IsUint64 pw \<and> (\<exists>t. GetTotalPower k s a = Inr t \<and> pw \<le> t) \<and>
      (GetVault s key = None \<or> IsActiveVault s key)"
    unfolding is_ok_iff using SetLockedPower_Inr_iff [OF assms] .
next
  fix s' assume run: "SetLockedPower k s a key pw = Inr s'"
  obtain l where l: "lock_Power l = pw" and act: "\<And>x. IsActiveVault s' x \<longleftrightarrow> x = key \<or> IsActiveVault s x"
    and get: "\<And>b x. valid_addr b \<Longrightarrow> GetLock k s' b x = (if b = a \<and> x = key then Some l else GetLock k s b x)"
    by (rule SetLockedPower_step [OF assms run]) blast
  have "\<not> IsLiquidStaker a" using SetLockedPower_Inr_iff [OF assms] run by blast
  then show "GetLockedPower k s' a key = Inr pw"
    using get [OF assms(3), of key] act [of key] l by (auto simp: GetLockedPower_def IsActiveVault_def split: option.splits)
  fix b x assume "valid_addr b" "(b, x) \<noteq> (a, key)"
  then show "GetLock k s' b x = GetLock k s b x" using get by auto
qed

theorem SetLockedPower_correct_witness:
  "GetLockedPower demo_keeper demo_locked (str ''alice'') (str ''vault'') = Inr 60"
  using SetLockedPower_correct [OF restake_lawsD(1) [OF demo_laws] demo_start_inv demo_alice, of "str ''vault''" 60]
    demo_lock_run by blast

text \<open>
  C25: a deactivated vault stays deactivated, and its locks stay as they were, through every
  sequence of steps: nothing reactivates a vault or changes a lock in it.
\<close>

theorem deactivated_vault_frozen:
  assumes "restake_laws k" and "(restake_step k)\<^sup>*\<^sup>* s s'" and "restake_inv k s"
    and "GetVault s key = Some v" and "\<not> vault_IsActive v"
  shows "\<not> IsActiveVault s' key \<and> (\<forall>a. valid_addr a \<longrightarrow> GetLock k s' a key = GetLock k s a key)"
proof -
  have "restake_inv k s' \<and> (\<exists>v. GetVault s' key = Some v \<and> \<not> vault_IsActive v) \<and>
      (\<forall>a. valid_addr a \<longrightarrow> GetLock k s' a key = GetLock k s a key)"
    using assms(2)
  proof (induction rule: rtranclp_induct)
    case base
    then show ?case using assms by simp
  next
    case (step y z)
    then obtain v where "GetVault y key = Some v" "\<not> vault_IsActive v" by blast
    with step show ?case
      using restake_step_inv [OF assms(1)] restake_step_inactive [OF assms(1), of y z key v] by auto
  qed
  then show ?thesis by (auto simp: IsActiveVault_def)
qed

definition demo_closed :: "plain_balances restake_state" where
  "demo_closed = SetVault demo_start \<lparr>vault_Key = str ''vault'', vault_IsActive = False\<rparr>"

text \<open>A vault with a lock is closed; another lock is made afterwards.\<close>

definition demo_shut :: "plain_balances restake_state" where
  "demo_shut = (case DeactivateVault demo_locked (str ''vault'') of Inr s \<Rightarrow> s | Inl _ \<Rightarrow> demo_locked)"

definition demo_after :: "plain_balances restake_state" where
  "demo_after = (case SetLockedPower demo_keeper demo_shut (str ''alice'') (str ''other'') 10 of Inr s \<Rightarrow> s | Inl _ \<Rightarrow> demo_shut)"

lemma demo_close_run: "DeactivateVault demo_locked (str ''vault'') = Inr demo_shut"
proof -
  have "is_ok (DeactivateVault demo_locked (str ''vault''))" by code_simp
  then show ?thesis by (auto simp: is_ok_iff demo_shut_def)
qed

lemma demo_after_run: "SetLockedPower demo_keeper demo_shut (str ''alice'') (str ''other'') 10 = Inr demo_after"
proof -
  have "is_ok (SetLockedPower demo_keeper demo_shut (str ''alice'') (str ''other'') 10)" by code_simp
  then show ?thesis by (auto simp: is_ok_iff demo_after_def)
qed

theorem deactivated_vault_frozen_witness:
  "\<not> IsActiveVault demo_after (str ''vault'') \<and> GetLock demo_keeper demo_after (str ''alice'') (str ''vault'') \<noteq> None"
proof -
  have inv: "restake_inv demo_keeper demo_shut"
    using restake_step_inv [OF demo_laws step_deactivate [OF demo_close_run]]
      restake_step_inv [OF demo_laws step_lock [OF demo_alice demo_lock_run] demo_start_inv] by blast
  have run: "(restake_step demo_keeper)\<^sup>*\<^sup>* demo_shut demo_after" by (rule r_into_rtranclp, rule step_lock [OF demo_alice demo_after_run])
  have v: "GetVault demo_shut (str ''vault'') = Some \<lparr>vault_Key = str ''vault'', vault_IsActive = False\<rparr>" by code_simp
  have l: "(case GetLock demo_keeper demo_shut (str ''alice'') (str ''vault'') of None \<Rightarrow> False | Some _ \<Rightarrow> True)" by code_simp
  from deactivated_vault_frozen [OF demo_laws run inv v] l show ?thesis by (auto split: option.splits)
qed

text \<open>
  The staking hooks let a delegation change exactly when the stake and the delegation that
  remain cover every lock of the account in an active vault.
\<close>

theorem delegation_hooks_correct:
  assumes "address_laws (rk_sdk k)" and "restake_inv k s" and "valid_addr addr"
    and "GetDelegatorBonded k addr = Inr bonded" and "GetDelegation k addr val = Inr shares"
    and "GetValidator k val = Inr tokens"
  shows "AfterDelegationModified k s addr =
      (if \<forall>key l. GetLock k s addr key = Some l \<longrightarrow> IsActiveVault s key \<longrightarrow> lock_Power l \<le> GetStakedPower k s addr + bonded
       then Inr () else Inl ErrUnableToUndelegate) \<and>
    BeforeDelegationRemoved k s addr val =
      (if \<forall>key l. GetLock k s addr key = Some l \<longrightarrow> IsActiveVault s key \<longrightarrow>
           lock_Power l \<le> GetStakedPower k s addr + (bonded - tokens shares)
       then Inr () else Inl ErrUnableToUndelegate)"
  using isValidPower_locks [OF assms(1) _ assms(3)] assms(2,4-6)
  by (simp add: AfterDelegationModified_def BeforeDelegationRemoved_def isAbleToUnbond_def restake_inv_def Let_def)

theorem delegation_hooks_correct_witness:
  "AfterDelegationModified demo_keeper demo_start (str ''alice'') = Inr ()"
  using delegation_hooks_correct [OF restake_lawsD(1) [OF demo_laws] demo_start_inv demo_alice,
      of 100 "str ''val''" 10 "\<lambda>shares. shares"]
  by (auto simp: demo_keeper_def demo_start_def GetLock_def)

text \<open>
  Exporting the genesis and initialising an empty store from it gives the exported store
  back, the power index included, when the module account holds exactly the staked coins.
\<close>

theorem restake_genesis_roundtrip:
  assumes "restake_laws k" and "restake_inv k s" and "restake_Validate_params (rk_sdk k) (rs_params s) = Inr ()"
    and "\<And>d. module_balance k s d = total_staked k s d"
    and "rs_vaults s0 = []" and "rs_locks s0 = []" and "rs_stakes s0 = []" and "rs_locks_by_power s0 = []"
    and "rs_bank s0 = rs_bank s"
  shows "restake_InitGenesis k s0 (restake_ExportGenesis s) = Inr s"
  using InitGenesis_ExportGenesis [OF assms] .

theorem restake_genesis_roundtrip_witness:
  "restake_InitGenesis demo_keeper demo_start (restake_ExportGenesis demo_closed) = Inr demo_closed"
  by (rule restake_genesis_roundtrip [OF demo_laws])
    (simp add: demo_closed_def restake_inv_SetVault, simp_all add: demo_closed_def module_balance_def total_staked_def kv_sum_def
      demo_start_def demo_keeper_def restake_Validate_params_def plain_bal_def kv_get_def str_def restake_ModuleName_def
      plain_AmountOf_def)

end
