(* ===== verification/Feeds_Median.thy ===== *)
theory Feeds_Median
  imports Band_Prelude
begin

text \<open>
  The price of a feed is a weighted median of the validators' prices
  (\<open>x/feeds/types/median.go\<close>). The weights favour recent prices: the power of the validators,
  newest price first, is laid over five sections of the total power with falling multipliers. The
  theory has the algorithm, the closed form of the weights, the characterisation of the median and
  the bound on what a minority of validators can do to the price.
\<close>

section \<open>Stable sorting\<close>

text \<open>
  \<open>slices.SortStableFunc\<close>: the stable sort of a list by a three-way comparison. Sorting by
  insertion from the right gives it.
\<close>

fun insert_by :: "('a \<Rightarrow> 'a \<Rightarrow> int) \<Rightarrow> 'a \<Rightarrow> 'a list \<Rightarrow> 'a list" where
  "insert_by cmp x [] = [x]"
| "insert_by cmp x (y # ys) = (if cmp x y \<le> 0 then x # y # ys else y # insert_by cmp x ys)"

definition SortStableFunc :: "('a \<Rightarrow> 'a \<Rightarrow> int) \<Rightarrow> 'a list \<Rightarrow> 'a list" where
  "SortStableFunc cmp xs = foldr (insert_by cmp) xs []"

definition Compare :: "'a::linorder \<Rightarrow> 'a \<Rightarrow> int" where
  "Compare a b = (if a < b then -1 else if b < a then 1 else 0)"

lemma mset_insert_by: "mset (insert_by cmp x xs) = add_mset x (mset xs)"
  by (induction xs) auto

lemma mset_SortStableFunc [simp]: "mset (SortStableFunc cmp xs) = mset xs"
  by (induction xs) (simp_all add: SortStableFunc_def mset_insert_by)

lemma set_SortStableFunc [simp]: "set (SortStableFunc cmp xs) = set xs"
  using mset_SortStableFunc by (rule mset_eq_setD)

lemma SortStableFunc_Nil_iff [simp]: "SortStableFunc cmp xs = [] \<longleftrightarrow> xs = []"
  using set_SortStableFunc [of cmp xs] by (metis set_empty)

lemma sorted_insert_by:
  assumes "\<And>x y. cmp x y \<le> 0 \<Longrightarrow> key x \<le> (key y :: 'k::linorder)" and "\<And>x y. \<not> cmp x y \<le> 0 \<Longrightarrow> key y \<le> key x"
    and "sorted (map key xs)"
  shows "sorted (map key (insert_by cmp x xs))"
  using assms(3)
proof (induction xs)
  case (Cons y ys)
  have "set (insert_by cmp x ys) = insert x (set ys)"
    using mset_insert_by [of cmp x ys] by (metis set_mset_add_mset_insert set_mset_mset)
  moreover have "key x \<le> key y" if "cmp x y \<le> 0" using assms(1) that .
  moreover have "key y \<le> key x" if "\<not> cmp x y \<le> 0" using assms(2) that .
  ultimately show ?case using Cons by fastforce
qed simp

lemma sorted_SortStableFunc:
  assumes "\<And>x y. cmp x y \<le> 0 \<Longrightarrow> key x \<le> (key y :: 'k::linorder)" and "\<And>x y. \<not> cmp x y \<le> 0 \<Longrightarrow> key y \<le> key x"
  shows "sorted (map key (SortStableFunc cmp xs))"
  by (induction xs) (auto simp: SortStableFunc_def intro: sorted_insert_by [OF assms])

lemma sorted_wrt_SortStableFunc:
  assumes "\<And>x y. cmp x y \<le> 0 \<Longrightarrow> R x y" and "\<And>x y. \<not> cmp x y \<le> 0 \<Longrightarrow> R y x" and "transp R"
  shows "sorted_wrt R (SortStableFunc cmp xs)"
proof -
  have "sorted_wrt R (insert_by cmp x ys)" if "sorted_wrt R ys" for x ys
    using that
  proof (induction ys)
    case (Cons y ys)
    have "set (insert_by cmp x ys) = insert x (set ys)"
      using mset_insert_by [of cmp x ys] by (metis set_mset_add_mset_insert set_mset_mset)
    then show ?case using Cons assms(1,2) [of x y] transpD [OF assms(3), of x y] by auto
  qed simp
  then show ?thesis by (induction xs) (simp_all add: SortStableFunc_def)
qed

section \<open>The algorithm\<close>

text \<open>The last constructor stands for a number that is no value of the protobuf enumeration.\<close>

datatype SignalPriceStatus =
    SIGNAL_PRICE_STATUS_UNSPECIFIED
  | SIGNAL_PRICE_STATUS_UNSUPPORTED
  | SIGNAL_PRICE_STATUS_UNAVAILABLE
  | SIGNAL_PRICE_STATUS_AVAILABLE
  | SIGNAL_PRICE_STATUS_OTHER int

record ValidatorPriceInfo =
  info_Status :: SignalPriceStatus
  info_Power :: int
  info_Price :: uint64
  info_Timestamp :: int64

record WeightedPrice =
  wp_Weight :: int
  wp_Price :: uint64

definition ErrInvalidWeightedPrices :: error where
  "ErrInvalidWeightedPrices = Registered ''feeds'' 10"

definition getPowerScalingFactor :: int where
  "getPowerScalingFactor = 32"

definition getMultipliers :: "int list" where
  "getMultipliers = [60, 40, 20, 11, 10]"

definition getSections :: "int list" where
  "getSections = [1, 3, 7, 15, 32]"

fun prices_powers_step :: "int \<times> int \<times> int \<times> int \<Rightarrow> ValidatorPriceInfo \<Rightarrow> int \<times> int \<times> int \<times> int" where
  "prices_powers_step (tot, available, unavailable, unsupported) info =
     (tot + info_Power info,
      if info_Status info = SIGNAL_PRICE_STATUS_AVAILABLE then available + info_Power info else available,
      if info_Status info = SIGNAL_PRICE_STATUS_UNAVAILABLE then unavailable + info_Power info else unavailable,
      if info_Status info = SIGNAL_PRICE_STATUS_UNSUPPORTED then unsupported + info_Power info else unsupported)"

definition CalculatePricesPowers :: "ValidatorPriceInfo list \<Rightarrow> int \<times> int \<times> int \<times> int" where
  "CalculatePricesPowers infos = foldl prices_powers_step (0, 0, 0, 0) infos"

text \<open>The search for the median over the sorted weighted prices.\<close>

fun median_scan :: "int \<Rightarrow> int \<Rightarrow> WeightedPrice list \<Rightarrow> uint64 result" where
  "median_scan totalWeight cumulativeWeight [] = Inl ErrInvalidWeightedPrices"
| "median_scan totalWeight cumulativeWeight (wp # wps) =
     (let cumulativeWeight = cumulativeWeight + wp_Weight wp in
      if cumulativeWeight * 2 \<ge> totalWeight then Inr (wp_Price wp)
      else median_scan totalWeight cumulativeWeight wps)"

definition compare_weighted :: "WeightedPrice \<Rightarrow> WeightedPrice \<Rightarrow> int" where
  "compare_weighted a b =
     (let c = Compare (wp_Price a) (wp_Price b) in if c \<noteq> 0 then c else Compare (wp_Weight a) (wp_Weight b))"

definition MedianWeightedPrice :: "WeightedPrice list \<Rightarrow> uint64 result" where
  "MedianWeightedPrice weightedPrices =
     (let weightedPrices = SortStableFunc compare_weighted weightedPrices;
          totalWeight = sum_list (map wp_Weight weightedPrices) in
      median_scan totalWeight 0 weightedPrices)"

text \<open>
  The inner loop: it lays the power that is left of an entry over the sections from
  \<open>sectionIndex\<close> on, and returns the section it stopped at, the power laid so far, what is left
  and the weight of the entry.
\<close>

function distribute :: "int \<Rightarrow> nat \<Rightarrow> int \<Rightarrow> int \<Rightarrow> int \<Rightarrow> nat \<times> int \<times> int \<times> int" where
  "distribute totalPower sectionIndex currentPower leftPower totalWeight =
     (if sectionIndex < length getSections then
        let sectionLimit = totalPower * getSections ! sectionIndex;
            takePower = (if currentPower + leftPower \<le> sectionLimit then leftPower else sectionLimit - currentPower);
            totalWeight = totalWeight + takePower * getMultipliers ! sectionIndex;
            currentPower = currentPower + takePower;
            leftPower = leftPower - takePower in
        if leftPower = 0 then (sectionIndex, currentPower, leftPower, totalWeight)
        else distribute totalPower (Suc sectionIndex) currentPower leftPower totalWeight
      else (sectionIndex, currentPower, leftPower, totalWeight))"
  by pat_completeness auto

termination distribute
  by (relation "measure (\<lambda>(_, i, _). length getSections - i)") auto

fun weigh :: "int \<Rightarrow> nat \<Rightarrow> int \<Rightarrow> ValidatorPriceInfo list \<Rightarrow> WeightedPrice list" where
  "weigh totalPower sectionIndex currentPower [] = []"
| "weigh totalPower sectionIndex currentPower (info # infos) =
     (let (sectionIndex, currentPower, _, totalWeight) =
        distribute totalPower sectionIndex currentPower (getPowerScalingFactor * info_Power info) 0 in
      \<lparr>wp_Weight = totalWeight, wp_Price = info_Price info\<rparr> # weigh totalPower sectionIndex currentPower infos)"

definition compare_infos :: "ValidatorPriceInfo \<Rightarrow> ValidatorPriceInfo \<Rightarrow> int" where
  "compare_infos a b =
     (let c = Compare (info_Timestamp b) (info_Timestamp a) in
      if c \<noteq> 0 then c else Compare (info_Power b) (info_Power a))"

definition valid_infos :: "ValidatorPriceInfo list \<Rightarrow> ValidatorPriceInfo list" where
  "valid_infos infos = filter (\<lambda>i. info_Status i = SIGNAL_PRICE_STATUS_AVAILABLE) infos"

definition MedianValidatorPriceInfos :: "ValidatorPriceInfo list \<Rightarrow> uint64 result" where
  "MedianValidatorPriceInfos infos =
     (let validPrices = valid_infos infos;
          totalPower = sum_list (map info_Power validPrices);
          validPrices = SortStableFunc compare_infos validPrices in
      MedianWeightedPrice (weigh totalPower 0 0 validPrices))"

section \<open>Powers by status\<close>

definition power_of :: "(SignalPriceStatus \<Rightarrow> bool) \<Rightarrow> ValidatorPriceInfo list \<Rightarrow> int" where
  "power_of P infos = sum_list (map info_Power (filter (\<lambda>i. P (info_Status i)) infos))"

lemma CalculatePricesPowers_eq:
  "CalculatePricesPowers infos =
     (power_of (\<lambda>_. True) infos, power_of ((=) SIGNAL_PRICE_STATUS_AVAILABLE) infos,
      power_of ((=) SIGNAL_PRICE_STATUS_UNAVAILABLE) infos, power_of ((=) SIGNAL_PRICE_STATUS_UNSUPPORTED) infos)"
proof -
  have "foldl prices_powers_step (t, a, u, n) infos =
     (t + power_of (\<lambda>_. True) infos, a + power_of ((=) SIGNAL_PRICE_STATUS_AVAILABLE) infos,
      u + power_of ((=) SIGNAL_PRICE_STATUS_UNAVAILABLE) infos, n + power_of ((=) SIGNAL_PRICE_STATUS_UNSUPPORTED) infos)"
    for t a u n
    by (induction infos arbitrary: t a u n) (auto simp: power_of_def)
  then show ?thesis by (simp add: CalculatePricesPowers_def)
qed

section \<open>The weighted median\<close>

definition weight_where :: "(uint64 \<Rightarrow> bool) \<Rightarrow> WeightedPrice list \<Rightarrow> int" where
  "weight_where P wps = sum_list (map wp_Weight (filter (\<lambda>w. P (wp_Price w)) wps))"

lemma weight_where_mset:
  assumes "mset xs = mset ys"
  shows "weight_where P xs = weight_where P ys"
proof -
  have "mset (map wp_Weight (filter (\<lambda>w. P (wp_Price w)) xs)) = mset (map wp_Weight (filter (\<lambda>w. P (wp_Price w)) ys))"
    using assms by (simp add: mset_filter)
  then show ?thesis unfolding weight_where_def by (metis sum_mset_sum_list)
qed

lemma weight_where_nonneg: "\<forall>w\<in>set wps. 0 \<le> wp_Weight w \<Longrightarrow> 0 \<le> weight_where P wps"
  unfolding weight_where_def by (intro sum_list_nonneg) auto

lemma weight_where_append [simp]: "weight_where P (xs @ ys) = weight_where P xs + weight_where P ys"
  by (simp add: weight_where_def)

lemma weight_where_mono:
  assumes "\<forall>w\<in>set wps. 0 \<le> wp_Weight w" and "\<And>w. w \<in> set wps \<Longrightarrow> P (wp_Price w) \<Longrightarrow> Q (wp_Price w)"
  shows "weight_where P wps \<le> weight_where Q wps"
  using assms by (induction wps) (auto simp: weight_where_def)

lemma weight_where_split: "weight_where P wps + weight_where (\<lambda>p. \<not> P p) wps = sum_list (map wp_Weight wps)"
  by (induction wps) (auto simp: weight_where_def)

text \<open>The scan over a list sorted by price stops at the least price that reaches half the weight.\<close>

lemma median_scan_least:
  assumes "sorted (map wp_Price (pre @ wps))" and "\<forall>w\<in>set (pre @ wps). 0 \<le> wp_Weight w"
    and "c = sum_list (map wp_Weight pre)" and "\<And>q. q \<in> wp_Price ` set pre \<Longrightarrow> (\<exists>w\<in>set wps. wp_Price w = q) \<or> 2 * weight_where (\<lambda>p. p \<le> q) (pre @ wps) < t"
    and "median_scan t c wps = Inr p"
  shows "p \<in> wp_Price ` set wps \<and> t \<le> 2 * weight_where (\<lambda>x. x \<le> p) (pre @ wps) \<and>
    (\<forall>q \<in> wp_Price ` set (pre @ wps). q < p \<longrightarrow> 2 * weight_where (\<lambda>x. x \<le> q) (pre @ wps) < t)"
  using assms
proof (induction wps arbitrary: pre c)
  case (Cons w wps)
  let ?all = "pre @ w # wps"
  have before: "x \<le> wp_Price w" if "x \<in> wp_Price ` set pre" for x
    using Cons.prems(1) that by (auto simp: sorted_append)
  have after: "wp_Price w \<le> x" if "x \<in> wp_Price ` set wps" for x
    using Cons.prems(1) that by (auto simp: sorted_append)
  have le_all: "sum_list (map wp_Weight (pre @ [w])) \<le> weight_where (\<lambda>x. x \<le> wp_Price w) ?all"
  proof -
    have "weight_where (\<lambda>x. x \<le> wp_Price w) (pre @ [w]) = sum_list (map wp_Weight (pre @ [w]))"
      using before by (auto simp: weight_where_def intro!: arg_cong [where f = sum_list] arg_cong [where f = "map wp_Weight"] filter_True)
    moreover have "0 \<le> weight_where (\<lambda>x. x \<le> wp_Price w) wps" using Cons.prems(2) by (intro weight_where_nonneg) auto
    ultimately show ?thesis by (simp add: weight_where_def)
  qed
  show ?case
  proof (cases "(c + wp_Weight w) * 2 \<ge> t")
    case True
    then have p: "p = wp_Price w" using Cons.prems(5) by simp
    have "t \<le> 2 * weight_where (\<lambda>x. x \<le> p) ?all" using True le_all Cons.prems(3) p by simp
    moreover have "2 * weight_where (\<lambda>x. x \<le> q) ?all < t" if "q \<in> wp_Price ` set ?all" "q < p" for q
    proof -
      have "wp_Price w \<le> wp_Price v" if "v \<in> set (w # wps)" for v using that after by auto
      then have no: "\<not> (\<exists>v\<in>set (w # wps). wp_Price v = q)" using that(2) p by (metis not_le)
      then have "q \<in> wp_Price ` set pre" using that(1) by auto
      then show ?thesis using Cons.prems(4) no by blast
    qed
    ultimately show ?thesis using p by auto
  next
    case False
    have "(\<exists>v\<in>set wps. wp_Price v = q) \<or> 2 * weight_where (\<lambda>p. p \<le> q) ((pre @ [w]) @ wps) < t"
      if "q \<in> wp_Price ` set (pre @ [w])" for q
    proof (cases "\<exists>v\<in>set wps. wp_Price v = q")
      case False
      show ?thesis
      proof (cases "q = wp_Price w")
        case True
        have "filter (\<lambda>v. wp_Price v \<le> q) wps = []" using after False True by (auto simp: filter_empty_conv) (metis le_antisym image_eqI)
        moreover have "filter (\<lambda>v. wp_Price v \<le> q) pre = pre" "wp_Price w \<le> q" using before True by auto
        ultimately have "weight_where (\<lambda>p. p \<le> q) ((pre @ [w]) @ wps) = c + wp_Weight w"
          using Cons.prems(3) by (simp add: weight_where_def)
        with \<open>\<not> (c + wp_Weight w) * 2 \<ge> t\<close> show ?thesis by simp
      next
        case neq: False
        then have "q \<in> wp_Price ` set pre" using that by auto
        from Cons.prems(4) [OF this] show ?thesis using False neq by auto
      qed
    qed simp
    with False Cons.prems Cons.IH [of "pre @ [w]" "c + wp_Weight w"] show ?thesis by simp
  qed
qed simp

lemma median_scan_total:
  assumes "wps \<noteq> []" and "0 \<le> t" and "c + sum_list (map wp_Weight wps) = t"
  shows "\<exists>p. median_scan t c wps = Inr p"
  using assms
proof (induction wps arbitrary: c)
  case (Cons w wps)
  show ?case
  proof (cases "wps = []")
    case True
    then show ?thesis using Cons.prems by simp
  next
    case False
    then show ?thesis using Cons.IH [of "c + wp_Weight w"] Cons.prems by (simp add: add.assoc)
  qed
qed simp

lemma compare_weighted_key:
  "compare_weighted a b \<le> 0 \<Longrightarrow> wp_Price a \<le> wp_Price b" "\<not> compare_weighted a b \<le> 0 \<Longrightarrow> wp_Price b \<le> wp_Price a"
  by (auto simp: compare_weighted_def Compare_def Let_def split: if_splits)

lemma MedianWeightedPrice_Inr:
  assumes "wps \<noteq> []" and "\<forall>w\<in>set wps. 0 \<le> wp_Weight w"
  obtains p where "MedianWeightedPrice wps = Inr p" and "p \<in> wp_Price ` set wps"
    and "sum_list (map wp_Weight wps) \<le> 2 * weight_where (\<lambda>x. x \<le> p) wps"
    and "\<And>q. q \<in> wp_Price ` set wps \<Longrightarrow> q < p \<Longrightarrow> 2 * weight_where (\<lambda>x. x \<le> q) wps < sum_list (map wp_Weight wps)"
proof -
  let ?s = "SortStableFunc compare_weighted wps" and ?t = "sum_list (map wp_Weight wps)"
  have t: "sum_list (map wp_Weight ?s) = ?t"
    by (metis mset_SortStableFunc mset_map sum_mset_sum_list)
  have ww: "weight_where P ?s = weight_where P wps" for P by (rule weight_where_mset) simp
  have "0 \<le> ?t" using assms(2) by (intro sum_list_nonneg) auto
  then obtain p where p: "median_scan ?t 0 ?s = Inr p"
    using median_scan_total [of ?s ?t 0] assms(1) t by auto
  have "sorted (map wp_Price ?s)" using sorted_SortStableFunc compare_weighted_key by blast
  with median_scan_least [of "[]" ?s 0 ?t p] p assms(2)
  have "p \<in> wp_Price ` set wps \<and> ?t \<le> 2 * weight_where (\<lambda>x. x \<le> p) wps \<and>
      (\<forall>q \<in> wp_Price ` set wps. q < p \<longrightarrow> 2 * weight_where (\<lambda>x. x \<le> q) wps < ?t)"
    by (simp add: ww)
  moreover have "MedianWeightedPrice wps = Inr p" using p t by (simp add: MedianWeightedPrice_def)
  ultimately show ?thesis using that by blast
qed

text \<open>At most half of the weight is strictly below the median.\<close>

lemma weight_below_median:
  assumes nn: "\<forall>w\<in>set wps. 0 \<le> wp_Weight w"
    and low: "\<And>q. q \<in> wp_Price ` set wps \<Longrightarrow> q < p \<Longrightarrow> 2 * weight_where (\<lambda>x. x \<le> q) wps < t" and t: "0 \<le> t"
  shows "2 * weight_where (\<lambda>x. x < p) wps \<le> t"
proof (cases "{q \<in> wp_Price ` set wps. q < p} = {}")
  case True
  then have "filter (\<lambda>w. wp_Price w < p) wps = []" by (auto simp: filter_empty_conv)
  then show ?thesis using t by (simp add: weight_where_def)
next
  case False
  define q where "q = Max {q \<in> wp_Price ` set wps. q < p}"
  have q: "q \<in> {q \<in> wp_Price ` set wps. q < p}" using False unfolding q_def by (intro Max_in) auto
  have "weight_where (\<lambda>x. x < p) wps \<le> weight_where (\<lambda>x. x \<le> q) wps"
    unfolding q_def by (intro weight_where_mono [OF nn] Max_ge) auto
  then show ?thesis using low [of q] q by auto
qed

lemma weight_from_median:
  assumes "\<forall>w\<in>set wps. 0 \<le> wp_Weight w" and "sum_list (map wp_Weight wps) = t"
    and "\<And>q. q \<in> wp_Price ` set wps \<Longrightarrow> q < p \<Longrightarrow> 2 * weight_where (\<lambda>x. x \<le> q) wps < t"
  shows "t \<le> 2 * weight_where (\<lambda>x. p \<le> x) wps"
proof -
  have "0 \<le> t" unfolding assms(2) [symmetric] using assms(1) by (intro sum_list_nonneg) auto
  have "2 * weight_where (\<lambda>x. x < p) wps \<le> t" by (rule weight_below_median [OF assms(1) assms(3) \<open>0 \<le> t\<close>])
  then show ?thesis using weight_where_split [of "\<lambda>x. x < p" wps] assms(2) by (simp add: not_less)
qed

section \<open>The closed form of the weights\<close>

text \<open>
  The weight of the first \<open>x\<close> units of scaled power, for a total power \<open>T\<close>: a sum of concave
  pieces. An entry that covers the units from \<open>c\<close> to \<open>c + l\<close> weighs the difference.
\<close>

definition cap :: "int \<Rightarrow> int \<Rightarrow> int" where
  "cap y x = min x y"

definition cum_weight :: "int \<Rightarrow> int \<Rightarrow> int" where
  "cum_weight T x = 10 * x + cap (15 * T) x + 9 * cap (7 * T) x + 20 * cap (3 * T) x + 20 * cap T x"

lemma cum_weight_increments:
  "c' \<le> c \<Longrightarrow> 0 \<le> l \<Longrightarrow> cum_weight T (c + l) - cum_weight T c \<le> cum_weight T (c' + l) - cum_weight T c'"
proof -
  assume "c' \<le> c" "0 \<le> l"
  then have "cap y (c + l) - cap y c \<le> cap y (c' + l) - cap y c'" for y unfolding cap_def by linarith
  from this [of "15 * T"] this [of "7 * T"] this [of "3 * T"] this [of T]
  show ?thesis unfolding cum_weight_def distrib_left by linarith
qed

lemma cum_weight_mono:
  assumes "x \<le> y"
  shows "cum_weight T x \<le> cum_weight T y"
proof -
  have "cap z x \<le> cap z y" for z using assms unfolding cap_def by linarith
  from this [of "15 * T"] this [of "7 * T"] this [of "3 * T"] this [of T] assms
  show ?thesis unfolding cum_weight_def by linarith
qed

lemma cum_weight_total: "0 \<le> T \<Longrightarrow> cum_weight T (32 * T) = 478 * T"
  by (simp add: cum_weight_def cap_def min_def)

text \<open>The section an entry starts in is the one the power laid so far ends in.\<close>

definition in_section :: "int \<Rightarrow> nat \<Rightarrow> int \<Rightarrow> bool" where
  "in_section T i c \<longleftrightarrow> i < 5 \<and> c \<le> T * getSections ! i \<and> (0 < i \<longrightarrow> T * getSections ! (i - 1) \<le> c)"

lemma section_cases: "(i::nat) < 5 \<Longrightarrow> i = 0 \<or> i = 1 \<or> i = 2 \<or> i = 3 \<or> i = 4"
  by linarith

lemma cum_weight_section:
  assumes "0 \<le> T" and "in_section T i c" and "c \<le> c'" and "c' \<le> T * getSections ! i"
  shows "cum_weight T c' - cum_weight T c = getMultipliers ! i * (c' - c)"
proof -
  have "i < 5" using assms(2) by (simp add: in_section_def)
  from section_cases [OF this] show ?thesis
    by (elim disjE) (use assms in \<open>simp_all add: in_section_def getSections_def getMultipliers_def cum_weight_def cap_def min_def\<close>)
qed

declare distribute.simps [simp del]

lemma distribute_correct:
  assumes "0 \<le> T" and "in_section T i c" and "0 \<le> l" and "c + l \<le> 32 * T"
  shows "\<exists>j. distribute T i c l w = (j, c + l, 0, w + (cum_weight T (c + l) - cum_weight T c)) \<and> in_section T j (c + l)"
  using assms(2-4)
proof (induction "5 - i" arbitrary: i c l w)
  case 0
  then show ?case by (simp add: in_section_def)
next
  case (Suc n)
  have i5: "i < 5" "i < length getSections" using Suc.prems(1) by (auto simp: in_section_def getSections_def)
  let ?lim = "T * getSections ! i"
  show ?case
  proof (cases "c + l \<le> ?lim")
    case True
    then have "in_section T i (c + l)" using Suc.prems by (auto simp: in_section_def)
    moreover have "distribute T i c l w = (i, c + l, 0, w + l * getMultipliers ! i)"
      using True i5 by (subst distribute.simps) simp
    moreover have "cum_weight T (c + l) - cum_weight T c = l * getMultipliers ! i"
      using cum_weight_section [OF assms(1) Suc.prems(1), of "c + l"] Suc.prems(2) True by (simp add: mult.commute)
    ultimately show ?thesis by metis
  next
    case False
    have "i \<noteq> 4" using False Suc.prems(3) by (auto simp: getSections_def)
    then have i4: "i < 4" using i5 by simp
    have le: "c \<le> ?lim" using Suc.prems(1) by (simp add: in_section_def)
    have mono: "?lim \<le> T * getSections ! Suc i"
      using section_cases [OF i5(1)] i4 assms(1) by (elim disjE) (simp_all add: getSections_def)
    then have next_sec: "in_section T (Suc i) ?lim" using i4 by (simp add: in_section_def)
    have step: "distribute T i c l w = distribute T (Suc i) ?lim (l - (?lim - c)) (w + (?lim - c) * getMultipliers ! i)"
      using False i5 by (subst distribute.simps) (simp add: Let_def)
    have "n = 5 - Suc i" using Suc.hyps(2) by simp
    from Suc.hyps(1) [OF this next_sec, of "l - (?lim - c)" "w + (?lim - c) * getMultipliers ! i"]
    obtain j where j: "distribute T i c l w = (j, c + l, 0,
        w + (?lim - c) * getMultipliers ! i + (cum_weight T (c + l) - cum_weight T ?lim))" "in_section T j (c + l)"
      using step False Suc.prems by (auto simp: add.commute [of l c])
    have "(?lim - c) * getMultipliers ! i = cum_weight T ?lim - cum_weight T c"
      using cum_weight_section [OF assms(1) Suc.prems(1) le order_refl] by (simp add: mult.commute)
    with j show ?thesis by auto
  qed
qed

text \<open>Every entry gets the weight of the interval it covers.\<close>

fun interval_weights :: "int \<Rightarrow> int \<Rightarrow> ValidatorPriceInfo list \<Rightarrow> WeightedPrice list" where
  "interval_weights T c [] = []"
| "interval_weights T c (info # infos) =
     \<lparr>wp_Weight = cum_weight T (c + 32 * info_Power info) - cum_weight T c, wp_Price = info_Price info\<rparr>
     # interval_weights T (c + 32 * info_Power info) infos"

lemma weigh_correct:
  assumes "0 \<le> T" and "in_section T i c" and "\<forall>x\<in>set infos. 0 \<le> info_Power x"
    and "c + 32 * sum_list (map info_Power infos) \<le> 32 * T"
  shows "weigh T i c infos = interval_weights T c infos"
  using assms(2-4)
proof (induction infos arbitrary: i c)
  case (Cons x xs)
  have "0 \<le> sum_list (map info_Power xs)" using Cons.prems(2) by (intro sum_list_nonneg) auto
  then obtain j where "distribute T i c (32 * info_Power x) 0 =
      (j, c + 32 * info_Power x, 0, cum_weight T (c + 32 * info_Power x) - cum_weight T c)"
    "in_section T j (c + 32 * info_Power x)"
    using distribute_correct [OF assms(1) Cons.prems(1), of "32 * info_Power x" 0] Cons.prems by auto
  with Cons show ?case by (simp add: getPowerScalingFactor_def distrib_left add.assoc)
qed simp

lemma interval_weights_nonneg:
  "\<forall>x\<in>set infos. 0 \<le> info_Power x \<Longrightarrow> w \<in> set (interval_weights T c infos) \<Longrightarrow> 0 \<le> wp_Weight w"
  by (induction infos arbitrary: c) (auto simp: cum_weight_mono)

lemma interval_weights_sum:
  "sum_list (map wp_Weight (interval_weights T c infos)) =
     cum_weight T (c + 32 * sum_list (map info_Power infos)) - cum_weight T c"
  by (induction infos arbitrary: c) (simp_all add: algebra_simps)

lemma interval_weights_prices: "map wp_Price (interval_weights T c infos) = map info_Price infos"
  by (induction infos arbitrary: c) simp_all

text \<open>
  Entries weigh most when they come first: any entries of total power \<open>m\<close> weigh at most as
  much as the first \<open>m\<close> units of power.
\<close>

lemma interval_weights_bound:
  assumes "\<forall>x\<in>set infos. 0 \<le> info_Power x" and "d \<le> c"
  shows "weight_where P (interval_weights T c infos) \<le>
    cum_weight T (d + 32 * sum_list (map info_Power (filter (\<lambda>x. P (info_Price x)) infos))) - cum_weight T d"
  using assms
proof (induction infos arbitrary: c d)
  case Nil
  then show ?case by (simp add: weight_where_def)
next
  case (Cons x xs)
  let ?l = "32 * info_Power x" and ?m = "32 * sum_list (map info_Power (filter (\<lambda>x. P (info_Price x)) xs))"
  have l: "0 \<le> ?l" using Cons.prems(1) by simp
  show ?case
  proof (cases "P (info_Price x)")
    case True
    have "weight_where P (interval_weights T (c + ?l) xs) \<le> cum_weight T (d + ?l + ?m) - cum_weight T (d + ?l)"
      using Cons.IH [of "d + ?l" "c + ?l"] Cons.prems by simp
    with cum_weight_increments [OF Cons.prems(2) l, of T] True show ?thesis
      by (simp add: weight_where_def distrib_left add.assoc)
  next
    case False
    have "weight_where P (interval_weights T (c + ?l) xs) \<le> cum_weight T (d + ?m) - cum_weight T d"
      using Cons.IH [of d "c + ?l"] Cons.prems l by simp
    with False show ?thesis by (simp add: weight_where_def)
  qed
qed

text \<open>The median of the validators' prices in terms of the closed form.\<close>

lemma MedianValidatorPriceInfos_intervals:
  assumes "\<forall>x\<in>set infos. 0 \<le> info_Power x"
  obtains sorted_infos where "mset sorted_infos = mset (valid_infos infos)"
    and "MedianValidatorPriceInfos infos =
      MedianWeightedPrice (interval_weights (sum_list (map info_Power (valid_infos infos))) 0 sorted_infos)"
proof -
  let ?T = "sum_list (map info_Power (valid_infos infos))" and ?s = "SortStableFunc compare_infos (valid_infos infos)"
  have nn: "\<forall>x\<in>set ?s. 0 \<le> info_Power x" using assms by (simp add: valid_infos_def)
  have sum: "sum_list (map info_Power ?s) = ?T" by (metis mset_SortStableFunc mset_map sum_mset_sum_list)
  have "0 \<le> ?T" using assms by (intro sum_list_nonneg) (auto simp: valid_infos_def)
  moreover from this have "in_section ?T 0 0" by (simp add: in_section_def getSections_def)
  ultimately have "weigh ?T 0 0 ?s = interval_weights ?T 0 ?s"
    using weigh_correct [OF _ _ nn] sum by simp
  then show ?thesis using that [of ?s] by (simp add: MedianValidatorPriceInfos_def Let_def)
qed

section \<open>Properties\<close>

text \<open>
  For non-negative weights \<open>MedianWeightedPrice\<close> returns the lower weighted median: the least
  listed price such that the prices up to it have at least half of the weight. It fails only on
  the empty list, and the order of the list does not matter.
\<close>

theorem MedianWeightedPrice_correct:
  assumes "\<forall>w\<in>set wps. 0 \<le> wp_Weight w"
  shows "(MedianWeightedPrice wps = Inr p \<longleftrightarrow>
      p \<in> wp_Price ` set wps \<and> sum_list (map wp_Weight wps) \<le> 2 * weight_where (\<lambda>x. x \<le> p) wps \<and>
      (\<forall>q \<in> wp_Price ` set wps. q < p \<longrightarrow> 2 * weight_where (\<lambda>x. x \<le> q) wps < sum_list (map wp_Weight wps))) \<and>
    (MedianWeightedPrice wps = Inl ErrInvalidWeightedPrices \<longleftrightarrow> wps = [])"
proof (cases "wps = []")
  case True
  then show ?thesis by (simp add: MedianWeightedPrice_def SortStableFunc_def)
next
  case False
  from MedianWeightedPrice_Inr [OF this assms] obtain m where m: "MedianWeightedPrice wps = Inr m"
    "m \<in> wp_Price ` set wps" "sum_list (map wp_Weight wps) \<le> 2 * weight_where (\<lambda>x. x \<le> m) wps"
    "\<And>q. q \<in> wp_Price ` set wps \<Longrightarrow> q < m \<Longrightarrow> 2 * weight_where (\<lambda>x. x \<le> q) wps < sum_list (map wp_Weight wps)"
    by blast
  have "p = m" if p: "p \<in> wp_Price ` set wps" "sum_list (map wp_Weight wps) \<le> 2 * weight_where (\<lambda>x. x \<le> p) wps"
    "\<forall>q \<in> wp_Price ` set wps. q < p \<longrightarrow> 2 * weight_where (\<lambda>x. x \<le> q) wps < sum_list (map wp_Weight wps)"
    using m(2,3) m(4) [OF p(1)] p by (metis linorder_neqE_nat not_le)
  with m False show ?thesis by auto
qed

theorem MedianWeightedPrice_correct_witness:
  "MedianWeightedPrice [\<lparr>wp_Weight = 3, wp_Price = 30\<rparr>, \<lparr>wp_Weight = 2, wp_Price = 10\<rparr>, \<lparr>wp_Weight = 2, wp_Price = 20\<rparr>] = Inr 20"
  by (subst MedianWeightedPrice_correct [THEN conjunct1]) (simp_all add: weight_where_def)

text \<open>
  C10: the price of a signal. The available prices are taken newest first, those of the same time by descending power, and each is weighed by the part of
  the sections (the first 1/32 of the available power counts 60 times, up to 3/32 40 times, up to 7/32 20 times, up to 15/32 11 times, the rest 10
  times) that its power covers, so that the weights add up to 478 times the available power. The result is a median of
  these weights: it is an available price, the prices up to it have at least half of the weight, the prices from it on have at least half of
  the weight, and every available price below it falls short of half. It fails exactly when no price is available.
\<close>

theorem MedianValidatorPriceInfos_correct:
  assumes "\<forall>x\<in>set infos. 0 \<le> info_Power x"
  shows "\<exists>valid. mset valid = mset (valid_infos infos) \<and>
    sorted_wrt (\<lambda>x y. info_Timestamp y < info_Timestamp x \<or> info_Timestamp x = info_Timestamp y \<and> info_Power y \<le> info_Power x) valid \<and>
    (let T = sum_list (map info_Power valid); ws = interval_weights T 0 valid in
      sum_list (map wp_Weight ws) = 478 * T \<and>
      (case MedianValidatorPriceInfos infos of
         Inr p \<Rightarrow> p \<in> info_Price ` set (valid_infos infos) \<and>
           478 * T \<le> 2 * weight_where (\<lambda>x. x \<le> p) ws \<and> 478 * T \<le> 2 * weight_where (\<lambda>x. p \<le> x) ws \<and>
           (\<forall>q\<in>info_Price ` set (valid_infos infos). q < p \<longrightarrow> 2 * weight_where (\<lambda>x. x \<le> q) ws < 478 * T)
       | Inl e \<Rightarrow> e = ErrInvalidWeightedPrices \<and> valid_infos infos = []))"
proof -
  define valid where "valid = SortStableFunc compare_infos (valid_infos infos)"
  define T where "T = sum_list (map info_Power valid)"
  define ws where "ws = interval_weights T 0 valid"
  let ?R = "\<lambda>x y. info_Timestamp y < info_Timestamp x \<or> info_Timestamp x = info_Timestamp y \<and> info_Power y \<le> info_Power (x :: ValidatorPriceInfo)"
  have newest: "sorted_wrt ?R valid"
    unfolding valid_def by (rule sorted_wrt_SortStableFunc) (auto simp: compare_infos_def Compare_def Let_def transp_def split: if_splits)
  have T: "T = sum_list (map info_Power (valid_infos infos))"
    unfolding T_def valid_def by (metis mset_SortStableFunc mset_map sum_mset_sum_list)
  have nn: "\<forall>x\<in>set valid. 0 \<le> info_Power x" using assms by (simp add: valid_def valid_infos_def)
  then have T0: "0 \<le> T" unfolding T_def by (intro sum_list_nonneg) auto
  have iw: "weigh T 0 0 valid = ws"
    unfolding ws_def using weigh_correct [OF T0 _ nn] T0 by (simp add: in_section_def getSections_def T_def)
  have sum: "sum_list (map wp_Weight ws) = 478 * T"
    using interval_weights_sum [of T 0 valid] cum_weight_total [OF T0] T0 by (simp add: ws_def cum_weight_def cap_def flip: T_def)
  have eq: "MedianValidatorPriceInfos infos = MedianWeightedPrice ws"
    by (simp add: MedianValidatorPriceInfos_def Let_def iw [symmetric] valid_def T [unfolded valid_def])
  have "map wp_Price ws = map info_Price valid" using interval_weights_prices by (simp add: ws_def)
  then have prices: "wp_Price ` set ws = info_Price ` set (valid_infos infos)" by (metis list.set_map valid_def set_SortStableFunc)
  have wnn: "\<forall>w\<in>set ws. 0 \<le> wp_Weight w" using interval_weights_nonneg [OF nn] by (simp add: ws_def)
  have res: "case MedianWeightedPrice ws of
         Inr p \<Rightarrow> p \<in> info_Price ` set (valid_infos infos) \<and>
           478 * T \<le> 2 * weight_where (\<lambda>x. x \<le> p) ws \<and> 478 * T \<le> 2 * weight_where (\<lambda>x. p \<le> x) ws \<and>
           (\<forall>q\<in>info_Price ` set (valid_infos infos). q < p \<longrightarrow> 2 * weight_where (\<lambda>x. x \<le> q) ws < 478 * T)
       | Inl e \<Rightarrow> e = ErrInvalidWeightedPrices \<and> valid_infos infos = []"
  proof (cases "ws = []")
    case True
    then show ?thesis using prices by (simp add: MedianWeightedPrice_def SortStableFunc_def)
  next
    case False
    from MedianWeightedPrice_Inr [OF False wnn] obtain p where p: "MedianWeightedPrice ws = Inr p" "p \<in> wp_Price ` set ws"
      "478 * T \<le> 2 * weight_where (\<lambda>x. x \<le> p) ws"
      and low: "\<And>q. q \<in> wp_Price ` set ws \<Longrightarrow> q < p \<Longrightarrow> 2 * weight_where (\<lambda>x. x \<le> q) ws < 478 * T"
      unfolding sum by blast
    show ?thesis using p low weight_from_median [OF wnn sum low] unfolding prices by simp
  qed
  have "mset valid = mset (valid_infos infos)" by (simp add: valid_def)
  then show ?thesis using newest sum res unfolding eq Let_def ws_def T_def by blast
qed

definition demo_infos :: "ValidatorPriceInfo list" where
  "demo_infos =
     [\<lparr>info_Status = SIGNAL_PRICE_STATUS_AVAILABLE, info_Power = 80, info_Price = 100, info_Timestamp = 5\<rparr>,
      \<lparr>info_Status = SIGNAL_PRICE_STATUS_AVAILABLE, info_Power = 20, info_Price = 900, info_Timestamp = 9\<rparr>]"

text \<open>A fifth of the power, submitted later, has less than half of the weight: the median is the price of the others.\<close>

theorem MedianValidatorPriceInfos_correct_witness: "MedianValidatorPriceInfos demo_infos = Inr 100"
proof -
  have "\<forall>x\<in>set demo_infos. 0 \<le> info_Power x" by (simp add: demo_infos_def)
  from MedianValidatorPriceInfos_correct [OF this] obtain valid where m: "mset valid = mset (valid_infos demo_infos)"
    and new: "sorted_wrt (\<lambda>x y. info_Timestamp y < info_Timestamp x \<or> info_Timestamp x = info_Timestamp y \<and> info_Power y \<le> info_Power x) valid"
    and med: "let T = sum_list (map info_Power valid); ws = interval_weights T 0 valid in
      sum_list (map wp_Weight ws) = 478 * T \<and>
      (case MedianValidatorPriceInfos demo_infos of
         Inr p \<Rightarrow> p \<in> info_Price ` set (valid_infos demo_infos) \<and>
           478 * T \<le> 2 * weight_where (\<lambda>x. x \<le> p) ws \<and> 478 * T \<le> 2 * weight_where (\<lambda>x. p \<le> x) ws \<and>
           (\<forall>q\<in>info_Price ` set (valid_infos demo_infos). q < p \<longrightarrow> 2 * weight_where (\<lambda>x. x \<le> q) ws < 478 * T)
       | Inl e \<Rightarrow> e = ErrInvalidWeightedPrices \<and> valid_infos demo_infos = [])" by blast
  have v: "valid_infos demo_infos = demo_infos" by (simp add: valid_infos_def demo_infos_def)
  have "length valid = 2" using mset_eq_length [OF m [unfolded v]] by (simp add: demo_infos_def)
  then obtain x y where xy: "valid = [x, y]" by (auto simp: length_Suc_conv numeral_2_eq_2)
  let ?a = "demo_infos ! 0" and ?b = "demo_infos ! 1"
  have "x = ?a \<and> y = ?b \<or> x = ?b \<and> y = ?a" using mset_eq_setD [OF m [unfolded v]] by (auto simp: xy demo_infos_def doubleton_eq_iff)
  then have "valid = [?b, ?a]" using new by (auto simp: xy demo_infos_def)
  then show ?thesis using med [unfolded v]
    by (auto simp: demo_infos_def Let_def cum_weight_def cap_def weight_where_def split: sum.splits)
qed

text \<open>
  C21: the bound on manipulation. If the validators whose available prices lie outside an interval \<open>[lo, hi]\<close> have
  less than 3/11 of the power behind available prices (power as bonded, before any weighing), the median lies in the interval, whatever the
  timestamps are: even if all of them submit last and get the highest weights, they cannot move the price past the others.
\<close>

theorem median_manipulation_bound:
  assumes nn: "\<forall>x\<in>set infos. 0 \<le> info_Power x"
    and minority: "11 * sum_list (map info_Power (filter (\<lambda>x. \<not> (lo \<le> info_Price x \<and> info_Price x \<le> hi)) (valid_infos infos)))
      < 3 * sum_list (map info_Power (valid_infos infos))"
  shows "\<exists>p. MedianValidatorPriceInfos infos = Inr p \<and> lo \<le> p \<and> p \<le> hi"
proof -
  define T where "T = sum_list (map info_Power (valid_infos infos))"
  obtain xs where xs: "mset xs = mset (valid_infos infos)"
    and med: "MedianValidatorPriceInfos infos = MedianWeightedPrice (interval_weights T 0 xs)"
    using MedianValidatorPriceInfos_intervals [OF nn] unfolding T_def by metis
  define ws where "ws = interval_weights T 0 xs"
  have xnn: "\<forall>x\<in>set xs. 0 \<le> info_Power x" using nn mset_eq_setD [OF xs] by (auto simp: valid_infos_def)
  have wnn: "\<forall>w\<in>set ws. 0 \<le> wp_Weight w" using interval_weights_nonneg [OF xnn] by (simp add: ws_def)
  have sumP: "sum_list (map info_Power (filter P xs)) = sum_list (map info_Power (filter P (valid_infos infos)))" for P
    using xs by (metis mset_filter mset_map sum_mset_sum_list)
  have sumxs: "sum_list (map info_Power xs) = T" unfolding T_def using xs by (metis mset_map sum_mset_sum_list)
  let ?out = "\<lambda>p. \<not> (lo \<le> p \<and> p \<le> hi)"
  define m where "m = sum_list (map info_Power (filter (\<lambda>x. ?out (info_Price x)) (valid_infos infos)))"
  have m0: "0 \<le> m" unfolding m_def using nn by (intro sum_list_nonneg) (auto simp: valid_infos_def)
  have mT: "11 * m < 3 * T" using minority by (simp add: m_def T_def)
  have T0: "0 < T" using m0 mT by linarith
  have total: "sum_list (map wp_Weight ws) = 478 * T"
    using interval_weights_sum [of T 0 xs] cum_weight_total [of T] T0 by (simp add: ws_def sumxs cum_weight_def cap_def)
  have "weight_where ?out ws \<le> cum_weight T (0 + 32 * m) - cum_weight T 0"
    unfolding ws_def m_def using interval_weights_bound [OF xnn order_refl, where P = ?out, of T 0] by (simp add: sumP)
  also have "\<dots> < 239 * T" unfolding cum_weight_def cap_def using mT T0 m0 by (simp add: min_def)
  finally have out: "2 * weight_where ?out ws < 478 * T" by simp
  have "ws \<noteq> []" using total T0 by auto
  from MedianWeightedPrice_Inr [OF this wnn] obtain p where p: "MedianWeightedPrice ws = Inr p" "p \<in> wp_Price ` set ws"
    "478 * T \<le> 2 * weight_where (\<lambda>x. x \<le> p) ws"
    "\<And>q. q \<in> wp_Price ` set ws \<Longrightarrow> q < p \<Longrightarrow> 2 * weight_where (\<lambda>x. x \<le> q) ws < 478 * T"
    unfolding total by metis
  have "lo \<le> p"
  proof (rule ccontr)
    assume "\<not> lo \<le> p"
    then have "weight_where (\<lambda>x. x \<le> p) ws \<le> weight_where ?out ws" by (intro weight_where_mono [OF wnn]) auto
    then show False using p(3) out by linarith
  qed
  moreover have "p \<le> hi"
  proof (rule ccontr)
    assume hi: "\<not> p \<le> hi"
    have lt: "2 * weight_where (\<lambda>x. x < p) ws \<le> 478 * T" using weight_below_median [OF wnn p(4)] T0 by simp
    have "weight_where (\<lambda>x. \<not> x < p) ws \<le> weight_where ?out ws" using hi by (intro weight_where_mono [OF wnn]) auto
    then show False using lt out weight_where_split [of "\<lambda>x. x < p" ws] total by linarith
  qed
  ultimately show ?thesis using p(1) med by (auto simp: ws_def)
qed

theorem median_manipulation_bound_witness:
  "\<exists>p. MedianValidatorPriceInfos demo_infos = Inr p \<and> 90 \<le> p \<and> p \<le> 110"
  by (rule median_manipulation_bound) (simp_all add: demo_infos_def valid_infos_def)

end
