(* ===== verification/Feeds_Vote.thy ===== *)
theory Feeds_Vote
  imports Restake Feeds_Median KV_Index
begin

text \<open>
  The module \<open>x/feeds\<close>, first part: parameters, votes for signals, the total power of every
  signal with its index by power, and the feeds computed from it (\<open>types/keys.go\<close>, \<open>params.go\<close>,
  \<open>signal.go\<close>, \<open>vote.go\<close>, \<open>feed.go\<close>, \<open>msgs.go\<close>, \<open>genesis.go\<close>, \<open>keeper_signal.go\<close>,
  \<open>keeper_feed.go\<close>, \<open>keeper_params.go\<close>, \<open>keeper_reference_source.go\<close> and the \<open>Vote\<close> and
  \<open>Update...\<close> handlers of \<open>msg_server.go\<close>). A vote locks power in the vault \<open>feeds\<close> of
  \<open>x/restake\<close>, whose model is used as it is.
\<close>

section \<open>Data\<close>

record Signal =
  sig_ID :: bytes
  sig_Power :: int64

record Vote =
  vote_Voter :: bytes
  vote_Signals :: "Signal list"

record Feed =
  feed_SignalID :: bytes
  feed_Power :: int64
  feed_Interval :: int64

record CurrentFeeds =
  cf_Feeds :: "Feed list"
  cf_LastUpdateTimestamp :: int64
  cf_LastUpdateBlock :: int64

datatype PriceStatus =
    PRICE_STATUS_UNSPECIFIED
  | PRICE_STATUS_UNKNOWN_SIGNAL_ID
  | PRICE_STATUS_NOT_READY
  | PRICE_STATUS_AVAILABLE
  | PRICE_STATUS_NOT_IN_CURRENT_FEEDS

record Price =
  price_Status :: PriceStatus
  price_SignalID :: bytes
  price_Price :: uint64
  price_Timestamp :: int64

record ValidatorPrice =
  vp_SignalPriceStatus :: SignalPriceStatus
  vp_SignalID :: bytes
  vp_Price :: uint64
  vp_Timestamp :: int64
  vp_BlockHeight :: int64

record ValidatorPriceList =
  vpl_Validator :: bytes
  vpl_ValidatorPrices :: "ValidatorPrice list"

record ReferenceSourceConfig =
  rsc_RegistryIPFSHash :: bytes
  rsc_RegistryVersion :: bytes

record feeds_Params =
  fp_Admin :: bytes
  fp_AllowableBlockTimeDiscrepancy :: int64
  fp_GracePeriod :: int64
  fp_MinInterval :: int64
  fp_MaxInterval :: int64
  fp_PowerStepThreshold :: int64
  fp_MaxCurrentFeeds :: uint64
  fp_CooldownTime :: int64
  fp_MinDeviationBasisPoint :: int64
  fp_MaxDeviationBasisPoint :: int64
  fp_CurrentFeedsUpdateInterval :: int64
  fp_PriceQuorum :: bytes
  fp_MaxSignalIDsPerSigning :: uint64

text \<open>One map per key prefix of the store; the index by power maps its key to the signal id.\<close>

record feeds_state =
  fs_votes :: "(bytes, Vote) kv"
  fs_total_powers :: "(bytes, Signal) kv"
  fs_power_index :: "(bytes, bytes) kv"
  fs_prices :: "(bytes, Price) kv"
  fs_validator_prices :: "(bytes, ValidatorPriceList) kv"
  fs_current_feeds :: CurrentFeeds
  fs_reference_source :: ReferenceSourceConfig
  fs_params :: feeds_Params

text \<open>
  Decimals of \<open>cosmossdk.io/math\<close> are integers scaled by \<open>10 ^ 18\<close>; parsing them and the
  quorum product \<open>NewDecFromInt(tokens).Mul(quorum).TruncateInt()\<close> are the library's, as is the
  check of a semantic version.
\<close>

record 'b feeds_keeper =
  fk_sdk :: sdk
  fk_restake :: "'b restake_keeper"
  LegacyNewDecFromStr :: "bytes \<Rightarrow> int result"
  DecMulTruncateInt :: "int \<Rightarrow> int \<Rightarrow> int"
  StrictNewVersion :: "bytes \<Rightarrow> bool"
  fk_authority :: bytes

definition feeds_ModuleName :: bytes where "feeds_ModuleName = str ''feeds''"

definition ErrValidatorPriceNotFound :: error where "ErrValidatorPriceNotFound = Registered ''feeds'' 3"
definition ErrOracleStatusNotActive :: error where "ErrOracleStatusNotActive = Registered ''feeds'' 4"
definition ErrPriceSubmitTooEarly :: error where "ErrPriceSubmitTooEarly = Registered ''feeds'' 5"
definition ErrInvalidTimestamp :: error where "ErrInvalidTimestamp = Registered ''feeds'' 6"
definition feeds_ErrInvalidSigner :: error where "feeds_ErrInvalidSigner = Registered ''feeds'' 8"
definition ErrNotBondedValidator :: error where "ErrNotBondedValidator = Registered ''feeds'' 9"
definition ErrPowerNegative :: error where "ErrPowerNegative = Registered ''feeds'' 11"
definition ErrSignalIDNotSupported :: error where "ErrSignalIDNotSupported = Registered ''feeds'' 12"
definition ErrSignalPricesTooLarge :: error where "ErrSignalPricesTooLarge = Registered ''feeds'' 13"
definition ErrSignalIDTooLarge :: error where "ErrSignalIDTooLarge = Registered ''feeds'' 14"
definition ErrSignalTotalPowerNotFound :: error where "ErrSignalTotalPowerNotFound = Registered ''feeds'' 15"
definition ErrInvalidSignal :: error where "ErrInvalidSignal = Registered ''feeds'' 16"
definition ErrSubmittedSignalsTooLarge :: error where "ErrSubmittedSignalsTooLarge = Registered ''feeds'' 17"
definition ErrDuplicateSignalID :: error where "ErrDuplicateSignalID = Registered ''feeds'' 18"
definition ErrInvalidSignalIDs :: error where "ErrInvalidSignalIDs = Registered ''feeds'' 19"
definition ErrInvalidEncoder :: error where "ErrInvalidEncoder = Registered ''feeds'' 20"
definition ErrEncodingPriceFailed :: error where "ErrEncodingPriceFailed = Registered ''feeds'' 21"

definition MaxSignalIDCharacters :: uint64 where "MaxSignalIDCharacters = 32"

section \<open>Store keys\<close>

definition VoteStoreKey :: "sdk \<Rightarrow> bytes \<Rightarrow> bytes" where
  "VoteStoreKey sdk voter = [0x12] @ MustLengthPrefix sdk voter"

definition SignalTotalPowerStoreKey :: "bytes \<Rightarrow> bytes" where
  "SignalTotalPowerStoreKey signalID = [0x13] @ signalID"

definition ValidatorPriceListStoreKey :: "sdk \<Rightarrow> bytes \<Rightarrow> bytes" where
  "ValidatorPriceListStoreKey sdk validator = [0x10] @ MustLengthPrefix sdk validator"

definition PriceStoreKey :: "bytes \<Rightarrow> bytes" where
  "PriceStoreKey signalID = [0x11] @ signalID"

text \<open>The power as \<open>uint64\<close>, the length of the id as one byte, and the complement of the id.\<close>

definition SignalTotalPowerByPowerIndexKey :: "bytes \<Rightarrow> int64 \<Rightarrow> bytes" where
  "SignalTotalPowerByPowerIndexKey signalID pw =
     [0x80] @ be_bytes 8 (nat (pw mod 2 ^ 64)) @ [of_nat (length signalID)] @ map (\<lambda>b. not b) signalID"

section \<open>Validation\<close>

text \<open>\<open>validateInt64\<close>, \<open>validateUint64\<close> and \<open>validateString\<close> on values of the right type.\<close>

definition validateInt64 :: "bool \<Rightarrow> int64 \<Rightarrow> unit result" where
  "validateInt64 positiveOnly v = (if v \<le> 0 \<and> positiveOnly then Inl (Errorf ''must be positive'') else Inr ())"

definition validateUint64 :: "bool \<Rightarrow> uint64 \<Rightarrow> unit result" where
  "validateUint64 positiveOnly v = (if v = 0 \<and> positiveOnly then Inl (Errorf ''must be positive'') else Inr ())"

definition validateString :: "bool \<Rightarrow> bytes \<Rightarrow> unit result" where
  "validateString allowEmpty s = (if s = [] \<and> \<not> allowEmpty then Inl (Errorf ''cannot be empty'') else Inr ())"

definition validateVersion :: "'b feeds_keeper \<Rightarrow> bytes \<Rightarrow> unit result" where
  "validateVersion k version =
     (if version = str ''[NOT_SET]'' then Inr ()
      else if \<not> StrictNewVersion k version then Inl (Errorf ''not in a valid version format'') else Inr ())"

definition feeds_Params_Validate :: "'b feeds_keeper \<Rightarrow> feeds_Params \<Rightarrow> unit result" where
  "feeds_Params_Validate k p =
     bindE (validateString False (fp_Admin p)) (\<lambda>_.
     bindE (validateInt64 True (fp_AllowableBlockTimeDiscrepancy p)) (\<lambda>_.
     bindE (validateInt64 True (fp_GracePeriod p)) (\<lambda>_.
     bindE (validateInt64 True (fp_MinInterval p)) (\<lambda>_.
     bindE (validateInt64 True (fp_MaxInterval p)) (\<lambda>_.
     bindE (validateInt64 True (fp_PowerStepThreshold p)) (\<lambda>_.
     bindE (validateUint64 False (fp_MaxCurrentFeeds p)) (\<lambda>_.
     bindE (validateInt64 True (fp_CooldownTime p)) (\<lambda>_.
     bindE (validateInt64 True (fp_MinDeviationBasisPoint p)) (\<lambda>_.
     bindE (validateInt64 True (fp_MaxDeviationBasisPoint p)) (\<lambda>_.
     bindE (validateInt64 True (fp_CurrentFeedsUpdateInterval p)) (\<lambda>_.
     bindE (LegacyNewDecFromStr k (fp_PriceQuorum p)) (\<lambda>priceQuorum.
     if priceQuorum < 0 then Inl (Errorf ''price quorom cannot be negative'')
     else if priceQuorum > 10 ^ 18 then Inl (Errorf ''price quorom too large'')
     else validateUint64 False (fp_MaxSignalIDsPerSigning p)))))))))))))"

definition ReferenceSourceConfig_Validate :: "'b feeds_keeper \<Rightarrow> ReferenceSourceConfig \<Rightarrow> unit result" where
  "ReferenceSourceConfig_Validate k ps =
     bindE (validateString False (rsc_RegistryIPFSHash ps)) (\<lambda>_.
     bindE (validateString False (rsc_RegistryVersion ps)) (\<lambda>_.
     validateVersion k (rsc_RegistryVersion ps)))"

definition Signal_Validate :: "Signal \<Rightarrow> unit result" where
  "Signal_Validate s =
     (if sig_ID s = [] then Inl ErrInvalidSignal
      else if sig_Power s \<le> 0 then Inl ErrInvalidSignal
      else if length (sig_ID s) > MaxSignalIDCharacters then Inl ErrSignalIDTooLarge
      else Inr ())"

text \<open>The loop over the signals with the set of the ids seen, shared by votes and messages.\<close>

definition validate_signals :: "Signal list \<Rightarrow> unit result" where
  "validate_signals signals =
     bindE (foldE (\<lambda>seen signal.
       bindE (Signal_Validate signal) (\<lambda>_.
       if sig_ID signal \<in> set seen then Inl ErrDuplicateSignalID else Inr (sig_ID signal # seen))) [] signals)
     (\<lambda>_. Inr ())"

definition Vote_Validate :: "sdk \<Rightarrow> Vote \<Rightarrow> unit result" where
  "Vote_Validate sdk v =
     bindE (AccAddressFromBech32 sdk (vote_Voter v)) (\<lambda>_. validate_signals (vote_Signals v))"

text \<open>\<open>MsgVote\<close> has the fields of a \<open>Vote\<close>.\<close>

definition MsgVote_ValidateBasic :: "sdk \<Rightarrow> Vote \<Rightarrow> unit result" where
  "MsgVote_ValidateBasic sdk m =
     bindE (AccAddressFromBech32 sdk (vote_Voter m)) (\<lambda>_. validate_signals (vote_Signals m))"

section \<open>Parameters and reference source\<close>

definition feeds_SetParams :: "'b feeds_keeper \<Rightarrow> feeds_state \<Rightarrow> feeds_Params \<Rightarrow> feeds_state result" where
  "feeds_SetParams k s p = bindE (feeds_Params_Validate k p) (\<lambda>_. Inr (s\<lparr>fs_params := p\<rparr>))"

definition SetReferenceSourceConfig ::
  "'b feeds_keeper \<Rightarrow> feeds_state \<Rightarrow> ReferenceSourceConfig \<Rightarrow> feeds_state result" where
  "SetReferenceSourceConfig k s rs =
     bindE (ReferenceSourceConfig_Validate k rs) (\<lambda>_. Inr (s\<lparr>fs_reference_source := rs\<rparr>))"

definition feeds_UpdateParams ::
  "'b feeds_keeper \<Rightarrow> feeds_state \<Rightarrow> bytes \<Rightarrow> feeds_Params \<Rightarrow> feeds_state result" where
  "feeds_UpdateParams k s authority p =
     (if fk_authority k \<noteq> authority then Inl gov_ErrInvalidSigner else feeds_SetParams k s p)"

definition UpdateReferenceSourceConfig ::
  "'b feeds_keeper \<Rightarrow> feeds_state \<Rightarrow> bytes \<Rightarrow> ReferenceSourceConfig \<Rightarrow> feeds_state result" where
  "UpdateReferenceSourceConfig k s admin rs =
     (if fp_Admin (fs_params s) \<noteq> admin then Inl feeds_ErrInvalidSigner else SetReferenceSourceConfig k s rs)"

section \<open>Votes and total powers\<close>

definition SumPower :: "Signal list \<Rightarrow> int64" where
  "SumPower signals = foldl (\<lambda>sum signal. i64 (sum + sig_Power signal)) 0 signals"

definition GetVote :: "'b feeds_keeper \<Rightarrow> feeds_state \<Rightarrow> bytes \<Rightarrow> Signal list" where
  "GetVote k s voter =
     (case kv_get (fs_votes s) (VoteStoreKey (fk_sdk k) voter) of None \<Rightarrow> [] | Some v \<Rightarrow> vote_Signals v)"

definition DeleteVote :: "'b feeds_keeper \<Rightarrow> feeds_state \<Rightarrow> bytes \<Rightarrow> feeds_state" where
  "DeleteVote k s voter = s\<lparr>fs_votes := kv_delete (fs_votes s) (VoteStoreKey (fk_sdk k) voter)\<rparr>"

definition SetVote :: "'b feeds_keeper \<Rightarrow> feeds_state \<Rightarrow> Vote \<Rightarrow> feeds_state result" where
  "SetVote k s vote =
     bindE (MustAccAddressFromBech32 (fk_sdk k) (vote_Voter vote)) (\<lambda>voter.
     Inr (s\<lparr>fs_votes := kv_set (fs_votes s) (VoteStoreKey (fk_sdk k) voter) vote\<rparr>))"

definition GetVotes :: "feeds_state \<Rightarrow> Vote list" where
  "GetVotes s = map snd (kv_prefix_iterator (fs_votes s) [0x12])"

definition SetVotes :: "'b feeds_keeper \<Rightarrow> feeds_state \<Rightarrow> Vote list \<Rightarrow> feeds_state result" where
  "SetVotes k s votes = foldE (SetVote k) s votes"

definition GetSignalTotalPower :: "feeds_state \<Rightarrow> bytes \<Rightarrow> Signal result" where
  "GetSignalTotalPower s signalID =
     (case kv_get (fs_total_powers s) (SignalTotalPowerStoreKey signalID) of
        None \<Rightarrow> Inl ErrSignalTotalPowerNotFound | Some signal \<Rightarrow> Inr signal)"

definition deleteSignalTotalPower :: "feeds_state \<Rightarrow> bytes \<Rightarrow> feeds_state" where
  "deleteSignalTotalPower s signalID =
     s\<lparr>fs_total_powers := kv_delete (fs_total_powers s) (SignalTotalPowerStoreKey signalID)\<rparr>"

definition setSignalTotalPowerByPowerIndex :: "feeds_state \<Rightarrow> Signal \<Rightarrow> feeds_state" where
  "setSignalTotalPowerByPowerIndex s signal =
     s\<lparr>fs_power_index :=
         kv_set (fs_power_index s) (SignalTotalPowerByPowerIndexKey (sig_ID signal) (sig_Power signal)) (sig_ID signal)\<rparr>"

definition deleteSignalTotalPowerByPowerIndex :: "feeds_state \<Rightarrow> Signal \<Rightarrow> feeds_state" where
  "deleteSignalTotalPowerByPowerIndex s signal =
     s\<lparr>fs_power_index :=
         kv_delete (fs_power_index s) (SignalTotalPowerByPowerIndexKey (sig_ID signal) (sig_Power signal))\<rparr>"

definition SetSignalTotalPower :: "feeds_state \<Rightarrow> Signal \<Rightarrow> feeds_state" where
  "SetSignalTotalPower s signal =
     (let s = (case GetSignalTotalPower s (sig_ID signal) of
                 Inr prev \<Rightarrow> deleteSignalTotalPowerByPowerIndex s prev | Inl _ \<Rightarrow> s) in
      if sig_Power signal = 0 then deleteSignalTotalPower s (sig_ID signal)
      else setSignalTotalPowerByPowerIndex
        (s\<lparr>fs_total_powers := kv_set (fs_total_powers s) (SignalTotalPowerStoreKey (sig_ID signal)) signal\<rparr>) signal)"

definition SetSignalTotalPowers :: "feeds_state \<Rightarrow> Signal list \<Rightarrow> feeds_state" where
  "SetSignalTotalPowers s signals = foldl SetSignalTotalPower s signals"

text \<open>
  The loop over the index, highest power first, until \<open>limit\<close> signals are found. Making a slice of
  more than \<open>2 ^ 63 - 1\<close> elements panics.
\<close>

fun top_signals :: "feeds_state \<Rightarrow> nat \<Rightarrow> (bytes \<times> bytes) list \<Rightarrow> Signal list" where
  "top_signals s limit [] = []"
| "top_signals s limit ((_, signalID) # entries) =
     (if limit = 0 then []
      else case GetSignalTotalPower s signalID of
        Inl _ \<Rightarrow> top_signals s limit entries
      | Inr signal \<Rightarrow>
          if sig_Power signal = 0 then top_signals s limit entries
          else signal # top_signals s (limit - 1) entries)"

definition GetSignalTotalPowersByPower :: "feeds_state \<Rightarrow> uint64 \<Rightarrow> Signal list result" where
  "GetSignalTotalPowersByPower s limit =
     (if limit \<ge> 2 ^ 63 then Inl (Panic ''makeslice: len out of range'')
      else Inr (top_signals s limit (kv_reverse_prefix_iterator (fs_power_index s) [0x80])))"

definition LockVoterPower ::
  "'b feeds_keeper \<Rightarrow> 'b restake_state \<Rightarrow> bytes \<Rightarrow> Signal list \<Rightarrow> 'b restake_state result" where
  "LockVoterPower k rs voter signals =
     SetLockedPower (fk_restake k) rs voter feeds_ModuleName (SumPower signals)"

text \<open>
  A Go map from signal ids to \<open>int64\<close> reads zero for a missing key. It is kept sorted by key, as
  its keys are sorted before they are used.
\<close>

type_synonym power_map = "(bytes, int64) kv"

definition power_map_add :: "bytes \<Rightarrow> int64 \<Rightarrow> power_map \<Rightarrow> power_map" where
  "power_map_add signalID d m =
     kv_set m signalID (i64 ((case kv_get m signalID of None \<Rightarrow> 0 | Some x \<Rightarrow> x) + d))"

definition UpdateVoteAndReturnPowerDiff ::
  "'b feeds_keeper \<Rightarrow> feeds_state \<Rightarrow> bytes \<Rightarrow> Signal list \<Rightarrow> (power_map \<times> feeds_state) result" where
  "UpdateVoteAndReturnPowerDiff k s voter signals =
     (let prevSignals = GetVote k s voter;
          s = DeleteVote k s voter;
          diff = foldl (\<lambda>m sg. power_map_add (sig_ID sg) (- sig_Power sg) m) [] prevSignals in
      bindE (SetVote k s \<lparr>vote_Voter = AccAddress_String (fk_sdk k) voter, vote_Signals = signals\<rparr>) (\<lambda>s.
      Inr (foldl (\<lambda>m sg. power_map_add (sig_ID sg) (sig_Power sg) m) diff signals, s)))"

definition apply_power_diff :: "feeds_state \<Rightarrow> bytes \<times> int64 \<Rightarrow> feeds_state result" where
  "apply_power_diff s entry =
     (let (signalID, powerDiff) = entry;
          signal = (case GetSignalTotalPower s signalID of
                      Inr signal \<Rightarrow> signal | Inl _ \<Rightarrow> \<lparr>sig_ID = signalID, sig_Power = 0\<rparr>);
          signal = signal\<lparr>sig_Power := i64 (sig_Power signal + powerDiff)\<rparr> in
      if sig_Power signal < 0 then Inl ErrPowerNegative else Inr (SetSignalTotalPower s signal))"

definition msg_Vote ::
  "'b feeds_keeper \<Rightarrow> 'b restake_state \<times> feeds_state \<Rightarrow> Vote \<Rightarrow> ('b restake_state \<times> feeds_state) result" where
  "msg_Vote k st msg =
     (let (rs, s) = st in
      bindE (AccAddressFromBech32 (fk_sdk k) (vote_Voter msg)) (\<lambda>voter.
      if length (vote_Signals msg) > fp_MaxCurrentFeeds (fs_params s) then Inl ErrSubmittedSignalsTooLarge
      else
        bindE (LockVoterPower k rs voter (vote_Signals msg)) (\<lambda>rs.
        bindE (UpdateVoteAndReturnPowerDiff k s voter (vote_Signals msg)) (\<lambda>(signalIDToPowerDiff, s).
        bindE (foldE apply_power_diff s signalIDToPowerDiff) (\<lambda>s.
        Inr (rs, s))))))"

section \<open>Feeds\<close>

text \<open>Integer division of Go: truncating, and a panic when the divisor is zero.\<close>

definition go_quot :: "int64 \<Rightarrow> int64 \<Rightarrow> int64 result" where
  "go_quot a b = (if b = 0 then Inl (Panic ''integer divide by zero'') else Inr (i64 (go_div a b)))"

definition CalculateInterval :: "int64 \<Rightarrow> int64 \<Rightarrow> int64 \<Rightarrow> int64 \<Rightarrow> int64 result" where
  "CalculateInterval pw powerStep minInterval maxInterval =
     (if pw < powerStep then Inr 0
      else bindE (go_quot pw powerStep) (\<lambda>powerFactor.
           bindE (go_quot maxInterval powerFactor) (\<lambda>q. Inr (max q minInterval))))"

definition CalculateDeviation :: "int64 \<Rightarrow> int64 \<Rightarrow> int64 \<Rightarrow> int64 \<Rightarrow> int64 result" where
  "CalculateDeviation pw powerStep minDeviationBP maxDeviationBP =
     (if pw < powerStep then Inr 0
      else bindE (go_quot pw powerStep) (\<lambda>powerFactor.
           bindE (go_quot maxDeviationBP powerFactor) (\<lambda>q. Inr (max q minDeviationBP))))"

definition CalculateNewCurrentFeeds :: "feeds_state \<Rightarrow> Feed list result" where
  "CalculateNewCurrentFeeds s =
     (let params = fs_params s in
      bindE (GetSignalTotalPowersByPower s (fp_MaxCurrentFeeds params)) (\<lambda>signalTotalPowers.
      foldE (\<lambda>feeds signal.
        bindE (CalculateInterval (sig_Power signal) (fp_PowerStepThreshold params) (fp_MinInterval params)
                 (fp_MaxInterval params)) (\<lambda>interval.
        if interval > 0
        then Inr (feeds @ [\<lparr>feed_SignalID = sig_ID signal, feed_Power = sig_Power signal, feed_Interval = interval\<rparr>])
        else Inr feeds)) [] signalTotalPowers))"

text \<open>The block time and height come from the context.\<close>

definition SetCurrentFeeds :: "int64 \<Rightarrow> int64 \<Rightarrow> feeds_state \<Rightarrow> Feed list \<Rightarrow> feeds_state" where
  "SetCurrentFeeds blockTime blockHeight s feeds =
     s\<lparr>fs_current_feeds :=
         \<lparr>cf_Feeds = feeds, cf_LastUpdateTimestamp = blockTime, cf_LastUpdateBlock = blockHeight\<rparr>\<rparr>"

section \<open>Genesis\<close>

record feeds_GenesisState =
  fgen_Params :: feeds_Params
  fgen_Votes :: "Vote list"
  fgen_ReferenceSourceConfig :: ReferenceSourceConfig

definition feeds_Genesis_Validate :: "'b feeds_keeper \<Rightarrow> feeds_GenesisState \<Rightarrow> unit result" where
  "feeds_Genesis_Validate k gs =
     bindE (feeds_Params_Validate k (fgen_Params gs)) (\<lambda>_.
     bindE (foldE (\<lambda>_ v. Vote_Validate (fk_sdk k) v) () (fgen_Votes gs)) (\<lambda>_.
     ReferenceSourceConfig_Validate k (fgen_ReferenceSourceConfig gs)))"

definition CalculateSignalTotalPowersFromVotes :: "Vote list \<Rightarrow> Signal list" where
  "CalculateSignalTotalPowersFromVotes votes =
     (let signalIDToPower =
        foldl (\<lambda>m v. foldl (\<lambda>m sg. power_map_add (sig_ID sg) (sig_Power sg) m) m (vote_Signals v)) [] votes in
      map (\<lambda>(signalID, pw). \<lparr>sig_ID = signalID, sig_Power = pw\<rparr>) signalIDToPower)"

definition feeds_InitGenesis ::
  "'b feeds_keeper \<Rightarrow> int64 \<Rightarrow> int64 \<Rightarrow> feeds_state \<Rightarrow> feeds_GenesisState \<Rightarrow> feeds_state result" where
  "feeds_InitGenesis k blockTime blockHeight s genState =
     (case feeds_SetParams k s (fgen_Params genState) of
        Inl _ \<Rightarrow> Inl (Panic ''invalid params'')
      | Inr s \<Rightarrow>
          bindE (SetVotes k s (fgen_Votes genState)) (\<lambda>s.
          let s = SetSignalTotalPowers s (CalculateSignalTotalPowersFromVotes (fgen_Votes genState)) in
          bindE (CalculateNewCurrentFeeds s) (\<lambda>feeds.
          let s = SetCurrentFeeds blockTime blockHeight s feeds in
          case SetReferenceSourceConfig k s (fgen_ReferenceSourceConfig genState) of
            Inl _ \<Rightarrow> Inl (Panic ''invalid reference source config'')
          | Inr s \<Rightarrow> Inr s)))"

definition feeds_ExportGenesis :: "feeds_state \<Rightarrow> feeds_GenesisState" where
  "feeds_ExportGenesis s =
     \<lparr>fgen_Params = fs_params s, fgen_Votes = GetVotes s, fgen_ReferenceSourceConfig = fs_reference_source s\<rparr>"

section \<open>The index by power\<close>

definition signal_good :: "Signal \<Rightarrow> bool" where
  "signal_good sg \<longleftrightarrow> 0 < sig_Power sg \<and> sig_Power sg < 2 ^ 63"

abbreviation signal_key :: "Signal \<Rightarrow> bytes" where
  "signal_key sg \<equiv> SignalTotalPowerStoreKey (sig_ID sg)"

abbreviation signal_index_key :: "Signal \<Rightarrow> bytes" where
  "signal_index_key sg \<equiv> SignalTotalPowerByPowerIndexKey (sig_ID sg) (sig_Power sg)"

lemma SignalTotalPowerStoreKey_inj [simp]: "SignalTotalPowerStoreKey a = SignalTotalPowerStoreKey b \<longleftrightarrow> a = b"
  by (simp add: SignalTotalPowerStoreKey_def)

lemma map_not_inj: "map not a = map not b \<longleftrightarrow> a = (b :: bytes)"
  by (intro inj_map_eq_map injI) simp

lemma index_key_inj:
  assumes "SignalTotalPowerByPowerIndexKey a p = SignalTotalPowerByPowerIndexKey b q"
  shows "a = b"
proof -
  have "length (be_bytes 8 (nat (p mod 2 ^ 64))) = length (be_bytes 8 (nat (q mod 2 ^ 64)))" by (simp del: be_bytes.simps)
  then have "map not a = map not b"
    using assms unfolding SignalTotalPowerByPowerIndexKey_def by (simp del: be_bytes.simps)
  then show ?thesis by (simp add: map_not_inj)
qed

text \<open>Index keys are ordered by power first.\<close>

lemma index_key_less:
  assumes "signal_good a" and "signal_good b" and "signal_index_key a < signal_index_key b"
  shows "sig_Power a \<le> sig_Power b"
proof -
  have "be_bytes 8 (nat (sig_Power a mod 2 ^ 64)) \<le> be_bytes 8 (nat (sig_Power b mod 2 ^ 64))"
    using assms(3) unfolding SignalTotalPowerByPowerIndexKey_def
    by (auto simp: lex_less_append_same_length simp del: be_bytes.simps)
  moreover have p: "sig_Power x mod 2 ^ 64 = sig_Power x" "nat (sig_Power x) < 256 ^ 8" if "signal_good x" for x
    using that by (auto simp: signal_good_def nat_less_iff)
  ultimately have "\<not> nat (sig_Power b) < nat (sig_Power a)"
    using be_bytes_less [OF p(2) [OF assms(2)] p(2) [OF assms(1)]] assms(1,2) p(1) leD by fastforce
  then show ?thesis using assms by (auto simp: signal_good_def)
qed

interpretation powers: keyed_index signal_key signal_index_key sig_ID signal_good
  by unfold_locales (auto dest: index_key_inj)

definition powers_ok :: "feeds_state \<Rightarrow> bool" where
  "powers_ok s \<longleftrightarrow> index_ok signal_key signal_index_key sig_ID signal_good (fs_total_powers s) (fs_power_index s)"

definition total_power :: "feeds_state \<Rightarrow> bytes \<Rightarrow> int64" where
  "total_power s signalID = (case GetSignalTotalPower s signalID of Inr sg \<Rightarrow> sig_Power sg | Inl _ \<Rightarrow> 0)"

lemma GetSignalTotalPower_Inr:
  assumes "powers_ok s" and "GetSignalTotalPower s x = Inr sg"
  shows "sig_ID sg = x" and "signal_good sg"
  using powers.index_okD(3,4) [OF assms(1) [unfolded powers_ok_def], of "SignalTotalPowerStoreKey x" sg] assms(2)
  by (auto simp: GetSignalTotalPower_def split: option.splits)

lemma total_power_range: "powers_ok s \<Longrightarrow> 0 \<le> total_power s x \<and> total_power s x < 2 ^ 63"
  using GetSignalTotalPower_Inr(2) [of s x] by (auto simp: total_power_def signal_good_def split: sum.splits)

lemma SetSignalTotalPower_spec:
  assumes ok: "powers_ok s" and p: "0 \<le> sig_Power sg" "sig_Power sg < 2 ^ 63"
  obtains P I where "SetSignalTotalPower s sg = s\<lparr>fs_total_powers := P, fs_power_index := I\<rparr>"
    and "powers_ok (s\<lparr>fs_total_powers := P, fs_power_index := I\<rparr>)"
    and "\<And>x. total_power (s\<lparr>fs_total_powers := P, fs_power_index := I\<rparr>) x =
           (if x = sig_ID sg then sig_Power sg else total_power s x)"
proof -
  let ?P = "kv_delete (fs_total_powers s) (signal_key sg)"
  obtain I where I: "(case GetSignalTotalPower s (sig_ID sg) of
         Inr prev \<Rightarrow> deleteSignalTotalPowerByPowerIndex s prev | Inl _ \<Rightarrow> s) = s\<lparr>fs_power_index := I\<rparr>"
    and del: "index_ok signal_key signal_index_key sig_ID signal_good ?P I"
  proof (cases "GetSignalTotalPower s (sig_ID sg)")
    case (Inl e)
    then have none: "kv_get (fs_total_powers s) (signal_key sg) = None"
      by (auto simp: GetSignalTotalPower_def split: option.splits)
    have "?P = fs_total_powers s"
      using kv.entries_determine [of ?P "fs_total_powers s"] powers.index_okD(1) [OF ok [unfolded powers_ok_def]] none by auto
    then show ?thesis using that [of "fs_power_index s"] Inl ok by (simp add: powers_ok_def)
  next
    case (Inr prev)
    then have "kv_get (fs_total_powers s) (signal_key sg) = Some prev"
      by (auto simp: GetSignalTotalPower_def split: option.splits)
    then show ?thesis
      using that powers.index_ok_delete [OF ok [unfolded powers_ok_def]] Inr
      by (auto simp: deleteSignalTotalPowerByPowerIndex_def)
  qed
  show ?thesis
  proof (cases "sig_Power sg = 0")
    case True
    then show ?thesis
      using I del p
      by (intro that [of I ?P])
        (auto simp: SetSignalTotalPower_def deleteSignalTotalPower_def powers_ok_def total_power_def GetSignalTotalPower_def)
  next
    case False
    then have good: "signal_good sg" using p by (simp add: signal_good_def)
    let ?P' = "kv_set (fs_total_powers s) (signal_key sg) sg" and ?I' = "kv_set I (signal_index_key sg) (sig_ID sg)"
    have "?P' = kv_set ?P (signal_key sg) sg"
      using kv.entries_determine [of ?P' "kv_set ?P (signal_key sg) sg"]
        powers.index_okD(1) [OF ok [unfolded powers_ok_def]] by auto
    then have "index_ok signal_key signal_index_key sig_ID signal_good ?P' ?I'"
      using powers.index_ok_insert [OF del _ good] by simp
    then show ?thesis
      using I False
      by (intro that [of ?I' ?P'])
        (auto simp: SetSignalTotalPower_def setSignalTotalPowerByPowerIndex_def powers_ok_def total_power_def
          GetSignalTotalPower_def)
  qed
qed

section \<open>Power maps\<close>

definition pm_get :: "power_map \<Rightarrow> bytes \<Rightarrow> int64" where
  "pm_get m x = (case kv_get m x of None \<Rightarrow> 0 | Some y \<Rightarrow> y)"

definition vote_power :: "Signal list \<Rightarrow> bytes \<Rightarrow> int" where
  "vote_power signals x = sum_list (map sig_Power (filter (\<lambda>sg. sig_ID sg = x) signals))"

lemma power_map_add_get: "pm_get (power_map_add y d m) x = (if x = y then i64 (pm_get m y + d) else pm_get m x)"
  by (simp add: power_map_add_def pm_get_def)

lemma power_map_add_ok: "kv_ok m \<Longrightarrow> kv_ok (power_map_add y d m)"
  by (simp add: power_map_add_def)

lemma power_map_add_keys: "fst ` set (power_map_add y d m) = insert y (fst ` set m)"
  by (simp add: power_map_add_def kv_keys_set)

lemma power_map_fold_all:
  assumes "kv_ok m" and "\<forall>x. in_i64 (pm_get m x)"
  shows "kv_ok (foldl (\<lambda>m sg. power_map_add (sig_ID sg) (c * sig_Power sg) m) m signals) \<and>
    (\<forall>x. pm_get (foldl (\<lambda>m sg. power_map_add (sig_ID sg) (c * sig_Power sg) m) m signals) x =
           i64 (pm_get m x + c * vote_power signals x)) \<and>
    fst ` set (foldl (\<lambda>m sg. power_map_add (sig_ID sg) (c * sig_Power sg) m) m signals) =
           fst ` set m \<union> sig_ID ` set signals"
  using assms
proof (induction signals arbitrary: m)
  case Nil
  then show ?case by (simp add: vote_power_def)
next
  case (Cons sg signals)
  let ?m = "power_map_add (sig_ID sg) (c * sig_Power sg) m"
  have ok: "kv_ok ?m" "\<forall>x. in_i64 (pm_get ?m x)"
    using Cons.prems by (auto simp: power_map_add_ok power_map_add_get)
  have "i64 (pm_get ?m x + c * vote_power signals x) = i64 (pm_get m x + c * vote_power (sg # signals) x)" for x
    by (simp add: power_map_add_get vote_power_def algebra_simps)
  with Cons.IH [OF ok] show ?case by (simp add: power_map_add_keys)
qed

lemma Signal_set_power: "(sg :: Signal)\<lparr>sig_Power := p\<rparr> = \<lparr>sig_ID = sig_ID sg, sig_Power = p\<rparr>"
  by simp

lemma apply_power_diffs:
  assumes "distinct (map fst ds)" and "powers_ok s"
  shows "if \<forall>e\<in>set ds. 0 \<le> i64 (total_power s (fst e) + snd e)
    then \<exists>P I. foldE apply_power_diff s ds = Inr (s\<lparr>fs_total_powers := P, fs_power_index := I\<rparr>) \<and>
      powers_ok (s\<lparr>fs_total_powers := P, fs_power_index := I\<rparr>) \<and>
      (\<forall>x. total_power (s\<lparr>fs_total_powers := P, fs_power_index := I\<rparr>) x =
         (case map_of ds x of None \<Rightarrow> total_power s x | Some d \<Rightarrow> i64 (total_power s x + d)))
    else foldE apply_power_diff s ds = Inl ErrPowerNegative"
  using assms
proof (induction ds arbitrary: s)
  case Nil
  then show ?case by (auto intro!: exI [of _ "fs_total_powers s"] exI [of _ "fs_power_index s"])
next
  case (Cons e ds)
  obtain y d where e: "e = (y, d)" by (cases e)
  let ?sg = "\<lparr>sig_ID = y, sig_Power = i64 (total_power s y + d)\<rparr>"
  have step: "apply_power_diff s e =
      (if i64 (total_power s y + d) < 0 then Inl ErrPowerNegative else Inr (SetSignalTotalPower s ?sg))"
    using GetSignalTotalPower_Inr(1) [OF Cons.prems(2), of y]
    by (auto simp: apply_power_diff_def e total_power_def Signal_set_power split: sum.splits)
  show ?case
  proof (cases "i64 (total_power s y + d) < 0")
    case True
    then show ?thesis using step by (auto simp: e)
  next
    case False
    have "i64 (total_power s y + d) < 2 ^ 63" using in_i64_i64 by (simp add: in_i64_def)
    then obtain P I where set: "SetSignalTotalPower s ?sg = s\<lparr>fs_total_powers := P, fs_power_index := I\<rparr>"
      and ok: "powers_ok (s\<lparr>fs_total_powers := P, fs_power_index := I\<rparr>)"
      and tp: "\<And>x. total_power (s\<lparr>fs_total_powers := P, fs_power_index := I\<rparr>) x =
           (if x = y then i64 (total_power s y + d) else total_power s x)"
      using SetSignalTotalPower_spec [OF Cons.prems(2), of ?sg] False by (metis Signal.select_convs not_less)
    let ?s = "s\<lparr>fs_total_powers := P, fs_power_index := I\<rparr>"
    have y: "y \<notin> fst ` set ds" and ds: "distinct (map fst ds)" using Cons.prems(1) by (auto simp: e)
    have same: "total_power ?s (fst x) = total_power s (fst x)" if "x \<in> set ds" for x
      using tp that y by force
    have m: "map_of ds y = None" using y by (simp add: map_of_eq_None_iff)
    show ?thesis
    proof (cases "\<forall>x\<in>set ds. 0 \<le> i64 (total_power s (fst x) + snd x)")
      case True
      then obtain P' I' where r: "foldE apply_power_diff ?s ds = Inr (?s\<lparr>fs_total_powers := P', fs_power_index := I'\<rparr>)"
        "powers_ok (?s\<lparr>fs_total_powers := P', fs_power_index := I'\<rparr>)"
        "\<forall>x. total_power (?s\<lparr>fs_total_powers := P', fs_power_index := I'\<rparr>) x =
         (case map_of ds x of None \<Rightarrow> total_power ?s x | Some d \<Rightarrow> i64 (total_power ?s x + d))"
        using Cons.IH [OF ds ok] same by auto
      have "total_power (s\<lparr>fs_total_powers := P', fs_power_index := I'\<rparr>) x =
          (case map_of (e # ds) x of None \<Rightarrow> total_power s x | Some d \<Rightarrow> i64 (total_power s x + d))" for x
        using r(3) tp m by (auto simp: e split: option.splits)
      moreover have all: "\<forall>x\<in>set (e # ds). 0 \<le> i64 (total_power s (fst x) + snd x)" using True False by (auto simp: e)
      ultimately show ?thesis
        unfolding if_P [OF all] using False step set r(1,2) by (intro exI [of _ P'] exI [of _ I'] conjI allI) auto
    next
      case no: False
      then have "foldE apply_power_diff ?s ds = Inl ErrPowerNegative"
        using Cons.IH [OF ds ok] same by (auto split: if_splits)
      then show ?thesis using no False step set by (auto simp: e)
    qed
  qed
qed

section \<open>Votes\<close>

definition voted :: "feeds_state \<Rightarrow> bytes \<Rightarrow> int" where
  "voted s x = kv_sum (\<lambda>v. vote_power (vote_Signals v) x) (fs_votes s)"

definition votes_ok :: "'b feeds_keeper \<Rightarrow> feeds_state \<Rightarrow> bool" where
  "votes_ok k s \<longleftrightarrow> kv_ok (fs_votes s) \<and>
     (\<forall>vk v. kv_get (fs_votes s) vk = Some v \<longrightarrow>
        (\<exists>a. AccAddressFromBech32 (fk_sdk k) (vote_Voter v) = Inr a \<and> vk = VoteStoreKey (fk_sdk k) a))"

text \<open>The total power of every signal is the sum of the votes for it, as an \<open>int64\<close>.\<close>

definition feeds_inv :: "'b feeds_keeper \<Rightarrow> feeds_state \<Rightarrow> bool" where
  "feeds_inv k s \<longleftrightarrow> votes_ok k s \<and> powers_ok s \<and> (\<forall>x. total_power s x = i64 (voted s x))"

lemma VoteStoreKey_inj:
  "address_laws sdk \<Longrightarrow> valid_addr a \<Longrightarrow> valid_addr b \<Longrightarrow> VoteStoreKey sdk a = VoteStoreKey sdk b \<longleftrightarrow> a = b"
  using length_prefix_inj [of a b "[]" "[]"] by (auto simp: VoteStoreKey_def address_lawsD(3))

lemma GetVote_part:
  "vote_power (GetVote k s voter) x = kv_part (\<lambda>v. vote_power (vote_Signals v) x) (fs_votes s) (VoteStoreKey (fk_sdk k) voter)"
  by (simp add: GetVote_def kv_part_def vote_power_def split: option.splits)

lemma UpdateVote_spec:
  assumes laws: "address_laws (fk_sdk k)" and ok: "votes_ok k s" and v: "valid_addr voter"
  obtains V diff where "UpdateVoteAndReturnPowerDiff k s voter signals = Inr (diff, s\<lparr>fs_votes := V\<rparr>)"
    and "votes_ok k (s\<lparr>fs_votes := V\<rparr>)"
    and "\<And>a. valid_addr a \<Longrightarrow> GetVote k (s\<lparr>fs_votes := V\<rparr>) a = (if a = voter then signals else GetVote k s a)"
    and "\<And>x. voted (s\<lparr>fs_votes := V\<rparr>) x = voted s x - vote_power (GetVote k s voter) x + vote_power signals x"
    and "kv_ok diff" and "\<And>x. pm_get diff x = i64 (vote_power signals x - vote_power (GetVote k s voter) x)"
    and "fst ` set diff = sig_ID ` (set (GetVote k s voter) \<union> set signals)"
proof -
  let ?vk = "VoteStoreKey (fk_sdk k) voter"
  let ?new = "\<lparr>vote_Voter = AccAddress_String (fk_sdk k) voter, vote_Signals = signals\<rparr>"
  let ?V = "kv_set (kv_delete (fs_votes s) ?vk) ?vk ?new"
  have addr: "AccAddressFromBech32 (fk_sdk k) (AccAddress_String (fk_sdk k) voter) = Inr voter"
    using address_lawsD(2) [OF laws v] .
  let ?prev = "foldl (\<lambda>m sg. power_map_add (sig_ID sg) (- sig_Power sg) m) [] (GetVote k s voter)"
  let ?d = "foldl (\<lambda>m sg. power_map_add (sig_ID sg) (sig_Power sg) m) ?prev signals"
  have z: "pm_get [] x = 0" "in_i64 0" for x by (auto simp: pm_get_def in_i64_def)
  have d0: "kv_ok ?prev \<and> (\<forall>x. pm_get ?prev x = i64 (- vote_power (GetVote k s voter) x)) \<and>
      fst ` set ?prev = sig_ID ` set (GetVote k s voter)"
    using power_map_fold_all [of "[]" "-1" "GetVote k s voter"] z by simp
  then have d: "kv_ok ?d \<and> (\<forall>x. pm_get ?d x = i64 (pm_get ?prev x + vote_power signals x)) \<and>
      fst ` set ?d = fst ` set ?prev \<union> sig_ID ` set signals"
    using power_map_fold_all [of ?prev 1 signals] by simp
  have run: "UpdateVoteAndReturnPowerDiff k s voter signals = Inr (?d, s\<lparr>fs_votes := ?V\<rparr>)"
    by (simp add: UpdateVoteAndReturnPowerDiff_def DeleteVote_def SetVote_def MustAccAddressFromBech32_def addr Let_def)
  have kvok: "kv_ok (fs_votes s)" using ok by (simp add: votes_ok_def)
  have vok: "votes_ok k (s\<lparr>fs_votes := ?V\<rparr>)"
    using ok addr by (auto simp: votes_ok_def split: if_splits)
  have get: "GetVote k (s\<lparr>fs_votes := ?V\<rparr>) a = (if a = voter then signals else GetVote k s a)" if "valid_addr a" for a
    using VoteStoreKey_inj [OF laws that v] by (simp add: GetVote_def)
  have sum: "voted (s\<lparr>fs_votes := ?V\<rparr>) x = voted s x - vote_power (GetVote k s voter) x + vote_power signals x" for x
    using kvok by (simp add: voted_def kv_sum_set kv_sum_delete GetVote_part kv_part_def [of _ "kv_delete _ _"])
  have diff: "pm_get ?d x = i64 (vote_power signals x - vote_power (GetVote k s voter) x)" for x
    using d d0 by simp
  have keys: "fst ` set ?d = sig_ID ` (set (GetVote k s voter) \<union> set signals)"
    using d d0 by (simp add: image_Un)
  show ?thesis
    using that [OF run vok get sum _ diff keys] d by blast
qed

lemma vote_power_absent: "x \<notin> sig_ID ` set signals \<Longrightarrow> vote_power signals x = 0"
  by (induction signals) (auto simp: vote_power_def)

text \<open>What a vote does, success and failure.\<close>

lemma msg_Vote_spec:
  assumes laws: "address_laws (fk_sdk k)" and inv: "feeds_inv k s"
    and a: "AccAddressFromBech32 (fk_sdk k) (vote_Voter msg) = Inr voter"
    and len: "length (vote_Signals msg) \<le> fp_MaxCurrentFeeds (fs_params s)"
    and lock: "LockVoterPower k rs voter (vote_Signals msg) = Inr rs'"
  defines "new \<equiv> \<lambda>x. voted s x - vote_power (GetVote k s voter) x + vote_power (vote_Signals msg) x"
  shows "if \<forall>x. 0 \<le> i64 (new x)
    then \<exists>s'. msg_Vote k (rs, s) msg = Inr (rs', s') \<and> feeds_inv k s' \<and> (\<forall>x. voted s' x = new x) \<and>
      (\<forall>b. valid_addr b \<longrightarrow> GetVote k s' b = (if b = voter then vote_Signals msg else GetVote k s b)) \<and>
      fs_params s' = fs_params s \<and> fs_current_feeds s' = fs_current_feeds s \<and> fs_prices s' = fs_prices s \<and>
      fs_validator_prices s' = fs_validator_prices s
    else msg_Vote k (rs, s) msg = Inl ErrPowerNegative"
proof -
  have v: "valid_addr voter" using address_lawsD(1) [OF laws a] .
  have vok: "votes_ok k s" and pok: "powers_ok s" and tot: "\<And>x. total_power s x = i64 (voted s x)"
    using inv by (auto simp: feeds_inv_def)
  obtain V diff where upd: "UpdateVoteAndReturnPowerDiff k s voter (vote_Signals msg) = Inr (diff, s\<lparr>fs_votes := V\<rparr>)"
    and V: "votes_ok k (s\<lparr>fs_votes := V\<rparr>)"
    and get: "\<And>a. valid_addr a \<Longrightarrow> GetVote k (s\<lparr>fs_votes := V\<rparr>) a = (if a = voter then vote_Signals msg else GetVote k s a)"
    and sum: "\<And>x. voted (s\<lparr>fs_votes := V\<rparr>) x = new x"
    and d: "kv_ok diff" "\<And>x. pm_get diff x = i64 (vote_power (vote_Signals msg) x - vote_power (GetVote k s voter) x)"
    "fst ` set diff = sig_ID ` (set (GetVote k s voter) \<union> set (vote_Signals msg))"
    using UpdateVote_spec [OF laws vok v, of "vote_Signals msg"] unfolding new_def by metis
  let ?s = "s\<lparr>fs_votes := V\<rparr>"
  have tp: "total_power ?s = total_power s" by (auto simp: total_power_def GetSignalTotalPower_def fun_eq_iff)
  have pok': "powers_ok ?s" using pok by (simp add: powers_ok_def)
  have val: "i64 (total_power s x + y) = i64 (new x)" if "kv_get diff x = Some y" for x y
  proof -
    have "y = i64 (vote_power (vote_Signals msg) x - vote_power (GetVote k s voter) x)"
      using d(2) [of x] that by (simp add: pm_get_def)
    moreover have "new x = voted s x + (vote_power (vote_Signals msg) x - vote_power (GetVote k s voter) x)"
      by (simp add: new_def)
    ultimately show ?thesis by (simp only: tot i64_add_left i64_add_right)
  qed
  have absent: "new x = voted s x" if "kv_get diff x = None" for x
  proof -
    have "x \<notin> fst ` set diff" using that by (simp add: kv_get_def map_of_eq_None_iff)
    then have "x \<notin> sig_ID ` set (GetVote k s voter)" "x \<notin> sig_ID ` set (vote_Signals msg)" unfolding d(3) by auto
    then show ?thesis using vote_power_absent by (simp add: new_def)
  qed
  have dist: "distinct (map fst diff)" using kv.entries_distinct [OF d(1)] .
  have cond: "(\<forall>e\<in>set diff. 0 \<le> i64 (total_power ?s (fst e) + snd e)) \<longleftrightarrow> (\<forall>x. 0 \<le> i64 (new x))"
  proof -
    have "(\<forall>e\<in>set diff. 0 \<le> i64 (total_power s (fst e) + snd e)) \<longleftrightarrow>
        (\<forall>x y. kv_get diff x = Some y \<longrightarrow> 0 \<le> i64 (new x))"
      using kv_ball [OF d(1), of "\<lambda>x y. 0 \<le> i64 (total_power s x + y)"] val by auto
    also have "\<dots> \<longleftrightarrow> (\<forall>x. 0 \<le> i64 (new x))"
      using absent total_power_range [OF pok] tot by (metis option.exhaust)
    finally show ?thesis by (simp add: tp)
  qed
  have run: "msg_Vote k (rs, s) msg = bindE (foldE apply_power_diff ?s diff) (\<lambda>s. Inr (rs', s))"
    using a len lock upd by (simp add: msg_Vote_def)
  note diffs = apply_power_diffs [OF dist pok', unfolded cond]
  show ?thesis
  proof (cases "\<forall>x. 0 \<le> i64 (new x)")
    case True
    then obtain P I where r: "foldE apply_power_diff ?s diff = Inr (?s\<lparr>fs_total_powers := P, fs_power_index := I\<rparr>)"
      "powers_ok (?s\<lparr>fs_total_powers := P, fs_power_index := I\<rparr>)"
      "\<forall>x. total_power (?s\<lparr>fs_total_powers := P, fs_power_index := I\<rparr>) x =
         (case map_of diff x of None \<Rightarrow> total_power s x | Some d \<Rightarrow> i64 (total_power s x + d))"
      using diffs [unfolded if_P [OF True] tp] by blast
    let ?s' = "?s\<lparr>fs_total_powers := P, fs_power_index := I\<rparr>"
    have vt: "voted ?s' x = new x" for x using sum by (simp add: voted_def)
    have "total_power ?s' x = i64 (new x)" for x
      using r(3) val [of x] absent [of x] tot by (auto simp: kv_get_def split: option.splits)
    then have "feeds_inv k ?s'" using V r(2) vt by (simp add: feeds_inv_def votes_ok_def)
    moreover have "GetVote k ?s' b = (if b = voter then vote_Signals msg else GetVote k s b)" if "valid_addr b" for b
      using get [OF that] by (simp add: GetVote_def)
    ultimately show ?thesis using True run r(1) vt by (intro if_P [THEN iffD2]) (auto intro!: exI [of _ ?s'])
  next
    case False
    then show ?thesis using diffs run by (auto split: if_splits)
  qed
qed

section \<open>Signals by power\<close>

lemma top_signals_take:
  assumes "powers_ok s" and "\<forall>sg\<in>set sgs. GetSignalTotalPower s (sig_ID sg) = Inr sg"
  shows "top_signals s n (map (\<lambda>sg. (f sg, sig_ID sg)) sgs) = take n sgs"
  using assms(2)
proof (induction sgs arbitrary: n)
  case (Cons sg sgs)
  have "sig_Power sg \<noteq> 0" using GetSignalTotalPower_Inr(2) [OF assms(1), of "sig_ID sg" sg] Cons.prems by (auto simp: signal_good_def)
  with Cons show ?case by (cases n) auto
qed simp

lemma GetSignalTotalPowersByPower_spec:
  assumes "powers_ok s" and "limit < 2 ^ 63"
  obtains sgs where "GetSignalTotalPowersByPower s limit = Inr (take limit sgs)"
    and "set sgs = {sg. GetSignalTotalPower s (sig_ID sg) = Inr sg}" and "distinct (map sig_ID sgs)"
    and "sorted_wrt (\<lambda>a b. sig_Power b \<le> sig_Power a) sgs"
proof -
  note ok = assms(1) [unfolded powers_ok_def]
  obtain vs where I: "fs_power_index s = map (\<lambda>v. (signal_index_key v, sig_ID v)) vs"
    and set: "set vs = {v. kv_get (fs_total_powers s) (signal_key v) = Some v}"
    and dist: "distinct (map signal_key vs)" and asc: "sorted_wrt (\<lambda>v w. signal_index_key v < signal_index_key w) vs"
    and good: "\<forall>v\<in>set vs. signal_good v"
    by (rule powers.index_iteration [OF ok])
  have all: "\<forall>e\<in>set (fs_power_index s). has_prefix [0x80] (fst e)"
    by (auto simp: I SignalTotalPowerByPowerIndexKey_def simp del: be_bytes.simps)
  have it: "kv_reverse_prefix_iterator (fs_power_index s) [0x80] = map (\<lambda>v. (signal_index_key v, sig_ID v)) (rev vs)"
    using prefix_iterator_all [OF all] by (simp add: kv_reverse_prefix_iterator_def I rev_map)
  have get: "GetSignalTotalPower s (sig_ID v) = Inr v \<longleftrightarrow> kv_get (fs_total_powers s) (signal_key v) = Some v" for v
    by (auto simp: GetSignalTotalPower_def split: option.splits)
  have "GetSignalTotalPowersByPower s limit = Inr (take limit (rev vs))"
    using top_signals_take [OF assms(1), of "rev vs"] assms(2) set get
    by (simp add: GetSignalTotalPowersByPower_def it)
  moreover have "distinct (map sig_ID (rev vs))" using dist by (auto simp: distinct_map inj_on_def)
  moreover have "sorted_wrt (\<lambda>a b. sig_Power b \<le> sig_Power a) (rev vs)"
    unfolding sorted_wrt_rev by (rule sorted_wrt_mono_rel [OF _ asc]) (use good index_key_less in blast)
  ultimately show ?thesis using that [of "rev vs"] set get by simp
qed

section \<open>Intervals\<close>

lemma step_quotient:
  assumes "0 < st" and "st \<le> pw" and "pw < 2 ^ 63" and "0 < m" and "m < 2 ^ 63"
  shows "go_quot pw st = Inr (pw div st)" and "1 \<le> pw div st" and "go_quot m (pw div st) = Inr (m div (pw div st))"
    and "0 \<le> m div (pw div st)" and "m div (pw div st) \<le> m"
proof -
  show q: "1 \<le> pw div st" using assms pos_imp_zdiv_pos_iff [of st pw] by simp
  have le: "pw div st \<le> pw" using assms zdiv_mono2 [of pw 1 st] by simp
  have range: "in_i64 x" if "0 \<le> x" "x < 2 ^ 63" for x using that by (simp add: in_i64_def)
  show "go_quot pw st = Inr (pw div st)"
    using assms le q range [of "pw div st"] by (simp add: go_quot_def go_div_nonneg)
  show nn: "0 \<le> m div (pw div st)" using assms q by (simp add: pos_imp_zdiv_nonneg_iff)
  show lm: "m div (pw div st) \<le> m" using assms q zdiv_mono2 [of m 1 "pw div st"] by simp
  show "go_quot m (pw div st) = Inr (m div (pw div st))"
    using assms q nn lm range [of "m div (pw div st)"] by (simp add: go_quot_def go_div_nonneg)
qed

lemma CalculateInterval_Inr:
  assumes "0 < st" and "pw < 2 ^ 63" and "0 < mx" and "mx < 2 ^ 63"
  shows "CalculateInterval pw st mn mx = Inr (if pw < st then 0 else max (mx div (pw div st)) mn)"
  using step_quotient(1,3) [of st pw mx] assms by (auto simp: CalculateInterval_def)

text \<open>The feeds are the top signals that reach the threshold, in the order of their power.\<close>

definition feed_of :: "feeds_Params \<Rightarrow> Signal \<Rightarrow> Feed" where
  "feed_of p sg = \<lparr>feed_SignalID = sig_ID sg, feed_Power = sig_Power sg,
     feed_Interval = max (fp_MaxInterval p div (sig_Power sg div fp_PowerStepThreshold p)) (fp_MinInterval p)\<rparr>"

definition params_typed :: "feeds_Params \<Rightarrow> bool" where
  "params_typed p \<longleftrightarrow> in_i64 (fp_MinInterval p) \<and> in_i64 (fp_MaxInterval p) \<and> in_i64 (fp_PowerStepThreshold p) \<and>
     fp_MaxCurrentFeeds p < 2 ^ 63"

lemma feeds_Params_ValidateD:
  assumes "feeds_Params_Validate k p = Inr ()"
  shows "0 < fp_MinInterval p" and "0 < fp_MaxInterval p" and "0 < fp_PowerStepThreshold p"
    and "0 < fp_CooldownTime p" and "0 < fp_GracePeriod p" and "0 < fp_CurrentFeedsUpdateInterval p"
    and "0 < fp_AllowableBlockTimeDiscrepancy p"
    and "\<exists>q. LegacyNewDecFromStr k (fp_PriceQuorum p) = Inr q \<and> 0 \<le> q"
  using assms by (auto simp: feeds_Params_Validate_def validateInt64_def)

lemma CalculateNewCurrentFeeds_spec:
  assumes "powers_ok s" and valid: "feeds_Params_Validate k (fs_params s) = Inr ()" and typed: "params_typed (fs_params s)"
    and top: "GetSignalTotalPowersByPower s (fp_MaxCurrentFeeds (fs_params s)) = Inr sgs"
    and range: "\<forall>sg\<in>set sgs. sig_Power sg < 2 ^ 63"
  shows "CalculateNewCurrentFeeds s =
    Inr (map (feed_of (fs_params s)) (filter (\<lambda>sg. fp_PowerStepThreshold (fs_params s) \<le> sig_Power sg) sgs))"
proof -
  let ?p = "fs_params s"
  note pos = feeds_Params_ValidateD [OF valid]
  let ?f = "\<lambda>feeds signal.
        bindE (CalculateInterval (sig_Power signal) (fp_PowerStepThreshold ?p) (fp_MinInterval ?p) (fp_MaxInterval ?p)) (\<lambda>interval.
        if interval > 0
        then Inr (feeds @ [\<lparr>feed_SignalID = sig_ID signal, feed_Power = sig_Power signal, feed_Interval = interval\<rparr>])
        else Inr feeds)"
  have "foldE ?f acc sgs = Inr (acc @ map (feed_of ?p) (filter (\<lambda>sg. fp_PowerStepThreshold ?p \<le> sig_Power sg) sgs))" for acc
    using range
  proof (induction sgs arbitrary: acc)
    case (Cons sg sgs)
    have "CalculateInterval (sig_Power sg) (fp_PowerStepThreshold ?p) (fp_MinInterval ?p) (fp_MaxInterval ?p) =
        Inr (if sig_Power sg < fp_PowerStepThreshold ?p then 0 else feed_Interval (feed_of ?p sg))"
      using CalculateInterval_Inr [of "fp_PowerStepThreshold ?p" "sig_Power sg" "fp_MaxInterval ?p" "fp_MinInterval ?p"]
        pos typed Cons.prems by (simp add: params_typed_def in_i64_def feed_of_def)
    moreover have "0 < feed_Interval (feed_of ?p sg)" using pos(1) by (simp add: feed_of_def less_max_iff_disj)
    ultimately show ?case using Cons pos(1) by (simp add: feed_of_def not_less)
  qed simp
  then show ?thesis using top by (simp add: CalculateNewCurrentFeeds_def Let_def)
qed

text \<open>Valid votes: positive powers and no signal twice.\<close>

lemma validate_signals_Inr:
  assumes "validate_signals signals = Inr ()"
  shows "\<forall>sg\<in>set signals. sig_ID sg \<noteq> [] \<and> 0 < sig_Power sg \<and> length (sig_ID sg) \<le> 32" and "distinct (map sig_ID signals)"
proof -
  let ?f = "\<lambda>seen signal. bindE (Signal_Validate signal) (\<lambda>_.
       if sig_ID signal \<in> set seen then Inl ErrDuplicateSignalID else Inr (sig_ID signal # seen))"
  have gen: "(\<forall>sg\<in>set signals. sig_ID sg \<noteq> [] \<and> 0 < sig_Power sg \<and> length (sig_ID sg) \<le> 32) \<and>
      distinct (map sig_ID signals) \<and> set seen \<inter> sig_ID ` set signals = {}"
    if "foldE ?f seen signals = Inr r" for seen r
    using that
  proof (induction signals arbitrary: seen)
    case (Cons sg signals)
    then have sg: "Signal_Validate sg = Inr ()" "sig_ID sg \<notin> set seen" "foldE ?f (sig_ID sg # seen) signals = Inr r"
      by auto
    from Cons.IH [OF sg(3)] sg(1,2) show ?case
      by (auto simp: Signal_Validate_def MaxSignalIDCharacters_def split: if_splits)
  qed simp
  from assms obtain r where "foldE ?f [] signals = Inr r" by (auto simp: validate_signals_def)
  from gen [OF this] show "\<forall>sg\<in>set signals. sig_ID sg \<noteq> [] \<and> 0 < sig_Power sg \<and> length (sig_ID sg) \<le> 32"
    and "distinct (map sig_ID signals)" by auto
qed

definition votes_positive :: "feeds_state \<Rightarrow> bool" where
  "votes_positive s \<longleftrightarrow> (\<forall>vk v. kv_get (fs_votes s) vk = Some v \<longrightarrow> (\<forall>sg\<in>set (vote_Signals v). 0 < sig_Power sg))"

lemma voted_without:
  assumes "votes_positive s" and "kv_ok (fs_votes s)"
  shows "0 \<le> voted s x - vote_power (GetVote k s voter) x"
proof -
  let ?f = "\<lambda>v. vote_power (vote_Signals v) x" and ?vk = "VoteStoreKey (fk_sdk k) voter"
  have "0 \<le> ?f v" if "(vk, v) \<in> set (fs_votes s)" for vk v
    using assms that kv_mem_iff [OF assms(2)] unfolding votes_positive_def vote_power_def
    by (intro sum_list_nonneg) (auto dest!: order_less_imp_le)
  then have "0 \<le> kv_sum ?f (kv_delete (fs_votes s) ?vk)"
    unfolding kv_sum_def kv_delete_def by (intro sum_list_nonneg) auto
  then show ?thesis using assms(2) by (simp add: kv_sum_delete voted_def GetVote_part)
qed

lemma vote_power_nonneg: "\<forall>sg\<in>set signals. 0 < sig_Power sg \<Longrightarrow> 0 \<le> vote_power signals x"
  unfolding vote_power_def by (intro sum_list_nonneg) (auto dest!: order_less_imp_le)

lemma SumPower_sum: "SumPower signals = i64 (sum_list (map sig_Power signals))"
proof -
  have "foldl (\<lambda>sum signal. i64 (sum + sig_Power signal)) (i64 c) signals = i64 (c + sum_list (map sig_Power signals))" for c
    by (induction signals arbitrary: c) (simp_all add: add.assoc)
  from this [of 0] show ?thesis by (simp add: SumPower_def in_i64_def)
qed

section \<open>Properties\<close>

definition demo_feeds_keeper :: "plain_balances feeds_keeper" where
  "demo_feeds_keeper = \<lparr>fk_sdk = plain_sdk, fk_restake = demo_keeper,
     LegacyNewDecFromStr = (\<lambda>s. if s = str ''0.3'' then Inr (3 * 10 ^ 17) else if s = str ''0'' then Inr 0 else Inl (Errorf ''decimal'')),
     DecMulTruncateInt = (\<lambda>tokens q. tokens * q div 10 ^ 18), StrictNewVersion = (\<lambda>v. v = str ''1.0.0''),
     fk_authority = str ''gov''\<rparr>"

definition demo_params :: feeds_Params where
  "demo_params = \<lparr>fp_Admin = str ''[NOT_SET]'', fp_AllowableBlockTimeDiscrepancy = 60, fp_GracePeriod = 30,
     fp_MinInterval = 60, fp_MaxInterval = 3600, fp_PowerStepThreshold = 10, fp_MaxCurrentFeeds = 300,
     fp_CooldownTime = 30, fp_MinDeviationBasisPoint = 50, fp_MaxDeviationBasisPoint = 3000,
     fp_CurrentFeedsUpdateInterval = 86400, fp_PriceQuorum = str ''0.3'', fp_MaxSignalIDsPerSigning = 25\<rparr>"

definition demo_feeds :: feeds_state where
  "demo_feeds = \<lparr>fs_votes = [], fs_total_powers = [], fs_power_index = [], fs_prices = [], fs_validator_prices = [],
     fs_current_feeds = \<lparr>cf_Feeds = [], cf_LastUpdateTimestamp = 0, cf_LastUpdateBlock = 0\<rparr>,
     fs_reference_source = \<lparr>rsc_RegistryIPFSHash = str ''[NOT_SET]'', rsc_RegistryVersion = str ''[NOT_SET]''\<rparr>,
     fs_params = demo_params\<rparr>"

definition demo_vote :: Vote where
  "demo_vote = \<lparr>vote_Voter = str ''alice'', vote_Signals =
     [\<lparr>sig_ID = str ''CS:BTC-USD'', sig_Power = 40\<rparr>, \<lparr>sig_ID = str ''CS:ETH-USD'', sig_Power = 15\<rparr>]\<rparr>"

lemma demo_feeds_laws [simp]: "address_laws (fk_sdk demo_feeds_keeper)"
  by (simp add: demo_feeds_keeper_def)

lemma demo_feeds_inv [simp]: "feeds_inv demo_feeds_keeper demo_feeds"
  by (simp add: feeds_inv_def votes_ok_def powers_ok_def demo_feeds_def powers.index_ok_empty total_power_def
      GetSignalTotalPower_def voted_def kv_sum_def in_i64_def)

lemma demo_feeds_positive [simp]: "votes_positive demo_feeds"
  by (simp add: votes_positive_def demo_feeds_def)

lemma demo_params_valid [simp]: "feeds_Params_Validate k0 demo_params = Inr ()" if "k0 = demo_feeds_keeper"
  by (simp add: that feeds_Params_Validate_def demo_params_def validateString_def validateInt64_def validateUint64_def
      demo_feeds_keeper_def str_def)

lemma demo_lock:
  assumes "SumPower signals = p" and "0 \<le> p" and "p \<le> 100"
  shows "\<exists>rs'. LockVoterPower demo_feeds_keeper demo_start (str ''alice'') signals = Inr rs'"
proof -
  have "GetTotalPower demo_keeper demo_start (str ''alice'') = Inr 100"
    by (simp add: GetTotalPower_def GetDelegationPower_def GetStakedPower_def GetStake_def demo_keeper_def demo_start_def
        restake_GetParams_def plain_AmountOf_def)
  then show ?thesis
    using SetLockedPower_Inr_iff [OF restake_lawsD(1) [OF demo_laws] demo_start_inv demo_alice, of feeds_ModuleName p] assms
    by (simp add: LockVoterPower_def demo_feeds_keeper_def IsLiquidStaker_def str_def IsUint64_def GetVault_def demo_start_def)
qed

lemma demo_vote_lock: "\<exists>rs'. LockVoterPower demo_feeds_keeper demo_start (str ''alice'') (vote_Signals demo_vote) = Inr rs'"
  by (rule demo_lock [of _ 55]) (simp_all add: SumPower_sum demo_vote_def in_i64_def)

lemma demo_restake: "rk_sdk (fk_restake demo_feeds_keeper) = fk_sdk demo_feeds_keeper" "fk_restake demo_feeds_keeper = demo_keeper"
  by (simp_all add: demo_feeds_keeper_def demo_keeper_def)

lemma vote_locked_power:
  assumes laws: "address_laws (fk_sdk k)" and sdk: "rk_sdk (fk_restake k) = fk_sdk k"
    and rinv: "restake_inv (fk_restake k) rs" and v: "valid_addr voter" and lock: "LockVoterPower k rs voter signals = Inr rs'"
  shows "restake_inv (fk_restake k) rs'" and "GetLockedPower (fk_restake k) rs' voter feeds_ModuleName = Inr (SumPower signals)"
proof -
  have rl: "address_laws (rk_sdk (fk_restake k))" using laws sdk by simp
  note locked = lock [unfolded LockVoterPower_def]
  obtain l where rinv': "restake_inv (fk_restake k) rs'" and l: "lock_Power l = SumPower signals"
    and get: "\<And>b x. valid_addr b \<Longrightarrow> GetLock (fk_restake k) rs' b x =
        (if b = voter \<and> x = feeds_ModuleName then Some l else GetLock (fk_restake k) rs b x)"
    and act: "\<And>x. IsActiveVault rs' x \<longleftrightarrow> x = feeds_ModuleName \<or> IsActiveVault rs x"
    by (rule SetLockedPower_step [OF rl rinv v locked]) blast
  have "\<not> IsLiquidStaker voter" using SetLockedPower_Inr_iff [OF rl rinv v] locked by blast
  then show "GetLockedPower (fk_restake k) rs' voter feeds_ModuleName = Inr (SumPower signals)"
    using get [OF v, of feeds_ModuleName] act [of feeds_ModuleName] l
    by (auto simp: GetLockedPower_def IsActiveVault_def split: option.splits)
  show "restake_inv (fk_restake k) rs'" by (rule rinv')
qed

text \<open>
  C11: a vote replaces the voter's signals and keeps the books: the total power of every signal is
  the sum of all votes for it (as an \<open>int64\<close>), the index by power has exactly the signals with
  power, every other vote is untouched, and the power locked for the voter in the vault \<open>feeds\<close> is
  the sum of the signals (as an \<open>int64\<close>).
\<close>

theorem vote_keeps_total_powers:
  assumes laws: "address_laws (fk_sdk k)" and sdk: "rk_sdk (fk_restake k) = fk_sdk k" and inv: "feeds_inv k s"
    and rinv: "restake_inv (fk_restake k) rs" and run: "msg_Vote k (rs, s) msg = Inr (rs', s')"
    and voter: "AccAddressFromBech32 (fk_sdk k) (vote_Voter msg) = Inr voter"
  shows "feeds_inv k s' \<and> (\<forall>x. total_power s' x = i64 (voted s' x)) \<and>
    (\<forall>b. valid_addr b \<longrightarrow> GetVote k s' b = (if b = voter then vote_Signals msg else GetVote k s b)) \<and>
    restake_inv (fk_restake k) rs' \<and>
    GetLockedPower (fk_restake k) rs' voter feeds_ModuleName = Inr (i64 (sum_list (map sig_Power (vote_Signals msg))))"
proof -
  have len: "length (vote_Signals msg) \<le> fp_MaxCurrentFeeds (fs_params s)"
    and lock: "LockVoterPower k rs voter (vote_Signals msg) = Inr rs'"
    using run voter by (auto simp: msg_Vote_def split: if_splits)
  have v: "valid_addr voter" using address_lawsD(1) [OF laws voter] .
  note locked = vote_locked_power [OF laws sdk rinv v lock]
  have "feeds_inv k s' \<and> (\<forall>b. valid_addr b \<longrightarrow> GetVote k s' b = (if b = voter then vote_Signals msg else GetVote k s b))"
    using msg_Vote_spec [OF laws inv voter len lock] run by (auto split: if_splits)
  then show ?thesis using locked by (auto simp: SumPower_sum feeds_inv_def)
qed

theorem vote_keeps_total_powers_witness:
  "\<exists>rs' s'. msg_Vote demo_feeds_keeper (demo_start, demo_feeds) demo_vote = Inr (rs', s') \<and>
    feeds_inv demo_feeds_keeper s' \<and> GetLockedPower demo_keeper rs' (str ''alice'') feeds_ModuleName = Inr 55"
proof -
  obtain rs' where lock: "LockVoterPower demo_feeds_keeper demo_start (str ''alice'') (vote_Signals demo_vote) = Inr rs'"
    using demo_vote_lock by blast
  have addr: "AccAddressFromBech32 (fk_sdk demo_feeds_keeper) (vote_Voter demo_vote) = Inr (str ''alice'')"
    by (simp add: demo_feeds_keeper_def demo_vote_def str_def)
  have len: "length (vote_Signals demo_vote) \<le> fp_MaxCurrentFeeds (fs_params demo_feeds)"
    by (simp add: demo_vote_def demo_feeds_def demo_params_def)
  have nn: "\<forall>x. 0 \<le> i64 (voted demo_feeds x - vote_power (GetVote demo_feeds_keeper demo_feeds (str ''alice'')) x
      + vote_power (vote_Signals demo_vote) x)"
    by (simp add: voted_def kv_sum_def demo_feeds_def GetVote_def vote_power_def demo_vote_def in_i64_def)
  obtain s' where run: "msg_Vote demo_feeds_keeper (demo_start, demo_feeds) demo_vote = Inr (rs', s')"
    using msg_Vote_spec [OF demo_feeds_laws demo_feeds_inv addr len lock] nn by auto
  from vote_keeps_total_powers [OF demo_feeds_laws demo_restake(1) demo_feeds_inv _ run addr] run show ?thesis
    by (simp add: demo_vote_def demo_restake(2) in_i64_def)
qed

text \<open>
  C26: when \<open>Vote\<close> succeeds: exactly for a valid voter address that is not a liquid staker, at most \<open>MaxCurrentFeeds\<close> signals, a vault of the module that is
  new or active, a sum of the voted powers, as the \<open>int64\<close> it wraps to, that is not negative and at most the voter's total power (stake and delegations), and new
  totals of every signal, again as \<open>int64\<close> values that may wrap, that are not negative.
\<close>

theorem vote_succeeds_iff:
  assumes laws: "address_laws (fk_sdk k)" and sdk: "rk_sdk (fk_restake k) = fk_sdk k" and inv: "feeds_inv k s"
    and rinv: "restake_inv (fk_restake k) rs"
  shows "is_ok (msg_Vote k (rs, s) msg) \<longleftrightarrow>
    (\<exists>voter t. AccAddressFromBech32 (fk_sdk k) (vote_Voter msg) = Inr voter \<and> \<not> IsLiquidStaker voter \<and>
       length (vote_Signals msg) \<le> fp_MaxCurrentFeeds (fs_params s) \<and>
       (GetVault rs feeds_ModuleName = None \<or> IsActiveVault rs feeds_ModuleName) \<and>
       GetTotalPower (fk_restake k) rs voter = Inr t \<and>
       0 \<le> i64 (\<Sum>sg\<leftarrow>vote_Signals msg. sig_Power sg) \<and> i64 (\<Sum>sg\<leftarrow>vote_Signals msg. sig_Power sg) \<le> t \<and>
       (\<forall>x. 0 \<le> i64 (voted s x - vote_power (GetVote k s voter) x + vote_power (vote_Signals msg) x)))"
proof (cases "AccAddressFromBech32 (fk_sdk k) (vote_Voter msg)")
  case (Inl e)
  then show ?thesis by (simp add: msg_Vote_def)
next
  case (Inr voter)
  have rl: "address_laws (rk_sdk (fk_restake k))" using laws sdk by simp
  have u: "IsUint64 (SumPower sgs) \<longleftrightarrow> 0 \<le> SumPower sgs" for sgs
    using in_i64_i64 [of "sum_list (map sig_Power sgs)"] by (simp add: IsUint64_def in_i64_def SumPower_sum)
  note lock = SetLockedPower_Inr_iff [OF rl rinv address_lawsD(1) [OF laws Inr], of feeds_ModuleName "SumPower (vote_Signals msg)",
      folded LockVoterPower_def, unfolded u]
  show ?thesis
  proof (cases "length (vote_Signals msg) \<le> fp_MaxCurrentFeeds (fs_params s) \<and> (\<exists>rs'. LockVoterPower k rs voter (vote_Signals msg) = Inr rs')")
    case True
    then obtain rs' where l: "LockVoterPower k rs voter (vote_Signals msg) = Inr rs'" by blast
    have "is_ok (msg_Vote k (rs, s) msg) \<longleftrightarrow>
        (\<forall>x. 0 \<le> i64 (voted s x - vote_power (GetVote k s voter) x + vote_power (vote_Signals msg) x))"
      using msg_Vote_spec [OF laws inv Inr True [THEN conjunct1] l] by (auto split: if_splits)
    then show ?thesis using True lock Inr unfolding SumPower_sum by auto
  next
    case False
    then have "\<not> is_ok (msg_Vote k (rs, s) msg)"
      using Inr by (cases "LockVoterPower k rs voter (vote_Signals msg)") (auto simp: msg_Vote_def)
    then show ?thesis using False lock Inr unfolding SumPower_sum by auto
  qed
qed

text \<open>An account with the power 100 can vote with 55.\<close>

theorem vote_succeeds_iff_witness: "is_ok (msg_Vote demo_feeds_keeper (demo_start, demo_feeds) demo_vote)"
proof -
  have inv: "restake_inv (fk_restake demo_feeds_keeper) demo_start" by (simp add: demo_restake(2))
  have a: "AccAddressFromBech32 (fk_sdk demo_feeds_keeper) (vote_Voter demo_vote) = Inr (str ''alice'')"
    by (simp add: demo_feeds_keeper_def demo_vote_def str_def)
  have t: "GetTotalPower (fk_restake demo_feeds_keeper) demo_start (str ''alice'') = Inr 100"
    by (simp add: demo_restake(2) GetTotalPower_def GetDelegationPower_def GetStakedPower_def GetStake_def demo_keeper_def demo_start_def
        restake_GetParams_def plain_AmountOf_def)
  have l: "\<not> IsLiquidStaker (str ''alice'')" "length (vote_Signals demo_vote) \<le> fp_MaxCurrentFeeds (fs_params demo_feeds)"
    "GetVault demo_start feeds_ModuleName = None"
    by (simp_all add: IsLiquidStaker_def str_def demo_vote_def demo_feeds_def demo_params_def GetVault_def demo_start_def)
  have s: "0 \<le> i64 (\<Sum>sg\<leftarrow>vote_Signals demo_vote. sig_Power sg)" "i64 (\<Sum>sg\<leftarrow>vote_Signals demo_vote. sig_Power sg) \<le> 100"
    by (simp_all add: demo_vote_def in_i64_def)
  have nn: "\<forall>x. 0 \<le> i64 (voted demo_feeds x - vote_power (GetVote demo_feeds_keeper demo_feeds (str ''alice'')) x
      + vote_power (vote_Signals demo_vote) x)"
    by (simp add: voted_def kv_sum_def demo_feeds_def GetVote_def vote_power_def demo_vote_def in_i64_def)
  show ?thesis
    unfolding vote_succeeds_iff [OF demo_feeds_laws demo_restake(1) demo_feeds_inv inv] using a l t s nn by blast
qed

text \<open>
  C28: an \<open>int64\<close> overflow in \<open>SumPower\<close>. Four signals of power \<open>2 ^ 62\<close> pass \<open>ValidateBasic\<close>,
  their sum wraps around to zero, and the vote locks no power: an account without any power can
  give a signal the total power \<open>2 ^ 62\<close>.
\<close>

definition overflow_vote :: Vote where
  "overflow_vote = \<lparr>vote_Voter = str ''alice'', vote_Signals =
     map (\<lambda>x. \<lparr>sig_ID = x, sig_Power = 2 ^ 62\<rparr>) [str ''a'', str ''b'', str ''c'', str ''d'']\<rparr>"

theorem SumPower_overflow:
  "MsgVote_ValidateBasic (fk_sdk demo_feeds_keeper) overflow_vote = Inr () \<and> SumPower (vote_Signals overflow_vote) = 0 \<and>
   (case msg_Vote demo_feeds_keeper (demo_start, demo_feeds) overflow_vote of
      Inr (rs, s) \<Rightarrow> GetLockedPower demo_keeper rs (str ''alice'') feeds_ModuleName = Inr 0 \<and> total_power s (str ''a'') = 2 ^ 62
    | Inl _ \<Rightarrow> False)"
proof -
  have sum: "SumPower (vote_Signals overflow_vote) = 0"
    by (simp add: SumPower_sum overflow_vote_def i64_def)
  obtain rs where lock: "LockVoterPower demo_feeds_keeper demo_start (str ''alice'') (vote_Signals overflow_vote) = Inr rs"
    using demo_lock [OF sum] by auto
  have addr: "AccAddressFromBech32 (fk_sdk demo_feeds_keeper) (vote_Voter overflow_vote) = Inr (str ''alice'')"
    by (simp add: demo_feeds_keeper_def overflow_vote_def str_def)
  have len: "length (vote_Signals overflow_vote) \<le> fp_MaxCurrentFeeds (fs_params demo_feeds)"
    by (simp add: overflow_vote_def demo_feeds_def demo_params_def)
  have v0: "voted demo_feeds x - vote_power (GetVote demo_feeds_keeper demo_feeds (str ''alice'')) x = 0" for x
    by (simp add: voted_def kv_sum_def demo_feeds_def GetVote_def vote_power_def)
  have vp: "vote_power (vote_Signals overflow_vote) x \<in> {0, 2 ^ 62}" "vote_power (vote_Signals overflow_vote) (str ''a'') = 2 ^ 62" for x
    by (auto simp: vote_power_def overflow_vote_def str_def)
  have nn: "\<forall>x. 0 \<le> i64 (vote_power (vote_Signals overflow_vote) x)"
  proof
    fix x show "0 \<le> i64 (vote_power (vote_Signals overflow_vote) x)"
      using vp(1) [of x] by (elim insertE) (simp_all add: in_i64_def)
  qed
  obtain s where run: "msg_Vote demo_feeds_keeper (demo_start, demo_feeds) overflow_vote = Inr (rs, s)"
    and s: "feeds_inv demo_feeds_keeper s" "\<forall>x. voted s x = vote_power (vote_Signals overflow_vote) x"
    using msg_Vote_spec [OF demo_feeds_laws demo_feeds_inv addr len lock, unfolded v0] nn by auto
  have "total_power s (str ''a'') = 2 ^ 62" using s vp(2) by (simp add: feeds_inv_def in_i64_def)
  moreover have "GetLockedPower demo_keeper rs (str ''alice'') feeds_ModuleName = Inr 0"
    using vote_locked_power(2) [OF demo_feeds_laws demo_restake(1) _ demo_alice lock] by (simp add: demo_restake(2) sum)
  moreover have "MsgVote_ValidateBasic (fk_sdk demo_feeds_keeper) overflow_vote = Inr ()"
    by (simp add: MsgVote_ValidateBasic_def overflow_vote_def demo_feeds_keeper_def str_def validate_signals_def Signal_Validate_def
        MaxSignalIDCharacters_def)
  ultimately show ?thesis using run sum by simp
qed

text \<open>
  The ranking of signals is right: \<open>GetSignalTotalPowersByPower\<close> returns distinct signals with
  their total powers, in falling order of power, \<open>limit\<close> of them or all there are, and no signal
  left out has more power than one returned.
\<close>

theorem GetSignalTotalPowersByPower_correct:
  assumes "feeds_inv k s" and "limit < 2 ^ 63"
  shows "\<exists>sgs. GetSignalTotalPowersByPower s limit = Inr sgs \<and> distinct (map sig_ID sgs) \<and>
    (\<forall>sg\<in>set sgs. sig_Power sg = total_power s (sig_ID sg) \<and> 0 < sig_Power sg) \<and>
    sorted_wrt (\<lambda>a b. sig_Power b \<le> sig_Power a) sgs \<and>
    length sgs = min limit (card {x. 0 < total_power s x}) \<and>
    (\<forall>x. x \<notin> sig_ID ` set sgs \<longrightarrow> total_power s x = 0 \<or>
       length sgs = limit \<and> (\<forall>sg\<in>set sgs. total_power s x \<le> sig_Power sg))"
proof -
  have ok: "powers_ok s" using assms(1) by (simp add: feeds_inv_def)
  obtain all where run: "GetSignalTotalPowersByPower s limit = Inr (take limit all)"
    and all: "set all = {sg. GetSignalTotalPower s (sig_ID sg) = Inr sg}" and dist: "distinct (map sig_ID all)"
    and desc: "sorted_wrt (\<lambda>a b. sig_Power b \<le> sig_Power a) all"
    by (rule GetSignalTotalPowersByPower_spec [OF ok assms(2)])
  have mem: "sig_Power sg = total_power s (sig_ID sg) \<and> 0 < sig_Power sg" if "sg \<in> set all" for sg
    using that GetSignalTotalPower_Inr(2) [OF ok, of "sig_ID sg" sg] by (auto simp: all total_power_def signal_good_def)
  have ids: "sig_ID ` set all = {x. 0 < total_power s x}"
  proof (intro subset_antisym subsetI)
    fix x assume "x \<in> {x. 0 < total_power s x}"
    then obtain sg where sg: "GetSignalTotalPower s x = Inr sg" by (auto simp: total_power_def split: sum.splits)
    have "sig_ID sg = x" using GetSignalTotalPower_Inr(1) [OF ok sg] .
    then show "x \<in> sig_ID ` set all" using sg unfolding all by blast
  next
    fix x assume "x \<in> sig_ID ` set all"
    then obtain sg where "sg \<in> set all" "x = sig_ID sg" by blast
    then show "x \<in> {x. 0 < total_power s x}" using mem [of sg] by simp
  qed
  have len: "length all = card {x. 0 < total_power s x}"
    using distinct_card [OF dist] by (simp add: ids)
  have rest: "total_power s x = 0 \<or> length (take limit all) = limit \<and> (\<forall>sg\<in>set (take limit all). total_power s x \<le> sig_Power sg)"
    if x: "x \<notin> sig_ID ` set (take limit all)" for x
  proof (cases "0 < total_power s x")
    case True
    then obtain sg where sg: "sg \<in> set all" "sig_ID sg = x" using ids by (metis (mono_tags) imageE mem_Collect_eq)
    then have d: "sg \<in> set (drop limit all)" using x by (metis append_take_drop_id Un_iff image_eqI set_append)
    then have "limit < length all" by (cases "limit < length all") auto
    moreover have "sig_Power sg \<le> sig_Power t" if "t \<in> set (take limit all)" for t
    proof -
      have "sorted_wrt (\<lambda>a b. sig_Power b \<le> sig_Power a) (take limit all @ drop limit all)" using desc by simp
      then show ?thesis using that d unfolding sorted_wrt_append by blast
    qed
    moreover have "total_power s x = sig_Power sg" using mem [OF sg(1)] sg(2) by simp
    ultimately show ?thesis by simp
  next
    case False
    then show ?thesis using total_power_range [OF ok, of x] by auto
  qed
  have "sorted_wrt (\<lambda>a b. sig_Power b \<le> sig_Power a) (take limit all)" using desc by (rule sorted_wrt_take)
  then show ?thesis
    using run mem len rest dist by (intro exI [of _ "take limit all"]) (auto simp: take_map [symmetric] dest: in_set_takeD)
qed

theorem GetSignalTotalPowersByPower_correct_witness:
  "\<exists>sgs. GetSignalTotalPowersByPower demo_feeds 3 = Inr sgs \<and> distinct (map sig_ID sgs)"
  using GetSignalTotalPowersByPower_correct [OF demo_feeds_inv, of 3] by auto

text \<open>
  With valid parameters \<open>CalculateInterval\<close> and \<open>CalculateDeviation\<close> never divide by zero:
  below one power step the result is zero, from then on it lies between the minimum and the larger
  of both bounds, and more power never gives a longer interval or a larger deviation.
\<close>

theorem CalculateInterval_correct:
  assumes "0 < st" and "in_i64 pw" and "in_i64 pw'" and "pw \<le> pw'" and "0 < mn" and "0 < mx" and "in_i64 mx"
  shows "\<exists>i j. CalculateInterval pw st mn mx = Inr i \<and> CalculateInterval pw' st mn mx = Inr j \<and>
    CalculateDeviation pw st mn mx = Inr i \<and> CalculateDeviation pw' st mn mx = Inr j \<and>
    (i = 0 \<longleftrightarrow> pw < st) \<and> (st \<le> pw \<longrightarrow> mn \<le> i \<and> i \<le> max mn mx \<and> j \<le> i)"
proof -
  let ?i = "\<lambda>p. if p < st then 0 else max (mx div (p div st)) mn"
  have run: "CalculateInterval p st mn mx = Inr (?i p)" if "in_i64 p" for p
    using CalculateInterval_Inr [of st p mx mn] assms that by (simp add: in_i64_def)
  have "CalculateDeviation p st mn mx = CalculateInterval p st mn mx" for p
    by (simp add: CalculateDeviation_def CalculateInterval_def)
  moreover have "mx div (pw' div st) \<le> mx div (pw div st)" "mx div (pw div st) \<le> mx" if "st \<le> pw"
  proof -
    have q: "1 \<le> pw div st" "mx div (pw div st) \<le> mx" using step_quotient(2,5) [of st pw mx] assms that by (auto simp: in_i64_def)
    then show "mx div (pw div st) \<le> mx" by simp
    show "mx div (pw' div st) \<le> mx div (pw div st)"
      using assms q zdiv_mono1 [of pw pw' st] by (intro zdiv_mono2) auto
  qed
  ultimately show ?thesis
    using run [OF assms(2)] run [OF assms(3)] assms by (intro exI [of _ "?i pw"] exI [of _ "?i pw'"]) auto
qed

theorem CalculateInterval_correct_witness:
  "\<exists>i j. CalculateInterval 25 10 60 3600 = Inr i \<and> CalculateInterval 95 10 60 3600 = Inr j \<and> j \<le> i \<and> i \<le> 3600"
  using CalculateInterval_correct [of 10 25 95 60 3600] by (auto simp: in_i64_def)

text \<open>
  C27: the new current feeds are the most voted signals. With valid parameters computing them never fails; every feed is a signal with its total power, at least the power step, and with the
  interval this power gives, within the bounds; no signal occurs twice, powers fall along the list, there are at most \<open>MaxCurrentFeeds\<close>, and a signal with at least the power step is
  left out only if all \<open>MaxCurrentFeeds\<close> places are taken by signals with no less power.
\<close>

theorem CalculateNewCurrentFeeds_correct:
  assumes "feeds_inv k s" and "feeds_Params_Validate k (fs_params s) = Inr ()" and "params_typed (fs_params s)"
  shows "\<exists>feeds. CalculateNewCurrentFeeds s = Inr feeds \<and>
    distinct (map feed_SignalID feeds) \<and> length feeds \<le> fp_MaxCurrentFeeds (fs_params s) \<and>
    sorted_wrt (\<lambda>f g. feed_Power g \<le> feed_Power f) feeds \<and>
    (\<forall>f\<in>set feeds. feed_Power f = total_power s (feed_SignalID f) \<and> fp_PowerStepThreshold (fs_params s) \<le> feed_Power f \<and>
       feed_Interval f = max (fp_MaxInterval (fs_params s) div (feed_Power f div fp_PowerStepThreshold (fs_params s))) (fp_MinInterval (fs_params s)) \<and>
       fp_MinInterval (fs_params s) \<le> feed_Interval f \<and>
       feed_Interval f \<le> max (fp_MinInterval (fs_params s)) (fp_MaxInterval (fs_params s))) \<and>
    (\<forall>x. x \<notin> feed_SignalID ` set feeds \<longrightarrow> fp_PowerStepThreshold (fs_params s) \<le> total_power s x \<longrightarrow>
       length feeds = fp_MaxCurrentFeeds (fs_params s) \<and> (\<forall>f\<in>set feeds. total_power s x \<le> feed_Power f))"
proof -
  let ?p = "fs_params s"
  have ok: "powers_ok s" using assms(1) by (simp add: feeds_inv_def)
  have lim: "fp_MaxCurrentFeeds ?p < 2 ^ 63" using assms(3) by (simp add: params_typed_def)
  obtain all where run: "GetSignalTotalPowersByPower s (fp_MaxCurrentFeeds ?p) = Inr (take (fp_MaxCurrentFeeds ?p) all)"
    and all: "set all = {sg. GetSignalTotalPower s (sig_ID sg) = Inr sg}" and dist: "distinct (map sig_ID all)"
    and desc: "sorted_wrt (\<lambda>a b. sig_Power b \<le> sig_Power a) all"
    by (rule GetSignalTotalPowersByPower_spec [OF ok lim])
  define sgs where "sgs = take (fp_MaxCurrentFeeds ?p) all"
  have mem: "signal_good sg \<and> sig_Power sg = total_power s (sig_ID sg)" if "sg \<in> set all" for sg
    using that GetSignalTotalPower_Inr(2) [OF ok, of "sig_ID sg" sg] all by (auto simp: total_power_def)
  have sub: "set sgs \<subseteq> set all" by (auto simp: sgs_def dest: in_set_takeD)
  define sel where "sel = filter (\<lambda>sg. fp_PowerStepThreshold ?p \<le> sig_Power sg) sgs"
  have new: "CalculateNewCurrentFeeds s = Inr (map (feed_of ?p) sel)"
    unfolding sel_def
    by (rule CalculateNewCurrentFeeds_spec [OF ok assms(2,3) run [folded sgs_def]]) (use mem sub signal_good_def in blast)
  note pos = feeds_Params_ValidateD [OF assms(2)]
  have iv: "feed_Interval (feed_of ?p sg) \<le> max (fp_MinInterval ?p) (fp_MaxInterval ?p)" if "sg \<in> set sel" for sg
    using that mem [of sg] sub step_quotient(5) [of "fp_PowerStepThreshold ?p" "sig_Power sg" "fp_MaxInterval ?p"] pos assms(3)
    by (auto simp: sel_def feed_of_def signal_good_def params_typed_def in_i64_def le_max_iff_disj)
  have d: "distinct (map feed_SignalID (map (feed_of ?p) sel))"
  proof -
    have "distinct (map sig_ID sgs)" using dist by (simp add: sgs_def take_map [symmetric])
    then show ?thesis by (simp add: sel_def feed_of_def o_def distinct_map_filter)
  qed
  have l: "length (map (feed_of ?p) sel) \<le> fp_MaxCurrentFeeds ?p"
    using length_filter_le [of "\<lambda>sg. fp_PowerStepThreshold ?p \<le> sig_Power sg" sgs] by (simp add: sel_def sgs_def)
  have srt: "sorted_wrt (\<lambda>f g. feed_Power g \<le> feed_Power f) (map (feed_of ?p) sel)"
    using desc by (simp add: sel_def sgs_def sorted_wrt_map feed_of_def sorted_wrt_filter sorted_wrt_take)
  have rest: "length (map (feed_of ?p) sel) = fp_MaxCurrentFeeds ?p \<and> (\<forall>f\<in>set (map (feed_of ?p) sel). total_power s x \<le> feed_Power f)"
    if out: "x \<notin> feed_SignalID ` set (map (feed_of ?p) sel)" and big: "fp_PowerStepThreshold ?p \<le> total_power s x" for x
  proof -
    have "0 < total_power s x" using big pos(3) by linarith
    then obtain sg where sg: "GetSignalTotalPower s x = Inr sg" "total_power s x = sig_Power sg" by (auto simp: total_power_def split: sum.splits)
    have id: "sig_ID sg = x" by (rule GetSignalTotalPower_Inr(1) [OF ok sg(1)])
    then have "sg \<in> set all" using sg(1) by (simp add: all)
    moreover have "sg \<notin> set sgs" using out big sg(2) id by (force simp: sel_def feed_of_def)
    ultimately have dr: "sg \<in> set (drop (fp_MaxCurrentFeeds ?p) all)"
      by (metis append_take_drop_id Un_iff set_append sgs_def)
    have ge: "sig_Power sg \<le> sig_Power t" if "t \<in> set sgs" for t
    proof -
      have "sorted_wrt (\<lambda>a b. sig_Power b \<le> sig_Power a) (sgs @ drop (fp_MaxCurrentFeeds ?p) all)" using desc by (simp add: sgs_def)
      then show ?thesis using that dr unfolding sorted_wrt_append by blast
    qed
    have "fp_MaxCurrentFeeds ?p < length all" using dr by (cases "fp_MaxCurrentFeeds ?p < length all") auto
    then have "length sgs = fp_MaxCurrentFeeds ?p" by (simp add: sgs_def)
    moreover have "sel = sgs" unfolding sel_def filter_id_conv using ge big sg(2) by fastforce
    ultimately show ?thesis using ge sg(2) by (auto simp: feed_of_def)
  qed
  show ?thesis
    using new d l srt iv mem sub rest
    by (intro exI [of _ "map (feed_of ?p) sel"] conjI) (auto simp: sel_def feed_of_def)
qed

text \<open>The state after a vote for two signals, both above the power step.\<close>

definition demo_voted :: feeds_state where
  "demo_voted = (case msg_Vote demo_feeds_keeper (demo_start, demo_feeds) demo_vote of Inr (_, s) \<Rightarrow> s | Inl _ \<Rightarrow> demo_feeds)"

lemma demo_voted_facts:
  "feeds_inv demo_feeds_keeper demo_voted" "fs_params demo_voted = demo_params" "voted demo_voted x = vote_power (vote_Signals demo_vote) x"
proof -
  obtain rs' where lock: "LockVoterPower demo_feeds_keeper demo_start (str ''alice'') (vote_Signals demo_vote) = Inr rs'"
    using demo_vote_lock by blast
  have addr: "AccAddressFromBech32 (fk_sdk demo_feeds_keeper) (vote_Voter demo_vote) = Inr (str ''alice'')"
    by (simp add: demo_feeds_keeper_def demo_vote_def str_def)
  have len: "length (vote_Signals demo_vote) \<le> fp_MaxCurrentFeeds (fs_params demo_feeds)"
    by (simp add: demo_vote_def demo_feeds_def demo_params_def)
  have v0: "voted demo_feeds x - vote_power (GetVote demo_feeds_keeper demo_feeds (str ''alice'')) x = 0" for x
    by (simp add: voted_def kv_sum_def demo_feeds_def GetVote_def vote_power_def)
  have "\<forall>x. 0 \<le> i64 (vote_power (vote_Signals demo_vote) x)" by (simp add: vote_power_def demo_vote_def in_i64_def)
  then obtain s' where s': "msg_Vote demo_feeds_keeper (demo_start, demo_feeds) demo_vote = Inr (rs', s')" "feeds_inv demo_feeds_keeper s'"
      "\<forall>x. voted s' x = vote_power (vote_Signals demo_vote) x" "fs_params s' = fs_params demo_feeds"
    using msg_Vote_spec [OF demo_feeds_laws demo_feeds_inv addr len lock, unfolded v0] by auto
  then show "feeds_inv demo_feeds_keeper demo_voted" "fs_params demo_voted = demo_params" "voted demo_voted x = vote_power (vote_Signals demo_vote) x"
    by (simp_all add: demo_voted_def demo_feeds_def)
qed

lemma demo_voted_power: "total_power demo_voted x = (if x = str ''CS:BTC-USD'' then 40 else if x = str ''CS:ETH-USD'' then 15 else 0)"
proof -
  have "total_power demo_voted x = i64 (vote_power (vote_Signals demo_vote) x)"
    using demo_voted_facts(1) unfolding feeds_inv_def demo_voted_facts(3) by blast
  then show ?thesis by (simp add: vote_power_def demo_vote_def in_i64_def str_def)
qed

theorem CalculateNewCurrentFeeds_correct_witness:
  "\<exists>feeds. CalculateNewCurrentFeeds demo_voted = Inr feeds \<and> feed_SignalID ` set feeds = {str ''CS:BTC-USD'', str ''CS:ETH-USD''} \<and>
     (\<forall>f\<in>set feeds. feed_Power f = total_power demo_voted (feed_SignalID f))"
proof -
  have v: "feeds_Params_Validate demo_feeds_keeper (fs_params demo_voted) = Inr ()" using demo_voted_facts(2) by simp
  have ty: "params_typed (fs_params demo_voted)" by (simp add: demo_voted_facts(2) demo_params_def params_typed_def in_i64_def)
  obtain feeds where run: "CalculateNewCurrentFeeds demo_voted = Inr feeds" and dist: "distinct (map feed_SignalID feeds)"
    and mem: "\<forall>f\<in>set feeds. feed_Power f = total_power demo_voted (feed_SignalID f) \<and> 10 \<le> feed_Power f"
    and out: "\<forall>x. x \<notin> feed_SignalID ` set feeds \<longrightarrow> 10 \<le> total_power demo_voted x \<longrightarrow> length feeds = 300"
    using CalculateNewCurrentFeeds_correct [OF demo_voted_facts(1) v ty] by (auto simp: demo_voted_facts(2) demo_params_def)
  let ?ids = "{str ''CS:BTC-USD'', str ''CS:ETH-USD''}"
  have sub: "feed_SignalID ` set feeds \<subseteq> ?ids" using mem by (fastforce simp: demo_voted_power split: if_splits)
  have "length feeds = card (feed_SignalID ` set feeds)" using distinct_card [OF dist] by simp
  also have "\<dots> \<le> card ?ids" using sub by (intro card_mono) auto
  also have "\<dots> \<le> 2" by (simp add: card_insert_if)
  finally have "length feeds \<noteq> 300" by simp
  then have "x \<in> feed_SignalID ` set feeds" if "x \<in> ?ids" for x using out that by (auto simp: demo_voted_power split: if_splits)
  then show ?thesis using run mem sub by blast
qed

end
