(* ===== verification/Validator_Status.thy ===== *)
theory Validator_Status
  imports Sdk
begin

text \<open>
  The oracle status of a validator (\<open>x/oracle/keeper/validator_status.go\<close>): active validators
  may be asked for data and must report; one that misses a report is deactivated and may come
  back only after a penalty. \<open>x/feeds\<close> uses the same status.
\<close>

section \<open>Time\<close>

text \<open>
  A Go \<open>time.Time\<close> is a number of nanoseconds since the Unix epoch; the zero value is the first
  day of year 1. A \<open>time.Duration\<close> is an \<open>int64\<close> of nanoseconds.
\<close>

type_synonym time = int

definition zero_time :: time where
  "zero_time = - 62135596800 * 10 ^ 9"

definition Unix :: "time \<Rightarrow> int64" where
  "Unix t = t div 10 ^ 9"

lemma Unix_mono: "s \<le> t \<Longrightarrow> Unix s \<le> Unix t"
  by (simp add: Unix_def zdiv_mono1)

section \<open>The status store\<close>

record ValidatorStatus =
  vs_IsActive :: bool
  vs_Since :: time

type_synonym status_store = "(bytes, ValidatorStatus) kv"

definition ErrValidatorAlreadyActive :: error where "ErrValidatorAlreadyActive = Registered ''oracle'' 16"
definition ErrTooSoonToActivate :: error where "ErrTooSoonToActivate = Registered ''oracle'' 17"

definition ValidatorStatusStoreKey :: "bytes \<Rightarrow> bytes" where
  "ValidatorStatusStoreKey v = [0x05] @ v"

definition GetValidatorStatus :: "status_store \<Rightarrow> bytes \<Rightarrow> ValidatorStatus" where
  "GetValidatorStatus m val =
     (case kv_get m (ValidatorStatusStoreKey val) of
        None \<Rightarrow> \<lparr>vs_IsActive = False, vs_Since = zero_time\<rparr> | Some status \<Rightarrow> status)"

definition SetValidatorStatus :: "status_store \<Rightarrow> bytes \<Rightarrow> ValidatorStatus \<Rightarrow> status_store" where
  "SetValidatorStatus m val status = kv_set m (ValidatorStatusStoreKey val) status"

text \<open>The block time and the parameter \<open>InactivePenaltyDuration\<close> come from the context.\<close>

definition Activate :: "uint64 \<Rightarrow> time \<Rightarrow> status_store \<Rightarrow> bytes \<Rightarrow> status_store result" where
  "Activate inactivePenaltyDuration blockTime m val =
     (let status = GetValidatorStatus m val in
      if vs_IsActive status then Inl ErrValidatorAlreadyActive
      else
        let penaltyDuration = i64 (int inactivePenaltyDuration) in
        if vs_Since status \<noteq> zero_time \<and> vs_Since status + penaltyDuration > blockTime then Inl ErrTooSoonToActivate
        else Inr (SetValidatorStatus m val \<lparr>vs_IsActive = True, vs_Since = blockTime\<rparr>))"

definition MissReport :: "time \<Rightarrow> status_store \<Rightarrow> bytes \<Rightarrow> time \<Rightarrow> status_store" where
  "MissReport blockTime m val requestTime =
     (let status = GetValidatorStatus m val in
      if vs_IsActive status \<and> vs_Since status < requestTime
      then SetValidatorStatus m val \<lparr>vs_IsActive = False, vs_Since = blockTime\<rparr>
      else m)"

lemma GetValidatorStatus_Set [simp]:
  "GetValidatorStatus (SetValidatorStatus m v st) w = (if w = v then st else GetValidatorStatus m w)"
  by (simp add: GetValidatorStatus_def SetValidatorStatus_def ValidatorStatusStoreKey_def)

lemma GetValidatorStatus_MissReport:
  "GetValidatorStatus (MissReport bt m v rt) w =
     (if w = v \<and> vs_IsActive (GetValidatorStatus m v) \<and> vs_Since (GetValidatorStatus m v) < rt
      then \<lparr>vs_IsActive = False, vs_Since = bt\<rparr> else GetValidatorStatus m w)"
  by (auto simp: MissReport_def Let_def)

section \<open>Histories\<close>

text \<open>
  A history of one chain: blocks have non-decreasing times, and at each block a validator may
  activate itself or be reported for a request made at an earlier time.
\<close>

inductive status_run :: "uint64 \<Rightarrow> time \<times> status_store \<Rightarrow> time \<times> status_store \<Rightarrow> bool" for dur where
  run_refl: "status_run dur s s"
| run_block: "status_run dur s (t, m) \<Longrightarrow> t \<le> t' \<Longrightarrow> status_run dur s (t', m)"
| run_activate: "status_run dur s (t, m) \<Longrightarrow> Activate dur t m v = Inr m' \<Longrightarrow> status_run dur s (t, m')"
| run_miss: "status_run dur s (t, m) \<Longrightarrow> rt \<le> t \<Longrightarrow> status_run dur s (t, MissReport t m v rt)"

text \<open>
  C29: a validator deactivated at time \<open>t\<close> is inactive in every later state before
  \<open>t + InactivePenaltyDuration\<close>: nothing but the end of the penalty lets it back.
\<close>

theorem deactivated_until_penalty_ends:
  assumes "status_run dur (t, m) (t', m')" and "GetValidatorStatus m v = \<lparr>vs_IsActive = False, vs_Since = t\<rparr>"
    and "t \<noteq> zero_time" and "t' < t + i64 (int dur)"
  shows "GetValidatorStatus m' v = \<lparr>vs_IsActive = False, vs_Since = t\<rparr>"
  using assms
proof (induction "(t, m)" "(t', m')" arbitrary: t' m' rule: status_run.induct)
  case (run_activate t0 m0 w m1)
  then have st: "GetValidatorStatus m0 v = \<lparr>vs_IsActive = False, vs_Since = t\<rparr>" by blast
  have "w \<noteq> v" using run_activate.hyps(3) run_activate.prems st by (auto simp: Activate_def Let_def split: if_splits)
  then show ?case using run_activate.hyps(3) st by (auto simp: Activate_def Let_def split: if_splits)
next
  case (run_miss t0 m0 rt w)
  then show ?case by (auto simp: GetValidatorStatus_MissReport)
qed auto

theorem deactivated_until_penalty_ends_witness:
  "GetValidatorStatus (MissReport 900 (SetValidatorStatus [] (str ''val'') \<lparr>vs_IsActive = False, vs_Since = 500\<rparr>) (str ''val'') 800)
     (str ''val'') = \<lparr>vs_IsActive = False, vs_Since = 500\<rparr>"
proof (rule deactivated_until_penalty_ends)
  let ?m = "SetValidatorStatus [] (str ''val'') \<lparr>vs_IsActive = False, vs_Since = 500\<rparr>"
  show "status_run 1000 (500, ?m) (900, MissReport 900 ?m (str ''val'') 800)"
    by (rule run_miss, rule run_block, rule run_refl) simp_all
qed (simp_all add: zero_time_def in_i64_def)

text \<open>
  The branches of \<open>Activate\<close> and \<open>MissReport\<close>. Activation succeeds exactly for an inactive
  validator that never had a status or whose penalty is over, and a report miss deactivates
  exactly an active validator that was active before the request; both change no other validator.
\<close>

theorem validator_status_transitions:
  "(case Activate dur bt m v of
      Inr m' \<Rightarrow> \<not> vs_IsActive (GetValidatorStatus m v) \<and>
        (vs_Since (GetValidatorStatus m v) = zero_time \<or> vs_Since (GetValidatorStatus m v) + i64 (int dur) \<le> bt) \<and>
        GetValidatorStatus m' v = \<lparr>vs_IsActive = True, vs_Since = bt\<rparr> \<and>
        (\<forall>w. w \<noteq> v \<longrightarrow> GetValidatorStatus m' w = GetValidatorStatus m w)
    | Inl e \<Rightarrow>
        if e = ErrValidatorAlreadyActive then vs_IsActive (GetValidatorStatus m v)
        else e = ErrTooSoonToActivate \<and> \<not> vs_IsActive (GetValidatorStatus m v) \<and>
          bt < vs_Since (GetValidatorStatus m v) + i64 (int dur)) \<and>
   (vs_IsActive (GetValidatorStatus (MissReport bt m v rt) v) \<longleftrightarrow>
      vs_IsActive (GetValidatorStatus m v) \<and> rt \<le> vs_Since (GetValidatorStatus m v)) \<and>
   (\<forall>w. w \<noteq> v \<longrightarrow> GetValidatorStatus (MissReport bt m v rt) w = GetValidatorStatus m w)"
  by (auto simp: Activate_def Let_def GetValidatorStatus_MissReport ErrValidatorAlreadyActive_def ErrTooSoonToActivate_def)

theorem validator_status_transitions_witness:
  "\<not> vs_IsActive (GetValidatorStatus (MissReport 9 (SetValidatorStatus [] (str ''val'') \<lparr>vs_IsActive = True, vs_Since = 5\<rparr>) (str ''val'') 8) (str ''val''))"
  using validator_status_transitions [where m = "SetValidatorStatus [] (str ''val'') \<lparr>vs_IsActive = True, vs_Since = 5\<rparr>" and v = "str ''val''" and bt = 9 and rt = 8,
      THEN conjunct2, THEN conjunct1]
  by simp

end
