(* ===== verification/Tickmath.thy ===== *)
theory Tickmath
  imports Complex_Main Band_Prelude
begin

text \<open>
  The package \<open>pkg/tickmath\<close>: prices on a logarithmic grid. A tick \<open>t\<close> stands for the price
  \<open>1.0001 ^ t\<close>; \<open>tickToPriceX96\<close> computes it in fixed point with 96 bits by multiplying
  precomputed powers, \<open>PriceToTick\<close> finds a tick by an iterated binary logarithm in \<open>uint64\<close>
  arithmetic, whose products wrap around at 64 bits. \<open>big.Int\<close> values are unbounded naturals.
\<close>

unbundle bit_operations_syntax

section \<open>Definitions\<close>

definition MaxTick :: int64 where "MaxTick = 262143"
definition MinTick :: int64 where "MinTick = - MaxTick"
definition Offset :: int64 where "Offset = 262144"

definition q96 :: nat where "q96 = 2 ^ 96"
definition maxUint192 :: nat where "maxUint192 = 2 ^ 192 - 1"
definition maxUint64 :: nat where "maxUint64 = 2 ^ 64 - 1"
definition billion :: nat where "billion = 1000000000"

definition priceX96AtBinaryTicks :: "nat list" where
  "priceX96AtBinaryTicks =
     [0xfff97272373d413259a46990, 0xfff2e50f5f656932ef12357c, 0xffe5caca7e10e4e61c3624ea,
      0xffcb9843d60f6159c9db5883, 0xff973b41fa98c081472e6896, 0xff2ea16466c96a3843ec78b3,
      0xfe5dee046a99a2a811c461f1, 0xfcbe86c7900a88aedcffc83b, 0xf987a7253ac413176f2b074c,
      0xf3392b0822b70005940c7a39, 0xe7159475a2c29b7443b29c7f, 0xd097f3bdfd2022b8845ad8f7,
      0xa9f746462d870fdf8a65dc1f, 0x70d869a156d2a1b890bb3df6, 0x31be135f97d08fd981231505,
      0x9aa508b5b7a84e1c677de54, 0x5d6af8dedb81196699c329, 0x2216e584f5fa1ea92604]"

definition mulShift :: "nat \<Rightarrow> nat \<Rightarrow> nat" where
  "mulShift val mulBy = drop_bit 96 (val * mulBy)"

definition tick_step :: "int64 \<Rightarrow> nat \<Rightarrow> nat \<times> nat \<Rightarrow> nat" where
  "tick_step absTick priceX96 = (\<lambda>(i, pX96). if absTick AND push_bit i 1 \<noteq> 0 then mulShift priceX96 pX96 else priceX96)"

definition tickToPriceX96 :: "int64 \<Rightarrow> nat result" where
  "tickToPriceX96 tick =
     (if tick > MaxTick \<or> tick < MinTick then Inl (Errorf ''tick out of range'')
      else
        let absTick = (if tick < 0 then - tick else tick);
            priceX96 = foldl (tick_step absTick) q96 (enumerate 0 priceX96AtBinaryTicks) in
        if tick > 0 then
          (if priceX96 = 0 then Inl (Panic ''division by zero'') else Inr (maxUint192 div priceX96 * billion))
        else Inr (priceX96 * billion))"

definition TickToPrice :: "int64 \<Rightarrow> uint64 result" where
  "TickToPrice tick =
     bindE (tickToPriceX96 tick) (\<lambda>priceX96.
       let price = priceX96 div q96 in
       if price \<le> 0 then Inl (Errorf ''price out of range'')
       else
         let price = (if priceX96 mod q96 > 0 \<and> priceX96 * 10001 div 10000 div q96 > price then price + 1 else price) in
         if price > maxUint64 then Inl (Errorf ''price out of range'') else Inr price)"

text \<open>The position of the most significant bit, by halving the range of positions.\<close>

fun msb_loop :: "uint64 list \<Rightarrow> uint64 \<Rightarrow> uint64 \<Rightarrow> uint64 \<times> uint64" where
  "msb_loop [] msb p = (msb, p)"
| "msb_loop (b # bits) msb p =
     (if p > b then let n = push_bit (length bits) 1 in msb_loop bits (u64 (msb + n)) (drop_bit n p)
      else msb_loop bits msb p)"

definition msb_of :: "uint64 \<Rightarrow> uint64" where
  "msb_of price = fst (msb_loop [4294967295, 65535, 255, 15, 3, 1] 0 price)"

definition mantissa :: "uint64 \<Rightarrow> uint64 \<Rightarrow> uint64" where
  "mantissa price msb = (if msb \<ge> 32 then drop_bit (msb - 31) price else u64 (push_bit (31 - msb) price))"

text \<open>Sixteen fractional bits of the logarithm, by repeated squaring of the mantissa.\<close>

fun log2_loop :: "nat \<Rightarrow> uint64 \<Rightarrow> int64 \<Rightarrow> int64" where
  "log2_loop 0 r log2 = log2"
| "log2_loop (Suc n) r log2 =
     (let r = drop_bit 31 (u64 (r * r));
          f = drop_bit 32 r in
      log2_loop n (drop_bit f r) (log2 OR i64 (push_bit n (int f))))"

definition price_log2 :: "uint64 \<Rightarrow> int64" where
  "price_log2 price = (let msb = msb_of price in log2_loop 16 (mantissa price msb) (i64 (push_bit 16 (int msb))))"

definition approx_tick :: "uint64 \<Rightarrow> int64" where
  "approx_tick price = (let log1p0001 = i64 (i64 (price_log2 price - 1959352) * 454283648) in drop_bit 32 log1p0001)"

definition PriceToTick :: "uint64 \<Rightarrow> uint64 result" where
  "PriceToTick price =
     (if price = 0 then Inl (Errorf ''price must be greater than 0'')
      else
        let tick = approx_tick price in
        if tick > MaxTick \<or> tick < MinTick then Inl (Errorf ''tick out of range'')
        else
          let expectPriceX96 = price * q96;
              fits = (\<lambda>t. case tickToPriceX96 t of Inl _ \<Rightarrow> False | Inr pX96 \<Rightarrow> pX96 \<le> expectPriceX96) in
          if fits (tick + 1) then Inr (to_uint64 (tick + 1 + Offset))
          else if fits tick then Inr (to_uint64 (tick + Offset))
          else Inr (to_uint64 (tick - 1 + Offset)))"

section \<open>The price of a tick\<close>

lemma mulShift_mono: "a \<le> b \<Longrightarrow> mulShift a p \<le> mulShift b p"
  by (simp add: mulShift_def drop_bit_eq_div div_le_mono)

lemma mulShift_le: "p < 2 ^ 96 \<Longrightarrow> mulShift a p \<le> a"
proof -
  assume "p < 2 ^ 96"
  then have "a * p \<le> a * 2 ^ 96" by (intro mult_le_mono) auto
  then have "a * p div 2 ^ 96 \<le> a * 2 ^ 96 div 2 ^ 96" by (rule div_le_mono)
  then show ?thesis by (simp add: mulShift_def drop_bit_eq_div)
qed

text \<open>Leaving a factor out only makes the product larger.\<close>

lemma tick_steps_bounds:
  assumes "\<forall>x\<in>set ps. snd x < 2 ^ 96" and "lo \<le> v"
  shows "foldl (\<lambda>w x. mulShift w (snd x)) lo ps \<le> foldl (tick_step a) v ps \<and> foldl (tick_step a) v ps \<le> v"
  using assms
proof (induction ps arbitrary: lo v)
  case (Cons x ps)
  obtain i p where x: "x = (i, p)" by (cases x)
  have st: "mulShift lo p \<le> tick_step a v x" "tick_step a v x \<le> v"
    using Cons.prems mulShift_mono [of lo v p] mulShift_le [of p v] mulShift_le [of p lo] by (auto simp: tick_step_def x)
  show ?case using Cons.IH [of "mulShift lo p" "tick_step a v x"] Cons.prems st by (simp add: x)
qed simp

lemma binary_ticks_less: "\<forall>x\<in>set (enumerate 0 priceX96AtBinaryTicks). snd x < 2 ^ 96"
  by (simp add: priceX96AtBinaryTicks_def)

lemma all_binary_ticks:
  "foldl (\<lambda>w x. mulShift w (snd x)) q96 (enumerate 0 priceX96AtBinaryTicks) = foldl mulShift q96 priceX96AtBinaryTicks"
  by (simp add: priceX96AtBinaryTicks_def)

lemma least_price: "foldl mulShift q96 priceX96AtBinaryTicks > 0"
  by (simp add: priceX96AtBinaryTicks_def q96_def mulShift_def drop_bit_eq_div)

lemma tick_product_bounds:
  "0 < foldl (tick_step a) q96 (enumerate 0 priceX96AtBinaryTicks)"
  "foldl (tick_step a) q96 (enumerate 0 priceX96AtBinaryTicks) \<le> q96"
  using tick_steps_bounds [OF binary_ticks_less, of q96 q96 a] all_binary_ticks least_price by simp_all

lemma tickToPriceX96_eq:
  "tickToPriceX96 tick =
     (let v = foldl (tick_step \<bar>tick\<bar>) q96 (enumerate 0 priceX96AtBinaryTicks) in
      if \<bar>tick\<bar> > MaxTick then Inl (Errorf ''tick out of range'')
      else if tick > 0 then Inr (maxUint192 div v * billion) else Inr (v * billion))"
proof -
  have "(if tick < 0 then - tick else tick) = \<bar>tick\<bar>" "(tick > MaxTick \<or> tick < MinTick) = (\<bar>tick\<bar> > MaxTick)"
    by (auto simp: MinTick_def MaxTick_def)
  then show ?thesis using tick_product_bounds(1) [of "\<bar>tick\<bar>"] unfolding tickToPriceX96_def Let_def by auto
qed

section \<open>The logarithm\<close>

lemma drop_bit_bounds: "2 ^ k \<le> p \<Longrightarrow> p < 2 ^ (k + j) \<Longrightarrow> 1 \<le> drop_bit k p \<and> drop_bit k p < 2 ^ j" for p :: nat
  by (simp add: drop_bit_eq_div power_add less_mult_imp_div_less mult.commute Suc_leI div_greater_zero_iff)

lemma msb_loop_spec:
  assumes "1 \<le> p" and "p < 2 ^ (2 ^ length bits)" and "bits = map (\<lambda>k. 2 ^ (2 ^ k) - 1) (rev [0..<length bits])"
    and "msb + 2 ^ length bits \<le> 2 ^ 64"
  shows "\<exists>m. msb_loop bits msb p = (msb + m, 1) \<and> m < 2 ^ length bits \<and> 2 ^ m \<le> p \<and> p < 2 ^ Suc m"
  using assms
proof (induction bits arbitrary: msb p)
  case (Cons b bits)
  let ?n = "2 ^ length bits :: nat"
  have b: "b = 2 ^ ?n - 1" and bits: "bits = map (\<lambda>k. 2 ^ (2 ^ k) - 1) (rev [0..<length bits])"
    using Cons.prems(3) by simp_all
  show ?case
  proof (cases "p > b")
    case True
    then have p: "2 ^ ?n \<le> p" "p < 2 ^ (?n + ?n)" using b Cons.prems(2) by (simp_all add: mult_2)
    have q: "1 \<le> drop_bit ?n p" "drop_bit ?n p < 2 ^ ?n" using drop_bit_bounds [OF p] by simp_all
    have u: "u64 (msb + ?n) = msb + ?n" proof (rule u64_id)
      have "0 < ?n" by simp
      then show "msb + ?n < 2 ^ 64" using Cons.prems(4) unfolding list.size add_Suc_right add_0_right power_Suc by linarith
    qed
    from Cons.IH [OF q bits, of "msb + ?n"] Cons.prems(4) obtain m where
      m: "msb_loop bits (msb + ?n) (drop_bit ?n p) = (msb + ?n + m, 1)" "m < ?n" "2 ^ m \<le> drop_bit ?n p" "drop_bit ?n p < 2 ^ Suc m"
      by auto
    have "2 ^ ?n * 2 ^ m \<le> p" using m(3) by (metis drop_bit_eq_div less_eq_div_iff_mult_less_eq mult.commute zero_less_numeral zero_less_power)
    moreover have "p < 2 ^ ?n * 2 ^ Suc m"
      using m(4) by (metis drop_bit_eq_div div_less_iff_less_mult mult.commute zero_less_numeral zero_less_power)
    ultimately show ?thesis using m(1,2) True u
      by (intro exI [of _ "?n + m"]) (simp add: push_bit_eq_mult power_add Let_def add.assoc)
  next
    case False
    have "(0::nat) < 2 ^ ?n" by simp
    then have q: "p < 2 ^ ?n" using b False by linarith
    show ?thesis using Cons.IH [OF Cons.prems(1) q bits, of msb] Cons.prems(4) False by auto
  qed
qed (auto intro: exI [of _ 0])

lemma msb_of_spec:
  assumes "price \<noteq> 0" and "price < 2 ^ 64"
  shows "msb_of price < 64" and "2 ^ msb_of price \<le> price" and "price < 2 ^ Suc (msb_of price)"
proof -
  have "\<exists>m. msb_loop [4294967295, 65535, 255, 15, 3, 1] 0 price = (0 + m, 1) \<and>
      m < 2 ^ length [4294967295, 65535, 255, 15, 3, 1 :: nat] \<and> 2 ^ m \<le> price \<and> price < 2 ^ Suc m"
  proof (rule msb_loop_spec)
    have six: "length [4294967295, 65535, 255, 15, 3, 1 :: nat] = 6" by simp
    have "[0..<6] = [0, 1, 2, 3, 4, 5::nat]" by code_simp
    then have "rev [0..<6] = [5, 4, 3, 2, 1, 0::nat]" by simp
    then show "[4294967295, 65535, 255, 15, 3, 1 :: nat] =
        map (\<lambda>k. 2 ^ (2 ^ k) - 1) (rev [0..<length [4294967295, 65535, 255, 15, 3, 1 :: nat]])"
      unfolding six by simp
  qed (use assms in simp_all)
  then obtain m where m: "msb_loop [4294967295, 65535, 255, 15, 3, 1] 0 price = (0 + m, 1)"
      "m < 2 ^ length [4294967295, 65535, 255, 15, 3, 1 :: nat]" "2 ^ m \<le> price" "price < 2 ^ Suc m" by blast
  have "msb_of price = m" unfolding msb_of_def m(1) by simp
  then show "msb_of price < 64" and "2 ^ msb_of price \<le> price" and "price < 2 ^ Suc (msb_of price)"
    using m(2-) by simp_all
qed

lemma mantissa_bounds:
  assumes "2 ^ msb \<le> price" and "price < 2 ^ Suc msb" and "msb < 64"
  shows "2 ^ 31 \<le> mantissa price msb" and "mantissa price msb < 2 ^ 32" and "mantissa price msb * 2 ^ msb \<le> price * 2 ^ 31"
proof -
  have "2 ^ 31 \<le> mantissa price msb \<and> mantissa price msb < 2 ^ 32 \<and> mantissa price msb * 2 ^ msb \<le> price * 2 ^ 31"
  proof (cases "msb \<ge> 32")
    case True
    define k where "k = msb - 31"
    have k: "msb = 31 + k" using True by (simp add: k_def)
    have d: "mantissa price msb = price div 2 ^ k" using True by (simp add: mantissa_def drop_bit_eq_div k_def)
    have "2 ^ 31 \<le> price div 2 ^ k" using assms(1) by (simp add: k power_add less_eq_div_iff_mult_less_eq)
    moreover have "price div 2 ^ k < 2 ^ 32" using assms(2) by (simp add: k power_add div_less_iff_less_mult)
    moreover have "price div 2 ^ k * 2 ^ k \<le> price" by simp
    then have "price div 2 ^ k * 2 ^ k * 2 ^ 31 \<le> price * 2 ^ 31" by (rule mult_le_mono1)
    moreover have "price div 2 ^ k * 2 ^ msb = price div 2 ^ k * 2 ^ k * 2 ^ 31" by (simp add: k power_add)
    ultimately show ?thesis unfolding d by simp
  next
    case False
    define k where "k = 31 - msb"
    have k: "31 = msb + k" using False by (simp add: k_def)
    have "2 ^ 31 \<le> price * 2 ^ k" using mult_le_mono1 [OF assms(1), of "2 ^ k"] by (simp add: k power_add)
    moreover have "price * 2 ^ k < 2 ^ Suc msb * 2 ^ k" using assms(2) by simp
    then have "price * 2 ^ k < 2 * 2 ^ 31" unfolding k power_add by simp
    moreover have "u64 (price * 2 ^ k) = price * 2 ^ k" using \<open>price * 2 ^ k < 2 * 2 ^ 31\<close> by (intro u64_id) simp
    moreover have "mantissa price msb = u64 (price * 2 ^ k)" using False by (simp add: mantissa_def push_bit_eq_mult k_def)
    moreover have "price * 2 ^ k * 2 ^ msb = price * 2 ^ 31" unfolding k power_add by simp
    moreover have "(2::nat) * 2 ^ 31 = 2 ^ 32" by simp
    ultimately show ?thesis by (simp only: le_refl simp_thms)
  qed
  then show "2 ^ 31 \<le> mantissa price msb" and "mantissa price msb < 2 ^ 32" and "mantissa price msb * 2 ^ msb \<le> price * 2 ^ 31"
    by blast+
qed

text \<open>One round of the loop: the mantissa stays below 32 bits, so its square never wraps.\<close>

lemma log2_round:
  assumes "2 ^ 31 \<le> r" and "r < 2 ^ 32"
  defines "r' \<equiv> drop_bit 31 (u64 (r * r))"
  defines "f \<equiv> drop_bit 32 r'"
  shows "u64 (r * r) = r * r" and "f \<le> 1" and "2 ^ 31 \<le> drop_bit f r'" and "drop_bit f r' < 2 ^ 32"
    and "drop_bit f r' * 2 ^ f * 2 ^ 31 \<le> r * r" and "r * r < (drop_bit f r' + 1) * 2 ^ f * 2 ^ 31"
proof -
  have "r * r \<le> (2 ^ 32 - 1) * (2 ^ 32 - 1)" using assms(2) by (intro mult_le_mono) simp_all
  then have lt: "r * r < 2 ^ 64" by simp
  have ge: "2 ^ 31 * 2 ^ 31 \<le> r * r" using assms(1) by (intro mult_le_mono)
  show u: "u64 (r * r) = r * r" using lt by (rule u64_id)
  have r': "r' = r * r div 2 ^ 31" by (simp add: r'_def u drop_bit_eq_div)
  have lo: "2 ^ 31 \<le> r'" using ge unfolding r' by (simp add: less_eq_div_iff_mult_less_eq)
  have hi: "r' < 2 ^ 33" using lt unfolding r' by (simp add: div_less_iff_less_mult)
  have le: "r' * 2 ^ 31 \<le> r * r" unfolding r' by simp
  have f: "f = r' div 2 ^ 32" by (simp add: f_def drop_bit_eq_div)
  show f1: "f \<le> 1" using hi unfolding f by simp
  have d: "drop_bit f r' = r' div 2 ^ f" by (simp add: drop_bit_eq_div)
  have "2 ^ 31 \<le> drop_bit f r' \<and> drop_bit f r' < 2 ^ 32"
  proof (cases "f = 0")
    case True
    then have "r' < 2 ^ 32" unfolding f by (simp add: div_eq_0_iff)
    then show ?thesis using True lo by simp
  next
    case False
    then have f': "f = 1" using f1 by simp
    then have "2 ^ 32 \<le> r'" unfolding f by (metis div_less less_one not_le zero_neq_one)
    then have "2 ^ 31 \<le> r' div 2" "r' div 2 < 2 ^ 32"
      using hi by (simp_all add: less_eq_div_iff_mult_less_eq div_less_iff_less_mult)
    then show ?thesis using f' d by simp
  qed
  then show "2 ^ 31 \<le> drop_bit f r'" and "drop_bit f r' < 2 ^ 32" by simp_all
  have "drop_bit f r' * 2 ^ f \<le> r'" by (simp add: d)
  then have "drop_bit f r' * 2 ^ f * 2 ^ 31 \<le> r' * 2 ^ 31" by (rule mult_le_mono1)
  then show "drop_bit f r' * 2 ^ f * 2 ^ 31 \<le> r * r" using le by linarith
  have "r * r < (r' + 1) * 2 ^ 31" unfolding r' by (simp add: dividend_less_div_times)
  moreover have "r' + 1 \<le> (drop_bit f r' + 1) * 2 ^ f" unfolding d using dividend_less_div_times [of "2 ^ f" r'] by simp
  then have "(r' + 1) * 2 ^ 31 \<le> (drop_bit f r' + 1) * 2 ^ f * 2 ^ 31" by (rule mult_le_mono1)
  ultimately show "r * r < (drop_bit f r' + 1) * 2 ^ f * 2 ^ 31" by linarith
qed

text \<open>The bits written so far and the next bit do not overlap.\<close>

lemma or_next_bit:
  assumes "f \<le> 1" and "2 ^ Suc n dvd L" and "n < 16"
  shows "L OR i64 (push_bit n (int f)) = L + 2 ^ n * int f"
proof -
  obtain q where q: "L = 2 ^ Suc n * q" using assms(2) by blast
  have f: "f = 0 \<or> f = 1" using assms(1) by auto
  have "(2::int) ^ n \<le> 2 ^ 16" using assms(3) by (intro power_increasing) auto
  moreover have "(0::int) < 2 ^ n" by simp
  moreover have "(2::int) ^ 16 < 2 ^ 63" by simp
  ultimately have "in_i64 (2 ^ n)" unfolding in_i64_def by (intro conjI) (smt (verit) zero_less_power)+
  then have "in_i64 (2 ^ n * int f)" using f by (auto simp: in_i64_def)
  then have i: "i64 (push_bit n (int f)) = push_bit n (int f)" by (simp add: push_bit_eq_mult mult.commute)
  have "L = push_bit (Suc n) q" by (simp add: q push_bit_eq_mult mult.commute)
  then have "\<not> bit L j \<or> \<not> bit (push_bit n (int f)) j" for j
    using f by (cases "j = n") (auto simp: bit_push_bit_iff bit_1_iff bit_0)
  then have "L + push_bit n (int f) = L OR push_bit n (int f)" by (intro disjunctive_add) blast
  then show ?thesis unfolding i by (simp add: push_bit_eq_mult mult.commute)
qed

section \<open>Accuracy of the logarithm\<close>

text \<open>The largest error of truncating a mantissa, as a logarithm.\<close>

definition trunc_err :: real where
  "trunc_err = log 2 (1 + 1 / 2 ^ 31)"

lemma log_round:
  fixes a b c :: nat
  assumes "2 ^ 31 \<le> b" and "b * c \<le> a" and "a < (b + 1) * c"
  shows "log 2 (real b) + log 2 (real c) \<le> log 2 (real a)"
    and "log 2 (real a) \<le> log 2 (real b) + trunc_err + log 2 (real c)"
proof -
  have b: "0 < b" using assms(1) by (metis not_gr_zero not_le zero_less_numeral zero_less_power)
  have c: "0 < c" using assms(2,3) by (cases c) auto
  have a: "0 < a" using assms(2) b c by (metis mult_pos_pos order_less_le_trans)
  have "log 2 (real (b * c)) \<le> log 2 (real a)" using assms(2) b c a by (intro log_mono) (auto simp flip: of_nat_mult)
  then show "log 2 (real b) + log 2 (real c) \<le> log 2 (real a)" using b c by (simp add: log_mult)
  have "real b + 1 \<le> real b * (1 + 1 / 2 ^ 31)"
  proof -
    have "(2::real) ^ 31 \<le> real b" using assms(1) by (metis of_nat_le_iff of_nat_numeral of_nat_power)
    then show ?thesis by (simp add: distrib_left field_simps)
  qed
  then have "(real b + 1) * real c \<le> real b * (1 + 1 / 2 ^ 31) * real c" by (rule mult_right_mono) simp
  moreover have "real a \<le> (real b + 1) * real c" using assms(3) by (metis less_imp_le of_nat_1 of_nat_add of_nat_mono of_nat_mult)
  ultimately have "log 2 (real a) \<le> log 2 (real b * (1 + 1 / 2 ^ 31) * real c)" using a by (intro log_mono) auto
  also have "log 2 (real b * (1 + 1 / 2 ^ 31) * real c) = log 2 (real b) + log 2 (1 + 1 / 2 ^ 31) + log 2 (real c)"
  proof -
    have "log 2 (real b * x * real c) = log 2 (real b) + log 2 x + log 2 (real c)" if "0 < x" for x
      using b c that by (simp add: log_mult)
    from this [of "1 + 1 / 2 ^ 31"] show ?thesis by (simp only: zero_less_divide_1_iff add_pos_pos zero_less_one zero_less_numeral zero_less_power simp_thms)
  qed
  finally show "log 2 (real a) \<le> log 2 (real b) + trunc_err + log 2 (real c)" unfolding trunc_err_def .
qed


lemma log2_loop_spec:
  assumes "2 ^ 31 \<le> r" and "r < 2 ^ 32" and "2 ^ n dvd L" and "n \<le> 16"
  shows "\<exists>k < 2 ^ n. log2_loop n r L = L + int k \<and> real k \<le> 2 ^ n * (log 2 (real r) - 31) \<and>
    2 ^ n * (log 2 (real r) - 31) < real k + 1 + (2 ^ n - 1) * trunc_err"
  using assms
proof (induction n arbitrary: r L)
  case 0
  have r: "(2::real) ^ 31 \<le> real r" "real r < 2 ^ 32" "0 < real r" using 0 by (simp_all add: numeral_power_le_of_nat_cancel_iff)
  have "log 2 ((2::real) ^ 31) \<le> log 2 (real r)" using r by (intro log_mono) auto
  moreover have "log 2 (real r) < log 2 ((2::real) ^ 32)" using r by (intro log_less) auto
  moreover have "log 2 ((2::real) ^ 31) = 31" "log 2 ((2::real) ^ 32) = 32" using log_pow_cancel [of "2::real" 31] log_pow_cancel [of "2::real" 32] by linarith+
  ultimately show ?case by simp
next
  case (Suc n)
  define r' where "r' = drop_bit 31 (u64 (r * r))"
  define f where "f = drop_bit 32 r'"
  define q where "q = drop_bit f r'"
  note rnd = log2_round [OF Suc.prems(1,2), folded r'_def, folded f_def, folded q_def]
  have "2 ^ n dvd L + 2 ^ n * int f" using Suc.prems(3) by (simp add: dvd_add power_Suc dvd_mult_right dvd_trans [of "2 ^ n" "2 ^ Suc n" L])
  from Suc.IH [OF rnd(3,4) this] Suc.prems(4) obtain k where
    k: "k < 2 ^ n" "log2_loop n q (L + 2 ^ n * int f) = L + 2 ^ n * int f + int k"
      "real k \<le> 2 ^ n * (log 2 (real q) - 31)" "2 ^ n * (log 2 (real q) - 31) < real k + 1 + (2 ^ n - 1) * trunc_err"
    by auto
  have loop: "log2_loop (Suc n) r L = L + int (2 ^ n * f + k)"
    using k(2) or_next_bit [OF rnd(2) Suc.prems(3)] Suc.prems(4) by (simp add: Let_def r'_def f_def q_def)
  have c: "log 2 (real (2 ^ f * 2 ^ 31)) = real f + 31" proof -
    have "real (2 ^ f * 2 ^ 31) = (2::real) ^ (f + 31)" by (simp add: power_add)
    then show ?thesis using log_pow_cancel [of "2::real" "f + 31"] by simp
  qed
  have rr: "log 2 (real (r * r)) = 2 * log 2 (real r)"
  proof -
    have "0 < real r" using Suc.prems(1) by simp
    then show ?thesis by (simp add: log_mult)
  qed
  have lr: "log 2 (real q) + (real f + 31) \<le> 2 * log 2 (real r)"
    "2 * log 2 (real r) \<le> log 2 (real q) + trunc_err + (real f + 31)"
    using log_round [of q "2 ^ f * 2 ^ 31" "r * r"] rnd(3,5,6) unfolding c rr by (simp_all add: mult.assoc)
  have lo: "2 ^ n * (log 2 (real q) - 31 + real f) \<le> 2 ^ n * (2 * log 2 (real r) - 62)"
    using lr(1) by (intro mult_left_mono) auto
  have hi: "2 ^ n * (2 * log 2 (real r) - 62) \<le> 2 ^ n * (log 2 (real q) - 31 + real f + trunc_err)"
    using lr(2) by (intro mult_left_mono) auto
  have e: "2 ^ Suc n * (log 2 (real r) - 31) = 2 ^ n * (2 * log 2 (real r) - 62)" by (simp add: algebra_simps)
  have "real (2 ^ n * f + k) \<le> 2 ^ Suc n * (log 2 (real r) - 31)"
    unfolding e using lo k(3) by (simp add: algebra_simps)
  moreover have "2 ^ Suc n * (log 2 (real r) - 31) < real (2 ^ n * f + k) + 1 + (2 ^ Suc n - 1) * trunc_err"
    unfolding e using hi k(4) by (simp add: algebra_simps)
  moreover have "2 ^ n * f + k < 2 ^ Suc n" using rnd(2) k(1) by (cases f) auto
  ultimately show ?case using loop by blast
qed

lemma trunc_err_bounds: "0 \<le> trunc_err" "trunc_err \<le> 1 / 2 ^ 30"
proof -
  have "exp (1 / 2 :: real) ^ 2 < 2 ^ 2" using exp_le by (simp flip: exp_double)
  then have "exp (1 / 2 :: real) < 2" by (rule power_less_imp_less_base) simp
  then have "1 / 2 \<le> ln (2::real)" unfolding ln_ge_iff [OF zero_less_numeral] by (rule less_imp_le)
  moreover have "ln (1 + 1 / 2 ^ 31 :: real) \<le> 1 / 2 ^ 31" by (rule ln_add_one_self_le_self) simp
  moreover have "0 \<le> ln (1 + 1 / 2 ^ 31 :: real)" by simp
  ultimately have "ln (1 + 1 / 2 ^ 31) / ln 2 \<le> (1 / 2 ^ 31) / (1 / 2 :: real)" by (intro frac_le) auto
  then show "trunc_err \<le> 1 / 2 ^ 30" unfolding trunc_err_def log_def by simp
  show "0 \<le> trunc_err" unfolding trunc_err_def by simp
qed

lemma mantissa_log:
  assumes "2 ^ msb \<le> price" and "price < 2 ^ Suc msb" and "msb < 64"
  shows "log 2 (real (mantissa price msb)) + real msb - 31 \<le> log 2 (real price)"
    and "log 2 (real price) \<le> log 2 (real (mantissa price msb)) + real msb - 31 + trunc_err"
proof -
  note mb = mantissa_bounds [OF assms]
  have "log 2 (real (mantissa price msb)) + real msb - 31 \<le> log 2 (real price) \<and>
    log 2 (real price) \<le> log 2 (real (mantissa price msb)) + real msb - 31 + trunc_err"
  proof (cases "msb \<ge> 32")
    case True
    then have m: "mantissa price msb = price div 2 ^ (msb - 31)" by (simp add: mantissa_def drop_bit_eq_div)
    have c: "log 2 (real (2 ^ (msb - 31))) = real msb - 31" using True by (simp add: of_nat_diff)
    have le: "mantissa price msb * 2 ^ (msb - 31) \<le> price" and lt: "price < (mantissa price msb + 1) * 2 ^ (msb - 31)"
      unfolding m using dividend_less_div_times [of "2 ^ (msb - 31)" price] by simp_all
    show ?thesis using log_round [OF mb(1) le lt] unfolding c by simp
  next
    case False
    then have "mantissa price msb = u64 (price * 2 ^ (31 - msb))" by (simp add: mantissa_def push_bit_eq_mult)
    moreover have "price * 2 ^ (31 - msb) < 2 ^ Suc msb * 2 ^ (31 - msb)" using assms(2) by simp
    then have "price * 2 ^ (31 - msb) < 2 ^ 64"
      by (rule less_le_trans) (use False in \<open>simp flip: power_add power_Suc\<close>)
    ultimately have m: "mantissa price msb = price * 2 ^ (31 - msb)" by simp
    have p: "0 < price" using assms(1) by (metis not_gr_zero not_le zero_less_numeral zero_less_power)
    have "log 2 (real (mantissa price msb)) = log 2 (real price) + (31 - real msb)"
      unfolding m using p False by (simp add: log_mult of_nat_diff)
    then show ?thesis using trunc_err_bounds(1) by simp
  qed
  then show "log 2 (real (mantissa price msb)) + real msb - 31 \<le> log 2 (real price)"
    and "log 2 (real price) \<le> log 2 (real (mantissa price msb)) + real msb - 31 + trunc_err" by blast+
qed

lemma price_log2_spec:
  assumes "price \<noteq> 0" and "price < 2 ^ 64"
  obtains L where "price_log2 price = int L" and "L < 2 ^ 22" and "real L \<le> 2 ^ 16 * log 2 (real price)"
    and "2 ^ 16 * log 2 (real price) < real L + 1 + 1 / 2 ^ 13"
proof -
  define msb where "msb = msb_of price"
  note ms = msb_of_spec [OF assms, folded msb_def]
  note mb = mantissa_bounds [OF ms(2,3,1)] and ml = mantissa_log [OF ms(2,3,1)]
  have "in_i64 (2 ^ 16 * int msb)" using ms(1) by (simp add: in_i64_def)
  then have i: "i64 (push_bit 16 (int msb)) = 2 ^ 16 * int msb" by (simp add: push_bit_eq_mult mult.commute)
  obtain k where k: "k < 2 ^ 16" "log2_loop 16 (mantissa price msb) (2 ^ 16 * int msb) = 2 ^ 16 * int msb + int k"
    "real k \<le> 2 ^ 16 * (log 2 (real (mantissa price msb)) - 31)"
    "2 ^ 16 * (log 2 (real (mantissa price msb)) - 31) < real k + 1 + (2 ^ 16 - 1) * trunc_err"
    using log2_loop_spec [OF mb(1,2), of 16 "2 ^ 16 * int msb"] by auto
  define L where "L = 2 ^ 16 * msb + k"
  have "price_log2 price = int L" using k(2) by (simp add: price_log2_def L_def i flip: msb_def)
  moreover have "L < 2 ^ 22" using ms(1) k(1) by (simp add: L_def)
  moreover have "real L \<le> 2 ^ 16 * log 2 (real price)" using k(3) ml(1) by (simp add: L_def)
  moreover have "2 ^ 16 * log 2 (real price) < real L + 1 + 1 / 2 ^ 13"
    using k(4) ml(2) trunc_err_bounds(2) by (simp add: L_def)
  ultimately show ?thesis by (rule that)
qed

section \<open>Properties\<close>

text \<open>
  C0: \<open>tickToPriceX96\<close> is defined exactly on the ticks from \<open>MinTick\<close> to \<open>MaxTick\<close>: there it never
  divides by zero and returns a positive price, at most one for ticks up to zero and at least one
  (less one unit of the 96 fractional bits) for positive ticks.
\<close>

theorem tickToPriceX96_total:
  "case tickToPriceX96 tick of
     Inl e \<Rightarrow> (tick > MaxTick \<or> tick < MinTick) \<and> \<not> is_panic e
   | Inr p \<Rightarrow> \<bar>tick\<bar> \<le> MaxTick \<and> 0 < p \<and> (if tick \<le> 0 then p \<le> q96 * billion else (q96 - 1) * billion \<le> p)"
proof -
  define v where "v = foldl (tick_step \<bar>tick\<bar>) q96 (enumerate 0 priceX96AtBinaryTicks)"
  have v: "0 < v" "v \<le> q96" unfolding v_def by (rule tick_product_bounds)+
  have "maxUint192 div q96 \<le> maxUint192 div v" using v by (intro div_le_mono2)
  moreover have "maxUint192 div q96 = q96 - 1" by (simp add: maxUint192_def q96_def)
  ultimately have q: "q96 - 1 \<le> maxUint192 div v" by simp
  have "0 < q96 - 1" by (simp add: q96_def)
  then have "0 < maxUint192 div v" using q by linarith
  then show ?thesis using v q
    by (auto simp: tickToPriceX96_eq Let_def MinTick_def billion_def abs_less_iff not_less simp flip: v_def split: if_splits)
qed

text \<open>
  The fixed-point logarithm inside \<open>PriceToTick\<close> is accurate: none of its 64-bit products wraps,
  and the result is below \<open>2 ^ 16 * log 2 price\<close> by less than one unit and \<open>2 ^ -13\<close>.
\<close>

theorem price_log2_accurate:
  assumes "price \<noteq> 0" and "price < 2 ^ 64"
  shows "real_of_int (price_log2 price) \<le> 2 ^ 16 * log 2 (real price) \<and>
    2 ^ 16 * log 2 (real price) < real_of_int (price_log2 price) + 1 + 1 / 2 ^ 13"
  by (rule price_log2_spec [OF assms]) simp

theorem price_log2_accurate_witness:
  "real_of_int (price_log2 3) \<le> 2 ^ 16 * log 2 (real 3) \<and> 2 ^ 16 * log 2 (real 3) < real_of_int (price_log2 3) + 1 + 1 / 2 ^ 13"
  using price_log2_accurate [of 3] by simp

text \<open>
  C0: \<open>PriceToTick\<close> gives a tick for every positive \<open>uint64\<close> price, within the range of ticks (so
  neither the range error nor a wrapped offset occurs), and it fails exactly on the price zero. The
  tick returned is the greatest of the candidates next to the estimate whose price does not exceed
  the given one; when it is not below both candidates its price indeed does not exceed the given one.
\<close>

theorem PriceToTick_correct:
  assumes "price \<noteq> 0" and "price < 2 ^ 64"
  shows "\<exists>t. PriceToTick price = Inr (nat (t + Offset)) \<and> MinTick \<le> t \<and> t \<le> MaxTick \<and> \<bar>t - approx_tick price\<bar> \<le> 1 \<and>
    (approx_tick price \<le> t \<longrightarrow> (\<exists>p. tickToPriceX96 t = Inr p \<and> p \<le> price * q96)) \<and>
    (\<forall>u. t < u \<and> u \<le> approx_tick price + 1 \<longrightarrow> (\<exists>p. tickToPriceX96 u = Inr p \<and> price * q96 < p))"
proof -
  obtain L where L: "price_log2 price = int L" "L < 2 ^ 22" using price_log2_spec [OF assms] by metis
  define x where "x = (int L - 1959352) * 454283648"
  have x: "- 207243 * 2 ^ 32 \<le> x" "x < 236394 * 2 ^ 32" using L(2) by (simp_all add: x_def)
  then have "in_i64 x" by (simp add: in_i64_def)
  then have a: "approx_tick price = x div 2 ^ 32"
    unfolding approx_tick_def Let_def L(1) i64_mult_left x_def by (simp only: i64_id drop_bit_eq_div)
  define t where "t = approx_tick price"
  have t: "- 207243 \<le> t" "t < 236394" using x zdiv_mono1 [OF x(1), of "2 ^ 32"]
    unfolding t_def a by (simp_all add: div_less_iff_less_mult)
  have P: "PriceToTick price =
      (let fits = (\<lambda>u. case tickToPriceX96 u of Inl _ \<Rightarrow> False | Inr p \<Rightarrow> p \<le> price * q96) in
       if fits (t + 1) then Inr (to_uint64 (t + 1 + Offset)) else if fits t then Inr (to_uint64 (t + Offset))
       else Inr (to_uint64 (t - 1 + Offset)))"
    using assms(1) t by (simp add: PriceToTick_def MaxTick_def MinTick_def Let_def flip: t_def)
  have conv: "to_uint64 (u + Offset) = nat (u + Offset)" if "- 207244 \<le> u" "u \<le> 236394" for u
    using that by (simp add: to_uint64_def Offset_def)
  have inr: "\<exists>p. tickToPriceX96 u = Inr p" if "- 207244 \<le> u" "u \<le> 236394" for u
    using that by (simp add: tickToPriceX96_eq MaxTick_def Let_def)
  obtain p q where p: "tickToPriceX96 (t + 1) = Inr p" and q: "tickToPriceX96 t = Inr q"
    using inr [of "t + 1"] inr [of t] t by auto
  have between: "t - 1 < u \<and> u \<le> t + 1 \<longleftrightarrow> u = t \<or> u = t + 1" "t < u \<and> u \<le> t + 1 \<longleftrightarrow> u = t + 1" for u by auto
  consider "p \<le> price * q96" | "\<not> p \<le> price * q96" "q \<le> price * q96" | "\<not> p \<le> price * q96" "\<not> q \<le> price * q96" by blast
  then have "\<exists>v. PriceToTick price = Inr (nat (v + Offset)) \<and> MinTick \<le> v \<and> v \<le> MaxTick \<and> \<bar>v - t\<bar> \<le> 1 \<and>
    (t \<le> v \<longrightarrow> (\<exists>p. tickToPriceX96 v = Inr p \<and> p \<le> price * q96)) \<and>
    (\<forall>u. v < u \<and> u \<le> t + 1 \<longrightarrow> (\<exists>p. tickToPriceX96 u = Inr p \<and> price * q96 < p))"
  proof cases
    case 1
    then show ?thesis using t p conv [of "t + 1"] by (intro exI [of _ "t + 1"]) (auto simp: P Let_def MaxTick_def MinTick_def)
  next
    case 2
    then show ?thesis using t p q conv [of t]
      by (intro exI [of _ t]) (simp add: P Let_def MaxTick_def MinTick_def between)
  next
    case 3
    then show ?thesis using t p q conv [of "t - 1"]
      by (intro exI [of _ "t - 1"]) (auto simp: P Let_def MaxTick_def MinTick_def between)
  qed
  then show ?thesis by (simp only: t_def)
qed

theorem PriceToTick_correct_witness:
  "\<exists>t. PriceToTick 1000000000 = Inr (nat (t + Offset)) \<and> MinTick \<le> t \<and> t \<le> MaxTick \<and> \<bar>t - approx_tick 1000000000\<bar> \<le> 1 \<and>
    (approx_tick 1000000000 \<le> t \<longrightarrow> (\<exists>p. tickToPriceX96 t = Inr p \<and> p \<le> 1000000000 * q96)) \<and>
    (\<forall>u. t < u \<and> u \<le> approx_tick 1000000000 + 1 \<longrightarrow> (\<exists>p. tickToPriceX96 u = Inr p \<and> 1000000000 * q96 < p))"
  using PriceToTick_correct [of 1000000000] by simp

end
