(* ===== verification/Feeds_Price.thy ===== *)
theory Feeds_Price
  imports Feeds_Vote Validator_Status Tickmath
begin

text \<open>
  The module \<open>x/feeds\<close>, second part: the validators' price submissions and the prices computed
  from them at the end of every block (\<open>keeper_price.go\<close>, the \<open>SubmitSignalPrices\<close> handler of
  \<open>msg_server.go\<close>, \<open>abci.go\<close>, \<open>tss_handler.go\<close>, \<open>types/encoding_tss.go\<close>, \<open>types/utils.go\<close>,
  \<open>types/signature_order.go\<close>). Computing prices reports validators that missed to
  \<open>x/oracle\<close>, whose status model is used as it is.
\<close>

section \<open>Context\<close>

text \<open>
  What a block and the staking module provide: the time and height of the block, the parsing and
  printing of a validator address, the bonded validators by falling power with their tokens, the bonded tokens,
  and whether a validator is bonded.
\<close>

record feeds_ctx =
  ctx_BlockTime :: time
  ctx_BlockHeight :: int64
  ValAddressFromBech32 :: "bytes \<Rightarrow> bytes result"
  ValAddress_String :: "bytes \<Rightarrow> bytes"
  IterateBondedValidatorsByPower :: "(bytes \<times> int) list result"
  TotalBondedTokens :: "int result"
  GetValidator_IsBonded :: "bytes \<Rightarrow> bool result"

record ValidatorInfo =
  vi_Address :: bytes
  vi_Power :: uint64
  vi_Status :: ValidatorStatus

definition MaxGuaranteeBlockTime :: int64 where
  "MaxGuaranteeBlockTime = 3"

section \<open>Prices\<close>

definition GetPrice :: "feeds_ctx \<Rightarrow> feeds_state \<Rightarrow> bytes \<Rightarrow> Price" where
  "GetPrice ctx s signalID =
     (case kv_get (fs_prices s) (PriceStoreKey signalID) of
        None \<Rightarrow> \<lparr>price_Status = PRICE_STATUS_NOT_IN_CURRENT_FEEDS, price_SignalID = signalID, price_Price = 0,
                 price_Timestamp = Unix (ctx_BlockTime ctx)\<rparr>
      | Some price \<Rightarrow> price)"

definition GetPrices :: "feeds_ctx \<Rightarrow> feeds_state \<Rightarrow> bytes list \<Rightarrow> Price list" where
  "GetPrices ctx s signalIDs = map (GetPrice ctx s) signalIDs"

definition GetAllPrices :: "feeds_state \<Rightarrow> Price list" where
  "GetAllPrices s = map snd (kv_prefix_iterator (fs_prices s) [0x11])"

definition SetPrice :: "feeds_state \<Rightarrow> Price \<Rightarrow> feeds_state" where
  "SetPrice s price = s\<lparr>fs_prices := kv_set (fs_prices s) (PriceStoreKey (price_SignalID price)) price\<rparr>"

definition SetPrices :: "feeds_state \<Rightarrow> Price list \<Rightarrow> feeds_state" where
  "SetPrices s prices = foldl SetPrice s prices"

definition DeleteAllPrices :: "feeds_state \<Rightarrow> feeds_state" where
  "DeleteAllPrices s =
     foldl (\<lambda>s e. s\<lparr>fs_prices := kv_delete (fs_prices s) (fst e)\<rparr>) s (kv_prefix_iterator (fs_prices s) [0x11])"

definition GetValidatorPriceList :: "'b feeds_keeper \<Rightarrow> feeds_state \<Rightarrow> bytes \<Rightarrow> ValidatorPriceList result" where
  "GetValidatorPriceList k s val =
     (case kv_get (fs_validator_prices s) (ValidatorPriceListStoreKey (fk_sdk k) val) of
        None \<Rightarrow> Inl ErrValidatorPriceNotFound | Some l \<Rightarrow> Inr l)"

definition SetValidatorPriceList ::
  "'b feeds_keeper \<Rightarrow> feeds_ctx \<Rightarrow> feeds_state \<Rightarrow> bytes \<Rightarrow> ValidatorPrice list \<Rightarrow> feeds_state" where
  "SetValidatorPriceList k ctx s val prices =
     s\<lparr>fs_validator_prices := kv_set (fs_validator_prices s) (ValidatorPriceListStoreKey (fk_sdk k) val)
         \<lparr>vpl_Validator = ValAddress_String ctx val, vpl_ValidatorPrices = prices\<rparr>\<rparr>"

section \<open>Calculating prices\<close>

text \<open>The zero value of the struct, which a missing entry of a Go map reads as.\<close>

definition no_validator_price :: ValidatorPrice where
  "no_validator_price = \<lparr>vp_SignalPriceStatus = SIGNAL_PRICE_STATUS_UNSPECIFIED, vp_SignalID = [], vp_Price = 0,
     vp_Timestamp = 0, vp_BlockHeight = 0\<rparr>"

text \<open>Sums and quotients of \<open>int64\<close> times and heights wrap around.\<close>

definition CheckMissReport ::
  "Feed \<Rightarrow> int64 \<Rightarrow> int64 \<Rightarrow> ValidatorPrice \<Rightarrow> ValidatorInfo \<Rightarrow> time \<Rightarrow> int64 \<Rightarrow> int64 \<Rightarrow> bool" where
  "CheckMissReport feed lastUpdateTimestamp lastUpdateBlock valPrice valInfo blockTime blockHeight gracePeriod =
     (let lastTime = i64 (lastUpdateTimestamp + gracePeriod);
          lastBlock = i64 (lastUpdateBlock + i64 (go_div gracePeriod MaxGuaranteeBlockTime));
          sinceTime = i64 (Unix (vs_Since (vi_Status valInfo)) + gracePeriod);
          lastTime = (if sinceTime > lastTime then sinceTime else lastTime);
          priceTime = i64 (vp_Timestamp valPrice + feed_Interval feed);
          priceBlock = i64 (vp_BlockHeight valPrice + i64 (go_div (feed_Interval feed) MaxGuaranteeBlockTime));
          reported = (vp_SignalPriceStatus valPrice \<noteq> SIGNAL_PRICE_STATUS_UNSPECIFIED);
          lastTime = (if reported \<and> priceTime > lastTime then priceTime else lastTime);
          lastBlock = (if reported \<and> priceBlock > lastBlock then priceBlock else lastBlock) in
      lastTime < Unix blockTime \<and> lastBlock < blockHeight)"

definition checkHavePrice :: "Feed \<Rightarrow> ValidatorPrice \<Rightarrow> time \<Rightarrow> bool" where
  "checkHavePrice feed valPrice blockTime \<longleftrightarrow>
     vp_SignalPriceStatus valPrice \<noteq> SIGNAL_PRICE_STATUS_UNSPECIFIED \<and>
     vp_Timestamp valPrice \<ge> i64 (Unix blockTime - feed_Interval feed)"

definition CalculatePrice :: "feeds_ctx \<Rightarrow> Feed \<Rightarrow> ValidatorPriceInfo list \<Rightarrow> int \<Rightarrow> Price result" where
  "CalculatePrice ctx feed infos powerQuorum =
     (let (totalPower, availablePower, _, unsupportedPower) = CalculatePricesPowers infos;
          price = (\<lambda>status p. \<lparr>price_Status = status, price_SignalID = feed_SignalID feed, price_Price = p,
                     price_Timestamp = Unix (ctx_BlockTime ctx)\<rparr>) in
      if unsupportedPower * 2 > totalPower then Inr (price PRICE_STATUS_UNKNOWN_SIGNAL_ID 0)
      else if totalPower < powerQuorum \<or> availablePower * 2 < totalPower then Inr (price PRICE_STATUS_NOT_READY 0)
      else bindE (MedianValidatorPriceInfos infos) (\<lambda>p. Inr (price PRICE_STATUS_AVAILABLE p)))"

text \<open>
  The bonded validators that are active in the oracle; a validator whose operator address does not
  parse is skipped, and \<open>Uint64\<close> panics on tokens out of range.
\<close>

definition active_validators :: "feeds_ctx \<Rightarrow> status_store \<Rightarrow> ValidatorInfo list result" where
  "active_validators ctx m =
     bindE (IterateBondedValidatorsByPower ctx) (\<lambda>vals.
     foldE (\<lambda>infos (op, tokens).
       case ValAddressFromBech32 ctx op of
         Inl _ \<Rightarrow> Inr infos
       | Inr operator \<Rightarrow>
           let status = GetValidatorStatus m operator in
           if \<not> vs_IsActive status then Inr infos
           else if \<not> IsUint64 tokens then Inl (Panic ''Uint64() out of bounds'')
           else Inr (infos @ [\<lparr>vi_Address = operator, vi_Power = nat tokens, vi_Status = status\<rparr>])) [] vals)"

text \<open>
  \<open>allValidatorPrices[address][signalID]\<close>: the outer map is keyed by the text of the address,
  which determines the address; of several prices for one signal the last counts.
\<close>

definition validator_price :: "'b feeds_keeper \<Rightarrow> feeds_state \<Rightarrow> bytes \<Rightarrow> bytes \<Rightarrow> ValidatorPrice" where
  "validator_price k s val signalID =
     (case GetValidatorPriceList k s val of
        Inl _ \<Rightarrow> no_validator_price
      | Inr l \<Rightarrow>
          let m = foldl (\<lambda>m p. if vp_SignalPriceStatus p \<noteq> SIGNAL_PRICE_STATUS_UNSPECIFIED
                               then kv_set m (vp_SignalID p) p else m) [] (vpl_ValidatorPrices l) in
          case kv_get m signalID of None \<Rightarrow> no_validator_price | Some p \<Rightarrow> p)"

text \<open>The inner loop for one feed: report misses, collect the prices that count.\<close>

definition feed_validator_step ::
  "feeds_ctx \<Rightarrow> CurrentFeeds \<Rightarrow> int64 \<Rightarrow> Feed \<Rightarrow> (bytes \<Rightarrow> bytes \<Rightarrow> ValidatorPrice) \<Rightarrow>
   status_store \<times> ValidatorPriceInfo list \<Rightarrow> ValidatorInfo \<Rightarrow> status_store \<times> ValidatorPriceInfo list" where
  "feed_validator_step ctx currentFeeds gracePeriod feed prices st valInfo =
     (let (m, infos) = st;
          valPrice = prices (vi_Address valInfo) (feed_SignalID feed);
          m = (if CheckMissReport feed (cf_LastUpdateTimestamp currentFeeds) (cf_LastUpdateBlock currentFeeds) valPrice
                    valInfo (ctx_BlockTime ctx) (ctx_BlockHeight ctx) gracePeriod
               then MissReport (ctx_BlockTime ctx) m (vi_Address valInfo) (ctx_BlockTime ctx) else m);
          infos = (if checkHavePrice feed valPrice (ctx_BlockTime ctx)
                   then infos @ [\<lparr>info_Status = vp_SignalPriceStatus valPrice, info_Power = int (vi_Power valInfo),
                                  info_Price = vp_Price valPrice, info_Timestamp = vp_Timestamp valPrice\<rparr>]
                   else infos) in
      (m, infos))"

definition feed_step ::
  "feeds_ctx \<Rightarrow> CurrentFeeds \<Rightarrow> int64 \<Rightarrow> (bytes \<Rightarrow> bytes \<Rightarrow> ValidatorPrice) \<Rightarrow> ValidatorInfo list \<Rightarrow> int \<Rightarrow>
   feeds_state \<times> status_store \<Rightarrow> Feed \<Rightarrow> (feeds_state \<times> status_store) result" where
  "feed_step ctx currentFeeds gracePeriod prices validators powerQuorum st feed =
     (let (s, m) = st;
          (m, infos) = foldl (feed_validator_step ctx currentFeeds gracePeriod feed prices) (m, []) validators in
      bindE (CalculatePrice ctx feed infos powerQuorum) (\<lambda>price. Inr (SetPrice s price, m)))"

definition CalculatePrices ::
  "'b feeds_keeper \<Rightarrow> feeds_ctx \<Rightarrow> feeds_state \<times> status_store \<Rightarrow> (feeds_state \<times> status_store) result" where
  "CalculatePrices k ctx st =
     (let (s, m) = st; currentFeeds = fs_current_feeds s; params = fs_params s in
      bindE (active_validators ctx m) (\<lambda>validatorsByPower.
      bindE (TotalBondedTokens ctx) (\<lambda>tbt.
      bindE (LegacyNewDecFromStr k (fp_PriceQuorum params)) (\<lambda>priceQuorum.
      foldE (feed_step ctx currentFeeds (fp_GracePeriod params) (validator_price k s) validatorsByPower
               (DecMulTruncateInt k tbt priceQuorum)) (s, m) (cf_Feeds currentFeeds)))))"

definition feeds_EndBlocker ::
  "'b feeds_keeper \<Rightarrow> feeds_ctx \<Rightarrow> feeds_state \<times> status_store \<Rightarrow> (feeds_state \<times> status_store) result" where
  "feeds_EndBlocker k ctx st =
     (let (s, m) = st; interval = fp_CurrentFeedsUpdateInterval (fs_params s) in
      if interval = 0 then Inl (Panic ''integer divide by zero'')
      else if go_mod (ctx_BlockHeight ctx) interval = 0 then
        let s = DeleteAllPrices s in
        bindE (CalculateNewCurrentFeeds s) (\<lambda>feeds.
        CalculatePrices k ctx (SetCurrentFeeds (Unix (ctx_BlockTime ctx)) (ctx_BlockHeight ctx) s feeds, m))
      else CalculatePrices k ctx (s, m))"

section \<open>Submitting prices\<close>

record SignalPrice =
  sp_Status :: SignalPriceStatus
  sp_SignalID :: bytes
  sp_Price :: uint64

record MsgSubmitSignalPrices =
  ssp_Validator :: bytes
  ssp_Timestamp :: int64
  ssp_SignalPrices :: "SignalPrice list"

fun known_status :: "SignalPriceStatus \<Rightarrow> bool" where
  "known_status (SIGNAL_PRICE_STATUS_OTHER _) = False"
| "known_status _ = True"

definition sdk_ErrInvalidRequest :: error where
  "sdk_ErrInvalidRequest = Errorf ''sdk: invalid request''"

definition MsgSubmitSignalPrices_ValidateBasic :: "feeds_ctx \<Rightarrow> MsgSubmitSignalPrices \<Rightarrow> unit result" where
  "MsgSubmitSignalPrices_ValidateBasic ctx msg =
     bindE (ValAddressFromBech32 ctx (ssp_Validator msg)) (\<lambda>_.
     bindE (foldE (\<lambda>seen p.
       if \<not> known_status (sp_Status p) then Inl sdk_ErrInvalidRequest
       else if sp_Status p = SIGNAL_PRICE_STATUS_UNSPECIFIED then Inl sdk_ErrInvalidRequest
       else if sp_Status p \<noteq> SIGNAL_PRICE_STATUS_AVAILABLE \<and> sp_Price p \<noteq> 0 then Inl sdk_ErrInvalidRequest
       else if sp_SignalID p \<in> set seen then Inl ErrDuplicateSignalID
       else Inr (sp_SignalID p # seen)) [] (ssp_SignalPrices msg)) (\<lambda>_. Inr ()))"

definition AbsInt64 :: "int64 \<Rightarrow> int64" where
  "AbsInt64 x = (if x < 0 then i64 (-1 * x) else x)"

definition IsBondedValidator :: "feeds_ctx \<Rightarrow> bytes \<Rightarrow> bool" where
  "IsBondedValidator ctx val = (case GetValidator_IsBonded ctx val of Inl _ \<Rightarrow> False | Inr b \<Rightarrow> b)"

definition ValidateValidatorRequiredToSend :: "feeds_ctx \<Rightarrow> status_store \<Rightarrow> bytes \<Rightarrow> unit result" where
  "ValidateValidatorRequiredToSend ctx m val =
     (if \<not> IsBondedValidator ctx val then Inl ErrNotBondedValidator
      else if \<not> vs_IsActive (GetValidatorStatus m val) then Inl ErrOracleStatusNotActive
      else Inr ())"

text \<open>The map from signal ids to indexes of the feeds; a later feed replaces an earlier one.\<close>

definition feeds_map :: "Feed list \<Rightarrow> (bytes, nat) kv" where
  "feeds_map feeds = foldl (\<lambda>m (idx, feed). kv_set m (feed_SignalID feed) idx) [] (enumerate 0 feeds)"

definition set_at :: "'a list \<Rightarrow> nat \<Rightarrow> 'a \<Rightarrow> 'a list result" where
  "set_at xs i x = (if i < length xs then Inr (xs[i := x]) else Inl (Panic ''index out of range''))"

definition keep_price :: "(bytes, nat) kv \<Rightarrow> ValidatorPrice list \<Rightarrow> ValidatorPrice \<Rightarrow> ValidatorPrice list result" where
  "keep_price fm ps p = (case kv_get fm (vp_SignalID p) of None \<Rightarrow> Inr ps | Some idx \<Rightarrow> set_at ps idx p)"

definition submit_price ::
  "(bytes, nat) kv \<Rightarrow> int64 \<Rightarrow> int64 \<Rightarrow> int64 \<Rightarrow> ValidatorPrice list \<Rightarrow> SignalPrice \<Rightarrow> ValidatorPrice list result" where
  "submit_price fm cooldownTime blockTime blockHeight ps msgPrice =
     (case kv_get fm (sp_SignalID msgPrice) of
        None \<Rightarrow> Inl ErrSignalIDNotSupported
      | Some idx \<Rightarrow>
          if \<not> idx < length ps then Inl (Panic ''index out of range'')
          else if vp_SignalPriceStatus (ps ! idx) \<noteq> SIGNAL_PRICE_STATUS_UNSPECIFIED \<and>
                  blockTime < i64 (vp_Timestamp (ps ! idx) + cooldownTime) then Inl ErrPriceSubmitTooEarly
          else set_at ps idx \<lparr>vp_SignalPriceStatus = sp_Status msgPrice, vp_SignalID = sp_SignalID msgPrice,
                 vp_Price = sp_Price msgPrice, vp_Timestamp = blockTime, vp_BlockHeight = blockHeight\<rparr>)"

definition SubmitSignalPrices ::
  "'b feeds_keeper \<Rightarrow> feeds_ctx \<Rightarrow> status_store \<Rightarrow> feeds_state \<Rightarrow> MsgSubmitSignalPrices \<Rightarrow> feeds_state result" where
  "SubmitSignalPrices k ctx m s msg =
     (let blockTime = Unix (ctx_BlockTime ctx); params = fs_params s; feeds = cf_Feeds (fs_current_feeds s) in
      if length (ssp_SignalPrices msg) > length feeds then Inl ErrSignalPricesTooLarge
      else
        bindE (ValAddressFromBech32 ctx (ssp_Validator msg)) (\<lambda>val.
        bindE (ValidateValidatorRequiredToSend ctx m val) (\<lambda>_.
        if AbsInt64 (i64 (ssp_Timestamp msg - blockTime)) > fp_AllowableBlockTimeDiscrepancy params then Inl ErrInvalidTimestamp
        else
          let fm = feeds_map feeds; ps = replicate (length fm) no_validator_price in
          bindE (case GetValidatorPriceList k s val of
                   Inl _ \<Rightarrow> Inr ps | Inr prev \<Rightarrow> foldE (keep_price fm) ps (vpl_ValidatorPrices prev)) (\<lambda>ps.
          bindE (foldE (submit_price fm (fp_CooldownTime params) blockTime (ctx_BlockHeight ctx)) ps (ssp_SignalPrices msg)) (\<lambda>ps.
          Inr (SetValidatorPriceList k ctx s val ps))))))"

section \<open>Signature orders\<close>

datatype Encoder = ENCODER_UNSPECIFIED | ENCODER_FIXED_POINT_ABI | ENCODER_TICK_ABI | ENCODER_OTHER int

definition EncoderFixedPointABIPrefix :: bytes where
  "EncoderFixedPointABIPrefix = [0xcb, 0xa0, 0xad, 0x5a]"

definition EncoderTickABIPrefix :: bytes where
  "EncoderTickABIPrefix = [0xdb, 0x99, 0xb2, 0xb3]"

definition StringToBytes32 :: "bytes \<Rightarrow> bytes result" where
  "StringToBytes32 s =
     (if length s > 32 then Inl (Errorf ''string is too long'') else Inr (replicate (32 - length s) 0 @ s))"

definition ValidateEncoder :: "Encoder \<Rightarrow> unit result" where
  "ValidateEncoder encoder =
     (if encoder = ENCODER_FIXED_POINT_ABI \<or> encoder = ENCODER_TICK_ABI then Inr () else Inl ErrInvalidEncoder)"

record RelayPrice =
  rp_SignalID :: bytes
  rp_Price :: uint64

definition ToRelayPrices :: "Price list \<Rightarrow> RelayPrice list result" where
  "ToRelayPrices prices =
     foldE (\<lambda>rs price.
       case StringToBytes32 (price_SignalID price) of
         Inl _ \<Rightarrow> Inl ErrInvalidSignal
       | Inr signalID \<Rightarrow> Inr (rs @ [\<lparr>rp_SignalID = signalID, rp_Price = price_Price price\<rparr>])) [] prices"

definition ToRelayTickPrices :: "Price list \<Rightarrow> RelayPrice list result" where
  "ToRelayTickPrices prices =
     foldE (\<lambda>rs price.
       case StringToBytes32 (price_SignalID price) of
         Inl _ \<Rightarrow> Inl ErrInvalidSignal
       | Inr signalID \<Rightarrow>
           (case (if price_Price price \<noteq> 0 then PriceToTick (price_Price price) else Inr (price_Price price)) of
              Inl _ \<Rightarrow> Inl ErrEncodingPriceFailed
            | Inr p \<Rightarrow> Inr (rs @ [\<lparr>rp_SignalID = signalID, rp_Price = p\<rparr>]))) [] prices"

text \<open>The ABI packing of the prices is that of the \<open>go-ethereum\<close> package and a parameter.\<close>

definition EncodeTSS ::
  "(RelayPrice list \<Rightarrow> int64 \<Rightarrow> bytes result) \<Rightarrow> Price list \<Rightarrow> int64 \<Rightarrow> Encoder \<Rightarrow> bytes result" where
  "EncodeTSS pack prices timestamp encoder =
     (let packed = (\<lambda>prefix rs. case pack rs timestamp of Inl _ \<Rightarrow> Inl ErrEncodingPriceFailed | Inr bz \<Rightarrow> Inr (prefix @ bz)) in
      case encoder of
        ENCODER_FIXED_POINT_ABI \<Rightarrow> bindE (ToRelayPrices prices) (packed EncoderFixedPointABIPrefix)
      | ENCODER_TICK_ABI \<Rightarrow> bindE (ToRelayTickPrices prices) (packed EncoderTickABIPrefix)
      | _ \<Rightarrow> Inl ErrInvalidEncoder)"

record FeedsSignatureOrder =
  fso_SignalIDs :: "bytes list"
  fso_Encoder :: Encoder

text \<open>The loop reads the set of ids seen but never adds to it.\<close>

definition FeedsSignatureOrder_ValidateBasic :: "FeedsSignatureOrder \<Rightarrow> unit result" where
  "FeedsSignatureOrder_ValidateBasic f =
     (if fso_SignalIDs f = [] then Inl ErrInvalidSignalIDs
      else
        let signalIDs = ([] :: bytes list) in
        bindE (foldE (\<lambda>_ x. if x \<in> set signalIDs then Inl ErrDuplicateSignalID else Inr ()) () (fso_SignalIDs f)) (\<lambda>_.
        case fso_Encoder f of
          ENCODER_OTHER _ \<Rightarrow> Inl ErrInvalidEncoder
        | ENCODER_UNSPECIFIED \<Rightarrow> Inl ErrInvalidEncoder
        | _ \<Rightarrow> Inr ()))"

definition SignatureOrderHandler ::
  "(RelayPrice list \<Rightarrow> int64 \<Rightarrow> bytes result) \<Rightarrow> feeds_ctx \<Rightarrow> feeds_state \<Rightarrow>
   FeedsSignatureOrder \<Rightarrow> bytes result" where
  "SignatureOrderHandler pack ctx s c =
     (if length (fso_SignalIDs c) > fp_MaxSignalIDsPerSigning (fs_params s) then Inl ErrInvalidSignalIDs
      else EncodeTSS pack (GetPrices ctx s (fso_SignalIDs c)) (Unix (ctx_BlockTime ctx)) (fso_Encoder c))"

section \<open>The price of one feed\<close>

lemma power_of_nonneg: "\<forall>x\<in>set infos. 0 \<le> info_Power x \<Longrightarrow> 0 \<le> power_of P infos"
  unfolding power_of_def by (intro sum_list_nonneg) auto

lemma power_of_none: "power_of P infos = 0" if "\<forall>x\<in>set infos. \<not> P (info_Status x)"
  using that by (simp add: power_of_def filter_False)

lemma median_of_available:
  assumes "\<forall>x\<in>set infos. 0 \<le> info_Power x" and "\<exists>x\<in>set infos. info_Status x = SIGNAL_PRICE_STATUS_AVAILABLE"
  shows "\<exists>x\<in>set infos. info_Status x = SIGNAL_PRICE_STATUS_AVAILABLE \<and> MedianValidatorPriceInfos infos = Inr (info_Price x)"
proof -
  let ?T = "sum_list (map info_Power (valid_infos infos))"
  obtain xs where xs: "mset xs = mset (valid_infos infos)"
    and med: "MedianValidatorPriceInfos infos = MedianWeightedPrice (interval_weights ?T 0 xs)"
    using MedianValidatorPriceInfos_intervals [OF assms(1)] by metis
  have set: "set xs = set (valid_infos infos)" using mset_eq_setD [OF xs] .
  then have nn: "\<forall>x\<in>set xs. 0 \<le> info_Power x" and ne: "xs \<noteq> []" using assms by (auto simp: valid_infos_def)
  have "interval_weights ?T 0 xs \<noteq> []" using ne by (cases xs) auto
  then obtain p where p: "MedianWeightedPrice (interval_weights ?T 0 xs) = Inr p" "p \<in> wp_Price ` set (interval_weights ?T 0 xs)"
    using MedianWeightedPrice_Inr interval_weights_nonneg [OF nn] by metis
  have "p \<in> info_Price ` set xs" using p(2) interval_weights_prices [of ?T 0 xs] by (metis list.set_map)
  then show ?thesis using p(1) med set by (auto simp: valid_infos_def)
qed

lemma median_of_none:
  assumes "\<forall>x\<in>set infos. info_Status x \<noteq> SIGNAL_PRICE_STATUS_AVAILABLE"
  shows "MedianValidatorPriceInfos infos = Inl ErrInvalidWeightedPrices"
proof -
  have "valid_infos infos = []" using assms by (auto simp: valid_infos_def filter_empty_conv)
  then show ?thesis by (simp add: MedianValidatorPriceInfos_def MedianWeightedPrice_def SortStableFunc_def)
qed

lemma CalculatePrice_Inr:
  assumes "\<forall>x\<in>set infos. 0 \<le> info_Power x" and "0 < powerQuorum"
  obtains price where "CalculatePrice ctx feed infos powerQuorum = Inr price" and "price_SignalID price = feed_SignalID feed"
    and "price_Timestamp price = Unix (ctx_BlockTime ctx)"
proof (cases "\<exists>x\<in>set infos. info_Status x = SIGNAL_PRICE_STATUS_AVAILABLE")
  case True
  then obtain p where "MedianValidatorPriceInfos infos = Inr p" using median_of_available [OF assms(1)] by blast
  then have "\<exists>price. CalculatePrice ctx feed infos powerQuorum = Inr price \<and> price_SignalID price = feed_SignalID feed \<and>
      price_Timestamp price = Unix (ctx_BlockTime ctx)"
    by (simp add: CalculatePrice_def Let_def CalculatePricesPowers_eq split: if_split)
  then show ?thesis using that by blast
next
  case False
  then have "power_of ((=) SIGNAL_PRICE_STATUS_AVAILABLE) infos = 0" by (intro power_of_none) auto
  moreover have "0 \<le> power_of (\<lambda>_. True) infos" using power_of_nonneg [OF assms(1)] .
  ultimately have "\<exists>price. CalculatePrice ctx feed infos powerQuorum = Inr price \<and> price_SignalID price = feed_SignalID feed \<and>
      price_Timestamp price = Unix (ctx_BlockTime ctx)"
    using assms(2) by (auto simp: CalculatePrice_def Let_def CalculatePricesPowers_eq)
  then show ?thesis using that by blast
qed

section \<open>All prices\<close>

definition missed ::
  "feeds_ctx \<Rightarrow> CurrentFeeds \<Rightarrow> int64 \<Rightarrow> (bytes \<Rightarrow> bytes \<Rightarrow> ValidatorPrice) \<Rightarrow> ValidatorInfo list \<Rightarrow> Feed \<Rightarrow> bytes \<Rightarrow> bool" where
  "missed ctx cf gracePeriod prices validators feed w \<longleftrightarrow>
     (\<exists>vi\<in>set validators. vi_Address vi = w \<and>
        CheckMissReport feed (cf_LastUpdateTimestamp cf) (cf_LastUpdateBlock cf) (prices w (feed_SignalID feed)) vi
          (ctx_BlockTime ctx) (ctx_BlockHeight ctx) gracePeriod)"

lemma feed_validators_fold:
  "\<exists>m' infos'. foldl (feed_validator_step ctx cf gp feed prices) (m, infos) validators = (m', infos @ infos') \<and>
     (\<forall>x\<in>set infos'. 0 \<le> info_Power x) \<and>
     (\<forall>w. GetValidatorStatus m' w = GetValidatorStatus m w \<or>
        missed ctx cf gp prices validators feed w \<and> GetValidatorStatus m' w = \<lparr>vs_IsActive = False, vs_Since = ctx_BlockTime ctx\<rparr>)"
proof (induction validators arbitrary: m infos)
  case Nil
  then show ?case by simp
next
  case (Cons vi vis)
  obtain m1 i1 where st: "feed_validator_step ctx cf gp feed prices (m, infos) vi = (m1, infos @ i1)"
    and i1: "\<forall>x\<in>set i1. 0 \<le> info_Power x"
    and m1: "\<forall>w. GetValidatorStatus m1 w = GetValidatorStatus m w \<or>
        missed ctx cf gp prices [vi] feed w \<and> GetValidatorStatus m1 w = \<lparr>vs_IsActive = False, vs_Since = ctx_BlockTime ctx\<rparr>"
  proof -
    let ?vp = "prices (vi_Address vi) (feed_SignalID feed)"
    define i where "i = (if checkHavePrice feed ?vp (ctx_BlockTime ctx)
        then [\<lparr>info_Status = vp_SignalPriceStatus ?vp, info_Power = int (vi_Power vi), info_Price = vp_Price ?vp,
          info_Timestamp = vp_Timestamp ?vp\<rparr>] else [])"
    have "snd (feed_validator_step ctx cf gp feed prices (m, infos) vi) = infos @ i"
      by (simp add: feed_validator_step_def i_def Let_def)
    moreover have "\<forall>x\<in>set i. 0 \<le> info_Power x" by (simp add: i_def)
    moreover have "\<forall>w. GetValidatorStatus (fst (feed_validator_step ctx cf gp feed prices (m, infos) vi)) w = GetValidatorStatus m w \<or>
        missed ctx cf gp prices [vi] feed w \<and>
        GetValidatorStatus (fst (feed_validator_step ctx cf gp feed prices (m, infos) vi)) w = \<lparr>vs_IsActive = False, vs_Since = ctx_BlockTime ctx\<rparr>"
      by (auto simp: feed_validator_step_def Let_def GetValidatorStatus_MissReport missed_def)
    ultimately show ?thesis using that by (metis prod.collapse)
  qed
  from Cons.IH [of m1 "infos @ i1"] obtain m2 i2 where
    r: "foldl (feed_validator_step ctx cf gp feed prices) (m1, infos @ i1) vis = (m2, (infos @ i1) @ i2)"
    "\<forall>x\<in>set i2. 0 \<le> info_Power x"
    "\<forall>w. GetValidatorStatus m2 w = GetValidatorStatus m1 w \<or>
        missed ctx cf gp prices vis feed w \<and> GetValidatorStatus m2 w = \<lparr>vs_IsActive = False, vs_Since = ctx_BlockTime ctx\<rparr>"
    by blast
  have mono: "missed ctx cf gp prices [vi] feed w \<Longrightarrow> missed ctx cf gp prices (vi # vis) feed w"
    "missed ctx cf gp prices vis feed w \<Longrightarrow> missed ctx cf gp prices (vi # vis) feed w" for w
    by (auto simp: missed_def)
  have "\<forall>w. GetValidatorStatus m2 w = GetValidatorStatus m w \<or>
      missed ctx cf gp prices (vi # vis) feed w \<and> GetValidatorStatus m2 w = \<lparr>vs_IsActive = False, vs_Since = ctx_BlockTime ctx\<rparr>"
    using m1 r(3) mono by metis
  then show ?case using st i1 r by (intro exI [of _ m2] exI [of _ "i1 @ i2"]) auto
qed

definition same_but_prices :: "feeds_state \<Rightarrow> feeds_state \<Rightarrow> bool" where
  "same_but_prices s s' \<longleftrightarrow> s' = s\<lparr>fs_prices := fs_prices s'\<rparr>"

lemma PriceStoreKey_inj [simp]: "PriceStoreKey a = PriceStoreKey b \<longleftrightarrow> a = b"
  by (simp add: PriceStoreKey_def)

lemma feed_steps_spec:
  assumes "0 < quorum"
  obtains s' m' where "foldE (feed_step ctx cf gp prices validators quorum) (s, m) feeds = Inr (s', m')"
    and "same_but_prices s s'"
    and "\<And>x. x \<in> feed_SignalID ` set feeds \<Longrightarrow> \<exists>p. kv_get (fs_prices s') (PriceStoreKey x) = Some p \<and>
           price_SignalID p = x \<and> price_Timestamp p = Unix (ctx_BlockTime ctx)"
    and "\<And>x. x \<notin> feed_SignalID ` set feeds \<Longrightarrow> kv_get (fs_prices s') (PriceStoreKey x) = kv_get (fs_prices s) (PriceStoreKey x)"
    and "\<And>w. GetValidatorStatus m' w = GetValidatorStatus m w \<or>
           (\<exists>feed\<in>set feeds. missed ctx cf gp prices validators feed w) \<and>
           GetValidatorStatus m' w = \<lparr>vs_IsActive = False, vs_Since = ctx_BlockTime ctx\<rparr>"
proof -
  have "\<exists>s' m'. foldE (feed_step ctx cf gp prices validators quorum) (s, m) feeds = Inr (s', m') \<and> same_but_prices s s' \<and>
      (\<forall>x. x \<in> feed_SignalID ` set feeds \<longrightarrow> (\<exists>p. kv_get (fs_prices s') (PriceStoreKey x) = Some p \<and>
           price_SignalID p = x \<and> price_Timestamp p = Unix (ctx_BlockTime ctx))) \<and>
      (\<forall>x. x \<notin> feed_SignalID ` set feeds \<longrightarrow> kv_get (fs_prices s') (PriceStoreKey x) = kv_get (fs_prices s) (PriceStoreKey x)) \<and>
      (\<forall>w. GetValidatorStatus m' w = GetValidatorStatus m w \<or>
           (\<exists>feed\<in>set feeds. missed ctx cf gp prices validators feed w) \<and>
           GetValidatorStatus m' w = \<lparr>vs_IsActive = False, vs_Since = ctx_BlockTime ctx\<rparr>)"
  proof (induction feeds arbitrary: s m)
    case Nil
    then show ?case by (simp add: same_but_prices_def)
  next
    case (Cons feed feeds)
    obtain m1 infos where fv: "foldl (feed_validator_step ctx cf gp feed prices) (m, []) validators = (m1, infos)"
      and nn: "\<forall>x\<in>set infos. 0 \<le> info_Power x"
      and m1: "\<forall>w. GetValidatorStatus m1 w = GetValidatorStatus m w \<or>
        missed ctx cf gp prices validators feed w \<and> GetValidatorStatus m1 w = \<lparr>vs_IsActive = False, vs_Since = ctx_BlockTime ctx\<rparr>"
      using feed_validators_fold [of ctx cf gp feed prices m "[]" validators] by auto
    obtain price where price: "CalculatePrice ctx feed infos quorum = Inr price" "price_SignalID price = feed_SignalID feed"
      "price_Timestamp price = Unix (ctx_BlockTime ctx)"
      using CalculatePrice_Inr [OF nn assms] by blast
    have step: "feed_step ctx cf gp prices validators quorum (s, m) feed = Inr (SetPrice s price, m1)"
      using fv price(1) by (simp add: feed_step_def)
    from Cons.IH [of "SetPrice s price" m1] obtain s' m' where
      r: "foldE (feed_step ctx cf gp prices validators quorum) (SetPrice s price, m1) feeds = Inr (s', m')"
        "same_but_prices (SetPrice s price) s'"
      and p1: "\<forall>x. x \<in> feed_SignalID ` set feeds \<longrightarrow> (\<exists>p. kv_get (fs_prices s') (PriceStoreKey x) = Some p \<and>
           price_SignalID p = x \<and> price_Timestamp p = Unix (ctx_BlockTime ctx))"
      and p2: "\<forall>x. x \<notin> feed_SignalID ` set feeds \<longrightarrow> kv_get (fs_prices s') (PriceStoreKey x) = kv_get (fs_prices (SetPrice s price)) (PriceStoreKey x)"
      and st: "\<forall>w. GetValidatorStatus m' w = GetValidatorStatus m1 w \<or>
           (\<exists>feed\<in>set feeds. missed ctx cf gp prices validators feed w) \<and>
           GetValidatorStatus m' w = \<lparr>vs_IsActive = False, vs_Since = ctx_BlockTime ctx\<rparr>"
      by blast
    have sp: "kv_get (fs_prices (SetPrice s price)) (PriceStoreKey x) =
        (if x = feed_SignalID feed then Some price else kv_get (fs_prices s) (PriceStoreKey x))" for x
      by (simp add: SetPrice_def price(2))
    have "same_but_prices s s'" using r(2) by (simp add: same_but_prices_def SetPrice_def)
    moreover have "\<forall>x. x \<in> feed_SignalID ` set (feed # feeds) \<longrightarrow> (\<exists>p. kv_get (fs_prices s') (PriceStoreKey x) = Some p \<and>
           price_SignalID p = x \<and> price_Timestamp p = Unix (ctx_BlockTime ctx))"
      using p1 p2 sp price by (metis imageE image_eqI set_ConsD)
    moreover have "\<forall>x. x \<notin> feed_SignalID ` set (feed # feeds) \<longrightarrow> kv_get (fs_prices s') (PriceStoreKey x) = kv_get (fs_prices s) (PriceStoreKey x)"
      using p2 sp by simp
    moreover have "\<forall>w. GetValidatorStatus m' w = GetValidatorStatus m w \<or>
           (\<exists>f\<in>set (feed # feeds). missed ctx cf gp prices validators f w) \<and>
           GetValidatorStatus m' w = \<lparr>vs_IsActive = False, vs_Since = ctx_BlockTime ctx\<rparr>"
      using st m1 by (metis list.set_intros)
    ultimately show ?case using step r(1) by (intro exI [of _ s'] exI [of _ m']) simp
  qed
  then show ?thesis using that by blast
qed

text \<open>Deleting while iterating removes every price.\<close>

lemma DeleteAllPrices_get: "kv_get (fs_prices (DeleteAllPrices s)) (PriceStoreKey x) = None"
proof -
  have del: "kv_get (fs_prices (foldl (\<lambda>s e. s\<lparr>fs_prices := kv_delete (fs_prices s) (fst e)\<rparr>) s es)) y =
      (if y \<in> fst ` set es then None else kv_get (fs_prices s) y)" for es y and s :: feeds_state
    by (induction es arbitrary: s) auto
  have "PriceStoreKey x \<in> fst ` set (kv_prefix_iterator (fs_prices s) [0x11])" if "kv_get (fs_prices s) (PriceStoreKey x) = Some p" for p
    using kv_getD [OF that] by (force simp: kv_prefix_iterator_def PriceStoreKey_def)
  then show ?thesis unfolding DeleteAllPrices_def del by (metis not_None_eq)
qed

lemma DeleteAllPrices_same: "same_but_prices s (DeleteAllPrices s)"
proof -
  have "same_but_prices s (foldl (\<lambda>s e. s\<lparr>fs_prices := kv_delete (fs_prices s) (fst e)\<rparr>) s es)" for es and s :: feeds_state
    by (induction es arbitrary: s) (simp add: same_but_prices_def, metis (no_types, lifting) foldl_Cons same_but_prices_def feeds_state.unfold_congs(4) feeds_state.surjective feeds_state.update_convs(4))
  then show ?thesis by (simp add: DeleteAllPrices_def)
qed

section \<open>Submitted prices\<close>

text \<open>The price that a list of a validator's prices gives for a signal: the last one with a status.\<close>

definition price_in :: "ValidatorPrice list \<Rightarrow> bytes \<Rightarrow> ValidatorPrice" where
  "price_in ps x =
     (case kv_get (foldl (\<lambda>m p. if vp_SignalPriceStatus p \<noteq> SIGNAL_PRICE_STATUS_UNSPECIFIED
                                then kv_set m (vp_SignalID p) p else m) [] ps) x of
        None \<Rightarrow> no_validator_price | Some p \<Rightarrow> p)"

lemma price_in_Nil [simp]: "price_in [] x = no_validator_price"
  by (simp add: price_in_def)

lemma price_in_snoc [simp]:
  "price_in (ps @ [p]) x =
     (if vp_SignalPriceStatus p \<noteq> SIGNAL_PRICE_STATUS_UNSPECIFIED \<and> vp_SignalID p = x then p else price_in ps x)"
  by (simp add: price_in_def)

lemma validator_price_eq:
  "validator_price k s val x =
     price_in (case GetValidatorPriceList k s val of Inl _ \<Rightarrow> [] | Inr l \<Rightarrow> vpl_ValidatorPrices l) x"
  by (simp add: validator_price_def price_in_def Let_def split: sum.splits)

text \<open>
  A stored list is well formed when an entry without status is the empty entry; the ids of the
  current feeds are distinct and not empty.
\<close>

definition prices_good :: "ValidatorPrice list \<Rightarrow> bool" where
  "prices_good ps \<longleftrightarrow> (\<forall>p\<in>set ps. vp_SignalPriceStatus p = SIGNAL_PRICE_STATUS_UNSPECIFIED \<longrightarrow> p = no_validator_price)"

definition feeds_good :: "Feed list \<Rightarrow> bool" where
  "feeds_good feeds \<longleftrightarrow> distinct (map feed_SignalID feeds) \<and> [] \<notin> set (map feed_SignalID feeds)"

lemma feeds_map_snoc: "feeds_map (feeds @ [f]) = kv_set (feeds_map feeds) (feed_SignalID f) (length feeds)"
  by (simp add: feeds_map_def enumerate_append_eq)

lemma feeds_map_get:
  assumes "distinct (map feed_SignalID feeds)"
  shows "kv_get (feeds_map feeds) x = Some i \<longleftrightarrow> i < length feeds \<and> feed_SignalID (feeds ! i) = x"
  using assms
proof (induction feeds arbitrary: i rule: rev_induct)
  case Nil
  then show ?case by (simp add: feeds_map_def)
next
  case (snoc f feeds)
  have "feed_SignalID f \<notin> feed_SignalID ` set feeds" using snoc.prems by simp
  then have "feed_SignalID (feeds ! j) \<noteq> feed_SignalID f" if "j < length feeds" for j
    using nth_mem [OF that] by (metis image_eqI)
  with snoc show ?case
    by (cases "x = feed_SignalID f") (auto simp: feeds_map_snoc nth_append less_Suc_eq)
qed

lemma length_kv_set_new: "k \<notin> fst ` set m \<Longrightarrow> length (kv_set m k v) = Suc (length m)"
  by (induction m k v rule: kv_set.induct) auto

lemma feeds_map_length: "distinct (map feed_SignalID feeds) \<Longrightarrow> length (feeds_map feeds) = length feeds"
proof -
  have keys: "fst ` set (feeds_map fs) = feed_SignalID ` set fs" for fs
    by (induction fs rule: rev_induct) (simp_all add: feeds_map_snoc kv_keys_set, simp add: feeds_map_def)
  show "distinct (map feed_SignalID feeds) \<Longrightarrow> length (feeds_map feeds) = length feeds"
  proof (induction feeds rule: rev_induct)
    case Nil
    then show ?case by (simp add: feeds_map_def)
  next
    case (snoc f fs)
    then show ?case by (simp add: feeds_map_snoc length_kv_set_new keys)
  qed
qed

text \<open>Copying the previous prices: slot \<open>i\<close> holds the price stored for feed \<open>i\<close>.\<close>

lemma keep_prices:
  assumes "feeds_good feeds" and "prices_good es"
  shows "\<exists>ps. foldE (keep_price (feeds_map feeds)) (replicate (length feeds) no_validator_price) es = Inr ps \<and>
    length ps = length feeds \<and> (\<forall>i<length feeds. ps ! i = price_in es (feed_SignalID (feeds ! i)))"
  using assms(2)
proof (induction es rule: rev_induct)
  case Nil
  then show ?case by simp
next
  case (snoc p es)
  then obtain ps where ps: "foldE (keep_price (feeds_map feeds)) (replicate (length feeds) no_validator_price) es = Inr ps"
    "length ps = length feeds" "\<forall>i<length feeds. ps ! i = price_in es (feed_SignalID (feeds ! i))"
    by (auto simp: prices_good_def)
  have d: "distinct (map feed_SignalID feeds)" and ne: "\<forall>i<length feeds. feed_SignalID (feeds ! i) \<noteq> []"
    using assms(1) nth_mem by (force simp: feeds_good_def)+
  show ?case
  proof (cases "kv_get (feeds_map feeds) (vp_SignalID p)")
    case None
    then have "\<forall>i<length feeds. feed_SignalID (feeds ! i) \<noteq> vp_SignalID p" using feeds_map_get [OF d, of "vp_SignalID p"] by auto
    moreover have "keep_price (feeds_map feeds) ps p = Inr ps" using None by (simp add: keep_price_def)
    ultimately show ?thesis using ps by (intro exI [of _ ps]) (auto simp: foldE_append)
  next
    case (Some j)
    then have j: "j < length feeds" "feed_SignalID (feeds ! j) = vp_SignalID p" using feeds_map_get [OF d] by auto
    then have st: "vp_SignalPriceStatus p \<noteq> SIGNAL_PRICE_STATUS_UNSPECIFIED"
      using snoc.prems ne by (auto simp: prices_good_def no_validator_price_def)
    have "vp_SignalID p = feed_SignalID (feeds ! i) \<longleftrightarrow> i = j" if "i < length feeds" for i
      using that j d by (metis length_map nth_eq_iff_index_eq nth_map)
    moreover have "keep_price (feeds_map feeds) ps p = Inr (ps[j := p])" using Some j ps(2) by (simp add: keep_price_def set_at_def)
    ultimately show ?thesis using ps j st by (intro exI [of _ "ps[j := p]"]) (auto simp: foldE_append nth_list_update)
  qed
qed

definition new_price :: "int64 \<Rightarrow> int64 \<Rightarrow> SignalPrice \<Rightarrow> ValidatorPrice" where
  "new_price blockTime blockHeight q = \<lparr>vp_SignalPriceStatus = sp_Status q, vp_SignalID = sp_SignalID q,
     vp_Price = sp_Price q, vp_Timestamp = blockTime, vp_BlockHeight = blockHeight\<rparr>"

definition cooled :: "int64 \<Rightarrow> int64 \<Rightarrow> ValidatorPrice \<Rightarrow> bool" where
  "cooled cooldownTime blockTime p \<longleftrightarrow>
     vp_SignalPriceStatus p = SIGNAL_PRICE_STATUS_UNSPECIFIED \<or> i64 (vp_Timestamp p + cooldownTime) \<le> blockTime"

lemma submit_price_eq:
  assumes "\<And>x i. kv_get fm x = Some i \<Longrightarrow> i < length ps"
  shows "submit_price fm cd bt bh ps q =
    (case kv_get fm (sp_SignalID q) of
       None \<Rightarrow> Inl ErrSignalIDNotSupported
     | Some i \<Rightarrow> if cooled cd bt (ps ! i) then Inr (ps[i := new_price bt bh q]) else Inl ErrPriceSubmitTooEarly)"
proof (cases "kv_get fm (sp_SignalID q)")
  case (Some i)
  then show ?thesis using assms [OF Some] by (simp add: submit_price_def set_at_def new_price_def cooled_def not_le)
qed (simp add: submit_price_def)

lemmas feeds_errors = ErrSignalPricesTooLarge_def ErrNotBondedValidator_def ErrOracleStatusNotActive_def ErrInvalidTimestamp_def
  ErrSignalIDNotSupported_def ErrPriceSubmitTooEarly_def

text \<open>Writing the submitted prices, whose ids differ, touches the slot of each once.\<close>

lemma submit_prices:
  assumes "\<And>x i. kv_get fm x = Some i \<Longrightarrow> i < n" and inj: "\<And>x y i. kv_get fm x = Some i \<Longrightarrow> kv_get fm y = Some i \<Longrightarrow> x = y"
    and "length ps = n" and "distinct (map sp_SignalID qs)"
  shows "case foldE (submit_price fm cd bt bh) ps qs of
      Inl e \<Rightarrow> \<not> is_panic e \<and> (\<exists>q\<in>set qs. \<forall>i. kv_get fm (sp_SignalID q) = Some i \<longrightarrow> \<not> cooled cd bt (ps ! i))
    | Inr ps' \<Rightarrow> length ps' = n \<and>
        (\<forall>q\<in>set qs. \<exists>i. kv_get fm (sp_SignalID q) = Some i \<and> cooled cd bt (ps ! i) \<and> ps' ! i = new_price bt bh q) \<and>
        (\<forall>i. (\<forall>q\<in>set qs. kv_get fm (sp_SignalID q) \<noteq> Some i) \<longrightarrow> ps' ! i = ps ! i)"
  using assms(3,4)
proof (induction qs arbitrary: ps)
  case (Cons q qs)
  note step = submit_price_eq [of fm ps cd bt bh q, OF assms(1) [folded Cons.prems(1)]]
  show ?case
  proof (cases "kv_get fm (sp_SignalID q)")
    case None
    then show ?thesis by (simp add: step feeds_errors)
  next
    case (Some j)
    show ?thesis
    proof (cases "cooled cd bt (ps ! j)")
      case False
      then show ?thesis using Some by (simp add: step feeds_errors)
    next
      case True
      let ?ps = "ps[j := new_price bt bh q]"
      have j: "j < length ps" using assms(1) [OF Some] Cons.prems(1) by simp
      have other: "?ps ! i = ps ! i" "i \<noteq> j" if "q' \<in> set qs" "kv_get fm (sp_SignalID q') = Some i" for q' i
      proof -
        have "sp_SignalID q' \<noteq> sp_SignalID q" using Cons.prems(2) that(1) by (metis distinct.simps(2) image_eqI list.set_map list.simps(9))
        then show "i \<noteq> j" using inj Some that(2) by blast
        then show "?ps ! i = ps ! i" by simp
      qed
      have run: "foldE (submit_price fm cd bt bh) ps (q # qs) = foldE (submit_price fm cd bt bh) ?ps qs"
        using Some True by (simp add: step)
      show ?thesis
      proof (cases "foldE (submit_price fm cd bt bh) ?ps qs")
        case (Inl e)
        then obtain q' where "\<not> is_panic e" "q' \<in> set qs" "\<forall>i. kv_get fm (sp_SignalID q') = Some i \<longrightarrow> \<not> cooled cd bt (?ps ! i)"
          using Cons.IH [of ?ps] Cons.prems by auto
        then show ?thesis unfolding run Inl using other by auto
      next
        case (Inr ps')
        have len: "length ps' = n"
          and new: "\<And>q'. q' \<in> set qs \<Longrightarrow> \<exists>i. kv_get fm (sp_SignalID q') = Some i \<and> cooled cd bt (?ps ! i) \<and> ps' ! i = new_price bt bh q'"
          and old: "\<And>i. (\<forall>q'\<in>set qs. kv_get fm (sp_SignalID q') \<noteq> Some i) \<Longrightarrow> ps' ! i = ?ps ! i"
          using Cons.IH [of ?ps] Cons.prems Inr by auto
        have "ps' ! j = new_price bt bh q" using old [of j] other(2) j by force
        moreover have "ps' ! i = ps ! i" if "\<forall>q'\<in>set (q # qs). kv_get fm (sp_SignalID q') \<noteq> Some i" for i
          using that old [of i] Some by auto
        moreover have "\<exists>i. kv_get fm (sp_SignalID q') = Some i \<and> cooled cd bt (ps ! i) \<and> ps' ! i = new_price bt bh q'"
          if "q' \<in> set qs" for q' using new [OF that] other(1) [OF that] by auto
        ultimately show ?thesis unfolding run Inr using len Some True by auto
      qed
    qed
  qed
qed simp

text \<open>Reading the new list back.\<close>

lemma price_in_cases:
  "price_in ps x = no_validator_price \<or>
   vp_SignalPriceStatus (price_in ps x) \<noteq> SIGNAL_PRICE_STATUS_UNSPECIFIED \<and> vp_SignalID (price_in ps x) = x"
  by (induction ps rule: rev_induct) auto

lemma validator_price_Set:
  "validator_price k (SetValidatorPriceList k ctx s val ps) val x = price_in ps x"
  by (simp add: validator_price_eq GetValidatorPriceList_def SetValidatorPriceList_def)

lemma price_in_slots:
  assumes "\<And>i. i < length ps \<Longrightarrow> ps ! i = no_validator_price \<or>
      vp_SignalPriceStatus (ps ! i) \<noteq> SIGNAL_PRICE_STATUS_UNSPECIFIED \<and> vp_SignalID (ps ! i) = ids ! i"
    and "distinct ids" and "length ps = length ids" and "i < length ids"
  shows "price_in ps (ids ! i) = ps ! i"
proof -
  have "price_in (take n ps) (ids ! i) = (if i < n then ps ! i else no_validator_price)" if "n \<le> length ps" for n
    using that
  proof (induction n)
    case (Suc n)
    then have n: "n < length ps" by simp
    have "ids ! n = ids ! i \<longleftrightarrow> n = i" using assms(2-4) n by (simp add: nth_eq_iff_index_eq)
    then show ?case using Suc.IH n assms(1) [OF n]
      by (auto simp: take_Suc_conv_app_nth less_Suc_eq no_validator_price_def)
  qed simp
  from this [of "length ps"] show ?thesis using assms(3,4) by simp
qed

section \<open>The end of a block\<close>

lemma top_signals_prices [simp]: "top_signals (s\<lparr>fs_prices := ps\<rparr>) n es = top_signals s n es"
  by (induction s n es rule: top_signals.induct) (auto simp: GetSignalTotalPower_def split: option.splits sum.splits)

lemma CalculateNewCurrentFeeds_prices [simp]:
  "CalculateNewCurrentFeeds (s\<lparr>fs_prices := ps\<rparr>) = CalculateNewCurrentFeeds s"
  by (simp add: CalculateNewCurrentFeeds_def GetSignalTotalPowersByPower_def Let_def)

lemma CalculateNewCurrentFeeds_ok:
  assumes "powers_ok s" and "feeds_Params_Validate k (fs_params s) = Inr ()" and "params_typed (fs_params s)"
  obtains feeds where "CalculateNewCurrentFeeds s = Inr feeds"
proof -
  have lim: "fp_MaxCurrentFeeds (fs_params s) < 2 ^ 63" using assms(3) by (simp add: params_typed_def)
  obtain all where run: "GetSignalTotalPowersByPower s (fp_MaxCurrentFeeds (fs_params s)) = Inr (take (fp_MaxCurrentFeeds (fs_params s)) all)"
    and all: "set all = {sg. GetSignalTotalPower s (sig_ID sg) = Inr sg}"
    by (rule GetSignalTotalPowersByPower_spec [OF assms(1) lim])
  have "sig_Power sg < 2 ^ 63" if "sg \<in> set (take (fp_MaxCurrentFeeds (fs_params s)) all)" for sg
    using in_set_takeD [OF that] all GetSignalTotalPower_Inr(2) [OF assms(1), of "sig_ID sg" sg]
    by (auto simp: signal_good_def)
  then show ?thesis using CalculateNewCurrentFeeds_spec [OF assms run] that by blast
qed

lemma active_validators_ok:
  assumes "IterateBondedValidatorsByPower ctx = Inr vals" and "\<forall>(op, tokens)\<in>set vals. IsUint64 tokens"
  obtains infos where "active_validators ctx m = Inr infos"
proof -
  define step where "step = (\<lambda>infos (op, tokens).
       case ValAddressFromBech32 ctx op of
         Inl _ \<Rightarrow> Inr infos
       | Inr operator \<Rightarrow>
           let status = GetValidatorStatus m operator in
           if \<not> vs_IsActive status then Inr infos
           else if \<not> IsUint64 tokens then Inl (Panic ''Uint64() out of bounds'')
           else Inr (infos @ [\<lparr>vi_Address = operator, vi_Power = nat tokens, vi_Status = status\<rparr>]))"
  have "\<exists>r. foldE step infos vals = Inr r" for infos
    using assms(2)
  proof (induction vals arbitrary: infos)
    case (Cons v vals)
    obtain op tokens where v: "v = (op, tokens)" by (cases v)
    have "\<exists>i. step infos v = Inr i" using Cons.prems v by (auto simp: step_def Let_def split: sum.splits)
    then show ?case using Cons by auto
  qed simp
  then show ?thesis using that assms(1) unfolding active_validators_def step_def by (metis (no_types, lifting) bindE_simps(2))
qed

lemma CalculatePrices_ok:
  assumes "active_validators ctx m = Inr validators" and "TotalBondedTokens ctx = Inr tbt"
    and "LegacyNewDecFromStr k (fp_PriceQuorum (fs_params s)) = Inr q" and "0 < DecMulTruncateInt k tbt q"
  obtains s' m' where "CalculatePrices k ctx (s, m) = Inr (s', m')" and "same_but_prices s s'"
    and "\<And>x. x \<in> feed_SignalID ` set (cf_Feeds (fs_current_feeds s)) \<Longrightarrow> \<exists>p. kv_get (fs_prices s') (PriceStoreKey x) = Some p \<and>
           price_SignalID p = x \<and> price_Timestamp p = Unix (ctx_BlockTime ctx)"
    and "\<And>x. x \<notin> feed_SignalID ` set (cf_Feeds (fs_current_feeds s)) \<Longrightarrow>
           kv_get (fs_prices s') (PriceStoreKey x) = kv_get (fs_prices s) (PriceStoreKey x)"
    and "\<And>w. GetValidatorStatus m' w = GetValidatorStatus m w \<or>
           (\<exists>feed\<in>set (cf_Feeds (fs_current_feeds s)).
              missed ctx (fs_current_feeds s) (fp_GracePeriod (fs_params s)) (validator_price k s) validators feed w) \<and>
           GetValidatorStatus m' w = \<lparr>vs_IsActive = False, vs_Since = ctx_BlockTime ctx\<rparr>"
proof (rule feed_steps_spec [OF assms(4), of ctx "fs_current_feeds s" "fp_GracePeriod (fs_params s)" "validator_price k s" validators s m "cf_Feeds (fs_current_feeds s)"])
  fix s' m'
  assume "foldE (feed_step ctx (fs_current_feeds s) (fp_GracePeriod (fs_params s)) (validator_price k s) validators
      (DecMulTruncateInt k tbt q)) (s, m) (cf_Feeds (fs_current_feeds s)) = Inr (s', m')"
  then have "CalculatePrices k ctx (s, m) = Inr (s', m')" using assms(1-3) by (simp add: CalculatePrices_def)
  then show "same_but_prices s s' \<Longrightarrow>
      (\<And>x. x \<in> feed_SignalID ` set (cf_Feeds (fs_current_feeds s)) \<Longrightarrow> \<exists>p. kv_get (fs_prices s') (PriceStoreKey x) = Some p \<and>
           price_SignalID p = x \<and> price_Timestamp p = Unix (ctx_BlockTime ctx)) \<Longrightarrow>
      (\<And>x. x \<notin> feed_SignalID ` set (cf_Feeds (fs_current_feeds s)) \<Longrightarrow>
           kv_get (fs_prices s') (PriceStoreKey x) = kv_get (fs_prices s) (PriceStoreKey x)) \<Longrightarrow>
      (\<And>w. GetValidatorStatus m' w = GetValidatorStatus m w \<or>
           (\<exists>feed\<in>set (cf_Feeds (fs_current_feeds s)).
              missed ctx (fs_current_feeds s) (fp_GracePeriod (fs_params s)) (validator_price k s) validators feed w) \<and>
           GetValidatorStatus m' w = \<lparr>vs_IsActive = False, vs_Since = ctx_BlockTime ctx\<rparr>) \<Longrightarrow> thesis"
    by (rule that)
qed

section \<open>Properties\<close>

text \<open>
  The price of a feed is decided as documented: \<open>UNKNOWN_SIGNAL_ID\<close> exactly when validators with
  more than half of the reported power say the signal is unsupported, otherwise \<open>NOT_READY\<close> exactly
  when the reported power misses the quorum or less than half of it comes with a price, otherwise
  \<open>AVAILABLE\<close> with the median, which is a reported price. Computing it fails only when nobody has a price, no power
  reports at all, and the quorum is not positive.
\<close>

theorem CalculatePrice_correct:
  assumes "\<forall>x\<in>set infos. 0 \<le> info_Power x"
  defines "tot \<equiv> power_of (\<lambda>_. True) infos"
    and "available \<equiv> power_of ((=) SIGNAL_PRICE_STATUS_AVAILABLE) infos"
    and "unsupported \<equiv> power_of ((=) SIGNAL_PRICE_STATUS_UNSUPPORTED) infos"
  shows "case CalculatePrice ctx feed infos powerQuorum of
      Inl e \<Rightarrow> powerQuorum \<le> 0 \<and> tot = 0 \<and> (\<forall>x\<in>set infos. info_Status x \<noteq> SIGNAL_PRICE_STATUS_AVAILABLE)
    | Inr p \<Rightarrow> price_SignalID p = feed_SignalID feed \<and> price_Timestamp p = Unix (ctx_BlockTime ctx) \<and>
        price_Status p = (if unsupported * 2 > tot then PRICE_STATUS_UNKNOWN_SIGNAL_ID
          else if tot < powerQuorum \<or> available * 2 < tot then PRICE_STATUS_NOT_READY else PRICE_STATUS_AVAILABLE) \<and>
        (if price_Status p = PRICE_STATUS_AVAILABLE
         then MedianValidatorPriceInfos infos = Inr (price_Price p) \<and>
           (\<exists>x\<in>set infos. info_Status x = SIGNAL_PRICE_STATUS_AVAILABLE \<and> price_Price p = info_Price x)
         else price_Price p = 0)"
proof (cases "\<exists>x\<in>set infos. info_Status x = SIGNAL_PRICE_STATUS_AVAILABLE")
  case True
  then obtain x where "x \<in> set infos" "info_Status x = SIGNAL_PRICE_STATUS_AVAILABLE" "MedianValidatorPriceInfos infos = Inr (info_Price x)"
    using median_of_available [OF assms(1)] by blast
  then show ?thesis
    by (auto simp: CalculatePrice_def Let_def CalculatePricesPowers_eq tot_def available_def unsupported_def)
next
  case False
  then have "available = 0" unfolding available_def by (intro power_of_none) auto
  moreover have "0 \<le> tot" unfolding tot_def by (rule power_of_nonneg [OF assms(1)])
  moreover have "MedianValidatorPriceInfos infos = Inl ErrInvalidWeightedPrices" using False by (intro median_of_none) auto
  ultimately show ?thesis using False
    by (auto simp: CalculatePrice_def Let_def CalculatePricesPowers_eq tot_def available_def unsupported_def)
qed

definition demo_ctx :: feeds_ctx where
  "demo_ctx = \<lparr>ctx_BlockTime = 1000 * 10 ^ 9, ctx_BlockHeight = 86400, ValAddressFromBech32 = Inr, ValAddress_String = id,
     IterateBondedValidatorsByPower = Inr [(str ''v1'', 60), (str ''v2'', 40)], TotalBondedTokens = Inr 100,
     GetValidator_IsBonded = (\<lambda>_. Inr True)\<rparr>"

definition demo_feed :: Feed where
  "demo_feed = \<lparr>feed_SignalID = str ''CS:BTC-USD'', feed_Power = 40, feed_Interval = 900\<rparr>"

theorem CalculatePrice_correct_witness:
  "case CalculatePrice demo_ctx demo_feed demo_infos 30 of Inl _ \<Rightarrow> False | Inr p \<Rightarrow> price_Status p = PRICE_STATUS_AVAILABLE"
  using CalculatePrice_correct [where infos = demo_infos and ctx = demo_ctx and feed = demo_feed and powerQuorum = 30]
  by (auto simp: demo_infos_def power_of_def split: sum.splits)

text \<open>
  C6: the end of a block succeeds with valid parameters whenever the quorum of the bonded tokens is positive after truncation (valid parameters allow the quorum zero, with which it fails
  for a feed without available prices): the current feeds are
  recomputed exactly at the multiples of the update interval, every current feed then has a price
  computed in this block, after an update no other signal has a price, votes, total powers and submitted prices are
  untouched, and the only validators whose status changes are deactivated ones that missed a report of a current feed.
\<close>

theorem feeds_EndBlocker_correct:
  assumes "powers_ok s" and "feeds_Params_Validate k (fs_params s) = Inr ()" and "params_typed (fs_params s)"
    and "IterateBondedValidatorsByPower ctx = Inr vals" and "\<forall>(op, tokens)\<in>set vals. IsUint64 tokens"
    and "TotalBondedTokens ctx = Inr tbt" and "LegacyNewDecFromStr k (fp_PriceQuorum (fs_params s)) = Inr q"
    and "0 < DecMulTruncateInt k tbt q"
  shows "\<exists>s' m' feeds validators. feeds_EndBlocker k ctx (s, m) = Inr (s', m') \<and> active_validators ctx m = Inr validators \<and>
    s' = s\<lparr>fs_prices := fs_prices s', fs_current_feeds := fs_current_feeds s'\<rparr> \<and> feeds = cf_Feeds (fs_current_feeds s') \<and>
    (if go_mod (ctx_BlockHeight ctx) (fp_CurrentFeedsUpdateInterval (fs_params s)) = 0
     then CalculateNewCurrentFeeds s = Inr feeds \<and> cf_LastUpdateTimestamp (fs_current_feeds s') = Unix (ctx_BlockTime ctx) \<and>
       cf_LastUpdateBlock (fs_current_feeds s') = ctx_BlockHeight ctx \<and>
       (\<forall>x. x \<notin> feed_SignalID ` set feeds \<longrightarrow> price_Status (GetPrice ctx s' x) = PRICE_STATUS_NOT_IN_CURRENT_FEEDS)
     else fs_current_feeds s' = fs_current_feeds s \<and>
       (\<forall>x. x \<notin> feed_SignalID ` set feeds \<longrightarrow> GetPrice ctx s' x = GetPrice ctx s x)) \<and>
    (\<forall>feed\<in>set feeds. \<exists>p. kv_get (fs_prices s') (PriceStoreKey (feed_SignalID feed)) = Some p \<and>
       price_SignalID p = feed_SignalID feed \<and> price_Timestamp p = Unix (ctx_BlockTime ctx)) \<and>
    (\<forall>w. GetValidatorStatus m' w = GetValidatorStatus m w \<or>
       (\<exists>feed\<in>set feeds. missed ctx (fs_current_feeds s') (fp_GracePeriod (fs_params s)) (validator_price k s) validators feed w) \<and>
       GetValidatorStatus m' w = \<lparr>vs_IsActive = False, vs_Since = ctx_BlockTime ctx\<rparr>)"
proof -
  obtain validators where av: "active_validators ctx m = Inr validators" by (rule active_validators_ok [OF assms(4,5)])
  have i0: "fp_CurrentFeedsUpdateInterval (fs_params s) \<noteq> 0" using feeds_Params_ValidateD(6) [OF assms(2)] by simp
  show ?thesis
  proof (cases "go_mod (ctx_BlockHeight ctx) (fp_CurrentFeedsUpdateInterval (fs_params s)) = 0")
    case True
    obtain feeds where feeds: "CalculateNewCurrentFeeds s = Inr feeds" by (rule CalculateNewCurrentFeeds_ok [OF assms(1-3)])
    have del: "DeleteAllPrices s = s\<lparr>fs_prices := fs_prices (DeleteAllPrices s)\<rparr>"
      using DeleteAllPrices_same [of s] by (simp add: same_but_prices_def)
    define t where "t = SetCurrentFeeds (Unix (ctx_BlockTime ctx)) (ctx_BlockHeight ctx) (DeleteAllPrices s) feeds"
    have t: "t = s\<lparr>fs_prices := fs_prices (DeleteAllPrices s), fs_current_feeds :=
        \<lparr>cf_Feeds = feeds, cf_LastUpdateTimestamp = Unix (ctx_BlockTime ctx), cf_LastUpdateBlock = ctx_BlockHeight ctx\<rparr>\<rparr>"
      unfolding t_def SetCurrentFeeds_def by (subst del) simp
    have run: "feeds_EndBlocker k ctx (s, m) = CalculatePrices k ctx (t, m)"
      using True i0 feeds CalculateNewCurrentFeeds_prices [where s = s and ps = "fs_prices (DeleteAllPrices s)", folded del]
      by (simp add: feeds_EndBlocker_def t_def)
    have vp: "validator_price k t = validator_price k s"
      by (intro ext) (simp add: validator_price_def GetValidatorPriceList_def t)
    show ?thesis
    proof (rule CalculatePrices_ok [OF av assms(6) _ assms(8), of t])
      fix s' m'
      assume r: "CalculatePrices k ctx (t, m) = Inr (s', m')" "same_but_prices t s'"
        "\<And>x. x \<in> feed_SignalID ` set (cf_Feeds (fs_current_feeds t)) \<Longrightarrow> \<exists>p. kv_get (fs_prices s') (PriceStoreKey x) = Some p \<and>
           price_SignalID p = x \<and> price_Timestamp p = Unix (ctx_BlockTime ctx)"
        "\<And>x. x \<notin> feed_SignalID ` set (cf_Feeds (fs_current_feeds t)) \<Longrightarrow>
           kv_get (fs_prices s') (PriceStoreKey x) = kv_get (fs_prices t) (PriceStoreKey x)"
        "\<And>w. GetValidatorStatus m' w = GetValidatorStatus m w \<or>
           (\<exists>feed\<in>set (cf_Feeds (fs_current_feeds t)).
              missed ctx (fs_current_feeds t) (fp_GracePeriod (fs_params t)) (validator_price k t) validators feed w) \<and>
           GetValidatorStatus m' w = \<lparr>vs_IsActive = False, vs_Since = ctx_BlockTime ctx\<rparr>"
      have s': "s' = t\<lparr>fs_prices := fs_prices s'\<rparr>" using r(2) by (simp add: same_but_prices_def)
      then have cf: "fs_current_feeds s' = fs_current_feeds t" by (metis feeds_state.select_convs(6) feeds_state.surjective feeds_state.update_convs(4))
      have "s' = s\<lparr>fs_prices := fs_prices s', fs_current_feeds := fs_current_feeds s'\<rparr>"
      proof -
        obtain p where "s' = t\<lparr>fs_prices := p\<rparr>" using s' by blast
        then show ?thesis by (cases s) (simp add: t)
      qed
      moreover have "price_Status (GetPrice ctx s' x) = PRICE_STATUS_NOT_IN_CURRENT_FEEDS" if "x \<notin> feed_SignalID ` set feeds" for x
        using r(4) [of x] that DeleteAllPrices_get [of s x] by (simp add: t GetPrice_def)
      ultimately show ?thesis using r(1,3,5) av True feeds
        by (intro exI [of _ s'] exI [of _ m'] exI [of _ feeds] exI [of _ validators]) (simp add: run cf vp, simp add: t)
    qed (simp add: t assms(7))
  next
    case False
    show ?thesis
    proof (rule CalculatePrices_ok [OF av assms(6,7,8)])
      fix s' m'
      assume r: "CalculatePrices k ctx (s, m) = Inr (s', m')" "same_but_prices s s'"
        "\<And>x. x \<in> feed_SignalID ` set (cf_Feeds (fs_current_feeds s)) \<Longrightarrow> \<exists>p. kv_get (fs_prices s') (PriceStoreKey x) = Some p \<and>
           price_SignalID p = x \<and> price_Timestamp p = Unix (ctx_BlockTime ctx)"
        "\<And>x. x \<notin> feed_SignalID ` set (cf_Feeds (fs_current_feeds s)) \<Longrightarrow>
           kv_get (fs_prices s') (PriceStoreKey x) = kv_get (fs_prices s) (PriceStoreKey x)"
        "\<And>w. GetValidatorStatus m' w = GetValidatorStatus m w \<or>
           (\<exists>feed\<in>set (cf_Feeds (fs_current_feeds s)).
              missed ctx (fs_current_feeds s) (fp_GracePeriod (fs_params s)) (validator_price k s) validators feed w) \<and>
           GetValidatorStatus m' w = \<lparr>vs_IsActive = False, vs_Since = ctx_BlockTime ctx\<rparr>"
      have s': "s' = s\<lparr>fs_prices := fs_prices s'\<rparr>" using r(2) by (simp add: same_but_prices_def)
      then have cf: "fs_current_feeds s' = fs_current_feeds s" by (metis feeds_state.select_convs(6) feeds_state.surjective feeds_state.update_convs(4))
      have "s' = s\<lparr>fs_prices := fs_prices s', fs_current_feeds := fs_current_feeds s'\<rparr>"
        using s' by (simp add: cf)
      then show ?thesis using r(1,3,4,5) av False i0
        by (intro exI [of _ s'] exI [of _ m'] exI [of _ "cf_Feeds (fs_current_feeds s)"] exI [of _ validators])
          (simp add: feeds_EndBlocker_def cf GetPrice_def)
    qed
  qed
qed

definition demo_status :: status_store where
  "demo_status = [([0x05] @ str ''v1'', \<lparr>vs_IsActive = True, vs_Since = 0\<rparr>)]"

text \<open>A block between two updates, with one current feed: its price is computed.\<close>

theorem feeds_EndBlocker_correct_witness:
  "\<exists>s' m' p. feeds_EndBlocker demo_feeds_keeper (demo_ctx\<lparr>ctx_BlockHeight := 86401\<rparr>)
      (demo_feeds\<lparr>fs_current_feeds := \<lparr>cf_Feeds = [demo_feed], cf_LastUpdateTimestamp = 0, cf_LastUpdateBlock = 0\<rparr>\<rparr>, demo_status) = Inr (s', m') \<and>
    kv_get (fs_prices s') (PriceStoreKey (str ''CS:BTC-USD'')) = Some p \<and> price_Timestamp p = 1000"
proof -
  let ?s = "demo_feeds\<lparr>fs_current_feeds := \<lparr>cf_Feeds = [demo_feed], cf_LastUpdateTimestamp = 0, cf_LastUpdateBlock = 0\<rparr>\<rparr>"
    and ?ctx = "demo_ctx\<lparr>ctx_BlockHeight := 86401\<rparr>"
  have p: "powers_ok ?s" using demo_feeds_inv by (simp add: feeds_inv_def powers_ok_def)
  have v: "feeds_Params_Validate demo_feeds_keeper (fs_params ?s) = Inr ()" by (simp add: demo_feeds_def)
  have t: "params_typed (fs_params ?s)" by (simp add: demo_feeds_def demo_params_def params_typed_def in_i64_def)
  have q: "LegacyNewDecFromStr demo_feeds_keeper (fp_PriceQuorum (fs_params ?s)) = Inr (3 * 10 ^ 17)"
    by (simp add: demo_feeds_def demo_params_def demo_feeds_keeper_def)
  have c: "IterateBondedValidatorsByPower ?ctx = Inr [(str ''v1'', 60), (str ''v2'', 40)]" "TotalBondedTokens ?ctx = Inr 100"
    by (simp_all add: demo_ctx_def)
  have u: "\<forall>(op, tokens)\<in>set [(str ''v1'', 60), (str ''v2'', 40)]. IsUint64 tokens" by (simp add: IsUint64_def)
  have pos: "0 < DecMulTruncateInt demo_feeds_keeper 100 (3 * 10 ^ 17)" by (simp add: demo_feeds_keeper_def)
  have h: "go_mod (ctx_BlockHeight ?ctx) (fp_CurrentFeedsUpdateInterval (fs_params ?s)) \<noteq> 0"
    by (simp add: go_mod_def go_div_def demo_feeds_def demo_params_def)
  obtain s' m' where run: "feeds_EndBlocker demo_feeds_keeper ?ctx (?s, demo_status) = Inr (s', m')"
    and cf: "fs_current_feeds s' = fs_current_feeds ?s"
    and price: "\<forall>feed\<in>set (cf_Feeds (fs_current_feeds s')). \<exists>p. kv_get (fs_prices s') (PriceStoreKey (feed_SignalID feed)) = Some p \<and>
       price_Timestamp p = Unix (ctx_BlockTime ?ctx)"
    using feeds_EndBlocker_correct [OF p v t c(1) u c(2) q pos, of demo_status] h by auto
  have "Unix (ctx_BlockTime ?ctx) = 1000" by (simp add: demo_ctx_def Unix_def)
  then show ?thesis using run price unfolding cf by (auto simp: demo_feed_def)
qed

text \<open>
  C17: the branches and the effect of submitting prices. With the conditions that hold of every
  message that passed \<open>ValidateBasic\<close> and of the stored feeds and prices, a submission is accepted
  exactly from a bonded, active validator with at most one price per current feed, a timestamp near the block
  time, only signals of current feeds, and no price younger than the cooldown. It stores the
  submitted prices with the time and height of the block, keeps the validator's other prices of
  current feeds, drops those of past feeds, and changes nothing else.
\<close>

theorem SubmitSignalPrices_correct:
  assumes "feeds_good feeds" and "feeds = cf_Feeds (fs_current_feeds s)"
    and "\<And>l. GetValidatorPriceList k s val = Inr l \<Longrightarrow> prices_good (vpl_ValidatorPrices l)"
    and "ValAddressFromBech32 ctx (ssp_Validator msg) = Inr val"
    and "distinct (map sp_SignalID (ssp_SignalPrices msg))"
    and "\<forall>q\<in>set (ssp_SignalPrices msg). sp_Status q \<noteq> SIGNAL_PRICE_STATUS_UNSPECIFIED"
  defines "now \<equiv> Unix (ctx_BlockTime ctx)"
  shows "(case SubmitSignalPrices k ctx m s msg of
      Inl e \<Rightarrow> \<not> is_panic e \<and>
        (length (ssp_SignalPrices msg) > length feeds \<or> \<not> IsBondedValidator ctx val \<or> \<not> vs_IsActive (GetValidatorStatus m val) \<or>
         AbsInt64 (i64 (ssp_Timestamp msg - now)) > fp_AllowableBlockTimeDiscrepancy (fs_params s) \<or>
         (\<exists>q\<in>set (ssp_SignalPrices msg). sp_SignalID q \<notin> feed_SignalID ` set feeds \<or>
            \<not> cooled (fp_CooldownTime (fs_params s)) now (validator_price k s val (sp_SignalID q))))
    | Inr s' \<Rightarrow> length (ssp_SignalPrices msg) \<le> length feeds \<and> IsBondedValidator ctx val \<and> vs_IsActive (GetValidatorStatus m val) \<and>
        AbsInt64 (i64 (ssp_Timestamp msg - now)) \<le> fp_AllowableBlockTimeDiscrepancy (fs_params s) \<and>
        (\<forall>q\<in>set (ssp_SignalPrices msg). sp_SignalID q \<in> feed_SignalID ` set feeds \<and>
           cooled (fp_CooldownTime (fs_params s)) now (validator_price k s val (sp_SignalID q)) \<and>
           validator_price k s' val (sp_SignalID q) = new_price now (ctx_BlockHeight ctx) q) \<and>
        (\<forall>x\<in>feed_SignalID ` set feeds - sp_SignalID ` set (ssp_SignalPrices msg). validator_price k s' val x = validator_price k s val x) \<and>
        (\<exists>l. s' = s\<lparr>fs_validator_prices := kv_set (fs_validator_prices s) (ValidatorPriceListStoreKey (fk_sdk k) val) l\<rparr> \<and>
           prices_good (vpl_ValidatorPrices l) \<and> length (vpl_ValidatorPrices l) = length feeds))"
proof -
  let ?fm = "feeds_map feeds" and ?ids = "map feed_SignalID feeds" and ?qs = "ssp_SignalPrices msg"
  let ?sub = "submit_price ?fm (fp_CooldownTime (fs_params s)) now (ctx_BlockHeight ctx)"
  define es where "es = (case GetValidatorPriceList k s val of Inl _ \<Rightarrow> [] | Inr l \<Rightarrow> vpl_ValidatorPrices l)"
  have d: "distinct ?ids" using assms(1) by (simp add: feeds_good_def)
  have fm: "kv_get ?fm x = Some i \<longleftrightarrow> i < length feeds \<and> ?ids ! i = x" for x i using feeds_map_get [OF d] by auto
  have "prices_good es" using assms(3) by (cases "GetValidatorPriceList k s val") (simp_all add: es_def, simp add: prices_good_def)
  then obtain ps where ps: "foldE (keep_price ?fm) (replicate (length feeds) no_validator_price) es = Inr ps"
    "length ps = length feeds" and "\<forall>i<length feeds. ps ! i = price_in es (feed_SignalID (feeds ! i))"
    using keep_prices [OF assms(1)] by blast
  then have slot: "\<And>i. i < length feeds \<Longrightarrow> ps ! i = validator_price k s val (?ids ! i)"
    by (simp add: validator_price_eq es_def)
  have keep: "(case GetValidatorPriceList k s val of Inl _ \<Rightarrow> Inr (replicate (length feeds) no_validator_price)
      | Inr prev \<Rightarrow> foldE (keep_price ?fm) (replicate (length feeds) no_validator_price) (vpl_ValidatorPrices prev)) = Inr ps"
    using ps(1) by (cases "GetValidatorPriceList k s val") (simp_all add: es_def)
  define good where "good \<longleftrightarrow> length ?qs \<le> length feeds \<and> IsBondedValidator ctx val \<and> vs_IsActive (GetValidatorStatus m val) \<and>
      AbsInt64 (i64 (ssp_Timestamp msg - now)) \<le> fp_AllowableBlockTimeDiscrepancy (fs_params s)"
  show ?thesis
  proof (cases good)
    case False
    then show ?thesis using assms(4) unfolding SubmitSignalPrices_def good_def Let_def assms(2) [symmetric] now_def [symmetric]
      by (auto simp: ValidateValidatorRequiredToSend_def not_le feeds_errors split: if_splits)
  next
    case True
    then have run: "SubmitSignalPrices k ctx m s msg = bindE (foldE ?sub ps ?qs) (\<lambda>ps. Inr (SetValidatorPriceList k ctx s val ps))"
      using assms(4) keep
      unfolding SubmitSignalPrices_def good_def Let_def assms(2) [symmetric] now_def [symmetric] feeds_map_length [OF d]
      by (simp add: ValidateValidatorRequiredToSend_def not_less)
    note sub = submit_prices [where fm = ?fm and n = "length feeds" and ps = ps and qs = ?qs and cd = "fp_CooldownTime (fs_params s)"
        and bt = now and bh = "ctx_BlockHeight ctx", OF _ _ ps(2) assms(5)]
    show ?thesis
    proof (cases "foldE ?sub ps ?qs")
      case (Inl e)
      then obtain q where "\<not> is_panic e" and q: "q \<in> set ?qs"
        "\<forall>i. kv_get ?fm (sp_SignalID q) = Some i \<longrightarrow> \<not> cooled (fp_CooldownTime (fs_params s)) now (ps ! i)"
        using sub fm d by (auto simp: nth_eq_iff_index_eq)
      moreover have "sp_SignalID q \<notin> feed_SignalID ` set feeds \<or>
          \<not> cooled (fp_CooldownTime (fs_params s)) now (validator_price k s val (sp_SignalID q))"
      proof (rule disjCI)
        assume "\<not> \<not> cooled (fp_CooldownTime (fs_params s)) now (validator_price k s val (sp_SignalID q))"
        then show "sp_SignalID q \<notin> feed_SignalID ` set feeds" using q(2) fm slot by (auto simp: in_set_conv_nth)
      qed
      ultimately show ?thesis unfolding run Inl by auto
    next
      case (Inr ps')
      have len: "length ps' = length feeds"
        and new: "\<And>q. q \<in> set ?qs \<Longrightarrow> \<exists>i. kv_get ?fm (sp_SignalID q) = Some i \<and> cooled (fp_CooldownTime (fs_params s)) now (ps ! i) \<and>
            ps' ! i = new_price now (ctx_BlockHeight ctx) q"
        and old: "\<And>i. (\<forall>q\<in>set ?qs. kv_get ?fm (sp_SignalID q) \<noteq> Some i) \<Longrightarrow> ps' ! i = ps ! i"
        using sub fm d Inr by (auto simp: nth_eq_iff_index_eq)
      have entry: "ps' ! i = no_validator_price \<or> vp_SignalPriceStatus (ps' ! i) \<noteq> SIGNAL_PRICE_STATUS_UNSPECIFIED \<and> vp_SignalID (ps' ! i) = ?ids ! i"
        if i: "i < length feeds" for i
      proof (cases "\<exists>q\<in>set ?qs. kv_get ?fm (sp_SignalID q) = Some i")
        case True
        then obtain q where q: "q \<in> set ?qs" "kv_get ?fm (sp_SignalID q) = Some i" by blast
        then have "ps' ! i = new_price now (ctx_BlockHeight ctx) q" using new [OF q(1)] by auto
        then show ?thesis using q fm assms(6) by (simp add: new_price_def)
      next
        case False
        then have "ps' ! i = price_in es (?ids ! i)" using old [of i] slot [OF i] by (simp add: validator_price_eq es_def)
        then show ?thesis using price_in_cases [of es "?ids ! i"] by simp
      qed
      have read: "price_in ps' (?ids ! i) = ps' ! i" if "i < length feeds" for i
        using price_in_slots [of ps' ?ids i] entry d len that by simp
      have "sp_SignalID q \<in> feed_SignalID ` set feeds \<and>
           cooled (fp_CooldownTime (fs_params s)) now (validator_price k s val (sp_SignalID q)) \<and>
           price_in ps' (sp_SignalID q) = new_price now (ctx_BlockHeight ctx) q" if q: "q \<in> set ?qs" for q
      proof -
        obtain i where i: "i < length feeds" "?ids ! i = sp_SignalID q" "cooled (fp_CooldownTime (fs_params s)) now (ps ! i)"
          "ps' ! i = new_price now (ctx_BlockHeight ctx) q" using new [OF q] fm by auto
        then show ?thesis using read [OF i(1)] slot [OF i(1)] by (metis length_map nth_mem set_map)
      qed
      moreover have "price_in ps' x = validator_price k s val x" if "x \<in> feed_SignalID ` set feeds - sp_SignalID ` set ?qs" for x
      proof -
        have "x \<in> set ?ids" using that by simp
        then obtain i where i: "i < length feeds" "?ids ! i = x" by (metis in_set_conv_nth length_map)
        have "ps' ! i = ps ! i" using that i fm by (intro old) (metis Diff_iff image_eqI)
        then show ?thesis using read [OF i(1)] slot [OF i(1)] i(2) by simp
      qed
      moreover have "prices_good ps'"
        unfolding prices_good_def using entry len by (metis in_set_conv_nth)
      ultimately show ?thesis using True len unfolding run Inr
        by (simp add: good_def validator_price_Set) (simp add: SetValidatorPriceList_def, metis ValidatorPriceList.select_convs(2))
    qed
  qed
qed

definition demo_prices :: feeds_state where
  "demo_prices = demo_feeds\<lparr>fs_current_feeds := \<lparr>cf_Feeds = [demo_feed], cf_LastUpdateTimestamp = 0, cf_LastUpdateBlock = 0\<rparr>\<rparr>"

definition demo_submit :: MsgSubmitSignalPrices where
  "demo_submit = \<lparr>ssp_Validator = str ''v1'', ssp_Timestamp = 990,
     ssp_SignalPrices = [\<lparr>sp_Status = SIGNAL_PRICE_STATUS_AVAILABLE, sp_SignalID = str ''CS:BTC-USD'', sp_Price = 100\<rparr>]\<rparr>"

theorem SubmitSignalPrices_correct_witness:
  "case SubmitSignalPrices demo_feeds_keeper demo_ctx demo_status demo_prices demo_submit of
     Inl _ \<Rightarrow> False
   | Inr s' \<Rightarrow> vp_Price (validator_price demo_feeds_keeper s' (str ''v1'') (str ''CS:BTC-USD'')) = 100"
proof -
  have none: "GetValidatorPriceList demo_feeds_keeper demo_prices v = Inl ErrValidatorPriceNotFound" for v
    by (simp add: GetValidatorPriceList_def demo_prices_def demo_feeds_def)
  have vp: "validator_price demo_feeds_keeper demo_prices v x = no_validator_price" for v x
    by (simp add: validator_price_def none)
  have sel: "cf_Feeds (fs_current_feeds demo_prices) = [demo_feed]" "fs_params demo_prices = demo_params"
    by (simp_all add: demo_prices_def demo_feeds_def)
  have act: "vs_IsActive (GetValidatorStatus demo_status (str ''v1''))"
    by (simp add: GetValidatorStatus_def demo_status_def ValidatorStatusStoreKey_def kv_get_def)
  have "str ''CS:BTC-USD'' \<noteq> []" by (simp add: str_def)
  then have "feeds_good [demo_feed]" by (simp add: feeds_good_def demo_feed_def)
  from SubmitSignalPrices_correct [OF this, of demo_prices demo_feeds_keeper "str ''v1''" demo_ctx demo_submit demo_status]
  show ?thesis
    using act by (auto simp: none vp sel demo_params_def demo_ctx_def demo_submit_def demo_feed_def
        IsBondedValidator_def AbsInt64_def Unix_def in_i64_def cooled_def no_validator_price_def new_price_def split: sum.splits)
qed

text \<open>
  C30: a price that counts for a feed is never a miss: as long as the times stay in the range of
  \<open>int64\<close>, a validator whose price is young enough for \<open>checkHavePrice\<close> is not reported by \<open>CheckMissReport\<close>,
  and neither is one in the grace period after the feeds changed or after its activation.
\<close>

theorem fresh_price_never_missed:
  assumes "in_i64 (vp_Timestamp p + feed_Interval feed)" and "in_i64 (Unix bt - feed_Interval feed)"
    and "in_i64 (updated + grace)" and "in_i64 (Unix (vs_Since (vi_Status val)) + grace)"
    and "checkHavePrice feed p bt \<or> Unix bt \<le> updated + grace \<or> Unix bt \<le> Unix (vs_Since (vi_Status val)) + grace"
  shows "\<not> CheckMissReport feed updated updatedBlock p val bt height grace"
  using assms unfolding CheckMissReport_def checkHavePrice_def Let_def by auto

theorem fresh_price_never_missed_witness:
  "\<not> CheckMissReport demo_feed 0 0
     \<lparr>vp_SignalPriceStatus = SIGNAL_PRICE_STATUS_AVAILABLE, vp_SignalID = str ''CS:BTC-USD'', vp_Price = 5, vp_Timestamp = 200, vp_BlockHeight = 1\<rparr>
     \<lparr>vi_Address = str ''v1'', vi_Power = 60, vi_Status = \<lparr>vs_IsActive = True, vs_Since = 0\<rparr>\<rparr> (1000 * 10 ^ 9) 5000 30"
  by (rule fresh_price_never_missed) (simp_all add: demo_feed_def in_i64_def Unix_def checkHavePrice_def)

text \<open>
  What \<open>FeedsSignatureOrder.ValidateBasic\<close> accepts: every non-empty list of ids with one of the
  two encoders, ids that occur twice included. The check for duplicates reads a map that nothing is added to.
\<close>

theorem FeedsSignatureOrder_accepts_duplicates:
  "FeedsSignatureOrder_ValidateBasic \<lparr>fso_SignalIDs = ids, fso_Encoder = enc\<rparr> =
     (if ids = [] then Inl ErrInvalidSignalIDs else ValidateEncoder enc)"
proof -
  have "foldE (\<lambda>_ x. Inr ()) () ids = Inr ()" for ids :: "bytes list" by (induction ids) simp_all
  then show ?thesis by (simp add: FeedsSignatureOrder_ValidateBasic_def ValidateEncoder_def Let_def split: Encoder.splits)
qed

end
