(* ===== verification/Oracle_Data.thy ===== *)
theory Oracle_Data
  imports Sdk Bandrng Validator_Status
begin

text \<open>
  The module \<open>x/oracle\<close>, first part: its data (requests, reports, results, data sources, oracle
  scripts), the store with its keys and counters, and the environment in which an oracle script runs
  (\<open>types/exec_env.go\<close>), with the file cache of \<open>pkg/filecache\<close> and \<open>pkg/gzip\<close>.
\<close>

section \<open>Data\<close>

datatype Encoder = ENCODER_UNSPECIFIED | ENCODER_PROTO | ENCODER_FULL_ABI | ENCODER_PARTIAL_ABI | ENCODER_OTHER int

datatype ResolveStatus = RESOLVE_STATUS_OPEN | RESOLVE_STATUS_SUCCESS | RESOLVE_STATUS_FAILURE | RESOLVE_STATUS_EXPIRED

record RawRequest =
  raw_ExternalID :: uint64
  raw_DataSourceID :: uint64
  raw_Calldata :: bytes

record RawReport =
  rr_ExternalID :: uint64
  rr_ExitCode :: nat
  rr_Data :: bytes

record IBCChannel =
  ch_PortId :: bytes
  ch_ChannelId :: bytes

record Request =
  rq_OracleScriptID :: uint64
  rq_Calldata :: bytes
  rq_RequestedValidators :: "bytes list"
  rq_MinCount :: uint64
  rq_RequestHeight :: int64
  rq_RequestTime :: int64
  rq_ClientID :: bytes
  rq_RawRequests :: "RawRequest list"
  rq_IBCChannel :: "IBCChannel option"
  rq_ExecuteGas :: uint64
  rq_TSSEncoder :: Encoder
  rq_Requester :: bytes
  rq_FeeLimit :: coins

record Report =
  rep_Validator :: bytes
  rep_InBeforeResolve :: bool
  rep_RawReports :: "RawReport list"

record Result =
  res_ClientID :: bytes
  res_OracleScriptID :: uint64
  res_Calldata :: bytes
  res_AskCount :: uint64
  res_MinCount :: uint64
  res_RequestID :: uint64
  res_AnsCount :: uint64
  res_RequestTime :: int64
  res_ResolveTime :: int64
  res_ResolveStatus :: ResolveStatus
  res_Result :: bytes

record SigningResult =
  sr_SigningID :: uint64
  sr_ErrorCodespace :: bytes
  sr_ErrorCode :: uint64

record DataSource =
  ds_Owner :: bytes
  ds_Name :: bytes
  ds_Description :: bytes
  ds_Filename :: bytes
  ds_Treasury :: bytes
  ds_Fee :: coins

record OracleScript =
  os_Owner :: bytes
  os_Name :: bytes
  os_Description :: bytes
  os_Filename :: bytes
  os_Schema :: bytes
  os_SourceCodeURL :: bytes

record oracle_Params =
  op_MaxRawRequestCount :: uint64
  op_MaxAskCount :: uint64
  op_MaxCalldataSize :: uint64
  op_MaxReportDataSize :: uint64
  op_ExpirationBlockCount :: uint64
  op_BaseOwasmGas :: uint64
  op_PerValidatorRequestGas :: uint64
  op_SamplingTryCount :: uint64
  op_OracleRewardPercentage :: uint64
  op_InactivePenaltyDuration :: uint64
  op_IBCRequestEnabled :: bool

text \<open>
  One map per key prefix of the store, the counters, and the file cache (names to contents), which
  is on disk beside the store.
\<close>

record oracle_state =
  st_requests :: "(bytes, Request) kv"
  st_reports :: "(bytes, Report) kv"
  st_results :: "(bytes, Result) kv"
  st_signing_results :: "(bytes, SigningResult) kv"
  st_data_sources :: "(bytes, DataSource) kv"
  st_oracle_scripts :: "(bytes, OracleScript) kv"
  st_status :: status_store
  st_RequestCount :: uint64
  st_RequestLastExpired :: uint64
  st_PendingResolveList :: "uint64 list"
  st_DataSourceCount :: uint64
  st_OracleScriptCount :: uint64
  st_params :: oracle_Params
  st_files :: "(bytes, bytes) kv"

section \<open>Errors, constants and keys\<close>

definition ErrOwasmCompilation :: error where "ErrOwasmCompilation = Registered ''oracle'' 1"
definition ErrBadWasmExecution :: error where "ErrBadWasmExecution = Registered ''oracle'' 2"
definition ErrDataSourceNotFound :: error where "ErrDataSourceNotFound = Registered ''oracle'' 3"
definition ErrOracleScriptNotFound :: error where "ErrOracleScriptNotFound = Registered ''oracle'' 4"
definition ErrRequestNotFound :: error where "ErrRequestNotFound = Registered ''oracle'' 5"
definition ErrRawRequestNotFound :: error where "ErrRawRequestNotFound = Registered ''oracle'' 6"
definition ErrResultNotFound :: error where "ErrResultNotFound = Registered ''oracle'' 8"
definition ErrValidatorNotRequested :: error where "ErrValidatorNotRequested = Registered ''oracle'' 10"
definition ErrValidatorAlreadyReported :: error where "ErrValidatorAlreadyReported = Registered ''oracle'' 11"
definition ErrInvalidReportSize :: error where "ErrInvalidReportSize = Registered ''oracle'' 12"
definition ErrEditorNotAuthorized :: error where "ErrEditorNotAuthorized = Registered ''oracle'' 14"
definition ErrTooLongName :: error where "ErrTooLongName = Registered ''oracle'' 18"
definition ErrTooLongDescription :: error where "ErrTooLongDescription = Registered ''oracle'' 19"
definition ErrEmptyExecutable :: error where "ErrEmptyExecutable = Registered ''oracle'' 20"
definition ErrEmptyWasmCode :: error where "ErrEmptyWasmCode = Registered ''oracle'' 21"
definition ErrTooLargeExecutable :: error where "ErrTooLargeExecutable = Registered ''oracle'' 22"
definition ErrTooLargeWasmCode :: error where "ErrTooLargeWasmCode = Registered ''oracle'' 23"
definition ErrInvalidMinCount :: error where "ErrInvalidMinCount = Registered ''oracle'' 24"
definition ErrInvalidAskCount :: error where "ErrInvalidAskCount = Registered ''oracle'' 25"
definition ErrTooLargeCalldata :: error where "ErrTooLargeCalldata = Registered ''oracle'' 26"
definition ErrTooLongClientID :: error where "ErrTooLongClientID = Registered ''oracle'' 27"
definition ErrEmptyRawRequests :: error where "ErrEmptyRawRequests = Registered ''oracle'' 28"
definition ErrEmptyReport :: error where "ErrEmptyReport = Registered ''oracle'' 29"
definition ErrDuplicateExternalID :: error where "ErrDuplicateExternalID = Registered ''oracle'' 30"
definition ErrTooLongSchema :: error where "ErrTooLongSchema = Registered ''oracle'' 31"
definition ErrTooLongURL :: error where "ErrTooLongURL = Registered ''oracle'' 32"
definition ErrTooLargeRawReportData :: error where "ErrTooLargeRawReportData = Registered ''oracle'' 33"
definition ErrInsufficientValidators :: error where "ErrInsufficientValidators = Registered ''oracle'' 34"
definition ErrCreateWithDoNotModify :: error where "ErrCreateWithDoNotModify = Registered ''oracle'' 35"
definition ErrUncompressionFailed :: error where "ErrUncompressionFailed = Registered ''oracle'' 38"
definition ErrRequestAlreadyExpired :: error where "ErrRequestAlreadyExpired = Registered ''oracle'' 39"
definition ErrBadDrbgInitialization :: error where "ErrBadDrbgInitialization = Registered ''oracle'' 40"
definition ErrNotEnoughFee :: error where "ErrNotEnoughFee = Registered ''oracle'' 43"
definition ErrInvalidOwasmGas :: error where "ErrInvalidOwasmGas = Registered ''oracle'' 44"
definition ErrIBCRequestDisabled :: error where "ErrIBCRequestDisabled = Registered ''oracle'' 45"
definition ErrInvalidRequestID :: error where "ErrInvalidRequestID = Registered ''oracle'' 47"
definition ErrInvalidOracleEncoder :: error where "ErrInvalidOracleEncoder = Registered ''oracle'' 48"
definition ErrCreateSigningPanic :: error where "ErrCreateSigningPanic = Registered ''oracle'' 49"

definition DoNotModify :: bytes where "DoNotModify = str ''[do-not-modify]''"
definition MaxNameLength :: nat where "MaxNameLength = 128"
definition MaxDescriptionLength :: nat where "MaxDescriptionLength = 4096"
definition MaxClientIDLength :: nat where "MaxClientIDLength = 128"
definition MaxSchemaLength :: nat where "MaxSchemaLength = 512"
definition MaxURLLength :: nat where "MaxURLLength = 128"
definition MaxExecutableSize :: nat where "MaxExecutableSize = 8 * 1024"
definition MaxWasmCodeSize :: nat where "MaxWasmCodeSize = 512 * 1024"
definition MaxCompiledWasmCodeSize :: nat where "MaxCompiledWasmCodeSize = 1024 * 1024"
definition MaximumOwasmGas :: nat where "MaximumOwasmGas = 8000000"

definition RequestStoreKey :: "uint64 \<Rightarrow> bytes" where
  "RequestStoreKey requestID = [0x01] @ be_bytes 8 requestID"

definition ReportStoreKey :: "uint64 \<Rightarrow> bytes" where
  "ReportStoreKey requestID = [0x02] @ be_bytes 8 requestID"

definition DataSourceStoreKey :: "uint64 \<Rightarrow> bytes" where
  "DataSourceStoreKey dataSourceID = [0x03] @ be_bytes 8 dataSourceID"

definition OracleScriptStoreKey :: "uint64 \<Rightarrow> bytes" where
  "OracleScriptStoreKey oracleScriptID = [0x04] @ be_bytes 8 oracleScriptID"

definition SigningResultStoreKey :: "uint64 \<Rightarrow> bytes" where
  "SigningResultStoreKey requestID = [0x07] @ be_bytes 8 requestID"

definition ResultStoreKey :: "uint64 \<Rightarrow> bytes" where
  "ResultStoreKey requestID = [0xff] @ be_bytes 8 requestID"

definition ReportsOfValidatorPrefixKey :: "uint64 \<Rightarrow> bytes \<Rightarrow> bytes" where
  "ReportsOfValidatorPrefixKey reqID val = ReportStoreKey reqID @ val"

section \<open>Parameters\<close>

definition oracle_validateUint64 :: "bool \<Rightarrow> uint64 \<Rightarrow> unit result" where
  "oracle_validateUint64 positiveOnly v =
     (if v \<le> 0 \<and> positiveOnly then Inl (Errorf ''must be positive'') else Inr ())"

definition oracle_Params_Validate :: "oracle_Params \<Rightarrow> unit result" where
  "oracle_Params_Validate p =
     bindE (oracle_validateUint64 True (op_MaxRawRequestCount p)) (\<lambda>_.
     bindE (oracle_validateUint64 True (op_MaxAskCount p)) (\<lambda>_.
     bindE (oracle_validateUint64 True (op_MaxCalldataSize p)) (\<lambda>_.
     bindE (oracle_validateUint64 True (op_MaxReportDataSize p)) (\<lambda>_.
     bindE (oracle_validateUint64 True (op_ExpirationBlockCount p)) (\<lambda>_.
     bindE (oracle_validateUint64 False (op_BaseOwasmGas p)) (\<lambda>_.
     bindE (oracle_validateUint64 False (op_PerValidatorRequestGas p)) (\<lambda>_.
     bindE (oracle_validateUint64 True (op_SamplingTryCount p)) (\<lambda>_.
     bindE (oracle_validateUint64 False (op_OracleRewardPercentage p)) (\<lambda>_.
     oracle_validateUint64 False (op_InactivePenaltyDuration p))))))))))"

definition oracle_SetParams :: "oracle_state \<Rightarrow> oracle_Params \<Rightarrow> oracle_state result" where
  "oracle_SetParams s p = bindE (oracle_Params_Validate p) (\<lambda>_. Inr (s\<lparr>st_params := p\<rparr>))"

section \<open>Counters and the pending list\<close>

definition GetNextRequestID :: "oracle_state \<Rightarrow> uint64 \<times> oracle_state" where
  "GetNextRequestID s = (let n = u64 (st_RequestCount s + 1) in (n, s\<lparr>st_RequestCount := n\<rparr>))"

definition GetNextDataSourceID :: "oracle_state \<Rightarrow> uint64 \<times> oracle_state" where
  "GetNextDataSourceID s = (let n = u64 (st_DataSourceCount s + 1) in (n, s\<lparr>st_DataSourceCount := n\<rparr>))"

definition GetNextOracleScriptID :: "oracle_state \<Rightarrow> uint64 \<times> oracle_state" where
  "GetNextOracleScriptID s = (let n = u64 (st_OracleScriptCount s + 1) in (n, s\<lparr>st_OracleScriptCount := n\<rparr>))"

definition AddPendingRequest :: "oracle_state \<Rightarrow> uint64 \<Rightarrow> oracle_state" where
  "AddPendingRequest s requestID = s\<lparr>st_PendingResolveList := st_PendingResolveList s @ [requestID]\<rparr>"

section \<open>Requests, reports and results\<close>

definition GetRequest :: "oracle_state \<Rightarrow> uint64 \<Rightarrow> Request result" where
  "GetRequest s rid = (case kv_get (st_requests s) (RequestStoreKey rid) of None \<Rightarrow> Inl ErrRequestNotFound | Some r \<Rightarrow> Inr r)"

definition MustGetRequest :: "oracle_state \<Rightarrow> uint64 \<Rightarrow> Request result" where
  "MustGetRequest s rid = (case GetRequest s rid of Inl _ \<Rightarrow> Inl (Panic ''request not found'') | Inr r \<Rightarrow> Inr r)"

definition SetRequest :: "oracle_state \<Rightarrow> uint64 \<Rightarrow> Request \<Rightarrow> oracle_state" where
  "SetRequest s rid request = s\<lparr>st_requests := kv_set (st_requests s) (RequestStoreKey rid) request\<rparr>"

definition DeleteRequest :: "oracle_state \<Rightarrow> uint64 \<Rightarrow> oracle_state" where
  "DeleteRequest s rid = s\<lparr>st_requests := kv_delete (st_requests s) (RequestStoreKey rid)\<rparr>"

definition AddRequest :: "oracle_state \<Rightarrow> Request \<Rightarrow> uint64 \<times> oracle_state" where
  "AddRequest s req = (let (rid, s) = GetNextRequestID s in (rid, SetRequest s rid req))"

definition HasReport :: "oracle_state \<Rightarrow> uint64 \<Rightarrow> bytes \<Rightarrow> bool" where
  "HasReport s rid val = kv_has (st_reports s) (ReportsOfValidatorPrefixKey rid val)"

text \<open>The error of parsing is dropped, the address is then empty.\<close>

definition SetReport :: "(bytes \<Rightarrow> bytes result) \<Rightarrow> oracle_state \<Rightarrow> uint64 \<Rightarrow> Report \<Rightarrow> oracle_state" where
  "SetReport ValAddressFromBech32 s rid rep =
     (let val = (case ValAddressFromBech32 (rep_Validator rep) of Inl _ \<Rightarrow> [] | Inr v \<Rightarrow> v) in
      s\<lparr>st_reports := kv_set (st_reports s) (ReportsOfValidatorPrefixKey rid val) rep\<rparr>)"

definition GetReportIterator :: "oracle_state \<Rightarrow> uint64 \<Rightarrow> (bytes \<times> Report) list" where
  "GetReportIterator s rid = kv_prefix_iterator (st_reports s) (ReportStoreKey rid)"

definition GetReportCount :: "oracle_state \<Rightarrow> uint64 \<Rightarrow> uint64" where
  "GetReportCount s rid = u64 (length (GetReportIterator s rid))"

definition GetReports :: "oracle_state \<Rightarrow> uint64 \<Rightarrow> Report list" where
  "GetReports s rid = map snd (GetReportIterator s rid)"

definition DeleteReports :: "oracle_state \<Rightarrow> uint64 \<Rightarrow> oracle_state" where
  "DeleteReports s rid =
     foldl (\<lambda>s key. s\<lparr>st_reports := kv_delete (st_reports s) key\<rparr>) s (map fst (GetReportIterator s rid))"

definition HasResult :: "oracle_state \<Rightarrow> uint64 \<Rightarrow> bool" where
  "HasResult s rid = kv_has (st_results s) (ResultStoreKey rid)"

definition SetResult :: "oracle_state \<Rightarrow> uint64 \<Rightarrow> Result \<Rightarrow> oracle_state" where
  "SetResult s rid result = s\<lparr>st_results := kv_set (st_results s) (ResultStoreKey rid) result\<rparr>"

definition GetResult :: "oracle_state \<Rightarrow> uint64 \<Rightarrow> Result result" where
  "GetResult s rid = (case kv_get (st_results s) (ResultStoreKey rid) of None \<Rightarrow> Inl ErrResultNotFound | Some r \<Rightarrow> Inr r)"

definition SetSigningResult :: "oracle_state \<Rightarrow> uint64 \<Rightarrow> SigningResult \<Rightarrow> oracle_state" where
  "SetSigningResult s rid r = s\<lparr>st_signing_results := kv_set (st_signing_results s) (SigningResultStoreKey rid) r\<rparr>"

definition ContainsEID :: "RawRequest list \<Rightarrow> uint64 \<Rightarrow> bool" where
  "ContainsEID rawRequests target = (\<exists>r\<in>set rawRequests. raw_ExternalID r = target)"

section \<open>Data sources and oracle scripts\<close>

definition GetDataSource :: "oracle_state \<Rightarrow> uint64 \<Rightarrow> DataSource result" where
  "GetDataSource s dsid =
     (case kv_get (st_data_sources s) (DataSourceStoreKey dsid) of None \<Rightarrow> Inl ErrDataSourceNotFound | Some d \<Rightarrow> Inr d)"

definition MustGetDataSource :: "oracle_state \<Rightarrow> uint64 \<Rightarrow> DataSource result" where
  "MustGetDataSource s dsid =
     (case GetDataSource s dsid of Inl _ \<Rightarrow> Inl (Panic ''data source not found'') | Inr d \<Rightarrow> Inr d)"

definition SetDataSource :: "oracle_state \<Rightarrow> uint64 \<Rightarrow> DataSource \<Rightarrow> oracle_state" where
  "SetDataSource s dsid d = s\<lparr>st_data_sources := kv_set (st_data_sources s) (DataSourceStoreKey dsid) d\<rparr>"

definition AddDataSource :: "oracle_state \<Rightarrow> DataSource \<Rightarrow> uint64 \<times> oracle_state" where
  "AddDataSource s d = (let (dsid, s) = GetNextDataSourceID s in (dsid, SetDataSource s dsid d))"

definition modify :: "bytes \<Rightarrow> bytes \<Rightarrow> bytes" where
  "modify oldVal newVal = (if newVal = DoNotModify then oldVal else newVal)"

definition MustEditDataSource :: "oracle_state \<Rightarrow> uint64 \<Rightarrow> DataSource \<Rightarrow> oracle_state result" where
  "MustEditDataSource s dsid new =
     bindE (MustGetDataSource s dsid) (\<lambda>d.
       Inr (SetDataSource s dsid \<lparr>ds_Owner = ds_Owner new, ds_Name = modify (ds_Name d) (ds_Name new),
         ds_Description = modify (ds_Description d) (ds_Description new),
         ds_Filename = modify (ds_Filename d) (ds_Filename new),
         ds_Treasury = ds_Treasury new, ds_Fee = ds_Fee new\<rparr>))"

definition GetAllDataSources :: "oracle_state \<Rightarrow> DataSource list" where
  "GetAllDataSources s = map snd (kv_prefix_iterator (st_data_sources s) [0x03])"

definition GetOracleScript :: "oracle_state \<Rightarrow> uint64 \<Rightarrow> OracleScript result" where
  "GetOracleScript s osid =
     (case kv_get (st_oracle_scripts s) (OracleScriptStoreKey osid) of None \<Rightarrow> Inl ErrOracleScriptNotFound | Some x \<Rightarrow> Inr x)"

definition MustGetOracleScript :: "oracle_state \<Rightarrow> uint64 \<Rightarrow> OracleScript result" where
  "MustGetOracleScript s osid =
     (case GetOracleScript s osid of Inl _ \<Rightarrow> Inl (Panic ''oracle script not found'') | Inr x \<Rightarrow> Inr x)"

definition SetOracleScript :: "oracle_state \<Rightarrow> uint64 \<Rightarrow> OracleScript \<Rightarrow> oracle_state" where
  "SetOracleScript s osid x = s\<lparr>st_oracle_scripts := kv_set (st_oracle_scripts s) (OracleScriptStoreKey osid) x\<rparr>"

definition AddOracleScript :: "oracle_state \<Rightarrow> OracleScript \<Rightarrow> uint64 \<times> oracle_state" where
  "AddOracleScript s x = (let (osid, s) = GetNextOracleScriptID s in (osid, SetOracleScript s osid x))"

definition MustEditOracleScript :: "oracle_state \<Rightarrow> uint64 \<Rightarrow> OracleScript \<Rightarrow> oracle_state result" where
  "MustEditOracleScript s osid new =
     bindE (MustGetOracleScript s osid) (\<lambda>x.
       Inr (SetOracleScript s osid \<lparr>os_Owner = os_Owner new, os_Name = modify (os_Name x) (os_Name new),
         os_Description = modify (os_Description x) (os_Description new),
         os_Filename = modify (os_Filename x) (os_Filename new),
         os_Schema = modify (os_Schema x) (os_Schema new),
         os_SourceCodeURL = modify (os_SourceCodeURL x) (os_SourceCodeURL new)\<rparr>))"

definition GetAllOracleScripts :: "oracle_state \<Rightarrow> OracleScript list" where
  "GetAllOracleScripts s = map snd (kv_prefix_iterator (st_oracle_scripts s) [0x04])"

section \<open>Files\<close>

text \<open>
  The file cache keeps a file under the hexadecimal SHA-256 sum of its contents, the function
  \<open>GetFilename\<close>. The cache is a map on disk; a write is taken to succeed, as the code does.
\<close>

definition AddFile :: "(bytes \<Rightarrow> bytes) \<Rightarrow> oracle_state \<Rightarrow> bytes \<Rightarrow> bytes \<times> oracle_state" where
  "AddFile GetFilename s data =
     (let filename = GetFilename data in
      (filename, if kv_has (st_files s) filename then s else s\<lparr>st_files := kv_set (st_files s) filename data\<rparr>))"

definition MustGetFile :: "(bytes \<Rightarrow> bytes) \<Rightarrow> oracle_state \<Rightarrow> bytes \<Rightarrow> bytes result" where
  "MustGetFile GetFilename s filename =
     (case kv_get (st_files s) filename of
        None \<Rightarrow> Inl (Panic ''file not found'')
      | Some data \<Rightarrow> if GetFilename data \<noteq> filename then Inl (Panic ''inconsistent filecache content'') else Inr data)"

definition AddExecutableFile :: "(bytes \<Rightarrow> bytes) \<Rightarrow> oracle_state \<Rightarrow> bytes \<Rightarrow> bytes \<times> oracle_state" where
  "AddExecutableFile GetFilename s file = (if file = DoNotModify then (DoNotModify, s) else AddFile GetFilename s file)"

definition AddOracleScriptFile ::
  "(bytes \<Rightarrow> bytes) \<Rightarrow> (bytes \<Rightarrow> nat \<Rightarrow> bytes result) \<Rightarrow> oracle_state \<Rightarrow> bytes \<Rightarrow> (bytes \<times> oracle_state) result" where
  "AddOracleScriptFile GetFilename Compile s file =
     (if file = DoNotModify then Inr (DoNotModify, s)
      else
        case Compile file MaxCompiledWasmCodeSize of
          Inl _ \<Rightarrow> Inl ErrOwasmCompilation
        | Inr compiledFile \<Rightarrow> Inr (AddFile GetFilename s compiledFile))"

text \<open>\<open>src[0:3]\<close> is out of range for a slice whose capacity is below three, taken to be its length.\<close>

definition IsGzipped :: "bytes \<Rightarrow> bool result" where
  "IsGzipped src =
     (if length src < 3 then Inl (Panic ''slice bounds out of range'') else Inr (take 3 src = [0x1f, 0x8b, 0x08]))"

text \<open>\<open>gunzip src n\<close> is what a gzip reader gives of the first member of \<open>src\<close>, limited to \<open>n\<close> bytes.\<close>

definition Uncompress :: "(bytes \<Rightarrow> nat \<Rightarrow> bytes result) \<Rightarrow> bytes \<Rightarrow> nat \<Rightarrow> bytes result" where
  "Uncompress gunzip src maxSize =
     bindE (gunzip src (maxSize + 1)) (\<lambda>uncompressed.
       if length uncompressed > maxSize then Inl (Errorf ''uncompressed file exceeds maxSize'') else Inr uncompressed)"

definition unzip :: "(bytes \<Rightarrow> nat \<Rightarrow> bytes result) \<Rightarrow> bytes \<Rightarrow> nat \<Rightarrow> bytes result" where
  "unzip gunzip file maxSize =
     bindE (IsGzipped file) (\<lambda>z.
       if z then (case Uncompress gunzip file maxSize of Inl _ \<Rightarrow> Inl ErrUncompressionFailed | Inr f \<Rightarrow> Inr f)
       else Inr file)"

section \<open>The environment of an oracle script\<close>

text \<open>
  The virtual machine of \<open>go-owasm\<close> runs a script, which calls the environment. What it can do is a
  finite interaction tree: it halts with the gas used or an error, or makes a call and goes on with
  the reply. Which tree a script and a gas limit give is a parameter; the calls are the methods of
  \<open>EnvInterface\<close> as this package implements them.
\<close>

datatype env_call =
    Call_GetSpanSize
  | Call_GetCalldata
  | Call_SetReturnData bytes
  | Call_GetAskCount
  | Call_GetMinCount
  | Call_GetPrepareTime
  | Call_GetExecuteTime
  | Call_GetAnsCount
  | Call_AskExternalData int64 int64 bytes
  | Call_GetExternalDataStatus int64 int64
  | Call_GetExternalData int64 int64

datatype env_reply = Int64 int64 | Bytes bytes | Done | Failed error

datatype owasm_run = Halt "uint64 result" | Call env_call "env_reply \<Rightarrow> owasm_run"

primrec run_env :: "('e \<Rightarrow> env_call \<Rightarrow> env_reply \<times> 'e) \<Rightarrow> owasm_run \<Rightarrow> 'e \<Rightarrow> uint64 result \<times> 'e" where
  "run_env call (Halt r) = (\<lambda>env. (r, env))"
| "run_env call (Call c k) = (\<lambda>env. let (reply, env') = call env c in run_env call (k reply) env')"

definition ErrWrongPeriodAction :: error where "ErrWrongPeriodAction = Errorf ''owasm: wrong period action''"
definition ErrSpanTooSmall :: error where "ErrSpanTooSmall = Errorf ''owasm: span too small''"
definition ErrTooManyExternalData :: error where "ErrTooManyExternalData = Errorf ''owasm: too many external data''"
definition api_ErrDuplicateExternalID :: error where "api_ErrDuplicateExternalID = Errorf ''owasm: duplicate external id''"
definition ErrRepeatSetReturnData :: error where "ErrRepeatSetReturnData = Errorf ''owasm: repeat set return data''"
definition ErrBadValidatorIndex :: error where "ErrBadValidatorIndex = Errorf ''owasm: bad validator index''"
definition ErrBadExternalID :: error where "ErrBadExternalID = Errorf ''owasm: bad external id''"

record BaseEnv =
  env_request :: Request
  env_maxSpanSize :: int64

text \<open>The methods shared by both environments; the others report the wrong period.\<close>

definition base_call :: "BaseEnv \<Rightarrow> env_call \<Rightarrow> env_reply" where
  "base_call env c =
     (case c of
        Call_GetSpanSize \<Rightarrow> Int64 (env_maxSpanSize env)
      | Call_GetCalldata \<Rightarrow> Bytes (rq_Calldata (env_request env))
      | Call_GetAskCount \<Rightarrow> Int64 (int (length (rq_RequestedValidators (env_request env))))
      | Call_GetMinCount \<Rightarrow> Int64 (i64 (int (rq_MinCount (env_request env))))
      | Call_GetPrepareTime \<Rightarrow> Int64 (rq_RequestTime (env_request env))
      | _ \<Rightarrow> Failed ErrWrongPeriodAction)"

record PrepareEnv =
  pe_base :: BaseEnv
  pe_maxCalldataSize :: int64
  pe_maxRawRequests :: int64
  pe_rawRequests :: "RawRequest list"

definition NewPrepareEnv :: "Request \<Rightarrow> int64 \<Rightarrow> int64 \<Rightarrow> int64 \<Rightarrow> PrepareEnv" where
  "NewPrepareEnv req maxCalldataSize maxRawRequests spanSize =
     \<lparr>pe_base = \<lparr>env_request = req, env_maxSpanSize = spanSize\<rparr>, pe_maxCalldataSize = maxCalldataSize,
      pe_maxRawRequests = maxRawRequests, pe_rawRequests = []\<rparr>"

definition AskExternalData :: "PrepareEnv \<Rightarrow> int64 \<Rightarrow> int64 \<Rightarrow> bytes \<Rightarrow> env_reply \<times> PrepareEnv" where
  "AskExternalData env eid did data =
     (if int (length data) > pe_maxCalldataSize env then (Failed ErrSpanTooSmall, env)
      else if int (length (pe_rawRequests env)) \<ge> pe_maxRawRequests env then (Failed ErrTooManyExternalData, env)
      else if ContainsEID (pe_rawRequests env) (to_uint64 eid) then (Failed api_ErrDuplicateExternalID, env)
      else (Done, env\<lparr>pe_rawRequests := pe_rawRequests env @
              [\<lparr>raw_ExternalID = to_uint64 eid, raw_DataSourceID = to_uint64 did, raw_Calldata = data\<rparr>]\<rparr>))"

definition prepare_call :: "PrepareEnv \<Rightarrow> env_call \<Rightarrow> env_reply \<times> PrepareEnv" where
  "prepare_call env c =
     (case c of
        Call_AskExternalData eid did data \<Rightarrow> AskExternalData env eid did data
      | _ \<Rightarrow> (base_call (pe_base env) c, env))"

record ExecuteEnv =
  ee_base :: BaseEnv
  ee_reports :: "(bytes, (uint64, RawReport) kv) kv"
  ee_Retdata :: "bytes option"
  ee_ExecuteTime :: int64

definition NewExecuteEnv :: "Request \<Rightarrow> Report list \<Rightarrow> time \<Rightarrow> int64 \<Rightarrow> ExecuteEnv" where
  "NewExecuteEnv req reports executeTime spanSize =
     \<lparr>ee_base = \<lparr>env_request = req, env_maxSpanSize = spanSize\<rparr>,
      ee_reports = foldl (\<lambda>m report. kv_set m (rep_Validator report)
          (foldl (\<lambda>vm each. kv_set vm (rr_ExternalID each) each) [] (rep_RawReports report))) [] reports,
      ee_Retdata = None, ee_ExecuteTime = Unix executeTime\<rparr>"

definition SetReturnData :: "ExecuteEnv \<Rightarrow> bytes \<Rightarrow> env_reply \<times> ExecuteEnv" where
  "SetReturnData env data =
     (if ee_Retdata env \<noteq> None then (Failed ErrRepeatSetReturnData, env) else (Done, env\<lparr>ee_Retdata := Some data\<rparr>))"

definition getExternalDataFull :: "ExecuteEnv \<Rightarrow> int64 \<Rightarrow> int64 \<Rightarrow> (bytes \<times> int64) result" where
  "getExternalDataFull env eid valIdx =
     (let vals = rq_RequestedValidators (env_request (ee_base env)) in
      if valIdx < 0 \<or> valIdx \<ge> int (length vals) then Inl ErrBadValidatorIndex
      else
        case kv_get (ee_reports env) (vals ! nat valIdx) of
          None \<Rightarrow> Inr ([], -1)
        | Some valReports \<Rightarrow>
            (case kv_get valReports (to_uint64 eid) of
               None \<Rightarrow> Inl ErrBadExternalID
             | Some valReport \<Rightarrow> Inr (rr_Data valReport, int (rr_ExitCode valReport))))"

definition execute_call :: "ExecuteEnv \<Rightarrow> env_call \<Rightarrow> env_reply \<times> ExecuteEnv" where
  "execute_call env c =
     (case c of
        Call_GetExecuteTime \<Rightarrow> (Int64 (ee_ExecuteTime env), env)
      | Call_GetAnsCount \<Rightarrow> (Int64 (int (length (ee_reports env))), env)
      | Call_SetReturnData data \<Rightarrow> SetReturnData env data
      | Call_GetExternalDataStatus eid vid \<Rightarrow>
          ((case getExternalDataFull env eid vid of Inl e \<Rightarrow> Failed e | Inr (_, status) \<Rightarrow> Int64 status), env)
      | Call_GetExternalData eid vid \<Rightarrow>
          ((case getExternalDataFull env eid vid of Inl e \<Rightarrow> Failed e | Inr (data, _) \<Rightarrow> Bytes data), env)
      | _ \<Rightarrow> (base_call (ee_base env) c, env))"

section \<open>What a script can do to its environment\<close>

text \<open>An invariant of every call is an invariant of a run.\<close>

lemma run_env_invariant:
  assumes "\<And>env c reply env'. P env \<Longrightarrow> call env c = (reply, env') \<Longrightarrow> P env'"
    and "P env" and "run_env call run env = (r, env')"
  shows "P env'"
  using assms(2,3)
proof (induction run arbitrary: env)
  case (Call c k)
  obtain reply e where c: "call env c = (reply, e)" by (cases "call env c")
  then show ?case using Call.IH [of "k reply" e] Call.prems assms(1) [OF Call.prems(1) c] by simp
qed simp

definition raw_requests_ok :: "PrepareEnv \<Rightarrow> bool" where
  "raw_requests_ok env \<longleftrightarrow> distinct (map raw_ExternalID (pe_rawRequests env)) \<and>
     (pe_rawRequests env = [] \<or> int (length (pe_rawRequests env)) \<le> pe_maxRawRequests env) \<and>
     (\<forall>r\<in>set (pe_rawRequests env). int (length (raw_Calldata r)) \<le> pe_maxCalldataSize env)"

lemma prepare_call_ok:
  assumes "raw_requests_ok env" and "prepare_call env c = (reply, env')"
  shows "raw_requests_ok env' \<and> env' = env\<lparr>pe_rawRequests := pe_rawRequests env'\<rparr>"
  using assms by (auto simp: prepare_call_def AskExternalData_def raw_requests_ok_def ContainsEID_def split: env_call.splits if_splits) blast

lemma prepare_run_ok:
  assumes "run_env prepare_call run (NewPrepareEnv req maxCalldata maxRaw span) = (r, env)"
  shows "distinct (map raw_ExternalID (pe_rawRequests env))"
    and "pe_rawRequests env = [] \<or> int (length (pe_rawRequests env)) \<le> maxRaw"
    and "\<forall>q\<in>set (pe_rawRequests env). int (length (raw_Calldata q)) \<le> maxCalldata"
proof -
  let ?e = "NewPrepareEnv req maxCalldata maxRaw span"
  have "raw_requests_ok env \<and> env = ?e\<lparr>pe_rawRequests := pe_rawRequests env\<rparr>"
  proof (rule run_env_invariant [where P = "\<lambda>e. raw_requests_ok e \<and> e = ?e\<lparr>pe_rawRequests := pe_rawRequests e\<rparr>", OF _ _ assms])
    fix e c reply e'
    assume "raw_requests_ok e \<and> e = ?e\<lparr>pe_rawRequests := pe_rawRequests e\<rparr>" and "prepare_call e c = (reply, e')"
    then show "raw_requests_ok e' \<and> e' = ?e\<lparr>pe_rawRequests := pe_rawRequests e'\<rparr>"
      using prepare_call_ok [of e c reply e'] by (metis PrepareEnv.fold_congs(4) PrepareEnv.surjective PrepareEnv.update_convs(4))
  qed (simp add: raw_requests_ok_def NewPrepareEnv_def)
  then have ok: "raw_requests_ok env" and e: "env = ?e\<lparr>pe_rawRequests := pe_rawRequests env\<rparr>" by blast+
  have "pe_maxCalldataSize env = maxCalldata" "pe_maxRawRequests env = maxRaw"
    by (subst e, simp add: NewPrepareEnv_def)+
  with ok show "distinct (map raw_ExternalID (pe_rawRequests env))"
    and "pe_rawRequests env = [] \<or> int (length (pe_rawRequests env)) \<le> maxRaw"
    and "\<forall>q\<in>set (pe_rawRequests env). int (length (raw_Calldata q)) \<le> maxCalldata"
    unfolding raw_requests_ok_def by auto
qed

end
