(* ===== verification/Oracle.thy ===== *)
theory Oracle
  imports Oracle_Data
begin

text \<open>
  The module \<open>x/oracle\<close>, second part: preparing a request, reporting, resolving and expiring
  requests, and the message handlers (\<open>keeper/owasm.go\<close>, \<open>keeper/request.go\<close>, \<open>keeper/report.go\<close>,
  \<open>keeper/result.go\<close>, \<open>keeper/fee_collector.go\<close>, \<open>keeper/msg_server.go\<close>, \<open>keeper/relay.go\<close>,
  \<open>abci.go\<close>, \<open>genesis.go\<close>).
\<close>

section \<open>Keeper and context\<close>

text \<open>
  The keeper holds what the module calls: the SDK and the bank, the gas meter, the IBC capability and
  channel keepers, the keeper of \<open>x/bandtss\<close> behind its interface (it reads the oracle state to build the message), the
  random number generator, the virtual machine, the file hash and the gzip reader. The state of all
  of them is the type \<open>'w\<close>.
\<close>

record OracleResponsePacketData =
  rp_ClientID :: bytes
  rp_RequestID :: uint64
  rp_AnsCount :: uint64
  rp_RequestTime :: int64
  rp_ResolveTime :: int64
  rp_ResolveStatus :: ResolveStatus
  rp_Result :: bytes

record ('w, 'r) oracle_keeper =
  ok_sdk :: sdk
  ok_bank :: "'w bank_keeper"
  ok_ValAddressFromBech32 :: "bytes \<Rightarrow> bytes result"
  ok_ValAddress_String :: "bytes \<Rightarrow> bytes"
  ok_ConsumeGas :: "'w \<Rightarrow> uint64 \<Rightarrow> 'w result"
  ok_GetCapability :: "'w \<Rightarrow> bytes \<Rightarrow> bytes \<Rightarrow> bool"
  ok_SendPacket :: "'w \<Rightarrow> bytes \<Rightarrow> bytes \<Rightarrow> uint64 \<Rightarrow> OracleResponsePacketData \<Rightarrow> 'w result"
  ok_CreateDirectSigningRequest ::
    "oracle_state \<Rightarrow> 'w \<Rightarrow> uint64 \<times> Encoder \<Rightarrow> bytes \<Rightarrow> bytes \<Rightarrow> coins \<Rightarrow> (uint64 \<times> 'w) result"
  ok_ABCIInfo :: "error \<Rightarrow> bytes \<times> uint64"
  ok_new_drbg :: "bytes \<Rightarrow> bytes \<Rightarrow> bytes \<Rightarrow> 'r result"
  ok_drbg_read :: "'r drbg_read"
  ok_vm_Prepare :: "bytes \<Rightarrow> uint64 \<Rightarrow> owasm_run"
  ok_vm_Execute :: "bytes \<Rightarrow> uint64 \<Rightarrow> owasm_run"
  ok_vm_Compile :: "bytes \<Rightarrow> nat \<Rightarrow> bytes result"
  ok_GetFilename :: "bytes \<Rightarrow> bytes"
  ok_gunzip :: "bytes \<Rightarrow> nat \<Rightarrow> bytes result"
  ok_authority :: bytes

record oracle_ctx =
  oc_BlockTime :: time
  oc_BlockHeight :: int64
  oc_ChainID :: bytes
  oc_RollingSeed :: bytes
  oc_IterateBondedValidatorsByPower :: "(bytes \<times> int) list result"

section \<open>Preparing a request\<close>

definition ConvertToOwasmGas :: "uint64 \<Rightarrow> uint64" where
  "ConvertToOwasmGas cosmos = u64 (cosmos * 20000000)"

definition GetSpanSize :: "oracle_state \<Rightarrow> uint64" where
  "GetSpanSize s =
     (if op_MaxReportDataSize (st_params s) > op_MaxCalldataSize (st_params s)
      then op_MaxReportDataSize (st_params s) else op_MaxCalldataSize (st_params s))"

text \<open>The bonded validators that are active, with their tokens; \<open>Uint64\<close> panics out of range.\<close>

definition active_operators ::
  "('w, 'r) oracle_keeper \<Rightarrow> oracle_ctx \<Rightarrow> oracle_state \<Rightarrow> (bytes \<times> uint64) list result" where
  "active_operators k ctx s =
     bindE (oc_IterateBondedValidatorsByPower ctx) (\<lambda>vals.
     foldE (\<lambda>acc (op, tokens).
       case ok_ValAddressFromBech32 k op of
         Inl _ \<Rightarrow> Inr acc
       | Inr operator \<Rightarrow>
           if \<not> vs_IsActive (GetValidatorStatus (st_status s) operator) then Inr acc
           else if tokens < 0 \<or> tokens \<ge> 2 ^ 64 then Inl (Panic ''Uint64() out of bounds'')
           else Inr (acc @ [(operator, nat tokens)])) [] vals)"

text \<open>A slot of the result that no index fills keeps the empty address.\<close>

definition GetRandomValidators ::
  "('w, 'r) oracle_keeper \<Rightarrow> oracle_ctx \<Rightarrow> oracle_state \<Rightarrow> int64 \<Rightarrow> uint64 \<Rightarrow> bytes list result" where
  "GetRandomValidators k ctx s cnt rid =
     bindE (active_operators k ctx s) (\<lambda>ops.
     if int (length ops) < cnt then Inl ErrInsufficientValidators
     else
       case NewRng (ok_new_drbg k) (oc_RollingSeed ctx) (be_bytes 8 rid) (oc_ChainID ctx) of
         Inl _ \<Rightarrow> Inl ErrBadDrbgInitialization
       | Inr rng \<Rightarrow>
           bindE (ChooseSomeMaxWeight (ok_drbg_read k) rng (map snd ops) cnt (i64 (int (op_SamplingTryCount (st_params s)))))
             (\<lambda>(chosen, _).
             if cnt < 0 \<or> int (length chosen) > cnt then Inl (Panic ''index out of range'')
             else Inr (map (\<lambda>idx. fst (ops ! idx)) chosen @ replicate (nat cnt - length chosen) [])))"

record RequestSpec =
  spec_OracleScriptID :: uint64
  spec_Calldata :: bytes
  spec_AskCount :: uint64
  spec_MinCount :: uint64
  spec_ClientID :: bytes
  spec_PrepareGas :: uint64
  spec_ExecuteGas :: uint64
  spec_FeeLimit :: coins
  spec_TSSEncoder :: Encoder

text \<open>\<open>Coins.Sub\<close> panics when an amount would be negative.\<close>

definition Coins_Sub :: "sdk \<Rightarrow> coins \<Rightarrow> coins \<Rightarrow> coins result" where
  "Coins_Sub sdk a b =
     (case Coins_SafeSub sdk a b of (c, neg) \<Rightarrow> if neg then Inl (Panic ''negative coin amount'') else Inr c)"

record feeCollector =
  fc_payer :: bytes
  fc_collected :: coins
  fc_limit :: coins

definition Collect ::
  "('w, 'r) oracle_keeper \<Rightarrow> 'w \<Rightarrow> feeCollector \<Rightarrow> coins \<Rightarrow> bytes \<Rightarrow> (feeCollector \<times> 'w) result" where
  "Collect k w coll coins treasury =
     (let coll = coll\<lparr>fc_collected := Coins_Add (ok_sdk k) (fc_collected coll) coins\<rparr> in
      if \<exists>c\<in>set (fc_collected coll). snd c > Coins_AmountOf (ok_sdk k) (fc_limit coll) (fst c) then Inl ErrNotEnoughFee
      else bindE (SendCoins (ok_bank k) w (fc_payer coll) treasury coins) (\<lambda>w. Inr (coll, w)))"

definition scaled_fee :: "sdk \<Rightarrow> uint64 \<Rightarrow> coins \<Rightarrow> coins" where
  "scaled_fee sdk askCount fee = foldl (\<lambda>acc c. Coins_Add sdk acc [(fst c, snd c * i64 (int askCount))]) [] fee"

definition collect_step ::
  "('w, 'r) oracle_keeper \<Rightarrow> oracle_state \<Rightarrow> uint64 \<Rightarrow> feeCollector \<times> 'w \<Rightarrow> RawRequest \<Rightarrow> (feeCollector \<times> 'w) result" where
  "collect_step k s askCount cw r =
     (let (coll, w) = cw in
      bindE (GetDataSource s (raw_DataSourceID r)) (\<lambda>ds.
      if ds_Fee ds = [] then Inr (coll, w)
      else
        bindE (AccAddressFromBech32 (ok_sdk k) (ds_Treasury ds)) (\<lambda>treasury.
        Collect k w coll (scaled_fee (ok_sdk k) askCount (ds_Fee ds)) treasury)))"

definition CollectFee ::
  "('w, 'r) oracle_keeper \<Rightarrow> oracle_state \<Rightarrow> 'w \<Rightarrow> bytes \<Rightarrow> coins \<Rightarrow> uint64 \<Rightarrow> RawRequest list \<Rightarrow> (coins \<times> 'w) result" where
  "CollectFee k s w payer feeLimit askCount rawRequests =
     bindE (foldE (collect_step k s askCount) (\<lparr>fc_payer = payer, fc_collected = [], fc_limit = feeLimit\<rparr>, w) rawRequests)
       (\<lambda>(coll, w). Inr (fc_collected coll, w))"

definition NewRequest ::
  "('w, 'r) oracle_keeper \<Rightarrow> oracle_ctx \<Rightarrow> RequestSpec \<Rightarrow> bytes list \<Rightarrow> IBCChannel option \<Rightarrow> bytes \<Rightarrow> Request" where
  "NewRequest k ctx r validators ibcChannel feePayer =
     \<lparr>rq_OracleScriptID = spec_OracleScriptID r, rq_Calldata = spec_Calldata r,
      rq_RequestedValidators = map (ok_ValAddress_String k) validators, rq_MinCount = spec_MinCount r,
      rq_RequestHeight = oc_BlockHeight ctx, rq_RequestTime = Unix (oc_BlockTime ctx), rq_ClientID = spec_ClientID r,
      rq_RawRequests = [], rq_IBCChannel = ibcChannel, rq_ExecuteGas = spec_ExecuteGas r,
      rq_TSSEncoder = spec_TSSEncoder r, rq_Requester = AccAddress_String (ok_sdk k) feePayer,
      rq_FeeLimit = spec_FeeLimit r\<rparr>"

definition PrepareRequest ::
  "('w, 'r) oracle_keeper \<Rightarrow> oracle_ctx \<Rightarrow> oracle_state \<times> 'w \<Rightarrow> RequestSpec \<Rightarrow> bytes \<Rightarrow> IBCChannel option \<Rightarrow>
   (uint64 \<times> oracle_state \<times> 'w) result" where
  "PrepareRequest k ctx sw r feePayer ibcChannel =
     (let (s, w) = sw; params = st_params s; askCount = spec_AskCount r in
      if int (length (spec_Calldata r)) > i64 (int (GetSpanSize s)) then Inl ErrTooLargeCalldata
      else if askCount > op_MaxAskCount params then Inl ErrInvalidAskCount
      else
        bindE (ok_ConsumeGas k w (u64 (askCount * op_PerValidatorRequestGas params))) (\<lambda>w.
        bindE (GetRandomValidators k ctx s (i64 (int askCount)) (u64 (st_RequestCount s + 1))) (\<lambda>validators.
        let req = NewRequest k ctx r validators ibcChannel feePayer;
            env = NewPrepareEnv req (i64 (int (op_MaxCalldataSize params))) (i64 (int (op_MaxRawRequestCount params)))
                    (i64 (int (GetSpanSize s))) in
        bindE (GetOracleScript s (rq_OracleScriptID req)) (\<lambda>script.
        bindE (ok_ConsumeGas k w (op_BaseOwasmGas params)) (\<lambda>w.
        bindE (ok_ConsumeGas k w (spec_PrepareGas r)) (\<lambda>w.
        bindE (MustGetFile (ok_GetFilename k) s (os_Filename script)) (\<lambda>code.
        case run_env prepare_call (ok_vm_Prepare k code (ConvertToOwasmGas (spec_PrepareGas r))) env of
          (Inl _, _) \<Rightarrow> Inl ErrBadWasmExecution
        | (Inr gasUsed, env) \<Rightarrow>
            let req = req\<lparr>rq_RawRequests := pe_rawRequests env\<rparr> in
            if rq_RawRequests req = [] then Inl ErrEmptyRawRequests
            else
              bindE (CollectFee k s w feePayer (rq_FeeLimit req) askCount (rq_RawRequests req)) (\<lambda>(totalFees, w).
              bindE (Coins_Sub (ok_sdk k) (rq_FeeLimit req) totalFees) (\<lambda>feeLimit.
              let (rid, s) = AddRequest s (req\<lparr>rq_FeeLimit := feeLimit\<rparr>) in
              bindE (ok_ConsumeGas k w (op_BaseOwasmGas params)) (\<lambda>w.
              bindE (ok_ConsumeGas k w (spec_ExecuteGas r)) (\<lambda>w.
              bindE (foldE (\<lambda>_ rawReq. bindE (GetDataSource s (raw_DataSourceID rawReq)) (\<lambda>_. Inr ())) ()
                       (pe_rawRequests env)) (\<lambda>_.
              Inr (rid, s, w)))))))))))))"

section \<open>Reporting\<close>

definition requested :: "(bytes \<Rightarrow> bytes result) \<Rightarrow> bytes \<Rightarrow> bytes list \<Rightarrow> bool result" where
  "requested ValAddressFromBech32 val vals =
     foldE (\<lambda>found reqVal. if found then Inr True else bindE (ValAddressFromBech32 reqVal) (\<lambda>v. Inr (v = val))) False vals"

definition CheckValidReport ::
  "('w, 'r) oracle_keeper \<Rightarrow> oracle_state \<Rightarrow> uint64 \<Rightarrow> bytes \<Rightarrow> RawReport list \<Rightarrow> unit result" where
  "CheckValidReport k s rid val rawReports =
     bindE (GetRequest s rid) (\<lambda>req.
     bindE (requested (ok_ValAddressFromBech32 k) val (rq_RequestedValidators req)) (\<lambda>found.
     if \<not> found then Inl ErrValidatorNotRequested
     else if HasReport s rid val then Inl ErrValidatorAlreadyReported
     else if length rawReports \<noteq> length (rq_RawRequests req) then Inl ErrInvalidReportSize
     else if \<exists>rep\<in>set rawReports. \<not> ContainsEID (rq_RawRequests req) (rr_ExternalID rep) then Inl ErrRawRequestNotFound
     else Inr ()))"

definition AddReport ::
  "('w, 'r) oracle_keeper \<Rightarrow> oracle_state \<Rightarrow> uint64 \<Rightarrow> bytes \<Rightarrow> bool \<Rightarrow> RawReport list \<Rightarrow> oracle_state result" where
  "AddReport k s rid val reportInTime rawReports =
     bindE (CheckValidReport k s rid val rawReports) (\<lambda>_.
       Inr (SetReport (ok_ValAddressFromBech32 k) s rid
         \<lparr>rep_Validator = ok_ValAddress_String k val, rep_InBeforeResolve = reportInTime, rep_RawReports = rawReports\<rparr>))"

record MsgReportData =
  mrd_RequestID :: uint64
  mrd_RawReports :: "RawReport list"
  mrd_Validator :: bytes

definition ReportData :: "('w, 'r) oracle_keeper \<Rightarrow> oracle_state \<Rightarrow> MsgReportData \<Rightarrow> oracle_state result" where
  "ReportData k s msg =
     (let maxReportDataSize = i64 (int (op_MaxReportDataSize (st_params s))); rid = mrd_RequestID msg in
      if \<exists>r\<in>set (mrd_RawReports msg). int (length (rr_Data r)) > maxReportDataSize then Inl ErrTooLargeRawReportData
      else
        bindE (ok_ValAddressFromBech32 k (mrd_Validator msg)) (\<lambda>validator.
        if rid \<le> st_RequestLastExpired s then Inl ErrRequestAlreadyExpired
        else
          let reportInTime = (\<not> HasResult s rid) in
          bindE (AddReport k s rid validator reportInTime (mrd_RawReports msg)) (\<lambda>s.
          if reportInTime then
            bindE (MustGetRequest s rid) (\<lambda>req.
            if GetReportCount s rid = rq_MinCount req then Inr (AddPendingRequest s rid) else Inr s)
          else Inr s)))"

section \<open>Resolving\<close>

definition packetExpireTime :: int64 where
  "packetExpireTime = 600 * 10 ^ 9"

text \<open>A packet that cannot be sent leaves only an event.\<close>

definition SaveResult ::
  "('w, 'r) oracle_keeper \<Rightarrow> oracle_ctx \<Rightarrow> oracle_state \<times> 'w \<Rightarrow> uint64 \<Rightarrow> ResolveStatus \<Rightarrow> bytes \<Rightarrow> (oracle_state \<times> 'w) result" where
  "SaveResult k ctx sw rid status result =
     (let (s, w) = sw in
      bindE (MustGetRequest s rid) (\<lambda>r.
      let reportCount = GetReportCount s rid;
          s = SetResult s rid \<lparr>res_ClientID = rq_ClientID r, res_OracleScriptID = rq_OracleScriptID r,
                res_Calldata = rq_Calldata r, res_AskCount = length (rq_RequestedValidators r), res_MinCount = rq_MinCount r,
                res_RequestID = rid, res_AnsCount = reportCount, res_RequestTime = rq_RequestTime r,
                res_ResolveTime = Unix (oc_BlockTime ctx), res_ResolveStatus = status, res_Result = result\<rparr> in
      case rq_IBCChannel r of
        None \<Rightarrow> Inr (s, w)
      | Some ch \<Rightarrow>
          if \<not> ok_GetCapability k w (ch_PortId ch) (ch_ChannelId ch) then Inr (s, w)
          else
            case ok_SendPacket k w (ch_PortId ch) (ch_ChannelId ch) (to_uint64 (i64 (oc_BlockTime ctx + packetExpireTime)))
                   \<lparr>rp_ClientID = rq_ClientID r, rp_RequestID = rid, rp_AnsCount = reportCount, rp_RequestTime = rq_RequestTime r,
                    rp_ResolveTime = Unix (oc_BlockTime ctx), rp_ResolveStatus = status, rp_Result = result\<rparr> of
              Inl e \<Rightarrow> if is_panic e then Inl e else Inr (s, w)
            | Inr w \<Rightarrow> Inr (s, w)))"

text \<open>A panic inside is recovered, and what happened to the state of the keepers is dropped with the error.\<close>

definition safeCreateSigning ::
  "('w, 'r) oracle_keeper \<Rightarrow> oracle_state \<Rightarrow> 'w \<Rightarrow> uint64 \<Rightarrow> bytes \<Rightarrow> coins \<Rightarrow> Encoder \<Rightarrow> (uint64 \<times> 'w) result" where
  "safeCreateSigning k s w rid requester feeLimit encoder =
     (case bindE (MustAccAddressFromBech32 (ok_sdk k) requester) (\<lambda>sender.
             ok_CreateDirectSigningRequest k s w (rid, encoder) [] sender feeLimit) of
        Inl e \<Rightarrow> if is_panic e then Inl ErrCreateSigningPanic else Inl e
      | Inr r \<Rightarrow> Inr r)"

definition handleCreateSigningFailed :: "('w, 'r) oracle_keeper \<Rightarrow> oracle_state \<Rightarrow> uint64 \<Rightarrow> error \<Rightarrow> oracle_state" where
  "handleCreateSigningFailed k s rid err =
     (let (codespace, code) = ok_ABCIInfo k err in
      SetSigningResult s rid \<lparr>sr_SigningID = 0, sr_ErrorCodespace = codespace, sr_ErrorCode = code\<rparr>)"

definition ResolveSuccess ::
  "('w, 'r) oracle_keeper \<Rightarrow> oracle_ctx \<Rightarrow> oracle_state \<times> 'w \<Rightarrow> uint64 \<Rightarrow> bytes \<Rightarrow> coins \<Rightarrow> bytes \<Rightarrow> Encoder \<Rightarrow>
   (oracle_state \<times> 'w) result" where
  "ResolveSuccess k ctx sw rid requester feeLimit result encoder =
     bindE (SaveResult k ctx sw rid RESOLVE_STATUS_SUCCESS result) (\<lambda>(s, w).
     if encoder = ENCODER_UNSPECIFIED then Inr (s, w)
     else
       case safeCreateSigning k s w rid requester feeLimit encoder of
         Inl err \<Rightarrow> Inr (handleCreateSigningFailed k s rid err, w)
       | Inr (signingID, w) \<Rightarrow>
           Inr (SetSigningResult s rid \<lparr>sr_SigningID = signingID, sr_ErrorCodespace = [], sr_ErrorCode = 0\<rparr>, w))"

definition ResolveFailure ::
  "('w, 'r) oracle_keeper \<Rightarrow> oracle_ctx \<Rightarrow> oracle_state \<times> 'w \<Rightarrow> uint64 \<Rightarrow> (oracle_state \<times> 'w) result" where
  "ResolveFailure k ctx sw rid = SaveResult k ctx sw rid RESOLVE_STATUS_FAILURE []"

definition ResolveExpired ::
  "('w, 'r) oracle_keeper \<Rightarrow> oracle_ctx \<Rightarrow> oracle_state \<times> 'w \<Rightarrow> uint64 \<Rightarrow> (oracle_state \<times> 'w) result" where
  "ResolveExpired k ctx sw rid = SaveResult k ctx sw rid RESOLVE_STATUS_EXPIRED []"

definition ResolveRequest ::
  "('w, 'r) oracle_keeper \<Rightarrow> oracle_ctx \<Rightarrow> oracle_state \<times> 'w \<Rightarrow> uint64 \<Rightarrow> (oracle_state \<times> 'w) result" where
  "ResolveRequest k ctx sw reqID =
     (let (s, w) = sw in
      bindE (MustGetRequest s reqID) (\<lambda>req.
      let env = NewExecuteEnv req (GetReports s reqID) (oc_BlockTime ctx) (i64 (int (GetSpanSize s))) in
      bindE (MustGetOracleScript s (rq_OracleScriptID req)) (\<lambda>script.
      bindE (MustGetFile (ok_GetFilename k) s (os_Filename script)) (\<lambda>code.
      case run_env execute_call (ok_vm_Execute k code (ConvertToOwasmGas (rq_ExecuteGas req))) env of
        (Inl _, _) \<Rightarrow> ResolveFailure k ctx (s, w) reqID
      | (Inr gasUsed, env) \<Rightarrow>
          (case ee_Retdata env of
             None \<Rightarrow> ResolveFailure k ctx (s, w) reqID
           | Some retdata \<Rightarrow>
               ResolveSuccess k ctx (s, w) reqID (rq_Requester req) (rq_FeeLimit req) retdata (rq_TSSEncoder req))))))"

section \<open>Expiry and the end of a block\<close>

definition miss_unreported ::
  "('w, 'r) oracle_keeper \<Rightarrow> oracle_ctx \<Rightarrow> uint64 \<Rightarrow> Request \<Rightarrow> oracle_state \<Rightarrow> bytes \<Rightarrow> oracle_state" where
  "miss_unreported k ctx rid req s val =
     (let v = (case ok_ValAddressFromBech32 k val of Inl _ \<Rightarrow> [] | Inr v \<Rightarrow> v) in
      if HasReport s rid v then s
      else s\<lparr>st_status := MissReport (oc_BlockTime ctx) (st_status s) v (rq_RequestTime req * 10 ^ 9)\<rparr>)"

definition expire_request ::
  "('w, 'r) oracle_keeper \<Rightarrow> oracle_ctx \<Rightarrow> oracle_state \<times> 'w \<Rightarrow> uint64 \<Rightarrow> Request \<Rightarrow> (oracle_state \<times> 'w) result" where
  "expire_request k ctx sw rid req =
     bindE (if HasResult (fst sw) rid then Inr sw else ResolveExpired k ctx sw rid) (\<lambda>(s, w).
       let s = foldl (miss_unreported k ctx rid req) s (rq_RequestedValidators req);
           s = DeleteRequest s rid;
           s = DeleteReports s rid in
       Inr (s\<lparr>st_RequestLastExpired := rid\<rparr>, w))"

text \<open>
  The loop over the ids from the last expired one on; ids are below \<open>2 ^ 64 - 1\<close>, so that the loop variable does
  not wrap around.
\<close>

function expire_from ::
  "('w, 'r) oracle_keeper \<Rightarrow> oracle_ctx \<Rightarrow> int64 \<Rightarrow> uint64 \<Rightarrow> uint64 \<Rightarrow> oracle_state \<times> 'w \<Rightarrow> (oracle_state \<times> 'w) result" where
  "expire_from k ctx expirationBlockCount currentReqID lastReqID sw =
     (if currentReqID > lastReqID then Inr sw
      else
        bindE (MustGetRequest (fst sw) currentReqID) (\<lambda>req.
        if i64 (rq_RequestHeight req + expirationBlockCount) > oc_BlockHeight ctx then Inr sw
        else bindE (expire_request k ctx sw currentReqID req) (\<lambda>sw.
               expire_from k ctx expirationBlockCount (Suc currentReqID) lastReqID sw)))"
  by pat_completeness auto
termination
  by (relation "measure (\<lambda>(_, _, _, currentReqID, lastReqID, _). Suc lastReqID - currentReqID)") auto

declare expire_from.simps [simp del]

definition ProcessExpiredRequests ::
  "('w, 'r) oracle_keeper \<Rightarrow> oracle_ctx \<Rightarrow> oracle_state \<times> 'w \<Rightarrow> (oracle_state \<times> 'w) result" where
  "ProcessExpiredRequests k ctx sw =
     expire_from k ctx (i64 (int (op_ExpirationBlockCount (st_params (fst sw))))) (st_RequestLastExpired (fst sw) + 1)
       (st_RequestCount (fst sw)) sw"

definition oracle_EndBlocker ::
  "('w, 'r) oracle_keeper \<Rightarrow> oracle_ctx \<Rightarrow> oracle_state \<times> 'w \<Rightarrow> (oracle_state \<times> 'w) result" where
  "oracle_EndBlocker k ctx sw =
     bindE (foldE (ResolveRequest k ctx) sw (st_PendingResolveList (fst sw))) (\<lambda>(s, w).
     ProcessExpiredRequests k ctx (s\<lparr>st_PendingResolveList := []\<rparr>, w))"

section \<open>Messages\<close>

record MsgRequestData = mrq_spec :: RequestSpec mrq_Sender :: bytes

definition RequestData ::
  "('w, 'r) oracle_keeper \<Rightarrow> oracle_ctx \<Rightarrow> oracle_state \<times> 'w \<Rightarrow> MsgRequestData \<Rightarrow> (oracle_state \<times> 'w) result" where
  "RequestData k ctx sw msg =
     bindE (AccAddressFromBech32 (ok_sdk k) (mrq_Sender msg)) (\<lambda>payer.
     bindE (PrepareRequest k ctx sw (mrq_spec msg) payer None) (\<lambda>(_, sw). Inr sw))"

definition known_encoder :: "Encoder \<Rightarrow> bool" where
  "known_encoder e = (case e of ENCODER_OTHER _ \<Rightarrow> False | _ \<Rightarrow> True)"

text \<open>The checks shared by \<open>MsgRequestData\<close> and \<open>OracleRequestPacketData\<close>; only the first checks the encoder.\<close>

definition OracleRequestPacketData_ValidateBasic :: "sdk \<Rightarrow> RequestSpec \<Rightarrow> unit result" where
  "OracleRequestPacketData_ValidateBasic sdk p =
     (if spec_MinCount p \<le> 0 then Inl ErrInvalidMinCount
      else if spec_AskCount p < spec_MinCount p then Inl ErrInvalidAskCount
      else if length (spec_ClientID p) > MaxClientIDLength then Inl ErrTooLongClientID
      else if spec_PrepareGas p \<le> 0 then Inl ErrInvalidOwasmGas
      else if spec_ExecuteGas p \<le> 0 then Inl ErrInvalidOwasmGas
      else if u64 (spec_PrepareGas p + spec_ExecuteGas p) > MaximumOwasmGas then Inl ErrInvalidOwasmGas
      else if \<not> Coins_IsValid sdk (spec_FeeLimit p) then Inl sdk_ErrInvalidCoins
      else Inr ())"

text \<open>\<open>sdk.VerifyAddressFormat\<close> accepts addresses of 1 to 255 bytes.\<close>

definition verified_acc :: "sdk \<Rightarrow> bytes \<Rightarrow> unit result" where
  "verified_acc sdk a =
     bindE (AccAddressFromBech32 sdk a) (\<lambda>a. if valid_addr a then Inr () else Inl sdk_ErrInvalidAddress)"

definition MsgRequestData_ValidateBasic :: "sdk \<Rightarrow> MsgRequestData \<Rightarrow> unit result" where
  "MsgRequestData_ValidateBasic sdk m =
     bindE (verified_acc sdk (mrq_Sender m)) (\<lambda>_.
     bindE (OracleRequestPacketData_ValidateBasic sdk (mrq_spec m)) (\<lambda>_.
     if known_encoder (spec_TSSEncoder (mrq_spec m)) then Inr () else Inl ErrInvalidOracleEncoder))"

definition MsgReportData_ValidateBasic :: "('w, 'r) oracle_keeper \<Rightarrow> MsgReportData \<Rightarrow> unit result" where
  "MsgReportData_ValidateBasic k m =
     bindE (ok_ValAddressFromBech32 k (mrd_Validator m)) (\<lambda>v.
     if \<not> valid_addr v then Inl sdk_ErrInvalidAddress
     else if mrd_RawReports m = [] then Inl ErrEmptyReport
     else bindE (foldE (\<lambda>seen r. if rr_ExternalID r \<in> set seen then Inl ErrDuplicateExternalID else Inr (rr_ExternalID r # seen)) []
            (mrd_RawReports m)) (\<lambda>_. Inr ()))"

text \<open>A packet of the IBC module; a request packet that does not decode is an error acknowledgement.\<close>

definition oracle_OnRecvPacket ::
  "('w, 'r) oracle_keeper \<Rightarrow> oracle_ctx \<Rightarrow> oracle_state \<times> 'w \<Rightarrow> IBCChannel \<Rightarrow> RequestSpec result \<Rightarrow> bytes \<Rightarrow>
   (uint64 \<times> oracle_state \<times> 'w) result" where
  "oracle_OnRecvPacket k ctx sw destination data relayer =
     (if \<not> op_IBCRequestEnabled (st_params (fst sw)) then Inl ErrIBCRequestDisabled
      else
        bindE data (\<lambda>data.
        bindE (OracleRequestPacketData_ValidateBasic (ok_sdk k) data) (\<lambda>_.
        PrepareRequest k ctx sw data relayer (Some destination))))"

record MsgDataSource =
  mds_Name :: bytes
  mds_Description :: bytes
  mds_Executable :: bytes
  mds_Fee :: coins
  mds_Treasury :: bytes
  mds_Owner :: bytes
  mds_Sender :: bytes

definition NewDataSource :: "sdk \<Rightarrow> bytes \<Rightarrow> MsgDataSource \<Rightarrow> bytes \<Rightarrow> bytes \<Rightarrow> DataSource" where
  "NewDataSource sdk owner msg filename treasury =
     \<lparr>ds_Owner = AccAddress_String sdk owner, ds_Name = mds_Name msg, ds_Description = mds_Description msg,
      ds_Filename = filename, ds_Treasury = AccAddress_String sdk treasury, ds_Fee = mds_Fee msg\<rparr>"

definition MsgEditDataSource_ValidateBasic :: "sdk \<Rightarrow> MsgDataSource \<Rightarrow> unit result" where
  "MsgEditDataSource_ValidateBasic sdk m =
     bindE (AccAddressFromBech32 sdk (mds_Treasury m)) (\<lambda>treasury.
     bindE (AccAddressFromBech32 sdk (mds_Owner m)) (\<lambda>owner.
     bindE (AccAddressFromBech32 sdk (mds_Sender m)) (\<lambda>sender.
     if \<not> valid_addr treasury \<or> \<not> valid_addr owner \<or> \<not> valid_addr sender then Inl sdk_ErrInvalidAddress
     else if length (mds_Name m) > MaxNameLength then Inl ErrTooLongName
     else if length (mds_Description m) > MaxDescriptionLength then Inl ErrTooLongDescription
     else if \<not> Coins_IsValid sdk (mds_Fee m) then Inl sdk_ErrInvalidCoins
     else if mds_Executable m = [] then Inl ErrEmptyExecutable
     else if length (mds_Executable m) > MaxExecutableSize then Inl ErrTooLargeExecutable
     else Inr ())))"

definition MsgCreateDataSource_ValidateBasic :: "sdk \<Rightarrow> MsgDataSource \<Rightarrow> unit result" where
  "MsgCreateDataSource_ValidateBasic sdk m =
     bindE (MsgEditDataSource_ValidateBasic sdk m) (\<lambda>_.
     if mds_Executable m = DoNotModify then Inl ErrCreateWithDoNotModify else Inr ())"

definition CreateDataSource :: "('w, 'r) oracle_keeper \<Rightarrow> oracle_state \<Rightarrow> MsgDataSource \<Rightarrow> oracle_state result" where
  "CreateDataSource k s msg =
     bindE (unzip (ok_gunzip k) (mds_Executable msg) MaxExecutableSize) (\<lambda>executable.
     bindE (AccAddressFromBech32 (ok_sdk k) (mds_Owner msg)) (\<lambda>owner.
     bindE (AccAddressFromBech32 (ok_sdk k) (mds_Treasury msg)) (\<lambda>treasury.
     let (filename, s) = AddExecutableFile (ok_GetFilename k) s executable in
     Inr (snd (AddDataSource s (NewDataSource (ok_sdk k) owner msg filename treasury))))))"

definition EditDataSource :: "('w, 'r) oracle_keeper \<Rightarrow> oracle_state \<Rightarrow> uint64 \<Rightarrow> MsgDataSource \<Rightarrow> oracle_state result" where
  "EditDataSource k s dsid msg =
     bindE (GetDataSource s dsid) (\<lambda>dataSource.
     bindE (AccAddressFromBech32 (ok_sdk k) (ds_Owner dataSource)) (\<lambda>owner.
     bindE (AccAddressFromBech32 (ok_sdk k) (mds_Sender msg)) (\<lambda>sender.
     if owner \<noteq> sender then Inl ErrEditorNotAuthorized
     else
       bindE (AccAddressFromBech32 (ok_sdk k) (mds_Treasury msg)) (\<lambda>treasury.
       bindE (unzip (ok_gunzip k) (mds_Executable msg) MaxExecutableSize) (\<lambda>executable.
       bindE (AccAddressFromBech32 (ok_sdk k) (mds_Owner msg)) (\<lambda>newOwner.
       let (filename, s) = AddExecutableFile (ok_GetFilename k) s executable in
       MustEditDataSource s dsid (NewDataSource (ok_sdk k) newOwner msg filename treasury)))))))"

record MsgOracleScript =
  mos_Name :: bytes
  mos_Description :: bytes
  mos_Schema :: bytes
  mos_SourceCodeURL :: bytes
  mos_Code :: bytes
  mos_Owner :: bytes
  mos_Sender :: bytes

definition NewOracleScript :: "sdk \<Rightarrow> bytes \<Rightarrow> MsgOracleScript \<Rightarrow> bytes \<Rightarrow> OracleScript" where
  "NewOracleScript sdk owner msg filename =
     \<lparr>os_Owner = AccAddress_String sdk owner, os_Name = mos_Name msg, os_Description = mos_Description msg,
      os_Filename = filename, os_Schema = mos_Schema msg, os_SourceCodeURL = mos_SourceCodeURL msg\<rparr>"

definition MsgEditOracleScript_ValidateBasic :: "sdk \<Rightarrow> MsgOracleScript \<Rightarrow> unit result" where
  "MsgEditOracleScript_ValidateBasic sdk m =
     bindE (AccAddressFromBech32 sdk (mos_Owner m)) (\<lambda>owner.
     bindE (AccAddressFromBech32 sdk (mos_Sender m)) (\<lambda>sender.
     if \<not> valid_addr owner \<or> \<not> valid_addr sender then Inl sdk_ErrInvalidAddress
     else if length (mos_Name m) > MaxNameLength then Inl ErrTooLongName
     else if length (mos_Description m) > MaxDescriptionLength then Inl ErrTooLongDescription
     else if length (mos_Schema m) > MaxSchemaLength then Inl ErrTooLongSchema
     else if length (mos_SourceCodeURL m) > MaxURLLength then Inl ErrTooLongURL
     else if mos_Code m = [] then Inl ErrEmptyWasmCode
     else if length (mos_Code m) > MaxWasmCodeSize then Inl ErrTooLargeWasmCode
     else Inr ()))"

definition MsgCreateOracleScript_ValidateBasic :: "sdk \<Rightarrow> MsgOracleScript \<Rightarrow> unit result" where
  "MsgCreateOracleScript_ValidateBasic sdk m =
     bindE (MsgEditOracleScript_ValidateBasic sdk m) (\<lambda>_.
     if mos_Code m = DoNotModify then Inl ErrCreateWithDoNotModify else Inr ())"

definition CreateOracleScript :: "('w, 'r) oracle_keeper \<Rightarrow> oracle_state \<Rightarrow> MsgOracleScript \<Rightarrow> oracle_state result" where
  "CreateOracleScript k s msg =
     bindE (unzip (ok_gunzip k) (mos_Code msg) MaxWasmCodeSize) (\<lambda>code.
     bindE (AccAddressFromBech32 (ok_sdk k) (mos_Owner msg)) (\<lambda>owner.
     bindE (AddOracleScriptFile (ok_GetFilename k) (ok_vm_Compile k) s code) (\<lambda>(filename, s).
     Inr (snd (AddOracleScript s (NewOracleScript (ok_sdk k) owner msg filename))))))"

definition EditOracleScript :: "('w, 'r) oracle_keeper \<Rightarrow> oracle_state \<Rightarrow> uint64 \<Rightarrow> MsgOracleScript \<Rightarrow> oracle_state result" where
  "EditOracleScript k s osid msg =
     bindE (GetOracleScript s osid) (\<lambda>oracleScript.
     bindE (AccAddressFromBech32 (ok_sdk k) (os_Owner oracleScript)) (\<lambda>owner.
     bindE (AccAddressFromBech32 (ok_sdk k) (mos_Sender msg)) (\<lambda>sender.
     if owner \<noteq> sender then Inl ErrEditorNotAuthorized
     else
       bindE (unzip (ok_gunzip k) (mos_Code msg) MaxWasmCodeSize) (\<lambda>code.
       bindE (AddOracleScriptFile (ok_GetFilename k) (ok_vm_Compile k) s code) (\<lambda>(filename, s).
       bindE (AccAddressFromBech32 (ok_sdk k) (mos_Owner msg)) (\<lambda>newOwner.
       MustEditOracleScript s osid (NewOracleScript (ok_sdk k) newOwner msg filename)))))))"

definition msg_Activate :: "('w, 'r) oracle_keeper \<Rightarrow> oracle_ctx \<Rightarrow> oracle_state \<Rightarrow> bytes \<Rightarrow> oracle_state result" where
  "msg_Activate k ctx s validator =
     bindE (ok_ValAddressFromBech32 k validator) (\<lambda>valAddr.
     bindE (Activate (op_InactivePenaltyDuration (st_params s)) (oc_BlockTime ctx) (st_status s) valAddr) (\<lambda>m.
     Inr (s\<lparr>st_status := m\<rparr>)))"

definition oracle_UpdateParams :: "('w, 'r) oracle_keeper \<Rightarrow> oracle_state \<Rightarrow> bytes \<Rightarrow> oracle_Params \<Rightarrow> oracle_state result" where
  "oracle_UpdateParams k s authority p =
     (if ok_authority k \<noteq> authority then Inl gov_ErrInvalidSigner else oracle_SetParams s p)"

section \<open>Genesis and signature orders\<close>

record oracle_GenesisState =
  ogs_Params :: oracle_Params
  ogs_DataSources :: "DataSource list"
  ogs_OracleScripts :: "OracleScript list"

text \<open>Binding the IBC port has no effect on the store of the module.\<close>

definition oracle_InitGenesis :: "oracle_state \<Rightarrow> oracle_GenesisState \<Rightarrow> oracle_state result" where
  "oracle_InitGenesis s data =
     (case oracle_SetParams s (ogs_Params data) of
        Inl _ \<Rightarrow> Inl (Panic ''set params'')
      | Inr s \<Rightarrow>
          let s = s\<lparr>st_DataSourceCount := 0, st_OracleScriptCount := 0, st_RequestCount := 0, st_RequestLastExpired := 0\<rparr>;
              s = foldl (\<lambda>s d. snd (AddDataSource s d)) s (ogs_DataSources data) in
          Inr (foldl (\<lambda>s x. snd (AddOracleScript s x)) s (ogs_OracleScripts data)))"

definition oracle_ExportGenesis :: "oracle_state \<Rightarrow> oracle_GenesisState" where
  "oracle_ExportGenesis s =
     \<lparr>ogs_Params = st_params s, ogs_DataSources = GetAllDataSources s, ogs_OracleScripts = GetAllOracleScripts s\<rparr>"

record OracleResultSignatureOrder =
  orso_RequestID :: uint64
  orso_Encoder :: Encoder

definition OracleResultSignatureOrder_ValidateBasic :: "OracleResultSignatureOrder \<Rightarrow> unit result" where
  "OracleResultSignatureOrder_ValidateBasic x =
     (if orso_RequestID x = 0 then Inl ErrInvalidRequestID
      else if \<not> known_encoder (orso_Encoder x) then Inl ErrInvalidOracleEncoder
      else if orso_Encoder x = ENCODER_UNSPECIFIED then Inl ErrInvalidOracleEncoder
      else Inr ())"

text \<open>The protobuf and ABI encoders of a result are generated and library code, here parameters.\<close>

definition oracle_SignatureOrderHandler ::
  "(Result \<Rightarrow> bytes result) \<Rightarrow> (Result \<Rightarrow> bytes result) \<Rightarrow> (Result \<Rightarrow> bytes result) \<Rightarrow> oracle_state \<Rightarrow>
   OracleResultSignatureOrder \<Rightarrow> bytes result" where
  "oracle_SignatureOrderHandler MarshalResult PackFullABI PackPartialABI s c =
     bindE (GetResult s (orso_RequestID c)) (\<lambda>result.
     case orso_Encoder c of
       ENCODER_PROTO \<Rightarrow> bindE (MarshalResult result) (\<lambda>bz. Inr ([0x01, 0xe2, 0xad, 0xb3] @ bz))
     | ENCODER_FULL_ABI \<Rightarrow> bindE (PackFullABI result) (\<lambda>bz. Inr ([0x45, 0xb4, 0xe7, 0xea] @ bz))
     | ENCODER_PARTIAL_ABI \<Rightarrow> bindE (PackPartialABI result) (\<lambda>bz. Inr ([0x7b, 0xae, 0x7c, 0xd8] @ bz))
     | _ \<Rightarrow> Inl (Errorf ''sdk: unknown request''))"

end
