(* ===== verification/Oracle_Inv.thy ===== *)
theory Oracle_Inv
  imports Oracle
begin

text \<open>
  The module \<open>x/oracle\<close>, third part: the life of a request. The invariant of the store, its
  preservation by every handler and by the end of a block, and the properties that rest on it.
\<close>

section \<open>Keys and lookups\<close>

lemma be_bytes_8_inj: "i < 2 ^ 64 \<Longrightarrow> j < 2 ^ 64 \<Longrightarrow> be_bytes 8 i = be_bytes 8 j \<longleftrightarrow> i = j"
  by (rule be_bytes_inj) simp_all

lemma RequestStoreKey_inj: "i < 2 ^ 64 \<Longrightarrow> j < 2 ^ 64 \<Longrightarrow> RequestStoreKey i = RequestStoreKey j \<longleftrightarrow> i = j"
  using be_bytes_8_inj by (simp add: RequestStoreKey_def)

lemma ResultStoreKey_inj: "i < 2 ^ 64 \<Longrightarrow> j < 2 ^ 64 \<Longrightarrow> ResultStoreKey i = ResultStoreKey j \<longleftrightarrow> i = j"
  using be_bytes_8_inj by (simp add: ResultStoreKey_def)

lemma report_key_inj:
  "i < 2 ^ 64 \<Longrightarrow> j < 2 ^ 64 \<Longrightarrow> ReportsOfValidatorPrefixKey i v = ReportsOfValidatorPrefixKey j u \<longleftrightarrow> i = j \<and> v = u"
  using be_bytes_8_inj by (auto simp: ReportsOfValidatorPrefixKey_def ReportStoreKey_def append_eq_append_conv)

lemma report_key_prefix:
  "i < 2 ^ 64 \<Longrightarrow> j < 2 ^ 64 \<Longrightarrow> has_prefix (ReportStoreKey i) (ReportsOfValidatorPrefixKey j v) \<longleftrightarrow> i = j"
  using be_bytes_8_inj by (auto simp: has_prefix_iff ReportsOfValidatorPrefixKey_def ReportStoreKey_def append_eq_append_conv)

definition nreports :: "oracle_state \<Rightarrow> uint64 \<Rightarrow> nat" where
  "nreports s i = length (GetReportIterator s i)"

lemma kv_prefix_count_set:
  "k \<notin> fst ` set m \<Longrightarrow>
   length (kv_prefix_iterator (kv_set m k v) p) = length (kv_prefix_iterator m p) + (if has_prefix p k then 1 else 0)"
  by (induction m k v rule: kv_set.induct) (auto simp: kv_prefix_iterator_def)

lemma kv_has_mem: "kv_has m k \<longleftrightarrow> k \<in> fst ` set m"
  by (force simp: kv_has_def kv_get_def map_of_eq_None_iff)

text \<open>What a handler that touches only one map leaves alone.\<close>

lemmas store_ops = SetRequest_def DeleteRequest_def SetReport_def SetResult_def SetSigningResult_def AddPendingRequest_def
  SetDataSource_def SetOracleScript_def

lemmas lookups = GetRequest_def HasReport_def HasResult_def GetReportIterator_def GetOracleScript_def nreports_def

section \<open>The invariant\<close>

definition files_ok :: "('w, 'r) oracle_keeper \<Rightarrow> oracle_state \<Rightarrow> bool" where
  "files_ok k s \<longleftrightarrow> (\<forall>f d. kv_get (st_files s) f = Some d \<longrightarrow> ok_GetFilename k d = f)"

definition script_ok :: "oracle_state \<Rightarrow> uint64 \<Rightarrow> bool" where
  "script_ok s osid \<longleftrightarrow> (\<exists>x. GetOracleScript s osid = Inr x \<and> kv_has (st_files s) (os_Filename x))"

definition req_good :: "oracle_state \<Rightarrow> Request \<Rightarrow> bool" where
  "req_good s r \<longleftrightarrow> 1 \<le> rq_MinCount r \<and> rq_MinCount r \<le> length (rq_RequestedValidators r) \<and>
     length (rq_RequestedValidators r) < 2 ^ 64 \<and> script_ok s (rq_OracleScriptID r)"

definition asked :: "('w, 'r) oracle_keeper \<Rightarrow> Request \<Rightarrow> bytes \<Rightarrow> bool" where
  "asked k r v \<longleftrightarrow> (\<exists>x\<in>set (rq_RequestedValidators r). ok_ValAddressFromBech32 k x = Inr v)"

text \<open>
  Requests are stored exactly between the last expired id and the count; every stored report belongs to one
  of them and comes from a validator that was asked; results exist for all expired requests and for
  no future one; and the pending list has exactly the unresolved requests with enough reports, each once.
\<close>

definition requests_ok :: "oracle_state \<Rightarrow> bool" where
  "requests_ok s \<longleftrightarrow> st_RequestLastExpired s \<le> st_RequestCount s \<and> st_RequestCount s < 2 ^ 64 - 1 \<and>
     (\<forall>i<2 ^ 64. (\<exists>r. GetRequest s i = Inr r) \<longleftrightarrow> st_RequestLastExpired s < i \<and> i \<le> st_RequestCount s) \<and>
     (\<forall>i<2 ^ 64. \<forall>r. GetRequest s i = Inr r \<longrightarrow> req_good s r)"

definition reports_ok :: "('w, 'r) oracle_keeper \<Rightarrow> oracle_state \<Rightarrow> bool" where
  "reports_ok k s \<longleftrightarrow> kv_ok (st_reports s) \<and>
     (\<forall>key\<in>fst ` set (st_reports s). \<exists>i v r. key = ReportsOfValidatorPrefixKey i v \<and> i < 2 ^ 64 \<and>
        GetRequest s i = Inr r \<and> asked k r v)"

definition results_ok :: "oracle_state \<Rightarrow> bool" where
  "results_ok s \<longleftrightarrow> (\<forall>i<2 ^ 64. HasResult s i \<longrightarrow> 1 \<le> i \<and> i \<le> st_RequestCount s) \<and>
     (\<forall>i<2 ^ 64. 1 \<le> i \<and> i \<le> st_RequestLastExpired s \<longrightarrow> HasResult s i)"

definition pending_ok :: "oracle_state \<Rightarrow> bool" where
  "pending_ok s \<longleftrightarrow> distinct (st_PendingResolveList s) \<and>
     (\<forall>i\<in>set (st_PendingResolveList s). i < 2 ^ 64 \<and> (\<exists>r. GetRequest s i = Inr r) \<and> \<not> HasResult s i) \<and>
     (\<forall>i<2 ^ 64. \<forall>r. GetRequest s i = Inr r \<longrightarrow> \<not> HasResult s i \<longrightarrow>
        (i \<in> set (st_PendingResolveList s) \<longleftrightarrow> rq_MinCount r \<le> nreports s i))"

definition scripts_ok :: "oracle_state \<Rightarrow> bool" where
  "scripts_ok s \<longleftrightarrow> st_OracleScriptCount s < 2 ^ 64 - 1 \<and>
     (\<forall>key\<in>fst ` set (st_oracle_scripts s). \<exists>i. i \<le> st_OracleScriptCount s \<and> key = OracleScriptStoreKey i)"

definition oracle_inv :: "('w, 'r) oracle_keeper \<Rightarrow> oracle_state \<Rightarrow> bool" where
  "oracle_inv k s \<longleftrightarrow> files_ok k s \<and> requests_ok s \<and> reports_ok k s \<and> results_ok s \<and> pending_ok s \<and> scripts_ok s"

lemma requests_okD:
  assumes "requests_ok s"
  shows "st_RequestLastExpired s \<le> st_RequestCount s" and "st_RequestCount s < 2 ^ 64 - 1"
    and "i < 2 ^ 64 \<Longrightarrow> (\<exists>r. GetRequest s i = Inr r) \<longleftrightarrow> st_RequestLastExpired s < i \<and> i \<le> st_RequestCount s"
    and "i < 2 ^ 64 \<Longrightarrow> GetRequest s i = Inr r \<Longrightarrow> req_good s r"
  using assms unfolding requests_ok_def by blast+

lemma reports_okD:
  assumes "reports_ok k s"
  shows "kv_ok (st_reports s)"
    and "key \<in> fst ` set (st_reports s) \<Longrightarrow> \<exists>i v r. key = ReportsOfValidatorPrefixKey i v \<and> i < 2 ^ 64 \<and>
        GetRequest s i = Inr r \<and> asked k r v"
  using assms unfolding reports_ok_def by blast+

lemma results_okD:
  assumes "results_ok s"
  shows "i < 2 ^ 64 \<Longrightarrow> HasResult s i \<Longrightarrow> 1 \<le> i \<and> i \<le> st_RequestCount s"
    and "i < 2 ^ 64 \<Longrightarrow> 1 \<le> i \<Longrightarrow> i \<le> st_RequestLastExpired s \<Longrightarrow> HasResult s i"
  using assms unfolding results_ok_def by blast+

lemma pending_okD:
  assumes "pending_ok s"
  shows "distinct (st_PendingResolveList s)"
    and "i \<in> set (st_PendingResolveList s) \<Longrightarrow> i < 2 ^ 64 \<and> (\<exists>r. GetRequest s i = Inr r) \<and> \<not> HasResult s i"
    and "i < 2 ^ 64 \<Longrightarrow> GetRequest s i = Inr r \<Longrightarrow> \<not> HasResult s i \<Longrightarrow>
        i \<in> set (st_PendingResolveList s) \<longleftrightarrow> rq_MinCount r \<le> nreports s i"
  using assms unfolding pending_ok_def by blast+

lemma oracle_invD:
  assumes "oracle_inv k s"
  shows "files_ok k s" and "requests_ok s" and "reports_ok k s" and "results_ok s" and "pending_ok s" and "scripts_ok s"
  using assms by (simp_all add: oracle_inv_def)

text \<open>No request has more reports than validators asked, so counting them never wraps.\<close>

lemma nreports_le:
  assumes "reports_ok k s" and "i < 2 ^ 64" and "GetRequest s i = Inr r"
  shows "nreports s i \<le> length (rq_RequestedValidators r)"
proof -
  let ?keys = "fst ` set (GetReportIterator s i)" and ?parse = "\<lambda>x. case ok_ValAddressFromBech32 k x of Inr v \<Rightarrow> v | Inl _ \<Rightarrow> []"
  have "?keys \<subseteq> (\<lambda>x. ReportsOfValidatorPrefixKey i (?parse x)) ` set (rq_RequestedValidators r)"
  proof
    fix key assume "key \<in> ?keys"
    then have mem: "key \<in> fst ` set (st_reports s)" and pre: "has_prefix (ReportStoreKey i) key"
      by (auto simp: GetReportIterator_def kv_prefix_iterator_def)
    then obtain j v q where j: "key = ReportsOfValidatorPrefixKey j v" "j < 2 ^ 64" "GetRequest s j = Inr q" "asked k q v"
      using reports_okD(2) [OF assms(1) mem] by blast
    have "i = j" using pre j(1,2) assms(2) report_key_prefix by simp
    then show "key \<in> (\<lambda>x. ReportsOfValidatorPrefixKey i (?parse x)) ` set (rq_RequestedValidators r)"
      using j assms(3) by (force simp: asked_def)
  qed
  then have "card ?keys \<le> card (set (rq_RequestedValidators r))"
    by (meson List.finite_set card_image_le card_mono finite_imageI le_trans)
  moreover have "distinct (map fst (GetReportIterator s i))"
    using reports_okD(1) [OF assms(1)]
    by (simp add: GetReportIterator_def kv_prefix_iterator_def kv_ok_def strict_sorted_iff distinct_map_filter)
  then have "card ?keys = nreports s i" by (metis distinct_card length_map list.set_map nreports_def)
  ultimately show ?thesis using card_length [of "rq_RequestedValidators r"] by simp
qed

lemma GetReportCount_eq:
  assumes "oracle_inv k s" and "i < 2 ^ 64" and "GetRequest s i = Inr r"
  shows "GetReportCount s i = nreports s i"
proof -
  have "nreports s i < 2 ^ 64" using nreports_le [OF oracle_invD(3) [OF assms(1)] assms(2,3)] requests_okD(4) [OF oracle_invD(2) [OF assms(1)] assms(2,3)] by (simp add: req_good_def)
  then show ?thesis by (simp add: GetReportCount_def nreports_def)
qed

section \<open>Handlers that leave requests alone\<close>

definition same_life :: "oracle_state \<Rightarrow> oracle_state \<Rightarrow> bool" where
  "same_life s s' \<longleftrightarrow> st_requests s' = st_requests s \<and> st_reports s' = st_reports s \<and> st_results s' = st_results s \<and>
     st_RequestCount s' = st_RequestCount s \<and> st_RequestLastExpired s' = st_RequestLastExpired s \<and>
     st_PendingResolveList s' = st_PendingResolveList s"

lemma same_life_lookups:
  assumes "same_life s s'"
  shows "GetRequest s' i = GetRequest s i" and "HasResult s' i = HasResult s i" and "GetResult s' i = GetResult s i"
    and "nreports s' i = nreports s i" and "HasReport s' i v = HasReport s i v"
  using assms by (simp_all add: same_life_def lookups GetResult_def)

lemma oracle_inv_frame:
  assumes "oracle_inv k s" and "same_life s s'" and "files_ok k s'" and "\<And>osid. script_ok s osid \<Longrightarrow> script_ok s' osid" and "scripts_ok s'"
  shows "oracle_inv k s'"
proof -
  have good: "req_good s r \<Longrightarrow> req_good s' r" for r using assms(4) by (simp add: req_good_def)
  note l = same_life_lookups [OF assms(2)] assms(2) [unfolded same_life_def]
  have "requests_ok s'" using oracle_invD(2) [OF assms(1)] good unfolding requests_ok_def by (simp add: l)
  moreover have "reports_ok k s'" using oracle_invD(3) [OF assms(1)] unfolding reports_ok_def by (simp add: l)
  moreover have "results_ok s'" using oracle_invD(4) [OF assms(1)] unfolding results_ok_def by (simp add: l)
  moreover have "pending_ok s'" using oracle_invD(5) [OF assms(1)] unfolding pending_ok_def by (simp add: l)
  ultimately show ?thesis using assms(3,5) by (simp add: oracle_inv_def)
qed

lemma AddFile_spec:
  assumes "AddFile (ok_GetFilename k) s data = (f, s')" and "files_ok k s"
  shows "same_life s s'" and "files_ok k s'" and "kv_has (st_files s') f" and "\<And>g. kv_has (st_files s) g \<Longrightarrow> kv_has (st_files s') g"
    and "st_oracle_scripts s' = st_oracle_scripts s" and "st_data_sources s' = st_data_sources s"
  using assms by (auto simp: AddFile_def Let_def same_life_def files_ok_def kv_has_def split: if_splits)

lemma script_ok_files:
  assumes "st_oracle_scripts s' = st_oracle_scripts s" and "\<And>g. kv_has (st_files s) g \<Longrightarrow> kv_has (st_files s') g"
    and "script_ok s osid"
  shows "script_ok s' osid"
  using assms by (auto simp: script_ok_def GetOracleScript_def)

lemma script_ok_set:
  assumes "\<And>osid. script_ok s osid \<Longrightarrow> script_ok t osid" and "st_files t = st_files s'"
    and "st_oracle_scripts s' = kv_set (st_oracle_scripts t) (OracleScriptStoreKey n) x"
    and "script_ok t n \<Longrightarrow> kv_has (st_files t) (os_Filename x)" and "script_ok s osid"
  shows "script_ok s' osid"
proof (cases "OracleScriptStoreKey osid = OracleScriptStoreKey n")
  case True
  then have "script_ok t n" using assms(1) [OF assms(5)] by (simp add: script_ok_def GetOracleScript_def)
  then show ?thesis using True assms(2-4) by (simp add: script_ok_def GetOracleScript_def)
next
  case False
  then show ?thesis using assms(1) [OF assms(5)] assms(2,3) by (simp add: script_ok_def GetOracleScript_def)
qed

lemma scripts_ok_same:
  "scripts_ok s \<Longrightarrow> st_oracle_scripts s' = st_oracle_scripts s \<Longrightarrow> st_OracleScriptCount s' = st_OracleScriptCount s \<Longrightarrow> scripts_ok s'"
  by (simp add: scripts_ok_def)

lemma AddExecutableFile_spec:
  assumes "AddExecutableFile (ok_GetFilename k) s file = (f, s')" and "files_ok k s"
  shows "same_life s s'" and "files_ok k s'" and "\<And>g. kv_has (st_files s) g \<Longrightarrow> kv_has (st_files s') g"
    and "st_oracle_scripts s' = st_oracle_scripts s" and "st_OracleScriptCount s' = st_OracleScriptCount s"
  using assms by (auto simp: AddExecutableFile_def AddFile_def Let_def same_life_def files_ok_def kv_has_def split: if_splits)

lemma AddOracleScriptFile_spec:
  assumes "AddOracleScriptFile (ok_GetFilename k) (ok_vm_Compile k) s file = Inr (f, s')" and "files_ok k s"
  shows "same_life s s'" and "files_ok k s'" and "f = DoNotModify \<or> kv_has (st_files s') f"
    and "\<And>g. kv_has (st_files s) g \<Longrightarrow> kv_has (st_files s') g"
    and "st_oracle_scripts s' = st_oracle_scripts s" and "st_OracleScriptCount s' = st_OracleScriptCount s"
  using assms
  by (auto simp: AddOracleScriptFile_def AddFile_def Let_def same_life_def files_ok_def kv_has_def split: if_splits sum.splits)

lemma data_source_frame:
  assumes "oracle_inv k s" and "AddExecutableFile (ok_GetFilename k) s ex = (f, t)"
    and s': "s' = SetDataSource (t\<lparr>st_DataSourceCount := n\<rparr>) m d"
  shows "oracle_inv k s' \<and> same_life s s'"
proof -
  note sp = AddExecutableFile_spec [OF assms(2) oracle_invD(1) [OF assms(1)]]
  have same: "same_life s s'" using sp(1) by (simp add: s' same_life_def SetDataSource_def)
  have scr: "st_oracle_scripts s' = st_oracle_scripts s" "st_OracleScriptCount s' = st_OracleScriptCount s" "st_files s' = st_files t"
    using sp(4,5) by (simp_all add: s' SetDataSource_def)
  have "script_ok s osid \<Longrightarrow> script_ok s' osid" for osid
    using script_ok_files [OF scr(1)] sp(3) scr(3) by simp
  moreover have "files_ok k s'" using sp(2) scr(3) by (simp add: files_ok_def)
  ultimately show ?thesis
    using oracle_inv_frame [OF assms(1) same] same scripts_ok_same [OF oracle_invD(6) [OF assms(1)] scr(1,2)] by blast
qed

lemma CreateDataSource_inv:
  assumes "oracle_inv k s" and "CreateDataSource k s msg = Inr s'"
  shows "oracle_inv k s' \<and> same_life s s'"
proof -
  obtain ex f t d n where "AddExecutableFile (ok_GetFilename k) s ex = (f, t)" and "s' = SetDataSource (t\<lparr>st_DataSourceCount := n\<rparr>) n d"
    using assms(2) by (auto simp: CreateDataSource_def AddDataSource_def GetNextDataSourceID_def Let_def split: prod.splits)
  then show ?thesis by (rule data_source_frame [OF assms(1)])
qed

lemma EditDataSource_inv:
  assumes "oracle_inv k s" and "EditDataSource k s n msg = Inr s'"
  shows "oracle_inv k s' \<and> same_life s s'"
proof -
  obtain ex f t d where f: "AddExecutableFile (ok_GetFilename k) s ex = (f, t)" and "s' = SetDataSource t n d"
    using assms(2) by (auto simp: EditDataSource_def MustEditDataSource_def Let_def split: prod.splits if_splits)
  then have "s' = SetDataSource (t\<lparr>st_DataSourceCount := st_DataSourceCount t\<rparr>) n d" by simp
  with f show ?thesis by (rule data_source_frame [OF assms(1)])
qed

lemma oracle_script_frame:
  assumes "oracle_inv k s" and "AddOracleScriptFile (ok_GetFilename k) (ok_vm_Compile k) s code = Inr (f, t)"
    and s': "s' = SetOracleScript (t\<lparr>st_OracleScriptCount := n\<rparr>) m x" and "scripts_ok s'"
    and "script_ok t m \<Longrightarrow> kv_has (st_files t) (os_Filename x)"
  shows "oracle_inv k s' \<and> same_life s s'"
proof -
  note sp = AddOracleScriptFile_spec [OF assms(2) oracle_invD(1) [OF assms(1)]]
  have same: "same_life s s'" using sp(1) by (simp add: s' same_life_def SetOracleScript_def)
  have "script_ok s' osid" if "script_ok s osid" for osid
  proof (rule script_ok_set [OF _ _ _ assms(5) that])
    show "script_ok t i" if "script_ok s i" for i using script_ok_files [OF sp(5) sp(4) that] .
  qed (simp_all add: s' SetOracleScript_def)
  moreover have "files_ok k s'" using sp(2) by (simp add: s' SetOracleScript_def files_ok_def)
  ultimately show ?thesis using oracle_inv_frame [OF assms(1) same] same assms(4) by blast
qed

lemma OracleScriptStoreKey_inj: "i < 2 ^ 64 \<Longrightarrow> j < 2 ^ 64 \<Longrightarrow> OracleScriptStoreKey i = OracleScriptStoreKey j \<longleftrightarrow> i = j"
  using be_bytes_8_inj by (simp add: OracleScriptStoreKey_def)

lemma CreateOracleScript_inv:
  assumes "oracle_inv k s" and "CreateOracleScript k s msg = Inr s'" and room: "st_OracleScriptCount s + 1 < 2 ^ 64 - 1"
  shows "oracle_inv k s' \<and> same_life s s'"
proof -
  let ?n = "st_OracleScriptCount s + 1"
  obtain code f t where f: "AddOracleScriptFile (ok_GetFilename k) (ok_vm_Compile k) s code = Inr (f, t)"
    and add: "\<exists>x. s' = snd (AddOracleScript t x)"
    using assms(2) by (auto simp: CreateOracleScript_def)
  note sp = AddOracleScriptFile_spec [OF f oracle_invD(1) [OF assms(1)]]
  have "u64 (st_OracleScriptCount t + 1) = ?n" using room sp(6) by simp
  then obtain x where s': "s' = SetOracleScript (t\<lparr>st_OracleScriptCount := ?n\<rparr>) ?n x"
    using add by (auto simp: AddOracleScript_def GetNextOracleScriptID_def Let_def)
  have keys: "\<forall>key\<in>fst ` set (st_oracle_scripts t). \<exists>i. i \<le> st_OracleScriptCount s \<and> key = OracleScriptStoreKey i"
    using oracle_invD(6) [OF assms(1)] sp(5) by (simp add: scripts_ok_def)
  have "scripts_ok s'"
    using keys room unfolding scripts_ok_def s' SetOracleScript_def by (auto simp: kv_keys_set intro: le_SucI)
  moreover have "\<not> script_ok t ?n"
  proof
    assume "script_ok t ?n"
    then have "OracleScriptStoreKey ?n \<in> fst ` set (st_oracle_scripts t)"
      using kv_has_mem [of "st_oracle_scripts t"] by (auto simp: script_ok_def GetOracleScript_def kv_has_def split: option.splits)
    then obtain i where "i \<le> st_OracleScriptCount s" "OracleScriptStoreKey ?n = OracleScriptStoreKey i" using keys by blast
    then show False using OracleScriptStoreKey_inj [of ?n i] room by simp
  qed
  ultimately show ?thesis by (intro oracle_script_frame [OF assms(1) f s']) blast+
qed

lemma MustEditOracleScript_spec:
  assumes "MustEditOracleScript s n new = Inr s'"
  shows "\<exists>x y. GetOracleScript s n = Inr x \<and> s' = SetOracleScript s n y \<and> os_Filename y = modify (os_Filename x) (os_Filename new)"
proof -
  obtain x where x: "GetOracleScript s n = Inr x"
    and s': "Inr s' = bindE (Inr x) (\<lambda>x. MustEditOracleScript s n new)"
    using assms by (auto simp: MustEditOracleScript_def MustGetOracleScript_def split: sum.splits)
  show ?thesis
    by (rule exI [of _ x], use s' x in \<open>simp add: MustEditOracleScript_def MustGetOracleScript_def\<close>)
       (rule exI, rule conjI, rule refl, simp)
qed

lemma EditOracleScript_inv:
  assumes "oracle_inv k s" and "EditOracleScript k s n msg = Inr s'"
  shows "oracle_inv k s' \<and> same_life s s'"
proof -
  obtain code f t owner where f: "AddOracleScriptFile (ok_GetFilename k) (ok_vm_Compile k) s code = Inr (f, t)"
    and edit: "MustEditOracleScript t n (NewOracleScript (ok_sdk k) owner msg f) = Inr s'"
    using assms(2) unfolding EditOracleScript_def by (elim bindE_InrE) (auto split: if_splits)
  then obtain x y where x: "GetOracleScript t n = Inr x" and y: "os_Filename y = modify (os_Filename x) f"
    and s': "s' = SetOracleScript (t\<lparr>st_OracleScriptCount := st_OracleScriptCount t\<rparr>) n y"
    using MustEditOracleScript_spec [OF edit] by (auto simp: NewOracleScript_def)
  note sp = AddOracleScriptFile_spec [OF f oracle_invD(1) [OF assms(1)]]
  have "kv_has (st_files t) (os_Filename y)" if "script_ok t n"
    using that x sp(3) by (auto simp: script_ok_def y modify_def)
  moreover have "scripts_ok s'"
  proof -
    have "OracleScriptStoreKey n \<in> fst ` set (st_oracle_scripts t)"
      using x kv_has_mem [of "st_oracle_scripts t"] by (auto simp: GetOracleScript_def kv_has_def split: option.splits)
    then have "fst ` set (st_oracle_scripts s') = fst ` set (st_oracle_scripts s)"
      using sp(5) by (auto simp: s' SetOracleScript_def kv_keys_set)
    moreover have "st_OracleScriptCount s' = st_OracleScriptCount s" using sp(6) by (simp add: s' SetOracleScript_def)
    ultimately show ?thesis using oracle_invD(6) [OF assms(1)] by (simp add: scripts_ok_def)
  qed
  ultimately show ?thesis by (intro oracle_script_frame [OF assms(1) f s'])
qed

lemma status_frame:
  assumes "oracle_inv k s" and "s' = s\<lparr>st_status := m, st_params := p\<rparr>"
  shows "oracle_inv k s' \<and> same_life s s'"
proof -
  have same: "same_life s s'" by (simp add: assms(2) same_life_def)
  show ?thesis
    using same oracle_inv_frame [OF assms(1) same] script_ok_files [of s' s] scripts_ok_same [OF oracle_invD(6) [OF assms(1)], of s']
      oracle_invD(1) [OF assms(1)]
    by (simp add: assms(2) files_ok_def)
qed

end
