(* ===== verification/Oracle_Req.thy ===== *)
theory Oracle_Req
  imports Oracle_Inv
begin

text \<open>
  The module \<open>x/oracle\<close>, fourth part: what a successful request is, and the fees it takes.
\<close>

section \<open>A successful request\<close>

lemma GetRandomValidators_length:
  assumes "GetRandomValidators k ctx s cnt rid = Inr vals"
  shows "int (length vals) = cnt"
  using assms by (auto simp: GetRandomValidators_def split: sum.splits prod.splits)

lemma i64_nonneg: "n < 2 ^ 64 \<Longrightarrow> 0 \<le> i64 (int n) \<Longrightarrow> i64 (int n) = int n"
proof -
  assume n: "n < 2 ^ 64" and i: "0 \<le> i64 (int n)"
  have "n < 2 ^ 63"
  proof (rule ccontr)
    assume "\<not> n < 2 ^ 63"
    then have "(int n + 2 ^ 63) mod 2 ^ 64 = int n + 2 ^ 63 - 2 ^ 64"
      using n by (intro int_mod_pos_eq [of _ _ 1]) simp_all
    with n i show False by (simp add: i64_def)
  qed
  then show ?thesis by (simp add: i64_def)
qed

text \<open>The request that \<open>PrepareRequest\<close> stores, from the parts it computes.\<close>

definition prepared ::
  "('w, 'r) oracle_keeper \<Rightarrow> oracle_ctx \<Rightarrow> RequestSpec \<Rightarrow> bytes list \<Rightarrow> IBCChannel option \<Rightarrow> bytes \<Rightarrow> RawRequest list \<Rightarrow> coins \<Rightarrow> Request" where
  "prepared k ctx r vals ch payer raw limit =
     (NewRequest k ctx r vals ch payer)\<lparr>rq_RawRequests := raw, rq_FeeLimit := limit\<rparr>"

lemma PrepareRequestE:
  assumes "PrepareRequest k ctx (s, w) r payer ch = Inr (rid, s', w')"
  obtains vals script code gas env w0 w1 w2 fees w3 w4 limit n0 n1 n2 n3 n4 where
    "int (length (spec_Calldata r)) \<le> i64 (int (GetSpanSize s))"
    "spec_AskCount r \<le> op_MaxAskCount (st_params s)"
    "GetRandomValidators k ctx s (i64 (int (spec_AskCount r))) (u64 (st_RequestCount s + 1)) = Inr vals"
    "GetOracleScript s (spec_OracleScriptID r) = Inr script"
    "MustGetFile (ok_GetFilename k) s (os_Filename script) = Inr code"
    "run_env prepare_call (ok_vm_Prepare k code (ConvertToOwasmGas (spec_PrepareGas r)))
       (NewPrepareEnv (NewRequest k ctx r vals ch payer) (i64 (int (op_MaxCalldataSize (st_params s))))
         (i64 (int (op_MaxRawRequestCount (st_params s)))) (i64 (int (GetSpanSize s)))) = (Inr gas, env)"
    "pe_rawRequests env \<noteq> []"
    "CollectFee k s w2 payer (spec_FeeLimit r) (spec_AskCount r) (pe_rawRequests env) = Inr (fees, w3)"
    "Coins_Sub (ok_sdk k) (spec_FeeLimit r) fees = Inr limit"
    "AddRequest s (prepared k ctx r vals ch payer (pe_rawRequests env) limit) = (rid, s')"
    "ok_ConsumeGas k w n0 = Inr w0" "ok_ConsumeGas k w0 n1 = Inr w1" "ok_ConsumeGas k w1 n2 = Inr w2"
    "ok_ConsumeGas k w3 n3 = Inr w4" "ok_ConsumeGas k w4 n4 = Inr w'"
proof -
  have sel: "rq_OracleScriptID (NewRequest k ctx r vals ch payer) = spec_OracleScriptID r"
    "rq_FeeLimit (NewRequest k ctx r vals ch payer) = spec_FeeLimit r" for vals
    by (simp_all add: NewRequest_def)
  show thesis
    using assms unfolding PrepareRequest_def Let_def prod.case sel
    by (auto simp: sel not_less split: prod.splits sum.splits simp del: One_nat_def add_Suc_right)
       (rule that [unfolded prepared_def], assumption+)
qed

section \<open>Fees\<close>

text \<open>
  What a list of coins is in the SDK: a valid list has each denomination once, with a positive amount, the
  amount of a denomination is what the list says, and a coin of a valid list multiplied by a positive
  number is a valid list.
\<close>

definition coin_list_laws :: "sdk \<Rightarrow> bool" where
  "coin_list_laws sdk \<longleftrightarrow>
     (\<forall>c d. Coins_IsValid sdk c \<longrightarrow> Coins_AmountOf sdk c d = (case map_of c d of None \<Rightarrow> 0 | Some a \<Rightarrow> a)) \<and>
     (\<forall>c. Coins_IsValid sdk c \<longrightarrow> distinct (map fst c)) \<and>
     (\<forall>c d a n. Coins_IsValid sdk c \<longrightarrow> (d, a) \<in> set c \<longrightarrow> 0 < n \<longrightarrow> Coins_IsValid sdk [(d, a * n)])"

lemma coin_list_lawsD:
  assumes "coin_list_laws sdk" and "Coins_IsValid sdk c"
  shows "Coins_AmountOf sdk c d = (case map_of c d of None \<Rightarrow> 0 | Some a \<Rightarrow> a)"
    and "distinct (map fst c)"
    and "(d, a) \<in> set c \<Longrightarrow> 0 < n \<Longrightarrow> Coins_IsValid sdk [(d, a * n)]"
  using assms unfolding coin_list_laws_def by blast+

lemma plain_coin_list_laws [simp]: "coin_list_laws plain_sdk"
  unfolding coin_list_laws_def plain_sdk_sel
  by (auto simp: plain_AmountOf_def kv_get_def plain_IsValid_def kv_ok_def strict_sorted_iff split: option.splits)

lemma scaled_fee_laws:
  assumes laws: "coin_laws sdk" "coin_list_laws sdk" and fee: "Coins_IsValid sdk fee" and n: "0 < n" "n < 2 ^ 63"
  shows "Coins_IsValid sdk (scaled_fee sdk n fee)"
    and "Coins_AmountOf sdk (scaled_fee sdk n fee) d = int n * Coins_AmountOf sdk fee d"
proof -
  let ?add = "\<lambda>acc c. Coins_Add sdk acc [(fst c, snd c * i64 (int n))]"
  have i: "i64 (int n) = int n" using n by (simp add: i64_def)
  have single: "Coins_IsValid sdk [(fst c, snd c * int n)]" if "c \<in> set fee" for c
    using coin_list_lawsD(3) [OF laws(2) fee, of "fst c" "snd c" "int n"] that n by simp
  have amount: "Coins_AmountOf sdk [(fst c, snd c * int n)] d = (if d = fst c then snd c * int n else 0)" if "c \<in> set fee" for c
    using coin_list_lawsD(1) [OF laws(2) single [OF that], of d] by simp
  have gen: "Coins_IsValid sdk (foldl ?add acc cs) \<and>
      Coins_AmountOf sdk (foldl ?add acc cs) d = Coins_AmountOf sdk acc d + (\<Sum>c\<leftarrow>cs. if d = fst c then snd c * int n else 0)"
    if "Coins_IsValid sdk acc" and "set cs \<subseteq> set fee" for acc cs
    using that
  proof (induction cs arbitrary: acc)
    case (Cons c cs)
    then have "Coins_IsValid sdk (?add acc c)" and "c \<in> set fee" using single coin_lawsD(5) [OF laws(1)] i by simp_all
    then show ?case
      using Cons coin_lawsD(6) [OF laws(1) Cons.prems(1) single, of c d] amount by (simp add: i)
  qed simp
  have sum: "(\<Sum>c\<leftarrow>fee. if d = fst c then snd c * int n else 0) = int n * (case map_of fee d of None \<Rightarrow> 0 | Some a \<Rightarrow> a)"
    using coin_list_lawsD(2) [OF laws(2) fee]
  proof (induction fee)
    case (Cons c cs)
    then show ?case by (cases c) (force simp: map_of_eq_None_iff split: option.splits)
  qed simp
  show "Coins_IsValid sdk (scaled_fee sdk n fee)"
    and "Coins_AmountOf sdk (scaled_fee sdk n fee) d = int n * Coins_AmountOf sdk fee d"
    using gen [OF coin_lawsD(1) [OF laws(1)], of fee] sum coin_list_lawsD(1) [OF laws(2) fee, of d] coin_lawsD(2) [OF laws(1), of d]
    by (simp_all add: scaled_fee_def)
qed

text \<open>What a raw request costs in a denomination, and whom it pays.\<close>

definition fee_of :: "sdk \<Rightarrow> oracle_state \<Rightarrow> uint64 \<Rightarrow> bytes \<Rightarrow> RawRequest \<Rightarrow> int" where
  "fee_of sdk s n d r =
     (case GetDataSource s (raw_DataSourceID r) of Inl _ \<Rightarrow> 0 | Inr ds \<Rightarrow> int n * Coins_AmountOf sdk (ds_Fee ds) d)"

definition pays :: "sdk \<Rightarrow> oracle_state \<Rightarrow> bytes \<Rightarrow> RawRequest \<Rightarrow> bool" where
  "pays sdk s a r =
     (case GetDataSource s (raw_DataSourceID r) of Inl _ \<Rightarrow> False | Inr ds \<Rightarrow> AccAddressFromBech32 sdk (ds_Treasury ds) = Inr a)"

definition fee_total :: "sdk \<Rightarrow> oracle_state \<Rightarrow> uint64 \<Rightarrow> bytes \<Rightarrow> RawRequest list \<Rightarrow> int" where
  "fee_total sdk s n d raws = (\<Sum>r\<leftarrow>raws. fee_of sdk s n d r)"

definition fee_income :: "sdk \<Rightarrow> oracle_state \<Rightarrow> uint64 \<Rightarrow> bytes \<Rightarrow> bytes \<Rightarrow> RawRequest list \<Rightarrow> int" where
  "fee_income sdk s n a d raws = (\<Sum>r\<leftarrow>raws. if pays sdk s a r then fee_of sdk s n d r else 0)"

definition valid_fees :: "sdk \<Rightarrow> oracle_state \<Rightarrow> bool" where
  "valid_fees sdk s \<longleftrightarrow> (\<forall>e\<in>set (st_data_sources s). Coins_IsValid sdk (ds_Fee (snd e)))"

lemma valid_fees_get: "valid_fees sdk s \<Longrightarrow> GetDataSource s i = Inr ds \<Longrightarrow> Coins_IsValid sdk (ds_Fee ds)"
  by (force simp: valid_fees_def GetDataSource_def split: option.splits dest: kv_getD)

lemma Collect_spec:
  assumes laws: "coin_laws (ok_sdk k)" "coin_list_laws (ok_sdk k)" "bank_laws (ok_sdk k) (ok_bank k)"
    and valid: "Coins_IsValid (ok_sdk k) (fc_collected coll)" "Coins_IsValid (ok_sdk k) c" "Coins_IsValid (ok_sdk k) (fc_limit coll)"
    and run: "Collect k w coll c treasury = Inr (coll', w')"
  shows "fc_payer coll' = fc_payer coll \<and> fc_limit coll' = fc_limit coll \<and> Coins_IsValid (ok_sdk k) (fc_collected coll')"
    and "Coins_AmountOf (ok_sdk k) (fc_collected coll') d = Coins_AmountOf (ok_sdk k) (fc_collected coll) d + Coins_AmountOf (ok_sdk k) c d"
    and "Coins_AmountOf (ok_sdk k) (fc_collected coll') d \<le> Coins_AmountOf (ok_sdk k) (fc_limit coll) d"
    and "Coins_AmountOf (ok_sdk k) (GetAllBalances (ok_bank k) w' a) d = Coins_AmountOf (ok_sdk k) (GetAllBalances (ok_bank k) w a) d
      - (if a = fc_payer coll then Coins_AmountOf (ok_sdk k) c d else 0) + (if a = treasury then Coins_AmountOf (ok_sdk k) c d else 0)"
proof -
  let ?sum = "Coins_Add (ok_sdk k) (fc_collected coll) c"
  have sum: "Coins_IsValid (ok_sdk k) ?sum" by (rule coin_lawsD(5) [OF laws(1) valid(1,2)])
  have coll: "coll' = coll\<lparr>fc_collected := ?sum\<rparr>" and send: "SendCoins (ok_bank k) w (fc_payer coll) treasury c = Inr w'"
    and limit: "\<forall>c\<in>set ?sum. snd c \<le> Coins_AmountOf (ok_sdk k) (fc_limit coll) (fst c)"
    using run by (auto simp: Collect_def Let_def not_less)
  show "fc_payer coll' = fc_payer coll \<and> fc_limit coll' = fc_limit coll \<and> Coins_IsValid (ok_sdk k) (fc_collected coll')"
    using sum by (simp add: coll)
  show "Coins_AmountOf (ok_sdk k) (fc_collected coll') d = Coins_AmountOf (ok_sdk k) (fc_collected coll) d + Coins_AmountOf (ok_sdk k) c d"
    using coin_lawsD(6) [OF laws(1) valid(1,2)] by (simp add: coll)
  show "Coins_AmountOf (ok_sdk k) (fc_collected coll') d \<le> Coins_AmountOf (ok_sdk k) (fc_limit coll) d"
    using limit coin_list_lawsD(1) [OF laws(2) sum, of d] coin_lawsD(3) [OF laws(1) valid(3), of d]
    by (force simp: coll split: option.splits dest: map_of_SomeD)
  show "Coins_AmountOf (ok_sdk k) (GetAllBalances (ok_bank k) w' a) d = Coins_AmountOf (ok_sdk k) (GetAllBalances (ok_bank k) w a) d
      - (if a = fc_payer coll then Coins_AmountOf (ok_sdk k) c d else 0) + (if a = treasury then Coins_AmountOf (ok_sdk k) c d else 0)"
    by (rule bank_lawsD(2) [OF laws(3) valid(2) send])
qed

text \<open>The loop of \<open>CollectFee\<close>: what was taken and what every account received so far.\<close>

definition collecting ::
  "('w, 'r) oracle_keeper \<Rightarrow> oracle_state \<Rightarrow> uint64 \<Rightarrow> 'w \<Rightarrow> bytes \<Rightarrow> coins \<Rightarrow> RawRequest list \<Rightarrow> feeCollector \<times> 'w \<Rightarrow> bool" where
  "collecting k s n w0 payer limit raws cw \<longleftrightarrow>
     fc_payer (fst cw) = payer \<and> fc_limit (fst cw) = limit \<and> Coins_IsValid (ok_sdk k) (fc_collected (fst cw)) \<and>
     (\<forall>d. Coins_AmountOf (ok_sdk k) (fc_collected (fst cw)) d = fee_total (ok_sdk k) s n d raws \<and>
        fee_total (ok_sdk k) s n d raws \<le> Coins_AmountOf (ok_sdk k) limit d) \<and>
     (\<forall>a d. Coins_AmountOf (ok_sdk k) (GetAllBalances (ok_bank k) (snd cw) a) d =
        Coins_AmountOf (ok_sdk k) (GetAllBalances (ok_bank k) w0 a) d
        - (if a = payer then fee_total (ok_sdk k) s n d raws else 0) + fee_income (ok_sdk k) s n a d raws)"

lemma fee_total_snoc: "fee_total sdk s n d (raws @ [r]) = fee_total sdk s n d raws + fee_of sdk s n d r"
  by (simp add: fee_total_def)

lemma fee_income_snoc:
  "fee_income sdk s n a d (raws @ [r]) = fee_income sdk s n a d raws + (if pays sdk s a r then fee_of sdk s n d r else 0)"
  by (simp add: fee_income_def)

lemma collect_step_collecting:
  assumes laws: "coin_laws (ok_sdk k)" "coin_list_laws (ok_sdk k)" "bank_laws (ok_sdk k) (ok_bank k)"
    and valid: "valid_fees (ok_sdk k) s" "Coins_IsValid (ok_sdk k) limit" and n: "0 < n" "n < 2 ^ 63"
    and coll: "collecting k s n w0 payer limit raws cw" and step: "collect_step k s n cw r = Inr cw'"
  shows "collecting k s n w0 payer limit (raws @ [r]) cw'"
proof -
  obtain coll w where cw: "cw = (coll, w)" by (cases cw)
  obtain ds where ds: "GetDataSource s (raw_DataSourceID r) = Inr ds" using step by (auto simp: collect_step_def cw)
  note fee = valid_fees_get [OF valid(1) ds]
  note c = coll [unfolded collecting_def cw fst_conv snd_conv]
  have of: "fee_of (ok_sdk k) s n d r = int n * Coins_AmountOf (ok_sdk k) (ds_Fee ds) d" for d by (simp add: fee_of_def ds)
  show ?thesis
  proof (cases "ds_Fee ds = []")
    case True
    then have "fee_of (ok_sdk k) s n d r = 0" for d using of coin_lawsD(2) [OF laws(1)] by simp
    moreover have "cw' = cw" using step True by (simp add: collect_step_def cw ds)
    ultimately show ?thesis using coll by (simp add: collecting_def fee_total_snoc fee_income_snoc)
  next
    case False
    then obtain treasury where t: "AccAddressFromBech32 (ok_sdk k) (ds_Treasury ds) = Inr treasury"
      and run: "Collect k w coll (scaled_fee (ok_sdk k) n (ds_Fee ds)) treasury = Inr (fst cw', snd cw')"
      using step by (auto simp: collect_step_def cw ds)
    note fees = scaled_fee_laws [OF laws(1,2) fee n]
    have limit: "Coins_IsValid (ok_sdk k) (fc_limit coll)" using c valid(2) by simp
    note sp = Collect_spec [OF laws _ fees(1) limit run]
    have p: "pays (ok_sdk k) s a r \<longleftrightarrow> a = treasury" for a by (auto simp: pays_def ds t)
    show ?thesis
      unfolding collecting_def fee_total_snoc fee_income_snoc p of
      using c sp fees(2) by simp
  qed
qed

lemma collect_loop:
  assumes laws: "coin_laws (ok_sdk k)" "coin_list_laws (ok_sdk k)" "bank_laws (ok_sdk k) (ok_bank k)"
    and valid: "valid_fees (ok_sdk k) s" "Coins_IsValid (ok_sdk k) limit" and n: "0 < n" "n < 2 ^ 63"
    and "collecting k s n w0 payer limit done cw" and "foldE (collect_step k s n) cw raws = Inr cw'"
  shows "collecting k s n w0 payer limit (done @ raws) cw'"
  using assms(8,9)
proof (induction raws arbitrary: "done" cw)
  case (Cons r raws)
  then obtain cw1 where "collect_step k s n cw r = Inr cw1" and "foldE (collect_step k s n) cw1 raws = Inr cw'" by auto
  then show ?case
    using Cons.IH [of "done @ [r]" cw1] collect_step_collecting [OF laws valid n Cons.prems(1)] by simp
qed simp

lemma CollectFee_spec:
  assumes laws: "coin_laws (ok_sdk k)" "coin_list_laws (ok_sdk k)" "bank_laws (ok_sdk k) (ok_bank k)"
    and valid: "valid_fees (ok_sdk k) s" "Coins_IsValid (ok_sdk k) limit" and n: "0 < n" "n < 2 ^ 63"
    and run: "CollectFee k s w payer limit n raws = Inr (fees, w')"
  shows "Coins_IsValid (ok_sdk k) fees"
    and "Coins_AmountOf (ok_sdk k) fees d = fee_total (ok_sdk k) s n d raws"
    and "Coins_AmountOf (ok_sdk k) fees d \<le> Coins_AmountOf (ok_sdk k) limit d"
    and "Coins_AmountOf (ok_sdk k) (GetAllBalances (ok_bank k) w' a) d =
        Coins_AmountOf (ok_sdk k) (GetAllBalances (ok_bank k) w a) d
        - (if a = payer then fee_total (ok_sdk k) s n d raws else 0) + fee_income (ok_sdk k) s n a d raws"
proof -
  let ?start = "(\<lparr>fc_payer = payer, fc_collected = [], fc_limit = limit\<rparr>, w)"
  have start: "collecting k s n w payer limit [] ?start"
    using coin_lawsD(1-3) [OF laws(1)] valid(2) by (simp add: collecting_def fee_total_def fee_income_def)
  obtain coll where fold: "foldE (collect_step k s n) ?start raws = Inr (coll, w')" and fees: "fees = fc_collected coll"
    using run by (auto simp: CollectFee_def)
  have "collecting k s n w payer limit ([] @ raws) (coll, w')"
    by (rule collect_loop [OF laws valid n start fold])
  then have c: "Coins_IsValid (ok_sdk k) fees"
    "\<forall>d. Coins_AmountOf (ok_sdk k) fees d = fee_total (ok_sdk k) s n d raws \<and> fee_total (ok_sdk k) s n d raws \<le> Coins_AmountOf (ok_sdk k) limit d"
    "\<forall>a d. Coins_AmountOf (ok_sdk k) (GetAllBalances (ok_bank k) w' a) d =
        Coins_AmountOf (ok_sdk k) (GetAllBalances (ok_bank k) w a) d
        - (if a = payer then fee_total (ok_sdk k) s n d raws else 0) + fee_income (ok_sdk k) s n a d raws"
    by (simp_all add: collecting_def fees)
  show "Coins_IsValid (ok_sdk k) fees" by (rule c(1))
  show "Coins_AmountOf (ok_sdk k) fees d = fee_total (ok_sdk k) s n d raws" using c(2) by simp
  show "Coins_AmountOf (ok_sdk k) fees d \<le> Coins_AmountOf (ok_sdk k) limit d" using c(2) by simp
  show "Coins_AmountOf (ok_sdk k) (GetAllBalances (ok_bank k) w' a) d =
        Coins_AmountOf (ok_sdk k) (GetAllBalances (ok_bank k) w a) d
        - (if a = payer then fee_total (ok_sdk k) s n d raws else 0) + fee_income (ok_sdk k) s n a d raws"
    using c(3) by blast
qed

section \<open>The request that is stored\<close>

text \<open>The gas meter does not move coins.\<close>

definition gas_laws :: "('w, 'r) oracle_keeper \<Rightarrow> bool" where
  "gas_laws k \<longleftrightarrow> (\<forall>w n w'. ok_ConsumeGas k w n = Inr w' \<longrightarrow> GetAllBalances (ok_bank k) w' = GetAllBalances (ok_bank k) w)"

lemma gas_laws_balances:
  "gas_laws k \<Longrightarrow> ok_ConsumeGas k w n = Inr w' \<Longrightarrow> GetAllBalances (ok_bank k) w' = GetAllBalances (ok_bank k) w"
  by (simp add: gas_laws_def)

lemma i64_le: "i64 (int n) \<le> int n"
  using zmod_le_nonneg_dividend [of "int n + 2 ^ 63" "2 ^ 64"] by (simp add: i64_def)

lemma PrepareRequest_spec:
  assumes run: "PrepareRequest k ctx (s, w) r payer ch = Inr (rid, s', w')"
    and ask: "spec_AskCount r < 2 ^ 64" and room: "st_RequestCount s + 1 < 2 ^ 64"
  obtains vals raw limit where "rid = st_RequestCount s + 1"
    and "s' = SetRequest (s\<lparr>st_RequestCount := rid\<rparr>) rid (prepared k ctx r vals ch payer raw limit)"
    and "length vals = spec_AskCount r" and "spec_AskCount r < 2 ^ 63" and "spec_AskCount r \<le> op_MaxAskCount (st_params s)"
    and "\<exists>x. GetOracleScript s (spec_OracleScriptID r) = Inr x \<and> kv_has (st_files s) (os_Filename x)"
    and "raw \<noteq> []" and "distinct (map raw_ExternalID raw)" and "length raw \<le> op_MaxRawRequestCount (st_params s)"
    and "\<forall>q\<in>set raw. length (raw_Calldata q) \<le> op_MaxCalldataSize (st_params s)"
    and "\<exists>fees w2 w3. CollectFee k s w2 payer (spec_FeeLimit r) (spec_AskCount r) raw = Inr (fees, w3) \<and>
           Coins_Sub (ok_sdk k) (spec_FeeLimit r) fees = Inr limit \<and>
           (gas_laws k \<longrightarrow> GetAllBalances (ok_bank k) w2 = GetAllBalances (ok_bank k) w \<and>
              GetAllBalances (ok_bank k) w' = GetAllBalances (ok_bank k) w3)"
  using run
proof (rule PrepareRequestE)
  fix vals script code gas env w0 w1 w2 fees w3 w4 limit n0 n1 n2 n3 n4
  assume vals: "GetRandomValidators k ctx s (i64 (int (spec_AskCount r))) (u64 (st_RequestCount s + 1)) = Inr vals"
    and script: "GetOracleScript s (spec_OracleScriptID r) = Inr script" "MustGetFile (ok_GetFilename k) s (os_Filename script) = Inr code"
    and env: "run_env prepare_call (ok_vm_Prepare k code (ConvertToOwasmGas (spec_PrepareGas r)))
       (NewPrepareEnv (NewRequest k ctx r vals ch payer) (i64 (int (op_MaxCalldataSize (st_params s))))
         (i64 (int (op_MaxRawRequestCount (st_params s)))) (i64 (int (GetSpanSize s)))) = (Inr gas, env)"
    and add: "AddRequest s (prepared k ctx r vals ch payer (pe_rawRequests env) limit) = (rid, s')"
    and fee: "CollectFee k s w2 payer (spec_FeeLimit r) (spec_AskCount r) (pe_rawRequests env) = Inr (fees, w3)"
      "Coins_Sub (ok_sdk k) (spec_FeeLimit r) fees = Inr limit"
    and gas: "ok_ConsumeGas k w n0 = Inr w0" "ok_ConsumeGas k w0 n1 = Inr w1" "ok_ConsumeGas k w1 n2 = Inr w2"
      "ok_ConsumeGas k w3 n3 = Inr w4" "ok_ConsumeGas k w4 n4 = Inr w'"
    and small: "spec_AskCount r \<le> op_MaxAskCount (st_params s)" and ne: "pe_rawRequests env \<noteq> []"
  note raws = prepare_run_ok [OF env]
  have len: "int (length vals) = i64 (int (spec_AskCount r))" by (rule GetRandomValidators_length [OF vals])
  then have "0 \<le> i64 (int (spec_AskCount r))" by presburger
  with len have n: "length vals = spec_AskCount r" using i64_nonneg [OF ask] by simp
  have "i64 (int (spec_AskCount r)) < 2 ^ 63"
    using pos_mod_bound [of "2 ^ 64" "int (spec_AskCount r) + 2 ^ 63"] by (simp add: i64_def)
  then have n63: "spec_AskCount r < 2 ^ 63" using len n by simp
  have rid: "rid = st_RequestCount s + 1" and s': "s' = SetRequest (s\<lparr>st_RequestCount := rid\<rparr>) rid (prepared k ctx r vals ch payer (pe_rawRequests env) limit)"
    using add room by (auto simp: AddRequest_def GetNextRequestID_def Let_def)
  have there: "kv_has (st_files s) (os_Filename script)" using script(2) by (auto simp: MustGetFile_def kv_has_def split: option.splits)
  have max: "length (pe_rawRequests env) \<le> op_MaxRawRequestCount (st_params s)"
    using raws(2) ne i64_le [of "op_MaxRawRequestCount (st_params s)"] by simp
  have size: "\<forall>q\<in>set (pe_rawRequests env). length (raw_Calldata q) \<le> op_MaxCalldataSize (st_params s)"
    using raws(3) i64_le [of "op_MaxCalldataSize (st_params s)"] by force
  have money: "gas_laws k \<longrightarrow> GetAllBalances (ok_bank k) w2 = GetAllBalances (ok_bank k) w \<and>
      GetAllBalances (ok_bank k) w' = GetAllBalances (ok_bank k) w3"
    using gas [THEN gas_laws_balances [rotated]] by simp
  show thesis
    by (rule that [OF rid s' n n63 small _ ne raws(1) max size]) (use script(1) there fee money in blast)+
qed

section \<open>Choosing the validators\<close>

definition actives :: "('w, 'r) oracle_keeper \<Rightarrow> oracle_state \<Rightarrow> (bytes \<times> int) list \<Rightarrow> (bytes \<times> uint64) list" where
  "actives k s vals = map (\<lambda>(op, t). (projr (ok_ValAddressFromBech32 k op), nat t))
     (filter (\<lambda>(op, t). is_ok (ok_ValAddressFromBech32 k op) \<and>
        vs_IsActive (GetValidatorStatus (st_status s) (projr (ok_ValAddressFromBech32 k op)))) vals)"

lemma active_operators_eq:
  assumes "oc_IterateBondedValidatorsByPower ctx = Inr vals" and "\<forall>(op, t)\<in>set vals. 0 \<le> t \<and> t < 2 ^ 64"
  shows "active_operators k ctx s = Inr (actives k s vals)"
proof -
  let ?f = "\<lambda>acc (op, tokens).
       case ok_ValAddressFromBech32 k op of
         Inl _ \<Rightarrow> Inr acc
       | Inr operator \<Rightarrow>
           if \<not> vs_IsActive (GetValidatorStatus (st_status s) operator) then Inr acc
           else if tokens < 0 \<or> tokens \<ge> 2 ^ 64 then Inl (Panic ''Uint64() out of bounds'')
           else Inr (acc @ [(operator, nat tokens)])"
  have "foldE ?f acc vals = Inr (acc @ actives k s vals)" if "\<forall>(op, t)\<in>set vals. 0 \<le> t \<and> t < 2 ^ 64" for acc
    using that
  proof (induction vals arbitrary: acc)
    case (Cons v vals)
    obtain op t where v: "v = (op, t)" by (cases v)
    show ?case using Cons by (cases "ok_ValAddressFromBech32 k op") (simp_all add: v actives_def)
  qed (simp add: actives_def)
  then show ?thesis using assms by (simp add: active_operators_def)
qed

lemma actives_mem:
  "e \<in> set (actives k s vals) \<Longrightarrow> vs_IsActive (GetValidatorStatus (st_status s) (fst e)) \<and>
     (\<exists>op t. (op, t) \<in> set vals \<and> ok_ValAddressFromBech32 k op = Inr (fst e) \<and> snd e = nat t)"
  by (auto simp: actives_def is_ok_iff) blast

lemma actives_distinct:
  assumes "distinct (map (ok_ValAddressFromBech32 k) (map fst vals))"
  shows "distinct (map fst (actives k s vals))"
proof -
  let ?P = "\<lambda>(op, t). is_ok (ok_ValAddressFromBech32 k op) \<and>
        vs_IsActive (GetValidatorStatus (st_status s) (projr (ok_ValAddressFromBech32 k op)))"
  let ?parse = "\<lambda>e. ok_ValAddressFromBech32 k (fst e)"
  have "distinct (map ?parse (filter ?P vals))" using assms by (auto simp: comp_def intro: distinct_map_filter)
  then have d: "distinct (filter ?P vals)" "inj_on ?parse (set (filter ?P vals))" by (simp_all only: distinct_map)
  have "inj_on (\<lambda>e. projr (?parse e)) (set (filter ?P vals))"
  proof (rule inj_onI)
    fix x y assume "x \<in> set (filter ?P vals)" "y \<in> set (filter ?P vals)" "projr (?parse x) = projr (?parse y)"
    moreover from this have "?parse x = ?parse y" by (auto simp: is_ok_iff)
    ultimately show "x = y" using d(2) by (meson inj_onD)
  qed
  then show ?thesis using d(1) by (simp add: actives_def distinct_map comp_def split_beta)
qed

lemma sum_filter_le:
  fixes f :: "'a \<Rightarrow> nat"
  shows "sum_list (map f (filter P xs)) \<le> sum_list (map f xs)"
  by (induction xs) auto

lemma distinct_nth_map:
  assumes "distinct xs" and "distinct js" and "\<forall>j\<in>set js. j < length xs"
  shows "distinct (map ((!) xs) js)"
  using assms by (auto simp: distinct_map inj_on_def nth_eq_iff_index_eq)

end
