(* ===== verification/Oracle_Life.thy ===== *)
theory Oracle_Life
  imports Oracle_Req
begin

text \<open>
  The module \<open>x/oracle\<close>, fifth part: requests, reports, resolving and expiry keep the invariant, and the
  end of a block succeeds.
\<close>

section \<open>A new request\<close>

lemma GetRequest_SetRequest:
  "i < 2 ^ 64 \<Longrightarrow> n < 2 ^ 64 \<Longrightarrow> GetRequest (SetRequest s n r) i = (if i = n then Inr r else GetRequest s i)"
  by (simp add: GetRequest_def SetRequest_def RequestStoreKey_inj)

lemma req_good_same:
  "st_oracle_scripts s' = st_oracle_scripts s \<Longrightarrow> st_files s' = st_files s \<Longrightarrow> req_good s' r = req_good s r"
  by (simp add: req_good_def script_ok_def GetOracleScript_def)

lemma nreports_0:
  assumes "reports_ok k s" and "i < 2 ^ 64" and "\<nexists>r. GetRequest s i = Inr r"
  shows "nreports s i = 0"
proof -
  have False if "key \<in> fst ` set (st_reports s)" and "has_prefix (ReportStoreKey i) key" for key
    using reports_okD(2) [OF assms(1) that(1)] that(2) assms(2,3) report_key_prefix by auto
  then have "GetReportIterator s i = []"
    by (force simp: GetReportIterator_def kv_prefix_iterator_def filter_empty_conv)
  then show ?thesis by (simp add: nreports_def)
qed

lemma new_request_inv:
  assumes inv: "oracle_inv k s" and room: "st_RequestCount s + 1 < 2 ^ 64 - 1" and good: "req_good s req"
    and s': "s' = SetRequest (s\<lparr>st_RequestCount := st_RequestCount s + 1\<rparr>) (st_RequestCount s + 1) req"
  shows "oracle_inv k s'"
proof -
  let ?n = "st_RequestCount s + 1"
  note D = oracle_invD [OF inv] and R = requests_okD [OF oracle_invD(2) [OF inv]]
  have get: "GetRequest s' i = (if i = ?n then Inr req else GetRequest s i)" if "i < 2 ^ 64" for i
    using GetRequest_SetRequest [OF that, of ?n] room by (simp add: s' GetRequest_def)
  have new: "\<nexists>r. GetRequest s ?n = Inr r" using R(3) [of ?n] room by simp
  have old: "i \<noteq> ?n" if "GetRequest s i = Inr r" for i r using new that by auto
  have nr: "nreports s' i = nreports s i" and hr: "HasResult s' i = HasResult s i" for i
    by (simp_all add: s' lookups SetRequest_def)
  have same: "st_reports s' = st_reports s" "st_PendingResolveList s' = st_PendingResolveList s" "st_RequestCount s' = ?n"
    "st_RequestLastExpired s' = st_RequestLastExpired s"
    by (simp_all add: s' SetRequest_def)
  have good': "req_good s' r = req_good s r" for r by (rule req_good_same) (simp_all add: s' SetRequest_def)
  have "files_ok k s'" using D(1) by (simp add: files_ok_def s' SetRequest_def)
  moreover have "scripts_ok s'" using D(6) by (simp add: scripts_ok_def s' SetRequest_def)
  moreover have "requests_ok s'"
    unfolding requests_ok_def same good'
  proof (intro conjI allI impI)
    show "(\<exists>r. GetRequest s' i = Inr r) = (st_RequestLastExpired s < i \<and> i \<le> ?n)" if "i < 2 ^ 64" for i
      using R(1) R(3) [OF that] get [OF that] by auto
    show "req_good s r" if "i < 2 ^ 64" "GetRequest s' i = Inr r" for i r
      using R(4) [OF that(1)] get [OF that(1)] that(2) good by (auto split: if_splits)
  qed (use R(1) room in auto)
  moreover have "reports_ok k s'"
    unfolding reports_ok_def same
  proof (intro conjI ballI)
    show "\<exists>i v r. key = ReportsOfValidatorPrefixKey i v \<and> i < 2 ^ 64 \<and> GetRequest s' i = Inr r \<and> asked k r v"
      if "key \<in> fst ` set (st_reports s)" for key
      using reports_okD(2) [OF D(3) that] get old by metis
  qed (rule reports_okD(1) [OF D(3)])
  moreover have "results_ok s'"
    using results_okD [OF D(4)] unfolding results_ok_def same hr by fastforce
  moreover have "pending_ok s'"
    unfolding pending_ok_def same hr nr
  proof (intro conjI ballI allI impI)
    fix i assume i: "i \<in> set (st_PendingResolveList s)"
    note p = pending_okD(2) [OF D(5) i]
    show "i < 2 ^ 64" "\<not> HasResult s i" using p by auto
    show "\<exists>r. GetRequest s' i = Inr r" using p get by metis
  next
    fix i r assume i: "i < 2 ^ 64" "GetRequest s' i = Inr r" "\<not> HasResult s i"
    show "i \<in> set (st_PendingResolveList s) \<longleftrightarrow> rq_MinCount r \<le> nreports s i"
    proof (cases "i = ?n")
      case True
      then have "nreports s i = 0" using nreports_0 [OF D(3) i(1)] new by simp
      moreover have "1 \<le> rq_MinCount r" using i get [OF i(1)] True good by (simp add: req_good_def)
      moreover have "i \<notin> set (st_PendingResolveList s)" using pending_okD(2) [OF D(5)] True new by blast
      ultimately show ?thesis by simp
    next
      case False
      then show ?thesis using pending_okD(3) [OF D(5) i(1)] get [OF i(1)] i by simp
    qed
  qed (rule pending_okD(1) [OF D(5)])
  ultimately show ?thesis by (simp add: oracle_inv_def)
qed

lemma PrepareRequest_inv:
  assumes inv: "oracle_inv k s" and room: "st_RequestCount s + 1 < 2 ^ 64 - 1"
    and counts: "1 \<le> spec_MinCount r" "spec_MinCount r \<le> spec_AskCount r" "spec_AskCount r < 2 ^ 64"
    and run: "PrepareRequest k ctx (s, w) r payer ch = Inr (rid, s', w')"
  shows "oracle_inv k s' \<and> st_results s' = st_results s"
  using run counts(3)
proof (rule PrepareRequest_spec)
  fix vals raw limit
  let ?req = "prepared k ctx r vals ch payer raw limit"
  assume A: "rid = st_RequestCount s + 1" "s' = SetRequest (s\<lparr>st_RequestCount := rid\<rparr>) rid ?req"
    "length vals = spec_AskCount r"
    "\<exists>x. GetOracleScript s (spec_OracleScriptID r) = Inr x \<and> kv_has (st_files s) (os_Filename x)"
  then have "req_good s ?req" using counts by (simp add: req_good_def script_ok_def prepared_def NewRequest_def)
  then have "oracle_inv k s'" using new_request_inv [OF inv room] A(1,2) by simp
  then show ?thesis using A(2) by (simp add: SetRequest_def)
qed (use room in simp)

section \<open>Reports\<close>

text \<open>The codec of validator addresses: printing a parsed address and parsing it again gives it back.\<close>

definition val_laws :: "('w, 'r) oracle_keeper \<Rightarrow> bool" where
  "val_laws k \<longleftrightarrow> (\<forall>s v. ok_ValAddressFromBech32 k s = Inr v \<longrightarrow>
     ok_ValAddressFromBech32 k (ok_ValAddress_String k v) = Inr v)"

text \<open>What a report does to the store.\<close>

definition reported :: "oracle_state \<Rightarrow> Request \<Rightarrow> uint64 \<Rightarrow> bytes \<Rightarrow> Report \<Rightarrow> oracle_state" where
  "reported s r rid v rep =
     s\<lparr>st_reports := kv_set (st_reports s) (ReportsOfValidatorPrefixKey rid v) rep,
       st_PendingResolveList := st_PendingResolveList s @
         (if \<not> HasResult s rid \<and> Suc (nreports s rid) = rq_MinCount r then [rid] else [])\<rparr>"

lemma nreports_reported:
  assumes "i < 2 ^ 64" and "rid < 2 ^ 64" and "\<not> HasReport s rid v"
  shows "nreports (reported s r rid v rep) i = nreports s i + (if i = rid then 1 else 0)"
  using assms kv_prefix_count_set [of "ReportsOfValidatorPrefixKey rid v" "st_reports s" rep "ReportStoreKey i"]
  by (simp add: nreports_def GetReportIterator_def reported_def HasReport_def kv_has_mem report_key_prefix)

lemma reported_inv:
  assumes inv: "oracle_inv k s" and rid: "rid < 2 ^ 64" and r: "GetRequest s rid = Inr r" and v: "asked k r v" "\<not> HasReport s rid v"
  shows "oracle_inv k (reported s r rid v rep)"
proof -
  let ?s = "reported s r rid v rep"
  note D = oracle_invD [OF inv]
  have get: "GetRequest ?s i = GetRequest s i" and hr: "HasResult ?s i = HasResult s i" for i
    by (simp_all add: reported_def lookups)
  have same: "st_RequestCount ?s = st_RequestCount s" "st_RequestLastExpired ?s = st_RequestLastExpired s"
    by (simp_all add: reported_def)
  have good: "req_good ?s q = req_good s q" for q by (rule req_good_same) (simp_all add: reported_def)
  have "files_ok k ?s" using D(1) by (simp add: files_ok_def reported_def)
  moreover have "scripts_ok ?s" using D(6) by (simp add: scripts_ok_def reported_def)
  moreover have "requests_ok ?s" using D(2) unfolding requests_ok_def same get good .
  moreover have "results_ok ?s" using D(4) unfolding results_ok_def same hr .
  moreover have "reports_ok k ?s"
    unfolding reports_ok_def get
  proof (intro conjI ballI)
    show "kv_ok (st_reports ?s)" using reports_okD(1) [OF D(3)] by (simp add: reported_def)
    show "\<exists>i u q. key = ReportsOfValidatorPrefixKey i u \<and> i < 2 ^ 64 \<and> GetRequest s i = Inr q \<and> asked k q u"
      if "key \<in> fst ` set (st_reports ?s)" for key
    proof (cases "key = ReportsOfValidatorPrefixKey rid v")
      case True
      then show ?thesis using rid r v by blast
    next
      case False
      then have "key \<in> fst ` set (st_reports s)" using that by (simp add: reported_def kv_keys_set)
      then show ?thesis by (rule reports_okD(2) [OF D(3)])
    qed
  qed
  moreover have "pending_ok ?s"
    unfolding pending_ok_def get hr
  proof (intro conjI ballI allI impI)
    note P = pending_okD [OF D(5)]
    have notin: "rid \<notin> set (st_PendingResolveList s)" if "\<not> HasResult s rid" "Suc (nreports s rid) = rq_MinCount r"
      using P(3) [OF rid r that(1)] that(2) by simp
    then show "distinct (st_PendingResolveList ?s)" using P(1) by (auto simp: reported_def)
    fix i
    show "i < 2 ^ 64" "\<exists>q. GetRequest s i = Inr q" "\<not> HasResult s i" if "i \<in> set (st_PendingResolveList ?s)"
      using that P(2) [of i] rid r by (auto simp: reported_def split: if_splits)
    show "i \<in> set (st_PendingResolveList ?s) \<longleftrightarrow> rq_MinCount q \<le> nreports ?s i"
      if "i < 2 ^ 64" "GetRequest s i = Inr q" "\<not> HasResult s i" for q
      using P(3) [OF that] nreports_reported [OF that(1) rid v(2)] that r by (auto simp: reported_def)
  qed
  ultimately show ?thesis by (simp add: oracle_inv_def)
qed

lemma requested_asked:
  assumes "requested parse v xs = Inr True"
  shows "\<exists>x\<in>set xs. parse x = Inr v"
  using assms
proof (induction xs)
  case (Cons x xs)
  then show ?case by (cases "parse x"; cases "parse x = Inr v") (auto simp: requested_def)
qed (simp add: requested_def)

lemma requested_iff:
  assumes "\<forall>x\<in>set xs. is_ok (parse x)"
  shows "requested parse v xs = Inr (\<exists>x\<in>set xs. parse x = Inr v)"
proof -
  have True: "foldE (\<lambda>found x. if found then Inr True else bindE (parse x) (\<lambda>u. Inr (u = v))) True xs = Inr True" for xs
    by (induction xs) simp_all
  show ?thesis
    using assms unfolding requested_def
  proof (induction xs)
    case (Cons x xs)
    then show ?case using True [of xs] by (cases "parse x"; cases "parse x = Inr v") auto
  qed simp
qed

lemma ReportData_eq:
  assumes inv: "oracle_inv k s" and laws: "val_laws k" and rid: "mrd_RequestID msg < 2 ^ 64"
    and run: "ReportData k s msg = Inr s'"
  shows "\<exists>v r. GetRequest s (mrd_RequestID msg) = Inr r \<and> requested (ok_ValAddressFromBech32 k) v (rq_RequestedValidators r) = Inr True \<and>
     \<not> HasReport s (mrd_RequestID msg) v \<and> ok_ValAddressFromBech32 k (mrd_Validator msg) = Inr v \<and>
     st_RequestLastExpired s < mrd_RequestID msg \<and>
     (\<forall>x\<in>set (mrd_RawReports msg). int (length (rr_Data x)) \<le> i64 (int (op_MaxReportDataSize (st_params s)))) \<and>
     length (mrd_RawReports msg) = length (rq_RawRequests r) \<and>
     (\<forall>x\<in>set (mrd_RawReports msg). ContainsEID (rq_RawRequests r) (rr_ExternalID x)) \<and>
     s' = reported s r (mrd_RequestID msg) v \<lparr>rep_Validator = ok_ValAddress_String k v,
       rep_InBeforeResolve = (\<not> HasResult s (mrd_RequestID msg)), rep_RawReports = mrd_RawReports msg\<rparr>"
  (is "\<exists>v r. ?P v r")
proof -
  let ?rid = "mrd_RequestID msg"
  let ?rep = "\<lambda>v. \<lparr>rep_Validator = ok_ValAddress_String k v, rep_InBeforeResolve = (\<not> HasResult s ?rid), rep_RawReports = mrd_RawReports msg\<rparr>"
  let ?t = "\<lambda>v. SetReport (ok_ValAddressFromBech32 k) s ?rid (?rep v)"
  obtain v r where v: "ok_ValAddressFromBech32 k (mrd_Validator msg) = Inr v" and r: "GetRequest s ?rid = Inr r"
    and c: "requested (ok_ValAddressFromBech32 k) v (rq_RequestedValidators r) = Inr True" "\<not> HasReport s ?rid v"
      "st_RequestLastExpired s < ?rid" "length (mrd_RawReports msg) = length (rq_RawRequests r)"
      "\<forall>x\<in>set (mrd_RawReports msg). int (length (rr_Data x)) \<le> i64 (int (op_MaxReportDataSize (st_params s)))"
      "\<forall>x\<in>set (mrd_RawReports msg). ContainsEID (rq_RawRequests r) (rr_ExternalID x)"
    and s': "Inr s' = (if \<not> HasResult s ?rid then bindE (MustGetRequest (?t v) ?rid) (\<lambda>req.
            if GetReportCount (?t v) ?rid = rq_MinCount req then Inr (AddPendingRequest (?t v) ?rid) else Inr (?t v)) else Inr (?t v))"
    using run unfolding ReportData_def AddReport_def CheckValidReport_def Let_def
    by (elim bindE_InrE if_error_eq_Inr_iff [THEN iffD1, elim_format] conjE) (auto simp: not_le not_less)
  have parse: "ok_ValAddressFromBech32 k (ok_ValAddress_String k v) = Inr v" using laws v by (simp add: val_laws_def)
  have t: "?t v = s\<lparr>st_reports := kv_set (st_reports s) (ReportsOfValidatorPrefixKey ?rid v) (?rep v)\<rparr>"
    by (simp add: SetReport_def parse)
  have get: "GetRequest (?t v) ?rid = Inr r" using r by (simp add: t GetRequest_def)
  let ?u = "reported s r ?rid v (?rep v)"
  have v': "asked k r v" using requested_asked [OF c(1)] by (simp add: asked_def)
  have "GetReportCount ?u ?rid = nreports ?u ?rid"
    by (rule GetReportCount_eq [where r = r, OF reported_inv [OF inv rid r v' c(2)] rid]) (use r in \<open>simp add: reported_def GetRequest_def\<close>)
  then have count: "GetReportCount (?t v) ?rid = Suc (nreports s ?rid)"
    using nreports_reported [OF rid rid c(2)] by (simp add: t GetReportCount_def GetReportIterator_def reported_def)
  have must: "MustGetRequest (?t v) ?rid = Inr r" using get by (simp add: MustGetRequest_def)
  have "s' = (if \<not> HasResult s ?rid \<and> Suc (nreports s ?rid) = rq_MinCount r then AddPendingRequest (?t v) ?rid else ?t v)"
    using s' unfolding must bindE_simps count by (simp split: if_splits)
  then have "s' = ?u" unfolding t by (simp add: reported_def AddPendingRequest_def)
  then have "?P v r" using v r c by blast
  then show ?thesis by blast
qed

lemma GetRequest_SetReport [simp]: "GetRequest (SetReport parse s rid rep) i = GetRequest s i"
  by (simp add: GetRequest_def SetReport_def Let_def)

lemma ReportData_ok:
  assumes "GetRequest s (mrd_RequestID msg) = Inr r" and "requested (ok_ValAddressFromBech32 k) v (rq_RequestedValidators r) = Inr True"
    and "\<not> HasReport s (mrd_RequestID msg) v" and "ok_ValAddressFromBech32 k (mrd_Validator msg) = Inr v"
    and "st_RequestLastExpired s < mrd_RequestID msg"
    and "\<forall>x\<in>set (mrd_RawReports msg). int (length (rr_Data x)) \<le> i64 (int (op_MaxReportDataSize (st_params s)))"
    and "length (mrd_RawReports msg) = length (rq_RawRequests r)"
    and "\<forall>x\<in>set (mrd_RawReports msg). ContainsEID (rq_RawRequests r) (rr_ExternalID x)"
  shows "\<exists>s'. ReportData k s msg = Inr s'"
  using assms by (auto simp: ReportData_def AddReport_def CheckValidReport_def MustGetRequest_def Let_def not_le not_less)

section \<open>Resolving\<close>

text \<open>Sending a packet over IBC may fail but does not panic.\<close>

definition send_laws :: "('w, 'r) oracle_keeper \<Rightarrow> bool" where
  "send_laws k \<longleftrightarrow> (\<forall>w p c t d e. ok_SendPacket k w p c t d = Inl e \<longrightarrow> \<not> is_panic e)"

definition result_of :: "oracle_ctx \<Rightarrow> Request \<Rightarrow> uint64 \<Rightarrow> uint64 \<Rightarrow> ResolveStatus \<Rightarrow> bytes \<Rightarrow> Result" where
  "result_of ctx r rid n status result =
     \<lparr>res_ClientID = rq_ClientID r, res_OracleScriptID = rq_OracleScriptID r,
      res_Calldata = rq_Calldata r, res_AskCount = length (rq_RequestedValidators r), res_MinCount = rq_MinCount r,
      res_RequestID = rid, res_AnsCount = n, res_RequestTime = rq_RequestTime r,
      res_ResolveTime = Unix (oc_BlockTime ctx), res_ResolveStatus = status, res_Result = result\<rparr>"

lemma SaveResult_spec:
  assumes "send_laws k" and "GetRequest s rid = Inr r"
  shows "\<exists>w'. SaveResult k ctx (s, w) rid status result =
    Inr (SetResult s rid (result_of ctx r rid (GetReportCount s rid) status result), w')"
  using assms
  by (auto simp: SaveResult_def MustGetRequest_def Let_def result_of_def send_laws_def split: option.splits sum.splits)

definition answered :: "ResolveStatus \<Rightarrow> bool" where
  "answered st \<longleftrightarrow> st = RESOLVE_STATUS_SUCCESS \<or> st = RESOLVE_STATUS_FAILURE"

lemma ResolveSuccess_spec:
  assumes "send_laws k" and "GetRequest s rid = Inr r"
  shows "\<exists>sr w'. ResolveSuccess k ctx (s, w) rid requester limit retdata encoder =
    Inr ((SetResult s rid (result_of ctx r rid (GetReportCount s rid) RESOLVE_STATUS_SUCCESS retdata))\<lparr>st_signing_results := sr\<rparr>, w')"
proof -
  define t where "t = SetResult s rid (result_of ctx r rid (GetReportCount s rid) RESOLVE_STATUS_SUCCESS retdata)"
  obtain w1 where save: "SaveResult k ctx (s, w) rid RESOLVE_STATUS_SUCCESS retdata = Inr (t, w1)"
    using SaveResult_spec [OF assms, of ctx w RESOLVE_STATUS_SUCCESS retdata] unfolding t_def by blast
  let ?set = "\<lambda>x. kv_set (st_signing_results t) (SigningResultStoreKey rid) x"
  let ?goal = "\<lambda>sr w'. ResolveSuccess k ctx (s, w) rid requester limit retdata encoder = Inr (t\<lparr>st_signing_results := sr\<rparr>, w')"
  consider "encoder = ENCODER_UNSPECIFIED" | err where "encoder \<noteq> ENCODER_UNSPECIFIED" "safeCreateSigning k t w1 rid requester limit encoder = Inl err"
    | n w2 where "encoder \<noteq> ENCODER_UNSPECIFIED" "safeCreateSigning k t w1 rid requester limit encoder = Inr (n, w2)"
    by (cases "safeCreateSigning k t w1 rid requester limit encoder") auto
  then have "\<exists>sr w'. ?goal sr w'"
  proof cases
    case 1
    then have "?goal (st_signing_results t) w1" by (simp add: ResolveSuccess_def save)
    then show ?thesis by blast
  next
    case 2
    then have "?goal (?set \<lparr>sr_SigningID = 0, sr_ErrorCodespace = fst (ok_ABCIInfo k err), sr_ErrorCode = snd (ok_ABCIInfo k err)\<rparr>) w1"
      by (simp add: ResolveSuccess_def save handleCreateSigningFailed_def SetSigningResult_def split: prod.splits)
    then show ?thesis by blast
  next
    case 3
    then have "?goal (?set \<lparr>sr_SigningID = n, sr_ErrorCodespace = [], sr_ErrorCode = 0\<rparr>) w2"
      by (simp add: ResolveSuccess_def save SetSigningResult_def)
    then show ?thesis by blast
  qed
  then show ?thesis by (simp add: t_def)
qed

lemma ResolveRequest_spec:
  assumes inv: "files_ok k s" "req_good s r" and laws: "send_laws k" and r: "GetRequest s rid = Inr r"
  shows "\<exists>status result sr w'. answered status \<and> ResolveRequest k ctx (s, w) rid =
    Inr ((SetResult s rid (result_of ctx r rid (GetReportCount s rid) status result))\<lparr>st_signing_results := sr\<rparr>, w')"
proof -
  obtain x where x: "GetOracleScript s (rq_OracleScriptID r) = Inr x" "kv_has (st_files s) (os_Filename x)"
    using inv(2) by (auto simp: req_good_def script_ok_def)
  then obtain code where code: "MustGetFile (ok_GetFilename k) s (os_Filename x) = Inr code"
    using inv(1) by (auto simp: MustGetFile_def kv_has_def files_ok_def)
  have failure: "\<exists>sr w'. ResolveFailure k ctx (s, w) rid =
      Inr ((SetResult s rid (result_of ctx r rid (GetReportCount s rid) RESOLVE_STATUS_FAILURE []))\<lparr>st_signing_results := sr\<rparr>, w')"
  proof -
    define t where "t = SetResult s rid (result_of ctx r rid (GetReportCount s rid) RESOLVE_STATUS_FAILURE [])"
    obtain w' where "ResolveFailure k ctx (s, w) rid = Inr (t, w')"
      using SaveResult_spec [OF laws r, of ctx w RESOLVE_STATUS_FAILURE "[]"] unfolding ResolveFailure_def t_def by blast
    then have "ResolveFailure k ctx (s, w) rid = Inr (t\<lparr>st_signing_results := st_signing_results t\<rparr>, w')" by simp
    then show ?thesis unfolding t_def by blast
  qed
  have must: "MustGetRequest s rid = Inr r" "MustGetOracleScript s (rq_OracleScriptID r) = Inr x"
    using r x by (simp_all add: MustGetRequest_def MustGetOracleScript_def)
  let ?out = "run_env execute_call (ok_vm_Execute k code (ConvertToOwasmGas (rq_ExecuteGas r)))
      (NewExecuteEnv r (GetReports s rid) (oc_BlockTime ctx) (i64 (int (GetSpanSize s))))"
  obtain outcome env where out: "?out = (outcome, env)" by (cases ?out)
  consider "ResolveRequest k ctx (s, w) rid = ResolveFailure k ctx (s, w) rid"
    | retdata where "ResolveRequest k ctx (s, w) rid =
        ResolveSuccess k ctx (s, w) rid (rq_Requester r) (rq_FeeLimit r) retdata (rq_TSSEncoder r)"
    by (cases outcome; cases "ee_Retdata env") (simp_all add: ResolveRequest_def must code out)
  then show ?thesis
  proof cases
    case 1
    then show ?thesis using failure by (metis answered_def)
  next
    case 2
    then show ?thesis using ResolveSuccess_spec [OF laws r] by (metis answered_def)
  qed
qed

lemma GetResult_SetResult:
  "i < 2 ^ 64 \<Longrightarrow> n < 2 ^ 64 \<Longrightarrow> GetResult (SetResult s n x) i = (if i = n then Inr x else GetResult s i)"
  by (simp add: GetResult_def SetResult_def ResultStoreKey_inj)

lemma HasResult_GetResult: "HasResult s i \<longleftrightarrow> is_ok (GetResult s i)"
  by (simp add: HasResult_def GetResult_def kv_has_def split: option.splits)

text \<open>Storing the result of a request takes it off the pending list and keeps the rest of the invariant.\<close>

lemma set_result_inv:
  assumes inv: "oracle_inv k (s\<lparr>st_PendingResolveList := ps\<rparr>)" and rid: "rid < 2 ^ 64" "GetRequest s rid = Inr r"
    and ps: "ps = rid # qs \<or> ps = qs \<and> rid \<notin> set ps"
  shows "oracle_inv k ((SetResult s rid x)\<lparr>st_signing_results := sr, st_PendingResolveList := qs\<rparr>)"
proof -
  let ?t = "s\<lparr>st_PendingResolveList := ps\<rparr>"
  let ?s = "(SetResult s rid x)\<lparr>st_signing_results := sr, st_PendingResolveList := qs\<rparr>"
  note D = oracle_invD [OF inv]
  have get: "GetRequest ?s i = GetRequest ?t i" "GetRequest ?t i = GetRequest s i" and nr: "nreports ?s i = nreports ?t i" for i
    by (simp_all add: lookups SetResult_def)
  have hr: "HasResult ?s i \<longleftrightarrow> i = rid \<or> HasResult ?t i" if "i < 2 ^ 64" for i
    using GetResult_SetResult [OF that rid(1), of s x] by (simp add: HasResult_GetResult GetResult_def SetResult_def)
  have same: "st_RequestCount ?s = st_RequestCount ?t" "st_RequestLastExpired ?s = st_RequestLastExpired ?t"
    "st_reports ?s = st_reports ?t" "st_oracle_scripts ?s = st_oracle_scripts ?t" "st_OracleScriptCount ?s = st_OracleScriptCount ?t"
    "st_files ?s = st_files ?t"
    by (simp_all add: SetResult_def)
  have rid_range: "st_RequestLastExpired ?t < rid \<and> rid \<le> st_RequestCount ?t" using requests_okD(3) [OF D(2) rid(1)] rid(2) get(2) by simp
  have "files_ok k ?s" using D(1) unfolding files_ok_def same .
  moreover have "scripts_ok ?s" using D(6) unfolding scripts_ok_def same .
  moreover have "requests_ok ?s" using D(2) unfolding requests_ok_def same get(1) req_good_same [OF same(4,6)] .
  moreover have "reports_ok k ?s" using D(3) unfolding reports_ok_def same get(1) .
  moreover have "results_ok ?s"
    unfolding results_ok_def same using results_okD [OF D(4)] hr rid_range by (metis Suc_le_eq One_nat_def not_gr_zero not_less_zero)
  moreover have "pending_ok ?s"
    unfolding pending_ok_def get nr
  proof (intro conjI ballI allI impI)
    note P = pending_okD [OF D(5)]
    show "distinct (st_PendingResolveList ?s)" using P(1) ps by auto
    fix i
    show "i < 2 ^ 64" "\<exists>q. GetRequest s i = Inr q" if "i \<in> set (st_PendingResolveList ?s)"
      using that P(2) [of i] ps get(2) by auto
    show "\<not> HasResult ?s i" if "i \<in> set (st_PendingResolveList ?s)"
    proof -
      have i: "i \<in> set (st_PendingResolveList ?t)" "i \<noteq> rid" using that ps P(1) by auto
      then show ?thesis using P(2) [OF i(1)] hr [of i] by blast
    qed
    show "i \<in> set (st_PendingResolveList ?s) \<longleftrightarrow> rq_MinCount q \<le> nreports ?t i"
      if "i < 2 ^ 64" "GetRequest s i = Inr q" "\<not> HasResult ?s i" for q
      using P(3) [OF that(1), of q] hr [OF that(1)] that get(2) ps by auto
  qed
  ultimately show ?thesis by (simp add: oracle_inv_def)
qed

end
