(* ===== verification/Oracle_Block.thy ===== *)
theory Oracle_Block
  imports Oracle_Life
begin

text \<open>
  The module \<open>x/oracle\<close>, sixth part: the end of a block, the runs of the module, and the
  properties of the life of a request.
\<close>

section \<open>Resolving the pending requests\<close>

definition only_results :: "oracle_state \<Rightarrow> oracle_state \<Rightarrow> bool" where
  "only_results s s' \<longleftrightarrow> s' = s\<lparr>st_results := st_results s', st_signing_results := st_signing_results s'\<rparr>"

lemma only_results_refl [simp]: "only_results s s"
  by (simp add: only_results_def)

lemma only_results_trans: "only_results s t \<Longrightarrow> only_results t u \<Longrightarrow> only_results s u"
  unfolding only_results_def by (cases s; cases t; cases u) simp

lemma only_results_set: "only_results s ((SetResult s i x)\<lparr>st_signing_results := sr\<rparr>)"
  by (cases s) (simp add: only_results_def SetResult_def)

lemma only_resultsD:
  assumes "only_results s s'"
  shows "st_requests s' = st_requests s" "st_reports s' = st_reports s" "st_status s' = st_status s" "st_params s' = st_params s"
    "st_RequestCount s' = st_RequestCount s" "st_RequestLastExpired s' = st_RequestLastExpired s"
    "st_PendingResolveList s' = st_PendingResolveList s"
  using assms unfolding only_results_def by (cases s; cases s'; simp)+

lemma only_results_lookups:
  assumes "only_results s s'"
  shows "GetRequest s' i = GetRequest s i" "nreports s' i = nreports s i" "HasReport s' i v = HasReport s i v"
  using only_resultsD [OF assms] by (simp_all add: lookups)

text \<open>The result a pending request gets: success or failure, with the number of its reports.\<close>

definition resolved_ok :: "oracle_ctx \<Rightarrow> oracle_state \<Rightarrow> oracle_state \<Rightarrow> uint64 \<Rightarrow> bool" where
  "resolved_ok ctx s s' i \<longleftrightarrow> (\<exists>r status result. GetRequest s i = Inr r \<and> answered status \<and>
     GetResult s' i = Inr (result_of ctx r i (nreports s i) status result))"

lemma resolve_one:
  assumes laws: "send_laws k" and inv: "oracle_inv k (s\<lparr>st_PendingResolveList := i # ps\<rparr>)"
  shows "\<exists>t w'. ResolveRequest k ctx (s, w) i = Inr (t, w') \<and> oracle_inv k (t\<lparr>st_PendingResolveList := ps\<rparr>) \<and>
    only_results s t \<and> (\<forall>j<2 ^ 64. j \<noteq> i \<longrightarrow> GetResult t j = GetResult s j) \<and> resolved_ok ctx s t i"
proof -
  let ?s = "s\<lparr>st_PendingResolveList := i # ps\<rparr>"
  note D = oracle_invD [OF inv]
  have look: "GetRequest ?s j = GetRequest s j" "nreports ?s j = nreports s j" "GetReportCount ?s j = GetReportCount s j" for j
    by (simp_all add: lookups GetReportCount_def)
  have i: "i < 2 ^ 64" using pending_okD(2) [OF D(5), of i] by simp
  obtain r where r: "GetRequest s i = Inr r" using pending_okD(2) [OF D(5), of i] look by auto
  have "req_good ?s r" using requests_okD(4) [OF D(2) i] r look by simp
  then have good: "req_good s r" by (simp add: req_good_same [of "?s" s])
  have files: "files_ok k s" using D(1) by (simp add: files_ok_def)
  have count: "GetReportCount s i = nreports s i" using GetReportCount_eq [OF inv i] r look by simp
  obtain status result sr w' where st: "answered status"
    and run: "ResolveRequest k ctx (s, w) i =
      Inr ((SetResult s i (result_of ctx r i (nreports s i) status result))\<lparr>st_signing_results := sr\<rparr>, w')"
    using ResolveRequest_spec [OF files good laws r, of ctx w] count by auto
  let ?t = "(SetResult s i (result_of ctx r i (nreports s i) status result))\<lparr>st_signing_results := sr\<rparr>"
  have get: "GetResult ?t j = GetResult (SetResult s i (result_of ctx r i (nreports s i) status result)) j" for j
    by (simp add: GetResult_def)
  have "oracle_inv k (?t\<lparr>st_PendingResolveList := ps\<rparr>)" using set_result_inv [OF inv i r] by simp
  moreover have "resolved_ok ctx s ?t i" using r st get GetResult_SetResult [OF i i] by (auto simp: resolved_ok_def)
  moreover have "\<forall>j<2 ^ 64. j \<noteq> i \<longrightarrow> GetResult ?t j = GetResult s j" using get GetResult_SetResult [OF _ i] by simp
  ultimately show ?thesis using run only_results_set by blast
qed

lemma resolve_all:
  assumes laws: "send_laws k" and "oracle_inv k (s\<lparr>st_PendingResolveList := ps\<rparr>)"
  shows "\<exists>s' w'. foldE (ResolveRequest k ctx) (s, w) ps = Inr (s', w') \<and> oracle_inv k (s'\<lparr>st_PendingResolveList := []\<rparr>) \<and>
    only_results s s' \<and> (\<forall>i<2 ^ 64. i \<notin> set ps \<longrightarrow> GetResult s' i = GetResult s i) \<and> (\<forall>i\<in>set ps. resolved_ok ctx s s' i)"
  using assms(2)
proof (induction ps arbitrary: s w)
  case (Cons i ps)
  obtain t w1 where t: "ResolveRequest k ctx (s, w) i = Inr (t, w1)" "oracle_inv k (t\<lparr>st_PendingResolveList := ps\<rparr>)"
      "only_results s t" "\<forall>j<2 ^ 64. j \<noteq> i \<longrightarrow> GetResult t j = GetResult s j" "resolved_ok ctx s t i"
    using resolve_one [OF laws Cons.prems, of ctx w] by blast
  obtain s' w' where s': "foldE (ResolveRequest k ctx) (t, w1) ps = Inr (s', w')" "oracle_inv k (s'\<lparr>st_PendingResolveList := []\<rparr>)"
      "only_results t s'" "\<forall>j<2 ^ 64. j \<notin> set ps \<longrightarrow> GetResult s' j = GetResult t j" "\<forall>j\<in>set ps. resolved_ok ctx t s' j"
    using Cons.IH [OF t(2), of w1] by blast
  note P = pending_okD [OF oracle_invD(5) [OF Cons.prems]]
  have i: "i < 2 ^ 64" "i \<notin> set ps" using P(2) [of i] P(1) by simp_all
  have "resolved_ok ctx s s' i" using t(5) s'(4) i by (simp add: resolved_ok_def)
  moreover have "\<forall>j\<in>set ps. resolved_ok ctx s s' j" using s'(5) only_results_lookups [OF t(3)] by (simp add: resolved_ok_def)
  ultimately show ?case using t(1,3,4) s'(1-4) only_results_trans [OF t(3) s'(3)] by auto
qed auto

section \<open>Expiring one request\<close>

lemma DeleteReports_eq:
  "DeleteReports s i = s\<lparr>st_reports := filter (\<lambda>e. \<not> has_prefix (ReportStoreKey i) (fst e)) (st_reports s)\<rparr>"
proof -
  have fold: "foldl (\<lambda>s key. s\<lparr>st_reports := kv_delete (st_reports s) key\<rparr>) s ks =
      s\<lparr>st_reports := filter (\<lambda>e. fst e \<notin> set ks) (st_reports s)\<rparr>" for ks s
  proof (induction ks arbitrary: s)
    case (Cons key ks)
    have "filter (\<lambda>e. fst e \<notin> set ks) (kv_delete (st_reports s) key) = filter (\<lambda>e. fst e \<notin> set (key # ks)) (st_reports s)"
      by (auto simp: kv_delete_def intro: filter_cong)
    then show ?case using Cons by simp
  qed simp
  have "filter (\<lambda>e. fst e \<notin> fst ` {e \<in> set m. has_prefix p (fst e)}) m = filter (\<lambda>e. \<not> has_prefix p (fst e)) m" for p and m :: "(bytes, Report) kv"
    by (rule filter_cong) auto
  then show ?thesis by (simp add: DeleteReports_def fold GetReportIterator_def kv_prefix_iterator_def)
qed

definition val_of :: "('w, 'r) oracle_keeper \<Rightarrow> bytes \<Rightarrow> bytes" where
  "val_of k x = (case ok_ValAddressFromBech32 k x of Inl _ \<Rightarrow> [] | Inr v \<Rightarrow> v)"

definition miss_all :: "('w, 'r) oracle_keeper \<Rightarrow> oracle_ctx \<Rightarrow> oracle_state \<Rightarrow> uint64 \<Rightarrow> Request \<Rightarrow> status_store" where
  "miss_all k ctx s i r = foldl (\<lambda>m v. if HasReport s i v then m else MissReport (oc_BlockTime ctx) m v (rq_RequestTime r * 10 ^ 9))
     (st_status s) (map (val_of k) (rq_RequestedValidators r))"

lemma miss_unreported_fold:
  "foldl (miss_unreported k ctx i r) s xs = s\<lparr>st_status :=
     foldl (\<lambda>m v. if HasReport s i v then m else MissReport (oc_BlockTime ctx) m v (rq_RequestTime r * 10 ^ 9)) (st_status s) (map (val_of k) xs)\<rparr>"
proof (induction xs arbitrary: s)
  case (Cons x xs)
  have "HasReport (miss_unreported k ctx i r s x) j v = HasReport s j v" for j v
    by (simp add: miss_unreported_def HasReport_def Let_def)
  moreover have "miss_unreported k ctx i r s x = (if HasReport s i (val_of k x) then s
      else s\<lparr>st_status := MissReport (oc_BlockTime ctx) (st_status s) (val_of k x) (rq_RequestTime r * 10 ^ 9)\<rparr>)"
    by (simp add: miss_unreported_def val_of_def)
  ultimately show ?case by (simp add: Cons.IH)
qed simp

lemma expire_request_eq:
  assumes laws: "send_laws k" and r: "GetRequest s i = Inr r"
  shows "\<exists>w'. expire_request k ctx (s, w) i r =
    Inr (s\<lparr>st_results := (if HasResult s i then st_results s
             else kv_set (st_results s) (ResultStoreKey i) (result_of ctx r i (GetReportCount s i) RESOLVE_STATUS_EXPIRED [])),
           st_status := miss_all k ctx s i r,
           st_requests := kv_delete (st_requests s) (RequestStoreKey i),
           st_reports := filter (\<lambda>e. \<not> has_prefix (ReportStoreKey i) (fst e)) (st_reports s),
           st_RequestLastExpired := i\<rparr>, w')"
proof -
  obtain w' where "SaveResult k ctx (s, w) i RESOLVE_STATUS_EXPIRED [] =
      Inr (SetResult s i (result_of ctx r i (GetReportCount s i) RESOLVE_STATUS_EXPIRED []), w')"
    using SaveResult_spec [OF laws r, of ctx w RESOLVE_STATUS_EXPIRED "[]"] by blast
  then have "\<exists>w'. (if HasResult s i then Inr (s, w) else ResolveExpired k ctx (s, w) i) =
      Inr (s\<lparr>st_results := (if HasResult s i then st_results s
             else kv_set (st_results s) (ResultStoreKey i) (result_of ctx r i (GetReportCount s i) RESOLVE_STATUS_EXPIRED []))\<rparr>, w')"
    by (simp add: ResolveExpired_def SetResult_def)
  then show ?thesis
    by (auto simp: expire_request_def miss_unreported_fold miss_all_def DeleteRequest_def DeleteReports_eq HasReport_def)
qed

definition expired_state :: "('w, 'r) oracle_keeper \<Rightarrow> oracle_ctx \<Rightarrow> oracle_state \<Rightarrow> uint64 \<Rightarrow> Request \<Rightarrow> oracle_state" where
  "expired_state k ctx s i r =
     s\<lparr>st_results := (if HasResult s i then st_results s
         else kv_set (st_results s) (ResultStoreKey i) (result_of ctx r i (GetReportCount s i) RESOLVE_STATUS_EXPIRED [])),
       st_status := miss_all k ctx s i r,
       st_requests := kv_delete (st_requests s) (RequestStoreKey i),
       st_reports := filter (\<lambda>e. \<not> has_prefix (ReportStoreKey i) (fst e)) (st_reports s),
       st_RequestLastExpired := i\<rparr>"

lemma expired_state_sel [simp]:
  "st_RequestLastExpired (expired_state k ctx s i r) = i"
  "st_RequestCount (expired_state k ctx s i r) = st_RequestCount s"
  "st_PendingResolveList (expired_state k ctx s i r) = st_PendingResolveList s"
  "st_params (expired_state k ctx s i r) = st_params s"
  "st_status (expired_state k ctx s i r) = miss_all k ctx s i r"
  by (simp_all add: expired_state_def)

lemma expired_state_lookups:
  assumes "i < 2 ^ 64" and "j < 2 ^ 64"
  shows "GetRequest (expired_state k ctx s i r) j = (if j = i then Inl ErrRequestNotFound else GetRequest s j)"
    and "GetResult (expired_state k ctx s i r) j = (if j = i \<and> \<not> HasResult s i
           then Inr (result_of ctx r i (GetReportCount s i) RESOLVE_STATUS_EXPIRED []) else GetResult s j)"
    and "HasReport (expired_state k ctx s i r) j v \<longleftrightarrow> j \<noteq> i \<and> HasReport s j v"
proof -
  show "GetRequest (expired_state k ctx s i r) j = (if j = i then Inl ErrRequestNotFound else GetRequest s j)"
    using assms by (simp add: expired_state_def GetRequest_def RequestStoreKey_inj)
  show "GetResult (expired_state k ctx s i r) j = (if j = i \<and> \<not> HasResult s i
           then Inr (result_of ctx r i (GetReportCount s i) RESOLVE_STATUS_EXPIRED []) else GetResult s j)"
    using assms by (simp add: expired_state_def GetResult_def ResultStoreKey_inj)
  show "HasReport (expired_state k ctx s i r) j v \<longleftrightarrow> j \<noteq> i \<and> HasReport s j v"
    using report_key_prefix [OF assms, of v] by (force simp: expired_state_def HasReport_def kv_has_mem)
qed

lemma nreports_expired_state:
  assumes "reports_ok k' s" and "i < 2 ^ 64" and "j < 2 ^ 64" and "j \<noteq> i"
  shows "nreports (expired_state k ctx s i r) j = nreports s j"
proof -
  have "\<not> has_prefix (ReportStoreKey i) (fst e)" if "e \<in> set (st_reports s)" "has_prefix (ReportStoreKey j) (fst e)" for e
    using reports_okD(2) [OF assms(1), of "fst e"] that assms(2-4) report_key_prefix by fastforce
  then have "filter (\<lambda>e. has_prefix (ReportStoreKey j) (fst e)) (filter (\<lambda>e. \<not> has_prefix (ReportStoreKey i) (fst e)) (st_reports s)) =
      filter (\<lambda>e. has_prefix (ReportStoreKey j) (fst e)) (st_reports s)"
    unfolding filter_filter by (intro filter_cong) auto
  then show ?thesis by (simp add: nreports_def GetReportIterator_def kv_prefix_iterator_def expired_state_def)
qed

lemma expired_state_inv:
  assumes inv: "oracle_inv k s" and none: "st_PendingResolveList s = []" and i: "i = Suc (st_RequestLastExpired s)" "i \<le> st_RequestCount s"
  shows "oracle_inv k (expired_state k ctx s i r)"
proof -
  let ?t = "expired_state k ctx s i r"
  note D = oracle_invD [OF inv] and R = requests_okD [OF oracle_invD(2) [OF inv]]
  have i64: "i < 2 ^ 64" using i R(2) by simp
  note L = expired_state_lookups [where k = k and ctx = ctx and s = s and r = r, OF i64]
  have hr: "HasResult ?t j \<longleftrightarrow> j = i \<or> HasResult s j" if "j < 2 ^ 64" for j
    using L(2) [OF that] by (auto simp: HasResult_GetResult split: if_splits)
  have good: "req_good ?t q = req_good s q" for q by (rule req_good_same) (simp_all add: expired_state_def)
  have "files_ok k ?t" using D(1) by (simp add: files_ok_def expired_state_def)
  moreover have "scripts_ok ?t" using D(6) by (simp add: scripts_ok_def expired_state_def)
  moreover have "requests_ok ?t"
    unfolding requests_ok_def good expired_state_sel
  proof (intro conjI allI impI)
    show "(\<exists>q. GetRequest ?t j = Inr q) = (i < j \<and> j \<le> st_RequestCount s)" if "j < 2 ^ 64" for j
      using L(1) [OF that] R(3) [OF that] i by auto
    show "req_good s q" if "j < 2 ^ 64" "GetRequest ?t j = Inr q" for j q
      using L(1) [OF that(1)] that R(4) [OF that(1)] by (simp split: if_splits)
  qed (use i R(2) in auto)
  moreover have "reports_ok k ?t"
    unfolding reports_ok_def
  proof (intro conjI ballI)
    show "kv_ok (st_reports ?t)" using reports_okD(1) [OF D(3)] by (simp add: expired_state_def)
    fix key assume key: "key \<in> fst ` set (st_reports ?t)"
    then have "key \<in> fst ` set (st_reports s)" and pre: "\<not> has_prefix (ReportStoreKey i) key" by (auto simp: expired_state_def)
    then obtain j v q where j: "key = ReportsOfValidatorPrefixKey j v" "j < 2 ^ 64" "GetRequest s j = Inr q" "asked k q v"
      using reports_okD(2) [OF D(3), of key] by blast
    then have "j \<noteq> i" using pre report_key_prefix [OF i64 j(2)] by auto
    then show "\<exists>j v q. key = ReportsOfValidatorPrefixKey j v \<and> j < 2 ^ 64 \<and> GetRequest ?t j = Inr q \<and> asked k q v"
      using j L(1) [OF j(2)] by auto
  qed
  moreover have "results_ok ?t"
    unfolding results_ok_def expired_state_sel
  proof (intro conjI allI impI)
    fix j :: nat assume j: "j < 2 ^ 64"
    show "1 \<le> j" "j \<le> st_RequestCount s" if "HasResult ?t j" using hr [OF j] that results_okD(1) [OF D(4) j] i by auto
    show "HasResult ?t j" if "1 \<le> j \<and> j \<le> i"
      using that hr [OF j] results_okD(2) [OF D(4) j] i(1) by (cases "j = i") auto
  qed
  moreover have "pending_ok ?t"
    unfolding pending_ok_def expired_state_sel none
  proof (intro conjI ballI allI impI)
    fix j q assume j: "j < 2 ^ 64" "GetRequest ?t j = Inr q" "\<not> HasResult ?t j"
    then have "j \<noteq> i" "GetRequest s j = Inr q" "\<not> HasResult s j" using L(1) [OF j(1)] hr [OF j(1)] by (auto split: if_splits)
    then show "j \<in> set [] \<longleftrightarrow> rq_MinCount q \<le> nreports ?t j"
      using pending_okD(3) [OF D(5) j(1)] none nreports_expired_state [where k = k and ctx = ctx and r = r, OF D(3) i64 j(1)] by simp
  qed auto
  ultimately show ?thesis by (simp add: oracle_inv_def)
qed

section \<open>What the expiry loop does\<close>

text \<open>A validator that was asked by request \<open>i\<close> and has no report for it.\<close>

definition missed :: "('w, 'r) oracle_keeper \<Rightarrow> oracle_state \<Rightarrow> uint64 \<Rightarrow> Request \<Rightarrow> bytes \<Rightarrow> bool" where
  "missed k s i r v \<longleftrightarrow> v \<in> set (map (val_of k) (rq_RequestedValidators r)) \<and> \<not> HasReport s i v"

text \<open>An active validator that was already active when the request was made.\<close>

definition liable :: "status_store \<Rightarrow> bytes \<Rightarrow> Request \<Rightarrow> bool" where
  "liable m v r \<longleftrightarrow> vs_IsActive (GetValidatorStatus m v) \<and> vs_Since (GetValidatorStatus m v) < rq_RequestTime r * 10 ^ 9"

lemma miss_fold:
  assumes "m' = foldl (\<lambda>m v. if skip v then m else MissReport bt m v (rq_RequestTime r * 10 ^ 9)) m vs"
  shows "GetValidatorStatus m' v = (if v \<in> set vs \<and> \<not> skip v \<and> liable m v r then \<lparr>vs_IsActive = False, vs_Since = bt\<rparr>
     else GetValidatorStatus m v)"
  using assms
proof (induction vs arbitrary: m)
  case (Cons x vs)
  show ?case
    using Cons.IH [of "if skip x then m else MissReport bt m x (rq_RequestTime r * 10 ^ 9)"] Cons.prems
    by (auto simp: GetValidatorStatus_MissReport liable_def)
qed simp

lemma miss_all_status:
  "GetValidatorStatus (miss_all k ctx s i r) v =
     (if missed k s i r v \<and> liable (st_status s) v r then \<lparr>vs_IsActive = False, vs_Since = oc_BlockTime ctx\<rparr>
      else GetValidatorStatus (st_status s) v)"
  using miss_fold [OF refl, of "HasReport s i" "oc_BlockTime ctx" r "st_status s" "map (val_of k) (rq_RequestedValidators r)" v]
  unfolding miss_all_def missed_def by simp

text \<open>
  The state \<open>s'\<close> after some steps of the loop from \<open>s\<close>: the requests up to the new last expired id were due and
  have a result, the later ones are untouched, no result changed, and exactly the liable validators that
  missed a report of an expired request were deactivated.
\<close>

definition due :: "oracle_ctx \<Rightarrow> oracle_Params \<Rightarrow> Request \<Rightarrow> bool" where
  "due ctx p r \<longleftrightarrow> i64 (rq_RequestHeight r + i64 (int (op_ExpirationBlockCount p))) \<le> oc_BlockHeight ctx"

definition between :: "oracle_state \<Rightarrow> oracle_state \<Rightarrow> uint64 \<Rightarrow> Request \<Rightarrow> bool" where
  "between s s' i r \<longleftrightarrow> st_RequestLastExpired s < i \<and> i \<le> st_RequestLastExpired s' \<and> GetRequest s i = Inr r"

definition results_kept :: "oracle_state \<Rightarrow> oracle_state \<Rightarrow> bool" where
  "results_kept s s' \<longleftrightarrow> (\<forall>i<2 ^ 64. HasResult s i \<longrightarrow> GetResult s' i = GetResult s i)"

definition later_kept :: "oracle_state \<Rightarrow> oracle_state \<Rightarrow> bool" where
  "later_kept s s' \<longleftrightarrow> (\<forall>i<2 ^ 64. st_RequestLastExpired s' < i \<longrightarrow>
     GetRequest s' i = GetRequest s i \<and> GetResult s' i = GetResult s i \<and> (\<forall>v. HasReport s' i v = HasReport s i v))"

definition expired_ok :: "oracle_ctx \<Rightarrow> oracle_state \<Rightarrow> oracle_state \<Rightarrow> bool" where
  "expired_ok ctx s s' \<longleftrightarrow> (\<forall>i r. between s s' i r \<longrightarrow> due ctx (st_params s) r \<and>
     (\<not> HasResult s i \<longrightarrow> (\<exists>n. n < rq_MinCount r \<and> GetResult s' i = Inr (result_of ctx r i n RESOLVE_STATUS_EXPIRED []))))"

definition statuses_ok :: "('w, 'r) oracle_keeper \<Rightarrow> oracle_ctx \<Rightarrow> oracle_state \<Rightarrow> oracle_state \<Rightarrow> bool" where
  "statuses_ok k ctx s s' \<longleftrightarrow> (\<forall>v.
     (if \<exists>i r. between s s' i r \<and> missed k s i r v \<and> liable (st_status s) v r
      then GetValidatorStatus (st_status s') v = \<lparr>vs_IsActive = False, vs_Since = oc_BlockTime ctx\<rparr>
      else GetValidatorStatus (st_status s') v = GetValidatorStatus (st_status s) v))"

definition ended :: "('w, 'r) oracle_keeper \<Rightarrow> oracle_ctx \<Rightarrow> oracle_state \<Rightarrow> oracle_state \<Rightarrow> bool" where
  "ended k ctx s s' \<longleftrightarrow> st_RequestLastExpired s \<le> st_RequestLastExpired s' \<and> st_RequestCount s' = st_RequestCount s \<and>
     st_params s' = st_params s \<and> st_PendingResolveList s' = st_PendingResolveList s \<and>
     results_kept s s' \<and> later_kept s s' \<and> expired_ok ctx s s' \<and> statuses_ok k ctx s s'"

lemma ended_refl: "ended k ctx s s"
  by (auto simp: ended_def results_kept_def later_kept_def expired_ok_def statuses_ok_def between_def)

lemma between_step:
  assumes "st_RequestLastExpired t = Suc (st_RequestLastExpired s)" and "Suc (st_RequestLastExpired s) \<le> st_RequestLastExpired s'"
    and "later_kept s t" and "st_RequestLastExpired s' < 2 ^ 64"
  shows "between s s' i r \<longleftrightarrow> i = Suc (st_RequestLastExpired s) \<and> GetRequest s i = Inr r \<or> between t s' i r"
proof (cases "i = Suc (st_RequestLastExpired s)")
  case True
  then show ?thesis using assms(1,2) by (auto simp: between_def)
next
  case False
  then have "st_RequestLastExpired s < i \<longleftrightarrow> st_RequestLastExpired t < i" using assms(1) by auto
  moreover have "GetRequest t i = GetRequest s i" if "st_RequestLastExpired t < i" "i \<le> st_RequestLastExpired s'"
    using assms(3,4) that by (simp add: later_kept_def)
  ultimately show ?thesis using False by (auto simp: between_def)
qed

lemma expired_state_kept:
  assumes "i < 2 ^ 64"
  shows "later_kept s (expired_state k ctx s i r)" and "results_kept s (expired_state k ctx s i r)"
  using expired_state_lookups [OF assms, where k = k and ctx = ctx and s = s and r = r]
  by (auto simp: later_kept_def results_kept_def)

lemma later_keptD:
  assumes "later_kept s t" and "i < 2 ^ 64" and "st_RequestLastExpired t < i"
  shows "GetRequest t i = GetRequest s i" "GetResult t i = GetResult s i" "HasReport t i v = HasReport s i v"
    "HasResult t i = HasResult s i" "missed k t i r v = missed k s i r v"
  using assms by (simp_all add: later_kept_def HasResult_GetResult missed_def)

lemma statuses_ok_step:
  assumes t: "\<And>v. GetValidatorStatus (st_status t) v =
      (if missed k s i r v \<and> liable (st_status s) v r then \<lparr>vs_IsActive = False, vs_Since = oc_BlockTime ctx\<rparr>
       else GetValidatorStatus (st_status s) v)"
    and ok: "statuses_ok k ctx t s'" and r: "GetRequest s i = Inr r"
    and btw: "\<And>j q. between s s' j q \<longleftrightarrow> j = i \<and> GetRequest s j = Inr q \<or> between t s' j q"
    and same: "\<And>j q v. between t s' j q \<Longrightarrow> missed k t j q v = missed k s j q v"
  shows "statuses_ok k ctx s s'"
  unfolding statuses_ok_def
proof
  fix v
  have split: "(\<exists>j q. between s s' j q \<and> missed k s j q v \<and> liable (st_status s) v q) \<longleftrightarrow>
      missed k s i r v \<and> liable (st_status s) v r \<or> (\<exists>j q. between t s' j q \<and> missed k t j q v \<and> liable (st_status s) v q)"
  proof -
    have "(\<exists>j q. between s s' j q \<and> P j q) \<longleftrightarrow> P i r \<or> (\<exists>j q. between t s' j q \<and> P j q)" for P
      using r by (auto simp: btw)
    then show ?thesis using same by (auto cong: conj_cong)
  qed
  show "if \<exists>j q. between s s' j q \<and> missed k s j q v \<and> liable (st_status s) v q
      then GetValidatorStatus (st_status s') v = \<lparr>vs_IsActive = False, vs_Since = oc_BlockTime ctx\<rparr>
      else GetValidatorStatus (st_status s') v = GetValidatorStatus (st_status s) v"
  proof (cases "missed k s i r v \<and> liable (st_status s) v r")
    case True
    then have "GetValidatorStatus (st_status t) v = \<lparr>vs_IsActive = False, vs_Since = oc_BlockTime ctx\<rparr>" using t by simp
    moreover from this have "\<not> liable (st_status t) v q" for q by (simp add: liable_def)
    ultimately show ?thesis using ok split True unfolding statuses_ok_def by auto
  next
    case False
    then have st: "GetValidatorStatus (st_status t) v = GetValidatorStatus (st_status s) v" using t by auto
    then have "liable (st_status t) v q = liable (st_status s) v q" for q by (simp add: liable_def)
    then show ?thesis using ok split False st unfolding statuses_ok_def by auto
  qed
qed

lemma ended_step:
  assumes inv: "oracle_inv k s" and none: "st_PendingResolveList s = []"
    and i: "i = Suc (st_RequestLastExpired s)" "i \<le> st_RequestCount s" and r: "GetRequest s i = Inr r" and d: "due ctx (st_params s) r"
    and e: "ended k ctx (expired_state k ctx s i r) s'" and last: "st_RequestLastExpired s' < 2 ^ 64"
  shows "ended k ctx s s'"
proof -
  let ?t = "expired_state k ctx s i r"
  note D = oracle_invD [OF inv]
  have i64: "i < 2 ^ 64" using i requests_okD(2) [OF D(2)] by simp
  note kept = expired_state_kept [OF i64, where k = k and ctx = ctx and s = s and r = r]
  note E = e [unfolded ended_def expired_state_sel]
  have t: "HasResult ?t i" "\<not> HasResult s i \<Longrightarrow> GetResult ?t i = Inr (result_of ctx r i (nreports s i) RESOLVE_STATUS_EXPIRED [])"
    using expired_state_lookups(2) [OF i64 i64, where k = k and ctx = ctx and s = s and r = r] GetReportCount_eq [OF inv i64 r]
    by (auto simp: HasResult_GetResult)
  have btw: "between s s' j q \<longleftrightarrow> j = i \<and> GetRequest s j = Inr q \<or> between ?t s' j q" for j q
    using between_step [OF _ _ kept(1) last, of j q] i(1) E by simp
  have above: "j < 2 ^ 64" "st_RequestLastExpired ?t < j" if "between ?t s' j q" for j q
    using that last by (auto simp: between_def)
  have "results_kept s s'"
    using E kept(2) unfolding results_kept_def by (metis HasResult_GetResult)
  moreover have "later_kept s s'"
    using E kept(1) unfolding later_kept_def by (auto dest: le_less_trans)
  moreover have "expired_ok ctx s s'"
    unfolding expired_ok_def
  proof (intro allI impI)
    fix j q assume "between s s' j q"
    then consider "j = i" "q = r" | "between ?t s' j q" using btw r by auto
    then show "due ctx (st_params s) q \<and> (\<not> HasResult s j \<longrightarrow>
        (\<exists>n. n < rq_MinCount q \<and> GetResult s' j = Inr (result_of ctx q j n RESOLVE_STATUS_EXPIRED [])))"
    proof cases
      case 1
      have "nreports s i < rq_MinCount r" if "\<not> HasResult s i" using pending_okD(3) [OF D(5) i64 r that] none by simp
      moreover have "GetResult s' i = GetResult ?t i" using E t(1) i64 by (simp add: results_kept_def)
      ultimately show ?thesis using 1 d t(2) by auto
    next
      case 2
      then show ?thesis using E later_keptD(4) [OF kept(1) above [OF 2]] by (auto simp: expired_ok_def)
    qed
  qed
  moreover have "statuses_ok k ctx s s'"
  proof (rule statuses_ok_step [where t = ?t, OF _ _ r btw])
    show "statuses_ok k ctx ?t s'" using E by blast
    show "missed k ?t j q v = missed k s j q v" if "between ?t s' j q" for j q v
      by (rule later_keptD(5) [OF kept(1) above [OF that]])
  qed (simp add: miss_all_status)
  ultimately show ?thesis using E i none unfolding ended_def by simp
qed

lemma expire_from_spec:
  assumes laws: "send_laws k" and "oracle_inv k s" and "st_PendingResolveList s = []"
    and "n = st_RequestCount s" and "cur = Suc (st_RequestLastExpired s)" and "exp = i64 (int (op_ExpirationBlockCount (st_params s)))"
  shows "\<exists>s' w'. expire_from k ctx exp cur n (s, w) = Inr (s', w') \<and> oracle_inv k s' \<and> ended k ctx s s' \<and>
    (st_RequestLastExpired s' = n \<or> (\<exists>r. GetRequest s' (Suc (st_RequestLastExpired s')) = Inr r \<and> \<not> due ctx (st_params s) r))"
  using assms(2-6)
proof (induction "Suc n - cur" arbitrary: s w cur)
  case 0
  then have "expire_from k ctx exp cur n (s, w) = Inr (s, w)" by (subst expire_from.simps) simp
  moreover have "st_RequestLastExpired s = n" using 0 requests_okD(1) [OF oracle_invD(2) [OF 0(2)]] by simp
  ultimately show ?case using 0 ended_refl by blast
next
  case (Suc m)
  note R = requests_okD [OF oracle_invD(2) [OF Suc.prems(1)]]
  have cur: "cur \<le> n" "cur < 2 ^ 64" using Suc.hyps(2) Suc.prems R(2) by simp_all
  then obtain r where r: "GetRequest s cur = Inr r" using R(3) [of cur] Suc.prems by auto
  show ?case
  proof (cases "due ctx (st_params s) r")
    case False
    then have "expire_from k ctx exp cur n (s, w) = Inr (s, w)"
      using cur r Suc.prems(5) by (subst expire_from.simps) (simp add: MustGetRequest_def due_def not_le)
    then show ?thesis using Suc.prems False r ended_refl by blast
  next
    case True
    let ?t = "expired_state k ctx s cur r"
    obtain w1 where w1: "expire_request k ctx (s, w) cur r = Inr (?t, w1)"
      using expire_request_eq [OF laws r, of ctx w] unfolding expired_state_def by blast
    have inv: "oracle_inv k ?t" using expired_state_inv [OF Suc.prems(1,2)] cur Suc.prems(3,4) by simp
    obtain s' w' where s': "expire_from k ctx exp (Suc cur) n (?t, w1) = Inr (s', w')" "oracle_inv k s'" "ended k ctx ?t s'"
      "st_RequestLastExpired s' = n \<or> (\<exists>r. GetRequest s' (Suc (st_RequestLastExpired s')) = Inr r \<and> \<not> due ctx (st_params ?t) r)"
      using Suc.hyps(1) [of "Suc cur" ?t w1] Suc.hyps(2) inv Suc.prems by fastforce
    have "expire_from k ctx exp cur n (s, w) = Inr (s', w')"
      using cur r Suc.prems(5) True w1 s'(1) by (subst expire_from.simps) (simp add: MustGetRequest_def due_def)
    moreover have "st_RequestLastExpired s' < 2 ^ 64" using requests_okD(1,2) [OF oracle_invD(2) [OF s'(2)]] by simp
    then have "ended k ctx s s'"
      using ended_step [OF Suc.prems(1,2) _ _ r True s'(3)] cur Suc.prems(3,4) by simp
    ultimately show ?thesis using s' by auto
  qed
qed

section \<open>The end of a block\<close>

lemma EndBlocker_spec:
  assumes inv: "oracle_inv k s" and laws: "send_laws k"
  shows "\<exists>s' w'. oracle_EndBlocker k ctx (s, w) = Inr (s', w') \<and> oracle_inv k s' \<and> st_PendingResolveList s' = [] \<and>
    (\<forall>i\<in>set (st_PendingResolveList s). resolved_ok ctx s s' i) \<and> results_kept s s' \<and>
    (\<forall>i r. between s s' i r \<longrightarrow> due ctx (st_params s) r \<and>
       (\<not> HasResult s i \<longrightarrow> i \<notin> set (st_PendingResolveList s) \<longrightarrow>
         (\<exists>n. n < rq_MinCount r \<and> GetResult s' i = Inr (result_of ctx r i n RESOLVE_STATUS_EXPIRED [])))) \<and>
    statuses_ok k ctx s s' \<and> st_RequestCount s' = st_RequestCount s \<and> st_RequestLastExpired s \<le> st_RequestLastExpired s' \<and>
    (st_RequestLastExpired s' = st_RequestCount s \<or>
      (\<exists>r. GetRequest s' (Suc (st_RequestLastExpired s')) = Inr r \<and> \<not> due ctx (st_params s) r))"
proof -
  let ?ps = "st_PendingResolveList s"
  have "oracle_inv k (s\<lparr>st_PendingResolveList := ?ps\<rparr>)" using inv by simp
  then obtain s1 w1 where s1: "foldE (ResolveRequest k ctx) (s, w) ?ps = Inr (s1, w1)" "oracle_inv k (s1\<lparr>st_PendingResolveList := []\<rparr>)"
      "only_results s s1" "\<forall>i<2 ^ 64. i \<notin> set ?ps \<longrightarrow> GetResult s1 i = GetResult s i" "\<forall>i\<in>set ?ps. resolved_ok ctx s s1 i"
    using resolve_all [where s = s and ps = ?ps and ctx = ctx and w = w, OF laws] by blast
  let ?t = "s1\<lparr>st_PendingResolveList := []\<rparr>"
  obtain s' w' where s': "ProcessExpiredRequests k ctx (?t, w1) = Inr (s', w')" "oracle_inv k s'" "ended k ctx ?t s'"
      "st_RequestLastExpired s' = st_RequestCount ?t \<or>
       (\<exists>r. GetRequest s' (Suc (st_RequestLastExpired s')) = Inr r \<and> \<not> due ctx (st_params ?t) r)"
    using expire_from_spec [OF laws s1(2) _ refl refl refl, of ctx w1] by (auto simp: ProcessExpiredRequests_def)
  note E = s'(3) [unfolded ended_def]
  note same = only_resultsD [OF s1(3)] only_results_lookups [OF s1(3)]
  have look: "GetRequest ?t i = GetRequest s i" "HasReport ?t i v = HasReport s i v" "GetResult ?t i = GetResult s1 i"
    "HasResult ?t i = HasResult s1 i" for i v
    using same by (simp_all add: lookups GetResult_def)
  have btw: "between ?t s' i r = between s s' i r" and miss: "missed k ?t i r v = missed k s i r v" for i r v
    using look same by (simp_all add: between_def missed_def)
  have P: "i < 2 ^ 64" "\<not> HasResult s i" if "i \<in> set ?ps" for i using pending_okD(2) [OF oracle_invD(5) [OF inv] that] by auto
  have "statuses_ok k ctx s s'"
    using E same by (simp add: statuses_ok_def btw miss)
  moreover have "results_kept s s'"
    unfolding results_kept_def
  proof (intro allI impI)
    fix i :: nat assume i: "i < 2 ^ 64" "HasResult s i"
    then have "GetResult s1 i = GetResult s i" using s1(4) P(2) by blast
    then show "GetResult s' i = GetResult s i"
      using E i look(3) by (simp add: results_kept_def HasResult_GetResult)
  qed
  moreover have "\<forall>i\<in>set ?ps. resolved_ok ctx s s' i"
  proof
    fix i assume i: "i \<in> set ?ps"
    then have "HasResult s1 i" using s1(5) by (auto simp: resolved_ok_def HasResult_GetResult)
    then have "GetResult s' i = GetResult s1 i" using E P(1) [OF i] look by (simp add: results_kept_def)
    then show "resolved_ok ctx s s' i" using s1(5) i by (simp add: resolved_ok_def)
  qed
  moreover have "due ctx (st_params s) r \<and> (\<not> HasResult s i \<longrightarrow> i \<notin> set ?ps \<longrightarrow>
         (\<exists>n. n < rq_MinCount r \<and> GetResult s' i = Inr (result_of ctx r i n RESOLVE_STATUS_EXPIRED [])))" if "between s s' i r" for i r
  proof -
    have "i < 2 ^ 64" using that requests_okD(1,2) [OF oracle_invD(2) [OF s'(2)]] by (simp add: between_def)
    then have "HasResult ?t i = HasResult s i" if "i \<notin> set ?ps" using s1(4) look(4) that by (simp add: HasResult_GetResult)
    then show ?thesis using E that same unfolding expired_ok_def btw by auto
  qed
  moreover have "oracle_EndBlocker k ctx (s, w) = Inr (s', w')" using s1(1) s'(1) by (simp add: oracle_EndBlocker_def)
  ultimately show ?thesis using s'(2,4) E same by auto
qed

section \<open>Runs of the module\<close>

text \<open>
  One transaction or block of the module: every message first passes its \<open>ValidateBasic\<close>, ids and counts are 64-bit
  numbers, and a new request or script needs a counter that has not reached its last value.
\<close>

inductive oracle_step :: "('w, 'r) oracle_keeper \<Rightarrow> oracle_state \<times> 'w \<Rightarrow> oracle_state \<times> 'w \<Rightarrow> bool" for k where
  step_RequestData: "oracle_step k (s, w) (s', w')"
    if "MsgRequestData_ValidateBasic (ok_sdk k) msg = Inr ()" "spec_AskCount (mrq_spec msg) < 2 ^ 64"
      "st_RequestCount s + 1 < 2 ^ 64 - 1" "RequestData k ctx (s, w) msg = Inr (s', w')"
| step_OnRecvPacket: "oracle_step k (s, w) (s', w')"
    if "\<And>r. data = Inr r \<Longrightarrow> spec_AskCount r < 2 ^ 64"
      "st_RequestCount s + 1 < 2 ^ 64 - 1" "oracle_OnRecvPacket k ctx (s, w) ch data relayer = Inr (rid, s', w')"
| step_ReportData: "oracle_step k (s, w) (s', w)"
    if "MsgReportData_ValidateBasic k msg = Inr ()" "mrd_RequestID msg < 2 ^ 64" "ReportData k s msg = Inr s'"
| step_CreateDataSource: "oracle_step k (s, w) (s', w)"
    if "MsgCreateDataSource_ValidateBasic (ok_sdk k) ds = Inr ()" "CreateDataSource k s ds = Inr s'"
| step_EditDataSource: "oracle_step k (s, w) (s', w)"
    if "MsgEditDataSource_ValidateBasic (ok_sdk k) ds = Inr ()" "EditDataSource k s n ds = Inr s'"
| step_CreateOracleScript: "oracle_step k (s, w) (s', w)"
    if "MsgCreateOracleScript_ValidateBasic (ok_sdk k) x = Inr ()" "st_OracleScriptCount s + 1 < 2 ^ 64 - 1"
      "CreateOracleScript k s x = Inr s'"
| step_EditOracleScript: "oracle_step k (s, w) (s', w)"
    if "MsgEditOracleScript_ValidateBasic (ok_sdk k) x = Inr ()" "EditOracleScript k s n x = Inr s'"
| step_Activate: "oracle_step k (s, w) (s', w)" if "msg_Activate k ctx s v = Inr s'"
| step_UpdateParams: "oracle_step k (s, w) (s', w)" if "oracle_UpdateParams k s authority p = Inr s'"
| step_EndBlocker: "oracle_step k (s, w) (s', w')" if "oracle_EndBlocker k ctx (s, w) = Inr (s', w')"

text \<open>Other modules change the state of the keepers, and feeds and others the validator statuses, between the steps.\<close>

inductive oracle_run :: "('w, 'r) oracle_keeper \<Rightarrow> oracle_state \<times> 'w \<Rightarrow> oracle_state \<times> 'w \<Rightarrow> bool" for k where
  orun_refl: "oracle_run k c c"
| orun_step: "oracle_run k c d \<Longrightarrow> oracle_step k d e \<Longrightarrow> oracle_run k c e"
| orun_other: "oracle_run k c (s, w) \<Longrightarrow> oracle_run k c (s\<lparr>st_status := m\<rparr>, w')"

lemma same_life_results: "same_life s s' \<Longrightarrow> results_kept s s'"
  by (simp add: results_kept_def same_life_lookups)

lemma st_results_kept: "st_results s' = st_results s \<Longrightarrow> results_kept s s'"
  by (simp add: results_kept_def GetResult_def)

lemma request_counts:
  assumes "OracleRequestPacketData_ValidateBasic sdk r = Inr ()"
  shows "1 \<le> spec_MinCount r" and "spec_MinCount r \<le> spec_AskCount r"
  using assms by (auto simp: OracleRequestPacketData_ValidateBasic_def split: if_splits)

lemma oracle_step_inv:
  assumes "oracle_step k c c'" and "oracle_inv k (fst c)" and "val_laws k" and "send_laws k"
  shows "oracle_inv k (fst c') \<and> results_kept (fst c) (fst c')"
  using assms
proof (induction rule: oracle_step.induct)
  case (step_RequestData msg s ctx w s' w')
  then have "1 \<le> spec_MinCount (mrq_spec msg)" "spec_MinCount (mrq_spec msg) \<le> spec_AskCount (mrq_spec msg)"
    using request_counts by (auto simp: MsgRequestData_ValidateBasic_def)
  moreover obtain rid payer where "PrepareRequest k ctx (s, w) (mrq_spec msg) payer None = Inr (rid, s', w')"
    using step_RequestData(4) by (auto simp: RequestData_def)
  ultimately show ?case using PrepareRequest_inv [of k s "mrq_spec msg"] step_RequestData st_results_kept [of s' s] by simp
next
  case (step_OnRecvPacket data s ctx w ch relayer rid s' w')
  then obtain r where r: "data = Inr r" "OracleRequestPacketData_ValidateBasic (ok_sdk k) r = Inr ()"
      "PrepareRequest k ctx (s, w) r relayer (Some ch) = Inr (rid, s', w')"
    by (auto simp: oracle_OnRecvPacket_def)
  then show ?case
    using PrepareRequest_inv [of k s r] request_counts [OF r(2)] step_OnRecvPacket st_results_kept [of s' s] by simp
next
  case (step_ReportData msg s s' w)
  then obtain v r rep where "GetRequest s (mrd_RequestID msg) = Inr r" "\<not> HasReport s (mrd_RequestID msg) v"
      "requested (ok_ValAddressFromBech32 k) v (rq_RequestedValidators r) = Inr True"
      and s': "s' = reported s r (mrd_RequestID msg) v rep"
    using ReportData_eq [of k s msg s'] by auto
  moreover have "asked k r v" using requested_asked [OF calculation(3)] by (simp add: asked_def)
  moreover have "results_kept s s'" by (rule st_results_kept) (simp add: s' reported_def)
  ultimately show ?case using reported_inv [of k s] step_ReportData by simp
next
  case (step_CreateDataSource ds s s' w)
  then show ?case using CreateDataSource_inv [of k s ds s'] same_life_results [of s s'] by simp
next
  case (step_EditDataSource ds s n s' w)
  then show ?case using EditDataSource_inv [of k s n ds s'] same_life_results [of s s'] by simp
next
  case (step_CreateOracleScript x s s' w)
  then show ?case using CreateOracleScript_inv [of k s x s'] same_life_results [of s s'] by simp
next
  case (step_EditOracleScript x s n s' w)
  then show ?case using EditOracleScript_inv [of k s n x s'] same_life_results [of s s'] by simp
next
  case (step_Activate ctx s v s' w)
  then obtain m where "s' = s\<lparr>st_status := m, st_params := st_params s\<rparr>" by (auto simp: msg_Activate_def)
  then show ?case using status_frame [where k = k and s = s and s' = s' and m = m and p = "st_params s"] step_Activate same_life_results [of s s'] by simp
next
  case (step_UpdateParams s authority p s' w)
  then have "s' = s\<lparr>st_status := st_status s, st_params := p\<rparr>"
    by (auto simp: oracle_UpdateParams_def oracle_SetParams_def split: if_splits)
  then show ?case using status_frame [where k = k and s = s and s' = s' and m = "st_status s" and p = p] step_UpdateParams same_life_results [of s s'] by simp
next
  case (step_EndBlocker ctx s w s' w')
  then show ?case using EndBlocker_spec [of k s ctx w] by auto
qed

lemma oracle_run_inv:
  assumes "oracle_run k c c'" and "oracle_inv k (fst c)" and "val_laws k" and "send_laws k"
  shows "oracle_inv k (fst c') \<and> results_kept (fst c) (fst c')"
  using assms
proof (induction rule: oracle_run.induct)
  case (orun_step c d e)
  then have d: "oracle_inv k (fst d)" "results_kept (fst c) (fst d)" by auto
  note e = oracle_step_inv [OF orun_step(2) d(1) orun_step.prems(2,3)]
  have "results_kept (fst c) (fst e)"
    using d(2) e unfolding results_kept_def by (metis HasResult_GetResult)
  then show ?case using e by blast
next
  case (orun_other c s w m w')
  then have "oracle_inv k s" "results_kept (fst c) s" by auto
  moreover have "oracle_inv k (s\<lparr>st_status := m\<rparr>)"
    using status_frame [where k = k and s = s and m = m and p = "st_params s", OF calculation(1) refl] by simp
  moreover have "results_kept (fst c) (s\<lparr>st_status := m\<rparr>)"
    using calculation(2) by (simp add: results_kept_def GetResult_def)
  ultimately show ?case by simp
qed (simp add: results_kept_def)

section \<open>Genesis\<close>

text \<open>The store before genesis, with the files that are on disk.\<close>

definition empty_oracle :: "(bytes, bytes) kv \<Rightarrow> oracle_Params \<Rightarrow> oracle_state" where
  "empty_oracle files p =
     \<lparr>st_requests = [], st_reports = [], st_results = [], st_signing_results = [], st_data_sources = [], st_oracle_scripts = [],
      st_status = [], st_RequestCount = 0, st_RequestLastExpired = 0, st_PendingResolveList = [], st_DataSourceCount = 0,
      st_OracleScriptCount = 0, st_params = p, st_files = files\<rparr>"

definition no_requests :: "(bytes, bytes) kv \<Rightarrow> oracle_state \<Rightarrow> bool" where
  "no_requests files s \<longleftrightarrow> st_requests s = [] \<and> st_reports s = [] \<and> st_results s = [] \<and> st_PendingResolveList s = [] \<and>
     st_RequestCount s = 0 \<and> st_RequestLastExpired s = 0 \<and> st_files s = files"

lemma no_requests_inv:
  assumes "no_requests files s" and "\<forall>f d. kv_get files f = Some d \<longrightarrow> ok_GetFilename k d = f" and "scripts_ok s"
  shows "oracle_inv k s"
  using assms by (auto simp: no_requests_def oracle_inv_def files_ok_def requests_ok_def reports_ok_def results_ok_def pending_ok_def
      lookups)

lemma add_data_sources:
  "no_requests files s \<Longrightarrow> st_oracle_scripts s = [] \<Longrightarrow> st_OracleScriptCount s = 0 \<Longrightarrow>
   s' = foldl (\<lambda>s d. snd (AddDataSource s d)) s ds \<Longrightarrow>
   no_requests files s' \<and> st_oracle_scripts s' = [] \<and> st_OracleScriptCount s' = 0"
  by (induction ds arbitrary: s) (simp_all add: AddDataSource_def GetNextDataSourceID_def SetDataSource_def no_requests_def Let_def)

lemma add_oracle_scripts:
  assumes "no_requests files s" and "scripts_ok s" and "st_OracleScriptCount s + length xs < 2 ^ 64 - 1"
    and "s' = foldl (\<lambda>s x. snd (AddOracleScript s x)) s xs"
  shows "no_requests files s' \<and> scripts_ok s'"
  using assms
proof (induction xs arbitrary: s)
  case (Cons x xs)
  let ?t = "snd (AddOracleScript s x)" and ?n = "st_OracleScriptCount s + 1"
  have t: "?t = SetOracleScript (s\<lparr>st_OracleScriptCount := ?n\<rparr>) ?n x"
    using Cons.prems(3) by (simp add: AddOracleScript_def GetNextOracleScriptID_def Let_def)
  have "no_requests files ?t" using Cons.prems(1) by (simp add: t SetOracleScript_def no_requests_def)
  moreover have "scripts_ok ?t"
    using Cons.prems(2,3) unfolding scripts_ok_def t SetOracleScript_def by (auto simp: kv_keys_set intro: le_SucI)
  moreover have "st_OracleScriptCount ?t + length xs < 2 ^ 64 - 1" using Cons.prems(3) by (simp add: t SetOracleScript_def)
  ultimately show ?case using Cons.IH [of ?t] Cons.prems(4) by simp
qed simp

lemma InitGenesis_inv:
  assumes run: "oracle_InitGenesis (empty_oracle files p) gs = Inr s"
    and files: "\<forall>f d. kv_get files f = Some d \<longrightarrow> ok_GetFilename k d = f"
    and n: "length (ogs_OracleScripts gs) < 2 ^ 64 - 1"
  shows "oracle_inv k s"
proof -
  define s0 where "s0 = (empty_oracle files p)\<lparr>st_params := ogs_Params gs\<rparr>"
  define s1 where "s1 = foldl (\<lambda>s d. snd (AddDataSource s d)) s0 (ogs_DataSources gs)"
  have s: "s = foldl (\<lambda>s x. snd (AddOracleScript s x)) s1 (ogs_OracleScripts gs)"
    using run by (auto simp: oracle_InitGenesis_def oracle_SetParams_def s0_def s1_def empty_oracle_def Let_def split: sum.splits)
  have "no_requests files s0" "st_oracle_scripts s0 = []" "st_OracleScriptCount s0 = 0"
    by (simp_all add: s0_def empty_oracle_def no_requests_def)
  then have s1: "no_requests files s1" "st_oracle_scripts s1 = []" "st_OracleScriptCount s1 = 0"
    using add_data_sources [OF _ _ _ s1_def, of files] by auto
  moreover have "scripts_ok s1" using s1 by (simp add: scripts_ok_def)
  ultimately have "no_requests files s \<and> scripts_ok s" using add_oracle_scripts [OF s1(1) _ _ s] n by simp
  then show ?thesis using no_requests_inv [OF _ files] by blast
qed

end
