(* ===== verification/Oracle_Props.thy ===== *)
theory Oracle_Props
  imports Oracle_Block "HOL-Library.Code_Target_Numeral"
begin

text \<open>
  The module \<open>x/oracle\<close>, last part: a concrete life of a request, evaluated, and the properties of the module.
\<close>

section \<open>A concrete run\<close>

text \<open>
  Two validators, one data source with a fee, one script that asks it and returns one byte. The keeper below is
  an instance of the parameters of the module.
\<close>

definition demo_keeper :: "(plain_balances, unit) oracle_keeper" where
  "demo_keeper = \<lparr>ok_sdk = plain_sdk, ok_bank = plain_bank,
     ok_ValAddressFromBech32 = (\<lambda>s. if s = [] then Inl (Errorf ''bech32'') else Inr s), ok_ValAddress_String = (\<lambda>v. v),
     ok_ConsumeGas = (\<lambda>w _. Inr w), ok_GetCapability = (\<lambda>_ _ _. False), ok_SendPacket = (\<lambda>_ _ _ _ _. Inl (Errorf ''closed'')),
     ok_CreateDirectSigningRequest = (\<lambda>_ _ _ _ _ _. Inl (Errorf ''no group'')), ok_ABCIInfo = (\<lambda>_. ([], 1)),
     ok_new_drbg = (\<lambda>_ _ _. Inr ()), ok_drbg_read = const_read [0, 0, 0, 0, 0, 0, 0, 7],
     ok_vm_Prepare = (\<lambda>_ _. Call (Call_AskExternalData 1 1 []) (\<lambda>_. Halt (Inr 0))),
     ok_vm_Execute = (\<lambda>_ _. Call (Call_SetReturnData [1]) (\<lambda>_. Halt (Inr 0))),
     ok_vm_Compile = (\<lambda>f _. Inr f), ok_GetFilename = (\<lambda>d. d), ok_gunzip = (\<lambda>f _. Inr f), ok_authority = [3]\<rparr>"

definition demo_params :: oracle_Params where
  "demo_params = \<lparr>op_MaxRawRequestCount = 3, op_MaxAskCount = 4, op_MaxCalldataSize = 16, op_MaxReportDataSize = 16,
     op_ExpirationBlockCount = 2, op_BaseOwasmGas = 1, op_PerValidatorRequestGas = 1, op_SamplingTryCount = 1,
     op_OracleRewardPercentage = 1, op_InactivePenaltyDuration = 10, op_IBCRequestEnabled = True\<rparr>"

definition demo_ctx :: oracle_ctx where
  "demo_ctx = \<lparr>oc_BlockTime = 5000000000, oc_BlockHeight = 1, oc_ChainID = [1], oc_RollingSeed = [1],
     oc_IterateBondedValidatorsByPower = Inr [([11], 1), ([12], 2)]\<rparr>"

definition demo_genesis :: oracle_GenesisState where
  "demo_genesis = \<lparr>ogs_Params = demo_params,
     ogs_DataSources = [\<lparr>ds_Owner = [5], ds_Name = [], ds_Description = [], ds_Filename = [7], ds_Treasury = [6], ds_Fee = [([9], 2)]\<rparr>],
     ogs_OracleScripts = [\<lparr>os_Owner = [5], os_Name = [], os_Description = [], os_Filename = [8], os_Schema = [], os_SourceCodeURL = []\<rparr>]\<rparr>"

definition demo_spec :: RequestSpec where
  "demo_spec = \<lparr>spec_OracleScriptID = 1, spec_Calldata = [], spec_AskCount = 2, spec_MinCount = 1, spec_ClientID = [],
     spec_PrepareGas = 1, spec_ExecuteGas = 1, spec_FeeLimit = [([9], 10)], spec_TSSEncoder = ENCODER_PROTO\<rparr>"

definition demo_s0 :: oracle_state where
  "demo_s0 = \<lparr>st_requests = [], st_reports = [], st_results = [], st_signing_results = [],
     st_data_sources = [([3, 0, 0, 0, 0, 0, 0, 0, 1],
       \<lparr>ds_Owner = [5], ds_Name = [], ds_Description = [], ds_Filename = [7], ds_Treasury = [6], ds_Fee = [([9], 2)]\<rparr>)],
     st_oracle_scripts = [([4, 0, 0, 0, 0, 0, 0, 0, 1],
       \<lparr>os_Owner = [5], os_Name = [], os_Description = [], os_Filename = [8], os_Schema = [], os_SourceCodeURL = []\<rparr>)],
     st_status = [], st_RequestCount = 0, st_RequestLastExpired = 0, st_PendingResolveList = [], st_DataSourceCount = 1,
     st_OracleScriptCount = 1, st_params = demo_params, st_files = [([8], [8])]\<rparr>"

lemma demo0: "oracle_InitGenesis (empty_oracle [([8], [8])] demo_params) demo_genesis = Inr demo_s0"
  by code_simp

definition demo_bank :: plain_balances where "demo_bank = [([4], [([9], 100)])]"


definition demo_s1 :: oracle_state where
  "demo_s1 = demo_s0\<lparr>st_status := [([5, 11], \<lparr>vs_IsActive = True, vs_Since = 5000000000\<rparr>)]\<rparr>"

lemma demo1: "msg_Activate demo_keeper demo_ctx demo_s0 [11] = Inr demo_s1"
  by code_simp

definition demo_s2 :: oracle_state where
  "demo_s2 = demo_s1\<lparr>st_status := [([5, 11], \<lparr>vs_IsActive = True, vs_Since = 5000000000\<rparr>),
     ([5, 12], \<lparr>vs_IsActive = True, vs_Since = 5000000000\<rparr>)]\<rparr>"

lemma demo2: "msg_Activate demo_keeper demo_ctx demo_s1 [12] = Inr demo_s2"
  by code_simp

definition demo_request :: Request where
  "demo_request = \<lparr>rq_OracleScriptID = 1, rq_Calldata = [], rq_RequestedValidators = [[12], [11]], rq_MinCount = 1,
     rq_RequestHeight = 1, rq_RequestTime = 5, rq_ClientID = [],
     rq_RawRequests = [\<lparr>raw_ExternalID = 1, raw_DataSourceID = 1, raw_Calldata = []\<rparr>],
     rq_IBCChannel = None, rq_ExecuteGas = 1, rq_TSSEncoder = ENCODER_PROTO, rq_Requester = [4], rq_FeeLimit = [([9], 6)]\<rparr>"

definition demo_s3 :: oracle_state where
  "demo_s3 = demo_s2\<lparr>st_requests := [([1, 0, 0, 0, 0, 0, 0, 0, 1], demo_request)], st_RequestCount := 1\<rparr>"

definition demo_bank2 :: plain_balances where "demo_bank2 = [([4], [([9], 96)]), ([6], [([9], 4)])]"

definition demo_msg :: MsgRequestData where
  "demo_msg = \<lparr>mrq_spec = demo_spec, mrq_Sender = [4]\<rparr>"

lemma demo3: "RequestData demo_keeper demo_ctx (demo_s2, demo_bank) demo_msg = Inr (demo_s3, demo_bank2)"
  by code_simp

definition demo_s4 :: oracle_state where
  "demo_s4 = demo_s3\<lparr>st_reports := [([2, 0, 0, 0, 0, 0, 0, 0, 1, 11],
       \<lparr>rep_Validator = [11], rep_InBeforeResolve = True, rep_RawReports = [\<lparr>rr_ExternalID = 1, rr_ExitCode = 0, rr_Data = [2]\<rparr>]\<rparr>)],
     st_PendingResolveList := [1]\<rparr>"

definition demo_report :: MsgReportData where
  "demo_report = \<lparr>mrd_RequestID = 1, mrd_RawReports = [\<lparr>rr_ExternalID = 1, rr_ExitCode = 0, rr_Data = [2]\<rparr>], mrd_Validator = [11]\<rparr>"

lemma demo4: "ReportData demo_keeper demo_s3 demo_report = Inr demo_s4"
  by code_simp

lemma demo_oracle_laws [simp]: "val_laws demo_keeper" "send_laws demo_keeper" "gas_laws demo_keeper"
  by (auto simp: val_laws_def send_laws_def gas_laws_def demo_keeper_def split: if_splits)

lemma demo_sdk [simp]: "ok_sdk demo_keeper = plain_sdk" "ok_bank demo_keeper = plain_bank"
  "ok_GetFilename demo_keeper d = d" "ok_ValAddress_String demo_keeper v = v"
  "ok_ValAddressFromBech32 demo_keeper x = (if x = [] then Inl (Errorf ''bech32'') else Inr x)"
  by (simp_all add: demo_keeper_def)

lemma demo_valid: "MsgRequestData_ValidateBasic (ok_sdk demo_keeper) demo_msg = Inr ()" "MsgReportData_ValidateBasic demo_keeper demo_report = Inr ()"
  by code_simp+

lemma demo_genesis_inv: "oracle_inv demo_keeper demo_s0"
  by (rule InitGenesis_inv [OF demo0]) (simp_all add: demo_keeper_def kv_get_def demo_genesis_def)

lemma demo_run3: "oracle_run demo_keeper (demo_s0, demo_bank) (demo_s3, demo_bank2)"
proof -
  let ?k = demo_keeper
  have "oracle_run ?k (demo_s0, demo_bank) (demo_s1, demo_bank)"
    by (rule orun_step [OF orun_refl step_Activate [where k = ?k, OF demo1]])
  then have "oracle_run ?k (demo_s0, demo_bank) (demo_s2, demo_bank)"
    by (rule orun_step [OF _ step_Activate [where k = ?k, OF demo2]])
  then show ?thesis
    by (rule orun_step [OF _ step_RequestData [where k = ?k, OF demo_valid(1) _ _ demo3]])
       (simp_all add: demo_msg_def demo_spec_def demo_s2_def demo_s1_def demo_s0_def)
qed

lemma demo_run: "oracle_run demo_keeper (demo_s0, demo_bank) (demo_s4, demo_bank2)"
  by (rule orun_step [OF demo_run3 step_ReportData [where k = demo_keeper, OF demo_valid(2) _ demo4]]) (simp add: demo_report_def)

lemma demo_inv: "oracle_inv demo_keeper demo_s3" "oracle_inv demo_keeper demo_s4"
  using oracle_run_inv [OF demo_run3] oracle_run_inv [OF demo_run] demo_genesis_inv by simp_all

section \<open>Properties\<close>

text \<open>
  C1: from genesis on, every run of the module (requests by message or IBC packet, reports, data sources, oracle scripts,
  activations, parameter updates, ends of blocks, with other modules acting in between) keeps the invariant of the
  store: requests are stored exactly between the last expired id and the count; every report belongs to a stored
  request and comes from a validator it asked; every expired request has a result and no future one has;
  the pending list has exactly the unresolved requests with enough reports, each once; and the script of
  every stored request exists with its compiled file.
\<close>

theorem oracle_invariant:
  assumes "oracle_InitGenesis (empty_oracle files p) gs = Inr s0" and "\<forall>f d. kv_get files f = Some d \<longrightarrow> ok_GetFilename k d = f"
    and "length (ogs_OracleScripts gs) < 2 ^ 64 - 1" and "val_laws k" and "send_laws k" and "oracle_run k (s0, w0) (s, w)"
  shows "oracle_inv k s"
  using oracle_run_inv [OF assms(6)] InitGenesis_inv [OF assms(1-3)] assms(4,5) by simp

theorem oracle_invariant_witness: "oracle_inv demo_keeper demo_s4 \<and> st_PendingResolveList demo_s4 = [1]"
proof
  show "oracle_inv demo_keeper demo_s4"
    by (rule oracle_invariant [OF demo0 _ _ _ _ demo_run]) (simp_all add: kv_get_def demo_genesis_def)
qed (simp add: demo_s4_def)

text \<open>
  C20: a result is final: once stored it is never changed or removed by any later run of the module, so no request is resolved twice.
\<close>

theorem oracle_results_final:
  assumes "oracle_inv k s" and "val_laws k" and "send_laws k" and "oracle_run k (s, w) (s', w')"
    and "i < 2 ^ 64" and "GetResult s i = Inr res"
  shows "GetResult s' i = Inr res"
  using oracle_run_inv [OF assms(4)] assms by (simp add: results_kept_def HasResult_GetResult)

text \<open>
  C7: the end of a block never panics. Every pending request gets its result, success or failure, with the number of its reports; the
  requests that are due, from the oldest on and no other, are removed, and one without a result is resolved as expired with fewer reports than its
  \<open>MinCount\<close>; the pending list is empty afterwards, no earlier result changes, and the validators deactivated are exactly the
  active ones that were asked by a removed request made after their activation and did not report to it.
\<close>

theorem oracle_EndBlocker_correct:
  assumes "oracle_inv k s" and "send_laws k"
  shows "\<exists>s' w'. oracle_EndBlocker k ctx (s, w) = Inr (s', w') \<and> oracle_inv k s' \<and> st_PendingResolveList s' = [] \<and>
    (\<forall>i\<in>set (st_PendingResolveList s). resolved_ok ctx s s' i) \<and> results_kept s s' \<and>
    (\<forall>i r. between s s' i r \<longrightarrow> due ctx (st_params s) r \<and>
       (\<not> HasResult s i \<longrightarrow> i \<notin> set (st_PendingResolveList s) \<longrightarrow>
         (\<exists>n. n < rq_MinCount r \<and> GetResult s' i = Inr (result_of ctx r i n RESOLVE_STATUS_EXPIRED [])))) \<and>
    statuses_ok k ctx s s' \<and>
    (st_RequestLastExpired s' = st_RequestCount s' \<or>
      (\<exists>r. GetRequest s' (Suc (st_RequestLastExpired s')) = Inr r \<and> \<not> due ctx (st_params s) r))"
proof -
  obtain s' w' where "oracle_EndBlocker k ctx (s, w) = Inr (s', w') \<and> oracle_inv k s' \<and> st_PendingResolveList s' = [] \<and>
    (\<forall>i\<in>set (st_PendingResolveList s). resolved_ok ctx s s' i) \<and> results_kept s s' \<and>
    (\<forall>i r. between s s' i r \<longrightarrow> due ctx (st_params s) r \<and>
       (\<not> HasResult s i \<longrightarrow> i \<notin> set (st_PendingResolveList s) \<longrightarrow>
         (\<exists>n. n < rq_MinCount r \<and> GetResult s' i = Inr (result_of ctx r i n RESOLVE_STATUS_EXPIRED [])))) \<and>
    statuses_ok k ctx s s' \<and> st_RequestCount s' = st_RequestCount s \<and> st_RequestLastExpired s \<le> st_RequestLastExpired s' \<and>
    (st_RequestLastExpired s' = st_RequestCount s \<or>
      (\<exists>r. GetRequest s' (Suc (st_RequestLastExpired s')) = Inr r \<and> \<not> due ctx (st_params s) r))"
    using EndBlocker_spec [OF assms, of ctx w] by blast
  then show ?thesis by (intro exI [of _ s'] exI [of _ w']) simp
qed

theorem oracle_EndBlocker_correct_witness:
  "\<exists>s' w'. oracle_EndBlocker demo_keeper demo_ctx (demo_s4, demo_bank2) = Inr (s', w') \<and> resolved_ok demo_ctx demo_s4 s' 1"
  using oracle_EndBlocker_correct [OF demo_inv(2) demo_oracle_laws(2), of demo_ctx demo_bank2] by (force simp: demo_s4_def)

text \<open>
  C19: a report is accepted exactly when its data fits, the request is stored and not expired, the validator was asked and has not
  reported, and the external ids match those of the request. It is then stored with the mark whether it came before the
  result, and the request becomes pending exactly when this report makes the number of reports reach \<open>MinCount\<close>.
\<close>

theorem ReportData_correct:
  assumes "oracle_inv k s" and "val_laws k" and "mrd_RequestID msg < 2 ^ 64"
    and "\<forall>r. GetRequest s (mrd_RequestID msg) = Inr r \<longrightarrow> (\<forall>x\<in>set (rq_RequestedValidators r). is_ok (ok_ValAddressFromBech32 k x))"
  shows "ReportData k s msg = Inr s' \<longleftrightarrow>
    (\<exists>v r. ok_ValAddressFromBech32 k (mrd_Validator msg) = Inr v \<and> GetRequest s (mrd_RequestID msg) = Inr r \<and>
       asked k r v \<and> \<not> HasReport s (mrd_RequestID msg) v \<and> st_RequestLastExpired s < mrd_RequestID msg \<and>
       (\<forall>x\<in>set (mrd_RawReports msg). int (length (rr_Data x)) \<le> i64 (int (op_MaxReportDataSize (st_params s)))) \<and>
       length (mrd_RawReports msg) = length (rq_RawRequests r) \<and>
       (\<forall>x\<in>set (mrd_RawReports msg). ContainsEID (rq_RawRequests r) (rr_ExternalID x)) \<and>
       s' = s\<lparr>st_reports := kv_set (st_reports s) (ReportsOfValidatorPrefixKey (mrd_RequestID msg) v)
                \<lparr>rep_Validator = ok_ValAddress_String k v, rep_InBeforeResolve = (\<not> HasResult s (mrd_RequestID msg)), rep_RawReports = mrd_RawReports msg\<rparr>,
              st_PendingResolveList := st_PendingResolveList s @
                (if \<not> HasResult s (mrd_RequestID msg) \<and> Suc (nreports s (mrd_RequestID msg)) = rq_MinCount r then [mrd_RequestID msg] else [])\<rparr>)"
    (is "?L = (\<exists>v r. ?R v r)")
proof -
  have req: "requested (ok_ValAddressFromBech32 k) v (rq_RequestedValidators r) = Inr True \<longleftrightarrow> asked k r v"
    if "GetRequest s (mrd_RequestID msg) = Inr r" for v r
    using requested_iff [of "rq_RequestedValidators r" "ok_ValAddressFromBech32 k" v] assms(4) that by (simp add: asked_def)
  have forward: "\<exists>v r. ok_ValAddressFromBech32 k (mrd_Validator msg) = Inr v \<and> GetRequest s (mrd_RequestID msg) = Inr r \<and>
      (t = s' \<longrightarrow> ?R v r) \<and> t = reported s r (mrd_RequestID msg) v \<lparr>rep_Validator = ok_ValAddress_String k v,
         rep_InBeforeResolve = (\<not> HasResult s (mrd_RequestID msg)), rep_RawReports = mrd_RawReports msg\<rparr>"
    if "ReportData k s msg = Inr t" for t
    using ReportData_eq [OF assms(1-3) that] req by (auto simp: reported_def)
  show ?thesis
  proof
    show "\<exists>v r. ?R v r" if ?L using forward [OF that] by blast
    assume "\<exists>v r. ?R v r"
    then obtain v r where vr: "?R v r" by blast
    then obtain t where t: "ReportData k s msg = Inr t" using ReportData_ok [of s msg r k v] req by auto
    then have "t = s'" using forward [OF t] vr by (auto simp: reported_def)
    then show ?L using t by simp
  qed
qed

theorem ReportData_correct_witness:
  "ReportData demo_keeper demo_s3 demo_report = Inr demo_s4 \<and> (\<exists>v. asked demo_keeper demo_request v \<and> \<not> HasReport demo_s3 1 v)"
proof -
  have get: "GetRequest demo_s3 (mrd_RequestID demo_report) = Inr demo_request" by code_simp
  have rid: "mrd_RequestID demo_report < 2 ^ 64" by (simp add: demo_report_def)
  have ok: "\<forall>r. GetRequest demo_s3 (mrd_RequestID demo_report) = Inr r \<longrightarrow>
      (\<forall>x\<in>set (rq_RequestedValidators r). is_ok (ok_ValAddressFromBech32 demo_keeper x))"
    using get by (auto simp: demo_request_def)
  have "\<exists>v r. GetRequest demo_s3 (mrd_RequestID demo_report) = Inr r \<and> asked demo_keeper r v \<and> \<not> HasReport demo_s3 (mrd_RequestID demo_report) v"
    using ReportData_correct [OF demo_inv(1) demo_oracle_laws(1) rid ok, THEN iffD1, OF demo4] by blast
  then show ?thesis using get demo4 by (auto simp: demo_report_def)
qed

text \<open>
  C18: a request that \<open>PrepareRequest\<close> accepts gets the next id and is stored under it, with nothing else of the store
  changed; as many validators as \<open>AskCount\<close> are asked, the script made at least one and at most \<open>MaxRawRequestCount\<close> raw requests, of
  distinct external ids and calldata within \<open>MaxCalldataSize\<close>. The payer is charged \<open>AskCount\<close> times the fee
  of every data source used, never more than the fee limit; each treasury receives exactly its part, the fee limit
  left in the request is what remains, and no other balance changes.
\<close>

theorem PrepareRequest_correct:
  assumes laws: "coin_laws (ok_sdk k)" "coin_list_laws (ok_sdk k)" "bank_laws (ok_sdk k) (ok_bank k)" "gas_laws k"
    and valid: "valid_fees (ok_sdk k) s" "Coins_IsValid (ok_sdk k) (spec_FeeLimit r)"
    and ask: "0 < spec_AskCount r" "spec_AskCount r < 2 ^ 64" and room: "st_RequestCount s + 1 < 2 ^ 64"
    and run: "PrepareRequest k ctx (s, w) r payer ch = Inr (rid, s', w')"
  shows "\<exists>req. rid = st_RequestCount s + 1 \<and> s' = SetRequest (s\<lparr>st_RequestCount := rid\<rparr>) rid req \<and>
    length (rq_RequestedValidators req) = spec_AskCount r \<and> spec_AskCount r \<le> op_MaxAskCount (st_params s) \<and>
    rq_MinCount req = spec_MinCount r \<and>
    rq_RawRequests req \<noteq> [] \<and> distinct (map raw_ExternalID (rq_RawRequests req)) \<and>
    length (rq_RawRequests req) \<le> op_MaxRawRequestCount (st_params s) \<and>
    (\<forall>q\<in>set (rq_RawRequests req). length (raw_Calldata q) \<le> op_MaxCalldataSize (st_params s)) \<and>
    (\<forall>d. fee_total (ok_sdk k) s (spec_AskCount r) d (rq_RawRequests req) \<le> Coins_AmountOf (ok_sdk k) (spec_FeeLimit r) d \<and>
       Coins_AmountOf (ok_sdk k) (rq_FeeLimit req) d =
         Coins_AmountOf (ok_sdk k) (spec_FeeLimit r) d - fee_total (ok_sdk k) s (spec_AskCount r) d (rq_RawRequests req)) \<and>
    (\<forall>a d. Coins_AmountOf (ok_sdk k) (GetAllBalances (ok_bank k) w' a) d =
       Coins_AmountOf (ok_sdk k) (GetAllBalances (ok_bank k) w a) d
       - (if a = payer then fee_total (ok_sdk k) s (spec_AskCount r) d (rq_RawRequests req) else 0)
       + fee_income (ok_sdk k) s (spec_AskCount r) a d (rq_RawRequests req))"
  using run ask(2) room
proof (rule PrepareRequest_spec)
  fix vals raw limit
  let ?req = "prepared k ctx r vals ch payer raw limit"
  assume A: "rid = st_RequestCount s + 1" "s' = SetRequest (s\<lparr>st_RequestCount := rid\<rparr>) rid ?req"
    "length vals = spec_AskCount r" and n: "spec_AskCount r < 2 ^ 63" and B: "spec_AskCount r \<le> op_MaxAskCount (st_params s)"
    "raw \<noteq> []" "distinct (map raw_ExternalID raw)" "length raw \<le> op_MaxRawRequestCount (st_params s)"
    "\<forall>q\<in>set raw. length (raw_Calldata q) \<le> op_MaxCalldataSize (st_params s)"
    and "\<exists>fees w2 w3. CollectFee k s w2 payer (spec_FeeLimit r) (spec_AskCount r) raw = Inr (fees, w3) \<and>
           Coins_Sub (ok_sdk k) (spec_FeeLimit r) fees = Inr limit \<and>
           (gas_laws k \<longrightarrow> GetAllBalances (ok_bank k) w2 = GetAllBalances (ok_bank k) w \<and>
              GetAllBalances (ok_bank k) w' = GetAllBalances (ok_bank k) w3)"
  then obtain fees w2 w3 where fee: "CollectFee k s w2 payer (spec_FeeLimit r) (spec_AskCount r) raw = Inr (fees, w3)"
    and sub: "Coins_Sub (ok_sdk k) (spec_FeeLimit r) fees = Inr limit"
    and bal: "GetAllBalances (ok_bank k) w2 = GetAllBalances (ok_bank k) w" "GetAllBalances (ok_bank k) w' = GetAllBalances (ok_bank k) w3"
    using laws(4) by blast
  note c = CollectFee_spec [OF laws(1-3) valid ask(1) n fee]
  have left: "Coins_AmountOf (ok_sdk k) limit d = Coins_AmountOf (ok_sdk k) (spec_FeeLimit r) d - fee_total (ok_sdk k) s (spec_AskCount r) d raw" for d
    using sub coin_laws_SafeSub(1) [OF laws(1) valid(2) c(1)] c(2) by (auto simp: Coins_Sub_def split: prod.splits if_splits)
  show ?thesis
    by (rule exI [of _ ?req]) (use A B c left bal in \<open>simp add: prepared_def NewRequest_def\<close>)
qed

theorem PrepareRequest_correct_witness:
  "\<exists>req. GetRequest demo_s3 1 = Inr req \<and> length (rq_RequestedValidators req) = 2 \<and>
     Coins_AmountOf plain_sdk (rq_FeeLimit req) [9] = 10 - fee_total plain_sdk demo_s2 2 [9] (rq_RawRequests req)"
proof -
  have run: "PrepareRequest demo_keeper demo_ctx (demo_s2, demo_bank) demo_spec [4] None = Inr (1, demo_s3, demo_bank2)"
    by code_simp
  have "valid_fees (ok_sdk demo_keeper) demo_s2" "Coins_IsValid (ok_sdk demo_keeper) (spec_FeeLimit demo_spec)"
    by code_simp+
  then obtain req where req: "demo_s3 = SetRequest (demo_s2\<lparr>st_RequestCount := 1\<rparr>) 1 req"
      "length (rq_RequestedValidators req) = spec_AskCount demo_spec"
      "Coins_AmountOf (ok_sdk demo_keeper) (rq_FeeLimit req) [9] =
         Coins_AmountOf (ok_sdk demo_keeper) (spec_FeeLimit demo_spec) [9] - fee_total (ok_sdk demo_keeper) demo_s2 (spec_AskCount demo_spec) [9] (rq_RawRequests req)"
    using PrepareRequest_correct [OF _ _ _ demo_oracle_laws(3) _ _ _ _ _ run] by (force simp: demo_spec_def demo_s2_def demo_s1_def demo_s0_def)
  moreover have "GetRequest demo_s3 1 = Inr req" by (simp add: req(1) GetRequest_def SetRequest_def)
  ultimately show ?thesis by (auto simp: demo_spec_def plain_AmountOf_def kv_get_def)
qed

theorem oracle_results_final_witness:
  "\<exists>s w res. oracle_run demo_keeper (demo_s4, demo_bank2) (s, w) \<and> GetResult s 1 = Inr res"
proof -
  obtain s w where run: "oracle_EndBlocker demo_keeper demo_ctx (demo_s4, demo_bank2) = Inr (s, w)"
    and res: "resolved_ok demo_ctx demo_s4 s 1" and inv: "oracle_inv demo_keeper s"
    using EndBlocker_spec [OF demo_inv(2) demo_oracle_laws(2), of demo_ctx demo_bank2] by (force simp: demo_s4_def)
  obtain x where x: "GetResult s 1 = Inr x" using res by (auto simp: resolved_ok_def)
  have step: "oracle_run demo_keeper (s, w) (s\<lparr>st_status := []\<rparr>, w)" by (rule orun_other [OF orun_refl])
  have "GetResult (s\<lparr>st_status := []\<rparr>) 1 = Inr x"
    by (rule oracle_results_final [OF inv demo_oracle_laws(1,2) step _ x]) simp
  moreover have "oracle_run demo_keeper (demo_s4, demo_bank2) (s\<lparr>st_status := []\<rparr>, w)"
    by (rule orun_other [OF orun_step [OF orun_refl step_EndBlocker [where k = demo_keeper, OF run]]])
  ultimately show ?thesis by blast
qed

text \<open>
  With enough active validators, of positive tokens whose sum fits 64 bits, \<open>GetRandomValidators\<close> returns exactly the number of validators
  asked for, all different, and each of them is bonded and active.
\<close>

theorem GetRandomValidators_correct:
  assumes "oc_IterateBondedValidatorsByPower ctx = Inr vals" and "\<forall>(op, t)\<in>set vals. 0 < t"
    and "sum_list (map (nat \<circ> snd) vals) < 2 ^ 64"
    and "distinct (map (ok_ValAddressFromBech32 k) (map fst vals))"
    and "drbg_total (ok_drbg_read k)" and "is_ok (NewRng (ok_new_drbg k) (oc_RollingSeed ctx) (be_bytes 8 rid) (oc_ChainID ctx))"
    and "1 \<le> cnt" and "cnt \<le> int (length (actives k s vals))" and "1 \<le> i64 (int (op_SamplingTryCount (st_params s)))"
  shows "\<exists>chosen. GetRandomValidators k ctx s cnt rid = Inr chosen \<and> int (length chosen) = cnt \<and> distinct chosen \<and>
    (\<forall>v\<in>set chosen. vs_IsActive (GetValidatorStatus (st_status s) v) \<and>
       (\<exists>op t. (op, t) \<in> set vals \<and> ok_ValAddressFromBech32 k op = Inr v))"
proof -
  let ?ops = "actives k s vals"
  let ?ws = "map snd ?ops"
  have bound: "nat t < 2 ^ 64" if "(op, t) \<in> set vals" for op t
  proof -
    have "nat t \<in> set (map (nat \<circ> snd) vals)" using that by force
    then show ?thesis using member_le_sum_list assms(3) by fastforce
  qed
  then have "\<forall>(op, t)\<in>set vals. 0 \<le> t \<and> t < 2 ^ 64" using assms(2) by fastforce
  then have ops: "active_operators k ctx s = Inr ?ops" by (rule active_operators_eq [OF assms(1)])
  obtain g where g: "NewRng (ok_new_drbg k) (oc_RollingSeed ctx) (be_bytes 8 rid) (oc_ChainID ctx) = Inr g"
    using assms(6) by (auto simp: is_ok_iff)
  have pos: "\<forall>w\<in>set ?ws. 0 < w"
  proof
    fix w assume "w \<in> set ?ws"
    then obtain e where "e \<in> set ?ops" "w = snd e" by auto
    then show "0 < w" using actives_mem [of e k s vals] assms(2) by auto
  qed
  have ws: "?ws = map (nat \<circ> snd) (filter (\<lambda>(op, t). is_ok (ok_ValAddressFromBech32 k op) \<and>
        vs_IsActive (GetValidatorStatus (st_status s) (projr (ok_ValAddressFromBech32 k op)))) vals)"
    by (simp add: actives_def split_beta comp_def)
  have sum: "sum_list ?ws < 2 ^ 64" unfolding ws by (rule le_less_trans [OF sum_filter_le assms(3)])
  obtain js r' where js: "ChooseSomeMaxWeight (ok_drbg_read k) g ?ws cnt (i64 (int (op_SamplingTryCount (st_params s)))) = Inr (js, r')"
    and len: "length js = nat cnt" and dist: "distinct js" and lt: "\<forall>j\<in>set js. j < length ?ws"
    using ChooseSomeMaxWeight_best [OF assms(5,7) _ pos sum assms(9), of g] assms(8) by auto
  let ?chosen = "map ((!) (map fst ?ops)) js"
  have nth: "map (\<lambda>idx. fst (?ops ! idx)) js = ?chosen" using lt by (auto intro: nth_map [symmetric])
  then have run: "GetRandomValidators k ctx s cnt rid = Inr ?chosen"
    using assms(7,8) len by (simp add: GetRandomValidators_def ops g js)
  have d: "distinct ?chosen" using distinct_nth_map [OF actives_distinct [OF assms(4)] dist] lt by simp
  have mem: "vs_IsActive (GetValidatorStatus (st_status s) v) \<and> (\<exists>op t. (op, t) \<in> set vals \<and> ok_ValAddressFromBech32 k op = Inr v)"
    if v: "v \<in> set ?chosen" for v
  proof -
    obtain j where "j < length ?ops" "v = fst (?ops ! j)" using v lt by auto
    then show ?thesis using actives_mem [OF nth_mem, of j k s vals] by auto
  qed
  have "int (length ?chosen) = cnt" using len assms(7) by simp
  then show ?thesis using run d mem by blast
qed

theorem GetRandomValidators_correct_witness:
  "\<exists>chosen. GetRandomValidators demo_keeper demo_ctx demo_s2 2 1 = Inr chosen \<and> int (length chosen) = 2 \<and> distinct chosen \<and>
    (\<forall>v\<in>set chosen. vs_IsActive (GetValidatorStatus (st_status demo_s2) v) \<and>
       (\<exists>op t. (op, t) \<in> set [([11], 1), ([12], 2 :: int)] \<and> ok_ValAddressFromBech32 demo_keeper op = Inr v))"
proof (rule GetRandomValidators_correct)
  show "drbg_total (ok_drbg_read demo_keeper)" by (simp add: demo_keeper_def drbg_total_const_read)
  show "2 \<le> int (length (actives demo_keeper demo_s2 [([11], 1), ([12], 2)]))" by code_simp
  show "1 \<le> i64 (int (op_SamplingTryCount (st_params demo_s2)))" by code_simp
  show "is_ok (NewRng (ok_new_drbg demo_keeper) (oc_RollingSeed demo_ctx) (be_bytes 8 1) (oc_ChainID demo_ctx))"
    by (simp add: demo_keeper_def NewRng_def)
qed (simp_all add: demo_ctx_def)

end
