(* ===== verification/Tunnel_Data.thy ===== *)
theory Tunnel_Data
  imports Feeds_Price
begin

text \<open>
  The module \<open>x/tunnel\<close>, first part: its types, store keys, parameters and the validation of its
  messages (\<open>types/\<close>). A tunnel sends the prices of its signals to another chain over a route,
  a signature of the \<open>x/bandtss\<close> group or an IBC channel; anyone may deposit to a tunnel, and a
  tunnel is active only while its deposits reach a minimum.
\<close>

section \<open>Errors\<close>

definition ErrInvalidGenesis :: error where "ErrInvalidGenesis = Registered ''tunnel'' 2"
definition ErrMaxSignalsExceeded :: error where "ErrMaxSignalsExceeded = Registered ''tunnel'' 3"
definition ErrIntervalOutOfRange :: error where "ErrIntervalOutOfRange = Registered ''tunnel'' 4"
definition ErrDeviationOutOfRange :: error where "ErrDeviationOutOfRange = Registered ''tunnel'' 5"
definition ErrTunnelNotFound :: error where "ErrTunnelNotFound = Registered ''tunnel'' 6"
definition ErrLatestPricesNotFound :: error where "ErrLatestPricesNotFound = Registered ''tunnel'' 7"
definition ErrPacketNotFound :: error where "ErrPacketNotFound = Registered ''tunnel'' 8"
definition ErrInvalidTunnelCreator :: error where "ErrInvalidTunnelCreator = Registered ''tunnel'' 10"
definition ErrAccountAlreadyExist :: error where "ErrAccountAlreadyExist = Registered ''tunnel'' 11"
definition ErrInvalidRoute :: error where "ErrInvalidRoute = Registered ''tunnel'' 12"
definition ErrInactiveTunnel :: error where "ErrInactiveTunnel = Registered ''tunnel'' 13"
definition ErrAlreadyActive :: error where "ErrAlreadyActive = Registered ''tunnel'' 14"
definition ErrAlreadyInactive :: error where "ErrAlreadyInactive = Registered ''tunnel'' 15"
definition ErrInvalidDepositDenom :: error where "ErrInvalidDepositDenom = Registered ''tunnel'' 16"
definition ErrDepositNotFound :: error where "ErrDepositNotFound = Registered ''tunnel'' 17"
definition ErrInsufficientDeposit :: error where "ErrInsufficientDeposit = Registered ''tunnel'' 18"
definition ErrInsufficientFund :: error where "ErrInsufficientFund = Registered ''tunnel'' 19"
definition ErrInvalidVersion :: error where "ErrInvalidVersion = Registered ''tunnel'' 21"
definition ErrChannelCapabilityNotFound :: error where "ErrChannelCapabilityNotFound = Registered ''tunnel'' 22"
definition ErrMaxTunnelChannels :: error where "ErrMaxTunnelChannels = Registered ''tunnel'' 23"
definition tunnel_ErrInvalidEncoder :: error where "tunnel_ErrInvalidEncoder = Registered ''tunnel'' 24"
definition ErrSendPacketPanic :: error where "ErrSendPacketPanic = Registered ''tunnel'' 25"
definition ErrInvalidChannelID :: error where "ErrInvalidChannelID = Registered ''tunnel'' 26"
definition ErrInvalidPortID :: error where "ErrInvalidPortID = Registered ''tunnel'' 27"

definition sdk_ErrInvalidType :: error where
  "sdk_ErrInvalidType = Errorf ''sdk: invalid type''"

definition sdk_ErrUnknownRequest :: error where
  "sdk_ErrUnknownRequest = Errorf ''sdk: unknown request''"

definition channel_ErrInvalidChannelOrdering :: error where
  "channel_ErrInvalidChannelOrdering = Errorf ''channel: invalid channel ordering''"

section \<open>Types\<close>

text \<open>The two implementations of \<open>RouteI\<close> and of \<open>PacketReceiptI\<close>.\<close>

datatype RouteI = TSSRoute bytes bytes Encoder | IBCRoute bytes

datatype PacketReceiptI = TSSPacketReceipt uint64 | IBCPacketReceipt uint64

text \<open>
  A route is kept as a protobuf \<open>Any\<close>: a nil pointer, a packed route, or a value of another
  type, known by its type URL.
\<close>

datatype route_any = NilAny | AnyRoute RouteI | AnyOther bytes

fun TypeUrl :: "route_any \<Rightarrow> bytes result" where
  "TypeUrl NilAny = Inl (Panic ''nil pointer dereference'')"
| "TypeUrl (AnyRoute (TSSRoute _ _ _)) = Inr (str ''/band.tunnel.v1beta1.TSSRoute'')"
| "TypeUrl (AnyRoute (IBCRoute _)) = Inr (str ''/band.tunnel.v1beta1.IBCRoute'')"
| "TypeUrl (AnyOther url) = Inr url"

fun GetRouteValue :: "route_any \<Rightarrow> RouteI result" where
  "GetRouteValue NilAny = Inl (Panic ''nil pointer dereference'')"
| "GetRouteValue (AnyRoute r) = Inr r"
| "GetRouteValue (AnyOther _) = Inl sdk_ErrInvalidType"

record SignalDeviation =
  sd_SignalID :: bytes
  sd_SoftDeviationBPS :: uint64
  sd_HardDeviationBPS :: uint64

record Tunnel =
  tun_ID :: uint64
  tun_Sequence :: uint64
  tun_Route :: route_any
  tun_FeePayer :: bytes
  tun_SignalDeviations :: "SignalDeviation list"
  tun_Interval :: uint64
  tun_TotalDeposit :: coins
  tun_IsActive :: bool
  tun_CreatedAt :: int64
  tun_Creator :: bytes

record LatestPrices =
  lp_TunnelID :: uint64
  lp_Prices :: "Price list"
  lp_LastInterval :: int64

record Packet =
  pkt_TunnelID :: uint64
  pkt_Sequence :: uint64
  pkt_Prices :: "Price list"
  pkt_Receipt :: "PacketReceiptI option"
  pkt_BaseFee :: coins
  pkt_RouteFee :: coins
  pkt_CreatedAt :: int64

record Deposit =
  dep_TunnelID :: uint64
  dep_Depositor :: bytes
  dep_Amount :: coins

record TotalFees =
  tf_TotalBasePacketFee :: coins

definition TotalFees_Total :: "TotalFees \<Rightarrow> coins" where
  "TotalFees_Total tf = tf_TotalBasePacketFee tf"

definition TotalFees_Validate :: "sdk \<Rightarrow> TotalFees \<Rightarrow> unit result" where
  "TotalFees_Validate sdk tf =
     (if \<not> Coins_IsValid sdk (tf_TotalBasePacketFee tf) then Inl (Errorf ''invalid total packet fee'') else Inr ())"

definition GetSignalDeviationMap :: "Tunnel \<Rightarrow> (bytes, SignalDeviation) kv" where
  "GetSignalDeviationMap t = foldl (\<lambda>m sd. kv_set m (sd_SignalID sd) sd) [] (tun_SignalDeviations t)"

definition GetSignalIDs :: "Tunnel \<Rightarrow> bytes list" where
  "GetSignalIDs t = map sd_SignalID (tun_SignalDeviations t)"

text \<open>
  \<open>UpdatePrices\<close> replaces the price of a signal in place and appends the price of a new one,
  finding places through a map from signal ids to indexes.
\<close>

definition prices_index :: "Price list \<Rightarrow> (bytes, nat) kv" where
  "prices_index ps = foldl (\<lambda>m (i, p). kv_set m (price_SignalID p) i) [] (enumerate 0 ps)"

definition update_price :: "Price list \<times> (bytes, nat) kv \<Rightarrow> Price \<Rightarrow> Price list \<times> (bytes, nat) kv" where
  "update_price st p =
     (let (ps, m) = st in
      case kv_get m (price_SignalID p) of
        Some i \<Rightarrow> (ps[i := p], m)
      | None \<Rightarrow> (ps @ [p], kv_set m (price_SignalID p) (length (ps @ [p]) - 1)))"

definition UpdatePrices :: "LatestPrices \<Rightarrow> Price list \<Rightarrow> LatestPrices" where
  "UpdatePrices l newPrices =
     l\<lparr>lp_Prices := fst (foldl update_price (lp_Prices l, prices_index (lp_Prices l)) newPrices)\<rparr>"

section \<open>Parameters\<close>

record tunnel_Params =
  tp_MinDeposit :: coins
  tp_MinInterval :: uint64
  tp_MaxInterval :: uint64
  tp_MinDeviationBPS :: uint64
  tp_MaxDeviationBPS :: uint64
  tp_MaxSignals :: uint64
  tp_BasePacketFee :: coins

definition tunnel_validateUint64 :: "bool \<Rightarrow> uint64 \<Rightarrow> unit result" where
  "tunnel_validateUint64 positiveOnly v =
     (if v \<le> 0 \<and> positiveOnly then Inl (Errorf ''must be positive'') else Inr ())"

definition tunnel_Params_Validate :: "sdk \<Rightarrow> tunnel_Params \<Rightarrow> unit result" where
  "tunnel_Params_Validate sdk p =
     (if \<not> Coins_IsValid sdk (tp_MinDeposit p) then Inl (Errorf ''invalid minimum deposit'')
      else
        bindE (tunnel_validateUint64 True (tp_MinInterval p)) (\<lambda>_.
        bindE (tunnel_validateUint64 True (tp_MaxInterval p)) (\<lambda>_.
        if tp_MaxInterval p < tp_MinInterval p then Inl (Errorf ''max interval must be greater than or equal to min interval'')
        else
          bindE (tunnel_validateUint64 True (tp_MinDeviationBPS p)) (\<lambda>_.
          bindE (tunnel_validateUint64 True (tp_MaxDeviationBPS p)) (\<lambda>_.
          if tp_MaxDeviationBPS p < tp_MinDeviationBPS p
          then Inl (Errorf ''max deviation bps must be greater than or equal to min deviation bps'')
          else
            bindE (tunnel_validateUint64 True (tp_MaxSignals p)) (\<lambda>_.
            if \<not> Coins_IsValid sdk (tp_BasePacketFee p) then Inl (Errorf ''invalid base packet fee'') else Inr ()))))))"

text \<open>\<open>int(maxSignals)\<close> converts to a signed integer.\<close>

definition ValidateSignalDeviations :: "SignalDeviation list \<Rightarrow> uint64 \<Rightarrow> uint64 \<Rightarrow> uint64 \<Rightarrow> unit result" where
  "ValidateSignalDeviations sds maxSignals maxDeviationBPS minDeviationBPS =
     (if int (length sds) > i64 (int maxSignals) then Inl ErrMaxSignalsExceeded
      else foldE (\<lambda>_ sd.
        if sd_HardDeviationBPS sd < minDeviationBPS \<or> sd_SoftDeviationBPS sd < minDeviationBPS \<or>
           sd_HardDeviationBPS sd > maxDeviationBPS \<or> sd_SoftDeviationBPS sd > maxDeviationBPS
        then Inl ErrDeviationOutOfRange else Inr ()) () sds)"

definition ValidateInterval :: "uint64 \<Rightarrow> uint64 \<Rightarrow> uint64 \<Rightarrow> unit result" where
  "ValidateInterval interval maxInterval minInterval =
     (if interval < minInterval \<or> interval > maxInterval then Inl ErrIntervalOutOfRange else Inr ())"

section \<open>Routes\<close>

text \<open>The format check \<open>IsChannelIDFormat\<close> is that of \<open>ibc-go\<close>.\<close>

fun RouteI_ValidateBasic :: "(bytes \<Rightarrow> bool) \<Rightarrow> RouteI \<Rightarrow> unit result" where
  "RouteI_ValidateBasic IsChannelIDFormat (TSSRoute chain contract encoder) =
     (if chain = [] then Inl ErrInvalidRoute
      else if contract = [] then Inl ErrInvalidRoute
      else ValidateEncoder encoder)"
| "RouteI_ValidateBasic IsChannelIDFormat (IBCRoute channelID) =
     (if channelID \<noteq> [] \<and> \<not> IsChannelIDFormat channelID then Inl (Errorf ''channel identifier format'') else Inr ())"

section \<open>Messages\<close>

record MsgCreateTunnel =
  mct_SignalDeviations :: "SignalDeviation list"
  mct_Interval :: uint64
  mct_Route :: route_any
  mct_InitialDeposit :: coins
  mct_Creator :: bytes

record MsgUpdateRoute =
  mur_TunnelID :: uint64
  mur_Route :: route_any
  mur_Creator :: bytes

record MsgUpdateSignalsAndInterval =
  mus_TunnelID :: uint64
  mus_SignalDeviations :: "SignalDeviation list"
  mus_Interval :: uint64
  mus_Creator :: bytes

record MsgTunnel =
  mt_TunnelID :: uint64
  mt_Creator :: bytes

text \<open>\<open>MsgWithdrawFeePayerFunds\<close>, \<open>MsgDepositToTunnel\<close> and \<open>MsgWithdrawFromTunnel\<close> have one shape.\<close>

record MsgTunnelAmount =
  mta_TunnelID :: uint64
  mta_Amount :: coins
  mta_Account :: bytes

definition validateUniqueSignalIDs :: "SignalDeviation list \<Rightarrow> unit result" where
  "validateUniqueSignalIDs sds =
     bindE (foldE (\<lambda>seen sd. if sd_SignalID sd \<in> set seen then Inl sdk_ErrInvalidRequest else Inr (sd_SignalID sd # seen)) [] sds)
       (\<lambda>_. Inr ())"

definition check_address :: "sdk \<Rightarrow> bytes \<Rightarrow> unit result" where
  "check_address sdk a = (case AccAddressFromBech32 sdk a of Inl _ \<Rightarrow> Inl sdk_ErrInvalidAddress | Inr _ \<Rightarrow> Inr ())"

definition MsgCreateTunnel_ValidateBasic :: "sdk \<Rightarrow> (bytes \<Rightarrow> bool) \<Rightarrow> MsgCreateTunnel \<Rightarrow> unit result" where
  "MsgCreateTunnel_ValidateBasic sdk IsChannelIDFormat m =
     bindE (check_address sdk (mct_Creator m)) (\<lambda>_.
     if mct_SignalDeviations m = [] then Inl sdk_ErrInvalidRequest
     else
       bindE (validateUniqueSignalIDs (mct_SignalDeviations m)) (\<lambda>_.
       bindE (GetRouteValue (mct_Route m)) (\<lambda>r.
       bindE (RouteI_ValidateBasic IsChannelIDFormat r) (\<lambda>_.
       if \<not> Coins_IsValid sdk (mct_InitialDeposit m) then Inl sdk_ErrInvalidCoins else Inr ()))))"

definition MsgUpdateRoute_ValidateBasic :: "sdk \<Rightarrow> (bytes \<Rightarrow> bool) \<Rightarrow> MsgUpdateRoute \<Rightarrow> unit result" where
  "MsgUpdateRoute_ValidateBasic sdk IsChannelIDFormat m =
     bindE (check_address sdk (mur_Creator m)) (\<lambda>_.
     bindE (GetRouteValue (mur_Route m)) (\<lambda>r.
     RouteI_ValidateBasic IsChannelIDFormat r))"

definition MsgUpdateSignalsAndInterval_ValidateBasic :: "sdk \<Rightarrow> MsgUpdateSignalsAndInterval \<Rightarrow> unit result" where
  "MsgUpdateSignalsAndInterval_ValidateBasic sdk m =
     bindE (check_address sdk (mus_Creator m)) (\<lambda>_.
     if mus_SignalDeviations m = [] then Inl sdk_ErrInvalidRequest
     else validateUniqueSignalIDs (mus_SignalDeviations m))"

definition MsgWithdrawFeePayerFunds_ValidateBasic :: "sdk \<Rightarrow> MsgTunnelAmount \<Rightarrow> unit result" where
  "MsgWithdrawFeePayerFunds_ValidateBasic sdk m =
     bindE (check_address sdk (mta_Account m)) (\<lambda>_.
     if \<not> Coins_IsValid sdk (mta_Amount m) then Inl sdk_ErrInvalidCoins else Inr ())"

definition MsgActivate_ValidateBasic :: "sdk \<Rightarrow> MsgTunnel \<Rightarrow> unit result" where
  "MsgActivate_ValidateBasic sdk m = check_address sdk (mt_Creator m)"

definition MsgDeactivate_ValidateBasic :: "sdk \<Rightarrow> MsgTunnel \<Rightarrow> unit result" where
  "MsgDeactivate_ValidateBasic sdk m = check_address sdk (mt_Creator m)"

definition MsgTriggerTunnel_ValidateBasic :: "sdk \<Rightarrow> MsgTunnel \<Rightarrow> unit result" where
  "MsgTriggerTunnel_ValidateBasic sdk m = check_address sdk (mt_Creator m)"

definition MsgDepositToTunnel_ValidateBasic :: "sdk \<Rightarrow> MsgTunnelAmount \<Rightarrow> unit result" where
  "MsgDepositToTunnel_ValidateBasic sdk m =
     bindE (check_address sdk (mta_Account m)) (\<lambda>_.
     if \<not> Coins_IsValid sdk (mta_Amount m) \<or> \<not> Coins_IsAllPositive sdk (mta_Amount m) then Inl sdk_ErrInvalidCoins
     else Inr ())"

definition MsgWithdrawFromTunnel_ValidateBasic :: "sdk \<Rightarrow> MsgTunnelAmount \<Rightarrow> unit result" where
  "MsgWithdrawFromTunnel_ValidateBasic sdk m =
     bindE (check_address sdk (mta_Account m)) (\<lambda>_.
     if \<not> Coins_IsValid sdk (mta_Amount m) \<or> \<not> Coins_IsAllPositive sdk (mta_Amount m) then Inl sdk_ErrInvalidCoins
     else Inr ())"

definition tunnel_MsgUpdateParams_ValidateBasic :: "sdk \<Rightarrow> bytes \<Rightarrow> tunnel_Params \<Rightarrow> unit result" where
  "tunnel_MsgUpdateParams_ValidateBasic sdk authority p =
     bindE (check_address sdk authority) (\<lambda>_. tunnel_Params_Validate sdk p)"

section \<open>Store keys\<close>

definition ActiveTunnelIDStoreKey :: "uint64 \<Rightarrow> bytes" where
  "ActiveTunnelIDStoreKey tid = [0x10] @ be_bytes 8 tid"

definition TunnelStoreKey :: "uint64 \<Rightarrow> bytes" where
  "TunnelStoreKey tid = [0x11] @ be_bytes 8 tid"

definition TunnelPacketsStoreKey :: "uint64 \<Rightarrow> bytes" where
  "TunnelPacketsStoreKey tid = [0x12] @ be_bytes 8 tid"

definition TunnelPacketStoreKey :: "uint64 \<Rightarrow> uint64 \<Rightarrow> bytes" where
  "TunnelPacketStoreKey tid packetID = TunnelPacketsStoreKey tid @ be_bytes 8 packetID"

definition LatestPricesStoreKey :: "uint64 \<Rightarrow> bytes" where
  "LatestPricesStoreKey tid = [0x13] @ be_bytes 8 tid"

definition DepositsStoreKey :: "uint64 \<Rightarrow> bytes" where
  "DepositsStoreKey tid = [0x14] @ be_bytes 8 tid"

definition DepositStoreKey :: "sdk \<Rightarrow> uint64 \<Rightarrow> bytes \<Rightarrow> bytes" where
  "DepositStoreKey sdk tid depositor = DepositsStoreKey tid @ MustLengthPrefix sdk depositor"

section \<open>Signature orders\<close>

record TunnelSignatureOrder =
  tso_Sequence :: uint64
  tso_Prices :: "Price list"
  tso_CreatedAt :: int64
  tso_Encoder :: Encoder

record TSSPacket =
  tp_Sequence :: uint64
  tp_RelayPrices :: "RelayPrice list"
  tp_CreatedAt :: int64

text \<open>The ABI packing of the packet is that of the \<open>go-ethereum\<close> package and a parameter.\<close>

definition tunnel_EncodeTSS ::
  "(TSSPacket \<Rightarrow> bytes result) \<Rightarrow> uint64 \<Rightarrow> Price list \<Rightarrow> int64 \<Rightarrow> Encoder \<Rightarrow> bytes result" where
  "tunnel_EncodeTSS pack sequence prices createdAt encoder =
     (let packed = (\<lambda>prefix rs.
            bindE (pack \<lparr>tp_Sequence = sequence, tp_RelayPrices = rs, tp_CreatedAt = createdAt\<rparr>) (\<lambda>bz. Inr (prefix @ bz))) in
      case encoder of
        ENCODER_FIXED_POINT_ABI \<Rightarrow> bindE (ToRelayPrices prices) (packed EncoderFixedPointABIPrefix)
      | ENCODER_TICK_ABI \<Rightarrow> bindE (ToRelayTickPrices prices) (packed EncoderTickABIPrefix)
      | _ \<Rightarrow> Inl tunnel_ErrInvalidEncoder)"

text \<open>Any content that is not a \<open>TunnelSignatureOrder\<close> is refused.\<close>

definition tunnel_SignatureOrderHandler ::
  "(TSSPacket \<Rightarrow> bytes result) \<Rightarrow> TunnelSignatureOrder option \<Rightarrow> bytes result" where
  "tunnel_SignatureOrderHandler pack content =
     (case content of
        Some c \<Rightarrow> tunnel_EncodeTSS pack (tso_Sequence c) (tso_Prices c) (tso_CreatedAt c) (tso_Encoder c)
      | None \<Rightarrow> Inl sdk_ErrUnknownRequest)"

section \<open>Keys are injective\<close>

lemma tunnel_key_inj [simp]:
  assumes "t < 2 ^ 64" and "u < 2 ^ 64"
  shows "ActiveTunnelIDStoreKey t = ActiveTunnelIDStoreKey u \<longleftrightarrow> t = u"
    and "TunnelStoreKey t = TunnelStoreKey u \<longleftrightarrow> t = u"
    and "LatestPricesStoreKey t = LatestPricesStoreKey u \<longleftrightarrow> t = u"
    and "DepositsStoreKey t = DepositsStoreKey u \<longleftrightarrow> t = u"
  using assms be_bytes_inj [of t 8 u]
  by (simp_all add: ActiveTunnelIDStoreKey_def TunnelStoreKey_def LatestPricesStoreKey_def DepositsStoreKey_def)

lemma TunnelPacketStoreKey_inj:
  assumes "t < 2 ^ 64" and "u < 2 ^ 64" and "i < 2 ^ 64" and "j < 2 ^ 64"
  shows "TunnelPacketStoreKey t i = TunnelPacketStoreKey u j \<longleftrightarrow> t = u \<and> i = j"
  using assms be_bytes_inj [of t 8 u] be_bytes_inj [of i 8 j]
  by (simp add: TunnelPacketStoreKey_def TunnelPacketsStoreKey_def)

lemma DepositStoreKey_inj:
  assumes "address_laws sdk" and "t < 2 ^ 64" and "u < 2 ^ 64" and "valid_addr a" and "valid_addr b"
  shows "DepositStoreKey sdk t a = DepositStoreKey sdk u b \<longleftrightarrow> t = u \<and> a = b"
  using assms be_bytes_inj [of t 8 u] length_prefix_inj [of a b "[]" "[]"]
  by (auto simp: DepositStoreKey_def DepositsStoreKey_def address_lawsD(3))

lemma tunnel_id_of_key: "t < 2 ^ 64 \<Longrightarrow> be_value (drop 1 (ActiveTunnelIDStoreKey t)) = t"
  by (simp add: ActiveTunnelIDStoreKey_def be_value_be_bytes_id)

end
