(* ===== verification/Tunnel.thy ===== *)
theory Tunnel
  imports Tunnel_Data
begin

text \<open>
  The module \<open>x/tunnel\<close>, second part: the keeper (\<open>keeper/\<close>), the message handlers
  (\<open>keeper/msg_server.go\<close>), the end of a block (\<open>abci.go\<close>), genesis and the IBC callbacks
  (\<open>ibc_module.go\<close>). The world \<open>'w\<close> is the state of the modules the keeper calls: bank,
  accounts, IBC and \<open>x/bandtss\<close>. The prices come from the model of \<open>x/feeds\<close>. Events are not
  modelled.
\<close>

section \<open>Keeper, context and state\<close>

record TunnelPricesPacketData =
  tpd_TunnelID :: uint64
  tpd_Sequence :: uint64
  tpd_Prices :: "Price list"
  tpd_CreatedAt :: int64

text \<open>
  \<open>tk_NewModuleCredential\<close> is the address of the credential for the key \<open>tunnel-accounts\<close> and
  the given bytes, \<open>tk_PacketData_GetBytes\<close> the sorted JSON of a packet's data; a capability is
  known by its index.
\<close>

record 'w tunnel_keeper =
  tk_sdk :: sdk
  tk_Coins_IsAllGTE :: "coins \<Rightarrow> coins \<Rightarrow> bool"
  tk_bank :: "'w bank_keeper"
  tk_SpendableCoins :: "'w \<Rightarrow> bytes \<Rightarrow> coins"
  tk_NewModuleCredential :: "bytes \<Rightarrow> bytes result"
  tk_NewBaseAccountWithPubKey :: "bytes \<Rightarrow> unit result"
  tk_HasAccount :: "'w \<Rightarrow> bytes \<Rightarrow> bool"
  tk_SetAccount :: "'w \<Rightarrow> bytes \<Rightarrow> 'w"
  tk_GetModuleAccount :: "'w \<Rightarrow> string \<Rightarrow> bytes option"
  tk_SetModuleAccount :: "'w \<Rightarrow> bytes \<Rightarrow> 'w"
  tk_GetSigningFee :: "'w \<Rightarrow> coins result"
  tk_CreateTunnelSigningRequest ::
    "'w \<Rightarrow> uint64 \<Rightarrow> bytes \<Rightarrow> bytes \<Rightarrow> TunnelSignatureOrder \<Rightarrow> bytes \<Rightarrow> coins \<Rightarrow> (uint64 \<times> 'w) result"
  tk_GetChannel :: "'w \<Rightarrow> bytes \<Rightarrow> bytes \<Rightarrow> bool"
  tk_SendPacket :: "'w \<Rightarrow> nat \<Rightarrow> bytes \<Rightarrow> bytes \<Rightarrow> uint64 \<Rightarrow> bytes \<Rightarrow> (uint64 \<times> 'w) result"
  tk_BindPort :: "'w \<Rightarrow> bytes \<Rightarrow> (nat \<times> 'w) result"
  tk_GetCapability :: "'w \<Rightarrow> bytes \<Rightarrow> nat option"
  tk_AuthenticateCapability :: "'w \<Rightarrow> nat \<Rightarrow> bytes \<Rightarrow> bool"
  tk_ClaimCapability :: "'w \<Rightarrow> nat \<Rightarrow> bytes \<Rightarrow> 'w result"
  tk_PortPath :: "bytes \<Rightarrow> bytes"
  tk_ChannelCapabilityPath :: "bytes \<Rightarrow> bytes \<Rightarrow> bytes"
  tk_IsChannelIDFormat :: "bytes \<Rightarrow> bool"
  tk_ParseChannelSequence :: "bytes \<Rightarrow> uint64 result"
  tk_PacketData_GetBytes :: "TunnelPricesPacketData \<Rightarrow> bytes"
  tk_authority :: bytes

record tunnel_ctx =
  tc_feeds :: feeds_ctx
  tc_feeds_state :: feeds_state
  tc_AppHash :: bytes
  tc_DataHash :: bytes

abbreviation tc_BlockTime :: "tunnel_ctx \<Rightarrow> time" where
  "tc_BlockTime ctx \<equiv> ctx_BlockTime (tc_feeds ctx)"

record 'w tunnel_state =
  ts_count :: uint64
  ts_total_fees :: TotalFees
  ts_active :: "(bytes, bytes) kv"
  ts_tunnels :: "(bytes, Tunnel) kv"
  ts_packets :: "(bytes, Packet) kv"
  ts_latest_prices :: "(bytes, LatestPrices) kv"
  ts_deposits :: "(bytes, Deposit) kv"
  ts_params :: tunnel_Params
  ts_world :: 'w

definition tunnel_ModuleName :: string where
  "tunnel_ModuleName = ''tunnel''"

text \<open>\<open>Coins.Sub\<close> panics when an amount would be negative.\<close>

definition Coins_Sub :: "sdk \<Rightarrow> coins \<Rightarrow> coins \<Rightarrow> coins result" where
  "Coins_Sub sdk a b = (let (c, neg) = Coins_SafeSub sdk a b in if neg then Inl (Panic ''negative coin amount'') else Inr c)"

text \<open>\<open>fmt.Sprintf("%d", n)\<close>\<close>

fun decimal :: "nat \<Rightarrow> bytes" where
  "decimal n = (if n < 10 then [of_nat (48 + n)] else decimal (n div 10) @ [of_nat (48 + n mod 10)])"

declare decimal.simps [simp del]

section \<open>The store\<close>

definition tunnel_SetParams :: "'w tunnel_keeper \<Rightarrow> 'w tunnel_state \<Rightarrow> tunnel_Params \<Rightarrow> 'w tunnel_state result" where
  "tunnel_SetParams k s p = bindE (tunnel_Params_Validate (tk_sdk k) p) (\<lambda>_. Inr (s\<lparr>ts_params := p\<rparr>))"

definition SetTunnelCount :: "'w tunnel_state \<Rightarrow> uint64 \<Rightarrow> 'w tunnel_state" where
  "SetTunnelCount s n = s\<lparr>ts_count := n\<rparr>"

definition SetTunnel :: "'w tunnel_state \<Rightarrow> Tunnel \<Rightarrow> 'w tunnel_state" where
  "SetTunnel s t = s\<lparr>ts_tunnels := kv_set (ts_tunnels s) (TunnelStoreKey (tun_ID t)) t\<rparr>"

definition GetTunnel :: "'w tunnel_state \<Rightarrow> uint64 \<Rightarrow> Tunnel result" where
  "GetTunnel s tid =
     (case kv_get (ts_tunnels s) (TunnelStoreKey tid) of None \<Rightarrow> Inl ErrTunnelNotFound | Some t \<Rightarrow> Inr t)"

definition MustGetTunnel :: "'w tunnel_state \<Rightarrow> uint64 \<Rightarrow> Tunnel result" where
  "MustGetTunnel s tid = (case GetTunnel s tid of Inl _ \<Rightarrow> Inl (Panic ''tunnel not found'') | Inr t \<Rightarrow> Inr t)"

definition GetTunnels :: "'w tunnel_state \<Rightarrow> Tunnel list" where
  "GetTunnels s = map snd (kv_prefix_iterator (ts_tunnels s) [0x11])"

definition SetActiveTunnelID :: "'w tunnel_state \<Rightarrow> uint64 \<Rightarrow> 'w tunnel_state" where
  "SetActiveTunnelID s tid = s\<lparr>ts_active := kv_set (ts_active s) (ActiveTunnelIDStoreKey tid) [0x01]\<rparr>"

definition DeleteActiveTunnelID :: "'w tunnel_state \<Rightarrow> uint64 \<Rightarrow> 'w tunnel_state" where
  "DeleteActiveTunnelID s tid = s\<lparr>ts_active := kv_delete (ts_active s) (ActiveTunnelIDStoreKey tid)\<rparr>"

definition GetActiveTunnelIDs :: "'w tunnel_state \<Rightarrow> uint64 list" where
  "GetActiveTunnelIDs s = map (\<lambda>e. be_value (drop 1 (fst e))) (kv_prefix_iterator (ts_active s) [0x10])"

definition SetLatestPrices :: "'w tunnel_state \<Rightarrow> LatestPrices \<Rightarrow> 'w tunnel_state" where
  "SetLatestPrices s l = s\<lparr>ts_latest_prices := kv_set (ts_latest_prices s) (LatestPricesStoreKey (lp_TunnelID l)) l\<rparr>"

definition GetLatestPrices :: "'w tunnel_state \<Rightarrow> uint64 \<Rightarrow> LatestPrices result" where
  "GetLatestPrices s tid =
     (case kv_get (ts_latest_prices s) (LatestPricesStoreKey tid) of None \<Rightarrow> Inl ErrLatestPricesNotFound | Some l \<Rightarrow> Inr l)"

definition GetAllLatestPrices :: "'w tunnel_state \<Rightarrow> LatestPrices list" where
  "GetAllLatestPrices s = map snd (kv_prefix_iterator (ts_latest_prices s) [0x13])"

definition SetPacket :: "'w tunnel_state \<Rightarrow> Packet \<Rightarrow> 'w tunnel_state" where
  "SetPacket s p = s\<lparr>ts_packets := kv_set (ts_packets s) (TunnelPacketStoreKey (pkt_TunnelID p) (pkt_Sequence p)) p\<rparr>"

definition GetPacket :: "'w tunnel_state \<Rightarrow> uint64 \<Rightarrow> uint64 \<Rightarrow> Packet result" where
  "GetPacket s tid sequence =
     (case kv_get (ts_packets s) (TunnelPacketStoreKey tid sequence) of None \<Rightarrow> Inl ErrPacketNotFound | Some p \<Rightarrow> Inr p)"

definition SetTotalFees :: "'w tunnel_state \<Rightarrow> TotalFees \<Rightarrow> 'w tunnel_state" where
  "SetTotalFees s f = s\<lparr>ts_total_fees := f\<rparr>"

definition SetDeposit :: "'w tunnel_keeper \<Rightarrow> 'w tunnel_state \<Rightarrow> Deposit \<Rightarrow> 'w tunnel_state result" where
  "SetDeposit k s d =
     bindE (MustAccAddressFromBech32 (tk_sdk k) (dep_Depositor d)) (\<lambda>a.
     Inr (s\<lparr>ts_deposits := kv_set (ts_deposits s) (DepositStoreKey (tk_sdk k) (dep_TunnelID d) a) d\<rparr>))"

definition GetDeposit :: "'w tunnel_keeper \<Rightarrow> 'w tunnel_state \<Rightarrow> uint64 \<Rightarrow> bytes \<Rightarrow> Deposit option" where
  "GetDeposit k s tid depositor = kv_get (ts_deposits s) (DepositStoreKey (tk_sdk k) tid depositor)"

definition GetDeposits :: "'w tunnel_state \<Rightarrow> uint64 \<Rightarrow> Deposit list" where
  "GetDeposits s tid = map snd (kv_prefix_iterator (ts_deposits s) (DepositsStoreKey tid))"

definition GetAllDeposits :: "'w tunnel_state \<Rightarrow> Deposit list" where
  "GetAllDeposits s = map snd (kv_prefix_iterator (ts_deposits s) [0x14])"

definition DeleteDeposit :: "'w tunnel_keeper \<Rightarrow> 'w tunnel_state \<Rightarrow> uint64 \<Rightarrow> bytes \<Rightarrow> 'w tunnel_state" where
  "DeleteDeposit k s tid depositor =
     s\<lparr>ts_deposits := kv_delete (ts_deposits s) (DepositStoreKey (tk_sdk k) tid depositor)\<rparr>"

section \<open>Tunnels\<close>

definition GenerateTunnelAccount ::
  "'w tunnel_keeper \<Rightarrow> tunnel_ctx \<Rightarrow> 'w tunnel_state \<Rightarrow> bytes \<Rightarrow> (bytes \<times> 'w tunnel_state) result" where
  "GenerateTunnelAccount k ctx s key =
     bindE (tk_NewModuleCredential k (key @ tc_AppHash ctx @ tc_DataHash ctx)) (\<lambda>addr.
     if tk_HasAccount k (ts_world s) addr then Inl ErrAccountAlreadyExist
     else
       bindE (tk_NewBaseAccountWithPubKey k addr) (\<lambda>_.
       Inr (addr, s\<lparr>ts_world := tk_SetAccount k (ts_world s) addr\<rparr>)))"

definition AddTunnel ::
  "'w tunnel_keeper \<Rightarrow> tunnel_ctx \<Rightarrow> 'w tunnel_state \<Rightarrow> RouteI \<Rightarrow> SignalDeviation list \<Rightarrow> uint64 \<Rightarrow> bytes \<Rightarrow>
   (Tunnel \<times> 'w tunnel_state) result" where
  "AddTunnel k ctx s route signalDeviations interval creator =
     (let newID = u64 (ts_count s + 1) in
      bindE (GenerateTunnelAccount k ctx s (decimal newID)) (\<lambda>(feePayer, s).
      let s = SetLatestPrices s \<lparr>lp_TunnelID = newID, lp_Prices = [], lp_LastInterval = 0\<rparr>;
          tunnel = \<lparr>tun_ID = newID, tun_Sequence = 0, tun_Route = AnyRoute route,
                    tun_FeePayer = AccAddress_String (tk_sdk k) feePayer, tun_SignalDeviations = signalDeviations,
                    tun_Interval = interval, tun_TotalDeposit = [], tun_IsActive = False,
                    tun_CreatedAt = Unix (tc_BlockTime ctx), tun_Creator = AccAddress_String (tk_sdk k) creator\<rparr> in
      Inr (tunnel, SetTunnelCount (SetTunnel s tunnel) newID)))"

definition UpdateSignalsAndInterval ::
  "'w tunnel_state \<Rightarrow> uint64 \<Rightarrow> SignalDeviation list \<Rightarrow> uint64 \<Rightarrow> 'w tunnel_state result" where
  "UpdateSignalsAndInterval s tid signalDeviations interval =
     bindE (GetTunnel s tid) (\<lambda>tunnel.
     let s = SetTunnel s (tunnel\<lparr>tun_SignalDeviations := signalDeviations, tun_Interval := interval\<rparr>) in
     Inr (SetLatestPrices s \<lparr>lp_TunnelID = tid, lp_Prices = [], lp_LastInterval = 0\<rparr>))"

definition ActivateTunnel :: "'w tunnel_keeper \<Rightarrow> 'w tunnel_state \<Rightarrow> uint64 \<Rightarrow> 'w tunnel_state result" where
  "ActivateTunnel k s tid =
     bindE (GetTunnel s tid) (\<lambda>tunnel.
     if \<not> tk_Coins_IsAllGTE k (tun_TotalDeposit tunnel) (tp_MinDeposit (ts_params s)) then Inl ErrInsufficientDeposit
     else
       let s = SetActiveTunnelID s tid in
       Inr (SetTunnel s (tunnel\<lparr>tun_IsActive := True\<rparr>)))"

definition DeactivateTunnel :: "'w tunnel_state \<Rightarrow> uint64 \<Rightarrow> 'w tunnel_state result" where
  "DeactivateTunnel s tid =
     bindE (GetTunnel s tid) (\<lambda>tunnel.
     let s = DeleteActiveTunnelID s tid in
     Inr (SetTunnel s (tunnel\<lparr>tun_IsActive := False\<rparr>)))"

definition GetRouteFee :: "'w tunnel_keeper \<Rightarrow> 'w tunnel_state \<Rightarrow> RouteI \<Rightarrow> coins result" where
  "GetRouteFee k s route = (case route of TSSRoute _ _ _ \<Rightarrow> tk_GetSigningFee k (ts_world s) | IBCRoute _ \<Rightarrow> Inr [])"

definition HasEnoughFundToCreatePacket :: "'w tunnel_keeper \<Rightarrow> 'w tunnel_state \<Rightarrow> uint64 \<Rightarrow> bool result" where
  "HasEnoughFundToCreatePacket k s tid =
     bindE (GetTunnel s tid) (\<lambda>tunnel.
     bindE (GetRouteValue (tun_Route tunnel)) (\<lambda>route.
     bindE (GetRouteFee k s route) (\<lambda>routeFee.
     let totalFee = Coins_Add (tk_sdk k) (tp_BasePacketFee (ts_params s)) routeFee in
     bindE (AccAddressFromBech32 (tk_sdk k) (tun_FeePayer tunnel)) (\<lambda>feePayer.
     Inr (tk_Coins_IsAllGTE k (tk_SpendableCoins k (ts_world s) feePayer) totalFee)))))"

section \<open>Deposits\<close>

definition validateDepositDenom :: "'w tunnel_state \<Rightarrow> coins \<Rightarrow> unit result" where
  "validateDepositDenom s depositAmount =
     (let acceptedDenoms = map fst (tp_MinDeposit (ts_params s)) in
      foldE (\<lambda>_ coin. if fst coin \<notin> set acceptedDenoms then Inl ErrInvalidDepositDenom else Inr ()) () depositAmount)"

definition DepositToTunnel ::
  "'w tunnel_keeper \<Rightarrow> 'w tunnel_state \<Rightarrow> uint64 \<Rightarrow> bytes \<Rightarrow> coins \<Rightarrow> 'w tunnel_state result" where
  "DepositToTunnel k s tid depositor depositAmount =
     bindE (GetTunnel s tid) (\<lambda>tunnel.
     bindE (validateDepositDenom s depositAmount) (\<lambda>_.
     bindE (SendCoinsFromAccountToModule (tk_bank k) (ts_world s) depositor tunnel_ModuleName depositAmount) (\<lambda>w.
     let s = s\<lparr>ts_world := w\<rparr>;
         deposit = (case GetDeposit k s tid depositor of
             None \<Rightarrow> \<lparr>dep_TunnelID = tid, dep_Depositor = AccAddress_String (tk_sdk k) depositor, dep_Amount = depositAmount\<rparr>
           | Some deposit \<Rightarrow> deposit\<lparr>dep_Amount := Coins_Add (tk_sdk k) (dep_Amount deposit) depositAmount\<rparr>) in
     bindE (SetDeposit k s deposit) (\<lambda>s.
     Inr (SetTunnel s (tunnel\<lparr>tun_TotalDeposit := Coins_Add (tk_sdk k) (tun_TotalDeposit tunnel) depositAmount\<rparr>))))))"

definition WithdrawFromTunnel ::
  "'w tunnel_keeper \<Rightarrow> 'w tunnel_state \<Rightarrow> uint64 \<Rightarrow> coins \<Rightarrow> bytes \<Rightarrow> 'w tunnel_state result" where
  "WithdrawFromTunnel k s tid amount withdrawer =
     bindE (GetTunnel s tid) (\<lambda>tunnel.
     case GetDeposit k s tid withdrawer of
       None \<Rightarrow> Inl ErrDepositNotFound
     | Some deposit \<Rightarrow>
         if \<not> tk_Coins_IsAllGTE k (dep_Amount deposit) amount then Inl ErrInsufficientDeposit
         else
           bindE (SendCoinsFromModuleToAccount (tk_bank k) (ts_world s) tunnel_ModuleName withdrawer amount) (\<lambda>w.
           let s = s\<lparr>ts_world := w\<rparr> in
           bindE (Coins_Sub (tk_sdk k) (dep_Amount deposit) amount) (\<lambda>rest.
           let deposit = deposit\<lparr>dep_Amount := rest\<rparr> in
           bindE (if Coins_IsZero (tk_sdk k) (dep_Amount deposit) then Inr (DeleteDeposit k s tid withdrawer)
                  else SetDeposit k s deposit) (\<lambda>s.
           bindE (Coins_Sub (tk_sdk k) (tun_TotalDeposit tunnel) amount) (\<lambda>totalDeposit.
           let tunnel = tunnel\<lparr>tun_TotalDeposit := totalDeposit\<rparr>; s = SetTunnel s tunnel in
           if tun_IsActive tunnel \<and> \<not> tk_Coins_IsAllGTE k (tun_TotalDeposit tunnel) (tp_MinDeposit (ts_params s))
           then DeactivateTunnel s tid else Inr s)))))"

section \<open>New prices\<close>

definition CreatePricesMap :: "Price list \<Rightarrow> (bytes, Price) kv" where
  "CreatePricesMap prices = foldl (\<lambda>m p. kv_set m (price_SignalID p) p) [] prices"

definition calculateDeviationBPS :: "int \<Rightarrow> int \<Rightarrow> int" where
  "calculateDeviationBPS oldPrice newPrice =
     (if newPrice = oldPrice then 0
      else if oldPrice = 0 then 2 ^ 63 - 1
      else go_div (\<bar>newPrice - oldPrice\<bar> * 10000) oldPrice)"

definition new_price_step ::
  "(bytes, Price) kv \<Rightarrow> (bytes, Price) kv \<Rightarrow> int64 \<Rightarrow> bool \<Rightarrow> bool \<times> Price list \<Rightarrow> SignalDeviation \<Rightarrow> bool \<times> Price list" where
  "new_price_step latestPricesMap feedsPricesMap timestamp sendAll st sd =
     (let (shouldSend, newFeedPrices) = st;
          oldPrice = (case kv_get latestPricesMap (sd_SignalID sd) of Some p \<Rightarrow> int (price_Price p) | None \<Rightarrow> 0);
          feedPrice = (case kv_get feedsPricesMap (sd_SignalID sd) of
              Some p \<Rightarrow> p
            | None \<Rightarrow> \<lparr>price_Status = PRICE_STATUS_NOT_IN_CURRENT_FEEDS, price_SignalID = sd_SignalID sd, price_Price = 0,
                       price_Timestamp = timestamp\<rparr>);
          deviation = calculateDeviationBPS oldPrice (int (price_Price feedPrice)) in
      if sendAll \<or> deviation \<ge> int (sd_HardDeviationBPS sd) then (True, newFeedPrices @ [feedPrice])
      else if deviation \<ge> int (sd_SoftDeviationBPS sd) then (shouldSend, newFeedPrices @ [feedPrice])
      else (shouldSend, newFeedPrices))"

definition GenerateNewPrices ::
  "SignalDeviation list \<Rightarrow> (bytes, Price) kv \<Rightarrow> (bytes, Price) kv \<Rightarrow> int64 \<Rightarrow> bool \<Rightarrow> Price list" where
  "GenerateNewPrices signalDeviations latestPricesMap feedsPricesMap timestamp sendAll =
     (let (shouldSend, newFeedPrices) =
            foldl (new_price_step latestPricesMap feedsPricesMap timestamp sendAll) (False, []) signalDeviations in
      if shouldSend then newFeedPrices else [])"

section \<open>Packets\<close>

definition DeductBasePacketFee :: "'w tunnel_keeper \<Rightarrow> 'w tunnel_state \<Rightarrow> bytes \<Rightarrow> 'w tunnel_state result" where
  "DeductBasePacketFee k s feePayer =
     (let basePacketFee = tp_BasePacketFee (ts_params s) in
      bindE (SendCoinsFromAccountToModule (tk_bank k) (ts_world s) feePayer tunnel_ModuleName basePacketFee) (\<lambda>w.
      let s = s\<lparr>ts_world := w\<rparr>; totalFees = ts_total_fees s in
      Inr (SetTotalFees s
        (totalFees\<lparr>tf_TotalBasePacketFee := Coins_Add (tk_sdk k) (tf_TotalBasePacketFee totalFees) basePacketFee\<rparr>))))"

definition CreatePacket ::
  "'w tunnel_keeper \<Rightarrow> tunnel_ctx \<Rightarrow> 'w tunnel_state \<Rightarrow> uint64 \<Rightarrow> Price list \<Rightarrow> (Packet \<times> 'w tunnel_state) result" where
  "CreatePacket k ctx s tid prices =
     (let params = ts_params s in
      bindE (GetTunnel s tid) (\<lambda>tunnel.
      bindE (MustAccAddressFromBech32 (tk_sdk k) (tun_FeePayer tunnel)) (\<lambda>feePayer.
      bindE (DeductBasePacketFee k s feePayer) (\<lambda>s.
      bindE (GetRouteValue (tun_Route tunnel)) (\<lambda>route.
      bindE (GetRouteFee k s route) (\<lambda>routeFee.
      let tunnel = tunnel\<lparr>tun_Sequence := u64 (tun_Sequence tunnel + 1)\<rparr>;
          packet = \<lparr>pkt_TunnelID = tid, pkt_Sequence = tun_Sequence tunnel, pkt_Prices = prices, pkt_Receipt = None,
                    pkt_BaseFee = tp_BasePacketFee params, pkt_RouteFee = routeFee,
                    pkt_CreatedAt = Unix (tc_BlockTime ctx)\<rparr> in
      Inr (packet, SetPacket (SetTunnel s tunnel) packet)))))))"

definition PortIDForTunnel :: "uint64 \<Rightarrow> bytes" where
  "PortIDForTunnel tid = str ''tunnel.'' @ decimal tid"

definition IsValidPortID :: "bytes \<Rightarrow> bool" where
  "IsValidPortID portID = has_prefix (str ''tunnel.'') portID"

text \<open>The timeout is an absolute time in nanoseconds, a sum of \<open>uint64\<close> values that wraps.\<close>

definition ibc_timeout :: "tunnel_ctx \<Rightarrow> uint64 \<Rightarrow> uint64" where
  "ibc_timeout ctx interval = u64 (to_uint64 (i64 (tc_BlockTime ctx)) + interval * 10 ^ 9 * 2)"

definition SendIBCPacket ::
  "'w tunnel_keeper \<Rightarrow> tunnel_ctx \<Rightarrow> 'w tunnel_state \<Rightarrow> bytes \<Rightarrow> Packet \<Rightarrow> uint64 \<Rightarrow> (PacketReceiptI \<times> 'w tunnel_state) result" where
  "SendIBCPacket k ctx s channelID packet interval =
     (let portID = PortIDForTunnel (pkt_TunnelID packet) in
      case tk_GetCapability k (ts_world s) (tk_ChannelCapabilityPath k portID channelID) of
        None \<Rightarrow> Inl ErrChannelCapabilityNotFound
      | Some channelCap \<Rightarrow>
          let packetBytes = tk_PacketData_GetBytes k
                \<lparr>tpd_TunnelID = pkt_TunnelID packet, tpd_Sequence = pkt_Sequence packet, tpd_Prices = pkt_Prices packet,
                 tpd_CreatedAt = pkt_CreatedAt packet\<rparr> in
          bindE (tk_SendPacket k (ts_world s) channelCap portID channelID (ibc_timeout ctx interval) packetBytes) (\<lambda>(sequence, w).
          Inr (IBCPacketReceipt sequence, s\<lparr>ts_world := w\<rparr>)))"

definition SendTSSPacket ::
  "'w tunnel_keeper \<Rightarrow> 'w tunnel_state \<Rightarrow> bytes \<Rightarrow> bytes \<Rightarrow> Encoder \<Rightarrow> Packet \<Rightarrow> bytes \<Rightarrow> (PacketReceiptI \<times> 'w tunnel_state) result" where
  "SendTSSPacket k s destinationChainID destinationContractAddress encoder packet feePayer =
     (let content = \<lparr>tso_Sequence = pkt_Sequence packet, tso_Prices = pkt_Prices packet,
                     tso_CreatedAt = pkt_CreatedAt packet, tso_Encoder = encoder\<rparr> in
      bindE (tk_CreateTunnelSigningRequest k (ts_world s) (pkt_TunnelID packet) destinationChainID
               destinationContractAddress content feePayer (pkt_RouteFee packet)) (\<lambda>(signingID, w).
      Inr (TSSPacketReceipt signingID, s\<lparr>ts_world := w\<rparr>)))"

text \<open>The deferred function of \<open>SendPacket\<close> turns a panic into an error.\<close>

definition recover :: "error \<Rightarrow> 'a result \<Rightarrow> 'a result" where
  "recover err m = (case m of Inl e \<Rightarrow> if is_panic e then Inl err else Inl e | Inr x \<Rightarrow> Inr x)"

definition SendPacket :: "'w tunnel_keeper \<Rightarrow> tunnel_ctx \<Rightarrow> 'w tunnel_state \<Rightarrow> Packet \<Rightarrow> 'w tunnel_state result" where
  "SendPacket k ctx s packet =
     recover ErrSendPacketPanic
      (bindE (GetTunnel s (pkt_TunnelID packet)) (\<lambda>tunnel.
       bindE (GetRouteValue (tun_Route tunnel)) (\<lambda>route.
       bindE (case route of
           TSSRoute chainID contract encoder \<Rightarrow>
             bindE (MustAccAddressFromBech32 (tk_sdk k) (tun_FeePayer tunnel)) (\<lambda>feePayer.
             SendTSSPacket k s chainID contract encoder packet feePayer)
         | IBCRoute channelID \<Rightarrow> SendIBCPacket k ctx s channelID packet (tun_Interval tunnel)) (\<lambda>(receipt, s).
       Inr (SetPacket s (packet\<lparr>pkt_Receipt := Some receipt\<rparr>))))))"

definition ProducePacket ::
  "'w tunnel_keeper \<Rightarrow> tunnel_ctx \<Rightarrow> 'w tunnel_state \<Rightarrow> uint64 \<Rightarrow> (bytes, Price) kv \<Rightarrow> 'w tunnel_state result" where
  "ProducePacket k ctx s tid feedsPricesMap =
     (let unixNow = Unix (tc_BlockTime ctx) in
      bindE (GetTunnel s tid) (\<lambda>tunnel.
      bindE (GetLatestPrices s tid) (\<lambda>latestPrices.
      let latestPricesMap = CreatePricesMap (lp_Prices latestPrices);
          sendAll = (unixNow \<ge> i64 (i64 (int (tun_Interval tunnel)) + lp_LastInterval latestPrices));
          newPrices = GenerateNewPrices (tun_SignalDeviations tunnel) latestPricesMap feedsPricesMap unixNow sendAll in
      if newPrices = [] then Inr s
      else
        bindE (CreatePacket k ctx s (tun_ID tunnel) newPrices) (\<lambda>(packet, s).
        bindE (SendPacket k ctx s packet) (\<lambda>s.
        let latestPrices = UpdatePrices latestPrices newPrices;
            latestPrices = (if sendAll then latestPrices\<lparr>lp_LastInterval := unixNow\<rparr> else latestPrices) in
        Inr (SetLatestPrices s latestPrices))))))"

text \<open>
  A packet is produced in a cached context, which is written only on success: an error leaves the
  state as it was.
\<close>

definition ProduceActiveTunnelPacket ::
  "'w tunnel_keeper \<Rightarrow> tunnel_ctx \<Rightarrow> 'w tunnel_state \<Rightarrow> uint64 \<Rightarrow> (bytes, Price) kv \<Rightarrow> 'w tunnel_state result" where
  "ProduceActiveTunnelPacket k ctx s tid pricesMap =
     bindE (HasEnoughFundToCreatePacket k s tid) (\<lambda>ok.
     if \<not> ok then DeactivateTunnel s tid
     else ProducePacket k ctx s tid pricesMap)"

text \<open>An error only emits an event; a panic ends the block.\<close>

definition active_tunnel_step ::
  "'w tunnel_keeper \<Rightarrow> tunnel_ctx \<Rightarrow> (bytes, Price) kv \<Rightarrow> 'w tunnel_state \<Rightarrow> uint64 \<Rightarrow> 'w tunnel_state result" where
  "active_tunnel_step k ctx pricesMap s tid =
     (case ProduceActiveTunnelPacket k ctx s tid pricesMap of
        Inl e \<Rightarrow> if is_panic e then Inl e else Inr s
      | Inr s' \<Rightarrow> Inr s')"

definition ProduceActiveTunnelPackets :: "'w tunnel_keeper \<Rightarrow> tunnel_ctx \<Rightarrow> 'w tunnel_state \<Rightarrow> 'w tunnel_state result" where
  "ProduceActiveTunnelPackets k ctx s =
     (let ids = GetActiveTunnelIDs s;
          pricesMap = CreatePricesMap (GetAllPrices (tc_feeds_state ctx)) in
      foldE (active_tunnel_step k ctx pricesMap) s ids)"

definition tunnel_EndBlocker :: "'w tunnel_keeper \<Rightarrow> tunnel_ctx \<Rightarrow> 'w tunnel_state \<Rightarrow> 'w tunnel_state result" where
  "tunnel_EndBlocker k ctx s = ProduceActiveTunnelPackets k ctx s"

section \<open>IBC ports\<close>

definition bindIBCPort :: "'w tunnel_keeper \<Rightarrow> 'w tunnel_state \<Rightarrow> bytes \<Rightarrow> 'w tunnel_state result" where
  "bindIBCPort k s portID =
     bindE (tk_BindPort k (ts_world s) portID) (\<lambda>(portCap, w).
     bindE (tk_ClaimCapability k w portCap (tk_PortPath k portID)) (\<lambda>w.
     Inr (s\<lparr>ts_world := w\<rparr>)))"

definition ensureIBCPort :: "'w tunnel_keeper \<Rightarrow> 'w tunnel_state \<Rightarrow> uint64 \<Rightarrow> 'w tunnel_state result" where
  "ensureIBCPort k s tid =
     (let portID = PortIDForTunnel tid in
      if tk_GetCapability k (ts_world s) (tk_PortPath k portID) \<noteq> None then Inr s
      else bindIBCPort k s portID)"

section \<open>Message handlers\<close>

fun is_IBCRoute :: "RouteI \<Rightarrow> bool" where
  "is_IBCRoute (IBCRoute _) = True"
| "is_IBCRoute (TSSRoute _ _ _) = False"

definition msg_CreateTunnel ::
  "'w tunnel_keeper \<Rightarrow> tunnel_ctx \<Rightarrow> 'w tunnel_state \<Rightarrow> MsgCreateTunnel \<Rightarrow> (uint64 \<times> 'w tunnel_state) result" where
  "msg_CreateTunnel k ctx s msg =
     (let params = ts_params s in
      bindE (ValidateSignalDeviations (mct_SignalDeviations msg) (tp_MaxSignals params) (tp_MaxDeviationBPS params)
               (tp_MinDeviationBPS params)) (\<lambda>_.
      bindE (ValidateInterval (mct_Interval msg) (tp_MaxInterval params) (tp_MinInterval params)) (\<lambda>_.
      bindE (AccAddressFromBech32 (tk_sdk k) (mct_Creator msg)) (\<lambda>creator.
      bindE (GetRouteValue (mct_Route msg)) (\<lambda>route.
      if is_IBCRoute route \<and> route \<noteq> IBCRoute [] then Inl ErrInvalidRoute
      else
        bindE (AddTunnel k ctx s route (mct_SignalDeviations msg) (mct_Interval msg) creator) (\<lambda>(tunnel, s).
        bindE (if is_IBCRoute route then ensureIBCPort k s (tun_ID tunnel) else Inr s) (\<lambda>s.
        bindE (if \<not> Coins_IsZero (tk_sdk k) (mct_InitialDeposit msg)
               then DepositToTunnel k s (tun_ID tunnel) creator (mct_InitialDeposit msg) else Inr s) (\<lambda>s.
        Inr (tun_ID tunnel, s)))))))))"

definition msg_UpdateRoute :: "'w tunnel_keeper \<Rightarrow> 'w tunnel_state \<Rightarrow> MsgUpdateRoute \<Rightarrow> 'w tunnel_state result" where
  "msg_UpdateRoute k s msg =
     bindE (GetTunnel s (mur_TunnelID msg)) (\<lambda>tunnel.
     if mur_Creator msg \<noteq> tun_Creator tunnel then Inl ErrInvalidTunnelCreator
     else
       bindE (TypeUrl (tun_Route tunnel)) (\<lambda>url.
       bindE (TypeUrl (mur_Route msg)) (\<lambda>msg_url.
       if url \<noteq> msg_url then Inl ErrInvalidRoute
       else
         bindE (GetRouteValue (mur_Route msg)) (\<lambda>route.
         case route of
           IBCRoute channelID \<Rightarrow>
             if \<not> tk_GetChannel k (ts_world s) (PortIDForTunnel (mur_TunnelID msg)) channelID then Inl ErrInvalidChannelID
             else Inr (SetTunnel s (tunnel\<lparr>tun_Route := mur_Route msg\<rparr>))
         | _ \<Rightarrow> Inl ErrInvalidRoute))))"

definition msg_UpdateSignalsAndInterval ::
  "'w tunnel_state \<Rightarrow> MsgUpdateSignalsAndInterval \<Rightarrow> 'w tunnel_state result" where
  "msg_UpdateSignalsAndInterval s msg =
     (let params = ts_params s in
      bindE (ValidateSignalDeviations (mus_SignalDeviations msg) (tp_MaxSignals params) (tp_MaxDeviationBPS params)
               (tp_MinDeviationBPS params)) (\<lambda>_.
      bindE (ValidateInterval (mus_Interval msg) (tp_MaxInterval params) (tp_MinInterval params)) (\<lambda>_.
      bindE (GetTunnel s (mus_TunnelID msg)) (\<lambda>tunnel.
      if mus_Creator msg \<noteq> tun_Creator tunnel then Inl ErrInvalidTunnelCreator
      else UpdateSignalsAndInterval s (mus_TunnelID msg) (mus_SignalDeviations msg) (mus_Interval msg)))))"

definition msg_WithdrawFeePayerFunds :: "'w tunnel_keeper \<Rightarrow> 'w tunnel_state \<Rightarrow> MsgTunnelAmount \<Rightarrow> 'w tunnel_state result" where
  "msg_WithdrawFeePayerFunds k s msg =
     bindE (GetTunnel s (mta_TunnelID msg)) (\<lambda>tunnel.
     if mta_Account msg \<noteq> tun_Creator tunnel then Inl ErrInvalidTunnelCreator
     else
       bindE (AccAddressFromBech32 (tk_sdk k) (tun_FeePayer tunnel)) (\<lambda>feePayer.
       bindE (AccAddressFromBech32 (tk_sdk k) (mta_Account msg)) (\<lambda>creator.
       bindE (SendCoins (tk_bank k) (ts_world s) feePayer creator (mta_Amount msg)) (\<lambda>w.
       Inr (s\<lparr>ts_world := w\<rparr>)))))"

definition msg_Activate :: "'w tunnel_keeper \<Rightarrow> 'w tunnel_state \<Rightarrow> MsgTunnel \<Rightarrow> 'w tunnel_state result" where
  "msg_Activate k s msg =
     bindE (GetTunnel s (mt_TunnelID msg)) (\<lambda>tunnel.
     if mt_Creator msg \<noteq> tun_Creator tunnel then Inl ErrInvalidTunnelCreator
     else if tun_IsActive tunnel then Inl ErrAlreadyActive
     else ActivateTunnel k s (mt_TunnelID msg))"

definition msg_Deactivate :: "'w tunnel_state \<Rightarrow> MsgTunnel \<Rightarrow> 'w tunnel_state result" where
  "msg_Deactivate s msg =
     bindE (GetTunnel s (mt_TunnelID msg)) (\<lambda>tunnel.
     if mt_Creator msg \<noteq> tun_Creator tunnel then Inl ErrInvalidTunnelCreator
     else if \<not> tun_IsActive tunnel then Inl ErrAlreadyInactive
     else DeactivateTunnel s (mt_TunnelID msg))"

definition msg_TriggerTunnel :: "'w tunnel_keeper \<Rightarrow> tunnel_ctx \<Rightarrow> 'w tunnel_state \<Rightarrow> MsgTunnel \<Rightarrow> 'w tunnel_state result" where
  "msg_TriggerTunnel k ctx s msg =
     bindE (GetTunnel s (mt_TunnelID msg)) (\<lambda>tunnel.
     if mt_Creator msg \<noteq> tun_Creator tunnel then Inl ErrInvalidTunnelCreator
     else if \<not> tun_IsActive tunnel then Inl ErrInactiveTunnel
     else
       bindE (HasEnoughFundToCreatePacket k s (tun_ID tunnel)) (\<lambda>ok.
       if \<not> ok then Inl ErrInsufficientFund
       else
         let prices = GetPrices (tc_feeds ctx) (tc_feeds_state ctx) (GetSignalIDs tunnel) in
         bindE (CreatePacket k ctx s (tun_ID tunnel) prices) (\<lambda>(packet, s).
         bindE (SendPacket k ctx s packet) (\<lambda>s.
         bindE (GetLatestPrices s (tun_ID tunnel)) (\<lambda>latestPrices.
         let latestPrices = latestPrices\<lparr>lp_LastInterval := Unix (tc_BlockTime ctx)\<rparr> in
         Inr (SetLatestPrices s (UpdatePrices latestPrices (pkt_Prices packet))))))))"

definition msg_DepositToTunnel :: "'w tunnel_keeper \<Rightarrow> 'w tunnel_state \<Rightarrow> MsgTunnelAmount \<Rightarrow> 'w tunnel_state result" where
  "msg_DepositToTunnel k s msg =
     bindE (AccAddressFromBech32 (tk_sdk k) (mta_Account msg)) (\<lambda>depositor.
     DepositToTunnel k s (mta_TunnelID msg) depositor (mta_Amount msg))"

definition msg_WithdrawFromTunnel :: "'w tunnel_keeper \<Rightarrow> 'w tunnel_state \<Rightarrow> MsgTunnelAmount \<Rightarrow> 'w tunnel_state result" where
  "msg_WithdrawFromTunnel k s msg =
     bindE (AccAddressFromBech32 (tk_sdk k) (mta_Account msg)) (\<lambda>withdrawer.
     WithdrawFromTunnel k s (mta_TunnelID msg) (mta_Amount msg) withdrawer)"

definition tunnel_UpdateParams ::
  "'w tunnel_keeper \<Rightarrow> 'w tunnel_state \<Rightarrow> bytes \<Rightarrow> tunnel_Params \<Rightarrow> 'w tunnel_state result" where
  "tunnel_UpdateParams k s authority p =
     (if tk_authority k \<noteq> authority then Inl gov_ErrInvalidSigner else tunnel_SetParams k s p)"

section \<open>Genesis\<close>

record tunnel_GenesisState =
  tg_Params :: tunnel_Params
  tg_TunnelCount :: uint64
  tg_Tunnels :: "Tunnel list"
  tg_Deposits :: "Deposit list"
  tg_TotalFees :: TotalFees

definition init_tunnel :: "'w tunnel_keeper \<Rightarrow> 'w tunnel_state \<Rightarrow> Tunnel \<Rightarrow> 'w tunnel_state result" where
  "init_tunnel k s t =
     (let s = SetLatestPrices (SetTunnel s t) \<lparr>lp_TunnelID = tun_ID t, lp_Prices = [], lp_LastInterval = 0\<rparr>;
          s = (if tun_IsActive t then SetActiveTunnelID s (tun_ID t) else s) in
      case GetRouteValue (tun_Route t) of
        Inl _ \<Rightarrow> Inl (Panic ''cannot get route'')
      | Inr route \<Rightarrow>
          if is_IBCRoute route
          then (case ensureIBCPort k s (tun_ID t) of Inl _ \<Rightarrow> Inl (Panic ''cannot bind port'') | Inr s \<Rightarrow> Inr s)
          else Inr s)"

definition init_deposit ::
  "'w tunnel_keeper \<Rightarrow> 'w tunnel_state \<times> coins \<Rightarrow> Deposit \<Rightarrow> ('w tunnel_state \<times> coins) result" where
  "init_deposit k st d =
     (let (s, totalDeposits) = st in
      bindE (SetDeposit k s d) (\<lambda>s. Inr (s, Coins_Add (tk_sdk k) totalDeposits (dep_Amount d))))"

definition tunnel_InitGenesis :: "'w tunnel_keeper \<Rightarrow> 'w tunnel_state \<Rightarrow> tunnel_GenesisState \<Rightarrow> 'w tunnel_state result" where
  "tunnel_InitGenesis k s data =
     (case tunnel_SetParams k s (tg_Params data) of
        Inl _ \<Rightarrow> Inl (Panic ''params'')
      | Inr s \<Rightarrow>
          (case tk_GetModuleAccount k (ts_world s) tunnel_ModuleName of
             None \<Rightarrow> Inl (Panic ''module account has not been set'')
           | Some moduleAcc \<Rightarrow>
               bindE (foldE (init_tunnel k) (SetTunnelCount s (tg_TunnelCount data)) (tg_Tunnels data)) (\<lambda>s.
               bindE (foldE (init_deposit k) (s, []) (tg_Deposits data)) (\<lambda>(s, totalDeposits).
               let s = SetTotalFees s (tg_TotalFees data) in
               case tk_GetModuleAccount k (ts_world s) tunnel_ModuleName of
                 None \<Rightarrow> Inl (Panic ''nil pointer dereference'')
               | Some acc \<Rightarrow>
                   let balance = GetAllBalances (tk_bank k) (ts_world s) acc;
                       s = (if Coins_IsZero (tk_sdk k) balance
                            then s\<lparr>ts_world := tk_SetModuleAccount k (ts_world s) moduleAcc\<rparr> else s);
                       totalBalance = Coins_Add (tk_sdk k) totalDeposits (TotalFees_Total (tg_TotalFees data)) in
                   if \<not> Coins_Equal (tk_sdk k) balance totalBalance then Inl (Panic ''module balance'')
                   else Inr s))))"

definition tunnel_ExportGenesis :: "'w tunnel_state \<Rightarrow> tunnel_GenesisState" where
  "tunnel_ExportGenesis s =
     \<lparr>tg_Params = ts_params s, tg_TunnelCount = ts_count s, tg_Tunnels = GetTunnels s, tg_Deposits = GetAllDeposits s,
      tg_TotalFees = ts_total_fees s\<rparr>"

text \<open>The loops of \<open>ValidateGenesis\<close>: tunnel ids, deposits, and the total deposit of every tunnel.\<close>

definition genesis_tunnel_ids :: "uint64 \<Rightarrow> Tunnel list \<Rightarrow> uint64 list result" where
  "genesis_tunnel_ids n ts =
     foldE (\<lambda>ids t. if tun_ID t > n then Inl ErrInvalidGenesis
                    else if tun_ID t \<in> set ids then Inl ErrInvalidGenesis
                    else Inr (tun_ID t # ids)) [] ts"

definition genesis_deposit_step ::
  "sdk \<Rightarrow> uint64 list \<Rightarrow> (uint64 \<times> bytes) list \<times> (uint64, coins) kv \<Rightarrow> Deposit \<Rightarrow>
   ((uint64 \<times> bytes) list \<times> (uint64, coins) kv) result" where
  "genesis_deposit_step sdk ids st d =
     (let (deposits, tunnelDeposit) = st; dk = (dep_TunnelID d, dep_Depositor d) in
      if dep_TunnelID d \<notin> set ids then Inl ErrInvalidGenesis
      else if dk \<in> set deposits then Inl ErrInvalidGenesis
      else
        let old = (case kv_get tunnelDeposit (dep_TunnelID d) of None \<Rightarrow> [] | Some c \<Rightarrow> c) in
        Inr (dk # deposits, kv_set tunnelDeposit (dep_TunnelID d) (Coins_Add sdk old (dep_Amount d))))"

definition ValidateGenesis :: "sdk \<Rightarrow> tunnel_GenesisState \<Rightarrow> unit result" where
  "ValidateGenesis sdk data =
     (if u64 (length (tg_Tunnels data)) \<noteq> tg_TunnelCount data then Inl ErrInvalidGenesis
      else
        bindE (genesis_tunnel_ids (tg_TunnelCount data) (tg_Tunnels data)) (\<lambda>ids.
        bindE (foldE (genesis_deposit_step sdk ids) ([], []) (tg_Deposits data)) (\<lambda>(_, tunnelDeposit).
        bindE (foldE (\<lambda>_ t.
            let d = (case kv_get tunnelDeposit (tun_ID t) of None \<Rightarrow> [] | Some c \<Rightarrow> c) in
            if \<not> Coins_Equal sdk (tun_TotalDeposit t) d then Inl ErrInvalidGenesis else Inr ()) () (tg_Tunnels data)) (\<lambda>_.
        case TotalFees_Validate sdk (tg_TotalFees data) of
          Inl _ \<Rightarrow> Inl ErrInvalidGenesis
        | Inr _ \<Rightarrow> tunnel_Params_Validate sdk (tg_Params data)))))"

section \<open>IBC callbacks\<close>

datatype channel_order = ORDER_NONE | ORDER_UNORDERED | ORDER_ORDERED

definition tunnel_Version :: bytes where
  "tunnel_Version = str ''tunnel-1''"

definition ValidateTunnelChannelParams :: "'w tunnel_keeper \<Rightarrow> channel_order \<Rightarrow> bytes \<Rightarrow> bytes \<Rightarrow> unit result" where
  "ValidateTunnelChannelParams k order portID channelID =
     bindE (tk_ParseChannelSequence k channelID) (\<lambda>channelSequence.
     if channelSequence > 2 ^ 32 - 1 then Inl ErrMaxTunnelChannels
     else if order \<noteq> ORDER_UNORDERED then Inl channel_ErrInvalidChannelOrdering
     else Inr ())"

text \<open>
  \<open>strings.TrimSpace\<close> is used only to see whether the version is blank: it has nothing but white
  space, which is the ASCII white space and the UTF-8 encodings of \<open>U+0085\<close>, \<open>U+00A0\<close>, \<open>U+1680\<close>,
  \<open>U+2000\<close> to \<open>U+200A\<close>, \<open>U+2028\<close>, \<open>U+2029\<close>, \<open>U+202F\<close>, \<open>U+205F\<close> and \<open>U+3000\<close>.
\<close>

definition wide_space :: "byte \<Rightarrow> byte \<Rightarrow> byte \<Rightarrow> bool" where
  "wide_space a b c \<longleftrightarrow>
     a = 0xe1 \<and> b = 0x9a \<and> c = 0x80 \<or>
     a = 0xe2 \<and> b = 0x80 \<and> (0x80 \<le> c \<and> c \<le> 0x8a \<or> c = 0xa8 \<or> c = 0xa9 \<or> c = 0xaf) \<or>
     a = 0xe2 \<and> b = 0x81 \<and> c = 0x9f \<or>
     a = 0xe3 \<and> b = 0x80 \<and> c = 0x80"

fun is_blank :: "bytes \<Rightarrow> bool" where
  "is_blank [] = True"
| "is_blank (a # v) =
     (if a = 0x20 \<or> 0x09 \<le> a \<and> a \<le> 0x0d then is_blank v
      else
        case v of
          [] \<Rightarrow> False
        | b # v' \<Rightarrow>
            if a = 0xc2 \<and> (b = 0x85 \<or> b = 0xa0) then is_blank v'
            else (case v' of [] \<Rightarrow> False | c # v'' \<Rightarrow> wide_space a b c \<and> is_blank v''))"

definition OnChanOpenInit ::
  "'w tunnel_keeper \<Rightarrow> 'w tunnel_state \<Rightarrow> channel_order \<Rightarrow> bytes \<Rightarrow> bytes \<Rightarrow> nat \<Rightarrow> bytes \<Rightarrow> (bytes \<times> 'w tunnel_state) result" where
  "OnChanOpenInit k s order portID channelID channelCap version =
     bindE (ValidateTunnelChannelParams k order portID channelID) (\<lambda>_.
     if \<not> IsValidPortID portID then Inl ErrInvalidPortID
     else
       let version = (if is_blank version then tunnel_Version else version) in
       if version \<noteq> tunnel_Version then Inl ErrInvalidVersion
       else
         bindE (tk_ClaimCapability k (ts_world s) channelCap (tk_ChannelCapabilityPath k portID channelID)) (\<lambda>w.
         Inr (version, s\<lparr>ts_world := w\<rparr>)))"

definition OnChanOpenTry ::
  "'w tunnel_keeper \<Rightarrow> 'w tunnel_state \<Rightarrow> channel_order \<Rightarrow> bytes \<Rightarrow> bytes \<Rightarrow> nat \<Rightarrow> bytes \<Rightarrow> (bytes \<times> 'w tunnel_state) result" where
  "OnChanOpenTry k s order portID channelID chanCap counterpartyVersion =
     bindE (ValidateTunnelChannelParams k order portID channelID) (\<lambda>_.
     if \<not> IsValidPortID portID then Inl ErrInvalidPortID
     else if counterpartyVersion \<noteq> tunnel_Version then Inl ErrInvalidVersion
     else if \<not> tk_AuthenticateCapability k (ts_world s) chanCap (tk_ChannelCapabilityPath k portID channelID)
     then
       bindE (tk_ClaimCapability k (ts_world s) chanCap (tk_ChannelCapabilityPath k portID channelID)) (\<lambda>w.
       Inr (tunnel_Version, s\<lparr>ts_world := w\<rparr>))
     else Inr (tunnel_Version, s))"

definition OnChanOpenAck :: "bytes \<Rightarrow> unit result" where
  "OnChanOpenAck counterpartyVersion = (if counterpartyVersion \<noteq> tunnel_Version then Inl ErrInvalidVersion else Inr ())"

definition OnChanCloseInit :: "unit result" where
  "OnChanCloseInit = Inl sdk_ErrInvalidRequest"

definition OnChanUpgradeInit :: "'w tunnel_keeper \<Rightarrow> channel_order \<Rightarrow> bytes \<Rightarrow> bytes \<Rightarrow> bytes \<Rightarrow> bytes result" where
  "OnChanUpgradeInit k order portID channelID version =
     bindE (ValidateTunnelChannelParams k order portID channelID) (\<lambda>_.
     if version \<noteq> tunnel_Version then Inl ErrInvalidVersion else Inr version)"

definition OnChanUpgradeTry :: "'w tunnel_keeper \<Rightarrow> channel_order \<Rightarrow> bytes \<Rightarrow> bytes \<Rightarrow> bytes \<Rightarrow> bytes result" where
  "OnChanUpgradeTry k order portID channelID counterpartyVersion =
     bindE (ValidateTunnelChannelParams k order portID channelID) (\<lambda>_.
     if counterpartyVersion \<noteq> tunnel_Version then Inl ErrInvalidVersion else Inr counterpartyVersion)"

definition OnChanUpgradeAck :: "bytes \<Rightarrow> unit result" where
  "OnChanUpgradeAck counterpartyVersion = (if counterpartyVersion \<noteq> tunnel_Version then Inl ErrInvalidVersion else Inr ())"

end
