(* ===== verification/Tunnel_Inv.thy ===== *)
theory Tunnel_Inv
  imports Tunnel
begin

text \<open>
  The invariant of \<open>x/tunnel\<close> and that every operation keeps it: tunnels are numbered from one
  to the counter, the index of active tunnels lists exactly the active ones, the total deposit of
  a tunnel is the sum of its deposits, packets carry the sequence numbers handed out so far, and
  the module account holds at least the deposits and the fees collected.
\<close>

section \<open>Laws of the modules the keeper calls\<close>

definition tmod :: "'w tunnel_keeper \<Rightarrow> bytes" where
  "tmod k = GetModuleAddress (tk_bank k) tunnel_ModuleName"

abbreviation tamt :: "'w tunnel_keeper \<Rightarrow> coins \<Rightarrow> bytes \<Rightarrow> int" where
  "tamt k c d \<equiv> Coins_AmountOf (tk_sdk k) c d"

definition mod_bal :: "'w tunnel_keeper \<Rightarrow> 'w \<Rightarrow> bytes \<Rightarrow> int" where
  "mod_bal k w d = tamt k (GetAllBalances (tk_bank k) w (tmod k)) d"

text \<open>A change of the world that neither debits the module account nor removes it.\<close>

definition world_le :: "'w tunnel_keeper \<Rightarrow> 'w \<Rightarrow> 'w \<Rightarrow> bool" where
  "world_le k w w' \<longleftrightarrow>
     (\<forall>d. mod_bal k w d \<le> mod_bal k w' d) \<and> (tk_HasAccount k w (tmod k) \<longrightarrow> tk_HasAccount k w' (tmod k))"

text \<open>
  What the keeper relies on: comparing coins compares every denomination; generated addresses are
  addresses; accounts are not removed; only the bank moves the coins of the module account, and a
  signing request pays from the fee payer it is given.
\<close>

definition tunnel_laws :: "'w tunnel_keeper \<Rightarrow> bool" where
  "tunnel_laws k \<longleftrightarrow>
     address_laws (tk_sdk k) \<and> coin_laws (tk_sdk k) \<and> bank_laws (tk_sdk k) (tk_bank k) \<and>
     (\<forall>a b. Coins_IsValid (tk_sdk k) a \<longrightarrow> Coins_IsValid (tk_sdk k) b \<longrightarrow>
        (tk_Coins_IsAllGTE k a b \<longleftrightarrow> (\<forall>d. tamt k b d \<le> tamt k a d))) \<and>
     (\<forall>buf a. tk_NewModuleCredential k buf = Inr a \<longrightarrow> valid_addr a) \<and>
     (\<forall>w a. world_le k w (tk_SetAccount k w a)) \<and>
     (\<forall>w f t c w' a. SendCoins (tk_bank k) w f t c = Inr w' \<longrightarrow> tk_HasAccount k w a \<longrightarrow> tk_HasAccount k w' a) \<and>
     (\<forall>w p i w'. tk_BindPort k w p = Inr (i, w') \<longrightarrow> world_le k w w') \<and>
     (\<forall>w i n w'. tk_ClaimCapability k w i n = Inr w' \<longrightarrow> world_le k w w') \<and>
     (\<forall>w i p c t b q w'. tk_SendPacket k w i p c t b = Inr (q, w') \<longrightarrow> world_le k w w') \<and>
     (\<forall>w i c a x f l q w'. tk_CreateTunnelSigningRequest k w i c a x f l = Inr (q, w') \<longrightarrow> f \<noteq> tmod k \<longrightarrow> world_le k w w') \<and>
     (\<forall>w a. tk_GetModuleAccount k w tunnel_ModuleName = Some a \<longrightarrow> a = tmod k) \<and>
     (\<forall>w a. world_le k w (tk_SetModuleAccount k w a))"

lemma tunnel_lawsD:
  assumes "tunnel_laws k"
  shows "address_laws (tk_sdk k)" and "coin_laws (tk_sdk k)" and "bank_laws (tk_sdk k) (tk_bank k)"
    and "Coins_IsValid (tk_sdk k) a \<Longrightarrow> Coins_IsValid (tk_sdk k) b \<Longrightarrow>
        tk_Coins_IsAllGTE k a b \<longleftrightarrow> (\<forall>d. tamt k b d \<le> tamt k a d)"
    and "tk_NewModuleCredential k buf = Inr addr \<Longrightarrow> valid_addr addr"
    and "world_le k w (tk_SetAccount k w addr)"
    and "SendCoins (tk_bank k) w f t c = Inr w' \<Longrightarrow> tk_HasAccount k w addr \<Longrightarrow> tk_HasAccount k w' addr"
    and "tk_BindPort k w p = Inr (i, w') \<Longrightarrow> world_le k w w'"
    and "tk_ClaimCapability k w i n = Inr w' \<Longrightarrow> world_le k w w'"
    and "tk_SendPacket k w i p ch tm bz = Inr (q, w') \<Longrightarrow> world_le k w w'"
    and "tk_CreateTunnelSigningRequest k w tid dc da x f l = Inr (q, w') \<Longrightarrow> f \<noteq> tmod k \<Longrightarrow> world_le k w w'"
    and "tk_GetModuleAccount k w tunnel_ModuleName = Some addr \<Longrightarrow> addr = tmod k"
    and "world_le k w (tk_SetModuleAccount k w addr)"
  using assms unfolding tunnel_laws_def by metis+

lemma world_le_refl [simp]: "world_le k w w"
  by (simp add: world_le_def)

lemma world_le_trans: "world_le k a b \<Longrightarrow> world_le k b c \<Longrightarrow> world_le k a c"
  by (auto simp: world_le_def intro: order_trans)

lemma send_mod_bal:
  assumes "tunnel_laws k" and "Coins_IsValid (tk_sdk k) c" and "SendCoins (tk_bank k) w f t c = Inr w'"
  shows "mod_bal k w' d = mod_bal k w d - (if tmod k = f then tamt k c d else 0) + (if tmod k = t then tamt k c d else 0)"
  using bank_lawsD(2) [OF tunnel_lawsD(3) [OF assms(1)] assms(2,3)] by (simp add: mod_bal_def)

section \<open>The invariant\<close>

definition tunnel_wf :: "'w tunnel_keeper \<Rightarrow> uint64 \<Rightarrow> Tunnel \<Rightarrow> bool" where
  "tunnel_wf k n t \<longleftrightarrow> 1 \<le> tun_ID t \<and> tun_ID t \<le> n \<and> tun_Sequence t < 2 ^ 64 \<and>
     Coins_IsValid (tk_sdk k) (tun_TotalDeposit t) \<and> is_ok (GetRouteValue (tun_Route t)) \<and>
     (\<exists>a. AccAddressFromBech32 (tk_sdk k) (tun_FeePayer t) = Inr a \<and> a \<noteq> tmod k)"

definition tunnels_ok :: "'w tunnel_keeper \<Rightarrow> uint64 \<Rightarrow> (bytes, Tunnel) kv \<Rightarrow> bool" where
  "tunnels_ok k n T \<longleftrightarrow> kv_ok T \<and> n < 2 ^ 64 \<and>
     (\<forall>key t. kv_get T key = Some t \<longrightarrow> key = TunnelStoreKey (tun_ID t) \<and> tunnel_wf k n t) \<and>
     (\<forall>i. 1 \<le> i \<longrightarrow> i \<le> n \<longrightarrow> kv_has T (TunnelStoreKey i))"

definition latest_ok :: "uint64 \<Rightarrow> (bytes, LatestPrices) kv \<Rightarrow> bool" where
  "latest_ok n L \<longleftrightarrow> kv_ok L \<and>
     (\<forall>key l. kv_get L key = Some l \<longrightarrow> key = LatestPricesStoreKey (lp_TunnelID l) \<and> lp_TunnelID l < 2 ^ 64) \<and>
     (\<forall>i. 1 \<le> i \<longrightarrow> i \<le> n \<longrightarrow> kv_has L (LatestPricesStoreKey i))"

definition active_ok :: "(bytes, Tunnel) kv \<Rightarrow> (bytes, bytes) kv \<Rightarrow> bool" where
  "active_ok T A \<longleftrightarrow> kv_ok A \<and>
     (\<forall>key. kv_has A key \<longleftrightarrow>
        (\<exists>t. kv_get T (TunnelStoreKey (tun_ID t)) = Some t \<and> tun_IsActive t \<and> key = ActiveTunnelIDStoreKey (tun_ID t)))"

definition deposit_wf :: "'w tunnel_keeper \<Rightarrow> uint64 \<Rightarrow> bytes \<Rightarrow> Deposit \<Rightarrow> bool" where
  "deposit_wf k n key x \<longleftrightarrow> 1 \<le> dep_TunnelID x \<and> dep_TunnelID x \<le> n \<and> Coins_IsValid (tk_sdk k) (dep_Amount x) \<and>
     (\<exists>a. AccAddressFromBech32 (tk_sdk k) (dep_Depositor x) = Inr a \<and> key = DepositStoreKey (tk_sdk k) (dep_TunnelID x) a)"

definition deposits_ok :: "'w tunnel_keeper \<Rightarrow> uint64 \<Rightarrow> (bytes, Deposit) kv \<Rightarrow> bool" where
  "deposits_ok k n D \<longleftrightarrow> kv_ok D \<and> (\<forall>key x. kv_get D key = Some x \<longrightarrow> deposit_wf k n key x)"

text \<open>What a tunnel's deposits, and all deposits, amount to in a denomination.\<close>

definition deposited :: "'w tunnel_keeper \<Rightarrow> (bytes, Deposit) kv \<Rightarrow> uint64 \<Rightarrow> bytes \<Rightarrow> int" where
  "deposited k D tid d = kv_sum (\<lambda>x. if dep_TunnelID x = tid then tamt k (dep_Amount x) d else 0) D"

definition all_deposited :: "'w tunnel_keeper \<Rightarrow> (bytes, Deposit) kv \<Rightarrow> bytes \<Rightarrow> int" where
  "all_deposited k D d = kv_sum (\<lambda>x. tamt k (dep_Amount x) d) D"

definition totals_ok :: "'w tunnel_keeper \<Rightarrow> (bytes, Tunnel) kv \<Rightarrow> (bytes, Deposit) kv \<Rightarrow> bool" where
  "totals_ok k T D \<longleftrightarrow>
     (\<forall>key t d. kv_get T key = Some t \<longrightarrow> tamt k (tun_TotalDeposit t) d = deposited k D (tun_ID t) d)"

definition packet_wf :: "(bytes, Tunnel) kv \<Rightarrow> bytes \<Rightarrow> Packet \<Rightarrow> bool" where
  "packet_wf T key p \<longleftrightarrow> key = TunnelPacketStoreKey (pkt_TunnelID p) (pkt_Sequence p) \<and> 1 \<le> pkt_Sequence p \<and>
     (\<exists>t. kv_get T (TunnelStoreKey (pkt_TunnelID p)) = Some t \<and> tun_ID t = pkt_TunnelID p \<and> pkt_Sequence p \<le> tun_Sequence t)"

definition packets_ok :: "(bytes, Tunnel) kv \<Rightarrow> (bytes, Packet) kv \<Rightarrow> bool" where
  "packets_ok T P \<longleftrightarrow> kv_ok P \<and> (\<forall>key p. kv_get P key = Some p \<longrightarrow> packet_wf T key p)"

definition funds_ok :: "'w tunnel_keeper \<Rightarrow> (bytes, Deposit) kv \<Rightarrow> TotalFees \<Rightarrow> 'w \<Rightarrow> bool" where
  "funds_ok k D f w \<longleftrightarrow> Coins_IsValid (tk_sdk k) (tf_TotalBasePacketFee f) \<and> tk_HasAccount k w (tmod k) \<and>
     (\<forall>d. all_deposited k D d + tamt k (tf_TotalBasePacketFee f) d \<le> mod_bal k w d)"

definition tunnel_inv :: "'w tunnel_keeper \<Rightarrow> 'w tunnel_state \<Rightarrow> bool" where
  "tunnel_inv k s \<longleftrightarrow>
     tunnels_ok k (ts_count s) (ts_tunnels s) \<and> latest_ok (ts_count s) (ts_latest_prices s) \<and>
     active_ok (ts_tunnels s) (ts_active s) \<and> deposits_ok k (ts_count s) (ts_deposits s) \<and>
     totals_ok k (ts_tunnels s) (ts_deposits s) \<and> packets_ok (ts_tunnels s) (ts_packets s) \<and>
     funds_ok k (ts_deposits s) (ts_total_fees s) (ts_world s) \<and>
     tunnel_Params_Validate (tk_sdk k) (ts_params s) = Inr ()"

lemma tunnel_invD:
  assumes "tunnel_inv k s"
  shows "tunnels_ok k (ts_count s) (ts_tunnels s)" and "latest_ok (ts_count s) (ts_latest_prices s)"
    and "active_ok (ts_tunnels s) (ts_active s)" and "deposits_ok k (ts_count s) (ts_deposits s)"
    and "totals_ok k (ts_tunnels s) (ts_deposits s)" and "packets_ok (ts_tunnels s) (ts_packets s)"
    and "funds_ok k (ts_deposits s) (ts_total_fees s) (ts_world s)"
    and "tunnel_Params_Validate (tk_sdk k) (ts_params s) = Inr ()"
  using assms unfolding tunnel_inv_def by blast+

lemma tunnel_params_valid:
  assumes "tunnel_Params_Validate sdk p = Inr ()"
  shows "Coins_IsValid sdk (tp_MinDeposit p)" and "Coins_IsValid sdk (tp_BasePacketFee p)"
  using assms by (auto simp: tunnel_Params_Validate_def split: if_splits)

lemma tunnels_okD:
  assumes "tunnels_ok k n T"
  shows "kv_ok T" and "n < 2 ^ 64"
    and "kv_get T key = Some t \<Longrightarrow> key = TunnelStoreKey (tun_ID t)" and "kv_get T key = Some t \<Longrightarrow> tunnel_wf k n t"
    and "1 \<le> i \<Longrightarrow> i \<le> n \<Longrightarrow> kv_has T (TunnelStoreKey i)"
  using assms unfolding tunnels_ok_def by blast+

lemma tunnel_wf_id: "tunnels_ok k n T \<Longrightarrow> kv_get T key = Some t \<Longrightarrow> 1 \<le> tun_ID t \<and> tun_ID t \<le> n \<and> tun_ID t < 2 ^ 64"
  using tunnels_okD [of k n T] by (metis tunnel_wf_def order_le_less_trans)

lemma GetTunnel_iff: "GetTunnel s i = Inr t \<longleftrightarrow> kv_get (ts_tunnels s) (TunnelStoreKey i) = Some t"
  by (auto simp: GetTunnel_def split: option.splits)

lemma GetTunnelD:
  assumes "tunnels_ok k n (ts_tunnels s)" and "i < 2 ^ 64" and "GetTunnel s i = Inr t"
  shows "tun_ID t = i" and "tunnel_wf k n t" and "kv_get (ts_tunnels s) (TunnelStoreKey i) = Some t"
    and "1 \<le> i" and "i \<le> n"
proof -
  show get: "kv_get (ts_tunnels s) (TunnelStoreKey i) = Some t" using assms(3) by (simp add: GetTunnel_iff)
  note w = tunnel_wf_id [OF assms(1) get]
  show id: "tun_ID t = i" using tunnels_okD(3) [OF assms(1) get] w assms(2) by simp
  show "tunnel_wf k n t" by (rule tunnels_okD(4) [OF assms(1) get])
  show "1 \<le> i" and "i \<le> n" using w id by auto
qed

lemma SetTunnel_sel [simp]:
  "ts_count (SetTunnel s t) = ts_count s" "ts_total_fees (SetTunnel s t) = ts_total_fees s"
  "ts_active (SetTunnel s t) = ts_active s" "ts_packets (SetTunnel s t) = ts_packets s"
  "ts_latest_prices (SetTunnel s t) = ts_latest_prices s" "ts_deposits (SetTunnel s t) = ts_deposits s"
  "ts_params (SetTunnel s t) = ts_params s" "ts_world (SetTunnel s t) = ts_world s"
  by (simp_all add: SetTunnel_def)

lemma SetPacket_sel [simp]:
  "ts_count (SetPacket s p) = ts_count s" "ts_total_fees (SetPacket s p) = ts_total_fees s"
  "ts_active (SetPacket s p) = ts_active s" "ts_tunnels (SetPacket s p) = ts_tunnels s"
  "ts_latest_prices (SetPacket s p) = ts_latest_prices s" "ts_deposits (SetPacket s p) = ts_deposits s"
  "ts_params (SetPacket s p) = ts_params s" "ts_world (SetPacket s p) = ts_world s"
  by (simp_all add: SetPacket_def)

lemma SetLatestPrices_sel [simp]:
  "ts_count (SetLatestPrices s l) = ts_count s" "ts_total_fees (SetLatestPrices s l) = ts_total_fees s"
  "ts_active (SetLatestPrices s l) = ts_active s" "ts_tunnels (SetLatestPrices s l) = ts_tunnels s"
  "ts_packets (SetLatestPrices s l) = ts_packets s" "ts_deposits (SetLatestPrices s l) = ts_deposits s"
  "ts_params (SetLatestPrices s l) = ts_params s" "ts_world (SetLatestPrices s l) = ts_world s"
  by (simp_all add: SetLatestPrices_def)

section \<open>Replacing a tunnel\<close>

lemma tunnels_ok_set:
  assumes "tunnels_ok k n T" and "tunnel_wf k n t"
  shows "tunnels_ok k n (kv_set T (TunnelStoreKey (tun_ID t)) t)"
  using assms unfolding tunnels_ok_def by auto

lemma packets_ok_set:
  assumes "tunnels_ok k n T" and "packets_ok T P" and "kv_get T (TunnelStoreKey (tun_ID t)) = Some u"
    and "tun_ID t = tun_ID u" and "tun_Sequence u \<le> tun_Sequence t"
  shows "packets_ok (kv_set T (TunnelStoreKey (tun_ID t)) t) P"
proof -
  have "packet_wf (kv_set T (TunnelStoreKey (tun_ID t)) t) key p" if "packet_wf T key p" for key p
    using that assms(3-5) by (auto simp: packet_wf_def)
  then show ?thesis using assms(2) by (auto simp: packets_ok_def)
qed

lemma totals_ok_set:
  "totals_ok k T D \<Longrightarrow> (\<And>d. tamt k (tun_TotalDeposit t) d = deposited k D (tun_ID t) d) \<Longrightarrow>
   totals_ok k (kv_set T (TunnelStoreKey (tun_ID t)) t) D"
  by (auto simp: totals_ok_def)

lemma active_same_key: "ActiveTunnelIDStoreKey a = ActiveTunnelIDStoreKey b \<longleftrightarrow> TunnelStoreKey a = TunnelStoreKey b"
  by (simp add: ActiveTunnelIDStoreKey_def TunnelStoreKey_def)

text \<open>Replacing a tunnel whose activity changes goes with a change of the index.\<close>

lemma active_ok_set:
  assumes ok: "active_ok T A" and A': "kv_ok A'" and same: "\<And>key. key \<noteq> ActiveTunnelIDStoreKey (tun_ID t) \<Longrightarrow> kv_has A' key = kv_has A key"
    and new: "kv_has A' (ActiveTunnelIDStoreKey (tun_ID t)) = tun_IsActive t"
  shows "active_ok (kv_set T (TunnelStoreKey (tun_ID t)) t) A'"
proof -
  let ?T = "kv_set T (TunnelStoreKey (tun_ID t)) t"
  have iff: "kv_get T (TunnelStoreKey (tun_ID v)) = Some v \<and> ActiveTunnelIDStoreKey (tun_ID v) \<noteq> ActiveTunnelIDStoreKey (tun_ID t)
      \<longleftrightarrow> kv_get ?T (TunnelStoreKey (tun_ID v)) = Some v \<and> ActiveTunnelIDStoreKey (tun_ID v) \<noteq> ActiveTunnelIDStoreKey (tun_ID t)" for v
    by (auto simp: ActiveTunnelIDStoreKey_def TunnelStoreKey_def)
  have "kv_has A' key \<longleftrightarrow> (\<exists>v. kv_get ?T (TunnelStoreKey (tun_ID v)) = Some v \<and> tun_IsActive v \<and> key = ActiveTunnelIDStoreKey (tun_ID v))" for key
  proof (cases "key = ActiveTunnelIDStoreKey (tun_ID t)")
    case True
    have "v = t" if "kv_get ?T (TunnelStoreKey (tun_ID v)) = Some v" "key = ActiveTunnelIDStoreKey (tun_ID v)" for v
      using that True by (auto simp: ActiveTunnelIDStoreKey_def TunnelStoreKey_def split: if_splits)
    moreover have "kv_get ?T (TunnelStoreKey (tun_ID t)) = Some t" by simp
    ultimately show ?thesis using True new by metis
  next
    case False
    then show ?thesis using ok same [OF False] iff unfolding active_ok_def by metis
  qed
  then show ?thesis using A' unfolding active_ok_def by blast
qed

lemma active_ok_same:
  assumes "active_ok T A" and old: "kv_get T (TunnelStoreKey (tun_ID t)) = Some u"
    and "tun_ID t = tun_ID u" and "tun_IsActive t = tun_IsActive u"
  shows "active_ok (kv_set T (TunnelStoreKey (tun_ID t)) t) A"
proof (rule active_ok_set [OF assms(1)])
  show "kv_ok A" using assms(1) by (simp add: active_ok_def)
  have "kv_has A (ActiveTunnelIDStoreKey (tun_ID t)) \<longleftrightarrow>
      (\<exists>v. kv_get T (TunnelStoreKey (tun_ID v)) = Some v \<and> tun_IsActive v \<and> ActiveTunnelIDStoreKey (tun_ID t) = ActiveTunnelIDStoreKey (tun_ID v))"
    using assms(1) by (simp add: active_ok_def)
  also have "\<dots> \<longleftrightarrow> tun_IsActive u"
    using old assms(3) active_same_key [of "tun_ID t"] by (metis option.inject)
  finally show "kv_has A (ActiveTunnelIDStoreKey (tun_ID t)) = tun_IsActive t" using assms(4) by simp
qed simp

text \<open>A change of a tunnel that keeps its identity, its deposit and its activity.\<close>

lemma inv_SetTunnel:
  assumes inv: "tunnel_inv k s" and old: "kv_get (ts_tunnels s) (TunnelStoreKey (tun_ID t)) = Some u"
    and t: "tunnel_wf k (ts_count s) t" "tun_ID t = tun_ID u" "tun_Sequence u \<le> tun_Sequence t"
    "tun_TotalDeposit t = tun_TotalDeposit u" "tun_IsActive t = tun_IsActive u"
  shows "tunnel_inv k (SetTunnel s t)"
proof -
  note i = tunnel_invD [OF inv]
  have "tamt k (tun_TotalDeposit t) d = deposited k (ts_deposits s) (tun_ID t) d" for d
    using i(5) old t(2,4) unfolding totals_ok_def by metis
  then show ?thesis
    using i tunnels_ok_set [OF i(1) t(1)] packets_ok_set [OF i(1,6) old t(2,3)] totals_ok_set [OF i(5)]
      active_ok_same [OF i(3) old t(2,5)]
    by (simp add: tunnel_inv_def SetTunnel_def)
qed

lemma inv_SetLatestPrices: "tunnel_inv k s \<Longrightarrow> lp_TunnelID l < 2 ^ 64 \<Longrightarrow> tunnel_inv k (SetLatestPrices s l)"
  by (auto simp: tunnel_inv_def SetLatestPrices_def latest_ok_def)

lemma inv_world:
  assumes "tunnel_inv k s" and "world_le k (ts_world s) w"
  shows "tunnel_inv k (s\<lparr>ts_world := w\<rparr>)"
  using assms by (auto simp: tunnel_inv_def funds_ok_def world_le_def intro: order_trans)

lemma inv_params: "tunnel_inv k s \<Longrightarrow> tunnel_SetParams k s p = Inr s' \<Longrightarrow> tunnel_inv k s'"
  by (auto simp: tunnel_inv_def tunnel_SetParams_def)

section \<open>Activation\<close>

lemma inv_set_active:
  assumes inv: "tunnel_inv k s" and old: "kv_get (ts_tunnels s) (TunnelStoreKey (tun_ID u)) = Some u"
    and A': "kv_ok A'" and same: "\<And>key. key \<noteq> ActiveTunnelIDStoreKey (tun_ID u) \<Longrightarrow> kv_has A' key = kv_has (ts_active s) key"
    and new: "kv_has A' (ActiveTunnelIDStoreKey (tun_ID u)) = b"
  shows "tunnel_inv k (SetTunnel (s\<lparr>ts_active := A'\<rparr>) (u\<lparr>tun_IsActive := b\<rparr>))"
proof -
  note i = tunnel_invD [OF inv]
  let ?u = "u\<lparr>tun_IsActive := b\<rparr>"
  have wf: "tunnel_wf k (ts_count s) ?u" using tunnels_okD(4) [OF i(1) old] by (simp add: tunnel_wf_def)
  have tot: "tamt k (tun_TotalDeposit ?u) d = deposited k (ts_deposits s) (tun_ID ?u) d" for d
    using i(5) old unfolding totals_ok_def by simp
  show ?thesis
    using i tunnels_ok_set [OF i(1) wf] packets_ok_set [OF i(1,6), of ?u u] totals_ok_set [OF i(5) tot]
      active_ok_set [OF i(3), of A' ?u] old A' same new
    by (simp add: tunnel_inv_def SetTunnel_def)
qed

lemma inv_DeactivateTunnel:
  assumes inv: "tunnel_inv k s" and "i < 2 ^ 64" and d: "DeactivateTunnel s i = Inr s'"
  shows "tunnel_inv k s'"
proof -
  note i = tunnel_invD [OF inv]
  obtain t where t: "GetTunnel s i = Inr t" and s': "s' = SetTunnel (DeleteActiveTunnelID s i) (t\<lparr>tun_IsActive := False\<rparr>)"
    using d by (auto simp: DeactivateTunnel_def Let_def)
  note g = GetTunnelD [OF i(1) assms(2) t]
  show ?thesis unfolding s' DeleteActiveTunnelID_def
    by (rule inv_set_active [OF inv]) (use g i(3) in \<open>auto simp: active_ok_def\<close>)
qed

lemma inv_ActivateTunnel:
  assumes inv: "tunnel_inv k s" and "i < 2 ^ 64" and d: "ActivateTunnel k s i = Inr s'"
  shows "tunnel_inv k s'"
proof -
  note i = tunnel_invD [OF inv]
  obtain t where t: "GetTunnel s i = Inr t" and s': "s' = SetTunnel (SetActiveTunnelID s i) (t\<lparr>tun_IsActive := True\<rparr>)"
    using d by (auto simp: ActivateTunnel_def Let_def)
  note g = GetTunnelD [OF i(1) assms(2) t]
  show ?thesis unfolding s' SetActiveTunnelID_def
    by (rule inv_set_active [OF inv]) (use g i(3) in \<open>auto simp: active_ok_def\<close>)
qed

section \<open>Deposits\<close>

lemma deposit_lookup:
  assumes "address_laws (tk_sdk k)" and "deposits_ok k n D" and "n < 2 ^ 64" and "tid < 2 ^ 64" and "valid_addr a"
    and "kv_get D (DepositStoreKey (tk_sdk k) tid a) = Some x"
  shows "dep_TunnelID x = tid" and "AccAddressFromBech32 (tk_sdk k) (dep_Depositor x) = Inr a"
    and "Coins_IsValid (tk_sdk k) (dep_Amount x)"
proof -
  have wf: "deposit_wf k n (DepositStoreKey (tk_sdk k) tid a) x" using assms(2,6) by (simp add: deposits_ok_def)
  then obtain b where b: "AccAddressFromBech32 (tk_sdk k) (dep_Depositor x) = Inr b"
      "DepositStoreKey (tk_sdk k) tid a = DepositStoreKey (tk_sdk k) (dep_TunnelID x) b" "dep_TunnelID x < 2 ^ 64"
      "Coins_IsValid (tk_sdk k) (dep_Amount x)"
    using assms(3) unfolding deposit_wf_def by (meson order_le_less_trans)
  have "valid_addr b" by (rule address_lawsD(1) [OF assms(1) b(1)])
  then have "tid = dep_TunnelID x \<and> a = b" using DepositStoreKey_inj [OF assms(1,4) b(3) assms(5)] b(2) by blast
  then show "dep_TunnelID x = tid" and "AccAddressFromBech32 (tk_sdk k) (dep_Depositor x) = Inr a"
    and "Coins_IsValid (tk_sdk k) (dep_Amount x)" using b by auto
qed

definition deposit_amt :: "'w tunnel_keeper \<Rightarrow> Deposit option \<Rightarrow> bytes \<Rightarrow> int" where
  "deposit_amt k x d = (case x of None \<Rightarrow> 0 | Some x \<Rightarrow> tamt k (dep_Amount x) d)"

text \<open>Writing or deleting the deposit of one account changes the sums by the difference.\<close>

lemma deposited_set:
  assumes "kv_ok D" and "\<forall>y. kv_get D key = Some y \<longrightarrow> dep_TunnelID y = dep_TunnelID x"
  shows "deposited k (kv_set D key x) i d = deposited k D i d +
      (if i = dep_TunnelID x then tamt k (dep_Amount x) d - deposit_amt k (kv_get D key) d else 0)"
    and "all_deposited k (kv_set D key x) d = all_deposited k D d + (tamt k (dep_Amount x) d - deposit_amt k (kv_get D key) d)"
proof -
  note defs = deposited_def all_deposited_def kv_sum_set [OF assms(1)] kv_part_def deposit_amt_def
  show "deposited k (kv_set D key x) i d = deposited k D i d +
      (if i = dep_TunnelID x then tamt k (dep_Amount x) d - deposit_amt k (kv_get D key) d else 0)"
  proof (cases "kv_get D key")
    case (Some y)
    have "dep_TunnelID y = dep_TunnelID x" using assms(2) Some by blast
    then show ?thesis using Some by (simp add: defs)
  qed (simp add: defs)
  show "all_deposited k (kv_set D key x) d = all_deposited k D d + (tamt k (dep_Amount x) d - deposit_amt k (kv_get D key) d)"
    by (cases "kv_get D key") (simp_all add: defs)
qed

lemma deposited_delete:
  assumes "kv_ok D" and "kv_get D key = Some y"
  shows "deposited k (kv_delete D key) i d = deposited k D i d - (if i = dep_TunnelID y then tamt k (dep_Amount y) d else 0)"
    and "all_deposited k (kv_delete D key) d = all_deposited k D d - tamt k (dep_Amount y) d"
  using assms(2) by (auto simp: deposited_def all_deposited_def kv_sum_delete [OF assms(1)] kv_part_def)

text \<open>
  A change of a tunnel's deposits by \<open>c\<close>, its total deposit with them, and of the balance by at
  least as much.
\<close>

lemma inv_change_deposit:
  assumes inv: "tunnel_inv k s" and t: "kv_get (ts_tunnels s) (TunnelStoreKey (tun_ID t)) = Some t"
    and D: "deposits_ok k (ts_count s) D"
    and one: "\<And>i d. deposited k D i d = deposited k (ts_deposits s) i d + (if i = tun_ID t then c d else 0)"
    and all: "\<And>d. all_deposited k D d = all_deposited k (ts_deposits s) d + c d"
    and w: "\<And>d. mod_bal k (ts_world s) d + c d \<le> mod_bal k w d" "tk_HasAccount k w (tmod k)"
    and tot: "Coins_IsValid (tk_sdk k) tot" "\<And>d. tamt k tot d = tamt k (tun_TotalDeposit t) d + c d"
  shows "tunnel_inv k (SetTunnel (s\<lparr>ts_world := w, ts_deposits := D\<rparr>) (t\<lparr>tun_TotalDeposit := tot\<rparr>))"
proof -
  note i = tunnel_invD [OF inv]
  let ?t = "t\<lparr>tun_TotalDeposit := tot\<rparr>"
  let ?T = "kv_set (ts_tunnels s) (TunnelStoreKey (tun_ID t)) ?t"
  have wf: "tunnel_wf k (ts_count s) ?t" using tunnels_okD(4) [OF i(1) t] tot(1) by (simp add: tunnel_wf_def)
  have "tamt k (tun_TotalDeposit u) d = deposited k D (tun_ID u) d" if u: "kv_get ?T key = Some u" for key u d
  proof (cases "key = TunnelStoreKey (tun_ID t)")
    case True
    then show ?thesis using u tot(2) one i(5) t by (auto simp: totals_ok_def)
  next
    case False
    then have g: "kv_get (ts_tunnels s) key = Some u" using u by simp
    then have "tun_ID u \<noteq> tun_ID t" using False tunnels_okD(3) [OF i(1) g] by auto
    then show ?thesis using g one i(5) by (simp add: totals_ok_def)
  qed
  then have "totals_ok k ?T D" by (simp add: totals_ok_def)
  moreover have "funds_ok k D (ts_total_fees s) w"
    unfolding funds_ok_def
  proof (intro conjI allI)
    fix d
    have "all_deposited k (ts_deposits s) d + tamt k (tf_TotalBasePacketFee (ts_total_fees s)) d \<le> mod_bal k (ts_world s) d"
      using i(7) by (simp add: funds_ok_def)
    then show "all_deposited k D d + tamt k (tf_TotalBasePacketFee (ts_total_fees s)) d \<le> mod_bal k w d"
      using all [of d] w(1) [of d] by linarith
  qed (use i(7) w(2) in \<open>simp_all add: funds_ok_def\<close>)
  ultimately show ?thesis
    using i D tunnels_ok_set [OF i(1) wf] packets_ok_set [OF i(1,6), of ?t t] active_ok_same [OF i(3), of ?t t] t
    by (simp add: tunnel_inv_def SetTunnel_def)
qed

lemma DepositToTunnel_cases:
  assumes laws: "tunnel_laws k" and inv: "tunnel_inv k s" and "tid < 2 ^ 64" and a: "valid_addr a"
    and c: "Coins_IsValid (tk_sdk k) c" and d: "DepositToTunnel k s tid a c = Inr s'"
  obtains t w x where "GetTunnel s tid = Inr t" and "SendCoins (tk_bank k) (ts_world s) a (tmod k) c = Inr w"
    and "s' = SetTunnel (s\<lparr>ts_world := w, ts_deposits := kv_set (ts_deposits s) (DepositStoreKey (tk_sdk k) tid a) x\<rparr>)
        (t\<lparr>tun_TotalDeposit := Coins_Add (tk_sdk k) (tun_TotalDeposit t) c\<rparr>)"
    and "dep_TunnelID x = tid" "AccAddressFromBech32 (tk_sdk k) (dep_Depositor x) = Inr a" "Coins_IsValid (tk_sdk k) (dep_Amount x)"
    and "\<forall>d. tamt k (dep_Amount x) d = deposit_amt k (GetDeposit k s tid a) d + tamt k c d"
proof -
  note i = tunnel_invD [OF inv] and L = tunnel_lawsD [OF laws]
  note coin = coin_lawsD [OF L(2)]
  let ?key = "DepositStoreKey (tk_sdk k) tid a"
  let ?old = "kv_get (ts_deposits s) ?key"
  define x where "x = (case ?old of None \<Rightarrow> \<lparr>dep_TunnelID = tid, dep_Depositor = AccAddress_String (tk_sdk k) a, dep_Amount = c\<rparr>
      | Some y \<Rightarrow> y\<lparr>dep_Amount := Coins_Add (tk_sdk k) (dep_Amount y) c\<rparr>)"
  obtain t w where t: "GetTunnel s tid = Inr t" and w: "SendCoins (tk_bank k) (ts_world s) a (tmod k) c = Inr w"
    and s': "bindE (SetDeposit k (s\<lparr>ts_world := w\<rparr>) x) (\<lambda>s. Inr (SetTunnel s
        (t\<lparr>tun_TotalDeposit := Coins_Add (tk_sdk k) (tun_TotalDeposit t) c\<rparr>))) = Inr s'"
    using d by (auto simp: DepositToTunnel_def Let_def x_def GetDeposit_def SendCoinsFromAccountToModule_def tmod_def)
  have n: "ts_count s < 2 ^ 64" by (rule tunnels_okD(2) [OF i(1)])
  have x: "dep_TunnelID x = tid" "AccAddressFromBech32 (tk_sdk k) (dep_Depositor x) = Inr a" "Coins_IsValid (tk_sdk k) (dep_Amount x)"
    "\<And>d. tamt k (dep_Amount x) d = deposit_amt k ?old d + tamt k c d"
    using deposit_lookup [OF L(1) i(4) n assms(3) a] address_lawsD(2) [OF L(1) a] c coin(5,6)
    by (auto simp: x_def deposit_amt_def split: option.splits)
  have "SetDeposit k (s\<lparr>ts_world := w\<rparr>) x = Inr (s\<lparr>ts_world := w, ts_deposits := kv_set (ts_deposits s) ?key x\<rparr>)"
    using x by (simp add: SetDeposit_def MustAccAddressFromBech32_def)
  with s' show ?thesis using that [OF t w, of x] x by (auto simp: GetDeposit_def)
qed

lemma inv_DepositToTunnel:
  assumes laws: "tunnel_laws k" and inv: "tunnel_inv k s" and "tid < 2 ^ 64" and a: "valid_addr a" "a \<noteq> tmod k"
    and c: "Coins_IsValid (tk_sdk k) c" and d: "DepositToTunnel k s tid a c = Inr s'"
  shows "tunnel_inv k s'"
proof -
  note i = tunnel_invD [OF inv] and L = tunnel_lawsD [OF laws]
  note coin = coin_lawsD [OF L(2)]
  let ?key = "DepositStoreKey (tk_sdk k) tid a"
  let ?old = "kv_get (ts_deposits s) ?key"
  obtain t w x where t: "GetTunnel s tid = Inr t" and w: "SendCoins (tk_bank k) (ts_world s) a (tmod k) c = Inr w"
    and s': "s' = SetTunnel (s\<lparr>ts_world := w, ts_deposits := kv_set (ts_deposits s) ?key x\<rparr>)
        (t\<lparr>tun_TotalDeposit := Coins_Add (tk_sdk k) (tun_TotalDeposit t) c\<rparr>)"
    and x: "dep_TunnelID x = tid" "AccAddressFromBech32 (tk_sdk k) (dep_Depositor x) = Inr a" "Coins_IsValid (tk_sdk k) (dep_Amount x)"
      "\<forall>d. tamt k (dep_Amount x) d = deposit_amt k (GetDeposit k s tid a) d + tamt k c d"
    by (rule DepositToTunnel_cases [OF laws inv assms(3) a(1) c d])
  note g = GetTunnelD [OF i(1) assms(3) t]
  have D: "kv_ok (ts_deposits s)" using i(4) by (simp add: deposits_ok_def)
  have same: "\<forall>y. ?old = Some y \<longrightarrow> dep_TunnelID y = dep_TunnelID x"
    using deposit_lookup(1) [OF L(1) i(4) tunnels_okD(2) [OF i(1)] assms(3) a(1)] x(1) by simp
  note sums = deposited_set [OF D same]
  have valid: "Coins_IsValid (tk_sdk k) (tun_TotalDeposit t)" using g(2) by (simp add: tunnel_wf_def)
  show ?thesis unfolding s'
  proof (rule inv_change_deposit [OF inv])
    show "kv_get (ts_tunnels s) (TunnelStoreKey (tun_ID t)) = Some t" using g by simp
    show "deposits_ok k (ts_count s) (kv_set (ts_deposits s) ?key x)"
      using i(4) x(1-3) g(4,5) by (auto simp: deposits_ok_def deposit_wf_def)
    show "deposited k (kv_set (ts_deposits s) ?key x) j d = deposited k (ts_deposits s) j d + (if j = tun_ID t then tamt k c d else 0)" for j d
      using sums(1) [of k j d] x g(1) by (simp add: GetDeposit_def)
    show "all_deposited k (kv_set (ts_deposits s) ?key x) d = all_deposited k (ts_deposits s) d + tamt k c d" for d
      using sums(2) [of k d] x by (simp add: GetDeposit_def)
    show "mod_bal k (ts_world s) d + tamt k c d \<le> mod_bal k w d" for d
      using send_mod_bal [OF laws c w] a(2) by simp
    show "tk_HasAccount k w (tmod k)" using L(7) [OF w] i(7) by (simp add: funds_ok_def)
  qed (use coin(5,6) valid c in auto)
qed

lemma Coins_Sub_Inr:
  assumes "coin_laws sdk" and "Coins_IsValid sdk a" and "Coins_IsValid sdk b" and "Coins_Sub sdk a b = Inr c"
  shows "Coins_IsValid sdk c" and "Coins_AmountOf sdk c d = Coins_AmountOf sdk a d - Coins_AmountOf sdk b d"
proof -
  obtain neg where "Coins_SafeSub sdk a b = (c, neg)" and "\<not> neg"
    using assms(4) by (auto simp: Coins_Sub_def split: prod.splits if_splits)
  then show "Coins_IsValid sdk c" and "Coins_AmountOf sdk c d = Coins_AmountOf sdk a d - Coins_AmountOf sdk b d"
    using coin_laws_SafeSub [OF assms(1-3)] by auto
qed

lemma Coins_Sub_ok:
  assumes "coin_laws sdk" and "Coins_IsValid sdk a" and "Coins_IsValid sdk b"
    and "\<And>d. Coins_AmountOf sdk b d \<le> Coins_AmountOf sdk a d"
  obtains c where "Coins_Sub sdk a b = Inr c"
proof -
  obtain c neg where c: "Coins_SafeSub sdk a b = (c, neg)" by fastforce
  note l = coin_laws_SafeSub [OF assms(1-3) c]
  have "\<not> neg" using l(1,2) assms(4) by (simp add: not_less)
  then show ?thesis using that c by (simp add: Coins_Sub_def)
qed

text \<open>The withdrawal up to the check whether the tunnel is still covered, which may deactivate it.\<close>

lemma WithdrawFromTunnel_cases:
  assumes laws: "tunnel_laws k" and inv: "tunnel_inv k s" and "tid < 2 ^ 64" and a: "valid_addr a"
    and c: "Coins_IsValid (tk_sdk k) c" and d: "WithdrawFromTunnel k s tid c a = Inr s'"
  obtains t y w rest tot D where "GetTunnel s tid = Inr t" and "GetDeposit k s tid a = Some y"
    and "tk_Coins_IsAllGTE k (dep_Amount y) c" and "SendCoins (tk_bank k) (ts_world s) (tmod k) a c = Inr w"
    and "Coins_Sub (tk_sdk k) (dep_Amount y) c = Inr rest" and "Coins_Sub (tk_sdk k) (tun_TotalDeposit t) c = Inr tot"
    and "D = (if Coins_IsZero (tk_sdk k) rest then kv_delete (ts_deposits s) (DepositStoreKey (tk_sdk k) tid a)
              else kv_set (ts_deposits s) (DepositStoreKey (tk_sdk k) tid a) (y\<lparr>dep_Amount := rest\<rparr>))"
    and "s' = (if tun_IsActive t \<and> \<not> tk_Coins_IsAllGTE k tot (tp_MinDeposit (ts_params s))
      then SetTunnel (DeleteActiveTunnelID (SetTunnel (s\<lparr>ts_world := w, ts_deposits := D\<rparr>) (t\<lparr>tun_TotalDeposit := tot\<rparr>)) tid)
             (t\<lparr>tun_TotalDeposit := tot, tun_IsActive := False\<rparr>)
      else SetTunnel (s\<lparr>ts_world := w, ts_deposits := D\<rparr>) (t\<lparr>tun_TotalDeposit := tot\<rparr>))"
proof -
  note i = tunnel_invD [OF inv] and L = tunnel_lawsD [OF laws]
  obtain t where t: "GetTunnel s tid = Inr t" using d by (auto simp: WithdrawFromTunnel_def)
  obtain y where y: "GetDeposit k s tid a = Some y"
    using d t by (auto simp: WithdrawFromTunnel_def split: option.splits)
  have dep: "AccAddressFromBech32 (tk_sdk k) (dep_Depositor y) = Inr a" "dep_TunnelID y = tid"
    using deposit_lookup [OF L(1) i(4) tunnels_okD(2) [OF i(1)] assms(3) a] y by (simp_all add: GetDeposit_def)
  obtain w rest tot s1 where w: "SendCoins (tk_bank k) (ts_world s) (tmod k) a c = Inr w"
    and gte: "tk_Coins_IsAllGTE k (dep_Amount y) c"
    and rest: "Coins_Sub (tk_sdk k) (dep_Amount y) c = Inr rest"
    and tot: "Coins_Sub (tk_sdk k) (tun_TotalDeposit t) c = Inr tot"
    and s1: "(if Coins_IsZero (tk_sdk k) rest then Inr (DeleteDeposit k (s\<lparr>ts_world := w\<rparr>) tid a)
        else SetDeposit k (s\<lparr>ts_world := w\<rparr>) (y\<lparr>dep_Amount := rest\<rparr>)) = Inr s1"
    and s': "(if tun_IsActive t \<and> \<not> tk_Coins_IsAllGTE k tot (tp_MinDeposit (ts_params s1))
        then DeactivateTunnel (SetTunnel s1 (t\<lparr>tun_TotalDeposit := tot\<rparr>)) tid
        else Inr (SetTunnel s1 (t\<lparr>tun_TotalDeposit := tot\<rparr>))) = Inr s'"
    using d t y by (auto simp: WithdrawFromTunnel_def SendCoinsFromModuleToAccount_def tmod_def Let_def)
  define D where "D = (if Coins_IsZero (tk_sdk k) rest then kv_delete (ts_deposits s) (DepositStoreKey (tk_sdk k) tid a)
      else kv_set (ts_deposits s) (DepositStoreKey (tk_sdk k) tid a) (y\<lparr>dep_Amount := rest\<rparr>))"
  have s1: "s1 = s\<lparr>ts_world := w, ts_deposits := D\<rparr>"
    using s1 dep by (auto simp: D_def DeleteDeposit_def SetDeposit_def MustAccAddressFromBech32_def split: if_splits)
  have id: "tun_ID t = tid" by (rule GetTunnelD(1) [OF i(1) assms(3) t])
  then have get: "GetTunnel (SetTunnel s1 (t\<lparr>tun_TotalDeposit := tot\<rparr>)) tid = Inr (t\<lparr>tun_TotalDeposit := tot\<rparr>)"
    by (simp add: GetTunnel_iff SetTunnel_def)
  show ?thesis
    using that [OF t y gte w rest tot D_def] s' get by (simp add: s1 DeactivateTunnel_def Let_def split: if_splits)
qed

lemma inv_WithdrawFromTunnel:
  assumes laws: "tunnel_laws k" and inv: "tunnel_inv k s" and "tid < 2 ^ 64" and a: "valid_addr a"
    and c: "Coins_IsValid (tk_sdk k) c" and d: "WithdrawFromTunnel k s tid c a = Inr s'"
  shows "tunnel_inv k s'"
proof -
  note i = tunnel_invD [OF inv] and L = tunnel_lawsD [OF laws]
  note coin = coin_lawsD [OF L(2)]
  obtain t y w rest tot D where x: "GetTunnel s tid = Inr t" "GetDeposit k s tid a = Some y"
      "tk_Coins_IsAllGTE k (dep_Amount y) c" "SendCoins (tk_bank k) (ts_world s) (tmod k) a c = Inr w"
      "Coins_Sub (tk_sdk k) (dep_Amount y) c = Inr rest" "Coins_Sub (tk_sdk k) (tun_TotalDeposit t) c = Inr tot"
    and D: "D = (if Coins_IsZero (tk_sdk k) rest then kv_delete (ts_deposits s) (DepositStoreKey (tk_sdk k) tid a)
              else kv_set (ts_deposits s) (DepositStoreKey (tk_sdk k) tid a) (y\<lparr>dep_Amount := rest\<rparr>))"
    and s': "s' = (if tun_IsActive t \<and> \<not> tk_Coins_IsAllGTE k tot (tp_MinDeposit (ts_params s))
      then SetTunnel (DeleteActiveTunnelID (SetTunnel (s\<lparr>ts_world := w, ts_deposits := D\<rparr>) (t\<lparr>tun_TotalDeposit := tot\<rparr>)) tid)
             (t\<lparr>tun_TotalDeposit := tot, tun_IsActive := False\<rparr>)
      else SetTunnel (s\<lparr>ts_world := w, ts_deposits := D\<rparr>) (t\<lparr>tun_TotalDeposit := tot\<rparr>))"
    by (rule WithdrawFromTunnel_cases [OF assms])
  note g = GetTunnelD [OF i(1) assms(3) x(1)]
  let ?key = "DepositStoreKey (tk_sdk k) tid a"
  have y: "kv_get (ts_deposits s) ?key = Some y" using x(2) by (simp add: GetDeposit_def)
  note dep = deposit_lookup [OF L(1) i(4) tunnels_okD(2) [OF i(1)] assms(3) a y]
  have kvD: "kv_ok (ts_deposits s)" using i(4) by (simp add: deposits_ok_def)
  note r = Coins_Sub_Inr [OF L(2) dep(3) c x(5)]
  have valid: "Coins_IsValid (tk_sdk k) (tun_TotalDeposit t)" using g(2) by (simp add: tunnel_wf_def)
  note tt = Coins_Sub_Inr [OF L(2) valid c x(6)]
  have zero: "tamt k rest d = 0" if "Coins_IsZero (tk_sdk k) rest" for d
    using coin(4) [OF r(1)] that by simp
  have "deposited k D j d = deposited k (ts_deposits s) j d + (if j = tun_ID t then - tamt k c d else 0) \<and>
      all_deposited k D d = all_deposited k (ts_deposits s) d + - tamt k c d" for j d
  proof (cases "Coins_IsZero (tk_sdk k) rest")
    case True
    then show ?thesis using deposited_delete [OF kvD y, where k = k] zero [OF True, of d] r(2) [of d] dep g(1) by (simp add: D)
  next
    case False
    have old: "\<forall>z. kv_get (ts_deposits s) ?key = Some z \<longrightarrow> dep_TunnelID z = dep_TunnelID (y\<lparr>dep_Amount := rest\<rparr>)"
      using y by simp
    show ?thesis using deposited_set [OF kvD old, where k = k] False y r(2) [of d] dep g(1) by (simp add: D deposit_amt_def)
  qed
  moreover have "deposits_ok k (ts_count s) D"
  proof (cases "Coins_IsZero (tk_sdk k) rest")
    case False
    have "deposit_wf k (ts_count s) ?key (y\<lparr>dep_Amount := rest\<rparr>)"
      using dep r(1) g(4,5) by (auto simp: deposit_wf_def)
    then show ?thesis using i(4) False by (simp add: D deposits_ok_def)
  qed (use i(4) in \<open>simp add: D deposits_ok_def\<close>)
  moreover have "mod_bal k (ts_world s) d + - tamt k c d \<le> mod_bal k w d" for d
    using send_mod_bal [OF laws c x(4), of d] coin(3) [OF c, of d] by simp
  moreover have "tk_HasAccount k w (tmod k)" using L(7) [OF x(4)] i(7) by (simp add: funds_ok_def)
  ultimately have main: "tunnel_inv k (SetTunnel (s\<lparr>ts_world := w, ts_deposits := D\<rparr>) (t\<lparr>tun_TotalDeposit := tot\<rparr>))"
    using g tt by (intro inv_change_deposit [OF inv, where c = "\<lambda>d. - tamt k c d"]) auto
  let ?s1 = "SetTunnel (s\<lparr>ts_world := w, ts_deposits := D\<rparr>) (t\<lparr>tun_TotalDeposit := tot\<rparr>)"
  have "GetTunnel ?s1 tid = Inr (t\<lparr>tun_TotalDeposit := tot\<rparr>)" using g(1) by (simp add: GetTunnel_iff SetTunnel_def)
  then have "DeactivateTunnel ?s1 tid = Inr (SetTunnel (DeleteActiveTunnelID ?s1 tid) (t\<lparr>tun_TotalDeposit := tot, tun_IsActive := False\<rparr>))"
    by (simp add: DeactivateTunnel_def Let_def)
  then show ?thesis using main inv_DeactivateTunnel [OF main assms(3)] by (simp add: s')
qed

section \<open>Packets\<close>

lemma inv_SetPacket:
  assumes "tunnel_inv k s" and "packet_wf (ts_tunnels s) (TunnelPacketStoreKey (pkt_TunnelID p) (pkt_Sequence p)) p"
  shows "tunnel_inv k (SetPacket s p)"
  using assms by (auto simp: tunnel_inv_def SetPacket_def packets_ok_def)

lemma DeductBasePacketFee_cases:
  assumes laws: "tunnel_laws k" and inv: "tunnel_inv k s" and a: "a \<noteq> tmod k" and d: "DeductBasePacketFee k s a = Inr s'"
  obtains w f where "s' = s\<lparr>ts_world := w, ts_total_fees := f\<rparr>" and "tunnel_inv k s'"
    and "SendCoins (tk_bank k) (ts_world s) a (tmod k) (tp_BasePacketFee (ts_params s)) = Inr w"
    and "\<forall>d. tamt k (tf_TotalBasePacketFee f) d =
      tamt k (tf_TotalBasePacketFee (ts_total_fees s)) d + tamt k (tp_BasePacketFee (ts_params s)) d"
proof -
  note i = tunnel_invD [OF inv] and L = tunnel_lawsD [OF laws]
  note coin = coin_lawsD [OF L(2)]
  let ?b = "tp_BasePacketFee (ts_params s)" and ?old = "tf_TotalBasePacketFee (ts_total_fees s)"
  obtain w where w: "SendCoins (tk_bank k) (ts_world s) a (tmod k) ?b = Inr w"
    and s': "s' = s\<lparr>ts_world := w, ts_total_fees := (ts_total_fees s)\<lparr>tf_TotalBasePacketFee := Coins_Add (tk_sdk k) ?old ?b\<rparr>\<rparr>"
    using d by (auto simp: DeductBasePacketFee_def SendCoinsFromAccountToModule_def tmod_def Let_def SetTotalFees_def)
  have v: "Coins_IsValid (tk_sdk k) ?b" "Coins_IsValid (tk_sdk k) ?old"
    using tunnel_params_valid(2) [OF i(8)] i(7) by (simp_all add: funds_ok_def)
  have "funds_ok k (ts_deposits s) ((ts_total_fees s)\<lparr>tf_TotalBasePacketFee := Coins_Add (tk_sdk k) ?old ?b\<rparr>) w"
    unfolding funds_ok_def
  proof (intro conjI allI)
    fix d
    have "all_deposited k (ts_deposits s) d + tamt k ?old d \<le> mod_bal k (ts_world s) d" using i(7) by (simp add: funds_ok_def)
    then show "all_deposited k (ts_deposits s) d +
        tamt k (tf_TotalBasePacketFee ((ts_total_fees s)\<lparr>tf_TotalBasePacketFee := Coins_Add (tk_sdk k) ?old ?b\<rparr>)) d \<le> mod_bal k w d"
      using send_mod_bal [OF laws v(1) w, of d] a coin(6) [OF v(2,1)] by simp
  qed (use v coin(5) L(7) [OF w] i(7) in \<open>simp_all add: funds_ok_def\<close>)
  then have "tunnel_inv k s'" using i by (simp add: s' tunnel_inv_def)
  then show ?thesis using that s' w coin(6) [OF v(2,1)] by auto
qed

text \<open>
  \<open>CreatePacket\<close> charges the fee payer, takes the next sequence number and stores the packet under
  a key no packet had.
\<close>

lemma CreatePacket_cases:
  assumes laws: "tunnel_laws k" and inv: "tunnel_inv k s" and "tid < 2 ^ 64"
    and fit: "\<And>t. GetTunnel s tid = Inr t \<Longrightarrow> tun_Sequence t + 1 < 2 ^ 64"
    and d: "CreatePacket k ctx s tid prices = Inr (p, s')"
  obtains t a w f fee where "GetTunnel s tid = Inr t" and "AccAddressFromBech32 (tk_sdk k) (tun_FeePayer t) = Inr a"
    and "SendCoins (tk_bank k) (ts_world s) a (tmod k) (tp_BasePacketFee (ts_params s)) = Inr w"
    and "\<forall>d. tamt k (tf_TotalBasePacketFee f) d =
      tamt k (tf_TotalBasePacketFee (ts_total_fees s)) d + tamt k (tp_BasePacketFee (ts_params s)) d"
    and "p = \<lparr>pkt_TunnelID = tid, pkt_Sequence = tun_Sequence t + 1, pkt_Prices = prices, pkt_Receipt = None,
          pkt_BaseFee = tp_BasePacketFee (ts_params s), pkt_RouteFee = fee, pkt_CreatedAt = Unix (tc_BlockTime ctx)\<rparr>"
    and "s' = SetPacket (SetTunnel (s\<lparr>ts_world := w, ts_total_fees := f\<rparr>) (t\<lparr>tun_Sequence := tun_Sequence t + 1\<rparr>)) p"
    and "tunnel_inv k s'" and "GetPacket s tid (tun_Sequence t + 1) = Inl ErrPacketNotFound"
proof -
  note i = tunnel_invD [OF inv] and L = tunnel_lawsD [OF laws]
  obtain t where t: "GetTunnel s tid = Inr t" using d by (auto simp: CreatePacket_def)
  note g = GetTunnelD [OF i(1) assms(3) t]
  obtain a where a: "AccAddressFromBech32 (tk_sdk k) (tun_FeePayer t) = Inr a" "a \<noteq> tmod k"
    using g(2) by (auto simp: tunnel_wf_def)
  define q where "q = (\<lambda>fee. \<lparr>pkt_TunnelID = tid, pkt_Sequence = tun_Sequence t + 1, pkt_Prices = prices, pkt_Receipt = None,
          pkt_BaseFee = tp_BasePacketFee (ts_params s), pkt_RouteFee = fee, pkt_CreatedAt = Unix (tc_BlockTime ctx)\<rparr>)"
  have u: "u64 (Suc (tun_Sequence t)) = tun_Sequence t + 1" using fit [OF t] by simp
  obtain s1 fee where s1: "DeductBasePacketFee k s a = Inr s1" and p: "p = q fee"
    and s': "s' = SetPacket (SetTunnel s1 (t\<lparr>tun_Sequence := tun_Sequence t + 1\<rparr>)) (q fee)"
    using d t a u by (auto simp: CreatePacket_def Let_def MustAccAddressFromBech32_def q_def)
  obtain w f where w: "s1 = s\<lparr>ts_world := w, ts_total_fees := f\<rparr>" "tunnel_inv k s1"
      "SendCoins (tk_bank k) (ts_world s) a (tmod k) (tp_BasePacketFee (ts_params s)) = Inr w"
    and f: "\<forall>d. tamt k (tf_TotalBasePacketFee f) d =
      tamt k (tf_TotalBasePacketFee (ts_total_fees s)) d + tamt k (tp_BasePacketFee (ts_params s)) d"
    by (rule DeductBasePacketFee_cases [OF laws inv a(2) s1]) blast
  let ?t = "t\<lparr>tun_Sequence := tun_Sequence t + 1\<rparr>"
  have "tunnel_inv k (SetTunnel s1 ?t)"
    by (rule inv_SetTunnel [OF w(2), of _ t]) (use g w fit [OF t] in \<open>auto simp: tunnel_wf_def\<close>)
  then have inv': "tunnel_inv k s'" unfolding s'
    by (rule inv_SetPacket) (use g(1) in \<open>simp add: packet_wf_def SetTunnel_def q_def\<close>)
  have fresh: "kv_get (ts_packets s) (TunnelPacketStoreKey tid (tun_Sequence t + 1)) = None"
  proof (rule ccontr)
    assume "\<not> ?thesis"
    then obtain x where x: "kv_get (ts_packets s) (TunnelPacketStoreKey tid (tun_Sequence t + 1)) = Some x" by blast
    then obtain v where v: "TunnelPacketStoreKey tid (tun_Sequence t + 1) = TunnelPacketStoreKey (pkt_TunnelID x) (pkt_Sequence x)"
        "kv_get (ts_tunnels s) (TunnelStoreKey (pkt_TunnelID x)) = Some v" "tun_ID v = pkt_TunnelID x" "pkt_Sequence x \<le> tun_Sequence v"
      using i(6) unfolding packets_ok_def packet_wf_def by blast
    have "tunnel_wf k (ts_count s) v" "pkt_TunnelID x < 2 ^ 64"
      using tunnels_okD(4) [OF i(1) v(2)] tunnel_wf_id [OF i(1) v(2)] v(3) by auto
    then have "pkt_TunnelID x = tid \<and> pkt_Sequence x = tun_Sequence t + 1"
      using v(1,4) TunnelPacketStoreKey_inj [of tid "pkt_TunnelID x" "tun_Sequence t + 1" "pkt_Sequence x"] assms(3) fit [OF t]
      by (auto simp: tunnel_wf_def)
    then show False using v(2,4) g(3) by simp
  qed
  then have fresh: "GetPacket s tid (tun_Sequence t + 1) = Inl ErrPacketNotFound" by (simp add: GetPacket_def)
  show ?thesis
    by (rule that [OF t a(1) w(3) f p [unfolded q_def] _ inv' fresh]) (simp add: s' w(1) p)
qed

end
