(* ===== verification/Tunnel_Packet.thy ===== *)
theory Tunnel_Packet
  imports Tunnel_Inv
begin

text \<open>
  What producing a packet of \<open>x/tunnel\<close> does: which prices it carries, how the latest prices
  follow, what is charged, and that one tunnel's packets touch nothing of another tunnel. The
  section on steps closes the invariant under all messages, the end of a block, the IBC callbacks
  and whatever other modules do to the world.
\<close>

section \<open>The prices of a packet\<close>

definition feed_price :: "(bytes, Price) kv \<Rightarrow> int64 \<Rightarrow> bytes \<Rightarrow> Price" where
  "feed_price pm now sid = (case kv_get pm sid of Some p \<Rightarrow> p
     | None \<Rightarrow> \<lparr>price_Status = PRICE_STATUS_NOT_IN_CURRENT_FEEDS, price_SignalID = sid, price_Price = 0, price_Timestamp = now\<rparr>)"

definition deviation :: "(bytes, Price) kv \<Rightarrow> (bytes, Price) kv \<Rightarrow> int64 \<Rightarrow> bytes \<Rightarrow> int" where
  "deviation lm pm now sid =
     calculateDeviationBPS (case kv_get lm sid of Some p \<Rightarrow> int (price_Price p) | None \<Rightarrow> 0) (int (price_Price (feed_price pm now sid)))"

lemma new_price_step_eq:
  "new_price_step lm pm now sendAll (b, ps) sd =
     (b \<or> sendAll \<or> int (sd_HardDeviationBPS sd) \<le> deviation lm pm now (sd_SignalID sd),
      ps @ (if sendAll \<or> int (sd_HardDeviationBPS sd) \<le> deviation lm pm now (sd_SignalID sd) \<or>
               int (sd_SoftDeviationBPS sd) \<le> deviation lm pm now (sd_SignalID sd)
            then [feed_price pm now (sd_SignalID sd)] else []))"
  by (simp add: new_price_step_def deviation_def feed_price_def Let_def)

lemma new_price_fold:
  "foldl (new_price_step lm pm now sendAll) (b, ps) sds =
     (b \<or> (\<exists>sd\<in>set sds. sendAll \<or> int (sd_HardDeviationBPS sd) \<le> deviation lm pm now (sd_SignalID sd)),
      ps @ map (\<lambda>sd. feed_price pm now (sd_SignalID sd))
        (filter (\<lambda>sd. sendAll \<or> int (sd_HardDeviationBPS sd) \<le> deviation lm pm now (sd_SignalID sd) \<or>
           int (sd_SoftDeviationBPS sd) \<le> deviation lm pm now (sd_SignalID sd)) sds))"
proof (induction sds arbitrary: b ps)
  case (Cons sd sds)
  show ?case unfolding foldl_Cons new_price_step_eq Cons.IH by auto
qed simp

section \<open>The latest prices\<close>

lemma CreatePricesMap_snoc: "CreatePricesMap (ps @ [p]) = kv_set (CreatePricesMap ps) (price_SignalID p) p"
  by (simp add: CreatePricesMap_def)

lemma prices_index_snoc: "prices_index (ps @ [p]) = kv_set (prices_index ps) (price_SignalID p) (length ps)"
  by (simp add: prices_index_def enumerate_append_eq)

text \<open>The index holds, for every signal of the list, the place of its last price.\<close>

definition last_places :: "Price list \<Rightarrow> (bytes, nat) kv \<Rightarrow> bool" where
  "last_places ps m \<longleftrightarrow>
     (\<forall>sid. case kv_get m sid of
        None \<Rightarrow> \<forall>p\<in>set ps. price_SignalID p \<noteq> sid
      | Some i \<Rightarrow> i < length ps \<and> price_SignalID (ps ! i) = sid \<and> (\<forall>j. i < j \<longrightarrow> j < length ps \<longrightarrow> price_SignalID (ps ! j) \<noteq> sid))"

lemma last_places_snoc:
  assumes "last_places ps m"
  shows "last_places (ps @ [p]) (kv_set m (price_SignalID p) (length ps))"
  using assms unfolding last_places_def by (fastforce simp: nth_append split: option.splits)

lemma last_places_index: "last_places ps (prices_index ps)"
proof (induction ps rule: rev_induct)
  case Nil
  show ?case by (simp add: last_places_def prices_index_def)
next
  case (snoc p ps)
  then show ?case by (simp add: prices_index_snoc last_places_snoc)
qed

lemma last_places_update:
  assumes "last_places ps m" and "kv_get m (price_SignalID p) = Some i"
  shows "last_places (ps[i := p]) m"
proof -
  have i: "i < length ps" "price_SignalID (ps ! i) = price_SignalID p"
    using assms(1) [unfolded last_places_def, rule_format, of "price_SignalID p"] assms(2) by auto
  have same: "price_SignalID (ps[i := p] ! j) = price_SignalID (ps ! j)" if "j < length ps" for j
    using i that by (cases "i = j") auto
  have old: "\<And>sid. case kv_get m sid of
        None \<Rightarrow> \<forall>j<length ps. price_SignalID (ps ! j) \<noteq> sid
      | Some i \<Rightarrow> i < length ps \<and> price_SignalID (ps ! i) = sid \<and> (\<forall>j. i < j \<longrightarrow> j < length ps \<longrightarrow> price_SignalID (ps ! j) \<noteq> sid)"
    using assms(1) unfolding last_places_def all_set_conv_all_nth by blast
  have "case kv_get m sid of
        None \<Rightarrow> \<forall>j<length ps. price_SignalID (ps[i := p] ! j) \<noteq> sid
      | Some i' \<Rightarrow> i' < length ps \<and> price_SignalID (ps[i := p] ! i') = sid \<and>
          (\<forall>j. i' < j \<longrightarrow> j < length ps \<longrightarrow> price_SignalID (ps[i := p] ! j) \<noteq> sid)" for sid
    using old [of sid] same by (simp split: option.splits)
  then show ?thesis unfolding last_places_def all_set_conv_all_nth length_list_update by blast
qed

lemma CreatePricesMap_None: "kv_get (CreatePricesMap ps) sid = None \<longleftrightarrow> (\<forall>p\<in>set ps. price_SignalID p \<noteq> sid)"
  by (induction ps rule: rev_induct) (auto simp: CreatePricesMap_snoc, simp add: CreatePricesMap_def)

lemma CreatePricesMap_nth:
  assumes "i < length ps" and "price_SignalID (ps ! i) = sid" and "\<forall>j. i < j \<longrightarrow> j < length ps \<longrightarrow> price_SignalID (ps ! j) \<noteq> sid"
  shows "kv_get (CreatePricesMap ps) sid = Some (ps ! i)"
  using assms
proof (induction ps rule: rev_induct)
  case (snoc p ps)
  show ?case
  proof (cases "i = length ps")
    case True
    then show ?thesis using snoc.prems(2) by (simp add: CreatePricesMap_snoc)
  next
    case False
    then have i: "i < length ps" using snoc.prems(1) by simp
    then have "price_SignalID p \<noteq> sid" using snoc.prems(3) [rule_format, of "length ps"] by simp
    moreover have "\<forall>j. i < j \<longrightarrow> j < length ps \<longrightarrow> price_SignalID (ps ! j) \<noteq> sid"
    proof (intro allI impI)
      fix j assume "i < j" "j < length ps"
      then show "price_SignalID (ps ! j) \<noteq> sid" using snoc.prems(3) [rule_format, of j] by (simp add: nth_append)
    qed
    ultimately show ?thesis using snoc.IH i snoc.prems(2) by (simp add: CreatePricesMap_snoc nth_append)
  qed
qed simp

lemma CreatePricesMap_last:
  assumes "last_places ps m"
  shows "kv_get (CreatePricesMap ps) sid = map_option ((!) ps) (kv_get m sid)"
  using assms [unfolded last_places_def, rule_format, of sid] CreatePricesMap_None [of ps sid] CreatePricesMap_nth [of _ ps sid]
  by (cases "kv_get m sid") auto

text \<open>After \<open>UpdatePrices\<close> a signal has its new price, if there is one, and else the one it had.\<close>

lemma update_price_step:
  assumes "last_places ps m" and "update_price (ps, m) p = (ps', m')"
  shows "last_places ps' m'"
    and "kv_get (CreatePricesMap ps') sid = (if sid = price_SignalID p then Some p else kv_get (CreatePricesMap ps) sid)"
proof -
  show L: "last_places ps' m'"
    using assms last_places_snoc [OF assms(1), of p] last_places_update [OF assms(1), of p]
    by (auto simp: update_price_def split: option.splits)
  show "kv_get (CreatePricesMap ps') sid = (if sid = price_SignalID p then Some p else kv_get (CreatePricesMap ps) sid)"
  proof (cases "kv_get m (price_SignalID p)")
    case None
    then show ?thesis using assms(2) by (auto simp: update_price_def CreatePricesMap_snoc)
  next
    case (Some i)
    then have ps': "ps' = ps[i := p]" "m' = m" using assms(2) by (auto simp: update_price_def)
    have i: "i < length ps" "price_SignalID (ps ! i) = price_SignalID p"
      using assms(1) [unfolded last_places_def, rule_format, of "price_SignalID p"] Some by auto
    have "kv_get m sid = Some i \<longleftrightarrow> sid = price_SignalID p"
      using assms(1) [unfolded last_places_def, rule_format, of sid] Some i by auto
    then show ?thesis
      using CreatePricesMap_last [OF L, of sid] CreatePricesMap_last [OF assms(1), of sid] i(1) Some
      by (cases "kv_get m sid") (auto simp: ps' nth_list_update)
  qed
qed

lemma update_price_fold:
  assumes "last_places ps m"
  shows "kv_get (CreatePricesMap (fst (foldl update_price (ps, m) new))) sid =
    (case kv_get (CreatePricesMap new) sid of None \<Rightarrow> kv_get (CreatePricesMap ps) sid | Some p \<Rightarrow> Some p)"
    (is "?A new") and "case foldl update_price (ps, m) new of (ps', m') \<Rightarrow> last_places ps' m'" (is "?L new")
proof -
  have both: "?A new \<and> ?L new"
  proof (induction new rule: rev_induct)
    case Nil
    show ?case using assms by (simp add: CreatePricesMap_def [of "[]"])
  next
    case (snoc p new)
    obtain ps1 m1 where 1: "foldl update_price (ps, m) new = (ps1, m1)" by fastforce
    obtain ps2 m2 where 2: "update_price (ps1, m1) p = (ps2, m2)" by fastforce
    have L: "last_places ps1 m1" using snoc 1 by simp
    show ?case using snoc 1 2 update_price_step [OF L 2] by (simp add: CreatePricesMap_snoc)
  qed
  show "?A new" by (rule both [THEN conjunct1])
  show "?L new" by (rule both [THEN conjunct2])
qed

lemma UpdatePrices_lookup:
  "kv_get (CreatePricesMap (lp_Prices (UpdatePrices l new))) sid =
    (case kv_get (CreatePricesMap new) sid of None \<Rightarrow> kv_get (CreatePricesMap (lp_Prices l)) sid | Some p \<Rightarrow> Some p)"
  by (simp add: UpdatePrices_def update_price_fold(1) [OF last_places_index])

lemma UpdatePrices_sel [simp]:
  "lp_TunnelID (UpdatePrices l new) = lp_TunnelID l" "lp_LastInterval (UpdatePrices l new) = lp_LastInterval l"
  by (simp_all add: UpdatePrices_def)

section \<open>Sending\<close>

lemma SendPacket_cases:
  assumes laws: "tunnel_laws k" and inv: "tunnel_inv k s" and "pkt_TunnelID p < 2 ^ 64" and d: "SendPacket k ctx s p = Inr s'"
  obtains r w where "s' = SetPacket (s\<lparr>ts_world := w\<rparr>) (p\<lparr>pkt_Receipt := Some r\<rparr>)" and "world_le k (ts_world s) w"
proof -
  note i = tunnel_invD [OF inv] and L = tunnel_lawsD [OF laws]
  obtain t where t: "GetTunnel s (pkt_TunnelID p) = Inr t"
    using d by (auto simp: SendPacket_def recover_def split: sum.splits if_splits)
  obtain a where a: "AccAddressFromBech32 (tk_sdk k) (tun_FeePayer t) = Inr a" "a \<noteq> tmod k"
    using GetTunnelD(2) [OF i(1) assms(3) t] by (auto simp: tunnel_wf_def)
  show ?thesis
    using d t a that L(10,11) [of "ts_world s"]
    by (auto simp: SendPacket_def recover_def SendTSSPacket_def SendIBCPacket_def Let_def MustAccAddressFromBech32_def
        split: sum.splits if_splits RouteI.splits option.splits)
qed

text \<open>A failure to send is an error and never a panic.\<close>

lemma SendPacket_no_panic: "SendPacket k ctx s p = Inl e \<Longrightarrow> \<not> is_panic e"
  by (auto simp: SendPacket_def recover_def ErrSendPacketPanic_def split: sum.splits if_splits)

section \<open>Producing packets\<close>

text \<open>What belongs to one tunnel: the tunnel, its latest prices, its packets.\<close>

definition same_view :: "'w tunnel_state \<Rightarrow> 'w tunnel_state \<Rightarrow> uint64 \<Rightarrow> bool" where
  "same_view s s' i \<longleftrightarrow> GetTunnel s' i = GetTunnel s i \<and> GetLatestPrices s' i = GetLatestPrices s i \<and>
     (\<forall>q<2 ^ 64. GetPacket s' i q = GetPacket s i q)"

text \<open>What producing packets never changes.\<close>

definition same_base :: "'w tunnel_state \<Rightarrow> 'w tunnel_state \<Rightarrow> bool" where
  "same_base s s' \<longleftrightarrow> ts_count s' = ts_count s \<and> ts_deposits s' = ts_deposits s \<and> ts_params s' = ts_params s"

definition send_all :: "tunnel_ctx \<Rightarrow> Tunnel \<Rightarrow> LatestPrices \<Rightarrow> bool" where
  "send_all ctx t l \<longleftrightarrow> Unix (tc_BlockTime ctx) \<ge> i64 (i64 (int (tun_Interval t)) + lp_LastInterval l)"

definition new_prices :: "tunnel_ctx \<Rightarrow> (bytes, Price) kv \<Rightarrow> Tunnel \<Rightarrow> LatestPrices \<Rightarrow> Price list" where
  "new_prices ctx pm t l =
     GenerateNewPrices (tun_SignalDeviations t) (CreatePricesMap (lp_Prices l)) pm (Unix (tc_BlockTime ctx)) (send_all ctx t l)"

text \<open>A packet of the tunnel was sent with the given prices: the next sequence number, a receipt, the new latest prices.\<close>

definition packet_sent ::
  "tunnel_ctx \<Rightarrow> 'w tunnel_state \<Rightarrow> 'w tunnel_state \<Rightarrow> Tunnel \<Rightarrow> Price list \<Rightarrow> LatestPrices \<Rightarrow> bool" where
  "packet_sent ctx s s' t prices l' \<longleftrightarrow>
     GetTunnel s' (tun_ID t) = Inr (t\<lparr>tun_Sequence := tun_Sequence t + 1\<rparr>) \<and>
     GetPacket s (tun_ID t) (tun_Sequence t + 1) = Inl ErrPacketNotFound \<and>
     (\<exists>p. GetPacket s' (tun_ID t) (tun_Sequence t + 1) = Inr p \<and> pkt_Prices p = prices \<and> pkt_Receipt p \<noteq> None \<and>
        pkt_CreatedAt p = Unix (tc_BlockTime ctx) \<and> pkt_BaseFee p = tp_BasePacketFee (ts_params s)) \<and>
     (\<forall>q<2 ^ 64. q \<noteq> tun_Sequence t + 1 \<longrightarrow> GetPacket s' (tun_ID t) q = GetPacket s (tun_ID t) q) \<and>
     GetLatestPrices s' (tun_ID t) = Inr l'"

lemma GetLatestPrices_iff: "GetLatestPrices s i = Inr l \<longleftrightarrow> kv_get (ts_latest_prices s) (LatestPricesStoreKey i) = Some l"
  by (auto simp: GetLatestPrices_def split: option.splits)

lemma same_view_refl [simp]: "same_view s s i" and same_base_refl [simp]: "same_base s s"
  by (simp_all add: same_view_def same_base_def)

lemma same_base_trans: "same_base a b \<Longrightarrow> same_base b c \<Longrightarrow> same_base a c"
  by (simp add: same_base_def)

lemma same_view_trans: "same_view a b i \<Longrightarrow> same_view b c i \<Longrightarrow> same_view a c i"
  by (simp add: same_view_def)

lemma GetLatestPricesD:
  assumes "latest_ok n (ts_latest_prices s)" and "i < 2 ^ 64" and "GetLatestPrices s i = Inr l"
  shows "lp_TunnelID l = i"
proof -
  have "LatestPricesStoreKey i = LatestPricesStoreKey (lp_TunnelID l) \<and> lp_TunnelID l < 2 ^ 64"
    using assms(1,3) unfolding latest_ok_def GetLatestPrices_iff by blast
  then show ?thesis using tunnel_key_inj(3) [OF assms(2)] by metis
qed

text \<open>Creating and sending a packet.\<close>

lemma create_send:
  assumes laws: "tunnel_laws k" and inv: "tunnel_inv k s" and "i < 2 ^ 64"
    and fit: "\<And>t. GetTunnel s i = Inr t \<Longrightarrow> tun_Sequence t + 1 < 2 ^ 64" and t: "GetTunnel s i = Inr t"
    and c: "CreatePacket k ctx s i prices = Inr (p, s1)" and d: "SendPacket k ctx s1 p = Inr s2"
  obtains w f r p' where "s2 = SetPacket (SetPacket (SetTunnel (s\<lparr>ts_world := w, ts_total_fees := f\<rparr>) (t\<lparr>tun_Sequence := tun_Sequence t + 1\<rparr>)) p) p'"
    and "p' = p\<lparr>pkt_Receipt := Some r\<rparr>" and "tunnel_inv k s2" and "tun_ID t = i"
    and "pkt_TunnelID p = i" "pkt_Sequence p = tun_Sequence t + 1" "pkt_Prices p = prices"
      "pkt_CreatedAt p = Unix (tc_BlockTime ctx)" "pkt_BaseFee p = tp_BasePacketFee (ts_params s)"
    and "GetPacket s i (tun_Sequence t + 1) = Inl ErrPacketNotFound"
    and "\<forall>d. tamt k (tf_TotalBasePacketFee f) d =
      tamt k (tf_TotalBasePacketFee (ts_total_fees s)) d + tamt k (tp_BasePacketFee (ts_params s)) d"
proof -
  obtain t' a w f fee where x: "GetTunnel s i = Inr t'" "AccAddressFromBech32 (tk_sdk k) (tun_FeePayer t') = Inr a"
      "SendCoins (tk_bank k) (ts_world s) a (tmod k) (tp_BasePacketFee (ts_params s)) = Inr w"
      "\<forall>d. tamt k (tf_TotalBasePacketFee f) d =
        tamt k (tf_TotalBasePacketFee (ts_total_fees s)) d + tamt k (tp_BasePacketFee (ts_params s)) d"
    and p: "p = \<lparr>pkt_TunnelID = i, pkt_Sequence = tun_Sequence t' + 1, pkt_Prices = prices, pkt_Receipt = None,
          pkt_BaseFee = tp_BasePacketFee (ts_params s), pkt_RouteFee = fee, pkt_CreatedAt = Unix (tc_BlockTime ctx)\<rparr>"
    and s1: "s1 = SetPacket (SetTunnel (s\<lparr>ts_world := w, ts_total_fees := f\<rparr>) (t'\<lparr>tun_Sequence := tun_Sequence t' + 1\<rparr>)) p"
    and inv1: "tunnel_inv k s1" and fresh: "GetPacket s i (tun_Sequence t' + 1) = Inl ErrPacketNotFound"
    by (rule CreatePacket_cases [OF laws inv assms(3) fit c])
  have t': "t' = t" using x(1) t by simp
  have id: "tun_ID t = i" by (rule GetTunnelD(1) [OF tunnel_invD(1) [OF inv] assms(3) t])
  obtain r w' where s2: "s2 = SetPacket (s1\<lparr>ts_world := w'\<rparr>) (p\<lparr>pkt_Receipt := Some r\<rparr>)" and w': "world_le k (ts_world s1) w'"
    by (rule SendPacket_cases [OF laws inv1 _ d]) (use p assms(3) in auto)
  have eq: "s2 = SetPacket (SetPacket (SetTunnel (s\<lparr>ts_world := w', ts_total_fees := f\<rparr>) (t\<lparr>tun_Sequence := tun_Sequence t + 1\<rparr>)) p)
      (p\<lparr>pkt_Receipt := Some r\<rparr>)"
    by (simp add: s2 s1 t' SetPacket_def SetTunnel_def)
  have "tunnel_inv k s2" unfolding s2
    by (rule inv_SetPacket [OF inv_world [OF inv1 w']])
      (use p id t' in \<open>simp add: packet_wf_def s1 SetTunnel_def\<close>)
  then show ?thesis using that [OF eq refl] id p fresh x(4) t' by simp
qed

lemma packet_lookup:
  assumes "i < 2 ^ 64" "q < 2 ^ 64" "pkt_TunnelID p < 2 ^ 64" "pkt_Sequence p < 2 ^ 64"
  shows "GetPacket (SetPacket s p) i q = (if i = pkt_TunnelID p \<and> q = pkt_Sequence p then Inr p else GetPacket s i q)"
  using assms by (simp add: GetPacket_def SetPacket_def TunnelPacketStoreKey_inj)

lemma tunnel_lookup:
  "i < 2 ^ 64 \<Longrightarrow> tun_ID t < 2 ^ 64 \<Longrightarrow> GetTunnel (SetTunnel s t) i = (if i = tun_ID t then Inr t else GetTunnel s i)"
  by (simp add: GetTunnel_def SetTunnel_def)

lemma latest_lookup:
  "i < 2 ^ 64 \<Longrightarrow> lp_TunnelID l < 2 ^ 64 \<Longrightarrow>
   GetLatestPrices (SetLatestPrices s l) i = (if i = lp_TunnelID l then Inr l else GetLatestPrices s i)"
  by (simp add: GetLatestPrices_def SetLatestPrices_def)

lemma lookup_other [simp]:
  "GetTunnel (SetPacket s p) i = GetTunnel s i" "GetTunnel (SetLatestPrices s l) i = GetTunnel s i"
  "GetPacket (SetTunnel s t) i q = GetPacket s i q" "GetPacket (SetLatestPrices s l) i q = GetPacket s i q"
  "GetLatestPrices (SetTunnel s t) i = GetLatestPrices s i" "GetLatestPrices (SetPacket s p) i = GetLatestPrices s i"
  "GetTunnel (s\<lparr>ts_world := w\<rparr>) i = GetTunnel s i" "GetTunnel (s\<lparr>ts_world := w, ts_total_fees := f\<rparr>) i = GetTunnel s i"
  "GetPacket (s\<lparr>ts_world := w\<rparr>) i q = GetPacket s i q" "GetPacket (s\<lparr>ts_world := w, ts_total_fees := f\<rparr>) i q = GetPacket s i q"
  "GetLatestPrices (s\<lparr>ts_world := w\<rparr>) i = GetLatestPrices s i"
  "GetLatestPrices (s\<lparr>ts_world := w, ts_total_fees := f\<rparr>) i = GetLatestPrices s i"
  "GetTunnel (DeleteActiveTunnelID s j) i = GetTunnel s i" "GetPacket (DeleteActiveTunnelID s j) i q = GetPacket s i q"
  "GetLatestPrices (DeleteActiveTunnelID s j) i = GetLatestPrices s i"
  "GetTunnel (SetActiveTunnelID s j) i = GetTunnel s i" "ts_params (SetActiveTunnelID s j) = ts_params s"
  by (simp_all add: GetTunnel_def GetPacket_def GetLatestPrices_def DeleteActiveTunnelID_def SetActiveTunnelID_def)

lemma create_send_store:
  assumes laws: "tunnel_laws k" and inv: "tunnel_inv k s" and i: "i < 2 ^ 64"
    and fit: "\<And>t. GetTunnel s i = Inr t \<Longrightarrow> tun_Sequence t + 1 < 2 ^ 64" and t: "GetTunnel s i = Inr t"
    and c: "CreatePacket k ctx s i prices = Inr (p, s1)" and d: "SendPacket k ctx s1 p = Inr s2" and l: "lp_TunnelID l = i"
  shows "tunnel_inv k (SetLatestPrices s2 l)" and "same_base s (SetLatestPrices s2 l)"
    and "packet_sent ctx s (SetLatestPrices s2 l) t prices l"
    and "\<forall>j<2 ^ 64. j \<noteq> i \<longrightarrow> same_view s (SetLatestPrices s2 l) j" and "ts_active s2 = ts_active s"
    and "\<forall>d. tamt k (tf_TotalBasePacketFee (ts_total_fees s2)) d =
      tamt k (tf_TotalBasePacketFee (ts_total_fees s)) d + tamt k (tp_BasePacketFee (ts_params s)) d"
proof -
  obtain w f r p' where s2: "s2 = SetPacket (SetPacket (SetTunnel (s\<lparr>ts_world := w, ts_total_fees := f\<rparr>)
        (t\<lparr>tun_Sequence := tun_Sequence t + 1\<rparr>)) p) p'"
    and p': "p' = p\<lparr>pkt_Receipt := Some r\<rparr>" and inv2: "tunnel_inv k s2" and id: "tun_ID t = i"
    and p: "pkt_TunnelID p = i" "pkt_Sequence p = tun_Sequence t + 1" "pkt_Prices p = prices"
      "pkt_CreatedAt p = Unix (tc_BlockTime ctx)" "pkt_BaseFee p = tp_BasePacketFee (ts_params s)"
    and fresh: "GetPacket s i (tun_Sequence t + 1) = Inl ErrPacketNotFound"
    and f: "\<forall>d. tamt k (tf_TotalBasePacketFee f) d =
      tamt k (tf_TotalBasePacketFee (ts_total_fees s)) d + tamt k (tp_BasePacketFee (ts_params s)) d"
    by (rule create_send [OF laws inv i fit t c d]) blast
  have seq: "tun_Sequence t + 1 < 2 ^ 64" by (rule fit [OF t])
  show "tunnel_inv k (SetLatestPrices s2 l)" using inv_SetLatestPrices [OF inv2] l i by simp
  show "same_base s (SetLatestPrices s2 l)" by (simp add: same_base_def s2)
  show "ts_active s2 = ts_active s" by (simp add: s2)
  show "\<forall>d. tamt k (tf_TotalBasePacketFee (ts_total_fees s2)) d =
      tamt k (tf_TotalBasePacketFee (ts_total_fees s)) d + tamt k (tp_BasePacketFee (ts_params s)) d"
    using f by (simp add: s2)
  show "packet_sent ctx s (SetLatestPrices s2 l) t prices l"
    using i seq id p l fresh by (simp add: packet_sent_def s2 p' packet_lookup tunnel_lookup latest_lookup)
  show "\<forall>j<2 ^ 64. j \<noteq> i \<longrightarrow> same_view s (SetLatestPrices s2 l) j"
    using i seq id p l by (simp add: same_view_def s2 p' packet_lookup tunnel_lookup latest_lookup)
qed

text \<open>The latest prices after a packet.\<close>

definition updated_prices :: "tunnel_ctx \<Rightarrow> Tunnel \<Rightarrow> LatestPrices \<Rightarrow> Price list \<Rightarrow> LatestPrices" where
  "updated_prices ctx t l prices =
     (if send_all ctx t l then (UpdatePrices l prices)\<lparr>lp_LastInterval := Unix (tc_BlockTime ctx)\<rparr> else UpdatePrices l prices)"

lemma updated_prices_sel [simp]:
  "lp_TunnelID (updated_prices ctx t l prices) = lp_TunnelID l"
  "lp_LastInterval (updated_prices ctx t l prices) = (if send_all ctx t l then Unix (tc_BlockTime ctx) else lp_LastInterval l)"
  "lp_Prices (updated_prices ctx t l prices) = lp_Prices (UpdatePrices l prices)"
  by (simp_all add: updated_prices_def)

lemma latest_exists:
  assumes "tunnel_inv k s" and "i < 2 ^ 64" and "GetTunnel s i = Inr t"
  obtains l where "GetLatestPrices s i = Inr l" and "lp_TunnelID l = i"
proof -
  note inv = tunnel_invD [OF assms(1)]
  have "1 \<le> i" "i \<le> ts_count s" using GetTunnelD(4,5) [OF inv(1) assms(2,3)] by auto
  then have "kv_has (ts_latest_prices s) (LatestPricesStoreKey i)" using inv(2) by (simp add: latest_ok_def)
  then obtain l where "GetLatestPrices s i = Inr l" by (auto simp: kv_has_def GetLatestPrices_iff)
  then show ?thesis using that GetLatestPricesD [OF inv(2) assms(2)] by blast
qed

lemma ProducePacket_spec:
  assumes laws: "tunnel_laws k" and inv: "tunnel_inv k s" and i: "i < 2 ^ 64"
    and fit: "\<And>t. GetTunnel s i = Inr t \<Longrightarrow> tun_Sequence t + 1 < 2 ^ 64"
    and t: "GetTunnel s i = Inr t" and l: "GetLatestPrices s i = Inr l"
  shows "new_prices ctx pm t l = [] \<Longrightarrow> ProducePacket k ctx s i pm = Inr s"
    and "new_prices ctx pm t l \<noteq> [] \<Longrightarrow> ProducePacket k ctx s i pm = Inr s' \<Longrightarrow>
      tunnel_inv k s' \<and> same_base s s' \<and> packet_sent ctx s s' t (new_prices ctx pm t l) (updated_prices ctx t l (new_prices ctx pm t l)) \<and>
      (\<forall>j<2 ^ 64. j \<noteq> i \<longrightarrow> same_view s s' j) \<and> ts_active s' = ts_active s \<and>
      (\<forall>d. tamt k (tf_TotalBasePacketFee (ts_total_fees s')) d =
        tamt k (tf_TotalBasePacketFee (ts_total_fees s)) d + tamt k (tp_BasePacketFee (ts_params s)) d)"
proof -
  have id: "tun_ID t = i" by (rule GetTunnelD(1) [OF tunnel_invD(1) [OF inv] i t])
  have lid: "lp_TunnelID l = i" by (rule GetLatestPricesD [OF tunnel_invD(2) [OF inv] i l])
  let ?new = "new_prices ctx pm t l"
  have run: "ProducePacket k ctx s i pm = (if ?new = [] then Inr s else
      bindE (CreatePacket k ctx s i ?new) (\<lambda>(packet, s). bindE (SendPacket k ctx s packet) (\<lambda>s.
        Inr (SetLatestPrices s (updated_prices ctx t l ?new)))))"
    using t l id by (simp add: ProducePacket_def Let_def new_prices_def send_all_def updated_prices_def)
  show "ProducePacket k ctx s i pm = Inr s" if "?new = []" using run that by simp
  show "tunnel_inv k s' \<and> same_base s s' \<and> packet_sent ctx s s' t ?new (updated_prices ctx t l ?new) \<and>
      (\<forall>j<2 ^ 64. j \<noteq> i \<longrightarrow> same_view s s' j) \<and> ts_active s' = ts_active s \<and>
      (\<forall>d. tamt k (tf_TotalBasePacketFee (ts_total_fees s')) d =
        tamt k (tf_TotalBasePacketFee (ts_total_fees s)) d + tamt k (tp_BasePacketFee (ts_params s)) d)"
    if ne: "?new \<noteq> []" and d: "ProducePacket k ctx s i pm = Inr s'"
  proof -
    obtain p s1 s2 where c: "CreatePacket k ctx s i ?new = Inr (p, s1)" and sd: "SendPacket k ctx s1 p = Inr s2"
      and s': "s' = SetLatestPrices s2 (updated_prices ctx t l ?new)"
      using d run ne by auto
    have "lp_TunnelID (updated_prices ctx t l ?new) = i" using lid by simp
    from create_send_store [OF laws inv i fit t c sd this] show ?thesis unfolding s' by simp
  qed
qed

text \<open>One turn of the loop over the active tunnels.\<close>

definition view_turn :: "tunnel_ctx \<Rightarrow> (bytes, Price) kv \<Rightarrow> 'w tunnel_state \<Rightarrow> 'w tunnel_state \<Rightarrow> uint64 \<Rightarrow> bool" where
  "view_turn ctx pm s s' i \<longleftrightarrow>
     same_view s s' i \<or>
     (\<exists>t. GetTunnel s i = Inr t \<and> GetTunnel s' i = Inr (t\<lparr>tun_IsActive := False\<rparr>) \<and>
        GetLatestPrices s' i = GetLatestPrices s i \<and> (\<forall>q<2 ^ 64. GetPacket s' i q = GetPacket s i q)) \<or>
     (\<exists>t l. GetTunnel s i = Inr t \<and> tun_ID t = i \<and> GetLatestPrices s i = Inr l \<and> new_prices ctx pm t l \<noteq> [] \<and>
        packet_sent ctx s s' t (new_prices ctx pm t l) (updated_prices ctx t l (new_prices ctx pm t l)))"

lemma DeactivateTunnel_spec:
  assumes inv: "tunnel_inv k s" and i: "i < 2 ^ 64" and t: "GetTunnel s i = Inr t"
  obtains s' where "DeactivateTunnel s i = Inr s'" and "tunnel_inv k s'" and "same_base s s'"
    and "GetTunnel s' i = Inr (t\<lparr>tun_IsActive := False\<rparr>)" and "GetLatestPrices s' i = GetLatestPrices s i"
    and "\<forall>q. GetPacket s' i q = GetPacket s i q" and "\<forall>j<2 ^ 64. j \<noteq> i \<longrightarrow> same_view s s' j"
    and "ts_total_fees s' = ts_total_fees s" and "ts_world s' = ts_world s"
proof -
  have id: "tun_ID t = i" by (rule GetTunnelD(1) [OF tunnel_invD(1) [OF inv] i t])
  let ?s = "SetTunnel (DeleteActiveTunnelID s i) (t\<lparr>tun_IsActive := False\<rparr>)"
  have run: "DeactivateTunnel s i = Inr ?s" using t by (simp add: DeactivateTunnel_def Let_def)
  show ?thesis
    by (rule that [OF run inv_DeactivateTunnel [OF inv i run]])
      (use id i in \<open>simp_all add: same_base_def same_view_def tunnel_lookup, simp_all add: DeleteActiveTunnelID_def\<close>)
qed

lemma active_tunnel_step_spec:
  assumes laws: "tunnel_laws k" and inv: "tunnel_inv k s" and i: "i < 2 ^ 64"
    and fit: "\<And>t. GetTunnel s i = Inr t \<Longrightarrow> tun_Sequence t + 1 < 2 ^ 64"
    and d: "active_tunnel_step k ctx pm s i = Inr s'"
  shows "tunnel_inv k s' \<and> same_base s s' \<and> view_turn ctx pm s s' i \<and> (\<forall>j<2 ^ 64. j \<noteq> i \<longrightarrow> same_view s s' j)"
proof (cases "ProduceActiveTunnelPacket k ctx s i pm")
  case (Inl e)
  then have "s' = s" using d by (auto simp: active_tunnel_step_def split: if_splits)
  then show ?thesis using inv by (simp add: view_turn_def)
next
  case (Inr s1)
  then have p: "ProduceActiveTunnelPacket k ctx s i pm = Inr s'" using d by (simp add: active_tunnel_step_def)
  then obtain ok where ok: "HasEnoughFundToCreatePacket k s i = Inr ok" by (auto simp: ProduceActiveTunnelPacket_def)
  then obtain t where t: "GetTunnel s i = Inr t" by (auto simp: HasEnoughFundToCreatePacket_def)
  show ?thesis
  proof (cases ok)
    case False
    then have "DeactivateTunnel s i = Inr s'" using p ok by (simp add: ProduceActiveTunnelPacket_def)
    then show ?thesis using DeactivateTunnel_spec [OF inv i t] t by (metis Inr_inject view_turn_def)
  next
    case True
    then have pp: "ProducePacket k ctx s i pm = Inr s'" using p ok by (simp add: ProduceActiveTunnelPacket_def)
    obtain l where l: "GetLatestPrices s i = Inr l" by (rule latest_exists [OF inv i t])
    have id: "tun_ID t = i" by (rule GetTunnelD(1) [OF tunnel_invD(1) [OF inv] i t])
    show ?thesis
    proof (cases "new_prices ctx pm t l = []")
      case True
      then show ?thesis using ProducePacket_spec(1) [OF laws inv i fit t l] pp inv by (simp add: view_turn_def)
    next
      case False
      then show ?thesis using ProducePacket_spec(2) [OF laws inv i fit t l False pp] t l id
        unfolding view_turn_def by blast
    qed
  qed
qed

lemma packet_sent_before:
  assumes "same_view s s1 (tun_ID t)" and "same_base s s1" and "tun_Sequence t + 1 < 2 ^ 64" and "packet_sent ctx s1 s' t ps l"
  shows "packet_sent ctx s s' t ps l"
  using assms by (simp add: packet_sent_def same_view_def same_base_def)

lemma packet_sent_after:
  assumes "packet_sent ctx s s1 t ps l" and "tun_Sequence t + 1 < 2 ^ 64" and "same_view s1 s' (tun_ID t)"
  shows "packet_sent ctx s s' t ps l"
  using assms by (simp add: packet_sent_def same_view_def)

lemma turn_before:
  assumes v: "same_view s s1 i" and b: "same_base s s1"
    and fit: "\<And>t. GetTunnel s i = Inr t \<Longrightarrow> tun_Sequence t + 1 < 2 ^ 64" and turn: "view_turn ctx pm s1 s' i"
  shows "view_turn ctx pm s s' i"
proof -
  have get: "GetTunnel s1 i = GetTunnel s i" "GetLatestPrices s1 i = GetLatestPrices s i" "\<forall>q<2 ^ 64. GetPacket s1 i q = GetPacket s i q"
    using v by (auto simp: same_view_def)
  from turn consider "same_view s1 s' i"
    | t where "GetTunnel s1 i = Inr t" "GetTunnel s' i = Inr (t\<lparr>tun_IsActive := False\<rparr>)"
        "GetLatestPrices s' i = GetLatestPrices s1 i" "\<forall>q<2 ^ 64. GetPacket s' i q = GetPacket s1 i q"
    | t l where "GetTunnel s1 i = Inr t" "tun_ID t = i" "GetLatestPrices s1 i = Inr l" "new_prices ctx pm t l \<noteq> []"
        "packet_sent ctx s1 s' t (new_prices ctx pm t l) (updated_prices ctx t l (new_prices ctx pm t l))"
    unfolding view_turn_def by blast
  then show ?thesis
  proof cases
    case 1
    then show ?thesis using same_view_trans [OF v] by (simp add: view_turn_def)
  next
    case 2
    then show ?thesis using get unfolding view_turn_def by metis
  next
    case 3
    have "packet_sent ctx s s' t (new_prices ctx pm t l) (updated_prices ctx t l (new_prices ctx pm t l))"
      by (rule packet_sent_before [OF _ b _ 3(5)]) (use v 3(1,2) fit get in auto)
    then show ?thesis using 3(1-4) get unfolding view_turn_def by metis
  qed
qed

lemma turn_after:
  assumes turn: "view_turn ctx pm s s1 i" and fit: "\<And>t. GetTunnel s i = Inr t \<Longrightarrow> tun_Sequence t + 1 < 2 ^ 64"
    and v: "same_view s1 s' i"
  shows "view_turn ctx pm s s' i"
proof -
  have get: "GetTunnel s' i = GetTunnel s1 i" "GetLatestPrices s' i = GetLatestPrices s1 i" "\<forall>q<2 ^ 64. GetPacket s' i q = GetPacket s1 i q"
    using v by (auto simp: same_view_def)
  from turn consider "same_view s s1 i"
    | t where "GetTunnel s i = Inr t" "GetTunnel s1 i = Inr (t\<lparr>tun_IsActive := False\<rparr>)"
        "GetLatestPrices s1 i = GetLatestPrices s i" "\<forall>q<2 ^ 64. GetPacket s1 i q = GetPacket s i q"
    | t l where "GetTunnel s i = Inr t" "tun_ID t = i" "GetLatestPrices s i = Inr l" "new_prices ctx pm t l \<noteq> []"
        "packet_sent ctx s s1 t (new_prices ctx pm t l) (updated_prices ctx t l (new_prices ctx pm t l))"
    unfolding view_turn_def by blast
  then show ?thesis
  proof cases
    case 1
    then show ?thesis using same_view_trans [OF _ v] by (simp add: view_turn_def)
  next
    case 2
    then show ?thesis using get unfolding view_turn_def by metis
  next
    case 3
    have "packet_sent ctx s s' t (new_prices ctx pm t l) (updated_prices ctx t l (new_prices ctx pm t l))"
      by (rule packet_sent_after [OF 3(5)]) (use v 3(1,2) fit in auto)
    then show ?thesis using 3(1-4) unfolding view_turn_def by blast
  qed
qed

lemma active_tunnels_fold:
  assumes laws: "tunnel_laws k" and inv: "tunnel_inv k s" and ids: "distinct ids" "\<forall>i\<in>set ids. i < 2 ^ 64"
    and fit: "\<forall>i\<in>set ids. \<forall>t. GetTunnel s i = Inr t \<longrightarrow> tun_Sequence t + 1 < 2 ^ 64"
    and run: "foldE (active_tunnel_step k ctx pm) s ids = Inr s'"
  shows "tunnel_inv k s' \<and> same_base s s' \<and> (\<forall>i<2 ^ 64. if i \<in> set ids then view_turn ctx pm s s' i else same_view s s' i)"
  using run ids fit
proof (induction ids arbitrary: s' rule: rev_induct)
  case Nil
  then show ?case using inv by simp
next
  case (snoc i ids)
  then obtain s1 where s1: "foldE (active_tunnel_step k ctx pm) s ids = Inr s1" and st: "active_tunnel_step k ctx pm s1 i = Inr s'"
    by (auto simp: foldE_append bindE_eq_Inr_iff)
  have IH: "tunnel_inv k s1" "same_base s s1" "\<forall>j<2 ^ 64. if j \<in> set ids then view_turn ctx pm s s1 j else same_view s s1 j"
    using snoc.IH [OF s1] snoc.prems by auto
  have i: "i < 2 ^ 64" "i \<notin> set ids" using snoc.prems by auto
  have v: "same_view s s1 i" using IH(3) i by auto
  have fit1: "tun_Sequence t + 1 < 2 ^ 64" if "GetTunnel s1 i = Inr t" for t
    using v that snoc.prems(4) unfolding same_view_def by (metis in_set_conv_decomp)
  have step: "tunnel_inv k s'" "same_base s1 s'" "view_turn ctx pm s1 s' i" "\<forall>j<2 ^ 64. j \<noteq> i \<longrightarrow> same_view s1 s' j"
    using active_tunnel_step_spec [OF laws IH(1) i(1) fit1 st] by auto
  have "if j \<in> set (ids @ [i]) then view_turn ctx pm s s' j else same_view s s' j" if j: "j < 2 ^ 64" for j
  proof (cases "j = i")
    case True
    then show ?thesis using turn_before [OF v IH(2) _ step(3)] snoc.prems(4) by auto
  next
    case False
    then have "same_view s1 s' j" using step(4) j by blast
    then show ?thesis using IH(3) [rule_format, OF j] False turn_after [of ctx pm s s1 j s'] same_view_trans [of s s1 j s'] snoc.prems(4)
      by (auto split: if_splits)
  qed
  then show ?case using step(1) same_base_trans [OF IH(2) step(2)] by blast
qed

end
