(* ===== verification/Tunnel_Block.thy ===== *)
theory Tunnel_Block
  imports Tunnel_Packet
begin

text \<open>
  The end of a block of \<open>x/tunnel\<close>: which tunnels it visits, and that no error and no panic of
  one tunnel keeps it from finishing.
\<close>

section \<open>The active tunnels\<close>

lemma GetActiveTunnelIDs_spec:
  assumes inv: "tunnel_inv k s"
  shows "distinct (GetActiveTunnelIDs s)"
    and "i \<in> set (GetActiveTunnelIDs s) \<longleftrightarrow> (\<exists>t. GetTunnel s i = Inr t \<and> tun_ID t = i \<and> tun_IsActive t)"
    and "\<forall>i\<in>set (GetActiveTunnelIDs s). i < 2 ^ 64"
proof -
  note i = tunnel_invD [OF inv]
  have A: "kv_ok (ts_active s)" using i(3) by (simp add: active_ok_def)
  have key: "\<exists>t. kv_get (ts_tunnels s) (TunnelStoreKey (tun_ID t)) = Some t \<and> tun_IsActive t \<and>
      fst e = ActiveTunnelIDStoreKey (tun_ID t) \<and> tun_ID t < 2 ^ 64 \<and> be_value (drop 1 (fst e)) = tun_ID t"
    if "e \<in> set (ts_active s)" for e
  proof -
    have "kv_has (ts_active s) (fst e)"
      using that kv_mem_iff [OF A, of "fst e" "snd e"] by (simp add: kv_has_def)
    then obtain t where t: "kv_get (ts_tunnels s) (TunnelStoreKey (tun_ID t)) = Some t" "tun_IsActive t"
        "fst e = ActiveTunnelIDStoreKey (tun_ID t)"
      using i(3) unfolding active_ok_def by blast
    then show ?thesis using tunnel_wf_id [OF i(1) t(1)] tunnel_id_of_key by metis
  qed
  have all: "kv_prefix_iterator (ts_active s) [0x10] = ts_active s"
    unfolding kv_prefix_iterator_def filter_id_conv
  proof
    fix e assume "e \<in> set (ts_active s)"
    then show "has_prefix [0x10] (fst e)" using key [of e] by (auto simp: ActiveTunnelIDStoreKey_def)
  qed
  have inj: "inj_on (\<lambda>e. be_value (drop 1 (fst e))) (set (ts_active s))"
  proof (rule inj_onI)
    fix e f assume e: "e \<in> set (ts_active s)" "f \<in> set (ts_active s)" "be_value (drop 1 (fst e)) = be_value (drop 1 (fst f))"
    then have "fst e = fst f" using key [of e] key [of f] by metis
    then show "e = f" using e(1,2) kv_mem_iff [OF A] by (metis option.inject prod.collapse)
  qed
  have "distinct (ts_active s)" using kv.entries_distinct [OF A] by (simp add: distinct_map)
  then show "distinct (GetActiveTunnelIDs s)" using inj by (simp add: GetActiveTunnelIDs_def all distinct_map)
  show "\<forall>i\<in>set (GetActiveTunnelIDs s). i < 2 ^ 64"
  proof
    fix i assume "i \<in> set (GetActiveTunnelIDs s)"
    then obtain e where "e \<in> set (ts_active s)" "i = be_value (drop 1 (fst e))" unfolding GetActiveTunnelIDs_def all by auto
    then show "i < 2 ^ 64" using key by metis
  qed
  show "i \<in> set (GetActiveTunnelIDs s) \<longleftrightarrow> (\<exists>t. GetTunnel s i = Inr t \<and> tun_ID t = i \<and> tun_IsActive t)"
  proof
    assume "i \<in> set (GetActiveTunnelIDs s)"
    then obtain e where "e \<in> set (ts_active s)" "i = be_value (drop 1 (fst e))" unfolding GetActiveTunnelIDs_def all by auto
    then show "\<exists>t. GetTunnel s i = Inr t \<and> tun_ID t = i \<and> tun_IsActive t" using key unfolding GetTunnel_iff by metis
  next
    assume "\<exists>t. GetTunnel s i = Inr t \<and> tun_ID t = i \<and> tun_IsActive t"
    then obtain t where t: "kv_get (ts_tunnels s) (TunnelStoreKey (tun_ID t)) = Some t" "tun_ID t = i" "tun_IsActive t"
      unfolding GetTunnel_iff by metis
    then have "kv_has (ts_active s) (ActiveTunnelIDStoreKey i)" using i(3) unfolding active_ok_def by metis
    then obtain v where "(ActiveTunnelIDStoreKey i, v) \<in> set (ts_active s)" using kv_mem_iff [OF A] by (auto simp: kv_has_def)
    moreover have "be_value (drop 1 (ActiveTunnelIDStoreKey i)) = i" using tunnel_wf_id [OF i(1) t(1)] t(2) tunnel_id_of_key by metis
    ultimately show "i \<in> set (GetActiveTunnelIDs s)" unfolding GetActiveTunnelIDs_def all by force
  qed
qed

section \<open>No panics\<close>

text \<open>The bank returns errors, and so does the request for the signing fee.\<close>

definition tunnel_no_panics :: "'w tunnel_keeper \<Rightarrow> bool" where
  "tunnel_no_panics k \<longleftrightarrow>
     (\<forall>w f t c e. SendCoins (tk_bank k) w f t c = Inl e \<longrightarrow> \<not> is_panic e) \<and>
     (\<forall>w e. tk_GetSigningFee k w = Inl e \<longrightarrow> \<not> is_panic e) \<and>
     (\<forall>a e. AccAddressFromBech32 (tk_sdk k) a = Inl e \<longrightarrow> \<not> is_panic e)"

lemma GetRouteFee_no_panic: "tunnel_no_panics k \<Longrightarrow> GetRouteFee k s r = Inl e \<Longrightarrow> \<not> is_panic e"
  by (auto simp: GetRouteFee_def tunnel_no_panics_def split: RouteI.splits)

lemma tunnel_wf_route: "tunnel_wf k n t \<Longrightarrow> \<exists>r. GetRouteValue (tun_Route t) = Inr r"
  by (auto simp: tunnel_wf_def is_ok_iff)

lemma HasEnoughFund_no_panic:
  assumes np: "tunnel_no_panics k" and "tunnel_inv k s" and "i < 2 ^ 64" and "HasEnoughFundToCreatePacket k s i = Inl e"
  shows "\<not> is_panic e"
proof (cases "GetTunnel s i")
  case (Inl e')
  then show ?thesis using assms(4)
    by (auto simp: HasEnoughFundToCreatePacket_def GetTunnel_def ErrTunnelNotFound_def split: option.splits)
next
  case (Inr t)
  note wf = GetTunnelD(2) [OF tunnel_invD(1) [OF assms(2)] assms(3) Inr]
  obtain r where "GetRouteValue (tun_Route t) = Inr r" using tunnel_wf_route [OF wf] by blast
  moreover obtain a where "AccAddressFromBech32 (tk_sdk k) (tun_FeePayer t) = Inr a" using wf by (auto simp: tunnel_wf_def)
  ultimately show ?thesis using assms(4) Inr GetRouteFee_no_panic [OF np, of s r]
    by (auto simp: HasEnoughFundToCreatePacket_def bindE_eq_Inl_iff)
qed

lemma CreatePacket_no_panic:
  assumes np: "tunnel_no_panics k" and "tunnel_inv k s" and "i < 2 ^ 64" and "CreatePacket k ctx s i ps = Inl e"
  shows "\<not> is_panic e"
proof (cases "GetTunnel s i")
  case (Inl e')
  then show ?thesis using assms(4)
    by (auto simp: CreatePacket_def GetTunnel_def ErrTunnelNotFound_def split: option.splits)
next
  case (Inr t)
  note wf = GetTunnelD(2) [OF tunnel_invD(1) [OF assms(2)] assms(3) Inr]
  obtain r where "GetRouteValue (tun_Route t) = Inr r" using tunnel_wf_route [OF wf] by blast
  moreover obtain a where "AccAddressFromBech32 (tk_sdk k) (tun_FeePayer t) = Inr a" using wf by (auto simp: tunnel_wf_def)
  ultimately show ?thesis using assms(4) Inr GetRouteFee_no_panic [OF np] np
    by (auto simp: CreatePacket_def bindE_eq_Inl_iff MustAccAddressFromBech32_def DeductBasePacketFee_def
        SendCoinsFromAccountToModule_def Let_def tunnel_no_panics_def)
qed

lemma ProduceActiveTunnelPacket_no_panic:
  assumes np: "tunnel_no_panics k" and inv: "tunnel_inv k s" and "i < 2 ^ 64" and p: "ProduceActiveTunnelPacket k ctx s i pm = Inl e"
  shows "\<not> is_panic e"
proof -
  have g: "\<not> is_panic e" if "GetTunnel s i = Inl e" for e
    using that by (auto simp: GetTunnel_def ErrTunnelNotFound_def split: option.splits)
  have gl: "\<not> is_panic e" if "GetLatestPrices s i = Inl e" for e
    using that by (auto simp: GetLatestPrices_def ErrLatestPricesNotFound_def split: option.splits)
  have id: "tun_ID t = i" if "GetTunnel s i = Inr t" for t
    by (rule GetTunnelD(1) [OF tunnel_invD(1) [OF inv] assms(3) that])
  have pp: "\<not> is_panic e" if pr: "ProducePacket k ctx s i pm = Inl e" for e
  proof (cases "GetTunnel s i")
    case (Inr t)
    show ?thesis
    proof (cases "GetLatestPrices s i")
      case (Inl e')
      then show ?thesis using pr Inr gl by (simp add: ProducePacket_def)
    next
      case (Inr l)
      then show ?thesis
        using pr \<open>GetTunnel s i = Inr t\<close> id [OF \<open>GetTunnel s i = Inr t\<close>] CreatePacket_no_panic [OF np inv assms(3)]
        by (auto dest: SendPacket_no_panic simp: ProducePacket_def Let_def bindE_eq_Inl_iff split: if_splits)
    qed
  qed (use pr g in \<open>simp add: ProducePacket_def\<close>)
  show ?thesis
    using p HasEnoughFund_no_panic [OF np inv assms(3)] g pp
    by (auto simp: ProduceActiveTunnelPacket_def DeactivateTunnel_def bindE_eq_Inl_iff Let_def split: if_splits)
qed

text \<open>The loop over the active tunnels succeeds.\<close>

lemma active_tunnels_succeed:
  assumes laws: "tunnel_laws k" and np: "tunnel_no_panics k" and inv: "tunnel_inv k s"
    and ids: "distinct ids" "\<forall>i\<in>set ids. i < 2 ^ 64"
    and fit: "\<forall>i t. GetTunnel s i = Inr t \<longrightarrow> tun_Sequence t + 1 < 2 ^ 64"
  shows "\<exists>s'. foldE (active_tunnel_step k ctx pm) s ids = Inr s'"
  using ids
proof (induction ids rule: rev_induct)
  case (snoc i ids)
  then obtain s1 where s1: "foldE (active_tunnel_step k ctx pm) s ids = Inr s1" by auto
  then have "tunnel_inv k s1" using active_tunnels_fold [OF laws inv _ _ _ s1] snoc.prems fit by auto
  then have "\<exists>s'. active_tunnel_step k ctx pm s1 i = Inr s'"
    using ProduceActiveTunnelPacket_no_panic [OF np, of s1 i ctx pm] snoc.prems
    by (auto simp: active_tunnel_step_def split: sum.splits)
  then show ?case using s1 by (auto simp: foldE_append)
qed simp

section \<open>The turn of a tunnel\<close>

text \<open>
  What the outside world decides during a turn: the fee of the route, and whether the fee payer's transfer of the base
  fee and the hand-over of the packet to the route go through. The hand-over gives the world after it, or none.
\<close>

fun route_cost :: "'w tunnel_keeper \<Rightarrow> 'w \<Rightarrow> RouteI \<Rightarrow> coins option" where
  "route_cost k w (TSSRoute _ _ _) = (case tk_GetSigningFee k w of Inr c \<Rightarrow> Some c | Inl _ \<Rightarrow> None)"
| "route_cost k w (IBCRoute _) = Some []"

fun hand_over :: "'w tunnel_keeper \<Rightarrow> tunnel_ctx \<Rightarrow> 'w \<Rightarrow> Tunnel \<Rightarrow> Price list \<Rightarrow> bytes \<Rightarrow> coins \<Rightarrow> RouteI \<Rightarrow> 'w option" where
  "hand_over k ctx w t prices payer fee (TSSRoute chain contract enc) =
     (case tk_CreateTunnelSigningRequest k w (tun_ID t) chain contract
         \<lparr>tso_Sequence = tun_Sequence t + 1, tso_Prices = prices, tso_CreatedAt = Unix (tc_BlockTime ctx), tso_Encoder = enc\<rparr>
         payer fee of Inr (_, w') \<Rightarrow> Some w' | Inl _ \<Rightarrow> None)"
| "hand_over k ctx w t prices payer fee (IBCRoute chan) =
     (let port = PortIDForTunnel (tun_ID t) in
      case tk_GetCapability k w (tk_ChannelCapabilityPath k port chan) of None \<Rightarrow> None
      | Some cp \<Rightarrow>
          (case tk_SendPacket k w cp port chan (ibc_timeout ctx (tun_Interval t)) (tk_PacketData_GetBytes k
              \<lparr>tpd_TunnelID = tun_ID t, tpd_Sequence = tun_Sequence t + 1, tpd_Prices = prices, tpd_CreatedAt = Unix (tc_BlockTime ctx)\<rparr>)
           of Inr (_, w') \<Rightarrow> Some w' | Inl _ \<Rightarrow> None))"

definition delivery ::
  "'w tunnel_keeper \<Rightarrow> tunnel_ctx \<Rightarrow> coins \<Rightarrow> 'w \<Rightarrow> Tunnel \<Rightarrow> Price list \<Rightarrow> bytes \<Rightarrow> RouteI \<Rightarrow> 'w option" where
  "delivery k ctx base w t prices payer r =
     (case SendCoins (tk_bank k) w payer (GetModuleAddress (tk_bank k) tunnel_ModuleName) base of
        Inl _ \<Rightarrow> None
      | Inr w1 \<Rightarrow> (case route_cost k w1 r of None \<Rightarrow> None | Some fee \<Rightarrow> hand_over k ctx w1 t prices payer fee r))"

text \<open>
  The turn of tunnel \<open>i\<close> takes \<open>a\<close> to \<open>b\<close>, in a block from \<open>s\<close> to \<open>s'\<close>. The tunnel is judged as it was at the start of the block, on
  the balances its turn finds. When its route fee cannot be told, nothing changes. When the fee payer's spendable coins do not cover base and
  route fee, it is deactivated. When no price is due, nothing changes. Otherwise a packet with the due prices is sent, unless the transfer
  or the route fails, which leaves everything as it was. No other tunnel changes.
\<close>

definition tunnel_turn ::
  "'w tunnel_keeper \<Rightarrow> tunnel_ctx \<Rightarrow> (bytes, Price) kv \<Rightarrow> 'w tunnel_state \<Rightarrow> 'w tunnel_state \<Rightarrow> 'w tunnel_state \<Rightarrow> 'w tunnel_state \<Rightarrow>
     uint64 \<Rightarrow> bool" where
  "tunnel_turn k ctx pm s a b s' i \<longleftrightarrow>
     same_view s a i \<and> same_view b s' i \<and> (\<forall>j<2 ^ 64. j \<noteq> i \<longrightarrow> same_view a b j) \<and>
     (\<exists>t l payer r. GetTunnel s i = Inr t \<and> tun_ID t = i \<and> GetLatestPrices s i = Inr l \<and>
        AccAddressFromBech32 (tk_sdk k) (tun_FeePayer t) = Inr payer \<and> GetRouteValue (tun_Route t) = Inr r \<and>
        (case route_cost k (ts_world a) r of
           None \<Rightarrow> b = a
         | Some fee \<Rightarrow>
             if \<not> tk_Coins_IsAllGTE k (tk_SpendableCoins k (ts_world a) payer) (Coins_Add (tk_sdk k) (tp_BasePacketFee (ts_params s)) fee)
             then GetTunnel b i = Inr (t\<lparr>tun_IsActive := False\<rparr>) \<and> i \<notin> set (GetActiveTunnelIDs b) \<and>
               GetLatestPrices b i = Inr l \<and> (\<forall>q<2 ^ 64. GetPacket b i q = GetPacket a i q) \<and>
               ts_total_fees b = ts_total_fees a \<and> ts_world b = ts_world a
             else if new_prices ctx pm t l = [] then b = a
             else (case delivery k ctx (tp_BasePacketFee (ts_params s)) (ts_world a) t (new_prices ctx pm t l) payer r of
                 None \<Rightarrow> b = a
               | Some w \<Rightarrow> ts_world b = w \<and> packet_sent ctx a b t (new_prices ctx pm t l) (updated_prices ctx t l (new_prices ctx pm t l)) \<and>
                   (\<forall>d. Coins_AmountOf (tk_sdk k) (tf_TotalBasePacketFee (ts_total_fees b)) d =
                     Coins_AmountOf (tk_sdk k) (tf_TotalBasePacketFee (ts_total_fees a)) d +
                     Coins_AmountOf (tk_sdk k) (tp_BasePacketFee (ts_params s)) d))))"

lemma tunnel_turnD:
  assumes "tunnel_turn k ctx pm s a b s' i" and "GetTunnel s i = Inr t" and "GetLatestPrices s i = Inr l"
    and "AccAddressFromBech32 (tk_sdk k) (tun_FeePayer t) = Inr payer" and "GetRouteValue (tun_Route t) = Inr r"
    and "route_cost k (ts_world a) r = Some fee"
  shows "\<not> tk_Coins_IsAllGTE k (tk_SpendableCoins k (ts_world a) payer) (Coins_Add (tk_sdk k) (tp_BasePacketFee (ts_params s)) fee) \<Longrightarrow>
      GetTunnel b i = Inr (t\<lparr>tun_IsActive := False\<rparr>)"
    and "tk_Coins_IsAllGTE k (tk_SpendableCoins k (ts_world a) payer) (Coins_Add (tk_sdk k) (tp_BasePacketFee (ts_params s)) fee) \<Longrightarrow>
      new_prices ctx pm t l \<noteq> [] \<Longrightarrow>
      delivery k ctx (tp_BasePacketFee (ts_params s)) (ts_world a) t (new_prices ctx pm t l) payer r \<noteq> None \<Longrightarrow>
      packet_sent ctx a b t (new_prices ctx pm t l) (updated_prices ctx t l (new_prices ctx pm t l))"
  using assms unfolding tunnel_turn_def by auto

lemma HasEnoughFund_eq:
  assumes "GetTunnel a i = Inr t" and "AccAddressFromBech32 (tk_sdk k) (tun_FeePayer t) = Inr payer" and "GetRouteValue (tun_Route t) = Inr r"
  shows "route_cost k (ts_world a) r = None \<Longrightarrow> \<exists>e. HasEnoughFundToCreatePacket k a i = Inl e"
    and "route_cost k (ts_world a) r = Some fee \<Longrightarrow> HasEnoughFundToCreatePacket k a i =
      Inr (tk_Coins_IsAllGTE k (tk_SpendableCoins k (ts_world a) payer) (Coins_Add (tk_sdk k) (tp_BasePacketFee (ts_params a)) fee))"
  using assms by (cases r; auto simp: HasEnoughFundToCreatePacket_def GetRouteFee_def Let_def split: sum.splits)+

lemma recover_iff: "(\<exists>e. recover err m = Inl e) \<longleftrightarrow> (\<exists>e. m = Inl e)" "recover err m = Inr x \<longleftrightarrow> m = Inr x"
  by (auto simp: recover_def split: sum.splits)

lemma ProducePacket_delivery:
  assumes inv: "tunnel_inv k a" and i: "i < 2 ^ 64" and t: "GetTunnel a i = Inr t" "tun_ID t = i" and fit: "tun_Sequence t + 1 < 2 ^ 64"
    and l: "GetLatestPrices a i = Inr l" and payer: "AccAddressFromBech32 (tk_sdk k) (tun_FeePayer t) = Inr payer"
    and r: "GetRouteValue (tun_Route t) = Inr r" and due: "new_prices ctx pm t l \<noteq> []"
  shows "case delivery k ctx (tp_BasePacketFee (ts_params a)) (ts_world a) t (new_prices ctx pm t l) payer r of
      None \<Rightarrow> \<exists>e. ProducePacket k ctx a i pm = Inl e
    | Some w \<Rightarrow> \<exists>b. ProducePacket k ctx a i pm = Inr b \<and> ts_world b = w"
proof -
  let ?new = "new_prices ctx pm t l" and ?t = "t\<lparr>tun_Sequence := tun_Sequence t + 1\<rparr>"
  let ?p = "\<lambda>fee. \<lparr>pkt_TunnelID = i, pkt_Sequence = tun_Sequence t + 1, pkt_Prices = ?new, pkt_Receipt = None,
          pkt_BaseFee = tp_BasePacketFee (ts_params a), pkt_RouteFee = fee, pkt_CreatedAt = Unix (tc_BlockTime ctx)\<rparr>"
  have run: "ProducePacket k ctx a i pm =
      bindE (CreatePacket k ctx a i ?new) (\<lambda>(packet, s). bindE (SendPacket k ctx s packet) (\<lambda>s.
        Inr (SetLatestPrices s (updated_prices ctx t l ?new))))"
    using t l due by (simp add: ProducePacket_def Let_def new_prices_def send_all_def updated_prices_def)
  have u: "u64 (Suc (tun_Sequence t)) = tun_Sequence t + 1" using fit by simp
  have cr: "CreatePacket k ctx a i ?new =
      bindE (DeductBasePacketFee k a payer) (\<lambda>s. bindE (GetRouteFee k s r) (\<lambda>fee.
        Inr (?p fee, SetPacket (SetTunnel s ?t) (?p fee))))"
    using t payer r u by (simp add: CreatePacket_def MustAccAddressFromBech32_def Let_def)
  show ?thesis
  proof (cases "SendCoins (tk_bank k) (ts_world a) payer (GetModuleAddress (tk_bank k) tunnel_ModuleName) (tp_BasePacketFee (ts_params a))")
    case (Inl e)
    then show ?thesis using run cr by (simp add: delivery_def DeductBasePacketFee_def SendCoinsFromAccountToModule_def Let_def)
  next
    case (Inr w1)
    then obtain f where ded: "DeductBasePacketFee k a payer = Inr (a\<lparr>ts_world := w1, ts_total_fees := f\<rparr>)"
      by (auto simp: DeductBasePacketFee_def SendCoinsFromAccountToModule_def Let_def SetTotalFees_def)
    let ?s = "\<lambda>fee. SetPacket (SetTunnel (a\<lparr>ts_world := w1, ts_total_fees := f\<rparr>) ?t) (?p fee)"
    have got: "GetTunnel (?s fee) i = Inr ?t" for fee using t i by (simp add: tunnel_lookup)
    have wld: "ts_world (?s fee) = w1" for fee by (simp add: SetPacket_def SetTunnel_def)
    have send: "case hand_over k ctx w1 t ?new payer fee r of
        None \<Rightarrow> \<exists>e. SendPacket k ctx (?s fee) (?p fee) = Inl e
      | Some w \<Rightarrow> \<exists>b. SendPacket k ctx (?s fee) (?p fee) = Inr b \<and> ts_world b = w" for fee
      using got [of fee] wld [of fee] payer r t(2) unfolding SendPacket_def
      by (cases r) (auto simp: recover_iff SendTSSPacket_def SendIBCPacket_def Let_def MustAccAddressFromBech32_def SetPacket_def
          split: option.splits sum.splits)
    have fee: "route_cost k w1 r = (case GetRouteFee k (a\<lparr>ts_world := w1, ts_total_fees := f\<rparr>) r of Inl _ \<Rightarrow> None | Inr c \<Rightarrow> Some c)"
      by (cases r) (auto simp: GetRouteFee_def split: sum.splits)
    show ?thesis
    proof (cases "GetRouteFee k (a\<lparr>ts_world := w1, ts_total_fees := f\<rparr>) r")
      case (Inl e)
      then show ?thesis using run cr ded fee Inr by (simp add: delivery_def)
    next
      case gf: (Inr c)
      show ?thesis
      proof (cases "hand_over k ctx w1 t ?new payer c r")
        case None
        then show ?thesis using run cr ded fee gf Inr send [of c] by (auto simp: delivery_def)
      next
        case (Some w)
        then obtain b where b: "SendPacket k ctx (?s c) (?p c) = Inr b" "ts_world b = w" using send [of c] by auto
        then show ?thesis using run cr ded fee gf Inr Some by (simp add: delivery_def SetLatestPrices_def)
      qed
    qed
  qed
qed

lemma active_tunnel_turn:
  assumes laws: "tunnel_laws k" and inv: "tunnel_inv k a" and i: "i < 2 ^ 64" and t: "GetTunnel a i = Inr t"
    and fit: "tun_Sequence t + 1 < 2 ^ 64" and d: "active_tunnel_step k ctx pm a i = Inr b"
  shows "tunnel_turn k ctx pm a a b b i"
proof -
  note id = GetTunnelD(1) [OF tunnel_invD(1) [OF inv] i t] and wf = GetTunnelD(2) [OF tunnel_invD(1) [OF inv] i t]
  have fit': "\<And>t. GetTunnel a i = Inr t \<Longrightarrow> tun_Sequence t + 1 < 2 ^ 64" using t fit by simp
  obtain l where l: "GetLatestPrices a i = Inr l" by (rule latest_exists [OF inv i t])
  obtain r where r: "GetRouteValue (tun_Route t) = Inr r" using tunnel_wf_route [OF wf] by blast
  obtain payer where p: "AccAddressFromBech32 (tk_sdk k) (tun_FeePayer t) = Inr payer" using wf by (auto simp: tunnel_wf_def)
  have other: "\<forall>j<2 ^ 64. j \<noteq> i \<longrightarrow> same_view a b j"
    using active_tunnel_step_spec [OF laws inv i fit' d] by blast
  have failed: "b = a" if "ProduceActiveTunnelPacket k ctx a i pm = Inl e" for e
    using that d by (auto simp: active_tunnel_step_def split: if_splits)
  have went: "b = c" if "ProduceActiveTunnelPacket k ctx a i pm = Inr c" for c
    using that d by (auto simp: active_tunnel_step_def)
  note spec = ProducePacket_spec [OF laws inv i _ t l, of ctx pm]
  note fund = HasEnoughFund_eq [OF t p r]
  let ?base = "tp_BasePacketFee (ts_params a)" and ?new = "new_prices ctx pm t l"
  have "case route_cost k (ts_world a) r of
           None \<Rightarrow> b = a
         | Some fee \<Rightarrow>
             if \<not> tk_Coins_IsAllGTE k (tk_SpendableCoins k (ts_world a) payer) (Coins_Add (tk_sdk k) ?base fee)
             then GetTunnel b i = Inr (t\<lparr>tun_IsActive := False\<rparr>) \<and> i \<notin> set (GetActiveTunnelIDs b) \<and>
               GetLatestPrices b i = Inr l \<and> (\<forall>q<2 ^ 64. GetPacket b i q = GetPacket a i q) \<and>
               ts_total_fees b = ts_total_fees a \<and> ts_world b = ts_world a
             else if ?new = [] then b = a
             else (case delivery k ctx ?base (ts_world a) t ?new payer r of
                 None \<Rightarrow> b = a
               | Some w \<Rightarrow> ts_world b = w \<and> packet_sent ctx a b t ?new (updated_prices ctx t l ?new) \<and>
                   (\<forall>d. tamt k (tf_TotalBasePacketFee (ts_total_fees b)) d =
                     tamt k (tf_TotalBasePacketFee (ts_total_fees a)) d + tamt k ?base d))"
  proof (cases "route_cost k (ts_world a) r")
    case None
    then show ?thesis using fund(1) failed by (auto simp: ProduceActiveTunnelPacket_def)
  next
    case (Some fee)
    let ?ok = "tk_Coins_IsAllGTE k (tk_SpendableCoins k (ts_world a) payer) (Coins_Add (tk_sdk k) ?base fee)"
    have run: "ProduceActiveTunnelPacket k ctx a i pm = (if ?ok then ProducePacket k ctx a i pm else DeactivateTunnel a i)"
      using fund(2) [OF Some] by (simp add: ProduceActiveTunnelPacket_def)
    show ?thesis
    proof (cases "?ok \<and> ?new \<noteq> []")
      case True
      note del = ProducePacket_delivery [OF inv i t id fit l p r, of ctx pm]
      show ?thesis
      proof (cases "delivery k ctx ?base (ts_world a) t ?new payer r")
        case None
        then show ?thesis using Some True del run failed by auto
      next
        case (Some w)
        then obtain c where c: "ProducePacket k ctx a i pm = Inr c" "ts_world c = w" using del True by auto
        then have "b = c" using went run True by simp
        then show ?thesis using spec(2) [OF fit' _ c(1)] c(2) Some \<open>route_cost k (ts_world a) r = Some fee\<close> True by simp
      qed
    next
      case False
      obtain c where c: "DeactivateTunnel a i = Inr c" "tunnel_inv k c" "GetTunnel c i = Inr (t\<lparr>tun_IsActive := False\<rparr>)"
          "GetLatestPrices c i = GetLatestPrices a i" "\<forall>q. GetPacket c i q = GetPacket a i q" "ts_total_fees c = ts_total_fees a"
          "ts_world c = ts_world a"
        by (rule DeactivateTunnel_spec [OF inv i t])
      have off: "i \<notin> set (GetActiveTunnelIDs c)" using GetActiveTunnelIDs_spec(2) [OF c(2), of i] c(3) by auto
      have "b = c" if "\<not> ?ok" using that run c(1) went by simp
      moreover have "b = a" if ?ok using that run spec(1) [OF fit'] False went by simp
      ultimately show ?thesis using Some False c(3-7) off l by auto
    qed
  qed
  then show ?thesis using other t l id r p unfolding tunnel_turn_def by simp
qed

lemma turn_frame:
  assumes turn: "tunnel_turn k ctx pm a a b b i" and v: "same_view s a i" "same_view b s' i" and p: "ts_params a = ts_params s"
  shows "tunnel_turn k ctx pm s a b s' i"
proof -
  have get: "GetTunnel a i = GetTunnel s i" "GetLatestPrices a i = GetLatestPrices s i" using v(1) by (simp_all add: same_view_def)
  show ?thesis using turn v unfolding tunnel_turn_def get p by simp
qed

text \<open>The states between the turns.\<close>

lemma foldE_states:
  "foldE f s xs = Inr s' \<Longrightarrow> \<exists>st. st 0 = s \<and> st (length xs) = s' \<and> (\<forall>n<length xs. f (st n) (xs ! n) = Inr (st (n + 1))) \<and>
     (\<forall>n\<le>length xs. foldE f s (take n xs) = Inr (st n) \<and> foldE f (st n) (drop n xs) = Inr s')"
proof (induction xs arbitrary: s)
  case Nil
  then show ?case by (intro exI [of _ "\<lambda>_. s"]) simp
next
  case (Cons x xs)
  then obtain s1 where s1: "f s x = Inr s1" "foldE f s1 xs = Inr s'" by auto
  from Cons.IH [OF s1(2)] obtain st where st: "st 0 = s1" "st (length xs) = s'" "\<forall>n<length xs. f (st n) (xs ! n) = Inr (st (n + 1))"
      "\<forall>n\<le>length xs. foldE f s1 (take n xs) = Inr (st n) \<and> foldE f (st n) (drop n xs) = Inr s'" by blast
  show ?case
    by (rule exI [of _ "case_nat s st"]) (use st s1 in \<open>auto simp: nth_Cons split: nat.splits\<close>)
qed

lemma active_tunnels_turns:
  assumes laws: "tunnel_laws k" and inv: "tunnel_inv k s" and ids: "distinct ids" "\<forall>i\<in>set ids. i < 2 ^ 64"
    and ex: "\<forall>i\<in>set ids. \<exists>t. GetTunnel s i = Inr t" and fit: "\<forall>i t. GetTunnel s i = Inr t \<longrightarrow> tun_Sequence t + 1 < 2 ^ 64"
    and run: "foldE (active_tunnel_step k ctx pm) s ids = Inr s'"
  shows "\<exists>st. st 0 = s \<and> st (length ids) = s' \<and> (\<forall>n<length ids. tunnel_turn k ctx pm s (st n) (st (n + 1)) s' (ids ! n))"
proof -
  from foldE_states [OF run] obtain st where st: "st 0 = s" "st (length ids) = s'"
      "\<forall>n<length ids. active_tunnel_step k ctx pm (st n) (ids ! n) = Inr (st (n + 1))"
      "\<forall>n\<le>length ids. foldE (active_tunnel_step k ctx pm) s (take n ids) = Inr (st n) \<and>
        foldE (active_tunnel_step k ctx pm) (st n) (drop n ids) = Inr s'" by blast
  have "tunnel_turn k ctx pm s (st n) (st (n + 1)) s' (ids ! n)" if n: "n < length ids" for n
  proof -
    let ?i = "ids ! n"
    have i: "?i < 2 ^ 64" "?i \<in> set ids" using ids(2) n by auto
    have before: "tunnel_inv k (st m) \<and> same_base s (st m) \<and> (\<forall>j<2 ^ 64. j \<notin> set (take m ids) \<longrightarrow> same_view s (st m) j)"
      if "m \<le> length ids" for m
    proof -
      have "distinct (take m ids)" "\<forall>i\<in>set (take m ids). i < 2 ^ 64" using ids by (auto dest: in_set_takeD)
      moreover have "\<forall>i\<in>set (take m ids). \<forall>t. GetTunnel s i = Inr t \<longrightarrow> tun_Sequence t + 1 < 2 ^ 64" using fit by blast
      ultimately show ?thesis
        using active_tunnels_fold [OF laws inv _ _ _ st(4) [rule_format, OF that, THEN conjunct1]] by presburger
    qed
    have nt: "?i \<notin> set (take n ids)" and nd: "?i \<notin> set (drop (n + 1) ids)"
      using ids(1) n by (auto simp: in_set_conv_nth nth_eq_iff_index_eq)
    have dt: "j \<notin> set (take (n + 1) ids)" if "j \<in> set (drop (n + 1) ids)" for j
      using that ids(1) set_take_disj_set_drop_if_distinct [of ids "n + 1" "n + 1"] by blast
    have v: "same_view s (st n) ?i" and base: "ts_params (st n) = ts_params s"
      using before [of n] i(1) nt n by (auto simp: same_base_def)
    obtain t where t: "GetTunnel s ?i = Inr t" using ex i(2) by blast
    then have "GetTunnel (st n) ?i = Inr t" "tun_Sequence t + 1 < 2 ^ 64" using v fit by (auto simp: same_view_def)
    then have turn: "tunnel_turn k ctx pm (st n) (st n) (st (n + 1)) (st (n + 1)) ?i"
      using active_tunnel_turn [OF laws _ i(1)] before [of n] st(3) n by auto
    have fit': "\<forall>j\<in>set (drop (n + 1) ids). \<forall>t. GetTunnel (st (n + 1)) j = Inr t \<longrightarrow> tun_Sequence t + 1 < 2 ^ 64"
    proof (intro ballI allI impI)
      fix j u assume j: "j \<in> set (drop (n + 1) ids)" and u: "GetTunnel (st (n + 1)) j = Inr u"
      have "j < 2 ^ 64" using ids(2) in_set_dropD [OF j] by blast
      then have "same_view s (st (n + 1)) j" using before [of "n + 1"] dt [OF j] n by auto
      then show "tun_Sequence u + 1 < 2 ^ 64" using u fit by (auto simp: same_view_def)
    qed
    have dr: "distinct (drop (n + 1) ids)" "\<forall>i\<in>set (drop (n + 1) ids). i < 2 ^ 64" using ids by (auto dest: in_set_dropD)
    have le: "n + 1 \<le> length ids" using n by simp
    have inv1: "tunnel_inv k (st (n + 1))" using before [OF le] by blast
    have "same_view (st (n + 1)) s' ?i"
      using active_tunnels_fold [OF laws inv1 dr fit' st(4) [rule_format, OF le, THEN conjunct2], THEN conjunct2, THEN conjunct2,
          rule_format, OF i(1)] nd by (simp only: if_False)
    then show ?thesis using turn_frame [OF turn v _ base] by blast
  qed
  then show ?thesis using st(1,2) by blast
qed

end
