(* ===== verification/Tunnel_Steps.thy ===== *)
theory Tunnel_Steps
  imports Tunnel_Block
begin

text \<open>
  The steps of \<open>x/tunnel\<close> as a relation on its states: every message, the end of a block, the IBC
  callbacks and the activity of other modules. The invariant holds along them, and a tunnel is
  active only while its deposits reach the minimum.
\<close>

section \<open>Creating a tunnel\<close>

lemma GenerateTunnelAccount_cases:
  assumes laws: "tunnel_laws k" and inv: "tunnel_inv k s" and g: "GenerateTunnelAccount k ctx s key = Inr (a, s')"
  obtains w where "s' = s\<lparr>ts_world := w\<rparr>" and "world_le k (ts_world s) w" and "valid_addr a" and "a \<noteq> tmod k"
proof -
  note L = tunnel_lawsD [OF laws]
  have has: "tk_HasAccount k (ts_world s) (tmod k)" using tunnel_invD(7) [OF inv] by (simp add: funds_ok_def)
  have s': "s' = s\<lparr>ts_world := tk_SetAccount k (ts_world s) a\<rparr>" and na: "\<not> tk_HasAccount k (ts_world s) a"
    and v: "valid_addr a"
    using g L(5) by (auto simp: GenerateTunnelAccount_def split: if_splits)
  show ?thesis by (rule that [OF s' L(6) v]) (use has na in auto)
qed

lemma tunnel_wf_mono: "tunnel_wf k n t \<Longrightarrow> n \<le> m \<Longrightarrow> tunnel_wf k m t"
  by (auto simp: tunnel_wf_def)

lemma deposit_wf_mono: "deposit_wf k n key x \<Longrightarrow> n \<le> m \<Longrightarrow> deposit_wf k m key x"
  by (auto simp: deposit_wf_def)

lemma inv_new_tunnel:
  assumes laws: "tunnel_laws k" and inv: "tunnel_inv k s" and fit: "ts_count s + 1 < 2 ^ 64"
    and t: "tunnel_wf k (ts_count s + 1) t" "tun_ID t = ts_count s + 1" "tun_TotalDeposit t = []" "\<not> tun_IsActive t"
    and l: "lp_TunnelID l = ts_count s + 1"
  shows "tunnel_inv k (SetTunnelCount (SetTunnel (SetLatestPrices s l) t) (ts_count s + 1))"
proof -
  note i = tunnel_invD [OF inv] and coin = coin_lawsD [OF tunnel_lawsD(2) [OF laws]]
  let ?n = "ts_count s + 1" and ?T = "ts_tunnels s"
  let ?T' = "kv_set ?T (TunnelStoreKey ?n) t"
  have new: "kv_get ?T (TunnelStoreKey ?n) = None"
  proof (rule ccontr)
    assume "\<not> ?thesis"
    then obtain u where u: "kv_get ?T (TunnelStoreKey ?n) = Some u" by blast
    then have "tun_ID u = ?n" using tunnels_okD(3) [OF i(1) u] tunnel_wf_id [OF i(1) u] fit tunnel_key_inj(2) by metis
    then show False using tunnel_wf_id [OF i(1) u] by simp
  qed
  have T: "tunnels_ok k ?n ?T'"
    unfolding tunnels_ok_def
  proof (intro conjI allI impI)
    fix j assume "1 \<le> j" "j \<le> ?n"
    then show "kv_has ?T' (TunnelStoreKey j)"
      using tunnels_okD(5) [OF i(1), of j] by (cases "j = ?n") auto
  qed (use tunnels_okD(1,3,4) [OF i(1)] fit t tunnel_wf_mono [of k "ts_count s" _ ?n] in \<open>auto split: if_splits\<close>)
  have L: "latest_ok ?n (kv_set (ts_latest_prices s) (LatestPricesStoreKey ?n) l)"
    unfolding latest_ok_def
  proof (intro conjI allI impI)
    fix j assume "1 \<le> j" "j \<le> ?n"
    then show "kv_has (kv_set (ts_latest_prices s) (LatestPricesStoreKey ?n) l) (LatestPricesStoreKey j)"
      using i(2) by (cases "j = ?n") (auto simp: latest_ok_def)
  qed (use i(2) l fit in \<open>auto simp: latest_ok_def split: if_splits\<close>)
  have "\<not> kv_has (ts_active s) (ActiveTunnelIDStoreKey ?n)"
    using i(3) new active_same_key unfolding active_ok_def by (metis option.distinct(1))
  then have A: "active_ok ?T' (ts_active s)"
    using active_ok_set [OF i(3), of "ts_active s" t] i(3) t by (simp add: active_ok_def)
  have D: "deposits_ok k ?n (ts_deposits s)" using i(4) deposit_wf_mono [of k "ts_count s" _ _ ?n] by (simp add: deposits_ok_def)
  have "deposited k (ts_deposits s) ?n d = 0" for d
  proof -
    have "dep_TunnelID (snd e) \<noteq> ?n" if "e \<in> set (ts_deposits s)" for e
    proof -
      have "deposit_wf k (ts_count s) (fst e) (snd e)"
        using i(4) that kv_mem_iff [of "ts_deposits s" "fst e" "snd e"] by (auto simp: deposits_ok_def)
      then show ?thesis by (simp add: deposit_wf_def)
    qed
    then have "map ((\<lambda>x. if dep_TunnelID x = ?n then tamt k (dep_Amount x) d else 0) \<circ> snd) (ts_deposits s) = map (\<lambda>_. 0) (ts_deposits s)"
      by (intro map_cong) auto
    then show ?thesis unfolding deposited_def kv_sum_def by (simp only:) (simp add: map_replicate_const sum_list_replicate)
  qed
  then have tot: "totals_ok k ?T' (ts_deposits s)"
    using totals_ok_set [OF i(5), of t] t coin(2) by simp
  have P: "packets_ok ?T' (ts_packets s)"
  proof -
    have "packet_wf ?T' key p" if "packet_wf ?T key p" for key p
      using that new by (auto simp: packet_wf_def)
    then show ?thesis using i(6) by (auto simp: packets_ok_def)
  qed
  show ?thesis
    using T L A D tot P i(7,8) t(2) l by (simp add: tunnel_inv_def SetTunnelCount_def SetTunnel_def SetLatestPrices_def)
qed

lemma AddTunnel_cases:
  assumes laws: "tunnel_laws k" and inv: "tunnel_inv k s" and fit: "ts_count s + 1 < 2 ^ 64"
    and d: "AddTunnel k ctx s route sds interval creator = Inr (t, s')"
  shows "tunnel_inv k s'" and "tun_ID t = ts_count s + 1" and "ts_count s' = ts_count s + 1" and "ts_params s' = ts_params s"
    and "GetTunnel s' (ts_count s + 1) = Inr t" and "tun_Route t = AnyRoute route" and "tun_SignalDeviations t = sds"
    and "tun_Interval t = interval" and "\<not> tun_IsActive t" and "tun_Creator t = AccAddress_String (tk_sdk k) creator"
    and "tun_Sequence t = 0" and "tun_TotalDeposit t = []"
    and "GetLatestPrices s' (ts_count s + 1) = Inr \<lparr>lp_TunnelID = ts_count s + 1, lp_Prices = [], lp_LastInterval = 0\<rparr>"
    and "\<forall>j<2 ^ 64. j \<noteq> ts_count s + 1 \<longrightarrow> same_view s s' j" and "ts_deposits s' = ts_deposits s"
proof -
  have u: "u64 (Suc (ts_count s)) = ts_count s + 1" using fit by simp
  obtain a s1 where g: "GenerateTunnelAccount k ctx s (decimal (ts_count s + 1)) = Inr (a, s1)"
    and t: "t = \<lparr>tun_ID = ts_count s + 1, tun_Sequence = 0, tun_Route = AnyRoute route,
                    tun_FeePayer = AccAddress_String (tk_sdk k) a, tun_SignalDeviations = sds,
                    tun_Interval = interval, tun_TotalDeposit = [], tun_IsActive = False,
                    tun_CreatedAt = Unix (tc_BlockTime ctx), tun_Creator = AccAddress_String (tk_sdk k) creator\<rparr>"
    and s': "s' = SetTunnelCount (SetTunnel (SetLatestPrices s1 \<lparr>lp_TunnelID = ts_count s + 1, lp_Prices = [], lp_LastInterval = 0\<rparr>) t)
        (ts_count s + 1)"
    using d u by (auto simp: AddTunnel_def Let_def)
  obtain w where w: "s1 = s\<lparr>ts_world := w\<rparr>" "world_le k (ts_world s) w" "valid_addr a" "a \<noteq> tmod k"
    by (rule GenerateTunnelAccount_cases [OF laws inv g])
  have "AccAddressFromBech32 (tk_sdk k) (tun_FeePayer t) = Inr a"
    using address_lawsD(2) [OF tunnel_lawsD(1) [OF laws] w(3)] by (simp add: t)
  then have wf: "tunnel_wf k (ts_count s + 1) t"
    using w(4) coin_lawsD(1) [OF tunnel_lawsD(2) [OF laws]] by (simp add: tunnel_wf_def t)
  have inv1: "tunnel_inv k s1" using inv_world [OF inv w(2)] by (simp add: w(1))
  show "tunnel_inv k s'"
    using inv_new_tunnel [OF laws inv1, of t] fit wf by (simp add: s' w(1) t)
  show "GetTunnel s' (ts_count s + 1) = Inr t"
    using fit by (simp add: s' SetTunnelCount_def GetTunnel_def SetTunnel_def t)
  show "GetLatestPrices s' (ts_count s + 1) = Inr \<lparr>lp_TunnelID = ts_count s + 1, lp_Prices = [], lp_LastInterval = 0\<rparr>"
    using fit by (simp add: s' SetTunnelCount_def GetLatestPrices_def SetTunnel_def SetLatestPrices_def)
  show "\<forall>j<2 ^ 64. j \<noteq> ts_count s + 1 \<longrightarrow> same_view s s' j"
    using fit by (simp add: same_view_def s' SetTunnelCount_def GetTunnel_def GetLatestPrices_def GetPacket_def SetTunnel_def SetLatestPrices_def t w(1))
qed (use d in \<open>auto simp: AddTunnel_def Let_def SetTunnelCount_def GenerateTunnelAccount_def fit split: if_splits\<close>, use fit in simp_all)

section \<open>The other handlers\<close>

lemma inv_ensureIBCPort:
  assumes laws: "tunnel_laws k" and inv: "tunnel_inv k s" and d: "ensureIBCPort k s i = Inr s'"
  obtains w where "s' = s\<lparr>ts_world := w\<rparr>" and "tunnel_inv k s'"
proof -
  note L = tunnel_lawsD [OF laws]
  have "\<exists>w. s' = s\<lparr>ts_world := w\<rparr> \<and> world_le k (ts_world s) w"
  proof (cases "tk_GetCapability k (ts_world s) (tk_PortPath k (PortIDForTunnel i)) = None")
    case True
    then obtain c w1 w2 where b: "tk_BindPort k (ts_world s) (PortIDForTunnel i) = Inr (c, w1)"
        "tk_ClaimCapability k w1 c (tk_PortPath k (PortIDForTunnel i)) = Inr w2" "s' = s\<lparr>ts_world := w2\<rparr>"
      using d by (auto simp: ensureIBCPort_def bindIBCPort_def Let_def)
    show ?thesis using world_le_trans [OF L(8) [OF b(1)] L(9) [OF b(2)]] b(3) by blast
  next
    case False
    then have "s' = s" using d by (auto simp: ensureIBCPort_def Let_def)
    then show ?thesis by (intro exI [of _ "ts_world s"]) simp
  qed
  then show ?thesis using that inv_world [OF inv] by blast
qed

lemma check_address_valid:
  "address_laws sdk \<Longrightarrow> AccAddressFromBech32 sdk a = Inr x \<Longrightarrow> valid_addr x"
  by (rule address_lawsD(1))

lemma inv_msg_CreateTunnel:
  assumes laws: "tunnel_laws k" and inv: "tunnel_inv k s" and fit: "ts_count s + 1 < 2 ^ 64"
    and m: "MsgCreateTunnel_ValidateBasic (tk_sdk k) F m = Inr ()" "AccAddressFromBech32 (tk_sdk k) (mct_Creator m) \<noteq> Inr (tmod k)"
    and d: "msg_CreateTunnel k ctx s m = Inr (i, s')"
  obtains a r t s1 w where "AccAddressFromBech32 (tk_sdk k) (mct_Creator m) = Inr a" and "GetRouteValue (mct_Route m) = Inr r"
    and "AddTunnel k ctx s r (mct_SignalDeviations m) (mct_Interval m) a = Inr (t, s1)" and "i = tun_ID t"
    and "tunnel_inv k (s1\<lparr>ts_world := w\<rparr>)" and "tunnel_inv k s'"
    and "s' = s1\<lparr>ts_world := w\<rparr> \<or> DepositToTunnel k (s1\<lparr>ts_world := w\<rparr>) i a (mct_InitialDeposit m) = Inr s'"
    and "Coins_IsValid (tk_sdk k) (mct_InitialDeposit m)"
proof -
  note L = tunnel_lawsD [OF laws]
  obtain a r t s1 s2 where a: "AccAddressFromBech32 (tk_sdk k) (mct_Creator m) = Inr a" and r: "GetRouteValue (mct_Route m) = Inr r"
    and add: "AddTunnel k ctx s r (mct_SignalDeviations m) (mct_Interval m) a = Inr (t, s1)" and i: "i = tun_ID t"
    and s2: "(if is_IBCRoute r then ensureIBCPort k s1 (tun_ID t) else Inr s1) = Inr s2"
    and s': "(if \<not> Coins_IsZero (tk_sdk k) (mct_InitialDeposit m)
               then DepositToTunnel k s2 (tun_ID t) a (mct_InitialDeposit m) else Inr s2) = Inr s'"
    using d by (auto simp: msg_CreateTunnel_def Let_def)
  note A = AddTunnel_cases [OF laws inv fit add]
  have "\<exists>w. s2 = s1\<lparr>ts_world := w\<rparr> \<and> tunnel_inv k s2"
  proof (cases "is_IBCRoute r")
    case True
    then show ?thesis using inv_ensureIBCPort [OF laws A(1)] s2 by (metis (full_types))
  next
    case False
    then have "s2 = s1" using s2 by simp
    then show ?thesis using A(1) by (intro exI [of _ "ts_world s1"]) simp
  qed
  then obtain w where w: "s2 = s1\<lparr>ts_world := w\<rparr>" "tunnel_inv k s2" by blast
  have va: "valid_addr a" "a \<noteq> tmod k" using check_address_valid [OF L(1) a] m(2) a by auto
  have c: "Coins_IsValid (tk_sdk k) (mct_InitialDeposit m)"
    using m(1) by (auto simp: MsgCreateTunnel_ValidateBasic_def split: if_splits)
  have id: "tun_ID t < 2 ^ 64" using A(2) fit by simp
  have inv': "tunnel_inv k s'"
    using s' inv_DepositToTunnel [OF laws w(2) id va c] w(2) by (auto split: if_splits)
  show ?thesis
    by (rule that [OF a r add i _ inv' _ c, of w]) (use w s' i in \<open>auto split: if_splits\<close>)
qed

lemma inv_UpdateRoute:
  assumes inv: "tunnel_inv k s" and i: "mur_TunnelID m < 2 ^ 64" and d: "msg_UpdateRoute k s m = Inr s'"
  obtains t where "GetTunnel s (mur_TunnelID m) = Inr t" and "s' = SetTunnel s (t\<lparr>tun_Route := mur_Route m\<rparr>)" and "tunnel_inv k s'"
proof -
  obtain t where t: "GetTunnel s (mur_TunnelID m) = Inr t" and s': "s' = SetTunnel s (t\<lparr>tun_Route := mur_Route m\<rparr>)"
    and r: "is_ok (GetRouteValue (mur_Route m))"
    using d by (auto simp: msg_UpdateRoute_def split: if_splits RouteI.splits)
  note g = GetTunnelD [OF tunnel_invD(1) [OF inv] i t]
  have "tunnel_inv k s'" unfolding s'
    by (rule inv_SetTunnel [OF inv, of _ t]) (use g r in \<open>auto simp: tunnel_wf_def\<close>)
  then show ?thesis using that t s' by blast
qed

lemma inv_UpdateSignals:
  assumes inv: "tunnel_inv k s" and i: "mus_TunnelID m < 2 ^ 64" and d: "msg_UpdateSignalsAndInterval s m = Inr s'"
  obtains t where "GetTunnel s (mus_TunnelID m) = Inr t"
    and "s' = SetLatestPrices (SetTunnel s (t\<lparr>tun_SignalDeviations := mus_SignalDeviations m, tun_Interval := mus_Interval m\<rparr>))
      \<lparr>lp_TunnelID = mus_TunnelID m, lp_Prices = [], lp_LastInterval = 0\<rparr>" and "tunnel_inv k s'"
proof -
  obtain t where t: "GetTunnel s (mus_TunnelID m) = Inr t"
    and s': "s' = SetLatestPrices (SetTunnel s (t\<lparr>tun_SignalDeviations := mus_SignalDeviations m, tun_Interval := mus_Interval m\<rparr>))
      \<lparr>lp_TunnelID = mus_TunnelID m, lp_Prices = [], lp_LastInterval = 0\<rparr>"
    using d by (auto simp: msg_UpdateSignalsAndInterval_def UpdateSignalsAndInterval_def Let_def split: if_splits)
  note g = GetTunnelD [OF tunnel_invD(1) [OF inv] i t]
  have "tunnel_inv k s'" unfolding s'
    by (rule inv_SetLatestPrices, rule inv_SetTunnel [OF inv, of _ t]) (use g i in \<open>auto simp: tunnel_wf_def\<close>)
  then show ?thesis using that t s' by blast
qed

lemma inv_WithdrawFeePayerFunds:
  assumes laws: "tunnel_laws k" and inv: "tunnel_inv k s" and i: "mta_TunnelID m < 2 ^ 64"
    and v: "MsgWithdrawFeePayerFunds_ValidateBasic (tk_sdk k) m = Inr ()" and d: "msg_WithdrawFeePayerFunds k s m = Inr s'"
  obtains w where "s' = s\<lparr>ts_world := w\<rparr>" and "tunnel_inv k s'"
proof -
  note L = tunnel_lawsD [OF laws]
  obtain t a c w where t: "GetTunnel s (mta_TunnelID m) = Inr t" and a: "AccAddressFromBech32 (tk_sdk k) (tun_FeePayer t) = Inr a"
    and w: "SendCoins (tk_bank k) (ts_world s) a c (mta_Amount m) = Inr w" and s': "s' = s\<lparr>ts_world := w\<rparr>"
    using d by (auto simp: msg_WithdrawFeePayerFunds_def split: if_splits)
  have "a \<noteq> tmod k" using GetTunnelD(2) [OF tunnel_invD(1) [OF inv] i t] a by (auto simp: tunnel_wf_def)
  have c: "Coins_IsValid (tk_sdk k) (mta_Amount m)"
    using v by (auto simp: MsgWithdrawFeePayerFunds_ValidateBasic_def split: if_splits)
  have "world_le k (ts_world s) w"
    using send_mod_bal [OF laws c w] \<open>a \<noteq> tmod k\<close> coin_lawsD(3) [OF L(2) c] L(7) [OF w] by (simp add: world_le_def)
  then show ?thesis using that inv_world [OF inv] s' by blast
qed

lemma TriggerTunnel_spec:
  assumes laws: "tunnel_laws k" and inv: "tunnel_inv k s" and i: "mt_TunnelID m < 2 ^ 64"
    and fit: "\<And>t. GetTunnel s (mt_TunnelID m) = Inr t \<Longrightarrow> tun_Sequence t + 1 < 2 ^ 64"
    and d: "msg_TriggerTunnel k ctx s m = Inr s'"
  obtains t l ps where "GetTunnel s (mt_TunnelID m) = Inr t" and "tun_Creator t = mt_Creator m" and "tun_IsActive t"
    and "GetLatestPrices s (mt_TunnelID m) = Inr l" and "ps = GetPrices (tc_feeds ctx) (tc_feeds_state ctx) (GetSignalIDs t)"
    and "tunnel_inv k s'" and "same_base s s'"
    and "packet_sent ctx s s' t ps (UpdatePrices (l\<lparr>lp_LastInterval := Unix (tc_BlockTime ctx)\<rparr>) ps)"
    and "\<forall>j<2 ^ 64. j \<noteq> mt_TunnelID m \<longrightarrow> same_view s s' j"
proof -
  let ?i = "mt_TunnelID m"
  obtain t where t: "GetTunnel s ?i = Inr t" "tun_Creator t = mt_Creator m" "tun_IsActive t"
    using d by (auto simp: msg_TriggerTunnel_def split: if_splits)
  define ps where "ps = GetPrices (tc_feeds ctx) (tc_feeds_state ctx) (GetSignalIDs t)"
  have id: "tun_ID t = ?i" by (rule GetTunnelD(1) [OF tunnel_invD(1) [OF inv] i t(1)])
  obtain p s1 s2 l where c: "CreatePacket k ctx s ?i ps = Inr (p, s1)" and sd: "SendPacket k ctx s1 p = Inr s2"
    and l: "GetLatestPrices s2 ?i = Inr l"
    and s': "s' = SetLatestPrices s2 (UpdatePrices (l\<lparr>lp_LastInterval := Unix (tc_BlockTime ctx)\<rparr>) (pkt_Prices p))"
    using d t id by (auto simp: msg_TriggerTunnel_def Let_def ps_def split: if_splits)
  obtain w f r p' where s2: "s2 = SetPacket (SetPacket (SetTunnel (s\<lparr>ts_world := w, ts_total_fees := f\<rparr>) (t\<lparr>tun_Sequence := tun_Sequence t + 1\<rparr>)) p) p'"
    and p: "pkt_Prices p = ps"
    by (rule create_send [OF laws inv i fit t(1) c sd]) blast
  have ls: "GetLatestPrices s ?i = Inr l" using l by (simp add: s2)
  have lid: "lp_TunnelID (UpdatePrices (l\<lparr>lp_LastInterval := Unix (tc_BlockTime ctx)\<rparr>) (pkt_Prices p)) = ?i"
    using GetLatestPricesD [OF tunnel_invD(2) [OF inv] i ls] by simp
  note st = create_send_store [OF laws inv i fit t(1) c sd lid]
  show ?thesis by (rule that [OF t ls ps_def]) (use st p in \<open>auto simp: s'\<close>)
qed

section \<open>Steps\<close>

text \<open>The counters of tunnels and packets are \<open>uint64\<close> and do not reach their end.\<close>

definition counters_fit :: "'w tunnel_state \<Rightarrow> bool" where
  "counters_fit s \<longleftrightarrow> ts_count s + 1 < 2 ^ 64 \<and> (\<forall>i t. GetTunnel s i = Inr t \<longrightarrow> tun_Sequence t + 1 < 2 ^ 64)"

text \<open>
  A message reaches its handler after \<open>ValidateBasic\<close>; its tunnel id is a \<open>uint64\<close>. The module
  account has no key, so it signs no message. The rule \<open>step_world\<close> is what other modules do: they
  do not debit the module account of \<open>x/tunnel\<close>.
\<close>

inductive tunnel_step :: "'w tunnel_keeper \<Rightarrow> 'w tunnel_state \<Rightarrow> 'w tunnel_state \<Rightarrow> bool" for k where
  step_create: "MsgCreateTunnel_ValidateBasic (tk_sdk k) (tk_IsChannelIDFormat k) mc = Inr () \<Longrightarrow>
    AccAddressFromBech32 (tk_sdk k) (mct_Creator mc) \<noteq> Inr (tmod k) \<Longrightarrow> counters_fit s \<Longrightarrow>
    msg_CreateTunnel k ctx s mc = Inr (i, s') \<Longrightarrow> tunnel_step k s s'"
| step_update_route: "MsgUpdateRoute_ValidateBasic (tk_sdk k) (tk_IsChannelIDFormat k) mr = Inr () \<Longrightarrow>
    mur_TunnelID mr < 2 ^ 64 \<Longrightarrow> msg_UpdateRoute k s mr = Inr s' \<Longrightarrow> tunnel_step k s s'"
| step_update_signals: "MsgUpdateSignalsAndInterval_ValidateBasic (tk_sdk k) mu = Inr () \<Longrightarrow>
    mus_TunnelID mu < 2 ^ 64 \<Longrightarrow> msg_UpdateSignalsAndInterval s mu = Inr s' \<Longrightarrow> tunnel_step k s s'"
| step_withdraw_fee_payer: "MsgWithdrawFeePayerFunds_ValidateBasic (tk_sdk k) ma = Inr () \<Longrightarrow>
    mta_TunnelID ma < 2 ^ 64 \<Longrightarrow> msg_WithdrawFeePayerFunds k s ma = Inr s' \<Longrightarrow> tunnel_step k s s'"
| step_activate: "MsgActivate_ValidateBasic (tk_sdk k) m = Inr () \<Longrightarrow>
    mt_TunnelID m < 2 ^ 64 \<Longrightarrow> msg_Activate k s m = Inr s' \<Longrightarrow> tunnel_step k s s'"
| step_deactivate: "MsgDeactivate_ValidateBasic (tk_sdk k) m = Inr () \<Longrightarrow>
    mt_TunnelID m < 2 ^ 64 \<Longrightarrow> msg_Deactivate s m = Inr s' \<Longrightarrow> tunnel_step k s s'"
| step_trigger: "MsgTriggerTunnel_ValidateBasic (tk_sdk k) m = Inr () \<Longrightarrow> counters_fit s \<Longrightarrow>
    mt_TunnelID m < 2 ^ 64 \<Longrightarrow> msg_TriggerTunnel k ctx s m = Inr s' \<Longrightarrow> tunnel_step k s s'"
| step_deposit: "MsgDepositToTunnel_ValidateBasic (tk_sdk k) ma = Inr () \<Longrightarrow>
    AccAddressFromBech32 (tk_sdk k) (mta_Account ma) \<noteq> Inr (tmod k) \<Longrightarrow>
    mta_TunnelID ma < 2 ^ 64 \<Longrightarrow> msg_DepositToTunnel k s ma = Inr s' \<Longrightarrow> tunnel_step k s s'"
| step_withdraw: "MsgWithdrawFromTunnel_ValidateBasic (tk_sdk k) ma = Inr () \<Longrightarrow>
    mta_TunnelID ma < 2 ^ 64 \<Longrightarrow> msg_WithdrawFromTunnel k s ma = Inr s' \<Longrightarrow> tunnel_step k s s'"
| step_update_params: "tunnel_MsgUpdateParams_ValidateBasic (tk_sdk k) authority p = Inr () \<Longrightarrow>
    tunnel_UpdateParams k s authority p = Inr s' \<Longrightarrow> tunnel_step k s s'"
| step_end_block: "counters_fit s \<Longrightarrow> tunnel_EndBlocker k ctx s = Inr s' \<Longrightarrow> tunnel_step k s s'"
| step_open_init: "OnChanOpenInit k s order port chan c ver = Inr (v, s') \<Longrightarrow> tunnel_step k s s'"
| step_open_try: "OnChanOpenTry k s order port chan c ver = Inr (v, s') \<Longrightarrow> tunnel_step k s s'"
| step_world: "world_le k (ts_world s) w \<Longrightarrow> tunnel_step k s (s\<lparr>ts_world := w\<rparr>)"

lemma callbacks_world:
  assumes laws: "tunnel_laws k"
  shows "OnChanOpenInit k s order port chan c ver = Inr (v, s') \<Longrightarrow> \<exists>w. s' = s\<lparr>ts_world := w\<rparr> \<and> world_le k (ts_world s) w"
    and "OnChanOpenTry k s order port chan c ver = Inr (v, s') \<Longrightarrow> \<exists>w. s' = s\<lparr>ts_world := w\<rparr> \<and> world_le k (ts_world s) w"
  using tunnel_lawsD(9) [OF laws]
  by (auto simp: OnChanOpenInit_def OnChanOpenTry_def Let_def split: if_splits intro: exI [of _ "ts_world s"])

lemma amount_valid:
  "MsgDepositToTunnel_ValidateBasic sdk m = Inr () \<Longrightarrow> Coins_IsValid sdk (mta_Amount m)"
  "MsgWithdrawFromTunnel_ValidateBasic sdk m = Inr () \<Longrightarrow> Coins_IsValid sdk (mta_Amount m)"
  by (auto simp: MsgDepositToTunnel_ValidateBasic_def MsgWithdrawFromTunnel_ValidateBasic_def split: if_splits)

lemma EndBlocker_fold:
  assumes laws: "tunnel_laws k" and inv: "tunnel_inv k s" and fit: "counters_fit s" and d: "tunnel_EndBlocker k ctx s = Inr s'"
  shows "tunnel_inv k s'" and "same_base s s'"
    and "\<forall>i<2 ^ 64. if i \<in> set (GetActiveTunnelIDs s)
      then view_turn ctx (CreatePricesMap (GetAllPrices (tc_feeds_state ctx))) s s' i else same_view s s' i"
  using active_tunnels_fold [OF laws inv GetActiveTunnelIDs_spec(1) [OF inv] GetActiveTunnelIDs_spec(3) [OF inv],
      of ctx "CreatePricesMap (GetAllPrices (tc_feeds_state ctx))" s'] fit d
  by (auto simp: tunnel_EndBlocker_def ProduceActiveTunnelPackets_def Let_def counters_fit_def)

lemma tunnel_step_inv:
  assumes laws: "tunnel_laws k" and "tunnel_step k s s'" and inv: "tunnel_inv k s"
  shows "tunnel_inv k s'"
  using assms(2)
proof cases
  case (step_create mc ctx i)
  then show ?thesis using inv_msg_CreateTunnel [OF laws inv _ step_create(1,2,4)] by (auto simp: counters_fit_def)
next
  case (step_update_route mr)
  then show ?thesis using inv_UpdateRoute [OF inv] by blast
next
  case (step_update_signals mu)
  then show ?thesis using inv_UpdateSignals [OF inv] by blast
next
  case (step_withdraw_fee_payer ma)
  then show ?thesis using inv_WithdrawFeePayerFunds [OF laws inv] by blast
next
  case (step_activate m)
  then show ?thesis using inv_ActivateTunnel [OF inv] by (auto simp: msg_Activate_def split: if_splits)
next
  case (step_deactivate m)
  then show ?thesis using inv_DeactivateTunnel [OF inv] by (auto simp: msg_Deactivate_def split: if_splits)
next
  case (step_trigger m ctx)
  then show ?thesis using TriggerTunnel_spec [OF laws inv] unfolding counters_fit_def by metis
next
  case (step_deposit ma)
  then obtain a where a: "AccAddressFromBech32 (tk_sdk k) (mta_Account ma) = Inr a" "DepositToTunnel k s (mta_TunnelID ma) a (mta_Amount ma) = Inr s'"
    by (auto simp: msg_DepositToTunnel_def)
  have "valid_addr a" "a \<noteq> tmod k" using check_address_valid [OF tunnel_lawsD(1) [OF laws] a(1)] step_deposit(2) a(1) by auto
  then show ?thesis using inv_DepositToTunnel [OF laws inv step_deposit(3) _ _ amount_valid(1) [OF step_deposit(1)] a(2)] by blast
next
  case (step_withdraw ma)
  then obtain a where a: "AccAddressFromBech32 (tk_sdk k) (mta_Account ma) = Inr a" "WithdrawFromTunnel k s (mta_TunnelID ma) (mta_Amount ma) a = Inr s'"
    by (auto simp: msg_WithdrawFromTunnel_def)
  then show ?thesis
    using inv_WithdrawFromTunnel [OF laws inv step_withdraw(2) check_address_valid [OF tunnel_lawsD(1) [OF laws] a(1)]
        amount_valid(2) [OF step_withdraw(1)] a(2)] by blast
next
  case (step_update_params authority p)
  then show ?thesis using inv_params [OF inv] by (auto simp: tunnel_UpdateParams_def split: if_splits)
next
  case (step_end_block ctx)
  then show ?thesis using EndBlocker_fold(1) [OF laws inv] by blast
next
  case (step_open_init order port chan c ver v)
  then show ?thesis using callbacks_world(1) [OF laws] inv_world [OF inv] by blast
next
  case (step_open_try order port chan c ver v)
  then show ?thesis using callbacks_world(2) [OF laws] inv_world [OF inv] by blast
next
  case (step_world w)
  then show ?thesis using inv_world [OF inv] by blast
qed

lemma tunnel_steps_inv:
  assumes laws: "tunnel_laws k" and "(tunnel_step k)\<^sup>*\<^sup>* s s'" and "tunnel_inv k s"
  shows "tunnel_inv k s'"
  using assms(2,3) by (induction rule: rtranclp_induct) (auto intro: tunnel_step_inv [OF laws])

section \<open>Active tunnels are covered\<close>

definition active_covered :: "'w tunnel_keeper \<Rightarrow> 'w tunnel_state \<Rightarrow> bool" where
  "active_covered k s \<longleftrightarrow> (\<forall>i<2 ^ 64. \<forall>t. GetTunnel s i = Inr t \<longrightarrow> tun_IsActive t \<longrightarrow>
     tk_Coins_IsAllGTE k (tun_TotalDeposit t) (tp_MinDeposit (ts_params s)))"

text \<open>Every active tunnel afterwards was active before with no greater deposit, or reaches the minimum.\<close>

definition cover_kept :: "'w tunnel_keeper \<Rightarrow> 'w tunnel_state \<Rightarrow> 'w tunnel_state \<Rightarrow> bool" where
  "cover_kept k s s' \<longleftrightarrow>
     (\<forall>i<2 ^ 64. \<forall>t'. GetTunnel s' i = Inr t' \<longrightarrow> tun_IsActive t' \<longrightarrow>
        (\<exists>t. GetTunnel s i = Inr t \<and> tun_IsActive t \<and> (\<forall>d. tamt k (tun_TotalDeposit t) d \<le> tamt k (tun_TotalDeposit t') d)) \<or>
        tk_Coins_IsAllGTE k (tun_TotalDeposit t') (tp_MinDeposit (ts_params s)))"

lemma cover_kept_covered:
  assumes laws: "tunnel_laws k" and inv: "tunnel_inv k s" "tunnel_inv k s'" and c: "active_covered k s" and kept: "cover_kept k s s'"
    and le: "\<forall>d. tamt k (tp_MinDeposit (ts_params s')) d \<le> tamt k (tp_MinDeposit (ts_params s)) d"
  shows "active_covered k s'"
  unfolding active_covered_def
proof (intro allI impI)
  fix i t' assume i: "i < 2 ^ 64" and t': "GetTunnel s' i = Inr t'" "tun_IsActive t'"
  let ?min = "tp_MinDeposit (ts_params s)" and ?min' = "tp_MinDeposit (ts_params s')"
  note L = tunnel_lawsD [OF laws]
  have min: "Coins_IsValid (tk_sdk k) ?min" by (rule tunnel_params_valid(1) [OF tunnel_invD(8) [OF inv(1)]])
  have v': "Coins_IsValid (tk_sdk k) (tun_TotalDeposit t')"
    using GetTunnelD(2) [OF tunnel_invD(1) [OF inv(2)] i t'(1)] by (simp add: tunnel_wf_def)
  have min': "Coins_IsValid (tk_sdk k) ?min'" by (rule tunnel_params_valid(1) [OF tunnel_invD(8) [OF inv(2)]])
  from kept i t' consider "tk_Coins_IsAllGTE k (tun_TotalDeposit t') ?min"
    | t where "GetTunnel s i = Inr t" "tun_IsActive t" "\<forall>d. tamt k (tun_TotalDeposit t) d \<le> tamt k (tun_TotalDeposit t') d"
    unfolding cover_kept_def by blast
  then have "tk_Coins_IsAllGTE k (tun_TotalDeposit t') ?min"
  proof cases
    case 2
    have v: "Coins_IsValid (tk_sdk k) (tun_TotalDeposit t)"
      using GetTunnelD(2) [OF tunnel_invD(1) [OF inv(1)] i 2(1)] by (simp add: tunnel_wf_def)
    have "\<forall>d. tamt k ?min d \<le> tamt k (tun_TotalDeposit t) d" using c i 2 L(4) [OF v min] by (simp add: active_covered_def)
    then show ?thesis using 2(3) L(4) [OF v' min] by (metis order_trans)
  qed
  then show "tk_Coins_IsAllGTE k (tun_TotalDeposit t') ?min'" using le L(4) [OF v' min] L(4) [OF v' min'] by (metis order_trans)
qed

text \<open>A changed tunnel keeps the cover when it is inactive, covered, or as active and funded as before.\<close>

lemma cover_kept_SetTunnel:
  assumes "tunnel_inv k s" and "tun_ID t' < 2 ^ 64"
    and "\<not> tun_IsActive t' \<or> tk_Coins_IsAllGTE k (tun_TotalDeposit t') (tp_MinDeposit (ts_params s)) \<or>
      (\<exists>t. GetTunnel s (tun_ID t') = Inr t \<and> tun_IsActive t \<and> (\<forall>d. tamt k (tun_TotalDeposit t) d \<le> tamt k (tun_TotalDeposit t') d))"
    and "\<forall>i<2 ^ 64. GetTunnel s2 i = (if i = tun_ID t' then Inr t' else GetTunnel s i)"
  shows "cover_kept k s s2"
  using assms(3,4) unfolding cover_kept_def by auto

lemma cover_kept_same:
  "\<forall>i<2 ^ 64. GetTunnel s' i = GetTunnel s i \<Longrightarrow> cover_kept k s s'"
  by (auto simp: cover_kept_def)

lemma cover_DepositToTunnel:
  assumes laws: "tunnel_laws k" and inv: "tunnel_inv k s" and i: "i < 2 ^ 64" and a: "valid_addr a"
    and c: "Coins_IsValid (tk_sdk k) c" and d: "DepositToTunnel k s i a c = Inr s'"
  shows "cover_kept k s s'"
proof -
  note coin = coin_lawsD [OF tunnel_lawsD(2) [OF laws]]
  obtain t w x where t: "GetTunnel s i = Inr t"
    and s': "s' = SetTunnel (s\<lparr>ts_world := w, ts_deposits := kv_set (ts_deposits s) (DepositStoreKey (tk_sdk k) i a) x\<rparr>)
        (t\<lparr>tun_TotalDeposit := Coins_Add (tk_sdk k) (tun_TotalDeposit t) c\<rparr>)"
    by (rule DepositToTunnel_cases [OF laws inv i a c d])
  note g = GetTunnelD [OF tunnel_invD(1) [OF inv] i t]
  have "tamt k (tun_TotalDeposit t) d \<le> tamt k (Coins_Add (tk_sdk k) (tun_TotalDeposit t) c) d" for d
    using coin(6) [of "tun_TotalDeposit t" c d] coin(3) [OF c, of d] c g(2) by (simp add: tunnel_wf_def)
  then show ?thesis
    using t g(1) i by (intro cover_kept_SetTunnel [OF inv, of "t\<lparr>tun_TotalDeposit := Coins_Add (tk_sdk k) (tun_TotalDeposit t) c\<rparr>"])
      (auto simp: s' GetTunnel_def SetTunnel_def)
qed

lemma cover_turn:
  assumes "\<forall>i<2 ^ 64. view_turn ctx pm s s' i \<or> same_view s s' i"
  shows "cover_kept k s s'"
  unfolding cover_kept_def
proof (intro allI impI)
  fix i t' assume i: "i < 2 ^ 64" and t': "GetTunnel s' i = Inr t'" "tun_IsActive t'"
  have "view_turn ctx pm s s' i \<or> same_view s s' i" using assms(1) i by blast
  then consider "GetTunnel s i = GetTunnel s' i" | t where "GetTunnel s i = Inr t" "GetTunnel s' i = Inr (t\<lparr>tun_IsActive := False\<rparr>)"
    | t where "GetTunnel s i = Inr t" "GetTunnel s' i = Inr (t\<lparr>tun_Sequence := tun_Sequence t + 1\<rparr>)"
    unfolding view_turn_def same_view_def packet_sent_def by metis
  then obtain t where "GetTunnel s i = Inr t" "tun_IsActive t" "tun_TotalDeposit t = tun_TotalDeposit t'"
    using t' by cases auto
  then show "(\<exists>t. GetTunnel s i = Inr t \<and> tun_IsActive t \<and> (\<forall>d. tamt k (tun_TotalDeposit t) d \<le> tamt k (tun_TotalDeposit t') d)) \<or>
      tk_Coins_IsAllGTE k (tun_TotalDeposit t') (tp_MinDeposit (ts_params s))" by auto
qed

lemma cover_WithdrawFromTunnel:
  assumes laws: "tunnel_laws k" and inv: "tunnel_inv k s" and i: "i < 2 ^ 64" and a: "valid_addr a"
    and c: "Coins_IsValid (tk_sdk k) c" and d: "WithdrawFromTunnel k s i c a = Inr s'"
  shows "cover_kept k s s'"
proof -
  obtain t y w rest tot D where t: "GetTunnel s i = Inr t"
    and s': "s' = (if tun_IsActive t \<and> \<not> tk_Coins_IsAllGTE k tot (tp_MinDeposit (ts_params s))
      then SetTunnel (DeleteActiveTunnelID (SetTunnel (s\<lparr>ts_world := w, ts_deposits := D\<rparr>) (t\<lparr>tun_TotalDeposit := tot\<rparr>)) i)
             (t\<lparr>tun_TotalDeposit := tot, tun_IsActive := False\<rparr>)
      else SetTunnel (s\<lparr>ts_world := w, ts_deposits := D\<rparr>) (t\<lparr>tun_TotalDeposit := tot\<rparr>))"
    by (rule WithdrawFromTunnel_cases [OF laws inv i a c d])
  have id: "tun_ID t = i" by (rule GetTunnelD(1) [OF tunnel_invD(1) [OF inv] i t])
  let ?t = "t\<lparr>tun_TotalDeposit := tot, tun_IsActive := tun_IsActive t \<and> tk_Coins_IsAllGTE k tot (tp_MinDeposit (ts_params s))\<rparr>"
  show ?thesis
    by (rule cover_kept_SetTunnel [OF inv, of ?t])
      (use i id t in \<open>auto simp: s' GetTunnel_def SetTunnel_def DeleteActiveTunnelID_def\<close>)
qed

lemma tunnel_step_covered:
  assumes laws: "tunnel_laws k" and step: "tunnel_step k s s'" and inv: "tunnel_inv k s"
  shows "cover_kept k s s'"
  using step
proof cases
  case (step_create mc ctx i)
  note fit = step_create(3)
  have n: "ts_count s + 1 < 2 ^ 64" using fit by (simp add: counters_fit_def)
  obtain a r t s1 w where a: "AccAddressFromBech32 (tk_sdk k) (mct_Creator mc) = Inr a"
    and add: "AddTunnel k ctx s r (mct_SignalDeviations mc) (mct_Interval mc) a = Inr (t, s1)" and i: "i = tun_ID t"
    and inv1: "tunnel_inv k (s1\<lparr>ts_world := w\<rparr>)" and c: "Coins_IsValid (tk_sdk k) (mct_InitialDeposit mc)"
    and s': "s' = s1\<lparr>ts_world := w\<rparr> \<or> DepositToTunnel k (s1\<lparr>ts_world := w\<rparr>) i a (mct_InitialDeposit mc) = Inr s'"
    by (rule inv_msg_CreateTunnel [OF laws inv n step_create(1,2,4)])
  note A = AddTunnel_cases [OF laws inv n add]
  have id: "i < 2 ^ 64" using i A(2) n by simp
  obtain t' where t': "tun_ID t' = i" "\<not> tun_IsActive t'" "\<forall>j<2 ^ 64. GetTunnel s' j = (if j = i then Inr t' else GetTunnel s j)"
  proof (cases "s' = s1\<lparr>ts_world := w\<rparr>")
    case True
    show ?thesis by (rule that [of t]) (use True A i in \<open>auto simp: same_view_def\<close>)
  next
    case False
    then have d: "DepositToTunnel k (s1\<lparr>ts_world := w\<rparr>) i a (mct_InitialDeposit mc) = Inr s'" using s' by blast
    obtain u w' x where u: "GetTunnel (s1\<lparr>ts_world := w\<rparr>) i = Inr u"
      and e: "s' = SetTunnel (s1\<lparr>ts_world := w\<rparr>\<lparr>ts_world := w', ts_deposits := kv_set (ts_deposits (s1\<lparr>ts_world := w\<rparr>)) (DepositStoreKey (tk_sdk k) i a) x\<rparr>)
        (u\<lparr>tun_TotalDeposit := Coins_Add (tk_sdk k) (tun_TotalDeposit u) (mct_InitialDeposit mc)\<rparr>)"
      by (rule DepositToTunnel_cases [OF laws inv1 id check_address_valid [OF tunnel_lawsD(1) [OF laws] a] c d])
    have "u = t" using u A(2,5) i by simp
    then show ?thesis
      using that [of "u\<lparr>tun_TotalDeposit := Coins_Add (tk_sdk k) (tun_TotalDeposit u) (mct_InitialDeposit mc)\<rparr>"] A i id
      by (auto simp: e GetTunnel_def SetTunnel_def same_view_def)
  qed
  show ?thesis by (rule cover_kept_SetTunnel [OF inv, of t']) (use t' id in auto)
next
  case (step_update_route mr)
  obtain t where t: "GetTunnel s (mur_TunnelID mr) = Inr t" and s': "s' = SetTunnel s (t\<lparr>tun_Route := mur_Route mr\<rparr>)"
    by (rule inv_UpdateRoute [OF inv step_update_route(2,3)])
  have id: "tun_ID t = mur_TunnelID mr" by (rule GetTunnelD(1) [OF tunnel_invD(1) [OF inv] step_update_route(2) t])
  show ?thesis
    by (rule cover_kept_SetTunnel [OF inv, of "t\<lparr>tun_Route := mur_Route mr\<rparr>"])
      (use id t step_update_route(2) in \<open>auto simp: s' tunnel_lookup\<close>)
next
  case (step_update_signals mu)
  obtain t where t: "GetTunnel s (mus_TunnelID mu) = Inr t"
    and s': "s' = SetLatestPrices (SetTunnel s (t\<lparr>tun_SignalDeviations := mus_SignalDeviations mu, tun_Interval := mus_Interval mu\<rparr>))
      \<lparr>lp_TunnelID = mus_TunnelID mu, lp_Prices = [], lp_LastInterval = 0\<rparr>"
    by (rule inv_UpdateSignals [OF inv step_update_signals(2,3)])
  have id: "tun_ID t = mus_TunnelID mu" by (rule GetTunnelD(1) [OF tunnel_invD(1) [OF inv] step_update_signals(2) t])
  show ?thesis
    by (rule cover_kept_SetTunnel [OF inv, of "t\<lparr>tun_SignalDeviations := mus_SignalDeviations mu, tun_Interval := mus_Interval mu\<rparr>"])
      (use id t step_update_signals(2) in \<open>auto simp: s' tunnel_lookup\<close>)
next
  case (step_withdraw_fee_payer ma)
  then show ?thesis using inv_WithdrawFeePayerFunds [OF laws inv] cover_kept_same by (metis lookup_other(7))
next
  case (step_activate m)
  then obtain t where t: "GetTunnel s (mt_TunnelID m) = Inr t" and gte: "tk_Coins_IsAllGTE k (tun_TotalDeposit t) (tp_MinDeposit (ts_params s))"
    and s': "s' = SetTunnel (SetActiveTunnelID s (mt_TunnelID m)) (t\<lparr>tun_IsActive := True\<rparr>)"
    by (auto simp: msg_Activate_def ActivateTunnel_def Let_def split: if_splits)
  have id: "tun_ID t = mt_TunnelID m" by (rule GetTunnelD(1) [OF tunnel_invD(1) [OF inv] step_activate(2) t])
  show ?thesis
    by (rule cover_kept_SetTunnel [OF inv, of "t\<lparr>tun_IsActive := True\<rparr>"])
      (use id gte step_activate(2) in \<open>auto simp: s' tunnel_lookup\<close>)
next
  case (step_deactivate m)
  then obtain t where t: "GetTunnel s (mt_TunnelID m) = Inr t"
    and s': "s' = SetTunnel (DeleteActiveTunnelID s (mt_TunnelID m)) (t\<lparr>tun_IsActive := False\<rparr>)"
    by (auto simp: msg_Deactivate_def DeactivateTunnel_def Let_def split: if_splits)
  have id: "tun_ID t = mt_TunnelID m" by (rule GetTunnelD(1) [OF tunnel_invD(1) [OF inv] step_deactivate(2) t])
  show ?thesis
    by (rule cover_kept_SetTunnel [OF inv, of "t\<lparr>tun_IsActive := False\<rparr>"])
      (use id step_deactivate(2) in \<open>auto simp: s' tunnel_lookup\<close>)
next
  case (step_trigger m ctx)
  obtain t l ps where t: "GetTunnel s (mt_TunnelID m) = Inr t" "tun_IsActive t" and b: "same_base s s'"
    and sent: "packet_sent ctx s s' t ps (UpdatePrices (l\<lparr>lp_LastInterval := Unix (tc_BlockTime ctx)\<rparr>) ps)"
    and same: "\<forall>j<2 ^ 64. j \<noteq> mt_TunnelID m \<longrightarrow> same_view s s' j"
    by (rule TriggerTunnel_spec [OF laws inv step_trigger(3) _ step_trigger(4)]) (use step_trigger(2) in \<open>auto simp: counters_fit_def\<close>)
  have id: "tun_ID t = mt_TunnelID m" by (rule GetTunnelD(1) [OF tunnel_invD(1) [OF inv] step_trigger(3) t(1)])
  show ?thesis
    by (rule cover_kept_SetTunnel [OF inv, of "t\<lparr>tun_Sequence := tun_Sequence t + 1\<rparr>"])
      (use id t sent same step_trigger(3) in \<open>auto simp: packet_sent_def same_view_def\<close>)
next
  case (step_deposit ma)
  then obtain a where a: "AccAddressFromBech32 (tk_sdk k) (mta_Account ma) = Inr a" "DepositToTunnel k s (mta_TunnelID ma) a (mta_Amount ma) = Inr s'"
    by (auto simp: msg_DepositToTunnel_def)
  show ?thesis
    by (rule cover_DepositToTunnel [OF laws inv step_deposit(3) check_address_valid [OF tunnel_lawsD(1) [OF laws] a(1)]
          amount_valid(1) [OF step_deposit(1)] a(2)])
next
  case (step_withdraw ma)
  then obtain a where a: "AccAddressFromBech32 (tk_sdk k) (mta_Account ma) = Inr a" "WithdrawFromTunnel k s (mta_TunnelID ma) (mta_Amount ma) a = Inr s'"
    by (auto simp: msg_WithdrawFromTunnel_def)
  show ?thesis
    by (rule cover_WithdrawFromTunnel [OF laws inv step_withdraw(2) check_address_valid [OF tunnel_lawsD(1) [OF laws] a(1)]
          amount_valid(2) [OF step_withdraw(1)] a(2)])
next
  case (step_update_params authority q)
  then have "\<forall>i<2 ^ 64. GetTunnel s' i = GetTunnel s i"
    by (auto simp: tunnel_UpdateParams_def tunnel_SetParams_def GetTunnel_def split: if_splits)
  then show ?thesis by (rule cover_kept_same)
next
  case (step_end_block ctx)
  have "\<forall>i<2 ^ 64. view_turn ctx (CreatePricesMap (GetAllPrices (tc_feeds_state ctx))) s s' i \<or> same_view s s' i"
    using EndBlocker_fold(3) [OF laws inv step_end_block] by (metis (mono_tags))
  then show ?thesis by (rule cover_turn)
next
  case (step_open_init order port chan c ver v)
  then show ?thesis using callbacks_world(1) [OF laws] cover_kept_same by (metis lookup_other(7))
next
  case (step_open_try order port chan c ver v)
  then show ?thesis using callbacks_world(2) [OF laws] cover_kept_same by (metis lookup_other(7))
next
  case (step_world w)
  then show ?thesis using cover_kept_same by (metis lookup_other(7))
qed

end
