(* ===== verification/Tunnel_Genesis.thy ===== *)
theory Tunnel_Genesis
  imports Tunnel_Steps
begin

text \<open>
  Genesis of \<open>x/tunnel\<close>: importing an exported state rebuilds the tunnels, the index of active
  tunnels, the deposits and the fees; packets and latest prices are not exported.
\<close>

section \<open>Deposits as lists\<close>

lemma deposits_prefix:
  assumes "deposits_ok k n D" and "n < 2 ^ 64" and "i < 2 ^ 64"
  shows "kv_prefix_iterator D (DepositsStoreKey i) = filter (\<lambda>e. dep_TunnelID (snd e) = i) D"
    and "kv_prefix_iterator D [0x14] = D"
proof -
  have wf: "deposit_wf k n (fst e) (snd e)" if "e \<in> set D" for e
    using assms(1) that kv_mem_iff [of D "fst e" "snd e"] by (auto simp: deposits_ok_def)
  have "has_prefix (DepositsStoreKey i) (fst e) \<longleftrightarrow> dep_TunnelID (snd e) = i" if e: "e \<in> set D" for e
  proof -
    obtain a where a: "fst e = DepositsStoreKey (dep_TunnelID (snd e)) @ a" "dep_TunnelID (snd e) < 2 ^ 64"
      using wf [OF e] assms(2) unfolding deposit_wf_def DepositStoreKey_def by (meson order_le_less_trans)
    have len: "length (DepositsStoreKey j) = 9" for j by (simp add: DepositsStoreKey_def)
    show ?thesis
    proof
      assume "has_prefix (DepositsStoreKey i) (fst e)"
      then obtain r where "fst e = DepositsStoreKey i @ r" by (auto simp: has_prefix_iff)
      then have "DepositsStoreKey i = DepositsStoreKey (dep_TunnelID (snd e))" using a(1) len by (metis append_eq_append_conv)
      then show "dep_TunnelID (snd e) = i" using a(2) assms(3) by simp
    qed (use a in simp)
  qed
  then show "kv_prefix_iterator D (DepositsStoreKey i) = filter (\<lambda>e. dep_TunnelID (snd e) = i) D"
    unfolding kv_prefix_iterator_def by (rule filter_cong [OF refl])
  show "kv_prefix_iterator D [0x14] = D"
    unfolding kv_prefix_iterator_def filter_id_conv
  proof
    fix e assume "e \<in> set D"
    then show "has_prefix [0x14] (fst e)" using wf [of e] by (auto simp: deposit_wf_def DepositStoreKey_def DepositsStoreKey_def)
  qed
qed

lemma deposited_list:
  assumes "tunnel_inv k s" and "i < 2 ^ 64"
  shows "deposited k (ts_deposits s) i d = (\<Sum>x\<leftarrow>GetDeposits s i. tamt k (dep_Amount x) d)"
    and "all_deposited k (ts_deposits s) d = (\<Sum>x\<leftarrow>GetAllDeposits s. tamt k (dep_Amount x) d)"
proof -
  note pre = deposits_prefix [OF tunnel_invD(4) [OF assms(1)] tunnels_okD(2) [OF tunnel_invD(1) [OF assms(1)]]]
  have sum: "sum_list (map (\<lambda>e. if P e then f e else 0) xs) = sum_list (map f (filter P xs))" for P and f :: "bytes \<times> Deposit \<Rightarrow> int" and xs
    by (induction xs) auto
  show "deposited k (ts_deposits s) i d = (\<Sum>x\<leftarrow>GetDeposits s i. tamt k (dep_Amount x) d)"
    using sum [of "\<lambda>e. dep_TunnelID (snd e) = i" "\<lambda>e. tamt k (dep_Amount (snd e)) d" "ts_deposits s"]
    by (simp add: deposited_def kv_sum_def GetDeposits_def pre(1) [OF assms(2)] o_def)
  show "all_deposited k (ts_deposits s) d = (\<Sum>x\<leftarrow>GetAllDeposits s. tamt k (dep_Amount x) d)"
    using pre(2) [OF assms(2)] by (simp add: all_deposited_def kv_sum_def GetAllDeposits_def o_def)
qed

section \<open>Importing\<close>

lemma tunnels_prefix: "tunnels_ok k n T \<Longrightarrow> kv_prefix_iterator T [0x11] = T"
  unfolding kv_prefix_iterator_def filter_id_conv
proof
  fix e assume "tunnels_ok k n T" "e \<in> set T"
  then have "fst e = TunnelStoreKey (tun_ID (snd e))"
    using kv_mem_iff [of T "fst e" "snd e"] by (auto simp: tunnels_ok_def)
  then show "has_prefix [0x11] (fst e)" by (simp add: TunnelStoreKey_def)
qed

text \<open>The state before genesis: nothing is stored.\<close>

definition empty_tunnels :: "tunnel_Params \<Rightarrow> 'w \<Rightarrow> 'w tunnel_state" where
  "empty_tunnels p w = \<lparr>ts_count = 0, ts_total_fees = \<lparr>tf_TotalBasePacketFee = []\<rparr>, ts_active = [], ts_tunnels = [],
     ts_packets = [], ts_latest_prices = [], ts_deposits = [], ts_params = p, ts_world = w\<rparr>"

text \<open>Ports of the IBC tunnels are bound already, so importing does not change the world.\<close>

definition ports_bound :: "'w tunnel_keeper \<Rightarrow> 'w \<Rightarrow> Tunnel list \<Rightarrow> bool" where
  "ports_bound k w ts \<longleftrightarrow> (\<forall>t\<in>set ts. is_ok (GetRouteValue (tun_Route t)) \<and>
     (\<forall>c. GetRouteValue (tun_Route t) = Inr (IBCRoute c) \<longrightarrow> tk_GetCapability k w (tk_PortPath k (PortIDForTunnel (tun_ID t))) \<noteq> None))"

definition tunnel_entries :: "(bytes \<times> Tunnel) list \<Rightarrow> bool" where
  "tunnel_entries E \<longleftrightarrow> kv_ok E \<and> (\<forall>e\<in>set E. fst e = TunnelStoreKey (tun_ID (snd e)))"

lemma init_tunnel_ok:
  assumes "ports_bound k (ts_world s) [t]"
  shows "init_tunnel k s t =
    Inr ((if tun_IsActive t then SetActiveTunnelID else (\<lambda>s _. s))
      (SetLatestPrices (SetTunnel s t) \<lparr>lp_TunnelID = tun_ID t, lp_Prices = [], lp_LastInterval = 0\<rparr>) (tun_ID t))"
proof -
  obtain r where r: "GetRouteValue (tun_Route t) = Inr r" using assms by (auto simp: ports_bound_def is_ok_iff)
  show ?thesis
  proof (cases r)
    case (IBCRoute c)
    then have "tk_GetCapability k (ts_world s) (tk_PortPath k (PortIDForTunnel (tun_ID t))) \<noteq> None"
      using assms r by (auto simp: ports_bound_def)
    then show ?thesis using r IBCRoute by (auto simp: init_tunnel_def ensureIBCPort_def Let_def SetActiveTunnelID_def)
  qed (use r in \<open>simp add: init_tunnel_def Let_def\<close>)
qed

lemma init_tunnels:
  assumes "tunnel_entries E" and "ports_bound k (ts_world s) (map snd E)"
    and "ts_tunnels s = []" and "ts_active s = []" and "ts_latest_prices s = []"
  shows "\<exists>A L. foldE (init_tunnel k) s (map snd E) = Inr (s\<lparr>ts_tunnels := E, ts_active := A, ts_latest_prices := L\<rparr>) \<and>
    kv_ok A \<and> kv_ok L \<and>
    (\<forall>key. kv_has A key \<longleftrightarrow> (\<exists>e\<in>set E. tun_IsActive (snd e) \<and> key = ActiveTunnelIDStoreKey (tun_ID (snd e)))) \<and>
    (\<forall>key l. kv_get L key = Some l \<longleftrightarrow> (\<exists>e\<in>set E. key = LatestPricesStoreKey (tun_ID (snd e)) \<and>
       l = \<lparr>lp_TunnelID = tun_ID (snd e), lp_Prices = [], lp_LastInterval = 0\<rparr>))"
  using assms(1,2)
proof (induction E rule: rev_induct)
  case Nil
  show ?case
    using assms(3-5) by (intro exI [of _ "[]"]) simp
next
  case (snoc e E)
  obtain key t where e: "e = (key, t)" by (cases e)
  have lt: "kv_ok E" "\<forall>x\<in>set E. fst x < key" using snoc.prems(1) unfolding tunnel_entries_def e kv_ok_snoc by blast+
  have E: "tunnel_entries E" "key = TunnelStoreKey (tun_ID t)" "\<forall>x\<in>set E. fst x < key" "\<forall>x\<in>set E. fst x = TunnelStoreKey (tun_ID (snd x))"
    using snoc.prems(1) lt unfolding tunnel_entries_def e by auto
  have P: "ports_bound k (ts_world s) (map snd E)" "ports_bound k (ts_world s) [t]" using snoc.prems(2) by (auto simp: ports_bound_def e)
  let ?new = "\<lparr>lp_TunnelID = tun_ID t, lp_Prices = [], lp_LastInterval = 0\<rparr>"
  let ?old = "\<lambda>x. \<lparr>lp_TunnelID = tun_ID (snd x), lp_Prices = [], lp_LastInterval = 0\<rparr>"
  obtain A L where run: "foldE (init_tunnel k) s (map snd E) = Inr (s\<lparr>ts_tunnels := E, ts_active := A, ts_latest_prices := L\<rparr>)"
    and A: "kv_ok A" "\<forall>key. kv_has A key \<longleftrightarrow> (\<exists>e\<in>set E. tun_IsActive (snd e) \<and> key = ActiveTunnelIDStoreKey (tun_ID (snd e)))"
    and L: "kv_ok L" "\<forall>key l. kv_get L key = Some l \<longleftrightarrow> (\<exists>e\<in>set E. key = LatestPricesStoreKey (tun_ID (snd e)) \<and> l = ?old e)"
    using snoc.IH [OF E(1) P(1)] by blast
  define A' where "A' = (if tun_IsActive t then kv_set A (ActiveTunnelIDStoreKey (tun_ID t)) [0x01] else A)"
  define L' where "L' = kv_set L (LatestPricesStoreKey (tun_ID t)) ?new"
  have last: "kv_set E (TunnelStoreKey (tun_ID t)) t = E @ [(TunnelStoreKey (tun_ID t), t)]"
    using kv_set_last [of E key t] E(2,3) by simp
  have "foldE (init_tunnel k) s (map snd (E @ [e])) = Inr (s\<lparr>ts_tunnels := E @ [e], ts_active := A', ts_latest_prices := L'\<rparr>)"
    using run init_tunnel_ok [of k "s\<lparr>ts_tunnels := E, ts_active := A, ts_latest_prices := L\<rparr>" t] P(2) last E(2)
    by (simp add: foldE_append e A'_def L'_def SetActiveTunnelID_def SetLatestPrices_def SetTunnel_def)
  moreover have "kv_ok A'" "kv_ok L'" using A(1) L(1) by (auto simp: A'_def L'_def)
  moreover have "kv_has A' x \<longleftrightarrow> (\<exists>e\<in>set (E @ [e]). tun_IsActive (snd e) \<and> x = ActiveTunnelIDStoreKey (tun_ID (snd e)))" for x
    using A(2) by (auto simp: A'_def e)
  moreover have "kv_get L' x = Some l \<longleftrightarrow> (\<exists>e\<in>set (E @ [e]). x = LatestPricesStoreKey (tun_ID (snd e)) \<and> l = ?old e)" for x l
  proof (cases "x = LatestPricesStoreKey (tun_ID t)")
    case True
    have "LatestPricesStoreKey (tun_ID (snd y)) \<noteq> x" if "y \<in> set E" for y
    proof
      assume "LatestPricesStoreKey (tun_ID (snd y)) = x"
      then have "TunnelStoreKey (tun_ID (snd y)) = key" using True E(2) by (simp add: LatestPricesStoreKey_def TunnelStoreKey_def)
      then show False using E(3,4) that by force
    qed
    then have "\<not> (\<exists>y\<in>set E. x = LatestPricesStoreKey (tun_ID (snd y)) \<and> l = ?old y)" by metis
    then show ?thesis using True by (auto simp: L'_def e simp del: Product_Type.split_paired_Ex)
  next
    case False
    then show ?thesis using L(2) by (simp add: L'_def e)
  qed
  ultimately show ?case by blast
qed

lemma init_deposits:
  assumes laws: "coin_laws (tk_sdk k)" and "kv_ok D" and "\<forall>e\<in>set D. deposit_wf k n (fst e) (snd e)" and "ts_deposits s = []"
  shows "\<exists>c. foldE (init_deposit k) (s, []) (map snd D) = Inr (s\<lparr>ts_deposits := D\<rparr>, c) \<and> Coins_IsValid (tk_sdk k) c \<and>
    (\<forall>d. tamt k c d = (\<Sum>e\<leftarrow>D. tamt k (dep_Amount (snd e)) d))"
  using assms(2,3)
proof (induction D rule: rev_induct)
  case Nil
  show ?case using assms(4) coin_lawsD(1,2) [OF laws] by (intro exI [of _ "[]"]) simp
next
  case (snoc e D)
  note coin = coin_lawsD [OF laws]
  obtain key x where e: "e = (key, x)" by (cases e)
  have D: "kv_ok D" "\<forall>y\<in>set D. fst y < key" using snoc.prems(1) by (auto simp: e kv_ok_snoc)
  have wf: "deposit_wf k n key x" using snoc.prems(2) by (simp add: e)
  then obtain a where a: "AccAddressFromBech32 (tk_sdk k) (dep_Depositor x) = Inr a" "key = DepositStoreKey (tk_sdk k) (dep_TunnelID x) a"
    and v: "Coins_IsValid (tk_sdk k) (dep_Amount x)" by (auto simp: deposit_wf_def)
  obtain c where run: "foldE (init_deposit k) (s, []) (map snd D) = Inr (s\<lparr>ts_deposits := D\<rparr>, c)" and c: "Coins_IsValid (tk_sdk k) c"
    "\<forall>d. tamt k c d = (\<Sum>e\<leftarrow>D. tamt k (dep_Amount (snd e)) d)"
    using snoc.IH [OF D(1)] snoc.prems(2) by auto
  have "foldE (init_deposit k) (s, []) (map snd (D @ [e])) = Inr (s\<lparr>ts_deposits := D @ [e]\<rparr>, Coins_Add (tk_sdk k) c (dep_Amount x))"
    using run a kv_set_last [of D key x] D(2)
    by (simp add: foldE_append e init_deposit_def SetDeposit_def MustAccAddressFromBech32_def)
  then show ?case using coin(5,6) [OF c(1) v] c(2) by (auto simp: e)
qed

lemma import_export:
  assumes laws: "tunnel_laws k" and inv: "tunnel_inv k s" and ports: "ports_bound k (ts_world s) (GetTunnels s)"
    and acc: "tk_GetModuleAccount k (ts_world s) tunnel_ModuleName = Some (tmod k)"
    and bal: "\<forall>d. mod_bal k (ts_world s) d = all_deposited k (ts_deposits s) d + tamt k (tf_TotalBasePacketFee (ts_total_fees s)) d"
  obtains s' where "tunnel_InitGenesis k (empty_tunnels p (ts_world s)) (tunnel_ExportGenesis s) = Inr s'"
    and "tunnel_inv k s'" and "ts_count s' = ts_count s" and "ts_params s' = ts_params s" and "ts_tunnels s' = ts_tunnels s"
    and "ts_deposits s' = ts_deposits s" and "ts_total_fees s' = ts_total_fees s" and "ts_packets s' = []"
    and "\<forall>key. kv_has (ts_active s') key \<longleftrightarrow> kv_has (ts_active s) key"
    and "\<forall>i. 1 \<le> i \<longrightarrow> i \<le> ts_count s \<longrightarrow> GetLatestPrices s' i = Inr \<lparr>lp_TunnelID = i, lp_Prices = [], lp_LastInterval = 0\<rparr>"
proof -
  note i = tunnel_invD [OF inv] and L = tunnel_lawsD [OF laws]
  note coin = coin_lawsD [OF L(2)]
  let ?w = "ts_world s" and ?T = "ts_tunnels s"
  have T: "kv_ok ?T" by (rule tunnels_okD(1) [OF i(1)])
  have tuns: "GetTunnels s = map snd ?T" using tunnels_prefix [OF i(1)] by (simp add: GetTunnels_def)
  have deps: "GetAllDeposits s = map snd (ts_deposits s)"
    using deposits_prefix(2) [OF i(4) tunnels_okD(2) [OF i(1)], of 0] by (simp add: GetAllDeposits_def)
  have ent: "tunnel_entries ?T"
    using T tunnels_okD(3) [OF i(1)] kv_ball [OF T, of "\<lambda>a b. a = TunnelStoreKey (tun_ID b)"] by (simp add: tunnel_entries_def)
  define s0 where "s0 = (empty_tunnels p ?w)\<lparr>ts_params := ts_params s, ts_count := ts_count s\<rparr>"
  have s0: "ts_tunnels s0 = []" "ts_active s0 = []" "ts_latest_prices s0 = []" "ts_deposits s0 = []" "ts_world s0 = ?w" "ts_packets s0 = []"
    "ts_count s0 = ts_count s" "ts_params s0 = ts_params s"
    by (simp_all add: s0_def empty_tunnels_def)
  obtain A LP where run1: "foldE (init_tunnel k) s0 (map snd ?T) = Inr (s0\<lparr>ts_tunnels := ?T, ts_active := A, ts_latest_prices := LP\<rparr>)"
    and A: "kv_ok A" "\<forall>key. kv_has A key \<longleftrightarrow> (\<exists>e\<in>set ?T. tun_IsActive (snd e) \<and> key = ActiveTunnelIDStoreKey (tun_ID (snd e)))"
    and LP: "kv_ok LP" "\<forall>key l. kv_get LP key = Some l \<longleftrightarrow> (\<exists>e\<in>set ?T. key = LatestPricesStoreKey (tun_ID (snd e)) \<and>
       l = \<lparr>lp_TunnelID = tun_ID (snd e), lp_Prices = [], lp_LastInterval = 0\<rparr>)"
    using init_tunnels [OF ent _ s0(1-3), of k] ports by (auto simp: s0(5) tuns)
  define s1 where "s1 = s0\<lparr>ts_tunnels := ?T, ts_active := A, ts_latest_prices := LP\<rparr>"
  have wf: "\<forall>e\<in>set (ts_deposits s). deposit_wf k (ts_count s) (fst e) (snd e)"
    using i(4) kv_ball [of "ts_deposits s" "deposit_wf k (ts_count s)"] by (simp add: deposits_ok_def)
  obtain c where run2: "foldE (init_deposit k) (s1, []) (map snd (ts_deposits s)) = Inr (s1\<lparr>ts_deposits := ts_deposits s\<rparr>, c)"
    and c: "Coins_IsValid (tk_sdk k) c" "\<forall>d. tamt k c d = (\<Sum>e\<leftarrow>ts_deposits s. tamt k (dep_Amount (snd e)) d)"
    using init_deposits [OF L(2) _ wf, of s1] i(4) s0(4) by (auto simp: s1_def deposits_ok_def)
  define s2 where "s2 = s1\<lparr>ts_deposits := ts_deposits s, ts_total_fees := ts_total_fees s\<rparr>"
  let ?b = "GetAllBalances (tk_bank k) ?w (tmod k)"
  define s' where "s' = (if Coins_IsZero (tk_sdk k) ?b then s2\<lparr>ts_world := tk_SetModuleAccount k ?w (tmod k)\<rparr> else s2)"
  have fees: "Coins_IsValid (tk_sdk k) (tf_TotalBasePacketFee (ts_total_fees s))" using i(7) by (simp add: funds_ok_def)
  have "Coins_Equal (tk_sdk k) ?b (Coins_Add (tk_sdk k) c (TotalFees_Total (ts_total_fees s)))"
    using coin_laws_Equal [OF L(2) bank_lawsD(1) [OF L(3)] coin(5) [OF c(1) fees], of ?w "tmod k"] coin(6) [OF c(1) fees] bal c(2)
    by (simp add: TotalFees_Total_def mod_bal_def all_deposited_def kv_sum_def o_def)
  then have init: "tunnel_InitGenesis k (empty_tunnels p ?w) (tunnel_ExportGenesis s) = Inr s'"
    using run1 run2 i(8) acc
    by (simp add: tunnel_InitGenesis_def tunnel_ExportGenesis_def tuns deps tunnel_SetParams_def SetTunnelCount_def SetTotalFees_def
        s'_def s2_def s1_def s0_def empty_tunnels_def Let_def)
  have sel: "ts_count s' = ts_count s" "ts_params s' = ts_params s" "ts_tunnels s' = ?T" "ts_deposits s' = ts_deposits s"
    "ts_total_fees s' = ts_total_fees s" "ts_packets s' = []" "ts_active s' = A" "ts_latest_prices s' = LP"
    "ts_world s' = ?w \<or> ts_world s' = tk_SetModuleAccount k ?w (tmod k)"
    by (auto simp: s'_def s2_def s1_def s0)
  have act: "kv_has A key \<longleftrightarrow> kv_has (ts_active s) key" for key
  proof -
    have "(\<exists>e\<in>set ?T. tun_IsActive (snd e) \<and> key = ActiveTunnelIDStoreKey (tun_ID (snd e))) \<longleftrightarrow>
        (\<exists>t. kv_get ?T (TunnelStoreKey (tun_ID t)) = Some t \<and> tun_IsActive t \<and> key = ActiveTunnelIDStoreKey (tun_ID t))"
      using kv_bex [OF T, of "\<lambda>_ t. tun_IsActive t \<and> key = ActiveTunnelIDStoreKey (tun_ID t)"] tunnels_okD(3) [OF i(1)] by metis
    then show ?thesis using A(2) i(3) by (simp add: active_ok_def)
  qed
  have latest: "kv_get LP (LatestPricesStoreKey j) = Some \<lparr>lp_TunnelID = j, lp_Prices = [], lp_LastInterval = 0\<rparr>"
    if j: "1 \<le> j" "j \<le> ts_count s" for j
  proof -
    obtain t where t: "kv_get ?T (TunnelStoreKey j) = Some t" using tunnels_okD(5) [OF i(1) j] by (auto simp: kv_has_def)
    have "tun_ID t = j" using GetTunnelD(1) [OF i(1), of j t] t tunnels_okD(2) [OF i(1)] j by (simp add: GetTunnel_iff)
    then show ?thesis using LP(2) kv_getD [OF t] by force
  qed
  have "latest_ok (ts_count s) LP"
    unfolding latest_ok_def
  proof (intro conjI allI impI)
    fix key l assume "kv_get LP key = Some l"
    then obtain e where e: "e \<in> set ?T" "key = LatestPricesStoreKey (tun_ID (snd e))" "lp_TunnelID l = tun_ID (snd e)" using LP(2) by auto
    have "kv_get ?T (fst e) = Some (snd e)" using e(1) kv_mem_iff [OF T, of "fst e" "snd e"] by simp
    then show "lp_TunnelID l < 2 ^ 64" using tunnel_wf_id [OF i(1)] e(3) by simp
    show "key = LatestPricesStoreKey (lp_TunnelID l)" using e by simp
  qed (use LP(1) latest in \<open>auto simp: kv_has_def\<close>)
  moreover have "active_ok ?T A" using i(3) act A(1) by (simp add: active_ok_def)
  moreover have "funds_ok k (ts_deposits s) (ts_total_fees s) (ts_world s')"
    using i(7) L(13) [of ?w "tmod k"] sel(9) by (auto simp: funds_ok_def world_le_def intro: order_trans)
  ultimately have "tunnel_inv k s'" using i sel by (simp add: tunnel_inv_def packets_ok_def)
  then show ?thesis
    using that [OF init] sel act latest by (simp add: GetLatestPrices_def)
qed

end
