(* ===== verification/Tunnel_Props.thy ===== *)
theory Tunnel_Props
  imports Tunnel_Genesis "HOL-Library.Code_Target_Numeral"
begin

text \<open>
  The module \<open>x/tunnel\<close>, last part: a concrete life of a tunnel, evaluated, and the properties of the
  module.
\<close>

section \<open>A concrete run\<close>

text \<open>
  The world is a table of balances and the list of the accounts; signing costs a fee that goes to the account
  \<open>bandtss\<close>.
\<close>

type_synonym demo_world = "plain_balances \<times> bytes list"

definition demo_tbank :: "demo_world bank_keeper" where
  "demo_tbank = \<lparr>GetModuleAddress = str, GetAllBalances = (\<lambda>w. plain_bal (fst w)),
     SendCoins = (\<lambda>w f t c. bindE (plain_Send (fst w) f t c) (\<lambda>b. Inr (b, snd w)))\<rparr>"

definition plain_IsAllGTE :: "coins \<Rightarrow> coins \<Rightarrow> bool" where
  "plain_IsAllGTE a b \<longleftrightarrow> (\<forall>e\<in>set b. snd e \<le> plain_AmountOf a (fst e))"

definition uband :: bytes where "uband = str ''uband''"

definition demo_tunnels :: "demo_world tunnel_keeper" where
  "demo_tunnels = \<lparr>tk_sdk = plain_sdk, tk_Coins_IsAllGTE = plain_IsAllGTE, tk_bank = demo_tbank,
     tk_SpendableCoins = (\<lambda>w. plain_bal (fst w)), tk_NewModuleCredential = (\<lambda>buf. Inr (0x70 # take 30 buf)),
     tk_NewBaseAccountWithPubKey = (\<lambda>_. Inr ()), tk_HasAccount = (\<lambda>w a. a \<in> set (snd w)),
     tk_SetAccount = (\<lambda>w a. (fst w, a # snd w)), tk_GetModuleAccount = (\<lambda>_ n. Some (str n)), tk_SetModuleAccount = (\<lambda>w _. w),
     tk_GetSigningFee = (\<lambda>_. Inr [(uband, 3)]),
     tk_CreateTunnelSigningRequest = (\<lambda>w _ _ _ _ f l.
       if f = str ''tunnel'' \<or> \<not> plain_IsValid l then Inl (Errorf ''fee'') else bindE (SendCoins demo_tbank w f (str ''bandtss'') l) (\<lambda>w. Inr (1, w))),
     tk_GetChannel = (\<lambda>_ _ _. True), tk_SendPacket = (\<lambda>w _ _ _ _ _. Inr (1, w)), tk_BindPort = (\<lambda>w _. Inr (0, w)),
     tk_GetCapability = (\<lambda>_ _. Some 0), tk_AuthenticateCapability = (\<lambda>_ _ _. True), tk_ClaimCapability = (\<lambda>w _ _. Inr w),
     tk_PortPath = id, tk_ChannelCapabilityPath = (@), tk_IsChannelIDFormat = (\<lambda>_. True), tk_ParseChannelSequence = (\<lambda>_. Inr 0),
     tk_PacketData_GetBytes = (\<lambda>_. []), tk_authority = str ''gov''\<rparr>"

definition demo_tparams :: tunnel_Params where
  "demo_tparams = \<lparr>tp_MinDeposit = [(uband, 100)], tp_MinInterval = 60, tp_MaxInterval = 3600, tp_MinDeviationBPS = 50,
     tp_MaxDeviationBPS = 3000, tp_MaxSignals = 25, tp_BasePacketFee = [(uband, 2)]\<rparr>"

definition demo_price :: Price where
  "demo_price = \<lparr>price_Status = PRICE_STATUS_AVAILABLE, price_SignalID = str ''CS:BTC-USD'', price_Price = 50000, price_Timestamp = 990\<rparr>"

definition demo_tctx :: tunnel_ctx where
  "demo_tctx = \<lparr>tc_feeds = demo_ctx, tc_feeds_state = demo_feeds\<lparr>fs_prices := [(PriceStoreKey (str ''CS:BTC-USD''), demo_price)]\<rparr>,
     tc_AppHash = [1], tc_DataHash = [2]\<rparr>"

text \<open>The account \<open>alice\<close>, and the fee payer of the first tunnel, which the keeper above will generate.\<close>

definition payer :: bytes where "payer = [0x70, 0x31, 1, 2]"

definition demo_t0 :: "demo_world tunnel_state" where
  "demo_t0 = empty_tunnels demo_tparams
     ([(str ''alice'', [(uband, 500)]), (payer, [(uband, 7)])], [str ''tunnel'', str ''alice''])"

definition demo_create :: MsgCreateTunnel where
  "demo_create = \<lparr>mct_SignalDeviations = [\<lparr>sd_SignalID = str ''CS:BTC-USD'', sd_SoftDeviationBPS = 100, sd_HardDeviationBPS = 300\<rparr>],
     mct_Interval = 600, mct_Route = AnyRoute (TSSRoute (str ''eth'') (str ''0x1'') ENCODER_FIXED_POINT_ABI),
     mct_InitialDeposit = [(uband, 100)], mct_Creator = str ''alice''\<rparr>"

definition demo_tun :: "bool \<Rightarrow> nat \<Rightarrow> Tunnel" where
  "demo_tun active n = \<lparr>tun_ID = 1, tun_Sequence = n, tun_Route = mct_Route demo_create, tun_FeePayer = payer,
     tun_SignalDeviations = mct_SignalDeviations demo_create, tun_Interval = 600, tun_TotalDeposit = [(uband, 100)],
     tun_IsActive = active, tun_CreatedAt = 1000, tun_Creator = str ''alice''\<rparr>"

definition demo_t1 :: "demo_world tunnel_state" where
  "demo_t1 = \<lparr>ts_count = 1, ts_total_fees = \<lparr>tf_TotalBasePacketFee = []\<rparr>, ts_active = [],
     ts_tunnels = [(TunnelStoreKey 1, demo_tun False 0)], ts_packets = [],
     ts_latest_prices = [(LatestPricesStoreKey 1, \<lparr>lp_TunnelID = 1, lp_Prices = [], lp_LastInterval = 0\<rparr>)],
     ts_deposits = [(DepositStoreKey plain_sdk 1 (str ''alice''),
       \<lparr>dep_TunnelID = 1, dep_Depositor = str ''alice'', dep_Amount = [(uband, 100)]\<rparr>)],
     ts_params = demo_tparams,
     ts_world = ([(str ''alice'', [(uband, 400)]), (payer, [(uband, 7)]), (str ''tunnel'', [(uband, 100)])],
       [payer, str ''tunnel'', str ''alice''])\<rparr>"

lemma demo_t1_run: "msg_CreateTunnel demo_tunnels demo_tctx demo_t0 demo_create = Inr (1, demo_t1)"
  by code_simp

definition demo_t2 :: "demo_world tunnel_state" where
  "demo_t2 = demo_t1\<lparr>ts_active := [(ActiveTunnelIDStoreKey 1, [1])], ts_tunnels := [(TunnelStoreKey 1, demo_tun True 0)]\<rparr>"

lemma demo_t2_run: "msg_Activate demo_tunnels demo_t1 \<lparr>mt_TunnelID = 1, mt_Creator = str ''alice''\<rparr> = Inr demo_t2"
  by code_simp

text \<open>The end of the block sends the first packet; the fee payer then has too little for another one.\<close>

definition demo_t3 :: "demo_world tunnel_state" where
  "demo_t3 = demo_t2\<lparr>ts_total_fees := \<lparr>tf_TotalBasePacketFee = [(uband, 2)]\<rparr>,
     ts_tunnels := [(TunnelStoreKey 1, demo_tun True 1)],
     ts_packets := [(TunnelPacketStoreKey 1 1, \<lparr>pkt_TunnelID = 1, pkt_Sequence = 1, pkt_Prices = [demo_price],
       pkt_Receipt = Some (TSSPacketReceipt 1), pkt_BaseFee = [(uband, 2)], pkt_RouteFee = [(uband, 3)], pkt_CreatedAt = 1000\<rparr>)],
     ts_latest_prices := [(LatestPricesStoreKey 1, \<lparr>lp_TunnelID = 1, lp_Prices = [demo_price], lp_LastInterval = 1000\<rparr>)],
     ts_world := ([(str ''alice'', [(uband, 400)]), (str ''bandtss'', [(uband, 3)]), (payer, [(uband, 2)]), (str ''tunnel'', [(uband, 102)])],
       [payer, str ''tunnel'', str ''alice''])\<rparr>"

lemma demo_t3_run: "tunnel_EndBlocker demo_tunnels demo_tctx demo_t2 = Inr demo_t3"
  by code_simp

definition demo_t4 :: "demo_world tunnel_state" where
  "demo_t4 = demo_t3\<lparr>ts_active := [], ts_tunnels := [(TunnelStoreKey 1, demo_tun False 1)]\<rparr>"

lemma demo_t4_run: "tunnel_EndBlocker demo_tunnels demo_tctx demo_t3 = Inr demo_t4"
proof -
  have fund: "HasEnoughFundToCreatePacket demo_tunnels demo_t3 1 = Inr False" and ids: "GetActiveTunnelIDs demo_t3 = [1]"
    by code_simp+
  have "DeactivateTunnel demo_t3 1 = Inr demo_t4"
    by (simp add: DeactivateTunnel_def GetTunnel_def demo_t3_def demo_t2_def kv_get_def DeleteActiveTunnelID_def kv_delete_def
        SetTunnel_def demo_tun_def demo_t4_def)
  then show ?thesis
    using fund by (simp add: tunnel_EndBlocker_def ProduceActiveTunnelPackets_def ids active_tunnel_step_def ProduceActiveTunnelPacket_def
        del: One_nat_def)
qed

lemma demo_gte: "plain_IsValid a \<Longrightarrow> plain_IsValid b \<Longrightarrow> plain_IsAllGTE a b \<longleftrightarrow> (\<forall>d. plain_AmountOf b d \<le> plain_AmountOf a d)"
proof -
  assume a: "plain_IsValid a" and b: "plain_IsValid b"
  have ok: "kv_ok b" using b by (simp add: plain_IsValid_def)
  have "plain_IsAllGTE a b \<longleftrightarrow> (\<forall>d x. kv_get b d = Some x \<longrightarrow> x \<le> plain_AmountOf a d)"
    using kv_ball [OF ok, of "\<lambda>d x. x \<le> plain_AmountOf a d"] by (simp add: plain_IsAllGTE_def)
  also have "\<dots> \<longleftrightarrow> (\<forall>d. plain_AmountOf b d \<le> plain_AmountOf a d)"
    using plain_IsValid_AmountOf [OF a] by (auto simp: plain_AmountOf_def [of b] split: option.splits)
  finally show ?thesis .
qed

lemma demo_bank_laws: "bank_laws plain_sdk demo_tbank"
  using plain_bank_laws unfolding bank_laws_def by (auto simp: demo_tbank_def)

lemma demo_tunnels_sel [simp]:
  "tk_sdk demo_tunnels = plain_sdk" "tk_bank demo_tunnels = demo_tbank" "tk_Coins_IsAllGTE demo_tunnels = plain_IsAllGTE"
  "tk_NewModuleCredential demo_tunnels buf = Inr (0x70 # take 30 buf)" "tk_HasAccount demo_tunnels w a = (a \<in> set (snd w))"
  "tk_SetAccount demo_tunnels w a = (fst w, a # snd w)" "tk_GetModuleAccount demo_tunnels w n = Some (str n)"
  "tk_SetModuleAccount demo_tunnels w a = w" "tk_SendPacket demo_tunnels w i po ch tm bz = Inr (1, w)"
  "tk_BindPort demo_tunnels w po = Inr (0, w)" "tk_ClaimCapability demo_tunnels w i nm = Inr w"
  "tk_CreateTunnelSigningRequest demo_tunnels w i dc da z f l =
     (if f = str ''tunnel'' \<or> \<not> plain_IsValid l then Inl (Errorf ''fee'') else bindE (SendCoins demo_tbank w f (str ''bandtss'') l) (\<lambda>w. Inr (1, w)))"
  "tmod demo_tunnels = str ''tunnel''"
  by (simp_all add: demo_tunnels_def tmod_def demo_tbank_def tunnel_ModuleName_def)

lemma demo_tbank_sel:
  "GetAllBalances demo_tbank w a = plain_bal (fst w) a"
  "SendCoins demo_tbank w f t c = bindE (plain_Send (fst w) f t c) (\<lambda>b. Inr (b, snd w))"
  by (simp_all add: demo_tbank_def)

lemma demo_tunnel_laws: "tunnel_laws demo_tunnels"
proof -
  have le: "world_le demo_tunnels w w'" if "SendCoins demo_tbank w f (str ''bandtss'') l = Inr w'" "f \<noteq> str ''tunnel''"
    "plain_IsValid l" for w w' f l
  proof -
    have "str ''bandtss'' \<noteq> str ''tunnel''" by code_simp
    then have "mod_bal demo_tunnels w' d = mod_bal demo_tunnels w d" for d
      using bank_lawsD(2) [OF demo_bank_laws _ that(1), of "str ''tunnel''" d] that(2,3) by (simp add: mod_bal_def)
    moreover have "snd w' = snd w" using that(1) by (auto simp: demo_tbank_sel)
    ultimately show ?thesis by (simp add: world_le_def)
  qed
  have s: "world_le demo_tunnels w (fst w, a # snd w)" for w a
    by (simp add: world_le_def mod_bal_def demo_tbank_sel)
  have c: "world_le demo_tunnels w w'" if "tk_CreateTunnelSigningRequest demo_tunnels w i c a z f l = Inr (q, w')" for w i c a z f l q w'
    using that le [of w f l w'] by (auto split: if_splits)
  have h: "a \<in> set (snd w')" if "SendCoins demo_tbank w f t c = Inr w'" "a \<in> set (snd w)" for w f t c w' a
    using that by (auto simp: demo_tbank_sel)
  show ?thesis
    unfolding tunnel_laws_def
    using demo_bank_laws demo_gte s c h by (simp del: demo_tunnels_sel(12) add: valid_addr_def tunnel_ModuleName_def min_le_iff_disj)
qed

lemma demo_no_panics: "tunnel_no_panics demo_tunnels"
  by (auto simp: tunnel_no_panics_def demo_tunnels_def demo_tbank_def bindE_eq_Inl_iff plain_Send_def Let_def
      split: prod.splits if_splits)

text \<open>A state without tunnels satisfies the invariant.\<close>

lemma empty_tunnels_inv:
  assumes laws: "tunnel_laws k" and "tunnel_Params_Validate (tk_sdk k) p = Inr ()" and "tk_HasAccount k w (tmod k)"
  shows "tunnel_inv k (empty_tunnels p w)"
proof -
  have "0 \<le> mod_bal k w d" for d
    unfolding mod_bal_def by (rule coin_lawsD(3) [OF tunnel_lawsD(2) [OF laws]], rule bank_lawsD(1) [OF tunnel_lawsD(3) [OF laws]])
  then show ?thesis
    using assms coin_lawsD(1,2) [OF tunnel_lawsD(2) [OF laws]]
    by (simp add: tunnel_inv_def empty_tunnels_def tunnels_ok_def latest_ok_def active_ok_def deposits_ok_def totals_ok_def
        packets_ok_def funds_ok_def all_deposited_def kv_sum_def)
qed

lemma demo_t0_ok: "tunnel_Params_Validate (tk_sdk demo_tunnels) demo_tparams = Inr ()"
  "tk_HasAccount demo_tunnels ([(str ''alice'', [(uband, 500)]), (payer, [(uband, 7)])], [str ''tunnel'', str ''alice'']) (tmod demo_tunnels)"
  by code_simp+

lemma demo_t0_inv: "tunnel_inv demo_tunnels demo_t0"
  unfolding demo_t0_def by (rule empty_tunnels_inv [OF demo_tunnel_laws demo_t0_ok])

lemma counters_fitI:
  assumes "ts_count s + 1 < 2 ^ 64" and "list_all (\<lambda>e. tun_Sequence (snd e) + 1 < 2 ^ 64) (ts_tunnels s)"
  shows "counters_fit s"
  using assms by (auto simp: counters_fit_def GetTunnel_iff list_all_iff dest!: kv_getD)

lemma demo_steps: "tunnel_step demo_tunnels demo_t0 demo_t1" "tunnel_step demo_tunnels demo_t1 demo_t2"
  "tunnel_step demo_tunnels demo_t2 demo_t3"
proof -
  have "MsgCreateTunnel_ValidateBasic (tk_sdk demo_tunnels) (tk_IsChannelIDFormat demo_tunnels) demo_create = Inr ()"
    "AccAddressFromBech32 (tk_sdk demo_tunnels) (mct_Creator demo_create) \<noteq> Inr (tmod demo_tunnels)"
    by code_simp+
  moreover have "counters_fit demo_t0" by (simp add: counters_fit_def demo_t0_def empty_tunnels_def GetTunnel_def)
  ultimately show "tunnel_step demo_tunnels demo_t0 demo_t1" using step_create [OF _ _ _ demo_t1_run] by blast
  have "MsgActivate_ValidateBasic (tk_sdk demo_tunnels) \<lparr>mt_TunnelID = 1, mt_Creator = str ''alice''\<rparr> = Inr ()" by code_simp
  then show "tunnel_step demo_tunnels demo_t1 demo_t2" using step_activate [OF _ _ demo_t2_run] by simp
  have "counters_fit demo_t2" by (rule counters_fitI) code_simp+
  then show "tunnel_step demo_tunnels demo_t2 demo_t3" by (rule step_end_block [OF _ demo_t3_run])
qed

lemma demo_invs: "tunnel_inv demo_tunnels demo_t1" "tunnel_inv demo_tunnels demo_t2" "tunnel_inv demo_tunnels demo_t3"
  using demo_steps demo_t0_inv tunnel_step_inv [OF demo_tunnel_laws] by blast+

lemma demo_reach: "(tunnel_step demo_tunnels)\<^sup>*\<^sup>* demo_t0 demo_t3"
  using demo_steps by (meson rtranclp.rtrancl_into_rtrancl rtranclp.rtrancl_refl)

section \<open>Properties\<close>

text \<open>
  C4: whatever messages, ends of blocks, IBC callbacks and other modules do, starting without tunnels: the total deposit of every
  tunnel is the sum of its deposits in every denomination; the module account holds at least all deposits and the packet fees
  collected; the tunnels are numbered from one to the counter; the active ids are exactly the active tunnels, each once;
  and every stored packet has a sequence number its tunnel has handed out.
\<close>

theorem tunnel_invariant:
  assumes laws: "tunnel_laws k" and start: "tunnel_Params_Validate (tk_sdk k) p = Inr ()" "tk_HasAccount k w (tmod k)"
    and run: "(tunnel_step k)\<^sup>*\<^sup>* (empty_tunnels p w) s"
  shows "(\<forall>i<2 ^ 64. \<forall>t d. GetTunnel s i = Inr t \<longrightarrow>
      Coins_AmountOf (tk_sdk k) (tun_TotalDeposit t) d = (\<Sum>x\<leftarrow>GetDeposits s i. Coins_AmountOf (tk_sdk k) (dep_Amount x) d)) \<and>
    (\<forall>d. (\<Sum>x\<leftarrow>GetAllDeposits s. Coins_AmountOf (tk_sdk k) (dep_Amount x) d) +
      Coins_AmountOf (tk_sdk k) (tf_TotalBasePacketFee (ts_total_fees s)) d \<le>
      Coins_AmountOf (tk_sdk k) (GetAllBalances (tk_bank k) (ts_world s) (GetModuleAddress (tk_bank k) tunnel_ModuleName)) d) \<and>
    (\<forall>i<2 ^ 64. is_ok (GetTunnel s i) \<longleftrightarrow> 1 \<le> i \<and> i \<le> ts_count s) \<and>
    (distinct (GetActiveTunnelIDs s)) \<and>
    (\<forall>i. i \<in> set (GetActiveTunnelIDs s) \<longleftrightarrow> (\<exists>t. GetTunnel s i = Inr t \<and> tun_ID t = i \<and> tun_IsActive t)) \<and>
    (\<forall>key q. kv_get (ts_packets s) key = Some q \<longrightarrow> key = TunnelPacketStoreKey (pkt_TunnelID q) (pkt_Sequence q) \<and>
      1 \<le> pkt_Sequence q \<and> (\<exists>t. GetTunnel s (pkt_TunnelID q) = Inr t \<and> pkt_Sequence q \<le> tun_Sequence t))"
proof (intro conjI)
  have inv: "tunnel_inv k s" by (rule tunnel_steps_inv [OF laws run empty_tunnels_inv [OF laws start]])
  note i = tunnel_invD [OF inv]
  show "\<forall>i<2 ^ 64. \<forall>t d. GetTunnel s i = Inr t \<longrightarrow>
      Coins_AmountOf (tk_sdk k) (tun_TotalDeposit t) d = (\<Sum>x\<leftarrow>GetDeposits s i. Coins_AmountOf (tk_sdk k) (dep_Amount x) d)"
    using i(5) GetTunnelD(1) [OF i(1)] deposited_list(1) [OF inv] unfolding totals_ok_def GetTunnel_iff by metis
  have "all_deposited k (ts_deposits s) d + tamt k (tf_TotalBasePacketFee (ts_total_fees s)) d \<le> mod_bal k (ts_world s) d" for d
    using i(7) by (simp add: funds_ok_def)
  then show "\<forall>d. (\<Sum>x\<leftarrow>GetAllDeposits s. Coins_AmountOf (tk_sdk k) (dep_Amount x) d) +
      Coins_AmountOf (tk_sdk k) (tf_TotalBasePacketFee (ts_total_fees s)) d \<le>
      Coins_AmountOf (tk_sdk k) (GetAllBalances (tk_bank k) (ts_world s) (GetModuleAddress (tk_bank k) tunnel_ModuleName)) d"
    using deposited_list(2) [OF inv, of 0] by (simp add: mod_bal_def tmod_def)
  show "\<forall>i<2 ^ 64. is_ok (GetTunnel s i) \<longleftrightarrow> 1 \<le> i \<and> i \<le> ts_count s"
    using GetTunnelD(4,5) [OF i(1)] tunnels_okD(5) [OF i(1)] unfolding is_ok_iff GetTunnel_iff kv_has_def
    by (metis option.exhaust)
  show "distinct (GetActiveTunnelIDs s)" by (rule GetActiveTunnelIDs_spec(1) [OF inv])
  show "\<forall>i. i \<in> set (GetActiveTunnelIDs s) \<longleftrightarrow> (\<exists>t. GetTunnel s i = Inr t \<and> tun_ID t = i \<and> tun_IsActive t)"
    using GetActiveTunnelIDs_spec(2) [OF inv] by blast
  show "\<forall>key q. kv_get (ts_packets s) key = Some q \<longrightarrow> key = TunnelPacketStoreKey (pkt_TunnelID q) (pkt_Sequence q) \<and>
      1 \<le> pkt_Sequence q \<and> (\<exists>t. GetTunnel s (pkt_TunnelID q) = Inr t \<and> pkt_Sequence q \<le> tun_Sequence t)"
    using i(6) unfolding packets_ok_def packet_wf_def GetTunnel_iff by blast
qed

theorem tunnel_invariant_witness:
  "GetTunnel demo_t3 1 \<noteq> Inl ErrTunnelNotFound \<and> (\<Sum>x\<leftarrow>GetAllDeposits demo_t3. plain_AmountOf (dep_Amount x) uband) = 100 \<and>
   100 + plain_AmountOf (tf_TotalBasePacketFee (ts_total_fees demo_t3)) uband \<le>
     plain_AmountOf (plain_bal (fst (ts_world demo_t3)) (str ''tunnel'')) uband"
proof -
  have sum: "(\<Sum>x\<leftarrow>GetAllDeposits demo_t3. plain_AmountOf (dep_Amount x) uband) = 100" by code_simp
  note inv = tunnel_invariant [OF demo_tunnel_laws demo_t0_ok demo_reach [unfolded demo_t0_def]]
  have "ts_count demo_t3 = 1" by code_simp
  then have "is_ok (GetTunnel demo_t3 1)" using inv by simp
  then show ?thesis using inv [THEN conjunct2, THEN conjunct1, rule_format, of uband] sum by (auto simp: demo_tbank_def tunnel_ModuleName_def)
qed

text \<open>
  C8: the end of a block never fails, with counters that fit 64 bits and a bank, signing fee and address parser that return errors instead of panicking: no error or panic
  of handing a packet to its route, and no error of a transfer, stops it. It
  changes no deposit, parameter, tunnel count or inactive tunnel. The active tunnels have their turns one after the other, in the order of the
  active ids, and each is decided on the balances its turn finds: the tunnel is deactivated exactly when its fee payer's spendable coins do not cover base
  and route fee; it is left alone when no price is due, or when the route fee cannot be told; and otherwise, if the transfer of the base fee
  and the hand-over to the route succeed, exactly one packet is sent: it is stored under the next sequence number, which was
  free, with a receipt and the due prices, the base fee is counted, and the prices become the base of the next comparison. A failed transfer or hand-over leaves the
  state as it was.
\<close>

theorem tunnel_EndBlocker_correct:
  assumes laws: "tunnel_laws k" and np: "tunnel_no_panics k" and inv: "tunnel_inv k s" and fit: "counters_fit s"
  shows "\<exists>s' st. tunnel_EndBlocker k ctx s = Inr s' \<and> tunnel_inv k s' \<and>
    ts_deposits s' = ts_deposits s \<and> ts_params s' = ts_params s \<and> ts_count s' = ts_count s \<and>
    (\<forall>i<2 ^ 64. i \<notin> set (GetActiveTunnelIDs s) \<longrightarrow> same_view s s' i) \<and>
    st 0 = s \<and> st (length (GetActiveTunnelIDs s)) = s' \<and>
    (\<forall>n<length (GetActiveTunnelIDs s).
       tunnel_turn k ctx (CreatePricesMap (GetAllPrices (tc_feeds_state ctx))) s (st n) (st (n + 1)) s' (GetActiveTunnelIDs s ! n))"
proof -
  have fit': "\<forall>i t. GetTunnel s i = Inr t \<longrightarrow> tun_Sequence t + 1 < 2 ^ 64" using fit by (simp add: counters_fit_def)
  note ids = GetActiveTunnelIDs_spec [OF inv]
  obtain s' where run: "tunnel_EndBlocker k ctx s = Inr s'"
    using active_tunnels_succeed [OF laws np inv ids(1,3) fit']
    unfolding tunnel_EndBlocker_def ProduceActiveTunnelPackets_def Let_def by blast
  have "\<forall>i\<in>set (GetActiveTunnelIDs s). \<exists>t. GetTunnel s i = Inr t" using ids(2) by blast
  from active_tunnels_turns [OF laws inv ids(1,3) this fit' run [unfolded tunnel_EndBlocker_def ProduceActiveTunnelPackets_def Let_def]]
  show ?thesis using run EndBlocker_fold [OF laws inv fit run] by (fastforce simp: same_base_def)
qed

text \<open>The first block of the run above sends a packet, the second one deactivates the tunnel.\<close>

theorem tunnel_EndBlocker_correct_witness:
  "(\<exists>s'. tunnel_EndBlocker demo_tunnels demo_tctx demo_t2 = Inr s' \<and> GetTunnel s' 1 = Inr (demo_tun True 1) \<and> is_ok (GetPacket s' 1 1)) \<and>
   (\<exists>s'. tunnel_EndBlocker demo_tunnels demo_tctx demo_t3 = Inr s' \<and> GetTunnel s' 1 = Inr (demo_tun False 1))"
proof
  have t: "GetTunnel demo_t2 1 = Inr (demo_tun True 0)" "GetTunnel demo_t3 1 = Inr (demo_tun True 1)"
    by (simp_all add: demo_t3_def demo_t2_def GetTunnel_def kv_get_def)
  have ids: "GetActiveTunnelIDs demo_t2 = [1]" "GetActiveTunnelIDs demo_t3 = [1]" by code_simp+
  have fit: "counters_fit demo_t2" "counters_fit demo_t3" by (rule counters_fitI; code_simp)+
  have payer: "AccAddressFromBech32 plain_sdk payer = Inr payer" by code_simp
  have c: "route_cost demo_tunnels w (TSSRoute x y z) = Some [(uband, 3)]" for w x y z by (simp add: demo_tunnels_def)
  let ?pm = "CreatePricesMap (GetAllPrices (tc_feeds_state demo_tctx))"
  let ?r = "TSSRoute (str ''eth'') (str ''0x1'') ENCODER_FIXED_POINT_ABI"
  let ?l = "\<lparr>lp_TunnelID = 1, lp_Prices = [], lp_LastInterval = 0\<rparr>"
  have l: "GetLatestPrices demo_t2 1 = Inr ?l" by (simp add: demo_t2_def demo_t1_def GetLatestPrices_def kv_get_def)
  have l3: "GetLatestPrices demo_t3 1 = Inr \<lparr>lp_TunnelID = 1, lp_Prices = [demo_price], lp_LastInterval = 1000\<rparr>"
    by (simp add: demo_t3_def GetLatestPrices_def kv_get_def)
  have due: "new_prices demo_tctx ?pm (demo_tun True 0) ?l \<noteq> []" by code_simp
  have dlv: "delivery demo_tunnels demo_tctx [(uband, 2)] (ts_world demo_t2) (demo_tun True 0) (new_prices demo_tctx ?pm (demo_tun True 0) ?l) payer ?r \<noteq> None"
    by code_simp
  have rich: "tk_Coins_IsAllGTE demo_tunnels (tk_SpendableCoins demo_tunnels (ts_world demo_t2) payer) (Coins_Add plain_sdk [(uband, 2)] [(uband, 3)])"
    and poor: "\<not> tk_Coins_IsAllGTE demo_tunnels (tk_SpendableCoins demo_tunnels (ts_world demo_t3) payer) (Coins_Add plain_sdk [(uband, 2)] [(uband, 3)])"
    by code_simp+
  have sel: "tun_FeePayer (demo_tun x n) = payer" "GetRouteValue (tun_Route (demo_tun x n)) = Inr ?r" "tp_BasePacketFee (ts_params demo_t2) = [(uband, 2)]"
    "tp_BasePacketFee (ts_params demo_t3) = [(uband, 2)]" "tun_ID (demo_tun x n) = 1" "tun_Sequence (demo_tun x n) = n" for x n
    by (simp_all add: demo_tun_def demo_create_def demo_t3_def demo_t2_def demo_t1_def demo_tparams_def)
  note law = tunnel_EndBlocker_correct [OF demo_tunnel_laws demo_no_panics]
  obtain s' st where s': "tunnel_EndBlocker demo_tunnels demo_tctx demo_t2 = Inr s'"
      and turn: "tunnel_turn demo_tunnels demo_tctx ?pm demo_t2 demo_t2 s' s' 1"
    using law [OF demo_invs(2) fit(1), of demo_tctx] ids(1) by auto
  from turn have "packet_sent demo_tctx demo_t2 s' (demo_tun True 0) (new_prices demo_tctx ?pm (demo_tun True 0) ?l)
      (updated_prices demo_tctx (demo_tun True 0) ?l (new_prices demo_tctx ?pm (demo_tun True 0) ?l))"
    by (rule tunnel_turnD(2) [where payer = payer, OF _ t(1) l _ _ c]) (simp_all only: sel payer demo_tunnels_sel(1) rich due not_False_eq_True, rule dlv)
  then show "\<exists>s'. tunnel_EndBlocker demo_tunnels demo_tctx demo_t2 = Inr s' \<and> GetTunnel s' 1 = Inr (demo_tun True 1) \<and> is_ok (GetPacket s' 1 1)"
    using s' by (auto simp: packet_sent_def sel is_ok_iff) (simp add: demo_tun_def)
  obtain s' st where s': "tunnel_EndBlocker demo_tunnels demo_tctx demo_t3 = Inr s'"
      and turn: "tunnel_turn demo_tunnels demo_tctx ?pm demo_t3 demo_t3 s' s' 1"
    using law [OF demo_invs(3) fit(2), of demo_tctx] ids(2) by auto
  from turn have "GetTunnel s' 1 = Inr ((demo_tun True 1)\<lparr>tun_IsActive := False\<rparr>)"
    by (rule tunnel_turnD(1) [where payer = payer, OF _ t(2) l3 _ _ c]) (simp_all only: sel payer demo_tunnels_sel(1) poor not_False_eq_True)
  then show "\<exists>s'. tunnel_EndBlocker demo_tunnels demo_tctx demo_t3 = Inr s' \<and> GetTunnel s' 1 = Inr (demo_tun False 1)"
    using s' by (simp add: demo_tun_def)
qed

text \<open>
  C9: in every run in which no parameter update raises the minimum deposit in some denomination (everything else may change, parameters included), the deposits of every active
  tunnel reach the minimum deposit in force in every denomination: activation needs it, and a withdrawal that takes the deposits below it deactivates the tunnel.
  Deposits equal to the minimum are enough.
\<close>

theorem active_tunnels_reach_minimum:
  assumes laws: "tunnel_laws k" and start: "tunnel_Params_Validate (tk_sdk k) p = Inr ()" "tk_HasAccount k w (tmod k)"
    and run: "(\<lambda>a b. tunnel_step k a b \<and> (\<forall>d. Coins_AmountOf (tk_sdk k) (tp_MinDeposit (ts_params b)) d \<le>
      Coins_AmountOf (tk_sdk k) (tp_MinDeposit (ts_params a)) d))\<^sup>*\<^sup>* (empty_tunnels p w) s"
    and t: "i < 2 ^ 64" "GetTunnel s i = Inr t" "tun_IsActive t"
  shows "Coins_AmountOf (tk_sdk k) (tp_MinDeposit (ts_params s)) d \<le> (\<Sum>x\<leftarrow>GetDeposits s i. Coins_AmountOf (tk_sdk k) (dep_Amount x) d)"
proof -
  have "tunnel_inv k s \<and> active_covered k s"
    using run
  proof (induction rule: rtranclp_induct)
    case base
    show ?case using empty_tunnels_inv [OF laws start] by (simp add: active_covered_def empty_tunnels_def GetTunnel_def)
  next
    case (step y z)
    then have y: "tunnel_inv k y" "active_covered k y" and st: "tunnel_step k y z"
      and le: "\<forall>d. tamt k (tp_MinDeposit (ts_params z)) d \<le> tamt k (tp_MinDeposit (ts_params y)) d" by auto
    have z: "tunnel_inv k z" by (rule tunnel_step_inv [OF laws st y(1)])
    show ?case using z cover_kept_covered [OF laws y(1) z y(2) tunnel_step_covered [OF laws st y(1)] le] by simp
  qed
  then have inv: "tunnel_inv k s" and cov: "active_covered k s" by auto
  note i = tunnel_invD [OF inv]
  have gte: "tk_Coins_IsAllGTE k (tun_TotalDeposit t) (tp_MinDeposit (ts_params s))" using cov t by (simp add: active_covered_def)
  have v: "Coins_IsValid (tk_sdk k) (tun_TotalDeposit t)" using GetTunnelD(2) [OF i(1) t(1,2)] by (simp add: tunnel_wf_def)
  have "tamt k (tp_MinDeposit (ts_params s)) d \<le> tamt k (tun_TotalDeposit t) d"
    using tunnel_lawsD(4) [OF laws v tunnel_params_valid(1) [OF i(8)]] gte by simp
  also have "\<dots> = deposited k (ts_deposits s) i d"
    using i(5) GetTunnelD(1) [OF i(1) t(1,2)] t(2) by (auto simp: totals_ok_def GetTunnel_iff)
  finally show ?thesis using deposited_list(1) [OF inv t(1)] by simp
qed

theorem active_tunnels_reach_minimum_witness:
  "(100::int) \<le> (\<Sum>x\<leftarrow>GetDeposits demo_t3 1. plain_AmountOf (dep_Amount x) uband)"
proof -
  let ?R = "\<lambda>a b. tunnel_step demo_tunnels a b \<and> (\<forall>d. Coins_AmountOf (tk_sdk demo_tunnels) (tp_MinDeposit (ts_params b)) d \<le>
      Coins_AmountOf (tk_sdk demo_tunnels) (tp_MinDeposit (ts_params a)) d)"
  have par: "ts_params demo_t0 = demo_tparams" "ts_params demo_t1 = demo_tparams" "ts_params demo_t2 = demo_tparams" "ts_params demo_t3 = demo_tparams"
    by (simp_all add: demo_t3_def demo_t2_def demo_t1_def demo_t0_def empty_tunnels_def)
  then have "?R demo_t0 demo_t1" "?R demo_t1 demo_t2" "?R demo_t2 demo_t3" using demo_steps by simp_all
  then have "?R\<^sup>*\<^sup>* demo_t0 demo_t3"
    using rtranclp.rtrancl_into_rtrancl [of ?R demo_t0 demo_t2 demo_t3] rtranclp.rtrancl_into_rtrancl [of ?R demo_t0 demo_t1 demo_t2]
      r_into_rtranclp [of ?R demo_t0 demo_t1] by blast
  moreover have "GetTunnel demo_t3 1 = Inr (demo_tun True 1)" by (simp add: demo_t3_def GetTunnel_def kv_get_def)
  ultimately show ?thesis
    using active_tunnels_reach_minimum [OF demo_tunnel_laws demo_t0_ok, of demo_t3 1 "demo_tun True 1" uband]
    by (simp add: demo_t0_def demo_tun_def par demo_tparams_def plain_AmountOf_def kv_get_def)
qed






text \<open>
  C32: the turn of an active tunnel at the end of a block. A tunnel whose fee payer cannot pay is deactivated and leaves the active ids. Otherwise
  nothing happens when no packet is due, and when one is sent it is stored with its receipt under the next sequence number, the base fee is added to the
  fees collected, the latest price of every signal in the packet is the one sent and every other one is kept, the interval restarts exactly when it had
  passed, and no other tunnel changes.
\<close>

theorem ProduceActiveTunnelPacket_correct:
  assumes laws: "tunnel_laws k" and inv: "tunnel_inv k s" and i: "i < 2 ^ 64" and t: "GetTunnel s i = Inr t"
    and fit: "tun_Sequence t + 1 < 2 ^ 64" and l: "GetLatestPrices s i = Inr l" and ok: "HasEnoughFundToCreatePacket k s i = Inr ok"
  shows "(\<not> ok \<longrightarrow> (\<exists>s'. ProduceActiveTunnelPacket k ctx s i pm = Inr s' \<and> GetTunnel s' i = Inr (t\<lparr>tun_IsActive := False\<rparr>) \<and>
      i \<notin> set (GetActiveTunnelIDs s') \<and> ts_world s' = ts_world s \<and> (\<forall>j<2 ^ 64. j \<noteq> i \<longrightarrow> same_view s s' j))) \<and>
    (ok \<and> new_prices ctx pm t l = [] \<longrightarrow> ProduceActiveTunnelPacket k ctx s i pm = Inr s) \<and>
    (\<forall>s'. ok \<and> new_prices ctx pm t l \<noteq> [] \<and> ProduceActiveTunnelPacket k ctx s i pm = Inr s' \<longrightarrow>
      (\<exists>l'. packet_sent ctx s s' t (new_prices ctx pm t l) l' \<and>
        (\<forall>sid. kv_get (CreatePricesMap (lp_Prices l')) sid = (case kv_get (CreatePricesMap (new_prices ctx pm t l)) sid of
           None \<Rightarrow> kv_get (CreatePricesMap (lp_Prices l)) sid | Some p \<Rightarrow> Some p)) \<and>
        lp_LastInterval l' = (if send_all ctx t l then Unix (tc_BlockTime ctx) else lp_LastInterval l) \<and>
        (\<forall>d. Coins_AmountOf (tk_sdk k) (tf_TotalBasePacketFee (ts_total_fees s')) d =
          Coins_AmountOf (tk_sdk k) (tf_TotalBasePacketFee (ts_total_fees s)) d + Coins_AmountOf (tk_sdk k) (tp_BasePacketFee (ts_params s)) d) \<and>
        (\<forall>j<2 ^ 64. j \<noteq> i \<longrightarrow> same_view s s' j)))"
proof (intro conjI impI allI)
  have fit': "\<And>t. GetTunnel s i = Inr t \<Longrightarrow> tun_Sequence t + 1 < 2 ^ 64" using t fit by simp
  note run = ProducePacket_spec [OF laws inv i fit' t l, of ctx pm]
  show "\<exists>s'. ProduceActiveTunnelPacket k ctx s i pm = Inr s' \<and> GetTunnel s' i = Inr (t\<lparr>tun_IsActive := False\<rparr>) \<and>
      i \<notin> set (GetActiveTunnelIDs s') \<and> ts_world s' = ts_world s \<and> (\<forall>j<2 ^ 64. j \<noteq> i \<longrightarrow> same_view s s' j)" if "\<not> ok"
  proof -
    obtain s' where s': "DeactivateTunnel s i = Inr s'" "tunnel_inv k s'" "GetTunnel s' i = Inr (t\<lparr>tun_IsActive := False\<rparr>)"
        "\<forall>j<2 ^ 64. j \<noteq> i \<longrightarrow> same_view s s' j" "ts_world s' = ts_world s"
      by (rule DeactivateTunnel_spec [OF inv i t])
    then show ?thesis using that ok GetActiveTunnelIDs_spec(2) [OF s'(2), of i] by (auto simp: ProduceActiveTunnelPacket_def)
  qed
  show "ProduceActiveTunnelPacket k ctx s i pm = Inr s" if "ok \<and> new_prices ctx pm t l = []"
    using that ok run(1) by (simp add: ProduceActiveTunnelPacket_def)
  show "\<exists>l'. packet_sent ctx s s' t (new_prices ctx pm t l) l' \<and>
        (\<forall>sid. kv_get (CreatePricesMap (lp_Prices l')) sid = (case kv_get (CreatePricesMap (new_prices ctx pm t l)) sid of
           None \<Rightarrow> kv_get (CreatePricesMap (lp_Prices l)) sid | Some p \<Rightarrow> Some p)) \<and>
        lp_LastInterval l' = (if send_all ctx t l then Unix (tc_BlockTime ctx) else lp_LastInterval l) \<and>
        (\<forall>d. Coins_AmountOf (tk_sdk k) (tf_TotalBasePacketFee (ts_total_fees s')) d =
          Coins_AmountOf (tk_sdk k) (tf_TotalBasePacketFee (ts_total_fees s)) d + Coins_AmountOf (tk_sdk k) (tp_BasePacketFee (ts_params s)) d) \<and>
        (\<forall>j<2 ^ 64. j \<noteq> i \<longrightarrow> same_view s s' j)"
    if a: "ok \<and> new_prices ctx pm t l \<noteq> [] \<and> ProduceActiveTunnelPacket k ctx s i pm = Inr s'" for s'
  proof -
    have "ProducePacket k ctx s i pm = Inr s'" using a ok by (auto simp: ProduceActiveTunnelPacket_def)
    from run(2) [OF _ _ this] a show ?thesis
      by (intro exI [of _ "updated_prices ctx t l (new_prices ctx pm t l)"]) (simp add: UpdatePrices_lookup)
  qed
qed

theorem ProduceActiveTunnelPacket_correct_witness:
  "\<exists>s'. ProduceActiveTunnelPacket demo_tunnels demo_tctx demo_t3 1 [] = Inr s' \<and> 1 \<notin> set (GetActiveTunnelIDs s')"
proof -
  have fund: "HasEnoughFundToCreatePacket demo_tunnels demo_t3 1 = Inr False" by code_simp
  have t: "GetTunnel demo_t3 1 = Inr (demo_tun True 1)" by (simp add: demo_t3_def GetTunnel_def kv_get_def)
  have l: "GetLatestPrices demo_t3 1 = Inr \<lparr>lp_TunnelID = 1, lp_Prices = [demo_price], lp_LastInterval = 1000\<rparr>"
    by (simp add: demo_t3_def GetLatestPrices_def kv_get_def)
  show ?thesis
    using ProduceActiveTunnelPacket_correct [OF demo_tunnel_laws demo_invs(3) _ t _ l fund, of demo_tctx "[]"]
    by (auto simp: demo_tun_def)
qed

text \<open>A deposit is part of the total deposit of its tunnel.\<close>

lemma kv_value_le_sum:
  assumes ok: "kv_ok m" and pos: "\<forall>k v. kv_get m k = Some v \<longrightarrow> 0 \<le> f v" and get: "kv_get m k = Some v"
  shows "f v \<le> kv_sum f m"
proof -
  have "0 \<le> f (snd e)" if "e \<in> set m" for e using pos that kv_mem_iff [OF ok, of "fst e" "snd e"] by simp
  then have "0 \<le> kv_sum f (kv_delete m k)" unfolding kv_sum_def kv_delete_def by (intro sum_list_nonneg) auto
  then show ?thesis using get by (simp add: kv_sum_delete [OF ok] kv_part_def)
qed

lemma deposit_le_total:
  assumes laws: "tunnel_laws k" and inv: "tunnel_inv k s" and i: "i < 2 ^ 64" and a: "valid_addr a"
    and t: "GetTunnel s i = Inr t" and y: "GetDeposit k s i a = Some y"
  shows "tamt k (dep_Amount y) d \<le> tamt k (tun_TotalDeposit t) d"
proof -
  note n = tunnel_invD [OF inv] and L = tunnel_lawsD [OF laws]
  let ?f = "\<lambda>x. if dep_TunnelID x = i then tamt k (dep_Amount x) d else 0"
  have get: "kv_get (ts_deposits s) (DepositStoreKey (tk_sdk k) i a) = Some y" using y by (simp add: GetDeposit_def)
  have ok: "kv_ok (ts_deposits s)" and "\<forall>key x. kv_get (ts_deposits s) key = Some x \<longrightarrow> Coins_IsValid (tk_sdk k) (dep_Amount x)"
    using n(4) by (simp_all add: deposits_ok_def deposit_wf_def)
  then have "\<forall>key x. kv_get (ts_deposits s) key = Some x \<longrightarrow> 0 \<le> ?f x" using coin_lawsD(3) [OF L(2)] by simp
  from kv_value_le_sum [OF ok this get] have "tamt k (dep_Amount y) d \<le> deposited k (ts_deposits s) i d"
    using deposit_lookup(1) [OF L(1) n(4) tunnels_okD(2) [OF n(1)] i a get] by (simp add: deposited_def)
  moreover have "kv_get (ts_tunnels s) (TunnelStoreKey i) = Some t" using t by (simp add: GetTunnel_def split: option.splits)
  ultimately show ?thesis using n(5) GetTunnelD(1) [OF n(1) i t] unfolding totals_ok_def by simp
qed

text \<open>The state a successful withdrawal leaves.\<close>

lemma WithdrawFromTunnel_run:
  fixes k s i a y rest w tot t
  defines "D \<equiv> (if Coins_IsZero (tk_sdk k) rest then kv_delete (ts_deposits s) (DepositStoreKey (tk_sdk k) i a)
      else kv_set (ts_deposits s) (DepositStoreKey (tk_sdk k) i a) (y\<lparr>dep_Amount := rest\<rparr>))"
    and "b \<equiv> tun_IsActive t \<and> tk_Coins_IsAllGTE k tot (tp_MinDeposit (ts_params s))"
  assumes i: "i < 2 ^ 64" and t: "GetTunnel s i = Inr t" "tun_ID t = i"
    and y: "GetDeposit k s i a = Some y" "dep_TunnelID y = i" "AccAddressFromBech32 (tk_sdk k) (dep_Depositor y) = Inr a"
    and gte: "tk_Coins_IsAllGTE k (dep_Amount y) c"
    and w: "SendCoinsFromModuleToAccount (tk_bank k) (ts_world s) tunnel_ModuleName a c = Inr w"
    and rest: "Coins_Sub (tk_sdk k) (dep_Amount y) c = Inr rest" and tot: "Coins_Sub (tk_sdk k) (tun_TotalDeposit t) c = Inr tot"
  obtains s' where "WithdrawFromTunnel k s i c a = Inr s'" "GetTunnel s' i = Inr (t\<lparr>tun_TotalDeposit := tot, tun_IsActive := b\<rparr>)"
    "ts_deposits s' = D" "ts_world s' = w"
proof -
  define s0 where "s0 = s\<lparr>ts_world := w, ts_deposits := D\<rparr>"
  define s1 where "s1 = SetTunnel s0 (t\<lparr>tun_TotalDeposit := tot\<rparr>)"
  have dep: "(if Coins_IsZero (tk_sdk k) rest then Inr (DeleteDeposit k (s\<lparr>ts_world := w\<rparr>) i a)
      else SetDeposit k (s\<lparr>ts_world := w\<rparr>) (y\<lparr>dep_Amount := rest\<rparr>)) = Inr s0"
    using y by (simp add: DeleteDeposit_def SetDeposit_def MustAccAddressFromBech32_def s0_def D_def)
  have "WithdrawFromTunnel k s i c a =
      (if tun_IsActive t \<and> \<not> tk_Coins_IsAllGTE k tot (tp_MinDeposit (ts_params s1)) then DeactivateTunnel s1 i else Inr s1)"
    using t y gte w rest tot dep by (simp add: WithdrawFromTunnel_def Let_def s1_def)
  moreover have s1: "ts_params s1 = ts_params s" "ts_deposits s1 = D" "ts_world s1 = w" by (simp_all add: s1_def s0_def)
  moreover have g1: "GetTunnel s1 i = Inr (t\<lparr>tun_TotalDeposit := tot\<rparr>)" using t i by (simp add: s1_def tunnel_lookup)
  ultimately have run: "WithdrawFromTunnel k s i c a =
      Inr (if tun_IsActive t \<and> \<not> b then SetTunnel (DeleteActiveTunnelID s1 i) (t\<lparr>tun_TotalDeposit := tot, tun_IsActive := False\<rparr>) else s1)"
    by (auto simp: b_def DeactivateTunnel_def)
  have "GetTunnel s1 i = Inr (t\<lparr>tun_TotalDeposit := tot, tun_IsActive := b\<rparr>)" if "\<not> (tun_IsActive t \<and> \<not> b)"
    using that g1 by (cases t) (auto simp: b_def)
  then show ?thesis
    using that [OF run] t i s1 by (auto simp: tunnel_lookup DeleteActiveTunnelID_def)
qed

text \<open>
  C33: withdrawing an amount the account has deposited succeeds whenever the bank can pay it out; neither subtraction can panic. The deposit
  shrinks by the amount and disappears at zero, the total deposit shrinks by as much, every other deposit is kept, and the tunnel stays
  active exactly when it was and its total deposit still reaches the minimum. Anyone without a deposit, or with a smaller one, gets an error.
\<close>

theorem WithdrawFromTunnel_correct:
  assumes laws: "tunnel_laws k" and inv: "tunnel_inv k s" and i: "i < 2 ^ 64" and a: "valid_addr a" and c: "Coins_IsValid (tk_sdk k) c"
    and t: "GetTunnel s i = Inr t"
  shows "(GetDeposit k s i a = None \<longrightarrow> WithdrawFromTunnel k s i c a = Inl ErrDepositNotFound) \<and>
    (\<forall>y. GetDeposit k s i a = Some y \<and> \<not> tk_Coins_IsAllGTE k (dep_Amount y) c \<longrightarrow> WithdrawFromTunnel k s i c a = Inl ErrInsufficientDeposit) \<and>
    (\<forall>y w. GetDeposit k s i a = Some y \<and> tk_Coins_IsAllGTE k (dep_Amount y) c \<and>
      SendCoinsFromModuleToAccount (tk_bank k) (ts_world s) tunnel_ModuleName a c = Inr w \<longrightarrow>
      (\<exists>s' t'. WithdrawFromTunnel k s i c a = Inr s' \<and> ts_world s' = w \<and> GetTunnel s' i = Inr t' \<and>
        (\<forall>d. Coins_AmountOf (tk_sdk k) (tun_TotalDeposit t') d =
           Coins_AmountOf (tk_sdk k) (tun_TotalDeposit t) d - Coins_AmountOf (tk_sdk k) c d) \<and>
        (tun_IsActive t' \<longleftrightarrow> tun_IsActive t \<and> tk_Coins_IsAllGTE k (tun_TotalDeposit t') (tp_MinDeposit (ts_params s))) \<and>
        (\<forall>d. deposit_amt k (GetDeposit k s' i a) d = Coins_AmountOf (tk_sdk k) (dep_Amount y) d - Coins_AmountOf (tk_sdk k) c d) \<and>
        (\<forall>j<2 ^ 64. \<forall>b. valid_addr b \<longrightarrow> (j, b) \<noteq> (i, a) \<longrightarrow> GetDeposit k s' j b = GetDeposit k s j b)))"
proof (intro conjI impI allI)
  note n = tunnel_invD [OF inv] and L = tunnel_lawsD [OF laws]
  show "WithdrawFromTunnel k s i c a = Inl ErrDepositNotFound" if "GetDeposit k s i a = None"
    using that t by (simp add: WithdrawFromTunnel_def)
  show "WithdrawFromTunnel k s i c a = Inl ErrInsufficientDeposit" if "GetDeposit k s i a = Some y \<and> \<not> tk_Coins_IsAllGTE k (dep_Amount y) c" for y
    using that t by (simp add: WithdrawFromTunnel_def)
  fix y w
  assume "GetDeposit k s i a = Some y \<and> tk_Coins_IsAllGTE k (dep_Amount y) c \<and>
    SendCoinsFromModuleToAccount (tk_bank k) (ts_world s) tunnel_ModuleName a c = Inr w"
  then have y: "GetDeposit k s i a = Some y" and gte: "tk_Coins_IsAllGTE k (dep_Amount y) c"
    and w: "SendCoinsFromModuleToAccount (tk_bank k) (ts_world s) tunnel_ModuleName a c = Inr w" by auto
  let ?key = "DepositStoreKey (tk_sdk k) i a"
  have get: "kv_get (ts_deposits s) ?key = Some y" using y by (simp add: GetDeposit_def)
  note dep = deposit_lookup [OF L(1) n(4) tunnels_okD(2) [OF n(1)] i a get]
  have le: "tamt k c d \<le> tamt k (dep_Amount y) d" for d using L(4) [OF dep(3) c] gte by simp
  have vt: "Coins_IsValid (tk_sdk k) (tun_TotalDeposit t)" using GetTunnelD(2) [OF n(1) i t] by (simp add: tunnel_wf_def)
  obtain rest where rest: "Coins_Sub (tk_sdk k) (dep_Amount y) c = Inr rest" by (rule Coins_Sub_ok [OF L(2) dep(3) c le])
  have "tamt k c d \<le> tamt k (tun_TotalDeposit t) d" for d using le [of d] deposit_le_total [OF laws inv i a t y, of d] by simp
  then obtain tot where tot: "Coins_Sub (tk_sdk k) (tun_TotalDeposit t) c = Inr tot" using Coins_Sub_ok [OF L(2) vt c] by blast
  note r = Coins_Sub_Inr [OF L(2) dep(3) c rest] and tt = Coins_Sub_Inr [OF L(2) vt c tot]
  define b where "b \<longleftrightarrow> tun_IsActive t \<and> tk_Coins_IsAllGTE k tot (tp_MinDeposit (ts_params s))"
  define D where "D = (if Coins_IsZero (tk_sdk k) rest then kv_delete (ts_deposits s) ?key
      else kv_set (ts_deposits s) ?key (y\<lparr>dep_Amount := rest\<rparr>))"
  obtain s' where run: "WithdrawFromTunnel k s i c a = Inr s'" "GetTunnel s' i = Inr (t\<lparr>tun_TotalDeposit := tot, tun_IsActive := b\<rparr>)"
      and dep': "ts_deposits s' = D" "ts_world s' = w"
    unfolding b_def D_def by (rule WithdrawFromTunnel_run [OF i t GetTunnelD(1) [OF n(1) i t] y dep(1,2) gte w rest tot])
  have "deposit_amt k (GetDeposit k s' i a) d = tamt k (dep_Amount y) d - tamt k c d" for d
    using coin_lawsD(4) [OF L(2) r(1)] r(2) [of d] by (simp add: GetDeposit_def dep' D_def deposit_amt_def) (metis eq_iff_diff_eq_0)
  moreover have "GetDeposit k s' j e = GetDeposit k s j e" if "j < 2 ^ 64" "valid_addr e" "(j, e) \<noteq> (i, a)" for j e
    using that DepositStoreKey_inj [OF L(1) that(1) i that(2) a] by (auto simp: GetDeposit_def dep' D_def)
  ultimately show "\<exists>s' t'. WithdrawFromTunnel k s i c a = Inr s' \<and> ts_world s' = w \<and> GetTunnel s' i = Inr t' \<and>
        (\<forall>d. Coins_AmountOf (tk_sdk k) (tun_TotalDeposit t') d =
           Coins_AmountOf (tk_sdk k) (tun_TotalDeposit t) d - Coins_AmountOf (tk_sdk k) c d) \<and>
        (tun_IsActive t' \<longleftrightarrow> tun_IsActive t \<and> tk_Coins_IsAllGTE k (tun_TotalDeposit t') (tp_MinDeposit (ts_params s))) \<and>
        (\<forall>d. deposit_amt k (GetDeposit k s' i a) d = Coins_AmountOf (tk_sdk k) (dep_Amount y) d - Coins_AmountOf (tk_sdk k) c d) \<and>
        (\<forall>j<2 ^ 64. \<forall>b. valid_addr b \<longrightarrow> (j, b) \<noteq> (i, a) \<longrightarrow> GetDeposit k s' j b = GetDeposit k s j b)"
    using run dep' tt(2) by (intro exI [of _ s'] exI [of _ "t\<lparr>tun_TotalDeposit := tot, tun_IsActive := b\<rparr>"]) (simp add: b_def)
qed

theorem WithdrawFromTunnel_correct_witness:
  "WithdrawFromTunnel demo_tunnels demo_t3 1 [(uband, 1)] (str ''bob'') = Inl ErrDepositNotFound \<and>
   (\<exists>s' t'. WithdrawFromTunnel demo_tunnels demo_t3 1 [(uband, 1)] (str ''alice'') = Inr s' \<and> GetTunnel s' 1 = Inr t' \<and> \<not> tun_IsActive t')"
proof -
  have v: "valid_addr (str ''alice'')" "valid_addr (str ''bob'')" "Coins_IsValid (tk_sdk demo_tunnels) [(uband, 1)]" by code_simp+
  have t: "GetTunnel demo_t3 1 = Inr (demo_tun True 1)" by (simp add: demo_t3_def GetTunnel_def kv_get_def)
  have none: "GetDeposit demo_tunnels demo_t3 1 (str ''bob'') = None"
    and y: "GetDeposit demo_tunnels demo_t3 1 (str ''alice'') =
      Some \<lparr>dep_TunnelID = 1, dep_Depositor = str ''alice'', dep_Amount = [(uband, 100)]\<rparr>"
    and gte: "tk_Coins_IsAllGTE demo_tunnels [(uband, 100)] [(uband, 1)]"
    by code_simp+
  obtain w where w: "SendCoinsFromModuleToAccount (tk_bank demo_tunnels) (ts_world demo_t3) tunnel_ModuleName (str ''alice'') [(uband, 1)] = Inr w"
  proof -
    have "is_ok (SendCoinsFromModuleToAccount (tk_bank demo_tunnels) (ts_world demo_t3) tunnel_ModuleName (str ''alice'') [(uband, 1)])" by code_simp
    then show ?thesis using that by (auto simp: is_ok_iff)
  qed
  note law = WithdrawFromTunnel_correct [OF demo_tunnel_laws demo_invs(3) _ _ v(3) t]
  obtain s' t' where s': "WithdrawFromTunnel demo_tunnels demo_t3 1 [(uband, 1)] (str ''alice'') = Inr s'" "GetTunnel s' 1 = Inr t'"
    and amt: "plain_AmountOf (tun_TotalDeposit t') uband = plain_AmountOf [(uband, 100)] uband - plain_AmountOf [(uband, 1)] uband"
    and act: "tun_IsActive t' \<longleftrightarrow> plain_IsAllGTE (tun_TotalDeposit t') [(uband, 100)]"
    using law [OF _ v(1), THEN conjunct2, THEN conjunct2, rule_format, OF _ conjI [OF y]] gte w by (auto simp: demo_tun_def demo_t3_def demo_t2_def demo_t1_def demo_tparams_def)
  have "\<not> tun_IsActive t'" using amt act by (simp add: plain_IsAllGTE_def plain_AmountOf_def [of "[_]"] kv_get_def)
  then show ?thesis using law [OF _ v(2), THEN conjunct1] none s' by auto
qed

text \<open>
  C34: exporting the state and importing it into an empty module, on the same balances and ports, gives back the parameters, the counter, the tunnels,
  the deposits, the fees and the active ids, and satisfies the invariant again, whenever the module account holds exactly the deposits and fees. Packets are
  not exported, and every tunnel starts with no latest prices, so that its next packet is due at once.
\<close>

theorem tunnel_genesis_round_trip:
  assumes laws: "tunnel_laws k" and inv: "tunnel_inv k s" and ports: "ports_bound k (ts_world s) (GetTunnels s)"
    and acc: "tk_GetModuleAccount k (ts_world s) tunnel_ModuleName = Some (GetModuleAddress (tk_bank k) tunnel_ModuleName)"
    and bal: "\<forall>d. Coins_AmountOf (tk_sdk k) (GetAllBalances (tk_bank k) (ts_world s) (GetModuleAddress (tk_bank k) tunnel_ModuleName)) d =
      (\<Sum>x\<leftarrow>GetAllDeposits s. Coins_AmountOf (tk_sdk k) (dep_Amount x) d) + Coins_AmountOf (tk_sdk k) (tf_TotalBasePacketFee (ts_total_fees s)) d"
  shows "\<exists>s'. tunnel_InitGenesis k (empty_tunnels p (ts_world s)) (tunnel_ExportGenesis s) = Inr s' \<and> tunnel_inv k s' \<and>
    tunnel_ExportGenesis s' = tunnel_ExportGenesis s \<and> set (GetActiveTunnelIDs s') = set (GetActiveTunnelIDs s) \<and> ts_packets s' = [] \<and>
    (\<forall>i. 1 \<le> i \<longrightarrow> i \<le> ts_count s \<longrightarrow> GetLatestPrices s' i = Inr \<lparr>lp_TunnelID = i, lp_Prices = [], lp_LastInterval = 0\<rparr>)"
proof -
  have "\<forall>d. mod_bal k (ts_world s) d = all_deposited k (ts_deposits s) d + tamt k (tf_TotalBasePacketFee (ts_total_fees s)) d"
    using bal deposited_list(2) [OF inv, of 0] by (simp add: mod_bal_def tmod_def)
  then obtain s' where s': "tunnel_InitGenesis k (empty_tunnels p (ts_world s)) (tunnel_ExportGenesis s) = Inr s'" "tunnel_inv k s'"
      "ts_count s' = ts_count s" "ts_params s' = ts_params s" "ts_tunnels s' = ts_tunnels s" "ts_deposits s' = ts_deposits s"
      "ts_total_fees s' = ts_total_fees s" "ts_packets s' = []"
      "\<forall>i. 1 \<le> i \<longrightarrow> i \<le> ts_count s \<longrightarrow> GetLatestPrices s' i = Inr \<lparr>lp_TunnelID = i, lp_Prices = [], lp_LastInterval = 0\<rparr>"
    using import_export [OF laws inv ports acc [folded tmod_def], of p] by blast
  have "set (GetActiveTunnelIDs s') = set (GetActiveTunnelIDs s)"
    using GetActiveTunnelIDs_spec(2) [OF s'(2)] GetActiveTunnelIDs_spec(2) [OF inv] s'(5) by (auto simp: GetTunnel_def)
  then show ?thesis using s' by (auto simp: tunnel_ExportGenesis_def GetTunnels_def GetAllDeposits_def)
qed

theorem tunnel_genesis_round_trip_witness:
  "\<exists>s'. tunnel_InitGenesis demo_tunnels (empty_tunnels demo_tparams (ts_world demo_t3)) (tunnel_ExportGenesis demo_t3) = Inr s' \<and>
     tunnel_ExportGenesis s' = tunnel_ExportGenesis demo_t3 \<and> ts_packets s' = []"
proof -
  have tuns: "GetTunnels demo_t3 = [demo_tun True 1]" and deps: "map dep_Amount (GetAllDeposits demo_t3) = [[(uband, 100)]]"
    and bal: "plain_bal (fst (ts_world demo_t3)) (str ''tunnel'') = [(uband, 102)]"
    by code_simp+
  have deps: "(\<Sum>x\<leftarrow>GetAllDeposits demo_t3. plain_AmountOf (dep_Amount x) d) = plain_AmountOf [(uband, 100)] d" for d
    using arg_cong [OF deps, of "map (\<lambda>c. plain_AmountOf c d)"] by (simp add: o_def)
  have ports: "ports_bound demo_tunnels (ts_world demo_t3) (GetTunnels demo_t3)"
    by (simp add: tuns ports_bound_def demo_tun_def demo_create_def)
  have "\<forall>d. Coins_AmountOf (tk_sdk demo_tunnels) (GetAllBalances (tk_bank demo_tunnels) (ts_world demo_t3)
        (GetModuleAddress (tk_bank demo_tunnels) tunnel_ModuleName)) d =
      (\<Sum>x\<leftarrow>GetAllDeposits demo_t3. Coins_AmountOf (tk_sdk demo_tunnels) (dep_Amount x) d) +
      Coins_AmountOf (tk_sdk demo_tunnels) (tf_TotalBasePacketFee (ts_total_fees demo_t3)) d"
    using bal deps by (auto simp: demo_tbank_def tunnel_ModuleName_def demo_t3_def plain_AmountOf_def kv_get_def)
  from tunnel_genesis_round_trip [OF demo_tunnel_laws demo_invs(3) ports _ this, of demo_tparams] show ?thesis
    by (auto simp: demo_tbank_def)
qed

end
