(* ===== verification/Interpolation.thy ===== *)
theory Interpolation
  imports Lagrange Complex_Main
begin

text \<open>
  Interpolation at zero: the weights \<open>\<Prod>j / (j - i)\<close> reconstruct the constant coefficient of a polynomial from its values, over a field and
  then modulo the order of the group for any integers that solve the equations of the weights.
\<close>

definition weight :: "'a::field_char_0 set \<Rightarrow> 'a \<Rightarrow> 'a" where
  "weight S i = (\<Prod>j\<in>S - {i}. j / (j - i))"

definition at_zero :: "'a::field_char_0 set \<Rightarrow> ('a \<Rightarrow> 'a) \<Rightarrow> 'a" where
  "at_zero S f = (\<Sum>i\<in>S. f i * weight S i)"

lemma at_zero_diff: "at_zero S (\<lambda>x. f x - g x) = at_zero S f - at_zero S g"
  by (simp add: at_zero_def left_diff_distrib sum_subtractf)

lemma at_zero_add: "at_zero S (\<lambda>x. f x + g x) = at_zero S f + at_zero S g"
  by (simp add: at_zero_def distrib_right sum.distrib)

lemma at_zero_mult: "at_zero S (\<lambda>x. a * f x) = a * at_zero S f"
  by (simp add: at_zero_def sum_distrib_left mult.assoc)

lemma at_zero_cong: "(\<And>x. x \<in> S \<Longrightarrow> f x = g x) \<Longrightarrow> at_zero S f = at_zero S g"
  by (simp add: at_zero_def)

text \<open>A factor that vanishes at a node removes the node.\<close>

lemma at_zero_factor:
  assumes fin: "finite S" and m: "m \<in> S"
  shows "at_zero S (\<lambda>x. (x - m) * g x) = - m * at_zero (S - {m}) g"
proof -
  have w: "(i - m) * weight S i = - m * weight (S - {m}) i" if i: "i \<in> S - {m}" for i
  proof -
    have "S - {i} = insert m (S - {m} - {i})" using m i by auto
    then have "weight S i = m / (m - i) * weight (S - {m}) i" using fin i by (simp add: weight_def)
    moreover have "(i - m) * (m / (m - i)) = - m" using i by (auto simp: divide_simps) (simp add: algebra_simps)?
    ultimately show ?thesis by (simp only: mult.assoc [symmetric])
  qed
  have "at_zero S (\<lambda>x. (x - m) * g x) = (\<Sum>i\<in>S - {m}. (i - m) * g i * weight S i)"
    unfolding at_zero_def using fin m by (subst sum.remove [of S m]) auto
  also have "\<dots> = (\<Sum>i\<in>S - {m}. - m * (g i * weight (S - {m}) i))"
  proof (intro sum.cong refl)
    fix i
    assume i: "i \<in> S - {m}"
    have "(i - m) * g i * weight S i = g i * ((i - m) * weight S i)" by (simp only: mult.assoc mult.commute mult.left_commute)
    also have "\<dots> = - m * (g i * weight (S - {m}) i)" unfolding w [OF i] by (simp only: mult.left_commute)
    finally show "(i - m) * g i * weight S i = - m * (g i * weight (S - {m}) i)" .
  qed
  finally show ?thesis by (simp add: at_zero_def sum_distrib_left)
qed

lemma at_zero_one: "finite S \<Longrightarrow> S \<noteq> {} \<Longrightarrow> at_zero S (\<lambda>_. 1) = 1"
proof (induction "card S" arbitrary: S rule: less_induct)
  case less
  obtain m where m: "m \<in> S" using less.prems by auto
  show ?case
  proof (cases "S = {m}")
    case True
    then show ?thesis by (simp add: at_zero_def weight_def)
  next
    case False
    then obtain l where l: "l \<in> S" "l \<noteq> m" using m by auto
    have one: "at_zero (S - {x}) (\<lambda>_. 1) = 1" if "x \<in> S" for x
      by (rule less.hyps [OF card_Diff1_less [OF less.prems(1) that]]) (use m l less.prems(1) in auto)
    have "at_zero S (\<lambda>x. (x - m) * 1 - (x - l) * 1) = - m * 1 - (- l * 1)"
      unfolding at_zero_diff using at_zero_factor [OF less.prems(1) m, of "\<lambda>_. 1"] at_zero_factor [OF less.prems(1) l(1), of "\<lambda>_. 1"]
      by (simp only: one [OF m] one [OF l(1)])
    moreover have "at_zero S (\<lambda>x. (x - m) * 1 - (x - l) * 1) = (l - m) * at_zero S (\<lambda>_. 1)"
      unfolding at_zero_mult [symmetric] by (rule at_zero_cong) simp
    ultimately have "(l - m) * at_zero S (\<lambda>_. 1) = (l - m) * 1" by simp
    then show ?thesis using l by (metis eq_iff_diff_eq_0 mult_left_cancel)
  qed
qed

lemma at_zero_power: "finite S \<Longrightarrow> k < card S \<Longrightarrow> at_zero S (\<lambda>x. x ^ k) = (if k = 0 then 1 else 0)"
proof (induction k arbitrary: S)
  case 0
  then have "S \<noteq> {}" by auto
  then show ?case using at_zero_one [OF 0(1)] by simp
next
  case (Suc k)
  then obtain m where m: "m \<in> S" by (metis card.empty equals0I not_less_zero)
  have "at_zero S (\<lambda>x. x ^ Suc k) = at_zero S (\<lambda>x. (x - m) * x ^ k + m * x ^ k)"
    by (rule at_zero_cong) (simp add: algebra_simps)
  also have "\<dots> = - m * at_zero (S - {m}) (\<lambda>x. x ^ k) + m * at_zero S (\<lambda>x. x ^ k)"
    unfolding at_zero_add at_zero_mult using at_zero_factor [OF Suc.prems(1) m, of "\<lambda>x. x ^ k"] by simp
  also have "\<dots> = 0"
    using Suc.IH [of "S - {m}"] Suc.IH [of S] Suc.prems m by simp
  finally show ?case by simp
qed

section \<open>Modulo the order\<close>

text \<open>A polynomial by its coefficients, lowest first.\<close>

definition poly_at :: "int list \<Rightarrow> int \<Rightarrow> int" where
  "poly_at a x = foldr (\<lambda>c r. c + x * r) a 0"

lemma poly_at_sum: "poly_at a x = (\<Sum>k<length a. a ! k * x ^ k)"
  by (induction a) (simp_all add: poly_at_def sum.lessThan_Suc_shift sum_distrib_left algebra_simps del: sum.lessThan_Suc)

lemma poly_at_0: "a \<noteq> [] \<Longrightarrow> poly_at a 0 = hd a"
  by (cases a) (simp_all add: poly_at_def)

text \<open>The equations of the weights over the integers.\<close>

definition numer :: "int set \<Rightarrow> int \<Rightarrow> int" where
  "numer S i = \<Prod>(S - {i})"

definition denom :: "int set \<Rightarrow> int \<Rightarrow> int" where
  "denom S i = (\<Prod>j\<in>S - {i}. j - i)"

lemma weight_of_int: "finite S \<Longrightarrow> weight (of_int ` S) (of_int i) * of_int (denom S i) = (of_int (numer S i) :: 'a::field_char_0)"
proof -
  assume fin: "finite S"
  have "weight (of_int ` S) (of_int i :: 'a) = (\<Prod>j\<in>S - {i}. of_int j / of_int (j - i))"
    unfolding weight_def by (rule prod.reindex_cong [where l = of_int]) (auto simp: inj_on_def)
  also have "\<dots> = of_int (numer S i) / of_int (denom S i)" by (simp add: prod_dividef numer_def denom_def)
  finally show ?thesis using fin by (simp add: denom_def)
qed

lemma interpolation_int:
  assumes fin: "finite S" and len: "length a \<le> card S" and a: "a \<noteq> []"
  shows "(\<Sum>i\<in>S. numer S i * (\<Prod>l\<in>S - {i}. denom S l) * poly_at a i) = (\<Prod>l\<in>S. denom S l) * hd a"
proof -
  let ?D = "\<Prod>l\<in>S. denom S l"
  have den: "(of_int (denom S i) :: rat) \<noteq> 0" for i using fin by (simp add: denom_def)
  have card: "card (of_int ` S :: rat set) = card S" by (rule card_image) (simp add: inj_on_def)
  have val: "of_int (poly_at a i) = (\<Sum>k<length a. of_int (a ! k) * (of_int i :: rat) ^ k)" for i by (simp add: poly_at_sum)
  have "(\<Sum>i\<in>S. of_int (poly_at a i) * weight (of_int ` S) (of_int i)) =
      at_zero (of_int ` S) (\<lambda>x. \<Sum>k<length a. of_int (a ! k) * (x :: rat) ^ k)"
    unfolding at_zero_def val by (rule sum.reindex_cong [symmetric, where l = of_int]) (auto simp: inj_on_def)
  also have "\<dots> = (\<Sum>k<length a. of_int (a ! k) * at_zero (of_int ` S) (\<lambda>x. x ^ k))"
    by (simp add: at_zero_def sum_distrib_right sum_distrib_left mult.assoc) (rule sum.swap)
  also have "\<dots> = (\<Sum>k<length a. if k = 0 then of_int (a ! k) else 0)"
    using at_zero_power [of "of_int ` S :: rat set"] fin len card by (intro sum.cong) auto
  also have "\<dots> = of_int (hd a)" using a by (simp add: hd_conv_nth)
  finally have "of_int ?D * (\<Sum>i\<in>S. of_int (poly_at a i) * weight (of_int ` S) (of_int i)) = (of_int (?D * hd a) :: rat)" by simp
  moreover have part: "of_int ?D * (of_int (poly_at a i) * weight (of_int ` S) (of_int i)) =
      (of_int (numer S i * (\<Prod>l\<in>S - {i}. denom S l) * poly_at a i) :: rat)" if "i \<in> S" for i
  proof -
    have "?D = denom S i * (\<Prod>l\<in>S - {i}. denom S l)" by (rule prod.remove [OF fin that])
    then have "of_int ?D * (of_int (poly_at a i) * weight (of_int ` S) (of_int i)) =
        weight (of_int ` S) (of_int i) * of_int (denom S i) * of_int (\<Prod>l\<in>S - {i}. denom S l) * (of_int (poly_at a i) :: rat)"
      by (simp only: of_int_mult ac_simps)
    then show ?thesis by (simp only: weight_of_int [OF fin] of_int_mult)
  qed
  then have "(\<Sum>i\<in>S. of_int (numer S i * (\<Prod>l\<in>S - {i}. denom S l) * poly_at a i)) =
      of_int ?D * (\<Sum>i\<in>S. of_int (poly_at a i) * weight (of_int ` S) (of_int i :: rat))"
    unfolding sum_distrib_left by (intro sum.cong refl) (rule part [symmetric])
  ultimately have "(\<Sum>i\<in>S. of_int (numer S i * (\<Prod>l\<in>S - {i}. denom S l) * poly_at a i)) = (of_int (?D * hd a) :: rat)"
    by (simp only:)
  then have "(of_int (\<Sum>i\<in>S. numer S i * (\<Prod>l\<in>S - {i}. denom S l) * poly_at a i) :: rat) = of_int (?D * hd a)"
    unfolding of_int_sum .
  then show ?thesis by (simp only: of_int_eq_iff)
qed

lemma interpolation_mod:
  assumes fin: "finite S" and len: "length a \<le> card S" and a: "a \<noteq> []"
    and cop: "\<And>i. i \<in> S \<Longrightarrow> coprime (denom S i) N"
    and w: "\<And>i. i \<in> S \<Longrightarrow> w i * denom S i mod N = numer S i mod N"
  shows "(\<Sum>i\<in>S. w i * poly_at a i) mod N = hd a mod N"
proof -
  let ?D = "\<Prod>l\<in>S. denom S l"
  have part: "N dvd ?D * (w i * poly_at a i) - numer S i * (\<Prod>l\<in>S - {i}. denom S l) * poly_at a i" if i: "i \<in> S" for i
  proof -
    have "N dvd w i * denom S i - numer S i" using w [OF i] by (simp add: mod_eq_dvd_iff)
    then have "N dvd (w i * denom S i - numer S i) * ((\<Prod>l\<in>S - {i}. denom S l) * poly_at a i)" by (rule dvd_mult2)
    then show ?thesis by (simp only: prod.remove [OF fin i, of "denom S"] left_diff_distrib right_diff_distrib mult.assoc mult.commute mult.left_commute)
  qed
  have "N dvd (\<Sum>i\<in>S. ?D * (w i * poly_at a i) - numer S i * (\<Prod>l\<in>S - {i}. denom S l) * poly_at a i)"
    by (rule dvd_sum) (rule part)
  also have "(\<Sum>i\<in>S. ?D * (w i * poly_at a i) - numer S i * (\<Prod>l\<in>S - {i}. denom S l) * poly_at a i) =
      ?D * ((\<Sum>i\<in>S. w i * poly_at a i) - hd a)"
    unfolding sum_subtractf interpolation_int [OF fin len a] by (simp add: sum_distrib_left right_diff_distrib)
  finally have "N dvd ?D * ((\<Sum>i\<in>S. w i * poly_at a i) - hd a)" .
  moreover have "coprime N ?D" using cop by (intro prod_coprime_right) (simp add: coprime_commute)
  ultimately have "N dvd (\<Sum>i\<in>S. w i * poly_at a i) - hd a" by (simp add: coprime_dvd_mult_right_iff)
  then show ?thesis by (simp add: mod_eq_dvd_iff)
qed

end
