(* ===== verification/Tss_Crypto.thy ===== *)
theory Tss_Crypto
  imports Lagrange KV_Store
begin

text \<open>
  Package \<open>pkg/tss\<close>, the threshold signature library over secp256k1: scalars, points and signatures as the byte
  strings the code stores, hashing to scalars, Schnorr signatures, the three rounds of distributed key generation with
  the encryption of shares, and signing. The curve itself (\<open>dcrd/secp256k1\<close>), Keccak, HKDF and AES-CTR
  are third-party code: the fields of the record \<open>curve\<close>. Random bytes are an argument, the list of draws; a loop that
  retries until a draw is good is \<open>None\<close> when the draws run out.
\<close>

section \<open>Third-party operations\<close>

text \<open>
  A point of the curve, the point at infinity included, is a value of type \<open>'p\<close>. \<open>cv_SerializeCompressed\<close> stands for
  \<open>ToAffine\<close> followed by \<open>SerializeCompressed\<close>.
\<close>

record 'p curve =
  cv_G :: 'p
  cv_infinity :: 'p
  cv_Add :: "'p \<Rightarrow> 'p \<Rightarrow> 'p"
  cv_Mult :: "int \<Rightarrow> 'p \<Rightarrow> 'p"
  cv_ParsePubKey :: "bytes \<Rightarrow> 'p option"
  cv_SerializeCompressed :: "'p \<Rightarrow> bytes"
  cv_X :: "'p \<Rightarrow> nat"
  cv_Y :: "'p \<Rightarrow> nat"
  cv_Keccak256 :: "bytes \<Rightarrow> bytes"
  cv_hkdf_key :: "bytes \<Rightarrow> bytes"
  cv_ctr_stream :: "bytes \<Rightarrow> bytes \<Rightarrow> nat \<Rightarrow> bytes"

section \<open>Errors\<close>

definition ErrParseError :: error where "ErrParseError = Errorf ''parse error''"
definition ErrInvalidLength :: error where "ErrInvalidLength = Errorf ''invalid length''"
definition ErrInvalidOrder :: error where "ErrInvalidOrder = Errorf ''invalid order''"
definition ErrPrivateKeyZero :: error where "ErrPrivateKeyZero = Errorf ''ErrPrivateKeyZero''"
definition ErrInvalidSecretShare :: error where "ErrInvalidSecretShare = Errorf ''invalid secret share''"
definition ErrValidSecretShare :: error where "ErrValidSecretShare = Errorf ''valid secret share''"
definition ErrInvalidSignature :: error where "ErrInvalidSignature = Errorf ''invalid signature''"
definition ErrNotInOrder :: error where "ErrNotInOrder = Errorf ''not in order''"
definition ErrSigTooShort :: error where "ErrSigTooShort = Errorf ''ErrSigTooShort''"
definition ErrSigTooLong :: error where "ErrSigTooLong = Errorf ''ErrSigTooLong''"
definition ErrSigRTooBig :: error where "ErrSigRTooBig = Errorf ''ErrSigRTooBig''"
definition ErrSigSTooBig :: error where "ErrSigSTooBig = Errorf ''ErrSigSTooBig''"
definition ErrSigA1TooBig :: error where "ErrSigA1TooBig = Errorf ''ErrSigA1TooBig''"
definition ErrSigA2TooBig :: error where "ErrSigA2TooBig = Errorf ''ErrSigA2TooBig''"
definition ErrSigZTooBig :: error where "ErrSigZTooBig = Errorf ''ErrSigZTooBig''"
definition ErrRInfinity :: error where "ErrRInfinity = Errorf ''ErrRInfinity''"
definition ErrIncorrectR :: error where "ErrIncorrectR = Errorf ''ErrIncorrectR''"

definition enc_share_size_error :: error where "enc_share_size_error = Errorf ''EncSecretShare: invalid size''"
definition lagrange_duplicate_error :: error where "lagrange_duplicate_error = Errorf ''duplicate values in memberList''"
definition lagrange_missing_error :: error where "lagrange_missing_error = Errorf ''mid not found in memberList''"

text \<open>A loop that collects the results of a fallible function.\<close>

fun mapE :: "('a \<Rightarrow> 'b result) \<Rightarrow> 'a list \<Rightarrow> 'b list result" where
  "mapE f [] = Inr []"
| "mapE f (x # xs) = bindE (f x) (\<lambda>y. bindE (mapE f xs) (\<lambda>ys. Inr (y # ys)))"

section \<open>Scalars, points and signatures\<close>

type_synonym Scalar = bytes
type_synonym Point = bytes
type_synonym Signature = bytes
type_synonym ComplaintSignature = bytes
type_synonym EncSecretShare = bytes
type_synonym MemberID = uint64

definition NewMemberID :: "nat \<Rightarrow> MemberID result" where
  "NewMemberID v =
     (if v \<ge> 2 ^ 64 then Inl (Panic ''NewMemberID: conversion to uint64 failed'')
      else if v < 1 then Inl (Panic ''NewMemberID: the value must be greater than 0'') else Inr v)"

text \<open>\<open>ModNScalar.SetByteSlice\<close> reads at most 32 bytes, reduces modulo the order and reports an overflow.\<close>

definition modNScalar :: "Scalar \<Rightarrow> int" where
  "modNScalar s = int (be_value (take 32 s)) mod N"

definition Scalar_Validate :: "Scalar \<Rightarrow> unit result" where
  "Scalar_Validate s =
     (if length s \<noteq> 32 then Inl ErrInvalidLength
      else if modNScalar s = 0 \<or> int (be_value (take 32 s)) \<ge> N then Inl ErrInvalidOrder else Inr ())"

definition NewScalar :: "bytes \<Rightarrow> Scalar result" where
  "NewScalar b = bindE (Scalar_Validate b) (\<lambda>_. Inr b)"

definition NewScalarFromModNScalar :: "int \<Rightarrow> Scalar" where
  "NewScalarFromModNScalar x = be_bytes 32 (nat x)"

definition base_mult :: "'p curve \<Rightarrow> int \<Rightarrow> 'p" where
  "base_mult c k = cv_Mult c k (cv_G c)"

definition NewPointFromJacobianPoint :: "'p curve \<Rightarrow> 'p \<Rightarrow> Point" where
  "NewPointFromJacobianPoint c p = cv_SerializeCompressed c p"

definition Scalar_Point :: "'p curve \<Rightarrow> Scalar \<Rightarrow> Point" where
  "Scalar_Point c s = NewPointFromJacobianPoint c (base_mult c (modNScalar s))"

definition publicKey :: "'p curve \<Rightarrow> Point \<Rightarrow> 'p result" where
  "publicKey c p = (case cv_ParsePubKey c p of None \<Rightarrow> Inl ErrParseError | Some q \<Rightarrow> Inr q)"

definition jacobianPoint :: "'p curve \<Rightarrow> Point \<Rightarrow> 'p result" where
  "jacobianPoint c p = publicKey c p"

definition jacobianPoints :: "'p curve \<Rightarrow> Point list \<Rightarrow> 'p list result" where
  "jacobianPoints c ps = mapE (jacobianPoint c) ps"

definition Point_Validate :: "'p curve \<Rightarrow> Point \<Rightarrow> unit result" where
  "Point_Validate c p = bindE (publicKey c p) (\<lambda>_. Inr ())"

definition NewPoint :: "'p curve \<Rightarrow> bytes \<Rightarrow> Point result" where
  "NewPoint c b = bindE (Point_Validate c b) (\<lambda>_. Inr b)"

text \<open>\<open>big.Int.Bytes\<close>: big-endian without leading zeros.\<close>

fun big_Bytes :: "nat \<Rightarrow> bytes" where
  "big_Bytes n = (if n = 0 then [] else big_Bytes (n div 256) @ [of_nat n])"

declare big_Bytes.simps [simp del]

definition PaddingBytes :: "bytes \<Rightarrow> nat \<Rightarrow> bytes" where
  "PaddingBytes data len = (if length data \<ge> len then data else replicate (len - length data) 0 @ data)"

definition Hash :: "'p curve \<Rightarrow> bytes list \<Rightarrow> bytes" where
  "Hash c data = cv_Keccak256 c (concat data)"

definition Point_Address :: "'p curve \<Rightarrow> Point \<Rightarrow> bytes result" where
  "Point_Address c p =
     bindE (publicKey c p) (\<lambda>pubKey.
     Inr (drop 12 (Hash c [PaddingBytes (big_Bytes (cv_X c pubKey)) 32, PaddingBytes (big_Bytes (cv_Y c pubKey)) 32])))"

definition schnorr_Serialize :: "'p curve \<Rightarrow> 'p \<Rightarrow> int \<Rightarrow> Signature" where
  "schnorr_Serialize c r s = cv_SerializeCompressed c r @ be_bytes 32 (nat s)"

definition ParseSignature :: "'p curve \<Rightarrow> bytes \<Rightarrow> ('p \<times> int) result" where
  "ParseSignature c signature =
     (if length signature < 65 then Inl ErrSigTooShort
      else if length signature > 65 then Inl ErrSigTooLong
      else
        case cv_ParsePubKey c (take 33 signature) of
          None \<Rightarrow> Inl ErrSigRTooBig
        | Some r \<Rightarrow>
            let s = take 32 (drop 33 signature) in
            if int (be_value s) \<ge> N then Inl ErrSigSTooBig else Inr (r, modNScalar s))"

definition signature_of :: "'p curve \<Rightarrow> Signature \<Rightarrow> ('p \<times> int) result" where
  "signature_of c s = (case ParseSignature c s of Inl _ \<Rightarrow> Inl ErrParseError | Inr x \<Rightarrow> Inr x)"

definition Signature_Validate :: "'p curve \<Rightarrow> Signature \<Rightarrow> unit result" where
  "Signature_Validate c s = bindE (signature_of c s) (\<lambda>_. Inr ())"

definition NewSignatureFromComponents :: "'p curve \<Rightarrow> Point \<Rightarrow> Scalar \<Rightarrow> Signature result" where
  "NewSignatureFromComponents c rawR rawS =
     bindE (jacobianPoint c rawR) (\<lambda>r. Inr (schnorr_Serialize c r (modNScalar rawS)))"

definition Signature_R :: "Signature \<Rightarrow> Point" where
  "Signature_R s = (if length s < 33 then [] else take 33 s)"

definition Signature_S :: "Signature \<Rightarrow> Scalar" where
  "Signature_S s = (if length s < 65 then [] else take 32 (drop 33 s))"

definition complaint_Serialize :: "'p curve \<Rightarrow> 'p \<Rightarrow> 'p \<Rightarrow> int \<Rightarrow> ComplaintSignature" where
  "complaint_Serialize c a1 a2 z = cv_SerializeCompressed c a1 @ cv_SerializeCompressed c a2 @ be_bytes 32 (nat z)"

definition ParseComplaintSignature :: "'p curve \<Rightarrow> bytes \<Rightarrow> ('p \<times> 'p \<times> int) result" where
  "ParseComplaintSignature c signature =
     (if length signature < 98 then Inl ErrSigTooShort
      else if length signature > 98 then Inl ErrSigTooLong
      else
        case cv_ParsePubKey c (take 33 signature) of
          None \<Rightarrow> Inl ErrSigA1TooBig
        | Some a1 \<Rightarrow>
            (case cv_ParsePubKey c (take 33 (drop 33 signature)) of
              None \<Rightarrow> Inl ErrSigA2TooBig
            | Some a2 \<Rightarrow>
                let z = take 32 (drop 66 signature) in
                if int (be_value z) \<ge> N then Inl ErrSigZTooBig else Inr (a1, a2, modNScalar z)))"

definition ComplaintSignature_Validate :: "'p curve \<Rightarrow> ComplaintSignature \<Rightarrow> unit result" where
  "ComplaintSignature_Validate c s =
     (case ParseComplaintSignature c s of Inl _ \<Rightarrow> Inl ErrParseError | Inr _ \<Rightarrow> Inr ())"

definition NewComplaintSignatureFromComponents :: "'p curve \<Rightarrow> Point \<Rightarrow> Point \<Rightarrow> Scalar \<Rightarrow> ComplaintSignature result" where
  "NewComplaintSignatureFromComponents c rawA1 rawA2 rawZ =
     bindE (jacobianPoint c rawA1) (\<lambda>a1. bindE (jacobianPoint c rawA2) (\<lambda>a2.
     Inr (complaint_Serialize c a1 a2 (modNScalar rawZ))))"

definition ComplaintSignature_A1 :: "ComplaintSignature \<Rightarrow> Point" where
  "ComplaintSignature_A1 s = (if length s < 33 then [] else take 33 s)"

definition ComplaintSignature_A2 :: "ComplaintSignature \<Rightarrow> Point" where
  "ComplaintSignature_A2 s = (if length s < 66 then [] else take 33 (drop 33 s))"

definition ComplaintSignature_Z :: "ComplaintSignature \<Rightarrow> Scalar" where
  "ComplaintSignature_Z s = (if length s < 98 then [] else take 32 (drop 66 s))"

definition EncSecretShare_Validate :: "EncSecretShare \<Rightarrow> unit result" where
  "EncSecretShare_Validate e = (if length e \<noteq> 48 then Inl enc_share_size_error else Inr ())"

definition NewEncSecretShare :: "bytes \<Rightarrow> bytes \<Rightarrow> EncSecretShare result" where
  "NewEncSecretShare val nonce = bindE (EncSecretShare_Validate (val @ nonce)) (\<lambda>_. Inr (val @ nonce))"

definition EncSecretShare_Value :: "EncSecretShare \<Rightarrow> bytes" where
  "EncSecretShare_Value e = take 32 e"

definition EncSecretShare_Nonce :: "EncSecretShare \<Rightarrow> bytes" where
  "EncSecretShare_Nonce e = take 16 (drop 32 e)"

section \<open>Hashes\<close>

definition ContextString :: bytes where
  "ContextString = str ''BAND-TSS-secp256k1-v0''"

definition hash_scalar :: "'p curve \<Rightarrow> bytes list \<Rightarrow> Scalar result" where
  "hash_scalar c data = (case NewScalar (Hash c data) of Inl _ \<Rightarrow> Inl ErrNotInOrder | Inr s \<Rightarrow> Inr s)"

definition HashRound1A0 :: "'p curve \<Rightarrow> Point \<Rightarrow> MemberID \<Rightarrow> bytes \<Rightarrow> Point \<Rightarrow> Scalar result" where
  "HashRound1A0 c pubNonce mid dkgContext a0Pub =
     hash_scalar c [ContextString, str ''round1A0'', pubNonce, be_bytes 8 mid, dkgContext, a0Pub]"

definition HashRound1OneTime :: "'p curve \<Rightarrow> Point \<Rightarrow> MemberID \<Rightarrow> bytes \<Rightarrow> Point \<Rightarrow> Scalar result" where
  "HashRound1OneTime c pubNonce mid dkgContext oneTimePub =
     hash_scalar c [ContextString, str ''round1OneTime'', pubNonce, be_bytes 8 mid, dkgContext, oneTimePub]"

definition HashRound3Complain :: "'p curve \<Rightarrow> Point \<Rightarrow> Point \<Rightarrow> Point \<Rightarrow> Point \<Rightarrow> Point \<Rightarrow> Scalar result" where
  "HashRound3Complain c pubNonce nonceSym oneTimePubI oneTimePubJ keySym =
     hash_scalar c [ContextString, str ''round3Complain'', pubNonce, nonceSym, oneTimePubI, oneTimePubJ, keySym]"

definition HashRound3OwnPubKey :: "'p curve \<Rightarrow> Point \<Rightarrow> MemberID \<Rightarrow> bytes \<Rightarrow> Point \<Rightarrow> Scalar result" where
  "HashRound3OwnPubKey c pubNonce mid dkgContext ownPub =
     hash_scalar c [ContextString, str ''round3OwnPubKey'', pubNonce, be_bytes 8 mid, dkgContext, ownPub]"

definition HashSignMsg :: "'p curve \<Rightarrow> bytes \<Rightarrow> bytes" where
  "HashSignMsg c data = Hash c [ContextString, str ''signMsg'', data]"

definition HashSignCommitment :: "'p curve \<Rightarrow> bytes \<Rightarrow> bytes" where
  "HashSignCommitment c data = Hash c [ContextString, str ''signCommitment'', data]"

definition HashBindingFactor :: "'p curve \<Rightarrow> MemberID \<Rightarrow> bytes \<Rightarrow> bytes \<Rightarrow> Scalar result" where
  "HashBindingFactor c mid data commitment =
     hash_scalar c [ContextString, str ''bindingFactor'', be_bytes 8 mid, HashSignMsg c data, HashSignCommitment c commitment]"

definition HashChallenge :: "'p curve \<Rightarrow> Point \<Rightarrow> Point \<Rightarrow> bytes \<Rightarrow> Scalar result" where
  "HashChallenge c rawGroupPubNonce rawGroupPubKey data =
     bindE (Point_Address c rawGroupPubNonce) (\<lambda>rAddress.
     bindE (publicKey c rawGroupPubKey) (\<lambda>groupPubKey.
     bindE (index rawGroupPubKey 0) (\<lambda>tag.
     hash_scalar c [ContextString, [0], str ''challenge'', [0], rAddress, [tag + 25],
       PaddingBytes (big_Bytes (cv_X c groupPubKey)) 32, Hash c [data]])))"

definition HashNonce :: "'p curve \<Rightarrow> bytes \<Rightarrow> Scalar \<Rightarrow> Scalar result" where
  "HashNonce c random secretKey = hash_scalar c [ContextString, str ''nonce'', random, secretKey]"

section \<open>Operations on scalars and points\<close>

definition solveScalarPolynomial :: "int list \<Rightarrow> int \<Rightarrow> int" where
  "solveScalarPolynomial coefficients x = foldl (\<lambda>result a. (result * x mod N + a) mod N) 0 (rev coefficients)"

definition solvePointPolynomial :: "'p curve \<Rightarrow> 'p list \<Rightarrow> int \<Rightarrow> 'p" where
  "solvePointPolynomial c coefficients x =
     foldl (\<lambda>result a. cv_Add c a (cv_Mult c x result)) (cv_infinity c) (rev coefficients)"

definition sumPoints :: "'p curve \<Rightarrow> 'p list \<Rightarrow> 'p" where
  "sumPoints c points = foldl (cv_Add c) (cv_infinity c) points"

definition sumScalars :: "int list \<Rightarrow> int" where
  "sumScalars scalars = foldl (\<lambda>t s. (t + s) mod N) 0 scalars"

definition ComputeSecretSym :: "'p curve \<Rightarrow> Scalar \<Rightarrow> Point \<Rightarrow> Point result" where
  "ComputeSecretSym c rawSecretKey rawPubKeyJ =
     bindE (jacobianPoint c rawPubKeyJ) (\<lambda>pubKeyJ.
     Inr (NewPointFromJacobianPoint c (cv_Mult c (modNScalar rawSecretKey) pubKeyJ)))"

definition SumScalars :: "Scalar list \<Rightarrow> Scalar" where
  "SumScalars rawScalars = NewScalarFromModNScalar (sumScalars (map modNScalar rawScalars))"

definition SolveScalarPolynomial :: "Scalar list \<Rightarrow> Scalar \<Rightarrow> Scalar" where
  "SolveScalarPolynomial rawCoefficients rawX =
     NewScalarFromModNScalar (solveScalarPolynomial (map modNScalar rawCoefficients) (modNScalar rawX))"

definition SumPoints :: "'p curve \<Rightarrow> Point list \<Rightarrow> Point result" where
  "SumPoints c rawPoints =
     bindE (jacobianPoints c rawPoints) (\<lambda>points. Inr (NewPointFromJacobianPoint c (sumPoints c points)))"

definition SolvePointPolynomial :: "'p curve \<Rightarrow> Point list \<Rightarrow> Scalar \<Rightarrow> Point result" where
  "SolvePointPolynomial c rawCoefficientCommits rawX =
     bindE (jacobianPoints c rawCoefficientCommits) (\<lambda>coefficientCommits.
     Inr (NewPointFromJacobianPoint c (solvePointPolynomial c coefficientCommits (modNScalar rawX))))"

section \<open>Schnorr signatures\<close>

definition ComputeSignatureS :: "int \<Rightarrow> int \<Rightarrow> int \<Rightarrow> int result" where
  "ComputeSignatureS privKey nonce challenge =
     (if privKey = 0 then Inl ErrPrivateKeyZero else Inr ((challenge * privKey mod N + nonce) mod N))"

text \<open>The first check of the code, that the public key is on the curve, holds for every value of the type.\<close>

definition schnorr_Verify :: "'p curve \<Rightarrow> 'p \<Rightarrow> int \<Rightarrow> int \<Rightarrow> 'p \<Rightarrow> 'p option \<Rightarrow> unit result" where
  "schnorr_Verify c expectR signatureS challenge pubKey generator =
     (let sG = (case generator of None \<Rightarrow> base_mult c signatureS | Some g \<Rightarrow> cv_Mult c signatureS g);
          negcQ = cv_Mult c (- challenge mod N) pubKey;
          R = cv_Add c sG negcQ in
      if R = cv_infinity c then Inl ErrRInfinity else if expectR \<noteq> R then Inl ErrIncorrectR else Inr ())"

definition scale_challenge :: "Scalar \<Rightarrow> Scalar option \<Rightarrow> int" where
  "scale_challenge rawChallenge rawLagrange =
     (case rawLagrange of None \<Rightarrow> modNScalar rawChallenge | Some l \<Rightarrow> modNScalar rawChallenge * modNScalar l mod N)"

definition Sign :: "'p curve \<Rightarrow> Scalar \<Rightarrow> Scalar \<Rightarrow> Scalar \<Rightarrow> Scalar option \<Rightarrow> Signature result" where
  "Sign c rawPrivKey rawChallenge rawNonce rawLagrange =
     (let privKey = modNScalar rawPrivKey; nonce = modNScalar rawNonce; signatureR = base_mult c nonce;
          challenge = scale_challenge rawChallenge rawLagrange in
      bindE (ComputeSignatureS privKey nonce challenge) (\<lambda>signatureS. Inr (schnorr_Serialize c signatureR signatureS)))"

definition Verify ::
  "'p curve \<Rightarrow> Point \<Rightarrow> Scalar \<Rightarrow> Scalar \<Rightarrow> Point \<Rightarrow> Point option \<Rightarrow> Scalar option \<Rightarrow> unit result" where
  "Verify c rawSignatureR rawSignatureS rawChallenge rawPubKey rawGenerator rawLagrange =
     bindE (jacobianPoint c rawSignatureR) (\<lambda>signatureR.
     bindE (publicKey c rawPubKey) (\<lambda>pubKey.
     bindE (case rawGenerator of None \<Rightarrow> Inr None | Some g \<Rightarrow> bindE (jacobianPoint c g) (\<lambda>x. Inr (Some x))) (\<lambda>generator.
     case schnorr_Verify c signatureR (modNScalar rawSignatureS) (scale_challenge rawChallenge rawLagrange) pubKey generator of
       Inl _ \<Rightarrow> Inl ErrInvalidSignature | Inr _ \<Rightarrow> Inr ())))"

end
