(* ===== verification/Tss_Rounds.thy ===== *)
theory Tss_Rounds
  imports Tss_Crypto
begin

text \<open>
  The protocol part of \<open>pkg/tss\<close>: key pairs and nonces (\<open>helpers.go\<close>), the encryption of secret shares (\<open>elgamal.go\<close>), the three
  rounds of distributed key generation (\<open>round1.go\<close>, \<open>round2.go\<close>, \<open>round3.go\<close>) and signing (\<open>signing.go\<close>).
\<close>

section \<open>Randomness\<close>

text \<open>
  \<open>draws\<close> are the results of the reads from \<open>crypto/rand\<close>, in order. A function that draws returns the rest of them.
\<close>

fun RandomScalar :: "bytes result list \<Rightarrow> (Scalar \<times> bytes result list) result option" where
  "RandomScalar [] = None"
| "RandomScalar (Inl e # draws) = Some (Inl e)"
| "RandomScalar (Inr random # draws) =
     (case NewScalar random of Inl _ \<Rightarrow> RandomScalar draws | Inr nonce \<Rightarrow> Some (Inr (nonce, draws)))"

definition GenerateDKGNonce :: "'p curve \<Rightarrow> bytes result list \<Rightarrow> (Scalar \<times> Point \<times> bytes result list) result option" where
  "GenerateDKGNonce c draws =
     (case RandomScalar draws of
        None \<Rightarrow> None
      | Some (Inl e) \<Rightarrow> Some (Inl e)
      | Some (Inr (scalar, draws)) \<Rightarrow>
          let nonce = modNScalar scalar in
          Some (Inr (NewScalarFromModNScalar nonce, NewPointFromJacobianPoint c (base_mult c nonce), draws)))"

fun GenerateSigningNonce :: "'p curve \<Rightarrow> Scalar \<Rightarrow> bytes result list \<Rightarrow> (Scalar \<times> bytes result list) result option" where
  "GenerateSigningNonce c secret [] = None"
| "GenerateSigningNonce c secret (Inl e # draws) = Some (Inl e)"
| "GenerateSigningNonce c secret (Inr random # draws) =
     (case HashNonce c random secret of Inl _ \<Rightarrow> GenerateSigningNonce c secret draws | Inr nonce \<Rightarrow> Some (Inr (nonce, draws)))"

record KeyPair =
  kp_PrivKey :: Scalar
  kp_PubKey :: Point

text \<open>\<open>keys i\<close> is what the \<open>i\<close>-th call of \<open>secp256k1.GeneratePrivateKey\<close> returns.\<close>

definition GenerateKeyPair :: "'p curve \<Rightarrow> int result \<Rightarrow> KeyPair result" where
  "GenerateKeyPair c key =
     bindE key (\<lambda>k. Inr \<lparr>kp_PrivKey = NewScalarFromModNScalar k, kp_PubKey = cv_SerializeCompressed c (base_mult c k)\<rparr>)"

definition GenerateKeyPairs :: "'p curve \<Rightarrow> uint64 \<Rightarrow> (nat \<Rightarrow> int result) \<Rightarrow> KeyPair list result" where
  "GenerateKeyPairs c n keys = mapE (\<lambda>i. GenerateKeyPair c (keys i)) [0..<n]"

section \<open>Encryption of shares\<close>

definition xor_bytes :: "bytes \<Rightarrow> bytes \<Rightarrow> bytes" where
  "xor_bytes a b = map2 (\<lambda>x y. Bit_Operations.xor x y) a b"

definition EncryptHKDF :: "'p curve \<Rightarrow> bytes \<Rightarrow> bytes \<Rightarrow> bytes \<Rightarrow> bytes result" where
  "EncryptHKDF c shareBytes aesKey nonceBytes =
     (if length shareBytes \<noteq> 32 then Inl (Errorf ''EncryptHKDF: share must be bytes32'')
      else if length aesKey \<noteq> 32 then Inl (Errorf ''EncryptHKDF: aesKey must be bytes32'')
      else if length nonceBytes \<noteq> 16 then Inl (Errorf ''EncryptHKDF: nonce must be bytes16'')
      else Inr (xor_bytes shareBytes (cv_ctr_stream c (cv_hkdf_key c aesKey) nonceBytes 32)))"

definition DecryptHKDF :: "'p curve \<Rightarrow> EncSecretShare \<Rightarrow> bytes \<Rightarrow> bytes result" where
  "DecryptHKDF c e aesKey =
     bindE (EncSecretShare_Validate e) (\<lambda>_.
     if length aesKey \<noteq> 32 then Inl (Errorf ''DecryptHKDF: aesKey must be bytes32'')
     else Inr (xor_bytes (EncSecretShare_Value e) (cv_ctr_stream c (cv_hkdf_key c aesKey) (EncSecretShare_Nonce e) 32)))"

definition Encrypt :: "'p curve \<Rightarrow> Scalar \<Rightarrow> Point \<Rightarrow> bytes result \<Rightarrow> EncSecretShare result" where
  "Encrypt c val key n16 =
     bindE n16 (\<lambda>nonceBytes.
     bindE (EncryptHKDF c (PaddingBytes val 32) (Hash c [key]) nonceBytes) (\<lambda>encValue.
     NewEncSecretShare encValue nonceBytes))"

definition Decrypt :: "'p curve \<Rightarrow> EncSecretShare \<Rightarrow> Point \<Rightarrow> Scalar result" where
  "Decrypt c e key = DecryptHKDF c e (Hash c [key])"

section \<open>Round 1\<close>

text \<open>
  The loop shared by the signing functions of the rounds: draw a nonce until its challenge hashes to a scalar.
\<close>

lemma RandomScalar_length: "RandomScalar draws = Some (Inr (s, rest)) \<Longrightarrow> length rest < length draws"
  by (induction draws rule: RandomScalar.induct) (auto split: sum.splits)

lemma GenerateDKGNonce_length: "GenerateDKGNonce c draws = Some (Inr (n, p, rest)) \<Longrightarrow> length rest < length draws"
  using RandomScalar_length by (auto simp: GenerateDKGNonce_def Let_def split: option.splits sum.splits)

function nonce_loop ::
  "'p curve \<Rightarrow> (Point \<Rightarrow> Scalar result) \<Rightarrow> bytes result list \<Rightarrow> (Scalar \<times> Scalar \<times> bytes result list) result option" where
  "nonce_loop c hash draws =
     (case GenerateDKGNonce c draws of
        None \<Rightarrow> None
      | Some (Inl e) \<Rightarrow> Some (Inl e)
      | Some (Inr (nonce, pubNonce, rest)) \<Rightarrow>
          (case hash pubNonce of Inl _ \<Rightarrow> nonce_loop c hash rest | Inr challenge \<Rightarrow> Some (Inr (nonce, challenge, rest))))"
  by pat_completeness auto

termination
  by (relation "measure (\<lambda>(c, hash, draws). length draws)") (auto intro: GenerateDKGNonce_length)

declare nonce_loop.simps [simp del]

definition sign_with_nonce ::
  "'p curve \<Rightarrow> Scalar \<Rightarrow> (Scalar \<times> Scalar \<times> bytes result list) result option \<Rightarrow> (Signature \<times> bytes result list) result option" where
  "sign_with_nonce c priv loop =
     (case loop of
        None \<Rightarrow> None
      | Some (Inl e) \<Rightarrow> Some (Inl e)
      | Some (Inr (nonce, challenge, rest)) \<Rightarrow> Some (bindE (Sign c priv challenge nonce None) (\<lambda>s. Inr (s, rest))))"

definition SignA0 where
  "SignA0 c mid dkgContext a0Pub a0Priv draws =
     sign_with_nonce c a0Priv (nonce_loop c (\<lambda>pubNonce. HashRound1A0 c pubNonce mid dkgContext a0Pub) draws)"

definition SignOneTime where
  "SignOneTime c mid dkgContext oneTimePub onetimePriv draws =
     sign_with_nonce c onetimePriv (nonce_loop c (\<lambda>pubNonce. HashRound1OneTime c pubNonce mid dkgContext oneTimePub) draws)"

definition VerifyA0Signature :: "'p curve \<Rightarrow> MemberID \<Rightarrow> bytes \<Rightarrow> Signature \<Rightarrow> Point \<Rightarrow> unit result" where
  "VerifyA0Signature c mid dkgContext signature a0Pub =
     bindE (HashRound1A0 c (Signature_R signature) mid dkgContext a0Pub) (\<lambda>challenge.
     Verify c (Signature_R signature) (Signature_S signature) challenge a0Pub None None)"

definition VerifyOneTimeSignature :: "'p curve \<Rightarrow> MemberID \<Rightarrow> bytes \<Rightarrow> Signature \<Rightarrow> Point \<Rightarrow> unit result" where
  "VerifyOneTimeSignature c mid dkgContext signature oneTimePub =
     bindE (HashRound1OneTime c (Signature_R signature) mid dkgContext oneTimePub) (\<lambda>challenge.
     Verify c (Signature_R signature) (Signature_S signature) challenge oneTimePub None None)"

record Round1Info =
  r1_OneTimePrivKey :: Scalar
  r1_OneTimePubKey :: Point
  r1_OneTimeSignature :: Signature
  r1_A0PrivKey :: Scalar
  r1_A0PubKey :: Point
  r1_A0Signature :: Signature
  r1_Coefficients :: "Scalar list"
  r1_CoefficientCommits :: "Point list"

text \<open>The index \<open>kps[1]\<close> panics when the threshold is zero.\<close>

definition GenerateRound1Info ::
  "'p curve \<Rightarrow> MemberID \<Rightarrow> uint64 \<Rightarrow> bytes \<Rightarrow> (nat \<Rightarrow> int result) \<Rightarrow> bytes result list \<Rightarrow> Round1Info result option" where
  "GenerateRound1Info c mid threshold dkgContext keys draws =
     (case GenerateKeyPairs c (u64 (threshold + 1)) keys of
        Inl e \<Rightarrow> Some (Inl e)
      | Inr kps \<Rightarrow>
          (case index kps 0 of
             Inl e \<Rightarrow> Some (Inl e)
           | Inr one \<Rightarrow>
               (case SignOneTime c mid dkgContext (kp_PubKey one) (kp_PrivKey one) draws of
                  None \<Rightarrow> None
                | Some (Inl e) \<Rightarrow> Some (Inl e)
                | Some (Inr (oneTimeSignature, draws)) \<Rightarrow>
                    (case index kps 1 of
                       Inl e \<Rightarrow> Some (Inl e)
                     | Inr a0 \<Rightarrow>
                         (case SignA0 c mid dkgContext (kp_PubKey a0) (kp_PrivKey a0) draws of
                            None \<Rightarrow> None
                          | Some (Inl e) \<Rightarrow> Some (Inl e)
                          | Some (Inr (a0Signature, draws)) \<Rightarrow>
                              Some (Inr \<lparr>r1_OneTimePrivKey = kp_PrivKey one, r1_OneTimePubKey = kp_PubKey one,
                                r1_OneTimeSignature = oneTimeSignature, r1_A0PrivKey = kp_PrivKey a0,
                                r1_A0PubKey = kp_PubKey a0, r1_A0Signature = a0Signature,
                                r1_Coefficients = map kp_PrivKey (tl kps), r1_CoefficientCommits = map kp_PubKey (tl kps)\<rparr>))))))"

section \<open>Round 2\<close>

text \<open>\<open>SetInt(uint32(mid))\<close> keeps the lowest 32 bits of the member id.\<close>

definition mid_scalar :: "MemberID \<Rightarrow> int" where
  "mid_scalar mid = int (mid mod 2 ^ 32) mod N"

definition ComputeSecretShare :: "Scalar list \<Rightarrow> MemberID \<Rightarrow> Scalar result" where
  "ComputeSecretShare rawCoeffcients mid =
     Inr (NewScalarFromModNScalar (solveScalarPolynomial (map modNScalar rawCoeffcients) (mid_scalar mid)))"

text \<open>\<open>n16g i\<close> is what the \<open>i\<close>-th call of the generator of 16-byte nonces returns.\<close>

definition EncryptSecretShares ::
  "'p curve \<Rightarrow> Scalar list \<Rightarrow> Point list \<Rightarrow> (nat \<Rightarrow> bytes result) \<Rightarrow> EncSecretShare list result" where
  "EncryptSecretShares c secretShares keySyms n16g =
     (if length secretShares \<noteq> length keySyms then Inl ErrInvalidLength
      else mapE (\<lambda>i. Encrypt c (secretShares ! i) (keySyms ! i) (n16g i)) [0..<length secretShares])"

definition other_members :: "nat \<Rightarrow> MemberID \<Rightarrow> MemberID list" where
  "other_members n mid = filter (\<lambda>i. i \<noteq> mid) [1..<n + 1]"

definition ComputeEncryptedSecretShares ::
  "'p curve \<Rightarrow> MemberID \<Rightarrow> Scalar \<Rightarrow> Point list \<Rightarrow> Scalar list \<Rightarrow> (nat \<Rightarrow> bytes result) \<Rightarrow> EncSecretShare list result" where
  "ComputeEncryptedSecretShares c mid rawPrivKey rawPubKeys rawCoeffcients n16g =
     bindE (mapE (\<lambda>i. ComputeSecretSym c rawPrivKey (rawPubKeys ! (i - 1))) (other_members (length rawPubKeys) mid)) (\<lambda>keySyms.
     bindE (mapE (\<lambda>i. ComputeSecretShare rawCoeffcients i) (other_members (length rawPubKeys) mid)) (\<lambda>secretShares.
     EncryptSecretShares c secretShares keySyms n16g))"

section \<open>Round 3\<close>

definition ComputeOwnPublicKey :: "'p curve \<Rightarrow> Point list \<Rightarrow> MemberID \<Rightarrow> Point result" where
  "ComputeOwnPublicKey c rawSumCommits mid =
     bindE (jacobianPoints c rawSumCommits) (\<lambda>sumCommits.
     Inr (NewPointFromJacobianPoint c (solvePointPolynomial c sumCommits (mid_scalar mid))))"

definition ComputeGroupPublicKey :: "'p curve \<Rightarrow> Point list \<Rightarrow> Point result" where
  "ComputeGroupPublicKey c rawA0Commits =
     bindE (jacobianPoints c rawA0Commits) (\<lambda>a0Commits. Inr (NewPointFromJacobianPoint c (sumPoints c a0Commits)))"

definition ComputeOwnPrivateKey :: "Scalar list \<Rightarrow> Scalar result" where
  "ComputeOwnPrivateKey rawSecretShares = Inr (NewScalarFromModNScalar (sumScalars (map modNScalar rawSecretShares)))"

definition ComputeSecretShareCommit :: "'p curve \<Rightarrow> Point list \<Rightarrow> MemberID \<Rightarrow> Point result" where
  "ComputeSecretShareCommit c rawCommits mid =
     bindE (jacobianPoints c rawCommits) (\<lambda>commits.
     Inr (NewPointFromJacobianPoint c (solvePointPolynomial c commits (mid_scalar mid))))"

definition VerifySecretShare :: "'p curve \<Rightarrow> MemberID \<Rightarrow> Scalar \<Rightarrow> Point list \<Rightarrow> unit result" where
  "VerifySecretShare c mid rawSecretShare rawCommits =
     (let yG = base_mult c (modNScalar rawSecretShare) in
      bindE (ComputeSecretShareCommit c rawCommits mid) (\<lambda>ssc.
      if ssc \<noteq> NewPointFromJacobianPoint c yG then Inl ErrInvalidSecretShare else Inr ()))"

definition DecryptSecretShare :: "'p curve \<Rightarrow> EncSecretShare \<Rightarrow> Point \<Rightarrow> Scalar result" where
  "DecryptSecretShare c encSecretShare keySym = Decrypt c encSecretShare keySym"

definition DecryptSecretShares :: "'p curve \<Rightarrow> EncSecretShare list \<Rightarrow> Point list \<Rightarrow> Scalar list result" where
  "DecryptSecretShares c encSecretShares keySyms =
     (if length encSecretShares \<noteq> length keySyms then Inl ErrInvalidLength
      else mapE (\<lambda>i. DecryptSecretShare c (encSecretShares ! i) (keySyms ! i)) [0..<length encSecretShares])"

definition SignOwnPubKey where
  "SignOwnPubKey c mid dkgContext ownPub ownPriv draws =
     sign_with_nonce c ownPriv (nonce_loop c (\<lambda>pubNonce. HashRound3OwnPubKey c pubNonce mid dkgContext ownPub) draws)"

definition VerifyOwnPubKeySignature :: "'p curve \<Rightarrow> MemberID \<Rightarrow> bytes \<Rightarrow> Signature \<Rightarrow> Point \<Rightarrow> unit result" where
  "VerifyOwnPubKeySignature c mid dkgContext signature ownPub =
     bindE (HashRound3OwnPubKey c (Signature_R signature) mid dkgContext ownPub) (\<lambda>challenge.
     Verify c (Signature_R signature) (Signature_S signature) challenge ownPub None None)"

function complaint_loop ::
  "'p curve \<Rightarrow> Point \<Rightarrow> Point \<Rightarrow> Point \<Rightarrow> bytes result list \<Rightarrow> (Scalar \<times> Scalar \<times> Point \<times> bytes result list) result option" where
  "complaint_loop c oneTimePubI oneTimePubJ keySym draws =
     (case GenerateDKGNonce c draws of
        None \<Rightarrow> None
      | Some (Inl e) \<Rightarrow> Some (Inl e)
      | Some (Inr (nonce, pubNonce, rest)) \<Rightarrow>
          (case ComputeSecretSym c nonce oneTimePubJ of
             Inl e \<Rightarrow> Some (Inl e)
           | Inr nonceSym \<Rightarrow>
               (case HashRound3Complain c pubNonce nonceSym oneTimePubI oneTimePubJ keySym of
                  Inl _ \<Rightarrow> complaint_loop c oneTimePubI oneTimePubJ keySym rest
                | Inr challenge \<Rightarrow> Some (Inr (nonce, challenge, nonceSym, rest)))))"
  by pat_completeness auto

termination
  by (relation "measure (\<lambda>(c, i, j, k, draws). length draws)") (auto intro: GenerateDKGNonce_length)

declare complaint_loop.simps [simp del]

definition SignComplaint ::
  "'p curve \<Rightarrow> Point \<Rightarrow> Point \<Rightarrow> Scalar \<Rightarrow> bytes result list \<Rightarrow> (ComplaintSignature \<times> Point) result option" where
  "SignComplaint c oneTimePubI oneTimePubJ oneTimePrivI draws =
     (case ComputeSecretSym c oneTimePrivI oneTimePubJ of
        Inl e \<Rightarrow> Some (Inl e)
      | Inr keySym \<Rightarrow>
          (case complaint_loop c oneTimePubI oneTimePubJ keySym draws of
             None \<Rightarrow> None
           | Some (Inl e) \<Rightarrow> Some (Inl e)
           | Some (Inr (nonce, challenge, nonceSym, rest)) \<Rightarrow>
               Some (bindE (Sign c oneTimePrivI challenge nonce None) (\<lambda>signature.
                 bindE (NewComplaintSignatureFromComponents c (Signature_R signature) nonceSym (Signature_S signature))
                   (\<lambda>complaintSignature. Inr (complaintSignature, keySym))))))"

definition VerifyComplaintSignature :: "'p curve \<Rightarrow> Point \<Rightarrow> Point \<Rightarrow> Point \<Rightarrow> ComplaintSignature \<Rightarrow> unit result" where
  "VerifyComplaintSignature c oneTimePubI oneTimePubJ keySym cs =
     bindE (HashRound3Complain c (ComplaintSignature_A1 cs) (ComplaintSignature_A2 cs) oneTimePubI oneTimePubJ keySym) (\<lambda>challenge.
     bindE (Verify c (ComplaintSignature_A1 cs) (ComplaintSignature_Z cs) challenge oneTimePubI None None) (\<lambda>_.
     Verify c (ComplaintSignature_A2 cs) (ComplaintSignature_Z cs) challenge keySym (Some oneTimePubJ) None))"

definition VerifyComplaint ::
  "'p curve \<Rightarrow> Point \<Rightarrow> Point \<Rightarrow> Point \<Rightarrow> ComplaintSignature \<Rightarrow> EncSecretShare \<Rightarrow> MemberID \<Rightarrow> Point list \<Rightarrow> unit result" where
  "VerifyComplaint c oneTimePubI oneTimePubJ keySym complaintSignature encSecretShare midI commits =
     bindE (VerifyComplaintSignature c oneTimePubI oneTimePubJ keySym complaintSignature) (\<lambda>_.
     bindE (DecryptSecretShare c encSecretShare keySym) (\<lambda>secretShare.
     case VerifySecretShare c midI secretShare commits of Inr _ \<Rightarrow> Inl ErrValidSecretShare | Inl _ \<Rightarrow> Inr ()))"

section \<open>Signing\<close>

text \<open>The loop carries the ids seen so far, whether the id was found and whether the optimised routine applies.\<close>

definition lagrange_step :: "MemberID \<Rightarrow> MemberID list \<times> bool \<times> bool \<Rightarrow> MemberID \<Rightarrow> (MemberID list \<times> bool \<times> bool) result" where
  "lagrange_step mid st i =
     (let (seen, isInList, optimizedable) = st;
          optimizedable = (if i > 20 then False else optimizedable);
          isInList = (if i = mid then True else isInList) in
      if i \<in> set seen then Inl lagrange_duplicate_error else Inr (i # seen, isInList, optimizedable))"

definition checkLagrangeInput :: "MemberID \<Rightarrow> MemberID list \<Rightarrow> bool result" where
  "checkLagrangeInput mid memberList =
     bindE (foldE (lagrange_step mid) ([], False, True) memberList) (\<lambda>(seen, isInList, optimizedable).
     if \<not> isInList then Inl lagrange_missing_error else Inr optimizedable)"

definition computeLagrangeCoefficientOp :: "MemberID \<Rightarrow> MemberID list \<Rightarrow> Scalar result" where
  "computeLagrangeCoefficientOp mid memberList =
     bindE (ComputeCoefficientPreCompute (i64 (int mid)) (map (\<lambda>m. i64 (int m)) memberList)) (\<lambda>coeff.
     Inr (NewScalarFromModNScalar (modNScalar (big_Bytes (nat \<bar>coeff\<bar>)))))"

definition ComputeLagrangeCoefficient :: "MemberID \<Rightarrow> MemberID list \<Rightarrow> Scalar result" where
  "ComputeLagrangeCoefficient mid memberList =
     bindE (checkLagrangeInput mid memberList) (\<lambda>op.
     if op then computeLagrangeCoefficientOp mid memberList
     else
       bindE (ComputeCoefficient (i64 (int mid)) (map (\<lambda>m. i64 (int m)) memberList)) (\<lambda>coeff.
       Inr (NewScalarFromModNScalar (modNScalar (big_Bytes (nat \<bar>coeff\<bar>))))))"

text \<open>The variable \<open>prevMid\<close> of the code is never assigned in the loop, so that the check compares every id with zero.\<close>

definition commitment_step :: "MemberID \<Rightarrow> MemberID list \<Rightarrow> Point list \<Rightarrow> Point list \<Rightarrow> bytes \<Rightarrow> nat \<Rightarrow> bytes result" where
  "commitment_step prevMid mids pubDs pubEs commitment i =
     (if prevMid \<ge> mids ! i then Inl ErrInvalidOrder
      else Inr (commitment @ be_bytes 8 (mids ! i) @ pubDs ! i @ pubEs ! i))"

definition ComputeCommitment :: "MemberID list \<Rightarrow> Point list \<Rightarrow> Point list \<Rightarrow> bytes result" where
  "ComputeCommitment mids pubDs pubEs =
     (if length mids \<noteq> length pubDs then Inl ErrInvalidLength
      else if length mids \<noteq> length pubEs then Inl ErrInvalidLength
      else foldE (commitment_step 0 mids pubDs pubEs) [] [0..<length mids])"

definition ComputeOwnBindingFactor :: "'p curve \<Rightarrow> MemberID \<Rightarrow> bytes \<Rightarrow> bytes \<Rightarrow> Scalar result" where
  "ComputeOwnBindingFactor c mid data commitment = HashBindingFactor c mid data commitment"

definition ComputeOwnPubNonce :: "'p curve \<Rightarrow> Point \<Rightarrow> Point \<Rightarrow> Scalar \<Rightarrow> Point result" where
  "ComputeOwnPubNonce c rawPubD rawPubE rawBindingFactor =
     bindE (jacobianPoint c rawPubD) (\<lambda>pubD. bindE (jacobianPoint c rawPubE) (\<lambda>pubE.
     Inr (NewPointFromJacobianPoint c (cv_Add c pubD (cv_Mult c (modNScalar rawBindingFactor) pubE)))))"

definition ComputeOwnPrivNonce :: "Scalar \<Rightarrow> Scalar \<Rightarrow> Scalar \<Rightarrow> Scalar result" where
  "ComputeOwnPrivNonce rawPrivD rawPrivE rawBindingFactor =
     Inr (NewScalarFromModNScalar ((modNScalar rawPrivD + modNScalar rawBindingFactor * modNScalar rawPrivE mod N) mod N))"

definition ComputeGroupPublicNonce :: "'p curve \<Rightarrow> Point list \<Rightarrow> Point result" where
  "ComputeGroupPublicNonce c rawOwnPubNonces =
     bindE (jacobianPoints c rawOwnPubNonces) (\<lambda>pubNonces. Inr (NewPointFromJacobianPoint c (sumPoints c pubNonces)))"

definition CombineSignatures :: "'p curve \<Rightarrow> Signature list \<Rightarrow> Signature result" where
  "CombineSignatures c rawSignatures =
     bindE (mapE (signature_of c) rawSignatures) (\<lambda>sigs.
     Inr (schnorr_Serialize c (sumPoints c (map fst sigs)) (sumScalars (map snd sigs))))"

definition SignSigning :: "'p curve \<Rightarrow> Point \<Rightarrow> Point \<Rightarrow> bytes \<Rightarrow> Scalar \<Rightarrow> Scalar \<Rightarrow> Scalar \<Rightarrow> Signature result" where
  "SignSigning c groupPubNonce groupPubKey data rawLagrange ownPrivNonce ownPrivKey =
     bindE (HashChallenge c groupPubNonce groupPubKey data) (\<lambda>challenge.
     Sign c ownPrivKey challenge ownPrivNonce (Some rawLagrange))"

definition VerifySigningSignature ::
  "'p curve \<Rightarrow> Point \<Rightarrow> Point \<Rightarrow> bytes \<Rightarrow> Scalar \<Rightarrow> Signature \<Rightarrow> Point \<Rightarrow> unit result" where
  "VerifySigningSignature c groupPubNonce groupPubKey data rawLagrange signature ownPubKey =
     bindE (HashChallenge c groupPubNonce groupPubKey data) (\<lambda>challenge.
     Verify c (Signature_R signature) (Signature_S signature) challenge ownPubKey None (Some rawLagrange))"

definition VerifyGroupSigningSignature :: "'p curve \<Rightarrow> Point \<Rightarrow> bytes \<Rightarrow> Signature \<Rightarrow> unit result" where
  "VerifyGroupSigningSignature c groupPubKey data signature =
     bindE (HashChallenge c (Signature_R signature) groupPubKey data) (\<lambda>challenge.
     Verify c (Signature_R signature) (Signature_S signature) challenge groupPubKey None None)"

end
