(* ===== verification/Tss_Group.thy ===== *)
theory Tss_Group
  imports Tss_Rounds Interpolation
begin

text \<open>
  What \<open>pkg/tss\<close> relies on of the curve, and the algebra of the package on top of it: every point is a multiple of the generator, so that
  sums of points, polynomials in the exponent and the verification equation become congruences between the multipliers.
\<close>

section \<open>Laws of the curve\<close>

text \<open>
  secp256k1 is a group of order \<open>N\<close> generated by \<open>G\<close>. A point other than infinity has one compressed form of 33 bytes,
  which parses back to it; what parses is a point other than infinity. Keccak-256 returns 32 bytes and the key stream has the length asked for.
\<close>

definition curve_laws :: "'p curve \<Rightarrow> bool" where
  "curve_laws c \<longleftrightarrow>
     (\<forall>a b. cv_Add c (base_mult c a) (base_mult c b) = base_mult c (a + b)) \<and>
     (\<forall>a b. cv_Mult c a (base_mult c b) = base_mult c (a * b)) \<and>
     (\<forall>a b. base_mult c a = base_mult c b \<longleftrightarrow> a mod N = b mod N) \<and>
     cv_infinity c = base_mult c 0 \<and>
     (\<forall>a. cv_ParsePubKey c (cv_SerializeCompressed c (base_mult c a)) = (if a mod N = 0 then None else Some (base_mult c a))) \<and>
     (\<forall>b P. cv_ParsePubKey c b = Some P \<longrightarrow>
        (\<exists>a. a mod N \<noteq> 0 \<and> P = base_mult c a) \<and> (length b = 33 \<longrightarrow> cv_SerializeCompressed c P = b)) \<and>
     (\<forall>P. length (cv_SerializeCompressed c P) = 33) \<and>
     (\<forall>m. length (cv_Keccak256 c m) = 32) \<and>
     (\<forall>k n l. length (cv_ctr_stream c k n l) = l)"

lemma curve_lawsD:
  assumes "curve_laws c"
  shows "cv_Add c (base_mult c a) (base_mult c b) = base_mult c (a + b)"
    and "cv_Mult c a (base_mult c b) = base_mult c (a * b)"
    and "base_mult c a = base_mult c b \<longleftrightarrow> a mod N = b mod N"
    and "cv_infinity c = base_mult c 0"
    and "cv_ParsePubKey c (cv_SerializeCompressed c (base_mult c a)) = (if a mod N = 0 then None else Some (base_mult c a))"
    and "cv_ParsePubKey c bs = Some P \<Longrightarrow> \<exists>a. a mod N \<noteq> 0 \<and> P = base_mult c a"
    and "cv_ParsePubKey c bs = Some P \<Longrightarrow> length bs = 33 \<Longrightarrow> cv_SerializeCompressed c P = bs"
    and "length (cv_SerializeCompressed c P) = 33"
    and "length (cv_Keccak256 c m) = 32"
    and "length (cv_ctr_stream c k n l) = l"
  using assms unfolding curve_laws_def by blast+

section \<open>Scalars\<close>

lemma N_less: "N < 256 ^ 32"
  by (simp add: N_def)

lemma modNScalar_range [simp]: "0 \<le> modNScalar s" "modNScalar s < N" "modNScalar s mod N = modNScalar s"
  by (simp_all add: modNScalar_def N_pos)

lemma length_NewScalar [simp]: "length (NewScalarFromModNScalar x) = 32"
  by (simp add: NewScalarFromModNScalar_def)

lemma modNScalar_be_bytes: "0 \<le> x \<Longrightarrow> x < N \<Longrightarrow> modNScalar (be_bytes 32 (nat x)) = x"
  using N_less by (simp add: modNScalar_def be_value_be_bytes_id nat_less_iff)

lemma modNScalar_New [simp]: "modNScalar (NewScalarFromModNScalar (x mod N)) = x mod N"
  unfolding NewScalarFromModNScalar_def by (rule modNScalar_be_bytes) (simp_all add: N_pos)

lemma NewScalar_modN: "length s = 32 \<Longrightarrow> int (be_value s) < N \<Longrightarrow> NewScalarFromModNScalar (modNScalar s) = s"
  using be_bytes_be_value [of s] by (simp add: NewScalarFromModNScalar_def modNScalar_def)

lemma NewScalar_Inr_iff: "NewScalar b = Inr s \<longleftrightarrow> s = b \<and> length b = 32 \<and> modNScalar b \<noteq> 0 \<and> int (be_value b) < N"
  by (auto simp: NewScalar_def Scalar_Validate_def)

lemma big_Bytes_value: "be_value (big_Bytes n) = n"
  by (induction n rule: big_Bytes.induct) (subst big_Bytes.simps, simp add: unat_of_nat_byte)

lemma big_Bytes_length: "n < 256 ^ k \<Longrightarrow> length (big_Bytes n) \<le> k"
proof (induction k arbitrary: n)
  case 0
  then show ?case by (subst big_Bytes.simps) simp
next
  case (Suc k)
  then have "n div 256 < 256 ^ k" by (simp add: less_mult_imp_div_less mult.commute)
  then show ?case using Suc.IH by (subst big_Bytes.simps) simp
qed

lemma modNScalar_big: "0 \<le> x \<Longrightarrow> x < N \<Longrightarrow> modNScalar (big_Bytes (nat x)) = x"
  using N_less big_Bytes_length [of "nat x" 32] by (simp add: modNScalar_def big_Bytes_value nat_less_iff)

lemma sumScalars_eq: "sumScalars as = sum_list as mod N"
proof -
  have "foldl (\<lambda>t s. (t + s) mod N) (b mod N) as = (b + sum_list as) mod N" for b
  proof (induction as arbitrary: b)
    case (Cons a as)
    from Cons [of "b + a"] show ?case by (simp add: mod_simps add.assoc)
  qed simp
  from this [of 0] show ?thesis by (simp add: sumScalars_def)
qed

lemma horner_mod: "(a + x * (r mod N)) mod N = (a + x * r) mod N" "(a + x mod N * r) mod N = (a + x * r) mod N"
  by (metis mod_add_right_eq mod_mult_right_eq) (metis mod_add_right_eq mod_mult_left_eq)

lemma solveScalarPolynomial_eq: "solveScalarPolynomial as x = poly_at as x mod N"
  unfolding solveScalarPolynomial_def poly_at_def foldl_conv_foldr rev_rev_ident
  by (induction as) (simp_all add: mod_add_left_eq add.commute mult.commute [of _ x] horner_mod mod_add_right_eq)

text \<open>A polynomial modulo \<open>N\<close> depends on the coefficients and the argument modulo \<open>N\<close>.\<close>

lemma poly_at_mod: "poly_at (map (\<lambda>a. a mod N) as) (x mod N) mod N = poly_at as x mod N"
proof (induction as)
  case (Cons a as)
  let ?r = "poly_at (map (\<lambda>a. a mod N) as) (x mod N)" and ?s = "poly_at as x"
  have "(a mod N + (x mod N) * ?r) mod N = (a + x * (?r mod N)) mod N" by (simp add: mod_add_left_eq horner_mod)
  then show ?case unfolding Cons by (simp add: poly_at_def horner_mod)
qed (simp add: poly_at_def)

section \<open>Points\<close>

lemma sumPoints_base:
  assumes "curve_laws c"
  shows "sumPoints c (map (base_mult c) as) = base_mult c (sum_list as)"
proof -
  note L = curve_lawsD [OF assms]
  have "foldl (cv_Add c) (base_mult c b) (map (base_mult c) as) = base_mult c (b + sum_list as)" for b
    by (induction as arbitrary: b) (simp_all add: L(1) add.assoc)
  from this [of 0] show ?thesis by (simp add: sumPoints_def L(4))
qed

lemma solvePointPolynomial_base:
  assumes "curve_laws c"
  shows "solvePointPolynomial c (map (base_mult c) as) x = base_mult c (poly_at as x)"
  unfolding solvePointPolynomial_def poly_at_def foldl_conv_foldr rev_rev_ident
  by (induction as) (simp_all add: curve_lawsD [OF assms])

lemma serialize_inj:
  assumes "curve_laws c"
  shows "cv_SerializeCompressed c (base_mult c a) = cv_SerializeCompressed c (base_mult c b) \<longleftrightarrow> a mod N = b mod N"
  using curve_lawsD(5) [OF assms, of a] curve_lawsD(5) [OF assms, of b] curve_lawsD(3) [OF assms, of a b]
  by (metis option.distinct(1) option.inject)

lemma jacobianPoint_eq: "jacobianPoint c p = (case cv_ParsePubKey c p of None \<Rightarrow> Inl ErrParseError | Some q \<Rightarrow> Inr q)"
  by (simp add: jacobianPoint_def publicKey_def)

lemma jacobianPoint_base:
  assumes "curve_laws c" and "a mod N \<noteq> 0"
  shows "jacobianPoint c (cv_SerializeCompressed c (base_mult c a)) = Inr (base_mult c a)"
  using assms(2) by (simp add: jacobianPoint_eq curve_lawsD(5) [OF assms(1)])

lemma mapE_Inr_iff: "mapE f xs = Inr ys \<longleftrightarrow> list_all2 (\<lambda>x y. f x = Inr y) xs ys"
  by (induction xs arbitrary: ys) (auto simp: list_all2_Cons1 bindE_eq_Inr_iff)

lemma mapE_map: "(\<And>x. x \<in> set xs \<Longrightarrow> f x = Inr (g x)) \<Longrightarrow> mapE f xs = Inr (map g xs)"
  by (induction xs) simp_all

text \<open>The points a list of byte strings parses to, by their multipliers.\<close>

lemma jacobianPoints_dlogs:
  assumes "curve_laws c" and "jacobianPoints c ps = Inr Ps"
  obtains as where "Ps = map (base_mult c) as" "length as = length ps"
    "\<forall>i<length ps. as ! i mod N \<noteq> 0 \<and> cv_ParsePubKey c (ps ! i) = Some (base_mult c (as ! i))"
proof -
  have all: "list_all2 (\<lambda>p P. cv_ParsePubKey c p = Some P) ps Ps"
    using assms(2) by (auto simp: jacobianPoints_def mapE_Inr_iff jacobianPoint_eq list_all2_conv_all_nth split: option.splits)
  have "\<exists>as. Ps = map (base_mult c) as \<and> length as = length ps \<and>
      (\<forall>i<length ps. as ! i mod N \<noteq> 0 \<and> cv_ParsePubKey c (ps ! i) = Some (base_mult c (as ! i)))"
    using all
  proof (induction rule: list_all2_induct)
    case (Cons p ps P Ps)
    then obtain as a where "Ps = map (base_mult c) as" "length as = length ps" "a mod N \<noteq> 0" "P = base_mult c a"
        "\<forall>i<length ps. as ! i mod N \<noteq> 0 \<and> cv_ParsePubKey c (ps ! i) = Some (base_mult c (as ! i))"
      using curve_lawsD(6) [OF assms(1) Cons.hyps(1)] by blast
    then show ?case using Cons.hyps(1) by (intro exI [of _ "a # as"]) (auto simp: less_Suc_eq_0_disj)
  qed simp
  then show thesis using that by blast
qed

lemma jacobianPoints_base:
  assumes "curve_laws c" and "\<forall>a\<in>set as. a mod N \<noteq> 0"
  shows "jacobianPoints c (map (\<lambda>a. cv_SerializeCompressed c (base_mult c a)) as) = Inr (map (base_mult c) as)"
  using assms(2) by (induction as) (simp_all add: jacobianPoints_def jacobianPoint_base [OF assms(1)])

section \<open>Signatures\<close>

lemma signature_parts [simp]:
  assumes "curve_laws c"
  shows "Signature_R (schnorr_Serialize c r s) = cv_SerializeCompressed c r"
    and "Signature_S (schnorr_Serialize c r s) = be_bytes 32 (nat s)"
    and "length (schnorr_Serialize c r s) = 65"
  using curve_lawsD(8) [OF assms] by (simp_all add: Signature_R_def Signature_S_def schnorr_Serialize_def)

lemma signature_of_Serialize:
  assumes "curve_laws c" and "r mod N \<noteq> 0" and "0 \<le> s" "s < N"
  shows "signature_of c (schnorr_Serialize c (base_mult c r) s) = Inr (base_mult c r, s)"
proof -
  note L = curve_lawsD [OF assms(1)]
  have "int (be_value (be_bytes 32 (nat s))) = s" using assms(3,4) N_less by (simp add: be_value_be_bytes_id nat_less_iff)
  then show ?thesis
    using assms L(5) [of r] L(8) modNScalar_be_bytes [OF assms(3,4)]
    by (simp add: signature_of_def ParseSignature_def schnorr_Serialize_def)
qed

text \<open>What a signature that parses consists of.\<close>

lemma signature_ofD:
  assumes laws: "curve_laws c" and sig: "signature_of c \<sigma> = Inr (P, s)"
  obtains r where "P = base_mult c r" "r mod N \<noteq> 0" "cv_ParsePubKey c (Signature_R \<sigma>) = Some P"
    "Signature_R \<sigma> = cv_SerializeCompressed c P" "modNScalar (Signature_S \<sigma>) = s"
proof -
  have len: "length \<sigma> = 65" and r: "cv_ParsePubKey c (take 33 \<sigma>) = Some P" and s: "modNScalar (take 32 (drop 33 \<sigma>)) = s"
    using sig by (auto simp: signature_of_def ParseSignature_def Let_def split: sum.splits option.splits if_splits)
  moreover have "Signature_R \<sigma> = cv_SerializeCompressed c P"
    using curve_lawsD(7) [OF laws r] len by (simp add: Signature_R_def)
  ultimately show thesis
    using curve_lawsD(6) [OF laws r] that by (auto simp: Signature_R_def Signature_S_def)
qed

text \<open>The verification equation on the multipliers.\<close>

lemma Verify_base:
  assumes laws: "curve_laws c" and r: "cv_ParsePubKey c rawR = Some (base_mult c r)" "r mod N \<noteq> 0" and p: "cv_ParsePubKey c rawP = Some (base_mult c p)"
    and g: "case gen of None \<Rightarrow> g = 1 | Some x \<Rightarrow> cv_ParsePubKey c x = Some (base_mult c g)"
  shows "Verify c rawR rawS ch rawP gen lag = Inr () \<longleftrightarrow> r mod N = (modNScalar rawS * g - scale_challenge ch lag * p) mod N"
proof -
  note L = curve_lawsD [OF laws]
  let ?x = "modNScalar rawS * g - scale_challenge ch lag * p"
  have "(- scale_challenge ch lag mod N * p) mod N = (- scale_challenge ch lag * p) mod N" by (simp add: mod_simps)
  then have "base_mult c (modNScalar rawS * g + (- scale_challenge ch lag mod N) * p) = base_mult c ?x"
    unfolding L(3) by (metis mod_add_right_eq minus_mult_left uminus_add_conv_diff add.commute)
  then have "schnorr_Verify c (base_mult c r) (modNScalar rawS) (scale_challenge ch lag) (base_mult c p)
      (map_option (\<lambda>_. base_mult c g) gen) = Inr () \<longleftrightarrow> r mod N = ?x mod N"
    using g r(2) L(3) [of r ?x] L(3) [of ?x 0]
    by (cases gen) (auto simp: schnorr_Verify_def Let_def L(1,2,4) base_mult_def [of c "modNScalar rawS", symmetric])
  then show ?thesis
    using r p g by (cases gen) (auto simp: Verify_def jacobianPoint_eq publicKey_def split: sum.splits)
qed

lemma Verify_parses:
  assumes "curve_laws c" and "Verify c rawR rawS ch rawP gen lag = Inr ()"
  obtains r p where "cv_ParsePubKey c rawR = Some (base_mult c r)" "r mod N \<noteq> 0" "cv_ParsePubKey c rawP = Some (base_mult c p)"
    "p mod N \<noteq> 0"
proof -
  obtain R P where R: "cv_ParsePubKey c rawR = Some R" and P: "cv_ParsePubKey c rawP = Some P"
    using assms(2) by (auto simp: Verify_def jacobianPoint_eq publicKey_def split: option.splits)
  then show thesis using curve_lawsD(6) [OF assms(1) R] curve_lawsD(6) [OF assms(1) P] that by blast
qed

text \<open>Signing then verifying.\<close>

lemma Sign_eq:
  assumes "modNScalar priv \<noteq> 0"
  shows "Sign c priv ch nonce lag = Inr (schnorr_Serialize c (base_mult c (modNScalar nonce))
    ((scale_challenge ch lag * modNScalar priv + modNScalar nonce) mod N))"
  using assms by (simp add: Sign_def ComputeSignatureS_def Let_def mod_simps)

lemma Sign_Verify:
  assumes laws: "curve_laws c" and priv: "modNScalar priv \<noteq> 0" and nonce: "modNScalar nonce \<noteq> 0"
    and sig: "Sign c priv ch nonce lag = Inr \<sigma>"
  shows "Verify c (Signature_R \<sigma>) (Signature_S \<sigma>) ch (Scalar_Point c priv) None lag = Inr ()"
    and "Signature_R \<sigma> = Scalar_Point c nonce"
proof -
  note L = curve_lawsD [OF laws]
  let ?s = "(scale_challenge ch lag * modNScalar priv + modNScalar nonce) mod N"
  have \<sigma>: "\<sigma> = schnorr_Serialize c (base_mult c (modNScalar nonce)) ?s" using sig by (simp add: Sign_eq [OF priv])
  have nz: "cv_ParsePubKey c (cv_SerializeCompressed c (base_mult c (modNScalar x))) = Some (base_mult c (modNScalar x))"
    if "modNScalar x \<noteq> 0" for x
    using that by (simp add: L(5))
  have s: "modNScalar (be_bytes 32 (nat ?s)) = ?s" by (rule modNScalar_be_bytes) (simp_all add: N_pos)
  show "Signature_R \<sigma> = Scalar_Point c nonce" using laws by (simp add: \<sigma> Scalar_Point_def NewPointFromJacobianPoint_def)
  have "modNScalar nonce mod N = (modNScalar (be_bytes 32 (nat ?s)) * 1 - scale_challenge ch lag * modNScalar priv) mod N"
    unfolding s by (simp add: mod_simps)
  then show "Verify c (Signature_R \<sigma>) (Signature_S \<sigma>) ch (Scalar_Point c priv) None lag = Inr ()"
    using Verify_base [OF laws nz [OF nonce] _ nz [OF priv], where gen = None and g = 1] laws nonce
    by (simp add: \<sigma> Scalar_Point_def NewPointFromJacobianPoint_def)
qed

end
