(* ===== verification/Tss_Threshold.thy ===== *)
theory Tss_Threshold
  imports Tss_Group
begin

text \<open>
  The Lagrange coefficients of \<open>pkg/tss/signing.go\<close> as weights of an interpolation, and what that gives for keys and signatures: any
  set of members that reaches the threshold represents the group's key.
\<close>

section \<open>Lagrange coefficients\<close>

text \<open>
  The member ids the library can handle: distinct, positive, below \<open>2\<^sup>3\<^sup>2\<close> (a scalar is made of the lowest 32 bits), and with differences that
  are invertible modulo the order, as all of them are when the order is prime.
\<close>

definition good_ids :: "MemberID list \<Rightarrow> bool" where
  "good_ids mids \<longleftrightarrow> distinct mids \<and> (\<forall>i\<in>set mids. 1 \<le> i \<and> i < 2 ^ 32) \<and>
     (\<forall>i\<in>set mids. \<forall>j\<in>set mids. i \<noteq> j \<longrightarrow> coprime (int j - int i) N)"

lemma good_ids_small:
  assumes "distinct mids" and "\<forall>i\<in>set mids. 1 \<le> i \<and> i \<le> 20"
  shows "good_ids mids"
proof -
  have "coprime d N" if "1 \<le> d" "d \<le> 20" for d :: int
    using num_dvd_F [of "[d]" 0] that by (intro dvd_F_coprime) simp
  then have small: "coprime d N" if "d \<noteq> 0" "\<bar>d\<bar> \<le> 20" for d :: int
  proof -
    have "coprime \<bar>d\<bar> N" using that \<open>\<And>d. 1 \<le> d \<Longrightarrow> d \<le> 20 \<Longrightarrow> coprime d N\<close> [of "\<bar>d\<bar>"] by simp
    then show ?thesis by simp
  qed
  have "coprime (int j - int i) N" if "i \<in> set mids" "j \<in> set mids" "i \<noteq> j" for i j
  proof (rule small)
    have "1 \<le> i" "i \<le> 20" "1 \<le> j" "j \<le> 20" using assms(2) that by auto
    then show "\<bar>int j - int i\<bar> \<le> 20" by linarith
  qed (use that in simp)
  then show ?thesis using assms unfolding good_ids_def by force
qed

lemma lagrange_fold:
  "foldE (lagrange_step mid) (seen, b, op) xs =
     (if distinct xs \<and> set xs \<inter> set seen = {} then Inr (rev xs @ seen, b \<or> mid \<in> set xs, op \<and> (\<forall>x\<in>set xs. x \<le> 20))
      else Inl lagrange_duplicate_error)"
proof (induction xs arbitrary: seen b op)
  case (Cons x xs)
  show ?case
  proof (cases "x \<in> set seen")
    case True
    then show ?thesis by (auto simp: lagrange_step_def)
  next
    case False
    then have "foldE (lagrange_step mid) (seen, b, op) (x # xs) =
        foldE (lagrange_step mid) (x # seen, b \<or> x = mid, op \<and> x \<le> 20) xs"
      by (auto simp: lagrange_step_def)
    then show ?thesis using False unfolding Cons by auto
  qed
qed simp

lemma checkLagrangeInput_eq:
  "checkLagrangeInput mid mids =
     (if \<not> distinct mids then Inl lagrange_duplicate_error
      else if mid \<notin> set mids then Inl lagrange_missing_error else Inr (\<forall>i\<in>set mids. i \<le> 20))"
  by (simp add: checkLagrangeInput_def lagrange_fold)

lemma denom_list: "distinct s \<Longrightarrow> denom (set s) i = prod_list (map (\<lambda>j. j - i) (others i s))"
proof -
  assume "distinct s"
  then have "prod_list (map (\<lambda>j. j - i) (others i s)) = (\<Prod>j\<in>set (others i s). j - i)"
    by (subst prod.distinct_set_conv_list) simp_all
  moreover have "set (others i s) = set s - {i}" by auto
  ultimately show ?thesis by (simp add: denom_def)
qed

lemma numer_list: "distinct s \<Longrightarrow> numer (set s) i = prod_list (others i s)"
proof -
  assume "distinct s"
  then have "prod_list (map (\<lambda>j. j) (others i s)) = \<Prod>(set (others i s))"
    by (subst prod.distinct_set_conv_list) simp_all
  moreover have "set (others i s) = set s - {i}" by auto
  ultimately show ?thesis by (simp add: numer_def)
qed

lemma ComputeCoefficient_wide:
  assumes "\<forall>j\<in>set s. 0 \<le> j \<and> j < 2 ^ 32" and "0 \<le> i" "i < 2 ^ 32"
  shows "ComputeCoefficient i s = divide_mod (prod_list (others i s)) (prod_list (map (\<lambda>j. j - i) (others i s)))"
proof -
  have "foldl (\<lambda>(numerator, denominator) j.
      if j = i then (numerator, denominator)
      else (j * numerator, i64 (j - i) * denominator)) (a, b) s =
    (prod_list (others i s) * a, prod_list (map (\<lambda>j. j - i) (others i s)) * b)" for a b
    using assms(1)
  proof (induction s arbitrary: a b)
    case (Cons j s)
    have "in_i64 (j - i)" using Cons.prems assms(2,3) by (auto simp: in_i64_def)
    then show ?case using Cons by (simp add: mult.assoc mult.left_commute)
  qed simp
  from this [of 1 1] show ?thesis by (simp add: ComputeCoefficient_def)
qed

lemma good_ids_coprime:
  assumes "good_ids mids" and "i \<in> set mids"
  shows "coprime (denom (int ` set mids) (int i)) N"
  using assms unfolding denom_def good_ids_def by (intro prod_coprime_left) auto

text \<open>For good ids both routines return the weight of the interpolation.\<close>

lemma ComputeLagrangeCoefficient_weight:
  assumes good: "good_ids mids" and i: "i \<in> set mids"
  obtains l where "ComputeLagrangeCoefficient i mids = Inr l"
    "modNScalar l * denom (int ` set mids) (int i) mod N = numer (int ` set mids) (int i) mod N"
proof -
  let ?s = "map int mids"
  have d: "distinct mids" "distinct ?s" and small: "\<forall>j\<in>set ?s. 0 \<le> j \<and> j < 2 ^ 32" and pos: "\<forall>j\<in>set ?s. 1 \<le> j"
    using good by (auto simp: good_ids_def distinct_map)
  have id: "map (\<lambda>m. i64 (int m)) mids = ?s" "i64 (int i) = int i"
    using small i by (auto intro!: i64_id simp: in_i64_def)
  have "coprime (prod_list (map (\<lambda>j. j - int i) (others (int i) ?s))) N"
    using good_ids_coprime [OF good i] denom_list [OF d(2), of "int i"] by simp
  from divide_mod_correct [OF this] obtain x where x: "divide_mod (prod_list (others (int i) ?s)) (prod_list (map (\<lambda>j. j - int i) (others (int i) ?s))) = Inr x"
    "0 \<le> x" "x < N" "x * denom (int ` set mids) (int i) mod N = numer (int ` set mids) (int i) mod N"
    using denom_list [OF d(2), of "int i"] numer_list [OF d(2), of "int i"] by auto
  have wide: "ComputeCoefficient (int i) ?s = Inr x" using ComputeCoefficient_wide [OF small, of "int i"] x(1) small i by simp
  have "ComputeLagrangeCoefficient i mids = Inr (NewScalarFromModNScalar (modNScalar (big_Bytes (nat x))))"
  proof (cases "\<forall>j\<in>set mids. j \<le> 20")
    case True
    then have "ComputeCoefficientPreCompute (int i) ?s = ComputeCoefficient (int i) ?s"
      using pos i d(2) by (intro PreCompute_direct) auto
    then show ?thesis
      using True d(1) i wide x by (simp add: ComputeLagrangeCoefficient_def checkLagrangeInput_eq computeLagrangeCoefficientOp_def id)
  next
    case False
    then have "checkLagrangeInput i mids = Inr False" using d(1) i by (simp add: checkLagrangeInput_eq)
    then show ?thesis using wide x by (simp add: ComputeLagrangeCoefficient_def id)
  qed
  moreover have "modNScalar (NewScalarFromModNScalar (modNScalar (big_Bytes (nat x)))) = x"
    using x(2,3) modNScalar_big [OF x(2,3)] modNScalar_New [of x] by simp
  ultimately show thesis using that x(4) by metis
qed

lemma mid_scalar_id: "i < 2 ^ 32 \<Longrightarrow> mid_scalar i = int i"
  by (simp add: mid_scalar_def N_def)

text \<open>The weights give back the constant coefficient.\<close>

lemma lagrange_interpolation:
  assumes good: "good_ids mids" and len: "length as \<le> length mids" "as \<noteq> []"
    and lag: "\<forall>i\<in>set mids. ComputeLagrangeCoefficient i mids = Inr (lag i)"
  shows "(\<Sum>i\<leftarrow>mids. modNScalar (lag i) * poly_at as (int i)) mod N = hd as mod N"
proof -
  let ?S = "int ` set mids"
  have d: "distinct mids" using good by (simp add: good_ids_def)
  have card: "card ?S = length mids" using d by (simp add: card_image distinct_card)
  have w: "modNScalar (lag i) * denom ?S (int i) mod N = numer ?S (int i) mod N" if "i \<in> set mids" for i
    using ComputeLagrangeCoefficient_weight [OF good that] lag that by (metis Inr_inject)
  have "(\<Sum>i\<in>?S. modNScalar (lag (nat i)) * poly_at as i) mod N = hd as mod N"
    by (rule interpolation_mod) (use card len good_ids_coprime [OF good] w in auto)
  moreover have "(\<Sum>i\<in>?S. modNScalar (lag (nat i)) * poly_at as i) = (\<Sum>i\<leftarrow>mids. modNScalar (lag i) * poly_at as (int i))"
    by (simp add: sum.reindex sum_list_distinct_conv_sum_set [OF d])
  ultimately show ?thesis by simp
qed

section \<open>Threshold signatures\<close>

text \<open>Each partial signature verifies, so the sum verifies under the key that the commitments open at zero.\<close>

lemma HashChallenge_point:
  assumes "HashChallenge c R P data = Inr ch"
  obtains Q where "cv_ParsePubKey c R = Some Q"
  using assms by (auto simp: HashChallenge_def Point_Address_def publicKey_def split: option.splits)

lemma Signature_ValidateD:
  assumes laws: "curve_laws c" and "Signature_Validate c \<sigma> = Inr ()"
  obtains r s where "signature_of c \<sigma> = Inr (base_mult c r, s)" "r mod N \<noteq> 0"
    "cv_ParsePubKey c (Signature_R \<sigma>) = Some (base_mult c r)" "modNScalar (Signature_S \<sigma>) = s"
proof -
  obtain P s where P: "signature_of c \<sigma> = Inr (P, s)" using assms(2) by (auto simp: Signature_Validate_def)
  show thesis by (rule signature_ofD [OF laws P]) (use that P in metis)
qed

text \<open>A congruence that holds for the parts holds for the sums.\<close>

lemma sum_list_mod_cong:
  fixes f g :: "'a \<Rightarrow> int"
  assumes "\<forall>i\<in>set is. f i mod N = g i mod N"
  shows "(\<Sum>i\<leftarrow>is. f i) mod N = (\<Sum>i\<leftarrow>is. g i) mod N"
  using assms
proof (induction "is")
  case (Cons i js)
  then have "f i mod N = g i mod N" "(\<Sum>i\<leftarrow>js. f i) mod N = (\<Sum>i\<leftarrow>js. g i) mod N" by auto
  from mod_add_cong [OF this] show ?case by simp
qed simp

text \<open>The equation a partial signature that verifies satisfies, when the commitments open to the polynomial \<open>as\<close>.\<close>

lemma partial_equation:
  assumes laws: "curve_laws c" and Ps: "jacobianPoints c commits = Inr (map (base_mult c) as)" and i: "i < 2 ^ 32"
    and key: "ComputeOwnPublicKey c commits i = Inr pub"
    and r: "cv_ParsePubKey c (Signature_R \<sigma>) = Some (base_mult c r)" "r mod N \<noteq> 0" and s: "modNScalar (Signature_S \<sigma>) = s"
    and v: "Verify c (Signature_R \<sigma>) (Signature_S \<sigma>) ch pub None (Some l) = Inr ()"
  shows "r mod N = (s - modNScalar ch * (modNScalar l * poly_at as (int i))) mod N"
proof -
  have pub: "pub = cv_SerializeCompressed c (base_mult c (poly_at as (int i)))"
    using key Ps i solvePointPolynomial_base [OF laws] by (simp add: ComputeOwnPublicKey_def NewPointFromJacobianPoint_def mid_scalar_id)
  have parse: "cv_ParsePubKey c pub = Some (base_mult c (poly_at as (int i)))"
    using Verify_parses [OF laws v] by (metis curve_lawsD(5) [OF laws] option.distinct(1) pub)
  have "r mod N = (s - scale_challenge ch (Some l) * poly_at as (int i)) mod N"
    using Verify_base [OF laws r parse, where gen = None and g = 1] v s by simp
  also have "\<dots> = (s - modNScalar ch * modNScalar l * poly_at as (int i)) mod N"
    unfolding scale_challenge_def option.case by (metis mod_diff_right_eq mod_mult_left_eq)
  finally show ?thesis by (simp add: mult.assoc)
qed

lemma combine_verifies:
  assumes laws: "curve_laws c" and good: "good_ids mids" and len: "commits \<noteq> []" "length commits \<le> length mids"
    and keys: "\<forall>i\<in>set mids. ComputeOwnPublicKey c commits i = Inr (pub i)"
    and lag: "\<forall>i\<in>set mids. ComputeLagrangeCoefficient i mids = Inr (lag i)"
    and valid: "\<forall>i\<in>set mids. Signature_Validate c (sig i) = Inr ()"
    and nonce: "ComputeGroupPublicNonce c (map (\<lambda>i. Signature_R (sig i)) mids) = Inr R"
    and part: "\<forall>i\<in>set mids. VerifySigningSignature c R (hd commits) data (lag i) (sig i) (pub i) = Inr ()"
  shows "\<exists>\<sigma>. CombineSignatures c (map sig mids) = Inr \<sigma> \<and> Signature_R \<sigma> = R \<and> Signature_Validate c \<sigma> = Inr () \<and>
    VerifyGroupSigningSignature c (hd commits) data \<sigma> = Inr ()"
proof -
  note L = curve_lawsD [OF laws]
  obtain m where m: "m \<in> set mids" using len by (cases mids) auto
  define s where "s = (\<lambda>i. modNScalar (Signature_S (sig i)))"
  have "\<forall>i\<in>set mids. \<exists>r. signature_of c (sig i) = Inr (base_mult c r, s i) \<and> r mod N \<noteq> 0 \<and>
      cv_ParsePubKey c (Signature_R (sig i)) = Some (base_mult c r)"
    using valid Signature_ValidateD [OF laws] unfolding s_def by metis
  from bchoice [OF this] obtain r where r: "\<forall>i\<in>set mids. signature_of c (sig i) = Inr (base_mult c (r i), s i) \<and> r i mod N \<noteq> 0 \<and>
      cv_ParsePubKey c (Signature_R (sig i)) = Some (base_mult c (r i))"
    by blast
  obtain ch where ch: "HashChallenge c R (hd commits) data = Inr ch" using part m by (auto simp: VerifySigningSignature_def)
  have "jacobianPoints c (map (\<lambda>i. Signature_R (sig i)) mids) = Inr (map (\<lambda>i. base_mult c (r i)) mids)"
    using r by (auto simp: jacobianPoints_def mapE_Inr_iff jacobianPoint_eq list_all2_conv_all_nth)
  then have R: "R = cv_SerializeCompressed c (base_mult c (\<Sum>i\<leftarrow>mids. r i))"
    using nonce sumPoints_base [OF laws, of "map r mids"] by (simp add: ComputeGroupPublicNonce_def NewPointFromJacobianPoint_def o_def)
  obtain Q where "cv_ParsePubKey c R = Some Q" by (rule HashChallenge_point [OF ch])
  then have R0: "(\<Sum>i\<leftarrow>mids. r i) mod N \<noteq> 0" by (auto simp: R L(5) split: if_splits)
  obtain Ps where Ps: "jacobianPoints c commits = Inr Ps" using keys m by (auto simp: ComputeOwnPublicKey_def)
  obtain as where as: "Ps = map (base_mult c) as" "length as = length commits"
      "\<forall>i<length commits. as ! i mod N \<noteq> 0 \<and> cv_ParsePubKey c (commits ! i) = Some (base_mult c (as ! i))"
    by (rule jacobianPoints_dlogs [OF laws Ps])
  have "r i mod N = (s i - modNScalar ch * (modNScalar (lag i) * poly_at as (int i))) mod N" if i: "i \<in> set mids" for i
  proof (rule partial_equation [OF laws Ps [unfolded as(1)]])
    show "i < 2 ^ 32" using good i by (simp add: good_ids_def)
    show "Verify c (Signature_R (sig i)) (Signature_S (sig i)) ch (pub i) None (Some (lag i)) = Inr ()"
      using part i ch by (simp add: VerifySigningSignature_def)
  qed (use keys r i in \<open>auto simp: s_def\<close>)
  then have "(\<Sum>i\<leftarrow>mids. r i) mod N = (\<Sum>i\<leftarrow>mids. s i - modNScalar ch * (modNScalar (lag i) * poly_at as (int i))) mod N"
    by (intro sum_list_mod_cong) simp
  also have "(\<Sum>i\<leftarrow>mids. s i - modNScalar ch * (modNScalar (lag i) * poly_at as (int i))) =
      (\<Sum>i\<leftarrow>mids. s i) - modNScalar ch * (\<Sum>i\<leftarrow>mids. modNScalar (lag i) * poly_at as (int i))"
    by (simp add: sum_list_subtractf sum_list_const_mult)
  also have "\<dots> mod N = ((\<Sum>i\<leftarrow>mids. s i) mod N - modNScalar ch * hd as) mod N"
  proof (rule mod_diff_cong)
    have "(\<Sum>i\<leftarrow>mids. modNScalar (lag i) * poly_at as (int i)) mod N = hd as mod N"
      by (rule lagrange_interpolation [OF good _ _ lag]) (use len as(2) in auto)
    from mod_mult_cong [OF refl this]
    show "modNScalar ch * (\<Sum>i\<leftarrow>mids. modNScalar (lag i) * poly_at as (int i)) mod N = modNScalar ch * hd as mod N" .
  qed simp
  finally have sum: "(\<Sum>i\<leftarrow>mids. r i) mod N = ((\<Sum>i\<leftarrow>mids. s i) mod N - modNScalar ch * hd as) mod N" .
  define \<sigma> where "\<sigma> = schnorr_Serialize c (base_mult c (\<Sum>i\<leftarrow>mids. r i)) ((\<Sum>i\<leftarrow>mids. s i) mod N)"
  have "mapE (signature_of c) (map sig mids) = Inr (map (\<lambda>i. (base_mult c (r i), s i)) mids)"
    using r by (auto simp: mapE_Inr_iff list_all2_conv_all_nth)
  then have "CombineSignatures c (map sig mids) = Inr \<sigma>"
    using sumPoints_base [OF laws, of "map r mids"] by (simp add: CombineSignatures_def \<sigma>_def o_def sumScalars_eq)
  moreover have \<sigma>R: "Signature_R \<sigma> = R" and \<sigma>S: "modNScalar (Signature_S \<sigma>) = (\<Sum>i\<leftarrow>mids. s i) mod N"
    using laws by (simp_all add: \<sigma>_def R modNScalar_be_bytes N_pos)
  moreover have "Signature_Validate c \<sigma> = Inr ()"
    using signature_of_Serialize [OF laws R0, of "(\<Sum>i\<leftarrow>mids. s i) mod N"] by (simp add: Signature_Validate_def \<sigma>_def N_pos)
  moreover have key: "cv_ParsePubKey c (hd commits) = Some (base_mult c (hd as))"
    using as len(1) by (metis hd_conv_nth length_0_conv length_greater_0_conv)
  moreover have "Verify c R (Signature_S \<sigma>) ch (hd commits) None None = Inr ()"
    using Verify_base [OF laws _ R0 key, where gen = None and g = 1, of R] sum R0 by (simp add: R L(5) \<sigma>S scale_challenge_def)
  ultimately show ?thesis using ch by (auto simp: VerifyGroupSigningSignature_def)
qed

end
