(* ===== verification/Tss_Props.thy ===== *)
theory Tss_Props
  imports Tss_Threshold
begin

text \<open>
  Properties of \<open>pkg/tss\<close>: the shares of the key generation reach their members and verify, the keys fit together, complaints are
  upheld exactly when a share is wrong, partial signatures of enough members combine to a group signature, and the
  loops over random draws end. The curve of the witnesses is the additive group of integers modulo the order.
\<close>

section \<open>A concrete curve\<close>

definition demo_curve :: "int curve" where
  "demo_curve = \<lparr>cv_G = 1, cv_infinity = 0, cv_Add = (\<lambda>a b. (a + b) mod N), cv_Mult = (\<lambda>k a. k * a mod N),
     cv_ParsePubKey = (\<lambda>b. if length b = 33 \<and> hd b = 2 \<and> be_value (tl b) \<noteq> 0 \<and> int (be_value (tl b)) < N
        then Some (int (be_value (tl b))) else None),
     cv_SerializeCompressed = (\<lambda>a. 2 # be_bytes 32 (nat a)), cv_X = nat, cv_Y = nat,
     cv_Keccak256 = (\<lambda>m. be_bytes 32 7), cv_hkdf_key = (\<lambda>k. k), cv_ctr_stream = (\<lambda>k n l. be_bytes l 5)\<rparr>"

lemma demo_base [simp]: "base_mult demo_curve a = a mod N"
  by (simp add: base_mult_def demo_curve_def)

lemma demo_curve_sel [simp]:
  "cv_Add demo_curve a b = (a + b) mod N" "cv_Mult demo_curve k a = k * a mod N" "cv_infinity demo_curve = 0"
  "length (cv_SerializeCompressed demo_curve a) = 33" "length (cv_Keccak256 demo_curve m) = 32" "length (cv_ctr_stream demo_curve k' n l) = l"
  by (simp_all add: demo_curve_def)

lemma demo_curve_laws: "curve_laws demo_curve"
proof -
  have parse: "cv_ParsePubKey demo_curve (cv_SerializeCompressed demo_curve (a mod N)) = (if a mod N = 0 then None else Some (a mod N))" for a
  proof -
    have "a mod N < 256 ^ 32" by (rule order.strict_trans [OF pos_mod_bound [OF N_pos] N_less])
    then have "nat (a mod N) < 256 ^ 32" using pos_mod_sign [OF N_pos, of a] by (simp add: nat_less_iff)
    then have "be_value (be_bytes 32 (nat (a mod N))) = nat (a mod N)" by (rule be_value_be_bytes_id)
    then show ?thesis using pos_mod_sign [OF N_pos, of a] pos_mod_bound [OF N_pos, of a] by (simp add: demo_curve_def)
  qed
  have parsed: "(\<exists>a. a mod N \<noteq> 0 \<and> P = a mod N) \<and> (length b = 33 \<longrightarrow> cv_SerializeCompressed demo_curve P = b)"
    if "cv_ParsePubKey demo_curve b = Some P" for b P
  proof -
    have b: "length b = 33" "hd b = 2" "be_value (tl b) \<noteq> 0" "int (be_value (tl b)) < N" "P = int (be_value (tl b))"
      using that by (auto simp: demo_curve_def split: if_splits)
    then have "be_bytes 32 (nat P) = tl b" using be_bytes_be_value [of "tl b"] by simp
    then have "cv_SerializeCompressed demo_curve P = b" using b(1,2) by (cases b) (simp_all add: demo_curve_def)
    moreover have "P mod N = P" "P \<noteq> 0" using b(3-5) by simp_all
    ultimately show ?thesis by metis
  qed
  show ?thesis
    unfolding curve_laws_def demo_base demo_curve_sel using parse parsed by (auto simp: mod_add_eq mod_mult_right_eq)
qed

lemma modNScalar_small [simp]: "k \<le> 100 \<Longrightarrow> modNScalar (be_bytes 32 k) = int k"
  using modNScalar_be_bytes [of "int k"] by (simp add: N_def)

lemma demo_hash [simp]: "hash_scalar demo_curve data = Inr (be_bytes 32 7)"
proof -
  have N7: "int 7 < N" by (simp add: N_def)
  then have "be_value (be_bytes 32 7) = 7" by (intro be_value_be_bytes_id) simp
  then have "NewScalar (be_bytes 32 7) = Inr (be_bytes 32 7)" using N7 by (simp add: NewScalar_Inr_iff)
  then show ?thesis by (simp add: hash_scalar_def Hash_def demo_curve_def)
qed

section \<open>Loops over random draws\<close>

text \<open>A draw that ends the loop: an error of the source, or a scalar whose challenge is in range.\<close>

definition ends_loop :: "'p curve \<Rightarrow> (Point \<Rightarrow> Scalar result) \<Rightarrow> bytes result \<Rightarrow> bool" where
  "ends_loop c hash d \<longleftrightarrow> (case d of Inl _ \<Rightarrow> True | Inr b \<Rightarrow> is_ok (NewScalar b) \<and> is_ok (hash (Scalar_Point c b)))"

lemma nonce_loop_returns: "nonce_loop c hash draws \<noteq> None \<longleftrightarrow> (\<exists>d\<in>set draws. ends_loop c hash d)"
proof (induction draws rule: length_induct)
  case (1 draws)
  show ?case
  proof (cases draws)
    case Nil
    then show ?thesis by (subst nonce_loop.simps) (simp add: GenerateDKGNonce_def)
  next
    case (Cons d ds)
    have IH: "nonce_loop c hash ds \<noteq> None \<longleftrightarrow> (\<exists>d\<in>set ds. ends_loop c hash d)" using 1 Cons by simp
    show ?thesis
    proof (cases d)
      case (Inl e)
      then show ?thesis by (subst nonce_loop.simps) (simp add: Cons GenerateDKGNonce_def ends_loop_def)
    next
      case (Inr b)
      show ?thesis
      proof (cases "NewScalar b")
        case (Inl e)
        then have "nonce_loop c hash draws = nonce_loop c hash ds"
          using Inr by (subst (1 2) nonce_loop.simps) (simp add: Cons GenerateDKGNonce_def)
        then show ?thesis using IH Inl Inr Cons by (simp add: ends_loop_def)
      next
        case ok: (Inr s)
        then have s: "s = b" by (simp add: NewScalar_Inr_iff)
        then have "GenerateDKGNonce c draws = Some (Inr (NewScalarFromModNScalar (modNScalar b), Scalar_Point c b, ds))"
          using Inr ok Cons by (simp add: GenerateDKGNonce_def Scalar_Point_def Let_def)
        then show ?thesis
          using IH Inr ok s Cons by (subst nonce_loop.simps) (cases "hash (Scalar_Point c b)", auto simp: ends_loop_def)
      qed
    qed
  qed
qed

lemma GenerateDKGNonce_Inr:
  assumes "GenerateDKGNonce c draws = Some (Inr (n, p, rest))"
  shows "modNScalar n \<noteq> 0" and "p = Scalar_Point c n"
proof -
  obtain s where s: "RandomScalar draws = Some (Inr (s, rest))" "n = NewScalarFromModNScalar (modNScalar s)"
      "p = NewPointFromJacobianPoint c (base_mult c (modNScalar s))"
    using assms by (auto simp: GenerateDKGNonce_def Let_def split: option.splits sum.splits)
  from s(1) have "modNScalar s \<noteq> 0"
    by (induction draws rule: RandomScalar.induct) (auto simp: NewScalar_Inr_iff split: sum.splits)
  moreover have "modNScalar n = modNScalar s" using modNScalar_New [of "modNScalar s"] s(2) by simp
  ultimately show "modNScalar n \<noteq> 0" "p = Scalar_Point c n" using s(3) by (simp_all add: Scalar_Point_def)
qed

lemma nonce_loop_Inr:
  "nonce_loop c hash draws = Some (Inr (n, ch, rest)) \<Longrightarrow> modNScalar n \<noteq> 0 \<and> hash (Scalar_Point c n) = Inr ch"
proof (induction draws rule: length_induct)
  case (1 draws)
  obtain n' p r where g: "GenerateDKGNonce c draws = Some (Inr (n', p, r))"
    using 1(2) by (subst (asm) nonce_loop.simps) (auto split: option.splits sum.splits)
  show ?case
  proof (cases "hash p")
    case (Inl e)
    then have "nonce_loop c hash r = Some (Inr (n, ch, rest))" using 1(2) g by (subst (asm) nonce_loop.simps) simp
    then show ?thesis using 1(1) GenerateDKGNonce_length [OF g] by blast
  next
    case (Inr x)
    then have "n = n'" "ch = x" using 1(2) g by (subst (asm) nonce_loop.simps, simp)+
    then show ?thesis using GenerateDKGNonce_Inr [OF g] Inr by simp
  qed
qed

text \<open>A signature made with a nonce of the loop verifies against the challenge of its own nonce point.\<close>

lemma sign_with_nonce_verifies:
  assumes laws: "curve_laws c" and "modNScalar priv \<noteq> 0"
    and "sign_with_nonce c priv (nonce_loop c hash draws) = Some (Inr (\<sigma>, rest))"
  shows "bindE (hash (Signature_R \<sigma>)) (\<lambda>ch. Verify c (Signature_R \<sigma>) (Signature_S \<sigma>) ch (Scalar_Point c priv) None None) = Inr ()"
proof -
  obtain n ch where l: "nonce_loop c hash draws = Some (Inr (n, ch, rest))" and s: "Sign c priv ch n None = Inr \<sigma>"
    using assms(3) by (auto simp: sign_with_nonce_def bindE_eq_Inr_iff split: option.splits sum.splits)
  note n = nonce_loop_Inr [OF l]
  show ?thesis using Sign_Verify [OF laws assms(2) _ s] n by simp
qed

lemma Scalar_Point_parse:
  assumes "curve_laws c" and "modNScalar a \<noteq> 0"
  shows "jacobianPoint c (Scalar_Point c a) = Inr (base_mult c (modNScalar a))"
    and "cv_ParsePubKey c (Scalar_Point c a) = Some (base_mult c (modNScalar a))"
  using jacobianPoint_base [OF assms(1), of "modNScalar a"] assms curve_lawsD(5) [OF assms(1), of "modNScalar a"]
  by (simp_all add: Scalar_Point_def NewPointFromJacobianPoint_def)

lemma demo_challenge:
  assumes "modNScalar r \<noteq> 0" and "modNScalar p \<noteq> 0"
  shows "HashChallenge demo_curve (Scalar_Point demo_curve r) (Scalar_Point demo_curve p) data = Inr (be_bytes 32 7)"
proof -
  have "length (Scalar_Point demo_curve p) = 33" by (simp add: Scalar_Point_def NewPointFromJacobianPoint_def)
  then have "index (Scalar_Point demo_curve p) 0 = Inr (Scalar_Point demo_curve p ! 0)" by (simp add: index_def)
  then show ?thesis
    using Scalar_Point_parse(2) [OF demo_curve_laws assms(1)] Scalar_Point_parse(2) [OF demo_curve_laws assms(2)]
    by (simp add: HashChallenge_def Point_Address_def publicKey_def)
qed

section \<open>Encryption\<close>

lemma xor_xor: "Bit_Operations.xor (Bit_Operations.xor x y) y = (x :: byte)"
  by (rule bit_eqI) (auto simp: bit_simps)

lemma xor_bytes_twice: "length b = length a \<Longrightarrow> xor_bytes (xor_bytes a b) b = a"
  unfolding xor_bytes_def by (induction a b rule: list_induct2') (auto simp: xor_xor)

lemma Encrypt_Decrypt:
  assumes laws: "curve_laws c" and v: "length v = 32" and n: "length nonce = 16"
  obtains e where "Encrypt c v key (Inr nonce) = Inr e" "Decrypt c e key = Inr v" "length e = 48"
proof -
  note L = curve_lawsD [OF laws]
  let ?ks = "cv_ctr_stream c (cv_hkdf_key c (Hash c [key])) nonce 32"
  have len: "length (xor_bytes v ?ks) = 32" using v by (simp add: xor_bytes_def L(10))
  then have enc: "Encrypt c v key (Inr nonce) = Inr (xor_bytes v ?ks @ nonce)"
    using v n by (simp add: Encrypt_def PaddingBytes_def EncryptHKDF_def Hash_def L(9) NewEncSecretShare_def EncSecretShare_Validate_def)
  have "Decrypt c (xor_bytes v ?ks @ nonce) key = Inr v"
    using len n v xor_bytes_twice [of ?ks v]
    by (simp add: Decrypt_def DecryptHKDF_def EncSecretShare_Validate_def Hash_def L(9,10) EncSecretShare_Value_def EncSecretShare_Nonce_def)
  then show thesis using that [OF enc] len n by simp
qed

lemma xor_bytes_zero: "xor_bytes (replicate (length b) 0) b = b"
  unfolding xor_bytes_def by (induction b) simp_all

section \<open>Shares\<close>

lemma commits_parse:
  assumes "curve_laws c" and "\<forall>a\<in>set f. modNScalar a \<noteq> 0"
  shows "jacobianPoints c (map (Scalar_Point c) f) = Inr (map (base_mult c) (map modNScalar f))"
  using assms(2) by (induction f) (simp_all add: jacobianPoints_def Scalar_Point_parse [OF assms(1)])

text \<open>The two sides of a Diffie-Hellman key agree.\<close>

lemma ComputeSecretSym_agree:
  assumes "curve_laws c" and "modNScalar a \<noteq> 0" and "modNScalar b \<noteq> 0"
  shows "ComputeSecretSym c a (Scalar_Point c b) = Inr (cv_SerializeCompressed c (base_mult c (modNScalar a * modNScalar b)))"
    and "ComputeSecretSym c b (Scalar_Point c a) = ComputeSecretSym c a (Scalar_Point c b)"
  using assms by (simp_all add: ComputeSecretSym_def Scalar_Point_parse NewPointFromJacobianPoint_def curve_lawsD(2) mult.commute)

text \<open>A share verifies exactly when it is the value of the committed polynomial.\<close>

lemma VerifySecretShare_iff:
  assumes laws: "curve_laws c" and f: "\<forall>a\<in>set f. modNScalar a \<noteq> 0" and i: "i < 2 ^ 32"
  shows "VerifySecretShare c i share (map (Scalar_Point c) f) = Inr () \<longleftrightarrow>
    modNScalar share = poly_at (map modNScalar f) (int i) mod N"
  using solvePointPolynomial_base [OF laws, of "map modNScalar f" "int i"] serialize_inj [OF laws, of "poly_at (map modNScalar f) (int i)" "modNScalar share"]
  by (auto simp: VerifySecretShare_def ComputeSecretShareCommit_def commits_parse [OF laws f] NewPointFromJacobianPoint_def
      mid_scalar_id [OF i] simp del: map_map)

lemma ComputeSecretShare_eq:
  "i < 2 ^ 32 \<Longrightarrow> ComputeSecretShare f i = Inr (NewScalarFromModNScalar (poly_at (map modNScalar f) (int i) mod N))"
  by (simp add: ComputeSecretShare_def solveScalarPolynomial_eq mid_scalar_id)

section \<open>Complaints\<close>

lemma complaint_loop_Inr:
  "complaint_loop c I J key draws = Some (Inr (n, ch, ns, rest)) \<Longrightarrow>
   modNScalar n \<noteq> 0 \<and> ComputeSecretSym c n J = Inr ns \<and> HashRound3Complain c (Scalar_Point c n) ns I J key = Inr ch"
proof (induction draws rule: length_induct)
  case (1 draws)
  obtain n' p r where g: "GenerateDKGNonce c draws = Some (Inr (n', p, r))"
    using 1(2) by (subst (asm) complaint_loop.simps) (auto split: option.splits sum.splits)
  then obtain ns' where ns': "ComputeSecretSym c n' J = Inr ns'"
    using 1(2) by (subst (asm) complaint_loop.simps) (auto split: sum.splits)
  show ?case
  proof (cases "HashRound3Complain c p ns' I J key")
    case (Inl e)
    then have "complaint_loop c I J key r = Some (Inr (n, ch, ns, rest))"
      using 1(2) g ns' by (subst (asm) complaint_loop.simps) simp
    then show ?thesis using 1(1) GenerateDKGNonce_length [OF g] by blast
  next
    case (Inr x)
    then have "n = n' \<and> ch = x \<and> ns = ns'" using 1(2) g ns' by (subst (asm) complaint_loop.simps) simp
    then show ?thesis using GenerateDKGNonce_Inr [OF g] Inr ns' by simp
  qed
qed

lemma complaint_parts:
  assumes "curve_laws c"
  shows "ComplaintSignature_A1 (complaint_Serialize c a b z) = cv_SerializeCompressed c a"
    and "ComplaintSignature_A2 (complaint_Serialize c a b z) = cv_SerializeCompressed c b"
    and "ComplaintSignature_Z (complaint_Serialize c a b z) = be_bytes 32 (nat z)"
  using curve_lawsD(8) [OF assms]
  by (simp_all add: ComplaintSignature_A1_def ComplaintSignature_A2_def ComplaintSignature_Z_def complaint_Serialize_def)

text \<open>A complaint made with the member's one-time key carries a valid proof for the agreed key.\<close>

lemma SignComplaint_verifies:
  assumes laws: "curve_laws c" and a: "modNScalar a \<noteq> 0" and b: "modNScalar b \<noteq> 0"
    and sign: "SignComplaint c (Scalar_Point c a) (Scalar_Point c b) a draws = Some (Inr (cs, key))" and key: "is_ok (publicKey c key)"
  shows "VerifyComplaintSignature c (Scalar_Point c a) (Scalar_Point c b) key cs = Inr ()"
    and "ComputeSecretSym c b (Scalar_Point c a) = Inr key"
proof -
  note L = curve_lawsD [OF laws]
  let ?a = "modNScalar a" and ?b = "modNScalar b" and ?I = "Scalar_Point c a" and ?J = "Scalar_Point c b"
  have sym: "ComputeSecretSym c a ?J = Inr (cv_SerializeCompressed c (base_mult c (?a * ?b)))" by (rule ComputeSecretSym_agree(1) [OF laws a b])
  obtain n ch ns rest sg where loop: "complaint_loop c ?I ?J key draws = Some (Inr (n, ch, ns, rest))"
    and key_eq: "key = cv_SerializeCompressed c (base_mult c (?a * ?b))" and sg: "Sign c a ch n None = Inr sg"
    and cs: "NewComplaintSignatureFromComponents c (Signature_R sg) ns (Signature_S sg) = Inr cs"
    using sign sym by (auto simp: SignComplaint_def split: option.splits sum.splits)
  show "ComputeSecretSym c b ?I = Inr key" using ComputeSecretSym_agree(2) [OF laws a b] sym key_eq by simp
  note n = complaint_loop_Inr [OF loop, THEN conjunct1] complaint_loop_Inr [OF loop, THEN conjunct2, THEN conjunct1]
    complaint_loop_Inr [OF loop, THEN conjunct2, THEN conjunct2]
  let ?n = "modNScalar n" and ?z = "(modNScalar ch * ?a + modNScalar n) mod N"
  have ns: "ns = cv_SerializeCompressed c (base_mult c (?n * ?b))" using n(2) ComputeSecretSym_agree(1) [OF laws n(1) b] by simp
  have sg': "sg = schnorr_Serialize c (base_mult c ?n) ?z" using sg by (simp add: Sign_eq [OF a] scale_challenge_def)
  have z: "modNScalar (be_bytes 32 (nat ?z)) = ?z" by (rule modNScalar_be_bytes) (simp_all add: N_pos)
  have nb: "?n * ?b mod N \<noteq> 0" using cs by (auto simp: NewComplaintSignatureFromComponents_def jacobianPoint_eq ns L(5) split: if_splits option.splits)
  then have cs': "cs = complaint_Serialize c (base_mult c ?n) (base_mult c (?n * ?b)) ?z"
    using cs n(1) laws z by (simp add: NewComplaintSignatureFromComponents_def sg' ns jacobianPoint_eq L(5))
  have ab: "?a * ?b mod N \<noteq> 0" using key by (auto simp: key_eq publicKey_def L(5) split: if_splits)
  have A1: "cv_ParsePubKey c (cv_SerializeCompressed c (base_mult c ?n)) = Some (base_mult c ?n)" using n(1) by (simp add: L(5))
  have A2: "cv_ParsePubKey c (cv_SerializeCompressed c (base_mult c (?n * ?b))) = Some (base_mult c (?n * ?b))" using nb by (simp add: L(5))
  have K: "cv_ParsePubKey c key = Some (base_mult c (?a * ?b))" using ab by (simp add: key_eq L(5))
  have "Verify c (cv_SerializeCompressed c (base_mult c ?n)) (be_bytes 32 (nat ?z)) ch ?I None None = Inr ()"
    using Verify_base [OF laws A1 _ Scalar_Point_parse(2) [OF laws a], where gen = None and g = 1] n(1)
    by (simp add: z scale_challenge_def mod_diff_left_eq)
  moreover have "Verify c (cv_SerializeCompressed c (base_mult c (?n * ?b))) (be_bytes 32 (nat ?z)) ch key (Some ?J) None = Inr ()"
  proof -
    have "(?z * ?b - modNScalar ch * (?a * ?b)) mod N = ((modNScalar ch * ?a + ?n) * ?b - modNScalar ch * (?a * ?b)) mod N"
      by (metis mod_diff_left_eq mod_mult_left_eq)
    also have "(modNScalar ch * ?a + ?n) * ?b - modNScalar ch * (?a * ?b) = ?n * ?b" by (simp add: algebra_simps)
    finally show ?thesis
      using Verify_base [OF laws A2 nb K, where gen = "Some ?J" and g = ?b] Scalar_Point_parse(2) [OF laws b]
      by (simp add: z scale_challenge_def)
  qed
  moreover have "HashRound3Complain c (cv_SerializeCompressed c (base_mult c ?n)) ns ?I ?J key = Inr ch"
    using n(3) by (simp add: Scalar_Point_def NewPointFromJacobianPoint_def)
  ultimately show "VerifyComplaintSignature c ?I ?J key cs = Inr ()"
    by (simp add: VerifyComplaintSignature_def cs' complaint_parts [OF laws] ns)
qed

text \<open>
  What an accepted complaint signature proves: with the nonces \<open>r\<close> and \<open>u\<close> and the claimed key \<open>k\<close>, all as multiples of the generator, the
  challenge solves a linear congruence in which the distance of \<open>k\<close> from the agreed key is the coefficient.
\<close>

lemma complaint_signature_sound:
  assumes laws: "curve_laws c" and a: "modNScalar a \<noteq> 0" and b: "modNScalar b \<noteq> 0"
    and v: "VerifyComplaintSignature c (Scalar_Point c a) (Scalar_Point c b) key cs = Inr ()"
  obtains r u k h where "cv_ParsePubKey c (ComplaintSignature_A1 cs) = Some (base_mult c r)"
    "cv_ParsePubKey c (ComplaintSignature_A2 cs) = Some (base_mult c u)" "cv_ParsePubKey c key = Some (base_mult c k)"
    "HashRound3Complain c (ComplaintSignature_A1 cs) (ComplaintSignature_A2 cs) (Scalar_Point c a) (Scalar_Point c b) key = Inr h"
    "(modNScalar h * (k - modNScalar a * modNScalar b)) mod N = (r * modNScalar b - u) mod N"
proof -
  let ?A1 = "ComplaintSignature_A1 cs" and ?A2 = "ComplaintSignature_A2 cs" and ?z = "modNScalar (ComplaintSignature_Z cs)"
  let ?a = "modNScalar a" and ?b = "modNScalar b"
  obtain h where h: "HashRound3Complain c ?A1 ?A2 (Scalar_Point c a) (Scalar_Point c b) key = Inr h"
    and v1: "Verify c ?A1 (ComplaintSignature_Z cs) h (Scalar_Point c a) None None = Inr ()"
    and v2: "Verify c ?A2 (ComplaintSignature_Z cs) h key (Some (Scalar_Point c b)) None = Inr ()"
    using v by (auto simp: VerifyComplaintSignature_def bindE_eq_Inr_iff)
  obtain r where r: "cv_ParsePubKey c ?A1 = Some (base_mult c r)" "r mod N \<noteq> 0" by (rule Verify_parses [OF laws v1])
  obtain u k where u: "cv_ParsePubKey c ?A2 = Some (base_mult c u)" "u mod N \<noteq> 0" and k: "cv_ParsePubKey c key = Some (base_mult c k)"
    by (rule Verify_parses [OF laws v2])
  let ?h = "modNScalar h"
  have "N dvd r - (?z - ?h * ?a)" "N dvd u - (?z * ?b - ?h * k)"
    using v1 v2 Verify_base [OF laws r Scalar_Point_parse(2) [OF laws a], where gen = None and g = 1]
      Verify_base [OF laws u k, where gen = "Some (Scalar_Point c b)" and g = ?b] Scalar_Point_parse(2) [OF laws b]
    by (simp_all add: scale_challenge_def mod_eq_dvd_iff)
  then have "N dvd (u - (?z * ?b - ?h * k)) - ?b * (r - (?z - ?h * ?a))" by (meson dvd_diff dvd_mult)
  also have "(u - (?z * ?b - ?h * k)) - ?b * (r - (?z - ?h * ?a)) = ?h * (k - ?a * ?b) - (r * ?b - u)" by (simp add: algebra_simps)
  finally show ?thesis using that [OF r(1) u(1) k h] by (simp add: mod_eq_dvd_iff)
qed

section \<open>Keys\<close>

lemma poly_at_columns:
  assumes "\<forall>f\<in>set fs. length f = t"
  shows "poly_at (map (\<lambda>k. \<Sum>f\<leftarrow>fs. g (f ! k)) [0..<t]) x = (\<Sum>f\<leftarrow>fs. poly_at (map g f) x)"
  using assms
proof (induction fs)
  case Nil
  then show ?case by (simp add: poly_at_sum)
next
  case (Cons f fs)
  then show ?case by (simp add: poly_at_sum sum.distrib distrib_right)
qed

text \<open>What the accumulated commitments of all dealers open to.\<close>

lemma accumulated_commits:
  assumes laws: "curve_laws c" and len: "\<forall>f\<in>set fs. length f = t" and nz: "\<forall>f\<in>set fs. \<forall>a\<in>set f. modNScalar a \<noteq> 0"
    and C: "length C = t" "\<forall>k<t. SumPoints c (map (\<lambda>f. Scalar_Point c (f ! k)) fs) = Inr (C ! k)"
  shows "C = map (\<lambda>k. cv_SerializeCompressed c (base_mult c (\<Sum>f\<leftarrow>fs. modNScalar (f ! k)))) [0..<t]"
proof (rule nth_equalityI)
  fix k
  assume "k < length C"
  then have k: "k < t" using C(1) by simp
  have "modNScalar (f ! k) \<noteq> 0" if "f \<in> set fs" for f using nz len k that by (metis nth_mem)
  then have "mapE (jacobianPoint c) (map (\<lambda>f. Scalar_Point c (f ! k)) fs) = Inr (map (base_mult c) (map (\<lambda>f. modNScalar (f ! k)) fs))"
    unfolding map_map comp_def
    by (auto simp: mapE_Inr_iff list_all2_conv_all_nth intro!: Scalar_Point_parse(1) [OF laws])
  then show "C ! k = map (\<lambda>k. cv_SerializeCompressed c (base_mult c (\<Sum>f\<leftarrow>fs. modNScalar (f ! k)))) [0..<t] ! k"
    using C(2) [rule_format, OF k] k sumPoints_base [OF laws, of "map (\<lambda>f. modNScalar (f ! k)) fs"]
    by (simp add: SumPoints_def jacobianPoints_def NewPointFromJacobianPoint_def)
qed (simp add: C)

section \<open>Properties\<close>

text \<open>
  C2: partial signatures combine. Take at least as many members as there are commitments (the threshold), each with the public key that the
  commitments give it. If every partial signature verifies under its member's key and Lagrange coefficient, with the sum of their
  nonces as the group nonce, then combining them succeeds and the result verifies under the group's public key, which is the first commitment.
\<close>

theorem threshold_signature_verifies:
  assumes "curve_laws c" and "good_ids mids" and "commits \<noteq> []" and "length commits \<le> length mids"
    and "\<forall>i\<in>set mids. ComputeOwnPublicKey c commits i = Inr (pub i)"
    and "\<forall>i\<in>set mids. ComputeLagrangeCoefficient i mids = Inr (lag i)"
    and "\<forall>i\<in>set mids. Signature_Validate c (sig i) = Inr ()"
    and "ComputeGroupPublicNonce c (map (\<lambda>i. Signature_R (sig i)) mids) = Inr R"
    and "\<forall>i\<in>set mids. VerifySigningSignature c R (hd commits) data (lag i) (sig i) (pub i) = Inr ()"
  shows "\<exists>\<sigma>. CombineSignatures c (map sig mids) = Inr \<sigma> \<and> Signature_R \<sigma> = R \<and> Signature_Validate c \<sigma> = Inr () \<and>
    VerifyGroupSigningSignature c (hd commits) data \<sigma> = Inr ()"
  using assms by (rule combine_verifies)

theorem threshold_signature_verifies_witness:
  "\<exists>sig \<sigma>. CombineSignatures demo_curve (map sig [1, 2 :: nat]) = Inr \<sigma> \<and>
     VerifyGroupSigningSignature demo_curve (Scalar_Point demo_curve (be_bytes 32 5)) (str ''message'') \<sigma> = Inr ()"
proof -
  let ?c = demo_curve and ?commits = "[Scalar_Point demo_curve (be_bytes 32 5), Scalar_Point demo_curve (be_bytes 32 3)]"
  let ?mids = "[1, 2] :: nat list" and ?R = "Scalar_Point demo_curve (be_bytes 32 3)" and ?data = "str ''message''"
  define x where "x i = be_bytes 32 (5 + 3 * i)" for i :: nat
  have m: "(8::int) mod N = 8" "(11::int) mod N = 11" "(3::int) mod N = 3" by (simp_all add: N_def)
  have good: "good_ids ?mids" by (rule good_ids_small) simp_all
  obtain l1 where l1: "ComputeLagrangeCoefficient 1 ?mids = Inr l1" by (rule ComputeLagrangeCoefficient_weight [OF good, of 1]) simp_all
  obtain l2 where l2: "ComputeLagrangeCoefficient 2 ?mids = Inr l2" by (rule ComputeLagrangeCoefficient_weight [OF good, of 2]) simp_all
  define lag where "lag i = (if i = 1 then l1 else l2)" for i :: nat
  define ch :: bytes where "ch = be_bytes 32 7"
  have ch: "HashChallenge ?c ?R (hd ?commits) ?data = Inr ch"
    using demo_challenge [of "be_bytes 32 3" "be_bytes 32 5"] by (simp add: ch_def)
  have nz: "modNScalar (x i) \<noteq> 0" "modNScalar (be_bytes 32 i) \<noteq> 0" if "i \<in> {1, 2}" for i
    using that by (auto simp: x_def)
  define sig where "sig i = schnorr_Serialize ?c (base_mult ?c (modNScalar (be_bytes 32 i)))
    ((scale_challenge ch (Some (lag i)) * modNScalar (x i) + modNScalar (be_bytes 32 i)) mod N)" for i
  have sig: "Sign ?c (x i) ch (be_bytes 32 i) (Some (lag i)) = Inr (sig i)" if "i \<in> {1, 2}" for i
    unfolding sig_def by (rule Sign_eq [OF nz(1) [OF that]])
  note ver = Sign_Verify [OF demo_curve_laws nz sig]
  have pub: "ComputeOwnPublicKey ?c ?commits i = Inr (Scalar_Point ?c (x i))" if "i \<in> {1, 2}" for i
  proof -
    have "jacobianPoints ?c ?commits = Inr (map (base_mult ?c) [5, 3])"
      using commits_parse [OF demo_curve_laws, of "[be_bytes 32 5, be_bytes 32 3]"] by simp
    then show ?thesis
      using solvePointPolynomial_base [OF demo_curve_laws, of "[5, 3]" "int i"] that
      by (auto simp: ComputeOwnPublicKey_def mid_scalar_id poly_at_def x_def Scalar_Point_def m)
  qed
  have "map (\<lambda>i. Signature_R (sig i)) ?mids = [Scalar_Point ?c (be_bytes 32 1), Scalar_Point ?c (be_bytes 32 2)]"
    using ver(2) by simp
  moreover have "ComputeGroupPublicNonce ?c [Scalar_Point ?c (be_bytes 32 1), Scalar_Point ?c (be_bytes 32 2)] = Inr ?R"
    using commits_parse [OF demo_curve_laws, of "[be_bytes 32 1, be_bytes 32 2]"] sumPoints_base [OF demo_curve_laws, of "[1, 2]"]
    by (simp add: ComputeGroupPublicNonce_def Scalar_Point_def m)
  ultimately have R: "ComputeGroupPublicNonce ?c (map (\<lambda>i. Signature_R (sig i)) ?mids) = Inr ?R" by simp
  have valid: "Signature_Validate ?c (sig i) = Inr ()" if "i \<in> {1, 2}" for i
    using signature_of_Serialize [OF demo_curve_laws, of "modNScalar (be_bytes 32 i)"] nz(2) [OF that]
    by (simp add: Signature_Validate_def sig_def N_pos)
  have part: "VerifySigningSignature ?c ?R (hd ?commits) ?data (lag i) (sig i) (Scalar_Point ?c (x i)) = Inr ()" if "i \<in> {1, 2}" for i
    using ver(1) [OF that that that] ch by (simp add: VerifySigningSignature_def)
  have "\<exists>\<sigma>. CombineSignatures ?c (map sig ?mids) = Inr \<sigma> \<and> Signature_R \<sigma> = ?R \<and> Signature_Validate ?c \<sigma> = Inr () \<and>
      VerifyGroupSigningSignature ?c (hd ?commits) ?data \<sigma> = Inr ()"
    by (rule threshold_signature_verifies [OF demo_curve_laws good, where pub = "\<lambda>i. Scalar_Point ?c (x i)" and lag = lag])
      (use pub l1 l2 valid R part in \<open>simp_all add: lag_def\<close>)
  then show ?thesis unfolding list.sel by blast
qed

text \<open>
  C35: the keys fit together. When every dealer sends the shares of its polynomial, the private key of each member is the one whose public key
  is computed from the accumulated commitments, the group's public key is the first of them, and the keys of any members that reach the threshold,
  weighted by their Lagrange coefficients, add up to the private key of the group.
\<close>

theorem dkg_keys_correct:
  assumes laws: "curve_laws c" and len: "0 < t" "\<forall>f\<in>set fs. length f = t" and nz: "\<forall>f\<in>set fs. \<forall>a\<in>set f. modNScalar a \<noteq> 0"
    and C: "length C = t" "\<forall>k<t. SumPoints c (map (\<lambda>f. Scalar_Point c (f ! k)) fs) = Inr (C ! k)" "\<forall>P\<in>set C. is_ok (publicKey c P)"
    and good: "good_ids mids" "t \<le> length mids"
    and share: "\<forall>f\<in>set fs. \<forall>i\<in>set mids. ComputeSecretShare f i = Inr (share f i)"
    and x: "\<forall>i\<in>set mids. ComputeOwnPrivateKey (map (\<lambda>f. share f i) fs) = Inr (x i)"
    and lag: "\<forall>i\<in>set mids. ComputeLagrangeCoefficient i mids = Inr (lag i)"
  shows "(\<forall>i\<in>set mids. ComputeOwnPublicKey c C i = Inr (Scalar_Point c (x i))) \<and>
    ComputeGroupPublicKey c (map (\<lambda>f. Scalar_Point c (f ! 0)) fs) = Inr (hd C) \<and>
    hd C = NewPointFromJacobianPoint c (base_mult c (\<Sum>i\<leftarrow>mids. modNScalar (lag i) * modNScalar (x i)))"
proof -
  note L = curve_lawsD [OF laws]
  let ?b = "map (\<lambda>k. \<Sum>f\<leftarrow>fs. modNScalar (f ! k)) [0..<t]"
  have C_eq: "C = map (\<lambda>a. cv_SerializeCompressed c (base_mult c a)) ?b"
    using accumulated_commits [OF laws len(2) nz C(1,2)] by simp
  have "\<forall>a\<in>set ?b. a mod N \<noteq> 0" using C(3) by (auto simp: C_eq publicKey_def L(5) split: if_splits)
  then have parse: "jacobianPoints c C = Inr (map (base_mult c) ?b)" unfolding C_eq by (rule jacobianPoints_base [OF laws])
  have xi: "modNScalar (x i) = poly_at ?b (int i) mod N" if i: "i \<in> set mids" for i
  proof -
    have "i < 2 ^ 32" using good(1) i by (simp add: good_ids_def)
    then have "\<forall>f\<in>set fs. modNScalar (share f i) = poly_at (map modNScalar f) (int i) mod N"
      using share i ComputeSecretShare_eq [of i] modNScalar_New by (metis Inr_inject)
    then have "sum_list (map (\<lambda>f. modNScalar (share f i)) fs) mod N = (\<Sum>f\<leftarrow>fs. poly_at (map modNScalar f) (int i)) mod N"
      by (intro sum_list_mod_cong) simp
    moreover have "modNScalar (x i) = sum_list (map (\<lambda>f. modNScalar (share f i)) fs) mod N"
      using x i modNScalar_New by (simp add: ComputeOwnPrivateKey_def sumScalars_eq o_def) (metis modNScalar_New)
    ultimately show ?thesis by (simp add: poly_at_columns [OF len(2)])
  qed
  have "ComputeOwnPublicKey c C i = Inr (Scalar_Point c (x i))" if i: "i \<in> set mids" for i
  proof -
    have "i < 2 ^ 32" using good(1) i by (simp add: good_ids_def)
    then show ?thesis
      using solvePointPolynomial_base [OF laws, of ?b "int i"] xi [OF i] serialize_inj [OF laws]
      by (simp add: ComputeOwnPublicKey_def parse mid_scalar_id Scalar_Point_def NewPointFromJacobianPoint_def del: map_map)
  qed
  moreover have "ComputeGroupPublicKey c (map (\<lambda>f. Scalar_Point c (f ! 0)) fs) = Inr (hd C)"
    using C(1,2) len(1) hd_conv_nth [of C] by (auto simp: ComputeGroupPublicKey_def SumPoints_def)
  moreover have "(\<Sum>i\<leftarrow>mids. modNScalar (lag i) * modNScalar (x i)) mod N = hd ?b mod N"
  proof -
    have "(\<Sum>i\<leftarrow>mids. modNScalar (lag i) * modNScalar (x i)) mod N = (\<Sum>i\<leftarrow>mids. modNScalar (lag i) * poly_at ?b (int i)) mod N"
      by (intro sum_list_mod_cong) (simp add: xi mod_mult_right_eq)
    also have "\<dots> = hd ?b mod N" by (rule lagrange_interpolation [OF good(1) _ _ lag]) (use good(2) len(1) in auto)
    finally show ?thesis .
  qed
  moreover have "hd C = cv_SerializeCompressed c (base_mult c (hd ?b))" unfolding C_eq using len(1) by (intro hd_map) simp
  ultimately show ?thesis using serialize_inj [OF laws] by (simp add: NewPointFromJacobianPoint_def)
qed

theorem dkg_keys_correct_witness:
  "\<exists>x. (\<forall>i\<in>{1, 2}. ComputeOwnPublicKey demo_curve [Scalar_Point demo_curve (be_bytes 32 6), Scalar_Point demo_curve (be_bytes 32 5)] i =
     Inr (Scalar_Point demo_curve (x i)))"
proof -
  let ?c = demo_curve and ?fs = "[[be_bytes 32 2, be_bytes 32 1], [be_bytes 32 4, be_bytes 32 4]]" and ?mids = "[1, 2] :: nat list"
  let ?C = "[Scalar_Point demo_curve (be_bytes 32 6), Scalar_Point demo_curve (be_bytes 32 5)]"
  have m: "(6::int) mod N = 6" "(5::int) mod N = 5" by (simp_all add: N_def)
  have good: "good_ids ?mids" by (rule good_ids_small) simp_all
  have lag: "\<forall>i\<in>set ?mids. \<exists>l. ComputeLagrangeCoefficient i ?mids = Inr l" using ComputeLagrangeCoefficient_weight [OF good] by metis
  from bchoice [OF this] obtain lag where lag: "\<forall>i\<in>set ?mids. ComputeLagrangeCoefficient i ?mids = Inr (lag i)" by blast
  define share where "share f i = NewScalarFromModNScalar (poly_at (map modNScalar f) (int i) mod N)" for f i
  define x where "x i = NewScalarFromModNScalar (sumScalars (map modNScalar (map (\<lambda>f. share f i) ?fs)))" for i
  have sum: "SumPoints ?c (map (\<lambda>f. Scalar_Point ?c (f ! k)) ?fs) = Inr (?C ! k)" if "k < 2" for k
  proof -
    have "SumPoints ?c [Scalar_Point ?c (be_bytes 32 a), Scalar_Point ?c (be_bytes 32 b)] = Inr (Scalar_Point ?c (be_bytes 32 (a + b)))"
      if "0 < a" "a < 10" "0 < b" "b < 10" for a b
    proof -
      have "(int a + int b) mod N = int a + int b" using that by (simp add: N_def)
      then show ?thesis
        using commits_parse [OF demo_curve_laws, of "[be_bytes 32 a, be_bytes 32 b]"] sumPoints_base [OF demo_curve_laws, of "[int a, int b]"] that
        by (simp add: SumPoints_def Scalar_Point_def)
    qed
    from this [of 2 4] this [of 1 4] show ?thesis using that by (auto simp: less_2_cases_iff)
  qed
  have "(\<forall>i\<in>set ?mids. ComputeOwnPublicKey ?c ?C i = Inr (Scalar_Point ?c (x i))) \<and>
      ComputeGroupPublicKey ?c (map (\<lambda>f. Scalar_Point ?c (f ! 0)) ?fs) = Inr (hd ?C) \<and>
      hd ?C = NewPointFromJacobianPoint ?c (base_mult ?c (\<Sum>i\<leftarrow>?mids. modNScalar (lag i) * modNScalar (x i)))"
  proof (rule dkg_keys_correct [OF demo_curve_laws, where t = 2 and share = share])
    show "\<forall>P\<in>set ?C. is_ok (publicKey ?c P)"
      using Scalar_Point_parse(2) [OF demo_curve_laws, of "be_bytes 32 6"] Scalar_Point_parse(2) [OF demo_curve_laws, of "be_bytes 32 5"]
      by (simp add: publicKey_def)
    show "\<forall>f\<in>set ?fs. \<forall>i\<in>set ?mids. ComputeSecretShare f i = Inr (share f i)" by (simp add: ComputeSecretShare_eq share_def)
    show "\<forall>i\<in>set ?mids. ComputeOwnPrivateKey (map (\<lambda>f. share f i) ?fs) = Inr (x i)" by (simp add: ComputeOwnPrivateKey_def x_def)
  qed (use good lag sum in simp_all)
  from conjunct1 [OF this] show ?thesis by (intro exI [of _ x]) simp
qed

text \<open>
  C36: shares reach their members. The list a dealer encrypts has one entry for each other member, in the order of the ids; a member that
  computes the key it shares with the dealer from the dealer's one-time public key decrypts its entry to a share that verifies against the dealer's
  commitments.
\<close>

theorem secret_shares_delivered:
  assumes laws: "curve_laws c" and priv: "modNScalar a \<noteq> 0" and f: "\<forall>x\<in>set f. modNScalar x \<noteq> 0"
    and n: "length privs < 2 ^ 32" and privs: "\<forall>b\<in>set privs. modNScalar b \<noteq> 0" and nonces: "\<forall>i. \<exists>v. n16g i = Inr v \<and> length v = 16"
  shows "\<exists>es. ComputeEncryptedSecretShares c mid a (map (Scalar_Point c) privs) f n16g = Inr es \<and>
    length es = length (other_members (length privs) mid) \<and>
    (\<forall>p<length es. \<exists>key share. let j = other_members (length privs) mid ! p in
       ComputeSecretSym c (privs ! (j - 1)) (Scalar_Point c a) = Inr key \<and> DecryptSecretShare c (es ! p) key = Inr share \<and>
       VerifySecretShare c j share (map (Scalar_Point c) f) = Inr ())"
proof -
  let ?js = "other_members (length privs) mid"
  define key where "key j = cv_SerializeCompressed c (base_mult c (modNScalar a * modNScalar (privs ! (j - 1))))" for j
  define share where "share j = NewScalarFromModNScalar (poly_at (map modNScalar f) (int j) mod N)" for j
  have j: "j - 1 < length privs" "j < 2 ^ 32" if "j \<in> set ?js" for j using that n by (auto simp: other_members_def)
  have sym: "ComputeSecretSym c a (Scalar_Point c (privs ! (j - 1))) = Inr (key j)"
      "ComputeSecretSym c (privs ! (j - 1)) (Scalar_Point c a) = Inr (key j)" if "j \<in> set ?js" for j
    using ComputeSecretSym_agree [OF laws priv, of "privs ! (j - 1)"] privs j(1) [OF that] by (simp_all add: key_def)
  have keys: "mapE (\<lambda>j. ComputeSecretSym c a (map (Scalar_Point c) privs ! (j - 1))) ?js = Inr (map key ?js)"
    using sym(1) j(1) by (intro mapE_map) simp
  have shares: "mapE (ComputeSecretShare f) ?js = Inr (map share ?js)"
    using j(2) ComputeSecretShare_eq by (intro mapE_map) (simp add: share_def)
  have "\<forall>p<length ?js. \<exists>e. Encrypt c (share (?js ! p)) (key (?js ! p)) (n16g p) = Inr e \<and> Decrypt c e (key (?js ! p)) = Inr (share (?js ! p))"
  proof (intro allI impI)
    fix p
    obtain v where "n16g p = Inr v" "length v = 16" using nonces by blast
    then show "\<exists>e. Encrypt c (share (?js ! p)) (key (?js ! p)) (n16g p) = Inr e \<and> Decrypt c e (key (?js ! p)) = Inr (share (?js ! p))"
      using Encrypt_Decrypt [OF laws, of "share (?js ! p)" v "key (?js ! p)"] by (metis length_NewScalar share_def)
  qed
  then obtain e where e: "\<forall>p<length ?js. Encrypt c (share (?js ! p)) (key (?js ! p)) (n16g p) = Inr (e p) \<and>
      Decrypt c (e p) (key (?js ! p)) = Inr (share (?js ! p))"
    by metis
  have "EncryptSecretShares c (map share ?js) (map key ?js) n16g = Inr (map e [0..<length ?js])"
    using e by (auto simp: EncryptSecretShares_def intro!: mapE_map)
  then have "ComputeEncryptedSecretShares c mid a (map (Scalar_Point c) privs) f n16g = Inr (map e [0..<length ?js])"
    using keys shares by (simp add: ComputeEncryptedSecretShares_def)
  moreover have "VerifySecretShare c (?js ! p) (share (?js ! p)) (map (Scalar_Point c) f) = Inr ()" if "p < length ?js" for p
    using VerifySecretShare_iff [OF laws f j(2)] that by (simp add: share_def)
  ultimately show ?thesis using e sym(2) by (intro exI [of _ "map e [0..<length ?js]"]) (auto simp: Let_def DecryptSecretShare_def)
qed

theorem secret_shares_delivered_witness:
  "\<exists>es. ComputeEncryptedSecretShares demo_curve 1 (be_bytes 32 3) (map (Scalar_Point demo_curve) [be_bytes 32 3, be_bytes 32 4]) [be_bytes 32 9]
     (\<lambda>_. Inr (replicate 16 1)) = Inr es \<and> length es = 1"
proof -
  have "\<exists>es. ComputeEncryptedSecretShares demo_curve 1 (be_bytes 32 3) (map (Scalar_Point demo_curve) [be_bytes 32 3, be_bytes 32 4]) [be_bytes 32 9]
      (\<lambda>_. Inr (replicate 16 1)) = Inr es \<and> length es = length (other_members (length [be_bytes 32 3, be_bytes 32 4]) 1)"
    using secret_shares_delivered [OF demo_curve_laws, of "be_bytes 32 3" "[be_bytes 32 9]" "[be_bytes 32 3, be_bytes 32 4]"
        "\<lambda>_. Inr (replicate 16 1)" 1]
    by (simp del: list.map) blast
  moreover have "length (other_members (length [be_bytes 32 3, be_bytes 32 4]) 1) = 1" by (simp add: other_members_def upt_rec)
  ultimately show ?thesis by simp
qed

text \<open>
  C37: complaints. A member's complaint against a dealer, with the key they share, is upheld exactly when the dealer's encrypted share does not
  decrypt to one that verifies; whoever complains with that key, and whatever signature comes with it, a dealer whose share verifies is never convicted.
  A complaint with any key that is upheld carries two nonces and a key that are points of the curve, say the multiples \<open>r\<close>, \<open>u\<close> and \<open>k\<close> of the generator, for which the
  hash of nonces, one-time keys and claimed key solves \<open>h * (k - a * b) = r * b - u\<close> modulo the group order, \<open>a\<close> and \<open>b\<close> being the
  one-time private keys: for a key other than the agreed one (\<open>k \<noteq> a * b\<close>) the hash of the values chosen must hit the solution that these values fix.
\<close>

theorem complaint_upheld_iff_share_invalid:
  assumes laws: "curve_laws c" and a: "modNScalar a \<noteq> 0" and b: "modNScalar b \<noteq> 0"
    and sign: "SignComplaint c (Scalar_Point c a) (Scalar_Point c b) a draws = Some (Inr (cs, key))" and key: "is_ok (publicKey c key)"
    and enc: "EncSecretShare_Validate e = Inr ()"
  shows "ComputeSecretSym c b (Scalar_Point c a) = Inr key \<and>
    (\<exists>share. DecryptSecretShare c e key = Inr share \<and>
       VerifyComplaint c (Scalar_Point c a) (Scalar_Point c b) key cs e i commits =
         (if VerifySecretShare c i share commits = Inr () then Inl ErrValidSecretShare else Inr ()) \<and>
       (\<forall>I J cs'. VerifySecretShare c i share commits = Inr () \<longrightarrow> VerifyComplaint c I J key cs' e i commits \<noteq> Inr ())) \<and>
    (\<forall>key' cs'. VerifyComplaint c (Scalar_Point c a) (Scalar_Point c b) key' cs' e i commits = Inr () \<longrightarrow>
       (\<exists>r u k h. cv_ParsePubKey c (ComplaintSignature_A1 cs') = Some (base_mult c r) \<and>
          cv_ParsePubKey c (ComplaintSignature_A2 cs') = Some (base_mult c u) \<and> cv_ParsePubKey c key' = Some (base_mult c k) \<and>
          HashRound3Complain c (ComplaintSignature_A1 cs') (ComplaintSignature_A2 cs') (Scalar_Point c a) (Scalar_Point c b) key' = Inr h \<and>
          (modNScalar h * (k - modNScalar a * modNScalar b)) mod N = (r * modNScalar b - u) mod N))"
proof -
  have "DecryptSecretShare c e key = Inr (xor_bytes (EncSecretShare_Value e)
      (cv_ctr_stream c (cv_hkdf_key c (Hash c [key])) (EncSecretShare_Nonce e) 32))"
    using enc by (simp add: DecryptSecretShare_def Decrypt_def DecryptHKDF_def Hash_def curve_lawsD(9) [OF laws])
  then obtain share where share: "DecryptSecretShare c e key = Inr share" by blast
  note proof_ok = SignComplaint_verifies [OF laws a b sign key]
  have "VerifyComplaint c (Scalar_Point c a) (Scalar_Point c b) key cs e i commits =
      (if VerifySecretShare c i share commits = Inr () then Inl ErrValidSecretShare else Inr ())"
    using proof_ok(1) share by (simp add: VerifyComplaint_def split: sum.splits)
  moreover have "VerifySecretShare c i share commits = Inr () \<longrightarrow> VerifyComplaint c I J key cs' e i commits \<noteq> Inr ()" for I J cs'
    using share by (auto simp: VerifyComplaint_def bindE_eq_Inr_iff)
  moreover have "\<exists>r u k h. cv_ParsePubKey c (ComplaintSignature_A1 cs') = Some (base_mult c r) \<and>
          cv_ParsePubKey c (ComplaintSignature_A2 cs') = Some (base_mult c u) \<and> cv_ParsePubKey c key' = Some (base_mult c k) \<and>
          HashRound3Complain c (ComplaintSignature_A1 cs') (ComplaintSignature_A2 cs') (Scalar_Point c a) (Scalar_Point c b) key' = Inr h \<and>
          (modNScalar h * (k - modNScalar a * modNScalar b)) mod N = (r * modNScalar b - u) mod N"
    if "VerifyComplaint c (Scalar_Point c a) (Scalar_Point c b) key' cs' e i commits = Inr ()" for key' cs'
  proof -
    have "VerifyComplaintSignature c (Scalar_Point c a) (Scalar_Point c b) key' cs' = Inr ()"
      using that by (simp add: VerifyComplaint_def bindE_eq_Inr_iff)
    from complaint_signature_sound [OF laws a b this] show ?thesis by metis
  qed
  ultimately show ?thesis using proof_ok(2) share by blast
qed

theorem complaint_upheld_iff_share_invalid_witness:
  "\<exists>cs key. SignComplaint demo_curve (Scalar_Point demo_curve (be_bytes 32 2)) (Scalar_Point demo_curve (be_bytes 32 3)) (be_bytes 32 2)
     [Inr (be_bytes 32 4)] = Some (Inr (cs, key)) \<and>
     VerifyComplaint demo_curve (Scalar_Point demo_curve (be_bytes 32 2)) (Scalar_Point demo_curve (be_bytes 32 3)) key cs (replicate 48 0) 1 [] =
       Inr ()"
proof -
  let ?c = demo_curve and ?I = "Scalar_Point demo_curve (be_bytes 32 2)" and ?J = "Scalar_Point demo_curve (be_bytes 32 3)"
  have m: "(6::int) mod N = 6" "(12::int) mod N = 12" by (simp_all add: N_def)
  have key: "ComputeSecretSym ?c (be_bytes 32 2) ?J = Inr (Scalar_Point ?c (be_bytes 32 6))"
    and ns: "ComputeSecretSym ?c (be_bytes 32 4) ?J = Inr (Scalar_Point ?c (be_bytes 32 12))"
    using ComputeSecretSym_agree(1) [OF demo_curve_laws, of "be_bytes 32 2" "be_bytes 32 3"]
      ComputeSecretSym_agree(1) [OF demo_curve_laws, of "be_bytes 32 4" "be_bytes 32 3"]
    by (simp_all add: Scalar_Point_def NewPointFromJacobianPoint_def)
  have new: "NewScalar (be_bytes 32 4) = Inr (be_bytes 32 4)"
    by (simp add: NewScalar_Inr_iff be_value_be_bytes_id) (simp add: N_def)
  have four: "NewScalarFromModNScalar 4 = be_bytes 32 4" by (simp add: NewScalarFromModNScalar_def)
  have "complaint_loop ?c ?I ?J (Scalar_Point ?c (be_bytes 32 6)) [Inr (be_bytes 32 4)] =
      Some (Inr (be_bytes 32 4, be_bytes 32 7, Scalar_Point ?c (be_bytes 32 12), []))"
    using ns new by (subst complaint_loop.simps) (simp add: GenerateDKGNonce_def four HashRound3Complain_def)
  moreover obtain sg where sg: "Sign ?c (be_bytes 32 2) (be_bytes 32 7) (be_bytes 32 4) None = Inr sg" using Sign_eq [of "be_bytes 32 2" ?c] by simp
  moreover have R: "Signature_R sg = Scalar_Point ?c (be_bytes 32 4)" by (rule Sign_Verify(2) [OF demo_curve_laws _ _ sg]) simp_all
  moreover obtain cs where "NewComplaintSignatureFromComponents ?c (Signature_R sg) (Scalar_Point ?c (be_bytes 32 12)) (Signature_S sg) = Inr cs"
    using Scalar_Point_parse(1) [OF demo_curve_laws, of "be_bytes 32 4"] Scalar_Point_parse(1) [OF demo_curve_laws, of "be_bytes 32 12"]
    by (simp add: NewComplaintSignatureFromComponents_def R)
  ultimately have sign: "SignComplaint ?c ?I ?J (be_bytes 32 2) [Inr (be_bytes 32 4)] = Some (Inr (cs, Scalar_Point ?c (be_bytes 32 6)))"
    using key by (simp add: SignComplaint_def)
  have ok: "is_ok (publicKey ?c (Scalar_Point ?c (be_bytes 32 6)))"
    using Scalar_Point_parse(2) [OF demo_curve_laws, of "be_bytes 32 6"] by (simp add: publicKey_def)
  obtain share where sh: "DecryptSecretShare ?c (replicate 48 0) (Scalar_Point ?c (be_bytes 32 6)) = Inr share"
    and v: "VerifyComplaint ?c ?I ?J (Scalar_Point ?c (be_bytes 32 6)) cs (replicate 48 0) 1 [] =
      (if VerifySecretShare ?c 1 share [] = Inr () then Inl ErrValidSecretShare else Inr ())"
    using complaint_upheld_iff_share_invalid [OF demo_curve_laws _ _ sign ok, of "replicate 48 0" 1 "[]", THEN conjunct2, THEN conjunct1]
    by (auto simp: EncSecretShare_Validate_def)
  have "share = be_bytes 32 5"
    using sh xor_bytes_zero [of "be_bytes 32 5"]
    by (simp add: DecryptSecretShare_def Decrypt_def DecryptHKDF_def EncSecretShare_Validate_def EncSecretShare_Value_def
        Hash_def demo_curve_def)
  then have "modNScalar share \<noteq> 0" by simp
  then have "VerifySecretShare ?c 1 share [] \<noteq> Inr ()"
    using VerifySecretShare_iff [OF demo_curve_laws, of "[]" 1 share] by (simp add: poly_at_def)
  then show ?thesis using sign v by auto
qed

text \<open>
  C38: the loop of \<open>SignA0\<close> (the same one signs one-time keys and own public keys) ends as soon as a draw fails, or is a scalar below
  the order, not zero, for which the challenge hashes to such a scalar; it goes on only as long as no draw is of this kind.
\<close>

theorem SignA0_returns:
  "SignA0 c mid dkgContext a0Pub a0Priv draws \<noteq> None \<longleftrightarrow>
    (\<exists>d\<in>set draws. case d of Inl _ \<Rightarrow> True
       | Inr b \<Rightarrow> is_ok (NewScalar b) \<and> is_ok (HashRound1A0 c (Scalar_Point c b) mid dkgContext a0Pub))"
  using nonce_loop_returns [of c "\<lambda>p. HashRound1A0 c p mid dkgContext a0Pub" draws]
  by (auto simp: SignA0_def sign_with_nonce_def ends_loop_def split: option.splits sum.splits)

text \<open>
  C39: \<open>ComputeCommitment\<close> accepts ids in any order and with repetitions: the previous id of its order check is never updated, so
  that only the id zero is rejected. The bytes are those of the list as given.
\<close>

theorem ComputeCommitment_checks_only_zero:
  "ComputeCommitment mids pubDs pubEs =
     (if length pubDs = length mids \<and> length pubEs = length mids
      then if 0 \<in> set mids then Inl ErrInvalidOrder
           else Inr (concat (map (\<lambda>i. be_bytes 8 (mids ! i) @ pubDs ! i @ pubEs ! i) [0..<length mids]))
      else Inl ErrInvalidLength)"
proof -
  have "foldE (commitment_step 0 mids pubDs pubEs) acc is =
      (if \<exists>i\<in>set is. mids ! i = 0 then Inl ErrInvalidOrder
       else Inr (acc @ concat (map (\<lambda>i. be_bytes 8 (mids ! i) @ pubDs ! i @ pubEs ! i) is)))" for acc "is"
    by (induction "is" arbitrary: acc) (auto simp: commitment_step_def)
  moreover have "(\<exists>i\<in>set [0..<length mids]. mids ! i = 0) \<longleftrightarrow> 0 \<in> set mids" by (auto simp: in_set_conv_nth)
  ultimately have "foldE (commitment_step 0 mids pubDs pubEs) [] [0..<length mids] =
      (if 0 \<in> set mids then Inl ErrInvalidOrder
       else Inr (concat (map (\<lambda>i. be_bytes 8 (mids ! i) @ pubDs ! i @ pubEs ! i) [0..<length mids])))"
    by (simp only: append_Nil)
  then show ?thesis unfolding ComputeCommitment_def by (simp only: if_distrib) auto
qed

end
