(* ===== verification/Xtss_Data.thy ===== *)
theory Xtss_Data
  imports Tss_Rounds Sdk Bandrng Validator_Status
begin

text \<open>
  The module \<open>x/tss\<close>, first part: its types, store keys, parameters, the validation of its messages, originators and the routers
  (\<open>types/\<close>). The module runs the distributed key generation of a group of members and the rounds of threshold signing, with the
  library \<open>pkg/tss\<close>.
\<close>

section \<open>Errors\<close>

text \<open>A panic passes through an error check of the caller; every other error does not.\<close>

definition wrap_err :: "error \<Rightarrow> 'a result \<Rightarrow> 'a result" where
  "wrap_err e m = (case m of Inr x \<Rightarrow> Inr x | Inl (Panic p) \<Rightarrow> Inl (Panic p) | Inl _ \<Rightarrow> Inl e)"

definition catchE :: "'a result \<Rightarrow> 'a option result" where
  "catchE m = (case m of Inr x \<Rightarrow> Inr (Some x) | Inl (Panic p) \<Rightarrow> Inl (Panic p) | Inl _ \<Rightarrow> Inr None)"

definition must :: "'a result \<Rightarrow> 'a result" where
  "must m = (case m of Inr x \<Rightarrow> Inr x | Inl _ \<Rightarrow> Inl (Panic ''must''))"

definition ErrGroupCreationFailed :: error where "ErrGroupCreationFailed = Registered ''tss'' 2"
definition ErrGroupNotFound :: error where "ErrGroupNotFound = Registered ''tss'' 3"
definition ErrMemberNotFound :: error where "ErrMemberNotFound = Registered ''tss'' 4"
definition ErrMemberAlreadySubmit :: error where "ErrMemberAlreadySubmit = Registered ''tss'' 5"
definition ErrRound1InfoNotFound :: error where "ErrRound1InfoNotFound = Registered ''tss'' 6"
definition ErrDKGContextNotFound :: error where "ErrDKGContextNotFound = Registered ''tss'' 7"
definition ErrInvalidGroupStatus :: error where "ErrInvalidGroupStatus = Registered ''tss'' 8"
definition ErrVerifyOneTimeSignatureFailed :: error where "ErrVerifyOneTimeSignatureFailed = Registered ''tss'' 9"
definition ErrVerifyA0SignatureFailed :: error where "ErrVerifyA0SignatureFailed = Registered ''tss'' 10"
definition ErrAddCoeffCommit :: error where "ErrAddCoeffCommit = Registered ''tss'' 11"
definition ErrInvalidLengthCoeffCommits :: error where "ErrInvalidLengthCoeffCommits = Registered ''tss'' 12"
definition ErrRound2InfoNotFound :: error where "ErrRound2InfoNotFound = Registered ''tss'' 13"
definition ErrInvalidLengthEncryptedSecretShares :: error where "ErrInvalidLengthEncryptedSecretShares = Registered ''tss'' 14"
definition ErrComputeOwnPubKeyFailed :: error where "ErrComputeOwnPubKeyFailed = Registered ''tss'' 15"
definition ErrComplainFailed :: error where "ErrComplainFailed = Registered ''tss'' 16"
definition ErrConfirmFailed :: error where "ErrConfirmFailed = Registered ''tss'' 17"
definition ErrConfirmNotFound :: error where "ErrConfirmNotFound = Registered ''tss'' 18"
definition ErrComplaintsWithStatusNotFound :: error where "ErrComplaintsWithStatusNotFound = Registered ''tss'' 19"
definition ErrDENotFound :: error where "ErrDENotFound = Registered ''tss'' 20"
definition ErrGroupIsNotActive :: error where "ErrGroupIsNotActive = Registered ''tss'' 21"
definition ErrInsufficientSigners :: error where "ErrInsufficientSigners = Registered ''tss'' 22"
definition tss_ErrBadDrbgInitialization :: error where "tss_ErrBadDrbgInitialization = Registered ''tss'' 23"
definition ErrPartialSignatureNotFound :: error where "ErrPartialSignatureNotFound = Registered ''tss'' 24"
definition tss_ErrSigningNotFound :: error where "tss_ErrSigningNotFound = Registered ''tss'' 26"
definition ErrAlreadySigned :: error where "ErrAlreadySigned = Registered ''tss'' 27"
definition ErrSigningAlreadySuccess :: error where "ErrSigningAlreadySuccess = Registered ''tss'' 28"
definition ErrMemberNotAssigned :: error where "ErrMemberNotAssigned = Registered ''tss'' 29"
definition ErrSubmitSigningSignatureFailed :: error where "ErrSubmitSigningSignatureFailed = Registered ''tss'' 30"
definition ErrDELimitExceeded :: error where "ErrDELimitExceeded = Registered ''tss'' 31"
definition ErrHandleSignatureOrderFailed :: error where "ErrHandleSignatureOrderFailed = Registered ''tss'' 32"
definition ErrHandlerNotFound :: error where "ErrHandlerNotFound = Registered ''tss'' 33"
definition ErrInvalidCoefficientCommit :: error where "ErrInvalidCoefficientCommit = Registered ''tss'' 34"
definition ErrInvalidPublicKey :: error where "ErrInvalidPublicKey = Registered ''tss'' 35"
definition tss_ErrInvalidSignature :: error where "tss_ErrInvalidSignature = Registered ''tss'' 36"
definition tss_ErrInvalidSecretShare :: error where "tss_ErrInvalidSecretShare = Registered ''tss'' 37"
definition ErrInvalidComplaint :: error where "ErrInvalidComplaint = Registered ''tss'' 38"
definition ErrInvalidDE :: error where "ErrInvalidDE = Registered ''tss'' 39"
definition ErrMaxSigningAttemptExceeded :: error where "ErrMaxSigningAttemptExceeded = Registered ''tss'' 40"
definition ErrInvalidOriginator :: error where "ErrInvalidOriginator = Registered ''tss'' 42"
definition ErrInvalidMessage :: error where "ErrInvalidMessage = Registered ''tss'' 43"
definition ErrSigningAttemptNotFound :: error where "ErrSigningAttemptNotFound = Registered ''tss'' 44"
definition ErrInvalidMember :: error where "ErrInvalidMember = Registered ''tss'' 45"
definition ErrInvalidGroup :: error where "ErrInvalidGroup = Registered ''tss'' 46"
definition ErrInvalidSigning :: error where "ErrInvalidSigning = Registered ''tss'' 47"
definition ErrCreateSigningFailed :: error where "ErrCreateSigningFailed = Registered ''tss'' 48"

definition tss_ErrUnknownRequest :: error where
  "tss_ErrUnknownRequest = Errorf ''sdk: unknown request''"

section \<open>Types\<close>

text \<open>Byte slices that may be nil are empty then: the code treats nil and empty slices alike.\<close>

type_synonym GroupID = uint64
type_synonym SigningID = uint64

datatype GroupStatus =
    GROUP_STATUS_UNSPECIFIED | GROUP_STATUS_ROUND_1 | GROUP_STATUS_ROUND_2 | GROUP_STATUS_ROUND_3
  | GROUP_STATUS_ACTIVE | GROUP_STATUS_EXPIRED | GROUP_STATUS_FALLEN | GROUP_STATUS_OTHER int

datatype SigningStatus =
    SIGNING_STATUS_UNSPECIFIED | SIGNING_STATUS_WAITING | SIGNING_STATUS_SUCCESS | SIGNING_STATUS_FALLEN

datatype ComplaintStatus = COMPLAINT_STATUS_UNSPECIFIED | COMPLAINT_STATUS_SUCCESS | COMPLAINT_STATUS_FAILED

record Group =
  grp_ID :: GroupID
  grp_Size :: uint64
  grp_Threshold :: uint64
  grp_PubKey :: Point
  grp_Status :: GroupStatus
  grp_CreatedHeight :: uint64
  grp_ModuleOwner :: bytes

record Member =
  mem_ID :: MemberID
  mem_GroupID :: GroupID
  mem_Address :: bytes
  mem_PubKey :: Point
  mem_IsMalicious :: bool
  mem_IsActive :: bool

record tss_Round1Info =
  ri_MemberID :: MemberID
  ri_CoefficientCommits :: "Point list"
  ri_OneTimePubKey :: Point
  ri_A0Signature :: Signature
  ri_OneTimeSignature :: Signature

record Round2Info =
  r2_MemberID :: MemberID
  r2_EncryptedSecretShares :: "EncSecretShare list"

record Confirm =
  conf_MemberID :: MemberID
  conf_OwnPubKeySig :: Signature

record Complaint =
  comp_Complainant :: MemberID
  comp_Respondent :: MemberID
  comp_KeySym :: Point
  comp_Signature :: ComplaintSignature

record ComplaintWithStatus =
  cws_Complaint :: Complaint
  cws_ComplaintStatus :: ComplaintStatus

record ComplaintsWithStatus =
  csws_MemberID :: MemberID
  csws_ComplaintsWithStatus :: "ComplaintWithStatus list"

record DE =
  de_PubD :: Point
  de_PubE :: Point

record DEQueue =
  deq_Head :: uint64
  deq_Tail :: uint64

record Signing =
  sgn_ID :: SigningID
  sgn_CurrentAttempt :: uint64
  sgn_GroupID :: GroupID
  sgn_GroupPubKey :: Point
  sgn_Message :: bytes
  sgn_GroupPubNonce :: Point
  sgn_Signature :: Signature
  sgn_Status :: SigningStatus
  sgn_CreatedHeight :: uint64
  sgn_CreatedTimestamp :: time

record AssignedMember =
  am_MemberID :: MemberID
  am_Address :: bytes
  am_PubKey :: Point
  am_PubD :: Point
  am_PubE :: Point
  am_BindingFactor :: Scalar
  am_PubNonce :: Point

record SigningAttempt =
  sa_SigningID :: SigningID
  sa_Attempt :: uint64
  sa_ExpiredHeight :: uint64
  sa_AssignedMembers :: "AssignedMember list"

record SigningExpiration =
  se_SigningID :: SigningID
  se_SigningAttempt :: uint64

record PartialSignature =
  ps_SigningID :: SigningID
  ps_SigningAttempt :: uint64
  ps_MemberID :: MemberID
  ps_Signature :: Signature

record tss_Params =
  xp_MaxGroupSize :: uint64
  xp_MaxDESize :: uint64
  xp_CreationPeriod :: uint64
  xp_SigningPeriod :: uint64
  xp_MaxSigningAttempt :: uint64
  xp_MaxMemoLength :: uint64
  xp_MaxMessageLength :: uint64

record DEGenesis =
  dg_Address :: bytes
  dg_DE :: DE

record tss_GenesisState =
  xg_Params :: tss_Params
  xg_Groups :: "Group list"
  xg_Members :: "Member list"
  xg_DEs :: "DEGenesis list"

definition tss_DefaultParams :: tss_Params where
  "tss_DefaultParams = \<lparr>xp_MaxGroupSize = 20, xp_MaxDESize = 300, xp_CreationPeriod = 30000, xp_SigningPeriod = 100,
     xp_MaxSigningAttempt = 5, xp_MaxMemoLength = 100, xp_MaxMessageLength = 1000\<rparr>"

definition tss_validateUint64 :: "bool \<Rightarrow> uint64 \<Rightarrow> unit result" where
  "tss_validateUint64 positiveOnly v = (if v = 0 \<and> positiveOnly then Inl (Errorf ''must be positive'') else Inr ())"

definition tss_Params_Validate :: "tss_Params \<Rightarrow> unit result" where
  "tss_Params_Validate p =
     foldE (\<lambda>_ (v, pos). tss_validateUint64 pos v) ()
       [(xp_MaxGroupSize p, True), (xp_MaxDESize p, True), (xp_CreationPeriod p, True), (xp_SigningPeriod p, True),
        (xp_MaxSigningAttempt p, False), (xp_MaxMemoLength p, True), (xp_MaxMessageLength p, True)]"

definition tss_DefaultGenesisState :: tss_GenesisState where
  "tss_DefaultGenesisState = \<lparr>xg_Params = tss_DefaultParams, xg_Groups = [], xg_Members = [], xg_DEs = []\<rparr>"

definition NewAssignedMember :: "Member \<Rightarrow> DE \<Rightarrow> Scalar \<Rightarrow> Point \<Rightarrow> AssignedMember" where
  "NewAssignedMember member de bindingFactor pubNonce =
     \<lparr>am_MemberID = mem_ID member, am_Address = mem_Address member, am_PubKey = mem_PubKey member,
      am_PubD = de_PubD de, am_PubE = de_PubE de, am_BindingFactor = bindingFactor, am_PubNonce = pubNonce\<rparr>"

definition HaveMalicious :: "Member list \<Rightarrow> bool" where
  "HaveMalicious ms \<longleftrightarrow> (\<exists>m\<in>set ms. mem_IsMalicious m)"

definition FindAssignedMember :: "AssignedMember list \<Rightarrow> MemberID \<Rightarrow> AssignedMember option" where
  "FindAssignedMember ams mid = find (\<lambda>am. mid = am_MemberID am) ams"

definition VerifySignatureR :: "AssignedMember list \<Rightarrow> MemberID \<Rightarrow> Point \<Rightarrow> bool" where
  "VerifySignatureR ams mid r = (case find (\<lambda>am. mid = am_MemberID am) ams of None \<Rightarrow> False | Some am \<Rightarrow> r = am_PubNonce am)"

section \<open>Validation\<close>

definition Group_Validate :: "'p curve \<Rightarrow> Group \<Rightarrow> unit result" where
  "Group_Validate c g =
     (if grp_ID g = 0 then Inl ErrInvalidGroup
      else if grp_Threshold g > grp_Size g then Inl ErrInvalidGroup
      else if grp_PubKey g = [] then Inl ErrInvalidGroup
      else
        bindE (wrap_err ErrInvalidGroup (Point_Validate c (grp_PubKey g))) (\<lambda>_.
        case grp_Status g of
          GROUP_STATUS_OTHER _ \<Rightarrow> Inl ErrInvalidGroup
        | GROUP_STATUS_UNSPECIFIED \<Rightarrow> Inl ErrInvalidGroup
        | _ \<Rightarrow>
            if grp_CreatedHeight g = 0 then Inl ErrInvalidGroup
            else if grp_ModuleOwner g = [] then Inl ErrInvalidGroup else Inr ()))"

definition Member_Validate :: "sdk \<Rightarrow> 'p curve \<Rightarrow> Member \<Rightarrow> unit result" where
  "Member_Validate sdk c m =
     (if mem_ID m = 0 then Inl ErrInvalidMember
      else if mem_GroupID m = 0 then Inl ErrInvalidMember
      else
        bindE (wrap_err ErrInvalidMember (AccAddressFromBech32 sdk (mem_Address m))) (\<lambda>_.
        wrap_err ErrInvalidMember (Point_Validate c (mem_PubKey m))))"

definition Round1Info_Validate :: "'p curve \<Rightarrow> tss_Round1Info \<Rightarrow> unit result" where
  "Round1Info_Validate c r =
     (if ri_MemberID r = 0 then Inl ErrInvalidMember
      else
        bindE (foldE (\<lambda>_ p. wrap_err ErrInvalidCoefficientCommit (Point_Validate c p)) () (ri_CoefficientCommits r)) (\<lambda>_.
        bindE (wrap_err ErrInvalidPublicKey (Point_Validate c (ri_OneTimePubKey r))) (\<lambda>_.
        bindE (wrap_err tss_ErrInvalidSignature (Signature_Validate c (ri_A0Signature r))) (\<lambda>_.
        wrap_err tss_ErrInvalidSignature (Signature_Validate c (ri_OneTimeSignature r))))))"

definition Round2Info_Validate :: "Round2Info \<Rightarrow> unit result" where
  "Round2Info_Validate r =
     (if r2_MemberID r = 0 then Inl ErrInvalidMember
      else foldE (\<lambda>_ e. wrap_err tss_ErrInvalidSecretShare (EncSecretShare_Validate e)) () (r2_EncryptedSecretShares r))"

definition Complaint_Validate :: "'p curve \<Rightarrow> Complaint \<Rightarrow> unit result" where
  "Complaint_Validate c p =
     (if comp_Complainant p = 0 then Inl ErrInvalidComplaint
      else if comp_Respondent p = 0 then Inl ErrInvalidComplaint
      else if comp_Complainant p = comp_Respondent p then Inl ErrInvalidComplaint
      else
        bindE (wrap_err ErrInvalidComplaint (Point_Validate c (comp_KeySym p))) (\<lambda>_.
        wrap_err ErrInvalidComplaint (ComplaintSignature_Validate c (comp_Signature p))))"

definition DE_Validate :: "'p curve \<Rightarrow> DE \<Rightarrow> unit result" where
  "DE_Validate c d =
     bindE (wrap_err ErrInvalidDE (Point_Validate c (de_PubD d))) (\<lambda>_.
     wrap_err ErrInvalidDE (Point_Validate c (de_PubE d)))"

text \<open>
  The maps of \<open>GenesisState.Validate\<close> are keyed by the group id, and by the member id or address together with the group id;
  the printed keys \<open>id-group\<close> determine the pair, as the group id holds no dash.
\<close>

definition genesis_member_step ::
  "sdk \<Rightarrow> 'p curve \<Rightarrow> (GroupID, uint64) kv \<Rightarrow>
   (GroupID, uint64) kv \<times> (MemberID \<times> GroupID) list \<times> (bytes \<times> GroupID) list \<Rightarrow> Member \<Rightarrow>
   ((GroupID, uint64) kv \<times> (MemberID \<times> GroupID) list \<times> (bytes \<times> GroupID) list) result" where
  "genesis_member_step sdk c groupSizes st member =
     (let (memberCounts, seenMemberIDGroups, seenMemberAddressGroups) = st; gid = mem_GroupID member in
      bindE (Member_Validate sdk c member) (\<lambda>_.
      case kv_get groupSizes gid of
        None \<Rightarrow> Inl (Errorf ''invalid group ID'')
      | Some sz \<Rightarrow>
          if mem_ID member > sz then Inl (Errorf ''invalid group ID'')
          else if (mem_ID member, gid) \<in> set seenMemberIDGroups then Inl (Errorf ''duplicate member ID'')
          else if (mem_Address member, gid) \<in> set seenMemberAddressGroups then Inl (Errorf ''duplicate member Address'')
          else
            let cnt = (case kv_get memberCounts gid of None \<Rightarrow> 0 | Some n \<Rightarrow> n) in
            Inr (kv_set memberCounts gid (u64 (cnt + 1)), (mem_ID member, gid) # seenMemberIDGroups,
                 (mem_Address member, gid) # seenMemberAddressGroups)))"

definition tss_GenesisState_Validate :: "sdk \<Rightarrow> 'p curve \<Rightarrow> tss_GenesisState \<Rightarrow> unit result" where
  "tss_GenesisState_Validate sdk c gs =
     bindE (tss_Params_Validate (xg_Params gs)) (\<lambda>_.
     bindE (foldE (\<lambda>sizes g.
        if kv_has sizes (grp_ID g) then Inl (Errorf ''duplicate group ID'')
        else bindE (Group_Validate c g) (\<lambda>_. Inr (kv_set sizes (grp_ID g) (grp_Size g)))) [] (xg_Groups gs)) (\<lambda>groupSizes.
     bindE (foldE (genesis_member_step sdk c groupSizes) ([], [], []) (xg_Members gs)) (\<lambda>(memberCounts, _, _).
     bindE (foldE (\<lambda>_ (gid, sz).
        if sz \<noteq> (case kv_get memberCounts gid of None \<Rightarrow> 0 | Some n \<Rightarrow> n) then Inl (Errorf ''group size'') else Inr ()) ()
        groupSizes) (\<lambda>_.
     foldE (\<lambda>_ d. bindE (AccAddressFromBech32 sdk (dg_Address d)) (\<lambda>_. DE_Validate c (dg_DE d))) () (xg_DEs gs)))))"

section \<open>Messages\<close>

record MsgSubmitDKGRound1 =
  m1_GroupID :: GroupID
  m1_Round1Info :: tss_Round1Info
  m1_Sender :: bytes

record MsgSubmitDKGRound2 =
  m2_GroupID :: GroupID
  m2_Round2Info :: Round2Info
  m2_Sender :: bytes

record MsgComplain =
  mcp_GroupID :: GroupID
  mcp_Complaints :: "Complaint list"
  mcp_Sender :: bytes

record MsgConfirm =
  mcf_GroupID :: GroupID
  mcf_MemberID :: MemberID
  mcf_OwnPubKeySig :: Signature
  mcf_Sender :: bytes

record MsgSubmitDEs =
  mde_DEs :: "DE list"
  mde_Sender :: bytes

record MsgSubmitSignature =
  mss_SigningID :: SigningID
  mss_MemberID :: MemberID
  mss_Signature :: Signature
  mss_Signer :: bytes

definition sender_ok :: "sdk \<Rightarrow> bytes \<Rightarrow> unit result" where
  "sender_ok sdk a = bindE (wrap_err sdk_ErrInvalidAddress (AccAddressFromBech32 sdk a)) (\<lambda>_. Inr ())"

definition MsgSubmitDKGRound1_ValidateBasic :: "sdk \<Rightarrow> 'p curve \<Rightarrow> MsgSubmitDKGRound1 \<Rightarrow> unit result" where
  "MsgSubmitDKGRound1_ValidateBasic sdk c m =
     (if m1_GroupID m = 0 then Inl ErrInvalidGroup
      else bindE (sender_ok sdk (m1_Sender m)) (\<lambda>_. Round1Info_Validate c (m1_Round1Info m)))"

definition MsgSubmitDKGRound2_ValidateBasic :: "sdk \<Rightarrow> MsgSubmitDKGRound2 \<Rightarrow> unit result" where
  "MsgSubmitDKGRound2_ValidateBasic sdk m =
     (if m2_GroupID m = 0 then Inl ErrInvalidGroup
      else bindE (sender_ok sdk (m2_Sender m)) (\<lambda>_. Round2Info_Validate (m2_Round2Info m)))"

definition MsgComplain_ValidateBasic :: "sdk \<Rightarrow> 'p curve \<Rightarrow> MsgComplain \<Rightarrow> unit result" where
  "MsgComplain_ValidateBasic sdk c m =
     (if mcp_GroupID m = 0 then Inl ErrInvalidGroup
      else
        bindE (sender_ok sdk (mcp_Sender m)) (\<lambda>_.
        case mcp_Complaints m of
          [] \<Rightarrow> Inl ErrInvalidComplaint
        | first # _ \<Rightarrow>
            foldE (\<lambda>_ (i, p).
              if i > 0 \<and> comp_Complainant first \<noteq> comp_Complainant p then Inl ErrInvalidComplaint
              else Complaint_Validate c p) () (enumerate (0::nat) (mcp_Complaints m))))"

definition MsgConfirm_ValidateBasic :: "sdk \<Rightarrow> 'p curve \<Rightarrow> MsgConfirm \<Rightarrow> unit result" where
  "MsgConfirm_ValidateBasic sdk c m =
     (if mcf_MemberID m = 0 then Inl ErrInvalidMember
      else if mcf_GroupID m = 0 then Inl ErrInvalidGroup
      else
        bindE (wrap_err ErrInvalidPublicKey (Signature_Validate c (mcf_OwnPubKeySig m))) (\<lambda>_. sender_ok sdk (mcf_Sender m)))"

definition MsgSubmitDEs_ValidateBasic :: "sdk \<Rightarrow> 'p curve \<Rightarrow> MsgSubmitDEs \<Rightarrow> unit result" where
  "MsgSubmitDEs_ValidateBasic sdk c m =
     bindE (sender_ok sdk (mde_Sender m)) (\<lambda>_. foldE (\<lambda>_ d. DE_Validate c d) () (mde_DEs m))"

definition MsgResetDE_ValidateBasic :: "sdk \<Rightarrow> bytes \<Rightarrow> unit result" where
  "MsgResetDE_ValidateBasic sdk sender = sender_ok sdk sender"

definition MsgSubmitSignature_ValidateBasic :: "sdk \<Rightarrow> 'p curve \<Rightarrow> MsgSubmitSignature \<Rightarrow> unit result" where
  "MsgSubmitSignature_ValidateBasic sdk c m =
     (if mss_SigningID m = 0 then Inl ErrInvalidSigning
      else if mss_MemberID m = 0 then Inl ErrInvalidMember
      else
        bindE (sender_ok sdk (mss_Signer m)) (\<lambda>_.
        wrap_err tss_ErrInvalidSignature (Signature_Validate c (mss_Signature m))))"

definition tss_MsgUpdateParams_ValidateBasic :: "sdk \<Rightarrow> bytes \<Rightarrow> tss_Params \<Rightarrow> unit result" where
  "tss_MsgUpdateParams_ValidateBasic sdk authority p =
     bindE (sender_ok sdk authority) (\<lambda>_. tss_Params_Validate p)"

section \<open>Originators, contents and helpers\<close>

datatype Originator =
    DirectOriginator bytes bytes bytes
  | TunnelOriginator bytes uint64 bytes bytes

definition DirectOriginatorPrefix :: bytes where "DirectOriginatorPrefix = [0xb3, 0x9f, 0xa5, 0xd2]"
definition TunnelOriginatorPrefix :: bytes where "TunnelOriginatorPrefix = [0x72, 0xeb, 0xe8, 0x3d]"

fun Originator_Validate :: "tss_Params \<Rightarrow> Originator \<Rightarrow> unit result" where
  "Originator_Validate p (DirectOriginator sourceChainID requester memo) =
     (if sourceChainID = [] then Inl ErrInvalidOriginator
      else if requester = [] then Inl ErrInvalidOriginator
      else if length memo > xp_MaxMemoLength p then Inl ErrInvalidOriginator else Inr ())"
| "Originator_Validate p (TunnelOriginator sourceChainID tunnelID destinationChainID contract) =
     (if sourceChainID = [] then Inl ErrInvalidOriginator
      else if tunnelID = 0 then Inl ErrInvalidOriginator
      else if contract = [] then Inl ErrInvalidOriginator
      else if destinationChainID = [] then Inl ErrInvalidOriginator else Inr ())"

fun Originator_Encode :: "'p curve \<Rightarrow> Originator \<Rightarrow> bytes result" where
  "Originator_Encode c (DirectOriginator sourceChainID requester memo) =
     Inr (DirectOriginatorPrefix @ Hash c [sourceChainID] @ Hash c [requester] @ Hash c [memo])"
| "Originator_Encode c (TunnelOriginator sourceChainID tunnelID destinationChainID contract) =
     Inr (TunnelOriginatorPrefix @ Hash c [sourceChainID] @ be_bytes 8 tunnelID @ Hash c [destinationChainID] @ Hash c [contract])"

definition FindMemberSlot :: "MemberID \<Rightarrow> MemberID \<Rightarrow> MemberID" where
  "FindMemberSlot from to =
     (let slot = u64 (to + 2 ^ 64 - 1) in if from < to then u64 (slot + 2 ^ 64 - 1) else slot)"

definition EncodeSigning :: "'p curve \<Rightarrow> time \<Rightarrow> uint64 \<Rightarrow> bytes \<Rightarrow> bytes \<Rightarrow> bytes" where
  "EncodeSigning c blockTime signingID originator contentMsg =
     Hash c [originator] @ be_bytes 8 (to_uint64 (Unix blockTime)) @ be_bytes 8 signingID @ contentMsg"

definition wrapHandler ::
  "'p curve \<Rightarrow> bytes \<Rightarrow> ('x \<Rightarrow> 's \<Rightarrow> 'c \<Rightarrow> bytes result) \<Rightarrow> 'x \<Rightarrow> 's \<Rightarrow> 'c \<Rightarrow> bytes result" where
  "wrapHandler c path handler ctx s req =
     bindE (wrap_err ErrHandleSignatureOrderFailed (handler ctx s req)) (\<lambda>msg. Inr (take 4 (Hash c [path]) @ msg))"

text \<open>The routers of contents and callbacks: a table of routes that can be sealed.\<close>

record 'h Router =
  rt_routes :: "(bytes, 'h) kv"
  rt_sealed :: bool

definition HasRoute :: "'h Router \<Rightarrow> bytes \<Rightarrow> bool" where
  "HasRoute r path = kv_has (rt_routes r) path"

definition Seal :: "'h Router \<Rightarrow> 'h Router result" where
  "Seal r = (if rt_sealed r then Inl (Panic ''router already sealed'') else Inr (r\<lparr>rt_sealed := True\<rparr>))"

definition router_AddRoute :: "(bytes \<Rightarrow> bool) \<Rightarrow> 'h Router \<Rightarrow> bytes \<Rightarrow> 'h \<Rightarrow> 'h Router result" where
  "router_AddRoute isAlphaNumeric r path h =
     (if rt_sealed r then Inl (Panic ''router sealed; cannot add route handler'')
      else if \<not> isAlphaNumeric path then Inl (Panic ''route expressions can only contain alphanumeric characters'')
      else if HasRoute r path then Inl (Panic ''route has already been initialized'')
      else Inr (r\<lparr>rt_routes := kv_set (rt_routes r) path h\<rparr>))"

definition ContentRouter_AddRoute ::
  "'p curve \<Rightarrow> (bytes \<Rightarrow> bool) \<Rightarrow> ('x \<Rightarrow> 's \<Rightarrow> 'c \<Rightarrow> bytes result) Router \<Rightarrow> bytes \<Rightarrow> ('x \<Rightarrow> 's \<Rightarrow> 'c \<Rightarrow> bytes result) \<Rightarrow>
   ('x \<Rightarrow> 's \<Rightarrow> 'c \<Rightarrow> bytes result) Router result" where
  "ContentRouter_AddRoute c isAlphaNumeric r path h = router_AddRoute isAlphaNumeric r path (wrapHandler c path h)"

definition ContentRouter_GetRoute :: "'h Router \<Rightarrow> bytes \<Rightarrow> 'h result" where
  "ContentRouter_GetRoute r path =
     (case kv_get (rt_routes r) path of None \<Rightarrow> Inl (Panic ''route does not exist'') | Some h \<Rightarrow> Inr h)"

definition CallbackRouter_GetRoute :: "'h Router \<Rightarrow> bytes \<Rightarrow> 'h option" where
  "CallbackRouter_GetRoute r path = kv_get (rt_routes r) path"

section \<open>Store keys\<close>

definition GroupStoreKey :: "GroupID \<Rightarrow> bytes" where
  "GroupStoreKey gid = [0x10] @ be_bytes 8 gid"

definition MembersStoreKey :: "GroupID \<Rightarrow> bytes" where
  "MembersStoreKey gid = [0x11] @ be_bytes 8 gid"

definition MemberStoreKey :: "GroupID \<Rightarrow> MemberID \<Rightarrow> bytes" where
  "MemberStoreKey gid mid = MembersStoreKey gid @ be_bytes 8 mid"

definition DKGContextStoreKey :: "GroupID \<Rightarrow> bytes" where
  "DKGContextStoreKey gid = [0x12] @ be_bytes 8 gid"

definition Round1InfosStoreKey :: "GroupID \<Rightarrow> bytes" where
  "Round1InfosStoreKey gid = [0x13] @ be_bytes 8 gid"

definition Round1InfoStoreKey :: "GroupID \<Rightarrow> MemberID \<Rightarrow> bytes" where
  "Round1InfoStoreKey gid mid = Round1InfosStoreKey gid @ be_bytes 8 mid"

definition Round1InfoCountStoreKey :: "GroupID \<Rightarrow> bytes" where
  "Round1InfoCountStoreKey gid = [0x14] @ be_bytes 8 gid"

definition AccumulatedCommitsStoreKey :: "GroupID \<Rightarrow> bytes" where
  "AccumulatedCommitsStoreKey gid = [0x15] @ be_bytes 8 gid"

definition AccumulatedCommitStoreKey :: "GroupID \<Rightarrow> uint64 \<Rightarrow> bytes" where
  "AccumulatedCommitStoreKey gid i = AccumulatedCommitsStoreKey gid @ be_bytes 8 i"

definition Round2InfosStoreKey :: "GroupID \<Rightarrow> bytes" where
  "Round2InfosStoreKey gid = [0x16] @ be_bytes 8 gid"

definition Round2InfoStoreKey :: "GroupID \<Rightarrow> MemberID \<Rightarrow> bytes" where
  "Round2InfoStoreKey gid mid = Round2InfosStoreKey gid @ be_bytes 8 mid"

definition Round2InfoCountStoreKey :: "GroupID \<Rightarrow> bytes" where
  "Round2InfoCountStoreKey gid = [0x17] @ be_bytes 8 gid"

definition ComplainsWithStatusesStoreKey :: "GroupID \<Rightarrow> bytes" where
  "ComplainsWithStatusesStoreKey gid = [0x18] @ be_bytes 8 gid"

definition ComplainsWithStatusStoreKey :: "GroupID \<Rightarrow> MemberID \<Rightarrow> bytes" where
  "ComplainsWithStatusStoreKey gid mid = ComplainsWithStatusesStoreKey gid @ be_bytes 8 mid"

definition ConfirmsStoreKey :: "GroupID \<Rightarrow> bytes" where
  "ConfirmsStoreKey gid = [0x19] @ be_bytes 8 gid"

definition ConfirmStoreKey :: "GroupID \<Rightarrow> MemberID \<Rightarrow> bytes" where
  "ConfirmStoreKey gid mid = ConfirmsStoreKey gid @ be_bytes 8 mid"

definition ConfirmComplainCountStoreKey :: "GroupID \<Rightarrow> bytes" where
  "ConfirmComplainCountStoreKey gid = [0x1a] @ be_bytes 8 gid"

definition DEsStoreKey :: "sdk \<Rightarrow> bytes \<Rightarrow> bytes" where
  "DEsStoreKey sdk address = [0x1b] @ MustLengthPrefix sdk address"

definition DEStoreKey :: "sdk \<Rightarrow> bytes \<Rightarrow> uint64 \<Rightarrow> bytes" where
  "DEStoreKey sdk address i = DEsStoreKey sdk address @ be_bytes 8 i"

definition DEQueueStoreKey :: "sdk \<Rightarrow> bytes \<Rightarrow> bytes" where
  "DEQueueStoreKey sdk address = [0x1c] @ MustLengthPrefix sdk address"

definition ExtractAddressFromDEQueueStoreKey :: "bytes \<Rightarrow> bytes" where
  "ExtractAddressFromDEQueueStoreKey key = drop 2 key"

definition SigningStoreKey :: "SigningID \<Rightarrow> bytes" where
  "SigningStoreKey sid = [0x1d] @ be_bytes 8 sid"

definition PartialSignatureCountStoreKey :: "SigningID \<Rightarrow> uint64 \<Rightarrow> bytes" where
  "PartialSignatureCountStoreKey sid attempt = [0x1e] @ be_bytes 8 sid @ be_bytes 8 attempt"

definition PartialSignaturesStoreKey :: "SigningID \<Rightarrow> uint64 \<Rightarrow> bytes" where
  "PartialSignaturesStoreKey sid attempt = [0x1f] @ be_bytes 8 sid @ be_bytes 8 attempt"

definition PartialSignatureStoreKey :: "SigningID \<Rightarrow> uint64 \<Rightarrow> MemberID \<Rightarrow> bytes" where
  "PartialSignatureStoreKey sid attempt mid = PartialSignaturesStoreKey sid attempt @ be_bytes 8 mid"

definition MemberIDFromPartialSignatureStoreKey :: "bytes \<Rightarrow> MemberID result" where
  "MemberIDFromPartialSignatureStoreKey key =
     (if length key \<noteq> 25 then Inl (Panic ''unexpected key length'') else Inr (be_value (drop 17 key)))"

definition SigningAttemptStoreKey :: "SigningID \<Rightarrow> uint64 \<Rightarrow> bytes" where
  "SigningAttemptStoreKey sid attempt = [0x20] @ be_bytes 8 sid @ be_bytes 8 attempt"

end
