(* ===== verification/Xtss.thy ===== *)
theory Xtss
  imports Xtss_Data
begin

text \<open>
  The module \<open>x/tss\<close>, second part: the keeper, the messages, the end of a block and genesis (\<open>keeper/\<close>, \<open>abci.go\<close>).
  The state has one ordered map per key prefix of the store and a component \<open>'w\<close> for the rest of the chain, which only the callbacks of
  the modules that own groups change.
\<close>

section \<open>State and keeper\<close>

record 'w tss_state =
  xs_params :: tss_Params
  xs_group_count :: uint64
  xs_signing_count :: uint64
  xs_pending_groups :: "GroupID list"
  xs_pending_signings :: "SigningID list"
  xs_last_expired :: GroupID
  xs_expirations :: "SigningExpiration list"
  xs_groups :: "(bytes, Group) kv"
  xs_members :: "(bytes, Member) kv"
  xs_dkg :: "(bytes, bytes) kv"
  xs_round1 :: "(bytes, tss_Round1Info) kv"
  xs_round1_count :: "(bytes, uint64) kv"
  xs_acc :: "(bytes, Point) kv"
  xs_round2 :: "(bytes, Round2Info) kv"
  xs_round2_count :: "(bytes, uint64) kv"
  xs_complains :: "(bytes, ComplaintsWithStatus) kv"
  xs_confirms :: "(bytes, Confirm) kv"
  xs_cc_count :: "(bytes, uint64) kv"
  xs_de :: "(bytes, DE) kv"
  xs_deq :: "(bytes, DEQueue) kv"
  xs_signings :: "(bytes, Signing) kv"
  xs_psig_count :: "(bytes, uint64) kv"
  xs_psigs :: "(bytes, Signature) kv"
  xs_attempts :: "(bytes, SigningAttempt) kv"
  xs_world :: 'w

record tss_ctx =
  xc_BlockHeight :: int64
  xc_BlockTime :: time
  xc_ChainID :: bytes
  xc_LastCommitHash :: bytes
  xc_RollingSeed :: bytes

text \<open>A callback acts on the whole chain; it returns no error, but it may panic.\<close>

record 'w TSSCallback =
  OnGroupCreationCompleted :: "tss_ctx \<Rightarrow> 'w tss_state \<Rightarrow> GroupID \<Rightarrow> 'w tss_state result"
  OnGroupCreationFailed :: "tss_ctx \<Rightarrow> 'w tss_state \<Rightarrow> GroupID \<Rightarrow> 'w tss_state result"
  OnGroupCreationExpired :: "tss_ctx \<Rightarrow> 'w tss_state \<Rightarrow> GroupID \<Rightarrow> 'w tss_state result"
  OnSigningFailed :: "tss_ctx \<Rightarrow> 'w tss_state \<Rightarrow> SigningID \<Rightarrow> 'w tss_state result"
  OnSigningCompleted :: "tss_ctx \<Rightarrow> 'w tss_state \<Rightarrow> SigningID \<Rightarrow> bytes list \<Rightarrow> 'w tss_state result"
  OnSigningTimeout :: "tss_ctx \<Rightarrow> 'w tss_state \<Rightarrow> SigningID \<Rightarrow> bytes list \<Rightarrow> 'w tss_state result"

text \<open>
  \<open>'c\<close> is the interface \<open>Content\<close> with the methods the keeper calls, \<open>'r\<close> the state of the random generator. The handlers of contents
  only read the state.
\<close>

record ('p, 'r, 'c, 'w) tss_keeper =
  xk_sdk :: sdk
  xk_curve :: "'p curve"
  xk_new_drbg :: "bytes \<Rightarrow> bytes \<Rightarrow> bytes \<Rightarrow> 'r result"
  xk_drbg_read :: "'r drbg_read"
  xk_ValidateBasic :: "'c \<Rightarrow> unit result"
  xk_OrderRoute :: "'c \<Rightarrow> bytes"
  xk_contentRouter :: "(tss_ctx \<Rightarrow> 'w tss_state \<Rightarrow> 'c \<Rightarrow> bytes result) Router"
  xk_cbRouter :: "'w TSSCallback Router"
  xk_authority :: bytes
  xk_GetAuthorization :: "'w \<Rightarrow> bytes \<Rightarrow> bytes \<Rightarrow> bytes \<Rightarrow> bool"

definition GetGrantMsgTypes :: "bytes list" where
  "GetGrantMsgTypes = map str [''/band.tss.v1beta1.MsgSubmitDKGRound1'', ''/band.tss.v1beta1.MsgSubmitDKGRound2'',
     ''/band.tss.v1beta1.MsgComplain'', ''/band.tss.v1beta1.MsgConfirm'', ''/band.tss.v1beta1.MsgSubmitDEs'',
     ''/band.tss.v1beta1.MsgSubmitSignature'']"

definition CheckIsGrantee :: "('p, 'r, 'c, 'w) tss_keeper \<Rightarrow> 'w tss_state \<Rightarrow> bytes \<Rightarrow> bytes \<Rightarrow> bool" where
  "CheckIsGrantee k s granter grantee = (\<forall>msg\<in>set GetGrantMsgTypes. xk_GetAuthorization k (xs_world s) grantee granter msg)"

definition tss_SetParams :: "'w tss_state \<Rightarrow> tss_Params \<Rightarrow> 'w tss_state result" where
  "tss_SetParams s p = bindE (tss_Params_Validate p) (\<lambda>_. Inr (s\<lparr>xs_params := p\<rparr>))"

text \<open>Deleting all entries below a prefix, and a counter that is zero when absent.\<close>

definition delete_prefix :: "(bytes, 'v) kv \<Rightarrow> bytes \<Rightarrow> (bytes, 'v) kv" where
  "delete_prefix m p = foldl kv_delete m (map fst (kv_prefix_iterator m p))"

definition counter :: "(bytes, uint64) kv \<Rightarrow> bytes \<Rightarrow> uint64" where
  "counter m key = (case kv_get m key of None \<Rightarrow> 0 | Some n \<Rightarrow> n)"

section \<open>Groups\<close>

definition GetGroup :: "'w tss_state \<Rightarrow> GroupID \<Rightarrow> Group result" where
  "GetGroup s gid = (case kv_get (xs_groups s) (GroupStoreKey gid) of None \<Rightarrow> Inl ErrGroupNotFound | Some g \<Rightarrow> Inr g)"

definition MustGetGroup :: "'w tss_state \<Rightarrow> GroupID \<Rightarrow> Group result" where
  "MustGetGroup s gid = must (GetGroup s gid)"

definition SetGroup :: "'w tss_state \<Rightarrow> Group \<Rightarrow> 'w tss_state" where
  "SetGroup s g = s\<lparr>xs_groups := kv_set (xs_groups s) (GroupStoreKey (grp_ID g)) g\<rparr>"

definition GetGroups :: "'w tss_state \<Rightarrow> Group list" where
  "GetGroups s = map snd (xs_groups s)"

definition SetGroupCount :: "'w tss_state \<Rightarrow> uint64 \<Rightarrow> 'w tss_state" where
  "SetGroupCount s n = s\<lparr>xs_group_count := n\<rparr>"

definition SetDKGContext :: "'w tss_state \<Rightarrow> GroupID \<Rightarrow> bytes \<Rightarrow> 'w tss_state" where
  "SetDKGContext s gid dkgContext = s\<lparr>xs_dkg := kv_set (xs_dkg s) (DKGContextStoreKey gid) dkgContext\<rparr>"

definition GetDKGContext :: "'w tss_state \<Rightarrow> GroupID \<Rightarrow> bytes result" where
  "GetDKGContext s gid =
     (case kv_get (xs_dkg s) (DKGContextStoreKey gid) of None \<Rightarrow> Inl ErrDKGContextNotFound | Some b \<Rightarrow> Inr b)"

definition DeleteDKGContext :: "'w tss_state \<Rightarrow> GroupID \<Rightarrow> 'w tss_state" where
  "DeleteDKGContext s gid = s\<lparr>xs_dkg := kv_delete (xs_dkg s) (DKGContextStoreKey gid)\<rparr>"

definition SetMember :: "'w tss_state \<Rightarrow> Member \<Rightarrow> 'w tss_state" where
  "SetMember s m = s\<lparr>xs_members := kv_set (xs_members s) (MemberStoreKey (mem_GroupID m) (mem_ID m)) m\<rparr>"

definition SetMembers :: "'w tss_state \<Rightarrow> Member list \<Rightarrow> 'w tss_state" where
  "SetMembers s ms = foldl SetMember s ms"

definition GetMember :: "'w tss_state \<Rightarrow> GroupID \<Rightarrow> MemberID \<Rightarrow> Member result" where
  "GetMember s gid mid =
     (case kv_get (xs_members s) (MemberStoreKey gid mid) of None \<Rightarrow> Inl ErrMemberNotFound | Some m \<Rightarrow> Inr m)"

definition GetGroupMembersIterator :: "'w tss_state \<Rightarrow> GroupID \<Rightarrow> Member list" where
  "GetGroupMembersIterator s gid = map snd (kv_prefix_iterator (xs_members s) (MembersStoreKey gid))"

definition GetGroupMembers :: "'w tss_state \<Rightarrow> GroupID \<Rightarrow> Member list result" where
  "GetGroupMembers s gid =
     (let members = GetGroupMembersIterator s gid in if members = [] then Inl ErrMemberNotFound else Inr members)"

definition MustGetMembers :: "'w tss_state \<Rightarrow> GroupID \<Rightarrow> Member list result" where
  "MustGetMembers s gid = must (GetGroupMembers s gid)"

definition GetMembers :: "'w tss_state \<Rightarrow> Member list" where
  "GetMembers s = map snd (xs_members s)"

definition AddGroup :: "tss_ctx \<Rightarrow> 'w tss_state \<Rightarrow> uint64 \<Rightarrow> uint64 \<Rightarrow> bytes \<Rightarrow> GroupID \<times> 'w tss_state" where
  "AddGroup ctx s sz threshold moduleOwner =
     (let group = \<lparr>grp_ID = u64 (xs_group_count s + 1), grp_Size = sz, grp_Threshold = threshold, grp_PubKey = [],
                   grp_Status = GROUP_STATUS_ROUND_1, grp_CreatedHeight = to_uint64 (xc_BlockHeight ctx),
                   grp_ModuleOwner = moduleOwner\<rparr> in
      (grp_ID group, SetGroupCount (SetGroup s group) (grp_ID group)))"

definition CreateGroup ::
  "('p, 'r, 'c, 'w) tss_keeper \<Rightarrow> tss_ctx \<Rightarrow> 'w tss_state \<Rightarrow> bytes list \<Rightarrow> uint64 \<Rightarrow> bytes \<Rightarrow> (GroupID \<times> 'w tss_state) result" where
  "CreateGroup k ctx s members threshold moduleOwner =
     (let groupSize = length members in
      if groupSize = 0 then Inl ErrGroupCreationFailed
      else if groupSize > xp_MaxGroupSize (xs_params s) then Inl ErrGroupCreationFailed
      else
        bindE (foldE (\<lambda>seen addr. if addr \<in> set seen then Inl ErrInvalidGroup else Inr (addr # seen)) []
                 (map (AccAddress_String (xk_sdk k)) members)) (\<lambda>_.
        let (gid, s) = AddGroup ctx s groupSize threshold moduleOwner;
            s = foldl (\<lambda>s (i, addr).
                  SetMember s \<lparr>mem_ID = i + 1, mem_GroupID = gid, mem_Address = AccAddress_String (xk_sdk k) addr, mem_PubKey = [],
                               mem_IsMalicious = False, mem_IsActive = True\<rparr>) s (enumerate 0 members);
            dkgContext = Hash (xk_curve k) [be_bytes 8 gid, Hash (xk_curve k) [xc_ChainID ctx], xc_LastCommitHash ctx] in
        Inr (gid, SetDKGContext s gid dkgContext)))"

section \<open>Members\<close>

definition GetMemberByAddress :: "'w tss_state \<Rightarrow> GroupID \<Rightarrow> bytes \<Rightarrow> Member result" where
  "GetMemberByAddress s gid address =
     bindE (GetGroupMembers s gid) (\<lambda>members.
     case find (\<lambda>m. mem_Address m = address) members of None \<Rightarrow> Inl ErrMemberNotFound | Some m \<Rightarrow> Inr m)"

definition ValidateMemberID :: "'w tss_state \<Rightarrow> GroupID \<Rightarrow> MemberID \<Rightarrow> bytes \<Rightarrow> unit result" where
  "ValidateMemberID s gid mid address =
     bindE (GetMember s gid mid) (\<lambda>member. if mem_Address member \<noteq> address then Inl ErrInvalidMember else Inr ())"

definition MarkMemberMalicious :: "'w tss_state \<Rightarrow> GroupID \<Rightarrow> MemberID \<Rightarrow> 'w tss_state result" where
  "MarkMemberMalicious s gid mid =
     bindE (GetMember s gid mid) (\<lambda>member.
     if mem_IsMalicious member then Inr s else Inr (SetMember s (member\<lparr>mem_IsMalicious := True\<rparr>)))"

definition SetMemberIsActive ::
  "('p, 'r, 'c, 'w) tss_keeper \<Rightarrow> 'w tss_state \<Rightarrow> GroupID \<Rightarrow> bytes \<Rightarrow> bool \<Rightarrow> 'w tss_state result" where
  "SetMemberIsActive k s gid address status =
     bindE (GetMemberByAddress s gid (AccAddress_String (xk_sdk k) address)) (\<lambda>m. Inr (SetMember s (m\<lparr>mem_IsActive := status\<rparr>)))"

definition ActivateMember :: "('p, 'r, 'c, 'w) tss_keeper \<Rightarrow> 'w tss_state \<Rightarrow> GroupID \<Rightarrow> bytes \<Rightarrow> 'w tss_state result" where
  "ActivateMember k s gid address = SetMemberIsActive k s gid address True"

definition DeactivateMember :: "('p, 'r, 'c, 'w) tss_keeper \<Rightarrow> 'w tss_state \<Rightarrow> GroupID \<Rightarrow> bytes \<Rightarrow> 'w tss_state result" where
  "DeactivateMember k s gid address = SetMemberIsActive k s gid address False"

section \<open>Nonces of members (DE)\<close>

definition GetDEQueue :: "('p, 'r, 'c, 'w) tss_keeper \<Rightarrow> 'w tss_state \<Rightarrow> bytes \<Rightarrow> DEQueue" where
  "GetDEQueue k s address =
     (case kv_get (xs_deq s) (DEQueueStoreKey (xk_sdk k) address) of None \<Rightarrow> \<lparr>deq_Head = 0, deq_Tail = 0\<rparr> | Some q \<Rightarrow> q)"

definition SetDEQueue :: "('p, 'r, 'c, 'w) tss_keeper \<Rightarrow> 'w tss_state \<Rightarrow> bytes \<Rightarrow> DEQueue \<Rightarrow> 'w tss_state" where
  "SetDEQueue k s address q = s\<lparr>xs_deq := kv_set (xs_deq s) (DEQueueStoreKey (xk_sdk k) address) q\<rparr>"

definition SetDE :: "('p, 'r, 'c, 'w) tss_keeper \<Rightarrow> 'w tss_state \<Rightarrow> bytes \<Rightarrow> uint64 \<Rightarrow> DE \<Rightarrow> 'w tss_state" where
  "SetDE k s address i de = s\<lparr>xs_de := kv_set (xs_de s) (DEStoreKey (xk_sdk k) address i) de\<rparr>"

definition GetDE :: "('p, 'r, 'c, 'w) tss_keeper \<Rightarrow> 'w tss_state \<Rightarrow> bytes \<Rightarrow> uint64 \<Rightarrow> DE result" where
  "GetDE k s address i =
     (case kv_get (xs_de s) (DEStoreKey (xk_sdk k) address i) of None \<Rightarrow> Inl ErrDENotFound | Some de \<Rightarrow> Inr de)"

definition HasDE :: "('p, 'r, 'c, 'w) tss_keeper \<Rightarrow> 'w tss_state \<Rightarrow> bytes \<Rightarrow> bool" where
  "HasDE k s address = (let q = GetDEQueue k s address in deq_Tail q > deq_Head q)"

definition DeleteDE :: "('p, 'r, 'c, 'w) tss_keeper \<Rightarrow> 'w tss_state \<Rightarrow> bytes \<Rightarrow> uint64 \<Rightarrow> 'w tss_state" where
  "DeleteDE k s address i = s\<lparr>xs_de := kv_delete (xs_de s) (DEStoreKey (xk_sdk k) address i)\<rparr>"

definition EnqueueDEs :: "('p, 'r, 'c, 'w) tss_keeper \<Rightarrow> 'w tss_state \<Rightarrow> bytes \<Rightarrow> DE list \<Rightarrow> 'w tss_state result" where
  "EnqueueDEs k s address des =
     (let q = GetDEQueue k s address;
          total = u64 (u64 (deq_Tail q + 2 ^ 64 - deq_Head q) + length des) in
      if total > xp_MaxDESize (xs_params s) then Inl ErrDELimitExceeded
      else
        let s = foldl (\<lambda>s (i, de). SetDE k s address (u64 (deq_Tail q + i)) de) s (enumerate 0 des) in
        Inr (SetDEQueue k s address (q\<lparr>deq_Tail := u64 (deq_Tail q + length des)\<rparr>)))"

definition DequeueDE :: "('p, 'r, 'c, 'w) tss_keeper \<Rightarrow> 'w tss_state \<Rightarrow> bytes \<Rightarrow> (DE \<times> 'w tss_state) result" where
  "DequeueDE k s address =
     (let q = GetDEQueue k s address in
      if deq_Head q \<ge> deq_Tail q then Inl ErrDENotFound
      else
        bindE (GetDE k s address (deq_Head q)) (\<lambda>de.
        let s = DeleteDE k s address (deq_Head q) in
        Inr (de, SetDEQueue k s address (q\<lparr>deq_Head := u64 (deq_Head q + 1)\<rparr>))))"

definition ResetDE :: "('p, 'r, 'c, 'w) tss_keeper \<Rightarrow> 'w tss_state \<Rightarrow> bytes \<Rightarrow> 'w tss_state result" where
  "ResetDE k s address =
     (let q = GetDEQueue k s address in
      bindE (foldE (\<lambda>s i. bindE (GetDE k s address i) (\<lambda>_. Inr (DeleteDE k s address i))) s [deq_Head q..<deq_Tail q]) (\<lambda>s.
      Inr (SetDEQueue k s address \<lparr>deq_Head = 0, deq_Tail = 0\<rparr>)))"

definition DequeueDEs :: "('p, 'r, 'c, 'w) tss_keeper \<Rightarrow> 'w tss_state \<Rightarrow> Member list \<Rightarrow> (DE list \<times> 'w tss_state) result" where
  "DequeueDEs k s members =
     foldE (\<lambda>(des, s) member.
       bindE (wrap_err sdk_ErrInvalidAddress (AccAddressFromBech32 (xk_sdk k) (mem_Address member))) (\<lambda>accMember.
       bindE (DequeueDE k s accMember) (\<lambda>(de, s). Inr (des @ [de], s)))) ([], s) members"

section \<open>Selection of members\<close>

definition available_step ::
  "('p, 'r, 'c, 'w) tss_keeper \<Rightarrow> 'w tss_state \<Rightarrow> Member list \<Rightarrow> Member \<Rightarrow> Member list result" where
  "available_step k s availableMembers member =
     (if \<not> mem_IsActive member then Inr availableMembers
      else
        bindE (MustAccAddressFromBech32 (xk_sdk k) (mem_Address member)) (\<lambda>acc.
        if \<not> HasDE k s acc then Inr availableMembers else Inr (availableMembers @ [member])))"

definition GetAvailableMembers :: "('p, 'r, 'c, 'w) tss_keeper \<Rightarrow> 'w tss_state \<Rightarrow> GroupID \<Rightarrow> Member list result" where
  "GetAvailableMembers k s gid = foldE (available_step k s) [] (GetGroupMembersIterator s gid)"

text \<open>
  The loop of the partial shuffle: \<open>i\<close> members are selected, \<open>left\<close> are still to be; \<open>memberIdx\<close> keeps the indexes not yet
  selected in its first \<open>length members - i\<close> places.
\<close>

fun pick_members ::
  "'r drbg_read \<Rightarrow> 'r \<Rightarrow> Member list \<Rightarrow> nat list \<Rightarrow> nat \<Rightarrow> nat \<Rightarrow> Member list \<Rightarrow> Member list result" where
  "pick_members read rng members memberIdx i 0 selected = Inr selected"
| "pick_members read rng members memberIdx i (Suc left) selected =
     bindE (NextUint64 read rng) (\<lambda>(x, rng).
     let randomNumber = x mod (length members - i);
         memberId = memberIdx ! randomNumber;
         memberIdx = memberIdx[randomNumber := memberIdx ! (length members - i - 1)] in
     pick_members read rng members memberIdx (Suc i) left (selected @ [members ! memberId]))"

definition GetRandomMembers ::
  "('p, 'r, 'c, 'w) tss_keeper \<Rightarrow> tss_ctx \<Rightarrow> 'w tss_state \<Rightarrow> GroupID \<Rightarrow> bytes \<Rightarrow> Member list result" where
  "GetRandomMembers k ctx s gid nonce =
     bindE (GetGroup s gid) (\<lambda>group.
     bindE (GetAvailableMembers k s gid) (\<lambda>members.
     if grp_Threshold group > length members then Inl ErrInsufficientSigners
     else
       bindE (wrap_err tss_ErrBadDrbgInitialization (NewRng (xk_new_drbg k) (xc_RollingSeed ctx) nonce (xc_ChainID ctx))) (\<lambda>rng.
       bindE (pick_members (xk_drbg_read k) rng members [0..<length members] 0 (grp_Threshold group) []) (\<lambda>selected.
       Inr (sort_key mem_ID selected)))))"

section \<open>Round 1\<close>

definition GetRound1Info :: "'w tss_state \<Rightarrow> GroupID \<Rightarrow> MemberID \<Rightarrow> tss_Round1Info result" where
  "GetRound1Info s gid mid =
     (case kv_get (xs_round1 s) (Round1InfoStoreKey gid mid) of None \<Rightarrow> Inl ErrRound1InfoNotFound | Some r \<Rightarrow> Inr r)"

definition HasRound1Info :: "'w tss_state \<Rightarrow> GroupID \<Rightarrow> MemberID \<Rightarrow> bool" where
  "HasRound1Info s gid mid = kv_has (xs_round1 s) (Round1InfoStoreKey gid mid)"

definition SetRound1Info :: "'w tss_state \<Rightarrow> GroupID \<Rightarrow> tss_Round1Info \<Rightarrow> 'w tss_state" where
  "SetRound1Info s gid r = s\<lparr>xs_round1 := kv_set (xs_round1 s) (Round1InfoStoreKey gid (ri_MemberID r)) r\<rparr>"

definition GetRound1Infos :: "'w tss_state \<Rightarrow> GroupID \<Rightarrow> tss_Round1Info list" where
  "GetRound1Infos s gid = map snd (kv_prefix_iterator (xs_round1 s) (Round1InfosStoreKey gid))"

definition GetRound1InfoCount :: "'w tss_state \<Rightarrow> GroupID \<Rightarrow> uint64" where
  "GetRound1InfoCount s gid = counter (xs_round1_count s) (Round1InfoCountStoreKey gid)"

definition SetRound1InfoCount :: "'w tss_state \<Rightarrow> GroupID \<Rightarrow> uint64 \<Rightarrow> 'w tss_state" where
  "SetRound1InfoCount s gid n = s\<lparr>xs_round1_count := kv_set (xs_round1_count s) (Round1InfoCountStoreKey gid) n\<rparr>"

definition AddRound1Info :: "'w tss_state \<Rightarrow> GroupID \<Rightarrow> tss_Round1Info \<Rightarrow> 'w tss_state" where
  "AddRound1Info s gid r =
     (let s = SetRound1Info s gid r in SetRound1InfoCount s gid (u64 (GetRound1InfoCount s gid + 1)))"

definition DeleteRound1Infos :: "'w tss_state \<Rightarrow> GroupID \<Rightarrow> 'w tss_state" where
  "DeleteRound1Infos s gid =
     s\<lparr>xs_round1 := delete_prefix (xs_round1 s) (Round1InfosStoreKey gid),
       xs_round1_count := kv_delete (xs_round1_count s) (Round1InfoCountStoreKey gid)\<rparr>"

definition GetAccumulatedCommit :: "'w tss_state \<Rightarrow> GroupID \<Rightarrow> uint64 \<Rightarrow> Point option" where
  "GetAccumulatedCommit s gid i = kv_get (xs_acc s) (AccumulatedCommitStoreKey gid i)"

definition SetAccumulatedCommit :: "'w tss_state \<Rightarrow> GroupID \<Rightarrow> uint64 \<Rightarrow> Point \<Rightarrow> 'w tss_state" where
  "SetAccumulatedCommit s gid i commit = s\<lparr>xs_acc := kv_set (xs_acc s) (AccumulatedCommitStoreKey gid i) commit\<rparr>"

definition GetAllAccumulatedCommits :: "'w tss_state \<Rightarrow> GroupID \<Rightarrow> Point list" where
  "GetAllAccumulatedCommits s gid = map snd (kv_prefix_iterator (xs_acc s) (AccumulatedCommitsStoreKey gid))"

definition DeleteAccumulatedCommits :: "'w tss_state \<Rightarrow> GroupID \<Rightarrow> 'w tss_state" where
  "DeleteAccumulatedCommits s gid = s\<lparr>xs_acc := delete_prefix (xs_acc s) (AccumulatedCommitsStoreKey gid)\<rparr>"

definition AddCoefficientCommits ::
  "('p, 'r, 'c, 'w) tss_keeper \<Rightarrow> 'w tss_state \<Rightarrow> GroupID \<Rightarrow> Point list \<Rightarrow> 'w tss_state result" where
  "AddCoefficientCommits k s gid coefficientCommits =
     foldE (\<lambda>s (i, commit).
       let points = (case GetAccumulatedCommit s gid i of None \<Rightarrow> [commit] | Some accCommit \<Rightarrow> [commit, accCommit]) in
       bindE (wrap_err ErrAddCoeffCommit (SumPoints (xk_curve k) points)) (\<lambda>total.
       Inr (SetAccumulatedCommit s gid i total))) s (enumerate 0 coefficientCommits)"

definition ValidateRound1Info ::
  "('p, 'r, 'c, 'w) tss_keeper \<Rightarrow> 'w tss_state \<Rightarrow> Group \<Rightarrow> tss_Round1Info \<Rightarrow> unit result" where
  "ValidateRound1Info k s g r =
     (if length (ri_CoefficientCommits r) \<noteq> grp_Threshold g then Inl ErrInvalidLengthCoeffCommits
      else
        bindE (GetDKGContext s (grp_ID g)) (\<lambda>dkgContext.
        bindE (wrap_err ErrVerifyOneTimeSignatureFailed
          (VerifyOneTimeSignature (xk_curve k) (ri_MemberID r) dkgContext (ri_OneTimeSignature r) (ri_OneTimePubKey r))) (\<lambda>_.
        bindE (index (ri_CoefficientCommits r) 0) (\<lambda>a0.
        wrap_err ErrVerifyA0SignatureFailed
          (VerifyA0Signature (xk_curve k) (ri_MemberID r) dkgContext (ri_A0Signature r) a0)))))"

section \<open>Round 2\<close>

definition GetRound2Info :: "'w tss_state \<Rightarrow> GroupID \<Rightarrow> MemberID \<Rightarrow> Round2Info result" where
  "GetRound2Info s gid mid =
     (case kv_get (xs_round2 s) (Round2InfoStoreKey gid mid) of None \<Rightarrow> Inl ErrRound2InfoNotFound | Some r \<Rightarrow> Inr r)"

definition HasRound2Info :: "'w tss_state \<Rightarrow> GroupID \<Rightarrow> MemberID \<Rightarrow> bool" where
  "HasRound2Info s gid mid = kv_has (xs_round2 s) (Round2InfoStoreKey gid mid)"

definition SetRound2Info :: "'w tss_state \<Rightarrow> GroupID \<Rightarrow> Round2Info \<Rightarrow> 'w tss_state" where
  "SetRound2Info s gid r = s\<lparr>xs_round2 := kv_set (xs_round2 s) (Round2InfoStoreKey gid (r2_MemberID r)) r\<rparr>"

definition GetRound2Infos :: "'w tss_state \<Rightarrow> GroupID \<Rightarrow> Round2Info list" where
  "GetRound2Infos s gid = map snd (kv_prefix_iterator (xs_round2 s) (Round2InfosStoreKey gid))"

definition GetRound2InfoCount :: "'w tss_state \<Rightarrow> GroupID \<Rightarrow> uint64" where
  "GetRound2InfoCount s gid = counter (xs_round2_count s) (Round2InfoCountStoreKey gid)"

definition SetRound2InfoCount :: "'w tss_state \<Rightarrow> GroupID \<Rightarrow> uint64 \<Rightarrow> 'w tss_state" where
  "SetRound2InfoCount s gid n = s\<lparr>xs_round2_count := kv_set (xs_round2_count s) (Round2InfoCountStoreKey gid) n\<rparr>"

definition AddRound2Info :: "'w tss_state \<Rightarrow> GroupID \<Rightarrow> Round2Info \<Rightarrow> 'w tss_state" where
  "AddRound2Info s gid r =
     (let s = SetRound2Info s gid r in SetRound2InfoCount s gid (u64 (GetRound2InfoCount s gid + 1)))"

definition DeleteRound2Infos :: "'w tss_state \<Rightarrow> GroupID \<Rightarrow> 'w tss_state" where
  "DeleteRound2Infos s gid =
     s\<lparr>xs_round2 := delete_prefix (xs_round2 s) (Round2InfosStoreKey gid),
       xs_round2_count := kv_delete (xs_round2_count s) (Round2InfoCountStoreKey gid)\<rparr>"

definition UpdateMemberPubKey ::
  "('p, 'r, 'c, 'w) tss_keeper \<Rightarrow> 'w tss_state \<Rightarrow> GroupID \<Rightarrow> MemberID \<Rightarrow> 'w tss_state result" where
  "UpdateMemberPubKey k s gid mid =
     bindE (wrap_err ErrComputeOwnPubKeyFailed (ComputeOwnPublicKey (xk_curve k) (GetAllAccumulatedCommits s gid) mid)) (\<lambda>ownPubKey.
     bindE (GetMember s gid mid) (\<lambda>member. Inr (SetMember s (member\<lparr>mem_PubKey := ownPubKey\<rparr>))))"

section \<open>Round 3\<close>

definition tss_VerifyComplaint :: "('p, 'r, 'c, 'w) tss_keeper \<Rightarrow> 'w tss_state \<Rightarrow> GroupID \<Rightarrow> Complaint \<Rightarrow> unit result" where
  "tss_VerifyComplaint k s gid complaint =
     bindE (GetRound1Info s gid (comp_Complainant complaint)) (\<lambda>round1Complainant.
     bindE (GetRound1Info s gid (comp_Respondent complaint)) (\<lambda>round1Respondent.
     bindE (GetRound2Info s gid (comp_Respondent complaint)) (\<lambda>round2Respondent.
     let complainantIndex = FindMemberSlot (comp_Respondent complaint) (comp_Complainant complaint);
         shares = r2_EncryptedSecretShares round2Respondent in
     if i64 (int complainantIndex) \<ge> int (length shares) then Inl ErrComplainFailed
     else
       bindE (index shares (int complainantIndex)) (\<lambda>share.
       wrap_err ErrComplainFailed
         (VerifyComplaint (xk_curve k) (ri_OneTimePubKey round1Complainant) (ri_OneTimePubKey round1Respondent)
            (comp_KeySym complaint) (comp_Signature complaint) share (comp_Complainant complaint)
            (ri_CoefficientCommits round1Respondent))))))"

definition complaint_step ::
  "('p, 'r, 'c, 'w) tss_keeper \<Rightarrow> GroupID \<Rightarrow> ComplaintWithStatus list \<times> 'w tss_state \<Rightarrow> Complaint \<Rightarrow>
   (ComplaintWithStatus list \<times> 'w tss_state) result" where
  "complaint_step k gid st c =
     (let (complaintsWithStatus, s) = st in
      bindE (catchE (tss_VerifyComplaint k s gid c)) (\<lambda>verified.
      let (maliciousMemberID, complaintStatus) =
            (case verified of None \<Rightarrow> (comp_Complainant c, COMPLAINT_STATUS_FAILED)
             | Some _ \<Rightarrow> (comp_Respondent c, COMPLAINT_STATUS_SUCCESS)) in
      bindE (MarkMemberMalicious s gid maliciousMemberID) (\<lambda>s.
      Inr (complaintsWithStatus @ [\<lparr>cws_Complaint = c, cws_ComplaintStatus = complaintStatus\<rparr>], s))))"

definition ProcessComplaint ::
  "('p, 'r, 'c, 'w) tss_keeper \<Rightarrow> 'w tss_state \<Rightarrow> Complaint list \<Rightarrow> GroupID \<Rightarrow> (ComplaintWithStatus list \<times> 'w tss_state) result" where
  "ProcessComplaint k s complaints gid = foldE (complaint_step k gid) ([], s) complaints"

definition tss_VerifyOwnPubKeySignature ::
  "('p, 'r, 'c, 'w) tss_keeper \<Rightarrow> 'w tss_state \<Rightarrow> GroupID \<Rightarrow> MemberID \<Rightarrow> Signature \<Rightarrow> unit result" where
  "tss_VerifyOwnPubKeySignature k s gid mid ownPubKeySig =
     bindE (GetMember s gid mid) (\<lambda>member.
     bindE (GetDKGContext s gid) (\<lambda>dkgContext.
     wrap_err ErrConfirmFailed (VerifyOwnPubKeySignature (xk_curve k) mid dkgContext ownPubKeySig (mem_PubKey member))))"

definition HasComplaintsWithStatus :: "'w tss_state \<Rightarrow> GroupID \<Rightarrow> MemberID \<Rightarrow> bool" where
  "HasComplaintsWithStatus s gid mid = kv_has (xs_complains s) (ComplainsWithStatusStoreKey gid mid)"

definition GetComplaintsWithStatus :: "'w tss_state \<Rightarrow> GroupID \<Rightarrow> MemberID \<Rightarrow> ComplaintsWithStatus result" where
  "GetComplaintsWithStatus s gid mid =
     (case kv_get (xs_complains s) (ComplainsWithStatusStoreKey gid mid) of
        None \<Rightarrow> Inl ErrComplaintsWithStatusNotFound | Some c \<Rightarrow> Inr c)"

definition GetAllComplainsWithStatus :: "'w tss_state \<Rightarrow> GroupID \<Rightarrow> ComplaintsWithStatus list" where
  "GetAllComplainsWithStatus s gid = map snd (kv_prefix_iterator (xs_complains s) (ComplainsWithStatusesStoreKey gid))"

definition SetComplaintsWithStatus :: "'w tss_state \<Rightarrow> GroupID \<Rightarrow> ComplaintsWithStatus \<Rightarrow> 'w tss_state" where
  "SetComplaintsWithStatus s gid c =
     s\<lparr>xs_complains := kv_set (xs_complains s) (ComplainsWithStatusStoreKey gid (csws_MemberID c)) c\<rparr>"

definition HasConfirm :: "'w tss_state \<Rightarrow> GroupID \<Rightarrow> MemberID \<Rightarrow> bool" where
  "HasConfirm s gid mid = kv_has (xs_confirms s) (ConfirmStoreKey gid mid)"

definition GetConfirm :: "'w tss_state \<Rightarrow> GroupID \<Rightarrow> MemberID \<Rightarrow> Confirm result" where
  "GetConfirm s gid mid =
     (case kv_get (xs_confirms s) (ConfirmStoreKey gid mid) of None \<Rightarrow> Inl ErrConfirmNotFound | Some c \<Rightarrow> Inr c)"

definition GetConfirms :: "'w tss_state \<Rightarrow> GroupID \<Rightarrow> Confirm list" where
  "GetConfirms s gid = map snd (kv_prefix_iterator (xs_confirms s) (ConfirmsStoreKey gid))"

definition SetConfirm :: "'w tss_state \<Rightarrow> GroupID \<Rightarrow> Confirm \<Rightarrow> 'w tss_state" where
  "SetConfirm s gid c = s\<lparr>xs_confirms := kv_set (xs_confirms s) (ConfirmStoreKey gid (conf_MemberID c)) c\<rparr>"

definition GetConfirmComplainCount :: "'w tss_state \<Rightarrow> GroupID \<Rightarrow> uint64" where
  "GetConfirmComplainCount s gid = counter (xs_cc_count s) (ConfirmComplainCountStoreKey gid)"

definition SetConfirmComplainCount :: "'w tss_state \<Rightarrow> GroupID \<Rightarrow> uint64 \<Rightarrow> 'w tss_state" where
  "SetConfirmComplainCount s gid n = s\<lparr>xs_cc_count := kv_set (xs_cc_count s) (ConfirmComplainCountStoreKey gid) n\<rparr>"

definition AddComplaintsWithStatus :: "'w tss_state \<Rightarrow> GroupID \<Rightarrow> ComplaintsWithStatus \<Rightarrow> 'w tss_state" where
  "AddComplaintsWithStatus s gid c =
     (let s = SetComplaintsWithStatus s gid c in SetConfirmComplainCount s gid (u64 (GetConfirmComplainCount s gid + 1)))"

definition AddConfirm :: "'w tss_state \<Rightarrow> GroupID \<Rightarrow> Confirm \<Rightarrow> 'w tss_state" where
  "AddConfirm s gid c =
     (let s = SetConfirm s gid c in SetConfirmComplainCount s gid (u64 (GetConfirmComplainCount s gid + 1)))"

definition DeleteConfirmComplains :: "'w tss_state \<Rightarrow> GroupID \<Rightarrow> 'w tss_state" where
  "DeleteConfirmComplains s gid =
     s\<lparr>xs_confirms := delete_prefix (xs_confirms s) (ConfirmsStoreKey gid),
       xs_complains := delete_prefix (xs_complains s) (ComplainsWithStatusesStoreKey gid),
       xs_cc_count := kv_delete (xs_cc_count s) (ConfirmComplainCountStoreKey gid)\<rparr>"

definition AddPendingProcessGroup :: "'w tss_state \<Rightarrow> GroupID \<Rightarrow> 'w tss_state" where
  "AddPendingProcessGroup s gid = s\<lparr>xs_pending_groups := xs_pending_groups s @ [gid]\<rparr>"

section \<open>Signing\<close>

definition SetSigning :: "'w tss_state \<Rightarrow> Signing \<Rightarrow> 'w tss_state" where
  "SetSigning s signing = s\<lparr>xs_signings := kv_set (xs_signings s) (SigningStoreKey (sgn_ID signing)) signing\<rparr>"

definition tss_GetSigning :: "'w tss_state \<Rightarrow> SigningID \<Rightarrow> Signing result" where
  "tss_GetSigning s sid =
     (case kv_get (xs_signings s) (SigningStoreKey sid) of None \<Rightarrow> Inl tss_ErrSigningNotFound | Some x \<Rightarrow> Inr x)"

definition MustGetSigning :: "'w tss_state \<Rightarrow> SigningID \<Rightarrow> Signing result" where
  "MustGetSigning s sid = must (tss_GetSigning s sid)"

definition SetSigningAttempt :: "'w tss_state \<Rightarrow> SigningAttempt \<Rightarrow> 'w tss_state" where
  "SetSigningAttempt s sa =
     s\<lparr>xs_attempts := kv_set (xs_attempts s) (SigningAttemptStoreKey (sa_SigningID sa) (sa_Attempt sa)) sa\<rparr>"

definition GetSigningAttempt :: "'w tss_state \<Rightarrow> SigningID \<Rightarrow> uint64 \<Rightarrow> SigningAttempt result" where
  "GetSigningAttempt s sid attempt =
     (case kv_get (xs_attempts s) (SigningAttemptStoreKey sid attempt) of None \<Rightarrow> Inl ErrSigningAttemptNotFound | Some x \<Rightarrow> Inr x)"

definition MustGetSigningAttempt :: "'w tss_state \<Rightarrow> SigningID \<Rightarrow> uint64 \<Rightarrow> SigningAttempt result" where
  "MustGetSigningAttempt s sid attempt = must (GetSigningAttempt s sid attempt)"

definition DeleteSigningAttempt :: "'w tss_state \<Rightarrow> SigningID \<Rightarrow> uint64 \<Rightarrow> 'w tss_state" where
  "DeleteSigningAttempt s sid attempt = s\<lparr>xs_attempts := kv_delete (xs_attempts s) (SigningAttemptStoreKey sid attempt)\<rparr>"

definition AddSigningExpiration :: "'w tss_state \<Rightarrow> SigningID \<Rightarrow> uint64 \<Rightarrow> 'w tss_state" where
  "AddSigningExpiration s sid attempt =
     s\<lparr>xs_expirations := xs_expirations s @ [\<lparr>se_SigningID = sid, se_SigningAttempt = attempt\<rparr>]\<rparr>"

definition MustGetCurrentAssignedMembers ::
  "('p, 'r, 'c, 'w) tss_keeper \<Rightarrow> 'w tss_state \<Rightarrow> SigningID \<Rightarrow> bytes list result" where
  "MustGetCurrentAssignedMembers k s sid =
     bindE (MustGetSigning s sid) (\<lambda>signing.
     bindE (MustGetSigningAttempt s sid (sgn_CurrentAttempt signing)) (\<lambda>sa.
     mapE (\<lambda>am. MustAccAddressFromBech32 (xk_sdk k) (am_Address am)) (sa_AssignedMembers sa)))"

definition bind_nonce :: "('p, 'r, 'c, 'w) tss_keeper \<Rightarrow> bytes \<Rightarrow> bytes \<Rightarrow> AssignedMember \<Rightarrow> AssignedMember result" where
  "bind_nonce k msg commitment member =
     bindE (wrap_err ErrCreateSigningFailed (ComputeOwnBindingFactor (xk_curve k) (am_MemberID member) msg commitment)) (\<lambda>bf.
     bindE (wrap_err ErrCreateSigningFailed (ComputeOwnPubNonce (xk_curve k) (am_PubD member) (am_PubE member) bf)) (\<lambda>pubNonce.
     Inr (member\<lparr>am_BindingFactor := bf, am_PubNonce := pubNonce\<rparr>)))"

definition AssignMembersForSigning ::
  "('p, 'r, 'c, 'w) tss_keeper \<Rightarrow> tss_ctx \<Rightarrow> 'w tss_state \<Rightarrow> GroupID \<Rightarrow> bytes \<Rightarrow> bytes \<Rightarrow> (AssignedMember list \<times> 'w tss_state) result" where
  "AssignMembersForSigning k ctx s gid msg nonce =
     bindE (GetRandomMembers k ctx s gid nonce) (\<lambda>selectedMembers.
     bindE (DequeueDEs k s selectedMembers) (\<lambda>(des, s).
     let assignedMembers = map (\<lambda>(i, member). NewAssignedMember member (des ! i) [] []) (enumerate 0 selectedMembers) in
     bindE (wrap_err ErrCreateSigningFailed
       (ComputeCommitment (map mem_ID selectedMembers) (map am_PubD assignedMembers) (map am_PubE assignedMembers))) (\<lambda>commitment.
     bindE (mapE (bind_nonce k msg commitment) assignedMembers) (\<lambda>assignedMembers.
     Inr (assignedMembers, s)))))"

definition CreateSigning ::
  "('p, 'r, 'c, 'w) tss_keeper \<Rightarrow> tss_ctx \<Rightarrow> 'w tss_state \<Rightarrow> GroupID \<Rightarrow> bytes \<Rightarrow> bytes \<Rightarrow> (SigningID \<times> 'w tss_state) result" where
  "CreateSigning k ctx s gid originator contentMsg =
     (let nextSigningID = u64 (xs_signing_count s + 1);
          message = EncodeSigning (xk_curve k) (xc_BlockTime ctx) nextSigningID originator contentMsg in
      bindE (GetGroup s gid) (\<lambda>group.
      if grp_Status group \<noteq> GROUP_STATUS_ACTIVE then Inl ErrGroupIsNotActive
      else
        let signing = \<lparr>sgn_ID = nextSigningID, sgn_CurrentAttempt = 0, sgn_GroupID = gid, sgn_GroupPubKey = grp_PubKey group,
                       sgn_Message = message, sgn_GroupPubNonce = [], sgn_Signature = [], sgn_Status = SIGNING_STATUS_WAITING,
                       sgn_CreatedHeight = to_uint64 (xc_BlockHeight ctx), sgn_CreatedTimestamp = xc_BlockTime ctx\<rparr> in
        Inr (nextSigningID, (SetSigning s signing)\<lparr>xs_signing_count := nextSigningID\<rparr>)))"

definition InitiateNewSigningRound ::
  "('p, 'r, 'c, 'w) tss_keeper \<Rightarrow> tss_ctx \<Rightarrow> 'w tss_state \<Rightarrow> SigningID \<Rightarrow> 'w tss_state result" where
  "InitiateNewSigningRound k ctx s sid =
     bindE (tss_GetSigning s sid) (\<lambda>signing.
     let signing = signing\<lparr>sgn_CurrentAttempt := u64 (sgn_CurrentAttempt signing + 1)\<rparr>; params = xs_params s in
     if sgn_CurrentAttempt signing > xp_MaxSigningAttempt params then Inl ErrMaxSigningAttemptExceeded
     else
       bindE (AssignMembersForSigning k ctx s (sgn_GroupID signing) (sgn_Message signing)
         (be_bytes 8 sid @ be_bytes 8 (sgn_CurrentAttempt signing))) (\<lambda>(assignedMembers, s).
       bindE (wrap_err ErrCreateSigningFailed
         (ComputeGroupPublicNonce (xk_curve k) (map am_PubNonce assignedMembers))) (\<lambda>groupPubNonce.
       let expiredHeight = u64 (to_uint64 (xc_BlockHeight ctx) + xp_SigningPeriod params);
           s = SetSigningAttempt s \<lparr>sa_SigningID = sid, sa_Attempt = sgn_CurrentAttempt signing,
                 sa_ExpiredHeight = expiredHeight, sa_AssignedMembers = assignedMembers\<rparr>;
           signing = signing\<lparr>sgn_GroupPubNonce := groupPubNonce, sgn_Status := SIGNING_STATUS_WAITING\<rparr> in
       Inr (AddSigningExpiration (SetSigning s signing) (sgn_ID signing) (sgn_CurrentAttempt signing)))))"

definition tss_RequestSigning ::
  "('p, 'r, 'c, 'w) tss_keeper \<Rightarrow> tss_ctx \<Rightarrow> 'w tss_state \<Rightarrow> GroupID \<Rightarrow> Originator \<Rightarrow> 'c \<Rightarrow> (SigningID \<times> 'w tss_state) result" where
  "tss_RequestSigning k ctx s gid originator content =
     bindE (xk_ValidateBasic k content) (\<lambda>_.
     bindE (Originator_Validate (xs_params s) originator) (\<lambda>_.
     if \<not> HasRoute (xk_contentRouter k) (xk_OrderRoute k content) then Inl ErrHandlerNotFound
     else
       bindE (ContentRouter_GetRoute (xk_contentRouter k) (xk_OrderRoute k content)) (\<lambda>handler.
       bindE (handler ctx s content) (\<lambda>contentMsg.
       bindE (Originator_Encode (xk_curve k) originator) (\<lambda>originatorBz.
       bindE (CreateSigning k ctx s gid originatorBz contentMsg) (\<lambda>(sid, s).
       bindE (InitiateNewSigningRound k ctx s sid) (\<lambda>s. Inr (sid, s))))))))"

text \<open>The content the module handles itself, a text.\<close>

definition tss_SignatureOrderHandler :: "'w tss_state \<Rightarrow> bytes option \<Rightarrow> bytes result" where
  "tss_SignatureOrderHandler s content =
     (case content of
        Some message \<Rightarrow>
          if length message > xp_MaxMessageLength (xs_params s) then Inl ErrInvalidMessage
          else Inr ([0xb1, 0xf7, 0x60, 0x16] @ message)
      | None \<Rightarrow> Inl tss_ErrUnknownRequest)"

section \<open>Partial signatures\<close>

definition HasPartialSignature :: "'w tss_state \<Rightarrow> SigningID \<Rightarrow> uint64 \<Rightarrow> MemberID \<Rightarrow> bool" where
  "HasPartialSignature s sid attempt mid = kv_has (xs_psigs s) (PartialSignatureStoreKey sid attempt mid)"

definition GetPartialSignature :: "'w tss_state \<Rightarrow> SigningID \<Rightarrow> uint64 \<Rightarrow> MemberID \<Rightarrow> Signature result" where
  "GetPartialSignature s sid attempt mid =
     (case kv_get (xs_psigs s) (PartialSignatureStoreKey sid attempt mid) of None \<Rightarrow> Inl ErrPartialSignatureNotFound | Some x \<Rightarrow> Inr x)"

definition SetPartialSignature :: "'w tss_state \<Rightarrow> SigningID \<Rightarrow> uint64 \<Rightarrow> MemberID \<Rightarrow> Signature \<Rightarrow> 'w tss_state" where
  "SetPartialSignature s sid attempt mid sig =
     s\<lparr>xs_psigs := kv_set (xs_psigs s) (PartialSignatureStoreKey sid attempt mid) sig\<rparr>"

definition GetPartialSignatureCount :: "'w tss_state \<Rightarrow> SigningID \<Rightarrow> uint64 \<Rightarrow> uint64" where
  "GetPartialSignatureCount s sid attempt = counter (xs_psig_count s) (PartialSignatureCountStoreKey sid attempt)"

definition AddPartialSignatureCount :: "'w tss_state \<Rightarrow> SigningID \<Rightarrow> uint64 \<Rightarrow> 'w tss_state" where
  "AddPartialSignatureCount s sid attempt =
     s\<lparr>xs_psig_count := kv_set (xs_psig_count s) (PartialSignatureCountStoreKey sid attempt)
         (u64 (GetPartialSignatureCount s sid attempt + 1))\<rparr>"

definition AddPartialSignature :: "'w tss_state \<Rightarrow> SigningID \<Rightarrow> uint64 \<Rightarrow> MemberID \<Rightarrow> Signature \<Rightarrow> 'w tss_state" where
  "AddPartialSignature s sid attempt mid sig = SetPartialSignature (AddPartialSignatureCount s sid attempt) sid attempt mid sig"

definition DeletePartialSignatures :: "'w tss_state \<Rightarrow> SigningID \<Rightarrow> uint64 \<Rightarrow> 'w tss_state" where
  "DeletePartialSignatures s sid attempt = s\<lparr>xs_psigs := delete_prefix (xs_psigs s) (PartialSignaturesStoreKey sid attempt)\<rparr>"

definition DeletePartialSignatureCount :: "'w tss_state \<Rightarrow> SigningID \<Rightarrow> uint64 \<Rightarrow> 'w tss_state" where
  "DeletePartialSignatureCount s sid attempt =
     s\<lparr>xs_psig_count := kv_delete (xs_psig_count s) (PartialSignatureCountStoreKey sid attempt)\<rparr>"

definition GetPartialSignatures :: "'w tss_state \<Rightarrow> SigningID \<Rightarrow> uint64 \<Rightarrow> Signature list" where
  "GetPartialSignatures s sid attempt = map snd (kv_prefix_iterator (xs_psigs s) (PartialSignaturesStoreKey sid attempt))"

definition GetPartialSignaturesWithKey :: "'w tss_state \<Rightarrow> SigningID \<Rightarrow> uint64 \<Rightarrow> PartialSignature list result" where
  "GetPartialSignaturesWithKey s sid attempt =
     mapE (\<lambda>(key, sig). bindE (MemberIDFromPartialSignatureStoreKey key) (\<lambda>mid.
       Inr \<lparr>ps_SigningID = sid, ps_SigningAttempt = attempt, ps_MemberID = mid, ps_Signature = sig\<rparr>))
       (kv_prefix_iterator (xs_psigs s) (PartialSignaturesStoreKey sid attempt))"

definition GetMembersNotSubmitSignature ::
  "('p, 'r, 'c, 'w) tss_keeper \<Rightarrow> 'w tss_state \<Rightarrow> SigningID \<Rightarrow> uint64 \<Rightarrow> bytes list result" where
  "GetMembersNotSubmitSignature k s sid attempt =
     bindE (MustGetSigningAttempt s sid attempt) (\<lambda>sa.
     mapE (\<lambda>am. MustAccAddressFromBech32 (xk_sdk k) (am_Address am))
       (filter (\<lambda>am. \<not> HasPartialSignature s sid attempt (am_MemberID am)) (sa_AssignedMembers sa)))"

definition AddPendingProcessSigning :: "'w tss_state \<Rightarrow> SigningID \<Rightarrow> 'w tss_state" where
  "AddPendingProcessSigning s sid = s\<lparr>xs_pending_signings := xs_pending_signings s @ [sid]\<rparr>"

end
