(* ===== verification/Xtss_Block.thy ===== *)
theory Xtss_Block
  imports Xtss
begin

text \<open>
  The module \<open>x/tss\<close>, third part: the end of a block, the messages, the queries other modules use and genesis.
\<close>

section \<open>Groups at the end of a block\<close>

definition with_callback :: "('p, 'r, 'c, 'w) tss_keeper \<Rightarrow> bytes \<Rightarrow> ('w TSSCallback \<Rightarrow> 'w tss_state result) \<Rightarrow> 'w tss_state \<Rightarrow> 'w tss_state result" where
  "with_callback k moduleOwner f s = (case CallbackRouter_GetRoute (xk_cbRouter k) moduleOwner of None \<Rightarrow> Inr s | Some cb \<Rightarrow> f cb)"

definition HandleProcessGroup :: "('p, 'r, 'c, 'w) tss_keeper \<Rightarrow> tss_ctx \<Rightarrow> 'w tss_state \<Rightarrow> GroupID \<Rightarrow> 'w tss_state result" where
  "HandleProcessGroup k ctx s gid =
     bindE (MustGetGroup s gid) (\<lambda>g.
     case grp_Status g of
       GROUP_STATUS_ROUND_1 \<Rightarrow>
         Inr (SetGroup s (g\<lparr>grp_Status := GROUP_STATUS_ROUND_2,
           grp_PubKey := (case GetAccumulatedCommit s gid 0 of None \<Rightarrow> [] | Some p \<Rightarrow> p)\<rparr>))
     | GROUP_STATUS_ROUND_2 \<Rightarrow> Inr (SetGroup s (g\<lparr>grp_Status := GROUP_STATUS_ROUND_3\<rparr>))
     | GROUP_STATUS_ROUND_3 \<Rightarrow>
         bindE (MustGetMembers s (grp_ID g)) (\<lambda>members.
         if \<not> HaveMalicious members then
           let s = SetGroup s (g\<lparr>grp_Status := GROUP_STATUS_ACTIVE\<rparr>) in
           with_callback k (grp_ModuleOwner g) (\<lambda>cb. OnGroupCreationCompleted cb ctx s (grp_ID g)) s
         else
           let s = SetGroup s (g\<lparr>grp_Status := GROUP_STATUS_FALLEN\<rparr>) in
           with_callback k (grp_ModuleOwner g) (\<lambda>cb. OnGroupCreationFailed cb ctx s (grp_ID g)) s)
     | _ \<Rightarrow> Inr s)"

definition DeleteAllDKGInterimData :: "'w tss_state \<Rightarrow> GroupID \<Rightarrow> 'w tss_state" where
  "DeleteAllDKGInterimData s gid =
     (let s = DeleteDKGContext s gid; s = DeleteAccumulatedCommits s gid; s = DeleteRound1Infos s gid;
          s = DeleteRound2Infos s gid in DeleteConfirmComplains s gid)"

definition expire_group :: "('p, 'r, 'c, 'w) tss_keeper \<Rightarrow> tss_ctx \<Rightarrow> 'w tss_state \<Rightarrow> Group \<Rightarrow> GroupID \<Rightarrow> 'w tss_state result" where
  "expire_group k ctx s g gid =
     bindE (if grp_Status g \<noteq> GROUP_STATUS_ACTIVE \<and> grp_Status g \<noteq> GROUP_STATUS_FALLEN then
              bindE (with_callback k (grp_ModuleOwner g) (\<lambda>cb. OnGroupCreationExpired cb ctx s (grp_ID g)) s) (\<lambda>s.
              Inr (SetGroup s (g\<lparr>grp_Status := GROUP_STATUS_EXPIRED\<rparr>)))
            else Inr s) (\<lambda>s.
     Inr (DeleteAllDKGInterimData s gid))"

text \<open>
  The loop of \<open>HandleExpiredGroups\<close> over the remaining ids, which are below \<open>2 ^ 64 - 1\<close> so that its variable does not wrap around;
  it returns the id at which it stopped.
\<close>

fun expire_groups ::
  "('p, 'r, 'c, 'w) tss_keeper \<Rightarrow> tss_ctx \<Rightarrow> 'w tss_state \<Rightarrow> GroupID \<Rightarrow> nat \<Rightarrow> (GroupID \<times> 'w tss_state) result" where
  "expire_groups k ctx s gid 0 = Inr (gid, s)"
| "expire_groups k ctx s gid (Suc n) =
     bindE (MustGetGroup s gid) (\<lambda>g.
     if u64 (grp_CreatedHeight g + xp_CreationPeriod (xs_params s)) > to_uint64 (xc_BlockHeight ctx) then Inr (gid, s)
     else bindE (expire_group k ctx s g gid) (\<lambda>s. expire_groups k ctx s (Suc gid) n))"

definition HandleExpiredGroups :: "('p, 'r, 'c, 'w) tss_keeper \<Rightarrow> tss_ctx \<Rightarrow> 'w tss_state \<Rightarrow> 'w tss_state result" where
  "HandleExpiredGroups k ctx s =
     (let currentExpiredGroupID = xs_last_expired s + 1; latestGroupID = xs_group_count s in
      bindE (expire_groups k ctx s currentExpiredGroupID (latestGroupID + 1 - currentExpiredGroupID)) (\<lambda>(gid, s).
      Inr (s\<lparr>xs_last_expired := gid - 1\<rparr>)))"

section \<open>Signings at the end of a block\<close>

definition AggregatePartialSignatures ::
  "('p, 'r, 'c, 'w) tss_keeper \<Rightarrow> tss_ctx \<Rightarrow> 'w tss_state \<Rightarrow> SigningID \<Rightarrow> 'w tss_state result" where
  "AggregatePartialSignatures k ctx s sid =
     bindE (MustGetSigning s sid) (\<lambda>signing.
     let partialSigs = GetPartialSignatures s sid (sgn_CurrentAttempt signing) in
     bindE (wrap_err tss_ErrInvalidSignature (CombineSignatures (xk_curve k) partialSigs)) (\<lambda>sig.
     bindE (wrap_err tss_ErrInvalidSignature
       (VerifyGroupSigningSignature (xk_curve k) (sgn_GroupPubKey signing) (sgn_Message signing) sig)) (\<lambda>_.
     let signing = signing\<lparr>sgn_Signature := sig, sgn_Status := SIGNING_STATUS_SUCCESS\<rparr>;
         s = SetSigning s signing in
     bindE (MustGetGroup s (sgn_GroupID signing)) (\<lambda>g.
     with_callback k (grp_ModuleOwner g) (\<lambda>cb.
       bindE (MustGetCurrentAssignedMembers k s sid) (\<lambda>addrs. OnSigningCompleted cb ctx s (sgn_ID signing) addrs)) s))))"

definition HandleFailedSigning :: "('p, 'r, 'c, 'w) tss_keeper \<Rightarrow> tss_ctx \<Rightarrow> 'w tss_state \<Rightarrow> SigningID \<Rightarrow> 'w tss_state result" where
  "HandleFailedSigning k ctx s sid =
     bindE (MustGetSigning s sid) (\<lambda>signing.
     let signing = signing\<lparr>sgn_Status := SIGNING_STATUS_FALLEN\<rparr>; s = SetSigning s signing in
     bindE (MustGetGroup s (sgn_GroupID signing)) (\<lambda>g.
     with_callback k (grp_ModuleOwner g) (\<lambda>cb. OnSigningFailed cb ctx s (sgn_ID signing)) s))"

definition DeleteInterimSigningData :: "'w tss_state \<Rightarrow> SigningID \<Rightarrow> uint64 \<Rightarrow> 'w tss_state" where
  "DeleteInterimSigningData s sid attempt =
     DeleteSigningAttempt (DeletePartialSignatureCount (DeletePartialSignatures s sid attempt) sid attempt) sid attempt"

text \<open>The loop of \<open>HandleExpiredSignings\<close>: it returns the number of processed entries and the signings to retry.\<close>

fun expire_signings ::
  "('p, 'r, 'c, 'w) tss_keeper \<Rightarrow> tss_ctx \<Rightarrow> SigningExpiration list \<Rightarrow> nat \<Rightarrow> SigningID list \<Rightarrow> 'w tss_state \<Rightarrow>
   (nat \<times> SigningID list \<times> 'w tss_state) result" where
  "expire_signings k ctx [] idx signingIDs s = Inr (idx, signingIDs, s)"
| "expire_signings k ctx (se # ses) idx signingIDs s =
     (let sid = se_SigningID se; attempt = se_SigningAttempt se in
      bindE (MustGetSigning s sid) (\<lambda>signing.
      bindE (MustGetSigningAttempt s sid attempt) (\<lambda>sa.
      if sa_ExpiredHeight sa > to_uint64 (xc_BlockHeight ctx) then Inr (idx, signingIDs, s)
      else
        bindE (if GetPartialSignatureCount s sid attempt \<noteq> length (sa_AssignedMembers sa) then
                 bindE (MustGetGroup s (sgn_GroupID signing)) (\<lambda>g.
                 bindE (with_callback k (grp_ModuleOwner g) (\<lambda>cb.
                   bindE (GetMembersNotSubmitSignature k s sid (sgn_CurrentAttempt signing)) (\<lambda>idleMembers.
                   OnSigningTimeout cb ctx s (sgn_ID signing) idleMembers)) s) (\<lambda>s.
                 Inr (signingIDs @ [sid], s)))
               else Inr (signingIDs, s)) (\<lambda>(signingIDs, s).
        expire_signings k ctx ses (Suc idx) signingIDs (DeleteInterimSigningData s sid attempt)))))"

definition HandleExpiredSignings ::
  "('p, 'r, 'c, 'w) tss_keeper \<Rightarrow> tss_ctx \<Rightarrow> 'w tss_state \<Rightarrow> (SigningID list \<times> 'w tss_state) result" where
  "HandleExpiredSignings k ctx s =
     (let signingExpirations = xs_expirations s in
      bindE (expire_signings k ctx signingExpirations 0 [] s) (\<lambda>(idx, signingIDs, s).
      Inr (signingIDs, s\<lparr>xs_expirations := drop idx signingExpirations\<rparr>)))"

text \<open>An aggregation that fails has not changed the state.\<close>

definition aggregate_step ::
  "('p, 'r, 'c, 'w) tss_keeper \<Rightarrow> tss_ctx \<Rightarrow> SigningID list \<times> 'w tss_state \<Rightarrow> SigningID \<Rightarrow> (SigningID list \<times> 'w tss_state) result" where
  "aggregate_step k ctx st sid =
     (let (retrySigningIDs, s) = st in
      bindE (catchE (AggregatePartialSignatures k ctx s sid)) (\<lambda>r.
      case r of None \<Rightarrow> Inr (retrySigningIDs @ [sid], s) | Some s \<Rightarrow> Inr (retrySigningIDs, s)))"

definition retry_step :: "('p, 'r, 'c, 'w) tss_keeper \<Rightarrow> tss_ctx \<Rightarrow> 'w tss_state \<Rightarrow> SigningID \<Rightarrow> 'w tss_state result" where
  "retry_step k ctx s sid =
     bindE (catchE (InitiateNewSigningRound k ctx s sid)) (\<lambda>r.
     case r of None \<Rightarrow> HandleFailedSigning k ctx s sid | Some s \<Rightarrow> Inr s)"

definition HandleSigningEndBlock :: "('p, 'r, 'c, 'w) tss_keeper \<Rightarrow> tss_ctx \<Rightarrow> 'w tss_state \<Rightarrow> 'w tss_state result" where
  "HandleSigningEndBlock k ctx s =
     bindE (foldE (aggregate_step k ctx) ([], s) (xs_pending_signings s)) (\<lambda>(retrySigningIDs, s).
     let s = s\<lparr>xs_pending_signings := []\<rparr> in
     bindE (HandleExpiredSignings k ctx s) (\<lambda>(timeoutSigningIDs, s).
     foldE (retry_step k ctx) s (retrySigningIDs @ timeoutSigningIDs)))"

definition tss_EndBlocker :: "('p, 'r, 'c, 'w) tss_keeper \<Rightarrow> tss_ctx \<Rightarrow> 'w tss_state \<Rightarrow> 'w tss_state result" where
  "tss_EndBlocker k ctx s =
     bindE (foldE (HandleProcessGroup k ctx) s (xs_pending_groups s)) (\<lambda>s.
     let s = s\<lparr>xs_pending_groups := []\<rparr> in
     bindE (HandleExpiredGroups k ctx s) (\<lambda>s. HandleSigningEndBlock k ctx s))"

section \<open>Messages\<close>

definition SubmitDKGRound1 :: "('p, 'r, 'c, 'w) tss_keeper \<Rightarrow> 'w tss_state \<Rightarrow> MsgSubmitDKGRound1 \<Rightarrow> 'w tss_state result" where
  "SubmitDKGRound1 k s req =
     (let gid = m1_GroupID req; info = m1_Round1Info req; mid = ri_MemberID info in
      bindE (GetGroup s gid) (\<lambda>g.
      if grp_Status g \<noteq> GROUP_STATUS_ROUND_1 then Inl ErrInvalidGroupStatus
      else
        bindE (ValidateMemberID s gid mid (m1_Sender req)) (\<lambda>_.
        if HasRound1Info s gid mid then Inl ErrMemberAlreadySubmit
        else
          bindE (ValidateRound1Info k s g info) (\<lambda>_.
          bindE (AddCoefficientCommits k s gid (ri_CoefficientCommits info)) (\<lambda>s.
          let s = AddRound1Info s gid info in
          Inr (if GetRound1InfoCount s gid = grp_Size g then AddPendingProcessGroup s gid else s))))))"

definition SubmitDKGRound2 :: "('p, 'r, 'c, 'w) tss_keeper \<Rightarrow> 'w tss_state \<Rightarrow> MsgSubmitDKGRound2 \<Rightarrow> 'w tss_state result" where
  "SubmitDKGRound2 k s req =
     (let gid = m2_GroupID req; info = m2_Round2Info req; mid = r2_MemberID info in
      bindE (GetGroup s gid) (\<lambda>g.
      if grp_Status g \<noteq> GROUP_STATUS_ROUND_2 then Inl ErrInvalidGroupStatus
      else
        bindE (ValidateMemberID s gid mid (m2_Sender req)) (\<lambda>_.
        if HasRound2Info s gid mid then Inl ErrMemberAlreadySubmit
        else if length (r2_EncryptedSecretShares info) \<noteq> u64 (grp_Size g + 2 ^ 64 - 1) then Inl ErrInvalidLengthEncryptedSecretShares
        else
          bindE (UpdateMemberPubKey k s gid mid) (\<lambda>s.
          let s = AddRound2Info s gid info in
          Inr (if GetRound2InfoCount s gid = grp_Size g then AddPendingProcessGroup s gid else s)))))"

definition Complain :: "('p, 'r, 'c, 'w) tss_keeper \<Rightarrow> 'w tss_state \<Rightarrow> MsgComplain \<Rightarrow> 'w tss_state result" where
  "Complain k s req =
     (let gid = mcp_GroupID req in
      bindE (index (mcp_Complaints req) 0) (\<lambda>first.
      let mid = comp_Complainant first in
      bindE (GetGroup s gid) (\<lambda>g.
      if grp_Status g \<noteq> GROUP_STATUS_ROUND_3 then Inl ErrInvalidGroupStatus
      else
        bindE (ValidateMemberID s gid mid (mcp_Sender req)) (\<lambda>_.
        if HasConfirm s gid mid then Inl ErrMemberAlreadySubmit
        else if HasComplaintsWithStatus s gid mid then Inl ErrMemberAlreadySubmit
        else
          bindE (ProcessComplaint k s (mcp_Complaints req) gid) (\<lambda>(complaintsWithStatus, s).
          let s = AddComplaintsWithStatus s gid \<lparr>csws_MemberID = mid, csws_ComplaintsWithStatus = complaintsWithStatus\<rparr> in
          Inr (if GetConfirmComplainCount s gid = grp_Size g then AddPendingProcessGroup s gid else s))))))"

definition tss_Confirm :: "('p, 'r, 'c, 'w) tss_keeper \<Rightarrow> 'w tss_state \<Rightarrow> MsgConfirm \<Rightarrow> 'w tss_state result" where
  "tss_Confirm k s req =
     (let gid = mcf_GroupID req; mid = mcf_MemberID req in
      bindE (GetGroup s gid) (\<lambda>g.
      if grp_Status g \<noteq> GROUP_STATUS_ROUND_3 then Inl ErrInvalidGroupStatus
      else
        bindE (ValidateMemberID s gid mid (mcf_Sender req)) (\<lambda>_.
        if HasConfirm s gid mid then Inl ErrMemberAlreadySubmit
        else if HasComplaintsWithStatus s gid mid then Inl ErrMemberAlreadySubmit
        else
          bindE (tss_VerifyOwnPubKeySignature k s gid mid (mcf_OwnPubKeySig req)) (\<lambda>_.
          let s = AddConfirm s gid \<lparr>conf_MemberID = mid, conf_OwnPubKeySig = mcf_OwnPubKeySig req\<rparr> in
          Inr (if GetConfirmComplainCount s gid = grp_Size g then AddPendingProcessGroup s gid else s)))))"

definition SubmitDEs :: "('p, 'r, 'c, 'w) tss_keeper \<Rightarrow> 'w tss_state \<Rightarrow> MsgSubmitDEs \<Rightarrow> 'w tss_state result" where
  "SubmitDEs k s req =
     bindE (wrap_err sdk_ErrInvalidAddress (AccAddressFromBech32 (xk_sdk k) (mde_Sender req))) (\<lambda>member.
     EnqueueDEs k s member (mde_DEs req))"

definition msg_ResetDE :: "('p, 'r, 'c, 'w) tss_keeper \<Rightarrow> 'w tss_state \<Rightarrow> bytes \<Rightarrow> 'w tss_state result" where
  "msg_ResetDE k s sender =
     bindE (wrap_err sdk_ErrInvalidAddress (AccAddressFromBech32 (xk_sdk k) sender)) (\<lambda>member. ResetDE k s member)"

definition SubmitSignature :: "('p, 'r, 'c, 'w) tss_keeper \<Rightarrow> 'w tss_state \<Rightarrow> MsgSubmitSignature \<Rightarrow> 'w tss_state result" where
  "SubmitSignature k s req =
     (let sid = mss_SigningID req; mid = mss_MemberID req; sig = mss_Signature req in
      bindE (tss_GetSigning s sid) (\<lambda>signing.
      if sgn_Status signing \<noteq> SIGNING_STATUS_WAITING then Inl ErrSigningAlreadySuccess
      else
        bindE (GetSigningAttempt s sid (sgn_CurrentAttempt signing)) (\<lambda>sa.
        let assignedMembers = sa_AssignedMembers sa in
        case FindAssignedMember assignedMembers mid of
          None \<Rightarrow> Inl ErrMemberNotAssigned
        | Some am \<Rightarrow>
            if am_Address am \<noteq> mss_Signer req then Inl ErrMemberNotAssigned
            else if HasPartialSignature s sid (sa_Attempt sa) mid then Inl ErrAlreadySigned
            else if \<not> VerifySignatureR assignedMembers mid (Signature_R sig) then Inl ErrSubmitSigningSignatureFailed
            else
              bindE (wrap_err ErrSubmitSigningSignatureFailed
                (ComputeLagrangeCoefficient mid (map am_MemberID assignedMembers))) (\<lambda>lagrange.
              bindE (wrap_err ErrSubmitSigningSignatureFailed
                (VerifySigningSignature (xk_curve k) (sgn_GroupPubNonce signing) (sgn_GroupPubKey signing) (sgn_Message signing)
                   lagrange sig (am_PubKey am))) (\<lambda>_.
              let s = AddPartialSignature s sid (sa_Attempt sa) mid sig in
              Inr (if GetPartialSignatureCount s sid (sa_Attempt sa) = length assignedMembers
                   then AddPendingProcessSigning s sid else s))))))"

definition tss_UpdateParams :: "('p, 'r, 'c, 'w) tss_keeper \<Rightarrow> 'w tss_state \<Rightarrow> bytes \<Rightarrow> tss_Params \<Rightarrow> 'w tss_state result" where
  "tss_UpdateParams k s authority p = (if xk_authority k \<noteq> authority then Inl gov_ErrInvalidSigner else tss_SetParams s p)"

section \<open>Queries on signings\<close>

definition NewEVMSignature :: "'p curve \<Rightarrow> Signature \<Rightarrow> (bytes \<times> bytes) result" where
  "NewEVMSignature c signature = bindE (Point_Address c (Signature_R signature)) (\<lambda>rAddr. Inr (rAddr, Signature_S signature))"

record SigningResult =
  sr_Signing :: Signing
  sr_CurrentSigningAttempt :: "SigningAttempt option"
  sr_EVMSignature :: "(bytes \<times> bytes) option"
  sr_ReceivedPartialSignatures :: "PartialSignature list"

definition GetSigningResult :: "('p, 'r, 'c, 'w) tss_keeper \<Rightarrow> 'w tss_state \<Rightarrow> SigningID \<Rightarrow> SigningResult result" where
  "GetSigningResult k s sid =
     bindE (tss_GetSigning s sid) (\<lambda>signing.
     let current = (case GetSigningAttempt s sid (sgn_CurrentAttempt signing) of Inl _ \<Rightarrow> None | Inr sa \<Rightarrow> Some sa) in
     bindE (GetPartialSignaturesWithKey s sid (sgn_CurrentAttempt signing)) (\<lambda>partialSigs.
     bindE (if sgn_Signature signing \<noteq> [] then bindE (NewEVMSignature (xk_curve k) (sgn_Signature signing)) (\<lambda>e. Inr (Some e))
            else Inr None) (\<lambda>evm.
     Inr \<lparr>sr_Signing = signing, sr_CurrentSigningAttempt = current, sr_EVMSignature = evm, sr_ReceivedPartialSignatures = partialSigs\<rparr>)))"

definition pending_signing_step ::
  "'w tss_state \<Rightarrow> (AssignedMember \<Rightarrow> bool) \<Rightarrow> SigningID list \<times> SigningID list \<Rightarrow> SigningExpiration \<Rightarrow>
   (SigningID list \<times> SigningID list) result" where
  "pending_signing_step s filterFunc st se =
     (let (checked, signingIDs) = st; sid = se_SigningID se in
      if sid \<in> set checked then Inr (checked, signingIDs)
      else
        bindE (MustGetSigning s sid) (\<lambda>signing.
        let checked = sid # checked in
        if sgn_Status signing \<noteq> SIGNING_STATUS_WAITING then Inr (checked, signingIDs)
        else
          let attempt = sgn_CurrentAttempt signing in
          case GetSigningAttempt s sid attempt of
            Inl _ \<Rightarrow> Inr (checked, signingIDs)
          | Inr sa \<Rightarrow>
              Inr (checked, signingIDs @ concat (map (\<lambda>am.
                if filterFunc am \<and> \<not> HasPartialSignature s sid attempt (am_MemberID am) then [sid] else []) (sa_AssignedMembers sa)))))"

definition getPendingSigningByFilterFunc :: "'w tss_state \<Rightarrow> (AssignedMember \<Rightarrow> bool) \<Rightarrow> SigningID list result" where
  "getPendingSigningByFilterFunc s filterFunc =
     bindE (foldE (pending_signing_step s filterFunc) ([], []) (xs_expirations s)) (\<lambda>(checked, signingIDs). Inr signingIDs)"

definition GetPendingSignings :: "('p, 'r, 'c, 'w) tss_keeper \<Rightarrow> 'w tss_state \<Rightarrow> bytes \<Rightarrow> SigningID list result" where
  "GetPendingSignings k s address = getPendingSigningByFilterFunc s (\<lambda>am. am_Address am = AccAddress_String (xk_sdk k) address)"

definition GetPendingSigningsByPubKey :: "'w tss_state \<Rightarrow> Point \<Rightarrow> SigningID list result" where
  "GetPendingSigningsByPubKey s pubKey = getPendingSigningByFilterFunc s (\<lambda>am. am_PubKey am = pubKey)"

section \<open>Genesis\<close>

definition SetGroupGenesis :: "'w tss_state \<Rightarrow> Group list \<Rightarrow> 'w tss_state" where
  "SetGroupGenesis s groups =
     (let (maxGroupID, s) = foldl (\<lambda>(mx, s) g. (if grp_ID g > mx then grp_ID g else mx, SetGroup s g)) (0, s) groups in
      SetGroupCount s maxGroupID)"

definition group_des :: "DEGenesis list \<Rightarrow> (bytes, DE list) kv" where
  "group_des des =
     foldl (\<lambda>m d. kv_set m (dg_Address d) ((case kv_get m (dg_Address d) of None \<Rightarrow> [] | Some l \<Rightarrow> l) @ [dg_DE d])) [] des"

definition init_des ::
  "('p, 'r, 'c, 'w) tss_keeper \<Rightarrow> tss_Params \<Rightarrow> 'w tss_state \<Rightarrow> bytes \<times> DE list \<Rightarrow> 'w tss_state result" where
  "init_des k p s e =
     (let (addr, des) = e in
      if length des > xp_MaxDESize p then Inl (Panic ''DEs size exceeds MaxDESize'')
      else
        bindE (MustAccAddressFromBech32 (xk_sdk k) addr) (\<lambda>acc.
        let s = SetDEQueue k s acc \<lparr>deq_Head = 0, deq_Tail = length des\<rparr> in
        Inr (foldl (\<lambda>s (i, de). SetDE k s acc i de) s (enumerate 0 des))))"

definition tss_InitGenesis :: "('p, 'r, 'c, 'w) tss_keeper \<Rightarrow> 'w tss_state \<Rightarrow> tss_GenesisState \<Rightarrow> 'w tss_state result" where
  "tss_InitGenesis k s data =
     bindE (must (tss_SetParams s (xg_Params data))) (\<lambda>s.
     let s = SetMembers (SetGroupGenesis s (xg_Groups data)) (xg_Members data) in
     foldE (init_des k (xg_Params data)) s (group_des (xg_DEs data)))"

definition export_queue :: "('p, 'r, 'c, 'w) tss_keeper \<Rightarrow> 'w tss_state \<Rightarrow> bytes \<times> DEQueue \<Rightarrow> DEGenesis list result" where
  "export_queue k s e =
     (let (key, q) = e; address = ExtractAddressFromDEQueueStoreKey key in
      mapE (\<lambda>i. bindE (must (GetDE k s address i)) (\<lambda>de. Inr \<lparr>dg_Address = AccAddress_String (xk_sdk k) address, dg_DE = de\<rparr>))
        [deq_Head q..<deq_Tail q])"

definition GetDEsGenesis :: "('p, 'r, 'c, 'w) tss_keeper \<Rightarrow> 'w tss_state \<Rightarrow> DEGenesis list result" where
  "GetDEsGenesis k s = bindE (mapE (export_queue k s) (xs_deq s)) (\<lambda>dess. Inr (concat dess))"

definition tss_ExportGenesis :: "('p, 'r, 'c, 'w) tss_keeper \<Rightarrow> 'w tss_state \<Rightarrow> tss_GenesisState result" where
  "tss_ExportGenesis k s =
     bindE (GetDEsGenesis k s) (\<lambda>des.
     Inr \<lparr>xg_Params = xs_params s, xg_Groups = GetGroups s, xg_Members = GetMembers s, xg_DEs = des\<rparr>)"

end
