(* ===== verification/Xtss_Views.thy ===== *)
theory Xtss_Views
  imports Xtss_Block
begin

text \<open>
  Tables of the store. The keys of \<open>x/tss\<close> are a prefix, which names the owner of a table (a group, a signing, an
  address), followed by a 64-bit index. When the prefixes are a prefix-free code, the store is a family of maps from indexes: the locale
  \<open>table\<close> has the laws of this view, and it is interpreted for every key of the module.
\<close>

section \<open>Tables\<close>

definition view :: "('a \<Rightarrow> bytes) \<Rightarrow> (bytes, 'v) kv \<Rightarrow> 'a \<Rightarrow> nat \<Rightarrow> 'v option" where
  "view pre m a i = (if i < 2 ^ 64 then kv_get m (pre a @ be_bytes 8 i) else None)"

definition wf_keys :: "('a \<Rightarrow> bytes) \<Rightarrow> ('a \<Rightarrow> bool) \<Rightarrow> (bytes, 'v) kv \<Rightarrow> bool" where
  "wf_keys pre ok m \<longleftrightarrow> (\<forall>key. kv_has m key \<longrightarrow> (\<exists>a i. ok a \<and> i < 2 ^ 64 \<and> key = pre a @ be_bytes 8 i))"

lemma be8_inj: "i < 2 ^ 64 \<Longrightarrow> j < 2 ^ 64 \<Longrightarrow> be_bytes 8 i = be_bytes 8 j \<longleftrightarrow> i = j"
  using be_bytes_inj [of i 8 j] by simp

lemma be8_less: "i < 2 ^ 64 \<Longrightarrow> j < 2 ^ 64 \<Longrightarrow> be_bytes 8 i < be_bytes 8 j \<longleftrightarrow> i < j"
  using be_bytes_less [of i 8 j] by simp

lemma view_get: "i < 2 ^ 64 \<Longrightarrow> kv_get m (pre a @ be_bytes 8 i) = view pre m a i"
  by (simp add: view_def)

lemma view_has: "i < 2 ^ 64 \<Longrightarrow> kv_has m (pre a @ be_bytes 8 i) \<longleftrightarrow> i \<in> dom (view pre m a)"
  by (auto simp: view_def kv_has_def)

lemma view_Nil [simp]: "view pre [] a = Map.empty"
  by (auto simp: view_def)

lemma view_SomeD: "view pre m a i = Some v \<Longrightarrow> i < 2 ^ 64 \<and> kv_get m (pre a @ be_bytes 8 i) = Some v"
  by (auto simp: view_def split: if_splits)

lemma finite_dom_view [simp]: "finite (dom (view pre m a))"
  by (rule finite_subset [of _ "{..<2 ^ 64}"]) (auto dest: view_SomeD)

lemma foldl_delete_get: "kv_get (foldl kv_delete m ks) key = (if key \<in> set ks then None else kv_get m key)"
  by (induction ks arbitrary: m) auto

lemma delete_prefix_get: "kv_get (delete_prefix m p) key = (if has_prefix p key then None else kv_get m key)"
proof -
  have "key \<in> set (map fst (kv_prefix_iterator m p)) \<longleftrightarrow> has_prefix p key \<and> kv_has m key"
    by (force simp: kv_prefix_iterator_def kv_has_def kv_get_def weak_map_of_SomeI dest: map_of_SomeD)
  then show ?thesis unfolding delete_prefix_def foldl_delete_get by (auto simp: kv_has_def)
qed

lemma foldl_delete_ok: "kv_ok m \<Longrightarrow> kv_ok (foldl kv_delete m ks)"
  by (induction ks arbitrary: m) auto

lemma delete_prefix_ok [simp, intro]: "kv_ok m \<Longrightarrow> kv_ok (delete_prefix m p)"
  unfolding delete_prefix_def by (rule foldl_delete_ok)

lemma wf_keys_Nil [simp]: "wf_keys pre ok []"
  by (simp add: wf_keys_def)

lemma wf_keys_set [intro]: "wf_keys pre ok m \<Longrightarrow> ok a \<Longrightarrow> i < 2 ^ 64 \<Longrightarrow> wf_keys pre ok (kv_set m (pre a @ be_bytes 8 i) v)"
  by (auto simp: wf_keys_def)

lemma wf_keys_delete [intro]: "wf_keys pre ok m \<Longrightarrow> wf_keys pre ok (kv_delete m key)"
  by (auto simp: wf_keys_def)

lemma wf_keys_delete_prefix [intro]: "wf_keys pre ok m \<Longrightarrow> wf_keys pre ok (delete_prefix m p)"
  by (auto simp: wf_keys_def kv_has_def delete_prefix_get)

locale table =
  fixes pre :: "'a \<Rightarrow> bytes" and ok :: "'a \<Rightarrow> bool"
  assumes pre_free: "ok a \<Longrightarrow> ok b \<Longrightarrow> pre a @ xs = pre b @ ys \<Longrightarrow> a = b"
begin

lemma key_eq:
  assumes "ok a" "ok b" "i < 2 ^ 64" "j < 2 ^ 64"
  shows "pre a @ be_bytes 8 i = pre b @ be_bytes 8 j \<longleftrightarrow> a = b \<and> i = j"
  using pre_free [OF assms(1,2)] be8_inj [OF assms(3,4)] by auto

lemma view_set:
  assumes "ok a" "ok b" "i < 2 ^ 64"
  shows "view pre (kv_set m (pre a @ be_bytes 8 i) v) b = (if b = a then (view pre m a)(i \<mapsto> v) else view pre m b)"
  using key_eq [OF assms(2,1) _ assms(3)] assms(3) by (auto simp: view_def fun_eq_iff)

lemma view_delete:
  assumes "ok a" "ok b" "i < 2 ^ 64"
  shows "view pre (kv_delete m (pre a @ be_bytes 8 i)) b = (if b = a then (view pre m a)(i := None) else view pre m b)"
  using key_eq [OF assms(2,1) _ assms(3)] assms(3) by (auto simp: view_def fun_eq_iff)

lemma view_delete_prefix:
  assumes "ok a" "ok b"
  shows "view pre (delete_prefix m (pre a)) b = (if b = a then Map.empty else view pre m b)"
  using pre_free [OF assms(2,1)] by (auto simp: view_def fun_eq_iff delete_prefix_get has_prefix_iff)

text \<open>Iteration over a table goes through its indexes in ascending order.\<close>

lemma iterator_entries:
  assumes kv: "kv_ok m" and wf: "wf_keys pre ok m" and a: "ok a"
  shows "kv_prefix_iterator m (pre a) =
    map (\<lambda>i. (pre a @ be_bytes 8 i, the (view pre m a i))) (sorted_list_of_set (dom (view pre m a)))"
    (is "?it = map ?f ?is")
proof -
  let ?D = "dom (view pre m a)"
  have lt: "i < 2 ^ 64" if "i \<in> ?D" for i using that by (auto dest: view_SomeD)
  have set_is: "set ?is = ?D" by simp
  have keys: "set (map fst ?it) = set (map fst (map ?f ?is))"
  proof (intro equalityI subsetI)
    fix key assume "key \<in> set (map fst ?it)"
    then obtain v where v: "has_prefix (pre a) key" "kv_get m key = Some v"
      using set_kv_prefix_iterator [OF kv, of "pre a"] by auto
    then obtain b i where b: "ok b" "i < 2 ^ 64" "key = pre b @ be_bytes 8 i" using wf unfolding wf_keys_def kv_has_def by blast
    then have "b = a" using v(1) pre_free [OF b(1) a] by (auto simp: has_prefix_iff)
    then have "i \<in> ?D" "key = pre a @ be_bytes 8 i" using b v(2) by (auto simp: view_def)
    then show "key \<in> set (map fst (map ?f ?is))" using set_is by (auto simp: image_iff)
  next
    fix key assume "key \<in> set (map fst (map ?f ?is))"
    then obtain i where i: "i \<in> ?D" "key = pre a @ be_bytes 8 i" using set_is by auto
    then obtain v where "kv_get m key = Some v" using lt [OF i(1)] by (auto simp: view_def)
    then show "key \<in> set (map fst ?it)" using i set_kv_prefix_iterator [OF kv, of "pre a"] by (auto simp: image_iff)
  qed
  have s1: "sorted_wrt (<) (map fst ?it)" using kv_prefix_iterator_ascending [OF kv] by (simp add: sorted_wrt_map)
  have "sorted_wrt (\<lambda>i j. pre a @ be_bytes 8 i < pre a @ be_bytes 8 j) ?is"
    using strict_sorted_list_of_set [of ?D]
    by (rule sorted_wrt_mono_rel [rotated]) (use set_is lt in \<open>auto simp: lex_less_append_same_length be8_less\<close>)
  then have s2: "sorted_wrt (<) (map fst (map ?f ?is))" by (simp add: sorted_wrt_map)
  have fst_eq: "map fst ?it = map fst (map ?f ?is)" by (rule strict_sorted_equal [OF s2 s1]) (use keys in simp)
  have "\<forall>e\<in>set ?it. e = (fst e, the (kv_get m (fst e)))"
    using set_kv_prefix_iterator [OF kv, of "pre a"] by auto
  then have "?it = map (\<lambda>key. (key, the (kv_get m key))) (map fst ?it)" by (simp add: map_idI)
  also have "\<dots> = map ?f ?is" unfolding fst_eq using lt by (simp add: view_get set_is)
  finally show ?thesis .
qed

lemma iterator_values:
  assumes "kv_ok m" "wf_keys pre ok m" "ok a"
  shows "map snd (kv_prefix_iterator m (pre a)) = map (\<lambda>i. the (view pre m a i)) (sorted_list_of_set (dom (view pre m a)))"
  unfolding iterator_entries [OF assms] by (simp add: comp_def)

end

text \<open>Prefixes that are one byte and a 64-bit number.\<close>

definition fits :: "nat \<Rightarrow> bool" where "fits i \<longleftrightarrow> i < 2 ^ 64"

definition fits2 :: "nat \<times> nat \<Rightarrow> bool" where "fits2 a \<longleftrightarrow> fst a < 2 ^ 64 \<and> snd a < 2 ^ 64"

lemma id_prefix_free: "fits a \<Longrightarrow> fits b \<Longrightarrow> ([t] @ be_bytes 8 a) @ xs = ([t] @ be_bytes 8 b) @ ys \<Longrightarrow> a = b"
  by (auto simp: fits_def be8_inj)

interpretation single: table "\<lambda>_ :: unit. [t]" "\<lambda>_. True" for t
  by unfold_locales simp

interpretation memt: table MembersStoreKey fits
  by unfold_locales (simp only: MembersStoreKey_def id_prefix_free)

interpretation r1t: table Round1InfosStoreKey fits
  by unfold_locales (simp only: Round1InfosStoreKey_def id_prefix_free)

interpretation acct: table AccumulatedCommitsStoreKey fits
  by unfold_locales (simp only: AccumulatedCommitsStoreKey_def id_prefix_free)

interpretation r2t: table Round2InfosStoreKey fits
  by unfold_locales (simp only: Round2InfosStoreKey_def id_prefix_free)

interpretation cpt: table ComplainsWithStatusesStoreKey fits
  by unfold_locales (simp only: ComplainsWithStatusesStoreKey_def id_prefix_free)

interpretation cft: table ConfirmsStoreKey fits
  by unfold_locales (simp only: ConfirmsStoreKey_def id_prefix_free)

definition attempts_pre :: "SigningID \<Rightarrow> bytes" where "attempts_pre sid = [0x20] @ be_bytes 8 sid"
definition psig_counts_pre :: "SigningID \<Rightarrow> bytes" where "psig_counts_pre sid = [0x1e] @ be_bytes 8 sid"
definition psigs_pre :: "SigningID \<times> uint64 \<Rightarrow> bytes" where "psigs_pre a = PartialSignaturesStoreKey (fst a) (snd a)"

interpretation attt: table attempts_pre fits
  by unfold_locales (simp only: attempts_pre_def id_prefix_free)

interpretation pct: table psig_counts_pre fits
  by unfold_locales (simp only: psig_counts_pre_def id_prefix_free)

interpretation pst: table psigs_pre fits2
  by unfold_locales (auto simp: psigs_pre_def PartialSignaturesStoreKey_def fits2_def be8_inj prod_eq_iff)

lemma DEs_pre_free:
  assumes "address_laws sdk" "valid_addr a" "valid_addr b" "DEsStoreKey sdk a @ xs = DEsStoreKey sdk b @ ys"
  shows "a = b"
proof -
  have "MustLengthPrefix sdk a = of_nat (length a) # a" "MustLengthPrefix sdk b = of_nat (length b) # b"
    using assms(1-3) by (auto simp: address_laws_def)
  then have "(of_nat (length a) :: byte) = of_nat (length b)" and eq: "a @ xs = b @ ys" using assms(4) by (auto simp: DEsStoreKey_def)
  then have "unat (of_nat (length a) :: byte) = unat (of_nat (length b) :: byte)" by simp
  then have "length a = length b" using assms(2,3) by (simp add: unat_of_nat valid_addr_def)
  then show ?thesis using eq by simp
qed

lemma DE_table: "address_laws sdk \<Longrightarrow> table (DEsStoreKey sdk) valid_addr"
  by unfold_locales (rule DEs_pre_free)

end
