(* ===== verification/Xtss_Inv.thy ===== *)
theory Xtss_Inv
  imports Xtss_Views Tss_Threshold
begin

text \<open>
  The invariant of the store of \<open>x/tss\<close>, as conditions on the views of its tables: groups and members, the three rounds
  of key generation, the queues of nonces, and signings with their attempts.
\<close>

section \<open>Views\<close>

definition gv :: "(bytes, Group) kv \<Rightarrow> nat \<Rightarrow> Group option" where "gv G = view (\<lambda>_ :: unit. [0x10]) G ()"
definition sv :: "(bytes, Signing) kv \<Rightarrow> nat \<Rightarrow> Signing option" where "sv S = view (\<lambda>_ :: unit. [0x1d]) S ()"
definition n1v :: "(bytes, nat) kv \<Rightarrow> nat \<Rightarrow> nat option" where "n1v B = view (\<lambda>_ :: unit. [0x14]) B ()"
definition n2v :: "(bytes, nat) kv \<Rightarrow> nat \<Rightarrow> nat option" where "n2v B = view (\<lambda>_ :: unit. [0x17]) B ()"
definition ncv :: "(bytes, nat) kv \<Rightarrow> nat \<Rightarrow> nat option" where "ncv B = view (\<lambda>_ :: unit. [0x1a]) B ()"
definition mv :: "(bytes, Member) kv \<Rightarrow> nat \<Rightarrow> nat \<Rightarrow> Member option" where "mv M = view MembersStoreKey M"
definition r1v :: "(bytes, tss_Round1Info) kv \<Rightarrow> nat \<Rightarrow> nat \<Rightarrow> tss_Round1Info option" where "r1v R = view Round1InfosStoreKey R"
definition r2v :: "(bytes, Round2Info) kv \<Rightarrow> nat \<Rightarrow> nat \<Rightarrow> Round2Info option" where "r2v R = view Round2InfosStoreKey R"
definition acv :: "(bytes, Point) kv \<Rightarrow> nat \<Rightarrow> nat \<Rightarrow> Point option" where "acv A = view AccumulatedCommitsStoreKey A"
definition cpv :: "(bytes, ComplaintsWithStatus) kv \<Rightarrow> nat \<Rightarrow> nat \<Rightarrow> ComplaintsWithStatus option" where
  "cpv C = view ComplainsWithStatusesStoreKey C"
definition cfv :: "(bytes, Confirm) kv \<Rightarrow> nat \<Rightarrow> nat \<Rightarrow> Confirm option" where "cfv C = view ConfirmsStoreKey C"
definition av :: "(bytes, SigningAttempt) kv \<Rightarrow> nat \<Rightarrow> nat \<Rightarrow> SigningAttempt option" where "av A = view attempts_pre A"
definition npv :: "(bytes, nat) kv \<Rightarrow> nat \<Rightarrow> nat \<Rightarrow> nat option" where "npv B = view psig_counts_pre B"
definition psv :: "(bytes, Signature) kv \<Rightarrow> nat \<times> nat \<Rightarrow> nat \<Rightarrow> Signature option" where "psv P = view psigs_pre P"
definition dv :: "sdk \<Rightarrow> (bytes, DE) kv \<Rightarrow> bytes \<Rightarrow> nat \<Rightarrow> DE option" where "dv sdk D = view (DEsStoreKey sdk) D"

lemmas view_defs = gv_def sv_def n1v_def n2v_def ncv_def mv_def r1v_def r2v_def acv_def cpv_def cfv_def av_def npv_def psv_def dv_def

lemma view_fits:
  "gv G i = Some g \<Longrightarrow> fits i" "sv S i = Some x \<Longrightarrow> fits i" "mv M a i = Some m \<Longrightarrow> fits i" "av A a i = Some y \<Longrightarrow> fits i"
  "psv P b i = Some z \<Longrightarrow> fits i" "r1v R a i = Some r \<Longrightarrow> fits i" "acv C a i = Some p \<Longrightarrow> fits i"
  by (simp_all add: view_defs fits_def view_def split: if_splits)

lemma finite_views [simp]:
  "finite (dom (gv G))" "finite (dom (r1v R a))" "finite (dom (r2v R' a))" "finite (dom (cpv C a))" "finite (dom (cfv H a))"
  "finite (dom (psv P b))" "finite (dom (mv M a))" "finite (dom (acv A a))"
  by (simp_all add: view_defs)

text \<open>Reading through a view.\<close>

lemma get_views:
  "fits i \<Longrightarrow> kv_get G (GroupStoreKey i) = gv G i"
  "fits i \<Longrightarrow> kv_get S (SigningStoreKey i) = sv S i"
  "fits i \<Longrightarrow> kv_get M (MemberStoreKey a i) = mv M a i"
  "fits i \<Longrightarrow> kv_get R (Round1InfoStoreKey a i) = r1v R a i"
  "fits i \<Longrightarrow> kv_get R2 (Round2InfoStoreKey a i) = r2v R2 a i"
  "fits i \<Longrightarrow> kv_get A (AccumulatedCommitStoreKey a i) = acv A a i"
  "fits i \<Longrightarrow> kv_get C (ComplainsWithStatusStoreKey a i) = cpv C a i"
  "fits i \<Longrightarrow> kv_get H (ConfirmStoreKey a i) = cfv H a i"
  "fits i \<Longrightarrow> kv_get T (SigningAttemptStoreKey a i) = av T a i"
  "fits i \<Longrightarrow> kv_get B (PartialSignatureCountStoreKey a i) = npv B a i"
  "fits i \<Longrightarrow> kv_get P (PartialSignatureStoreKey a b i) = psv P (a, b) i"
  "fits i \<Longrightarrow> kv_get B1 (Round1InfoCountStoreKey i) = n1v B1 i"
  "fits i \<Longrightarrow> kv_get B2 (Round2InfoCountStoreKey i) = n2v B2 i"
  "fits i \<Longrightarrow> kv_get B3 (ConfirmComplainCountStoreKey i) = ncv B3 i"
  "fits i \<Longrightarrow> kv_get D (DEStoreKey sdk addr i) = dv sdk D addr i"
  by (simp_all add: view_defs view_def fits_def GroupStoreKey_def SigningStoreKey_def MemberStoreKey_def Round1InfoStoreKey_def
      Round2InfoStoreKey_def AccumulatedCommitStoreKey_def ComplainsWithStatusStoreKey_def ConfirmStoreKey_def
      SigningAttemptStoreKey_def attempts_pre_def PartialSignatureCountStoreKey_def psig_counts_pre_def
      PartialSignatureStoreKey_def psigs_pre_def Round1InfoCountStoreKey_def Round2InfoCountStoreKey_def
      ConfirmComplainCountStoreKey_def DEStoreKey_def)

text \<open>Writing through a view.\<close>

lemma gv_set [simp]: "fits i \<Longrightarrow> gv (kv_set G (GroupStoreKey i) v) = (gv G)(i \<mapsto> v)"
  using single.view_set [where t = "0x10" and i = i and a = "()" and b = "()"] by (simp add: gv_def fits_def GroupStoreKey_def)

lemma sv_set [simp]: "fits i \<Longrightarrow> sv (kv_set S (SigningStoreKey i) v) = (sv S)(i \<mapsto> v)"
  using single.view_set [where t = "0x1d" and i = i and a = "()" and b = "()"] by (simp add: sv_def fits_def SigningStoreKey_def)

lemma n1v_set [simp]: "fits i \<Longrightarrow> n1v (kv_set B (Round1InfoCountStoreKey i) v) = (n1v B)(i \<mapsto> v)"
  using single.view_set [where t = "0x14" and i = i and a = "()" and b = "()"] by (simp add: n1v_def fits_def Round1InfoCountStoreKey_def)

lemma n2v_set [simp]: "fits i \<Longrightarrow> n2v (kv_set B (Round2InfoCountStoreKey i) v) = (n2v B)(i \<mapsto> v)"
  using single.view_set [where t = "0x17" and i = i and a = "()" and b = "()"] by (simp add: n2v_def fits_def Round2InfoCountStoreKey_def)

lemma ncv_set [simp]: "fits i \<Longrightarrow> ncv (kv_set B (ConfirmComplainCountStoreKey i) v) = (ncv B)(i \<mapsto> v)"
  using single.view_set [where t = "0x1a" and i = i and a = "()" and b = "()"]
  by (simp add: ncv_def fits_def ConfirmComplainCountStoreKey_def)

lemma counter_delete [simp]:
  "fits i \<Longrightarrow> n1v (kv_delete B (Round1InfoCountStoreKey i)) = (n1v B)(i := None)"
  "fits i \<Longrightarrow> n2v (kv_delete B (Round2InfoCountStoreKey i)) = (n2v B)(i := None)"
  "fits i \<Longrightarrow> ncv (kv_delete B (ConfirmComplainCountStoreKey i)) = (ncv B)(i := None)"
  using single.view_delete [where t = "0x14" and i = i and a = "()" and b = "()"]
    single.view_delete [where t = "0x17" and i = i and a = "()" and b = "()"]
    single.view_delete [where t = "0x1a" and i = i and a = "()" and b = "()"]
  by (simp_all add: view_defs fits_def Round1InfoCountStoreKey_def Round2InfoCountStoreKey_def ConfirmComplainCountStoreKey_def)

lemma attempt_key: "SigningAttemptStoreKey a i = attempts_pre a @ be_bytes 8 i"
  by (simp add: SigningAttemptStoreKey_def attempts_pre_def)

lemma psig_count_key: "PartialSignatureCountStoreKey a i = psig_counts_pre a @ be_bytes 8 i"
  by (simp add: PartialSignatureCountStoreKey_def psig_counts_pre_def)

lemma psig_key: "PartialSignatureStoreKey a t i = psigs_pre (a, t) @ be_bytes 8 i"
  by (simp add: PartialSignatureStoreKey_def psigs_pre_def)

lemma psigs_key: "PartialSignaturesStoreKey a t = psigs_pre (a, t)"
  by (simp add: psigs_pre_def)

lemma table_set [simp]:
  "fits a \<Longrightarrow> fits b \<Longrightarrow> fits i \<Longrightarrow> mv (kv_set M (MemberStoreKey a i) m) b = (if b = a then (mv M a)(i \<mapsto> m) else mv M b)"
  "fits a \<Longrightarrow> fits b \<Longrightarrow> fits i \<Longrightarrow> r1v (kv_set R (Round1InfoStoreKey a i) r) b = (if b = a then (r1v R a)(i \<mapsto> r) else r1v R b)"
  "fits a \<Longrightarrow> fits b \<Longrightarrow> fits i \<Longrightarrow> r2v (kv_set R2 (Round2InfoStoreKey a i) r2) b = (if b = a then (r2v R2 a)(i \<mapsto> r2) else r2v R2 b)"
  "fits a \<Longrightarrow> fits b \<Longrightarrow> fits i \<Longrightarrow> acv (kv_set A (AccumulatedCommitStoreKey a i) p) b = (if b = a then (acv A a)(i \<mapsto> p) else acv A b)"
  "fits a \<Longrightarrow> fits b \<Longrightarrow> fits i \<Longrightarrow> cpv (kv_set C (ComplainsWithStatusStoreKey a i) c) b = (if b = a then (cpv C a)(i \<mapsto> c) else cpv C b)"
  "fits a \<Longrightarrow> fits b \<Longrightarrow> fits i \<Longrightarrow> cfv (kv_set H (ConfirmStoreKey a i) f) b = (if b = a then (cfv H a)(i \<mapsto> f) else cfv H b)"
  "fits a \<Longrightarrow> fits b \<Longrightarrow> fits i \<Longrightarrow> av (kv_set T (SigningAttemptStoreKey a i) sa) b = (if b = a then (av T a)(i \<mapsto> sa) else av T b)"
  "fits a \<Longrightarrow> fits b \<Longrightarrow> fits i \<Longrightarrow> npv (kv_set B (PartialSignatureCountStoreKey a i) n) b = (if b = a then (npv B a)(i \<mapsto> n) else npv B b)"
  subgoal unfolding mv_def MemberStoreKey_def by (rule memt.view_set) (simp_all add: fits_def)
  subgoal unfolding r1v_def Round1InfoStoreKey_def by (rule r1t.view_set) (simp_all add: fits_def)
  subgoal unfolding r2v_def Round2InfoStoreKey_def by (rule r2t.view_set) (simp_all add: fits_def)
  subgoal unfolding acv_def AccumulatedCommitStoreKey_def by (rule acct.view_set) (simp_all add: fits_def)
  subgoal unfolding cpv_def ComplainsWithStatusStoreKey_def by (rule cpt.view_set) (simp_all add: fits_def)
  subgoal unfolding cfv_def ConfirmStoreKey_def by (rule cft.view_set) (simp_all add: fits_def)
  subgoal unfolding av_def attempt_key by (rule attt.view_set) (simp_all add: fits_def)
  subgoal unfolding npv_def psig_count_key by (rule pct.view_set) (simp_all add: fits_def)
  done

lemma psv_set [simp]:
  "fits a \<Longrightarrow> fits t \<Longrightarrow> fits2 b \<Longrightarrow> fits i \<Longrightarrow>
   psv (kv_set P (PartialSignatureStoreKey a t i) v) b = (if b = (a, t) then (psv P (a, t))(i \<mapsto> v) else psv P b)"
  unfolding psv_def psig_key by (rule pst.view_set) (simp_all add: fits_def fits2_def)

lemma table_delete [simp]:
  "fits a \<Longrightarrow> fits b \<Longrightarrow> fits i \<Longrightarrow> av (kv_delete T (SigningAttemptStoreKey a i)) b = (if b = a then (av T a)(i := None) else av T b)"
  "fits a \<Longrightarrow> fits b \<Longrightarrow> fits i \<Longrightarrow> npv (kv_delete B (PartialSignatureCountStoreKey a i)) b = (if b = a then (npv B a)(i := None) else npv B b)"
  subgoal unfolding av_def attempt_key by (rule attt.view_delete) (simp_all add: fits_def)
  subgoal unfolding npv_def psig_count_key by (rule pct.view_delete) (simp_all add: fits_def)
  done

lemma table_clear [simp]:
  "fits a \<Longrightarrow> fits b \<Longrightarrow> r1v (delete_prefix R (Round1InfosStoreKey a)) b = (if b = a then Map.empty else r1v R b)"
  "fits a \<Longrightarrow> fits b \<Longrightarrow> r2v (delete_prefix R2 (Round2InfosStoreKey a)) b = (if b = a then Map.empty else r2v R2 b)"
  "fits a \<Longrightarrow> fits b \<Longrightarrow> acv (delete_prefix A (AccumulatedCommitsStoreKey a)) b = (if b = a then Map.empty else acv A b)"
  "fits a \<Longrightarrow> fits b \<Longrightarrow> cpv (delete_prefix C (ComplainsWithStatusesStoreKey a)) b = (if b = a then Map.empty else cpv C b)"
  "fits a \<Longrightarrow> fits b \<Longrightarrow> cfv (delete_prefix H (ConfirmsStoreKey a)) b = (if b = a then Map.empty else cfv H b)"
  unfolding view_defs by (rule r1t.view_delete_prefix r2t.view_delete_prefix acct.view_delete_prefix cpt.view_delete_prefix
    cft.view_delete_prefix; assumption)+

lemma psv_clear [simp]:
  "fits a \<Longrightarrow> fits t \<Longrightarrow> fits2 b \<Longrightarrow> psv (delete_prefix P (PartialSignaturesStoreKey a t)) b = (if b = (a, t) then Map.empty else psv P b)"
  unfolding psv_def psigs_key by (rule pst.view_delete_prefix) (simp_all add: fits_def fits2_def)

lemma fits2_iff [simp]: "fits2 (a, t) \<longleftrightarrow> fits a \<and> fits t"
  by (simp add: fits2_def fits_def)

lemma fits_le: "fits n \<Longrightarrow> i \<le> n \<Longrightarrow> fits i"
  by (simp add: fits_def)

lemma u64_fits [simp]: "fits n \<Longrightarrow> u64 n = n" "fits (u64 m)"
  by (simp_all add: fits_def u64_def)

section \<open>Groups and members\<close>

definition groups_inv :: "(bytes, Group) kv \<Rightarrow> uint64 \<Rightarrow> bool" where
  "groups_inv G n \<longleftrightarrow> kv_ok G \<and> fits n \<and> dom (gv G) = {1..n} \<and>
     (\<forall>i g. gv G i = Some g \<longrightarrow> grp_ID g = i \<and> 1 \<le> grp_Size g \<and> fits (grp_Size g) \<and> fits (grp_Threshold g))"

definition members_inv :: "sdk \<Rightarrow> (bytes, Group) kv \<Rightarrow> (bytes, Member) kv \<Rightarrow> bool" where
  "members_inv sdk G M \<longleftrightarrow> kv_ok M \<and> wf_keys MembersStoreKey fits M \<and>
     (\<forall>gid. fits gid \<longrightarrow> dom (mv M gid) = (case gv G gid of None \<Rightarrow> {} | Some g \<Rightarrow> {1..grp_Size g})) \<and>
     (\<forall>gid i m. fits gid \<longrightarrow> mv M gid i = Some m \<longrightarrow>
        mem_ID m = i \<and> mem_GroupID m = gid \<and> is_ok (AccAddressFromBech32 sdk (mem_Address m))) \<and>
     (\<forall>gid i j m m'. fits gid \<longrightarrow> mv M gid i = Some m \<longrightarrow> mv M gid j = Some m' \<longrightarrow> mem_Address m = mem_Address m' \<longrightarrow> i = j)"

text \<open>
  The public keys of a group and of the members \<open>I\<close> are those of a list of as many commitments as the threshold.
\<close>

definition keyed :: "'p curve \<Rightarrow> Point list \<Rightarrow> Group \<Rightarrow> (nat \<Rightarrow> Member option) \<Rightarrow> nat set \<Rightarrow> bool" where
  "keyed c commits g mem I \<longleftrightarrow> length commits = grp_Threshold g \<and> commits \<noteq> [] \<and> grp_PubKey g = hd commits \<and>
     (\<forall>i\<in>I. \<forall>m. mem i = Some m \<longrightarrow> ComputeOwnPublicKey c commits i = Inr (mem_PubKey m))"

definition acc_list :: "(nat \<Rightarrow> Point option) \<Rightarrow> nat \<Rightarrow> Point list" where
  "acc_list acc t = map (\<lambda>i. the (acc i)) [0..<t]"

definition cnt :: "nat option \<Rightarrow> nat" where
  "cnt n = (case n of None \<Rightarrow> 0 | Some m \<Rightarrow> m)"

lemma cnt_simps [simp]: "cnt None = 0" "cnt (Some n) = n"
  by (simp_all add: cnt_def)

section \<open>Key generation\<close>

text \<open>
  The accumulated commitments are the sums of the commitments of the members that submitted round 1, all of the length of the threshold.
\<close>

definition commit_sum :: "'p curve \<Rightarrow> (nat \<Rightarrow> tss_Round1Info option) \<Rightarrow> nat \<Rightarrow> Point \<Rightarrow> bool" where
  "commit_sum c r1 j P \<longleftrightarrow>
     (\<exists>f. (\<forall>i r. r1 i = Some r \<longrightarrow> cv_ParsePubKey c (ri_CoefficientCommits r ! j) = Some (base_mult c (f i))) \<and>
        P = cv_SerializeCompressed c (base_mult c (\<Sum>i\<in>dom r1. f i)))"

definition acc_sums :: "'p curve \<Rightarrow> (nat \<Rightarrow> tss_Round1Info option) \<Rightarrow> (nat \<Rightarrow> Point option) \<Rightarrow> nat \<Rightarrow> bool" where
  "acc_sums c r1 acc t \<longleftrightarrow> (\<forall>i r. r1 i = Some r \<longrightarrow> length (ri_CoefficientCommits r) = t) \<and> (\<forall>j P. acc j = Some P \<longrightarrow> commit_sum c r1 j P)"

text \<open>What the tables of a group hold in each of its states.\<close>

fun dkg_group where
  "dkg_group c g mem r1 n1 acc r2 n2 cp cf nc =
     (let ids = {1..grp_Size g}; t = grp_Threshold g in
      case grp_Status g of
        GROUP_STATUS_ROUND_1 \<Rightarrow>
          dom r1 \<subseteq> ids \<and> n1 = card (dom r1) \<and> dom acc = (if dom r1 = {} then {} else {..<t}) \<and> (dom r1 \<noteq> {} \<longrightarrow> 1 \<le> t) \<and>
          acc_sums c r1 acc t \<and>
          dom r2 = {} \<and> n2 = 0 \<and> dom cp = {} \<and> dom cf = {} \<and> nc = 0
      | GROUP_STATUS_ROUND_2 \<Rightarrow>
          dom r1 = ids \<and> dom acc = {..<t} \<and> acc_sums c r1 acc t \<and> keyed c (acc_list acc t) g mem (dom r2) \<and>
          dom r2 \<subseteq> ids \<and> n2 = card (dom r2) \<and> dom cp = {} \<and> dom cf = {} \<and> nc = 0
      | GROUP_STATUS_ROUND_3 \<Rightarrow>
          dom r1 = ids \<and> dom acc = {..<t} \<and> acc_sums c r1 acc t \<and> keyed c (acc_list acc t) g mem ids \<and> dom r2 = ids \<and>
          dom cp \<union> dom cf \<subseteq> ids \<and> dom cp \<inter> dom cf = {} \<and> nc = card (dom cp \<union> dom cf)
      | GROUP_STATUS_ACTIVE \<Rightarrow> (\<exists>commits. keyed c commits g mem ids)
      | GROUP_STATUS_EXPIRED \<Rightarrow> True
      | GROUP_STATUS_FALLEN \<Rightarrow> True
      | _ \<Rightarrow> False)"

declare dkg_group.simps [simp del]

definition round_done :: "Group \<Rightarrow> nat \<Rightarrow> nat \<Rightarrow> nat \<Rightarrow> bool" where
  "round_done g n1 n2 nc \<longleftrightarrow>
     (case grp_Status g of GROUP_STATUS_ROUND_1 \<Rightarrow> n1 = grp_Size g | GROUP_STATUS_ROUND_2 \<Rightarrow> n2 = grp_Size g
      | GROUP_STATUS_ROUND_3 \<Rightarrow> nc = grp_Size g | _ \<Rightarrow> False)"

definition dkg_at :: "('p, 'r, 'c, 'w) tss_keeper \<Rightarrow> 'w tss_state \<Rightarrow> nat \<Rightarrow> Group \<Rightarrow> bool" where
  "dkg_at k s gid g = dkg_group (xk_curve k) g (mv (xs_members s) gid) (r1v (xs_round1 s) gid) (cnt (n1v (xs_round1_count s) gid))
     (acv (xs_acc s) gid) (r2v (xs_round2 s) gid) (cnt (n2v (xs_round2_count s) gid)) (cpv (xs_complains s) gid)
     (cfv (xs_confirms s) gid) (cnt (ncv (xs_cc_count s) gid))"

definition done_at :: "'w tss_state \<Rightarrow> nat \<Rightarrow> Group \<Rightarrow> bool" where
  "done_at s gid g = round_done g (cnt (n1v (xs_round1_count s) gid)) (cnt (n2v (xs_round2_count s) gid)) (cnt (ncv (xs_cc_count s) gid))"

text \<open>
  \<open>P\<close> is the list of groups still to be processed at the end of the block: each group whose round is complete is in it exactly once.
\<close>

definition dkg_inv :: "('p, 'r, 'c, 'w) tss_keeper \<Rightarrow> GroupID list \<Rightarrow> 'w tss_state \<Rightarrow> bool" where
  "dkg_inv k P s \<longleftrightarrow>
     groups_inv (xs_groups s) (xs_group_count s) \<and> members_inv (xk_sdk k) (xs_groups s) (xs_members s) \<and>
     kv_ok (xs_acc s) \<and> wf_keys AccumulatedCommitsStoreKey fits (xs_acc s) \<and>
     (\<forall>gid g. gv (xs_groups s) gid = Some g \<longrightarrow> dkg_at k s gid g) \<and>
     distinct P \<and> (\<forall>gid. gid \<in> set P \<longleftrightarrow> (\<exists>g. gv (xs_groups s) gid = Some g \<and> done_at s gid g)) \<and>
     xs_last_expired s \<le> xs_group_count s \<and>
     (\<forall>gid g. gv (xs_groups s) gid = Some g \<longrightarrow> gid \<le> xs_last_expired s \<longrightarrow>
        grp_Status g \<in> {GROUP_STATUS_ACTIVE, GROUP_STATUS_FALLEN, GROUP_STATUS_EXPIRED}) \<and>
     (\<forall>gid. fits gid \<longrightarrow> xs_group_count s < gid \<longrightarrow>
        dom (r1v (xs_round1 s) gid) = {} \<and> n1v (xs_round1_count s) gid = None \<and> dom (acv (xs_acc s) gid) = {} \<and>
        dom (r2v (xs_round2 s) gid) = {} \<and> n2v (xs_round2_count s) gid = None \<and> dom (cpv (xs_complains s) gid) = {} \<and>
        dom (cfv (xs_confirms s) gid) = {} \<and> ncv (xs_cc_count s) gid = None) \<and>
     (\<forall>gid g. gv (xs_groups s) gid = Some g \<longrightarrow> grp_Status g = GROUP_STATUS_ROUND_1 \<or> grp_Status g = GROUP_STATUS_ROUND_2 \<or>
        grp_Status g = GROUP_STATUS_ROUND_3 \<longrightarrow> kv_has (xs_dkg s) (DKGContextStoreKey gid))"

section \<open>Nonces\<close>

definition de_inv :: "('p, 'r, 'c, 'w) tss_keeper \<Rightarrow> 'w tss_state \<Rightarrow> bool" where
  "de_inv k s \<longleftrightarrow> (\<forall>addr. valid_addr addr \<longrightarrow>
     (let q = GetDEQueue k s addr in
      deq_Head q \<le> deq_Tail q \<and> fits (deq_Tail q) \<and> dom (dv (xk_sdk k) (xs_de s) addr) = {deq_Head q..<deq_Tail q}))"

section \<open>Signings\<close>

definition ids_of :: "SigningAttempt \<Rightarrow> MemberID list" where
  "ids_of sa = map am_MemberID (sa_AssignedMembers sa)"

text \<open>The members of an attempt, with the keys the group knows them by.\<close>

definition attempt_ok :: "sdk \<Rightarrow> Group \<Rightarrow> (nat \<Rightarrow> Member option) \<Rightarrow> SigningAttempt \<Rightarrow> bool" where
  "attempt_ok sdk g mem sa \<longleftrightarrow>
     sorted_wrt (<) (ids_of sa) \<and> length (sa_AssignedMembers sa) = grp_Threshold g \<and>
     (\<forall>am\<in>set (sa_AssignedMembers sa). \<exists>m. mem (am_MemberID am) = Some m \<and> am_PubKey am = mem_PubKey m \<and> am_Address am = mem_Address m)"

text \<open>A stored partial signature of the current attempt has passed the checks of \<open>SubmitSignature\<close>.\<close>

definition psig_ok :: "'p curve \<Rightarrow> Signing \<Rightarrow> SigningAttempt \<Rightarrow> nat \<Rightarrow> Signature \<Rightarrow> bool" where
  "psig_ok c x sa mid sig \<longleftrightarrow>
     (\<exists>am\<in>set (sa_AssignedMembers sa). \<exists>lag. am_MemberID am = mid \<and> Signature_R sig = am_PubNonce am \<and>
        Signature_Validate c sig = Inr () \<and> ComputeLagrangeCoefficient mid (ids_of sa) = Inr lag \<and>
        VerifySigningSignature c (sgn_GroupPubNonce x) (sgn_GroupPubKey x) (sgn_Message x) lag sig (am_PubKey am) = Inr ())"

definition signing_ok :: "'p curve \<Rightarrow> (nat \<Rightarrow> Group option) \<Rightarrow> nat \<Rightarrow> Signing \<Rightarrow> bool" where
  "signing_ok c G sid x \<longleftrightarrow>
     sgn_ID x = sid \<and> fits (sgn_CurrentAttempt x + 1) \<and>
     (\<exists>g. G (sgn_GroupID x) = Some g \<and> grp_Status g = GROUP_STATUS_ACTIVE \<and> sgn_GroupPubKey x = grp_PubKey g) \<and>
     sgn_Status x \<noteq> SIGNING_STATUS_UNSPECIFIED \<and>
     (sgn_Status x = SIGNING_STATUS_SUCCESS \<longrightarrow>
        VerifyGroupSigningSignature c (sgn_GroupPubKey x) (sgn_Message x) (sgn_Signature x) = Inr ())"

definition complete :: "'w tss_state \<Rightarrow> nat \<Rightarrow> nat \<Rightarrow> SigningAttempt \<Rightarrow> bool" where
  "complete s sid att sa \<longleftrightarrow> cnt (npv (xs_psig_count s) sid att) = length (sa_AssignedMembers sa)"

definition attempt_at :: "('p, 'r, 'c, 'w) tss_keeper \<Rightarrow> 'w tss_state \<Rightarrow> nat \<Rightarrow> nat \<Rightarrow> SigningAttempt \<Rightarrow> bool" where
  "attempt_at k s sid att sa \<longleftrightarrow>
     sa_SigningID sa = sid \<and> sa_Attempt sa = att \<and>
     (\<exists>x g. sv (xs_signings s) sid = Some x \<and> gv (xs_groups s) (sgn_GroupID x) = Some g \<and>
        1 \<le> att \<and> att \<le> sgn_CurrentAttempt x \<and> attempt_ok (xk_sdk k) g (mv (xs_members s) (sgn_GroupID x)) sa \<and>
        dom (psv (xs_psigs s) (sid, att)) \<subseteq> set (ids_of sa) \<and>
        cnt (npv (xs_psig_count s) sid att) = card (dom (psv (xs_psigs s) (sid, att))) \<and>
        (att = sgn_CurrentAttempt x \<and> sgn_Status x = SIGNING_STATUS_WAITING \<or> complete s sid att sa) \<and>
        (att = sgn_CurrentAttempt x \<longrightarrow>
           ComputeGroupPublicNonce (xk_curve k) (map am_PubNonce (sa_AssignedMembers sa)) = Inr (sgn_GroupPubNonce x) \<and>
           (\<forall>mid sig. psv (xs_psigs s) (sid, att) mid = Some sig \<longrightarrow> psig_ok (xk_curve k) x sa mid sig)))"

text \<open>
  \<open>Q\<close> is the list of signings still to be aggregated and \<open>X\<close> the set of those to be retried; between blocks, \<open>Q\<close> is the stored list and
  \<open>X\<close> is empty.
\<close>

definition sign_inv :: "('p, 'r, 'c, 'w) tss_keeper \<Rightarrow> SigningID list \<Rightarrow> SigningID set \<Rightarrow> 'w tss_state \<Rightarrow> bool" where
  "sign_inv k Q X s \<longleftrightarrow>
     kv_ok (xs_psigs s) \<and> wf_keys psigs_pre fits2 (xs_psigs s) \<and>
     fits (xs_signing_count s) \<and> dom (sv (xs_signings s)) = {1..xs_signing_count s} \<and>
     (\<forall>sid x. sv (xs_signings s) sid = Some x \<longrightarrow> signing_ok (xk_curve k) (gv (xs_groups s)) sid x) \<and>
     distinct (xs_expirations s) \<and>
     (\<forall>e\<in>set (xs_expirations s). fits (se_SigningID e) \<and> fits (se_SigningAttempt e)) \<and>
     (\<forall>sid att. fits sid \<longrightarrow> fits att \<longrightarrow>
        (\<lparr>se_SigningID = sid, se_SigningAttempt = att\<rparr> \<in> set (xs_expirations s) \<longleftrightarrow> av (xs_attempts s) sid att \<noteq> None)) \<and>
     (\<forall>sid att sa. fits sid \<longrightarrow> av (xs_attempts s) sid att = Some sa \<longrightarrow> attempt_at k s sid att sa) \<and>
     (\<forall>sid att. fits sid \<longrightarrow> fits att \<longrightarrow> av (xs_attempts s) sid att = None \<longrightarrow>
        dom (psv (xs_psigs s) (sid, att)) = {} \<and> npv (xs_psig_count s) sid att = None) \<and>
     distinct Q \<and> set Q \<inter> X = {} \<and>
     (\<forall>sid. sid \<in> set Q \<longleftrightarrow> sid \<notin> X \<and> (\<exists>x sa. sv (xs_signings s) sid = Some x \<and> sgn_Status x = SIGNING_STATUS_WAITING \<and>
        av (xs_attempts s) sid (sgn_CurrentAttempt x) = Some sa \<and> complete s sid (sgn_CurrentAttempt x) sa)) \<and>
     (\<forall>sid x. sv (xs_signings s) sid = Some x \<longrightarrow> sgn_Status x = SIGNING_STATUS_WAITING \<longrightarrow> sid \<notin> X \<longrightarrow>
        av (xs_attempts s) sid (sgn_CurrentAttempt x) \<noteq> None) \<and>
     (\<forall>sid\<in>X. \<exists>x. sv (xs_signings s) sid = Some x \<and> sgn_Status x = SIGNING_STATUS_WAITING \<and>
        (\<forall>sa. av (xs_attempts s) sid (sgn_CurrentAttempt x) = Some sa \<longrightarrow> complete s sid (sgn_CurrentAttempt x) sa))"

section \<open>The invariant\<close>

definition tss_params_ok :: "tss_Params \<Rightarrow> bool" where
  "tss_params_ok p \<longleftrightarrow> tss_Params_Validate p = Inr () \<and> fits (xp_MaxGroupSize p) \<and> fits (xp_MaxSigningAttempt p + 1)"

definition tss_inv :: "('p, 'r, 'c, 'w) tss_keeper \<Rightarrow> 'w tss_state \<Rightarrow> bool" where
  "tss_inv k s \<longleftrightarrow> tss_params_ok (xs_params s) \<and> dkg_inv k (xs_pending_groups s) s \<and> de_inv k s \<and> sign_inv k (xs_pending_signings s) {} s"

end
