(* ===== verification/Xtss_Dkg.thy ===== *)
theory Xtss_Dkg
  imports Xtss_Inv
begin

text \<open>
  Key generation keeps the invariant of \<open>Xtss_Inv\<close>: each message of the three rounds, and the processing of a group at the end of a block.
\<close>

section \<open>Reading the store\<close>

lemma GetGroup_iff: "fits gid \<Longrightarrow> GetGroup s gid = Inr g \<longleftrightarrow> gv (xs_groups s) gid = Some g"
  by (auto simp: GetGroup_def get_views split: option.splits)

lemma GetMember_iff: "fits i \<Longrightarrow> GetMember s gid i = Inr m \<longleftrightarrow> mv (xs_members s) gid i = Some m"
  by (auto simp: GetMember_def get_views split: option.splits)

lemma must_Inr [simp]: "must m = Inr x \<longleftrightarrow> m = Inr x"
  by (auto simp: must_def split: sum.splits)

lemma wrap_err_Inr [simp]: "wrap_err e m = Inr x \<longleftrightarrow> m = Inr x"
  by (auto simp: wrap_err_def split: sum.splits error.splits)

lemma catchE_Inr: "catchE m = Inr r \<longleftrightarrow> (case r of Some x \<Rightarrow> m = Inr x | None \<Rightarrow> (\<exists>e. m = Inl e \<and> \<not> is_panic e))"
  by (auto simp: catchE_def split: sum.splits error.splits option.splits)

lemma MustGetGroup_iff: "fits gid \<Longrightarrow> MustGetGroup s gid = Inr g \<longleftrightarrow> gv (xs_groups s) gid = Some g"
  by (simp add: MustGetGroup_def GetGroup_iff)

lemma Has_iff:
  "fits i \<Longrightarrow> HasRound1Info s gid i \<longleftrightarrow> r1v (xs_round1 s) gid i \<noteq> None"
  "fits i \<Longrightarrow> HasRound2Info s gid i \<longleftrightarrow> r2v (xs_round2 s) gid i \<noteq> None"
  "fits i \<Longrightarrow> HasComplaintsWithStatus s gid i \<longleftrightarrow> cpv (xs_complains s) gid i \<noteq> None"
  "fits i \<Longrightarrow> HasConfirm s gid i \<longleftrightarrow> cfv (xs_confirms s) gid i \<noteq> None"
  by (auto simp: HasRound1Info_def HasRound2Info_def HasComplaintsWithStatus_def HasConfirm_def kv_has_def get_views)

lemma count_iff:
  "fits gid \<Longrightarrow> GetRound1InfoCount s gid = cnt (n1v (xs_round1_count s) gid)"
  "fits gid \<Longrightarrow> GetRound2InfoCount s gid = cnt (n2v (xs_round2_count s) gid)"
  "fits gid \<Longrightarrow> GetConfirmComplainCount s gid = cnt (ncv (xs_cc_count s) gid)"
  by (simp_all add: GetRound1InfoCount_def GetRound2InfoCount_def GetConfirmComplainCount_def counter_def cnt_def get_views)

lemma dkg_invD:
  assumes "dkg_inv k P s"
  shows "groups_inv (xs_groups s) (xs_group_count s)" "members_inv (xk_sdk k) (xs_groups s) (xs_members s)"
    "kv_ok (xs_acc s)" "wf_keys AccumulatedCommitsStoreKey fits (xs_acc s)"
    "gv (xs_groups s) gid = Some g \<Longrightarrow> dkg_at k s gid g" "distinct P"
    "gid \<in> set P \<longleftrightarrow> (\<exists>g. gv (xs_groups s) gid = Some g \<and> done_at s gid g)"
    "xs_last_expired s \<le> xs_group_count s"
    "gv (xs_groups s) gid = Some g \<Longrightarrow> gid \<le> xs_last_expired s \<Longrightarrow>
       grp_Status g \<in> {GROUP_STATUS_ACTIVE, GROUP_STATUS_FALLEN, GROUP_STATUS_EXPIRED}"
    "fits gid \<Longrightarrow> xs_group_count s < gid \<Longrightarrow>
       dom (r1v (xs_round1 s) gid) = {} \<and> n1v (xs_round1_count s) gid = None \<and> dom (acv (xs_acc s) gid) = {} \<and>
       dom (r2v (xs_round2 s) gid) = {} \<and> n2v (xs_round2_count s) gid = None \<and> dom (cpv (xs_complains s) gid) = {} \<and>
       dom (cfv (xs_confirms s) gid) = {} \<and> ncv (xs_cc_count s) gid = None"
    "gv (xs_groups s) gid = Some g \<Longrightarrow> grp_Status g = GROUP_STATUS_ROUND_1 \<or> grp_Status g = GROUP_STATUS_ROUND_2 \<or>
       grp_Status g = GROUP_STATUS_ROUND_3 \<Longrightarrow> kv_has (xs_dkg s) (DKGContextStoreKey gid)"
  using assms unfolding dkg_inv_def by blast+

lemma groups_invD:
  assumes "groups_inv G n"
  shows "kv_ok G" "fits n" "dom (gv G) = {1..n}" "gv G i = Some g \<Longrightarrow> grp_ID g = i" "gv G i = Some g \<Longrightarrow> 1 \<le> grp_Size g"
    "gv G i = Some g \<Longrightarrow> fits (grp_Size g)" "gv G i = Some g \<Longrightarrow> fits (grp_Threshold g)"
  using assms unfolding groups_inv_def by blast+

lemma members_invD:
  assumes "members_inv sdk G M"
  shows "kv_ok M" "wf_keys MembersStoreKey fits M" "gv G gid = Some g \<Longrightarrow> dom (mv M gid) = {1..grp_Size g}"
    "fits gid \<Longrightarrow> mv M gid i = Some m \<Longrightarrow> mem_ID m = i \<and> mem_GroupID m = gid \<and> is_ok (AccAddressFromBech32 sdk (mem_Address m))"
    "fits gid \<Longrightarrow> mv M gid i = Some m \<Longrightarrow> mv M gid j = Some m' \<Longrightarrow> mem_Address m = mem_Address m' \<Longrightarrow> i = j"
    "fits gid \<Longrightarrow> mv M gid i = Some m \<Longrightarrow> \<exists>g. gv G gid = Some g \<and> 1 \<le> i \<and> i \<le> grp_Size g"
proof -
  note d = assms [unfolded members_inv_def]
  show "kv_ok M" "wf_keys MembersStoreKey fits M" using d by blast+
  show "gv G gid = Some g \<Longrightarrow> dom (mv M gid) = {1..grp_Size g}" using d view_fits(1) [of G gid g] by fastforce
  show "fits gid \<Longrightarrow> mv M gid i = Some m \<Longrightarrow> mem_ID m = i \<and> mem_GroupID m = gid \<and> is_ok (AccAddressFromBech32 sdk (mem_Address m))"
    using d by blast
  show "fits gid \<Longrightarrow> mv M gid i = Some m \<Longrightarrow> mv M gid j = Some m' \<Longrightarrow> mem_Address m = mem_Address m' \<Longrightarrow> i = j"
    using d by blast
  assume f: "fits gid" and m: "mv M gid i = Some m"
  have "dom (mv M gid) = (case gv G gid of None \<Rightarrow> {} | Some g \<Rightarrow> {1..grp_Size g})" using d f by blast
  then show "\<exists>g. gv G gid = Some g \<and> 1 \<le> i \<and> i \<le> grp_Size g" using m domI [of "mv M gid" i m] by (cases "gv G gid") auto
qed

lemma sorted_list_of_atLeastAtMost: "sorted_list_of_set {Suc 0..n} = [Suc 0..<Suc n]"
  by (simp add: atLeastLessThanSuc_atLeastAtMost [symmetric] del: upt_Suc)

text \<open>The members of a group, in the order of their ids.\<close>

lemma members_list:
  assumes "members_inv sdk (xs_groups s) (xs_members s)" and "gv (xs_groups s) gid = Some g"
  shows "GetGroupMembersIterator s gid = map (\<lambda>i. the (mv (xs_members s) gid i)) [1..<Suc (grp_Size g)]"
  unfolding GetGroupMembersIterator_def
  using memt.iterator_values [OF members_invD(1,2) [OF assms(1)], of gid] members_invD(3) [OF assms] view_fits(1) [OF assms(2)]
  by (simp add: mv_def sorted_list_of_atLeastAtMost del: upt_Suc)

section \<open>Changing one group\<close>

definition same_tables :: "'w tss_state \<Rightarrow> 'w tss_state \<Rightarrow> nat \<Rightarrow> bool" where
  "same_tables s s' i \<longleftrightarrow>
     r1v (xs_round1 s') i = r1v (xs_round1 s) i \<and> n1v (xs_round1_count s') i = n1v (xs_round1_count s) i \<and>
     acv (xs_acc s') i = acv (xs_acc s) i \<and> r2v (xs_round2 s') i = r2v (xs_round2 s) i \<and>
     n2v (xs_round2_count s') i = n2v (xs_round2_count s) i \<and> cpv (xs_complains s') i = cpv (xs_complains s) i \<and>
     cfv (xs_confirms s') i = cfv (xs_confirms s) i \<and> ncv (xs_cc_count s') i = ncv (xs_cc_count s) i \<and>
     kv_has (xs_dkg s') (DKGContextStoreKey i) = kv_has (xs_dkg s) (DKGContextStoreKey i)"

definition same_groups :: "'w tss_state \<Rightarrow> 'w tss_state \<Rightarrow> nat \<Rightarrow> bool" where
  "same_groups s s' i \<longleftrightarrow> same_tables s s' i \<and> mv (xs_members s') i = mv (xs_members s) i \<and> gv (xs_groups s') i = gv (xs_groups s) i"

lemma dkg_at_same: "same_tables s s' i \<Longrightarrow> mv (xs_members s') i = mv (xs_members s) i \<Longrightarrow> dkg_at k s' i g \<longleftrightarrow> dkg_at k s i g"
  by (simp add: dkg_at_def same_tables_def)

lemma done_at_same: "same_tables s s' i \<Longrightarrow> done_at s' i g \<longleftrightarrow> done_at s i g"
  by (simp add: done_at_def same_tables_def)

lemma dkg_inv_change:
  assumes inv: "dkg_inv k P s" and g: "gv (xs_groups s) gid = Some g" and g': "gv (xs_groups s') gid = Some g'"
    and other: "\<forall>i. fits i \<longrightarrow> i \<noteq> gid \<longrightarrow> same_groups s s' i"
    and ok: "kv_ok (xs_groups s')" "xs_group_count s' = xs_group_count s" "xs_last_expired s' = xs_last_expired s"
      "grp_ID g' = gid" "grp_Size g' = grp_Size g" "grp_Threshold g' = grp_Threshold g"
      "members_inv (xk_sdk k) (xs_groups s') (xs_members s')" "kv_ok (xs_acc s')" "wf_keys AccumulatedCommitsStoreKey fits (xs_acc s')"
    and at: "dkg_at k s' gid g'"
    and pend: "distinct P'" "\<forall>i. i \<noteq> gid \<longrightarrow> (i \<in> set P' \<longleftrightarrow> i \<in> set P)" "gid \<in> set P' \<longleftrightarrow> done_at s' gid g'"
    and le: "gid \<le> xs_last_expired s \<longrightarrow> grp_Status g' \<in> {GROUP_STATUS_ACTIVE, GROUP_STATUS_FALLEN, GROUP_STATUS_EXPIRED}"
    and ctx: "grp_Status g' = GROUP_STATUS_ROUND_1 \<or> grp_Status g' = GROUP_STATUS_ROUND_2 \<or> grp_Status g' = GROUP_STATUS_ROUND_3 \<Longrightarrow>
      kv_has (xs_dkg s') (DKGContextStoreKey gid)"
  shows "dkg_inv k P' s'"
proof -
  note i = dkg_invD [OF inv] and gi = groups_invD [OF dkg_invD(1) [OF inv]]
  have same: "same_tables s s' i" "mv (xs_members s') i = mv (xs_members s) i" "gv (xs_groups s') i = gv (xs_groups s) i"
    if "fits i" "i \<noteq> gid" for i using other that by (simp_all add: same_groups_def)
  have gv': "gv (xs_groups s') i = (if i = gid then Some g' else gv (xs_groups s) i)" for i
  proof (cases "fits i \<and> i \<noteq> gid")
    case False
    then show ?thesis using g' view_fits(1) [of "xs_groups s" i] view_fits(1) [of "xs_groups s'" i]
      by (cases "gv (xs_groups s) i"; cases "gv (xs_groups s') i") auto
  qed (simp add: same(3))
  have "dom (gv (xs_groups s')) = dom (gv (xs_groups s))" using g by (auto simp: gv' split: if_splits)
  then have "groups_inv (xs_groups s') (xs_group_count s')"
    unfolding groups_inv_def using ok gi g by (auto simp: gv')
  moreover have "dkg_at k s' i h" if "gv (xs_groups s') i = Some h" for i h
  proof (cases "i = gid")
    case False
    then have "gv (xs_groups s) i = Some h" "fits i" using that view_fits(1) by (auto simp: gv')
    then show ?thesis using i(5) dkg_at_same [OF same(1,2)] False by metis
  qed (use that at gv' in simp)
  moreover have "i \<in> set P' \<longleftrightarrow> (\<exists>h. gv (xs_groups s') i = Some h \<and> done_at s' i h)" for i
  proof (cases "i = gid")
    case False
    then have "i \<in> set P' \<longleftrightarrow> (\<exists>h. gv (xs_groups s) i = Some h \<and> done_at s i h)" using pend(2) i(7) by simp
    then show ?thesis using False done_at_same [OF same(1)] view_fits(1) [of "xs_groups s" i] unfolding gv' by metis
  qed (use pend(3) gv' in simp)
  moreover have "dom (r1v (xs_round1 s') j) = {} \<and> n1v (xs_round1_count s') j = None \<and> dom (acv (xs_acc s') j) = {} \<and>
       dom (r2v (xs_round2 s') j) = {} \<and> n2v (xs_round2_count s') j = None \<and> dom (cpv (xs_complains s') j) = {} \<and>
       dom (cfv (xs_confirms s') j) = {} \<and> ncv (xs_cc_count s') j = None" if "fits j" "xs_group_count s < j" for j
  proof -
    have "j \<noteq> gid" using domI [of "gv (xs_groups s)", OF g] gi(3) that(2) by auto
    then show ?thesis using i(10) [OF that] same(1) [OF that(1)] by (simp add: same_tables_def)
  qed
  moreover have "kv_has (xs_dkg s') (DKGContextStoreKey i)" if "gv (xs_groups s') i = Some h"
    "grp_Status h = GROUP_STATUS_ROUND_1 \<or> grp_Status h = GROUP_STATUS_ROUND_2 \<or> grp_Status h = GROUP_STATUS_ROUND_3" for i h
  proof (cases "i = gid")
    case False
    then have "gv (xs_groups s) i = Some h" "fits i" using that(1) view_fits(1) by (auto simp: gv')
    then show ?thesis using i(11) [OF _ that(2)] same(1) False by (simp add: same_tables_def)
  qed (use that ctx gv' in simp)
  ultimately show ?thesis
    unfolding dkg_inv_def using ok pend(1) i(8,9) le by (simp add: gv')
qed

section \<open>Members\<close>

lemma members_inv_groups:
  assumes "members_inv sdk G M" and "\<And>i. map_option grp_Size (gv G' i) = map_option grp_Size (gv G i)"
  shows "members_inv sdk G' M"
proof -
  have "(case gv G' i of None \<Rightarrow> {} | Some g \<Rightarrow> {1..grp_Size g}) = (case gv G i of None \<Rightarrow> {} | Some g \<Rightarrow> {1..grp_Size g})" for i
    using assms(2) [of i] by (cases "gv G i"; cases "gv G' i") auto
  then show ?thesis using assms(1) unfolding members_inv_def by simp
qed

lemma members_inv_set:
  assumes inv: "members_inv sdk G M" and f: "fits gid" and m: "mv M gid i = Some m"
    and same: "mem_ID m' = mem_ID m" "mem_GroupID m' = mem_GroupID m" "mem_Address m' = mem_Address m"
  shows "members_inv sdk G (kv_set M (MemberStoreKey (mem_GroupID m') (mem_ID m')) m')"
    and "fits b \<Longrightarrow> mv (kv_set M (MemberStoreKey (mem_GroupID m') (mem_ID m')) m') b = (if b = gid then (mv M gid)(i \<mapsto> m') else mv M b)"
proof -
  note d = members_invD [OF inv] and id = members_invD(4) [OF inv f m]
  have key: "MemberStoreKey (mem_GroupID m') (mem_ID m') = MemberStoreKey gid i" using id same by simp
  have fi: "fits i" using view_fits(3) [OF m] .
  show v: "mv (kv_set M (MemberStoreKey (mem_GroupID m') (mem_ID m')) m') b = (if b = gid then (mv M gid)(i \<mapsto> m') else mv M b)"
    if "fits b" for b using that f fi unfolding key by simp
  have dom: "dom (mv M gid) = dom ((mv M gid)(i \<mapsto> m'))" using m by auto
  have get: "\<exists>n. mv M b j = Some n \<and> mem_ID n = mem_ID y \<and> mem_GroupID n = mem_GroupID y \<and> mem_Address n = mem_Address y"
    if "fits b" "mv (kv_set M (MemberStoreKey (mem_GroupID m') (mem_ID m')) m') b j = Some y" for b j y
    using that same m unfolding v [OF that(1)] by (auto split: if_splits)
  show "members_inv sdk G (kv_set M (MemberStoreKey (mem_GroupID m') (mem_ID m')) m')"
    unfolding members_inv_def
  proof (intro conjI allI impI)
    show "wf_keys MembersStoreKey fits (kv_set M (MemberStoreKey (mem_GroupID m') (mem_ID m')) m')"
      unfolding key unfolding MemberStoreKey_def using d(2) f fi by (intro wf_keys_set) (auto simp: fits_def)
    show "dom (mv (kv_set M (MemberStoreKey (mem_GroupID m') (mem_ID m')) m') b) =
        (case gv G b of None \<Rightarrow> {} | Some g \<Rightarrow> {1..grp_Size g})" if "fits b" for b
    proof -
      have "dom (mv M b) = (case gv G b of None \<Rightarrow> {} | Some g \<Rightarrow> {1..grp_Size g})" using inv that unfolding members_inv_def by blast
      then show ?thesis unfolding v [OF that] using dom [symmetric] by (cases "b = gid") simp_all
    qed
    show "kv_ok (kv_set M (MemberStoreKey (mem_GroupID m') (mem_ID m')) m')" using d(1) by simp
  next
    fix b j y assume "fits b" "mv (kv_set M (MemberStoreKey (mem_GroupID m') (mem_ID m')) m') b j = Some y"
    from get [OF this] d(4) [OF this(1)]
    show "mem_ID y = j" "mem_GroupID y = b" "is_ok (AccAddressFromBech32 sdk (mem_Address y))" by metis+
  next
    fix b i j x y assume "fits b" "mv (kv_set M (MemberStoreKey (mem_GroupID m') (mem_ID m')) m') b i = Some x"
      "mv (kv_set M (MemberStoreKey (mem_GroupID m') (mem_ID m')) m') b j = Some y" "mem_Address x = mem_Address y"
    then show "i = j" using get d(5) by metis
  qed
qed

section \<open>Round 1\<close>

lemma AddCoefficientCommits_spec:
  assumes "AddCoefficientCommits k s gid cs = Inr s'" and f: "fits gid" "fits (length cs)"
    and A: "kv_ok (xs_acc s)" "wf_keys AccumulatedCommitsStoreKey fits (xs_acc s)"
  shows "\<exists>A tot. s' = s\<lparr>xs_acc := A\<rparr> \<and> kv_ok A \<and> wf_keys AccumulatedCommitsStoreKey fits A \<and>
    (\<forall>b. fits b \<longrightarrow> acv A b = (if b = gid then (\<lambda>j. if j < length cs then Some (tot j) else acv (xs_acc s) gid j) else acv (xs_acc s) b)) \<and>
    (\<forall>j<length cs. SumPoints (xk_curve k) (case acv (xs_acc s) gid j of None \<Rightarrow> [cs ! j] | Some a \<Rightarrow> [cs ! j, a]) = Inr (tot j))"
  using assms(1) f(2)
proof (induction cs arbitrary: s' rule: rev_induct)
  case Nil
  then show ?case using A by (auto simp: AddCoefficientCommits_def intro!: exI [of _ "xs_acc s"])
next
  case (snoc p cs)
  let ?n = "length cs"
  have fn: "fits ?n" using snoc.prems(2) by (simp add: fits_def)
  obtain t where t: "AddCoefficientCommits k s gid cs = Inr t"
    and step: "bindE (wrap_err ErrAddCoeffCommit (SumPoints (xk_curve k)
        (case GetAccumulatedCommit t gid ?n of None \<Rightarrow> [p] | Some a \<Rightarrow> [p, a]))) (\<lambda>x. Inr (SetAccumulatedCommit t gid ?n x)) = Inr s'"
    using snoc.prems(1) by (auto simp: AddCoefficientCommits_def enumerate_append_eq foldE_append Let_def)
  obtain A tot where A': "t = s\<lparr>xs_acc := A\<rparr>" "kv_ok A" "wf_keys AccumulatedCommitsStoreKey fits A"
    and v: "\<And>b. fits b \<Longrightarrow> acv A b = (if b = gid then (\<lambda>j. if j < ?n then Some (tot j) else acv (xs_acc s) gid j) else acv (xs_acc s) b)"
    and tot: "\<forall>j<?n. SumPoints (xk_curve k) (case acv (xs_acc s) gid j of None \<Rightarrow> [cs ! j] | Some a \<Rightarrow> [cs ! j, a]) = Inr (tot j)"
    using snoc.IH [OF t fn] by blast
  obtain x where x: "SumPoints (xk_curve k) (case acv (xs_acc s) gid ?n of None \<Rightarrow> [p] | Some a \<Rightarrow> [p, a]) = Inr x"
    and s': "s' = SetAccumulatedCommit t gid ?n x"
    using step v [OF f(1)] A'(1) fn by (auto simp: GetAccumulatedCommit_def get_views)
  let ?A = "kv_set A (AccumulatedCommitStoreKey gid ?n) x"
  have "s' = s\<lparr>xs_acc := ?A\<rparr>" using s' A'(1) by (simp add: SetAccumulatedCommit_def)
  moreover have "wf_keys AccumulatedCommitsStoreKey fits ?A"
    unfolding AccumulatedCommitStoreKey_def using A'(3) f(1) fn by (intro wf_keys_set) (auto simp: fits_def)
  moreover have "acv ?A b = (if b = gid then (\<lambda>j. if j < length (cs @ [p]) then Some ((tot(?n := x)) j) else acv (xs_acc s) gid j)
      else acv (xs_acc s) b)" if "fits b" for b
    using that f(1) fn v by (auto simp: fun_eq_iff)
  moreover have "\<forall>j<length (cs @ [p]). SumPoints (xk_curve k)
      (case acv (xs_acc s) gid j of None \<Rightarrow> [(cs @ [p]) ! j] | Some a \<Rightarrow> [(cs @ [p]) ! j, a]) = Inr ((tot(?n := x)) j)"
    using tot x by (auto simp: nth_append less_Suc_eq split: option.splits)
  ultimately show ?case using A'(2) by blast
qed

lemma SumPoints_one:
  assumes laws: "curve_laws c" and "SumPoints c [p] = Inr q"
  shows "\<exists>a. cv_ParsePubKey c p = Some (base_mult c a) \<and> q = cv_SerializeCompressed c (base_mult c a)"
proof -
  obtain P where P: "cv_ParsePubKey c p = Some P" and q: "q = cv_SerializeCompressed c (sumPoints c [P])"
    using assms(2) by (auto simp: SumPoints_def jacobianPoints_def jacobianPoint_eq NewPointFromJacobianPoint_def split: option.splits)
  obtain a where a: "P = base_mult c a" using curve_lawsD(6) [OF laws P] by blast
  show ?thesis using P q sumPoints_base [OF laws, of "[a]"] a by auto
qed

lemma SumPoints_two:
  assumes laws: "curve_laws c" and "SumPoints c [p, cv_SerializeCompressed c (base_mult c b)] = Inr q"
  shows "\<exists>a. cv_ParsePubKey c p = Some (base_mult c a) \<and> q = cv_SerializeCompressed c (base_mult c (a + b))"
proof -
  obtain P where P: "cv_ParsePubKey c p = Some P" and q: "q = cv_SerializeCompressed c (sumPoints c [P, base_mult c b])"
    using assms(2) curve_lawsD(5) [OF laws, of b]
    by (auto simp: SumPoints_def jacobianPoints_def jacobianPoint_eq NewPointFromJacobianPoint_def split: option.splits if_splits)
  obtain a where a: "P = base_mult c a" using curve_lawsD(6) [OF laws P] by blast
  show ?thesis using P q sumPoints_base [OF laws, of "[a, b]"] a by auto
qed

text \<open>Adding the commitments of a member to the accumulated ones.\<close>

lemma acc_sums_add:
  assumes laws: "curve_laws c" and sums: "acc_sums c r1 acc t" and dom: "dom acc = (if dom r1 = {} then {} else {..<t})"
    and i: "i \<notin> dom r1" "finite (dom r1)" and len: "length (ri_CoefficientCommits r) = t"
    and tot: "\<forall>j<t. SumPoints c (case acc j of None \<Rightarrow> [ri_CoefficientCommits r ! j] | Some a \<Rightarrow> [ri_CoefficientCommits r ! j, a]) = Inr (tot j)"
  shows "acc_sums c (r1(i \<mapsto> r)) (\<lambda>j. if j < t then Some (tot j) else acc j) t"
proof -
  have ins: "dom (r1(i \<mapsto> r)) = insert i (dom r1)" by simp
  have "commit_sum c (r1(i \<mapsto> r)) j (tot j)" if j: "j < t" for j
  proof (cases "acc j")
    case None
    then have e: "r1 = Map.empty" using dom j by (auto split: if_splits)
    obtain a where "cv_ParsePubKey c (ri_CoefficientCommits r ! j) = Some (base_mult c a)" "tot j = cv_SerializeCompressed c (base_mult c a)"
      using SumPoints_one [OF laws] tot j None by fastforce
    then show ?thesis unfolding commit_sum_def e by (intro exI [of _ "\<lambda>_. a"]) auto
  next
    case (Some A)
    then have "commit_sum c r1 j A" using sums by (simp add: acc_sums_def)
    then obtain h where h: "\<forall>i r. r1 i = Some r \<longrightarrow> cv_ParsePubKey c (ri_CoefficientCommits r ! j) = Some (base_mult c (h i))"
      and A: "A = cv_SerializeCompressed c (base_mult c (\<Sum>i\<in>dom r1. h i))" unfolding commit_sum_def by blast
    have "SumPoints c [ri_CoefficientCommits r ! j, cv_SerializeCompressed c (base_mult c (\<Sum>i\<in>dom r1. h i))] = Inr (tot j)"
      using tot [rule_format, OF j] Some A by simp
    then obtain a where a: "cv_ParsePubKey c (ri_CoefficientCommits r ! j) = Some (base_mult c a)"
      "tot j = cv_SerializeCompressed c (base_mult c (a + (\<Sum>i\<in>dom r1. h i)))"
      using SumPoints_two [OF laws] by blast
    have "(\<Sum>x\<in>dom r1. (h(i := a)) x) = (\<Sum>x\<in>dom r1. h x)" using i(1) by (intro sum.cong) auto
    then have "(\<Sum>x\<in>dom (r1(i \<mapsto> r)). (h(i := a)) x) = a + (\<Sum>i\<in>dom r1. h i)" unfolding ins using i by simp
    then show ?thesis unfolding commit_sum_def using a h i(1) by (intro exI [of _ "h(i := a)"]) auto
  qed
  moreover have "acc j = None" if "\<not> j < t" for j using dom that by (cases "acc j") (auto split: if_splits)
  ultimately show ?thesis using sums len unfolding acc_sums_def by auto
qed

lemma dkg_groupD:
  assumes "dkg_group c g mem r1 n1 acc r2 n2 cp cf nc"
  shows "grp_Status g = GROUP_STATUS_ROUND_1 \<Longrightarrow>
      dom r1 \<subseteq> {1..grp_Size g} \<and> n1 = card (dom r1) \<and> dom acc = (if dom r1 = {} then {} else {..<grp_Threshold g}) \<and>
      (dom r1 \<noteq> {} \<longrightarrow> 1 \<le> grp_Threshold g) \<and> acc_sums c r1 acc (grp_Threshold g) \<and>
      dom r2 = {} \<and> n2 = 0 \<and> dom cp = {} \<and> dom cf = {} \<and> nc = 0"
    and "grp_Status g = GROUP_STATUS_ROUND_2 \<Longrightarrow>
      dom r1 = {1..grp_Size g} \<and> dom acc = {..<grp_Threshold g} \<and> acc_sums c r1 acc (grp_Threshold g) \<and>
      keyed c (acc_list acc (grp_Threshold g)) g mem (dom r2) \<and>
      dom r2 \<subseteq> {1..grp_Size g} \<and> n2 = card (dom r2) \<and> dom cp = {} \<and> dom cf = {} \<and> nc = 0"
    and "grp_Status g = GROUP_STATUS_ROUND_3 \<Longrightarrow>
      dom r1 = {1..grp_Size g} \<and> dom acc = {..<grp_Threshold g} \<and> acc_sums c r1 acc (grp_Threshold g) \<and>
      keyed c (acc_list acc (grp_Threshold g)) g mem {1..grp_Size g} \<and> dom r2 = {1..grp_Size g} \<and>
      dom cp \<union> dom cf \<subseteq> {1..grp_Size g} \<and> dom cp \<inter> dom cf = {} \<and> nc = card (dom cp \<union> dom cf)"
    and "grp_Status g = GROUP_STATUS_ACTIVE \<Longrightarrow> \<exists>commits. keyed c commits g mem {1..grp_Size g}"
  using assms by (simp_all add: dkg_group.simps Let_def)

lemmas dkg_simps = dkg_group.simps dkg_at_def done_at_def round_done_def Let_def same_groups_def same_tables_def

text \<open>A member id of a message.\<close>

lemma ValidateMemberID_D:
  assumes inv: "dkg_inv k P s" and g: "gv (xs_groups s) gid = Some g" and "ValidateMemberID s gid mid addr = Inr ()" and f: "fits mid"
  obtains m where "mv (xs_members s) gid mid = Some m" "mem_Address m = addr" "mid \<in> {1..grp_Size g}"
proof -
  obtain m where m: "mv (xs_members s) gid mid = Some m" "mem_Address m = addr"
    using assms(3) f by (auto simp: ValidateMemberID_def GetMember_iff)
  have "mid \<in> {1..grp_Size g}" using members_invD(3) [OF dkg_invD(2) [OF inv] g] m(1) by auto
  with m that show thesis by blast
qed

lemma not_pending:
  assumes inv: "dkg_inv k P s" and g: "gv (xs_groups s) gid = Some g" and "\<not> done_at s gid g"
  shows "gid \<notin> set P"
  using dkg_invD(7) [OF inv, of gid] g assms(3) by auto

lemma card_less_of_missing: "A \<subseteq> {1..n} \<Longrightarrow> i \<in> {1..n} \<Longrightarrow> i \<notin> A \<Longrightarrow> card A < (n::nat)"
  using psubset_card_mono [of "{1..n}" A] by fastforce

lemma SubmitDKGRound1_inv:
  assumes laws: "curve_laws (xk_curve k)" and inv: "dkg_inv k (xs_pending_groups s) s"
    and f: "fits (m1_GroupID req)" "fits (ri_MemberID (m1_Round1Info req))"
    and ok: "SubmitDKGRound1 k s req = Inr s'"
  shows "dkg_inv k (xs_pending_groups s') s'"
proof -
  define gid info where "gid = m1_GroupID req" and "info = m1_Round1Info req"
  define mid where "mid = ri_MemberID info"
  note fg = f(1) [folded gid_def] and fm = f(2) [folded info_def, folded mid_def]
  obtain g t where g: "gv (xs_groups s) gid = Some g" and st: "grp_Status g = GROUP_STATUS_ROUND_1"
    and v: "ValidateMemberID s gid mid (m1_Sender req) = Inr ()" and new': "r1v (xs_round1 s) gid mid = None"
    and r1: "ValidateRound1Info k s g info = Inr ()" and add: "AddCoefficientCommits k s gid (ri_CoefficientCommits info) = Inr t"
    and s': "s' = (let s = AddRound1Info t gid info in
        if GetRound1InfoCount s gid = grp_Size g then AddPendingProcessGroup s gid else s)"
    using ok fg fm by (auto simp: SubmitDKGRound1_def Let_def GetGroup_iff Has_iff gid_def info_def mid_def split: if_splits)
  note i = dkg_invD [OF inv] and gi = groups_invD [OF dkg_invD(1) [OF inv]]
  obtain m where m: "mv (xs_members s) gid mid = Some m" "mid \<in> {1..grp_Size g}" by (rule ValidateMemberID_D [OF inv g v fm])
  let ?t = "grp_Threshold g" and ?R = "r1v (xs_round1 s) gid"
  have new: "mid \<notin> dom ?R" using new' by (simp add: domIff)
  have len: "length (ri_CoefficientCommits info) = ?t" and "ri_CoefficientCommits info \<noteq> []"
    using r1 by (auto simp: ValidateRound1Info_def index_def split: if_splits)
  then have t1: "1 \<le> ?t" by (cases "ri_CoefficientCommits info") auto
  obtain A tot where A: "t = s\<lparr>xs_acc := A\<rparr>" "kv_ok A" "wf_keys AccumulatedCommitsStoreKey fits A"
    and av: "\<And>b. fits b \<Longrightarrow> acv A b = (if b = gid then (\<lambda>j. if j < ?t then Some (tot j) else acv (xs_acc s) gid j) else acv (xs_acc s) b)"
    and tot: "\<forall>j<?t. SumPoints (xk_curve k) (case acv (xs_acc s) gid j of None \<Rightarrow> [ri_CoefficientCommits info ! j]
       | Some a \<Rightarrow> [ri_CoefficientCommits info ! j, a]) = Inr (tot j)"
    using AddCoefficientCommits_spec [OF add fg _ i(3,4)] gi(7) [OF g] unfolding len by blast
  note d = dkg_groupD(1) [OF i(5) [OF g, unfolded dkg_at_def] st]
  have cd: "card (dom ?R) < grp_Size g" using card_less_of_missing [OF _ m(2) new] d by blast
  have sums: "acc_sums (xk_curve k) (?R(mid \<mapsto> info)) (\<lambda>j. if j < ?t then Some (tot j) else acv (xs_acc s) gid j) ?t"
    by (rule acc_sums_add [OF laws _ _ new _ len tot]) (use d in auto)
  have dacc: "dom (\<lambda>j. if j < ?t then Some (tot j) else acv (xs_acc s) gid j) = {..<?t}"
    using d by (auto split: if_splits)
  have cu: "u64 (card (dom ?R) + 1) = card (dom ?R) + 1" using cd gi(6) [OF g] by (intro u64_fits(1)) (simp add: fits_def)
  have np: "gid \<notin> set (xs_pending_groups s)"
    by (rule not_pending [OF inv g]) (use st cd d in \<open>simp add: done_at_def round_done_def\<close>)
  let ?s = "AddRound1Info t gid info"
  have eq: "xs_groups s' = xs_groups s" "xs_members s' = xs_members s" "xs_group_count s' = xs_group_count s"
    "xs_last_expired s' = xs_last_expired s" "xs_acc s' = A" "xs_dkg s' = xs_dkg s"
    "xs_round1 s' = kv_set (xs_round1 s) (Round1InfoStoreKey gid mid) info"
    "xs_round1_count s' = kv_set (xs_round1_count s) (Round1InfoCountStoreKey gid) (card (dom ?R) + 1)"
    "xs_round2 s' = xs_round2 s" "xs_round2_count s' = xs_round2_count s" "xs_complains s' = xs_complains s"
    "xs_confirms s' = xs_confirms s" "xs_cc_count s' = xs_cc_count s"
    "xs_pending_groups s' = (if card (dom ?R) + 1 = grp_Size g then xs_pending_groups s @ [gid] else xs_pending_groups s)"
    using d cu fg by (auto simp: s' A(1) AddRound1Info_def SetRound1Info_def SetRound1InfoCount_def AddPendingProcessGroup_def Let_def
        count_iff mid_def)
  have at: "dkg_at k s' gid g"
    unfolding dkg_at_def eq using d sums dacc m(2) new st t1 fg fm av by (auto simp: dkg_group.simps)
  have other: "same_groups s s' j" if "fits j" "j \<noteq> gid" for j
    using that fg fm av by (simp add: same_groups_def same_tables_def eq)
  show ?thesis
  proof (rule dkg_inv_change [OF inv g])
    show "distinct (xs_pending_groups s')" using i(6) np by (simp add: eq)
    show "gid \<in> set (xs_pending_groups s') \<longleftrightarrow> done_at s' gid g"
      using np fg st by (simp add: eq done_at_def round_done_def)
    show "members_inv (xk_sdk k) (xs_groups s') (xs_members s')" using i(2) by (simp add: eq)
    show "gid \<le> xs_last_expired s \<longrightarrow> grp_Status g \<in> {GROUP_STATUS_ACTIVE, GROUP_STATUS_FALLEN, GROUP_STATUS_EXPIRED}"
      using i(9) [OF g] by blast
    show "kv_has (xs_dkg s') (DKGContextStoreKey gid)" using i(11) [OF g] st by (simp add: eq)
  qed (use other at A gi(1) gi(4) [OF g] g in \<open>auto simp: eq\<close>)
qed

section \<open>Round 2\<close>

lemma acc_commits_list:
  assumes inv: "dkg_inv k P s" and f: "fits gid" and d: "dom (acv (xs_acc s) gid) = {..<t}"
  shows "GetAllAccumulatedCommits s gid = acc_list (acv (xs_acc s) gid) t"
  unfolding GetAllAccumulatedCommits_def
  using acct.iterator_values [OF dkg_invD(3,4) [OF inv] f] d
  by (simp add: acv_def acc_list_def lessThan_atLeast0)

lemma keyed_insert:
  assumes "keyed c C g mem I" and "ComputeOwnPublicKey c C i = Inr (mem_PubKey m)"
  shows "keyed c C g (mem(i \<mapsto> m)) (insert i I)"
  using assms by (auto simp: keyed_def)

lemma SubmitDKGRound2_inv:
  assumes inv: "dkg_inv k (xs_pending_groups s) s"
    and f: "fits (m2_GroupID req)" "fits (r2_MemberID (m2_Round2Info req))"
    and ok: "SubmitDKGRound2 k s req = Inr s'"
  shows "dkg_inv k (xs_pending_groups s') s'"
proof -
  define gid info where "gid = m2_GroupID req" and "info = m2_Round2Info req"
  define mid where "mid = r2_MemberID info"
  note fg = f(1) [folded gid_def] and fm = f(2) [folded info_def, folded mid_def]
  obtain g t where g: "gv (xs_groups s) gid = Some g" and st: "grp_Status g = GROUP_STATUS_ROUND_2"
    and v: "ValidateMemberID s gid mid (m2_Sender req) = Inr ()" and new': "r2v (xs_round2 s) gid mid = None"
    and upd: "UpdateMemberPubKey k s gid mid = Inr t"
    and s': "s' = (let s = AddRound2Info t gid info in
        if GetRound2InfoCount s gid = grp_Size g then AddPendingProcessGroup s gid else s)"
    using ok fg fm by (auto simp: SubmitDKGRound2_def Let_def GetGroup_iff Has_iff gid_def info_def mid_def split: if_splits)
  note i = dkg_invD [OF inv] and gi = groups_invD [OF dkg_invD(1) [OF inv]]
  obtain m where m: "mv (xs_members s) gid mid = Some m" "mid \<in> {1..grp_Size g}" by (rule ValidateMemberID_D [OF inv g v fm])
  let ?t = "grp_Threshold g" and ?R = "r2v (xs_round2 s) gid"
  have new: "mid \<notin> dom ?R" using new' by (simp add: domIff)
  note d = dkg_groupD(2) [OF i(5) [OF g, unfolded dkg_at_def] st]
  obtain pk where pk: "ComputeOwnPublicKey (xk_curve k) (acc_list (acv (xs_acc s) gid) ?t) mid = Inr pk"
    and t: "t = SetMember s (m\<lparr>mem_PubKey := pk\<rparr>)"
    using upd m(1) fm acc_commits_list [OF inv fg] d by (auto simp: UpdateMemberPubKey_def GetMember_iff)
  let ?m = "m\<lparr>mem_PubKey := pk\<rparr>"
  note M = members_inv_set [OF i(2) fg m(1), of ?m, simplified]
  have cd: "card (dom ?R) < grp_Size g" using card_less_of_missing [OF _ m(2) new] d by blast
  have cu: "u64 (card (dom ?R) + 1) = card (dom ?R) + 1" using cd gi(6) [OF g] by (intro u64_fits(1)) (simp add: fits_def)
  have np: "gid \<notin> set (xs_pending_groups s)"
    by (rule not_pending [OF inv g]) (use st cd d in \<open>simp add: done_at_def round_done_def\<close>)
  have eq: "xs_groups s' = xs_groups s" "xs_members s' = kv_set (xs_members s) (MemberStoreKey (mem_GroupID m) (mem_ID m)) ?m"
    "xs_group_count s' = xs_group_count s" "xs_last_expired s' = xs_last_expired s" "xs_acc s' = xs_acc s" "xs_dkg s' = xs_dkg s"
    "xs_round1 s' = xs_round1 s" "xs_round1_count s' = xs_round1_count s"
    "xs_round2 s' = kv_set (xs_round2 s) (Round2InfoStoreKey gid mid) info"
    "xs_round2_count s' = kv_set (xs_round2_count s) (Round2InfoCountStoreKey gid) (card (dom ?R) + 1)" "xs_complains s' = xs_complains s"
    "xs_confirms s' = xs_confirms s" "xs_cc_count s' = xs_cc_count s"
    "xs_pending_groups s' = (if card (dom ?R) + 1 = grp_Size g then xs_pending_groups s @ [gid] else xs_pending_groups s)"
    using d cu fg by (auto simp: s' t AddRound2Info_def SetRound2Info_def SetRound2InfoCount_def AddPendingProcessGroup_def Let_def
        count_iff mid_def SetMember_def)
  have "keyed (xk_curve k) (acc_list (acv (xs_acc s) gid) ?t) g ((mv (xs_members s) gid)(mid \<mapsto> ?m)) (insert mid (dom ?R))"
    by (rule keyed_insert) (use d pk in simp_all)
  then have at: "dkg_at k s' gid g"
    unfolding dkg_at_def eq using d m(2) new st fg fm M(2) [OF fg] by (auto simp: dkg_group.simps)
  have other: "same_groups s s' j" if "fits j" "j \<noteq> gid" for j
    using that fg fm M(2) [OF that(1)] by (simp add: same_groups_def same_tables_def eq)
  show ?thesis
  proof (rule dkg_inv_change [OF inv g])
    show "distinct (xs_pending_groups s')" using i(6) np by (simp add: eq)
    show "gid \<in> set (xs_pending_groups s') \<longleftrightarrow> done_at s' gid g"
      using np fg st by (simp add: eq done_at_def round_done_def)
    show "members_inv (xk_sdk k) (xs_groups s') (xs_members s')" using M(1) by (simp add: eq)
    show "gid \<le> xs_last_expired s \<longrightarrow> grp_Status g \<in> {GROUP_STATUS_ACTIVE, GROUP_STATUS_FALLEN, GROUP_STATUS_EXPIRED}"
      using i(9) [OF g] by blast
    show "kv_has (xs_dkg s') (DKGContextStoreKey gid)" using i(11) [OF g] st by (simp add: eq)
  qed (use other at i(3,4) gi(1) gi(4) [OF g] g in \<open>auto simp: eq\<close>)
qed

section \<open>Flags of members\<close>

text \<open>Members that differ at most in their flags.\<close>

definition same_keys :: "(bytes, Member) kv \<Rightarrow> (bytes, Member) kv \<Rightarrow> bool" where
  "same_keys M M' \<longleftrightarrow> (\<forall>b i. fits b \<longrightarrow> rel_option (\<lambda>m m'. mem_ID m' = mem_ID m \<and> mem_GroupID m' = mem_GroupID m \<and>
     mem_Address m' = mem_Address m \<and> mem_PubKey m' = mem_PubKey m) (mv M b i) (mv M' b i))"

lemma same_keysD:
  assumes "same_keys M M'" and "fits b"
  shows "mv M' b i = Some m' \<Longrightarrow> \<exists>m. mv M b i = Some m \<and> mem_ID m' = mem_ID m \<and> mem_GroupID m' = mem_GroupID m \<and>
     mem_Address m' = mem_Address m \<and> mem_PubKey m' = mem_PubKey m"
    and "mv M b i = Some m \<Longrightarrow> \<exists>m'. mv M' b i = Some m' \<and> mem_ID m' = mem_ID m \<and> mem_GroupID m' = mem_GroupID m \<and>
     mem_Address m' = mem_Address m \<and> mem_PubKey m' = mem_PubKey m"
    and "dom (mv M' b) = dom (mv M b)"
proof -
  have r: "rel_option (\<lambda>m m'. mem_ID m' = mem_ID m \<and> mem_GroupID m' = mem_GroupID m \<and>
     mem_Address m' = mem_Address m \<and> mem_PubKey m' = mem_PubKey m) (mv M b i) (mv M' b i)" for i
    using assms unfolding same_keys_def by blast
  show "mv M' b i = Some m' \<Longrightarrow> \<exists>m. mv M b i = Some m \<and> mem_ID m' = mem_ID m \<and> mem_GroupID m' = mem_GroupID m \<and>
     mem_Address m' = mem_Address m \<and> mem_PubKey m' = mem_PubKey m" using r [of i] by (auto simp: option_rel_Some2)
  show "mv M b i = Some m \<Longrightarrow> \<exists>m'. mv M' b i = Some m' \<and> mem_ID m' = mem_ID m \<and> mem_GroupID m' = mem_GroupID m \<and>
     mem_Address m' = mem_Address m \<and> mem_PubKey m' = mem_PubKey m" using r [of i] by (auto simp: option_rel_Some1)
  have "mv M' b i = None \<longleftrightarrow> mv M b i = None" for i using r [of i] by (auto simp: rel_option_iff split: option.splits)
  then show "dom (mv M' b) = dom (mv M b)" by (simp add: dom_def)
qed

lemma same_keys_refl [simp]: "same_keys M M"
  by (simp add: same_keys_def rel_option_iff split: option.splits)

lemma same_keys_trans:
  assumes "same_keys L M" "same_keys M H"
  shows "same_keys L H"
  unfolding same_keys_def
proof (intro allI impI)
  fix b i assume f: "fits b"
  show "rel_option (\<lambda>m m'. mem_ID m' = mem_ID m \<and> mem_GroupID m' = mem_GroupID m \<and>
     mem_Address m' = mem_Address m \<and> mem_PubKey m' = mem_PubKey m) (mv L b i) (mv H b i)"
  proof (cases "mv L b i")
    case None
    then have "mv H b i = None" using same_keysD(3) [OF assms(1) f] same_keysD(3) [OF assms(2) f] by (metis domIff)
    then show ?thesis using None by simp
  next
    case (Some m)
    obtain m' where m': "mv M b i = Some m'" "mem_ID m' = mem_ID m" "mem_GroupID m' = mem_GroupID m" "mem_Address m' = mem_Address m"
      "mem_PubKey m' = mem_PubKey m" using same_keysD(2) [OF assms(1) f Some] by blast
    show ?thesis using same_keysD(2) [OF assms(2) f m'(1)] m' Some by auto
  qed
qed

definition flags_change :: "'w tss_state \<Rightarrow> 'w tss_state \<Rightarrow> bool" where
  "flags_change s s' \<longleftrightarrow> (\<exists>M. s' = s\<lparr>xs_members := M\<rparr> \<and> same_keys (xs_members s) M \<and> kv_ok M \<and> wf_keys MembersStoreKey fits M)"

lemma flags_change_set:
  assumes inv: "members_inv sdk G (xs_members s)" and f: "fits gid" and m: "mv (xs_members s) gid i = Some m"
    and same: "mem_ID m' = mem_ID m" "mem_GroupID m' = mem_GroupID m" "mem_Address m' = mem_Address m" "mem_PubKey m' = mem_PubKey m"
  shows "flags_change s (SetMember s m')"
proof -
  note M = members_inv_set [OF inv f m same(1-3)]
  have "same_keys (xs_members s) (kv_set (xs_members s) (MemberStoreKey (mem_GroupID m') (mem_ID m')) m')"
    unfolding same_keys_def using M(2) m same by (auto simp: rel_option_iff split: option.splits)
  then show ?thesis unfolding flags_change_def SetMember_def using members_invD(1,2) [OF M(1)] by blast
qed

lemma flags_change_trans: "flags_change s t \<Longrightarrow> flags_change t u \<Longrightarrow> flags_change s u"
  unfolding flags_change_def by (force intro: same_keys_trans)

lemma flags_change_members:
  assumes inv: "members_inv sdk G (xs_members s)" and ch: "flags_change s s'"
  shows "members_inv sdk G (xs_members s')"
proof -
  obtain M where M: "s' = s\<lparr>xs_members := M\<rparr>" "same_keys (xs_members s) M" "kv_ok M" "wf_keys MembersStoreKey fits M"
    using ch unfolding flags_change_def by blast
  note d = members_invD [OF inv] and k = same_keysD [OF M(2)]
  have "dom (mv M b) = (case gv G b of None \<Rightarrow> {} | Some g \<Rightarrow> {1..grp_Size g})" if "fits b" for b
    using inv that unfolding k(3) [OF that] members_inv_def by blast
  moreover have "mem_ID m = j \<and> mem_GroupID m = b \<and> is_ok (AccAddressFromBech32 sdk (mem_Address m))"
    if "fits b" "mv M b j = Some m" for b j m using k(1) [OF that] d(4) [OF that(1)] by metis
  moreover have "i = j" if "fits b" "mv M b i = Some m" "mv M b j = Some m'" "mem_Address m = mem_Address m'" for b i j m m'
    using k(1) [OF that(1,2)] k(1) [OF that(1,3)] d(5) [OF that(1)] that(4) by metis
  ultimately show ?thesis using M(1,3,4) unfolding members_inv_def by simp
qed

lemma keyed_same:
  assumes "same_keys M M'" "fits b" "keyed c C g (mv M b) I"
  shows "keyed c C g (mv M' b) I"
  unfolding keyed_def
proof (intro conjI ballI allI impI)
  fix i m' assume i: "i \<in> I" "mv M' b i = Some m'"
  obtain m where "mv M b i = Some m" "mem_PubKey m' = mem_PubKey m" using same_keysD(1) [OF assms(1,2) i(2)] by blast
  then show "ComputeOwnPublicKey c C i = Inr (mem_PubKey m')" using assms(3) i(1) unfolding keyed_def by metis
qed (use assms(3) in \<open>auto simp: keyed_def\<close>)

lemma flags_change_dkg:
  assumes inv: "dkg_inv k P s" and ch: "flags_change s s'"
  shows "dkg_inv k P s'"
proof -
  obtain M where M: "s' = s\<lparr>xs_members := M\<rparr>" "same_keys (xs_members s) M" using ch unfolding flags_change_def by blast
  note i = dkg_invD [OF inv]
  have "dkg_at k s' gid g" if g: "gv (xs_groups s) gid = Some g" for gid g
  proof -
    have e: "dkg_at k s gid g" "fits gid" using i(5) [OF g] view_fits(1) [OF g] .
    note ks = keyed_same [OF M(2) e(2)]
    show ?thesis
      using e(1) unfolding dkg_at_def dkg_group.simps Let_def M(1) by (cases "grp_Status g") (auto intro: ks)
  qed
  moreover have "members_inv (xk_sdk k) (xs_groups s') (xs_members s')"
    using flags_change_members [OF i(2) ch] M(1) by simp
  ultimately show ?thesis using inv M(1) unfolding dkg_inv_def by (simp add: done_at_def)
qed

section \<open>Round 3\<close>

lemma MarkMemberMalicious_change:
  assumes "members_inv sdk G (xs_members s)" "fits gid" "fits mid" "MarkMemberMalicious s gid mid = Inr s'"
  shows "flags_change s s'"
proof -
  obtain m where m: "mv (xs_members s) gid mid = Some m" "s' = s \<or> s' = SetMember s (m\<lparr>mem_IsMalicious := True\<rparr>)"
    using assms(3,4) by (auto simp: MarkMemberMalicious_def GetMember_iff split: if_splits)
  have "flags_change s s" unfolding flags_change_def
    by (intro exI [of _ "xs_members s"]) (use members_invD(1,2) [OF assms(1)] in simp)
  then show ?thesis using m(2) flags_change_set [OF assms(1,2) m(1), of "m\<lparr>mem_IsMalicious := True\<rparr>"] by auto
qed

lemma ProcessComplaint_change:
  assumes inv: "members_inv sdk G (xs_members s)" and f: "fits gid" "\<forall>c\<in>set cs. fits (comp_Complainant c) \<and> fits (comp_Respondent c)"
    and ok: "foldE (complaint_step k gid) (st, s) cs = Inr (st', s')"
  shows "flags_change s s'"
  using inv f(2) ok
proof (induction cs arbitrary: st s)
  case Nil
  then show ?case unfolding flags_change_def
    by (intro exI [of _ "xs_members s"]) (use members_invD(1,2) [OF Nil(1)] in simp)
next
  case (Cons c cs)
  obtain st1 s1 where s1: "complaint_step k gid (st, s) c = Inr (st1, s1)" "foldE (complaint_step k gid) (st1, s1) cs = Inr (st', s')"
    using Cons.prems(3) by auto
  have "MarkMemberMalicious s gid (comp_Complainant c) = Inr s1 \<or> MarkMemberMalicious s gid (comp_Respondent c) = Inr s1"
    using s1(1) by (auto simp: complaint_step_def split: option.splits)
  then have "flags_change s s1" using MarkMemberMalicious_change [OF Cons.prems(1) f(1)] Cons.prems(2) by auto
  moreover have "flags_change s1 s'"
    by (rule Cons.IH [OF _ _ s1(2)]) (use Cons.prems(2) flags_change_members [OF Cons.prems(1) \<open>flags_change s s1\<close>] in auto)
  ultimately show ?case by (rule flags_change_trans)
qed

text \<open>A member confirms or complains.\<close>

lemma round3_step:
  assumes inv: "dkg_inv k (xs_pending_groups s) s" and g: "gv (xs_groups s) gid = Some g" and st: "grp_Status g = GROUP_STATUS_ROUND_3"
    and mid: "mid \<in> {1..grp_Size g}" and new: "cpv (xs_complains s) gid mid = None" "cfv (xs_confirms s) gid mid = None"
    and t: "t = AddComplaintsWithStatus s gid cw \<and> csws_MemberID cw = mid \<or> t = AddConfirm s gid cn \<and> conf_MemberID cn = mid"
  shows "dkg_inv k (xs_pending_groups (if GetConfirmComplainCount t gid = grp_Size g then AddPendingProcessGroup t gid else t))
    (if GetConfirmComplainCount t gid = grp_Size g then AddPendingProcessGroup t gid else t)" (is "dkg_inv k (xs_pending_groups ?s) ?s")
proof -
  note i = dkg_invD [OF inv] and gi = groups_invD [OF dkg_invD(1) [OF inv]]
  note d = dkg_groupD(3) [OF i(5) [OF g, unfolded dkg_at_def] st]
  have fg: "fits gid" using view_fits(1) [OF g] .
  have fm: "fits mid" using mid gi(6) [OF g] by (auto simp: fits_def)
  let ?C = "dom (cpv (xs_complains s) gid) \<union> dom (cfv (xs_confirms s) gid)"
  have nC: "mid \<notin> ?C" using new by (simp add: domIff)
  have cd: "card ?C < grp_Size g" using card_less_of_missing [OF _ mid nC] d by blast
  have cu: "u64 (card ?C + 1) = card ?C + 1" using cd gi(6) [OF g] by (intro u64_fits(1)) (simp add: fits_def)
  have np: "gid \<notin> set (xs_pending_groups s)"
    by (rule not_pending [OF inv g]) (use st cd d in \<open>simp add: done_at_def round_done_def\<close>)
  have base: "GetConfirmComplainCount s gid = card ?C" using d fg by (simp add: count_iff)
  have cnt: "GetConfirmComplainCount t gid = card ?C + 1"
    using t base cu fg by (auto simp: AddComplaintsWithStatus_def AddConfirm_def SetComplaintsWithStatus_def SetConfirm_def
        SetConfirmComplainCount_def Let_def count_iff)
  have eq: "xs_groups ?s = xs_groups s" "xs_members ?s = xs_members s" "xs_group_count ?s = xs_group_count s"
    "xs_last_expired ?s = xs_last_expired s" "xs_acc ?s = xs_acc s" "xs_dkg ?s = xs_dkg s" "xs_round1 ?s = xs_round1 s"
    "xs_round1_count ?s = xs_round1_count s" "xs_round2 ?s = xs_round2 s" "xs_round2_count ?s = xs_round2_count s"
    "xs_cc_count ?s = kv_set (xs_cc_count s) (ConfirmComplainCountStoreKey gid) (card ?C + 1)"
    "xs_pending_groups ?s = (if card ?C + 1 = grp_Size g then xs_pending_groups s @ [gid] else xs_pending_groups s)"
    unfolding cnt using t base cu fg by (auto simp: AddComplaintsWithStatus_def AddConfirm_def SetComplaintsWithStatus_def SetConfirm_def
        SetConfirmComplainCount_def AddPendingProcessGroup_def Let_def count_iff)
  have tabs: "xs_complains ?s = kv_set (xs_complains s) (ComplainsWithStatusStoreKey gid mid) cw \<and> xs_confirms ?s = xs_confirms s \<or>
    xs_complains ?s = xs_complains s \<and> xs_confirms ?s = kv_set (xs_confirms s) (ConfirmStoreKey gid mid) cn"
    using t by (auto simp: AddComplaintsWithStatus_def AddConfirm_def SetComplaintsWithStatus_def SetConfirm_def
        SetConfirmComplainCount_def AddPendingProcessGroup_def Let_def)
  have dom: "dom (cpv (xs_complains ?s) gid) \<union> dom (cfv (xs_confirms ?s) gid) = insert mid ?C"
    "dom (cpv (xs_complains ?s) gid) \<inter> dom (cfv (xs_confirms ?s) gid) = {}"
    using tabs by (elim disjE conjE; use fg fm d nC in simp; fail)+
  have at: "dkg_at k ?s gid g"
    unfolding dkg_at_def dkg_group.simps Let_def st GroupStatus.case dom eq using d mid nC fg by auto
  have other: "same_groups s ?s j" if "fits j" "j \<noteq> gid" for j
    using that fg fm tabs by (auto simp: same_groups_def same_tables_def eq)
  show ?thesis
  proof (rule dkg_inv_change [OF inv g])
    show "distinct (xs_pending_groups ?s)" unfolding eq using i(6) np by simp
    show "gid \<in> set (xs_pending_groups ?s) \<longleftrightarrow> done_at ?s gid g"
      unfolding done_at_def round_done_def eq using np fg st by simp
    show "members_inv (xk_sdk k) (xs_groups ?s) (xs_members ?s)" unfolding eq by (rule i(2))
    show "gid \<le> xs_last_expired s \<longrightarrow> grp_Status g \<in> {GROUP_STATUS_ACTIVE, GROUP_STATUS_FALLEN, GROUP_STATUS_EXPIRED}"
      using i(9) [OF g] by blast
    show "kv_has (xs_dkg ?s) (DKGContextStoreKey gid)" unfolding eq using i(11) [OF g] st by simp
    show "\<forall>i. fits i \<longrightarrow> i \<noteq> gid \<longrightarrow> same_groups s ?s i" using other by blast
    show "\<forall>i. i \<noteq> gid \<longrightarrow> (i \<in> set (xs_pending_groups ?s)) = (i \<in> set (xs_pending_groups s))" unfolding eq by simp
  qed (unfold eq, use at i(3,4) gi(1) gi(4) [OF g] g in simp_all)
qed

lemma Complain_inv:
  assumes inv: "dkg_inv k (xs_pending_groups s) s"
    and f: "fits (mcp_GroupID req)" "\<forall>c\<in>set (mcp_Complaints req). fits (comp_Complainant c) \<and> fits (comp_Respondent c)"
    and ok: "Complain k s req = Inr s'"
  shows "dkg_inv k (xs_pending_groups s') s'"
proof -
  define gid mid where "gid = mcp_GroupID req" and "mid = comp_Complainant (mcp_Complaints req ! 0)"
  have ne: "0 < length (mcp_Complaints req)" using ok by (auto simp: Complain_def index_def split: if_splits)
  note fg = f(1) [folded gid_def]
  have fm: "fits mid" using f(2) ne by (simp add: mid_def)
  obtain g cws t where g: "gv (xs_groups s) gid = Some g" and st: "grp_Status g = GROUP_STATUS_ROUND_3"
    and v: "ValidateMemberID s gid mid (mcp_Sender req) = Inr ()"
    and new: "cfv (xs_confirms s) gid mid = None" "cpv (xs_complains s) gid mid = None"
    and pc: "ProcessComplaint k s (mcp_Complaints req) gid = Inr (cws, t)"
    and s': "s' = (let s = AddComplaintsWithStatus t gid \<lparr>csws_MemberID = mid, csws_ComplaintsWithStatus = cws\<rparr> in
        if GetConfirmComplainCount s gid = grp_Size g then AddPendingProcessGroup s gid else s)"
    using ok fg fm ne by (auto simp: Complain_def Let_def GetGroup_iff Has_iff gid_def mid_def index_def split: if_splits)
  obtain m where m: "mv (xs_members s) gid mid = Some m" "mid \<in> {1..grp_Size g}" by (rule ValidateMemberID_D [OF inv g v fm])
  have ch: "flags_change s t"
    using ProcessComplaint_change [OF dkg_invD(2) [OF inv] fg f(2)] pc unfolding ProcessComplaint_def by blast
  then obtain M where t: "t = s\<lparr>xs_members := M\<rparr>" unfolding flags_change_def by blast
  have inv': "dkg_inv k (xs_pending_groups t) t" using flags_change_dkg [OF inv ch] by (simp add: t)
  show ?thesis unfolding s' Let_def
    by (rule round3_step [where cw = "\<lparr>csws_MemberID = mid, csws_ComplaintsWithStatus = cws\<rparr>", OF inv' _ st m(2)]) (use g new in \<open>simp_all add: t\<close>)
qed

lemma Confirm_inv:
  assumes inv: "dkg_inv k (xs_pending_groups s) s" and f: "fits (mcf_GroupID req)" "fits (mcf_MemberID req)"
    and ok: "tss_Confirm k s req = Inr s'"
  shows "dkg_inv k (xs_pending_groups s') s'"
proof -
  define gid mid where "gid = mcf_GroupID req" and "mid = mcf_MemberID req"
  note fg = f(1) [folded gid_def] and fm = f(2) [folded mid_def]
  obtain g where g: "gv (xs_groups s) gid = Some g" and st: "grp_Status g = GROUP_STATUS_ROUND_3"
    and v: "ValidateMemberID s gid mid (mcf_Sender req) = Inr ()"
    and new: "cfv (xs_confirms s) gid mid = None" "cpv (xs_complains s) gid mid = None"
    and s': "s' = (let s = AddConfirm s gid \<lparr>conf_MemberID = mid, conf_OwnPubKeySig = mcf_OwnPubKeySig req\<rparr> in
        if GetConfirmComplainCount s gid = grp_Size g then AddPendingProcessGroup s gid else s)"
    using ok fg fm by (auto simp: tss_Confirm_def Let_def GetGroup_iff Has_iff gid_def mid_def split: if_splits)
  obtain m where m: "mv (xs_members s) gid mid = Some m" "mid \<in> {1..grp_Size g}" by (rule ValidateMemberID_D [OF inv g v fm])
  show ?thesis unfolding s' Let_def 
    by (rule round3_step [where cn = "\<lparr>conf_MemberID = mid, conf_OwnPubKeySig = mcf_OwnPubKeySig req\<rparr>", OF inv g st m(2)])
      (use new in simp_all)
qed

end
