(* ===== verification/Xtss_De.thy ===== *)
theory Xtss_De
  imports Xtss_Dkg
begin

text \<open>
  The nonces that members deposit for signing. The store keeps them in a ring of numbered entries between a head and a tail; it implements
  a first-in-first-out queue per address, stated as the locale \<open>fifo\<close>. In a run of such queues, what comes out of a queue is a
  prefix of what went in: no nonce is ever handed out twice, which would reveal the key of the member.
\<close>

section \<open>Queues\<close>

datatype ('k, 'a) queue_op = Enq 'k "'a list" | Deq 'k

text \<open>A run of operations on the queues, as long as entering elements has room.\<close>

fun queue_run ::
  "('s \<Rightarrow> 'k \<Rightarrow> nat \<Rightarrow> bool) \<Rightarrow> ('s \<Rightarrow> 'k \<Rightarrow> 'a list \<Rightarrow> 's result) \<Rightarrow> ('s \<Rightarrow> 'k \<Rightarrow> ('a \<times> 's) result) \<Rightarrow> 's \<Rightarrow> ('k, 'a) queue_op list \<Rightarrow> (('k \<times> 'a) list \<times> 's) result" where
  "queue_run room enq deq s [] = Inr ([], s)"
| "queue_run room enq deq s (Enq a xs # ops) =
     (if \<not> room s a (length xs) then Inl (Errorf ''no room'') else bindE (enq s a xs) (\<lambda>s. queue_run room enq deq s ops))"
| "queue_run room enq deq s (Deq a # ops) =
     bindE (deq s a) (\<lambda>(x, s). bindE (queue_run room enq deq s ops) (\<lambda>(outs, s). Inr ((a, x) # outs, s)))"

fun entered :: "'k \<Rightarrow> ('k, 'a) queue_op list \<Rightarrow> 'a list" where
  "entered a [] = []"
| "entered a (Enq b xs # ops) = (if b = a then xs else []) @ entered a ops"
| "entered a (Deq b # ops) = entered a ops"

fun op_owner :: "('k, 'a) queue_op \<Rightarrow> 'k" where
  "op_owner (Enq a xs) = a"
| "op_owner (Deq a) = a"

locale fifo =
  fixes invar :: "'s \<Rightarrow> bool" and owner :: "'k \<Rightarrow> bool" and content :: "'s \<Rightarrow> 'k \<Rightarrow> 'a list"
    and room :: "'s \<Rightarrow> 'k \<Rightarrow> nat \<Rightarrow> bool" and enq :: "'s \<Rightarrow> 'k \<Rightarrow> 'a list \<Rightarrow> 's result" and deq :: "'s \<Rightarrow> 'k \<Rightarrow> ('a \<times> 's) result"
  assumes enq_law: "invar s \<Longrightarrow> owner a \<Longrightarrow> room s a (length xs) \<Longrightarrow> enq s a xs = Inr s' \<Longrightarrow>
      invar s' \<and> (\<forall>b. owner b \<longrightarrow> content s' b = (if b = a then content s a @ xs else content s b))"
    and deq_law: "invar s \<Longrightarrow> owner a \<Longrightarrow> deq s a = Inr (x, s') \<Longrightarrow>
      invar s' \<and> content s a \<noteq> [] \<and> x = hd (content s a) \<and>
      (\<forall>b. owner b \<longrightarrow> content s' b = (if b = a then tl (content s a) else content s b))"
    and deq_succeeds: "invar s \<Longrightarrow> owner a \<Longrightarrow> is_ok (deq s a) \<longleftrightarrow> content s a \<noteq> []"
begin

lemma run_order:
  assumes "invar s" "\<forall>p\<in>set ops. owner (op_owner p)" "queue_run room enq deq s ops = Inr (outs, s')" "owner a"
  shows "invar s' \<and> content s a @ entered a ops = map snd (filter (\<lambda>e. fst e = a) outs) @ content s' a"
  using assms
proof (induction ops arbitrary: s outs)
  case (Cons p ops)
  show ?case
  proof (cases p)
    case (Enq b xs)
    obtain t where r: "room s b (length xs)" and t: "enq s b xs = Inr t" "queue_run room enq deq t ops = Inr (outs, s')"
      using Cons.prems(3) Enq by (auto split: if_splits)
    note l = enq_law [OF Cons.prems(1) _ r t(1)]
    have "owner b" using Cons.prems(2) Enq by simp
    then show ?thesis using Cons.IH [OF _ _ t(2) Cons.prems(4)] l Cons.prems(2,4) Enq by auto
  next
    case (Deq b)
    obtain x t outs' where t: "deq s b = Inr (x, t)" "queue_run room enq deq t ops = Inr (outs', s')" "outs = (b, x) # outs'"
      using Cons.prems(3) Deq by auto
    have b: "owner b" using Cons.prems(2) Deq by simp
    note l = deq_law [OF Cons.prems(1) b t(1)]
    have "invar s' \<and> content t a @ entered a ops = map snd (filter (\<lambda>e. fst e = a) outs') @ content s' a"
      using Cons.IH [OF _ _ t(2) Cons.prems(4)] l Cons.prems(2) by auto
    moreover have "content s a = (if b = a then [x] else []) @ content t a"
      using l Cons.prems(4) by (cases "content s b") auto
    ultimately show ?thesis using Deq t(3) by auto
  qed
qed auto

end

section \<open>The stored queues\<close>

lemma DEQueue_key_inj:
  assumes "address_laws sdk" "valid_addr a" "valid_addr b"
  shows "DEQueueStoreKey sdk a = DEQueueStoreKey sdk b \<longleftrightarrow> a = b"
  using DEs_pre_free [OF assms, of "[]" "[]"] by (auto simp: DEQueueStoreKey_def DEsStoreKey_def)

lemma GetDEQueue_Set:
  assumes "address_laws (xk_sdk k)" "valid_addr a" "valid_addr b"
  shows "GetDEQueue k (SetDEQueue k s a q) b = (if b = a then q else GetDEQueue k s b)"
  using DEQueue_key_inj [OF assms(1,3,2)] by (auto simp: GetDEQueue_def SetDEQueue_def)

lemma dv_set:
  assumes "address_laws sdk" "valid_addr a" "valid_addr b" "fits i"
  shows "dv sdk (kv_set D (DEStoreKey sdk a i) x) b = (if b = a then (dv sdk D a)(i \<mapsto> x) else dv sdk D b)"
    and "dv sdk (kv_delete D (DEStoreKey sdk a i)) b = (if b = a then (dv sdk D a)(i := None) else dv sdk D b)"
  unfolding dv_def DEStoreKey_def
  by (rule table.view_set [OF DE_table] table.view_delete [OF DE_table]; use assms in \<open>simp add: fits_def\<close>)+

definition de_list :: "('p, 'r, 'c, 'w) tss_keeper \<Rightarrow> 'w tss_state \<Rightarrow> bytes \<Rightarrow> DE list" where
  "de_list k s addr = map (\<lambda>i. the (dv (xk_sdk k) (xs_de s) addr i)) [deq_Head (GetDEQueue k s addr)..<deq_Tail (GetDEQueue k s addr)]"

lemma de_invD:
  assumes "de_inv k s" "valid_addr a"
  shows "deq_Head (GetDEQueue k s a) \<le> deq_Tail (GetDEQueue k s a)" "fits (deq_Tail (GetDEQueue k s a))"
    "dom (dv (xk_sdk k) (xs_de s) a) = {deq_Head (GetDEQueue k s a)..<deq_Tail (GetDEQueue k s a)}"
    "dv (xk_sdk k) (xs_de s) a i = None \<longleftrightarrow> \<not> (deq_Head (GetDEQueue k s a) \<le> i \<and> i < deq_Tail (GetDEQueue k s a))"
proof -
  show "dom (dv (xk_sdk k) (xs_de s) a) = {deq_Head (GetDEQueue k s a)..<deq_Tail (GetDEQueue k s a)}"
    using assms by (simp add: de_inv_def Let_def)
  then show "dv (xk_sdk k) (xs_de s) a i = None \<longleftrightarrow> \<not> (deq_Head (GetDEQueue k s a) \<le> i \<and> i < deq_Tail (GetDEQueue k s a))"
    by (metis atLeastLessThan_iff domIff)
qed (use assms in \<open>auto simp: de_inv_def Let_def\<close>)

lemma de_list_length: "length (de_list k s a) = deq_Tail (GetDEQueue k s a) - deq_Head (GetDEQueue k s a)"
  by (simp add: de_list_def)

text \<open>The loop that stores the new entries.\<close>

lemma SetDE_loop:
  assumes laws: "address_laws (xk_sdk k)" "valid_addr a" and f: "fits (n + length des)"
  shows "\<exists>D. foldl (\<lambda>s (i, de). SetDE k s a (u64 (n + i)) de) s (enumerate 0 des) = s\<lparr>xs_de := D\<rparr> \<and>
    (\<forall>b. valid_addr b \<longrightarrow> dv (xk_sdk k) D b = (if b = a
       then (\<lambda>j. if n \<le> j \<and> j < n + length des then Some (des ! (j - n)) else dv (xk_sdk k) (xs_de s) a j) else dv (xk_sdk k) (xs_de s) b))"
  using f
proof (induction des rule: rev_induct)
  case Nil
  then show ?case by (intro exI [of _ "xs_de s"]) (auto simp: fun_eq_iff)
next
  case (snoc de des)
  have fl: "fits (n + length des)" using snoc.prems by (simp add: fits_def)
  then obtain D where D: "foldl (\<lambda>s (i, de). SetDE k s a (u64 (n + i)) de) s (enumerate 0 des) = s\<lparr>xs_de := D\<rparr>"
    and v: "\<And>b. valid_addr b \<Longrightarrow> dv (xk_sdk k) D b = (if b = a
       then (\<lambda>j. if n \<le> j \<and> j < n + length des then Some (des ! (j - n)) else dv (xk_sdk k) (xs_de s) a j) else dv (xk_sdk k) (xs_de s) b)"
    using snoc.IH by blast
  let ?D = "kv_set D (DEStoreKey (xk_sdk k) a (n + length des)) de"
  have "foldl (\<lambda>s (i, de). SetDE k s a (u64 (n + i)) de) s (enumerate 0 (des @ [de])) = s\<lparr>xs_de := ?D\<rparr>"
    using D fl by (simp add: enumerate_append_eq SetDE_def)
  moreover have "dv (xk_sdk k) ?D b = (if b = a
     then (\<lambda>j. if n \<le> j \<and> j < n + length (des @ [de]) then Some ((des @ [de]) ! (j - n)) else dv (xk_sdk k) (xs_de s) a j)
     else dv (xk_sdk k) (xs_de s) b)" if "valid_addr b" for b
    unfolding dv_set(1) [OF laws that fl] using v [OF that] v [OF laws(2)]
    by (auto simp: fun_eq_iff nth_append not_less le_less less_Suc_eq)
  ultimately show ?case by blast
qed

text \<open>The tail does not wrap around: a queue has seen fewer than \<open>2 ^ 64\<close> nonces since its last reset.\<close>

definition de_room :: "('p, 'r, 'c, 'w) tss_keeper \<Rightarrow> 'w tss_state \<Rightarrow> bytes \<Rightarrow> nat \<Rightarrow> bool" where
  "de_room k s a n \<longleftrightarrow> fits (deq_Tail (GetDEQueue k s a) + n)"

lemma EnqueueDEs_spec:
  assumes laws: "address_laws (xk_sdk k)" and inv: "de_inv k s" and a: "valid_addr a" and room: "de_room k s a (length des)"
    and ok: "EnqueueDEs k s a des = Inr s'"
  shows "(\<exists>D Q. s' = s\<lparr>xs_de := D, xs_deq := Q\<rparr>) \<and> de_inv k s' \<and>
    (\<forall>b. valid_addr b \<longrightarrow> de_list k s' b = (if b = a then de_list k s a @ des else de_list k s b)) \<and>
    length (de_list k s' a) \<le> xp_MaxDESize (xs_params s)"
proof -
  let ?q = "GetDEQueue k s a"
  note d = de_invD [OF inv a]
  have f: "fits (deq_Tail ?q + length des)" using room by (simp add: de_room_def)
  obtain D where D: "foldl (\<lambda>s (i, de). SetDE k s a (u64 (deq_Tail ?q + i)) de) s (enumerate 0 des) = s\<lparr>xs_de := D\<rparr>"
    and v: "\<And>b. valid_addr b \<Longrightarrow> dv (xk_sdk k) D b = (if b = a
       then (\<lambda>j. if deq_Tail ?q \<le> j \<and> j < deq_Tail ?q + length des then Some (des ! (j - deq_Tail ?q)) else dv (xk_sdk k) (xs_de s) a j)
       else dv (xk_sdk k) (xs_de s) b)"
    using SetDE_loop [OF laws a f] by blast
  let ?t = "s\<lparr>xs_de := D\<rparr>"
  have s': "s' = SetDEQueue k ?t a (?q\<lparr>deq_Tail := deq_Tail ?q + length des\<rparr>)"
    and tot: "u64 (u64 (deq_Tail ?q + 2 ^ 64 - deq_Head ?q) + length des) \<le> xp_MaxDESize (xs_params s)"
    using ok D f by (auto simp: EnqueueDEs_def Let_def)
  have q: "GetDEQueue k s' b = (if b = a then ?q\<lparr>deq_Tail := deq_Tail ?q + length des\<rparr> else GetDEQueue k s b)" if "valid_addr b" for b
    unfolding s' GetDEQueue_Set [OF laws a that] by (simp add: GetDEQueue_def)
  have de: "xs_de s' = D" by (simp add: s' SetDEQueue_def)
  have "de_inv k s'" unfolding de_inv_def Let_def
  proof (intro allI impI)
    fix b assume b: "valid_addr b"
    have "dom (dv (xk_sdk k) D a) = {deq_Head ?q..<deq_Tail ?q + length des}" unfolding v [OF a] using d(1) by (auto simp: set_eq_iff domIff d(4) simp del: not_None_eq)
    moreover have "dv (xk_sdk k) D b = dv (xk_sdk k) (xs_de s) b" if "b \<noteq> a" using v [OF b] that by simp
    ultimately show "deq_Head (GetDEQueue k s' b) \<le> deq_Tail (GetDEQueue k s' b) \<and> fits (deq_Tail (GetDEQueue k s' b)) \<and>
        dom (dv (xk_sdk k) (xs_de s') b) = {deq_Head (GetDEQueue k s' b)..<deq_Tail (GetDEQueue k s' b)}"
      using q [OF b] de_invD(1-3) [OF inv b] d(1) f by (cases "b = a") (simp_all add: de)
  qed
  moreover have "de_list k s' b = (if b = a then de_list k s a @ des else de_list k s b)" if b: "valid_addr b" for b
  proof (cases "b = a")
    case True
    have "[deq_Head ?q..<deq_Tail ?q + length des] = [deq_Head ?q..<deq_Tail ?q] @ map (\<lambda>i. deq_Tail ?q + i) [0..<length des]"
      using d(1) upt_add_eq_append [OF d(1), of "length des"] by (simp add: map_add_upt add.commute)
    moreover have "map (\<lambda>i. the (dv (xk_sdk k) D a i)) [deq_Head ?q..<deq_Tail ?q] =
        map (\<lambda>i. the (dv (xk_sdk k) (xs_de s) a i)) [deq_Head ?q..<deq_Tail ?q]" by (rule map_cong) (simp_all add: v [OF a])
    moreover have "map (\<lambda>i. the (dv (xk_sdk k) D a (deq_Tail ?q + i))) [0..<length des] = des"
      by (rule nth_equalityI) (simp_all add: v [OF a])
    ultimately show ?thesis using True q [OF b] by (simp add: de_list_def de comp_def)
  qed (use q [OF b] v [OF b] in \<open>simp add: de_list_def de\<close>)
  moreover have "u64 (deq_Tail ?q + 2 ^ 64 - deq_Head ?q) = deq_Tail ?q - deq_Head ?q"
  proof -
    have "deq_Tail ?q + 2 ^ 64 - deq_Head ?q = (deq_Tail ?q - deq_Head ?q) + 2 ^ 64" using d(1) by simp
    then have "u64 (deq_Tail ?q + 2 ^ 64 - deq_Head ?q) = u64 (deq_Tail ?q - deq_Head ?q)" unfolding u64_def by (simp only: mod_add_self2)
    then show ?thesis using u64_fits(1) [OF fits_le [OF d(2)], of "deq_Tail ?q - deq_Head ?q"] by linarith
  qed
  then have "deq_Tail ?q - deq_Head ?q + length des \<le> xp_MaxDESize (xs_params s)"
    using tot u64_fits(1) [OF fits_le [OF f]] d(1) by simp
  then have "length (de_list k s' a) \<le> xp_MaxDESize (xs_params s)" using q [OF a] d(1) by (simp add: de_list_length)
  ultimately show ?thesis by (auto simp: s' SetDEQueue_def)
qed

lemma DequeueDE_spec:
  assumes laws: "address_laws (xk_sdk k)" and inv: "de_inv k s" and a: "valid_addr a"
  shows "DequeueDE k s a = (if de_list k s a = [] then Inl ErrDENotFound
    else Inr (hd (de_list k s a), SetDEQueue k (DeleteDE k s a (deq_Head (GetDEQueue k s a))) a
      ((GetDEQueue k s a)\<lparr>deq_Head := deq_Head (GetDEQueue k s a) + 1\<rparr>)))" (is ?eq)
    and "DequeueDE k s a = Inr (x, s') \<Longrightarrow> (\<exists>D Q. s' = s\<lparr>xs_de := D, xs_deq := Q\<rparr>) \<and> de_inv k s' \<and>
      de_list k s a \<noteq> [] \<and> x = hd (de_list k s a) \<and>
      (\<forall>b. valid_addr b \<longrightarrow> de_list k s' b = (if b = a then tl (de_list k s a) else de_list k s b))"
proof -
  let ?q = "GetDEQueue k s a" and ?sdk = "xk_sdk k"
  let ?t = "SetDEQueue k (DeleteDE k s a (deq_Head ?q)) a (?q\<lparr>deq_Head := deq_Head ?q + 1\<rparr>)"
  note d = de_invD [OF inv a]
  have ne: "de_list k s a = [] \<longleftrightarrow> \<not> deq_Head ?q < deq_Tail ?q" by (auto simp: de_list_def)
  have f: "fits (deq_Head ?q)" "deq_Head ?q < deq_Tail ?q \<Longrightarrow> fits (deq_Head ?q + 1)" using d(1,2) by (auto simp: fits_def)
  have hd: "hd (de_list k s a) = the (dv ?sdk (xs_de s) a (deq_Head ?q))" if "deq_Head ?q < deq_Tail ?q"
    using that by (simp add: de_list_def hd_map upt_conv_Cons)
  have "\<exists>x. dv ?sdk (xs_de s) a (deq_Head ?q) = Some x" if "deq_Head ?q < deq_Tail ?q" using d(3) that by auto
  then show eq: ?eq using ne f hd by (auto simp: DequeueDE_def Let_def GetDE_def get_views)
  assume r: "DequeueDE k s a = Inr (x, s')"
  then have lt: "deq_Head ?q < deq_Tail ?q" and x: "x = hd (de_list k s a)" and s': "s' = ?t"
    unfolding eq using ne by (auto split: if_splits)
  have q: "GetDEQueue k s' b = (if b = a then ?q\<lparr>deq_Head := deq_Head ?q + 1\<rparr> else GetDEQueue k s b)" if "valid_addr b" for b
    unfolding s' GetDEQueue_Set [OF laws a that] by (simp add: GetDEQueue_def DeleteDE_def)
  have v: "dv ?sdk (xs_de s') b = (if b = a then (dv ?sdk (xs_de s) a)(deq_Head ?q := None) else dv ?sdk (xs_de s) b)" if "valid_addr b" for b
    using dv_set(2) [OF laws a that f(1)] by (simp add: s' SetDEQueue_def DeleteDE_def)
  have "de_inv k s'" unfolding de_inv_def Let_def
  proof (intro allI impI)
    fix b assume b: "valid_addr b"
    have "dom (dv ?sdk (xs_de s') a) = {deq_Head ?q + 1..<deq_Tail ?q}" unfolding v [OF a] using d(3) by auto
    then show "deq_Head (GetDEQueue k s' b) \<le> deq_Tail (GetDEQueue k s' b) \<and> fits (deq_Tail (GetDEQueue k s' b)) \<and>
        dom (dv ?sdk (xs_de s') b) = {deq_Head (GetDEQueue k s' b)..<deq_Tail (GetDEQueue k s' b)}"
      using q [OF b] de_invD [OF inv b] lt d v [OF b] by (simp split: if_splits)
  qed
  moreover have "de_list k s' b = (if b = a then tl (de_list k s a) else de_list k s b)" if b: "valid_addr b" for b
  proof (cases "b = a")
    case True
    have "tl (de_list k s a) = map (\<lambda>i. the (dv ?sdk (xs_de s) a i)) [deq_Head ?q + 1..<deq_Tail ?q]"
      using lt by (simp add: de_list_def upt_conv_Cons)
    then show ?thesis using True q [OF b] v [OF b] by (auto simp: de_list_def)
  qed (use q [OF b] v [OF b] in \<open>simp add: de_list_def\<close>)
  ultimately show "(\<exists>D Q. s' = s\<lparr>xs_de := D, xs_deq := Q\<rparr>) \<and> de_inv k s' \<and> de_list k s a \<noteq> [] \<and> x = hd (de_list k s a) \<and>
      (\<forall>b. valid_addr b \<longrightarrow> de_list k s' b = (if b = a then tl (de_list k s a) else de_list k s b))"
    using ne lt x by (auto simp: s' SetDEQueue_def DeleteDE_def)
qed

lemma ResetDE_spec:
  assumes laws: "address_laws (xk_sdk k)" and inv: "de_inv k s" and a: "valid_addr a"
  shows "\<exists>s' D Q. ResetDE k s a = Inr s' \<and> s' = s\<lparr>xs_de := D, xs_deq := Q\<rparr> \<and> de_inv k s' \<and>
    (\<forall>b. valid_addr b \<longrightarrow> de_list k s' b = (if b = a then [] else de_list k s b))"
proof -
  let ?q = "GetDEQueue k s a" and ?sdk = "xk_sdk k"
  let ?step = "\<lambda>s i. bindE (GetDE k s a i) (\<lambda>_. Inr (DeleteDE k s a i))"
  note d = de_invD [OF inv a]
  have loop: "\<exists>D. foldE ?step (s\<lparr>xs_de := D0\<rparr>) [h..<h + n] = Inr (s\<lparr>xs_de := D\<rparr>) \<and>
      (\<forall>b. valid_addr b \<longrightarrow> dv ?sdk D b = (if b = a then (\<lambda>j. if h \<le> j \<and> j < h + n then None else dv ?sdk D0 a j) else dv ?sdk D0 b))"
    if "\<forall>i. h \<le> i \<and> i < h + n \<longrightarrow> dv ?sdk D0 a i \<noteq> None" "fits (h + n)" for D0 h n
    using that
  proof (induction n)
    case 0
    then show ?case by (intro exI [of _ D0]) (auto simp: fun_eq_iff)
  next
    case (Suc n)
    have f: "fits (h + n)" using Suc.prems(2) by (simp add: fits_def)
    obtain D where D: "foldE ?step (s\<lparr>xs_de := D0\<rparr>) [h..<h + n] = Inr (s\<lparr>xs_de := D\<rparr>)"
      and v: "\<And>b. valid_addr b \<Longrightarrow> dv ?sdk D b = (if b = a then (\<lambda>j. if h \<le> j \<and> j < h + n then None else dv ?sdk D0 a j) else dv ?sdk D0 b)"
      using Suc.IH [OF _ f] Suc.prems(1) by fastforce
    obtain x where "dv ?sdk D0 a (h + n) = Some x" using Suc.prems(1) by fastforce
    then have "dv ?sdk D a (h + n) = Some x" using v [OF a] by simp
    then have "foldE ?step (s\<lparr>xs_de := D0\<rparr>) [h..<h + Suc n] = Inr (s\<lparr>xs_de := kv_delete D (DEStoreKey ?sdk a (h + n))\<rparr>)"
      using D f by (simp add: foldE_append GetDE_def DeleteDE_def get_views)
    moreover have "dv ?sdk (kv_delete D (DEStoreKey ?sdk a (h + n))) b =
        (if b = a then (\<lambda>j. if h \<le> j \<and> j < h + Suc n then None else dv ?sdk D0 a j) else dv ?sdk D0 b)" if "valid_addr b" for b
      unfolding dv_set(2) [OF laws a that f] using v [OF that] v [OF a] by (auto simp: fun_eq_iff)
    ultimately show ?case by blast
  qed
  have "\<forall>i. deq_Head ?q \<le> i \<and> i < deq_Head ?q + (deq_Tail ?q - deq_Head ?q) \<longrightarrow> dv ?sdk (xs_de s) a i \<noteq> None"
    using d(1,4) by simp
  then obtain D where D: "foldE ?step s [deq_Head ?q..<deq_Tail ?q] = Inr (s\<lparr>xs_de := D\<rparr>)"
    and v: "\<And>b. valid_addr b \<Longrightarrow> dv ?sdk D b = (if b = a then (\<lambda>j. if deq_Head ?q \<le> j \<and> j < deq_Tail ?q then None else dv ?sdk (xs_de s) a j)
       else dv ?sdk (xs_de s) b)"
    using loop [of "deq_Head ?q" "deq_Tail ?q - deq_Head ?q" "xs_de s"] d(1,2) by (auto simp: fits_def)
  let ?s = "SetDEQueue k (s\<lparr>xs_de := D\<rparr>) a \<lparr>deq_Head = 0, deq_Tail = 0\<rparr>"
  have r: "ResetDE k s a = Inr ?s" using D by (simp add: ResetDE_def Let_def)
  have q: "GetDEQueue k ?s b = (if b = a then \<lparr>deq_Head = 0, deq_Tail = 0\<rparr> else GetDEQueue k s b)" if "valid_addr b" for b
    unfolding GetDEQueue_Set [OF laws a that] by (simp add: GetDEQueue_def)
  have de: "xs_de ?s = D" by (simp add: SetDEQueue_def)
  have none: "dv ?sdk D a = Map.empty" unfolding v [OF a] using d(4) by (auto simp: fun_eq_iff)
  have "de_inv k ?s" unfolding de_inv_def Let_def
  proof (intro allI impI)
    fix b assume b: "valid_addr b"
    have "b \<noteq> a \<Longrightarrow> dv ?sdk D b = dv ?sdk (xs_de s) b" using v [OF b] by simp
    then show "deq_Head (GetDEQueue k ?s b) \<le> deq_Tail (GetDEQueue k ?s b) \<and> fits (deq_Tail (GetDEQueue k ?s b)) \<and>
        dom (dv ?sdk (xs_de ?s) b) = {deq_Head (GetDEQueue k ?s b)..<deq_Tail (GetDEQueue k ?s b)}"
      unfolding q [OF b] de using de_invD(1-3) [OF inv b] none by (cases "b = a") (simp_all add: fits_def)
  qed
  moreover have "de_list k ?s b = (if b = a then [] else de_list k s b)" if b: "valid_addr b" for b
    unfolding de_list_def q [OF b] de using v [OF b] by simp
  ultimately show ?thesis using r by (auto simp: SetDEQueue_def)
qed

interpretation des: fifo "\<lambda>s. address_laws (xk_sdk k) \<and> de_inv k s" valid_addr "de_list k" "de_room k" "EnqueueDEs k" "DequeueDE k" for k
proof unfold_locales
  fix s a xs s'
  assume "address_laws (xk_sdk k) \<and> de_inv k s" "valid_addr a" "de_room k s a (length xs)" "EnqueueDEs k s a xs = Inr s'"
  then show "(address_laws (xk_sdk k) \<and> de_inv k s') \<and>
      (\<forall>b. valid_addr b \<longrightarrow> de_list k s' b = (if b = a then de_list k s a @ xs else de_list k s b))"
    using EnqueueDEs_spec [of k s a xs s'] by blast
next
  fix s a x s'
  assume "address_laws (xk_sdk k) \<and> de_inv k s" "valid_addr a" "DequeueDE k s a = Inr (x, s')"
  then show "(address_laws (xk_sdk k) \<and> de_inv k s') \<and> de_list k s a \<noteq> [] \<and> x = hd (de_list k s a) \<and>
      (\<forall>b. valid_addr b \<longrightarrow> de_list k s' b = (if b = a then tl (de_list k s a) else de_list k s b))"
    using DequeueDE_spec(2) [of k s a x s'] by blast
next
  fix s a
  assume "address_laws (xk_sdk k) \<and> de_inv k s" "valid_addr a"
  then show "is_ok (DequeueDE k s a) \<longleftrightarrow> de_list k s a \<noteq> []" using DequeueDE_spec(1) [of k s a] by simp
qed

text \<open>Taking one nonce of each selected member.\<close>

lemma DequeueDEs_spec:
  assumes laws: "address_laws (xk_sdk k)" and inv: "de_inv k s" and ok: "DequeueDEs k s members = Inr (des, s')"
  shows "(\<exists>D Q. s' = s\<lparr>xs_de := D, xs_deq := Q\<rparr>) \<and> de_inv k s' \<and> length des = length members"
proof -
  let ?step = "\<lambda>(des, s) member.
       bindE (wrap_err sdk_ErrInvalidAddress (AccAddressFromBech32 (xk_sdk k) (mem_Address member))) (\<lambda>accMember.
       bindE (DequeueDE k s accMember) (\<lambda>(de, s). Inr (des @ [de], s)))"
  have "\<exists>D Q. s' = s\<lparr>xs_de := D, xs_deq := Q\<rparr> \<and> de_inv k s' \<and> length des = length xs + length members"
    if "foldE ?step (xs, s) members = Inr (des, s')" "de_inv k s" for xs s
    using that
  proof (induction members arbitrary: xs s)
    case Nil
    then show ?case by (auto intro!: exI [of _ "xs_de s"] exI [of _ "xs_deq s"])
  next
    case (Cons m ms)
    obtain addr de t where a: "AccAddressFromBech32 (xk_sdk k) (mem_Address m) = Inr addr" and t: "DequeueDE k s addr = Inr (de, t)"
      and rest: "foldE ?step (xs @ [de], t) ms = Inr (des, s')" using Cons.prems(1) by auto
    have "valid_addr addr" using laws a by (auto simp: address_laws_def)
    then obtain D Q where D: "t = s\<lparr>xs_de := D, xs_deq := Q\<rparr>" "de_inv k t" using DequeueDE_spec(2) [OF laws Cons.prems(2) _ t] by blast
    obtain D' Q' where "s' = t\<lparr>xs_de := D', xs_deq := Q'\<rparr>" "de_inv k s'" "length des = length (xs @ [de]) + length ms"
      using Cons.IH [OF rest D(2)] by blast
    then show ?case using D(1) by auto
  qed
  from this [of "[]" s] ok inv show ?thesis unfolding DequeueDEs_def by auto
qed

end
