(* ===== verification/Xtss_Sign.thy ===== *)
theory Xtss_Sign
  imports Xtss_De
begin

text \<open>
  Signing keeps the invariant of \<open>Xtss_Inv\<close>: the selection of members, new rounds, partial signatures, aggregation, expiry and retries.
\<close>

section \<open>Frame\<close>

definition same_signing :: "'w tss_state \<Rightarrow> 'w tss_state \<Rightarrow> bool" where
  "same_signing s s' \<longleftrightarrow> xs_signings s' = xs_signings s \<and> xs_signing_count s' = xs_signing_count s \<and> xs_psigs s' = xs_psigs s \<and>
     xs_psig_count s' = xs_psig_count s \<and> xs_attempts s' = xs_attempts s \<and> xs_expirations s' = xs_expirations s"

text \<open>An active group keeps its record, and the keys and addresses of its members.\<close>

definition active_kept :: "'w tss_state \<Rightarrow> 'w tss_state \<Rightarrow> bool" where
  "active_kept s s' \<longleftrightarrow> (\<forall>gid g. gv (xs_groups s) gid = Some g \<longrightarrow> grp_Status g = GROUP_STATUS_ACTIVE \<longrightarrow>
     gv (xs_groups s') gid = Some g \<and>
     (\<forall>i m. mv (xs_members s) gid i = Some m \<longrightarrow>
        (\<exists>m'. mv (xs_members s') gid i = Some m' \<and> mem_PubKey m' = mem_PubKey m \<and> mem_Address m' = mem_Address m)))"

lemma sign_invD:
  assumes "sign_inv k Q X s"
  shows "kv_ok (xs_psigs s)" "wf_keys psigs_pre fits2 (xs_psigs s)" "fits (xs_signing_count s)"
    "dom (sv (xs_signings s)) = {1..xs_signing_count s}"
    "sv (xs_signings s) sid = Some x \<Longrightarrow> signing_ok (xk_curve k) (gv (xs_groups s)) sid x"
    "distinct (xs_expirations s)" "\<forall>e\<in>set (xs_expirations s). fits (se_SigningID e) \<and> fits (se_SigningAttempt e)"
    "fits sid \<Longrightarrow> fits att \<Longrightarrow>
      \<lparr>se_SigningID = sid, se_SigningAttempt = att\<rparr> \<in> set (xs_expirations s) \<longleftrightarrow> av (xs_attempts s) sid att \<noteq> None"
    "fits sid \<Longrightarrow> av (xs_attempts s) sid att = Some sa \<Longrightarrow> attempt_at k s sid att sa"
    "fits sid \<Longrightarrow> fits att \<Longrightarrow> av (xs_attempts s) sid att = None \<Longrightarrow>
      dom (psv (xs_psigs s) (sid, att)) = {} \<and> npv (xs_psig_count s) sid att = None"
    "distinct Q" "set Q \<inter> X = {}"
    "sid \<in> set Q \<longleftrightarrow> sid \<notin> X \<and> (\<exists>x sa. sv (xs_signings s) sid = Some x \<and> sgn_Status x = SIGNING_STATUS_WAITING \<and>
        av (xs_attempts s) sid (sgn_CurrentAttempt x) = Some sa \<and> complete s sid (sgn_CurrentAttempt x) sa)"
    "sv (xs_signings s) sid = Some x \<Longrightarrow> sgn_Status x = SIGNING_STATUS_WAITING \<Longrightarrow> sid \<notin> X \<Longrightarrow>
        av (xs_attempts s) sid (sgn_CurrentAttempt x) \<noteq> None"
    "sid \<in> X \<Longrightarrow> \<exists>x. sv (xs_signings s) sid = Some x \<and> sgn_Status x = SIGNING_STATUS_WAITING \<and>
        (\<forall>sa. av (xs_attempts s) sid (sgn_CurrentAttempt x) = Some sa \<longrightarrow> complete s sid (sgn_CurrentAttempt x) sa)"
proof -
  note d = assms [unfolded sign_inv_def]
  show "kv_ok (xs_psigs s)"
    by (rule d [THEN conjunct1])
  show "wf_keys psigs_pre fits2 (xs_psigs s)"
    by (rule d [THEN conjunct2, THEN conjunct1])
  show "fits (xs_signing_count s)"
    by (rule d [THEN conjunct2, THEN conjunct2, THEN conjunct1])
  show "dom (sv (xs_signings s)) = {1..xs_signing_count s}"
    by (rule d [THEN conjunct2, THEN conjunct2, THEN conjunct2, THEN conjunct1])
  show "sv (xs_signings s) sid = Some x \<Longrightarrow> signing_ok (xk_curve k) (gv (xs_groups s)) sid x"
    by (rule d [THEN conjunct2, THEN conjunct2, THEN conjunct2, THEN conjunct2, THEN conjunct1, rule_format])
  show "distinct (xs_expirations s)"
    by (rule d [THEN conjunct2, THEN conjunct2, THEN conjunct2, THEN conjunct2, THEN conjunct2, THEN conjunct1])
  show "\<forall>e\<in>set (xs_expirations s). fits (se_SigningID e) \<and> fits (se_SigningAttempt e)"
    by (rule d [THEN conjunct2, THEN conjunct2, THEN conjunct2, THEN conjunct2, THEN conjunct2, THEN conjunct2, THEN conjunct1])
  show "fits sid \<Longrightarrow> fits att \<Longrightarrow>
      \<lparr>se_SigningID = sid, se_SigningAttempt = att\<rparr> \<in> set (xs_expirations s) \<longleftrightarrow> av (xs_attempts s) sid att \<noteq> None"
    by (rule d [THEN conjunct2, THEN conjunct2, THEN conjunct2, THEN conjunct2, THEN conjunct2, THEN conjunct2, THEN conjunct2, THEN conjunct1, rule_format])
  show "fits sid \<Longrightarrow> av (xs_attempts s) sid att = Some sa \<Longrightarrow> attempt_at k s sid att sa"
    by (rule d [THEN conjunct2, THEN conjunct2, THEN conjunct2, THEN conjunct2, THEN conjunct2, THEN conjunct2, THEN conjunct2, THEN conjunct2, THEN conjunct1, rule_format])
  show "fits sid \<Longrightarrow> fits att \<Longrightarrow> av (xs_attempts s) sid att = None \<Longrightarrow>
      dom (psv (xs_psigs s) (sid, att)) = {} \<and> npv (xs_psig_count s) sid att = None"
    by (rule d [THEN conjunct2, THEN conjunct2, THEN conjunct2, THEN conjunct2, THEN conjunct2, THEN conjunct2, THEN conjunct2, THEN conjunct2, THEN conjunct2, THEN conjunct1, rule_format])
  show "distinct Q"
    by (rule d [THEN conjunct2, THEN conjunct2, THEN conjunct2, THEN conjunct2, THEN conjunct2, THEN conjunct2, THEN conjunct2, THEN conjunct2, THEN conjunct2, THEN conjunct2, THEN conjunct1])
  show "set Q \<inter> X = {}"
    by (rule d [THEN conjunct2, THEN conjunct2, THEN conjunct2, THEN conjunct2, THEN conjunct2, THEN conjunct2, THEN conjunct2, THEN conjunct2, THEN conjunct2, THEN conjunct2, THEN conjunct2, THEN conjunct1])
  show "sid \<in> set Q \<longleftrightarrow> sid \<notin> X \<and> (\<exists>x sa. sv (xs_signings s) sid = Some x \<and> sgn_Status x = SIGNING_STATUS_WAITING \<and>
        av (xs_attempts s) sid (sgn_CurrentAttempt x) = Some sa \<and> complete s sid (sgn_CurrentAttempt x) sa)"
    by (rule d [THEN conjunct2, THEN conjunct2, THEN conjunct2, THEN conjunct2, THEN conjunct2, THEN conjunct2, THEN conjunct2, THEN conjunct2, THEN conjunct2, THEN conjunct2, THEN conjunct2, THEN conjunct2, THEN conjunct1, rule_format])
  show "sv (xs_signings s) sid = Some x \<Longrightarrow> sgn_Status x = SIGNING_STATUS_WAITING \<Longrightarrow> sid \<notin> X \<Longrightarrow>
        av (xs_attempts s) sid (sgn_CurrentAttempt x) \<noteq> None"
    by (rule d [THEN conjunct2, THEN conjunct2, THEN conjunct2, THEN conjunct2, THEN conjunct2, THEN conjunct2, THEN conjunct2, THEN conjunct2, THEN conjunct2, THEN conjunct2, THEN conjunct2, THEN conjunct2, THEN conjunct2, THEN conjunct1, rule_format])
  show "sid \<in> X \<Longrightarrow> \<exists>x. sv (xs_signings s) sid = Some x \<and> sgn_Status x = SIGNING_STATUS_WAITING \<and>
        (\<forall>sa. av (xs_attempts s) sid (sgn_CurrentAttempt x) = Some sa \<longrightarrow> complete s sid (sgn_CurrentAttempt x) sa)"
    by (rule d [THEN conjunct2, THEN conjunct2, THEN conjunct2, THEN conjunct2, THEN conjunct2, THEN conjunct2, THEN conjunct2, THEN conjunct2, THEN conjunct2, THEN conjunct2, THEN conjunct2, THEN conjunct2, THEN conjunct2, THEN conjunct2, rule_format])
qed

lemma signing_okD:
  assumes "signing_ok c G sid x"
  shows "sgn_ID x = sid" "fits (sgn_CurrentAttempt x + 1)" "fits (sgn_CurrentAttempt x)"
    "\<exists>g. G (sgn_GroupID x) = Some g \<and> grp_Status g = GROUP_STATUS_ACTIVE \<and> sgn_GroupPubKey x = grp_PubKey g"
    "sgn_Status x \<noteq> SIGNING_STATUS_UNSPECIFIED"
    "sgn_Status x = SIGNING_STATUS_SUCCESS \<Longrightarrow>
        VerifyGroupSigningSignature c (sgn_GroupPubKey x) (sgn_Message x) (sgn_Signature x) = Inr ()"
  using assms unfolding signing_ok_def by (auto simp: fits_def)

lemma attempt_ok_kept:
  assumes "attempt_ok sdk g mem sa"
    and "\<forall>i m. mem i = Some m \<longrightarrow> (\<exists>m'. mem' i = Some m' \<and> mem_PubKey m' = mem_PubKey m \<and> mem_Address m' = mem_Address m)"
  shows "attempt_ok sdk g mem' sa"
  using assms unfolding attempt_ok_def by metis

lemma attempt_at_frame:
  assumes at: "attempt_at k s sid att sa" and kept: "active_kept s s'"
    and act: "\<And>x. sv (xs_signings s) sid = Some x \<Longrightarrow> signing_ok (xk_curve k) (gv (xs_groups s)) sid x"
    and same: "sv (xs_signings s') sid = sv (xs_signings s) sid" "psv (xs_psigs s') (sid, att) = psv (xs_psigs s) (sid, att)"
      "npv (xs_psig_count s') sid att = npv (xs_psig_count s) sid att"
  shows "attempt_at k s' sid att sa"
proof -
  obtain x g where x: "sv (xs_signings s) sid = Some x" and g: "gv (xs_groups s) (sgn_GroupID x) = Some g"
    and ok: "attempt_ok (xk_sdk k) g (mv (xs_members s) (sgn_GroupID x)) sa" using at unfolding attempt_at_def by blast
  have st: "grp_Status g = GROUP_STATUS_ACTIVE" using signing_okD(4) [OF act [OF x]] g by auto
  have g': "gv (xs_groups s') (sgn_GroupID x) = Some g"
    and ok': "attempt_ok (xk_sdk k) g (mv (xs_members s') (sgn_GroupID x)) sa"
    using kept [unfolded active_kept_def, rule_format, OF g st] attempt_ok_kept [OF ok] by blast+
  show ?thesis using at x g g' ok' unfolding attempt_at_def complete_def same by auto
qed

lemma sign_inv_frame:
  assumes inv: "sign_inv k Q X s" and same: "same_signing s s'" and kept: "active_kept s s'"
  shows "sign_inv k Q X s'"
proof -
  note i = sign_invD [OF inv]
  note e = same [unfolded same_signing_def]
  have "signing_ok (xk_curve k) (gv (xs_groups s')) sid x" if "sv (xs_signings s) sid = Some x" for sid x
    using i(5) [OF that] kept unfolding signing_ok_def active_kept_def by metis
  moreover have "attempt_at k s' sid att sa" if "fits sid" "av (xs_attempts s) sid att = Some sa" for sid att sa
    by (rule attempt_at_frame [OF i(9) [OF that] kept i(5)]) (use e in simp_all)
  moreover have "complete s' = complete s" using e by (simp add: complete_def fun_eq_iff)
  ultimately show ?thesis using inv e unfolding sign_inv_def by simp
qed

text \<open>What callbacks may do besides requesting signatures: flags of members and other modules.\<close>

definition touched :: "'w tss_state \<Rightarrow> 'w tss_state \<Rightarrow> bool" where
  "touched s s' \<longleftrightarrow> (\<exists>M w. s' = s\<lparr>xs_members := M, xs_world := w\<rparr> \<and> same_keys (xs_members s) M \<and> kv_ok M \<and> wf_keys MembersStoreKey fits M)"

lemma touched_flags:
  assumes "touched s s'"
  obtains t w where "flags_change s t" "s' = t\<lparr>xs_world := w\<rparr>"
  using assms unfolding touched_def flags_change_def by (metis (no_types, lifting) tss_state.update_convs(9,25) tss_state.surjective)

lemma touched_trans: "touched s t \<Longrightarrow> touched t u \<Longrightarrow> touched s u"
  unfolding touched_def by (force intro: same_keys_trans)

lemma touched_dkg:
  assumes "dkg_inv k P s" "touched s s'"
  shows "dkg_inv k P s'"
proof -
  obtain t w where t: "flags_change s t" "s' = t\<lparr>xs_world := w\<rparr>" by (rule touched_flags [OF assms(2)])
  show ?thesis using flags_change_dkg [OF assms(1) t(1)] unfolding t(2) by (simp add: dkg_inv_def dkg_at_def done_at_def)
qed

lemma touched_kept: "touched s s' \<Longrightarrow> active_kept s s'"
  unfolding touched_def active_kept_def using same_keysD(2) view_fits(1) by fastforce

lemma touched_sign: "sign_inv k Q X s \<Longrightarrow> touched s s' \<Longrightarrow> sign_inv k Q X s'"
  by (erule sign_inv_frame) (auto simp: touched_kept, auto simp: touched_def same_signing_def)

lemma touched_de: "de_inv k s \<Longrightarrow> touched s s' \<Longrightarrow> de_inv k s'"
  by (auto simp: touched_def de_inv_def GetDEQueue_def)

section \<open>Selection of members\<close>

lemma swap_out:
  assumes "distinct L" "r < length L"
  shows "distinct (butlast (L[r := last L])) \<and> set (butlast (L[r := last L])) = set L - {L ! r} \<and>
    length (butlast (L[r := last L])) = length L - 1"
proof -
  have ne: "L \<noteq> []" using assms by auto
  define B where "B = butlast L"
  have L: "L = B @ [last L]" using ne by (simp add: B_def)
  have d: "distinct B" "last L \<notin> set B" using assms(1) L by (metis distinct_append not_distinct_conv_prefix distinct_butlast B_def)+
  show ?thesis
  proof (cases "r = length B")
    case True
    then have "L ! r = last L" "L[r := last L] = L" using L by (metis nth_append_length list_update_id)+
    then show ?thesis using d L by (metis B_def Diff_insert_absorb butlast_snoc length_butlast set_append list.set(1,2) Un_insert_right sup_bot_right)
  next
    case False
    then have r: "r < length B" using assms(2) L by (metis Suc_leI leD length_append_singleton less_Suc_eq nat_neq_iff)
    have u: "butlast (L[r := last L]) = B[r := last L]" using r L by (metis butlast_snoc list_update_append1)
    have n: "L ! r = B ! r" using r L by (metis nth_append)
    have "set L = insert (last L) (set B)" using L by (metis Un_insert_right list.set(1,2) set_append sup_bot_right)
    then have "set (B[r := last L]) = set L - {L ! r}"
      using set_update_distinct [OF d(1) r, of "last L"] n d(2) r by (auto simp: nth_mem)
    moreover have "distinct (B[r := last L])" using d by (intro distinct_list_update) auto
    ultimately show ?thesis unfolding u by (simp add: B_def)
  qed
qed

lemma pick_members_spec:
  assumes "pick_members read rng members idx i left sel = Inr sel'" and "i + left \<le> length members" "length idx = length members"
    and "distinct (take (length members - i) idx)"
  shows "\<exists>js. sel' = sel @ map ((!) members) js \<and> length js = left \<and> distinct js \<and> set js \<subseteq> set (take (length members - i) idx)"
  using assms
proof (induction left arbitrary: rng idx i sel)
  case (Suc left)
  let ?m = "length members - i" and ?L = "take (length members - i) idx"
  obtain x rng' where x: "NextUint64 read rng = Inr (x, rng')"
    and rec: "pick_members read rng' members (idx[x mod ?m := idx ! (?m - 1)]) (Suc i) left (sel @ [members ! (idx ! (x mod ?m))]) = Inr sel'"
    using Suc.prems(1) by (auto simp: Let_def)
  have m: "0 < ?m" using Suc.prems(2) by simp
  define r where "r = x mod ?m"
  have r: "r < ?m" "r < length ?L" using m Suc.prems(3) by (auto simp: r_def)
  have len: "length ?L = ?m" using Suc.prems(3) by simp
  then have "?L \<noteq> []" using m by auto
  then have L: "last ?L = idx ! (?m - 1)" "?L ! r = idx ! r" using last_conv_nth [of ?L] len m r by simp_all
  let ?idx = "idx[r := idx ! (?m - 1)]"
  have b: "butlast (?L[r := last ?L]) = take (length members - Suc i) ?idx"
  proof -
    have "butlast (?L[r := last ?L]) = take (?m - 1) (take ?m ?idx)"
      by (simp only: butlast_conv_take length_list_update len L(1) take_update_swap)
    then show ?thesis by simp
  qed
  note sw = swap_out [OF Suc.prems(4) r(2), unfolded b]
  obtain js where js: "sel' = (sel @ [members ! (idx ! r)]) @ map ((!) members) js" "length js = left" "distinct js"
      "set js \<subseteq> set (take (length members - Suc i) ?idx)"
    using Suc.IH [OF rec [folded r_def]] Suc.prems(2,3) sw by auto
  have "idx ! r \<in> set ?L" using r(2) L(2) by (metis nth_mem)
  then show ?case using js sw L(2) by (intro exI [of _ "idx ! r # js"]) auto
qed (auto intro!: exI [of _ "[]"])

definition available :: "('p, 'r, 'c, 'w) tss_keeper \<Rightarrow> 'w tss_state \<Rightarrow> Member \<Rightarrow> bool" where
  "available k s m \<longleftrightarrow> mem_IsActive m \<and> (case AccAddressFromBech32 (xk_sdk k) (mem_Address m) of Inl _ \<Rightarrow> False | Inr a \<Rightarrow> HasDE k s a)"

lemma available_spec: "foldE (available_step k s) acc ms = Inr ms' \<Longrightarrow> ms' = acc @ filter (available k s) ms"
proof (induction ms arbitrary: acc)
  case (Cons m ms)
  obtain acc' where a: "available_step k s acc m = Inr acc'" "foldE (available_step k s) acc' ms = Inr ms'" using Cons.prems by auto
  have "acc' = acc @ filter (available k s) [m]"
    using a(1) by (auto simp: available_step_def available_def MustAccAddressFromBech32_def split: if_splits sum.splits)
  then show ?case using Cons.IH [OF a(2)] by simp
qed simp

text \<open>
  The members that sign: as many distinct available members of the group as the threshold, in the order of their ids.
\<close>

lemma GetRandomMembers_spec:
  assumes inv: "members_inv (xk_sdk k) (xs_groups s) (xs_members s)" and g: "gv (xs_groups s) gid = Some g"
    and ok: "GetRandomMembers k ctx s gid nonce = Inr sel"
  shows "length sel = grp_Threshold g \<and> sorted_wrt (<) (map mem_ID sel) \<and>
    (\<forall>m\<in>set sel. mv (xs_members s) gid (mem_ID m) = Some m \<and> available k s m)"
proof -
  let ?all = "map (\<lambda>i. the (mv (xs_members s) gid i)) [1..<Suc (grp_Size g)]"
  have fg: "fits gid" using view_fits(1) [OF g] .
  have mem: "mv (xs_members s) gid i = Some (the (mv (xs_members s) gid i)) \<and> mem_ID (the (mv (xs_members s) gid i)) = i"
    if "1 \<le> i" "i \<le> grp_Size g" for i
  proof -
    have "i \<in> dom (mv (xs_members s) gid)" using members_invD(3) [OF inv g] that by simp
    then obtain m where "mv (xs_members s) gid i = Some m" by blast
    then show ?thesis using members_invD(4) [OF inv fg] by simp
  qed
  obtain avail rng sel' where av: "GetAvailableMembers k s gid = Inr avail" and th: "grp_Threshold g \<le> length avail"
    and pick: "pick_members (xk_drbg_read k) rng avail [0..<length avail] 0 (grp_Threshold g) [] = Inr sel'" and sel: "sel = sort_key mem_ID sel'"
    using ok g fg by (auto simp: GetRandomMembers_def GetGroup_iff split: if_splits)
  have avail: "avail = filter (available k s) ?all"
    using av available_spec members_list [OF inv g] unfolding GetAvailableMembers_def by fastforce
  have ids: "map mem_ID ?all = [1..<Suc (grp_Size g)]" by (rule nth_equalityI) (use mem in \<open>auto simp del: upt_Suc\<close>)
  have d: "distinct (map mem_ID avail)"
    unfolding avail by (rule distinct_map_filter) (simp only: ids distinct_upt)
  obtain js where js: "sel' = map ((!) avail) js" "length js = grp_Threshold g" "distinct js" "set js \<subseteq> {..<length avail}"
    using pick_members_spec [OF pick] th by (auto simp: atLeast0LessThan)
  have "map mem_ID sel' = map ((!) (map mem_ID avail)) js" using js(1,4) by (auto simp: nth_map)
  moreover have "inj_on ((!) (map mem_ID avail)) (set js)" 
    by (rule inj_onI, subst (asm) nth_eq_iff_index_eq [OF d]) (use js(4) in auto)
  ultimately have "distinct (map mem_ID sel')" using js(3) by (simp add: distinct_map del: map_map)
  moreover have "mset (map mem_ID sel) = mset (map mem_ID sel')" unfolding sel by simp
  ultimately have "distinct (map mem_ID sel)" by (metis mset_eq_imp_distinct_iff)
  then have "sorted_wrt (<) (map mem_ID sel)" unfolding sel by (simp add: strict_sorted_iff)
  moreover have "set sel \<subseteq> set avail" using js(1,4) unfolding sel by (auto intro!: nth_mem)
  moreover have "mv (xs_members s) gid (mem_ID m) = Some m" if "m \<in> set ?all" for m using that mem by (auto simp del: upt_Suc)
  ultimately show ?thesis using js(1,2) avail unfolding sel by auto
qed

section \<open>Changing one signing\<close>

definition same_views :: "'w tss_state \<Rightarrow> 'w tss_state \<Rightarrow> nat \<Rightarrow> bool" where
  "same_views s s' i \<longleftrightarrow> sv (xs_signings s') i = sv (xs_signings s) i \<and> av (xs_attempts s') i = av (xs_attempts s) i \<and>
     npv (xs_psig_count s') i = npv (xs_psig_count s) i \<and> (\<forall>t. fits t \<longrightarrow> psv (xs_psigs s') (i, t) = psv (xs_psigs s) (i, t))"

text \<open>A signing that waits for signatures, all of which have arrived.\<close>

definition ready :: "'w tss_state \<Rightarrow> nat \<Rightarrow> bool" where
  "ready s sid \<longleftrightarrow> (\<exists>x sa. sv (xs_signings s) sid = Some x \<and> sgn_Status x = SIGNING_STATUS_WAITING \<and>
     av (xs_attempts s) sid (sgn_CurrentAttempt x) = Some sa \<and> complete s sid (sgn_CurrentAttempt x) sa)"

lemma ready_same: "same_views s s' i \<Longrightarrow> ready s' i \<longleftrightarrow> ready s i"
  by (simp add: ready_def same_views_def complete_def)

lemma sign_inv_change:
  assumes inv: "sign_inv k Q X s" and kept: "active_kept s s'"
    and other: "\<And>i. fits i \<Longrightarrow> i \<noteq> sid \<Longrightarrow> same_views s s' i"
    and tabs: "kv_ok (xs_psigs s')" "wf_keys psigs_pre fits2 (xs_psigs s')"
    and dom: "fits (xs_signing_count s')" "dom (sv (xs_signings s')) = {1..xs_signing_count s'}"
    and me: "\<And>x. sv (xs_signings s') sid = Some x \<Longrightarrow> signing_ok (xk_curve k) (gv (xs_groups s')) sid x"
    and ex: "distinct (xs_expirations s')" "\<And>e. e \<in> set (xs_expirations s') \<Longrightarrow> fits (se_SigningID e) \<and> fits (se_SigningAttempt e)"
      "\<And>i att. fits i \<Longrightarrow> fits att \<Longrightarrow>
         \<lparr>se_SigningID = i, se_SigningAttempt = att\<rparr> \<in> set (xs_expirations s') \<longleftrightarrow> av (xs_attempts s') i att \<noteq> None"
    and at: "\<And>att sa. av (xs_attempts s') sid att = Some sa \<Longrightarrow> attempt_at k s' sid att sa"
    and none: "\<And>att. fits att \<Longrightarrow> av (xs_attempts s') sid att = None \<Longrightarrow>
         dom (psv (xs_psigs s') (sid, att)) = {} \<and> npv (xs_psig_count s') sid att = None"
    and Q: "distinct Q'" "set Q' \<inter> X' = {}" "\<And>i. i \<noteq> sid \<Longrightarrow> (i \<in> set Q' \<longleftrightarrow> i \<in> set Q) \<and> (i \<in> X' \<longleftrightarrow> i \<in> X)"
      "sid \<in> set Q' \<longleftrightarrow> sid \<notin> X' \<and> ready s' sid"
    and wait: "\<And>x. sv (xs_signings s') sid = Some x \<Longrightarrow> sgn_Status x = SIGNING_STATUS_WAITING \<Longrightarrow> sid \<notin> X' \<Longrightarrow>
         av (xs_attempts s') sid (sgn_CurrentAttempt x) \<noteq> None"
    and retry: "sid \<in> X' \<Longrightarrow> \<exists>x. sv (xs_signings s') sid = Some x \<and> sgn_Status x = SIGNING_STATUS_WAITING \<and>
        (\<forall>sa. av (xs_attempts s') sid (sgn_CurrentAttempt x) = Some sa \<longrightarrow> complete s' sid (sgn_CurrentAttempt x) sa)"
  shows "sign_inv k Q' X' s'"
proof -
  note i = sign_invD [OF inv]
  have o: "sv (xs_signings s') j = sv (xs_signings s) j" "av (xs_attempts s') j = av (xs_attempts s) j"
    "npv (xs_psig_count s') j = npv (xs_psig_count s) j" "fits t \<Longrightarrow> psv (xs_psigs s') (j, t) = psv (xs_psigs s) (j, t)"
    if "fits j" "j \<noteq> sid" for j t using other [OF that] by (simp_all add: same_views_def)
  have oc: "complete s' j att sa = complete s j att sa" if "fits j" "j \<noteq> sid" for j att sa by (simp add: complete_def o [OF that])
  have sv': "sv (xs_signings s) j = Some x \<and> fits j" if "sv (xs_signings s') j = Some x" "j \<noteq> sid" for j x
    using that view_fits(2) o(1) by metis
  have a_ok: "signing_ok (xk_curve k) (gv (xs_groups s')) j x" if x: "sv (xs_signings s') j = Some x" for j x
  proof (cases "j = sid")
    case False
    then have "signing_ok (xk_curve k) (gv (xs_groups s)) j x" using i(5) sv' x by metis
    then show ?thesis using kept unfolding signing_ok_def active_kept_def by metis
  qed (use x me in simp)
  have a_at: "attempt_at k s' j att sa" if "fits j" "av (xs_attempts s') j att = Some sa" for j att sa
  proof (cases "j = sid")
    case False
    then have old: "av (xs_attempts s) j att = Some sa" using that o(2) by simp
    show ?thesis by (rule attempt_at_frame [OF i(9) [OF that(1) old] kept i(5)]) (use o False that(1) view_fits(4) [OF old] in simp_all)
  qed (use at that in simp)
  have a_none: "dom (psv (xs_psigs s') (j, att)) = {} \<and> npv (xs_psig_count s') j att = None"
    if "fits j" "fits att" "av (xs_attempts s') j att = None" for j att
    using that none i(10) o [of j] by (cases "j = sid") simp_all
  have a_Q: "j \<in> set Q' \<longleftrightarrow> j \<notin> X' \<and> ready s' j" for j
  proof (cases "j = sid")
    case False
    have "ready s' j \<longleftrightarrow> ready s j"
    proof (cases "fits j")
      case False
      then show ?thesis using view_fits(2) unfolding ready_def by metis
    qed (use ready_same other \<open>j \<noteq> sid\<close> in blast)
    then show ?thesis using i(13) [of j, folded ready_def] Q(3) [OF False] by simp
  qed (use Q(4) in simp)
  have a_wait: "av (xs_attempts s') j (sgn_CurrentAttempt x) \<noteq> None"
    if "sv (xs_signings s') j = Some x" "sgn_Status x = SIGNING_STATUS_WAITING" "j \<notin> X'" for j x
  proof (cases "j = sid")
    case False
    then show ?thesis using i(14) that sv' [OF that(1) False] Q(3) [OF False] o(2) by metis
  qed (use wait that in simp)
  have a_retry: "\<exists>x. sv (xs_signings s') j = Some x \<and> sgn_Status x = SIGNING_STATUS_WAITING \<and>
        (\<forall>sa. av (xs_attempts s') j (sgn_CurrentAttempt x) = Some sa \<longrightarrow> complete s' j (sgn_CurrentAttempt x) sa)" if "j \<in> X'" for j
  proof (cases "j = sid")
    case False
    then have "j \<in> X" using Q(3) that by blast
    from i(15) [OF this] show ?thesis using o(1,2) [OF _ False] oc [OF _ False] view_fits(2) by metis
  qed (use retry that in simp)
  show ?thesis unfolding sign_inv_def ready_def [symmetric]
    apply (intro conjI)
    subgoal by (rule tabs(1))
    subgoal by (rule tabs(2))
    subgoal by (rule dom(1))
    subgoal by (rule dom(2))
    subgoal by (intro allI impI a_ok)
    subgoal by (rule ex(1))
    subgoal by (intro ballI ex(2))
    subgoal by (intro allI impI ex(3))
    subgoal by (intro allI impI a_at)
    subgoal by (intro allI impI a_none)
    subgoal by (rule Q(1))
    subgoal by (rule Q(2))
    subgoal by (rule allI, rule a_Q)
    subgoal by (intro allI impI a_wait)
    subgoal by (rule ballI, rule a_retry)
    done
qed

end
