(* ===== verification/Xtss_Round.thy ===== *)
theory Xtss_Round
  imports Xtss_Sign
begin

text \<open>
  Signings from the request to the last round: new rounds, partial signatures, aggregation, failure and timeouts keep the invariant.
\<close>

section \<open>Frame of signing\<close>

definition same_dkg :: "'w tss_state \<Rightarrow> 'w tss_state \<Rightarrow> bool" where
  "same_dkg s s' \<longleftrightarrow> xs_params s' = xs_params s \<and> xs_group_count s' = xs_group_count s \<and> xs_pending_groups s' = xs_pending_groups s \<and>
     xs_last_expired s' = xs_last_expired s \<and> xs_groups s' = xs_groups s \<and> xs_members s' = xs_members s \<and> xs_dkg s' = xs_dkg s \<and>
     xs_round1 s' = xs_round1 s \<and> xs_round1_count s' = xs_round1_count s \<and> xs_acc s' = xs_acc s \<and> xs_round2 s' = xs_round2 s \<and>
     xs_round2_count s' = xs_round2_count s \<and> xs_complains s' = xs_complains s \<and> xs_confirms s' = xs_confirms s \<and>
     xs_cc_count s' = xs_cc_count s"

lemma same_dkg_refl [simp]: "same_dkg s s"
  by (simp add: same_dkg_def)

lemma same_dkg_trans: "same_dkg s t \<Longrightarrow> same_dkg t u \<Longrightarrow> same_dkg s u"
  by (simp add: same_dkg_def)

lemma same_dkg_inv: "dkg_inv k P s \<Longrightarrow> same_dkg s s' \<Longrightarrow> dkg_inv k P s'"
  unfolding same_dkg_def dkg_inv_def dkg_at_def done_at_def by simp

lemma same_dkg_kept: "same_dkg s s' \<Longrightarrow> active_kept s s'"
  unfolding same_dkg_def active_kept_def by simp

section \<open>Members of a round\<close>

lemma bind_nonces_keep:
  "mapE (bind_nonce k msg b) ams = Inr ams' \<Longrightarrow>
   map am_MemberID ams' = map am_MemberID ams \<and> map am_Address ams' = map am_Address ams \<and> map am_PubKey ams' = map am_PubKey ams"
  by (induction ams arbitrary: ams') (auto simp: bind_nonce_def)

lemma AssignMembersForSigning_spec:
  assumes laws: "address_laws (xk_sdk k)" and de: "de_inv k s"
    and mem: "members_inv (xk_sdk k) (xs_groups s) (xs_members s)" and g: "gv (xs_groups s) gid = Some g"
    and ok: "AssignMembersForSigning k ctx s gid msg nonce = Inr (ams, s')"
  shows "(\<exists>D Q. s' = s\<lparr>xs_de := D, xs_deq := Q\<rparr>) \<and> de_inv k s' \<and>
    attempt_ok (xk_sdk k) g (mv (xs_members s) gid) \<lparr>sa_SigningID = i, sa_Attempt = j, sa_ExpiredHeight = h, sa_AssignedMembers = ams\<rparr>"
proof -
  obtain sel des b where sel: "GetRandomMembers k ctx s gid nonce = Inr sel" and des: "DequeueDEs k s sel = Inr (des, s')"
    and b: "mapE (bind_nonce k msg b) (map (\<lambda>(i, member). NewAssignedMember member (des ! i) [] []) (enumerate 0 sel)) = Inr ams"
    using ok by (auto simp: AssignMembersForSigning_def Let_def)
  note m = GetRandomMembers_spec [OF mem g sel] and d = DequeueDEs_spec [OF laws de des]
  have "map (f \<circ> (\<lambda>(i, member). NewAssignedMember member (des ! i) [] [])) (enumerate 0 sel) = map h sel"
    if "\<And>m d. f (NewAssignedMember m d [] []) = h m" for f :: "AssignedMember \<Rightarrow> 'z" and h
    by (rule nth_equalityI) (auto simp: that nth_enumerate_eq)
  note e = this [of am_MemberID mem_ID] this [of am_Address mem_Address] this [of am_PubKey mem_PubKey]
  have a: "map am_MemberID ams = map mem_ID sel" "map am_Address ams = map mem_Address sel" "map am_PubKey ams = map mem_PubKey sel"
    using bind_nonces_keep [OF b] e by (simp_all add: NewAssignedMember_def)
  have len: "length ams = length sel" using a(1) by (metis length_map)
  have "\<exists>m. mv (xs_members s) gid (am_MemberID am) = Some m \<and> am_PubKey am = mem_PubKey m \<and> am_Address am = mem_Address m"
    if am: "am \<in> set ams" for am
  proof -
    obtain n where n: "n < length ams" "ams ! n = am" using am by (metis in_set_conv_nth)
    then have "am_MemberID am = mem_ID (sel ! n) \<and> am_Address am = mem_Address (sel ! n) \<and> am_PubKey am = mem_PubKey (sel ! n)"
      using a len by (metis nth_map)
    then show ?thesis using m n(1) len by (intro exI [of _ "sel ! n"]) (simp add: nth_mem)
  qed
  then show ?thesis using d m a(1) len unfolding attempt_ok_def ids_of_def by simp
qed

section \<open>New rounds\<close>

lemma tss_GetSigning_iff: "fits sid \<Longrightarrow> tss_GetSigning s sid = Inr x \<longleftrightarrow> sv (xs_signings s) sid = Some x"
  by (simp add: tss_GetSigning_def get_views split: option.splits)

lemma MustGetSigning_iff: "fits sid \<Longrightarrow> MustGetSigning s sid = Inr x \<longleftrightarrow> sv (xs_signings s) sid = Some x"
  by (simp add: MustGetSigning_def tss_GetSigning_iff)

lemma GetSigningAttempt_iff: "fits t \<Longrightarrow> GetSigningAttempt s sid t = Inr x \<longleftrightarrow> av (xs_attempts s) sid t = Some x"
  by (simp add: GetSigningAttempt_def get_views split: option.splits)

lemma attempt_atD:
  assumes "attempt_at k s sid att sa" "sv (xs_signings s) sid = Some x"
  obtains g where "sa_SigningID sa = sid" "sa_Attempt sa = att" "gv (xs_groups s) (sgn_GroupID x) = Some g" "1 \<le> att"
    "att \<le> sgn_CurrentAttempt x" "attempt_ok (xk_sdk k) g (mv (xs_members s) (sgn_GroupID x)) sa"
    "dom (psv (xs_psigs s) (sid, att)) \<subseteq> set (ids_of sa)"
    "cnt (npv (xs_psig_count s) sid att) = card (dom (psv (xs_psigs s) (sid, att)))"
    "att = sgn_CurrentAttempt x \<and> sgn_Status x = SIGNING_STATUS_WAITING \<or> complete s sid att sa"
    "att = sgn_CurrentAttempt x \<longrightarrow>
       ComputeGroupPublicNonce (xk_curve k) (map am_PubNonce (sa_AssignedMembers sa)) = Inr (sgn_GroupPubNonce x) \<and>
       (\<forall>mid sig. psv (xs_psigs s) (sid, att) mid = Some sig \<longrightarrow> psig_ok (xk_curve k) x sa mid sig)"
  using assms unfolding attempt_at_def by auto

lemma active_threshold:
  assumes "dkg_inv k P s" "gv (xs_groups s) gid = Some g" "grp_Status g = GROUP_STATUS_ACTIVE"
  shows "1 \<le> grp_Threshold g"
proof -
  obtain c where "keyed (xk_curve k) c g (mv (xs_members s) gid) {1..grp_Size g}"
    using dkg_invD(5) [OF assms(1,2)] assms(3) by (auto simp: dkg_at_def dkg_group.simps)
  then show ?thesis unfolding keyed_def by (cases c) auto
qed

lemma InitiateNewSigningRound_inv:
  assumes laws: "address_laws (xk_sdk k)" and par: "tss_params_ok (xs_params s)"
    and dkg: "dkg_inv k P s" and de: "de_inv k s" and inv: "sign_inv k Q X s" and sid: "sid \<in> X"
    and ok: "InitiateNewSigningRound k ctx s sid = Inr s'"
  shows "same_dkg s s'" "de_inv k s'" "sign_inv k Q (X - {sid}) s'" "xs_signing_count s' = xs_signing_count s"
    "xs_pending_signings s' = xs_pending_signings s" "xs_world s' = xs_world s"
proof -
  note i = sign_invD [OF inv]
  obtain x where x: "sv (xs_signings s) sid = Some x" "sgn_Status x = SIGNING_STATUS_WAITING"
    and cm: "\<forall>sa. av (xs_attempts s) sid (sgn_CurrentAttempt x) = Some sa \<longrightarrow> complete s sid (sgn_CurrentAttempt x) sa"
    using i(15) [OF sid] by blast
  have fs: "fits sid" using view_fits(2) [OF x(1)] .
  note xo = signing_okD [OF i(5) [OF x(1)]]
  obtain g where g: "gv (xs_groups s) (sgn_GroupID x) = Some g" "grp_Status g = GROUP_STATUS_ACTIVE" "sgn_GroupPubKey x = grp_PubKey g"
    using xo(4) by blast
  let ?n = "sgn_CurrentAttempt x + 1"
  have u: "u64 ?n = ?n" using xo(2) by simp
  obtain ams t gn where n: "?n \<le> xp_MaxSigningAttempt (xs_params s)"
    and t: "AssignMembersForSigning k ctx s (sgn_GroupID x) (sgn_Message x) (be_bytes 8 sid @ be_bytes 8 ?n) = Inr (ams, t)"
    and gn: "ComputeGroupPublicNonce (xk_curve k) (map am_PubNonce ams) = Inr gn"
    and s': "s' = AddSigningExpiration (SetSigning (SetSigningAttempt t \<lparr>sa_SigningID = sid, sa_Attempt = ?n,
        sa_ExpiredHeight = u64 (to_uint64 (xc_BlockHeight ctx) + xp_SigningPeriod (xs_params s)), sa_AssignedMembers = ams\<rparr>)
        (x\<lparr>sgn_CurrentAttempt := ?n, sgn_GroupPubNonce := gn, sgn_Status := SIGNING_STATUS_WAITING\<rparr>)) (sgn_ID x) ?n"
    using ok x(1) fs by (auto simp: InitiateNewSigningRound_def tss_GetSigning_iff Let_def u [simplified] split: if_splits)
  define sa where "sa = \<lparr>sa_SigningID = sid, sa_Attempt = ?n,
        sa_ExpiredHeight = u64 (to_uint64 (xc_BlockHeight ctx) + xp_SigningPeriod (xs_params s)), sa_AssignedMembers = ams\<rparr>"
  define y where "y = x\<lparr>sgn_CurrentAttempt := ?n, sgn_GroupPubNonce := gn, sgn_Status := SIGNING_STATUS_WAITING\<rparr>"
  have ys: "sgn_CurrentAttempt y = ?n" "sgn_GroupID y = sgn_GroupID x" "sgn_Status y = SIGNING_STATUS_WAITING" "sgn_ID y = sid"
    "sgn_GroupPubNonce y = gn" "sgn_GroupPubKey y = sgn_GroupPubKey x" using xo(1) by (simp_all add: y_def)
  obtain D dq where D: "t = s\<lparr>xs_de := D, xs_deq := dq\<rparr>" and det: "de_inv k t"
    and ao: "attempt_ok (xk_sdk k) g (mv (xs_members s) (sgn_GroupID x)) sa"
    using AssignMembersForSigning_spec [OF laws de dkg_invD(2) [OF dkg] g(1) t] unfolding sa_def by blast
  have S': "s' = s\<lparr>xs_de := D, xs_deq := dq, xs_attempts := kv_set (xs_attempts s) (SigningAttemptStoreKey sid ?n) sa,
      xs_signings := kv_set (xs_signings s) (SigningStoreKey sid) y,
      xs_expirations := xs_expirations s @ [\<lparr>se_SigningID = sid, se_SigningAttempt = ?n\<rparr>]\<rparr>"
    unfolding s' D sa_def y_def by (simp add: AddSigningExpiration_def SetSigning_def SetSigningAttempt_def xo(1))
  show sd: "same_dkg s s'" "xs_signing_count s' = xs_signing_count s" "xs_pending_signings s' = xs_pending_signings s" "xs_world s' = xs_world s"
    unfolding S' by (simp_all add: same_dkg_def)
  show "de_inv k s'" using det unfolding S' D by (simp add: de_inv_def GetDEQueue_def)
  have f1: "fits ?n" and f2: "fits (?n + 1)"
    using xo(2) n par fits_le [of "xp_MaxSigningAttempt (xs_params s) + 1" "?n + 1"] by (auto simp: tss_params_ok_def)
  have none: "av (xs_attempts s) sid ?n = None"
  proof (rule ccontr)
    assume "av (xs_attempts s) sid ?n \<noteq> None"
    then obtain sb where "av (xs_attempts s) sid ?n = Some sb" by blast
    from i(9) [OF fs this] x(1) show False by (auto elim!: attempt_atD)
  qed
  have emp: "dom (psv (xs_psigs s) (sid, ?n)) = {}" "npv (xs_psig_count s) sid ?n = None" using i(10) [OF fs f1 none] by simp_all
  have V: "sv (xs_signings s') = (sv (xs_signings s))(sid \<mapsto> y)" "xs_psigs s' = xs_psigs s" "xs_psig_count s' = xs_psig_count s"
    "xs_groups s' = xs_groups s" "xs_members s' = xs_members s"
    "xs_expirations s' = xs_expirations s @ [\<lparr>se_SigningID = sid, se_SigningAttempt = ?n\<rparr>]"
    unfolding S' using fs by simp_all
  have A: "av (xs_attempts s') j = (if j = sid then (av (xs_attempts s) sid)(?n \<mapsto> sa) else av (xs_attempts s) j)" if "fits j" for j
    unfolding S' using fs f1 that by simp
  have nc: "\<not> complete s' sid ?n sa"
    using active_threshold [OF dkg g(1,2)] ao unfolding complete_def V emp(2) attempt_ok_def by simp
  have sQ: "sid \<notin> set Q" using i(12) sid by blast
  show "sign_inv k Q (X - {sid}) s'"
  proof (rule sign_inv_change [OF inv same_dkg_kept [OF sd(1)], where sid = sid])
    show "same_views s s' j" if "fits j" "j \<noteq> sid" for j using that A [OF that(1)] V by (simp add: same_views_def)
    show "kv_ok (xs_psigs s')" "wf_keys psigs_pre fits2 (xs_psigs s')" "fits (xs_signing_count s')" using i(1-3) V sd(2) by simp_all
    show "dom (sv (xs_signings s')) = {1..xs_signing_count s'}" using i(4) x(1) unfolding V(1) sd(2) by auto
    show "signing_ok (xk_curve k) (gv (xs_groups s')) sid z" if "sv (xs_signings s') sid = Some z" for z
      using that f2 g ys unfolding V(1,4) signing_ok_def by auto
    have ni: "\<lparr>se_SigningID = sid, se_SigningAttempt = ?n\<rparr> \<notin> set (xs_expirations s)" using i(8) [OF fs f1] none by simp
    show "distinct (xs_expirations s')" using i(6) ni unfolding V(6) by simp
    show "fits (se_SigningID e) \<and> fits (se_SigningAttempt e)" if "e \<in> set (xs_expirations s')" for e
      using that i(7) fs f1 unfolding V(6) by auto
    show "\<lparr>se_SigningID = j, se_SigningAttempt = att\<rparr> \<in> set (xs_expirations s') \<longleftrightarrow> av (xs_attempts s') j att \<noteq> None"
      if "fits j" "fits att" for j att
      using i(8) [OF that] A [OF that(1)] unfolding V(6) by auto
    show "attempt_at k s' sid att sb" if "av (xs_attempts s') sid att = Some sb" for att sb
    proof (cases "att = ?n")
      case True
      then have sb: "sb = sa" using that A [OF fs] by simp
      show ?thesis unfolding attempt_at_def sb True V using emp ao gn g ys f1 by (simp add: sa_def)
    next
      case False
      then have old: "av (xs_attempts s) sid att = Some sb" using that A [OF fs] by simp
      show ?thesis
      proof (rule attempt_atD [OF i(9) [OF fs old] x(1)])
        fix g' assume a: "sa_SigningID sb = sid" "sa_Attempt sb = att" "gv (xs_groups s) (sgn_GroupID x) = Some g'" "1 \<le> att"
          "att \<le> sgn_CurrentAttempt x" "attempt_ok (xk_sdk k) g' (mv (xs_members s) (sgn_GroupID x)) sb"
          "dom (psv (xs_psigs s) (sid, att)) \<subseteq> set (ids_of sb)"
          "cnt (npv (xs_psig_count s) sid att) = card (dom (psv (xs_psigs s) (sid, att)))"
          "att = sgn_CurrentAttempt x \<and> sgn_Status x = SIGNING_STATUS_WAITING \<or> complete s sid att sb"
        have "complete s' sid att sb" using a(9) cm old unfolding complete_def V by auto
        then show ?thesis unfolding attempt_at_def V using a ys by simp
      qed
    qed
    show "dom (psv (xs_psigs s') (sid, att)) = {} \<and> npv (xs_psig_count s') sid att = None"
      if "fits att" "av (xs_attempts s') sid att = None" for att
      using i(10) [OF fs that(1)] that A [OF fs] unfolding V by (auto split: if_splits)
    show "distinct Q" "set Q \<inter> (X - {sid}) = {}" using i(11,12) by auto
    show "(j \<in> set Q \<longleftrightarrow> j \<in> set Q) \<and> (j \<in> X - {sid} \<longleftrightarrow> j \<in> X)" if "j \<noteq> sid" for j using that by simp
    show "sid \<in> set Q \<longleftrightarrow> sid \<notin> X - {sid} \<and> ready s' sid" using sQ nc A [OF fs] ys unfolding ready_def V(1) by simp
    show "av (xs_attempts s') sid (sgn_CurrentAttempt z) \<noteq> None" if "sv (xs_signings s') sid = Some z" for z
      using that A [OF fs] ys unfolding V(1) by simp
  qed simp
qed

section \<open>Requests\<close>

lemma CreateSigning_inv:
  assumes inv: "sign_inv k Q X s" and f: "fits gid" "fits (xs_signing_count s + 1)"
    and ok: "CreateSigning k ctx s gid originator msg = Inr (sid, s')"
  shows "same_dkg s s'" "sid = xs_signing_count s + 1" "sid \<notin> X" "sign_inv k Q (insert sid X) s'"
    "xs_signing_count s' = xs_signing_count s + 1" "xs_de s' = xs_de s" "xs_deq s' = xs_deq s"
    "xs_pending_signings s' = xs_pending_signings s" "xs_world s' = xs_world s"
proof -
  note i = sign_invD [OF inv]
  let ?n = "xs_signing_count s + 1"
  have u: "u64 ?n = ?n" using f(2) by simp
  obtain g where g: "gv (xs_groups s) gid = Some g" "grp_Status g = GROUP_STATUS_ACTIVE" and sid: "sid = ?n"
    using ok f(1) u by (auto simp: CreateSigning_def Let_def GetGroup_iff split: if_splits)
  define y where "y = \<lparr>sgn_ID = ?n, sgn_CurrentAttempt = 0, sgn_GroupID = gid, sgn_GroupPubKey = grp_PubKey g,
    sgn_Message = EncodeSigning (xk_curve k) (xc_BlockTime ctx) ?n originator msg, sgn_GroupPubNonce = [], sgn_Signature = [],
    sgn_Status = SIGNING_STATUS_WAITING, sgn_CreatedHeight = to_uint64 (xc_BlockHeight ctx), sgn_CreatedTimestamp = xc_BlockTime ctx\<rparr>"
  have y: "sgn_ID y = ?n" "sgn_CurrentAttempt y = 0" "sgn_GroupID y = gid" "sgn_GroupPubKey y = grp_PubKey g"
      "sgn_Status y = SIGNING_STATUS_WAITING" by (simp_all add: y_def)
  have s': "s' = (SetSigning s y)\<lparr>xs_signing_count := ?n\<rparr>"
    using ok f(1) g u [simplified] by (auto simp: CreateSigning_def Let_def GetGroup_def get_views y_def split: if_splits)
  have S: "s' = s\<lparr>xs_signings := kv_set (xs_signings s) (SigningStoreKey ?n) y, xs_signing_count := ?n\<rparr>"
    unfolding s' by (simp add: SetSigning_def y(1))
  show sd: "same_dkg s s'" "xs_signing_count s' = ?n" "xs_de s' = xs_de s" "xs_deq s' = xs_deq s"
    "xs_pending_signings s' = xs_pending_signings s" "xs_world s' = xs_world s" unfolding S by (simp_all add: same_dkg_def)
  show "sid = ?n" by (rule sid)
  have new: "sv (xs_signings s) ?n = None" using i(4) by (metis atLeastAtMost_iff domIff add_le_same_cancel1 not_one_le_zero)
  show sX: "sid \<notin> X" using i(15) [of ?n] new sid by auto
  have noatt: "av (xs_attempts s) ?n att = None" for att
  proof (rule ccontr)
    assume "av (xs_attempts s) ?n att \<noteq> None"
    then obtain sa where "av (xs_attempts s) ?n att = Some sa" by blast
    from i(9) [OF f(2) this] new show False unfolding attempt_at_def by simp
  qed
  have V: "sv (xs_signings s') = (sv (xs_signings s))(?n \<mapsto> y)" "xs_psigs s' = xs_psigs s" "xs_psig_count s' = xs_psig_count s"
    "xs_groups s' = xs_groups s" "xs_attempts s' = xs_attempts s" "xs_expirations s' = xs_expirations s"
    unfolding S using f(2) by (simp_all del: Suc_eq_plus1 add: sv_set [OF f(2), simplified])
  have sQ: "?n \<notin> set Q" using i(13) [of ?n] new by simp
  show "sign_inv k Q (insert sid X) s'" unfolding sid
  proof (rule sign_inv_change [OF inv same_dkg_kept [OF sd(1)], where sid = ?n])
    show "same_views s s' j" if "j \<noteq> ?n" for j using that V by (simp add: same_views_def)
    show "kv_ok (xs_psigs s')" "wf_keys psigs_pre fits2 (xs_psigs s')" "fits (xs_signing_count s')" using i(1,2) V sd(2) f(2) by simp_all
    show "dom (sv (xs_signings s')) = {1..xs_signing_count s'}" using i(4) unfolding V(1) sd(2) by auto
    show "signing_ok (xk_curve k) (gv (xs_groups s')) ?n z" if "sv (xs_signings s') ?n = Some z" for z
      using that g y unfolding V(1,4) signing_ok_def by (auto simp: fits_def)
    show "distinct (xs_expirations s')" "\<And>e. e \<in> set (xs_expirations s') \<Longrightarrow> fits (se_SigningID e) \<and> fits (se_SigningAttempt e)"
      using i(6,7) V by simp_all
    show "\<lparr>se_SigningID = j, se_SigningAttempt = att\<rparr> \<in> set (xs_expirations s') \<longleftrightarrow> av (xs_attempts s') j att \<noteq> None"
      if "fits j" "fits att" for j att using i(8) [OF that] V by simp
    show "attempt_at k s' ?n att sa" if "av (xs_attempts s') ?n att = Some sa" for att sa using that noatt V by simp
    show "dom (psv (xs_psigs s') (?n, att)) = {} \<and> npv (xs_psig_count s') ?n att = None" if "fits att" for att
      using i(10) [OF f(2) that noatt] V by simp
    show "distinct Q" "set Q \<inter> insert ?n X = {}" using i(11,12) sQ by auto
    show "(j \<in> set Q \<longleftrightarrow> j \<in> set Q) \<and> (j \<in> insert ?n X \<longleftrightarrow> j \<in> X)" if "j \<noteq> ?n" for j using that by simp
    show "?n \<in> set Q \<longleftrightarrow> ?n \<notin> insert ?n X \<and> ready s' ?n" using sQ by simp
    show "\<exists>x. sv (xs_signings s') ?n = Some x \<and> sgn_Status x = SIGNING_STATUS_WAITING \<and>
        (\<forall>sa. av (xs_attempts s') ?n (sgn_CurrentAttempt x) = Some sa \<longrightarrow> complete s' ?n (sgn_CurrentAttempt x) sa)"
      using y noatt V by simp
  qed simp
qed

lemma tss_RequestSigning_inv:
  assumes laws: "address_laws (xk_sdk k)" and par: "tss_params_ok (xs_params s)" and dkg: "dkg_inv k P s" and de: "de_inv k s"
    and inv: "sign_inv k Q X s" and f: "fits gid" "fits (xs_signing_count s + 1)"
    and ok: "tss_RequestSigning k ctx s gid originator content = Inr (sid, s')"
  shows "same_dkg s s'" "de_inv k s'" "sign_inv k Q X s'" "xs_signing_count s' = xs_signing_count s + 1"
    "xs_pending_signings s' = xs_pending_signings s" "xs_world s' = xs_world s"
proof -
  obtain msg bz t where t: "CreateSigning k ctx s gid bz msg = Inr (sid, t)" and s': "InitiateNewSigningRound k ctx t sid = Inr s'"
    using ok by (auto simp: tss_RequestSigning_def split: if_splits)
  note c = CreateSigning_inv [OF inv f t]
  have "de_inv k t" using de c(6,7) by (simp add: de_inv_def GetDEQueue_def)
  moreover have "tss_params_ok (xs_params t)" using par c(1) by (simp add: same_dkg_def)
  ultimately have n: "same_dkg t s'" "de_inv k s'" "sign_inv k Q (insert sid X - {sid}) s'" "xs_signing_count s' = xs_signing_count t"
      "xs_pending_signings s' = xs_pending_signings t" "xs_world s' = xs_world t"
    using InitiateNewSigningRound_inv [OF laws _ same_dkg_inv [OF dkg c(1)] _ c(4) _ s'] by simp_all
  show "same_dkg s s'" using c(1) n(1) by (rule same_dkg_trans)
  show "sign_inv k Q X s'" using n(3) c(3) by (simp add: Diff_insert_absorb)
  show "de_inv k s'" "xs_signing_count s' = xs_signing_count s + 1" "xs_pending_signings s' = xs_pending_signings s" "xs_world s' = xs_world s"
    using n(2,4-6) c(5,8,9) by simp_all
qed

section \<open>Partial signatures\<close>

lemma HasPartialSignature_iff: "fits i \<Longrightarrow> HasPartialSignature s sid t i \<longleftrightarrow> psv (xs_psigs s) (sid, t) i \<noteq> None"
  by (simp add: HasPartialSignature_def kv_has_def get_views)

lemma GetPartialSignatureCount_iff: "fits t \<Longrightarrow> GetPartialSignatureCount s sid t = cnt (npv (xs_psig_count s) sid t)"
  by (simp add: GetPartialSignatureCount_def counter_def cnt_def get_views)

lemma find_SomeD: "find P xs = Some x \<Longrightarrow> x \<in> set xs \<and> P x"
  by (auto simp: find_Some_iff)

lemma attempt_ids:
  assumes "attempt_ok sdk g mem sa"
  shows "distinct (ids_of sa)" "card (set (ids_of sa)) = grp_Threshold g" "length (sa_AssignedMembers sa) = grp_Threshold g"
proof -
  show d: "distinct (ids_of sa)" using assms unfolding attempt_ok_def by (simp add: strict_sorted_iff)
  show l: "length (sa_AssignedMembers sa) = grp_Threshold g" using assms unfolding attempt_ok_def by simp
  show "card (set (ids_of sa)) = grp_Threshold g" using distinct_card [OF d] l by (simp add: ids_of_def)
qed

lemma SubmitSignature_inv:
  assumes dkg: "dkg_inv k P s" and inv: "sign_inv k (xs_pending_signings s) {} s"
    and f: "fits (mss_SigningID req)" "fits (mss_MemberID req)"
    and vb: "MsgSubmitSignature_ValidateBasic (xk_sdk k) (xk_curve k) req = Inr ()"
    and ok: "SubmitSignature k s req = Inr s'"
  shows "same_dkg s s'" "sign_inv k (xs_pending_signings s') {} s'" "xs_de s' = xs_de s" "xs_deq s' = xs_deq s"
    "xs_signing_count s' = xs_signing_count s"
proof -
  define sid mid sig where "sid = mss_SigningID req" and "mid = mss_MemberID req" and "sig = mss_Signature req"
  note i = sign_invD [OF inv]
  note fs = f(1) [folded sid_def] and fm = f(2) [folded mid_def]
  obtain x where x: "sv (xs_signings s) sid = Some x" "sgn_Status x = SIGNING_STATUS_WAITING"
    using ok fs by (auto simp: SubmitSignature_def Let_def tss_GetSigning_iff sid_def split: if_splits)
  let ?n = "sgn_CurrentAttempt x"
  note xo = signing_okD [OF i(5) [OF x(1)]]
  obtain sa where sa: "av (xs_attempts s) sid ?n = Some sa"
    using ok fs x xo(3) by (auto simp: SubmitSignature_def Let_def tss_GetSigning_iff GetSigningAttempt_iff sid_def split: if_splits)
  obtain g where sa': "sa_SigningID sa = sid" "sa_Attempt sa = ?n" "gv (xs_groups s) (sgn_GroupID x) = Some g" "1 \<le> ?n"
      "attempt_ok (xk_sdk k) g (mv (xs_members s) (sgn_GroupID x)) sa" "dom (psv (xs_psigs s) (sid, ?n)) \<subseteq> set (ids_of sa)"
      "cnt (npv (xs_psig_count s) sid ?n) = card (dom (psv (xs_psigs s) (sid, ?n)))"
      "ComputeGroupPublicNonce (xk_curve k) (map am_PubNonce (sa_AssignedMembers sa)) = Inr (sgn_GroupPubNonce x)"
      "\<And>mid sig. psv (xs_psigs s) (sid, ?n) mid = Some sig \<Longrightarrow> psig_ok (xk_curve k) x sa mid sig"
    by (rule attempt_atD [OF i(9) [OF fs sa] x(1)]) blast
  obtain am lag where am: "find (\<lambda>am. mid = am_MemberID am) (sa_AssignedMembers sa) = Some am" and R: "Signature_R sig = am_PubNonce am"
    and new: "psv (xs_psigs s) (sid, ?n) mid = None"
    and lag: "ComputeLagrangeCoefficient mid (map am_MemberID (sa_AssignedMembers sa)) = Inr lag"
    and ver: "VerifySigningSignature (xk_curve k) (sgn_GroupPubNonce x) (sgn_GroupPubKey x) (sgn_Message x) lag sig (am_PubKey am) = Inr ()"
    and s': "s' = (let s = AddPartialSignature s sid ?n mid sig in
      if GetPartialSignatureCount s sid ?n = length (sa_AssignedMembers sa) then AddPendingProcessSigning s sid else s)"
    using ok fs fm x sa xo(3) sa'(2)
    by (auto simp: SubmitSignature_def Let_def tss_GetSigning_iff GetSigningAttempt_iff HasPartialSignature_iff FindAssignedMember_def
        VerifySignatureR_def sid_def [symmetric] mid_def [symmetric] sig_def [symmetric] split: if_splits option.splits)
  have am': "am \<in> set (sa_AssignedMembers sa)" "am_MemberID am = mid" using find_SomeD [OF am] by simp_all
  have sv: "Signature_Validate (xk_curve k) sig = Inr ()"
    using vb by (auto simp: MsgSubmitSignature_ValidateBasic_def sig_def split: if_splits)
  let ?P = "psv (xs_psigs s) (sid, ?n)" and ?L = "length (sa_AssignedMembers sa)"
  have mid: "mid \<in> set (ids_of sa)" "mid \<notin> dom ?P" using am' new by (auto simp: ids_of_def)
  note ids = attempt_ids [OF sa'(5)]
  have cd: "card (dom ?P) < ?L"
    using psubset_card_mono [of "set (ids_of sa)" "dom ?P"] sa'(6) mid ids(2,3) by auto
  have fL: "fits ?L" using groups_invD(7) [OF dkg_invD(1) [OF dkg] sa'(3)] ids(3) by simp
  have cu: "u64 (card (dom ?P) + 1) = card (dom ?P) + 1" using cd fL by (intro u64_fits(1)) (simp add: fits_def)
  have eq: "xs_psigs s' = kv_set (xs_psigs s) (PartialSignatureStoreKey sid ?n mid) sig"
    "xs_psig_count s' = kv_set (xs_psig_count s) (PartialSignatureCountStoreKey sid ?n) (card (dom ?P) + 1)"
    "xs_signings s' = xs_signings s" "xs_attempts s' = xs_attempts s" "xs_expirations s' = xs_expirations s"
    "xs_pending_signings s' = (if card (dom ?P) + 1 = ?L then xs_pending_signings s @ [sid] else xs_pending_signings s)"
    "xs_signing_count s' = xs_signing_count s" "xs_de s' = xs_de s" "xs_deq s' = xs_deq s" "same_dkg s s'"
    using sa'(7) cu fs xo(3)
    by (auto simp: s' AddPartialSignature_def SetPartialSignature_def AddPartialSignatureCount_def AddPendingProcessSigning_def Let_def
        GetPartialSignatureCount_iff same_dkg_def)
  show "same_dkg s s'" "xs_de s' = xs_de s" "xs_deq s' = xs_deq s" "xs_signing_count s' = xs_signing_count s" by (rule eq)+
  have G: "xs_groups s' = xs_groups s" "xs_members s' = xs_members s" using eq(10) by (simp_all add: same_dkg_def)
  have P: "psv (xs_psigs s') (j, t) = (if j = sid \<and> t = ?n then ?P(mid \<mapsto> sig) else psv (xs_psigs s) (j, t))" if "fits j" "fits t" for j t
    using that fs fm xo(3) by (auto simp: eq(1))
  have C: "npv (xs_psig_count s') j = (if j = sid then (npv (xs_psig_count s) sid)(?n \<mapsto> card (dom ?P) + 1) else npv (xs_psig_count s) j)"
    if "fits j" for j using that fs xo(3) by (simp add: eq(2))
  have cpl: "complete s' sid ?n sa \<longleftrightarrow> card (dom ?P) + 1 = ?L" by (simp add: complete_def C [OF fs])
  have nr: "\<not> ready s sid" using cd sa sa'(7) x unfolding ready_def complete_def by simp
  have np: "sid \<notin> set (xs_pending_signings s)" using i(13) [of sid, folded ready_def] nr by simp
  have pk: "psig_ok (xk_curve k) x sa mid sig"
    unfolding psig_ok_def using am' R sv lag ver by (auto simp: ids_of_def)
  show "sign_inv k (xs_pending_signings s') {} s'"
  proof (rule sign_inv_change [OF inv same_dkg_kept [OF eq(10)], where sid = sid])
    show "same_views s s' j" if "fits j" "j \<noteq> sid" for j
      using that P [OF that(1)] C [OF that(1)] by (simp add: same_views_def eq(3,4))
    show "kv_ok (xs_psigs s')" using i(1) by (simp add: eq(1))
    show "wf_keys psigs_pre fits2 (xs_psigs s')"
      unfolding eq(1) psig_key by (rule wf_keys_set) (use i(2) fs fm xo(3) in \<open>auto simp: fits_def fits2_def\<close>)
    show "fits (xs_signing_count s')" "dom (sv (xs_signings s')) = {1..xs_signing_count s'}" using i(3,4) by (simp_all add: eq)
    show "signing_ok (xk_curve k) (gv (xs_groups s')) sid z" if "sv (xs_signings s') sid = Some z" for z
      using that i(5) by (simp add: eq G)
    show "distinct (xs_expirations s')" "\<And>e. e \<in> set (xs_expirations s') \<Longrightarrow> fits (se_SigningID e) \<and> fits (se_SigningAttempt e)"
      using i(6,7) by (simp_all add: eq)
    show "\<lparr>se_SigningID = j, se_SigningAttempt = att\<rparr> \<in> set (xs_expirations s') \<longleftrightarrow> av (xs_attempts s') j att \<noteq> None"
      if "fits j" "fits att" for j att using i(8) [OF that] by (simp add: eq)
    show "attempt_at k s' sid att sb" if sb: "av (xs_attempts s') sid att = Some sb" for att sb
    proof (cases "att = ?n")
      case True
      have "sb = sa" using sb sa unfolding True by (simp add: eq)
      moreover have "mid' \<noteq> mid \<Longrightarrow> ?P mid' = Some z \<Longrightarrow> psig_ok (xk_curve k) x sa mid' z" for mid' z using sa'(9) by blast
      ultimately show ?thesis unfolding attempt_at_def True eq G using sa' x mid pk P [OF fs xo(3)] C [OF fs]
        by (auto simp: eq)
    next
      case False
      have old: "av (xs_attempts s) sid att = Some sb" using sb by (simp add: eq)
      show ?thesis
        by (rule attempt_at_frame [OF i(9) [OF fs old] same_dkg_kept [OF eq(10)] i(5)])
          (use False P [OF fs view_fits(4) [OF old]] C [OF fs] in \<open>simp_all add: eq\<close>)
    qed
    show "dom (psv (xs_psigs s') (sid, att)) = {} \<and> npv (xs_psig_count s') sid att = None"
      if "fits att" "av (xs_attempts s') sid att = None" for att
    proof -
      have "att \<noteq> ?n" using that(2) sa by (auto simp: eq)
      then show ?thesis using i(10) [OF fs that(1)] that P [OF fs that(1)] C [OF fs] by (simp add: eq)
    qed
    show "distinct (xs_pending_signings s')" using i(11) np by (simp add: eq(6))
    show "(j \<in> set (xs_pending_signings s') \<longleftrightarrow> j \<in> set (xs_pending_signings s)) \<and> (j \<in> {} \<longleftrightarrow> j \<in> {})" if "j \<noteq> sid" for j
      using that by (simp add: eq(6))
    show "sid \<in> set (xs_pending_signings s') \<longleftrightarrow> sid \<notin> {} \<and> ready s' sid"
      using np x sa cpl by (simp add: eq ready_def)
    show "av (xs_attempts s') sid (sgn_CurrentAttempt z) \<noteq> None" if "sv (xs_signings s') sid = Some z" for z
      using that x sa by (simp add: eq)
  qed simp_all
qed

end
