(* ===== verification/Xtss_End.thy ===== *)
theory Xtss_End
  imports Xtss_Round
begin

text \<open>
  The end of a block keeps the invariant, for callbacks that request signatures, change the flags of members and act on other modules.
\<close>

section \<open>Callbacks\<close>

definition requests :: "('p, 'r, 'c, 'w) tss_keeper \<Rightarrow> tss_ctx \<Rightarrow> 'w tss_state \<Rightarrow> 'w tss_state \<Rightarrow> bool" where
  "requests k ctx s s' \<longleftrightarrow>
     (\<exists>t u. touched s t \<and> (u = t \<or> (\<exists>gid originator content sid. fits gid \<and> tss_RequestSigning k ctx t gid originator content = Inr (sid, u))) \<and>
        touched u s')"

definition callbacks_ok :: "('p, 'r, 'c, 'w) tss_keeper \<Rightarrow> bool" where
  "callbacks_ok k \<longleftrightarrow> (\<forall>owner cb ctx s s' i l. CallbackRouter_GetRoute (xk_cbRouter k) owner = Some cb \<longrightarrow>
     members_inv (xk_sdk k) (xs_groups s) (xs_members s) \<longrightarrow>
     (OnGroupCreationCompleted cb ctx s i = Inr s' \<longrightarrow> requests k ctx s s') \<and>
     (OnGroupCreationFailed cb ctx s i = Inr s' \<longrightarrow> touched s s') \<and>
     (OnGroupCreationExpired cb ctx s i = Inr s' \<longrightarrow> touched s s') \<and>
     (OnSigningFailed cb ctx s i = Inr s' \<longrightarrow> touched s s') \<and>
     (OnSigningCompleted cb ctx s i l = Inr s' \<longrightarrow> touched s s') \<and>
     (OnSigningTimeout cb ctx s i l = Inr s' \<longrightarrow> touched s s'))"

lemma touched_refl: "members_inv sdk G (xs_members s) \<Longrightarrow> touched s s"
  unfolding touched_def by (intro exI [of _ "xs_members s"] exI [of _ "xs_world s"]) (auto dest: members_invD(1,2))

lemma with_callback_touched:
  assumes "callbacks_ok k" "members_inv (xk_sdk k) (xs_groups s) (xs_members s)" "with_callback k owner f s = Inr s'"
    and "\<And>cb. f cb = Inr s' \<Longrightarrow> (\<exists>ctx i l. OnGroupCreationFailed cb ctx s i = Inr s' \<or> OnGroupCreationExpired cb ctx s i = Inr s' \<or>
      OnSigningFailed cb ctx s i = Inr s' \<or> OnSigningCompleted cb ctx s i l = Inr s' \<or> OnSigningTimeout cb ctx s i l = Inr s')"
  shows "touched s s'"
proof (cases "CallbackRouter_GetRoute (xk_cbRouter k) owner")
  case None
  then show ?thesis using assms(2,3) touched_refl by (auto simp: with_callback_def)
next
  case (Some cb)
  then have "f cb = Inr s'" using assms(3) by (simp add: with_callback_def)
  from assms(4) [OF this] show ?thesis using assms(1,2) Some unfolding callbacks_ok_def by metis
qed

section \<open>The invariant during the end of a block\<close>

text \<open>\<open>P\<close> and \<open>Q\<close> are the groups and signings still to be processed, \<open>X\<close> the signings to be retried.\<close>

definition block_inv :: "('p, 'r, 'c, 'w) tss_keeper \<Rightarrow> GroupID list \<Rightarrow> SigningID list \<Rightarrow> SigningID set \<Rightarrow> 'w tss_state \<Rightarrow> bool" where
  "block_inv k P Q X s \<longleftrightarrow> tss_params_ok (xs_params s) \<and> dkg_inv k P s \<and> de_inv k s \<and> sign_inv k Q X s"

definition queues :: "'w tss_state \<Rightarrow> GroupID list \<times> SigningID list \<times> uint64" where
  "queues s = (xs_pending_groups s, xs_pending_signings s, xs_signing_count s)"

lemma tss_inv_block: "tss_inv k s \<longleftrightarrow> block_inv k (xs_pending_groups s) (xs_pending_signings s) {} s"
  by (simp add: tss_inv_def block_inv_def)

lemma block_invD:
  assumes "block_inv k P Q X s"
  shows "tss_params_ok (xs_params s)" "dkg_inv k P s" "de_inv k s" "sign_inv k Q X s"
    "members_inv (xk_sdk k) (xs_groups s) (xs_members s)"
  using assms dkg_invD(2) unfolding block_inv_def by blast+

lemma touched_fields: "touched s s' \<Longrightarrow> xs_params s' = xs_params s \<and> queues s' = queues s \<and> xs_groups s' = xs_groups s"
  unfolding touched_def queues_def by auto

lemma touched_block:
  assumes "block_inv k P Q X s" "touched s s'"
  shows "block_inv k P Q X s' \<and> queues s' = queues s"
  using touched_fields [OF assms(2)] block_invD(1) [OF assms(1)] touched_dkg [OF block_invD(2) [OF assms(1)] assms(2)]
    touched_sign [OF block_invD(4) [OF assms(1)] assms(2)] touched_de [OF block_invD(3) [OF assms(1)] assms(2)]
  unfolding block_inv_def by simp

lemma block_inv_frame:
  assumes inv: "block_inv k P Q X s" and "same_signing s s'" "active_kept s s'" "xs_de s' = xs_de s" "xs_deq s' = xs_deq s"
    and "xs_params s' = xs_params s" "dkg_inv k P' s'"
  shows "block_inv k P' Q X s'"
  using assms sign_inv_frame unfolding block_inv_def by (auto simp: de_inv_def GetDEQueue_def)

lemma dkg_inv_queue:
  "dkg_inv k P s \<Longrightarrow> dkg_inv k P (s\<lparr>xs_pending_groups := G\<rparr>)" "dkg_inv k P s \<Longrightarrow> dkg_inv k P (s\<lparr>xs_pending_signings := H\<rparr>)"
  unfolding dkg_inv_def dkg_at_def done_at_def by simp_all

lemma block_inv_queues:
  assumes "block_inv k P Q X s"
  shows "block_inv k P Q X (s\<lparr>xs_pending_groups := G\<rparr>)" "block_inv k P Q X (s\<lparr>xs_pending_signings := H\<rparr>)"
  by (rule block_inv_frame [OF assms] dkg_inv_queue block_invD(2) [OF assms] | simp add: same_signing_def active_kept_def)+

section \<open>The end of a signing\<close>

lemma psig_ok_same:
  "sgn_GroupPubNonce y = sgn_GroupPubNonce x \<Longrightarrow> sgn_GroupPubKey y = sgn_GroupPubKey x \<Longrightarrow> sgn_Message y = sgn_Message x \<Longrightarrow>
   psig_ok c y sa mid sig = psig_ok c x sa mid sig"
  by (simp add: psig_ok_def)

lemma finish_signing:
  assumes inv: "sign_inv k Q X s" and x: "sv (xs_signings s) sid = Some x"
    and same: "sgn_ID y = sgn_ID x" "sgn_CurrentAttempt y = sgn_CurrentAttempt x" "sgn_GroupID y = sgn_GroupID x"
      "sgn_GroupPubNonce y = sgn_GroupPubNonce x" "sgn_GroupPubKey y = sgn_GroupPubKey x" "sgn_Message y = sgn_Message x"
    and fin: "sgn_Status y = SIGNING_STATUS_FALLEN \<or> sgn_Status y = SIGNING_STATUS_SUCCESS \<and>
        VerifyGroupSigningSignature (xk_curve k) (sgn_GroupPubKey y) (sgn_Message y) (sgn_Signature y) = Inr ()"
    and cm: "\<forall>sa. av (xs_attempts s) sid (sgn_CurrentAttempt x) = Some sa \<longrightarrow> complete s sid (sgn_CurrentAttempt x) sa"
    and Q: "distinct Q'" "set Q' = set Q - {sid}"
  shows "sign_inv k Q' (X - {sid}) (SetSigning s y)"
proof -
  note i = sign_invD [OF inv]
  have fs: "fits sid" using view_fits(2) [OF x] .
  note xo = signing_okD [OF i(5) [OF x]]
  let ?s = "SetSigning s y"
  have V: "sv (xs_signings ?s) = (sv (xs_signings s))(sid \<mapsto> y)" using fs same(1) xo(1) by (simp add: SetSigning_def)
  have E: "xs_psigs ?s = xs_psigs s" "xs_psig_count ?s = xs_psig_count s" "xs_groups ?s = xs_groups s" "xs_members ?s = xs_members s"
    "xs_attempts ?s = xs_attempts s" "xs_expirations ?s = xs_expirations s" "xs_signing_count ?s = xs_signing_count s" "same_dkg s ?s"
    by (simp_all add: SetSigning_def same_dkg_def)
  have nw: "sgn_Status y \<noteq> SIGNING_STATUS_WAITING" using fin by auto
  show ?thesis
  proof (rule sign_inv_change [OF inv same_dkg_kept [OF E(8)], where sid = sid])
    show "same_views s ?s j" if "j \<noteq> sid" for j using that V E by (simp add: same_views_def)
    show "kv_ok (xs_psigs ?s)" "wf_keys psigs_pre fits2 (xs_psigs ?s)" "fits (xs_signing_count ?s)" using i(1-3) E by simp_all
    show "dom (sv (xs_signings ?s)) = {1..xs_signing_count ?s}" using i(4) x unfolding V E by auto
    show "signing_ok (xk_curve k) (gv (xs_groups ?s)) sid z" if "sv (xs_signings ?s) sid = Some z" for z
      using that i(5) [OF x] same fin unfolding V E signing_ok_def by auto
    show "distinct (xs_expirations ?s)" "\<And>e. e \<in> set (xs_expirations ?s) \<Longrightarrow> fits (se_SigningID e) \<and> fits (se_SigningAttempt e)"
      using i(6,7) E by simp_all
    show "\<lparr>se_SigningID = j, se_SigningAttempt = att\<rparr> \<in> set (xs_expirations ?s) \<longleftrightarrow> av (xs_attempts ?s) j att \<noteq> None"
      if "fits j" "fits att" for j att using i(8) [OF that] E by simp
    show "attempt_at k ?s sid att sa" if "av (xs_attempts ?s) sid att = Some sa" for att sa
    proof -
      have old: "av (xs_attempts s) sid att = Some sa" using that E by simp
      have "complete s sid att sa" using i(9) [OF fs old] x old cm unfolding attempt_at_def by auto
      then have "complete ?s sid att sa" unfolding complete_def E .
      then show ?thesis using i(9) [OF fs old] x unfolding attempt_at_def V E by (auto simp: same psig_ok_same [OF same(4-6)])
    qed
    show "dom (psv (xs_psigs ?s) (sid, att)) = {} \<and> npv (xs_psig_count ?s) sid att = None"
      if "fits att" "av (xs_attempts ?s) sid att = None" for att using i(10) [OF fs that(1)] that(2) E by simp
    show "distinct Q'" "set Q' \<inter> (X - {sid}) = {}" using Q i(12) by auto
    show "(j \<in> set Q' \<longleftrightarrow> j \<in> set Q) \<and> (j \<in> X - {sid} \<longleftrightarrow> j \<in> X)" if "j \<noteq> sid" for j using that Q(2) by simp
    show "sid \<in> set Q' \<longleftrightarrow> sid \<notin> X - {sid} \<and> ready ?s sid" using Q(2) nw V by (simp add: ready_def)
    show "av (xs_attempts ?s) sid (sgn_CurrentAttempt z) \<noteq> None"
      if "sv (xs_signings ?s) sid = Some z" "sgn_Status z = SIGNING_STATUS_WAITING" for z using that nw V by simp
  qed simp
qed

lemma SetSigning_block:
  assumes "block_inv k P Q X s" "sign_inv k Q' X' (SetSigning s y)"
  shows "block_inv k P Q' X' (SetSigning s y) \<and> queues (SetSigning s y) = queues s"
proof -
  have "same_dkg s (SetSigning s y)" "queues (SetSigning s y) = queues s" "xs_de (SetSigning s y) = xs_de s" "xs_deq (SetSigning s y) = xs_deq s"
    by (simp_all add: SetSigning_def same_dkg_def queues_def)
  then show ?thesis using assms same_dkg_inv unfolding block_inv_def by (auto simp: de_inv_def GetDEQueue_def same_dkg_def)
qed

lemma AggregatePartialSignatures_inv:
  assumes cb: "callbacks_ok k" and inv: "block_inv k P (sid # Q) X s" and ok: "AggregatePartialSignatures k ctx s sid = Inr s'"
  shows "block_inv k P Q X s' \<and> queues s' = queues s"
proof -
  note b = block_invD [OF inv] and i = sign_invD [OF block_invD(4) [OF inv]]
  obtain x sa where x: "sv (xs_signings s) sid = Some x" "sgn_Status x = SIGNING_STATUS_WAITING"
      "av (xs_attempts s) sid (sgn_CurrentAttempt x) = Some sa" "complete s sid (sgn_CurrentAttempt x) sa" and sX: "sid \<notin> X"
    using i(13) [of sid] by auto
  have fs: "fits sid" using view_fits(2) [OF x(1)] .
  obtain sig and g :: Group where v: "VerifyGroupSigningSignature (xk_curve k) (sgn_GroupPubKey x) (sgn_Message x) sig = Inr ()"
    and c: "with_callback k (grp_ModuleOwner g) (\<lambda>cb.
       bindE (MustGetCurrentAssignedMembers k (SetSigning s (x\<lparr>sgn_Signature := sig, sgn_Status := SIGNING_STATUS_SUCCESS\<rparr>)) sid)
         (\<lambda>addrs. OnSigningCompleted cb ctx (SetSigning s (x\<lparr>sgn_Signature := sig, sgn_Status := SIGNING_STATUS_SUCCESS\<rparr>)) (sgn_ID x) addrs))
         (SetSigning s (x\<lparr>sgn_Signature := sig, sgn_Status := SIGNING_STATUS_SUCCESS\<rparr>)) = Inr s'"
    using ok fs x(1) by (auto simp: AggregatePartialSignatures_def MustGetSigning_iff Let_def intro: that)
  let ?t = "SetSigning s (x\<lparr>sgn_Signature := sig, sgn_Status := SIGNING_STATUS_SUCCESS\<rparr>)"
  have "sign_inv k Q (X - {sid}) ?t"
    by (rule finish_signing [OF b(4) x(1)]) (use v x i(11) in auto)
  then have t: "block_inv k P Q X ?t \<and> queues ?t = queues s" using SetSigning_block [OF inv] sX by simp
  have "touched ?t s'" by (rule with_callback_touched [OF cb block_invD(5) [OF conjunct1 [OF t]] c]) auto
  from touched_block [OF conjunct1 [OF t] this] t show ?thesis by simp
qed

lemma HandleFailedSigning_inv:
  assumes cb: "callbacks_ok k" and inv: "block_inv k P Q X s" and sid: "sid \<in> X" and ok: "HandleFailedSigning k ctx s sid = Inr s'"
  shows "block_inv k P Q (X - {sid}) s' \<and> queues s' = queues s"
proof -
  note b = block_invD [OF inv] and i = sign_invD [OF block_invD(4) [OF inv]]
  obtain x where x: "sv (xs_signings s) sid = Some x"
      "\<forall>sa. av (xs_attempts s) sid (sgn_CurrentAttempt x) = Some sa \<longrightarrow> complete s sid (sgn_CurrentAttempt x) sa"
    using i(15) [OF sid] by auto
  have fs: "fits sid" using view_fits(2) [OF x(1)] .
  let ?t = "SetSigning s (x\<lparr>sgn_Status := SIGNING_STATUS_FALLEN\<rparr>)"
  obtain g :: Group where c: "with_callback k (grp_ModuleOwner g) (\<lambda>cb. OnSigningFailed cb ctx ?t (sgn_ID x)) ?t = Inr s'"
    using ok fs x(1) by (auto simp: HandleFailedSigning_def MustGetSigning_iff Let_def intro: that)
  have "sign_inv k Q (X - {sid}) ?t"
    by (rule finish_signing [OF b(4) x(1)]) (use x i(11,12) sid in auto)
  then have t: "block_inv k P Q (X - {sid}) ?t \<and> queues ?t = queues s" using SetSigning_block [OF inv] by simp
  have "touched ?t s'" by (rule with_callback_touched [OF cb block_invD(5) [OF conjunct1 [OF t]] c]) auto
  from touched_block [OF conjunct1 [OF t] this] t show ?thesis by simp
qed

lemma to_retry:
  assumes inv: "sign_inv k (sid # Q) X s"
  shows "sign_inv k Q (insert sid X) s"
proof -
  note i = sign_invD [OF inv]
  have kept: "active_kept s s" by (simp add: active_kept_def)
  obtain x sa where x: "sv (xs_signings s) sid = Some x" "sgn_Status x = SIGNING_STATUS_WAITING"
      "av (xs_attempts s) sid (sgn_CurrentAttempt x) = Some sa" "complete s sid (sgn_CurrentAttempt x) sa"
    using i(13) [of sid] by auto
  have fs: "fits sid" using view_fits(2) [OF x(1)] .
  have ex: "\<And>e. e \<in> set (xs_expirations s) \<Longrightarrow> fits (se_SigningID e) \<and> fits (se_SigningAttempt e)" using i(7) by blast
  have Q: "distinct Q" "set Q \<inter> insert sid X = {}" "sid \<notin> set Q" using i(11,12) by auto
  show ?thesis
  proof (rule sign_inv_change [OF inv kept _ i(1-4) i(5) i(6) ex i(8) i(9) [OF fs] i(10) [OF fs]])
    show "sid \<in> set Q \<longleftrightarrow> sid \<notin> insert sid X \<and> ready s sid" using Q by simp
    show "\<exists>x. sv (xs_signings s) sid = Some x \<and> sgn_Status x = SIGNING_STATUS_WAITING \<and>
        (\<forall>sa. av (xs_attempts s) sid (sgn_CurrentAttempt x) = Some sa \<longrightarrow> complete s sid (sgn_CurrentAttempt x) sa)"
      using x by simp
  qed (use Q in \<open>simp_all add: same_views_def\<close>)
qed

section \<open>Timeouts\<close>

text \<open>
  Deleting the first attempt of the list of expirations. The list itself is only cut at the end of the loop: the invariant holds
  of the state with the part of the list that is left.
\<close>

lemma DeleteInterim_inv:
  assumes inv: "sign_inv k [] X (s\<lparr>xs_expirations := \<lparr>se_SigningID = sid, se_SigningAttempt = att\<rparr> # ses\<rparr>)"
    and x: "sv (xs_signings s) sid = Some x" and sa: "av (xs_attempts s) sid att = Some sa"
    and X': "X' = (if complete s sid att sa then X else insert sid X)"
  shows "sign_inv k [] X' ((DeleteInterimSigningData s sid att)\<lparr>xs_expirations := ses\<rparr>)"
proof -
  let ?e = "\<lparr>se_SigningID = sid, se_SigningAttempt = att\<rparr>"
  let ?s = "s\<lparr>xs_expirations := ?e # ses\<rparr>" and ?t = "(DeleteInterimSigningData s sid att)\<lparr>xs_expirations := ses\<rparr>"
  note i = sign_invD [OF inv]
  have fs: "fits sid" and fa: "fits att" using view_fits(2) [OF x] view_fits(4) [OF sa] .
  have E: "xs_signings ?t = xs_signings s" "xs_groups ?t = xs_groups s" "xs_members ?t = xs_members s" "xs_signing_count ?t = xs_signing_count s"
    "xs_expirations ?t = ses" "xs_psigs ?t = delete_prefix (xs_psigs s) (PartialSignaturesStoreKey sid att)" "same_dkg ?s ?t"
    by (simp_all add: DeleteInterimSigningData_def DeleteSigningAttempt_def DeletePartialSignatureCount_def DeletePartialSignatures_def same_dkg_def)
  have A: "av (xs_attempts ?t) j = (if j = sid then (av (xs_attempts s) sid)(att := None) else av (xs_attempts s) j)"
    and C: "npv (xs_psig_count ?t) j = (if j = sid then (npv (xs_psig_count s) sid)(att := None) else npv (xs_psig_count s) j)" if "fits j" for j
    using that fs fa
    by (simp_all add: DeleteInterimSigningData_def DeleteSigningAttempt_def DeletePartialSignatureCount_def DeletePartialSignatures_def)
  have P: "psv (xs_psigs ?t) (j, h) = (if j = sid \<and> h = att then Map.empty else psv (xs_psigs s) (j, h))" if "fits j" "fits h" for j h
    unfolding E using that fs fa by auto
  have oc: "complete ?t sid h sb = complete s sid h sb" if "h \<noteq> att" for h sb using that C [OF fs] by (simp add: complete_def)
  note at = i(9) [OF fs, simplified, OF sa]
  have inc: "\<not> complete s sid att sa \<Longrightarrow> att = sgn_CurrentAttempt x \<and> sgn_Status x = SIGNING_STATUS_WAITING"
    using at x by (auto simp: attempt_at_def complete_def)
  have nr: "sgn_Status x = SIGNING_STATUS_WAITING \<Longrightarrow> av (xs_attempts s) sid (sgn_CurrentAttempt x) = Some sb \<Longrightarrow> sid \<notin> X \<Longrightarrow>
     \<not> complete s sid (sgn_CurrentAttempt x) sb" for sb
    using i(13) [of sid] x by (auto simp: complete_def)
  have ne: "?e \<notin> set ses" using i(6) by simp
  show ?thesis
  proof (rule sign_inv_change [OF inv same_dkg_kept [OF E(7)], where sid = sid])
    show "same_views ?s ?t j" if "fits j" "j \<noteq> sid" for j
      using that A [OF that(1)] C [OF that(1)] P [OF that(1)] E(1) by (simp add: same_views_def)
    show "kv_ok (xs_psigs ?t)" "wf_keys psigs_pre fits2 (xs_psigs ?t)" using i(1,2) unfolding E(6) by auto
    show "fits (xs_signing_count ?t)" "dom (sv (xs_signings ?t)) = {1..xs_signing_count ?t}" using i(3,4) unfolding E by simp_all
    show "signing_ok (xk_curve k) (gv (xs_groups ?t)) sid z" if "sv (xs_signings ?t) sid = Some z" for z
      using i(5) [of sid z] that unfolding E by simp
    show "distinct (xs_expirations ?t)" "\<And>e. e \<in> set (xs_expirations ?t) \<Longrightarrow> fits (se_SigningID e) \<and> fits (se_SigningAttempt e)"
      using i(6,7) unfolding E by simp_all
    show "\<lparr>se_SigningID = j, se_SigningAttempt = h\<rparr> \<in> set (xs_expirations ?t) \<longleftrightarrow> av (xs_attempts ?t) j h \<noteq> None"
      if "fits j" "fits h" for j h
      using i(8) [OF that] ne unfolding E A [OF that(1)] by auto
    show "attempt_at k ?t sid h sb" if sb: "av (xs_attempts ?t) sid h = Some sb" for h sb
    proof -
      have h: "h \<noteq> att" and old: "av (xs_attempts ?s) sid h = Some sb" using sb A [OF fs] by (auto split: if_splits)
      show ?thesis
        by (rule attempt_at_frame [OF i(9) [OF fs old] same_dkg_kept [OF E(7)] i(5)])
          (use h E(1) P [OF fs view_fits(4) [OF old]] C [OF fs] in simp_all)
    qed
    show "dom (psv (xs_psigs ?t) (sid, h)) = {} \<and> npv (xs_psig_count ?t) sid h = None"
      if "fits h" "av (xs_attempts ?t) sid h = None" for h
      using i(10) [OF fs that(1)] that A [OF fs] C [OF fs] P [OF fs that(1)] by (auto split: if_splits)
    show "(j \<in> set [] \<longleftrightarrow> j \<in> set []) \<and> (j \<in> X' \<longleftrightarrow> j \<in> X)" if "j \<noteq> sid" for j using that X' by simp
    show "sid \<in> set [] \<longleftrightarrow> sid \<notin> X' \<and> ready ?t sid"
    proof -
      have "\<not> ready ?t sid" if "sid \<notin> X"
      proof
        assume "ready ?t sid"
        then obtain sb where sb: "sgn_Status x = SIGNING_STATUS_WAITING" "av (xs_attempts ?t) sid (sgn_CurrentAttempt x) = Some sb"
            "complete ?t sid (sgn_CurrentAttempt x) sb" unfolding ready_def E(1) using x by auto
        then have "sgn_CurrentAttempt x \<noteq> att" "av (xs_attempts s) sid (sgn_CurrentAttempt x) = Some sb"
          using A [OF fs] by (auto split: if_splits)
        then show False using nr [OF sb(1) _ that] oc sb(3) by blast
      qed
      then show ?thesis using X' by auto
    qed
    show "av (xs_attempts ?t) sid (sgn_CurrentAttempt z) \<noteq> None"
      if z: "sv (xs_signings ?t) sid = Some z" "sgn_Status z = SIGNING_STATUS_WAITING" "sid \<notin> X'" for z
    proof -
      have zx: "z = x" using z(1) x unfolding E by simp
      have c: "complete s sid att sa" "sid \<notin> X" using z(3) X' by (auto split: if_splits)
      have "att \<noteq> sgn_CurrentAttempt x" using nr c sa z(2) zx by blast
      then show ?thesis using i(14) [of sid x] x z(2) c(2) A [OF fs] zx by simp
    qed
    show "\<exists>z. sv (xs_signings ?t) sid = Some z \<and> sgn_Status z = SIGNING_STATUS_WAITING \<and>
        (\<forall>sb. av (xs_attempts ?t) sid (sgn_CurrentAttempt z) = Some sb \<longrightarrow> complete ?t sid (sgn_CurrentAttempt z) sb)" if "sid \<in> X'"
    proof (cases "sid \<in> X")
      case True
      from i(15) [OF this] x show ?thesis unfolding E using A [OF fs] oc by (auto simp: complete_def split: if_splits)
    next
      case False
      then show ?thesis using inc that X' x A [OF fs] unfolding E by (auto split: if_splits)
    qed
  qed simp_all
qed

lemma touched_expirations:
  assumes "touched s s'"
  shows "touched (s\<lparr>xs_expirations := E\<rparr>) (s'\<lparr>xs_expirations := E\<rparr>)"
proof -
  obtain M w where "s' = s\<lparr>xs_members := M, xs_world := w\<rparr>" "same_keys (xs_members s) M" "kv_ok M" "wf_keys MembersStoreKey fits M"
    using assms unfolding touched_def by blast
  then show ?thesis unfolding touched_def by (intro exI [of _ M] exI [of _ w]) simp
qed

lemma interim_block:
  assumes "block_inv k P [] X (s\<lparr>xs_expirations := E\<rparr>)" "sign_inv k [] X' ((DeleteInterimSigningData s sid att)\<lparr>xs_expirations := E'\<rparr>)"
  shows "block_inv k P [] X' ((DeleteInterimSigningData s sid att)\<lparr>xs_expirations := E'\<rparr>) \<and>
    queues (DeleteInterimSigningData s sid att) = queues s"
proof -
  let ?t = "(DeleteInterimSigningData s sid att)\<lparr>xs_expirations := E'\<rparr>"
  have d: "same_dkg (s\<lparr>xs_expirations := E\<rparr>) ?t" "xs_de ?t = xs_de s" "xs_deq ?t = xs_deq s" "xs_params ?t = xs_params s"
    "queues (DeleteInterimSigningData s sid att) = queues s"
    by (simp_all add: DeleteInterimSigningData_def DeleteSigningAttempt_def DeletePartialSignatureCount_def DeletePartialSignatures_def
        same_dkg_def queues_def)
  have "dkg_inv k P ?t" "de_inv k ?t" "tss_params_ok (xs_params ?t)"
    using same_dkg_inv [OF block_invD(2) [OF assms(1)] d(1)] block_invD(1,3) [OF assms(1)] d(2-4)
    by (simp_all add: de_inv_def GetDEQueue_def)
  then show ?thesis using assms(2) d(5) unfolding block_inv_def by blast
qed

lemma expire_signings_inv:
  assumes cb: "callbacks_ok k"
  shows "expire_signings k ctx ses idx ids s = Inr (idx', ids', s') \<Longrightarrow> block_inv k P [] X (s\<lparr>xs_expirations := ses\<rparr>) \<Longrightarrow>
    \<exists>n new. idx' = idx + n \<and> ids' = ids @ new \<and> distinct new \<and> set new \<inter> X = {} \<and>
      block_inv k P [] (X \<union> set new) (s'\<lparr>xs_expirations := drop n ses\<rparr>) \<and> queues s' = queues s"
proof (induction ses arbitrary: idx ids s X)
  case Nil
  then show ?case by (auto intro!: exI [of _ 0] exI [of _ "[]"])
next
  case (Cons se ses)
  define sid att where "sid = se_SigningID se" and "att = se_SigningAttempt se"
  have se: "se = \<lparr>se_SigningID = sid, se_SigningAttempt = att\<rparr>" by (simp add: sid_def att_def)
  note b = block_invD [OF Cons.prems(2)]
  note i = sign_invD [OF b(4)]
  have fs: "fits sid" and fa: "fits att" using i(7) by (auto simp: sid_def att_def)
  obtain sa where sa: "av (xs_attempts s) sid att = Some sa" using i(8) [OF fs fa] se by auto
  have at: "attempt_at k (s\<lparr>xs_expirations := se # ses\<rparr>) sid att sa" using i(9) [OF fs] sa by simp
  obtain x where x: "sv (xs_signings s) sid = Some x" using at unfolding attempt_at_def by auto
  have g: "MustGetSigning s sid = Inr x" "MustGetSigningAttempt s sid att = Inr sa"
    using x sa fs fa by (simp_all add: MustGetSigning_iff MustGetSigningAttempt_def GetSigningAttempt_iff)
  have cpl: "GetPartialSignatureCount s sid att = length (sa_AssignedMembers sa) \<longleftrightarrow> complete s sid att sa"
    by (simp add: GetPartialSignatureCount_iff [OF fa] complete_def)
  note run = Cons.prems(1) [simplified, folded sid_def att_def, simplified Let_def g bindE_simps cpl]
  show ?case
  proof (cases "sa_ExpiredHeight sa > to_uint64 (xc_BlockHeight ctx)")
    case True
    then show ?thesis using run Cons.prems(2) by (auto intro!: exI [of _ 0] exI [of _ "[]"])
  next
    case False
    let ?X = "if complete s sid att sa then X else insert sid X"
    let ?new = "if complete s sid att sa then [] else [sid]"
    obtain t where t: "block_inv k P [] X (t\<lparr>xs_expirations := se # ses\<rparr>)" "queues t = queues s" "touched s t"
      and rest: "expire_signings k ctx ses (Suc idx) (ids @ ?new) (DeleteInterimSigningData t sid att) = Inr (idx', ids', s')"
    proof (cases "complete s sid att sa")
      case True
      have "touched s s" using b(5) by (simp add: touched_refl)
      then show ?thesis using that [of s] run False True Cons.prems(2) by simp
    next
      case nc: False
      obtain t and g :: Group where cbk: "with_callback k (grp_ModuleOwner g) (\<lambda>cb.
                   bindE (GetMembersNotSubmitSignature k s sid (sgn_CurrentAttempt x)) (\<lambda>idleMembers.
                   OnSigningTimeout cb ctx s (sgn_ID x) idleMembers)) s = Inr t"
        and rest: "expire_signings k ctx ses (Suc idx) (ids @ [sid]) (DeleteInterimSigningData t sid att) = Inr (idx', ids', s')"
        using run False nc by (auto intro: that)
      have "members_inv (xk_sdk k) (xs_groups s) (xs_members s)" using b(5) by simp
      then have tt: "touched s t" by (rule with_callback_touched [OF cb _ cbk]) auto
      show ?thesis
        using that [of t] touched_block [OF Cons.prems(2) touched_expirations [OF tt]] rest nc tt touched_fields [OF tt] by simp
    qed
    have v: "sv (xs_signings t) sid = Some x" "av (xs_attempts t) sid att = Some sa" "complete t sid att sa = complete s sid att sa"
      using t(3) x sa unfolding touched_def complete_def by auto
    have "sign_inv k [] ?X ((DeleteInterimSigningData t sid att)\<lparr>xs_expirations := ses\<rparr>)"
      by (rule DeleteInterim_inv [OF block_invD(4) [OF t(1), unfolded se] v(1,2)]) (simp add: v(3))
    note d = interim_block [OF t(1) this]
    obtain n new where n: "idx' = Suc idx + n" "ids' = (ids @ ?new) @ new" "distinct new" "set new \<inter> ?X = {}"
      "block_inv k P [] (?X \<union> set new) (s'\<lparr>xs_expirations := drop n ses\<rparr>)" "queues s' = queues s"
      using Cons.IH [OF rest conjunct1 [OF d]] d t(2) by auto
    have sX: "sid \<notin> X" if "\<not> complete s sid att sa"
    proof
      assume "sid \<in> X"
      from i(15) [OF this] x have "\<forall>sb. av (xs_attempts s) sid (sgn_CurrentAttempt x) = Some sb \<longrightarrow> complete s sid (sgn_CurrentAttempt x) sb"
        by (auto simp: complete_def)
      moreover have "att = sgn_CurrentAttempt x" using at x that by (auto simp: attempt_at_def complete_def)
      ultimately show False using that sa by blast
    qed
    have eq: "X \<union> set (?new @ new) = ?X \<union> set new" by auto
    show ?thesis
      by (intro exI [of _ "Suc n"] exI [of _ "?new @ new"] conjI) (use n sX eq in \<open>auto split: if_splits\<close>)
  qed
qed

end
