(* ===== verification/Xtss_Proc.thy ===== *)
theory Xtss_Proc
  imports Xtss_End
begin

text \<open>The end of a block of \<open>x/tss\<close> keeps the invariant: signings, groups, and both.\<close>

section \<open>Signings\<close>

lemma retry_step_inv:
  assumes laws: "address_laws (xk_sdk k)" and cb: "callbacks_ok k" and inv: "block_inv k P Q X s" and sid: "sid \<in> X"
    and ok: "retry_step k ctx s sid = Inr s'"
  shows "block_inv k P Q (X - {sid}) s' \<and> queues s' = queues s"
proof -
  note b = block_invD [OF inv]
  obtain r where r: "catchE (InitiateNewSigningRound k ctx s sid) = Inr r"
      "(case r of None \<Rightarrow> HandleFailedSigning k ctx s sid | Some s \<Rightarrow> Inr s) = Inr s'"
    using ok by (auto simp: retry_step_def)
  show ?thesis
  proof (cases r)
    case None
    then show ?thesis using HandleFailedSigning_inv [OF cb inv sid] r(2) by simp
  next
    case (Some t)
    then have i: "InitiateNewSigningRound k ctx s sid = Inr s'" using r by (simp add: catchE_Inr)
    note n = InitiateNewSigningRound_inv [OF laws b(1-4) sid i]
    show ?thesis using same_dkg_inv [OF b(2) n(1)] n b(1) unfolding block_inv_def queues_def by (simp add: same_dkg_def)
  qed
qed

lemma retry_inv:
  assumes laws: "address_laws (xk_sdk k)" and cb: "callbacks_ok k"
  shows "foldE (retry_step k ctx) s L = Inr s' \<Longrightarrow> distinct L \<Longrightarrow> block_inv k P Q (set L) s \<Longrightarrow>
    block_inv k P Q {} s' \<and> queues s' = queues s"
proof (induction L arbitrary: s)
  case (Cons sid L)
  obtain t where t: "retry_step k ctx s sid = Inr t" "foldE (retry_step k ctx) t L = Inr s'" using Cons.prems(1) by auto
  have "set (sid # L) - {sid} = set L" using Cons.prems(2) by auto
  then have "block_inv k P Q (set L) t \<and> queues t = queues s" using retry_step_inv [OF laws cb Cons.prems(3) _ t(1)] by simp
  then show ?case using Cons.IH [OF t(2)] Cons.prems(2) by auto
qed simp

lemma aggregate_step_eq:
  "aggregate_step k ctx (L, s) sid = bindE (catchE (AggregatePartialSignatures k ctx s sid)) (\<lambda>r.
     case r of None \<Rightarrow> Inr (L @ [sid], s) | Some s \<Rightarrow> Inr (L, s))"
  by (simp add: aggregate_step_def)

lemma aggregate_inv:
  assumes cb: "callbacks_ok k"
  shows "foldE (aggregate_step k ctx) (L, s) Q = Inr (L', s') \<Longrightarrow> distinct L \<Longrightarrow> block_inv k P Q (set L) s \<Longrightarrow>
    distinct L' \<and> block_inv k P [] (set L') s' \<and> queues s' = queues s"
proof (induction Q arbitrary: s L)
  case (Cons sid Q)
  obtain r where r: "catchE (AggregatePartialSignatures k ctx s sid) = Inr r" and rest: "foldE (aggregate_step k ctx)
      (case r of None \<Rightarrow> (L @ [sid], s) | Some t \<Rightarrow> (L, t)) Q = Inr (L', s')"
    using Cons.prems(1) by (auto simp: aggregate_step_eq split: option.splits)
  show ?case
  proof (cases r)
    case None
    have "sid \<notin> set L" using sign_invD(12) [OF block_invD(4) [OF Cons.prems(3)]] by auto
    moreover have "block_inv k P Q (insert sid (set L)) s"
      using Cons.prems(3) to_retry [OF block_invD(4) [OF Cons.prems(3)]] unfolding block_inv_def by simp
    ultimately show ?thesis using Cons.IH [of "L @ [sid]" s] rest Cons.prems(2) None by simp
  next
    case (Some t)
    then have "AggregatePartialSignatures k ctx s sid = Inr t" using r by (simp add: catchE_Inr)
    from AggregatePartialSignatures_inv [OF cb Cons.prems(3) this] show ?thesis
      using Cons.IH [of L t] rest Cons.prems(2) Some by simp
  qed
qed simp

lemma HandleSigningEndBlock_inv:
  assumes laws: "address_laws (xk_sdk k)" and cb: "callbacks_ok k" and inv: "block_inv k P (xs_pending_signings s) {} s"
    and ok: "HandleSigningEndBlock k ctx s = Inr s'"
  shows "block_inv k P [] {} s' \<and> xs_pending_signings s' = [] \<and> xs_pending_groups s' = xs_pending_groups s"
proof -
  obtain L t where L: "foldE (aggregate_step k ctx) ([], s) (xs_pending_signings s) = Inr (L, t)"
    and rest: "bindE (HandleExpiredSignings k ctx (t\<lparr>xs_pending_signings := []\<rparr>)) (\<lambda>(ids, s). foldE (retry_step k ctx) s (L @ ids)) = Inr s'"
    using ok by (auto simp: HandleSigningEndBlock_def Let_def)
  have a: "distinct L" "block_inv k P [] (set L) t" "queues t = queues s" using aggregate_inv [OF cb L] inv by simp_all
  let ?t = "t\<lparr>xs_pending_signings := []\<rparr>"
  obtain idx ids u where e: "expire_signings k ctx (xs_expirations ?t) 0 [] ?t = Inr (idx, ids, u)"
    and r: "foldE (retry_step k ctx) (u\<lparr>xs_expirations := drop idx (xs_expirations ?t)\<rparr>) (L @ ids) = Inr s'"
    using rest by (auto simp: HandleExpiredSignings_def Let_def)
  have "block_inv k P [] (set L) (?t\<lparr>xs_expirations := xs_expirations ?t\<rparr>)" using block_inv_queues(2) [OF a(2)] by simp
  from expire_signings_inv [OF cb e this] have n: "distinct ids" "set ids \<inter> set L = {}" "queues u = queues ?t"
    "block_inv k P [] (set L \<union> set ids) (u\<lparr>xs_expirations := drop idx (xs_expirations ?t)\<rparr>)" by auto
  have "block_inv k P [] {} s' \<and> queues s' = queues (u\<lparr>xs_expirations := drop idx (xs_expirations ?t)\<rparr>)"
    by (rule retry_inv [OF laws cb r]) (use a(1) n in auto)
  then show ?thesis using n(3) a(3) by (simp add: queues_def)
qed

section \<open>Groups\<close>

lemma SetGroup_block:
  assumes inv: "block_inv k P Q X s" and g: "gv (xs_groups s) gid = Some g" "grp_Status g \<noteq> GROUP_STATUS_ACTIVE"
    and g': "grp_ID g' = gid" "grp_Size g' = grp_Size g" "grp_Threshold g' = grp_Threshold g"
    and at: "dkg_at k s gid g'" and nd: "\<not> done_at s gid g'" and P: "distinct P'" "set P' = set P - {gid}"
    and le: "gid \<le> xs_last_expired s \<longrightarrow> grp_Status g' \<in> {GROUP_STATUS_ACTIVE, GROUP_STATUS_FALLEN, GROUP_STATUS_EXPIRED}"
    and ctx: "grp_Status g' = GROUP_STATUS_ROUND_1 \<or> grp_Status g' = GROUP_STATUS_ROUND_2 \<or> grp_Status g' = GROUP_STATUS_ROUND_3 \<Longrightarrow>
      kv_has (xs_dkg s) (DKGContextStoreKey gid)"
  shows "block_inv k P' Q X (SetGroup s g')" "queues (SetGroup s g') = queues s"
proof -
  note b = block_invD [OF inv] and i = dkg_invD [OF block_invD(2) [OF inv]] and gi = groups_invD [OF dkg_invD(1) [OF block_invD(2) [OF inv]]]
  let ?t = "SetGroup s g'"
  have fg: "fits gid" using view_fits(1) [OF g(1)] .
  have V: "gv (xs_groups ?t) = (gv (xs_groups s))(gid \<mapsto> g')" using fg g'(1) by (simp add: SetGroup_def)
  have E: "xs_members ?t = xs_members s" "xs_acc ?t = xs_acc s" "xs_dkg ?t = xs_dkg s" "xs_group_count ?t = xs_group_count s"
    "xs_last_expired ?t = xs_last_expired s" "xs_params ?t = xs_params s" "xs_de ?t = xs_de s" "xs_deq ?t = xs_deq s"
    "same_signing s ?t" "kv_ok (xs_groups ?t)" "\<And>j. same_tables s ?t j"
    using gi(1) by (simp_all add: SetGroup_def same_signing_def same_tables_def)
  show "queues ?t = queues s" by (simp add: SetGroup_def queues_def)
  have d: "dkg_inv k P' ?t"
  proof (rule dkg_inv_change [OF b(2) g(1)])
    show "gv (xs_groups ?t) gid = Some g'" by (simp add: V)
    show "\<forall>j. fits j \<longrightarrow> j \<noteq> gid \<longrightarrow> same_groups s ?t j" using E V by (simp add: same_groups_def)
    show "members_inv (xk_sdk k) (xs_groups ?t) (xs_members ?t)"
      unfolding E by (rule members_inv_groups [OF b(5)]) (use g g' in \<open>simp add: V\<close>)
    show "dkg_at k ?t gid g'" using at by (simp add: dkg_at_same [OF E(11)] E(1))
    show "gid \<in> set P' \<longleftrightarrow> done_at ?t gid g'" using nd P(2) done_at_same [OF E(11)] by simp
  qed (use E g' P le ctx i(3,4) in auto)
  have "active_kept s ?t" using g V E unfolding active_kept_def by auto
  then show "block_inv k P' Q X ?t" using block_inv_frame [OF inv E(9) _ E(7,8,6) d] by blast
qed

lemma requests_block:
  assumes laws: "address_laws (xk_sdk k)" and inv: "block_inv k P Q X s" and f: "fits (xs_signing_count s + 1)" and req: "requests k ctx s s'"
  shows "block_inv k P Q X s' \<and> xs_pending_groups s' = xs_pending_groups s \<and> xs_pending_signings s' = xs_pending_signings s \<and>
    xs_signing_count s' \<le> xs_signing_count s + 1"
proof -
  obtain t u where t: "touched s t" and u: "u = t \<or> (\<exists>gid originator content sid. fits gid \<and> tss_RequestSigning k ctx t gid originator content = Inr (sid, u))"
    and s': "touched u s'" using req unfolding requests_def by blast
  have bt: "block_inv k P Q X t" "queues t = queues s" using touched_block [OF inv t] by simp_all
  have "block_inv k P Q X u \<and> xs_pending_groups u = xs_pending_groups t \<and> xs_pending_signings u = xs_pending_signings t \<and>
    xs_signing_count u \<le> xs_signing_count t + 1" using u
  proof
    assume "\<exists>gid originator content sid. fits gid \<and> tss_RequestSigning k ctx t gid originator content = Inr (sid, u)"
    then obtain gid originator content sid where r: "fits gid" "tss_RequestSigning k ctx t gid originator content = Inr (sid, u)" by blast
    have f': "fits (xs_signing_count t + 1)" using f bt(2) by (simp add: queues_def)
    note n = tss_RequestSigning_inv [OF laws block_invD(1-4) [OF bt(1)] r(1) f' r(2)]
    show ?thesis using same_dkg_inv [OF block_invD(2) [OF bt(1)] n(1)] n block_invD(1) [OF bt(1)] unfolding block_inv_def by (simp add: same_dkg_def)
  qed (use bt in simp)
  then show ?thesis using touched_block [OF _ s'] bt(2) by (auto simp: queues_def)
qed

lemma HandleProcessGroup_inv:
  assumes laws: "address_laws (xk_sdk k)" and cb: "callbacks_ok k" and inv: "block_inv k (gid # P) Q X s" and f: "fits (xs_signing_count s + 1)"
    and ok: "HandleProcessGroup k ctx s gid = Inr s'"
  shows "block_inv k P Q X s' \<and> xs_pending_groups s' = xs_pending_groups s \<and> xs_pending_signings s' = xs_pending_signings s \<and>
    xs_signing_count s' \<le> xs_signing_count s + 1"
proof -
  note b = block_invD [OF inv] and i = dkg_invD [OF block_invD(2) [OF inv]] and gi = groups_invD [OF dkg_invD(1) [OF block_invD(2) [OF inv]]]
  obtain g where g: "gv (xs_groups s) gid = Some g" and dn: "done_at s gid g" using i(7) [of gid] by auto
  have fg: "fits gid" using view_fits(1) [OF g] .
  have G: "MustGetGroup s gid = Inr g" "grp_ID g = gid" using g gi(4) fg by (simp_all add: MustGetGroup_iff)
  have P: "distinct P" "set P = set (gid # P) - {gid}" using i(6) by auto
  have sz: "1 \<le> grp_Size g" using gi(5) [OF g] .
  note at = i(5) [OF g, unfolded dkg_at_def]
  note run = ok [unfolded HandleProcessGroup_def G(1) bindE_simps]
  have late: "grp_Status g \<notin> {GROUP_STATUS_ACTIVE, GROUP_STATUS_FALLEN, GROUP_STATUS_EXPIRED} \<Longrightarrow> \<not> gid \<le> xs_last_expired s"
    using i(9) [OF g] by blast
  note adv = SetGroup_block [OF inv g _ _ _ _ _ _ P]
  consider (r1) "grp_Status g = GROUP_STATUS_ROUND_1" | (r2) "grp_Status g = GROUP_STATUS_ROUND_2" | (r3) "grp_Status g = GROUP_STATUS_ROUND_3"
    using dn by (cases "grp_Status g") (auto simp: done_at_def round_done_def)
  then show ?thesis
  proof cases
    case r1
    note d = dkg_groupD(1) [OF at r1]
    have full: "dom (r1v (xs_round1 s) gid) = {1..grp_Size g}"
      using d dn r1 card_subset_eq [of "{1..grp_Size g}" "dom (r1v (xs_round1 s) gid)"] by (simp add: done_at_def round_done_def)
    then have acc: "dom (acv (xs_acc s) gid) = {..<grp_Threshold g}" "1 \<le> grp_Threshold g" using d sz by auto
    then obtain p where p: "acv (xs_acc s) gid 0 = Some p" by (metis Suc_le_eq One_nat_def domD lessThan_iff)
    have ga: "GetAccumulatedCommit s gid 0 = Some p" using p by (simp add: GetAccumulatedCommit_def get_views fits_def)
    let ?g = "g\<lparr>grp_Status := GROUP_STATUS_ROUND_2, grp_PubKey := p\<rparr>"
    have "hd (acc_list (acv (xs_acc s) gid) (grp_Threshold g)) = p" "acc_list (acv (xs_acc s) gid) (grp_Threshold g) \<noteq> []"
      using p acc(2) by (simp_all add: acc_list_def hd_map upt_rec)
    then have ky: "keyed (xk_curve k) (acc_list (acv (xs_acc s) gid) (grp_Threshold g)) ?g (mv (xs_members s) gid) {}"
      by (simp add: keyed_def acc_list_def)
    have s': "s' = SetGroup s ?g" using run r1 ga by simp
    have "block_inv k P Q X (SetGroup s ?g)" "queues (SetGroup s ?g) = queues s"
      by (rule adv; use d full acc ky sz G(2) r1 late i(11) [OF g] in \<open>simp add: dkg_at_def dkg_group.simps done_at_def round_done_def\<close>)+
    then show ?thesis unfolding s' by (simp add: queues_def)
  next
    case r2
    note d = dkg_groupD(2) [OF at r2]
    have full: "dom (r2v (xs_round2 s) gid) = {1..grp_Size g}"
      using d dn r2 card_subset_eq [of "{1..grp_Size g}" "dom (r2v (xs_round2 s) gid)"] by (simp add: done_at_def round_done_def)
    let ?g = "g\<lparr>grp_Status := GROUP_STATUS_ROUND_3\<rparr>"
    have ky: "keyed (xk_curve k) (acc_list (acv (xs_acc s) gid) (grp_Threshold g)) ?g (mv (xs_members s) gid) {1..grp_Size g}"
      using d full by (simp add: keyed_def)
    have s': "s' = SetGroup s ?g" using run r2 by simp
    have "block_inv k P Q X (SetGroup s ?g)" "queues (SetGroup s ?g) = queues s"
      by (rule adv; use d full ky sz G(2) r2 late i(11) [OF g] in \<open>simp add: dkg_at_def dkg_group.simps done_at_def round_done_def\<close>)+
    then show ?thesis unfolding s' by (simp add: queues_def)
  next
    case r3
    note d = dkg_groupD(3) [OF at r3]
    have step: "block_inv k P Q X (SetGroup s (g\<lparr>grp_Status := st\<rparr>))" "queues (SetGroup s (g\<lparr>grp_Status := st\<rparr>)) = queues s"
      if st: "st = GROUP_STATUS_ACTIVE \<or> st = GROUP_STATUS_FALLEN" for st
    proof -
      have "\<exists>c. keyed (xk_curve k) c (g\<lparr>grp_Status := st\<rparr>) (mv (xs_members s) gid) {1..grp_Size g}"
        using d by (auto simp: keyed_def intro!: exI [of _ "acc_list (acv (xs_acc s) gid) (grp_Threshold g)"])
      then have "dkg_at k s gid (g\<lparr>grp_Status := st\<rparr>)" "\<not> done_at s gid (g\<lparr>grp_Status := st\<rparr>)"
        using st by (auto simp: dkg_at_def dkg_group.simps done_at_def round_done_def)
      then show "block_inv k P Q X (SetGroup s (g\<lparr>grp_Status := st\<rparr>))" "queues (SetGroup s (g\<lparr>grp_Status := st\<rparr>)) = queues s"
        using adv [of "g\<lparr>grp_Status := st\<rparr>"] G(2) r3 st by auto
    qed
    consider (active) "with_callback k (grp_ModuleOwner g) (\<lambda>cb. OnGroupCreationCompleted cb ctx
          (SetGroup s (g\<lparr>grp_Status := GROUP_STATUS_ACTIVE\<rparr>)) (grp_ID g)) (SetGroup s (g\<lparr>grp_Status := GROUP_STATUS_ACTIVE\<rparr>)) = Inr s'"
      | (fallen) "with_callback k (grp_ModuleOwner g) (\<lambda>cb. OnGroupCreationFailed cb ctx
          (SetGroup s (g\<lparr>grp_Status := GROUP_STATUS_FALLEN\<rparr>)) (grp_ID g)) (SetGroup s (g\<lparr>grp_Status := GROUP_STATUS_FALLEN\<rparr>)) = Inr s'"
      using run r3 by (auto simp: Let_def split: if_splits)
    then show ?thesis
    proof cases
      case active
      let ?t = "SetGroup s (g\<lparr>grp_Status := GROUP_STATUS_ACTIVE\<rparr>)"
      note t = step [of GROUP_STATUS_ACTIVE, simplified]
      have "requests k ctx ?t s'"
      proof (cases "CallbackRouter_GetRoute (xk_cbRouter k) (grp_ModuleOwner g)")
        case None
        then have "s' = ?t" using active by (simp add: with_callback_def)
        then show ?thesis using touched_refl [OF block_invD(5) [OF t(1)]] unfolding requests_def by blast
      next
        case (Some c)
        then have "OnGroupCreationCompleted c ctx ?t (grp_ID g) = Inr s'" using active by (simp add: with_callback_def)
        then show ?thesis using cb block_invD(5) [OF t(1)] Some unfolding callbacks_ok_def by blast
      qed
      then show ?thesis using requests_block [OF laws t(1), of ctx s'] f t(2) by (auto simp: queues_def)
    next
      case fallen
      note t = step [of GROUP_STATUS_FALLEN, simplified]
      have "touched (SetGroup s (g\<lparr>grp_Status := GROUP_STATUS_FALLEN\<rparr>)) s'"
        by (rule with_callback_touched [OF cb block_invD(5) [OF t(1)] fallen]) auto
      from touched_block [OF t(1) this] t(2) show ?thesis by (simp add: queues_def)
    qed
  qed
qed

section \<open>Expired groups\<close>

lemma DKG_key_inj: "fits a \<Longrightarrow> fits b \<Longrightarrow> DKGContextStoreKey a = DKGContextStoreKey b \<longleftrightarrow> a = b"
  by (simp add: DKGContextStoreKey_def be8_inj fits_def)

text \<open>A group that is no longer in creation needs no data of the rounds.\<close>

lemma interim_dkg:
  assumes inv: "block_inv k [] Q X s" and g: "gv (xs_groups s) gid = Some g"
    and st: "grp_Status g \<in> {GROUP_STATUS_ACTIVE, GROUP_STATUS_FALLEN, GROUP_STATUS_EXPIRED}"
  shows "block_inv k [] Q X (DeleteAllDKGInterimData s gid)" "queues (DeleteAllDKGInterimData s gid) = queues s"
proof -
  let ?t = "DeleteAllDKGInterimData s gid"
  note b = block_invD [OF inv] and i = dkg_invD [OF block_invD(2) [OF inv]] and gi = groups_invD [OF dkg_invD(1) [OF block_invD(2) [OF inv]]]
  have fg: "fits gid" using view_fits(1) [OF g] .
  note defs = DeleteAllDKGInterimData_def DeleteDKGContext_def DeleteAccumulatedCommits_def DeleteRound1Infos_def DeleteRound2Infos_def
    DeleteConfirmComplains_def Let_def
  have E: "xs_groups ?t = xs_groups s" "xs_members ?t = xs_members s" "xs_group_count ?t = xs_group_count s"
    "xs_last_expired ?t = xs_last_expired s" "xs_params ?t = xs_params s" "xs_de ?t = xs_de s" "xs_deq ?t = xs_deq s"
    "xs_acc ?t = delete_prefix (xs_acc s) (AccumulatedCommitsStoreKey gid)" "same_signing s ?t"
    by (simp_all add: defs same_signing_def)
  show "queues ?t = queues s" by (simp add: defs queues_def)
  have other: "same_groups s ?t j" if "fits j" "j \<noteq> gid" for j
    using that fg by (simp add: same_groups_def same_tables_def defs kv_has_def DKG_key_inj)
  have d: "dkg_inv k [] ?t"
  proof (rule dkg_inv_change [OF b(2) g])
    show "gv (xs_groups ?t) gid = Some g" by (simp add: E g)
    show "\<forall>j. fits j \<longrightarrow> j \<noteq> gid \<longrightarrow> same_groups s ?t j" using other by blast
    show "dkg_at k ?t gid g" using i(5) [OF g] st unfolding dkg_at_def E by (auto simp: dkg_group.simps)
    show "kv_ok (xs_acc ?t)" "wf_keys AccumulatedCommitsStoreKey fits (xs_acc ?t)" using i(3,4) unfolding E by auto
    show "members_inv (xk_sdk k) (xs_groups ?t) (xs_members ?t)" using b(5) by (simp add: E)
    show "kv_has (xs_dkg ?t) (DKGContextStoreKey gid)"
      if "grp_Status g = GROUP_STATUS_ROUND_1 \<or> grp_Status g = GROUP_STATUS_ROUND_2 \<or> grp_Status g = GROUP_STATUS_ROUND_3" using that st by auto
    show "gid \<in> set [] \<longleftrightarrow> done_at ?t gid g" using st by (auto simp: done_at_def round_done_def)
  qed (use E st gi(1) gi(4) [OF g] in auto)
  have "active_kept s ?t" by (simp add: active_kept_def E)
  then show "block_inv k [] Q X ?t" using block_inv_frame [OF inv E(9) _ E(6,7,5) d] by blast
qed

lemma last_expired_inv:
  assumes inv: "block_inv k P Q X (s\<lparr>xs_last_expired := n\<rparr>)" and g: "gv (xs_groups s) (Suc n) = Some g"
    and st: "grp_Status g \<in> {GROUP_STATUS_ACTIVE, GROUP_STATUS_FALLEN, GROUP_STATUS_EXPIRED}"
  shows "block_inv k P Q X (s\<lparr>xs_last_expired := Suc n\<rparr>)"
proof -
  let ?s = "s\<lparr>xs_last_expired := n\<rparr>" and ?t = "s\<lparr>xs_last_expired := Suc n\<rparr>"
  note i = dkg_invD [OF block_invD(2) [OF inv]]
  have "Suc n \<le> xs_group_count s" using groups_invD(3) [OF i(1)] g by (auto simp: domI)
  moreover have "grp_Status h \<in> {GROUP_STATUS_ACTIVE, GROUP_STATUS_FALLEN, GROUP_STATUS_EXPIRED}"
    if "gv (xs_groups s) j = Some h" "j \<le> Suc n" for j h
    using i(9) [of j h] that g st by (cases "j = Suc n") auto
  ultimately have d: "dkg_inv k P ?t" using block_invD(2) [OF inv] unfolding dkg_inv_def by (simp add: dkg_at_def done_at_def)
  show ?thesis by (rule block_inv_frame [OF inv _ _ _ _ _ d]) (simp_all add: same_signing_def active_kept_def)
qed

lemma touched_last: 
  assumes "touched s s'"
  shows "touched (s\<lparr>xs_last_expired := n\<rparr>) (s'\<lparr>xs_last_expired := n\<rparr>)"
proof -
  obtain M w where "s' = s\<lparr>xs_members := M, xs_world := w\<rparr>" "same_keys (xs_members s) M" "kv_ok M" "wf_keys MembersStoreKey fits M"
    using assms unfolding touched_def by blast
  then show ?thesis unfolding touched_def by (intro exI [of _ M] exI [of _ w]) simp
qed

lemma expire_group_inv:
  assumes cb: "callbacks_ok k" and inv: "block_inv k [] Q X (s\<lparr>xs_last_expired := n\<rparr>)" and g: "gv (xs_groups s) (Suc n) = Some g"
    and ok: "expire_group k ctx s g (Suc n) = Inr s'"
  shows "block_inv k [] Q X (s'\<lparr>xs_last_expired := Suc n\<rparr>) \<and> queues s' = queues s \<and> xs_group_count s' = xs_group_count s \<and>
    xs_params s' = xs_params s"
proof -
  let ?n = "Suc n"
  have fg: "fits ?n" using view_fits(1) [OF g] .
  have id: "grp_ID g = ?n" using groups_invD(4) [OF dkg_invD(1) [OF block_invD(2) [OF inv]]] g by simp
  obtain t h where t: "block_inv k [] Q X (t\<lparr>xs_last_expired := n\<rparr>)" "queues t = queues s" "xs_group_count t = xs_group_count s"
      "xs_params t = xs_params s"
    and h: "gv (xs_groups t) ?n = Some h" "grp_Status h \<in> {GROUP_STATUS_ACTIVE, GROUP_STATUS_FALLEN, GROUP_STATUS_EXPIRED}"
    and s': "s' = DeleteAllDKGInterimData t ?n"
  proof (cases "grp_Status g = GROUP_STATUS_ACTIVE \<or> grp_Status g = GROUP_STATUS_FALLEN")
    case True
    then show ?thesis using that [of s g] ok inv g unfolding expire_group_def by auto
  next
    case False
    obtain u where u: "with_callback k (grp_ModuleOwner g) (\<lambda>cb. OnGroupCreationExpired cb ctx s (grp_ID g)) s = Inr u"
      and s': "s' = DeleteAllDKGInterimData (SetGroup u (g\<lparr>grp_Status := GROUP_STATUS_EXPIRED\<rparr>)) ?n"
      using ok False unfolding expire_group_def by auto
    have "members_inv (xk_sdk k) (xs_groups s) (xs_members s)" using block_invD(5) [OF inv] by simp
    then have tu: "touched s u" by (rule with_callback_touched [OF cb _ u]) auto
    have ub: "block_inv k [] Q X (u\<lparr>xs_last_expired := n\<rparr>)" using touched_block [OF inv touched_last [OF tu]] by simp
    have ug: "gv (xs_groups (u\<lparr>xs_last_expired := n\<rparr>)) ?n = Some g" "queues u = queues s" "xs_params u = xs_params s" "xs_group_count u = xs_group_count s"
      using touched_fields [OF tu] tu g by (auto simp: touched_def)
    let ?h = "g\<lparr>grp_Status := GROUP_STATUS_EXPIRED\<rparr>"
    have "block_inv k [] Q X (SetGroup (u\<lparr>xs_last_expired := n\<rparr>) ?h)"
      by (rule SetGroup_block [OF ub ug(1)]) (use False id in \<open>simp_all add: dkg_at_def dkg_group.simps done_at_def round_done_def\<close>)
    moreover have "SetGroup (u\<lparr>xs_last_expired := n\<rparr>) ?h = (SetGroup u ?h)\<lparr>xs_last_expired := n\<rparr>" by (simp add: SetGroup_def)
    ultimately have "block_inv k [] Q X ((SetGroup u ?h)\<lparr>xs_last_expired := n\<rparr>)" by (simp only:)
    moreover have "gv (xs_groups (SetGroup u ?h)) ?n = Some ?h" using fg id by (simp add: SetGroup_def del: Suc_eq_plus1)
    ultimately show ?thesis
      using that [of "SetGroup u ?h" ?h] s' ug by (simp add: SetGroup_def queues_def)
  qed
  let ?d = "DeleteAllDKGInterimData (t\<lparr>xs_last_expired := n\<rparr>) ?n"
  have D: "?d = s'\<lparr>xs_last_expired := n\<rparr>" "queues s' = queues t" "xs_group_count s' = xs_group_count t" "xs_params s' = xs_params t"
    "xs_groups s' = xs_groups t"
    unfolding s' by (simp_all add: DeleteAllDKGInterimData_def DeleteDKGContext_def DeleteAccumulatedCommits_def DeleteRound1Infos_def
        DeleteRound2Infos_def DeleteConfirmComplains_def Let_def queues_def)
  have "block_inv k [] Q X ?d" by (rule interim_dkg [OF t(1)]) (use h in simp_all)
  then have "block_inv k [] Q X (s'\<lparr>xs_last_expired := ?n\<rparr>)" unfolding D(1) by (rule last_expired_inv) (use h D(5) in simp_all)
  then show ?thesis using D t by simp
qed

lemma expire_groups_inv:
  assumes cb: "callbacks_ok k"
  shows "expire_groups k ctx s (Suc n) c = Inr (gid, s') \<Longrightarrow> n + c = xs_group_count s \<Longrightarrow>
    block_inv k [] Q X (s\<lparr>xs_last_expired := n\<rparr>) \<Longrightarrow>
    block_inv k [] Q X (s'\<lparr>xs_last_expired := gid - 1\<rparr>) \<and> queues s' = queues s"
proof (induction c arbitrary: n s)
  case (Suc c)
  have gs: "groups_inv (xs_groups s) (xs_group_count s)" using dkg_invD(1) [OF block_invD(2) [OF Suc.prems(3)]] by simp
  have "Suc n \<in> dom (gv (xs_groups s))" using groups_invD(3) [OF gs] Suc.prems(2) by simp
  then obtain g where g: "gv (xs_groups s) (Suc n) = Some g" by blast
  have mg: "MustGetGroup s (Suc n) = Inr g" using g view_fits(1) [OF g] by (simp add: MustGetGroup_iff)
  show ?case
  proof (cases "u64 (grp_CreatedHeight g + xp_CreationPeriod (xs_params s)) > to_uint64 (xc_BlockHeight ctx)")
    case True
    then show ?thesis using Suc.prems mg by auto
  next
    case False
    then obtain t where t: "expire_group k ctx s g (Suc n) = Inr t" "expire_groups k ctx t (Suc (Suc n)) c = Inr (gid, s')"
      using Suc.prems(1) mg by auto
    note e = expire_group_inv [OF cb Suc.prems(3) g t(1)]
    show ?thesis using Suc.IH [OF t(2)] e Suc.prems(2) by simp
  qed
qed auto

section \<open>The end of a block\<close>

lemma process_groups_inv:
  assumes laws: "address_laws (xk_sdk k)" and cb: "callbacks_ok k"
  shows "foldE (HandleProcessGroup k ctx) s P = Inr s' \<Longrightarrow> block_inv k P Q X s \<Longrightarrow> fits (xs_signing_count s + length P) \<Longrightarrow>
    block_inv k [] Q X s' \<and> xs_pending_groups s' = xs_pending_groups s \<and> xs_pending_signings s' = xs_pending_signings s"
proof (induction P arbitrary: s)
  case (Cons gid P)
  obtain t where t: "HandleProcessGroup k ctx s gid = Inr t" "foldE (HandleProcessGroup k ctx) t P = Inr s'" using Cons.prems(1) by auto
  have "fits (xs_signing_count s + 1)" using Cons.prems(3) by (auto simp: fits_def)
  note h = HandleProcessGroup_inv [OF laws cb Cons.prems(2) this t(1)]
  have "fits (xs_signing_count t + length P)" using Cons.prems(3) h by (auto simp: fits_def)
  then show ?case using Cons.IH [OF t(2)] h by simp
qed simp

lemma EndBlocker_inv:
  assumes laws: "address_laws (xk_sdk k)" and cb: "callbacks_ok k" and inv: "tss_inv k s"
    and f: "fits (xs_signing_count s + length (xs_pending_groups s))" and ok: "tss_EndBlocker k ctx s = Inr s'"
  shows "tss_inv k s' \<and> xs_pending_groups s' = [] \<and> xs_pending_signings s' = []"
proof -
  obtain t where t: "foldE (HandleProcessGroup k ctx) s (xs_pending_groups s) = Inr t"
    and r: "bindE (HandleExpiredGroups k ctx (t\<lparr>xs_pending_groups := []\<rparr>)) (HandleSigningEndBlock k ctx) = Inr s'"
    using ok by (auto simp: tss_EndBlocker_def Let_def)
  let ?t = "t\<lparr>xs_pending_groups := []\<rparr>"
  have bt: "block_inv k [] (xs_pending_signings s) {} t" "xs_pending_signings t = xs_pending_signings s"
    using process_groups_inv [OF laws cb t] inv f unfolding tss_inv_block by simp_all
  have b: "block_inv k [] (xs_pending_signings s) {} ?t" by (rule block_inv_queues(1) [OF bt(1)])
  obtain gid u where e: "expire_groups k ctx ?t (Suc (xs_last_expired t)) (xs_group_count t - xs_last_expired t) = Inr (gid, u)"
    and s': "HandleSigningEndBlock k ctx (u\<lparr>xs_last_expired := gid - 1\<rparr>) = Inr s'"
    using r by (auto simp: HandleExpiredGroups_def Let_def)
  have "xs_last_expired t \<le> xs_group_count t" using dkg_invD(8) [OF block_invD(2) [OF bt(1)]] .
  then have u: "block_inv k [] (xs_pending_signings s) {} (u\<lparr>xs_last_expired := gid - 1\<rparr>)" "queues u = queues ?t"
    using expire_groups_inv [OF cb e] b by simp_all
  have "block_inv k [] [] {} s' \<and> xs_pending_signings s' = [] \<and> xs_pending_groups s' = xs_pending_groups u"
    using HandleSigningEndBlock_inv [OF laws cb _ s'] u bt(2) by (simp add: queues_def)
  then show ?thesis using u(2) by (simp add: tss_inv_block queues_def)
qed

end
