(* ===== verification/Xtss_Steps.thy ===== *)
theory Xtss_Steps
  imports Xtss_Proc
begin

text \<open>
  The steps of \<open>x/tss\<close>: messages, what other modules call, and the end of a block. Every reachable state satisfies the invariant.
\<close>

section \<open>Messages of key generation\<close>

lemma pending_cases [simp]:
  "same_signing s (if b then AddPendingProcessGroup t gid else t) = same_signing s t"
  "xs_groups (if b then AddPendingProcessGroup t gid else t) = xs_groups t"
  "xs_members (if b then AddPendingProcessGroup t gid else t) = xs_members t"
  "xs_de (if b then AddPendingProcessGroup t gid else t) = xs_de t"
  "xs_deq (if b then AddPendingProcessGroup t gid else t) = xs_deq t"
  "xs_params (if b then AddPendingProcessGroup t gid else t) = xs_params t"
  "xs_pending_signings (if b then AddPendingProcessGroup t gid else t) = xs_pending_signings t"
  by (simp_all add: AddPendingProcessGroup_def same_signing_def)

text \<open>What a message of key generation leaves as it is.\<close>

definition dkg_frame :: "'w tss_state \<Rightarrow> 'w tss_state \<Rightarrow> bool" where
  "dkg_frame s s' \<longleftrightarrow> same_signing s s' \<and> xs_groups s' = xs_groups s \<and> xs_de s' = xs_de s \<and> xs_deq s' = xs_deq s \<and>
     xs_params s' = xs_params s \<and> xs_pending_signings s' = xs_pending_signings s"

lemma dkg_step_inv:
  assumes inv: "tss_inv k s" and fr: "dkg_frame s s'" and kept: "active_kept s s'" and d: "dkg_inv k (xs_pending_groups s') s'"
  shows "tss_inv k s'"
proof -
  have "block_inv k (xs_pending_groups s') (xs_pending_signings s) {} s'"
    by (rule block_inv_frame [OF inv [unfolded tss_inv_block] _ kept _ _ _ d]) (use fr in \<open>auto simp: dkg_frame_def\<close>)
  then show ?thesis unfolding tss_inv_block using fr by (simp add: dkg_frame_def)
qed

lemma kept_members: "xs_groups s' = xs_groups s \<Longrightarrow> xs_members s' = xs_members s \<Longrightarrow> active_kept s s'"
  by (simp add: active_kept_def)

lemma AddCoefficientCommits_frame: "AddCoefficientCommits k s gid cs = Inr s' \<Longrightarrow> \<exists>A. s' = s\<lparr>xs_acc := A\<rparr>"
  unfolding AddCoefficientCommits_def
  by (erule foldE_invariant) (auto simp: Let_def SetAccumulatedCommit_def intro: exI [of _ "xs_acc s"])

lemma SubmitDKGRound1_step:
  assumes laws: "curve_laws (xk_curve k)" and inv: "tss_inv k s" and f: "fits (m1_GroupID req)" "fits (ri_MemberID (m1_Round1Info req))"
    and ok: "SubmitDKGRound1 k s req = Inr s'"
  shows "tss_inv k s'"
proof -
  obtain t g where t: "AddCoefficientCommits k s (m1_GroupID req) (ri_CoefficientCommits (m1_Round1Info req)) = Inr t"
    and s': "s' = (let s = AddRound1Info t (m1_GroupID req) (m1_Round1Info req) in
       if GetRound1InfoCount s (m1_GroupID req) = grp_Size (g :: Group) then AddPendingProcessGroup s (m1_GroupID req) else s)"
    using ok by (auto simp: SubmitDKGRound1_def Let_def split: if_splits intro: that)
  obtain A where A: "t = s\<lparr>xs_acc := A\<rparr>" using AddCoefficientCommits_frame [OF t] by blast
  have e: "dkg_frame s s'" "xs_groups s' = xs_groups s" "xs_members s' = xs_members s" unfolding s' A Let_def dkg_frame_def pending_cases
    by (simp_all add: AddRound1Info_def SetRound1Info_def SetRound1InfoCount_def same_signing_def Let_def)
  show ?thesis
    by (rule dkg_step_inv [OF inv e(1) kept_members [OF e(2,3)] SubmitDKGRound1_inv [OF laws _ f ok]]) (use inv in \<open>simp add: tss_inv_def\<close>)
qed

lemma SubmitDKGRound2_step:
  assumes inv: "tss_inv k s" and f: "fits (m2_GroupID req)" "fits (r2_MemberID (m2_Round2Info req))"
    and ok: "SubmitDKGRound2 k s req = Inr s'"
  shows "tss_inv k s'"
proof -
  define gid mid where "gid = m2_GroupID req" and "mid = r2_MemberID (m2_Round2Info req)"
  have d: "dkg_inv k (xs_pending_groups s) s" using inv by (simp add: tss_inv_def)
  obtain g t where g: "gv (xs_groups s) gid = Some g" "grp_Status g = GROUP_STATUS_ROUND_2" and upd: "UpdateMemberPubKey k s gid mid = Inr t"
    and s1: "s' = (let s = AddRound2Info t gid (m2_Round2Info req) in
       if GetRound2InfoCount s gid = grp_Size g then AddPendingProcessGroup s gid else s)"
    using ok f by (auto simp: SubmitDKGRound2_def Let_def GetGroup_iff gid_def mid_def split: if_splits)
  obtain m pk where m: "mv (xs_members s) gid mid = Some m" and t: "t = SetMember s (m\<lparr>mem_PubKey := pk\<rparr>)"
    using upd f(2) by (auto simp: UpdateMemberPubKey_def GetMember_iff mid_def)
  note s' = s1 [unfolded t]
  have fg: "fits gid" using view_fits(1) [OF g(1)] .
  have e: "dkg_frame s s'" "xs_groups s' = xs_groups s" "xs_members s' = kv_set (xs_members s) (MemberStoreKey (mem_GroupID m) (mem_ID m)) (m\<lparr>mem_PubKey := pk\<rparr>)"
    unfolding s' Let_def dkg_frame_def pending_cases
    by (simp_all add: AddRound2Info_def SetRound2Info_def SetRound2InfoCount_def SetMember_def same_signing_def Let_def)
  have "mv (xs_members s') b = mv (xs_members s) b" if "b \<noteq> gid" "fits b" for b
    using members_inv_set(2) [OF dkg_invD(2) [OF d] fg m, of "m\<lparr>mem_PubKey := pk\<rparr>" b] that unfolding e by simp
  moreover have "b \<noteq> gid" if "gv (xs_groups s) b = Some h" "grp_Status h = GROUP_STATUS_ACTIVE" for b h using that g by auto
  ultimately have "active_kept s s'" unfolding active_kept_def e(2) using view_fits(1) by metis
  then show ?thesis by (rule dkg_step_inv [OF inv e(1) _ SubmitDKGRound2_inv [OF d f ok]])
qed

lemma round3_frame:
  "dkg_frame s (AddComplaintsWithStatus s gid cw)" "xs_members (AddComplaintsWithStatus s gid cw) = xs_members s"
  "dkg_frame s (AddConfirm s gid cn)" "xs_members (AddConfirm s gid cn) = xs_members s"
  by (simp_all add: AddComplaintsWithStatus_def AddConfirm_def SetComplaintsWithStatus_def SetConfirm_def SetConfirmComplainCount_def
      Let_def dkg_frame_def same_signing_def)

lemma flags_touched:
  assumes "flags_change s t"
  shows "touched s t"
proof -
  obtain M where "t = s\<lparr>xs_members := M\<rparr>" "same_keys (xs_members s) M" "kv_ok M" "wf_keys MembersStoreKey fits M"
    using assms unfolding flags_change_def by blast
  then show ?thesis unfolding touched_def by (intro exI [of _ M] exI [of _ "xs_world s"]) simp
qed

lemma Complain_step:
  assumes inv: "tss_inv k s" and f: "fits (mcp_GroupID req)" "\<forall>c\<in>set (mcp_Complaints req). fits (comp_Complainant c) \<and> fits (comp_Respondent c)"
    and ok: "Complain k s req = Inr s'"
  shows "tss_inv k s'"
proof -
  have d: "dkg_inv k (xs_pending_groups s) s" using inv by (simp add: tss_inv_def)
  obtain g cws t cw where pc: "ProcessComplaint k s (mcp_Complaints req) (mcp_GroupID req) = Inr (cws, t)"
    and s': "s' = (let s = AddComplaintsWithStatus t (mcp_GroupID req) cw in
        if GetConfirmComplainCount s (mcp_GroupID req) = grp_Size (g :: Group) then AddPendingProcessGroup s (mcp_GroupID req) else s)"
    using ok by (auto simp: Complain_def Let_def split: if_splits intro: that)
  have ch: "flags_change s t" using ProcessComplaint_change [OF dkg_invD(2) [OF d] f] pc unfolding ProcessComplaint_def by blast
  have t: "dkg_frame s t" using ch by (auto simp: flags_change_def dkg_frame_def same_signing_def)
  have "dkg_frame s s'" "xs_groups s' = xs_groups t" "xs_members s' = xs_members t"
    using t round3_frame(1,2) [of t "mcp_GroupID req" cw] unfolding s' Let_def dkg_frame_def pending_cases by (simp_all add: same_signing_def)
  moreover from this have "active_kept s s'" using touched_kept [OF flags_touched [OF ch]] unfolding active_kept_def by simp
  ultimately show ?thesis using dkg_step_inv [OF inv _ _ Complain_inv [OF d f ok]] by blast
qed

lemma Confirm_step:
  assumes inv: "tss_inv k s" and f: "fits (mcf_GroupID req)" "fits (mcf_MemberID req)" and ok: "tss_Confirm k s req = Inr s'"
  shows "tss_inv k s'"
proof -
  have d: "dkg_inv k (xs_pending_groups s) s" using inv by (simp add: tss_inv_def)
  obtain g cn where s': "s' = (let s = AddConfirm s (mcf_GroupID req) cn in
        if GetConfirmComplainCount s (mcf_GroupID req) = grp_Size (g :: Group) then AddPendingProcessGroup s (mcf_GroupID req) else s)"
    using ok by (auto simp: tss_Confirm_def Let_def split: if_splits intro: that)
  have "dkg_frame s s'" "xs_groups s' = xs_groups s" "xs_members s' = xs_members s"
    using round3_frame(3,4) [of s "mcf_GroupID req" cn] unfolding s' Let_def dkg_frame_def pending_cases by simp_all
  then show ?thesis using dkg_step_inv [OF inv _ kept_members Confirm_inv [OF d f ok]] by blast
qed

section \<open>Other messages\<close>

lemma nonces_inv:
  assumes "tss_inv k s" "s' = s\<lparr>xs_de := D, xs_deq := Q\<rparr>" "de_inv k s'"
  shows "tss_inv k s'"
proof -
  have "same_dkg s s'" "same_signing s s'" "xs_pending_signings s' = xs_pending_signings s"
    unfolding assms(2) by (simp_all add: same_dkg_def same_signing_def)
  then show ?thesis using assms(1,3) same_dkg_inv [of k _ s s'] sign_inv_frame [OF _ _ same_dkg_kept, of k _ _ s s']
    unfolding tss_inv_def by (simp add: same_dkg_def)
qed

lemma SubmitDEs_step:
  assumes laws: "address_laws (xk_sdk k)" and inv: "tss_inv k s"
    and room: "\<And>a. AccAddressFromBech32 (xk_sdk k) (mde_Sender req) = Inr a \<Longrightarrow> de_room k s a (length (mde_DEs req))"
    and ok: "SubmitDEs k s req = Inr s'"
  shows "tss_inv k s'"
proof -
  obtain a where a: "AccAddressFromBech32 (xk_sdk k) (mde_Sender req) = Inr a" and e: "EnqueueDEs k s a (mde_DEs req) = Inr s'"
    using ok by (auto simp: SubmitDEs_def)
  have "valid_addr a" using laws a by (auto simp: address_laws_def)
  then show ?thesis using EnqueueDEs_spec [OF laws _ _ room [OF a] e] inv nonces_inv [OF inv] unfolding tss_inv_def by blast
qed

lemma ResetDE_step:
  assumes laws: "address_laws (xk_sdk k)" and inv: "tss_inv k s" and ok: "msg_ResetDE k s sender = Inr s'"
  shows "tss_inv k s'"
proof -
  obtain a where a: "AccAddressFromBech32 (xk_sdk k) sender = Inr a" and e: "ResetDE k s a = Inr s'"
    using ok by (auto simp: msg_ResetDE_def)
  have "valid_addr a" using laws a by (auto simp: address_laws_def)
  moreover have "de_inv k s" using inv by (simp add: tss_inv_def)
  ultimately show ?thesis using ResetDE_spec [OF laws, of s a] e nonces_inv [OF inv] by auto
qed

lemma SubmitSignature_step:
  assumes inv: "tss_inv k s" and f: "fits (mss_SigningID req)" "fits (mss_MemberID req)"
    and vb: "MsgSubmitSignature_ValidateBasic (xk_sdk k) (xk_curve k) req = Inr ()" and ok: "SubmitSignature k s req = Inr s'"
  shows "tss_inv k s'"
proof -
  have i: "tss_params_ok (xs_params s)" "dkg_inv k (xs_pending_groups s) s" "de_inv k s" "sign_inv k (xs_pending_signings s) {} s"
    using inv by (simp_all add: tss_inv_def)
  note n = SubmitSignature_inv [OF i(2,4) f vb ok]
  show ?thesis using i(1,3) same_dkg_inv [OF i(2) n(1)] n unfolding tss_inv_def by (simp add: same_dkg_def de_inv_def GetDEQueue_def)
qed

lemma RequestSigning_step:
  assumes laws: "address_laws (xk_sdk k)" and inv: "tss_inv k s" and f: "fits gid" "fits (xs_signing_count s + 1)"
    and ok: "tss_RequestSigning k ctx s gid originator content = Inr (sid, s')"
  shows "tss_inv k s'"
proof -
  have i: "tss_params_ok (xs_params s)" "dkg_inv k (xs_pending_groups s) s" "de_inv k s" "sign_inv k (xs_pending_signings s) {} s"
    using inv by (simp_all add: tss_inv_def)
  note n = tss_RequestSigning_inv [OF laws i f ok]
  show ?thesis using i(1) same_dkg_inv [OF i(2) n(1)] n unfolding tss_inv_def by (simp add: same_dkg_def)
qed

lemma touched_step: "tss_inv k s \<Longrightarrow> touched s s' \<Longrightarrow> tss_inv k s'"
  unfolding tss_inv_block using touched_block [of k _ _ "{}" s s'] by (auto simp: queues_def)

lemma SetMemberIsActive_touched:
  assumes inv: "members_inv sdk (xs_groups s) (xs_members s)" and f: "fits gid" and ok: "SetMemberIsActive k s gid a b = Inr s'"
  shows "touched s s'"
proof -
  obtain ms m where ms: "GetGroupMembers s gid = Inr ms" and m: "m \<in> set ms" and s': "s' = SetMember s (m\<lparr>mem_IsActive := b\<rparr>)"
    using ok by (auto simp: SetMemberIsActive_def GetMemberByAddress_def split: option.splits dest!: find_SomeD)
  have "m \<in> set (GetGroupMembersIterator s gid)" using ms m by (auto simp: GetGroupMembers_def Let_def split: if_splits)
  then obtain i where "mv (xs_members s) gid i = Some m"
    using memt.iterator_values [OF members_invD(1,2) [OF inv] f]
    unfolding GetGroupMembersIterator_def mv_def by (auto simp: finite_dom_view)
  from flags_change_set [OF inv f this, of "m\<lparr>mem_IsActive := b\<rparr>"] show ?thesis unfolding s' by (simp add: flags_touched)
qed

lemma UpdateParams_step:
  assumes inv: "tss_inv k s" and f: "fits (xp_MaxGroupSize p)" "fits (xp_MaxSigningAttempt p + 1)" and ok: "tss_UpdateParams k s auth p = Inr s'"
  shows "tss_inv k s'"
proof -
  have s': "s' = s\<lparr>xs_params := p\<rparr>" "tss_Params_Validate p = Inr ()" using ok by (auto simp: tss_UpdateParams_def tss_SetParams_def split: if_splits)
  have "dkg_inv k (xs_pending_groups s) s'" "de_inv k s'" using inv unfolding s'(1) tss_inv_def dkg_inv_def dkg_at_def done_at_def de_inv_def GetDEQueue_def by simp_all
  moreover have "sign_inv k (xs_pending_signings s) {} s'"
    by (rule sign_inv_frame [of k _ _ s]) (use inv in \<open>simp_all add: s'(1) tss_inv_def same_signing_def active_kept_def\<close>)
  ultimately show ?thesis using s' f unfolding tss_inv_def by (simp add: tss_params_ok_def)
qed

section \<open>Creation of a group\<close>

lemma SetMember_loop:
  assumes M: "kv_ok (xs_members s)" "wf_keys MembersStoreKey fits (xs_members s)" and f: "fits gid" "fits (length ms)"
    and mk: "\<And>i a. mem_ID (mk i a) = i + 1 \<and> mem_GroupID (mk i a) = gid"
  shows "\<exists>M. foldl (\<lambda>s (i, a). SetMember s (mk i a)) s (enumerate 0 ms) = s\<lparr>xs_members := M\<rparr> \<and> kv_ok M \<and> wf_keys MembersStoreKey fits M \<and>
    (\<forall>b. fits b \<longrightarrow> mv M b = (if b = gid
       then (\<lambda>j. if 1 \<le> j \<and> j \<le> length ms then Some (mk (j - 1) (ms ! (j - 1))) else mv (xs_members s) gid j) else mv (xs_members s) b))"
  using f(2)
proof (induction ms rule: rev_induct)
  case Nil
  then show ?case using M by (intro exI [of _ "xs_members s"]) (auto simp: fun_eq_iff)
next
  case (snoc a ms)
  have fl: "fits (length ms)" "fits (length ms + 1)" using snoc.prems by (simp_all add: fits_def)
  obtain M where D: "foldl (\<lambda>s (i, a). SetMember s (mk i a)) s (enumerate 0 ms) = s\<lparr>xs_members := M\<rparr>" and M: "kv_ok M" "wf_keys MembersStoreKey fits M"
    and v: "\<And>b. fits b \<Longrightarrow> mv M b = (if b = gid
       then (\<lambda>j. if 1 \<le> j \<and> j \<le> length ms then Some (mk (j - 1) (ms ! (j - 1))) else mv (xs_members s) gid j) else mv (xs_members s) b)"
    using snoc.IH [OF fl(1)] by blast
  let ?M = "kv_set M (MemberStoreKey gid (length ms + 1)) (mk (length ms) a)"
  have "foldl (\<lambda>s (i, a). SetMember s (mk i a)) s (enumerate 0 (ms @ [a])) = s\<lparr>xs_members := ?M\<rparr>"
    using D mk by (simp add: enumerate_append_eq SetMember_def)
  moreover have "mv ?M b = (if b = gid
       then (\<lambda>j. if 1 \<le> j \<and> j \<le> length (ms @ [a]) then Some (mk (j - 1) ((ms @ [a]) ! (j - 1))) else mv (xs_members s) gid j)
       else mv (xs_members s) b)" if b: "fits b" for b
    unfolding table_set(1) [OF f(1) b fl(2)] using v [OF b] v [OF f(1)]
    by (auto simp: fun_eq_iff nth_append not_less le_less less_Suc_eq)
  moreover have "kv_ok ?M" "wf_keys MembersStoreKey fits ?M"
    using M f(1) fl(2) unfolding MemberStoreKey_def by (auto simp: fits_def intro!: wf_keys_set)
  ultimately show ?case by blast
qed

lemma distinct_check:
  "foldE (\<lambda>seen addr. if addr \<in> set seen then Inl e else Inr (addr # seen)) acc xs = Inr acc' \<Longrightarrow> distinct xs \<and> set xs \<inter> set acc = {}"
  by (induction xs arbitrary: acc) (auto split: if_splits, fastforce+)

lemma CreateGroup_step:
  assumes laws: "address_laws (xk_sdk k)" and inv: "tss_inv k s"
    and f: "fits (xs_group_count s + 1)" "fits threshold" "\<forall>a\<in>set members. valid_addr a"
    and ok: "CreateGroup k ctx s members threshold owner = Inr (gid, s')"
  shows "tss_inv k s'"
proof -
  let ?n = "xs_group_count s + 1"
  have i0: "tss_params_ok (xs_params s)" "dkg_inv k (xs_pending_groups s) s" using inv by (simp_all add: tss_inv_def)
  note i = dkg_invD [OF i0(2)] and gi = groups_invD [OF dkg_invD(1) [OF i0(2)]] and md = members_invD [OF dkg_invD(2) [OF i0(2)]]
  have u: "u64 ?n = ?n" using f(1) by simp
  define mk where "mk = (\<lambda>i addr. \<lparr>mem_ID = i + 1, mem_GroupID = ?n, mem_Address = AccAddress_String (xk_sdk k) addr, mem_PubKey = [],
                               mem_IsMalicious = False, mem_IsActive = True\<rparr>)"
  define g where "g = \<lparr>grp_ID = ?n, grp_Size = length members, grp_Threshold = threshold, grp_PubKey = [],
                   grp_Status = GROUP_STATUS_ROUND_1, grp_CreatedHeight = to_uint64 (xc_BlockHeight ctx), grp_ModuleOwner = owner\<rparr>"
  obtain seen where sz0: "members \<noteq> []" and sz1: "length members \<le> xp_MaxGroupSize (xs_params s)"
    and ds: "foldE (\<lambda>seen addr. if addr \<in> set seen then Inl ErrInvalidGroup else Inr (addr # seen)) []
                 (map (AccAddress_String (xk_sdk k)) members) = Inr seen"
    and s': "s' = SetDKGContext (foldl (\<lambda>s (i, a). SetMember s (mk i a)) (SetGroupCount (SetGroup s g) ?n) (enumerate 0 members)) ?n
        (Hash (xk_curve k) [be_bytes 8 ?n, Hash (xk_curve k) [xc_ChainID ctx], xc_LastCommitHash ctx])"
    using ok u [simplified] by (auto simp: CreateGroup_def Let_def AddGroup_def mk_def g_def split: if_splits)
  have sz: "1 \<le> length members" "length members \<le> xp_MaxGroupSize (xs_params s)" using sz0 sz1 by (auto simp: Suc_le_eq)
  have fl: "fits (length members)" using i0(1) sz(2) by (auto simp: tss_params_ok_def fits_def)
  have dist: "distinct (map (AccAddress_String (xk_sdk k)) members)" using distinct_check [OF ds] by simp
  let ?t = "SetGroupCount (SetGroup s g) ?n"
  have tm: "xs_members ?t = xs_members s" by (simp add: SetGroupCount_def SetGroup_def)
  obtain M where M: "foldl (\<lambda>s (i, a). SetMember s (mk i a)) ?t (enumerate 0 members) = ?t\<lparr>xs_members := M\<rparr>" "kv_ok M" "wf_keys MembersStoreKey fits M"
    and mv': "\<And>b. fits b \<Longrightarrow> mv M b = (if b = ?n
       then (\<lambda>j. if 1 \<le> j \<and> j \<le> length members then Some (mk (j - 1) (members ! (j - 1))) else mv (xs_members s) ?n j) else mv (xs_members s) b)"
    using SetMember_loop [of ?t ?n members mk] md(1,2) f(1) fl unfolding tm by (auto simp: mk_def)
  have new: "gv (xs_groups s) ?n = None" using gi(3) by (metis atLeastAtMost_iff domIff add_le_same_cancel1 not_one_le_zero)
  have nm: "mv (xs_members s) ?n j = None" for j
    using md(6) [OF f(1), of j] new by (cases "mv (xs_members s) ?n j") auto
  have mvn: "mv M ?n = (\<lambda>j. if 1 \<le> j \<and> j \<le> length members then Some (mk (j - 1) (members ! (j - 1))) else None)"
    using mv' [OF f(1)] nm by (simp add: fun_eq_iff)
  obtain h where S: "s' = s\<lparr>xs_groups := kv_set (xs_groups s) (GroupStoreKey ?n) g, xs_group_count := ?n, xs_members := M,
      xs_dkg := kv_set (xs_dkg s) (DKGContextStoreKey ?n) h\<rparr>"
    unfolding s' M(1) by (simp add: SetDKGContext_def SetGroupCount_def SetGroup_def g_def)
  have V: "gv (xs_groups s') = (gv (xs_groups s))(?n \<mapsto> g)" unfolding S using f(1) by (simp add: gv_set [OF f(1), simplified])
  have E: "xs_members s' = M" "xs_group_count s' = ?n" "xs_last_expired s' = xs_last_expired s" "xs_acc s' = xs_acc s" "kv_ok (xs_groups s')"
    "xs_pending_groups s' = xs_pending_groups s" "same_signing s s'" "xs_de s' = xs_de s" "xs_deq s' = xs_deq s" "xs_params s' = xs_params s"
    "xs_pending_signings s' = xs_pending_signings s" "kv_has (xs_dkg s') (DKGContextStoreKey ?n)"
    unfolding S using gi(1) by (simp_all add: same_signing_def kv_has_def)
  have T: "r1v (xs_round1 s') = r1v (xs_round1 s)" "n1v (xs_round1_count s') = n1v (xs_round1_count s)" "r2v (xs_round2 s') = r2v (xs_round2 s)"
    "n2v (xs_round2_count s') = n2v (xs_round2_count s)" "cpv (xs_complains s') = cpv (xs_complains s)" "cfv (xs_confirms s') = cfv (xs_confirms s)"
    "ncv (xs_cc_count s') = ncv (xs_cc_count s)" unfolding S by simp_all
  have old: "j \<noteq> ?n \<and> fits j \<and> mv M j = mv (xs_members s) j" if "gv (xs_groups s) j = Some y" for j y
    using that new mv' view_fits(1) by (metis option.distinct(1))
  note e = i(10) [OF f(1)]
  have at: "dkg_at k s' ?n g" unfolding dkg_at_def T E using e by (simp add: dkg_group.simps g_def acc_sums_def)
  have nd: "\<not> done_at s' ?n g" unfolding done_at_def T using e sz0 by (simp add: round_done_def g_def)
  have dk: "kv_has (xs_dkg s') key" if "kv_has (xs_dkg s) key" for key using that unfolding S by (simp add: kv_has_def)
  have "groups_inv (xs_groups s') ?n" unfolding groups_inv_def V using gi f fl sz E(5) by (auto simp: g_def)
  moreover have "members_inv (xk_sdk k) (xs_groups s') M"
    unfolding members_inv_def V
  proof (intro conjI allI impI M(2,3))
    fix b assume b: "fits b"
    show "dom (mv M b) = (case ((gv (xs_groups s))(?n \<mapsto> g)) b of None \<Rightarrow> {} | Some g \<Rightarrow> {1..grp_Size g})"
    proof (cases "b = ?n")
      case True
      then show ?thesis unfolding True mvn by (auto simp: g_def split: if_splits)
    next
      case False
      then show ?thesis using i(2) b mv' [OF b] unfolding members_inv_def by simp
    qed
    fix j m assume m: "mv M b j = Some m"
    show "mem_ID m = j" "mem_GroupID m = b" "is_ok (AccAddressFromBech32 (xk_sdk k) (mem_Address m))"
      using m md(4) [OF b] mv' [OF b] mvn f(3) laws by (auto simp: mk_def address_laws_def is_ok_def split: if_splits)
    fix j' m' assume m': "mv M b j' = Some m'" "mem_Address m = mem_Address m'"
    show "j = j'"
    proof (cases "b = ?n")
      case True
      then have "1 \<le> j" "j \<le> length members" "1 \<le> j'" "j' \<le> length members"
          "AccAddress_String (xk_sdk k) (members ! (j - 1)) = AccAddress_String (xk_sdk k) (members ! (j' - 1))"
        using m m' mvn by (auto simp: mk_def split: if_splits)
      moreover from this have "j - 1 < length members" "j' - 1 < length members" by linarith+
      ultimately have "j - 1 = j' - 1" using nth_eq_iff_index_eq [OF dist, of "j - 1" "j' - 1"] by simp
      then show ?thesis using \<open>1 \<le> j\<close> \<open>1 \<le> j'\<close> by linarith
    next
      case False
      then show ?thesis using m m' md(5) [OF b] mv' [OF b] by simp
    qed
  qed
  moreover have d5: "dkg_at k s' j y" if "((gv (xs_groups s))(?n \<mapsto> g)) j = Some y" for j y
  proof (cases "j = ?n")
    case False
    then have y: "gv (xs_groups s) j = Some y" using that by simp
    show ?thesis using i(5) [OF y] old [OF y] unfolding dkg_at_def T E by simp
  qed (use that at in simp)
  have d7: "j \<in> set (xs_pending_groups s) \<longleftrightarrow> (\<exists>y. ((gv (xs_groups s))(?n \<mapsto> g)) j = Some y \<and> done_at s' j y)" for j
    using i(7) [of j] nd new unfolding done_at_def T by auto
  have d8: "xs_last_expired s \<le> ?n" using i(8) by simp
  have d9: "grp_Status y \<in> {GROUP_STATUS_ACTIVE, GROUP_STATUS_FALLEN, GROUP_STATUS_EXPIRED}"
    if "((gv (xs_groups s))(?n \<mapsto> g)) j = Some y" "j \<le> xs_last_expired s" for j y
    using that i(8) i(9) [of j y] by (auto split: if_splits)
  have d11: "kv_has (xs_dkg s') (DKGContextStoreKey j)" if "((gv (xs_groups s))(?n \<mapsto> g)) j = Some y"
      "grp_Status y = GROUP_STATUS_ROUND_1 \<or> grp_Status y = GROUP_STATUS_ROUND_2 \<or> grp_Status y = GROUP_STATUS_ROUND_3" for j y
    using that E(12) dk i(11) [of j y] by (auto split: if_splits)
  have d10: "dom (r1v (xs_round1 s) j) = {} \<and> n1v (xs_round1_count s) j = None \<and> dom (acv (xs_acc s) j) = {} \<and>
        dom (r2v (xs_round2 s) j) = {} \<and> n2v (xs_round2_count s) j = None \<and> dom (cpv (xs_complains s) j) = {} \<and>
        dom (cfv (xs_confirms s) j) = {} \<and> ncv (xs_cc_count s) j = None" if "fits j" "?n < j" for j
    using i(10) [OF that(1)] that(2) by simp
  ultimately have "dkg_inv k (xs_pending_groups s) s'"
    unfolding dkg_inv_def E V T using i(3,4,6) d5 d7 d8 d9 d11 by (intro conjI) blast+
  moreover have "active_kept s s'" unfolding active_kept_def V E using old by (metis fun_upd_other)
  ultimately have "block_inv k (xs_pending_groups s) (xs_pending_signings s) {} s'"
    using block_inv_frame [OF inv [unfolded tss_inv_block] E(7) _ E(8,9,10)] by blast
  then show ?thesis unfolding tss_inv_block E .
qed

section \<open>Reachable states\<close>

text \<open>The state before genesis.\<close>

definition tss_empty :: "'w \<Rightarrow> 'w tss_state" where
  "tss_empty w = \<lparr>xs_params = tss_DefaultParams, xs_group_count = 0, xs_signing_count = 0, xs_pending_groups = [], xs_pending_signings = [],
     xs_last_expired = 0, xs_expirations = [], xs_groups = [], xs_members = [], xs_dkg = [], xs_round1 = [], xs_round1_count = [],
     xs_acc = [], xs_round2 = [], xs_round2_count = [], xs_complains = [], xs_confirms = [], xs_cc_count = [], xs_de = [], xs_deq = [],
     xs_signings = [], xs_psig_count = [], xs_psigs = [], xs_attempts = [], xs_world = w\<rparr>"

text \<open>
  The steps that change the store of the module. The numbers of messages are 64-bit numbers, and the counters are assumed not to
  wrap around; messages have passed \<open>ValidateBasic\<close> where the handler relies on it.
\<close>

inductive tss_step :: "('p, 'r, 'c, 'w) tss_keeper \<Rightarrow> 'w tss_state \<Rightarrow> 'w tss_state \<Rightarrow> bool" for k where
  round1: "fits (m1_GroupID req) \<Longrightarrow> fits (ri_MemberID (m1_Round1Info req)) \<Longrightarrow> SubmitDKGRound1 k s req = Inr s' \<Longrightarrow> tss_step k s s'"
| round2: "fits (m2_GroupID req2) \<Longrightarrow> fits (r2_MemberID (m2_Round2Info req2)) \<Longrightarrow> SubmitDKGRound2 k s req2 = Inr s' \<Longrightarrow> tss_step k s s'"
| complain: "fits (mcp_GroupID cp) \<Longrightarrow> \<forall>c\<in>set (mcp_Complaints cp). fits (comp_Complainant c) \<and> fits (comp_Respondent c) \<Longrightarrow>
    Complain k s cp = Inr s' \<Longrightarrow> tss_step k s s'"
| confirm: "fits (mcf_GroupID cf) \<Longrightarrow> fits (mcf_MemberID cf) \<Longrightarrow> tss_Confirm k s cf = Inr s' \<Longrightarrow> tss_step k s s'"
| submit_des: "\<forall>a. AccAddressFromBech32 (xk_sdk k) (mde_Sender de) = Inr a \<longrightarrow> de_room k s a (length (mde_DEs de)) \<Longrightarrow>
    SubmitDEs k s de = Inr s' \<Longrightarrow> tss_step k s s'"
| reset_de: "msg_ResetDE k s sender = Inr s' \<Longrightarrow> tss_step k s s'"
| submit_signature: "fits (mss_SigningID sg) \<Longrightarrow> fits (mss_MemberID sg) \<Longrightarrow>
    MsgSubmitSignature_ValidateBasic (xk_sdk k) (xk_curve k) sg = Inr () \<Longrightarrow> SubmitSignature k s sg = Inr s' \<Longrightarrow> tss_step k s s'"
| update_params: "fits (xp_MaxGroupSize p) \<Longrightarrow> fits (xp_MaxSigningAttempt p + 1) \<Longrightarrow> tss_UpdateParams k s auth p = Inr s' \<Longrightarrow> tss_step k s s'"
| create_group: "fits (xs_group_count s + 1) \<Longrightarrow> fits threshold \<Longrightarrow> \<forall>a\<in>set members. valid_addr a \<Longrightarrow>
    CreateGroup k ctx s members threshold owner = Inr (gid, s') \<Longrightarrow> tss_step k s s'"
| request_signing: "fits gid \<Longrightarrow> fits (xs_signing_count s + 1) \<Longrightarrow>
    tss_RequestSigning k ctx s gid originator content = Inr (sid, s') \<Longrightarrow> tss_step k s s'"
| set_active: "fits gid \<Longrightarrow> SetMemberIsActive k s gid a b = Inr s' \<Longrightarrow> tss_step k s s'"
| end_block: "fits (xs_signing_count s + length (xs_pending_groups s)) \<Longrightarrow> tss_EndBlocker k ctx s = Inr s' \<Longrightarrow> tss_step k s s'"
| other_modules: "tss_step k s (s\<lparr>xs_world := w\<rparr>)"

inductive tss_reachable :: "('p, 'r, 'c, 'w) tss_keeper \<Rightarrow> 'w tss_state \<Rightarrow> bool" for k where
  genesis: "fits (xp_MaxGroupSize p) \<Longrightarrow> fits (xp_MaxSigningAttempt p + 1) \<Longrightarrow>
    tss_InitGenesis k (tss_empty w) \<lparr>xg_Params = p, xg_Groups = [], xg_Members = [], xg_DEs = []\<rparr> = Inr s \<Longrightarrow> tss_reachable k s"
| step: "tss_reachable k s \<Longrightarrow> tss_step k s s' \<Longrightarrow> tss_reachable k s'"

text \<open>What the module relies on: addresses, the curve, and the modules that own groups.\<close>

definition tss_laws :: "('p, 'r, 'c, 'w) tss_keeper \<Rightarrow> bool" where
  "tss_laws k \<longleftrightarrow> address_laws (xk_sdk k) \<and> curve_laws (xk_curve k) \<and> callbacks_ok k"

lemma view_empty [simp]:
  "gv [] = Map.empty" "sv [] = Map.empty" "n1v [] = Map.empty" "n2v [] = Map.empty" "ncv [] = Map.empty" "mv [] a = Map.empty"
  "r1v [] a = Map.empty" "r2v [] a = Map.empty" "acv [] a = Map.empty" "cpv [] a = Map.empty" "cfv [] a = Map.empty"
  "av [] a = Map.empty" "npv [] a = Map.empty" "psv [] b = Map.empty" "dv sdk [] addr = Map.empty"
  by (simp_all add: view_defs)

lemma empty_inv:
  assumes "tss_params_ok p"
  shows "tss_inv k ((tss_empty w)\<lparr>xs_params := p\<rparr>)"
  using assms unfolding tss_inv_def
  by (auto simp: tss_empty_def dkg_inv_def groups_inv_def members_inv_def de_inv_def GetDEQueue_def sign_inv_def fits_def Let_def)

lemma genesis_inv:
  assumes "fits (xp_MaxGroupSize p)" "fits (xp_MaxSigningAttempt p + 1)"
    and "tss_InitGenesis k (tss_empty w) \<lparr>xg_Params = p, xg_Groups = [], xg_Members = [], xg_DEs = []\<rparr> = Inr s"
  shows "tss_inv k s"
proof -
  have "s = (tss_empty w)\<lparr>xs_params := p\<rparr>" "tss_Params_Validate p = Inr ()"
    using assms(3) by (auto simp: tss_InitGenesis_def tss_SetParams_def SetGroupGenesis_def SetMembers_def SetGroupCount_def group_des_def Let_def tss_empty_def)
  then show ?thesis using empty_inv [of p k w] assms(1,2) by (simp add: tss_params_ok_def)
qed

lemma tss_step_inv:
  assumes laws: "tss_laws k" and "tss_step k s s'" and inv: "tss_inv k s"
  shows "tss_inv k s'"
proof -
  have a: "address_laws (xk_sdk k)" and c: "curve_laws (xk_curve k)" and cb: "callbacks_ok k" using laws by (simp_all add: tss_laws_def)
  have m: "members_inv (xk_sdk k) (xs_groups s) (xs_members s)" using inv unfolding tss_inv_block by (rule block_invD(5))
  from assms(2) show ?thesis
  proof cases
    case round1
    then show ?thesis by (intro SubmitDKGRound1_step [OF c inv])
  next
    case round2
    then show ?thesis by (intro SubmitDKGRound2_step [OF inv])
  next
    case complain
    then show ?thesis by (intro Complain_step [OF inv])
  next
    case confirm
    then show ?thesis by (intro Confirm_step [OF inv])
  next
    case submit_des
    then show ?thesis by (intro SubmitDEs_step [OF a inv]) blast+
  next
    case reset_de
    then show ?thesis by (rule ResetDE_step [OF a inv])
  next
    case submit_signature
    then show ?thesis by (intro SubmitSignature_step [OF inv])
  next
    case update_params
    then show ?thesis by (intro UpdateParams_step [OF inv])
  next
    case create_group
    then show ?thesis by (intro CreateGroup_step [OF a inv])
  next
    case request_signing
    then show ?thesis by (intro RequestSigning_step [OF a inv])
  next
    case set_active
    then show ?thesis by (intro touched_step [OF inv SetMemberIsActive_touched [OF m]])
  next
    case end_block
    then show ?thesis using EndBlocker_inv [OF a cb inv] by blast
  next
    case (other_modules w)
    have "touched s s'" unfolding touched_def other_modules
      by (intro exI [of _ "xs_members s"] exI [of _ w]) (use members_invD(1,2) [OF m] in simp)
    then show ?thesis by (rule touched_step [OF inv])
  qed
qed

lemma reachable_inv:
  assumes "tss_laws k"
  shows "tss_reachable k s \<Longrightarrow> tss_inv k s"
  by (induction rule: tss_reachable.induct) (use assms in \<open>auto intro: genesis_inv tss_step_inv\<close>)

end
