(* ===== verification/Xtss_Run.thy ===== *)
theory Xtss_Run
  imports Xtss_Steps Tss_Props
begin

text \<open>
  The steps as an executable function, for running the module: an action carries the message or the call, and the guards are those of the
  step relation.
\<close>

datatype 'c tss_action =
    Round1 MsgSubmitDKGRound1
  | Round2 MsgSubmitDKGRound2
  | Complaints MsgComplain
  | Confirms MsgConfirm
  | Nonces MsgSubmitDEs
  | Signs MsgSubmitSignature
  | Creates tss_ctx "bytes list" uint64 bytes
  | Requests tss_ctx GroupID Originator 'c
  | EndBlock tss_ctx

definition guarded :: "bool \<Rightarrow> 'a result \<Rightarrow> 'a result" where
  "guarded b m = (if b then m else Inl (Errorf ''out of range''))"

fun tss_exec :: "('p, 'r, 'c, 'w) tss_keeper \<Rightarrow> 'w tss_state \<Rightarrow> 'c tss_action \<Rightarrow> 'w tss_state result" where
  "tss_exec k s (Round1 m) = guarded (fits (m1_GroupID m) \<and> fits (ri_MemberID (m1_Round1Info m))) (SubmitDKGRound1 k s m)"
| "tss_exec k s (Round2 m) = guarded (fits (m2_GroupID m) \<and> fits (r2_MemberID (m2_Round2Info m))) (SubmitDKGRound2 k s m)"
| "tss_exec k s (Complaints m) =
     guarded (fits (mcp_GroupID m) \<and> (\<forall>c\<in>set (mcp_Complaints m). fits (comp_Complainant c) \<and> fits (comp_Respondent c))) (Complain k s m)"
| "tss_exec k s (Confirms m) = guarded (fits (mcf_GroupID m) \<and> fits (mcf_MemberID m)) (tss_Confirm k s m)"
| "tss_exec k s (Nonces m) =
     guarded (case AccAddressFromBech32 (xk_sdk k) (mde_Sender m) of Inl _ \<Rightarrow> True | Inr a \<Rightarrow> de_room k s a (length (mde_DEs m))) (SubmitDEs k s m)"
| "tss_exec k s (Signs m) =
     guarded (fits (mss_SigningID m) \<and> fits (mss_MemberID m) \<and> is_ok (MsgSubmitSignature_ValidateBasic (xk_sdk k) (xk_curve k) m)) (SubmitSignature k s m)"
| "tss_exec k s (Creates ctx members threshold owner) =
     guarded (fits (xs_group_count s + 1) \<and> fits threshold \<and> (\<forall>a\<in>set members. valid_addr a))
       (bindE (CreateGroup k ctx s members threshold owner) (\<lambda>(_, s). Inr s))"
| "tss_exec k s (Requests ctx gid originator content) =
     guarded (fits gid \<and> fits (xs_signing_count s + 1))
       (bindE (tss_RequestSigning k ctx s gid originator content) (\<lambda>(_, s). Inr s))"
| "tss_exec k s (EndBlock ctx) = guarded (fits (xs_signing_count s + length (xs_pending_groups s))) (tss_EndBlocker k ctx s)"

lemma guarded_Inr [simp]: "guarded b m = Inr x \<longleftrightarrow> b \<and> m = Inr x"
  by (simp add: guarded_def)

lemma tss_exec_step:
  assumes "tss_exec k s a = Inr s'"
  shows "tss_step k s s'"
proof (cases a)
  case (Round1 m)
  then show ?thesis using assms by (auto intro: tss_step.round1)
next
  case (Round2 m)
  then show ?thesis using assms by (auto intro: tss_step.round2)
next
  case (Complaints m)
  then show ?thesis using assms by (auto intro: tss_step.complain)
next
  case (Confirms m)
  then show ?thesis using assms by (auto intro: tss_step.confirm)
next
  case (Nonces m)
  then show ?thesis using assms by (auto intro!: tss_step.submit_des [where de = m])
next
  case (Signs m)
  then show ?thesis using assms by (auto intro!: tss_step.submit_signature [where sg = m] simp: is_ok_def split: sum.splits)
next
  case (Creates ctx members threshold owner)
  then show ?thesis using assms by (auto intro: tss_step.create_group)
next
  case (Requests ctx gid originator content)
  then show ?thesis using assms by (auto intro: tss_step.request_signing)
next
  case (EndBlock ctx)
  then show ?thesis using assms by (auto intro: tss_step.end_block)
qed

lemma tss_run_reachable: "tss_reachable k s \<Longrightarrow> foldE (tss_exec k) s as = Inr s' \<Longrightarrow> tss_reachable k s'"
  by (erule foldE_invariant) (auto intro: tss_reachable.step tss_exec_step)

section \<open>A run\<close>

text \<open>
  One member generates a key with threshold one, the group becomes active, the member hands in a nonce, a text is to be signed and the
  member signs it. On the curve of the integers modulo the order every challenge is 7.
\<close>

definition demo_tss :: "(int, unit, bytes, unit) tss_keeper" where
  "demo_tss = \<lparr>xk_sdk = plain_sdk, xk_curve = demo_curve, xk_new_drbg = (\<lambda>_ _ _. Inr ()), xk_drbg_read = (\<lambda>r n. Inr (replicate n 0, r)),
     xk_ValidateBasic = (\<lambda>_. Inr ()), xk_OrderRoute = (\<lambda>_. str ''text''),
     xk_contentRouter = \<lparr>rt_routes = [(str ''text'', \<lambda>ctx s c. tss_SignatureOrderHandler s (Some c))], rt_sealed = True\<rparr>,
     xk_cbRouter = \<lparr>rt_routes = [], rt_sealed = True\<rparr>, xk_authority = str ''gov'', xk_GetAuthorization = (\<lambda>_ _ _ _. True)\<rparr>"

definition demo_ctx :: "nat \<Rightarrow> tss_ctx" where
  "demo_ctx h = \<lparr>xc_BlockHeight = int h, xc_BlockTime = 1000, xc_ChainID = str ''band'', xc_LastCommitHash = [], xc_RollingSeed = []\<rparr>"

definition demo_sig :: "nat \<Rightarrow> nat \<Rightarrow> Signature" where
  "demo_sig nonce s = schnorr_Serialize demo_curve (int nonce) (int s)"

definition demo_point :: "nat \<Rightarrow> Point" where
  "demo_point n = cv_SerializeCompressed demo_curve (int n)"

definition demo_actions :: "bytes tss_action list" where
  "demo_actions =
     [Creates (demo_ctx 1) [str ''m''] 1 (str ''owner''),
      Round1 \<lparr>m1_GroupID = 1, m1_Round1Info = \<lparr>ri_MemberID = 1, ri_CoefficientCommits = [demo_point 5], ri_OneTimePubKey = demo_point 4,
        ri_A0Signature = demo_sig 2 37, ri_OneTimeSignature = demo_sig 2 30\<rparr>, m1_Sender = str ''m''\<rparr>,
      EndBlock (demo_ctx 1),
      Round2 \<lparr>m2_GroupID = 1, m2_Round2Info = \<lparr>r2_MemberID = 1, r2_EncryptedSecretShares = []\<rparr>, m2_Sender = str ''m''\<rparr>,
      EndBlock (demo_ctx 2),
      Confirms \<lparr>mcf_GroupID = 1, mcf_MemberID = 1, mcf_OwnPubKeySig = demo_sig 2 37, mcf_Sender = str ''m''\<rparr>,
      EndBlock (demo_ctx 3),
      Nonces \<lparr>mde_DEs = [\<lparr>de_PubD = demo_point 2, de_PubE = demo_point 3\<rparr>], mde_Sender = str ''m''\<rparr>,
      Requests (demo_ctx 4) 1 (DirectOriginator (str ''band'') (str ''r'') []) (str ''hello''),
      Signs \<lparr>mss_SigningID = 1, mss_MemberID = 1, mss_Signature = demo_sig 23 58, mss_Signer = str ''m''\<rparr>,
      EndBlock (demo_ctx 4)]"

definition demo_s0 :: "unit tss_state" where
  "demo_s0 = tss_empty ()"

definition demo_s1 :: "unit tss_state" where
  "demo_s1 = (tss_empty ())\<lparr>xs_group_count := 1,
     xs_groups := [(GroupStoreKey 1, \<lparr>grp_ID = 1, grp_Size = 1, grp_Threshold = 1, grp_PubKey = [], grp_Status = GROUP_STATUS_ROUND_1, grp_CreatedHeight = 1, grp_ModuleOwner = str ''owner''\<rparr>)],
     xs_members := [(MemberStoreKey 1 1, \<lparr>mem_ID = 1, mem_GroupID = 1, mem_Address = str ''m'', mem_PubKey = [], mem_IsMalicious = False, mem_IsActive = True\<rparr>)],
     xs_dkg := [(DKGContextStoreKey 1, be_bytes 32 7)]\<rparr>"

definition demo_s2 :: "unit tss_state" where
  "demo_s2 = (demo_s1)\<lparr>xs_pending_groups := [1],
     xs_round1 := [(Round1InfoStoreKey 1 1, \<lparr>ri_MemberID = 1, ri_CoefficientCommits = [demo_point 5], ri_OneTimePubKey = demo_point 4, ri_A0Signature = demo_sig 2 37, ri_OneTimeSignature = demo_sig 2 30\<rparr>)],
     xs_round1_count := [(Round1InfoCountStoreKey 1, 1)],
     xs_acc := [(AccumulatedCommitStoreKey 1 0, demo_point 5)]\<rparr>"

definition demo_s3 :: "unit tss_state" where
  "demo_s3 = (demo_s2)\<lparr>xs_pending_groups := [],
     xs_groups := [(GroupStoreKey 1, \<lparr>grp_ID = 1, grp_Size = 1, grp_Threshold = 1, grp_PubKey = demo_point 5, grp_Status = GROUP_STATUS_ROUND_2, grp_CreatedHeight = 1, grp_ModuleOwner = str ''owner''\<rparr>)]\<rparr>"

definition demo_s4 :: "unit tss_state" where
  "demo_s4 = (demo_s3)\<lparr>xs_pending_groups := [1],
     xs_members := [(MemberStoreKey 1 1, \<lparr>mem_ID = 1, mem_GroupID = 1, mem_Address = str ''m'', mem_PubKey = demo_point 5, mem_IsMalicious = False, mem_IsActive = True\<rparr>)],
     xs_round2 := [(Round2InfoStoreKey 1 1, \<lparr>r2_MemberID = 1, r2_EncryptedSecretShares = []\<rparr>)],
     xs_round2_count := [(Round2InfoCountStoreKey 1, 1)]\<rparr>"

definition demo_s5 :: "unit tss_state" where
  "demo_s5 = (demo_s4)\<lparr>xs_pending_groups := [],
     xs_groups := [(GroupStoreKey 1, \<lparr>grp_ID = 1, grp_Size = 1, grp_Threshold = 1, grp_PubKey = demo_point 5, grp_Status = GROUP_STATUS_ROUND_3, grp_CreatedHeight = 1, grp_ModuleOwner = str ''owner''\<rparr>)]\<rparr>"

definition demo_s6 :: "unit tss_state" where
  "demo_s6 = (demo_s5)\<lparr>xs_pending_groups := [1],
     xs_confirms := [(ConfirmStoreKey 1 1, \<lparr>conf_MemberID = 1, conf_OwnPubKeySig = demo_sig 2 37\<rparr>)],
     xs_cc_count := [(ConfirmComplainCountStoreKey 1, 1)]\<rparr>"

definition demo_s7 :: "unit tss_state" where
  "demo_s7 = (demo_s6)\<lparr>xs_pending_groups := [],
     xs_groups := [(GroupStoreKey 1, \<lparr>grp_ID = 1, grp_Size = 1, grp_Threshold = 1, grp_PubKey = demo_point 5, grp_Status = GROUP_STATUS_ACTIVE, grp_CreatedHeight = 1, grp_ModuleOwner = str ''owner''\<rparr>)]\<rparr>"

definition demo_s8 :: "unit tss_state" where
  "demo_s8 = (demo_s7)\<lparr>xs_de := [(DEStoreKey plain_sdk (str ''m'') 0, \<lparr>de_PubD = demo_point 2, de_PubE = demo_point 3\<rparr>)],
     xs_deq := [(DEQueueStoreKey plain_sdk (str ''m''), \<lparr>deq_Head = 0, deq_Tail = 1\<rparr>)]\<rparr>"

definition demo_s9 :: "unit tss_state" where
  "demo_s9 = (demo_s8)\<lparr>xs_signing_count := 1,
     xs_expirations := [\<lparr>se_SigningID = 1, se_SigningAttempt = 1\<rparr>],
     xs_de := [],
     xs_deq := [(DEQueueStoreKey plain_sdk (str ''m''), \<lparr>deq_Head = 1, deq_Tail = 1\<rparr>)],
     xs_signings := [(SigningStoreKey 1, \<lparr>sgn_ID = 1, sgn_CurrentAttempt = 1, sgn_GroupID = 1, sgn_GroupPubKey = demo_point 5, sgn_Message = be_bytes 32 7 @ be_bytes 8 0 @ be_bytes 8 1 @ [0xb1, 0xf7, 0x60, 0x16] @ str ''hello'', sgn_GroupPubNonce = demo_point 23, sgn_Signature = [], sgn_Status = SIGNING_STATUS_WAITING, sgn_CreatedHeight = 4, sgn_CreatedTimestamp = 1000\<rparr>)],
     xs_attempts := [(SigningAttemptStoreKey 1 1, \<lparr>sa_SigningID = 1, sa_Attempt = 1, sa_ExpiredHeight = 104, sa_AssignedMembers = [\<lparr>am_MemberID = 1, am_Address = str ''m'', am_PubKey = demo_point 5, am_PubD = demo_point 2, am_PubE = demo_point 3, am_BindingFactor = be_bytes 32 7, am_PubNonce = demo_point 23\<rparr>]\<rparr>)]\<rparr>"

definition demo_s10 :: "unit tss_state" where
  "demo_s10 = (demo_s9)\<lparr>xs_pending_signings := [1],
     xs_psig_count := [(PartialSignatureCountStoreKey 1 1, 1)],
     xs_psigs := [(PartialSignatureStoreKey 1 1 1, demo_sig 23 58)]\<rparr>"

definition demo_s11 :: "unit tss_state" where
  "demo_s11 = (demo_s10)\<lparr>xs_pending_signings := [],
     xs_signings := [(SigningStoreKey 1, \<lparr>sgn_ID = 1, sgn_CurrentAttempt = 1, sgn_GroupID = 1, sgn_GroupPubKey = demo_point 5, sgn_Message = be_bytes 32 7 @ be_bytes 8 0 @ be_bytes 8 1 @ [0xb1, 0xf7, 0x60, 0x16] @ str ''hello'', sgn_GroupPubNonce = demo_point 23, sgn_Signature = demo_sig 23 58, sgn_Status = SIGNING_STATUS_SUCCESS, sgn_CreatedHeight = 4, sgn_CreatedTimestamp = 1000\<rparr>)]\<rparr>"

section \<open>The curve of the run\<close>

lemma demo_small [simp]: "n \<le> 100 \<Longrightarrow> int n mod N = int n"
  by (simp add: N_def)

lemma demo_parse [simp]: "1 \<le> n \<Longrightarrow> n \<le> 100 \<Longrightarrow> cv_ParsePubKey demo_curve (demo_point n) = Some (int n)"
  using curve_lawsD(5) [OF demo_curve_laws, of "int n"] by (simp add: demo_point_def)

lemma demo_sig_parts [simp]:
  "Signature_R (demo_sig r s) = demo_point r" "s \<le> 100 \<Longrightarrow> Signature_S (demo_sig r s) = be_bytes 32 s"
  by (simp_all add: demo_sig_def schnorr_Serialize_def Signature_R_def Signature_S_def demo_point_def)

lemma demo_jacobian [simp]: "1 \<le> n \<Longrightarrow> n \<le> 100 \<Longrightarrow> jacobianPoint demo_curve (demo_point n) = Inr (int n)"
  by (simp add: jacobianPoint_def publicKey_def)

lemma demo_new_point [simp]: "NewPointFromJacobianPoint demo_curve (int n) = demo_point n"
  by (simp add: NewPointFromJacobianPoint_def demo_point_def)

lemma demo_verify:
  assumes "1 \<le> r" "r \<le> 100" "1 \<le> p" "p \<le> 100" "r + 7 * p \<le> 100" "case l of None \<Rightarrow> True | Some x \<Rightarrow> modNScalar x = 1"
  shows "Verify demo_curve (demo_point r) (be_bytes 32 (r + 7 * p)) (be_bytes 32 7) (demo_point p) None l = Inr ()"
proof -
  have "scale_challenge (be_bytes 32 7) l = 7"
    using assms(6) demo_small [of 7] by (auto simp: scale_challenge_def split: option.splits)
  moreover have "int r mod N = (modNScalar (be_bytes 32 (r + 7 * p)) * 1 - 7 * int p) mod N"
    using assms modNScalar_small [OF assms(5)] by simp
  ultimately show ?thesis
    using Verify_base [OF demo_curve_laws, of "demo_point r" "int r" "demo_point p" "int p", where gen = None and g = 1] assms by simp
qed

lemma demo_challenge' [simp]:
  assumes "1 \<le> r" "r \<le> 100" "1 \<le> p" "p \<le> 100"
  shows "HashChallenge demo_curve (demo_point r) (demo_point p) data = Inr (be_bytes 32 7)"
proof -
  have "length (demo_point p) = 33" by (simp add: demo_point_def)
  then show ?thesis using assms by (simp add: HashChallenge_def Point_Address_def publicKey_def index_def)
qed

lemma demo_lagrange:
  obtains l where "ComputeLagrangeCoefficient (Suc 0) [Suc 0] = Inr l" "modNScalar l = 1"
proof -
  have g: "good_ids [1]" by (rule good_ids_small) simp_all
  obtain l where l: "ComputeLagrangeCoefficient 1 [1] = Inr l"
      "modNScalar l * denom (int ` set [1]) (int 1) mod N = numer (int ` set [1]) (int 1) mod N"
    by (rule ComputeLagrangeCoefficient_weight [OF g, of 1]) auto
  then have "modNScalar l = 1" using demo_small [of 1] by (simp add: denom_def numer_def)
  then show thesis using that l(1) by simp
qed

lemma demo_Keccak [simp]: "cv_Keccak256 demo_curve m = be_bytes 32 7"
  by (simp add: demo_curve_def)

lemma demo_signature_of: "signature_of demo_curve (demo_sig 23 58) = Inr (23, 58)"
  using signature_of_Serialize [OF demo_curve_laws, of 23 58] by (simp add: demo_sig_def N_def)

lemma demo_crypto [simp]:
  "VerifyOneTimeSignature demo_curve m ctx (demo_sig 2 30) (demo_point 4) = Inr ()"
  "VerifyA0Signature demo_curve m ctx (demo_sig 2 37) (demo_point 5) = Inr ()"
  "VerifyOwnPubKeySignature demo_curve m ctx (demo_sig 2 37) (demo_point 5) = Inr ()"
  "SumPoints demo_curve [demo_point 5] = Inr (demo_point 5)"
  "ComputeOwnPublicKey demo_curve [demo_point 5] m = Inr (demo_point 5)"
  "ComputeOwnBindingFactor demo_curve m msg commitment = Inr (be_bytes 32 7)"
  "ComputeOwnPubNonce demo_curve (demo_point 2) (demo_point 3) (be_bytes 32 7) = Inr (demo_point 23)"
  "ComputeGroupPublicNonce demo_curve [demo_point 23] = Inr (demo_point 23)"
  "Signature_Validate demo_curve (demo_sig 23 58) = Inr ()"
  "modNScalar l = 1 \<Longrightarrow> VerifySigningSignature demo_curve (demo_point 23) (demo_point 5) data l (demo_sig 23 58) (demo_point 5) = Inr ()"
  "CombineSignatures demo_curve [demo_sig 23 58] = Inr (demo_sig 23 58)"
  "VerifyGroupSigningSignature demo_curve (demo_point 5) data (demo_sig 23 58) = Inr ()"
  subgoal using demo_verify [of 2 4 None] by (simp add: VerifyOneTimeSignature_def HashRound1OneTime_def)
  subgoal using demo_verify [of 2 5 None] by (simp add: VerifyA0Signature_def HashRound1A0_def)
  subgoal using demo_verify [of 2 5 None] by (simp add: VerifyOwnPubKeySignature_def HashRound3OwnPubKey_def)
  subgoal using demo_small [of 5] demo_new_point [of 5] by (simp add: SumPoints_def jacobianPoints_def sumPoints_def)
  subgoal using demo_small [of 5] demo_new_point [of 5] by (simp add: ComputeOwnPublicKey_def jacobianPoints_def solvePointPolynomial_def)
  subgoal by (simp add: ComputeOwnBindingFactor_def HashBindingFactor_def)
  subgoal using demo_small [of 21] demo_small [of 23] demo_new_point [of 23] by (simp add: ComputeOwnPubNonce_def)
  subgoal using demo_small [of 23] demo_new_point [of 23] by (simp add: ComputeGroupPublicNonce_def jacobianPoints_def sumPoints_def)
  subgoal by (simp add: Signature_Validate_def demo_signature_of)
  subgoal using demo_verify [of 23 5 "Some l"] by (simp add: VerifySigningSignature_def)
  subgoal using demo_small [of 23] demo_small [of 58] by (simp add: CombineSignatures_def demo_signature_of sumPoints_def sumScalars_def) (simp add: demo_sig_def)
  subgoal using demo_verify [of 23 5 None] by (simp add: VerifyGroupSigningSignature_def)
  done

lemmas run_defs = demo_s0_def demo_s1_def demo_s2_def demo_s3_def demo_s4_def demo_s5_def demo_s6_def demo_s7_def demo_s8_def demo_s9_def
  demo_s10_def demo_s11_def demo_actions_def guarded_def fits_def valid_addr_def Let_def tss_empty_def demo_ctx_def plain_sdk_def u64_def
  tss_DefaultParams_def Hash_def kv_has_def str_def

lemma demo_tss_sel [simp]:
  "xk_sdk demo_tss = plain_sdk" "xk_curve demo_tss = demo_curve" "xk_new_drbg demo_tss = (\<lambda>_ _ _. Inr ())"
  "xk_drbg_read demo_tss = (\<lambda>r n. Inr (replicate n 0, r))" "xk_ValidateBasic demo_tss = (\<lambda>_. Inr ())"
  "xk_OrderRoute demo_tss = (\<lambda>_. str ''text'')"
  "xk_contentRouter demo_tss = \<lparr>rt_routes = [(str ''text'', \<lambda>ctx s c. tss_SignatureOrderHandler s (Some c))], rt_sealed = True\<rparr>"
  "xk_cbRouter demo_tss = \<lparr>rt_routes = [], rt_sealed = True\<rparr>"
  by (simp_all add: demo_tss_def)

lemma run_tables [simp]:
  "kv_prefix_iterator [(MemberStoreKey a i, m)] (MembersStoreKey a) = [(MemberStoreKey a i, m)]"
  "kv_prefix_iterator [(AccumulatedCommitStoreKey a i, p)] (AccumulatedCommitsStoreKey a) = [(AccumulatedCommitStoreKey a i, p)]"
  "kv_prefix_iterator [(PartialSignatureStoreKey a t i, x)] (PartialSignaturesStoreKey a t) = [(PartialSignatureStoreKey a t i, x)]"
  "kv_get [(key, v)] key = Some v"
  by (simp_all add: kv_prefix_iterator_def has_prefix_iff MemberStoreKey_def AccumulatedCommitStoreKey_def PartialSignatureStoreKey_def kv_get_def)

lemmas keeper_defs = SetGroup_def SetGroupCount_def SetMember_def SetDKGContext_def to_uint64_def GetGroup_def GetMember_def GetDKGContext_def
  counter_def AddPendingProcessGroup_def wrap_err_def MustGetGroup_def must_def with_callback_def CallbackRouter_GetRoute_def

lemmas block_defs = tss_EndBlocker_def HandleProcessGroup_def HandleExpiredGroups_def HandleSigningEndBlock_def HandleExpiredSignings_def

lemma r0: "tss_exec demo_tss demo_s0 (demo_actions ! 0) = Inr demo_s1"
  by (simp add: run_defs keeper_defs CreateGroup_def AddGroup_def)

lemma r1: "tss_exec demo_tss demo_s1 (demo_actions ! 1) = Inr demo_s2"
  by (simp add: run_defs keeper_defs SubmitDKGRound1_def ValidateMemberID_def HasRound1Info_def ValidateRound1Info_def
     index_def AddCoefficientCommits_def GetAccumulatedCommit_def SetAccumulatedCommit_def AddRound1Info_def SetRound1Info_def
     SetRound1InfoCount_def GetRound1InfoCount_def)

lemma r2: "tss_exec demo_tss demo_s2 (demo_actions ! 2) = Inr demo_s3"
  by (simp add: run_defs keeper_defs block_defs GetAccumulatedCommit_def)

lemma r3: "tss_exec demo_tss demo_s3 (demo_actions ! 3) = Inr demo_s4"
  by (simp add: run_defs keeper_defs SubmitDKGRound2_def ValidateMemberID_def HasRound2Info_def UpdateMemberPubKey_def GetAllAccumulatedCommits_def
     AddRound2Info_def SetRound2Info_def SetRound2InfoCount_def GetRound2InfoCount_def)

lemma r4: "tss_exec demo_tss demo_s4 (demo_actions ! 4) = Inr demo_s5"
  by (simp add: run_defs keeper_defs block_defs)

lemma r5: "tss_exec demo_tss demo_s5 (demo_actions ! 5) = Inr demo_s6"
  by (simp add: run_defs keeper_defs tss_Confirm_def ValidateMemberID_def HasConfirm_def HasComplaintsWithStatus_def tss_VerifyOwnPubKeySignature_def
     AddConfirm_def SetConfirm_def SetConfirmComplainCount_def GetConfirmComplainCount_def)

lemma r6: "tss_exec demo_tss demo_s6 (demo_actions ! 6) = Inr demo_s7"
  by (simp add: run_defs keeper_defs block_defs MustGetMembers_def GetGroupMembers_def GetGroupMembersIterator_def HaveMalicious_def)

lemma r7: "tss_exec demo_tss demo_s7 (demo_actions ! 7) = Inr demo_s8"
  by (simp add: run_defs keeper_defs SubmitDEs_def EnqueueDEs_def GetDEQueue_def SetDE_def SetDEQueue_def de_room_def)

lemma r8: "tss_exec demo_tss demo_s8 (demo_actions ! 8) = Inr demo_s9"
  by (simp add: run_defs keeper_defs tss_RequestSigning_def HasRoute_def ContentRouter_GetRoute_def tss_SignatureOrderHandler_def CreateSigning_def
     EncodeSigning_def Unix_def InitiateNewSigningRound_def tss_GetSigning_def SetSigning_def AssignMembersForSigning_def GetRandomMembers_def
     GetAvailableMembers_def available_step_def GetGroupMembersIterator_def MustAccAddressFromBech32_def HasDE_def GetDEQueue_def NewRng_def
     NextUint64_def DequeueDEs_def DequeueDE_def GetDE_def DeleteDE_def SetDEQueue_def NewAssignedMember_def ComputeCommitment_def commitment_step_def
     bind_nonce_def SetSigningAttempt_def AddSigningExpiration_def kv_delete_def)

lemma r9: "tss_exec demo_tss demo_s9 (demo_actions ! 9) = Inr demo_s10"
proof -
  obtain l where l: "ComputeLagrangeCoefficient (Suc 0) [Suc 0] = Inr l" "modNScalar l = 1" by (rule demo_lagrange)
  then show ?thesis
    by (simp add: run_defs keeper_defs MsgSubmitSignature_ValidateBasic_def sender_ok_def SubmitSignature_def tss_GetSigning_def GetSigningAttempt_def
       FindAssignedMember_def HasPartialSignature_def VerifySignatureR_def AddPartialSignature_def AddPartialSignatureCount_def SetPartialSignature_def
       GetPartialSignatureCount_def AddPendingProcessSigning_def)
qed

lemma r10: "tss_exec demo_tss demo_s10 (demo_actions ! 10) = Inr demo_s11"
  by (simp add: run_defs keeper_defs block_defs aggregate_step_def AggregatePartialSignatures_def MustGetSigning_def tss_GetSigning_def
     GetPartialSignatures_def SetSigning_def catchE_def MustGetSigningAttempt_def GetSigningAttempt_def)

lemma demo_genesis: "tss_reachable demo_tss demo_s0"
proof -
  have "tss_InitGenesis demo_tss (tss_empty ()) \<lparr>xg_Params = tss_DefaultParams, xg_Groups = [], xg_Members = [], xg_DEs = []\<rparr> = Inr demo_s0"
    by (simp add: tss_InitGenesis_def tss_SetParams_def tss_Params_Validate_def tss_validateUint64_def SetMembers_def SetGroupGenesis_def SetGroupCount_def
        group_des_def run_defs must_def)
  then show ?thesis by (rule tss_reachable.genesis [rotated 2]) (simp_all add: tss_DefaultParams_def fits_def)
qed

lemmas reach = tss_reachable.step [OF _ tss_exec_step]
lemmas reach1 = reach [OF demo_genesis r0]
lemmas reach5 = reach [OF reach [OF reach [OF reach [OF reach1 r1] r2] r3] r4]
lemmas reach8 = reach [OF reach [OF reach [OF reach5 r5] r6] r7]
lemmas reach10 = reach [OF reach [OF reach8 r8] r9]
lemmas reach11 = reach [OF reach10 r10]

lemma demo_tss_laws: "tss_laws demo_tss"
  by (simp add: tss_laws_def demo_curve_laws callbacks_ok_def CallbackRouter_GetRoute_def kv_get_def)

end
