(* ===== verification/Spec2Isabelle.thy ===== *)
theory Spec2Isabelle
  imports Band_Prelude KV_Store KV_Index Bandrng Lagrange Obi Sdk Restake Feeds_Median Feeds_Vote Validator_Status Tickmath Feeds_Price Oracle_Props
    Tunnel_Data Tunnel Tunnel_Inv Tunnel_Packet Tunnel_Block Tunnel_Steps Tunnel_Genesis Tunnel_Props
    Interpolation Tss_Crypto Tss_Rounds Tss_Group Tss_Threshold Tss_Props
    Xtss_Data Xtss Xtss_Block Xtss_Views Xtss_Inv Xtss_Dkg Xtss_De Xtss_Sign Xtss_Round Xtss_End Xtss_Proc Xtss_Steps Xtss_Run Xtss_Props
begin

text \<open>
  Verification of the BandChain application (\<open>src/\<close>, written in Go): a chain whose validators report data for oracle
  requests and prices for a list of feeds. The theories model the application's own modules; the Cosmos SDK, the virtual machine
  of oracle scripts, cryptographic libraries and generated code are parameters.

  \<^bold>\<open>Shared theories.\<close>
  \<^item> \<open>Band_Prelude\<close>: byte strings, errors and panics as values (\<open>error\<close>, \<open>result\<close>), loops with early return (\<open>foldE\<close>), 64-bit
    integers with their wrap-around (\<open>i64\<close>, \<open>u64\<close>).
  \<^item> \<open>KV_Store\<close>, \<open>KV_Index\<close>: the ordered key-value store of the SDK and a secondary index over it, each a locale
    interpreted on the definitions the modules use.
  \<^item> \<open>Sdk\<close>: the address codec, \<open>sdk.Coins\<close> and the bank as parameters (\<open>sdk\<close>, \<open>bank_keeper\<close>) with the laws the code relies on, and an
    executable instance of them for the witnesses.

  \<^bold>\<open>Libraries of \<open>src/pkg\<close>.\<close>
  \<^item> \<open>Bandrng\<close> (\<open>pkg/bandrng\<close>): weighted sampling; the choice is proportional to the weights, distinct and the heaviest of its tries.
  \<^item> \<open>Lagrange\<close> (\<open>pkg/tss/internal/lagrange\<close>): the table-driven coefficient equals the direct one, which solves its field equation.
  \<^item> \<open>Interpolation\<close>: Lagrange interpolation of integer polynomials modulo the order of the curve, over distinct points.
  \<^item> \<open>Tss_Crypto\<close> (\<open>pkg/tss\<close>: types, hashes, operations, Schnorr signatures) and \<open>Tss_Rounds\<close> (the three rounds of key generation,
    share encryption, complaints, signing). The curve library is the record \<open>curve\<close>, an argument of every definition, with the group laws
    \<open>curve_laws\<close>; random bytes are arguments, and a retry loop is a function of the list of its draws, with the value \<open>None\<close> when they are used up.
    \<open>Tss_Group\<close> derives what each operation does to the discrete logarithms, \<open>Tss_Threshold\<close> the algebra of a group of
    signers, and \<open>Tss_Props\<close> states that the keys of the key generation are consistent, that shares are delivered, that a complaint with the shared key convicts
    exactly for a wrong share and that any upheld complaint satisfies the equation of its signature, and that partial signatures of a threshold of members combine to a valid signature. \<open>good_ids\<close> asks that differences of member
    ids are coprime to the order of the curve, which holds for all ids because the order is a prime; that primality is not proved here.
  \<^item> \<open>Obi\<close> (\<open>pkg/obi\<close>): the binary encoding round-trips and is canonical. Go's reflection is an explicit type descriptor.
  \<^item> \<open>Tickmath\<close> (\<open>pkg/tickmath\<close>): prices to ticks and back, with error bounds of the fixed-point logarithm.

  \<^bold>\<open>Modules of \<open>src/x\<close>.\<close>
  \<^item> \<open>Restake\<close> (\<open>x/restake\<close>): stakes, vaults and locks with their index by power. The stake and the delegations of an account cover its locks in active
    vaults as long as the parameters are not updated and no validator is slashed, which the code does not check against the locks; changes of
    delegations are steps under the staking hooks.
  \<^item> \<open>Feeds_Vote\<close>, \<open>Feeds_Median\<close>, \<open>Feeds_Price\<close> (\<open>x/feeds\<close>): votes and the total power of each signal, the current feeds, the
    weighted median, price submission and the price computation at the end of a block. Votes lock power through \<open>Restake\<close>,
    and missing prices deactivate validators through \<open>Validator_Status\<close>.
  \<^item> \<open>Validator_Status\<close> (\<open>x/oracle\<close>): activation and the penalty of a validator.
  \<^item> \<open>Oracle_Data\<close>, \<open>Oracle\<close> (\<open>x/oracle\<close>): the store, the environment of a script, requests, reports, results, expiry, all messages and
    genesis. \<open>Oracle_Inv\<close>, \<open>Oracle_Req\<close>, \<open>Oracle_Life\<close> and \<open>Oracle_Block\<close> prove the invariant of the store and what every handler does;
    \<open>Oracle_Props\<close> states the properties and evaluates a concrete life of a request. The validators are sampled with \<open>Bandrng\<close>.
  \<^item> \<open>Tunnel_Data\<close>, \<open>Tunnel\<close>, \<open>Tunnel_Genesis\<close> (\<open>x/tunnel\<close>): tunnels, deposits, packets, all messages, the end of a block, channel callbacks and
    genesis. The two routes are TSS and IBC; the bank, the signing service and the IBC channel behind them are fields of the keeper record, with the laws \<open>tunnel_laws\<close> and
    \<open>tunnel_no_panics\<close>, and the prices come from the state of \<open>x/feeds\<close>. \<open>Tunnel_Inv\<close> and \<open>Tunnel_Steps\<close> prove the invariant of the store (deposits add up, the
    active ids are the active tunnels) and, for runs that do not raise the minimum deposit, that active tunnels reach it;
    \<open>Tunnel_Packet\<close> and \<open>Tunnel_Block\<close> prove when a packet is produced and what it costs, and decide the turn of each active tunnel at the end of a block (\<open>tunnel_turn\<close>) from the coins
    of its fee payer, the due prices and the success of the hand-over (\<open>delivery\<close>); \<open>Tunnel_Props\<close> states the
    properties. \<open>counters_fit\<close> bounds the 64-bit counters so that they do not wrap.
  \<^item> \<open>Xtss_Data\<close>, \<open>Xtss\<close>, \<open>Xtss_Block\<close> (\<open>x/tss\<close>): groups and the three rounds of their creation with complaints, the selection of members, the queues of nonces,
    signings with their attempts, all messages, the end of a block with aggregation, expiry and retry, the queries of signings, and genesis, on top of \<open>Tss_Rounds\<close>. The modules
    that own groups are routes of callbacks, parameters with the law \<open>callbacks_ok\<close>: they request signatures through the keeper, switch members on and off and change their
    own state. \<open>Xtss_Views\<close> reads the stores as maps over ids, \<open>Xtss_Inv\<close>, \<open>Xtss_Dkg\<close>, \<open>Xtss_De\<close>, \<open>Xtss_Sign\<close> and \<open>Xtss_Round\<close> have the invariants of members, key
    generation, nonces (a locale of queues, interpreted on the stored ones) and signings, \<open>Xtss_End\<close> and \<open>Xtss_Proc\<close> show that the end of a block keeps them,
    and \<open>Xtss_Steps\<close> that every step does. \<open>Xtss_Run\<close> evaluates a run from genesis to a signature, and \<open>Xtss_Props\<close> states the properties: what a successful signing
    holds, that complete rounds aggregate, the keys of a group, the selected members, the order of the nonces, and which exports are invalid. \<open>fits\<close> says that
    an id or a counter is below \<open>2 ^ 64\<close>, so that it does not wrap; the runs start from a genesis without groups.

  \<^bold>\<open>Conventions.\<close> A handler takes the state and returns an error or the new state; a failed transaction leaves no state, as the SDK
  reverts it. A Go panic is the error \<open>Panic\<close>. The store of a module is a record with one ordered map per key prefix; keys are the byte strings
  the code builds, so that iteration order is the code's. \<open>math.Int\<close> is unbounded (the SDK panics beyond 256 bits). Loops over slices are
  folds; the loop over expiring requests is a \<open>function\<close> with a decreasing measure, and ids are assumed below the last 64-bit number so that its
  counter does not wrap. Modules that are called through an interface are fields of a keeper record, and what is
  assumed of them is a named law (\<open>coin_laws\<close>, \<open>bank_laws\<close>, \<open>val_laws\<close>, \<open>send_laws\<close>, \<open>gas_laws\<close> and others), shown satisfiable by the
  instances the witnesses use.

  \<^bold>\<open>Not modelled.\<close> Events, logging, gRPC queries, protobuf and ABI codecs, module wiring, migrations and state-sync snapshots; the IBC channel handshakes of
  \<open>x/oracle\<close>; the off-chain daemons \<open>yoda\<close>, \<open>grogu\<close> and \<open>cylinder\<close>, which are network I/O around the chain; the elliptic-curve arithmetic
  below \<open>pkg/tss\<close>, which is a third-party library, and its unused hash variants (\<open>hash_paper.go\<close>); and the modules \<open>x/bandtss\<close>,
  \<open>x/globalfee\<close>, \<open>x/rollingseed\<close>.
\<close>

end
